(* ===== verification/Ext2_Prelude.thy ===== *)
theory Ext2_Prelude
  imports Main "HOL-Library.Word" "HOL-Library.Signed_Division"
begin

text \<open>
  Shared vocabulary of the development: fixed-width integer types, the outcome type that makes
  panics, lock misuse and accesses outside a buffer explicit, checked array access, the bitmap
  macros of \<^verbatim>\<open>sys/param.h\<close>, and generic lemmas on lists, words and bit counts that the component
  theories use.
\<close>

unbundle bit_operations_syntax

named_theorems outcome_simps \<open>evaluation of the outcome operations\<close>
named_theorems geom_simps \<open>arithmetic of the block and inode geometry\<close>

section \<open>Machine types\<close>

type_synonym u8 = "8 word"
type_synonym u16 = "16 word"
type_synonym u32 = "32 word"
type_synonym u64 = "64 word"
type_synonym bytes = "8 word list"

text \<open>
  A C value of a signed type, or of a 64-bit type that never leaves the signed range, is an
  \<^typ>\<open>int\<close>; a narrowing assignment is written out with the functions below. Values the source
  keeps in unsigned fields are words, so their arithmetic wraps.
\<close>

definition s32 :: "int \<Rightarrow> int" where
  "s32 x = signed_take_bit 31 x"

definition s16 :: "int \<Rightarrow> int" where
  "s16 x = signed_take_bit 15 x"

definition s64 :: "int \<Rightarrow> int" where
  "s64 x = signed_take_bit 63 x"

lemma s32_id: "- (2 ^ 31) \<le> x \<Longrightarrow> x < 2 ^ 31 \<Longrightarrow> s32 x = x"
  by (simp add: s32_def signed_take_bit_int_eq_self)

lemma s64_id: "- (2 ^ 63) \<le> x \<Longrightarrow> x < 2 ^ 63 \<Longrightarrow> s64 x = x"
  by (simp add: s64_def signed_take_bit_int_eq_self)

lemma s32_small [simp]: "0 \<le> x \<Longrightarrow> x < 2147483648 \<Longrightarrow> s32 x = x"
  by (rule s32_id) simp_all

lemma s32_range: "- 2147483648 \<le> s32 x \<and> s32 x < 2147483648"
  using signed_take_bit_int_greater_eq_minus_exp [of 31 x] signed_take_bit_int_less_exp [of 31 x]
  by (simp add: s32_def)

lemma sint_unat_small: "unat w < 2 ^ 31 \<Longrightarrow> sint w = int (unat w)" for w :: u32
proof -
  assume "unat w < 2 ^ 31"
  then have "int (unat w) < int (2 ^ 31)" by (simp only: of_nat_less_iff)
  then have "uint w < 2 ^ 31" by simp
  moreover have "- (2 ^ 31) \<le> uint w" by (rule order_trans [OF _ uint_ge_0]) simp
  ultimately show ?thesis by (simp add: sint_uint signed_take_bit_int_eq_self)
qed

lemma unat_word_of_int_small: "0 \<le> x \<Longrightarrow> x < 2 ^ 32 \<Longrightarrow> unat (word_of_int x :: u32) = nat x"
proof -
  assume "0 \<le> x" "x < 2 ^ 32"
  then have "uint (word_of_int x :: u32) = x" by (simp add: uint_word_of_int)
  then have "int (unat (word_of_int x :: u32)) = x" by simp
  then show ?thesis by (metis nat_int)
qed

section \<open>Outcomes\<close>

text \<open>
  What a kernel routine can do besides returning: panic with a message, touch memory outside an
  array (undefined behaviour in C), dereference a null pointer, divide by zero, loop for ever, or take a mutex
  it already holds or release one it does not hold.
\<close>

datatype fault = Panic string | Oob | NullDeref | DivZero | LockFault | Undef | Hang

datatype 'a outcome = Ret 'a | Fault fault

fun bnd :: "'a outcome \<Rightarrow> ('a \<Rightarrow> 'b outcome) \<Rightarrow> 'b outcome" where
  "bnd (Ret x) f = f x"
| "bnd (Fault e) f = Fault e"

lemma bnd_cong [fundef_cong]:
  "m = m' \<Longrightarrow> (\<And>x. m' = Ret x \<Longrightarrow> f x = g x) \<Longrightarrow> bnd m f = bnd m' g"
  by (cases m') auto

lemma bnd_Ret_iff [simp]: "bnd m f = Ret y \<longleftrightarrow> (\<exists>x. m = Ret x \<and> f x = Ret y)"
  by (cases m) auto

lemma bnd_RetE: "bnd m f = Ret y \<Longrightarrow> (\<And>x. m = Ret x \<Longrightarrow> f x = Ret y \<Longrightarrow> P) \<Longrightarrow> P"
  by (cases m) auto

lemma bnd_Fault_iff:
  "bnd m f = Fault e \<longleftrightarrow> m = Fault e \<or> (\<exists>x. m = Ret x \<and> f x = Fault e)"
  by (cases m) auto

lemma bnd_assoc: "bnd (bnd m f) g = bnd m (\<lambda>x. bnd (f x) g)"
  by (cases m) auto

lemma bnd_Ret_right [simp]: "bnd m Ret = m"
  by (cases m) auto

fun is_ret :: "'a outcome \<Rightarrow> bool" where
  "is_ret (Ret _) = True"
| "is_ret (Fault _) = False"

lemma is_ret_iff: "is_ret m \<longleftrightarrow> (\<exists>x. m = Ret x)"
  by (cases m) auto

declare bnd.simps [outcome_simps]

section \<open>Checked array access\<close>

definition rd :: "'a list \<Rightarrow> int \<Rightarrow> 'a outcome" where
  "rd xs i = (if 0 \<le> i \<and> i < int (length xs) then Ret (xs ! nat i) else Fault Oob)"

definition wr :: "'a list \<Rightarrow> int \<Rightarrow> 'a \<Rightarrow> 'a list outcome" where
  "wr xs i v = (if 0 \<le> i \<and> i < int (length xs) then Ret (xs[nat i := v]) else Fault Oob)"

lemma rd_Ret [simp]: "rd xs i = Ret x \<longleftrightarrow> 0 \<le> i \<and> i < int (length xs) \<and> xs ! nat i = x"
  by (auto simp: rd_def)

lemma wr_Ret [simp]: "wr xs i v = Ret ys \<longleftrightarrow> 0 \<le> i \<and> i < int (length xs) \<and> ys = xs[nat i := v]"
  by (auto simp: wr_def)

lemma rd_in: "0 \<le> i \<Longrightarrow> i < int (length xs) \<Longrightarrow> rd xs i = Ret (xs ! nat i)"
  by simp

lemma wr_in: "0 \<le> i \<Longrightarrow> i < int (length xs) \<Longrightarrow> wr xs i v = Ret (xs[nat i := v])"
  by simp

lemma rd_out: "i < 0 \<or> int (length xs) \<le> i \<Longrightarrow> rd xs i = Fault Oob"
  by (auto simp: rd_def)

section \<open>C division\<close>

text \<open>C division truncates towards zero; on non-negative operands it is \<^const>\<open>divide\<close>.\<close>

lemma sdiv_nonneg [geom_simps]: "0 \<le> (a::int) \<Longrightarrow> 0 \<le> b \<Longrightarrow> a sdiv b = a div b"
  by (cases "a = 0"; cases "b = 0") (simp_all add: signed_divide_int_def sgn_if)

lemma smod_nonneg [geom_simps]: "0 \<le> (a::int) \<Longrightarrow> 0 \<le> b \<Longrightarrow> a smod b = a mod b"
  using sdiv_nonneg [of a b] smod_int_alt_def [of a b] by (cases "a = 0") (auto simp: sgn_if)

lemma int_div_nat: "0 \<le> (i::int) \<Longrightarrow> nat (i div 8) = nat i div 8"
  by (simp add: nat_div_distrib)

lemma int_mod_nat: "0 \<le> (i::int) \<Longrightarrow> nat (i mod 8) = nat i mod 8"
  by (simp add: nat_mod_distrib)

section \<open>Bit maps\<close>

definition NBBY :: int where "NBBY = 8"

text \<open>
  The macros \<^verbatim>\<open>isset\<close>, \<^verbatim>\<open>isclr\<close>, \<^verbatim>\<open>setbit\<close> and \<^verbatim>\<open>clrbit\<close> of \<^verbatim>\<open>sys/param.h\<close>; a negative bit number is
  a shift by a negative amount, which C leaves undefined.
\<close>

definition isset :: "bytes \<Rightarrow> int \<Rightarrow> bool outcome" where
  "isset a i = (if i < 0 then Fault Undef
     else bnd (rd a (i sdiv NBBY)) (\<lambda>b. Ret (b AND push_bit (nat (i smod NBBY)) 1 \<noteq> 0)))"

definition isclr :: "bytes \<Rightarrow> int \<Rightarrow> bool outcome" where
  "isclr a i = (if i < 0 then Fault Undef
     else bnd (rd a (i sdiv NBBY)) (\<lambda>b. Ret (b AND push_bit (nat (i smod NBBY)) 1 = 0)))"

definition setbit :: "bytes \<Rightarrow> int \<Rightarrow> bytes outcome" where
  "setbit a i = (if i < 0 then Fault Undef
     else bnd (rd a (i sdiv NBBY)) (\<lambda>b.
       wr a (i sdiv NBBY) (b OR push_bit (nat (i smod NBBY)) 1)))"

definition clrbit :: "bytes \<Rightarrow> int \<Rightarrow> bytes outcome" where
  "clrbit a i = (if i < 0 then Fault Undef
     else bnd (rd a (i sdiv NBBY)) (\<lambda>b.
       wr a (i sdiv NBBY) (b AND NOT (push_bit (nat (i smod NBBY)) 1))))"

text \<open>The abstract view of a bitmap: is bit \<open>i\<close> in use?\<close>

definition used :: "bytes \<Rightarrow> nat \<Rightarrow> bool" where
  "used bm i \<longleftrightarrow> bit (bm ! (i div 8)) (i mod 8)"

lemma and_exp_eq_0_iff: "(w AND 2 ^ k = 0) = (\<not> bit w k)" for w :: u8
  using bit_iff_and_push_bit_not_eq_0 [of w k] by simp

lemma bit_exp_u8: "k < 8 \<Longrightarrow> bit (2 ^ k :: u8) j = (j = k)"
  by (auto simp: bit_exp_iff)

lemma isset_eq: "0 \<le> i \<Longrightarrow> nat i < 8 * length bm \<Longrightarrow> isset bm i = Ret (used bm (nat i))"
  by (auto simp: isset_def used_def NBBY_def geom_simps rd_def and_exp_eq_0_iff int_div_nat int_mod_nat)

lemma isclr_eq: "0 \<le> i \<Longrightarrow> nat i < 8 * length bm \<Longrightarrow> isclr bm i = Ret (\<not> used bm (nat i))"
  by (auto simp: isclr_def used_def NBBY_def geom_simps rd_def and_exp_eq_0_iff int_div_nat int_mod_nat)

lemma isclr_Ret:
  "isclr bm i = Ret c \<longleftrightarrow> 0 \<le> i \<and> nat i < 8 * length bm \<and> c = (\<not> used bm (nat i))"
proof (cases "0 \<le> i \<and> nat i < 8 * length bm")
  case True
  then show ?thesis by (auto simp: isclr_eq)
next
  case False
  then show ?thesis by (auto simp: isclr_def NBBY_def geom_simps)
qed

lemma used_setbit_gen:
  assumes "j < 8 * length bm"
  shows "used (bm[j div 8 := (bm ! (j div 8)) OR push_bit (j mod 8) 1]) i \<longleftrightarrow> i = j \<or> used bm i"
proof (cases "i div 8 = j div 8")
  case True
  have "i mod 8 < 8" "j mod 8 < 8" by simp_all
  moreover have "(i = j) = (i mod 8 = j mod 8)"
    using True by (metis div_mult_mod_eq)
  ultimately show ?thesis
    using assms True
    by (auto simp: used_def bit_or_iff bit_exp_u8 nth_list_update)
next
  case False
  then show ?thesis by (auto simp: used_def)
qed

lemma used_clrbit_gen:
  assumes "j < 8 * length bm"
  shows "used (bm[j div 8 := (bm ! (j div 8)) AND NOT (push_bit (j mod 8) 1)]) i \<longleftrightarrow> i \<noteq> j \<and> used bm i"
proof (cases "i div 8 = j div 8")
  case True
  have "i mod 8 < 8" "j mod 8 < 8" by simp_all
  moreover have "(i = j) = (i mod 8 = j mod 8)"
    using True by (metis div_mult_mod_eq)
  ultimately show ?thesis
    using assms True
    by (auto simp: used_def bit_and_iff bit_not_iff bit_exp_u8 nth_list_update)
next
  case False
  then show ?thesis by (auto simp: used_def)
qed

lemma setbit_Ret:
  "setbit bm i = Ret bm' \<longleftrightarrow> 0 \<le> i \<and> nat i < 8 * length bm \<and>
     bm' = bm[nat i div 8 := (bm ! (nat i div 8)) OR push_bit (nat i mod 8) 1]"
  by (auto simp: setbit_def NBBY_def geom_simps int_div_nat int_mod_nat)

lemma clrbit_Ret:
  "clrbit bm i = Ret bm' \<longleftrightarrow> 0 \<le> i \<and> nat i < 8 * length bm \<and>
     bm' = bm[nat i div 8 := (bm ! (nat i div 8)) AND NOT (push_bit (nat i mod 8) 1)]"
  by (auto simp: clrbit_def NBBY_def geom_simps int_div_nat int_mod_nat)

lemma setbit_used: "setbit bm i = Ret bm' \<Longrightarrow> used bm' j \<longleftrightarrow> j = nat i \<or> used bm j"
  using used_setbit_gen by (auto simp: setbit_Ret)

lemma clrbit_used: "clrbit bm i = Ret bm' \<Longrightarrow> used bm' j \<longleftrightarrow> j \<noteq> nat i \<and> used bm j"
  using used_clrbit_gen by (auto simp: clrbit_Ret)

lemma setbit_length: "setbit bm i = Ret bm' \<Longrightarrow> length bm' = length bm"
  by (auto simp: setbit_Ret)

lemma clrbit_length: "clrbit bm i = Ret bm' \<Longrightarrow> length bm' = length bm"
  by (auto simp: clrbit_Ret)

lemma bytes_eqI:
  assumes "length xs = length ys" and "\<And>i. i < 8 * length xs \<Longrightarrow> used xs i = used ys i"
  shows "xs = ys"
proof (rule nth_equalityI [OF assms(1)])
  fix k assume k: "k < length xs"
  show "xs ! k = ys ! k"
  proof (rule bit_word_eqI)
    fix n assume "n < LENGTH(8)"
    then have n: "n < 8" by simp
    have "used xs (8 * k + n) = used ys (8 * k + n)" using k n by (intro assms(2)) simp
    then show "bit (xs ! k) n = bit (ys ! k) n" using n by (simp add: used_def)
  qed
qed

lemma setbit_clrbit:
  assumes "setbit bm i = Ret bm'" and "\<not> used bm (nat i)"
  shows "clrbit bm' i = Ret bm"
proof -
  have r: "0 \<le> i" "nat i < 8 * length bm'"
    using assms(1) by (auto simp: setbit_Ret)
  then obtain bm'' where c: "clrbit bm' i = Ret bm''" by (auto simp: clrbit_Ret)
  have "bm'' = bm"
    by (rule bytes_eqI)
      (use assms c in \<open>auto simp: clrbit_used setbit_used setbit_length clrbit_length\<close>)
  with c show ?thesis by simp
qed

section \<open>Counting free bits\<close>

definition nfree :: "bytes \<Rightarrow> nat \<Rightarrow> nat" where
  "nfree bm n = length (filter (\<lambda>i. \<not> used bm i) [0..<n])"

lemma nfree_card: "nfree bm n = card {i. i < n \<and> \<not> used bm i}"
proof -
  have "nfree bm n = card (set (filter (\<lambda>i. \<not> used bm i) [0..<n]))"
    unfolding nfree_def by (intro distinct_card [symmetric] distinct_filter distinct_upt)
  moreover have "set (filter (\<lambda>i. \<not> used bm i) [0..<n]) = {i. i < n \<and> \<not> used bm i}" by auto
  ultimately show ?thesis by simp
qed

lemma nfree_le: "nfree bm n \<le> n"
  by (simp add: nfree_def order_trans [OF length_filter_le])

lemma nfree_cong: "(\<And>i. i < n \<Longrightarrow> used bm i = used bm' i) \<Longrightarrow> nfree bm n = nfree bm' n"
  by (auto simp: nfree_def intro!: arg_cong [where f = length] filter_cong)

lemma nfree_0_iff: "nfree bm n = 0 \<longleftrightarrow> (\<forall>i<n. used bm i)"
  by (auto simp: nfree_def filter_empty_conv)

lemma nfree_take:
  assumes "j < n" "\<not> used bm j" "\<And>i. used bm' i \<longleftrightarrow> i = j \<or> used bm i"
  shows "nfree bm n = Suc (nfree bm' n)"
proof -
  have "{i. i < n \<and> \<not> used bm i} = insert j {i. i < n \<and> \<not> used bm' i}"
    using assms by auto
  then show ?thesis
    using assms by (simp add: nfree_card)
qed

lemma nfree_setbit:
  "setbit bm j = Ret bm' \<Longrightarrow> \<not> used bm (nat j) \<Longrightarrow> nat j < n \<Longrightarrow> nfree bm n = Suc (nfree bm' n)"
  by (rule nfree_take) (auto simp: setbit_used)

lemma nfree_clrbit:
  "clrbit bm j = Ret bm' \<Longrightarrow> used bm (nat j) \<Longrightarrow> nat j < n \<Longrightarrow> nfree bm' n = Suc (nfree bm n)"
  by (rule nfree_take [where j = "nat j"]) (auto simp: clrbit_used)

section \<open>Finding bits in a word\<close>

text \<open>\<^verbatim>\<open>ffs\<close> of \<^verbatim>\<open>strings.h\<close>: the least set bit, numbered from one, or zero.\<close>

definition ffs :: "u32 \<Rightarrow> int" where
  "ffs w = (case find (\<lambda>i. bit w i) [0..<32] of None \<Rightarrow> 0 | Some i \<Rightarrow> int i + 1)"

lemma find_upt_Some:
  "find P [a..<b] = Some i \<longleftrightarrow> a \<le> i \<and> i < b \<and> P i \<and> (\<forall>j. a \<le> j \<and> j < i \<longrightarrow> \<not> P j)"
proof
  assume "find P [a..<b] = Some i"
  then obtain k where k: "k < b - a" "P (a + k)" "i = a + k" "\<forall>j<k. \<not> P (a + j)"
    by (auto simp: find_Some_iff)
  have "\<not> P j" if "a \<le> j" "j < i" for j
    using k(4) [rule_format, of "j - a"] that k(3) by simp
  with k show "a \<le> i \<and> i < b \<and> P i \<and> (\<forall>j. a \<le> j \<and> j < i \<longrightarrow> \<not> P j)" by auto
next
  assume "a \<le> i \<and> i < b \<and> P i \<and> (\<forall>j. a \<le> j \<and> j < i \<longrightarrow> \<not> P j)"
  then show "find P [a..<b] = Some i"
    by (auto simp: find_Some_iff intro!: exI [of _ "i - a"])
qed

lemma find_rev_upt_Some:
  "find P (rev [0..<n]) = Some i \<longleftrightarrow> i < n \<and> P i \<and> (\<forall>j. i < j \<and> j < n \<longrightarrow> \<not> P j)"
proof (induction n)
  case 0
  then show ?case by simp
next
  case (Suc n)
  show ?case
  proof (cases "P n")
    case True
    then show ?thesis by (auto simp: less_Suc_eq)
  next
    case False
    with Suc show ?thesis by (auto simp: less_Suc_eq)
  qed
qed

end
