(* ===== verification/Ext2_Types.thy ===== *)
theory Ext2_Types
  imports Ext2_Prelude
begin

text \<open>
  The data structures of \<^verbatim>\<open>include/fs/ext2fs\<close>: the on-disk superblock, group descriptor and
  inode, the in-memory superblock, the per-mount structure and the in-core inode, with the
  constants the operations test. Fixed arrays are lists. The group descriptor table, which the
  source addresses with a byte stride, is the list of its descriptors.
\<close>

section \<open>The superblock (\<^verbatim>\<open>ext2fs.h\<close>)\<close>

record ext2fs =
  e2fs_icount :: u32
  e2fs_bcount :: u32
  e2fs_rbcount :: u32
  e2fs_fbcount :: u32
  e2fs_ficount :: u32
  e2fs_first_dblock :: u32
  e2fs_log_bsize :: u32
  e2fs_log_fsize :: u32
  e2fs_bpg :: u32
  e2fs_fpg :: u32
  e2fs_ipg :: u32
  e2fs_mtime :: u32
  e2fs_wtime :: u32
  e2fs_mnt_count :: u16
  e2fs_max_mnt_count :: u16
  e2fs_magic :: u16
  e2fs_state :: u16
  e2fs_beh :: u16
  e2fs_minrev :: u16
  e2fs_lastfsck :: u32
  e2fs_fsckintv :: u32
  e2fs_creator :: u32
  e2fs_rev :: u32
  e2fs_ruid :: u16
  e2fs_rgid :: u16
  e2fs_first_ino :: u32
  e2fs_inode_size :: u16
  e2fs_block_group_nr :: u16
  e2fs_features_compat :: u32
  e2fs_features_incompat :: u32
  e2fs_features_rocompat :: u32
  e2fs_uuid :: "u8 list"
  e2fs_vname :: "u8 list"
  e2fs_fsmnt :: "u8 list"
  e2fs_algo :: u32
  e2fs_prealloc :: u8
  e2fs_dir_prealloc :: u8
  e2fs_reserved_ngdb :: u16
  e3fs_journal_uuid :: "u8 list"
  e3fs_journal_inum :: u32
  e3fs_journal_dev :: u32
  e3fs_last_orphan :: u32
  e3fs_hash_seed :: "u32 list"
  e3fs_def_hash_version :: u8
  e3fs_jnl_backup_type :: u8
  e3fs_desc_size :: u16
  e3fs_default_mount_opts :: u32
  e3fs_first_meta_bg :: u32
  e3fs_mkfs_time :: u32
  e3fs_jnl_blks :: "u32 list"
  e4fs_bcount_hi :: u32
  e4fs_rbcount_hi :: u32
  e4fs_fbcount_hi :: u32
  e4fs_min_extra_isize :: u16
  e4fs_want_extra_isize :: u16
  e4fs_flags :: u32
  e4fs_raid_stride :: u16
  e4fs_mmpintv :: u16
  e4fs_mmpblk :: u64
  e4fs_raid_stripe_wid :: u32
  e4fs_log_gpf :: u8
  e4fs_char_pad2 :: u8
  e4fs_pad :: u16
  e4fs_kbytes_written :: u64
  reserved2 :: "u32 list"

section \<open>Group descriptors and cluster summaries (\<^verbatim>\<open>ext2fs.h\<close>)\<close>

record ext2_gd =
  ext2bgd_b_bitmap :: u32
  ext2bgd_i_bitmap :: u32
  ext2bgd_i_tables :: u32
  ext2bgd_nbfree :: u16
  ext2bgd_nifree :: u16
  ext2bgd_ndirs :: u16
  ext4bgd_flags :: u16
  ext4bgd_x_bitmap :: u32
  ext4bgd_b_bmap_csum :: u16
  ext4bgd_i_bmap_csum :: u16
  ext4bgd_i_unused :: u16
  ext4bgd_csum :: u16

record csum =
  cs_init :: int
  cs_sum :: "int list"

section \<open>The in-memory superblock (\<^verbatim>\<open>ext2fs.h\<close>)\<close>

text \<open>
  Field names that the superblock has as well carry the prefix \<^verbatim>\<open>m_\<close>. The pointers \<^verbatim>\<open>e2fs_gd\<close>,
  \<^verbatim>\<open>e2fs_contigdirs\<close>, \<^verbatim>\<open>e2fs_maxcluster\<close> and \<^verbatim>\<open>e2fs_clustersum\<close> are the arrays they point at.
\<close>

record m_ext2fs =
  e2fs :: ext2fs
  m_e2fs_fsmnt :: "u8 list"
  e2fs_ronly :: int
  e2fs_fmod :: int
  e2fs_bsize :: u32
  e2fs_bshift :: u32
  m_e2fs_bpg :: u32
  e2fs_qbmask :: int
  e2fs_fsbtodb :: u32
  m_e2fs_ipg :: u32
  e2fs_ipb :: u32
  e2fs_itpg :: u32
  e2fs_fsize :: u32
  e2fs_fpb :: u32
  m_e2fs_fpg :: u32
  e2fs_gdbcount :: u32
  e2fs_gcount :: u32
  e2fs_isize :: u32
  e2fs_total_dir :: u32
  e2fs_contigdirs :: "u8 list"
  e2fs_wasvalid :: int
  e2fs_maxfilesize :: int
  e2fs_gd :: "ext2_gd list"
  e2fs_contigsumsize :: int
  e2fs_gdsize :: u32
  e2fs_maxcluster :: "int list"
  e2fs_clustersum :: "csum list"

section \<open>On-disk inodes (\<^verbatim>\<open>ext2_dinode.h\<close>)\<close>

record ext2fs_dinode =
  e2di_mode :: u16
  e2di_uid :: u16
  e2di_size :: u32
  e2di_atime :: u32
  e2di_ctime :: u32
  e2di_mtime :: u32
  e2di_dtime :: u32
  e2di_gid :: u16
  e2di_nlink :: u16
  e2di_nblock :: u32
  e2di_flags :: u32
  e2di_version :: u32
  e2di_blocks :: "u32 list"
  e2di_gen :: u32
  e2di_facl :: u32
  e2di_size_high :: u32
  e2di_faddr :: u32
  e2di_nblock_high :: u16
  e2di_facl_high :: u16
  e2di_uid_high :: u16
  e2di_gid_high :: u16
  e2di_chksum_lo :: u16
  e2di_lx_reserved :: u16
  e2di_extra_isize :: u16
  e2di_chksum_hi :: u16
  e2di_ctime_extra :: u32
  e2di_mtime_extra :: u32
  e2di_atime_extra :: u32
  e2di_crtime :: u32
  e2di_crtime_extra :: u32
  e2di_version_hi :: u32

section \<open>Extents (\<^verbatim>\<open>ext2_extents.h\<close>)\<close>

record ext4_extent =
  e_blk :: u32
  e_len :: u16
  e_start_hi :: u16
  e_start_lo :: u32

record ext4_extent_index =
  ei_blk :: u32
  ei_leaf_lo :: u32
  ei_leaf_hi :: u16
  ei_unused :: u16

record ext4_extent_header =
  eh_magic :: u16
  eh_ecount :: u16
  eh_max :: u16
  eh_depth :: u16
  eh_gen :: u32

record ext4_extent_cache =
  ec_start :: int
  ec_blk :: u32
  ec_len :: u32
  ec_type :: u32

section \<open>In-core inodes (\<^verbatim>\<open>inode.h\<close>)\<close>

text \<open>
  The vnode pointer, the mount pointer and the lock of \<^verbatim>\<open>struct inode\<close> are not data of the
  model: the mount is passed beside the inode. The signed 32-bit times and the signed 16-bit
  link count are words of their width.
\<close>

record inode =
  i_flag :: u32
  i_number :: u32
  i_vid :: u32
  i_modrev :: u64
  i_count :: int
  i_endoff :: int
  i_diroff :: int
  i_offset :: int
  i_block_group :: u32
  i_next_alloc_block :: u32
  i_next_alloc_goal :: u32
  i_mode :: u16
  i_nlink :: u16
  i_uid :: u32
  i_gid :: u32
  i_size :: u64
  i_blocks :: u64
  i_atime :: u32
  i_mtime :: u32
  i_ctime :: u32
  i_birthtime :: u32
  i_mtimensec :: u32
  i_atimensec :: u32
  i_ctimensec :: u32
  i_birthnsec :: u32
  i_gen :: u32
  i_flags :: u32
  i_db :: "u32 list"
  i_ib :: "u32 list"
  i_ext_cache :: ext4_extent_cache

definition NDADDR :: int where "NDADDR = 12"
definition NIADDR :: int where "NIADDR = 3"

definition IFMT :: u16 where "IFMT = 0xF000"
definition IFDIR :: u16 where "IFDIR = 0x4000"
definition IFREG :: u16 where "IFREG = 0x8000"
definition IFLNK :: u16 where "IFLNK = 0xA000"

definition IN_ACCESS :: u32 where "IN_ACCESS = 0x0001"
definition IN_CHANGE :: u32 where "IN_CHANGE = 0x0002"
definition IN_UPDATE :: u32 where "IN_UPDATE = 0x0004"
definition IN_MODIFIED :: u32 where "IN_MODIFIED = 0x0008"
definition IN_RENAME :: u32 where "IN_RENAME = 0x0010"
definition IN_HASHED :: u32 where "IN_HASHED = 0x0020"
definition IN_LAZYMOD :: u32 where "IN_LAZYMOD = 0x0040"
definition IN_SPACECOUNTED :: u32 where "IN_SPACECOUNTED = 0x0080"
definition IN_LAZYACCESS :: u32 where "IN_LAZYACCESS = 0x0100"
definition IN_E4INDEX :: u32 where "IN_E4INDEX = 0x010000"
definition IN_E4EXTENTS :: u32 where "IN_E4EXTENTS = 0x020000"

section \<open>Error numbers\<close>

type_synonym errno = int

definition ENOENT :: errno where "ENOENT = 2"
definition EIO :: errno where "EIO = 5"
definition ENOMEM :: errno where "ENOMEM = 12"
definition EEXIST :: errno where "EEXIST = 17"
definition ENOTDIR :: errno where "ENOTDIR = 20"
definition EINVAL :: errno where "EINVAL = 22"
definition EFBIG :: errno where "EFBIG = 27"
definition ENOSPC :: errno where "ENOSPC = 28"
definition EROFS :: errno where "EROFS = 30"
definition ENOTEMPTY :: errno where "ENOTEMPTY = 66"

lemmas errno_defs = ENOENT_def EIO_def ENOMEM_def EEXIST_def ENOTDIR_def EINVAL_def EFBIG_def
  ENOSPC_def EROFS_def ENOTEMPTY_def

section \<open>The block device behind the buffer cache\<close>

text \<open>
  Metadata goes through the kernel's buffer cache, keyed by device block number. The device is
  what that cache shows: the contents of every block, the error a read of a block gives (zero
  for none), the error a synchronous write gives, and the blocks for which \<^verbatim>\<open>buf_getblk\<close> finds no
  buffer. Writes are visible to later reads.
\<close>

record device =
  dev_blk :: "int \<Rightarrow> bytes"
  dev_rerr :: "int \<Rightarrow> errno"
  dev_werr :: "int \<Rightarrow> errno"
  dev_nobuf :: "int \<Rightarrow> bool"

definition buf_meta_bread :: "device \<Rightarrow> int \<Rightarrow> errno + bytes" where
  "buf_meta_bread d a = (if dev_rerr d a \<noteq> 0 then Inl (dev_rerr d a) else Inr (dev_blk d a))"

definition buf_bdwrite :: "device \<Rightarrow> int \<Rightarrow> bytes \<Rightarrow> device" where
  "buf_bdwrite d a bs = d\<lparr>dev_blk := (dev_blk d)(a := bs)\<rparr>"

definition buf_bwrite :: "device \<Rightarrow> int \<Rightarrow> bytes \<Rightarrow> errno \<times> device" where
  "buf_bwrite d a bs = (dev_werr d a, d\<lparr>dev_blk := (dev_blk d)(a := bs)\<rparr>)"

section \<open>The mount (\<^verbatim>\<open>ext2_mount.h\<close>)\<close>

text \<open>
  \<^verbatim>\<open>um_lock\<close> records whether the mount mutex is held. XNU mutexes are not recursive: taking one
  that is held, or releasing one that is not, is a \<^const>\<open>LockFault\<close>.
\<close>

record ext2mount =
  um_devvp :: device
  um_e2fs :: m_ext2fs
  um_nindir :: u64
  um_bptrtodb :: u64
  um_seqinc :: u64
  um_lock :: bool

definition EXT2_LOCK :: "ext2mount \<Rightarrow> ext2mount outcome" where
  "EXT2_LOCK ump = (if um_lock ump then Fault LockFault else Ret (ump\<lparr>um_lock := True\<rparr>))"

definition EXT2_UNLOCK :: "ext2mount \<Rightarrow> ext2mount outcome" where
  "EXT2_UNLOCK ump = (if um_lock ump then Ret (ump\<lparr>um_lock := False\<rparr>) else Fault LockFault)"

lemma EXT2_LOCK_Ret [simp]:
  "EXT2_LOCK ump = Ret u \<longleftrightarrow> \<not> um_lock ump \<and> u = ump\<lparr>um_lock := True\<rparr>"
  by (auto simp: EXT2_LOCK_def)

lemma EXT2_UNLOCK_Ret [simp]:
  "EXT2_UNLOCK ump = Ret u \<longleftrightarrow> um_lock ump \<and> u = ump\<lparr>um_lock := False\<rparr>"
  by (auto simp: EXT2_UNLOCK_def)

lemma buf_bdwrite_simps [simp]:
  "dev_blk (buf_bdwrite d a bs) b = (if b = a then bs else dev_blk d b)"
  "dev_rerr (buf_bdwrite d a bs) = dev_rerr d"
  "dev_werr (buf_bdwrite d a bs) = dev_werr d"
  "dev_nobuf (buf_bdwrite d a bs) = dev_nobuf d"
  by (simp_all add: buf_bdwrite_def)

section \<open>Zeroed structures\<close>

text \<open>What \<^verbatim>\<open>_MALLOC(\<dots>, M_ZERO)\<close> returns for each structure; tables are empty.\<close>

definition zero_sb :: ext2fs where
  "zero_sb = \<lparr>
    e2fs_icount = 0, e2fs_bcount = 0, e2fs_rbcount = 0, e2fs_fbcount = 0, e2fs_ficount = 0,
    e2fs_first_dblock = 0, e2fs_log_bsize = 0, e2fs_log_fsize = 0, e2fs_bpg = 0, e2fs_fpg = 0,
    e2fs_ipg = 0, e2fs_mtime = 0, e2fs_wtime = 0, e2fs_mnt_count = 0, e2fs_max_mnt_count = 0,
    e2fs_magic = 0, e2fs_state = 0, e2fs_beh = 0, e2fs_minrev = 0, e2fs_lastfsck = 0,
    e2fs_fsckintv = 0, e2fs_creator = 0, e2fs_rev = 0, e2fs_ruid = 0, e2fs_rgid = 0,
    e2fs_first_ino = 0, e2fs_inode_size = 0, e2fs_block_group_nr = 0, e2fs_features_compat = 0,
    e2fs_features_incompat = 0, e2fs_features_rocompat = 0, e2fs_uuid = [], e2fs_vname = [],
    e2fs_fsmnt = [], e2fs_algo = 0, e2fs_prealloc = 0, e2fs_dir_prealloc = 0,
    e2fs_reserved_ngdb = 0, e3fs_journal_uuid = [], e3fs_journal_inum = 0, e3fs_journal_dev = 0,
    e3fs_last_orphan = 0, e3fs_hash_seed = [], e3fs_def_hash_version = 0,
    e3fs_jnl_backup_type = 0, e3fs_desc_size = 0, e3fs_default_mount_opts = 0,
    e3fs_first_meta_bg = 0, e3fs_mkfs_time = 0, e3fs_jnl_blks = [], e4fs_bcount_hi = 0,
    e4fs_rbcount_hi = 0, e4fs_fbcount_hi = 0, e4fs_min_extra_isize = 0,
    e4fs_want_extra_isize = 0, e4fs_flags = 0, e4fs_raid_stride = 0, e4fs_mmpintv = 0,
    e4fs_mmpblk = 0, e4fs_raid_stripe_wid = 0, e4fs_log_gpf = 0, e4fs_char_pad2 = 0,
    e4fs_pad = 0, e4fs_kbytes_written = 0, reserved2 = []\<rparr>"

definition zero_gd :: ext2_gd where
  "zero_gd = \<lparr>
    ext2bgd_b_bitmap = 0, ext2bgd_i_bitmap = 0, ext2bgd_i_tables = 0, ext2bgd_nbfree = 0,
    ext2bgd_nifree = 0, ext2bgd_ndirs = 0, ext4bgd_flags = 0, ext4bgd_x_bitmap = 0,
    ext4bgd_b_bmap_csum = 0, ext4bgd_i_bmap_csum = 0, ext4bgd_i_unused = 0, ext4bgd_csum = 0\<rparr>"

definition zero_fs :: m_ext2fs where
  "zero_fs = \<lparr>
    e2fs = zero_sb, m_e2fs_fsmnt = [], e2fs_ronly = 0, e2fs_fmod = 0, e2fs_bsize = 0,
    e2fs_bshift = 0, m_e2fs_bpg = 0, e2fs_qbmask = 0, e2fs_fsbtodb = 0, m_e2fs_ipg = 0,
    e2fs_ipb = 0, e2fs_itpg = 0, e2fs_fsize = 0, e2fs_fpb = 0, m_e2fs_fpg = 0,
    e2fs_gdbcount = 0, e2fs_gcount = 0, e2fs_isize = 0, e2fs_total_dir = 0,
    e2fs_contigdirs = [], e2fs_wasvalid = 0, e2fs_maxfilesize = 0, e2fs_gd = [],
    e2fs_contigsumsize = 0, e2fs_gdsize = 0, e2fs_maxcluster = [], e2fs_clustersum = []\<rparr>"

definition zero_dinode :: ext2fs_dinode where
  "zero_dinode = \<lparr>
    e2di_mode = 0, e2di_uid = 0, e2di_size = 0, e2di_atime = 0, e2di_ctime = 0, e2di_mtime = 0,
    e2di_dtime = 0, e2di_gid = 0, e2di_nlink = 0, e2di_nblock = 0, e2di_flags = 0,
    e2di_version = 0, e2di_blocks = [], e2di_gen = 0, e2di_facl = 0, e2di_size_high = 0,
    e2di_faddr = 0, e2di_nblock_high = 0, e2di_facl_high = 0, e2di_uid_high = 0,
    e2di_gid_high = 0, e2di_chksum_lo = 0, e2di_lx_reserved = 0, e2di_extra_isize = 0,
    e2di_chksum_hi = 0, e2di_ctime_extra = 0, e2di_mtime_extra = 0, e2di_atime_extra = 0,
    e2di_crtime = 0, e2di_crtime_extra = 0, e2di_version_hi = 0\<rparr>"

definition zero_inode :: inode where
  "zero_inode = \<lparr>
    i_flag = 0, i_number = 0, i_vid = 0, i_modrev = 0, i_count = 0, i_endoff = 0, i_diroff = 0,
    i_offset = 0, i_block_group = 0, i_next_alloc_block = 0, i_next_alloc_goal = 0, i_mode = 0,
    i_nlink = 0, i_uid = 0, i_gid = 0, i_size = 0, i_blocks = 0, i_atime = 0, i_mtime = 0,
    i_ctime = 0, i_birthtime = 0, i_mtimensec = 0, i_atimensec = 0, i_ctimensec = 0,
    i_birthnsec = 0, i_gen = 0, i_flags = 0, i_db = [], i_ib = [],
    i_ext_cache = \<lparr>ec_start = 0, ec_blk = 0, ec_len = 0, ec_type = 0\<rparr>\<rparr>"

end
