(* ===== verification/Ext2_Geom.thy ===== *)
theory Ext2_Geom
  imports Ext2_Types
begin

text \<open>
  The address arithmetic of \<^verbatim>\<open>include/fs/ext2fs/fs.h\<close>: from a block number to its group and its
  position in the group, from an inode number to its group, its inode-table block and its slot,
  and between file offsets and logical blocks. A mounted volume has a non-zero number of blocks
  per group (\<^verbatim>\<open>ext2_check_sb_compat\<close>); nothing checks the number of inodes per group, so the
  divisions by it can trap.
\<close>

section \<open>Macros of \<^verbatim>\<open>fs.h\<close>\<close>

definition EXT2_BLOCKS_PER_GROUP :: "m_ext2fs \<Rightarrow> int" where
  "EXT2_BLOCKS_PER_GROUP fs = uint (m_e2fs_bpg fs)"

definition fsbtodb :: "m_ext2fs \<Rightarrow> int \<Rightarrow> int" where
  "fsbtodb fs b = push_bit (unat (e2fs_fsbtodb fs)) b"

definition dbtofsb :: "m_ext2fs \<Rightarrow> int \<Rightarrow> int" where
  "dbtofsb fs b = drop_bit (unat (e2fs_fsbtodb fs)) b"

definition EXT2_GD :: "m_ext2fs \<Rightarrow> int \<Rightarrow> ext2_gd outcome" where
  "EXT2_GD fs cg = rd (e2fs_gd fs) cg"

definition put_GD :: "m_ext2fs \<Rightarrow> int \<Rightarrow> ext2_gd \<Rightarrow> m_ext2fs outcome" where
  "put_GD fs cg g = bnd (wr (e2fs_gd fs) cg g) (\<lambda>l. Ret (fs\<lparr>e2fs_gd := l\<rparr>))"

definition ino_to_cg :: "m_ext2fs \<Rightarrow> u32 \<Rightarrow> int outcome" where
  "ino_to_cg fs x = (if m_e2fs_ipg fs = 0 then Fault DivZero
     else Ret (uint ((x - 1) div m_e2fs_ipg fs)))"

definition ino_to_fsba :: "m_ext2fs \<Rightarrow> u32 \<Rightarrow> u32 outcome" where
  "ino_to_fsba fs x = bnd (ino_to_cg fs x) (\<lambda>cg. bnd (EXT2_GD fs cg) (\<lambda>g.
     if e2fs_ipg (e2fs fs) = 0 \<or> e2fs_ipb fs = 0 then Fault DivZero
     else Ret (ext2bgd_i_tables g + ((x - 1) mod e2fs_ipg (e2fs fs)) div e2fs_ipb fs)))"

definition ino_to_fsbo :: "m_ext2fs \<Rightarrow> u32 \<Rightarrow> u32 outcome" where
  "ino_to_fsbo fs x = (if e2fs_ipb fs = 0 then Fault DivZero else Ret ((x - 1) mod e2fs_ipb fs))"

definition dtog :: "m_ext2fs \<Rightarrow> int \<Rightarrow> int" where
  "dtog fs d = (d - uint (e2fs_first_dblock (e2fs fs))) sdiv EXT2_BLOCKS_PER_GROUP fs"

definition dtogd :: "m_ext2fs \<Rightarrow> int \<Rightarrow> int" where
  "dtogd fs d = (d - uint (e2fs_first_dblock (e2fs fs))) smod EXT2_BLOCKS_PER_GROUP fs"

definition blkoff :: "m_ext2fs \<Rightarrow> int \<Rightarrow> int" where
  "blkoff fs loc = loc AND e2fs_qbmask fs"

definition lblktosize :: "m_ext2fs \<Rightarrow> int \<Rightarrow> int" where
  "lblktosize fs blk = push_bit (unat (e2fs_bshift fs)) blk"

definition lblkno :: "m_ext2fs \<Rightarrow> int \<Rightarrow> int" where
  "lblkno fs loc = drop_bit (unat (e2fs_bshift fs)) loc"

definition blksize :: "m_ext2fs \<Rightarrow> int" where
  "blksize fs = uint (e2fs_fsize fs)"

definition fragroundup :: "m_ext2fs \<Rightarrow> int \<Rightarrow> int outcome" where
  "fragroundup fs sz = (if e2fs_fsize fs = 0 then Fault DivZero
     else Ret ((sz + (uint (e2fs_fsize fs) - 1)) sdiv uint (e2fs_fsize fs) * uint (e2fs_fsize fs)))"

text \<open>\<^verbatim>\<open>howmany(x, y)\<close> of \<^verbatim>\<open>sys/param.h\<close> at 32 bits unsigned.\<close>

definition howmany8 :: "u32 \<Rightarrow> u32" where
  "howmany8 x = (x + 7) div 8"

section \<open>Block numbers and groups\<close>

definition blk_of :: "m_ext2fs \<Rightarrow> int \<Rightarrow> int \<Rightarrow> int" where
  "blk_of fs cg off = cg * EXT2_BLOCKS_PER_GROUP fs + uint (e2fs_first_dblock (e2fs fs)) + off"

lemma EXT2_GD_Ret [simp]:
  "EXT2_GD fs cg = Ret g \<longleftrightarrow> 0 \<le> cg \<and> cg < int (length (e2fs_gd fs)) \<and> e2fs_gd fs ! nat cg = g"
  by (simp add: EXT2_GD_def)

lemma put_GD_Ret [simp]:
  "put_GD fs cg g = Ret fs' \<longleftrightarrow> 0 \<le> cg \<and> cg < int (length (e2fs_gd fs)) \<and>
     fs' = fs\<lparr>e2fs_gd := (e2fs_gd fs)[nat cg := g]\<rparr>"
  by (auto simp: put_GD_def)

lemma dtog_blk_of:
  assumes "0 \<le> cg" "0 \<le> off" "off < EXT2_BLOCKS_PER_GROUP fs"
  shows "dtog fs (blk_of fs cg off) = cg" and "dtogd fs (blk_of fs cg off) = off"
  using assms by (simp_all add: dtog_def dtogd_def blk_of_def geom_simps)

lemma blk_of_dtog:
  assumes "uint (e2fs_first_dblock (e2fs fs)) \<le> d"
  shows "blk_of fs (dtog fs d) (dtogd fs d) = d"
  using assms
  by (simp add: dtog_def dtogd_def blk_of_def geom_simps EXT2_BLOCKS_PER_GROUP_def)

lemma dtogd_bounds:
  assumes "uint (e2fs_first_dblock (e2fs fs)) \<le> d" "0 < EXT2_BLOCKS_PER_GROUP fs"
  shows "0 \<le> dtogd fs d \<and> dtogd fs d < EXT2_BLOCKS_PER_GROUP fs"
  using assms by (simp add: dtogd_def geom_simps)

lemma blkoff_bounds: "0 \<le> e2fs_qbmask fs \<Longrightarrow> 0 \<le> blkoff fs loc \<and> blkoff fs loc \<le> e2fs_qbmask fs"
  by (simp add: blkoff_def AND_upper2)

text \<open>With the mask and shift of a mounted volume, offset and block number are a division.\<close>

lemma blkoff_lblkno:
  assumes "e2fs_qbmask fs = mask (unat (e2fs_bshift fs))"
  shows "blkoff fs loc = loc mod 2 ^ unat (e2fs_bshift fs)"
    and "lblkno fs loc = loc div 2 ^ unat (e2fs_bshift fs)"
    and "lblktosize fs (lblkno fs loc) + blkoff fs loc = loc"
  using assms
  by (simp_all add: blkoff_def lblkno_def lblktosize_def take_bit_eq_mask [symmetric] take_bit_eq_mod
      drop_bit_eq_div push_bit_eq_mult div_mult_mod_eq)

end
