(* ===== verification/Ext2_Bmap.thy ===== *)
theory Ext2_Bmap
  imports Ext2_Geom
begin

text \<open>
  The indirect block map of \<^verbatim>\<open>kext/ext2_bmap.c\<close>: \<^verbatim>\<open>ext2_getlbns\<close>, \<^verbatim>\<open>ext2_bmaparray\<close>, \<^verbatim>\<open>ext2_blktooff\<close> and
  \<^verbatim>\<open>ext2_offtoblk\<close>. Block numbers of a file are integers at 64 bits; the words of an indirect block are
  read from the bytes of the buffer, least significant first, as the host has them.
\<close>

section \<open>Words in a block\<close>

definition get_u32 :: "bytes \<Rightarrow> int \<Rightarrow> u32 outcome" where
  "get_u32 bs i =
     bnd (rd bs (4 * i)) (\<lambda>a. bnd (rd bs (4 * i + 1)) (\<lambda>b. bnd (rd bs (4 * i + 2)) (\<lambda>c. bnd (rd bs (4 * i + 3)) (\<lambda>d.
     Ret (ucast a OR push_bit 8 (ucast b) OR push_bit 16 (ucast c) OR push_bit 24 (ucast d))))))"

lemma get_u32_total: "0 \<le> i \<Longrightarrow> 4 * i + 3 < int (length bs) \<Longrightarrow> \<exists>w. get_u32 bs i = Ret w"
  by (simp add: get_u32_def rd_in)

section \<open>\<^verbatim>\<open>ext2_getlbns\<close>\<close>

record indir =
  in_lbn :: int
  in_off :: int

text \<open>The loop that counts levels: \<open>i\<close> indirect pointers of the inode are left, and the level below
  holds \<open>blockcnt\<close> blocks.\<close>

fun lbn_level :: "int \<Rightarrow> nat \<Rightarrow> int \<Rightarrow> int \<Rightarrow> (nat \<times> int \<times> int) option" where
  "lbn_level nindir 0 blockcnt bn = None"
| "lbn_level nindir (Suc i) blockcnt bn =
     (let qblockcnt = s64 (blockcnt * nindir)
      in if bn < qblockcnt then Some (Suc i, blockcnt, bn) else lbn_level nindir i qblockcnt (bn - qblockcnt))"

text \<open>The second loop, with \<open>k\<close> rounds left.\<close>

fun lbn_path :: "u64 \<Rightarrow> int \<Rightarrow> int \<Rightarrow> nat \<Rightarrow> int \<Rightarrow> int \<Rightarrow> indir list outcome" where
  "lbn_path nindir realbn bn 0 metalbn blockcnt = Ret []"
| "lbn_path nindir realbn bn (Suc k) metalbn blockcnt =
     (if metalbn = realbn then Ret []
      else if blockcnt = 0 \<or> nindir = 0 then Fault DivZero
      else
        let off = s32 ((bn sdiv blockcnt) smod sint nindir)
        in bnd (lbn_path nindir realbn bn k (metalbn - (- 1 + off * blockcnt)) (blockcnt div uint nindir)) (\<lambda>p.
           Ret (\<lparr>in_lbn = metalbn, in_off = off\<rparr> # p)))"

text \<open>The list is the array \<^verbatim>\<open>ap\<close> and its length what is stored in \<^verbatim>\<open>nump\<close>.\<close>

definition ext2_getlbns :: "ext2mount \<Rightarrow> int \<Rightarrow> (errno + indir list) outcome" where
  "ext2_getlbns ump bn =
     (let realbn = bn; bn = (if bn < 0 then - bn else bn) in
      if bn < NDADDR then Ret (Inr [])
      else
        case lbn_level (sint (um_nindir ump)) 3 1 (bn - NDADDR) of
          None \<Rightarrow> Ret (Inl EFBIG)
        | Some (i, blockcnt, bn) \<Rightarrow>
            let metalbn = (if realbn \<ge> 0 then - (realbn - bn + NIADDR - int i) else - (- realbn - bn + NIADDR - int i))
            in bnd (lbn_path (um_nindir ump) realbn bn (4 - i) metalbn blockcnt) (\<lambda>p.
               Ret (Inr (\<lparr>in_lbn = metalbn, in_off = NIADDR - int i\<rparr> # p))))"

section \<open>\<^verbatim>\<open>ext2_bmaparray\<close>\<close>

text \<open>\<^verbatim>\<open>blkptrtodb\<close> keeps the type of its operand: 32 bits for a pointer of the inode, 64 for an address.
  A shift by the width or more is undefined.\<close>

definition blkptrtodb32 :: "ext2mount \<Rightarrow> u32 \<Rightarrow> u32 outcome" where
  "blkptrtodb32 ump b = (if um_bptrtodb ump < 32 then Ret (push_bit (unat (um_bptrtodb ump)) b) else Fault Undef)"

definition blkptrtodb :: "ext2mount \<Rightarrow> int \<Rightarrow> int outcome" where
  "blkptrtodb ump b = (if um_bptrtodb ump < 64 then Ret (s64 (push_bit (unat (um_bptrtodb ump)) b)) else Fault Undef)"

definition is_sequential :: "ext2mount \<Rightarrow> u32 \<Rightarrow> u32 \<Rightarrow> bool" where
  "is_sequential ump a b \<longleftrightarrow> (ucast b :: u64) = ucast a + um_seqinc ump"

text \<open>The run loops: \<open>get\<close> reads the pointer array; forward from \<open>bn\<close> below \<open>lim\<close>, backward from \<open>bn\<close> to zero.\<close>

function run_fwd :: "ext2mount \<Rightarrow> (int \<Rightarrow> u32 outcome) \<Rightarrow> int \<Rightarrow> int \<Rightarrow> int \<Rightarrow> int \<Rightarrow> int outcome" where
  "run_fwd ump get lim maxrun bn run =
     (if bn < lim \<and> run < maxrun then
        bnd (get (bn - 1)) (\<lambda>a. bnd (get bn) (\<lambda>b.
        if is_sequential ump a b then run_fwd ump get lim maxrun (bn + 1) (run + 1) else Ret run))
      else Ret run)"
  by pat_completeness auto
termination
  by (relation "measure (\<lambda>(ump, get, lim, maxrun, bn, run). nat (lim - bn))") auto

function run_back :: "ext2mount \<Rightarrow> (int \<Rightarrow> u32 outcome) \<Rightarrow> int \<Rightarrow> int \<Rightarrow> int \<Rightarrow> int outcome" where
  "run_back ump get maxrun bn run =
     (if bn \<ge> 0 \<and> run < maxrun then
        bnd (get bn) (\<lambda>a. bnd (get (bn + 1)) (\<lambda>b.
        if is_sequential ump a b then run_back ump get maxrun (bn - 1) (run + 1) else Ret run))
      else Ret run)"
  by pat_completeness auto
termination
  by (relation "measure (\<lambda>(ump, get, maxrun, bn, run). nat (bn + 1))") auto

declare run_fwd.simps [simp del] run_back.simps [simp del]

text \<open>
  What the caller asks for beside the address: \<open>runp\<close> is \<open>None\<close> for a null pointer and otherwise the
  \<^verbatim>\<open>io_maxreadcnt\<close> that \<^verbatim>\<open>vfs_ioattr\<close> reports; \<open>runb\<close> says whether the backward run is wanted too.
\<close>

definition max_run :: "u32 \<Rightarrow> u32 \<Rightarrow> int outcome" where
  "max_run maxreadcnt bsize = (if bsize = 0 then Fault DivZero else Ret (max 0 (sint (maxreadcnt div bsize) - 1)))"

definition runs_at :: "ext2mount \<Rightarrow> (int \<Rightarrow> u32 outcome) \<Rightarrow> int \<Rightarrow> int option \<Rightarrow> bool \<Rightarrow> int \<Rightarrow> (int \<times> int) outcome" where
  "runs_at ump get lim runp runb bn =
     (case runp of None \<Rightarrow> Ret (0, 0)
      | Some maxrun \<Rightarrow>
          bnd (run_fwd ump get lim maxrun (bn + 1) 0) (\<lambda>f.
          bnd (if runb \<and> bn > 0 then run_back ump get maxrun (bn - 1) 0 else Ret 0) (\<lambda>b. Ret (f, b))))"

text \<open>The walk down the indirect blocks; it stops at a hole or at the meta-block that was asked for.\<close>

fun bmap_walk :: "ext2mount \<Rightarrow> int \<Rightarrow> int option \<Rightarrow> bool \<Rightarrow> indir list \<Rightarrow> int \<Rightarrow> int \<times> int \<Rightarrow>
    (errno + int \<times> int \<times> int) outcome" where
  "bmap_walk ump bn runp runb [] daddr r = Ret (Inr (daddr, r))"
| "bmap_walk ump bn runp runb (e # es) daddr r =
     (if daddr = 0 \<or> in_lbn e = bn then Ret (Inr (daddr, r))
      else
        bnd (blkptrtodb ump daddr) (\<lambda>a.
        case buf_meta_bread (um_devvp ump) a of
          Inl error \<Rightarrow> Ret (Inl error)
        | Inr bap \<Rightarrow>
            bnd (get_u32 bap (in_off e)) (\<lambda>d.
            bnd (if es = [] \<and> d \<noteq> 0 then runs_at ump (get_u32 bap) (sint (um_nindir ump)) runp runb (in_off e) else Ret r) (\<lambda>r.
            bmap_walk ump bn runp runb es (uint d) r))))"

definition hole_if_0 :: "int \<Rightarrow> int" where
  "hole_if_0 a = (if a = 0 then - 1 else a)"

definition ext2_bmaparray :: "ext2mount \<Rightarrow> inode \<Rightarrow> int \<Rightarrow> u32 option \<Rightarrow> bool \<Rightarrow> (errno + int \<times> int \<times> int) outcome" where
  "ext2_bmaparray ump ip bn runp runb =
     bnd (case runp of None \<Rightarrow> Ret None | Some m \<Rightarrow> bnd (max_run m (e2fs_bsize (um_e2fs ump))) (\<lambda>x. Ret (Some x))) (\<lambda>runp.
     bnd (ext2_getlbns ump bn) (\<lambda>p.
     case p of
       Inl error \<Rightarrow> Ret (Inl error)
     | Inr [] \<Rightarrow>
         bnd (rd (i_db ip) bn) (\<lambda>b.
         bnd (blkptrtodb32 ump b) (\<lambda>a.
         if a = 0 then Ret (Inr (- 1, 0, 0))
         else bnd (runs_at ump (rd (i_db ip)) NDADDR runp runb bn) (\<lambda>r. Ret (Inr (uint a, r)))))
     | Inr (ap # es) \<Rightarrow>
         bnd (rd (i_ib ip) (in_off ap)) (\<lambda>b.
         bnd (bmap_walk ump bn runp runb es (uint b) (0, 0)) (\<lambda>w.
         case w of Inl error \<Rightarrow> Ret (Inl error)
         | Inr (daddr, r) \<Rightarrow> bnd (blkptrtodb ump daddr) (\<lambda>a. Ret (Inr (hole_if_0 a, r)))))))"

section \<open>\<^verbatim>\<open>ext2_blktooff\<close> and \<^verbatim>\<open>ext2_offtoblk\<close>\<close>

definition ext2_blktooff :: "m_ext2fs \<Rightarrow> int \<Rightarrow> bool \<Rightarrow> errno + int" where
  "ext2_blktooff fs lbn has_ptr = (if \<not> has_ptr then Inl EINVAL else Inr (s64 (lbn * uint (e2fs_bsize fs))))"

definition ext2_offtoblk :: "m_ext2fs \<Rightarrow> int \<Rightarrow> bool \<Rightarrow> (errno + int) outcome" where
  "ext2_offtoblk fs off has_ptr =
     (if \<not> has_ptr then Ret (Inl EINVAL)
      else if e2fs_bsize fs = 0 then Fault DivZero
      else Ret (Inr (off sdiv uint (e2fs_bsize fs))))"

section \<open>The path to a block\<close>

definition nindir_of :: "ext2mount \<Rightarrow> nat" where
  "nindir_of ump = unat (um_nindir ump)"

text \<open>The mount parameters as \<^verbatim>\<open>ext2_mountfs\<close> sets them are far below these bounds.\<close>

definition bmap_geom :: "ext2mount \<Rightarrow> bool" where
  "bmap_geom ump \<longleftrightarrow> 1 \<le> nindir_of ump \<and> nindir_of ump \<le> 2 ^ 20 \<and> um_bptrtodb ump < 31"

lemma sint_unat_small64: "unat w < 2 ^ 63 \<Longrightarrow> sint w = int (unat w)" for w :: u64
proof -
  assume "unat w < 2 ^ 63"
  then have "int (unat w) < int (2 ^ 63)" by (simp only: of_nat_less_iff)
  then have "uint w < 2 ^ 63" by simp
  moreover have "- (2 ^ 63) \<le> uint w" by (rule order_trans [OF _ uint_ge_0]) simp
  ultimately show ?thesis by (simp add: sint_uint signed_take_bit_int_eq_self)
qed

lemma nindir_words:
  assumes "bmap_geom ump"
  shows "sint (um_nindir ump) = int (nindir_of ump)" "uint (um_nindir ump) = int (nindir_of ump)" "um_nindir ump \<noteq> 0"
proof -
  have "unat (um_nindir ump) < 2 ^ 63" using assms by (simp add: bmap_geom_def nindir_of_def)
  then have "sint (um_nindir ump) = int (unat (um_nindir ump))"
    by (rule sint_unat_small64)
  then show "sint (um_nindir ump) = int (nindir_of ump)" by (simp add: nindir_of_def)
  show "uint (um_nindir ump) = int (nindir_of ump)" by (simp add: nindir_of_def)
  show "um_nindir ump \<noteq> 0" using assms by (auto simp: bmap_geom_def nindir_of_def)
qed

definition digits :: "nat \<Rightarrow> nat \<Rightarrow> nat \<Rightarrow> nat list" where
  "digits n l x = map (\<lambda>j. (x div n ^ j) mod n) (rev [0..<l])"

lemma digits_Suc: "digits n (Suc l) x = ((x div n ^ l) mod n) # digits n l x"
  by (simp add: digits_def)

lemma lbn_path_digits:
  assumes "bmap_geom ump" "k = 0 \<or> bc = int (nindir_of ump) ^ (k - 1)" "0 \<le> realbn" "metalbn + int k \<le> - 1"
  shows "\<exists>p. lbn_path (um_nindir ump) realbn (int x) k metalbn bc = Ret p \<and>
     map in_off p = map int (digits (nindir_of ump) k x) \<and> (\<forall>e \<in> set p. in_lbn e < 0)"
  using assms(2,4)
proof (induction k arbitrary: metalbn bc)
  case (Suc k)
  let ?n = "nindir_of ump"
  have n: "1 \<le> ?n" "?n \<le> 2 ^ 20" using assms(1) by (auto simp: bmap_geom_def)
  note w = nindir_words [OF assms(1)]
  have bc: "bc = int (?n ^ k)" using Suc.prems(1) by simp
  define off where "off = int ((x div ?n ^ k) mod ?n)"
  have "(x div ?n ^ k) mod ?n < ?n" using n by simp
  moreover have "(2::nat) ^ 20 < 2 ^ 31" by simp
  ultimately have "(x div ?n ^ k) mod ?n < 2 ^ 31" using n(2) by linarith
  then have "s32 ((int x sdiv bc) smod int ?n) = off"
    unfolding bc by (simp add: geom_simps off_def zdiv_int [symmetric] zmod_int [symmetric] del: of_nat_power)
  then have eq: "lbn_path (um_nindir ump) realbn (int x) (Suc k) metalbn bc =
      bnd (lbn_path (um_nindir ump) realbn (int x) k (metalbn - (- 1 + off * bc)) (bc div int ?n)) (\<lambda>p.
        Ret (\<lparr>in_lbn = metalbn, in_off = off\<rparr> # p))"
    using Suc.prems assms(3) n w by (simp add: bc)
  have 1: "k = 0 \<or> bc div int ?n = int ?n ^ (k - 1)"
    using n by (cases k) (simp_all add: bc)
  have "0 \<le> off * bc" by (simp add: off_def bc)
  then have 2: "metalbn - (- 1 + off * bc) + int k \<le> - 1" using Suc.prems(2) by simp
  from Suc.IH [OF 1 2] obtain p where p: "lbn_path (um_nindir ump) realbn (int x) k (metalbn - (- 1 + off * bc)) (bc div int ?n) = Ret p"
    "map in_off p = map int (digits ?n k x)" "\<forall>e \<in> set p. in_lbn e < 0" by blast
  have "in_lbn \<lparr>in_lbn = metalbn, in_off = off\<rparr> < 0" using Suc.prems(2) by simp
  then show ?case using eq p by (simp add: digits_Suc off_def)
qed (simp add: digits_def)

lemma lbn_level_cases:
  assumes "1 \<le> n" "n \<le> 2 ^ 20" "0 \<le> x"
  shows "lbn_level n 3 1 x =
     (if x < n then Some (3, 1, x) else if x < n + n ^ 2 then Some (2, n, x - n)
      else if x < n + n ^ 2 + n ^ 3 then Some (1, n ^ 2, x - n - n ^ 2) else None)"
proof -
  have "n ^ 2 \<le> (2 ^ 20) ^ 2" "n ^ 3 \<le> (2 ^ 20) ^ 3" using assms by (intro power_mono; simp)+
  then have b: "n ^ 2 < 2 ^ 63" "n ^ 3 < 2 ^ 63" "n < 2 ^ 63" using assms(2) by simp_all
  have z: "0 \<le> n ^ 2" "0 \<le> n ^ 3" "0 \<le> n" using assms(1) by simp_all
  have nn: "0 \<le> x \<Longrightarrow> x < 2 ^ 63 \<Longrightarrow> s64 x = x" for x by (rule s64_id) auto
  have "s64 n = n" "s64 (n ^ 2) = n ^ 2" "s64 (n ^ 3) = n ^ 3"
    using nn [OF z(3) b(3)] nn [OF z(1) b(1)] nn [OF z(2) b(2)] by simp_all
  then have s: "s64 n = n" "s64 (n * n) = n ^ 2" "s64 (n ^ 2 * n) = n ^ 3"
    by (simp_all add: power2_eq_square power3_eq_cube)
  then show ?thesis by (simp add: eval_nat_numeral Let_def)
qed

section \<open>The tree of indirect blocks\<close>

text \<open>
  The map a file's pointers stand for. \<open>ptr_of\<close> is entry \<open>k\<close> of the indirect block \<open>w\<close>, and
  \<open>tree_get l w x\<close> the pointer at position \<open>x\<close> of the tree of depth \<open>l\<close> below \<open>w\<close>, zero under a hole.
\<close>

definition ptr_of :: "ext2mount \<Rightarrow> u32 \<Rightarrow> nat \<Rightarrow> u32" where
  "ptr_of ump w k = (case get_u32 (dev_blk (um_devvp ump) (push_bit (unat (um_bptrtodb ump)) (uint w))) (int k) of
     Ret d \<Rightarrow> d | Fault f \<Rightarrow> 0)"

fun tree_get :: "ext2mount \<Rightarrow> nat \<Rightarrow> u32 \<Rightarrow> nat \<Rightarrow> u32" where
  "tree_get ump 0 w x = w"
| "tree_get ump (Suc l) w x =
     (let p = tree_get ump l w (x div nindir_of ump) in if p = 0 then 0 else ptr_of ump p (x mod nindir_of ump))"

definition file_block :: "ext2mount \<Rightarrow> inode \<Rightarrow> nat \<Rightarrow> u32 option" where
  "file_block ump ip b =
     (let n = nindir_of ump; x = b - 12
      in if b < 12 then Some (i_db ip ! b)
         else if x < n then Some (tree_get ump 1 (i_ib ip ! 0) x)
         else if x < n + n ^ 2 then Some (tree_get ump 2 (i_ib ip ! 1) (x - n))
         else if x < n + n ^ 2 + n ^ 3 then Some (tree_get ump 3 (i_ib ip ! 2) (x - n - n ^ 2))
         else None)"

text \<open>Every read succeeds and delivers a whole block of pointers.\<close>

definition readable :: "ext2mount \<Rightarrow> bool" where
  "readable ump \<longleftrightarrow> (\<forall>a. dev_rerr (um_devvp ump) a = 0 \<and> 4 * nindir_of ump \<le> length (dev_blk (um_devvp ump) a))"

lemma get_ptr:
  assumes "readable ump" "k < nindir_of ump"
  shows "get_u32 (dev_blk (um_devvp ump) (push_bit (unat (um_bptrtodb ump)) (uint w))) (int k) = Ret (ptr_of ump w k)"
proof -
  have "4 * nindir_of ump \<le> length (dev_blk (um_devvp ump) (push_bit (unat (um_bptrtodb ump)) (uint w)))"
    using assms(1) by (simp add: readable_def)
  then obtain d where "get_u32 (dev_blk (um_devvp ump) (push_bit (unat (um_bptrtodb ump)) (uint w))) (int k) = Ret d"
    using get_u32_total [of "int k"] assms(2) by fastforce
  then show ?thesis by (simp add: ptr_of_def)
qed

lemma blkptrtodb_ptr:
  assumes "bmap_geom ump"
  shows "blkptrtodb ump (uint (w :: u32)) = Ret (push_bit (unat (um_bptrtodb ump)) (uint w))"
proof -
  let ?k = "unat (um_bptrtodb ump)"
  have k: "?k < 31" using assms by (simp add: bmap_geom_def word_less_nat_alt)
  have "uint w < 2 ^ 32" using uint_lt2p [of w] by simp
  then have "uint w * 2 ^ ?k < 2 ^ 32 * 2 ^ ?k" by simp
  also have "\<dots> \<le> 2 ^ 32 * (2::int) ^ 31" using k by (intro mult_left_mono power_increasing) auto
  finally have "push_bit ?k (uint w) < 2 ^ 63" by (simp add: push_bit_eq_mult)
  moreover have "0 \<le> push_bit ?k (uint w)" by simp
  ultimately have "s64 (push_bit ?k (uint w)) = push_bit ?k (uint w)" by (intro s64_id) linarith+
  moreover have "um_bptrtodb ump < 64" using k by (simp add: word_less_nat_alt)
  ultimately show ?thesis by (simp add: blkptrtodb_def)
qed

text \<open>One step of the walk.\<close>

lemma bmap_walk_step:
  assumes "bmap_geom ump" "readable ump" "in_lbn e \<noteq> bn" "in_off e = int k" "k < nindir_of ump" "w \<noteq> 0"
  shows "bmap_walk ump bn runp runb (e # es) (uint w) r =
     bnd (if es = [] \<and> ptr_of ump w k \<noteq> 0 then runs_at ump (get_u32 (dev_blk (um_devvp ump) (push_bit (unat (um_bptrtodb ump)) (uint w))))
            (int (nindir_of ump)) runp runb (int k) else Ret r) (\<lambda>r.
     bmap_walk ump bn runp runb es (uint (ptr_of ump w k)) r)"
proof -
  have "uint w \<noteq> 0" using assms(6) by (simp add: uint_0_iff)
  then have c: "(uint w = 0 \<or> in_lbn e = bn) = False" using assms(3) by simp
  have r: "buf_meta_bread (um_devvp ump) a = Inr (dev_blk (um_devvp ump) a)" for a
    using assms(2) by (simp add: readable_def buf_meta_bread_def)
  show ?thesis
    by (simp only: bmap_walk.simps(2) c if_False blkptrtodb_ptr [OF assms(1)] bnd.simps r sum.case assms(4)
        get_ptr [OF assms(2,5)] nindir_words(1) [OF assms(1)])
qed

lemma bmap_walk_snoc:
  fixes w v :: u32
  assumes "bmap_geom ump" "readable ump" "\<forall>e \<in> set (es @ [e]). in_lbn e \<noteq> bn \<and> 0 \<le> in_off e \<and> in_off e < int (nindir_of ump)"
    and "bmap_walk ump bn None False es (uint w) (0, 0) = Ret (Inr (uint v, 0, 0))"
  shows "bmap_walk ump bn runp runb (es @ [e]) (uint w) (0, 0) = bmap_walk ump bn runp runb [e] (uint v) (0, 0)"
  using assms(3,4)
proof (induction es arbitrary: w)
  case Nil
  then show ?case by simp
next
  case (Cons f es)
  show ?case
  proof (cases "w = 0")
    case True
    with Cons.prems(2) show ?thesis by auto
  next
    case False
    have f: "in_lbn f \<noteq> bn" "in_off f = int (nat (in_off f))" "nat (in_off f) < nindir_of ump"
      using Cons.prems(1) by auto
    note st = bmap_walk_step [OF assms(1,2) f False]
    have "bmap_walk ump bn None False es (uint (ptr_of ump w (nat (in_off f)))) (0, 0) = Ret (Inr (uint v, 0, 0))"
      using Cons.prems(2) unfolding st by (simp add: runs_at_def split: if_splits)
    from Cons.IH [OF _ this] Cons.prems(1) show ?thesis
      unfolding append_Cons st by simp
  qed
qed

lemma digits_snoc: "digits n (Suc l) x = digits n l (x div n) @ [x mod n]"
proof -
  have "[0..<Suc l] = 0 # map Suc [0..<l]" by (simp add: upt_conv_Cons map_Suc_upt)
  then show ?thesis by (simp add: digits_def rev_map div_mult2_eq [symmetric] o_def)
qed

lemma tree_leaf:
  assumes "bmap_geom ump" "readable ump" "in_lbn e \<noteq> bn" "in_off e = int (x mod nindir_of ump)"
  shows "bmap_walk ump bn None False [e] (uint (tree_get ump l w (x div nindir_of ump))) (0, 0) =
     Ret (Inr (uint (tree_get ump (Suc l) w x), 0, 0))"
proof (cases "tree_get ump l w (x div nindir_of ump) = 0")
  case True
  then show ?thesis by (simp add: Let_def)
next
  case False
  have "x mod nindir_of ump < nindir_of ump" using assms(1) by (simp add: bmap_geom_def)
  from bmap_walk_step [OF assms(1-4) this False] False show ?thesis by (simp add: Let_def runs_at_def)
qed

lemma bmap_walk_tree:
  assumes "bmap_geom ump" "readable ump" "map in_off es = map int (digits (nindir_of ump) l x)" "\<forall>e \<in> set es. in_lbn e \<noteq> bn"
  shows "bmap_walk ump bn None False es (uint w) (0, 0) = Ret (Inr (uint (tree_get ump l w x), 0, 0))"
  using assms(3,4)
proof (induction l arbitrary: x es)
  case 0
  then show ?case by (simp add: digits_def)
next
  case (Suc l)
  have "map in_off es = map int (digits (nindir_of ump) l (x div nindir_of ump)) @ [int (x mod nindir_of ump)]"
    using Suc.prems(1) by (simp add: digits_snoc)
  then obtain fs e where es: "es = fs @ [e]" "map in_off fs = map int (digits (nindir_of ump) l (x div nindir_of ump))"
    "in_off e = int (x mod nindir_of ump)" by (auto simp: map_eq_append_conv)
  have walk: "bmap_walk ump bn None False fs (uint w) (0, 0) = Ret (Inr (uint (tree_get ump l w (x div nindir_of ump)), 0, 0))"
    using Suc.IH [OF es(2)] Suc.prems(2) es(1) by simp
  have "in_off ` set fs \<subseteq> int ` {..<nindir_of ump}"
  proof -
    have "in_off ` set fs = set (map in_off fs)" by simp
    also have "\<dots> \<subseteq> int ` {..<nindir_of ump}"
      unfolding es(2) using assms(1) by (auto simp: digits_def bmap_geom_def)
    finally show ?thesis .
  qed
  moreover have "x mod nindir_of ump < nindir_of ump" using assms(1) by (simp add: bmap_geom_def)
  ultimately have "\<forall>e \<in> set (fs @ [e]). in_lbn e \<noteq> bn \<and> 0 \<le> in_off e \<and> in_off e < int (nindir_of ump)"
    using Suc.prems(2) es(1,3) by auto
  from bmap_walk_snoc [OF assms(1,2) this walk] tree_leaf [OF assms(1,2) _ es(3), of bn l w] Suc.prems(2) es(1)
  show ?case by simp
qed

text \<open>The runs: every step of a forward run is to the next block.\<close>

lemma run_fwd_sound:
  assumes "\<And>k. k < lim \<Longrightarrow> get (int k) = Ret (f k)" "1 \<le> b"
  shows "\<exists>r. run_fwd ump get (int lim) maxrun (int b) run = Ret r \<and> run \<le> r \<and> (run \<le> maxrun \<longrightarrow> r \<le> maxrun) \<and>
     (\<forall>j. int j < r - run \<longrightarrow> b + j < lim \<and> is_sequential ump (f (b + j - 1)) (f (b + j)))"
  using assms(2)
proof (induction "lim - b" arbitrary: b run)
  case 0
  then show ?case by (subst run_fwd.simps) auto
next
  case (Suc m)
  then have b: "b < lim" "m = lim - Suc b" by auto
  have g: "get (int b - 1) = Ret (f (b - 1))" "get (int b) = Ret (f b)"
    using assms(1) [of "b - 1"] assms(1) [of b] b Suc.prems by (simp_all add: of_nat_diff)
  show ?case
  proof (cases "run < maxrun \<and> is_sequential ump (f (b - 1)) (f b)")
    case True
    obtain r where r: "run_fwd ump get (int lim) maxrun (int (Suc b)) (run + 1) = Ret r" "run + 1 \<le> r"
      "run + 1 \<le> maxrun \<longrightarrow> r \<le> maxrun"
      "\<forall>j. int j < r - (run + 1) \<longrightarrow> Suc b + j < lim \<and> is_sequential ump (f (Suc b + j - 1)) (f (Suc b + j))"
      using Suc.hyps(1) [OF b(2), of "run + 1"] by auto
    have "run_fwd ump get (int lim) maxrun (int b) run = Ret r"
      using True b(1) g r(1) by (subst run_fwd.simps) (simp add: add.commute)
    moreover have "b + j < lim \<and> is_sequential ump (f (b + j - 1)) (f (b + j))" if "int j < r - run" for j
      using r(4) [rule_format, of "j - 1"] that True b(1) by (cases j) auto
    ultimately show ?thesis using r(2,3) True by auto
  next
    case False
    then have "run_fwd ump get (int lim) maxrun (int b) run = Ret run" using b(1) g by (subst run_fwd.simps) auto
    then show ?thesis by auto
  qed
qed

lemma runs_at_fwd:
  assumes "\<And>k. k < lim \<Longrightarrow> get (int k) = Ret (f k)" "\<forall>m. runp = Some m \<longrightarrow> 0 \<le> m"
  shows "\<exists>r. runs_at ump get (int lim) runp False (int b) = Ret (r, 0) \<and> 0 \<le> r \<and> (\<forall>m. runp = Some m \<longrightarrow> r \<le> m) \<and>
     (\<forall>j. int j < r \<longrightarrow> b + j + 1 < lim \<and> is_sequential ump (f (b + j)) (f (b + j + 1)))"
proof (cases runp)
  case None
  then show ?thesis by (simp add: runs_at_def)
next
  case (Some m)
  from run_fwd_sound [of lim get f "Suc b" ump m 0, OF assms(1)] Some assms(2) show ?thesis
    by (fastforce simp: runs_at_def add.commute)
qed

section \<open>\<^verbatim>\<open>ext2_bmaparray\<close> reads the tree\<close>

lemma getlbns_direct: "b < 12 \<Longrightarrow> ext2_getlbns ump (int b) = Ret (Inr [])"
  by (simp add: ext2_getlbns_def NDADDR_def)

text \<open>The path to block \<open>b\<close>: position \<open>x\<close> in the tree of depth \<open>l\<close> under pointer \<open>l - 1\<close> of the inode.\<close>

definition lbn_place :: "ext2mount \<Rightarrow> nat \<Rightarrow> (nat \<times> nat) option" where
  "lbn_place ump b =
     (let n = nindir_of ump; x = b - 12
      in if x < n then Some (1, x) else if x < n + n ^ 2 then Some (2, x - n)
         else if x < n + n ^ 2 + n ^ 3 then Some (3, x - n - n ^ 2) else None)"

lemma lbn_level_place:
  assumes "bmap_geom ump" "12 \<le> b"
  shows "lbn_level (sint (um_nindir ump)) 3 1 (int b - NDADDR) =
     (case lbn_place ump b of None \<Rightarrow> None | Some (l, x) \<Rightarrow> Some (4 - l, int (nindir_of ump) ^ (l - 1), int x))"
proof -
  let ?n = "nindir_of ump"
  have n: "1 \<le> int ?n" "int ?n \<le> 2 ^ 20" using assms(1) by (simp_all add: bmap_geom_def)
  have x: "int b - NDADDR = int (b - 12)" using assms(2) by (simp add: NDADDR_def)
  have c: "int (b - 12) < int ?n \<longleftrightarrow> b - 12 < ?n" "int (b - 12) < int ?n + int ?n ^ 2 \<longleftrightarrow> b - 12 < ?n + ?n ^ 2"
    "int (b - 12) < int ?n + int ?n ^ 2 + int ?n ^ 3 \<longleftrightarrow> b - 12 < ?n + ?n ^ 2 + ?n ^ 3"
    by (simp_all only: of_nat_add [symmetric] of_nat_power [symmetric] of_nat_less_iff)
  have d: "\<not> b - 12 < ?n \<Longrightarrow> int (b - 12) - int ?n = int (b - 12 - ?n)"
    "\<not> b - 12 < ?n + ?n ^ 2 \<Longrightarrow> int (b - 12) - int ?n - int ?n ^ 2 = int (b - 12 - ?n - ?n ^ 2)"
    unfolding of_nat_power [symmetric] by linarith+
  show ?thesis
    unfolding nindir_words(1) [OF assms(1)] x lbn_level_cases [OF n of_nat_0_le_iff] c lbn_place_def Let_def
    using d by (simp add: numeral_2_eq_2)
qed

lemma lbn_place_bounds: "lbn_place ump b = Some (l, x) \<Longrightarrow> 1 \<le> l \<and> l \<le> 3 \<and> x \<le> b - 12"
  by (auto simp: lbn_place_def Let_def split: if_splits)

lemma getlbns_indirect:
  assumes "bmap_geom ump" "12 \<le> b" "lbn_place ump b = Some (l, x)"
  obtains e es where "ext2_getlbns ump (int b) = Ret (Inr (e # es))" "in_off e = int l - 1"
    "map in_off es = map int (digits (nindir_of ump) l x)" "\<forall>e \<in> set es. in_lbn e \<noteq> int b"
proof -
  note lb = lbn_place_bounds [OF assms(3)]
  define m where "m = - (int b - int x + NIADDR - int (4 - l))"
  have m: "m + int l \<le> - 1" using lb assms(2) unfolding m_def NIADDR_def by linarith
  from lb have bc: "l = 0 \<or> int (nindir_of ump) ^ (l - 1) = int (nindir_of ump) ^ (l - 1)" by simp
  from lbn_path_digits [OF assms(1) bc _ m, of "int b" x] obtain es where
    es: "lbn_path (um_nindir ump) (int b) (int x) l m (int (nindir_of ump) ^ (l - 1)) = Ret es"
    "map in_off es = map int (digits (nindir_of ump) l x)" "\<forall>e \<in> set es. in_lbn e < 0" by auto
  have l4: "4 - (4 - l) = l" using lb by simp
  have "ext2_getlbns ump (int b) = Ret (Inr (\<lparr>in_lbn = m, in_off = NIADDR - int (4 - l)\<rparr> # es))"
  proof -
    have "\<not> int b < NDADDR" using assms(2) by (simp add: NDADDR_def)
    then show ?thesis
      using es(1) unfolding ext2_getlbns_def Let_def m_def by (simp add: lbn_level_place [OF assms(1,2)] assms(3) l4 del: bnd_Ret_iff)
  qed
  moreover have "\<forall>e \<in> set es. in_lbn e \<noteq> int b" using es(3) by fastforce
  ultimately show ?thesis using that es(2) lb by (auto simp: NIADDR_def)
qed

lemma getlbns_beyond:
  assumes "bmap_geom ump" "12 \<le> b" "lbn_place ump b = None"
  shows "ext2_getlbns ump (int b) = Ret (Inl EFBIG)"
proof -
  have "\<not> int b < NDADDR" using assms(2) by (simp add: NDADDR_def)
  then show ?thesis unfolding ext2_getlbns_def Let_def by (simp add: lbn_level_place [OF assms(1,2)] assms(3))
qed

lemma file_block_place:
  "12 \<le> b \<Longrightarrow> file_block ump ip b = (case lbn_place ump b of None \<Rightarrow> None | Some (l, x) \<Rightarrow> Some (tree_get ump l (i_ib ip ! (l - 1)) x))"
  by (simp add: file_block_def lbn_place_def Let_def numeral_2_eq_2)

lemma lbn_place_next:
  assumes "lbn_place ump b = Some (l, x)" "12 \<le> b" "x mod nindir_of ump + j < nindir_of ump"
  shows "lbn_place ump (b + j) = Some (l, x + j)"
proof -
  let ?n = "nindir_of ump"
  have below: "y + j < t * ?n" if "y < t * ?n" "y mod ?n + j < ?n" for y t
  proof -
    have "y div ?n < t" using that(1) by (simp add: less_mult_imp_div_less)
    then have "Suc (y div ?n) * ?n \<le> t * ?n" by (intro mult_le_mono1) simp
    then show ?thesis using that(2) div_mult_mod_eq [of y ?n] unfolding mult_Suc by linarith
  qed
  show ?thesis
  proof (cases "b - 12 < ?n")
    case True
    then have "l = 1" "x = b - 12" using assms(1) by (simp_all add: lbn_place_def Let_def)
    then show ?thesis using below [of x 1] assms True by (simp add: lbn_place_def Let_def)
  next
    case F1: False
    show ?thesis
    proof (cases "b - 12 < ?n + ?n ^ 2")
      case True
      then have x: "l = 2" "x = b - 12 - ?n" using assms(1) F1 by (simp_all add: lbn_place_def Let_def)
      have "x < ?n * ?n" using True F1 x(2) unfolding power2_eq_square by linarith
      then have "x + j < ?n ^ 2" using below [of x ?n] assms(3) unfolding power2_eq_square by blast
      then have "b + j - 12 < ?n + ?n ^ 2" "\<not> b + j - 12 < ?n" "b + j - 12 - ?n = x + j" using F1 x(2) assms(2) by linarith+
      then show ?thesis using x(1) by (simp add: lbn_place_def Let_def)
    next
      case F2: False
      have F3: "b - 12 < ?n + ?n ^ 2 + ?n ^ 3" using assms(1) F1 F2 by (simp add: lbn_place_def Let_def split: if_splits)
      have x: "l = 3" "x = b - 12 - ?n - ?n ^ 2" using assms(1) F1 F2 F3 by (simp_all add: lbn_place_def Let_def)
      have cube: "?n ^ 3 = ?n ^ 2 * ?n" by (simp add: power2_eq_square power3_eq_cube)
      have "x < ?n ^ 2 * ?n" using F2 F3 x(2) unfolding cube by linarith
      then have "x + j < ?n ^ 3" using below [of x "?n ^ 2"] assms(3) unfolding cube by blast
      then have "b + j - 12 < ?n + ?n ^ 2 + ?n ^ 3" "\<not> b + j - 12 < ?n + ?n ^ 2" "\<not> b + j - 12 < ?n" "b + j - 12 - ?n - ?n ^ 2 = x + j"
        using F1 F2 x(2) assms(2) by linarith+
      then show ?thesis using x(1) by (simp add: lbn_place_def Let_def)
    qed
  qed
qed

lemma tree_get_next:
  assumes "x mod nindir_of ump + j < nindir_of ump"
  shows "tree_get ump (Suc l) w (x + j) =
     (let p = tree_get ump l w (x div nindir_of ump) in if p = 0 then 0 else ptr_of ump p (x mod nindir_of ump + j))"
proof -
  have "x + j = x div nindir_of ump * nindir_of ump + (x mod nindir_of ump + j)" using div_mult_mod_eq [of x] by simp
  then have "(x + j) div nindir_of ump = x div nindir_of ump" "(x + j) mod nindir_of ump = x mod nindir_of ump + j"
    using assms by (metis div_mult_self3 div_less add_0_right gr_implies_not0) (metis \<open>x + j = _\<close> mod_mult_self3 mod_less assms)
  then show ?thesis by (simp add: Let_def)
qed

text \<open>The walk with the run of the last level.\<close>

lemma bmap_walk_runs:
  assumes geo: "bmap_geom ump" "readable ump" and es: "map in_off es = map int (digits (nindir_of ump) (Suc l) x)" "\<forall>e \<in> set es. in_lbn e \<noteq> bn"
    and "\<forall>m. runp = Some m \<longrightarrow> 0 \<le> m"
  shows "\<exists>r. bmap_walk ump bn runp False es (uint w) (0, 0) = Ret (Inr (uint (tree_get ump (Suc l) w x), r, 0)) \<and>
     0 \<le> r \<and> (\<forall>m. runp = Some m \<longrightarrow> r \<le> m) \<and>
     (\<forall>j. int j < r \<longrightarrow> x mod nindir_of ump + j + 1 < nindir_of ump \<and>
        is_sequential ump (tree_get ump (Suc l) w (x + j)) (tree_get ump (Suc l) w (x + j + 1)))"
proof -
  let ?n = "nindir_of ump"
  have "map in_off es = map int (digits ?n l (x div ?n)) @ [int (x mod ?n)]" using es(1) by (simp add: digits_snoc)
  then obtain fs e where f: "es = fs @ [e]" "map in_off fs = map int (digits ?n l (x div ?n))" "in_off e = int (x mod ?n)"
    by (auto simp: map_eq_append_conv)
  have n: "x mod ?n < ?n" using geo(1) by (simp add: bmap_geom_def)
  define v where "v = tree_get ump l w (x div ?n)"
  have pre: "bmap_walk ump bn None False fs (uint w) (0, 0) = Ret (Inr (uint v, 0, 0))"
    unfolding v_def using bmap_walk_tree [OF geo f(2), of bn w] es(2) f(1) by simp
  have "in_off ` set fs = set (map in_off fs)" by simp
  also have "\<dots> \<subseteq> int ` {..<?n}" unfolding f(2) using geo(1) by (auto simp: digits_def bmap_geom_def)
  finally have "\<forall>e \<in> set (fs @ [e]). in_lbn e \<noteq> bn \<and> 0 \<le> in_off e \<and> in_off e < int ?n"
    using es(2) f(1,3) n by auto
  from bmap_walk_snoc [OF geo this pre, of runp False] f(1) have
    w: "bmap_walk ump bn runp False es (uint w) (0, 0) = bmap_walk ump bn runp False [e] (uint v) (0, 0)" by simp
  show ?thesis
  proof (cases "v = 0")
    case True
    then have "tree_get ump (Suc l) w x = 0" by (simp add: v_def Let_def)
    with w True assms(5) show ?thesis by (intro exI [of _ 0]) simp
  next
    case False
    have e: "in_lbn e \<noteq> bn" using es(2) f(1) by simp
    note st = bmap_walk_step [OF geo e f(3) n False, of runp False "[]" "(0, 0)"]
    have t: "tree_get ump (Suc l) w (x + j) = ptr_of ump v (x mod ?n + j)" if "x mod ?n + j < ?n" for j
      using tree_get_next [OF that, of l w] False by (simp add: v_def Let_def)
    have t0: "tree_get ump (Suc l) w x = ptr_of ump v (x mod ?n)" using t [of 0] n by simp
    obtain r where r: "runs_at ump (get_u32 (dev_blk (um_devvp ump) (push_bit (unat (um_bptrtodb ump)) (uint v)))) (int ?n) runp False (int (x mod ?n)) = Ret (r, 0)"
      "0 \<le> r" "\<forall>m. runp = Some m \<longrightarrow> r \<le> m"
      "\<forall>j. int j < r \<longrightarrow> x mod ?n + j + 1 < ?n \<and> is_sequential ump (ptr_of ump v (x mod ?n + j)) (ptr_of ump v (x mod ?n + j + 1))"
      using runs_at_fwd [of ?n _ "ptr_of ump v" runp ump "x mod ?n", OF get_ptr [OF geo(2)] assms(5)] by blast
    show ?thesis
    proof (cases "ptr_of ump v (x mod ?n) = 0")
      case True
      then have "bmap_walk ump bn runp False [e] (uint v) (0, 0) = Ret (Inr (0, 0, 0))" using st by simp
      then show ?thesis using w t0 True assms(5) by (intro exI [of _ 0]) simp
    next
      case nz: False
      then have "bmap_walk ump bn runp False [e] (uint v) (0, 0) = Ret (Inr (uint (ptr_of ump v (x mod ?n)), r, 0))"
        using st r(1) by simp
      moreover have "is_sequential ump (tree_get ump (Suc l) w (x + j)) (tree_get ump (Suc l) w (x + j + 1))" if "int j < r" for j
        using r(4) [rule_format, OF that] t [of j] t [of "j + 1"] by (simp add: add.assoc)
      ultimately show ?thesis using w t0 r(2-4) by auto
    qed
  qed
qed

definition ptrs_ok :: "inode \<Rightarrow> bool" where
  "ptrs_ok ip \<longleftrightarrow> length (i_db ip) = 12 \<and> length (i_ib ip) = 3"

text \<open>The device address of a pointer, and \<open>-1\<close> for a hole.\<close>

definition dev_addr :: "ext2mount \<Rightarrow> u32 \<Rightarrow> int" where
  "dev_addr ump w = (if w = 0 then - 1 else push_bit (unat (um_bptrtodb ump)) (uint w))"

lemma hole_if_0_ptr: "hole_if_0 (push_bit (unat (um_bptrtodb ump)) (uint w)) = dev_addr ump w"
  by (simp add: hole_if_0_def dev_addr_def push_bit_eq_mult uint_0_iff)

lemma max_run_total: "bsize \<noteq> 0 \<Longrightarrow> \<exists>m. max_run c bsize = Ret m \<and> 0 \<le> m"
  by (simp add: max_run_def)

lemma runp_total:
  assumes "e2fs_bsize (um_e2fs ump) \<noteq> 0"
  obtains rp where "(case runp of None \<Rightarrow> Ret None | Some m \<Rightarrow> bnd (max_run m (e2fs_bsize (um_e2fs ump))) (\<lambda>x. Ret (Some x))) = Ret rp"
    "\<forall>m. rp = Some m \<longrightarrow> 0 \<le> m"
proof (cases runp)
  case None
  then show ?thesis using that [of None] by simp
next
  case (Some c)
  obtain m where "max_run c (e2fs_bsize (um_e2fs ump)) = Ret m" "0 \<le> m" using max_run_total [OF assms] by blast
  with Some show ?thesis using that [of "Some m"] by simp
qed

lemma blkptrtodb32_fits:
  assumes "bmap_geom ump" "uint w * 2 ^ unat (um_bptrtodb ump) < 2 ^ 32"
  shows "\<exists>a. blkptrtodb32 ump w = Ret a \<and> uint a = push_bit (unat (um_bptrtodb ump)) (uint w)"
proof -
  have "um_bptrtodb ump < 32" using assms(1) by (simp add: bmap_geom_def word_less_nat_alt)
  moreover have "uint (push_bit (unat (um_bptrtodb ump)) w) = push_bit (unat (um_bptrtodb ump)) (uint w)"
  proof -
    have "uint (push_bit (unat (um_bptrtodb ump)) w) = take_bit 32 (push_bit (unat (um_bptrtodb ump)) (uint w))"
      by (simp add: unsigned_push_bit_eq)
    also have "\<dots> = push_bit (unat (um_bptrtodb ump)) (uint w)"
      using assms(2) by (intro take_bit_int_eq_self) (simp_all add: push_bit_eq_mult)
    finally show ?thesis .
  qed
  ultimately show ?thesis by (simp add: blkptrtodb32_def)
qed

lemma bmaparray_tree:
  assumes geo: "bmap_geom ump" "readable ump" "ptrs_ok ip" "e2fs_bsize (um_e2fs ump) \<noteq> 0"
    and fits: "\<And>w. b < 12 \<Longrightarrow> file_block ump ip b = Some w \<Longrightarrow> uint w * 2 ^ unat (um_bptrtodb ump) < 2 ^ 32"
  shows "case file_block ump ip b of
       None \<Rightarrow> ext2_bmaparray ump ip (int b) runp False = Ret (Inl EFBIG)
     | Some w \<Rightarrow> \<exists>run. ext2_bmaparray ump ip (int b) runp False = Ret (Inr (dev_addr ump w, run, 0)) \<and> 0 \<le> run \<and>
         (\<forall>j. int j < run \<longrightarrow> (\<exists>u v. file_block ump ip (b + j) = Some u \<and> file_block ump ip (b + j + 1) = Some v \<and>
            is_sequential ump u v))"
proof -
  obtain rp where rp: "(case runp of None \<Rightarrow> Ret None | Some m \<Rightarrow> bnd (max_run m (e2fs_bsize (um_e2fs ump))) (\<lambda>x. Ret (Some x))) = Ret rp"
    "\<forall>m. rp = Some m \<longrightarrow> 0 \<le> m" by (rule runp_total [OF geo(4)])
  show ?thesis
  proof (cases "b < 12")
    case True
    let ?w = "i_db ip ! b"
    have fb: "file_block ump ip k = Some (i_db ip ! k)" if "k < 12" for k using that by (simp add: file_block_def)
    obtain a where a: "blkptrtodb32 ump ?w = Ret a" "uint a = push_bit (unat (um_bptrtodb ump)) (uint ?w)"
      using blkptrtodb32_fits [OF geo(1) fits [OF True fb [OF True]]] by blast
    have rd: "rd (i_db ip) (int b) = Ret ?w" using True geo(3) by (simp add: ptrs_ok_def)
    have z: "a = 0 \<longleftrightarrow> ?w = 0" using a(2) by (simp add: push_bit_eq_mult uint_0_iff [symmetric])
    obtain r where r: "runs_at ump (rd (i_db ip)) (int 12) rp False (int b) = Ret (r, 0)" "0 \<le> r"
      "\<forall>j. int j < r \<longrightarrow> b + j + 1 < 12 \<and> is_sequential ump (i_db ip ! (b + j)) (i_db ip ! (b + j + 1))"
      using runs_at_fwd [of 12 "rd (i_db ip)" "(!) (i_db ip)" rp ump b, OF _ rp(2)] geo(3) by (auto simp: ptrs_ok_def)
    have eq: "ext2_bmaparray ump ip (int b) runp False =
        (if a = 0 then Ret (Inr (- 1, 0, 0)) else bnd (runs_at ump (rd (i_db ip)) NDADDR rp False (int b)) (\<lambda>r. Ret (Inr (uint a, r))))"
      unfolding ext2_bmaparray_def rp(1) bnd.simps getlbns_direct [OF True] sum.case list.case rd a(1) ..
    show ?thesis
    proof (cases "a = 0")
      case T: True
      then show ?thesis using eq z fb [OF True] by (auto simp: dev_addr_def)
    next
      case F: False
      then have "ext2_bmaparray ump ip (int b) runp False = Ret (Inr (dev_addr ump ?w, r, 0))"
        using eq r(1) z a(2) by (simp add: NDADDR_def dev_addr_def)
      moreover have "file_block ump ip (b + j) = Some (i_db ip ! (b + j))" "file_block ump ip (b + j + 1) = Some (i_db ip ! (b + j + 1))"
        if "int j < r" for j using r(3) [rule_format, OF that] by (auto intro!: fb)
      ultimately show ?thesis using fb [OF True] r(2,3) by auto
    qed
  next
    case False
    then have b: "12 \<le> b" by simp
    show ?thesis
    proof (cases "lbn_place ump b")
      case None
      then show ?thesis
        using getlbns_beyond [OF geo(1) b None] file_block_place [OF b, of ump ip] unfolding ext2_bmaparray_def rp(1) by simp
    next
      case (Some lx)
      then obtain l x where lx: "lbn_place ump b = Some (l, x)" by (cases lx) simp
      note lb = lbn_place_bounds [OF lx]
      then obtain l' where l': "l = Suc l'" by (cases l) auto
      let ?w = "i_ib ip ! (l - 1)"
      obtain e es where p: "ext2_getlbns ump (int b) = Ret (Inr (e # es))" "in_off e = int l - 1"
        "map in_off es = map int (digits (nindir_of ump) l x)" "\<forall>e \<in> set es. in_lbn e \<noteq> int b"
        by (rule getlbns_indirect [OF geo(1) b lx])
      have rd: "rd (i_ib ip) (in_off e) = Ret ?w" using p(2) lb geo(3) by (simp add: ptrs_ok_def nat_diff_distrib)
      obtain r where r: "bmap_walk ump (int b) rp False es (uint ?w) (0, 0) = Ret (Inr (uint (tree_get ump l ?w x), r, 0))" "0 \<le> r"
        "\<forall>j. int j < r \<longrightarrow> x mod nindir_of ump + j + 1 < nindir_of ump \<and>
          is_sequential ump (tree_get ump l ?w (x + j)) (tree_get ump l ?w (x + j + 1))"
        using bmap_walk_runs [OF geo(1,2) p(3) [unfolded l'] p(4) rp(2), of ?w] unfolding l' by blast
      have fb: "file_block ump ip (b + j) = Some (tree_get ump l ?w (x + j))" if "x mod nindir_of ump + j < nindir_of ump" for j
        using file_block_place [of "b + j"] lbn_place_next [OF lx b that] b by simp
      have "ext2_bmaparray ump ip (int b) runp False = Ret (Inr (dev_addr ump (tree_get ump l ?w x), r, 0))"
        unfolding ext2_bmaparray_def rp(1) bnd.simps p(1) sum.case list.case rd r(1) prod.case
          blkptrtodb_ptr [OF geo(1)] hole_if_0_ptr ..
      moreover have "file_block ump ip b = Some (tree_get ump l ?w x)"
        using fb [of 0] geo(1) by (simp add: bmap_geom_def)
      moreover have "\<exists>u v. file_block ump ip (b + j) = Some u \<and> file_block ump ip (b + j + 1) = Some v \<and> is_sequential ump u v"
        if "int j < r" for j
        using r(3) [rule_format, OF that] fb [of j] fb [of "j + 1"] by (auto simp: add.assoc)
      ultimately show ?thesis using r(2) by auto
    qed
  qed
qed

text \<open>C24. \<^verbatim>\<open>ext2_bmaparray\<close> refines the tree of block pointers: for every block of a file, whatever the depth
  of its pointer, it returns the device address the tree holds or \<open>-1\<close> for a hole, and the run it
  reports consists of blocks whose pointers follow one another; past triple indirection it is
  \<^verbatim>\<open>EFBIG\<close>. For a direct block the address has to fit 32 bits.\<close>

theorem bmaparray_refines_tree:
  assumes geo: "bmap_geom ump" "readable ump" "ptrs_ok ip" "e2fs_bsize (um_e2fs ump) \<noteq> 0"
    and fits: "\<And>w. b < 12 \<Longrightarrow> file_block ump ip b = Some w \<Longrightarrow> uint w * 2 ^ unat (um_bptrtodb ump) < 2 ^ 32"
  shows "case file_block ump ip b of
       None \<Rightarrow> ext2_bmaparray ump ip (int b) runp False = Ret (Inl EFBIG)
     | Some w \<Rightarrow> \<exists>run. ext2_bmaparray ump ip (int b) runp False = Ret (Inr (dev_addr ump w, run, 0)) \<and> 0 \<le> run \<and>
         (\<forall>j. int j < run \<longrightarrow> (\<exists>u v. file_block ump ip (b + j) = Some u \<and> file_block ump ip (b + j + 1) = Some v \<and>
            is_sequential ump u v))"
  by (rule bmaparray_tree [OF assms])

text \<open>A mount with two pointers per block, and a file with one indirect block whose two entries are
  blocks 30 and 31.\<close>

definition demo_bump :: ext2mount where
  "demo_bump = \<lparr>um_devvp = \<lparr>dev_blk = (\<lambda>a. if a = 20 then [30, 0, 0, 0, 31, 0, 0, 0] else replicate 8 0),
       dev_rerr = (\<lambda>a. 0), dev_werr = (\<lambda>a. 0), dev_nobuf = (\<lambda>a. False)\<rparr>,
     um_e2fs = zero_fs\<lparr>e2fs_bsize := 8\<rparr>, um_nindir = 2, um_bptrtodb = 1, um_seqinc = 1, um_lock = False\<rparr>"

definition demo_file :: inode where
  "demo_file = zero_inode\<lparr>i_db := replicate 11 0 @ [0x80000001], i_ib := [10, 0, 0]\<rparr>"

lemma demo_bmap: "bmap_geom demo_bump" "readable demo_bump" "ptrs_ok demo_file" "e2fs_bsize (um_e2fs demo_bump) \<noteq> 0"
  "file_block demo_bump demo_file 12 = Some 30"
proof -
  show "bmap_geom demo_bump" by (simp add: bmap_geom_def nindir_of_def demo_bump_def)
  show "readable demo_bump" by (simp add: readable_def nindir_of_def demo_bump_def)
  show "ptrs_ok demo_file" by (simp add: ptrs_ok_def demo_file_def)
  show "e2fs_bsize (um_e2fs demo_bump) \<noteq> 0" by (simp add: demo_bump_def)
  show "file_block demo_bump demo_file 12 = Some 30" by code_simp
qed

theorem bmaparray_refines_tree_witness:
  "\<exists>run. ext2_bmaparray demo_bump demo_file 12 (Some 64) False = Ret (Inr (60, run, 0)) \<and> 0 \<le> run"
proof -
  have "dev_addr demo_bump 30 = 60" by code_simp
  then show ?thesis
    using bmaparray_refines_tree [OF demo_bmap(1-4), of 12 "Some 64"] demo_bmap(5) by auto
qed

text \<open>A direct block whose device address needs more than 32 bits is mapped to a wrong address, since
  \<^verbatim>\<open>blkptrtodb\<close> shifts the 32-bit pointer: on a volume past two terabytes the first twelve blocks of a
  file are read from the wrong place.\<close>

theorem bmaparray_direct_truncates:
  assumes "bmap_geom ump" "ptrs_ok ip" "b < 12" "2 ^ 32 \<le> uint (i_db ip ! b) * 2 ^ unat (um_bptrtodb ump)"
  shows "\<exists>a. ext2_bmaparray ump ip (int b) None False = Ret (Inr (a, 0, 0)) \<and> a \<noteq> dev_addr ump (i_db ip ! b)"
proof -
  let ?w = "i_db ip ! b"
  define a where "a = push_bit (unat (um_bptrtodb ump)) ?w"
  have "um_bptrtodb ump < 32" using assms(1) by (simp add: bmap_geom_def word_less_nat_alt)
  then have b: "blkptrtodb32 ump ?w = Ret a" by (simp add: blkptrtodb32_def a_def)
  have rd: "rd (i_db ip) (int b) = Ret ?w" using assms(2,3) by (simp add: ptrs_ok_def)
  have eq: "ext2_bmaparray ump ip (int b) None False = Ret (Inr (if a = 0 then - 1 else uint a, 0, 0))"
    unfolding ext2_bmaparray_def option.case bnd.simps getlbns_direct [OF assms(3)] sum.case list.case rd b
    by (simp add: runs_at_def)
  have "?w \<noteq> 0" using assms(4) by auto
  then have d: "dev_addr ump ?w = uint ?w * 2 ^ unat (um_bptrtodb ump)" by (simp add: dev_addr_def push_bit_eq_mult)
  have "uint a < 2 ^ 32" using uint_lt2p [of a] by simp
  then have "(if a = 0 then - 1 else uint a) < 2 ^ 32" by simp
  then have "(if a = 0 then - 1 else uint a) \<noteq> dev_addr ump ?w" using assms(4) unfolding d by linarith
  then show ?thesis using eq by blast
qed

theorem bmaparray_direct_truncates_witness:
  "\<exists>a. ext2_bmaparray demo_bump demo_file 11 None False = Ret (Inr (a, 0, 0)) \<and> a \<noteq> dev_addr demo_bump 0x80000001"
proof -
  have w: "i_db demo_file ! 11 = 0x80000001" "um_bptrtodb demo_bump = 1" by (simp_all add: demo_file_def nth_append demo_bump_def)
  show ?thesis
    using bmaparray_direct_truncates [OF demo_bmap(1,3), of 11] by (simp add: w)
qed

text \<open>\<^verbatim>\<open>ext2_offtoblk\<close> undoes \<^verbatim>\<open>ext2_blktooff\<close>, and the offset of the block of an offset is the offset
  rounded down to a block.\<close>

theorem blktooff_offtoblk:
  assumes "e2fs_bsize fs \<noteq> 0" "0 \<le> lbn" "lbn * uint (e2fs_bsize fs) < 2 ^ 63" "0 \<le> off" "off < 2 ^ 63"
  shows "\<exists>o1 b o2. ext2_blktooff fs lbn True = Inr o1 \<and> ext2_offtoblk fs o1 True = Ret (Inr lbn) \<and>
     ext2_offtoblk fs off True = Ret (Inr b) \<and> ext2_blktooff fs b True = Inr o2 \<and>
     o2 \<le> off \<and> off < o2 + uint (e2fs_bsize fs)"
proof -
  let ?s = "uint (e2fs_bsize fs)"
  have s: "0 < ?s" using assms(1) by (simp add: uint_0_iff order_less_le)
  have "0 \<le> lbn * ?s" using assms(2) s by simp
  then have o1: "s64 (lbn * ?s) = lbn * ?s" using assms(3) by (intro s64_id) auto
  have d: "off div ?s * ?s \<le> off" "off < off div ?s * ?s + ?s"
    using div_mult_mod_eq [of off ?s] pos_mod_sign [OF s, of off] pos_mod_bound [OF s, of off] by linarith+
  have "0 \<le> off div ?s * ?s" using assms(4) s by (simp add: pos_imp_zdiv_nonneg_iff)
  then have o2: "s64 (off div ?s * ?s) = off div ?s * ?s" using d(1) assms(5) by (intro s64_id) auto
  have "(lbn * ?s) sdiv ?s = lbn" "off sdiv ?s = off div ?s" using assms(2,4) s by (simp_all add: geom_simps)
  then show ?thesis using o1 o2 d assms(1) by (simp add: ext2_blktooff_def ext2_offtoblk_def)
qed

theorem blktooff_offtoblk_witness:
  "\<exists>b o2. ext2_offtoblk (zero_fs\<lparr>e2fs_bsize := 1024\<rparr>) 5000 True = Ret (Inr b) \<and>
     ext2_blktooff (zero_fs\<lparr>e2fs_bsize := 1024\<rparr>) b True = Inr o2 \<and> o2 \<le> 5000 \<and> 5000 < o2 + 1024"
  using blktooff_offtoblk [of "zero_fs\<lparr>e2fs_bsize := 1024\<rparr>" 3 5000] by auto

end
