(* ===== verification/Ext2_Bytes.thy ===== *)
theory Ext2_Bytes
  imports Ext2_Prelude
begin

text \<open>
  Structures in memory: reading and writing a range of a buffer, the little-endian encoding of 16- and
  32-bit fields, and a buffer as the list of its 32-bit words. An access outside the buffer is \<^const>\<open>Oob\<close>.
\<close>

section \<open>Ranges of a buffer\<close>

definition slice :: "bytes \<Rightarrow> int \<Rightarrow> nat \<Rightarrow> bytes outcome" where
  "slice bs i n = (if 0 \<le> i \<and> i + int n \<le> int (length bs) then Ret (take n (drop (nat i) bs)) else Fault Oob)"

definition blit :: "bytes \<Rightarrow> int \<Rightarrow> bytes \<Rightarrow> bytes outcome" where
  "blit bs i xs = (if 0 \<le> i \<and> i + int (length xs) \<le> int (length bs)
     then Ret (take (nat i) bs @ xs @ drop (nat i + length xs) bs) else Fault Oob)"

lemma slice_Ret [simp]:
  "slice bs i n = Ret xs \<longleftrightarrow> 0 \<le> i \<and> i + int n \<le> int (length bs) \<and> xs = take n (drop (nat i) bs)"
  by (auto simp: slice_def)

lemma blit_Ret [simp]:
  "blit bs i xs = Ret ys \<longleftrightarrow> 0 \<le> i \<and> i + int (length xs) \<le> int (length bs) \<and>
     ys = take (nat i) bs @ xs @ drop (nat i + length xs) bs"
  by (auto simp: blit_def)

lemma slice_in: "i + n \<le> length bs \<Longrightarrow> slice bs (int i) n = Ret (take n (drop i bs))"
  by simp

lemma blit_in: "i + length xs \<le> length bs \<Longrightarrow> blit bs (int i) xs = Ret (take i bs @ xs @ drop (i + length xs) bs)"
  by simp

lemma blit_length: "blit bs i xs = Ret ys \<Longrightarrow> length ys = length bs"
  by auto

lemma slice_blit_same: "blit bs i xs = Ret ys \<Longrightarrow> slice ys i (length xs) = Ret xs"
  by auto

lemma slice_blit_before:
  assumes "blit bs i xs = Ret ys" "j + int n \<le> i" shows "slice ys j n = slice bs j n"
proof (cases "0 \<le> j")
  case True
  have b: "0 \<le> i" "i + int (length xs) \<le> int (length bs)" "ys = take (nat i) bs @ xs @ drop (nat i + length xs) bs"
    using assms(1) by auto
  have "nat j + n \<le> nat i" using True assms(2) by simp
  then have "take n (drop (nat j) ys) = take n (drop (nat j) bs)"
    unfolding b(3) using b(1,2) by (simp add: take_drop)
  moreover have "length ys = length bs" by (rule blit_length [OF assms(1)])
  ultimately show ?thesis by (simp add: slice_def)
qed (simp add: slice_def)

lemma slice_blit_after:
  assumes "blit bs i xs = Ret ys" "i + int (length xs) \<le> j" shows "slice ys j n = slice bs j n"
proof -
  have b: "0 \<le> i" "i + int (length xs) \<le> int (length bs)" "ys = take (nat i) bs @ xs @ drop (nat i + length xs) bs"
    using assms(1) by auto
  have "nat i + length xs \<le> nat j" using b(1) assms(2) by simp
  then have "drop (nat j) ys = drop (nat j) bs"
    unfolding b(3) using b(1,2) by (simp add: min_def)
  moreover have "length ys = length bs" by (rule blit_length [OF assms(1)])
  ultimately show ?thesis by (simp add: slice_def)
qed

lemma blit_slice: "slice bs i n = Ret xs \<Longrightarrow> blit bs i xs = Ret bs"
  by (auto simp: min_def) (metis add.commute append_take_drop_id drop_drop)

section \<open>Little-endian fields\<close>

definition lo16 :: "u32 \<Rightarrow> u16" where "lo16 w = ucast w"
definition hi16 :: "u32 \<Rightarrow> u16" where "hi16 w = ucast (drop_bit 16 w)"
definition join16 :: "u16 \<Rightarrow> u16 \<Rightarrow> u32" where "join16 l h = ucast l OR push_bit 16 (ucast h)"

lemma bit_ucast_wide: "bit (ucast w :: 'b::len word) n \<longleftrightarrow> n < LENGTH('b) \<and> bit w n" for w :: "'a::len word"
  by (auto simp: bit_ucast_iff dest: bit_imp_le_length)

lemma lo16_join16 [simp]: "lo16 (join16 l h) = l"
  by (rule bit_word_eqI) (auto simp: lo16_def join16_def bit_ucast_wide bit_or_iff bit_push_bit_iff)

lemma hi16_join16 [simp]: "hi16 (join16 l h) = h"
  by (rule bit_word_eqI)
    (auto simp: hi16_def join16_def bit_ucast_wide bit_or_iff bit_push_bit_iff bit_drop_bit_eq dest: bit_imp_le_length)

lemma join16_lo_hi [simp]: "join16 (lo16 w) (hi16 w) = w"
  by (rule bit_word_eqI) (auto simp: lo16_def hi16_def join16_def bit_ucast_wide bit_or_iff bit_push_bit_iff bit_drop_bit_eq)

lemma drop_bit_0_bit: "drop_bit k w = 0 \<Longrightarrow> k \<le> n \<Longrightarrow> \<not> bit w n" for w :: "'a::len word"
proof -
  assume "drop_bit k w = 0" "k \<le> n"
  moreover have "bit (drop_bit k w) (n - k) = bit w n" using \<open>k \<le> n\<close> by (simp add: bit_drop_bit_eq)
  ultimately show ?thesis by simp
qed

lemma drop_bit_0_lt: "drop_bit k w = 0 \<Longrightarrow> bit w n \<Longrightarrow> n < k" for w :: "'a::len word"
  using drop_bit_0_bit [of k w n] by (meson not_le)

fun le16 :: "bytes \<Rightarrow> u16" where
  "le16 (a # b # r) = ucast a OR push_bit 8 (ucast b)"
| "le16 bs = 0"

definition bytes16 :: "u16 \<Rightarrow> bytes" where
  "bytes16 w = [ucast w, ucast (drop_bit 8 w)]"

fun le32 :: "bytes \<Rightarrow> u32" where
  "le32 (a # b # c # d # r) = ucast a OR push_bit 8 (ucast b) OR push_bit 16 (ucast c) OR push_bit 24 (ucast d)"
| "le32 bs = 0"

definition bytes_of :: "u32 \<Rightarrow> bytes" where
  "bytes_of w = [ucast w, ucast (drop_bit 8 w), ucast (drop_bit 16 w), ucast (drop_bit 24 w)]"

lemma le16_bytes16 [simp]: "le16 (bytes16 w) = w"
  by (rule bit_word_eqI) (auto simp: bytes16_def bit_ucast_wide bit_or_iff bit_push_bit_iff bit_drop_bit_eq)

lemma le32_bytes_of [simp]: "le32 (bytes_of w) = w"
proof (rule bit_word_eqI)
  fix n assume "n < LENGTH(32)"
  then consider "n < 8" | "8 \<le> n" "n < 16" | "16 \<le> n" "n < 24" | "24 \<le> n" "n < 32" by fastforce
  then show "bit (le32 (bytes_of w)) n = bit w n"
    by cases (auto simp: bytes_of_def bit_ucast_wide bit_or_iff bit_push_bit_iff bit_drop_bit_eq)
qed

lemma bytes16_le16 [simp]: "bytes16 (le16 [a, b]) = [a, b]"
  unfolding bytes16_def le16.simps list.inject
  by (intro conjI bit_word_eqI refl; auto simp: bit_ucast_wide bit_or_iff bit_push_bit_iff bit_drop_bit_eq dest: bit_imp_le_length)

lemma bytes_of_le32 [simp]: "bytes_of (le32 [a, b, c, d]) = [a, b, c, d]"
  unfolding bytes_of_def le32.simps list.inject
  by (intro conjI bit_word_eqI refl; auto simp: bit_ucast_wide bit_or_iff bit_push_bit_iff bit_drop_bit_eq dest: bit_imp_le_length)

lemma bytes_length [simp]: "length (bytes16 w) = 2" "length (bytes_of v) = 4"
  by (simp_all add: bytes16_def bytes_of_def)

definition ld16 :: "bytes \<Rightarrow> int \<Rightarrow> u16 outcome" where
  "ld16 bs i = bnd (slice bs i 2) (\<lambda>x. Ret (le16 x))"

definition ld32 :: "bytes \<Rightarrow> int \<Rightarrow> u32 outcome" where
  "ld32 bs i = bnd (slice bs i 4) (\<lambda>x. Ret (le32 x))"

definition st16 :: "bytes \<Rightarrow> int \<Rightarrow> u16 \<Rightarrow> bytes outcome" where
  "st16 bs i w = blit bs i (bytes16 w)"

definition st32 :: "bytes \<Rightarrow> int \<Rightarrow> u32 \<Rightarrow> bytes outcome" where
  "st32 bs i w = blit bs i (bytes_of w)"

section \<open>A buffer as words\<close>

fun words_of :: "bytes \<Rightarrow> u32 list" where
  "words_of (a # b # c # d # r) = le32 [a, b, c, d] # words_of r"
| "words_of bs = []"

definition bytes_of_words :: "u32 list \<Rightarrow> bytes" where
  "bytes_of_words ws = concat (map bytes_of ws)"

lemma words_of_bytes_of: "words_of (bytes_of w @ bs) = w # words_of bs"
  using le32_bytes_of [of w] by (simp add: bytes_of_def)

lemma words_of_bytes_of_words [simp]: "words_of (bytes_of_words ws) = ws"
  by (induction ws) (simp_all add: bytes_of_words_def words_of_bytes_of)

lemma length_bytes_of_words [simp]: "length (bytes_of_words ws) = 4 * length ws"
  by (induction ws) (simp_all add: bytes_of_words_def)

lemma bytes_of_words_words_of: "4 dvd length bs \<Longrightarrow> bytes_of_words (words_of bs) = bs"
proof (induction bs rule: words_of.induct)
  case (1 a b c d r)
  then have "4 dvd length r + 4" by (simp add: numeral_eq_Suc)
  then have "4 dvd length r" by presburger
  then show ?case using 1 by (simp add: bytes_of_words_def del: le32.simps)
qed (auto simp: bytes_of_words_def dest: dvd_imp_le)

lemma length_words_of: "length (words_of bs) = length bs div 4"
  by (induction bs rule: words_of.induct) simp_all

end
