(* ===== verification/Ext2_Extents.thy ===== *)
theory Ext2_Extents
  imports Ext2_Bmap Ext2_Bytes
begin

text \<open>
  Reading the extent tree, from \<^verbatim>\<open>kext/ext2_extents.c\<close>: the binary searches, the extent cache,
  \<^verbatim>\<open>ext4_ext_find_extent\<close>, \<^verbatim>\<open>ext4_ext_drop_refs\<close>; and its clients \<^verbatim>\<open>ext4_bmapext\<close> and \<^verbatim>\<open>ext2_blockmap\<close> of
  \<^verbatim>\<open>kext/ext2_bmap.c\<close> and \<^verbatim>\<open>ext2_blkatoff\<close> of \<^verbatim>\<open>kext/ext2_subr.c\<close>.

  A node of the tree, in the inode or in a block, is the list of its 32-bit words: three words of
  header and three for each entry. Entry \<open>-1\<close> is the header itself, which is where a pointer one
  before the first entry points.
\<close>

section \<open>Nodes\<close>

type_synonym node = "u32 list"

text \<open>\<^verbatim>\<open>i_db\<close> and \<^verbatim>\<open>i_ib\<close> lie next to each other in the inode and hold the root.\<close>

definition root_node :: "inode \<Rightarrow> node" where
  "root_node ip = i_db ip @ i_ib ip"

definition get_header :: "node \<Rightarrow> ext4_extent_header outcome" where
  "get_header nd = bnd (rd nd 0) (\<lambda>a. bnd (rd nd 1) (\<lambda>b. bnd (rd nd 2) (\<lambda>c.
     Ret \<lparr>eh_magic = lo16 a, eh_ecount = hi16 a, eh_max = lo16 b, eh_depth = hi16 b, eh_gen = c\<rparr>)))"

definition get_extent :: "node \<Rightarrow> int \<Rightarrow> ext4_extent outcome" where
  "get_extent nd k = bnd (rd nd (3 + 3 * k)) (\<lambda>a. bnd (rd nd (4 + 3 * k)) (\<lambda>b. bnd (rd nd (5 + 3 * k)) (\<lambda>c.
     Ret \<lparr>e_blk = a, e_len = lo16 b, e_start_hi = hi16 b, e_start_lo = c\<rparr>)))"

definition get_index :: "node \<Rightarrow> int \<Rightarrow> ext4_extent_index outcome" where
  "get_index nd k = bnd (rd nd (3 + 3 * k)) (\<lambda>a. bnd (rd nd (4 + 3 * k)) (\<lambda>b. bnd (rd nd (5 + 3 * k)) (\<lambda>c.
     Ret \<lparr>ei_blk = a, ei_leaf_lo = b, ei_leaf_hi = lo16 c, ei_unused = hi16 c\<rparr>)))"

section \<open>The binary searches\<close>

text \<open>Both searches compare the first word of an entry; \<open>l\<close> and \<open>r\<close> are the pointers as entry numbers.\<close>

function bin_loop :: "node \<Rightarrow> int \<Rightarrow> int \<Rightarrow> int \<Rightarrow> int outcome" where
  "bin_loop nd lbn l r =
     (if l \<le> r then
        (let m = l + (r - l) sdiv 2
         in bnd (rd nd (3 + 3 * m)) (\<lambda>b.
            if lbn < uint b then bin_loop nd lbn l (m - 1) else bin_loop nd lbn (m + 1) r))
      else Ret (l - 1))"
  by pat_completeness auto
termination
proof (relation "measure (\<lambda>(nd, lbn, l, r). nat (r - l + 1))", goal_cases)
  case (2 nd lbn l r m b)
  then have "m = l + (r - l) div 2" by (simp add: geom_simps)
  with 2 show ?case by auto
next
  case (3 nd lbn l r m b)
  then have "m = l + (r - l) div 2" by (simp add: geom_simps)
  moreover have "0 \<le> (r - l) div 2" using 3 by (simp add: pos_imp_zdiv_nonneg_iff)
  ultimately show ?case using 3 by auto
qed simp

declare bin_loop.simps [simp del]

definition ext4_ext_binsearch_index :: "node \<Rightarrow> int \<Rightarrow> int outcome" where
  "ext4_ext_binsearch_index nd lbn =
     bnd (get_header nd) (\<lambda>eh. bin_loop nd lbn 0 (int (unat (eh_ecount eh)) - 1))"

text \<open>\<open>None\<close>: the pointer is left null.\<close>

definition ext4_ext_binsearch :: "node \<Rightarrow> int \<Rightarrow> int option outcome" where
  "ext4_ext_binsearch nd lbn =
     bnd (get_header nd) (\<lambda>eh.
     if eh_ecount eh = 0 then Ret None
     else bnd (bin_loop nd lbn 0 (int (unat (eh_ecount eh)) - 1)) (\<lambda>k. Ret (Some k)))"

section \<open>The extent cache\<close>

definition EXT4_EXT_CACHE_NO :: u32 where "EXT4_EXT_CACHE_NO = 0"
definition EXT4_EXT_CACHE_GAP :: u32 where "EXT4_EXT_CACHE_GAP = 1"
definition EXT4_EXT_CACHE_IN :: u32 where "EXT4_EXT_CACHE_IN = 2"

text \<open>The result is the type of the entry and what is stored through \<^verbatim>\<open>ep\<close>, if anything.\<close>

definition ext4_ext_in_cache :: "inode \<Rightarrow> int \<Rightarrow> u32 \<times> ext4_extent option" where
  "ext4_ext_in_cache ip lbn =
     (let ecp = i_ext_cache ip in
      if ec_type ecp = EXT4_EXT_CACHE_NO then (EXT4_EXT_CACHE_NO, None)
      else if lbn \<ge> uint (ec_blk ecp) \<and> lbn < uint (ec_blk ecp + ec_len ecp) then
        (ec_type ecp, Some \<lparr>e_blk = ec_blk ecp, e_len = ucast (ec_len ecp),
           e_start_hi = word_of_int (drop_bit 32 (ec_start ecp)), e_start_lo = word_of_int (ec_start ecp)\<rparr>)
      else (EXT4_EXT_CACHE_NO, None))"

definition phys_block :: "ext4_extent \<Rightarrow> int" where
  "phys_block ep = push_bit 32 (uint (e_start_hi ep)) OR uint (e_start_lo ep)"

definition ext4_ext_put_cache :: "inode \<Rightarrow> ext4_extent \<Rightarrow> u32 \<Rightarrow> inode" where
  "ext4_ext_put_cache ip ep t =
     ip\<lparr>i_ext_cache := \<lparr>ec_start = phys_block ep, ec_blk = e_blk ep, ec_len = ucast (e_len ep), ec_type = t\<rparr>\<rparr>"

section \<open>\<^verbatim>\<open>ext4_ext_find_extent\<close>\<close>

definition EXT4_EXT_MAGIC :: u16 where "EXT4_EXT_MAGIC = 0xf30a"

text \<open>Where the header pointer of a path points: nowhere, into the inode, or into the path's buffer,
  which is its device address and its words.\<close>

datatype header_at = HNull | HInode | HBuf

record ext4_extent_path =
  ep_depth :: u16
  ep_bp :: "(int \<times> node) option"
  ep_ext :: "int option"
  ep_index :: "int option"
  ep_header :: header_at

definition zero_path :: ext4_extent_path where
  "zero_path = \<lparr>ep_depth = 0, ep_bp = None, ep_ext = None, ep_index = None, ep_header = HNull\<rparr>"

definition leaf_block :: "ext4_extent_index \<Rightarrow> int" where
  "leaf_block e = push_bit 32 (uint (ei_leaf_hi e)) OR uint (ei_leaf_lo e)"

text \<open>The descent; \<open>False\<close> is the null result after a failed read.\<close>

fun find_loop :: "m_ext2fs \<Rightarrow> device \<Rightarrow> int \<Rightarrow> nat \<Rightarrow> node \<Rightarrow> ext4_extent_path \<Rightarrow> (bool \<times> node \<times> ext4_extent_path) outcome" where
  "find_loop fs dev lbn 0 nd path = Ret (True, nd, path)"
| "find_loop fs dev lbn (Suc i) nd path =
     bnd (ext4_ext_binsearch_index nd lbn) (\<lambda>k.
     bnd (get_index nd k) (\<lambda>e.
     let path = path\<lparr>ep_index := Some k, ep_depth := 0, ep_ext := None\<rparr>; a = fsbtodb fs (leaf_block e)
     in case buf_meta_bread dev a of
          Inl error \<Rightarrow> Ret (False, nd, path\<lparr>ep_bp := None\<rparr>)
        | Inr data \<Rightarrow>
            find_loop fs dev lbn i (words_of data) (path\<lparr>ep_bp := Some (a, words_of data), ep_header := HBuf\<rparr>)))"

definition ext4_ext_find_extent :: "m_ext2fs \<Rightarrow> device \<Rightarrow> inode \<Rightarrow> int \<Rightarrow> ext4_extent_path \<Rightarrow> (bool \<times> ext4_extent_path) outcome" where
  "ext4_ext_find_extent fs dev ip lbn path =
     (let nd = root_node ip in
      bnd (get_header nd) (\<lambda>eh.
      if eh_magic eh \<noteq> EXT4_EXT_MAGIC then Ret (False, path)
      else
        bnd (find_loop fs dev lbn (unat (eh_depth eh)) nd (path\<lparr>ep_header := HInode\<rparr>)) (\<lambda>(ok, nd, path).
        if \<not> ok then Ret (False, path)
        else bnd (ext4_ext_binsearch nd lbn) (\<lambda>k.
             Ret (True, path\<lparr>ep_depth := 0, ep_ext := k, ep_index := None\<rparr>)))))"

text \<open>The node a path's header pointer points at.\<close>

definition path_node :: "inode \<Rightarrow> ext4_extent_path \<Rightarrow> node outcome" where
  "path_node ip path =
     (case ep_header path of HNull \<Rightarrow> Fault NullDeref | HInode \<Rightarrow> Ret (root_node ip)
      | HBuf \<Rightarrow> (case ep_bp path of None \<Rightarrow> Fault NullDeref | Some (a, nd) \<Rightarrow> Ret nd))"

section \<open>\<^verbatim>\<open>ext4_ext_drop_refs\<close>\<close>

text \<open>
  The array of paths from the pointer on. The loop test \<^verbatim>\<open>ep_depth >= 0\<close> holds of every 16-bit unsigned
  value, so the loop leaves the array.
\<close>

fun ext4_ext_drop_refs :: "ext4_extent_path list \<Rightarrow> ext4_extent_path list outcome" where
  "ext4_ext_drop_refs [] = Fault Oob"
| "ext4_ext_drop_refs (p # ps) =
     (if (0::int) \<le> uint (ep_depth p) then
        bnd (ext4_ext_drop_refs ps) (\<lambda>ps. Ret (p\<lparr>ep_bp := None, ep_depth := ep_depth p - 1\<rparr> # ps))
      else Ret (p # ps))"

section \<open>\<^verbatim>\<open>ext4_bmapext\<close> and \<^verbatim>\<open>ext2_blockmap\<close>\<close>

definition ext4_bmapext :: "ext2mount \<Rightarrow> inode \<Rightarrow> int \<Rightarrow> (errno + int) outcome" where
  "ext4_bmapext ump ip lbn =
     bnd (ext4_ext_find_extent (um_e2fs ump) (um_devvp ump) ip lbn zero_path) (\<lambda>(ok, path).
     case ep_ext path of
       None \<Rightarrow> Ret (Inl EIO)
     | Some k \<Rightarrow>
         bnd (path_node ip path) (\<lambda>nd.
         bnd (get_extent nd k) (\<lambda>ep.
         Ret (Inr (hole_if_0 (fsbtodb (um_e2fs ump) (lbn - uint (e_blk ep) + phys_block ep)))))))"

text \<open>
  \<open>sz\<close> is \<^verbatim>\<open>a_size\<close>, \<open>want_run\<close> whether \<^verbatim>\<open>a_run\<close> is given, \<open>maxread\<close> the \<^verbatim>\<open>io_maxreadcnt\<close> of the mount. The
  result is the device block, \<open>-1\<close> for a hole, and the bytes that follow.
\<close>

definition run_bytes :: "inode \<Rightarrow> u32 \<Rightarrow> int \<Rightarrow> int \<Rightarrow> int \<Rightarrow> int \<Rightarrow> int" where
  "run_bytes ip bsize foffset blkoffset sz run =
     (let contig = (run + 1) * uint bsize - blkoffset;
          contig = (if contig > sz then sz else contig);
          contig = (if foffset + contig > sint (i_size ip) then sint (i_size ip) - foffset else contig)
      in if contig < 0 then 0 else contig)"

definition ext2_blockmap :: "ext2mount \<Rightarrow> inode \<Rightarrow> int \<Rightarrow> int \<Rightarrow> u32 \<Rightarrow> bool \<Rightarrow> (errno + int \<times> int) outcome" where
  "ext2_blockmap ump ip foffset sz maxread want_run =
     (let fs = um_e2fs ump; lbn = lblkno fs foffset; blkoffset = blkoff fs foffset in
      bnd (if i_flag ip AND IN_E4EXTENTS \<noteq> 0
           then bnd (ext4_bmapext ump ip lbn) (\<lambda>r. case r of Inl e \<Rightarrow> Ret (Inl e) | Inr bn \<Rightarrow> Ret (Inr (bn, 0)))
           else bnd (ext2_bmaparray ump ip lbn (Some maxread) False) (\<lambda>r.
                case r of Inl e \<Rightarrow> Ret (Inl e) | Inr (bn, run, runb) \<Rightarrow> Ret (Inr (bn, run)))) (\<lambda>r.
      case r of
        Inl error \<Rightarrow> Ret (Inl error)
      | Inr (bn, run) \<Rightarrow>
          if bn < 0 then Ret (Inr (- 1, 0))
          else Ret (Inr (bn + drop_bit 9 blkoffset, if want_run then run_bytes ip (e2fs_bsize fs) foffset blkoffset sz run else 0))))"

section \<open>\<^verbatim>\<open>ext2_blkatoff\<close>\<close>

text \<open>
  The block of a directory that holds an offset. Reads on the file's own vnode go by its logical block
  through \<^verbatim>\<open>ext2_blktooff\<close> and \<^verbatim>\<open>ext2_blockmap\<close>, which the buffer cache calls; a hole reads as zeros. The
  result is the block's content, the offset \<^verbatim>\<open>res\<close> points at within it, and the device address it was
  read from, \<open>-1\<close> for a hole.
\<close>

definition file_bread :: "ext2mount \<Rightarrow> inode \<Rightarrow> int \<Rightarrow> (errno + int \<times> bytes) outcome" where
  "file_bread ump ip lbn =
     (case ext2_blktooff (um_e2fs ump) lbn True of
        Inl e \<Rightarrow> Ret (Inl e)
      | Inr off \<Rightarrow>
          bnd (ext2_blockmap ump ip off (blksize (um_e2fs ump)) 0 True) (\<lambda>r.
          case r of
            Inl e \<Rightarrow> Ret (Inl e)
          | Inr (a, run) \<Rightarrow>
              if a = - 1 then Ret (Inr (- 1, replicate (nat (blksize (um_e2fs ump))) 0))
              else (case buf_meta_bread (um_devvp ump) a of Inl e \<Rightarrow> Ret (Inl e) | Inr bs \<Rightarrow> Ret (Inr (a, bs)))))"

definition ext2_blkatoff :: "ext2mount \<Rightarrow> inode \<Rightarrow> int \<Rightarrow> (errno + int \<times> bytes \<times> int) outcome" where
  "ext2_blkatoff ump ip offset =
     (let fs = um_e2fs ump; lbn = lblkno fs offset;
          normal = bnd (file_bread ump ip lbn) (\<lambda>r. case r of Inl e \<Rightarrow> Ret (Inl e) | Inr (a, bs) \<Rightarrow> Ret (Inr (a, bs, blkoff fs offset)))
      in if i_flag ip AND IN_E4EXTENTS = 0 then normal
         else
           bnd (ext4_ext_find_extent fs (um_devvp ump) ip lbn zero_path) (\<lambda>(ok, path).
           if \<not> ok then normal
           else
             case ep_ext path of
               None \<Rightarrow> normal
             | Some k \<Rightarrow>
                 bnd (path_node ip path) (\<lambda>nd.
                 bnd (get_extent nd k) (\<lambda>ep.
                 let a = fsbtodb fs (lbn - uint (e_blk ep) + phys_block ep)
                 in case buf_meta_bread (um_devvp ump) a of
                      Inl error \<Rightarrow> Ret (Inl error)
                    | Inr bs \<Rightarrow> Ret (Inr (a, bs, blkoff fs offset))))))"


section \<open>What the binary search finds\<close>

definition ecount :: "node \<Rightarrow> nat" where
  "ecount nd = unat (hi16 (nd ! 0))"

definition key_at :: "node \<Rightarrow> nat \<Rightarrow> nat" where
  "key_at nd i = unat (nd ! (3 + 3 * i))"

definition node_ok :: "node \<Rightarrow> bool" where
  "node_ok nd \<longleftrightarrow> 3 + 3 * ecount nd \<le> length nd \<and> (\<forall>i<ecount nd - 1. key_at nd i < key_at nd (Suc i))"

lemma key_at_mono:
  assumes "node_ok nd" "i \<le> j" "j < ecount nd"
  shows "key_at nd i \<le> key_at nd j"
  using assms(2,3)
proof (induction j)
  case (Suc j)
  then show ?case
  proof (cases "i = Suc j")
    case False
    then have "key_at nd i \<le> key_at nd j" using Suc by simp
    moreover have "key_at nd j < key_at nd (Suc j)" using assms(1) Suc.prems(2) by (simp add: node_ok_def)
    ultimately show ?thesis by simp
  qed simp
qed simp

lemma get_header_ok: "node_ok nd \<Longrightarrow> get_header nd = Ret \<lparr>eh_magic = lo16 (nd ! 0), eh_ecount = hi16 (nd ! 0),
    eh_max = lo16 (nd ! 1), eh_depth = hi16 (nd ! 1), eh_gen = nd ! 2\<rparr>"
  unfolding get_header_def by (auto simp: node_ok_def rd_in nat_2)

lemma bin_loop_finds:
  assumes "node_ok nd" "0 \<le> l" "r < int (ecount nd)" "l \<le> r + 1"
    "\<forall>i. int i < l \<longrightarrow> int (key_at nd i) \<le> lbn" "\<forall>i<ecount nd. r < int i \<longrightarrow> lbn < int (key_at nd i)"
  shows "\<exists>k. bin_loop nd lbn l r = Ret k \<and> - 1 \<le> k \<and> k < int (ecount nd) \<and>
     (\<forall>i. int i \<le> k \<longrightarrow> int (key_at nd i) \<le> lbn) \<and> (\<forall>i<ecount nd. k < int i \<longrightarrow> lbn < int (key_at nd i))"
  using assms(2-6)
proof (induction "nat (r - l + 1)" arbitrary: l r rule: less_induct)
  case less
  show ?case
  proof (cases "l \<le> r")
    case False
    then have "bin_loop nd lbn l r = Ret (l - 1)" "l - 1 = r" using less.prems(3) by (simp_all add: bin_loop.simps [of nd lbn l r])
    then show ?thesis using less.prems by auto
  next
    case True
    define m where "m = l + (r - l) div 2"
    have m: "l \<le> m" "m \<le> r" using True by (auto simp: m_def)
    then obtain j where j: "m = int j" using less.prems(1) by (metis nonneg_int_cases order_trans)
    have jn: "j < ecount nd" using m j less.prems(2) by simp
    have "3 + 3 * j < length nd" using assms(1) jn by (simp add: node_ok_def)
    moreover have "nat (3 + 3 * m) = 3 + 3 * j" by (simp add: j nat_add_distrib nat_mult_distrib)
    ultimately have "rd nd (3 + 3 * m) = Ret (nd ! (3 + 3 * j))" using j by (simp add: rd_def)
    moreover have "l + (r - l) sdiv 2 = m" using True by (simp add: m_def geom_simps)
    moreover have "uint (nd ! (3 + 3 * j)) = int (key_at nd j)" by (simp add: key_at_def)
    ultimately have eq: "bin_loop nd lbn l r =
        (if lbn < int (key_at nd j) then bin_loop nd lbn l (m - 1) else bin_loop nd lbn (m + 1) r)"
      using True by (subst bin_loop.simps) (simp only: Let_def if_True bnd.simps)
    note mono = key_at_mono [OF assms(1)]
    show ?thesis
    proof (cases "lbn < int (key_at nd j)")
      case T: True
      have "lbn < int (key_at nd i)" if "i < ecount nd" "m - 1 < int i" for i
        using mono [of j i] that j T by simp
      then show ?thesis
        using less.hyps [of "m - 1" l] m less.prems T eq by auto
    next
      case F: False
      have "int (key_at nd i) \<le> lbn" if "int i < m + 1" for i
        using mono [of i j] that j F jn by simp
      then show ?thesis
        using less.hyps [of r "m + 1"] m less.prems F eq by auto
    qed
  qed
qed

lemma key_at_last: "node_ok nd \<Longrightarrow> i < ecount nd \<Longrightarrow> key_at nd i \<le> key_at nd (ecount nd - 1)"
  by (rule key_at_mono) auto

text \<open>The last entry at or before a block, from the whole node.\<close>

lemma bin_loop_last:
  assumes "node_ok nd" "0 < ecount nd" "int (key_at nd 0) \<le> lbn"
  obtains k where "bin_loop nd lbn 0 (int (ecount nd) - 1) = Ret (int k)" "k < ecount nd" "int (key_at nd k) \<le> lbn"
    "\<forall>i<ecount nd. k < i \<longrightarrow> lbn < int (key_at nd i)"
proof -
  obtain k where k: "bin_loop nd lbn 0 (int (ecount nd) - 1) = Ret k" "- 1 \<le> k" "k < int (ecount nd)"
    "\<forall>i. int i \<le> k \<longrightarrow> int (key_at nd i) \<le> lbn" "\<forall>i<ecount nd. k < int i \<longrightarrow> lbn < int (key_at nd i)"
    using bin_loop_finds [OF assms(1), of 0 "int (ecount nd) - 1" lbn] by auto
  have "k \<noteq> - 1" using k(5) [rule_format, of 0] assms(2,3) by auto
  then have "0 \<le> k" using k(2) by linarith
  then obtain j where "k = int j" by (rule nonneg_int_cases)
  then show ?thesis using that [of j] k by auto
qed

section \<open>The map an extent tree stands for\<close>

definition extent_at :: "node \<Rightarrow> nat \<Rightarrow> ext4_extent" where
  "extent_at nd i = \<lparr>e_blk = nd ! (3 + 3 * i), e_len = lo16 (nd ! (4 + 3 * i)), e_start_hi = hi16 (nd ! (4 + 3 * i)),
     e_start_lo = nd ! (5 + 3 * i)\<rparr>"

definition child_addr :: "m_ext2fs \<Rightarrow> node \<Rightarrow> nat \<Rightarrow> int" where
  "child_addr fs nd i = fsbtodb fs (leaf_block \<lparr>ei_blk = nd ! (3 + 3 * i), ei_leaf_lo = nd ! (4 + 3 * i),
     ei_leaf_hi = lo16 (nd ! (5 + 3 * i)), ei_unused = hi16 (nd ! (5 + 3 * i))\<rparr>)"

definition child :: "m_ext2fs \<Rightarrow> device \<Rightarrow> node \<Rightarrow> nat \<Rightarrow> node" where
  "child fs dev nd i = words_of (dev_blk dev (child_addr fs nd i))"

text \<open>The extents below a node that is \<open>d\<close> levels above the leaves, in order.\<close>

fun ext_list :: "m_ext2fs \<Rightarrow> device \<Rightarrow> nat \<Rightarrow> node \<Rightarrow> ext4_extent list" where
  "ext_list fs dev 0 nd = map (extent_at nd) [0..<ecount nd]"
| "ext_list fs dev (Suc d) nd = concat (map (\<lambda>i. ext_list fs dev d (child fs dev nd i)) [0..<ecount nd])"

definition next_key :: "node \<Rightarrow> nat \<Rightarrow> nat \<Rightarrow> nat" where
  "next_key nd hi i = (if Suc i < ecount nd then key_at nd (Suc i) else hi)"

text \<open>
  A well-formed tree for the blocks from \<open>lo\<close> to below \<open>hi\<close>: no node is empty, keys increase, the key of
  an index entry is the first key below it, the blocks of the tree can be read.
\<close>

fun ext_ok :: "m_ext2fs \<Rightarrow> device \<Rightarrow> nat \<Rightarrow> nat \<Rightarrow> nat \<Rightarrow> node \<Rightarrow> bool" where
  "ext_ok fs dev 0 lo hi nd \<longleftrightarrow>
     node_ok nd \<and> 0 < ecount nd \<and> key_at nd 0 = lo \<and> key_at nd (ecount nd - 1) < hi"
| "ext_ok fs dev (Suc d) lo hi nd \<longleftrightarrow>
     node_ok nd \<and> 0 < ecount nd \<and> key_at nd 0 = lo \<and> key_at nd (ecount nd - 1) < hi \<and>
     (\<forall>i<ecount nd. dev_rerr dev (child_addr fs nd i) = 0 \<and>
        ext_ok fs dev d (key_at nd i) (next_key nd hi i) (child fs dev nd i))"

lemma ext_ok_node: "ext_ok fs dev d lo hi nd \<Longrightarrow>
    node_ok nd \<and> 0 < ecount nd \<and> key_at nd 0 = lo \<and> key_at nd (ecount nd - 1) < hi"
  by (cases d) auto

lemma next_key_le: "ext_ok fs dev d lo hi nd \<Longrightarrow> i < ecount nd \<Longrightarrow> next_key nd hi i \<le> hi"
  using key_at_last [of nd "Suc i"] ext_ok_node [of fs dev d lo hi nd]
  by (auto simp: next_key_def)

lemma ext_list_bounds:
  "ext_ok fs dev d lo hi nd \<Longrightarrow> e \<in> set (ext_list fs dev d nd) \<Longrightarrow> lo \<le> unat (e_blk e) \<and> unat (e_blk e) < hi"
proof (induction d arbitrary: lo hi nd)
  case 0
  then obtain i where i: "i < ecount nd" "e = extent_at nd i" by auto
  then have "unat (e_blk e) = key_at nd i" by (simp add: extent_at_def key_at_def)
  then show ?case using 0 i key_at_mono [of nd 0 i] key_at_last [of nd i] by auto
next
  case (Suc d)
  then obtain i where i: "i < ecount nd" "e \<in> set (ext_list fs dev d (child fs dev nd i))" by auto
  then have "key_at nd i \<le> unat (e_blk e) \<and> unat (e_blk e) < next_key nd hi i" using Suc by auto
  then show ?case using next_key_le [OF Suc.prems(1) i(1)] key_at_mono [of nd 0 i] Suc.prems(1) i(1) by auto
qed

text \<open>The extent of a tree that starts last at or before a block.\<close>

definition last_extent :: "ext4_extent list \<Rightarrow> int \<Rightarrow> ext4_extent \<Rightarrow> bool" where
  "last_extent es lbn e \<longleftrightarrow> e \<in> set es \<and> uint (e_blk e) \<le> lbn \<and>
     (\<forall>e' \<in> set es. uint (e_blk e') \<le> lbn \<longrightarrow> e_blk e' \<le> e_blk e)"

lemma leaf_search:
  assumes "ext_ok fs dev 0 lo hi nd" "int lo \<le> lbn"
  obtains k where "ext4_ext_binsearch nd lbn = Ret (Some (int k))" "get_extent nd (int k) = Ret (extent_at nd k)"
    "last_extent (ext_list fs dev 0 nd) lbn (extent_at nd k)"
proof -
  have ok: "node_ok nd" "0 < ecount nd" "int (key_at nd 0) \<le> lbn" using assms by auto
  obtain k where k: "bin_loop nd lbn 0 (int (ecount nd) - 1) = Ret (int k)" "k < ecount nd" "int (key_at nd k) \<le> lbn"
    "\<forall>i<ecount nd. k < i \<longrightarrow> lbn < int (key_at nd i)"
    by (rule bin_loop_last [OF ok])
  have "hi16 (nd ! 0) \<noteq> 0" using ok(2) by (auto simp: ecount_def)
  then have "ext4_ext_binsearch nd lbn = Ret (Some (int k))"
    using k(1) unfolding ext4_ext_binsearch_def get_header_ok [OF ok(1)] ecount_def by (simp del: bnd_Ret_iff)
  moreover have "get_extent nd (int k) = Ret (extent_at nd k)"
  proof -
    have "3 + 3 * k + 2 < length nd" using ok(1) k(2) by (simp add: node_ok_def)
    moreover have "nat (3 + 3 * int k) = 3 + 3 * k" "nat (4 + 3 * int k) = 4 + 3 * k" "nat (5 + 3 * int k) = 5 + 3 * k" by simp_all
    ultimately show ?thesis unfolding get_extent_def by (simp add: rd_in extent_at_def del: bnd_Ret_iff)
  qed
  moreover have "last_extent (ext_list fs dev 0 nd) lbn (extent_at nd k)"
  proof -
    have u: "unat (e_blk (extent_at nd i)) = key_at nd i" for i by (simp add: extent_at_def key_at_def)
    have ui: "uint (e_blk (extent_at nd i)) = int (key_at nd i)" for i using u [of i] by (metis uint_nat)
    have "i \<le> k" if "i < ecount nd" "int (key_at nd i) \<le> lbn" for i
      using k(4) [rule_format, of i] that by (meson not_le)
    then have "key_at nd i \<le> key_at nd k" if "i < ecount nd" "int (key_at nd i) \<le> lbn" for i
      using that key_at_mono [OF ok(1) _ k(2)] by blast
    then show ?thesis using k(2,3) by (auto simp: last_extent_def ui word_le_nat_alt u)
  qed
  ultimately show ?thesis by (rule that)
qed

text \<open>The node the descent ends at, as the path records it.\<close>

definition path_at :: "inode \<Rightarrow> node \<Rightarrow> ext4_extent_path \<Rightarrow> bool" where
  "path_at ip nd path \<longleftrightarrow> path_node ip path = Ret nd"

lemma get_index_ok:
  assumes "node_ok nd" "k < ecount nd"
  shows "\<exists>e. get_index nd (int k) = Ret e \<and> fsbtodb fs (leaf_block e) = child_addr fs nd k"
proof -
  have "3 + 3 * k + 2 < length nd" using assms by (simp add: node_ok_def)
  moreover have "nat (3 + 3 * int k) = 3 + 3 * k" "nat (4 + 3 * int k) = 4 + 3 * k" "nat (5 + 3 * int k) = 5 + 3 * k" by simp_all
  ultimately show ?thesis unfolding get_index_def by (simp add: rd_in child_addr_def leaf_block_def)
qed

lemma index_search:
  assumes "ext_ok fs dev (Suc d) lo hi nd" "int lo \<le> lbn" "lbn < int hi"
  obtains k where "ext4_ext_binsearch_index nd lbn = Ret (int k)" "k < ecount nd"
    "int (key_at nd k) \<le> lbn" "lbn < int (next_key nd hi k)" "\<forall>i<ecount nd. k < i \<longrightarrow> lbn < int (key_at nd i)"
proof -
  have ok: "node_ok nd" "0 < ecount nd" "int (key_at nd 0) \<le> lbn" using assms by auto
  obtain k where k: "bin_loop nd lbn 0 (int (ecount nd) - 1) = Ret (int k)" "k < ecount nd" "int (key_at nd k) \<le> lbn"
    "\<forall>i<ecount nd. k < i \<longrightarrow> lbn < int (key_at nd i)"
    by (rule bin_loop_last [OF ok])
  have "ext4_ext_binsearch_index nd lbn = Ret (int k)"
    using k(1) unfolding ext4_ext_binsearch_index_def get_header_ok [OF ok(1)] ecount_def by simp
  moreover have "lbn < int (next_key nd hi k)"
    using k(4) [rule_format, of "Suc k"] assms(3) by (auto simp: next_key_def)
  ultimately show ?thesis using that k by blast
qed

text \<open>An extent of another child starts before every extent of the child that was chosen, or after the block.\<close>

lemma last_extent_child:
  assumes ok: "ext_ok fs dev (Suc d) lo hi nd" and k: "k < ecount nd" "\<forall>i<ecount nd. k < i \<longrightarrow> lbn < int (key_at nd i)"
    and e: "last_extent (ext_list fs dev d (child fs dev nd k)) lbn e"
  shows "last_extent (ext_list fs dev (Suc d) nd) lbn e"
proof -
  have c: "ext_ok fs dev d (key_at nd i) (next_key nd hi i) (child fs dev nd i)" if "i < ecount nd" for i
    using ok that by simp
  have n: "node_ok nd" using ok by simp
  have "e_blk e' \<le> e_blk e" if e': "i < ecount nd" "e' \<in> set (ext_list fs dev d (child fs dev nd i))" "uint (e_blk e') \<le> lbn" for i e'
  proof (cases i k rule: linorder_cases)
    case less
    have "unat (e_blk e') < next_key nd hi i" using ext_list_bounds [OF c [OF e'(1)] e'(2)] by simp
    also have "\<dots> = key_at nd (Suc i)" using less k(1) by (simp add: next_key_def)
    also have "\<dots> \<le> key_at nd k" using less k(1) key_at_mono [OF n, of "Suc i" k] by simp
    also have "\<dots> \<le> unat (e_blk e)" using ext_list_bounds [OF c [OF k(1)]] e by (auto simp: last_extent_def)
    finally show ?thesis by (simp add: word_le_nat_alt)
  next
    case equal
    then show ?thesis using e e' by (auto simp: last_extent_def)
  next
    case greater
    then have "lbn < int (key_at nd i)" using k(2) e'(1) by blast
    moreover have "key_at nd i \<le> unat (e_blk e')" using ext_list_bounds [OF c [OF e'(1)] e'(2)] by simp
    ultimately show ?thesis using e'(3) unfolding uint_nat by linarith
  qed
  then show ?thesis using e k(1) by (fastforce simp: last_extent_def)
qed

lemma find_loop_descends:
  assumes "ext_ok fs dev d lo hi nd" "int lo \<le> lbn" "lbn < int hi" "path_at ip nd path"
  shows "\<exists>nd' path' lo' hi'. find_loop fs dev lbn d nd path = Ret (True, nd', path') \<and> path_at ip nd' path' \<and>
     ext_ok fs dev 0 lo' hi' nd' \<and> int lo' \<le> lbn \<and>
     (\<forall>e. last_extent (ext_list fs dev 0 nd') lbn e \<longrightarrow> last_extent (ext_list fs dev d nd) lbn e)"
  using assms
proof (induction d arbitrary: nd lo hi path)
  case 0
  then show ?case by (auto simp del: ext_list.simps ext_ok.simps)
next
  case (Suc d)
  obtain k where k: "ext4_ext_binsearch_index nd lbn = Ret (int k)" "k < ecount nd"
    "int (key_at nd k) \<le> lbn" "lbn < int (next_key nd hi k)" "\<forall>i<ecount nd. k < i \<longrightarrow> lbn < int (key_at nd i)"
    by (rule index_search [OF Suc.prems(1-3)])
  have n: "node_ok nd" using Suc.prems(1) by simp
  obtain e where e: "get_index nd (int k) = Ret e" "fsbtodb fs (leaf_block e) = child_addr fs nd k"
    using get_index_ok [OF n k(2)] by blast
  let ?c = "child fs dev nd k"
  let ?p = "path\<lparr>ep_index := Some (int k), ep_depth := 0, ep_ext := None\<rparr>\<lparr>ep_bp := Some (child_addr fs nd k, ?c), ep_header := HBuf\<rparr>"
  have c: "ext_ok fs dev d (key_at nd k) (next_key nd hi k) ?c" "dev_rerr dev (child_addr fs nd k) = 0"
    using Suc.prems(1) k(2) by simp_all
  have "path_at ip ?c ?p" by (simp add: path_at_def path_node_def)
  from Suc.IH [OF c(1) k(3,4) this] obtain nd' path' lo' hi' where r:
    "find_loop fs dev lbn d ?c ?p = Ret (True, nd', path')" "path_at ip nd' path'" "ext_ok fs dev 0 lo' hi' nd'" "int lo' \<le> lbn"
    "\<forall>e. last_extent (ext_list fs dev 0 nd') lbn e \<longrightarrow> last_extent (ext_list fs dev d ?c) lbn e" by blast
  have "find_loop fs dev lbn (Suc d) nd path = find_loop fs dev lbn d ?c ?p"
    unfolding find_loop.simps k(1) bnd.simps e(1) Let_def e(2) by (simp add: buf_meta_bread_def c(2) child_def)
  moreover have "last_extent (ext_list fs dev (Suc d) nd) lbn e" if "last_extent (ext_list fs dev 0 nd') lbn e" for e
    using last_extent_child [OF Suc.prems(1) k(2,5)] r(5) that by blast
  ultimately show ?case using r by (metis (no_types))
qed

text \<open>A file whose inode holds the root of a well-formed tree from its first block on.\<close>

definition root_depth :: "inode \<Rightarrow> nat" where
  "root_depth ip = unat (hi16 (root_node ip ! 1))"

definition file_extents :: "m_ext2fs \<Rightarrow> device \<Rightarrow> inode \<Rightarrow> ext4_extent list" where
  "file_extents fs dev ip = ext_list fs dev (root_depth ip) (root_node ip)"

definition ext_file :: "m_ext2fs \<Rightarrow> device \<Rightarrow> inode \<Rightarrow> bool" where
  "ext_file fs dev ip \<longleftrightarrow> lo16 (root_node ip ! 0) = EXT4_EXT_MAGIC \<and>
     ext_ok fs dev (root_depth ip) (key_at (root_node ip) 0) (2 ^ 32) (root_node ip)"

lemma find_extent_spec:
  assumes "ext_file fs dev ip" "int (key_at (root_node ip) 0) \<le> lbn" "lbn < 2 ^ 32"
  shows "\<exists>path k nd e. ext4_ext_find_extent fs dev ip lbn zero_path = Ret (True, path) \<and> ep_ext path = Some k \<and>
     path_node ip path = Ret nd \<and> get_extent nd k = Ret e \<and> last_extent (file_extents fs dev ip) lbn e"
proof -
  let ?nd = "root_node ip"
  have ok: "ext_ok fs dev (root_depth ip) (key_at ?nd 0) (2 ^ 32) ?nd" using assms(1) by (simp add: ext_file_def)
  note n = ext_ok_node [OF ok, THEN conjunct1]
  have p: "path_at ip ?nd (zero_path\<lparr>ep_header := HInode\<rparr>)" by (simp add: path_at_def path_node_def)
  have "lbn < int (2 ^ 32)" using assms(3) by simp
  from find_loop_descends [OF ok assms(2) this p] obtain nd path lo hi where f:
    "find_loop fs dev lbn (root_depth ip) ?nd (zero_path\<lparr>ep_header := HInode\<rparr>) = Ret (True, nd, path)" "path_at ip nd path"
    "ext_ok fs dev 0 lo hi nd" "int lo \<le> lbn"
    "\<forall>e. last_extent (ext_list fs dev 0 nd) lbn e \<longrightarrow> last_extent (file_extents fs dev ip) lbn e"
    unfolding file_extents_def by blast
  obtain k where k: "ext4_ext_binsearch nd lbn = Ret (Some (int k))" "get_extent nd (int k) = Ret (extent_at nd k)"
    "last_extent (ext_list fs dev 0 nd) lbn (extent_at nd k)"
    by (rule leaf_search [OF f(3,4)])
  have "ext4_ext_find_extent fs dev ip lbn zero_path = Ret (True, path\<lparr>ep_depth := 0, ep_ext := Some (int k), ep_index := None\<rparr>)"
    using f(1) k(1) assms(1) unfolding ext4_ext_find_extent_def Let_def get_header_ok [OF n] root_depth_def
    by (simp add: ext_file_def del: bnd_Ret_iff)
  moreover have "path_node ip (path\<lparr>ep_depth := 0, ep_ext := Some (int k), ep_index := None\<rparr>) = Ret nd"
    using f(2) unfolding path_at_def path_node_def by (cases "ep_header path") simp_all
  ultimately show ?thesis using k f(5) by auto
qed

section \<open>Properties\<close>

text \<open>Extents that do not overlap.\<close>

definition ext_disjoint :: "ext4_extent list \<Rightarrow> bool" where
  "ext_disjoint es \<longleftrightarrow> (\<forall>e \<in> set es. \<forall>e' \<in> set es. e_blk e \<le> e_blk e' \<longrightarrow> e = e' \<or> unat (e_blk e) + unat (e_len e) \<le> unat (e_blk e'))"

definition covers :: "ext4_extent \<Rightarrow> int \<Rightarrow> bool" where
  "covers e lbn \<longleftrightarrow> uint (e_blk e) \<le> lbn \<and> lbn < uint (e_blk e) + uint (e_len e)"

lemma last_extent_covers:
  assumes "last_extent es lbn e" "ext_disjoint es" "e' \<in> set es" "covers e' lbn"
  shows "e = e'"
proof -
  have e: "e \<in> set es" "uint (e_blk e) \<le> lbn" "e_blk e' \<le> e_blk e" using assms by (auto simp: last_extent_def covers_def)
  have "e' = e \<or> unat (e_blk e') + unat (e_len e') \<le> unat (e_blk e)"
    using assms(2,3) e(1,3) by (auto simp: ext_disjoint_def)
  moreover have "\<not> unat (e_blk e') + unat (e_len e') \<le> unat (e_blk e)"
  proof
    assume "unat (e_blk e') + unat (e_len e') \<le> unat (e_blk e)"
    then have "int (unat (e_blk e') + unat (e_len e')) \<le> int (unat (e_blk e))" by (simp only: of_nat_le_iff)
    then show False using e(2) assms(4) by (simp add: covers_def)
  qed
  ultimately show ?thesis by simp
qed

lemma bmapext_last:
  assumes "ext_file (um_e2fs ump) (um_devvp ump) ip" "int (key_at (root_node ip) 0) \<le> lbn" "lbn < 2 ^ 32"
  obtains e where "last_extent (file_extents (um_e2fs ump) (um_devvp ump) ip) lbn e"
    "ext4_bmapext ump ip lbn = Ret (Inr (hole_if_0 (fsbtodb (um_e2fs ump) (lbn - uint (e_blk e) + phys_block e))))"
proof -
  obtain path k nd e where f: "ext4_ext_find_extent (um_e2fs ump) (um_devvp ump) ip lbn zero_path = Ret (True, path)"
    "ep_ext path = Some k" "path_node ip path = Ret nd" "get_extent nd k = Ret e"
    "last_extent (file_extents (um_e2fs ump) (um_devvp ump) ip) lbn e"
    using find_extent_spec [OF assms] by blast
  have "ext4_bmapext ump ip lbn = Ret (Inr (hole_if_0 (fsbtodb (um_e2fs ump) (lbn - uint (e_blk e) + phys_block e))))"
    unfolding ext4_bmapext_def f(1) bnd.simps prod.case f(2) option.case f(3) f(4) ..
  then show ?thesis using that f(5) by blast
qed

text \<open>C30. \<^verbatim>\<open>ext4_bmapext\<close> implements the map that the extents of the tree stand for: in a file with a well-formed
  extent tree of any depth and extents that do not overlap, a block covered by an extent is mapped to
  the device address of its place in that extent.\<close>

theorem bmapext_refines_extents:
  assumes "ext_file (um_e2fs ump) (um_devvp ump) ip" "ext_disjoint (file_extents (um_e2fs ump) (um_devvp ump) ip)"
    and e: "e \<in> set (file_extents (um_e2fs ump) (um_devvp ump) ip)" "covers e lbn" "phys_block e \<noteq> 0" "lbn < 2 ^ 32"
  shows "ext4_bmapext ump ip lbn = Ret (Inr (fsbtodb (um_e2fs ump) (phys_block e + (lbn - uint (e_blk e)))))"
proof -
  let ?fs = "um_e2fs ump" and ?nd = "root_node ip"
  have "key_at ?nd 0 \<le> unat (e_blk e)"
    using ext_list_bounds assms(1) e(1) by (auto simp: ext_file_def file_extents_def)
  then have "int (key_at ?nd 0) \<le> int (unat (e_blk e))" by (simp only: of_nat_le_iff)
  then have lo: "int (key_at ?nd 0) \<le> lbn" using e(2) by (simp add: covers_def)
  obtain e' where e': "last_extent (file_extents ?fs (um_devvp ump) ip) lbn e'"
    "ext4_bmapext ump ip lbn = Ret (Inr (hole_if_0 (fsbtodb ?fs (lbn - uint (e_blk e') + phys_block e'))))"
    by (rule bmapext_last [OF assms(1) lo e(4)])
  have "e' = e" by (rule last_extent_covers [OF e'(1) assms(2) e(1,2)])
  moreover have "0 < phys_block e" using e(3) by (simp add: phys_block_def order_less_le)
  then have "0 < fsbtodb ?fs (lbn - uint (e_blk e) + phys_block e)"
    using e(2) by (simp add: fsbtodb_def covers_def push_bit_eq_mult)
  ultimately show ?thesis using e'(2) by (simp add: hole_if_0_def algebra_simps)
qed

text \<open>C31. \<^verbatim>\<open>ext4_bmapext\<close> never looks at the length of the extent it finds: a block in no extent, a hole between
  two extents or a block past the last, is not mapped to a hole but as if the preceding extent, the one that starts last among those at or before the block and
  that ends at or before it, went on.\<close>

theorem bmapext_maps_holes:
  assumes "ext_file (um_e2fs ump) (um_devvp ump) ip" "int (key_at (root_node ip) 0) \<le> lbn" "lbn < 2 ^ 32"
    and "\<forall>e \<in> set (file_extents (um_e2fs ump) (um_devvp ump) ip). \<not> covers e lbn \<and> phys_block e \<noteq> 0"
  shows "\<exists>e a. e \<in> set (file_extents (um_e2fs ump) (um_devvp ump) ip) \<and> uint (e_blk e) + uint (e_len e) \<le> lbn \<and>
     (\<forall>e' \<in> set (file_extents (um_e2fs ump) (um_devvp ump) ip). uint (e_blk e') \<le> lbn \<longrightarrow> uint (e_blk e') \<le> uint (e_blk e)) \<and>
     a = fsbtodb (um_e2fs ump) (phys_block e + (lbn - uint (e_blk e))) \<and> 0 < a \<and> ext4_bmapext ump ip lbn = Ret (Inr a)"
proof -
  let ?fs = "um_e2fs ump"
  obtain e where e: "last_extent (file_extents ?fs (um_devvp ump) ip) lbn e"
    "ext4_bmapext ump ip lbn = Ret (Inr (hole_if_0 (fsbtodb ?fs (lbn - uint (e_blk e) + phys_block e))))"
    by (rule bmapext_last [OF assms(1-3)])
  then have l: "e \<in> set (file_extents ?fs (um_devvp ump) ip)" "uint (e_blk e) \<le> lbn"
    "\<forall>e' \<in> set (file_extents ?fs (um_devvp ump) ip). uint (e_blk e') \<le> lbn \<longrightarrow> uint (e_blk e') \<le> uint (e_blk e)"
    by (auto simp: last_extent_def word_le_def)
  then have "\<not> covers e lbn" "phys_block e \<noteq> 0" using assms(4) by auto
  then have "uint (e_blk e) + uint (e_len e) \<le> lbn" "0 < phys_block e"
    using l(2) by (auto simp: covers_def phys_block_def order_less_le)
  moreover from this(2) have "0 < fsbtodb ?fs (lbn - uint (e_blk e) + phys_block e)"
    using l(2) by (simp add: fsbtodb_def push_bit_eq_mult)
  ultimately show ?thesis using l(1,3) e(2) by (auto simp: hole_if_0_def algebra_simps)
qed

text \<open>The extent cache: what \<^verbatim>\<open>ext4_ext_put_cache\<close> stores is what \<^verbatim>\<open>ext4_ext_in_cache\<close> returns for a block the
  extent covers, and for no other block.\<close>

theorem ext_cache_roundtrip:
  assumes "t \<noteq> EXT4_EXT_CACHE_NO" "uint (e_blk ep) + uint (e_len ep) < 2 ^ 32"
  shows "ext4_ext_in_cache (ext4_ext_put_cache ip ep t) lbn = (if covers ep lbn then (t, Some ep) else (EXT4_EXT_CACHE_NO, None))"
proof -
  have "uint (ucast (e_len ep) :: u32) = uint (e_len ep)" by (simp add: uint_up_ucast is_up)
  then have s: "uint (e_blk ep + ucast (e_len ep)) = uint (e_blk ep) + uint (e_len ep)"
    using assms(2) by (simp add: uint_word_ariths)
  have l: "ucast (ucast (e_len ep) :: u32) = e_len ep" by (simp add: ucast_up_ucast_id is_up)
  have h: "word_of_int (drop_bit 32 (phys_block ep)) = e_start_hi ep" "word_of_int (phys_block ep) = e_start_lo ep"
    by (rule bit_word_eqI; auto simp: phys_block_def bit_word_of_int_iff bit_uint_iff bit_or_iff bit_drop_bit_eq bit_push_bit_iff dest: bit_imp_le_length)+
  show ?thesis using assms(1) s l h by (simp add: ext4_ext_in_cache_def ext4_ext_put_cache_def covers_def Let_def)
qed

text \<open>A one-block device with a tree of depth one: the root has an index entry for block 0 in device
  address 40, whose leaf holds two extents, blocks 0 and 1 at 100 and blocks 5 to 7 at 200.\<close>

definition demo_xump :: ext2mount where
  "demo_xump = \<lparr>um_devvp = \<lparr>dev_blk = (\<lambda>a. concat (map bytes_of (if a = 40 then [0x2f30a, 4, 0, 0, 2, 100, 5, 3, 200] else []))),
       dev_rerr = (\<lambda>a. 0), dev_werr = (\<lambda>a. 0), dev_nobuf = (\<lambda>a. False)\<rparr>,
     um_e2fs = zero_fs\<lparr>e2fs_bsize := 1024, e2fs_fsbtodb := 1, e2fs_bshift := 10, e2fs_qbmask := 1023\<rparr>, um_nindir = 256, um_bptrtodb = 1, um_seqinc = 1, um_lock = False\<rparr>"

definition demo_xfile :: inode where
  "demo_xfile = zero_inode\<lparr>i_flag := IN_E4EXTENTS, i_db := [0x1f30a, 0x10004, 0, 0, 20, 0, 0, 0, 0, 0, 0, 0], i_ib := [0, 0, 0]\<rparr>"

definition demo_extents :: "ext4_extent list" where
  "demo_extents = [\<lparr>e_blk = 0, e_len = 2, e_start_hi = 0, e_start_lo = 100\<rparr>, \<lparr>e_blk = 5, e_len = 3, e_start_hi = 0, e_start_lo = 200\<rparr>]"

definition demo_leaf :: node where
  "demo_leaf = [0x2f30a, 4, 0, 0, 2, 100, 5, 3, 200]"

lemma demo_nodes:
  "child (um_e2fs demo_xump) (um_devvp demo_xump) (root_node demo_xfile) 0 = demo_leaf"
  "ecount (root_node demo_xfile) = 1" "ecount demo_leaf = 2" "root_depth demo_xfile = Suc 0"
  "key_at (root_node demo_xfile) 0 = 0" "key_at demo_leaf 0 = 0" "key_at demo_leaf 1 = 5"
  "length (root_node demo_xfile) = 15" "length demo_leaf = 9" "dev_rerr (um_devvp demo_xump) a = 0"
  "lo16 (root_node demo_xfile ! 0) = EXT4_EXT_MAGIC"
proof -
  show "child (um_e2fs demo_xump) (um_devvp demo_xump) (root_node demo_xfile) 0 = demo_leaf" by code_simp
  show "ecount (root_node demo_xfile) = 1" "ecount demo_leaf = 2" "root_depth demo_xfile = Suc 0" by code_simp+
  show "key_at (root_node demo_xfile) 0 = 0" "key_at demo_leaf 0 = 0" "key_at demo_leaf 1 = 5" by code_simp+
  show "length (root_node demo_xfile) = 15" "length demo_leaf = 9" "lo16 (root_node demo_xfile ! 0) = EXT4_EXT_MAGIC" by code_simp+
  show "dev_rerr (um_devvp demo_xump) a = 0" by (simp add: demo_xump_def)
qed

lemma demo_ext:
  "file_extents (um_e2fs demo_xump) (um_devvp demo_xump) demo_xfile = demo_extents"
  "ext_file (um_e2fs demo_xump) (um_devvp demo_xump) demo_xfile" "ext_disjoint demo_extents" "key_at (root_node demo_xfile) 0 = 0"
proof -
  have "map (extent_at demo_leaf) [0..<2] = demo_extents" by code_simp
  then show "file_extents (um_e2fs demo_xump) (um_devvp demo_xump) demo_xfile = demo_extents"
    by (simp add: file_extents_def demo_nodes)
  show "ext_file (um_e2fs demo_xump) (um_devvp demo_xump) demo_xfile"
    using demo_nodes(7) by (simp add: ext_file_def demo_nodes node_ok_def next_key_def)
  show "ext_disjoint demo_extents" by code_simp
  show "key_at (root_node demo_xfile) 0 = 0" by (rule demo_nodes)
qed

theorem bmapext_refines_extents_witness: "ext4_bmapext demo_xump demo_xfile 6 = Ret (Inr 402)"
proof -
  let ?e = "\<lparr>e_blk = 5, e_len = 3, e_start_hi = 0, e_start_lo = 200\<rparr>"
  have "covers ?e 6" "phys_block ?e = 200" "?e \<in> set demo_extents" by code_simp+
  then show ?thesis
    using bmapext_refines_extents [OF demo_ext(2), of ?e 6] demo_ext by (simp add: fsbtodb_def demo_xump_def push_bit_eq_mult)
qed

theorem bmapext_maps_holes_witness: "ext4_bmapext demo_xump demo_xfile 3 = Ret (Inr 206)"
proof -
  have h: "\<forall>e \<in> set demo_extents. \<not> covers e 3 \<and> phys_block e \<noteq> 0" by code_simp
  obtain e where e: "e \<in> set demo_extents" "uint (e_blk e) + uint (e_len e) \<le> 3"
    "ext4_bmapext demo_xump demo_xfile 3 = Ret (Inr (fsbtodb (um_e2fs demo_xump) (phys_block e + (3 - uint (e_blk e)))))"
    using bmapext_maps_holes [OF demo_ext(2), of 3] demo_ext h by auto
  have "\<forall>e \<in> set demo_extents. uint (e_blk e) + uint (e_len e) \<le> 3 \<longrightarrow> fsbtodb (um_e2fs demo_xump) (phys_block e + (3 - uint (e_blk e))) = 206" by code_simp
  then show ?thesis using e by simp
qed

theorem ext_cache_roundtrip_witness:
  "ext4_ext_in_cache (ext4_ext_put_cache zero_inode \<lparr>e_blk = 5, e_len = 3, e_start_hi = 0, e_start_lo = 200\<rparr> EXT4_EXT_CACHE_IN) 7 =
     (EXT4_EXT_CACHE_IN, Some \<lparr>e_blk = 5, e_len = 3, e_start_hi = 0, e_start_lo = 200\<rparr>)"
  using ext_cache_roundtrip [of EXT4_EXT_CACHE_IN "\<lparr>e_blk = 5, e_len = 3, e_start_hi = 0, e_start_lo = 200\<rparr>" zero_inode 7]
  by (simp add: EXT4_EXT_CACHE_IN_def EXT4_EXT_CACHE_NO_def covers_def)

text \<open>The bytes \<^verbatim>\<open>ext2_blockmap\<close> reports to follow a mapping are never negative, never more than were asked
  for, and never reach past the end of the file; a hole has none.\<close>

theorem blockmap_run_bounds:
  assumes "ext2_blockmap ump ip foffset sz maxread want_run = Ret (Inr (a, n))" "0 \<le> sz" "0 \<le> e2fs_qbmask (um_e2fs ump)"
  shows "0 \<le> n \<and> n \<le> sz \<and> (n = 0 \<or> foffset + n \<le> sint (i_size ip)) \<and> (a = - 1 \<longrightarrow> n = 0)"
proof -
  let ?o = "blkoff (um_e2fs ump) foffset"
  have b: "0 \<le> run_bytes ip bs foffset o1 sz r \<and> run_bytes ip bs foffset o1 sz r \<le> sz \<and>
      (run_bytes ip bs foffset o1 sz r = 0 \<or> foffset + run_bytes ip bs foffset o1 sz r \<le> sint (i_size ip))" for bs o1 r
    using assms(2) by (auto simp: run_bytes_def Let_def)
  have o9: "0 \<le> drop_bit 9 ?o" using blkoff_bounds [OF assms(3)] by simp
  obtain r :: "errno + int \<times> int" where r: "(case r of Inl error \<Rightarrow> Ret (Inl error) | Inr (bn, run) \<Rightarrow>
        if bn < 0 then Ret (Inr (- 1, 0))
        else Ret (Inr (bn + drop_bit 9 ?o, if want_run then run_bytes ip (e2fs_bsize (um_e2fs ump)) foffset ?o sz run else 0)))
      = Ret (Inr (a, n))"
    using assms(1) unfolding ext2_blockmap_def Let_def bnd_Ret_iff by blast
  then obtain bn run where bn: "r = Inr (bn, run)" by (cases r) auto
  show ?thesis
  proof (cases "bn < 0")
    case True
    then show ?thesis using r bn assms(2) by simp
  next
    case False
    then have "a = bn + drop_bit 9 ?o" "n = (if want_run then run_bytes ip (e2fs_bsize (um_e2fs ump)) foffset ?o sz run else 0)"
      using r bn by simp_all
    moreover from this(1) have "a \<noteq> - 1" using False o9 by linarith
    ultimately show ?thesis using b [of "e2fs_bsize (um_e2fs ump)" ?o run] assms(2) by simp
  qed
qed

theorem blockmap_run_bounds_witness:
  "\<exists>a n. ext2_blockmap demo_xump (demo_xfile\<lparr>i_size := 8192\<rparr>) 5120 4096 0 True = Ret (Inr (a, n)) \<and> 0 \<le> n \<and> n \<le> 4096"
proof -
  have "ext2_blockmap demo_xump (demo_xfile\<lparr>i_size := 8192\<rparr>) 5120 4096 0 True = Ret (Inr (400, 1024))" (is ?c) by code_simp
  then show ?thesis using blockmap_run_bounds [OF \<open>?c\<close>] by (simp add: demo_xump_def)
qed

text \<open>\<^verbatim>\<open>ext4_ext_drop_refs\<close> never returns: whatever the array of paths, its loop runs off the end.\<close>

theorem drop_refs_never_returns: "ext4_ext_drop_refs ps = Fault Oob"
  by (induction ps) auto

end
