(* ===== verification/Ext2_Bitmap.thy ===== *)
theory Ext2_Bitmap
  imports Ext2_Geom
begin

text \<open>
  Searching a block or inode bitmap: \<^verbatim>\<open>memcchr\<close> and \<^verbatim>\<open>ext2_fls\<close> of \<^verbatim>\<open>include/fs/ext2fs/ext2_apple.h\<close>,
  the fallback search \<^verbatim>\<open>ext2_mapsearch\<close> and the search for a run of eight free blocks inside
  \<^verbatim>\<open>ext2_alloccg\<close>, both of \<^verbatim>\<open>kext/ext2_alloc.c\<close>. A bitmap byte is a \<^verbatim>\<open>char\<close>, which is signed.
\<close>

section \<open>Byte and bit scans\<close>

text \<open>\<^verbatim>\<open>memcchr(&buf[p], c, n)\<close>: the index of the first byte that differs from \<open>c\<close>.\<close>

fun memcchr :: "bytes \<Rightarrow> int \<Rightarrow> u8 \<Rightarrow> nat \<Rightarrow> int option outcome" where
  "memcchr buf p c 0 = Ret None"
| "memcchr buf p c (Suc n) =
     bnd (rd buf p) (\<lambda>b. if b \<noteq> c then Ret (Some p) else memcchr buf (p + 1) c n)"

definition size_t_of :: "int \<Rightarrow> nat" where
  "size_t_of x = nat (x mod 2 ^ 64)"

definition ext2_fls :: "u32 \<Rightarrow> int" where
  "ext2_fls v = (case find (\<lambda>i. bit v i) (rev [0..<32]) of None \<Rightarrow> 0 | Some i \<Rightarrow> int i + 1)"

section \<open>\<^verbatim>\<open>ext2_mapsearch\<close>\<close>

text \<open>
  The byte found holds a clear bit; \<^verbatim>\<open>ffs(~*loc) - 1\<close> is its position. The byte is promoted to
  \<^verbatim>\<open>int\<close> with its sign before it is complemented.
\<close>

definition clear_bit_at :: "bytes \<Rightarrow> int \<Rightarrow> int outcome" where
  "clear_bit_at bbp l = bnd (rd bbp l) (\<lambda>b. Ret (l * NBBY + ffs (NOT (scast b)) - 1))"

definition ext2_mapsearch :: "m_ext2fs \<Rightarrow> bytes \<Rightarrow> int \<Rightarrow> int outcome" where
  "ext2_mapsearch fs bbp bpref =
     (let start = (if bpref \<noteq> 0 then s32 (dtogd fs bpref sdiv NBBY) else 0);
          len = sint (howmany8 (e2fs_fpg (e2fs fs)) - word_of_int start)
      in bnd (memcchr bbp start 0xff (size_t_of len)) (\<lambda>loc.
      case loc of Some l \<Rightarrow> clear_bit_at bbp l
      | None \<Rightarrow>
          bnd (memcchr bbp 0 0xff (size_t_of (start + 1))) (\<lambda>loc.
          case loc of Some l \<Rightarrow> clear_bit_at bbp l
          | None \<Rightarrow> Fault (Panic ''ext2_mapsearch: map corrupted''))))"

section \<open>The run search of \<^verbatim>\<open>ext2_alloccg\<close>\<close>

text \<open>
  The loop at label \<^verbatim>\<open>retry\<close>: \<open>runlen\<close> clear bits end at byte \<open>loc\<close> and begin at bit \<open>runstart\<close>.
  The body of the loop either jumps to \<^verbatim>\<open>gotit\<close> with a block (\<open>Inl\<close>) or goes on with the run it has.
\<close>

definition run_long :: "int \<times> int \<Rightarrow> int + int \<times> int" where
  "run_long r = (case r of (runlen, runstart) \<Rightarrow>
     if runlen \<ge> 8 then Inl runstart else Inr (runlen, runstart))"

definition run_fresh :: "u8 \<Rightarrow> int \<Rightarrow> int \<times> int" where
  "run_fresh b loc = (let h = ext2_fls (ucast b) in (NBBY - h, loc * NBBY + h))"

definition run_step :: "u8 \<Rightarrow> int \<Rightarrow> int \<Rightarrow> int \<Rightarrow> int + int \<times> int" where
  "run_step b loc runlen runstart =
     (if b = 0xff then Inr (0, runstart)
      else if runlen = 0 then run_long (run_fresh b loc)
      else if b = 0 then run_long (runlen + NBBY, runstart)
      else if runlen + (ffs (ucast b) - 1) \<ge> 8 then Inl runstart
      else run_long (run_fresh b loc))"

function run_scan :: "bytes \<Rightarrow> int \<Rightarrow> int \<Rightarrow> int \<Rightarrow> int \<Rightarrow> int option outcome" where
  "run_scan bbp e loc runlen runstart =
     (if loc < e then
        bnd (rd bbp loc) (\<lambda>b.
        case run_step b loc runlen runstart of
          Inl bno \<Rightarrow> Ret (Some bno)
        | Inr (runlen, runstart) \<Rightarrow> run_scan bbp e (loc + 1) runlen runstart)
      else Ret None)"
  by pat_completeness auto
termination
  by (relation "measure (\<lambda>(bbp, e, loc, runlen, runstart). nat (e - loc))") auto

declare run_scan.simps [simp del]

section \<open>Scans are correct\<close>

lemma memcchr_Some:
  "memcchr buf p c n = Ret (Some q) \<Longrightarrow> 0 \<le> p \<Longrightarrow>
     p \<le> q \<and> q < p + int n \<and> q < int (length buf) \<and> buf ! nat q \<noteq> c \<and>
     (\<forall>k. p \<le> k \<and> k < q \<longrightarrow> buf ! nat k = c)"
proof (induction buf p c n rule: memcchr.induct)
  case (2 buf p c n)
  show ?case
  proof (cases "0 \<le> p \<and> p < int (length buf) \<and> buf ! nat p = c")
    case True
    with "2.prems" have "memcchr buf (p + 1) c n = Ret (Some q)" by (auto split: if_splits)
    from "2.IH" [OF rd_in _ this] True have IH:
      "p + 1 \<le> q \<and> q < p + 1 + int n \<and> q < int (length buf) \<and> buf ! nat q \<noteq> c \<and>
       (\<forall>k. p + 1 \<le> k \<and> k < q \<longrightarrow> buf ! nat k = c)" by simp
    have "buf ! nat k = c" if "p \<le> k" "k < q" for k
      using that IH True by (cases "k = p") auto
    with IH show ?thesis by auto
  next
    case False
    with "2.prems" show ?thesis by (auto split: if_splits)
  qed
qed simp

lemma memcchr_None:
  "memcchr buf p c n = Ret None \<Longrightarrow> 0 \<le> p \<Longrightarrow> \<forall>k. p \<le> k \<and> k < p + int n \<longrightarrow> buf ! nat k = c"
proof (induction buf p c n rule: memcchr.induct)
  case (2 buf p c n)
  have b: "buf ! nat p = c" and r: "memcchr buf (p + 1) c n = Ret None" "p < int (length buf)"
    using "2.prems" by (auto split: if_splits)
  then have IH: "\<forall>k. p + 1 \<le> k \<and> k < p + 1 + int n \<longrightarrow> buf ! nat k = c"
    using "2.IH" [OF rd_in _ r(1)] "2.prems"(2) by simp
  show ?case
  proof (intro allI impI)
    fix k assume "p \<le> k \<and> k < p + int (Suc n)"
    with IH b show "buf ! nat k = c" by (cases "k = p") auto
  qed
qed auto

lemma memcchr_safe:
  "0 \<le> p \<Longrightarrow> p + int n \<le> int (length buf) \<Longrightarrow> \<exists>r. memcchr buf p c n = Ret r"
  by (induction buf p c n rule: memcchr.induct) (auto simp: rd_def)

lemma size_t_of_id: "0 \<le> x \<Longrightarrow> x < 2 ^ 63 \<Longrightarrow> size_t_of x = nat x"
  by (simp add: size_t_of_def)

lemma not_ff_clear_bit: "b \<noteq> 0xff \<Longrightarrow> \<exists>k<8. \<not> bit b k" for b :: u8
proof (rule ccontr)
  assume "b \<noteq> 0xff" and "\<not> (\<exists>k<8. \<not> bit b k)"
  moreover have "b = mask 8" if "\<forall>k<8. bit b k"
    by (rule bit_word_eqI) (use that in \<open>simp add: bit_mask_iff\<close>)
  ultimately show False by (simp add: mask_eq_exp_minus_1)
qed

lemma clear_bit_ff: "\<not> bit b k \<Longrightarrow> k < 8 \<Longrightarrow> b \<noteq> 0xff" for b :: u8
proof
  assume "\<not> bit b k" "k < 8" "b = 0xff"
  moreover have "(0xff :: u8) = mask 8" by (simp add: mask_eq_exp_minus_1)
  ultimately show False by (simp add: bit_mask_iff)
qed

lemma bit_not_scast: "k < 8 \<Longrightarrow> bit (NOT (scast (b::u8)) :: u32) k = (\<not> bit b k)"
  by (cases "k = 7") (auto simp: bit_not_iff bit_signed_iff min_def)

lemma ffs_not_scast:
  assumes "b \<noteq> (0xff::u8)"
  shows "\<exists>k<8. ffs (NOT (scast b)) = int k + 1 \<and> \<not> bit b k \<and> (\<forall>j<k. bit b j)"
proof -
  from not_ff_clear_bit [OF assms] obtain k0 where k0: "k0 < 8" "\<not> bit b k0" by blast
  define k where "k = (LEAST k. \<not> bit b k)"
  have k: "\<not> bit b k" "k \<le> k0" "\<forall>j<k. bit b j"
    using k0 LeastI [of "\<lambda>k. \<not> bit b k" k0] Least_le [of "\<lambda>k. \<not> bit b k" k0]
      not_less_Least [of _ "\<lambda>k. \<not> bit b k"] unfolding k_def by blast+
  then have "find (\<lambda>i. bit (NOT (scast b) :: u32) i) [0..<32] = Some k"
    using k0 by (auto simp: find_upt_Some bit_not_scast)
  then show ?thesis using k k0 by (auto simp: ffs_def)
qed

lemma used_byte: "k < 8 \<Longrightarrow> used bm (8 * n + k) = bit (bm ! n) k"
  by (simp add: used_def)

lemma clear_bit_at_Ret:
  assumes "clear_bit_at bbp l = Ret r" and "bbp ! nat l \<noteq> 0xff"
  shows "8 * l \<le> r \<and> r < 8 * l + 8 \<and> 0 \<le> l \<and> l < int (length bbp) \<and> \<not> used bbp (nat r)"
proof -
  obtain k where k: "k < 8" "ffs (NOT (scast (bbp ! nat l))) = int k + 1" "\<not> bit (bbp ! nat l) k"
    using ffs_not_scast [OF assms(2)] by blast
  with assms(1) have l: "0 \<le> l" "l < int (length bbp)" and r: "r = l * 8 + int k"
    by (auto simp: clear_bit_at_def NBBY_def)
  then have "nat r = 8 * nat l + k" by (simp add: nat_add_distrib nat_mult_distrib)
  with k l r show ?thesis by (simp add: used_byte)
qed

lemma ext2_mapsearch_sound:
  assumes "ext2_mapsearch fs bbp bpref = Ret r" "bpref = 0 \<or> 0 \<le> s32 (dtogd fs bpref sdiv NBBY)"
  shows "0 \<le> r \<and> nat r < 8 * length bbp \<and> \<not> used bbp (nat r)"
proof -
  let ?start = "if bpref \<noteq> 0 then s32 (dtogd fs bpref sdiv NBBY) else 0"
  have "\<exists>p n l. 0 \<le> p \<and> memcchr bbp p 0xff n = Ret (Some l) \<and> clear_bit_at bbp l = Ret r"
    using assms
    by (auto simp: ext2_mapsearch_def Let_def split: option.splits if_splits) (metis order_refl)+
  then obtain p n l where *: "0 \<le> p" "memcchr bbp p 0xff n = Ret (Some l)" "clear_bit_at bbp l = Ret r"
    by blast
  from memcchr_Some [OF *(2,1)] have "bbp ! nat l \<noteq> 0xff" by blast
  from clear_bit_at_Ret [OF *(3) this] show ?thesis by auto
qed

text \<open>Bits outside the low eight of an unsigned byte are clear.\<close>

lemma ext2_fls_ucast:
  fixes b :: u8
  shows "\<exists>h\<le>8. ext2_fls (ucast b) = int h \<and> (\<forall>k. h \<le> k \<and> k < 8 \<longrightarrow> \<not> bit b k) \<and> (h = 0 \<longleftrightarrow> b = 0) \<and>
     (0 < h \<longrightarrow> bit b (h - 1))"
proof (cases "find (\<lambda>i. bit (ucast b :: u32) i) (rev [0..<32])")
  case None
  then have "\<forall>i<32. \<not> bit (ucast b :: u32) i" by (auto simp: find_None_iff)
  then have n: "\<forall>i<8. \<not> bit b i" by (auto simp: bit_unsigned_iff)
  then have "b = 0" by (intro bit_word_eqI) simp
  with None n show ?thesis by (auto simp: ext2_fls_def intro!: exI [of _ 0])
next
  case (Some i)
  then have i: "i < 32" "bit (ucast b :: u32) i" "\<forall>j. i < j \<and> j < 32 \<longrightarrow> \<not> bit (ucast b :: u32) j"
    unfolding find_rev_upt_Some by auto
  then have "bit b i" by (simp add: bit_unsigned_iff)
  then have "i < 8" using bit_imp_le_length [of b i] by simp
  moreover have "\<not> bit b k" if "i < k" "k < 8" for k
    using i(3) that by (auto simp: bit_unsigned_iff)
  moreover have "b \<noteq> 0" using \<open>bit b i\<close> by auto
  ultimately show ?thesis using Some
    by (intro exI [of _ "Suc i"]) (auto simp: ext2_fls_def \<open>bit b i\<close>)
qed

lemma ffs_ucast:
  fixes b :: u8
  assumes "b \<noteq> 0"
  shows "\<exists>k<8. ffs (ucast b) = int k + 1 \<and> bit b k \<and> (\<forall>j<k. \<not> bit b j)"
proof -
  obtain k0 where k0: "k0 < 8" "bit b k0"
  proof (rule ccontr)
    assume "\<not> thesis"
    then have "\<And>k. k < 8 \<Longrightarrow> \<not> bit b k" using that by blast
    then have "b = 0" by (intro bit_word_eqI) simp
    with assms show False by simp
  qed
  define k where "k = (LEAST k. bit b k)"
  have k: "bit b k" "k \<le> k0" "\<forall>j<k. \<not> bit b j"
    using k0 LeastI [of "\<lambda>k. bit b k" k0] Least_le [of "\<lambda>k. bit b k" k0]
      not_less_Least [of _ "\<lambda>k. bit b k"] unfolding k_def by blast+
  then have "find (\<lambda>i. bit (ucast b :: u32) i) [0..<32] = Some k"
    using k0 by (auto simp: find_upt_Some bit_unsigned_iff)
  then show ?thesis using k k0 by (auto simp: ffs_def)
qed

section \<open>The run search finds a run of eight free blocks exactly when there is one\<close>

definition free_run :: "bytes \<Rightarrow> int \<Rightarrow> int \<Rightarrow> bool" where
  "free_run bm r n \<longleftrightarrow> (\<forall>j. r \<le> j \<and> j < r + n \<longrightarrow> \<not> used bm (nat j))"

lemma used_byte_int:
  assumes "0 \<le> l" "8 * l \<le> j" "j < 8 * l + 8"
  shows "used bm (nat j) = bit (bm ! nat l) (nat (j - 8 * l))"
proof -
  have "nat j = 8 * nat l + nat (j - 8 * l)" using assms by linarith
  moreover have "nat (j - 8 * l) < 8" using assms by linarith
  ultimately show ?thesis by (metis used_byte)
qed

definition run_ok :: "bytes \<Rightarrow> int \<Rightarrow> int \<Rightarrow> int \<Rightarrow> bool" where
  "run_ok bm loc runlen runstart \<longleftrightarrow> 0 \<le> loc \<and>
     (runlen = 0 \<or> 0 < runlen \<and> runlen < 8 \<and> 0 \<le> runstart \<and> runstart + runlen = 8 * loc \<and>
        free_run bm runstart runlen)"

lemma free_run_glue: "free_run bm r n \<Longrightarrow> free_run bm (r + n) m \<Longrightarrow> free_run bm r (n + m)"
  unfolding free_run_def by (metis add.assoc leI)

lemma free_run_high:
  assumes "0 \<le> l" "0 \<le> h" "h \<le> 8" "\<forall>k. nat h \<le> k \<and> k < 8 \<longrightarrow> \<not> bit (bm ! nat l) k"
  shows "free_run bm (8 * l + h) (8 - h)"
  unfolding free_run_def
proof (intro allI impI)
  fix j assume j: "8 * l + h \<le> j \<and> j < 8 * l + h + (8 - h)"
  then have "used bm (nat j) = bit (bm ! nat l) (nat (j - 8 * l))"
    using assms by (intro used_byte_int) auto
  moreover have "nat h \<le> nat (j - 8 * l)" "nat (j - 8 * l) < 8" using j assms by auto
  ultimately show "\<not> used bm (nat j)" using assms(4) by blast
qed

lemma free_run_low:
  assumes "0 \<le> l" "h \<le> 8" "\<forall>k<h. \<not> bit (bm ! nat l) k"
  shows "free_run bm (8 * l) (int h)"
  unfolding free_run_def
proof (intro allI impI)
  fix j assume j: "8 * l \<le> j \<and> j < 8 * l + int h"
  then have "used bm (nat j) = bit (bm ! nat l) (nat (j - 8 * l))"
    using assms by (intro used_byte_int) auto
  moreover have "nat (j - 8 * l) < h" using j assms by auto
  ultimately show "\<not> used bm (nat j)" using assms(3) by blast
qed

text \<open>The run that a byte begins is its high clear bits; the bit below them is used.\<close>

lemma run_fresh_ok:
  assumes "0 \<le> loc" "run_fresh (bm ! nat loc) loc = (n, r)"
  shows "0 \<le> n \<and> n \<le> 8 \<and> 0 \<le> r \<and> r + n = 8 * (loc + 1) \<and> free_run bm r n \<and>
    (n < 8 \<longrightarrow> used bm (nat (r - 1)))"
proof -
  obtain h where h: "h \<le> 8" "ext2_fls (ucast (bm ! nat loc)) = int h"
    "\<forall>k. h \<le> k \<and> k < 8 \<longrightarrow> \<not> bit (bm ! nat loc) k" "0 < h \<longrightarrow> bit (bm ! nat loc) (h - 1)"
    using ext2_fls_ucast by blast
  have n: "n = 8 - int h" "r = 8 * loc + int h"
    using assms(2) h(2) by (simp_all add: run_fresh_def Let_def NBBY_def)
  have "free_run bm (8 * loc + int h) (8 - int h)"
    using assms(1) h by (intro free_run_high) auto
  moreover have "used bm (nat (r - 1))" if "0 < h"
    using that h(1,4) assms(1) n used_byte_int [of loc "r - 1" bm]
    by (simp add: nat_diff_distrib)
  ultimately show ?thesis using n h(1) assms(1) by auto
qed

lemma free_run_8_all:
  assumes "free_run bm r n" "8 \<le> n" shows "free_run bm r 8"
  using assms by (auto simp: free_run_def)

text \<open>One step from a good state: a block that starts a run of eight, or a good state again.\<close>

lemma run_step_found:
  assumes ok: "run_ok bm loc runlen runstart" and st: "run_step (bm ! nat loc) loc runlen runstart = Inl r"
  shows "0 \<le> r \<and> r < 8 * (loc + 1) \<and> free_run bm r 8"
proof -
  let ?b = "bm ! nat loc"
  have loc: "0 \<le> loc" using ok by (simp add: run_ok_def)
  obtain n q where f: "run_fresh ?b loc = (n, q)" by fastforce
  note fr = run_fresh_ok [OF loc f]
  consider "8 \<le> n" "r = q" | "runlen \<noteq> 0" "?b = 0" "r = runstart"
    | "runlen \<noteq> 0" "?b \<noteq> 0" "runlen + (ffs (ucast ?b) - 1) \<ge> 8" "r = runstart"
    using st f by (auto simp: run_step_def run_long_def split: if_splits)
  then show ?thesis
  proof cases
    case 1
    with fr show ?thesis by (auto intro: free_run_8_all)
  next
    case 2
    with ok have run: "0 < runlen" "runstart + runlen = 8 * loc" "free_run bm runstart runlen" "0 \<le> runstart"
      by (auto simp: run_ok_def)
    have "free_run bm (8 * loc) (int 8)" using 2 loc by (intro free_run_low) simp_all
    with run have "free_run bm runstart (runlen + 8)" by (intro free_run_glue) auto
    with run 2 show ?thesis by (auto intro: free_run_8_all)
  next
    case 3
    with ok have run: "0 < runlen" "runstart + runlen = 8 * loc" "free_run bm runstart runlen" "0 \<le> runstart"
      by (auto simp: run_ok_def)
    obtain k where k: "k < 8" "ffs (ucast ?b) = int k + 1" "\<forall>j<k. \<not> bit ?b j"
      using ffs_ucast 3 by blast
    have "free_run bm (8 * loc) (int k)" using k loc by (intro free_run_low) auto
    with run have "free_run bm runstart (runlen + int k)" by (intro free_run_glue) auto
    with run 3 k show ?thesis by (auto intro: free_run_8_all)
  qed
qed

lemma run_step_next:
  assumes ok: "run_ok bm loc runlen runstart"
    and st: "run_step (bm ! nat loc) loc runlen runstart = Inr (n, r)"
  shows "run_ok bm (loc + 1) n r"
proof -
  have loc: "0 \<le> loc" using ok by (simp add: run_ok_def)
  obtain n' q where f: "run_fresh (bm ! nat loc) loc = (n', q)" by fastforce
  note fr = run_fresh_ok [OF loc f]
  have "n = 0 \<or> (n = n' \<and> r = q \<and> n < 8)"
    using st f ok by (auto simp: run_step_def run_long_def run_ok_def NBBY_def split: if_splits)
  with fr loc show ?thesis by (auto simp: run_ok_def)
qed

lemma run_scan_sound:
  "run_scan bbp e loc runlen runstart = Ret (Some r) \<Longrightarrow> run_ok bbp loc runlen runstart \<Longrightarrow>
     0 \<le> r \<and> r < 8 * e \<and> r < 8 * int (length bbp) \<and> free_run bbp r 8"
proof (induction bbp e loc runlen runstart rule: run_scan.induct)
  case (1 bbp e loc runlen runstart)
  have lt: "loc < e" "0 \<le> loc" "loc < int (length bbp)"
    using "1.prems" by (auto simp: run_scan.simps [of bbp e loc] split: if_splits)
  show ?case
  proof (cases "run_step (bbp ! nat loc) loc runlen runstart")
    case (Inl q)
    with "1.prems"(1) lt have "q = r" by (simp add: run_scan.simps [of bbp e loc] rd_in)
    with run_step_found [OF "1.prems"(2) Inl] lt show ?thesis by auto
  next
    case (Inr p)
    obtain n q where p: "p = (n, q)" by (cases p)
    have "run_scan bbp e (loc + 1) n q = Ret (Some r)"
      using "1.prems"(1) lt Inr p by (simp add: run_scan.simps [of bbp e loc] rd_in)
    with "1.IH" [OF lt(1) rd_in [OF lt(2,3)] Inr p [symmetric]] run_step_next [OF "1.prems"(2)] Inr p
    show ?thesis by simp
  qed
qed

lemma run_scan_safe:
  "0 \<le> loc \<Longrightarrow> e \<le> int (length bbp) \<Longrightarrow> \<exists>r. run_scan bbp e loc runlen runstart = Ret r"
proof (induction bbp e loc runlen runstart rule: run_scan.induct)
  case (1 bbp e loc runlen runstart)
  show ?case
  proof (cases "loc < e")
    case True
    with "1.prems" have rd: "rd bbp loc = Ret (bbp ! nat loc)" by (simp add: rd_in)
    show ?thesis
    proof (cases "run_step (bbp ! nat loc) loc runlen runstart")
      case (Inl q)
      with True rd show ?thesis by (simp add: run_scan.simps [of bbp e loc])
    next
      case (Inr p)
      with "1.IH" [OF True rd Inr] "1.prems" True rd show ?thesis
        by (cases p) (simp add: run_scan.simps [of bbp e loc])
    qed
  qed (simp add: run_scan.simps)
qed

text \<open>
  Completeness. \<open>dead\<close> says that no run of eight free blocks starts between byte \<open>s\<close> and the run
  in progress: each such run meets a used bit that the scan has passed.
\<close>

definition dead :: "bytes \<Rightarrow> int \<Rightarrow> int \<Rightarrow> int \<Rightarrow> bool" where
  "dead bm s loc runlen \<longleftrightarrow>
     (\<forall>r. 8 * s \<le> r \<and> r < 8 * loc - runlen \<longrightarrow> (\<exists>j. r \<le> j \<and> j < r + 8 \<and> j < 8 * loc \<and> used bm (nat j)))"

lemma dead_step:
  assumes ok: "run_ok bm loc runlen runstart" and d: "dead bm s loc runlen"
    and st: "run_step (bm ! nat loc) loc runlen runstart = Inr (n, q)"
  shows "dead bm s (loc + 1) n"
  unfolding dead_def
proof (intro allI impI)
  fix r assume r: "8 * s \<le> r \<and> r < 8 * (loc + 1) - n"
  let ?b = "bm ! nat loc"
  let ?goal = "\<exists>j. r \<le> j \<and> j < r + 8 \<and> j < 8 * (loc + 1) \<and> used bm (nat j)"
  have loc: "0 \<le> loc" and rl: "0 \<le> runlen" "runlen < 8" using ok by (auto simp: run_ok_def)
  obtain n' q' where f: "run_fresh ?b loc = (n', q')" by fastforce
  note fr = run_fresh_ok [OF loc f]
  show ?goal
  proof (cases "r < 8 * loc - runlen")
    case True
    with d r obtain j where "r \<le> j" "j < r + 8" "j < 8 * loc" "used bm (nat j)"
      by (auto simp: dead_def)
    then show ?thesis by (intro exI [of _ j]) auto
  next
    case False
    consider (ff) "?b = 0xff" | (fresh) "?b \<noteq> 0xff" "n = n'" "n' < 8" "runlen = 0"
      | (short) k where "?b \<noteq> 0xff" "n = n'" "n' < 8" "k < 8" "runlen + int k < 8" "bit ?b k"
      using st f ffs_ucast [of ?b] rl
      by (auto simp: run_step_def run_long_def NBBY_def not_le split: if_splits)
    then show ?thesis
    proof cases
      case ff
      define j where "j = max r (8 * loc)"
      have j: "8 * loc \<le> j" "j < 8 * loc + 8" "r \<le> j" "j < r + 8"
        using r False rl st ff by (auto simp: j_def run_step_def)
      then have "used bm (nat j) = bit ?b (nat (j - 8 * loc))"
        using loc by (intro used_byte_int) auto
      moreover have "nat (j - 8 * loc) < 8" using j by linarith
      ultimately have "used bm (nat j)" using ff clear_bit_ff by blast
      with j show ?thesis by (intro exI [of _ j]) auto
    next
      case fresh
      with fr have "used bm (nat (q' - 1))" by auto
      with fresh fr r False show ?thesis by (intro exI [of _ "q' - 1"]) auto
    next
      case short
      show ?thesis
      proof (cases "r \<le> 8 * loc + int k")
        case True
        have "used bm (nat (8 * loc + int k)) = bit ?b (nat (8 * loc + int k - 8 * loc))"
          using loc short by (intro used_byte_int) auto
        with short True False show ?thesis by (intro exI [of _ "8 * loc + int k"]) auto
      next
        case k: False
        with short fr have "used bm (nat (q' - 1))" by auto
        with short fr r k show ?thesis by (intro exI [of _ "q' - 1"]) auto
      qed
    qed
  qed
qed

lemma run_scan_complete:
  "run_scan bbp e loc runlen runstart = Ret None \<Longrightarrow> run_ok bbp loc runlen runstart \<Longrightarrow>
     dead bbp s loc runlen \<Longrightarrow> loc \<le> e \<Longrightarrow> 8 * s \<le> r \<Longrightarrow> r + 8 \<le> 8 * e \<Longrightarrow> \<not> free_run bbp r 8"
proof (induction bbp e loc runlen runstart rule: run_scan.induct)
  case (1 bbp e loc runlen runstart)
  show ?case
  proof (cases "loc < e")
    case True
    then obtain n q where st: "run_step (bbp ! nat loc) loc runlen runstart = Inr (n, q)"
      and rd: "rd bbp loc = Ret (bbp ! nat loc)" and rec: "run_scan bbp e (loc + 1) n q = Ret None"
      using "1.prems"(1) by (auto simp: run_scan.simps [of bbp e loc] split: sum.splits)
    have "run_ok bbp (loc + 1) n q" "dead bbp s (loc + 1) n"
      using run_step_next dead_step "1.prems"(2,3) st by blast+
    with "1.IH" [OF True rd st refl rec] "1.prems"(5,6) True show ?thesis by simp
  next
    case False
    with "1.prems"(4) have e: "e = loc" by simp
    have "r < 8 * loc - runlen" using "1.prems"(2,6) e by (auto simp: run_ok_def)
    with "1.prems"(3,5) show ?thesis by (auto simp: dead_def free_run_def)
  qed
qed

lemma run_scan_start: "0 \<le> s \<Longrightarrow> run_ok bm s 0 q \<and> dead bm s s 0"
  by (auto simp: run_ok_def dead_def)

end
