(* ===== verification/Ext2_Cluster.thy ===== *)
theory Ext2_Cluster
  imports Ext2_Geom
begin

text \<open>
  Free-cluster accounting, \<^verbatim>\<open>ext2_clusteracct\<close> of \<^verbatim>\<open>kext/ext2_subr.c\<close>. For every group the file
  system keeps how many maximal runs of free blocks of each length it has (long runs counted at
  the largest length). The loops walk the bitmap with a byte index and a one-bit mask, as the
  source does; the lemmas show that this is bit indexing.
\<close>

section \<open>The routine\<close>

definition mask_up :: "int \<Rightarrow> int \<Rightarrow> int \<Rightarrow> int \<times> int" where
  "mask_up i loc bt = (if i AND (NBBY - 1) \<noteq> NBBY - 1 then (loc, push_bit 1 bt) else (loc + 1, 1))"

definition mask_down :: "int \<Rightarrow> int \<Rightarrow> int \<Rightarrow> int \<times> int" where
  "mask_down i loc bt = (if i AND (NBBY - 1) \<noteq> 0 then (loc, drop_bit 1 bt)
     else (loc - 1, push_bit (nat (NBBY - 1)) 1))"

definition sum_add :: "int list \<Rightarrow> int \<Rightarrow> int \<Rightarrow> int list outcome" where
  "sum_add sump i c = bnd (rd sump i) (\<lambda>v. wr sump i (v + c))"

function clus_init :: "bytes \<Rightarrow> int \<Rightarrow> int \<Rightarrow> int \<Rightarrow> int \<Rightarrow> int \<Rightarrow> int \<Rightarrow> int list \<Rightarrow>
    (int \<times> int list) outcome" where
  "clus_init bbp fpg cap i loc bt run sump =
     (if i < fpg then
        bnd (rd bbp loc) (\<lambda>b.
        bnd (if sint b AND bt = 0 then Ret (run + 1, sump)
             else if run \<noteq> 0 then
               (let run = (if run > cap then cap else run)
                in bnd (sum_add sump run 1) (\<lambda>sump. Ret (0, sump)))
             else Ret (run, sump)) (\<lambda>(run, sump).
        case mask_up i loc bt of (loc, bt) \<Rightarrow> clus_init bbp fpg cap (i + 1) loc bt run sump))
      else Ret (run, sump))"
  by pat_completeness auto
termination
  by (relation "measure (\<lambda>(bbp, fpg, cap, i, loc, bt, run, sump). nat (fpg - i))") auto

function clus_forw :: "bytes \<Rightarrow> int \<Rightarrow> int \<Rightarrow> int \<Rightarrow> int \<Rightarrow> int outcome" where
  "clus_forw bbp e i loc bt =
     (if i < e then
        bnd (rd bbp loc) (\<lambda>b.
        if sint b AND bt \<noteq> 0 then Ret i
        else case mask_up i loc bt of (loc, bt) \<Rightarrow> clus_forw bbp e (i + 1) loc bt)
      else Ret i)"
  by pat_completeness auto
termination
  by (relation "measure (\<lambda>(bbp, e, i, loc, bt). nat (e - i))") auto

function clus_back :: "bytes \<Rightarrow> int \<Rightarrow> int \<Rightarrow> int \<Rightarrow> int \<Rightarrow> int outcome" where
  "clus_back bbp e i loc bt =
     (if i > e then
        bnd (rd bbp loc) (\<lambda>b.
        if sint b AND bt \<noteq> 0 then Ret i
        else case mask_down i loc bt of (loc, bt) \<Rightarrow> clus_back bbp e (i - 1) loc bt)
      else Ret i)"
  by pat_completeness auto
termination
  by (relation "measure (\<lambda>(bbp, e, i, loc, bt). nat (i - e))") auto

text \<open>The scan for the largest cluster: from \<open>i\<close> down to the first positive count.\<close>

function clus_max :: "int list \<Rightarrow> int \<Rightarrow> int outcome" where
  "clus_max sump i =
     (if i > 0 then bnd (rd sump i) (\<lambda>v. if v > 0 then Ret i else clus_max sump (i - 1))
      else Ret i)"
  by pat_completeness auto
termination
  by (relation "measure (\<lambda>(sump, i). nat i)") auto

declare clus_init.simps [simp del] clus_forw.simps [simp del] clus_back.simps [simp del]
  clus_max.simps [simp del]

definition clus_sum_init :: "m_ext2fs \<Rightarrow> bytes \<Rightarrow> csum \<Rightarrow> csum outcome" where
  "clus_sum_init fs bbp cs =
     (if cs_init cs = 0 then
        bnd (clus_init bbp (sint (e2fs_fpg (e2fs fs))) (e2fs_contigsumsize fs) 0 0 1 0 (cs_sum cs))
          (\<lambda>(run, sump).
        bnd (if run \<noteq> 0 then
               sum_add sump (if run > e2fs_contigsumsize fs then e2fs_contigsumsize fs else run) 1
             else Ret sump) (\<lambda>sump.
        Ret (cs\<lparr>cs_sum := sump, cs_init := 1\<rparr>)))
      else Ret cs)"

definition clus_put :: "m_ext2fs \<Rightarrow> int \<Rightarrow> csum \<Rightarrow> m_ext2fs outcome" where
  "clus_put fs cg cs =
     bnd (wr (e2fs_clustersum fs) cg cs) (\<lambda>l. Ret (fs\<lparr>e2fs_clustersum := l\<rparr>))"

text \<open>
  The sizes of the free runs after and before block \<open>bno\<close>, then the adjusted counts and the
  size of the largest cluster. For block zero the source computes the backward mask with a
  negative shift; the loop that would use it does not run.
\<close>

definition clus_sizes :: "m_ext2fs \<Rightarrow> bytes \<Rightarrow> int \<Rightarrow> (int \<times> int) outcome" where
  "clus_sizes fs bbp bno =
     (let cap = e2fs_contigsumsize fs; fpg = sint (e2fs_fpg (e2fs fs));
          start = s32 bno + 1;
          e = (if start + cap > fpg then fpg else start + cap)
      in bnd (clus_forw bbp e start (start sdiv NBBY) (push_bit (nat (start smod NBBY)) 1)) (\<lambda>i.
      let forw = i - start;
          start = s32 bno - 1;
          e = (if start - cap < 0 then -1 else start - cap)
      in bnd (clus_back bbp e start (start sdiv NBBY) (push_bit (nat (start smod NBBY)) 1)) (\<lambda>i.
      Ret (forw, start - i))))"

definition clus_counts :: "int \<Rightarrow> int \<Rightarrow> int \<Rightarrow> int \<Rightarrow> int list \<Rightarrow> (int list \<times> int) outcome" where
  "clus_counts cap forw back cnt sump =
     (let i = (if back + forw + 1 > cap then cap else back + forw + 1)
      in bnd (sum_add sump i cnt) (\<lambda>sump.
      bnd (if back > 0 then sum_add sump back (- cnt) else Ret sump) (\<lambda>sump.
      bnd (if forw > 0 then sum_add sump forw (- cnt) else Ret sump) (\<lambda>sump.
      bnd (clus_max sump cap) (\<lambda>i. Ret (sump, i))))))"

definition ext2_clusteracct :: "m_ext2fs \<Rightarrow> bytes \<Rightarrow> int \<Rightarrow> int \<Rightarrow> int \<Rightarrow> m_ext2fs outcome" where
  "ext2_clusteracct fs bbp cg bno cnt =
     bnd (rd (e2fs_clustersum fs) cg) (\<lambda>cs.
     bnd (clus_sum_init fs bbp cs) (\<lambda>cs.
     if e2fs_contigsumsize fs \<le> 0 then clus_put fs cg cs
     else
       bnd (clus_sizes fs bbp bno) (\<lambda>(forw, back).
       bnd (clus_counts (e2fs_contigsumsize fs) forw back cnt (cs_sum cs)) (\<lambda>(sump, i).
       bnd (clus_put fs cg (cs\<lparr>cs_sum := sump\<rparr>)) (\<lambda>fs.
       bnd (wr (e2fs_maxcluster fs) cg i) (\<lambda>l.
       Ret (fs\<lparr>e2fs_maxcluster := l\<rparr>)))))))"

section \<open>What the routine leaves alone\<close>

text \<open>Only the cluster summaries and the cached maxima change.\<close>

lemma clus_put_Ret [simp]:
  "clus_put fs cg cs = Ret fs' \<longleftrightarrow> 0 \<le> cg \<and> cg < int (length (e2fs_clustersum fs)) \<and>
     fs' = fs\<lparr>e2fs_clustersum := (e2fs_clustersum fs)[nat cg := cs]\<rparr>"
  by (auto simp: clus_put_def)

lemma ext2_clusteracct_frame:
  assumes "ext2_clusteracct fs bbp cg bno cnt = Ret fs'"
  shows "\<exists>cs mc. fs' = fs\<lparr>e2fs_clustersum := cs, e2fs_maxcluster := mc\<rparr> \<and>
     length cs = length (e2fs_clustersum fs) \<and> length mc = length (e2fs_maxcluster fs)"
proof -
  obtain cs cs2 where cs: "rd (e2fs_clustersum fs) cg = Ret cs" "clus_sum_init fs bbp cs = Ret cs2"
    and rest: "(if e2fs_contigsumsize fs \<le> 0 then clus_put fs cg cs2
       else bnd (clus_sizes fs bbp bno) (\<lambda>(forw, back).
         bnd (clus_counts (e2fs_contigsumsize fs) forw back cnt (cs_sum cs2)) (\<lambda>(sump, i).
         bnd (clus_put fs cg (cs2\<lparr>cs_sum := sump\<rparr>)) (\<lambda>fs.
         bnd (wr (e2fs_maxcluster fs) cg i) (\<lambda>l. Ret (fs\<lparr>e2fs_maxcluster := l\<rparr>)))))) = Ret fs'"
    using assms unfolding ext2_clusteracct_def bnd_Ret_iff by blast
  show ?thesis
  proof (cases "e2fs_contigsumsize fs \<le> 0")
    case True
    with rest show ?thesis
      by (intro exI [of _ "(e2fs_clustersum fs)[nat cg := cs2]"] exI [of _ "e2fs_maxcluster fs"]) simp
  next
    case False
    with rest have ex: "\<exists>sump i.
      fs' = fs\<lparr>e2fs_clustersum := (e2fs_clustersum fs)[nat cg := cs2\<lparr>cs_sum := sump\<rparr>],
         e2fs_maxcluster := (e2fs_maxcluster fs)[nat cg := i]\<rparr>"
      by (auto split: prod.splits)
    show ?thesis by (rule exE [OF ex], erule exE, intro exI conjI, assumption) simp_all
  qed
qed

section \<open>Mask and byte index are bit indexing\<close>

lemma sint_and_exp: "k < 8 \<Longrightarrow> (sint (b::u8) AND 2 ^ k = 0) = (\<not> bit b k)"
proof -
  assume k: "k < 8"
  have "(sint b AND 2 ^ k = 0) = (\<not> bit (sint b) k)"
    using bit_iff_and_push_bit_not_eq_0 [of "sint b" k] by simp
  also have "bit (sint b) k = bit b k"
    using k by (cases "k = 7") (auto simp: bit_sint_iff min_def)
  finally show ?thesis .
qed

lemma and_7: "i AND 7 = i mod (8::int)"
  using take_bit_eq_mask [of 3 i] by (simp add: take_bit_eq_mod mask_eq_exp_minus_1)

lemma div_mod_8: "i = 8 * q + r \<Longrightarrow> 0 \<le> r \<Longrightarrow> r < 8 \<Longrightarrow> i div 8 = q \<and> i mod 8 = r" for i :: int
  by simp

lemma mask_up_eq:
  assumes "0 \<le> i"
  shows "mask_up i (i div 8) (2 ^ nat (i mod 8)) = ((i + 1) div 8, 2 ^ nat ((i + 1) mod 8))"
proof (cases "i mod 8 = 7")
  case True
  then have "i + 1 = 8 * (i div 8 + 1) + 0" using mult_div_mod_eq [of 8 i] by (simp add: distrib_left)
  from div_mod_8 [OF this] have "(i + 1) mod 8 = 0" "(i + 1) div 8 = i div 8 + 1" by simp_all
  with True show ?thesis by (simp add: mask_up_def NBBY_def and_7)
next
  case False
  then have "i + 1 = 8 * (i div 8) + (i mod 8 + 1)" "0 \<le> i mod 8 + 1" "i mod 8 + 1 < 8"
    using pos_mod_sign [of 8 i] pos_mod_bound [of 8 i] mult_div_mod_eq [of 8 i] by linarith+
  from div_mod_8 [OF this] have "(i + 1) mod 8 = i mod 8 + 1" "(i + 1) div 8 = i div 8" by simp_all
  moreover have "nat (i mod 8 + 1) = Suc (nat (i mod 8))" by (simp add: nat_add_distrib)
  ultimately show ?thesis
    using False by (simp add: mask_up_def NBBY_def and_7 push_bit_eq_mult)
qed

lemma mask_down_eq:
  assumes "0 < i"
  shows "mask_down i (i div 8) (2 ^ nat (i mod 8)) = ((i - 1) div 8, 2 ^ nat ((i - 1) mod 8))"
proof (cases "i mod 8 = 0")
  case True
  then have "i - 1 = 8 * (i div 8 - 1) + 7" using mult_div_mod_eq [of 8 i] by (simp add: right_diff_distrib)
  from div_mod_8 [OF this] have "(i - 1) mod 8 = 7" "(i - 1) div 8 = i div 8 - 1" by simp_all
  with True show ?thesis by (simp add: mask_down_def NBBY_def and_7 push_bit_eq_mult)
next
  case False
  have r: "i - 1 = 8 * (i div 8) + (i mod 8 - 1)" "0 \<le> i mod 8 - 1" "i mod 8 - 1 < 8"
    using False pos_mod_sign [of 8 i] pos_mod_bound [of 8 i] mult_div_mod_eq [of 8 i] by linarith+
  have *: "(i - 1) mod 8 = i mod 8 - 1" "(i - 1) div 8 = i div 8"
    using int_mod_pos_eq [OF r] int_div_pos_eq [OF r] by simp_all
  define k where "k = nat (i mod 8 - 1)"
  have k: "nat (i mod 8) = Suc k" using False by (simp add: k_def)
  show ?thesis
    unfolding * k k_def [symmetric] using False
    by (simp add: mask_down_def NBBY_def and_7 drop_bit_eq_div)
qed

lemma rd_bit:
  assumes "0 \<le> i" "i < 8 * int (length bm)"
  shows "rd bm (i div 8) = Ret (bm ! nat (i div 8))"
    and "(sint (bm ! nat (i div 8)) AND 2 ^ nat (i mod 8) = 0) = (\<not> used bm (nat i))"
proof -
  show "rd bm (i div 8) = Ret (bm ! nat (i div 8))" using assms by (intro rd_in) auto
  have "nat (i mod 8) < 8" by simp
  then show "(sint (bm ! nat (i div 8)) AND 2 ^ nat (i mod 8) = 0) = (\<not> used bm (nat i))"
    using assms by (simp only: sint_and_exp) (simp add: used_def int_div_nat int_mod_nat)
qed

lemma clus_forw_spec:
  "0 \<le> i \<Longrightarrow> i \<le> e \<Longrightarrow> e \<le> 8 * int (length bm) \<Longrightarrow>
   \<exists>r. clus_forw bm e i (i div 8) (2 ^ nat (i mod 8)) = Ret r \<and> i \<le> r \<and> r \<le> e \<and>
     (\<forall>j. i \<le> j \<and> j < r \<longrightarrow> \<not> used bm (nat j)) \<and> (r < e \<longrightarrow> used bm (nat r))"
proof (induction "nat (e - i)" arbitrary: i)
  case 0
  then have "e = i" by simp
  then show ?case by (intro exI [of _ i]) (auto simp: clus_forw.simps [of bm i i])
next
  case (Suc n)
  then have i: "0 \<le> i" "i < e" "i < 8 * int (length bm)" by auto
  note rb = rd_bit [OF i(1,3)]
  show ?case
  proof (cases "used bm (nat i)")
    case True
    with i rb show ?thesis by (auto simp: clus_forw.simps [of bm e i])
  next
    case False
    have "n = nat (e - (i + 1))" using Suc.hyps(2) by simp
    from Suc.hyps(1) [OF this] i Suc.prems obtain r where
      r: "clus_forw bm e (i + 1) ((i + 1) div 8) (2 ^ nat ((i + 1) mod 8)) = Ret r"
        "i + 1 \<le> r" "r \<le> e" "\<forall>j. i + 1 \<le> j \<and> j < r \<longrightarrow> \<not> used bm (nat j)" "r < e \<longrightarrow> used bm (nat r)"
      by auto
    have "\<not> used bm (nat j)" if "i \<le> j" "j < r" for j
      using that r(4) False by (cases "j = i") auto
    with r False i rb show ?thesis
      by (auto simp: clus_forw.simps [of bm e i] mask_up_eq [OF i(1)])
  qed
qed

lemma clus_back_spec:
  "e \<le> i \<Longrightarrow> -1 \<le> e \<Longrightarrow> i < 8 * int (length bm) \<Longrightarrow>
   \<exists>r. clus_back bm e i (i div 8) (2 ^ nat (i mod 8)) = Ret r \<and> r \<le> i \<and> e \<le> r \<and>
     (\<forall>j. r < j \<and> j \<le> i \<longrightarrow> \<not> used bm (nat j)) \<and> (e < r \<longrightarrow> used bm (nat r))"
proof (induction "nat (i - e)" arbitrary: i)
  case 0
  then have "e = i" by simp
  then show ?case by (intro exI [of _ i]) (auto simp: clus_back.simps [of bm i i])
next
  case (Suc n)
  then have i: "0 \<le> i" "e < i" "i < 8 * int (length bm)" by auto
  note rb = rd_bit [OF i(1,3)]
  show ?case
  proof (cases "used bm (nat i)")
    case True
    with i rb show ?thesis by (auto simp: clus_back.simps [of bm e i])
  next
    case False
    show ?thesis
    proof (cases "i = 0")
      case True
      with i Suc.prems have "e = -1" by simp
      then have "clus_back bm e (i - 1) l b = Ret (i - 1)" for l b
        using True by (subst clus_back.simps) simp
      with True False i rb have "clus_back bm e i (i div 8) (2 ^ nat (i mod 8)) = Ret (i - 1)"
        by (subst clus_back.simps) (auto split: prod.splits)
      with True False \<open>e = -1\<close> show ?thesis by auto
    next
      case pos: False
      have "n = nat (i - 1 - e)" using Suc.hyps(2) by simp
      from Suc.hyps(1) [OF this] i Suc.prems obtain r where
        r: "clus_back bm e (i - 1) ((i - 1) div 8) (2 ^ nat ((i - 1) mod 8)) = Ret r"
          "r \<le> i - 1" "e \<le> r" "\<forall>j. r < j \<and> j \<le> i - 1 \<longrightarrow> \<not> used bm (nat j)" "e < r \<longrightarrow> used bm (nat r)"
        by auto
      have "\<not> used bm (nat j)" if "r < j" "j \<le> i" for j
        using that r(4) False by (cases "j = i") auto
      with r False i rb pos show ?thesis
        by (auto simp: clus_back.simps [of bm e i] mask_down_eq)
    qed
  qed
qed

section \<open>Reference: the lengths of the maximal free runs\<close>

text \<open>\<open>run_lens acc bs\<close>: the lengths of the maximal runs of clear bits, \<open>acc\<close> of them just passed.\<close>

fun run_lens :: "nat \<Rightarrow> bool list \<Rightarrow> nat list" where
  "run_lens acc [] = (if acc = 0 then [] else [acc])"
| "run_lens acc (u # bs) =
     (if u then (if acc = 0 then [] else [acc]) @ run_lens 0 bs else run_lens (Suc acc) bs)"

definition bits_of :: "bytes \<Rightarrow> nat \<Rightarrow> bool list" where
  "bits_of bm n = map (used bm) [0..<n]"

text \<open>How many runs the summary counts at size \<open>k\<close> when sizes are capped at \<open>cap\<close>.\<close>

definition run_count :: "nat \<Rightarrow> bool list \<Rightarrow> nat \<Rightarrow> int" where
  "run_count cap bs k = int (count_list (map (min cap) (run_lens 0 bs)) k)"

definition summary_ok :: "nat \<Rightarrow> bool list \<Rightarrow> int list \<Rightarrow> bool" where
  "summary_ok cap bs sump \<longleftrightarrow> length sump = Suc cap \<and> (\<forall>k. 1 \<le> k \<and> k \<le> cap \<longrightarrow> sump ! k = run_count cap bs k)"

lemma run_lens_append_used: "run_lens acc (xs @ True # ys) = run_lens acc xs @ run_lens 0 ys"
  by (induction xs arbitrary: acc) auto

lemma run_lens_free: "run_lens acc (replicate m False @ ys) = run_lens (acc + m) ys"
  by (induction m arbitrary: acc) auto

lemma run_lens_closed:
  assumes "pre = [] \<or> last pre" shows "run_lens 0 (pre @ ys) = run_lens 0 pre @ run_lens 0 ys"
proof (cases pre rule: rev_cases)
  case (snoc p u)
  with assms have u: "u" by simp
  have "run_lens 0 (p @ True # []) = run_lens 0 p @ run_lens 0 []" by (rule run_lens_append_used)
  with snoc u show ?thesis by (simp add: run_lens_append_used)
qed simp

lemma run_lens_open:
  assumes "post = [] \<or> hd post"
  shows "run_lens acc post = (if acc = 0 then [] else [acc]) @ run_lens 0 post"
  using assms by (cases post) auto

text \<open>A block inside a run, and the same block used: one run becomes the two beside it.\<close>

lemma run_lens_toggle:
  assumes "pre = [] \<or> last pre" and "post = [] \<or> hd post"
  shows "run_lens 0 (pre @ replicate b False @ False # replicate f False @ post) =
      run_lens 0 pre @ [b + f + 1] @ run_lens 0 post"
    and "run_lens 0 (pre @ replicate b False @ True # replicate f False @ post) =
      run_lens 0 pre @ (if b = 0 then [] else [b]) @ (if f = 0 then [] else [f]) @ run_lens 0 post"
proof -
  have "run_lens 0 (replicate b False @ False # replicate f False @ post) = [b + f + 1] @ run_lens 0 post"
    using run_lens_free [of 0 b "False # replicate f False @ post"] run_lens_free [of "Suc b" f post]
      run_lens_open [OF assms(2), of "Suc b + f"] by simp
  then show "run_lens 0 (pre @ replicate b False @ False # replicate f False @ post) =
      run_lens 0 pre @ [b + f + 1] @ run_lens 0 post"
    by (simp add: run_lens_closed [OF assms(1)])
  have "run_lens 0 (replicate b False @ True # replicate f False @ post) =
      (if b = 0 then [] else [b]) @ (if f = 0 then [] else [f]) @ run_lens 0 post"
    using run_lens_free [of 0 b "True # replicate f False @ post"] run_lens_free [of 0 f post]
      run_lens_open [OF assms(2), of f] by simp
  then show "run_lens 0 (pre @ replicate b False @ True # replicate f False @ post) =
      run_lens 0 pre @ (if b = 0 then [] else [b]) @ (if f = 0 then [] else [f]) @ run_lens 0 post"
    by (simp add: run_lens_closed [OF assms(1)])
qed

lemma count_list_append_single: "count_list (xs @ [x]) y = count_list xs y + (if x = y then 1 else 0)"
  by simp

lemma run_count_toggle:
  assumes "pre = [] \<or> last pre" "post = [] \<or> hd post" "1 \<le> k" "k \<le> cap"
    and "F = min cap f" "B = min cap b"
  shows "run_count cap (pre @ replicate b False @ False # replicate f False @ post) k
      + (if k = B then 1 else 0) + (if k = F then 1 else 0) =
    run_count cap (pre @ replicate b False @ True # replicate f False @ post) k
      + (if k = min cap (B + F + 1) then 1 else 0)"
proof -
  have "min cap (B + F + 1) = min cap (b + f + 1)" using assms(5,6) by auto
  moreover have "min cap b = k \<longleftrightarrow> b \<noteq> 0 \<and> k = B" "min cap f = k \<longleftrightarrow> f \<noteq> 0 \<and> k = F"
    using assms(3-6) by auto
  moreover have "\<not> (b = 0 \<and> k = B)" "\<not> (f = 0 \<and> k = F)" using assms(3-6) by auto
  ultimately show ?thesis
    unfolding run_count_def run_lens_toggle [OF assms(1,2)] by auto
qed

text \<open>Every position of a list splits it into the free bits around it and the rest.\<close>

lemma split_at:
  assumes "i < length bs"
  obtains pre b f post where "bs = pre @ replicate b False @ bs ! i # replicate f False @ post"
    "pre = [] \<or> last pre" "post = [] \<or> hd post" "length pre + b = i" "i + f + length post + 1 = length bs"
proof -
  let ?r = "drop (Suc i) bs" and ?l = "rev (take i bs)"
  define f b where "f = length (takeWhile Not ?r)" and "b = length (takeWhile Not ?l)"
  define post pre where "post = dropWhile Not ?r" and "pre = rev (dropWhile Not ?l)"
  have tw: "takeWhile Not xs = replicate (length (takeWhile Not xs)) False" for xs
    by (induction xs) auto
  have r: "?r = replicate f False @ post"
    by (metis f_def post_def takeWhile_dropWhile_id tw)
  have "?l = replicate b False @ rev pre"
    by (metis b_def pre_def rev_rev_ident takeWhile_dropWhile_id tw)
  then have l: "take i bs = pre @ replicate b False"
    by (metis rev_append rev_replicate rev_rev_ident)
  have "bs = take i bs @ bs ! i # ?r" using assms by (simp add: id_take_nth_drop)
  with r l have "bs = pre @ replicate b False @ bs ! i # replicate f False @ post" by simp
  moreover have "pre = [] \<or> last pre"
    using hd_dropWhile [of Not ?l] by (auto simp: pre_def last_rev)
  moreover have "post = [] \<or> hd post"
    using hd_dropWhile [of Not ?r] by (auto simp: post_def)
  moreover have "length pre + b = i"
    using arg_cong [OF l, of length] assms by simp
  moreover have "i + f + length post + 1 = length bs"
    using arg_cong [OF r, of length] assms by simp
  ultimately show thesis by (rule that)
qed

section \<open>The scan measures the runs beside a block\<close>

lemma clus_sizes_spec:
  assumes "1 \<le> e2fs_contigsumsize fs" "sint (e2fs_fpg (e2fs fs)) \<le> 8 * int (length bm)"
    and "0 \<le> bno" "bno < sint (e2fs_fpg (e2fs fs))" "e2fs_contigsumsize fs = int cap"
    and "sint (e2fs_fpg (e2fs fs)) = int n"
  shows "\<exists>f b. clus_sizes fs bm bno = Ret (f, b) \<and>
     0 \<le> f \<and> f \<le> int cap \<and> bno + f < int n \<and> (\<forall>j. bno < j \<and> j \<le> bno + f \<longrightarrow> \<not> used bm (nat j)) \<and>
     (f < int cap \<longrightarrow> bno + f + 1 = int n \<or> used bm (nat (bno + f + 1))) \<and>
     0 \<le> b \<and> b \<le> int cap \<and> b \<le> bno \<and> (\<forall>j. bno - b \<le> j \<and> j < bno \<longrightarrow> \<not> used bm (nat j)) \<and>
     (b < int cap \<longrightarrow> b = bno \<or> used bm (nat (bno - b - 1)))"
proof -
  have "sint (e2fs_fpg (e2fs fs)) < 2 ^ 31" using sint_less [of "e2fs_fpg (e2fs fs)"] by simp
  then have bno: "s32 bno = bno" using assms(3,4) by simp
  define e where "e = (if bno + 1 + int cap > int n then int n else bno + 1 + int cap)"
  have "0 \<le> bno + 1" "bno + 1 \<le> e" "e \<le> 8 * int (length bm)"
    using assms by (auto simp: e_def)
  from clus_forw_spec [OF this] obtain r where r:
    "clus_forw bm e (bno + 1) ((bno + 1) div 8) (2 ^ nat ((bno + 1) mod 8)) = Ret r"
    "bno + 1 \<le> r" "r \<le> e" "\<forall>j. bno + 1 \<le> j \<and> j < r \<longrightarrow> \<not> used bm (nat j)" "r < e \<longrightarrow> used bm (nat r)"
    by blast
  define e' where "e' = (if bno - 1 - int cap < 0 then -1 else bno - 1 - int cap)"
  have q: "\<exists>q. clus_back bm e' (bno - 1) ((bno - 1) sdiv NBBY) (push_bit (nat ((bno - 1) smod NBBY)) 1) = Ret q \<and>
     q \<le> bno - 1 \<and> e' \<le> q \<and> (\<forall>j. q < j \<and> j \<le> bno - 1 \<longrightarrow> \<not> used bm (nat j)) \<and> (e' < q \<longrightarrow> used bm (nat q))"
  proof (cases "bno = 0")
    case True
    then have "e' = -1" using assms(1,5) by (simp add: e'_def)
    with True show ?thesis by (subst clus_back.simps) auto
  next
    case False
    have "e' \<le> bno - 1" "-1 \<le> e'" "bno - 1 < 8 * int (length bm)"
      using assms False by (auto simp: e'_def)
    from clus_back_spec [OF this] show ?thesis
      using False assms(3) by (simp add: NBBY_def geom_simps)
  qed
  then obtain q where q: "clus_back bm e' (bno - 1) ((bno - 1) sdiv NBBY)
      (push_bit (nat ((bno - 1) smod NBBY)) 1) = Ret q"
     "q \<le> bno - 1" "e' \<le> q" "\<forall>j. q < j \<and> j \<le> bno - 1 \<longrightarrow> \<not> used bm (nat j)" "e' < q \<longrightarrow> used bm (nat q)"
    by blast
  have "clus_sizes fs bm bno = Ret (r - (bno + 1), bno - 1 - q)"
    using r(1) q(1) assms bno
    by (simp add: clus_sizes_def Let_def e_def e'_def NBBY_def geom_simps)
  moreover have "r - (bno + 1) \<le> int cap" "bno + (r - (bno + 1)) < int n"
    using r(2,3) by (auto simp: e_def split: if_splits)
  moreover have "bno + (r - (bno + 1)) + 1 = int n \<or> used bm (nat (bno + (r - (bno + 1)) + 1))"
    if "r - (bno + 1) < int cap"
    using r(2,3,5) that assms(4,6) by (auto simp: e_def split: if_splits)
  moreover have "bno - 1 - q \<le> int cap" "bno - 1 - q \<le> bno"
    using q(2,3) by (auto simp: e'_def split: if_splits)
  moreover have "bno - 1 - q = bno \<or> used bm (nat (bno - (bno - 1 - q) - 1))"
    if "bno - 1 - q < int cap"
    using q(2,3,5) that by (auto simp: e'_def split: if_splits)
  ultimately show ?thesis
    using r(2,4) q(2,4) by (intro exI [of _ "r - (bno + 1)"] exI [of _ "bno - 1 - q"]) auto
qed

lemma split_nth:
  assumes "bs = pre @ replicate b False @ u # replicate f False @ post"
    and "pre = [] \<or> last pre" "post = [] \<or> hd post" "length pre + b = i"
  shows "k < f \<Longrightarrow> \<not> bs ! (i + 1 + k)" and "post \<noteq> [] \<Longrightarrow> bs ! (i + 1 + f)"
    and "k < b \<Longrightarrow> \<not> bs ! (i - 1 - k)" and "pre \<noteq> [] \<Longrightarrow> bs ! (i - b - 1)"
proof -
  have bs: "bs = (pre @ replicate b False @ [u]) @ (replicate f False @ post)" using assms(1) by simp
  have len: "length (pre @ replicate b False @ [u]) = i + 1" using assms(4) by simp
  show "\<not> bs ! (i + 1 + k)" if "k < f"
    unfolding bs using that len by (simp add: nth_append)
  show "bs ! (i + 1 + f)" if "post \<noteq> []"
    unfolding bs using that len assms(3) by (simp add: nth_append hd_conv_nth)
  show "\<not> bs ! (i - 1 - k)" if "k < b"
    unfolding assms(1) using that assms(4) by (simp add: nth_append) linarith
  show "bs ! (i - b - 1)" if "pre \<noteq> []"
    unfolding assms(1) using that assms(2,4) by (auto simp: nth_append last_conv_nth)
qed

text \<open>The measured sizes are the lengths of the runs beside the block, capped.\<close>

lemma clus_sizes_runs:
  assumes "1 \<le> cap" "n \<le> 8 * length bm" "i < n" "e2fs_contigsumsize fs = int cap"
    and "sint (e2fs_fpg (e2fs fs)) = int n"
    and bs: "bits_of bm n = pre @ replicate b False @ u # replicate f False @ post"
    and ends: "pre = [] \<or> last pre" "post = [] \<or> hd post" "length pre + b = i" "i + f + length post + 1 = n"
  shows "clus_sizes fs bm (int i) = Ret (int (min cap f), int (min cap b))"
proof -
  have cap1: "1 \<le> e2fs_contigsumsize fs" and fpg: "sint (e2fs_fpg (e2fs fs)) \<le> 8 * int (length bm)"
    and i: "int i < sint (e2fs_fpg (e2fs fs))"
    using assms(1-5) by auto
  from clus_sizes_spec [OF cap1 fpg _ i assms(4,5)] obtain fw bw where
    s: "clus_sizes fs bm (int i) = Ret (fw, bw)" and
    f: "0 \<le> fw" "fw \<le> int cap" "int i + fw < int n" "\<forall>j. int i < j \<and> j \<le> int i + fw \<longrightarrow> \<not> used bm (nat j)"
     "fw < int cap \<longrightarrow> int i + fw + 1 = int n \<or> used bm (nat (int i + fw + 1))" and
    b: "0 \<le> bw" "bw \<le> int cap" "bw \<le> int i" "\<forall>j. int i - bw \<le> j \<and> j < int i \<longrightarrow> \<not> used bm (nat j)"
     "bw < int cap \<longrightarrow> bw = int i \<or> used bm (nat (int i - bw - 1))" by auto
  have nth: "used bm j = bits_of bm n ! j" if "j < n" for j using that by (simp add: bits_of_def)
  note sn = split_nth [OF bs ends(1-3)]
  have "fw = int (min cap f)"
  proof (rule ccontr)
    assume ne: "fw \<noteq> int (min cap f)"
    consider "fw < int (min cap f)" | "int f < fw" using ne f(2) by fastforce
    then show False
    proof cases
      case 1
      have "\<not> used bm (i + 1 + nat fw)"
        using sn(1) [of "nat fw"] nth [of "i + 1 + nat fw"] 1 f(1) ends(4) by auto
      moreover have "nat (int i + fw + 1) = i + 1 + nat fw" using f(1) by simp
      ultimately show False using f(5) 1 ends(4) by auto
    next
      case 2
      with f(3) ends(4) have "post \<noteq> []" by auto
      with sn(2) nth [of "i + 1 + f"] 2 f(3) have "used bm (i + 1 + f)" by auto
      moreover have "nat (int i + 1 + int f) = i + 1 + f" by simp
      ultimately show False using f(4) [rule_format, of "int i + 1 + int f"] 2 by simp
    qed
  qed
  moreover have "bw = int (min cap b)"
  proof (rule ccontr)
    assume ne: "bw \<noteq> int (min cap b)"
    consider "bw < int (min cap b)" | "int b < bw" using ne b(2) by fastforce
    then show False
    proof cases
      case 1
      have "\<not> used bm (i - 1 - nat bw)"
        using sn(3) [of "nat bw"] nth [of "i - 1 - nat bw"] 1 b(1) assms(3) by auto
      moreover have "nat (int i - bw - 1) = i - 1 - nat bw" using b(1) by simp
      moreover have "bw \<noteq> int i" using 1 ends(3) by auto
      ultimately show False using b(5) 1 by auto
    next
      case 2
      with b(3) ends(3) have "pre \<noteq> []" by auto
      with sn(4) nth [of "i - b - 1"] assms(3) have "used bm (i - b - 1)" by auto
      moreover have "nat (int i - int b - 1) = i - b - 1" by simp
      ultimately show False using b(4) [rule_format, of "int i - int b - 1"] 2 by simp
    qed
  qed
  ultimately show ?thesis using s by simp
qed

section \<open>The counts are kept\<close>

lemma sum_add_Ret [simp]:
  "sum_add sump i c = Ret s \<longleftrightarrow> 0 \<le> i \<and> i < int (length sump) \<and> s = sump[nat i := sump ! nat i + c]"
  by (auto simp: sum_add_def)

lemma clus_max_spec:
  "0 \<le> i \<Longrightarrow> i < int (length sump) \<Longrightarrow>
   \<exists>r. clus_max sump i = Ret r \<and> 0 \<le> r \<and> r \<le> i \<and> (\<forall>k. r < k \<and> k \<le> i \<longrightarrow> sump ! nat k \<le> 0) \<and>
     (0 < r \<longrightarrow> 0 < sump ! nat r)"
proof (induction "nat i" arbitrary: i)
  case 0
  then have "i = 0" by simp
  then show ?case by (intro exI [of _ 0]) (auto simp: clus_max.simps [of sump 0])
next
  case (Suc m)
  then have i: "0 < i" "m = nat (i - 1)" by auto
  show ?case
  proof (cases "0 < sump ! nat i")
    case True
    with i Suc.prems show ?thesis by (auto simp: clus_max.simps [of sump i])
  next
    case False
    from Suc.hyps(1) [OF i(2)] i Suc.prems obtain r where
      r: "clus_max sump (i - 1) = Ret r" "0 \<le> r" "r \<le> i - 1"
        "\<forall>k. r < k \<and> k \<le> i - 1 \<longrightarrow> sump ! nat k \<le> 0" "0 < r \<longrightarrow> 0 < sump ! nat r"
      by auto
    have "sump ! nat k \<le> 0" if "r < k" "k \<le> i" for k
      using that r(4) False by (cases "k = i") auto
    with r False i Suc.prems show ?thesis by (auto simp: clus_max.simps [of sump i])
  qed
qed

lemma clus_counts_spec:
  assumes "length sump = Suc cap" "1 \<le> cap" "f \<le> cap" "b \<le> cap"
  shows "\<exists>s mx. clus_counts (int cap) (int f) (int b) cnt sump = Ret (s, mx) \<and> length s = Suc cap \<and>
     (\<forall>k\<le>cap. 1 \<le> k \<longrightarrow> s ! k = sump ! k + (if k = min cap (b + f + 1) then cnt else 0)
        - (if k = b then cnt else 0) - (if k = f then cnt else 0)) \<and>
     0 \<le> mx \<and> mx \<le> int cap \<and> (\<forall>k. mx < int k \<and> k \<le> cap \<longrightarrow> s ! k \<le> 0) \<and> (0 < mx \<longrightarrow> 0 < s ! nat mx)"
proof -
  define i where "i = min cap (b + f + 1)"
  define s1 where "s1 = sump[i := sump ! i + cnt]"
  define s2 where "s2 = (if 0 < b then s1[b := s1 ! b - cnt] else s1)"
  define s3 where "s3 = (if 0 < f then s2[f := s2 ! f - cnt] else s2)"
  have len: "length s1 = Suc cap" "length s2 = Suc cap" "length s3 = Suc cap"
    using assms(1) by (simp_all add: s1_def s2_def s3_def)
  have "0 \<le> int cap" "int cap < int (length s3)" using len by simp_all
  from clus_max_spec [OF this] obtain r where r: "clus_max s3 (int cap) = Ret r" "0 \<le> r" "r \<le> int cap"
    "\<forall>k. r < k \<and> k \<le> int cap \<longrightarrow> s3 ! nat k \<le> 0" "0 < r \<longrightarrow> 0 < s3 ! nat r" by blast
  have i_eq: "(if int b + int f + 1 > int cap then int cap else int b + int f + 1) = int i"
    by (simp add: i_def)
  have a1: "sum_add sump (int i) cnt = Ret s1" using assms by (simp add: s1_def i_def)
  have a2: "(if int b > 0 then sum_add s1 (int b) (- cnt) else Ret s1) = Ret s2"
    using len assms by (simp add: s2_def)
  have a3: "(if int f > 0 then sum_add s2 (int f) (- cnt) else Ret s2) = Ret s3"
    using len assms by (simp add: s3_def)
  have "clus_counts (int cap) (int f) (int b) cnt sump = Ret (s3, r)"
    by (simp only: clus_counts_def Let_def i_eq a1 a2 a3 r(1) bnd.simps)
  moreover have "s3 ! k = sump ! k + (if k = i then cnt else 0) - (if k = b then cnt else 0)
      - (if k = f then cnt else 0)" if "k \<le> cap" "1 \<le> k" for k
    using that len assms by (auto simp: s3_def s2_def s1_def nth_list_update)
  moreover have "s3 ! k \<le> 0" if "r < int k" "k \<le> cap" for k
    using r(4) [rule_format, of "int k"] that by simp
  ultimately show ?thesis using len(3) r(2,3,5) by (auto simp: i_def)
qed

text \<open>
  Accounting for one block of an initialised group: if the counts describe the bitmap before
  the change, they describe it afterwards. \<open>u\<close> is the state the block leaves.
\<close>

lemma bits_of_update:
  assumes "\<And>j. j < n \<Longrightarrow> j \<noteq> i \<Longrightarrow> used bm' j = used bm j"
    and "bits_of bm n = xs @ u # ys" "length xs = i" "i < n"
  shows "bits_of bm' n = xs @ used bm' i # ys"
proof (rule nth_equalityI)
  have len: "length (xs @ u # ys) = n" using assms(2) by (metis bits_of_def length_map length_upt minus_nat.diff_0)
  then show "length (bits_of bm' n) = length (xs @ used bm' i # ys)" by (simp add: bits_of_def)
  fix j assume "j < length (bits_of bm' n)"
  then have j: "j < n" by (simp add: bits_of_def)
  have "(xs @ u # ys) ! j = used bm j" using assms(2) j by (metis bits_of_def add_0 nth_map_upt minus_nat.diff_0)
  then show "bits_of bm' n ! j = (xs @ used bm' i # ys) ! j"
    using assms(1) [OF j] assms(3) j by (cases "j = i") (auto simp: bits_of_def nth_append nth_Cons')
qed

lemma summary_update:
  assumes geo: "1 \<le> cap" "n \<le> 8 * length bm'" "i < n" "e2fs_contigsumsize fs = int cap"
      "sint (e2fs_fpg (e2fs fs)) = int n"
    and upd: "\<And>j. j < n \<Longrightarrow> j \<noteq> i \<Longrightarrow> used bm' j = used bm j" "used bm' i = (\<not> used bm i)"
    and ok: "summary_ok cap (bits_of bm n) sump"
  shows "\<exists>f b s mx. clus_sizes fs bm' (int i) = Ret (f, b) \<and>
     clus_counts (int cap) f b (if used bm' i then - 1 else 1) sump = Ret (s, mx) \<and>
     summary_ok cap (bits_of bm' n) s \<and>
     0 \<le> mx \<and> mx \<le> int cap \<and> (\<forall>k. mx < int k \<and> k \<le> cap \<longrightarrow> run_count cap (bits_of bm' n) k = 0)"
proof -
  have len: "length (bits_of bm n) = n" and bi: "bits_of bm n ! i = used bm i"
    using geo(3) by (simp_all add: bits_of_def)
  obtain pre b f post where bs: "bits_of bm n = pre @ replicate b False @ used bm i # replicate f False @ post"
    and ends: "pre = [] \<or> last pre" "post = [] \<or> hd post" "length pre + b = i" "i + f + length post + 1 = n"
    by (rule split_at [of i "bits_of bm n", unfolded len bi]) (use geo(3) in blast)+
  have bs': "bits_of bm' n = pre @ replicate b False @ used bm' i # replicate f False @ post"
    using bits_of_update [where xs = "pre @ replicate b False" and bm = bm and bm' = bm' and i = i and n = n]
      upd(1) bs ends(3) geo(3) by simp
  define F B where "F = min cap f" and "B = min cap b"
  have sz: "clus_sizes fs bm' (int i) = Ret (int F, int B)"
    unfolding F_def B_def by (rule clus_sizes_runs [OF geo bs' ends])
  let ?c = "if used bm' i then - 1 else 1 :: int"
  have "length sump = Suc cap" using ok by (simp add: summary_ok_def)
  from clus_counts_spec [OF this geo(1), of F B ?c] obtain s mx where
    c: "clus_counts (int cap) (int F) (int B) ?c sump = Ret (s, mx)" "length s = Suc cap"
    "\<forall>k\<le>cap. 1 \<le> k \<longrightarrow> s ! k = sump ! k + (if k = min cap (B + F + 1) then ?c else 0)
        - (if k = B then ?c else 0) - (if k = F then ?c else 0)"
    "0 \<le> mx" "mx \<le> int cap" "\<forall>k. mx < int k \<and> k \<le> cap \<longrightarrow> s ! k \<le> 0"
    by (auto simp: F_def B_def)
  have cnt: "s ! k = run_count cap (bits_of bm' n) k" if k: "1 \<le> k" "k \<le> cap" for k
  proof -
    note t = run_count_toggle [OF ends(1,2) k F_def B_def]
    have "sump ! k = run_count cap (bits_of bm n) k" using ok k by (simp add: summary_ok_def)
    moreover define m where "m = min cap (B + F + 1)"
    moreover have "s ! k = sump ! k + (if k = m then ?c else 0) - (if k = B then ?c else 0) - (if k = F then ?c else 0)"
      unfolding m_def by (rule c(3) [rule_format, OF k(2,1)])
    ultimately show ?thesis
      using t unfolding bs bs' m_def [symmetric] upd(2) by (cases "used bm i"; simp split: if_splits)
  qed
  have "run_count cap (bits_of bm' n) k = 0" if "mx < int k" "k \<le> cap" for k
    using c(4,6) that cnt [of k] by (auto simp: run_count_def)
  with sz c cnt show ?thesis by (auto simp: summary_ok_def)
qed

section \<open>The first pass counts the runs\<close>

lemma drop_bits: "i < n \<Longrightarrow> drop i (bits_of bm n) = used bm i # drop (Suc i) (bits_of bm n)"
  by (subst Cons_nth_drop_Suc [symmetric]) (simp_all add: bits_of_def)

lemma clus_init_spec:
  "length sump = Suc cap \<Longrightarrow> 1 \<le> cap \<Longrightarrow> i \<le> n \<Longrightarrow> n \<le> 8 * length bm \<Longrightarrow>
   \<exists>run' s. clus_init bm (int n) (int cap) (int i) (int i div 8) (2 ^ nat (int i mod 8)) (int run) sump
       = Ret (int run', s) \<and> length s = Suc cap \<and>
     (\<forall>k. 1 \<le> k \<and> k \<le> cap \<longrightarrow> s ! k + (if run' \<noteq> 0 \<and> min cap run' = k then 1 else 0) =
        sump ! k + int (count_list (map (min cap) (run_lens run (drop i (bits_of bm n)))) k))"
proof (induction "n - i" arbitrary: i run sump)
  case 0
  then have "i = n" by simp
  with 0 show ?case
    by (intro exI [of _ run] exI [of _ sump]) (auto simp: clus_init.simps bits_of_def)
next
  case (Suc m)
  then have i: "i < n" "m = n - Suc i" "Suc i \<le> n" by auto
  have "0 \<le> int i" "int i < 8 * int (length bm)" using i Suc.prems by auto
  note rb = rd_bit [OF this]
  note up = mask_up_eq [of "int i"]
  let ?next = "\<lambda>r s. clus_init bm (int n) (int cap) (int i + 1) ((int i + 1) div 8)
     (2 ^ nat ((int i + 1) mod 8)) r s"
  note IH = Suc.hyps(1) [OF i(2) _ Suc.prems(2) i(3) Suc.prems(4)]
  show ?case
  proof (cases "used bm i")
    case False
    from IH [OF Suc.prems(1), of "Suc run"] obtain run' s where IH':
      "?next (int run + 1) sump = Ret (int run', s)" "length s = Suc cap"
      "\<forall>k. 1 \<le> k \<and> k \<le> cap \<longrightarrow> s ! k + (if run' \<noteq> 0 \<and> min cap run' = k then 1 else 0) =
        sump ! k + int (count_list (map (min cap) (run_lens (Suc run) (drop (Suc i) (bits_of bm n)))) k)"
      by (auto simp: add.commute)
    have "clus_init bm (int n) (int cap) (int i) (int i div 8) (2 ^ nat (int i mod 8)) (int run) sump
        = ?next (int run + 1) sump"
      using i False by (subst clus_init.simps) (simp add: rb up)
    with IH' False show ?thesis by (auto simp: drop_bits [OF i(1)])
  next
    case True
    show ?thesis
    proof (cases "run = 0")
      case r0: True
      from IH [OF Suc.prems(1), of 0] obtain run' s where IH':
        "?next 0 sump = Ret (int run', s)" "length s = Suc cap"
        "\<forall>k. 1 \<le> k \<and> k \<le> cap \<longrightarrow> s ! k + (if run' \<noteq> 0 \<and> min cap run' = k then 1 else 0) =
          sump ! k + int (count_list (map (min cap) (run_lens 0 (drop (Suc i) (bits_of bm n)))) k)"
        by (auto simp: add.commute)
      have "clus_init bm (int n) (int cap) (int i) (int i div 8) (2 ^ nat (int i mod 8)) (int run) sump
          = ?next 0 sump"
        using i True r0 by (subst clus_init.simps) (simp add: rb up)
      with IH' True r0 show ?thesis by (auto simp: drop_bits [OF i(1)])
    next
      case r0: False
      define c where "c = min cap run"
      define sump' where "sump' = sump[c := sump ! c + 1]"
      have len: "length sump' = Suc cap" using Suc.prems(1) by (simp add: sump'_def)
      from IH [OF len, of 0] obtain run' s where IH':
        "?next 0 sump' = Ret (int run', s)" "length s = Suc cap"
        "\<forall>k. 1 \<le> k \<and> k \<le> cap \<longrightarrow> s ! k + (if run' \<noteq> 0 \<and> min cap run' = k then 1 else 0) =
          sump' ! k + int (count_list (map (min cap) (run_lens 0 (drop (Suc i) (bits_of bm n)))) k)"
        by (auto simp: add.commute)
      have c: "(if int run > int cap then int cap else int run) = int c" by (simp add: c_def)
      have sa: "sum_add sump (int c) 1 = Ret sump'" using Suc.prems(1) by (simp add: sump'_def c_def)
      have "clus_init bm (int n) (int cap) (int i) (int i div 8) (2 ^ nat (int i mod 8)) (int run) sump
          = ?next 0 sump'"
        using i True r0 by (subst clus_init.simps) (simp only: c Let_def, simp add: rb up sa)
      moreover have "sump' ! k = sump ! k + (if min cap run = k then 1 else 0)" if "k \<le> cap" for k
        using that Suc.prems(1) by (auto simp: sump'_def c_def nth_list_update)
      ultimately show ?thesis
        using IH' True r0 by (auto simp: drop_bits [OF i(1)])
    qed
  qed
qed

lemma clus_sum_init_spec:
  assumes "cs_init cs = 0" "cs_sum cs = replicate (Suc cap) 0" "1 \<le> cap" "n \<le> 8 * length bm"
    and "e2fs_contigsumsize fs = int cap" "sint (e2fs_fpg (e2fs fs)) = int n"
  shows "\<exists>s. clus_sum_init fs bm cs = Ret (cs\<lparr>cs_sum := s, cs_init := 1\<rparr>) \<and> summary_ok cap (bits_of bm n) s"
proof -
  obtain run s where i: "clus_init bm (int n) (int cap) 0 0 1 0 (replicate (Suc cap) 0) = Ret (int run, s)"
    "length s = Suc cap"
    "\<forall>k. 1 \<le> k \<and> k \<le> cap \<longrightarrow> s ! k + (if run \<noteq> 0 \<and> min cap run = k then 1 else 0) = run_count cap (bits_of bm n) k"
    using clus_init_spec [of "replicate (Suc cap) 0" cap 0 n bm 0] assms(3,4)
    by (auto simp: run_count_def simp del: replicate_Suc)
  define s' where "s' = (if run \<noteq> 0 then s[min cap run := s ! min cap run + 1] else s)"
  have c: "(if int run > int cap then int cap else int run) = int (min cap run)" by simp
  have "clus_sum_init fs bm cs = Ret (cs\<lparr>cs_sum := s', cs_init := 1\<rparr>)"
    using assms i(1,2) unfolding clus_sum_init_def c
    by (simp add: s'_def del: replicate_Suc)
  moreover have "s' ! k = run_count cap (bits_of bm n) k" if "1 \<le> k" "k \<le> cap" for k
    using that i(2,3) by (auto simp: s'_def nth_list_update)
  ultimately show ?thesis using i(2) by (auto simp: summary_ok_def s'_def)
qed

section \<open>The routine never faults on a mounted volume\<close>

text \<open>The shape \<^verbatim>\<open>ext2_mountfs\<close> gives the cluster tables.\<close>

definition clus_ok :: "m_ext2fs \<Rightarrow> bool" where
  "clus_ok fs \<longleftrightarrow> 1 \<le> e2fs_contigsumsize fs \<and>
     length (e2fs_clustersum fs) = length (e2fs_gd fs) \<and> length (e2fs_maxcluster fs) = length (e2fs_gd fs) \<and>
     (\<forall>cs \<in> set (e2fs_clustersum fs). length (cs_sum cs) = Suc (nat (e2fs_contigsumsize fs)))"

lemma clus_sum_init_len:
  assumes "1 \<le> cap" "n \<le> 8 * length bm" "e2fs_contigsumsize fs = int cap"
    and "sint (e2fs_fpg (e2fs fs)) = int n" "length (cs_sum cs) = Suc cap"
  shows "\<exists>cs'. clus_sum_init fs bm cs = Ret cs' \<and> length (cs_sum cs') = Suc cap"
proof (cases "cs_init cs = 0")
  case True
  obtain run s where i: "clus_init bm (int n) (int cap) 0 0 1 0 (cs_sum cs) = Ret (int run, s)"
    "length s = Suc cap"
    using clus_init_spec [of "cs_sum cs" cap 0 n bm 0] assms by auto
  have c: "(if int run > int cap then int cap else int run) = int (min cap run)" by simp
  define s' where "s' = (if run \<noteq> 0 then s[min cap run := s ! min cap run + 1] else s)"
  have "clus_sum_init fs bm cs = Ret (cs\<lparr>cs_sum := s', cs_init := 1\<rparr>)"
    using i True c by (simp add: clus_sum_init_def assms(3,4) s'_def)
  then show ?thesis using i(2) by (simp add: s'_def)
next
  case False
  then show ?thesis using assms(5) by (simp add: clus_sum_init_def)
qed

lemma ext2_clusteracct_safe:
  assumes ok: "clus_ok fs" and cg: "0 \<le> cg" "cg < int (length (e2fs_gd fs))"
    and n: "sint (e2fs_fpg (e2fs fs)) = int n" "n \<le> 8 * length bm" and bno: "0 \<le> bno" "bno < int n"
  shows "\<exists>fs'. ext2_clusteracct fs bm cg bno cnt = Ret fs' \<and> clus_ok fs'"
proof -
  define cap where "cap = nat (e2fs_contigsumsize fs)"
  define cs where "cs = e2fs_clustersum fs ! nat cg"
  have cap: "1 \<le> cap" "e2fs_contigsumsize fs = int cap" using ok by (auto simp: clus_ok_def cap_def)
  have rd: "rd (e2fs_clustersum fs) cg = Ret cs" using ok cg by (simp add: clus_ok_def cs_def)
  have "length (cs_sum cs) = Suc cap" using ok cg by (auto simp: clus_ok_def cs_def cap_def)
  from clus_sum_init_len [OF cap(1) n(2) cap(2) n(1) this] obtain cs' where
    cs': "clus_sum_init fs bm cs = Ret cs'" "length (cs_sum cs') = Suc cap" by blast
  have "1 \<le> e2fs_contigsumsize fs" "sint (e2fs_fpg (e2fs fs)) \<le> 8 * int (length bm)"
    "bno < sint (e2fs_fpg (e2fs fs))" using cap n bno by auto
  from clus_sizes_spec [OF this(1,2) bno(1) this(3) cap(2) n(1)] obtain f b where
    fb: "clus_sizes fs bm bno = Ret (int f, int b)" "f \<le> cap" "b \<le> cap"
    by (metis nonneg_int_cases of_nat_le_iff)
  from clus_counts_spec [OF cs'(2) cap(1) fb(2,3)] obtain s mx where
    c: "clus_counts (int cap) (int f) (int b) cnt (cs_sum cs') = Ret (s, mx)" "length s = Suc cap" by blast
  define fs1 where "fs1 = fs\<lparr>e2fs_clustersum := (e2fs_clustersum fs)[nat cg := cs'\<lparr>cs_sum := s\<rparr>]\<rparr>"
  have put: "clus_put fs cg (cs'\<lparr>cs_sum := s\<rparr>) = Ret fs1" using ok cg by (simp add: clus_ok_def fs1_def)
  have wr: "wr (e2fs_maxcluster fs1) cg mx = Ret ((e2fs_maxcluster fs)[nat cg := mx])"
    using ok cg by (simp add: clus_ok_def fs1_def)
  have "\<not> e2fs_contigsumsize fs \<le> 0" using cap by simp
  then have "ext2_clusteracct fs bm cg bno cnt =
     Ret (fs1\<lparr>e2fs_maxcluster := (e2fs_maxcluster fs)[nat cg := mx]\<rparr>)"
    by (simp add: ext2_clusteracct_def rd cs' fb c put wr cap(2) del: rd_Ret clus_put_Ret wr_Ret)
  moreover have "clus_ok (fs1\<lparr>e2fs_maxcluster := (e2fs_maxcluster fs)[nat cg := mx]\<rparr>)"
    using ok c(2) unfolding clus_ok_def fs1_def cap_def
    by (auto dest!: set_update_subset_insert [THEN subsetD])
  ultimately show ?thesis by blast
qed

section \<open>Properties\<close>

text \<open>C16. Once a group's summary is initialised and describes its bitmap, accounting for one block
  whose bit has just been flipped (allocated with count -1, freed with count 1) succeeds, and
  the summary then describes the new bitmap: entry \<open>k\<close> is the number of maximal free runs of
  length \<open>k\<close>, runs longer than the table counted at its last entry. The cached maximum is an
  upper bound for the runs that exist.
\<close>

theorem clusteracct_keeps_summary:
  assumes "clus_ok fs" and cg: "0 \<le> cg" "cg < int (length (e2fs_gd fs))"
    and "e2fs_contigsumsize fs = int cap" "sint (e2fs_fpg (e2fs fs)) = int n" "n \<le> 8 * length bm'" "i < n"
    and "cs_init (e2fs_clustersum fs ! nat cg) \<noteq> 0"
    and "summary_ok cap (bits_of bm n) (cs_sum (e2fs_clustersum fs ! nat cg))"
    and "\<And>j. j < n \<Longrightarrow> j \<noteq> i \<Longrightarrow> used bm' j = used bm j" "used bm' i = (\<not> used bm i)"
  shows "\<exists>fs'. ext2_clusteracct fs bm' cg (int i) (if used bm' i then - 1 else 1) = Ret fs' \<and>
     summary_ok cap (bits_of bm' n) (cs_sum (e2fs_clustersum fs' ! nat cg)) \<and>
     (\<forall>k. e2fs_maxcluster fs' ! nat cg < int k \<and> k \<le> cap \<longrightarrow> run_count cap (bits_of bm' n) k = 0)"
proof -
  define cs where "cs = e2fs_clustersum fs ! nat cg"
  have cap: "1 \<le> cap" and rd: "rd (e2fs_clustersum fs) cg = Ret cs" and len: "cg < int (length (e2fs_maxcluster fs))"
    using assms(1-4) by (auto simp: clus_ok_def cs_def)
  from summary_update [OF cap assms(6,7,4,5,10,11) assms(9) [folded cs_def]] obtain f b s mx where
    u: "clus_sizes fs bm' (int i) = Ret (f, b)"
      "clus_counts (int cap) f b (if used bm' i then - 1 else 1) (cs_sum cs) = Ret (s, mx)"
      "summary_ok cap (bits_of bm' n) s"
      "\<forall>k. mx < int k \<and> k \<le> cap \<longrightarrow> run_count cap (bits_of bm' n) k = 0"
    by blast
  define fs1 where "fs1 = fs\<lparr>e2fs_clustersum := (e2fs_clustersum fs)[nat cg := cs\<lparr>cs_sum := s\<rparr>]\<rparr>"
  have put: "clus_put fs cg (cs\<lparr>cs_sum := s\<rparr>) = Ret fs1"
    using assms(1) cg by (simp add: clus_ok_def fs1_def)
  have wr: "wr (e2fs_maxcluster fs1) cg mx = Ret ((e2fs_maxcluster fs)[nat cg := mx])"
    using len cg by (simp add: fs1_def)
  have init: "clus_sum_init fs bm' cs = Ret cs" using assms(8) by (simp add: clus_sum_init_def cs_def)
  have "\<not> e2fs_contigsumsize fs \<le> 0" using cap assms(4) by simp
  then have "ext2_clusteracct fs bm' cg (int i) (if used bm' i then - 1 else 1) =
     Ret (fs1\<lparr>e2fs_maxcluster := (e2fs_maxcluster fs)[nat cg := mx]\<rparr>)"
    by (simp only: ext2_clusteracct_def rd init u(1,2) put wr assms(4) bnd.simps if_False prod.case)
  then show ?thesis
    using u(3,4) assms(1) cg len by (auto simp: fs1_def clus_ok_def)
qed

text \<open>A volume of one group of eight blocks, the last of them free and nothing else.\<close>

definition demo_fs :: m_ext2fs where
  "demo_fs = zero_fs\<lparr>e2fs := zero_sb\<lparr>e2fs_fpg := 8\<rparr>, e2fs_contigsumsize := 4, e2fs_gd := [zero_gd],
     e2fs_maxcluster := [4], e2fs_clustersum := [\<lparr>cs_init = 1, cs_sum = [0, 1, 0, 0, 0]\<rparr>]\<rparr>"

lemmas demo_simps = demo_fs_def zero_fs_def zero_sb_def zero_gd_def

lemma demo_flip: "j < 8 \<Longrightarrow> j \<noteq> 7 \<Longrightarrow> used [0xff] j = used [0x7f] j"
proof -
  have "\<forall>j\<in>set [0..<8]. j \<noteq> 7 \<longrightarrow> used [0xff] j = used [0x7f] j" by code_simp
  then show "j < 8 \<Longrightarrow> j \<noteq> 7 \<Longrightarrow> used [0xff] j = used [0x7f] j" by simp
qed

lemma summary_ok_iff [code]:
  "summary_ok cap bs sump \<longleftrightarrow> length sump = Suc cap \<and> (\<forall>k \<in> set [1..<Suc cap]. sump ! k = run_count cap bs k)"
  by (auto simp: summary_ok_def)

theorem clusteracct_keeps_summary_witness:
  "\<exists>fs'. ext2_clusteracct demo_fs [0xff] 0 7 (- 1) = Ret fs' \<and>
     summary_ok 4 (bits_of [0xff] 8) (cs_sum (e2fs_clustersum fs' ! 0)) \<and>
     (\<forall>k. e2fs_maxcluster fs' ! 0 < int k \<and> k \<le> 4 \<longrightarrow> run_count 4 (bits_of [0xff] 8) k = 0)"
proof -
  have ok: "clus_ok demo_fs" by (simp add: clus_ok_def demo_simps)
  have sum: "summary_ok 4 (bits_of [0x7f] 8) (cs_sum (e2fs_clustersum demo_fs ! nat 0))"
    by (simp add: demo_simps) code_simp
  have u: "used [0xff] 7" "used [0xff] 7 = (\<not> used [0x7f] 7)" by code_simp+
  show ?thesis
    using clusteracct_keeps_summary [OF ok _ _ _ _ _ _ _ sum demo_flip u(2)] u(1)
    by (simp add: demo_simps)
qed

text \<open>The first pass over a group counts the runs: with the zeroed table of \<^verbatim>\<open>ext2_mountfs\<close> it
  succeeds and leaves an initialised summary that describes the bitmap it read.
\<close>

theorem clus_sum_init_counts_runs:
  assumes "cs_init cs = 0" "cs_sum cs = replicate (Suc cap) 0" "1 \<le> cap" "n \<le> 8 * length bm"
    and "e2fs_contigsumsize fs = int cap" "sint (e2fs_fpg (e2fs fs)) = int n"
  shows "\<exists>cs'. clus_sum_init fs bm cs = Ret cs' \<and> cs_init cs' = 1 \<and> summary_ok cap (bits_of bm n) (cs_sum cs')"
  using clus_sum_init_spec [OF assms] by fastforce

theorem clus_sum_init_counts_runs_witness:
  "\<exists>cs'. clus_sum_init demo_fs [0x7f] \<lparr>cs_init = 0, cs_sum = [0, 0, 0, 0, 0]\<rparr> = Ret cs' \<and>
     cs_init cs' = 1 \<and> summary_ok 4 (bits_of [0x7f] 8) (cs_sum cs')"
  by (rule clus_sum_init_counts_runs) (simp_all add: demo_simps numeral_eq_Suc)

text \<open>But the first pass of a group runs inside the accounting of its first change, on the bitmap
  that already has the change, and the change is then accounted for again. The summary that
  results does not describe the bitmap: here the first allocation in an empty group of eight
  blocks leaves a count of minus one.
\<close>

theorem clusteracct_first_use_wrong:
  "\<exists>fs fs'. clus_ok fs \<and> cs_init (e2fs_clustersum fs ! 0) = 0 \<and> setbit [0] 0 = Ret [1] \<and>
     ext2_clusteracct fs [1] 0 0 (- 1) = Ret fs' \<and>
     \<not> summary_ok 8 (bits_of [1] 8) (cs_sum (e2fs_clustersum fs' ! 0)) \<and>
     cs_sum (e2fs_clustersum fs' ! 0) ! 8 = - 1"
proof -
  define fs where "fs = demo_fs\<lparr>e2fs_contigsumsize := 8,
    e2fs_clustersum := [\<lparr>cs_init = 0, cs_sum = replicate 9 0\<rparr>]\<rparr>"
  define fs' where "fs' = fs\<lparr>e2fs_clustersum := [\<lparr>cs_init = 1, cs_sum = [0, 0, 0, 0, 0, 0, 0, 2, - 1]\<rparr>],
    e2fs_maxcluster := [7]\<rparr>"
  have "clus_ok fs" by (simp add: fs_def clus_ok_def demo_simps)
  moreover have "setbit [0] 0 = Ret [1]" by code_simp
  moreover have "ext2_clusteracct fs [1] 0 0 (- 1) = Ret fs'"
    unfolding fs_def fs'_def demo_simps by code_simp
  moreover have "\<not> summary_ok 8 (bits_of [1] 8) (cs_sum (e2fs_clustersum fs' ! 0))"
    unfolding fs'_def by simp code_simp
  ultimately show ?thesis
    by (intro exI [of _ fs] exI [of _ fs']) (simp add: fs_def fs'_def)
qed

end
