(* ===== verification/Ext2_Alloc.thy ===== *)
theory Ext2_Alloc
  imports Ext2_Bitmap Ext2_Cluster
begin

text \<open>
  The block allocator of \<^verbatim>\<open>kext/ext2_alloc.c\<close>: \<^verbatim>\<open>ext2_alloccg\<close>, \<^verbatim>\<open>ext2_clusteralloc\<close>, \<^verbatim>\<open>ext2_blkfree\<close>,
  \<^verbatim>\<open>ext2_hashalloc\<close>, \<^verbatim>\<open>ext2_alloc\<close>, \<^verbatim>\<open>ext2_blkpref\<close> and \<^verbatim>\<open>cg_has_sb\<close>. The mount mutex is part of the
  state, taken and released where the source does; one thread runs at a time. The code under
  \<^verbatim>\<open>INVARIANTS\<close> is not compiled and not modelled, nor are log messages.
\<close>

section \<open>\<^verbatim>\<open>ext2_alloccg\<close>\<close>

text \<open>From the bitmap to a block of the group: labels \<^verbatim>\<open>retry\<close> and on, then the preference.\<close>

definition alloccg_scan :: "m_ext2fs \<Rightarrow> bytes \<Rightarrow> int \<Rightarrow> int outcome" where
  "alloccg_scan fs bbp bpref =
     (let start = (if bpref \<noteq> 0 then s32 (dtogd fs bpref sdiv NBBY) else 0);
          e = sint (howmany8 (e2fs_fpg (e2fs fs)) - word_of_int start)
      in bnd (run_scan bbp e start 0 0) (\<lambda>r.
      case r of Some bno \<Rightarrow> Ret bno
      | None \<Rightarrow>
          bnd (if start \<noteq> 0 then run_scan bbp start 0 0 0 else Ret None) (\<lambda>r.
          case r of Some bno \<Rightarrow> Ret bno
          | None \<Rightarrow> ext2_mapsearch fs bbp bpref)))"

definition alloccg_search :: "m_ext2fs \<Rightarrow> bytes \<Rightarrow> int \<Rightarrow> int \<Rightarrow> int outcome" where
  "alloccg_search fs bbp cg bpref =
     (let bpref = (if dtog fs bpref \<noteq> cg then 0 else bpref)
      in if bpref \<noteq> 0 then
           (let bpref = dtogd fs bpref
            in bnd (isclr bbp bpref) (\<lambda>c. if c then Ret bpref else alloccg_scan fs bbp bpref))
         else alloccg_scan fs bbp bpref)"

definition set_fbcount :: "m_ext2fs \<Rightarrow> u32 \<Rightarrow> m_ext2fs" where
  "set_fbcount fs v = fs\<lparr>e2fs := (e2fs fs)\<lparr>e2fs_fbcount := v\<rparr>\<rparr>"

text \<open>The counters of a group whose bit has been set (\<open>d = -1\<close>) or cleared (\<open>d = 1\<close>).\<close>

definition count_block :: "m_ext2fs \<Rightarrow> int \<Rightarrow> int \<Rightarrow> m_ext2fs outcome" where
  "count_block fs cg d =
     (let fs = set_fbcount fs (e2fs_fbcount (e2fs fs) + word_of_int d)
      in bnd (EXT2_GD fs cg) (\<lambda>g.
         put_GD fs cg (g\<lparr>ext2bgd_nbfree := ext2bgd_nbfree g + word_of_int d\<rparr>)))"

definition ext2_alloccg :: "int \<Rightarrow> int \<Rightarrow> int \<Rightarrow> ext2mount \<Rightarrow> (int \<times> ext2mount) outcome" where
  "ext2_alloccg cg bpref sz ump =
     (let fs = um_e2fs ump in
      bnd (EXT2_GD fs cg) (\<lambda>g.
      if ext2bgd_nbfree g = 0 then Ret (0, ump)
      else
        bnd (EXT2_UNLOCK ump) (\<lambda>ump.
        let a = fsbtodb fs (uint (ext2bgd_b_bitmap g)) in
        case buf_meta_bread (um_devvp ump) a of
          Inl error \<Rightarrow> bnd (EXT2_LOCK ump) (\<lambda>ump. Ret (0, ump))
        | Inr bbp \<Rightarrow>
            bnd (EXT2_GD (um_e2fs ump) cg) (\<lambda>g.
            if ext2bgd_nbfree g = 0 then bnd (EXT2_LOCK ump) (\<lambda>ump. Ret (0, ump))
            else
              bnd (alloccg_search fs bbp cg bpref) (\<lambda>bno.
              if bno < 0 then bnd (EXT2_LOCK ump) (\<lambda>ump. Ret (0, ump))
              else
                bnd (setbit bbp bno) (\<lambda>bbp.
                bnd (EXT2_LOCK ump) (\<lambda>ump.
                bnd (ext2_clusteracct (um_e2fs ump) bbp cg bno (- 1)) (\<lambda>fs.
                bnd (count_block fs cg (- 1)) (\<lambda>fs.
                bnd (EXT2_UNLOCK (ump\<lparr>um_e2fs := fs\<lparr>e2fs_fmod := 1\<rparr>\<rparr>)) (\<lambda>ump.
                Ret (uint (word_of_int cg * e2fs_fpg (e2fs fs) + e2fs_first_dblock (e2fs fs)) + bno,
                     ump\<lparr>um_devvp := buf_bdwrite (um_devvp ump) a bbp\<rparr>)))))))))))"

section \<open>\<^verbatim>\<open>ext2_clusteralloc\<close>\<close>

text \<open>First size from \<open>i\<close> up, then from \<open>i\<close> down, that the summary has a cluster of.\<close>

function sum_up :: "int list \<Rightarrow> int \<Rightarrow> int \<Rightarrow> int outcome" where
  "sum_up lp i cap =
     (if i \<le> cap then bnd (rd lp i) (\<lambda>v. if v > 0 then Ret i else sum_up lp (i + 1) cap) else Ret i)"
  by pat_completeness auto
termination
  by (relation "measure (\<lambda>(lp, i, cap). nat (cap + 1 - i))") auto

text \<open>The bit-by-bit search for \<open>len\<close> clear bits: \<open>run\<close> of them end before bit \<open>got\<close>.\<close>

function clus_search :: "bytes \<Rightarrow> int \<Rightarrow> int \<Rightarrow> int \<Rightarrow> int \<Rightarrow> int \<Rightarrow> int \<Rightarrow> (int \<times> int) outcome" where
  "clus_search bbp fpg len got run loc bt =
     (if got < fpg then
        bnd (rd bbp loc) (\<lambda>b.
        let run = (if sint b AND bt \<noteq> 0 then 0 else run + 1)
        in if sint b AND bt = 0 \<and> run = len then Ret (got, run)
           else case mask_up got loc bt of (loc, bt) \<Rightarrow> clus_search bbp fpg len (got + 1) run loc bt)
      else Ret (got, run))"
  by pat_completeness auto
termination
  by (relation "measure (\<lambda>(bbp, fpg, len, got, run, loc, bt). nat (fpg - got))") auto

fun all_clear :: "bytes \<Rightarrow> int \<Rightarrow> nat \<Rightarrow> bool outcome" where
  "all_clear bbp i 0 = Ret True"
| "all_clear bbp i (Suc n) = bnd (isclr bbp i) (\<lambda>c. if c then all_clear bbp (i + 1) n else Ret False)"

text \<open>The allocation loop steps by the fragments per block; a step of zero would never end.\<close>

function clus_take :: "int \<Rightarrow> int \<Rightarrow> int \<Rightarrow> int \<Rightarrow> bytes \<Rightarrow> m_ext2fs \<Rightarrow> (bytes \<times> m_ext2fs) outcome" where
  "clus_take cg bno len i bbp fs =
     (if i < len then
        if e2fs_fpb fs = 0 then Fault Hang
        else
          bnd (setbit bbp (bno + i)) (\<lambda>bbp.
          bnd (ext2_clusteracct fs bbp cg (bno + i) (- 1)) (\<lambda>fs'.
          bnd (count_block fs' cg (- 1)) (\<lambda>fs''.
          clus_take cg bno len (i + uint (e2fs_fpb fs)) bbp fs'')))
      else Ret (bbp, fs))"
  by pat_completeness auto
termination
  by (relation "measure (\<lambda>(cg, bno, len, i, bbp, fs). nat (len - i))")
    (auto simp: zless_nat_conj word_neq_0_conv word_less_def)

declare sum_up.simps [simp del] clus_search.simps [simp del] clus_take.simps [simp del]

definition ext2_clusteralloc :: "int \<Rightarrow> int \<Rightarrow> int \<Rightarrow> ext2mount \<Rightarrow> (int \<times> ext2mount) outcome" where
  "ext2_clusteralloc cg bpref len ump =
     (let fs = um_e2fs ump; fpg = e2fs_fpg (e2fs fs) in
      bnd (rd (e2fs_maxcluster fs) cg) (\<lambda>mx.
      if mx < len then Ret (0, ump)
      else
        bnd (EXT2_UNLOCK ump) (\<lambda>ump.
        bnd (EXT2_GD fs cg) (\<lambda>g.
        let a = fsbtodb fs (uint (ext2bgd_b_bitmap g)) in
        case buf_meta_bread (um_devvp ump) a of
          Inl error \<Rightarrow> bnd (EXT2_LOCK ump) (\<lambda>ump. Ret (0, ump))
        | Inr bbp \<Rightarrow>
            bnd (EXT2_LOCK ump) (\<lambda>ump.
            bnd (rd (e2fs_clustersum fs) cg) (\<lambda>cs.
            bnd (sum_up (cs_sum cs) len (e2fs_contigsumsize fs)) (\<lambda>i.
            if i > e2fs_contigsumsize fs then
              bnd (clus_max (cs_sum cs) (len - 1)) (\<lambda>i.
              bnd (wr (e2fs_maxcluster fs) cg i) (\<lambda>l.
              Ret (0, ump\<lparr>um_e2fs := fs\<lparr>e2fs_maxcluster := l\<rparr>\<rparr>)))
            else
              bnd (EXT2_UNLOCK ump) (\<lambda>ump.
              let bpref = (if dtog fs bpref \<noteq> cg then 0 else bpref);
                  bpref = (if bpref \<noteq> 0 then dtogd fs bpref else bpref)
              in bnd (clus_search bbp (sint fpg) len (s32 bpref) 0 (s32 (bpref sdiv NBBY))
                        (push_bit (nat (bpref smod NBBY)) 1)) (\<lambda>(got, run).
              if got \<ge> sint fpg then bnd (EXT2_LOCK ump) (\<lambda>ump. Ret (0, ump))
              else
                bnd (all_clear bbp (got - run + 1) (nat (len - 1))) (\<lambda>c.
                if \<not> c then Fault (Panic ''ext2_clusteralloc: map mismatch'')
                else
                  let bno = got - run + 1 in
                  if bno \<ge> uint fpg then Fault (Panic ''ext2_clusteralloc: allocated out of group'')
                  else
                    bnd (EXT2_LOCK ump) (\<lambda>ump.
                    bnd (clus_take cg bno len 0 bbp fs) (\<lambda>(bbp, fs).
                    bnd (EXT2_UNLOCK (ump\<lparr>um_e2fs := fs\<lparr>e2fs_fmod := 1\<rparr>\<rparr>)) (\<lambda>ump.
                    Ret (uint (word_of_int cg * fpg + e2fs_first_dblock (e2fs fs)) + bno,
                         ump\<lparr>um_devvp := buf_bdwrite (um_devvp ump) a bbp\<rparr>))))))))))))))"

section \<open>\<^verbatim>\<open>ext2_blkfree\<close>\<close>

definition ext2_blkfree :: "int \<Rightarrow> ext2mount \<Rightarrow> ext2mount outcome" where
  "ext2_blkfree bno ump =
     (let fs = um_e2fs ump; cg = s32 (dtog fs bno) in
      if (word_of_int bno :: u32) \<ge> e2fs_bcount (e2fs fs) then Ret ump
      else
        bnd (EXT2_GD fs cg) (\<lambda>g.
        let a = fsbtodb fs (uint (ext2bgd_b_bitmap g)) in
        case buf_meta_bread (um_devvp ump) a of
          Inl error \<Rightarrow> Ret ump
        | Inr bbp \<Rightarrow>
            let bno = dtogd fs bno in
            bnd (isclr bbp bno) (\<lambda>c.
            if c then Fault (Panic ''ext2_blkfree: freeing free block'')
            else
              bnd (clrbit bbp bno) (\<lambda>bbp.
              bnd (EXT2_LOCK ump) (\<lambda>ump.
              bnd (ext2_clusteracct (um_e2fs ump) bbp cg bno 1) (\<lambda>fs.
              bnd (count_block fs cg 1) (\<lambda>fs.
              bnd (EXT2_UNLOCK (ump\<lparr>um_e2fs := fs\<lparr>e2fs_fmod := 1\<rparr>\<rparr>)) (\<lambda>ump.
              Ret (ump\<lparr>um_devvp := buf_bdwrite (um_devvp ump) a bbp\<rparr>)))))))))"

section \<open>\<^verbatim>\<open>ext2_hashalloc\<close>\<close>

text \<open>
  The quadratic rehash and the brute-force search, over any allocator. The doubling step \<open>i\<close>
  starts at one and stays positive, which is the first half of the loop test.
\<close>

function hash_quad :: "(int \<Rightarrow> int \<Rightarrow> int \<Rightarrow> 's \<Rightarrow> (int \<times> 's) outcome) \<Rightarrow> int \<Rightarrow> int \<Rightarrow> int \<Rightarrow> int \<Rightarrow> 's \<Rightarrow>
    (int \<times> 's) outcome" where
  "hash_quad allocator gcount sz i cg st =
     (if 0 < i \<and> i < gcount then
        (let cg = cg + i; cg = (if cg \<ge> gcount then cg - gcount else cg)
         in bnd (allocator cg 0 sz st) (\<lambda>(result, st).
            if result \<noteq> 0 then Ret (result, st) else hash_quad allocator gcount sz (i * 2) cg st))
      else Ret (0, st))"
  by pat_completeness auto
termination
  by (relation "measure (\<lambda>(al, gcount, sz, i, cg, st). nat (gcount - i))") auto

function hash_brute :: "(int \<Rightarrow> int \<Rightarrow> int \<Rightarrow> 's \<Rightarrow> (int \<times> 's) outcome) \<Rightarrow> int \<Rightarrow> int \<Rightarrow> int \<Rightarrow> int \<Rightarrow> 's \<Rightarrow>
    (int \<times> 's) outcome" where
  "hash_brute allocator gcount sz i cg st =
     (if i < gcount then
        bnd (allocator cg 0 sz st) (\<lambda>(result, st).
        if result \<noteq> 0 then Ret (result, st)
        else (let cg = cg + 1; cg = (if cg = gcount then 0 else cg)
              in hash_brute allocator gcount sz (i + 1) cg st))
      else Ret (0, st))"
  by pat_completeness auto
termination
  by (relation "measure (\<lambda>(al, gcount, sz, i, cg, st). nat (gcount - i))") auto

declare hash_quad.simps [simp del] hash_brute.simps [simp del]

definition hashalloc :: "(int \<Rightarrow> int \<Rightarrow> int \<Rightarrow> 's \<Rightarrow> (int \<times> 's) outcome) \<Rightarrow> int \<Rightarrow> int \<Rightarrow> int \<Rightarrow> int \<Rightarrow> 's \<Rightarrow>
    (int \<times> 's) outcome" where
  "hashalloc allocator gcount cg pref sz st =
     bnd (allocator cg pref sz st) (\<lambda>(result, st).
     if result \<noteq> 0 then Ret (result, st)
     else
       bnd (hash_quad allocator gcount sz 1 cg st) (\<lambda>(result, st).
       if result \<noteq> 0 then Ret (result, st)
       else if gcount = 0 then Fault DivZero
       else hash_brute allocator gcount sz 2 ((cg + 2) mod gcount) st))"

definition ext2_hashalloc :: "(int \<Rightarrow> int \<Rightarrow> int \<Rightarrow> ext2mount \<Rightarrow> (int \<times> ext2mount) outcome) \<Rightarrow>
    int \<Rightarrow> int \<Rightarrow> int \<Rightarrow> ext2mount \<Rightarrow> (int \<times> ext2mount) outcome" where
  "ext2_hashalloc allocator cg pref sz ump =
     hashalloc allocator (sint (e2fs_gcount (um_e2fs ump))) cg pref sz ump"

section \<open>\<^verbatim>\<open>ext2_alloc\<close> and \<^verbatim>\<open>ext2_blkpref\<close>\<close>

text \<open>
  \<open>uid\<close> is the user of the credential. The result is the error number, the block stored through
  \<^verbatim>\<open>bnp\<close>, the inode and the mount.
\<close>

definition ext2_alloc :: "inode \<Rightarrow> int \<Rightarrow> int \<Rightarrow> int \<Rightarrow> u32 \<Rightarrow> ext2mount \<Rightarrow>
    (errno \<times> int \<times> inode \<times> ext2mount) outcome" where
  "ext2_alloc ip lbn bpref sz uid ump =
     (let fs = um_e2fs ump; es = e2fs fs;
          nospace = (\<lambda>ump. bnd (EXT2_UNLOCK ump) (\<lambda>ump. Ret (ENOSPC, 0, ip, ump)))
      in if sz = sint (e2fs_bsize fs) \<and> e2fs_fbcount es = 0 then nospace ump
         else if uid \<noteq> 0 \<and> e2fs_fbcount es < e2fs_rbcount es then nospace ump
         else
           let bpref = (if bpref \<ge> uint (e2fs_bcount es) then 0 else bpref) in
           bnd (if bpref = 0 then ino_to_cg fs (i_number ip) else Ret (dtog fs bpref)) (\<lambda>cg.
           bnd (ext2_hashalloc ext2_alloccg (s32 cg) bpref (sint (e2fs_bsize fs)) ump) (\<lambda>(r, ump).
           let bno = s32 r in
           if bno > 0 then
             Ret (0, bno,
               ip\<lparr>i_next_alloc_block := word_of_int lbn, i_next_alloc_goal := word_of_int bno,
                  i_blocks := i_blocks ip + ucast (drop_bit 9 (e2fs_bsize fs)),
                  i_flag := i_flag ip OR (IN_CHANGE OR IN_UPDATE)\<rparr>, ump)
           else nospace ump)))"

fun near_block :: "u32 list \<Rightarrow> nat \<Rightarrow> u32 outcome" where
  "near_block bap 0 = Ret 0"
| "near_block bap (Suc tmp) = bnd (rd bap (int tmp)) (\<lambda>b. if b \<noteq> 0 then Ret b else near_block bap tmp)"

text \<open>\<open>bap\<close> is the pointer array the caller passes, \<open>None\<close> for a null pointer.\<close>

definition ext2_blkpref :: "inode \<Rightarrow> int \<Rightarrow> int \<Rightarrow> u32 list option \<Rightarrow> u32 \<Rightarrow> m_ext2fs \<Rightarrow> int outcome" where
  "ext2_blkpref ip lbn indx bap blocknr fs =
     (if uint (i_next_alloc_block ip) = lbn \<and> i_next_alloc_goal ip \<noteq> 0 then
        Ret (uint (i_next_alloc_goal ip))
      else
        bnd (case bap of None \<Rightarrow> Ret 0 | Some bap \<Rightarrow> near_block bap (nat indx)) (\<lambda>b.
        if b \<noteq> 0 then Ret (uint b)
        else if blocknr \<noteq> 0 then Ret (uint blocknr)
        else Ret (uint (i_block_group ip * m_e2fs_bpg fs + e2fs_first_dblock (e2fs fs)))))"

section \<open>\<^verbatim>\<open>cg_has_sb\<close>\<close>

text \<open>
  In round \<open>k\<close> the three variables are the \<open>k\<close>-th powers; multiplying past the range of \<^verbatim>\<open>int\<close>
  is undefined.
\<close>

function has_sb_loop :: "int \<Rightarrow> nat \<Rightarrow> bool outcome" where
  "has_sb_loop i k =
     (let a3 = 3 ^ k; a5 = 5 ^ k; a7 = 7 ^ k
      in if a3 \<le> i \<or> a5 \<le> i \<or> a7 \<le> i then
           if i = a3 \<or> i = a5 \<or> i = a7 then Ret True
           else if a3 * 3 \<ge> 2 ^ 31 \<or> a5 * 5 \<ge> 2 ^ 31 \<or> a7 * 7 \<ge> 2 ^ 31 then Fault Undef
           else has_sb_loop i (Suc k)
         else Ret False)"
  by pat_completeness auto
termination
proof (relation "measure (\<lambda>(i, k). 31 - k)", goal_cases)
  case (2 i k a3 a5 a7)
  have "k < 31"
  proof (rule ccontr)
    assume "\<not> k < 31"
    then have "(3::int) ^ 31 \<le> 3 ^ k" by (intro power_increasing) auto
    with 2 show False by simp
  qed
  then show ?case by auto
qed simp

declare has_sb_loop.simps [simp del]

definition cg_has_sb :: "int \<Rightarrow> bool outcome" where
  "cg_has_sb i = (if i = 0 \<or> i = 1 then Ret True else has_sb_loop i 1)"

section \<open>Well-formed volumes\<close>

definition fpg_of :: "m_ext2fs \<Rightarrow> nat" where
  "fpg_of fs = unat (e2fs_fpg (e2fs fs))"

definition first_of :: "m_ext2fs \<Rightarrow> nat" where
  "first_of fs = unat (e2fs_first_dblock (e2fs fs))"

text \<open>
  The geometry of a volume as \<^verbatim>\<open>mke2fs\<close> lays it out: whole bytes of bitmap per group, free counts
  that fit their sixteen bits, block numbers below two to the 31, one descriptor per group, groups
  that hold every block, and bitmaps in distinct blocks.
\<close>

definition geom_ok :: "m_ext2fs \<Rightarrow> bool" where
  "geom_ok fs \<longleftrightarrow> 0 < fpg_of fs \<and> fpg_of fs mod 8 = 0 \<and> fpg_of fs < 2 ^ 16 \<and>
     m_e2fs_bpg fs = e2fs_fpg (e2fs fs) \<and> first_of fs \<le> 1 \<and>
     0 < length (e2fs_gd fs) \<and> unat (e2fs_gcount fs) = length (e2fs_gd fs) \<and>
     length (e2fs_gd fs) * fpg_of fs < 2 ^ 31 - 1 \<and>
     unat (e2fs_bcount (e2fs fs)) \<le> first_of fs + length (e2fs_gd fs) * fpg_of fs \<and>
     distinct (map ext2bgd_b_bitmap (e2fs_gd fs) @ map ext2bgd_i_bitmap (e2fs_gd fs)) \<and>
     clus_ok fs"

definition b_addr :: "m_ext2fs \<Rightarrow> nat \<Rightarrow> int" where
  "b_addr fs cg = fsbtodb fs (uint (ext2bgd_b_bitmap (e2fs_gd fs ! cg)))"

definition b_bitmap :: "ext2mount \<Rightarrow> nat \<Rightarrow> bytes" where
  "b_bitmap ump cg = dev_blk (um_devvp ump) (b_addr (um_e2fs ump) cg)"

text \<open>Group \<open>cg\<close> of a volume: its free count is the number of clear bits, and the bits of blocks
  past the end of the volume are set.\<close>

definition bgroup_ok :: "ext2mount \<Rightarrow> nat \<Rightarrow> bool" where
  "bgroup_ok ump cg \<longleftrightarrow>
     (let fs = um_e2fs ump; bm = b_bitmap ump cg; n = fpg_of fs
      in n \<le> 8 * length bm \<and> unat (ext2bgd_nbfree (e2fs_gd fs ! cg)) = nfree bm n \<and>
         (\<forall>i<n. unat (e2fs_bcount (e2fs fs)) \<le> cg * n + first_of fs + i \<longrightarrow> used bm i))"

text \<open>The block allocator's invariant: every group is as above, the volume's free count is the
  sum of the groups' counts, and block zero is in use.\<close>

definition blocks_ok :: "ext2mount \<Rightarrow> bool" where
  "blocks_ok ump \<longleftrightarrow>
     (let fs = um_e2fs ump
      in geom_ok fs \<and> (\<forall>cg < length (e2fs_gd fs). bgroup_ok ump cg) \<and>
         unat (e2fs_fbcount (e2fs fs)) = sum_list (map (\<lambda>g. unat (ext2bgd_nbfree g)) (e2fs_gd fs)) \<and>
         (first_of fs = 0 \<longrightarrow> used (b_bitmap ump 0) 0))"

lemma geom_ok_words:
  assumes "geom_ok fs"
  shows "sint (e2fs_fpg (e2fs fs)) = int (fpg_of fs)" "uint (e2fs_fpg (e2fs fs)) = int (fpg_of fs)"
    and "sint (e2fs_gcount fs) = int (length (e2fs_gd fs))"
    and "EXT2_BLOCKS_PER_GROUP fs = int (fpg_of fs)"
    and "uint (e2fs_first_dblock (e2fs fs)) = int (first_of fs)"
proof -
  have "length (e2fs_gd fs) * 1 \<le> length (e2fs_gd fs) * fpg_of fs"
    using assms by (intro mult_le_mono2) (auto simp: geom_ok_def)
  then have "length (e2fs_gd fs) < 2 ^ 31" using assms unfolding geom_ok_def by linarith
  then have "unat (e2fs_gcount fs) < 2 ^ 31" "fpg_of fs < 2 ^ 31" using assms by (auto simp: geom_ok_def)
  then have "sint (e2fs_gcount fs) = int (unat (e2fs_gcount fs))" "sint (e2fs_fpg (e2fs fs)) = int (fpg_of fs)"
    unfolding fpg_of_def by (simp_all add: sint_unat_small)
  then show "sint (e2fs_fpg (e2fs fs)) = int (fpg_of fs)"
    and "sint (e2fs_gcount fs) = int (length (e2fs_gd fs))"
    using assms unfolding geom_ok_def by simp_all
  show "uint (e2fs_fpg (e2fs fs)) = int (fpg_of fs)" "EXT2_BLOCKS_PER_GROUP fs = int (fpg_of fs)"
    "uint (e2fs_first_dblock (e2fs fs)) = int (first_of fs)"
    using assms by (simp_all add: EXT2_BLOCKS_PER_GROUP_def geom_ok_def fpg_of_def first_of_def)
qed

lemma howmany8_sub:
  assumes "geom_ok fs" "0 \<le> start" "start \<le> int (fpg_of fs div 8)"
  shows "sint (howmany8 (e2fs_fpg (e2fs fs)) - word_of_int start) = int (fpg_of fs div 8) - start"
proof -
  let ?n = "fpg_of fs"
  have n: "?n < 2 ^ 16" "?n mod 8 = 0" using assms(1) by (auto simp: geom_ok_def)
  have "unat (e2fs_fpg (e2fs fs) + 7) = ?n + 7"
    using n unfolding fpg_of_def by (subst unat_add_lem [THEN iffD1]) simp_all
  then have h: "unat (howmany8 (e2fs_fpg (e2fs fs))) = ?n div 8"
    using n(2) by (auto simp: howmany8_def unat_div elim!: dvdE)
  have "?n div 8 < 2 ^ 16" using n by auto
  have w: "unat (word_of_int start :: u32) = nat start"
    using assms(2,3) \<open>?n div 8 < 2 ^ 16\<close> by (intro unat_word_of_int_small) auto
  have "word_of_int start \<le> howmany8 (e2fs_fpg (e2fs fs))"
    unfolding word_le_nat_alt h w using assms(2,3) by (simp add: nat_le_iff)
  then have u: "unat (howmany8 (e2fs_fpg (e2fs fs)) - word_of_int start) = ?n div 8 - nat start"
    by (simp add: unat_sub h w)
  then have "unat (howmany8 (e2fs_fpg (e2fs fs)) - word_of_int start) < 2 ^ 31"
    using \<open>?n div 8 < 2 ^ 16\<close> by simp
  then have "sint (howmany8 (e2fs_fpg (e2fs fs)) - word_of_int start) =
      int (unat (howmany8 (e2fs_fpg (e2fs fs)) - word_of_int start))"
    by (rule sint_unat_small)
  also have "\<dots> = int (?n div 8) - start" unfolding u using assms(2,3) by linarith
  finally show ?thesis .
qed

section \<open>The search finds a free block whenever there is one\<close>

lemma memcchr_first:
  assumes "0 \<le> p" "p + int n \<le> int (length buf)"
  shows "(\<exists>q. memcchr buf p c n = Ret (Some q) \<and> p \<le> q \<and> q < p + int n \<and> buf ! nat q \<noteq> c) \<or>
     memcchr buf p c n = Ret None \<and> (\<forall>k. p \<le> k \<and> k < p + int n \<longrightarrow> buf ! nat k = c)"
proof -
  obtain r where r: "memcchr buf p c n = Ret r" using memcchr_safe [OF assms] by blast
  show ?thesis
  proof (cases r)
    case None
    with r memcchr_None [OF _ assms(1)] show ?thesis by blast
  next
    case (Some q)
    with r memcchr_Some [OF _ assms(1)] show ?thesis by blast
  qed
qed

lemma clear_bit_at_safe: "0 \<le> l \<Longrightarrow> l < int (length bm) \<Longrightarrow> \<exists>r. clear_bit_at bm l = Ret r"
  by (simp add: clear_bit_at_def rd_in)

text \<open>The start of the search: a byte of the group's bitmap.\<close>

lemma search_start:
  assumes "geom_ok fs" "0 \<le> bpref" "bpref < int (fpg_of fs)"
  defines "start \<equiv> (if bpref \<noteq> 0 then s32 (dtogd fs bpref sdiv NBBY) else 0)"
  shows "0 \<le> start \<and> start < int (fpg_of fs div 8)"
proof (cases "bpref = 0")
  case True
  then show ?thesis using assms(1) by (auto simp: start_def geom_ok_def)
next
  case False
  let ?n = "fpg_of fs"
  have n: "?n < 2 ^ 16" "?n mod 8 = 0" "0 < ?n" "first_of fs \<le> 1" using assms(1) by (auto simp: geom_ok_def)
  have first: "uint (e2fs_first_dblock (e2fs fs)) \<le> bpref"
    using False assms(2) n(4) geom_ok_words(5) [OF assms(1)] by linarith
  have d: "0 \<le> dtogd fs bpref" "dtogd fs bpref < int ?n"
    using dtogd_bounds [OF first] n(3) unfolding geom_ok_words(4) [OF assms(1)] by auto
  moreover obtain k where "?n = 8 * k" using n(2) by (auto elim!: dvdE)
  ultimately have "dtogd fs bpref div 8 < int (?n div 8)" by auto
  moreover have "dtogd fs bpref sdiv NBBY = dtogd fs bpref div 8"
    using d by (simp add: NBBY_def geom_simps)
  moreover have "0 \<le> dtogd fs bpref div 8" using d by simp
  ultimately show ?thesis using n(1) False by (simp add: start_def)
qed

text \<open>The search by bytes, from \<open>start\<close> to the end and then from the beginning: it finds a clear bit
  when there is one.\<close>

definition byte_search :: "bytes \<Rightarrow> int \<Rightarrow> int \<Rightarrow> fault \<Rightarrow> int outcome" where
  "byte_search bm m start f =
     bnd (memcchr bm start 0xff (nat (m - start))) (\<lambda>loc.
      case loc of Some l \<Rightarrow> clear_bit_at bm l
      | None \<Rightarrow> bnd (memcchr bm 0 0xff (nat (start + 1))) (\<lambda>loc.
          case loc of Some l \<Rightarrow> clear_bit_at bm l | None \<Rightarrow> Fault f))"

lemma byte_search_finds:
  assumes st: "0 \<le> start" "start < int m" and m: "m \<le> length bm"
    and free: "i < 8 * m" "\<not> used bm i"
  shows "\<exists>r. byte_search bm (int m) start f = Ret r \<and> 0 \<le> r \<and> r < int (8 * m) \<and> \<not> used bm (nat r)"
proof -
  have found: "\<exists>r. clear_bit_at bm l = Ret r \<and> 0 \<le> r \<and> r < int (8 * m) \<and> \<not> used bm (nat r)"
    if l: "0 \<le> l" "l < int m" "bm ! nat l \<noteq> 0xff" for l
  proof -
    obtain r where "clear_bit_at bm l = Ret r" using clear_bit_at_safe [of l bm] l m by auto
    with clear_bit_at_Ret [OF this l(3)] l m show ?thesis by auto
  qed
  have byte: "bm ! (i div 8) \<noteq> 0xff" "i div 8 < m"
    using free clear_bit_ff [of "bm ! (i div 8)" "i mod 8"] by (auto simp: used_def)
  have p1: "0 \<le> start" "start + int (nat (int m - start)) \<le> int (length bm)" using st m by auto
  have p2: "(0::int) \<le> 0" "0 + int (nat (start + 1)) \<le> int (length bm)" using st m by auto
  show ?thesis
  proof (rule disjE [OF memcchr_first [OF p1, of "0xff"]], goal_cases)
    case 1
    then obtain q where "memcchr bm start 0xff (nat (int m - start)) = Ret (Some q)"
      "start \<le> q" "q < int m" "bm ! nat q \<noteq> 0xff" using st by (auto split: if_splits)
    with found [of q] st show ?thesis by (auto simp: byte_search_def)
  next
    case 2
    then have all: "\<forall>k. start \<le> k \<and> k < int m \<longrightarrow> bm ! nat k = 0xff" using st by auto
    have lt: "int (i div 8) < start"
    proof (rule ccontr)
      assume "\<not> int (i div 8) < start"
      then have "bm ! nat (int (i div 8)) = 0xff"
        using all [rule_format, of "int (i div 8)"] byte(2) by linarith
      with byte(1) show False by simp
    qed
    have "\<not> (\<forall>k. 0 \<le> k \<and> k < 0 + int (nat (start + 1)) \<longrightarrow> bm ! nat k = 0xff)"
    proof
      assume "\<forall>k. 0 \<le> k \<and> k < 0 + int (nat (start + 1)) \<longrightarrow> bm ! nat k = 0xff"
      from spec [OF this, of "int (i div 8)"] have "bm ! nat (int (i div 8)) = 0xff"
        using lt by (simp del: of_nat_div)
      with byte(1) show False by simp
    qed
    with memcchr_first [OF p2, of "0xff"] obtain q where
      "memcchr bm 0 0xff (nat (start + 1)) = Ret (Some q)" "0 \<le> q" "q < start + 1" "bm ! nat q \<noteq> 0xff"
      using st by auto
    with found [of q] st 2 show ?thesis by (auto simp: byte_search_def)
  qed
qed

lemma ext2_mapsearch_finds:
  assumes g: "geom_ok fs" "0 \<le> bpref" "bpref < int (fpg_of fs)" and len: "fpg_of fs \<le> 8 * length bm"
    and free: "i < fpg_of fs" "\<not> used bm i"
  shows "\<exists>r. ext2_mapsearch fs bm bpref = Ret r \<and> 0 \<le> r \<and> r < int (fpg_of fs) \<and> \<not> used bm (nat r)"
proof -
  define m where "m = fpg_of fs div 8"
  define start where "start = (if bpref \<noteq> 0 then s32 (dtogd fs bpref sdiv NBBY) else 0)"
  have st: "0 \<le> start" "start < int m" using search_start [OF g] by (auto simp: start_def m_def)
  have m: "fpg_of fs = 8 * m" "m \<le> length bm" "m < 2 ^ 16" using g(1) len by (auto simp: m_def geom_ok_def)
  have "sint (howmany8 (e2fs_fpg (e2fs fs)) - word_of_int start) = int m - start"
    using howmany8_sub [OF g(1)] st by (simp add: m_def)
  then have n1: "size_t_of (sint (howmany8 (e2fs_fpg (e2fs fs)) - word_of_int start)) = nat (int m - start)"
    using st m(3) by (simp add: size_t_of_id)
  have n2: "size_t_of (start + 1) = nat (start + 1)" using st m(3) by (intro size_t_of_id) auto
  have "ext2_mapsearch fs bm bpref = byte_search bm (int m) start (Panic ''ext2_mapsearch: map corrupted'')"
    by (simp only: ext2_mapsearch_def byte_search_def start_def [symmetric] Let_def n1 n2)
  then show ?thesis
    using byte_search_finds [OF st m(2) free(1) [unfolded m(1)] free(2)] by (simp add: m(1))
qed

lemma alloccg_scan_finds:
  assumes g: "geom_ok fs" "0 \<le> bpref" "bpref < int (fpg_of fs)" and len: "fpg_of fs \<le> 8 * length bm"
    and free: "i < fpg_of fs" "\<not> used bm i"
  shows "\<exists>r. alloccg_scan fs bm bpref = Ret r \<and> 0 \<le> r \<and> r < int (fpg_of fs) \<and> \<not> used bm (nat r)"
proof -
  define m where "m = fpg_of fs div 8"
  define start where "start = (if bpref \<noteq> 0 then s32 (dtogd fs bpref sdiv NBBY) else 0)"
  have st: "0 \<le> start" "start < int m" using search_start [OF g] by (auto simp: start_def m_def)
  have m: "fpg_of fs = 8 * m" "m \<le> length bm" using g(1) len by (auto simp: m_def geom_ok_def)
  have e: "sint (howmany8 (e2fs_fpg (e2fs fs)) - word_of_int start) = int m - start"
    using howmany8_sub [OF g(1)] st by (simp add: m_def)
  have first8: "\<not> used bm (nat r)" if "free_run bm r 8" for r
    using that by (auto simp: free_run_def)
  have as: "alloccg_scan fs bm bpref = bnd (run_scan bm (int m - start) start 0 0) (\<lambda>r.
      case r of Some bno \<Rightarrow> Ret bno
      | None \<Rightarrow> bnd (if start \<noteq> 0 then run_scan bm start 0 0 0 else Ret None) (\<lambda>r.
          case r of Some bno \<Rightarrow> Ret bno | None \<Rightarrow> ext2_mapsearch fs bm bpref))"
    by (simp only: alloccg_scan_def start_def [symmetric] Let_def e)
  obtain r1 where r1: "run_scan bm (int m - start) start 0 0 = Ret r1"
    using run_scan_safe [of start "int m - start" bm] st m by auto
  obtain r2 where r2: "(if start \<noteq> 0 then run_scan bm start 0 0 0 else Ret None) = Ret r2"
    using run_scan_safe [of 0 start bm 0 0] st m by (cases "start = 0") auto
  have s1: "0 \<le> q \<and> q < int (fpg_of fs) \<and> \<not> used bm (nat q)" if "r1 = Some q" for q
    using run_scan_sound [of bm _ start 0 0 q] r1 that run_scan_start st m(1) first8 by fastforce
  have s2: "0 \<le> q \<and> q < int (fpg_of fs) \<and> \<not> used bm (nat q)" if "r2 = Some q" for q
    using run_scan_sound [of bm start 0 0 0 q] r2 that run_scan_start [of 0] st m(1) first8
    by (fastforce split: if_splits)
  show ?thesis
    using as r1 r2 s1 s2 ext2_mapsearch_finds [OF assms] by (cases r1; cases r2) auto
qed

lemma alloccg_search_finds:
  assumes g: "geom_ok fs" "0 \<le> bpref" and len: "fpg_of fs \<le> 8 * length bm"
    and free: "i < fpg_of fs" "\<not> used bm i"
  shows "\<exists>r. alloccg_search fs bm cg bpref = Ret r \<and> 0 \<le> r \<and> r < int (fpg_of fs) \<and> \<not> used bm (nat r)"
proof (cases "dtog fs bpref = cg \<and> bpref \<noteq> 0")
  case True
  have "uint (e2fs_first_dblock (e2fs fs)) \<le> bpref"
    using True g unfolding geom_ok_words(5) [OF g(1)] by (auto simp: geom_ok_def)
  then have d: "0 \<le> dtogd fs bpref" "dtogd fs bpref < int (fpg_of fs)"
    using dtogd_bounds [of fs bpref] free(1) unfolding geom_ok_words(4) [OF g(1)] by auto
  have "isclr bm (dtogd fs bpref) = Ret (\<not> used bm (nat (dtogd fs bpref)))"
    using d len by (intro isclr_eq) auto
  with True alloccg_scan_finds [OF g(1) d len free] d show ?thesis
    by (auto simp: alloccg_search_def Let_def)
next
  case False
  then show ?thesis
    using alloccg_scan_finds [OF g(1) _ _ len free, of 0] free(1)
    by (auto simp: alloccg_search_def Let_def)
qed

end
