(* ===== verification/Ext2_ExtEdit.thy ===== *)
theory Ext2_ExtEdit
  imports Ext2_Extents Ext2_Alloc
begin

text \<open>
  The part of \<^verbatim>\<open>kext/ext2_extents.c\<close> that changes an extent tree: \<^verbatim>\<open>ext4_ext_insert_extent\<close> with the routines that grow
  the tree and split a leaf, and \<^verbatim>\<open>ext4_ext_rm_extent\<close>. The leaf is the node the header pointer of the path points at, in
  the inode or in the buffer of the path; no routine writes that buffer, and \<open>xe_cached\<close> says whether a later read of
  its block sees the change (the buffer is still in memory) or not. Blocks for the tree are allocated without
  credentials: \<open>xe_nocred\<close> is what \<^verbatim>\<open>kauth_cred_getuid(NOCRED)\<close> gives.
\<close>

record ext_env =
  xe_nocred :: "u32 outcome"
  xe_cached :: bool

section \<open>Nodes that change\<close>

definition put_header :: "node \<Rightarrow> ext4_extent_header \<Rightarrow> node outcome" where
  "put_header nd eh = bnd (wr nd 0 (join16 (eh_magic eh) (eh_ecount eh))) (\<lambda>nd.
     bnd (wr nd 1 (join16 (eh_max eh) (eh_depth eh))) (\<lambda>nd. wr nd 2 (eh_gen eh)))"

definition put_extent :: "node \<Rightarrow> int \<Rightarrow> ext4_extent \<Rightarrow> node outcome" where
  "put_extent nd k e = bnd (wr nd (3 + 3 * k) (e_blk e)) (\<lambda>nd.
     bnd (wr nd (4 + 3 * k) (join16 (e_len e) (e_start_hi e))) (\<lambda>nd. wr nd (5 + 3 * k) (e_start_lo e)))"

definition put_index :: "node \<Rightarrow> int \<Rightarrow> ext4_extent_index \<Rightarrow> node outcome" where
  "put_index nd k e = bnd (wr nd (3 + 3 * k) (ei_blk e)) (\<lambda>nd.
     bnd (wr nd (4 + 3 * k) (ei_leaf_lo e)) (\<lambda>nd. wr nd (5 + 3 * k) (join16 (ei_leaf_hi e) (ei_unused e))))"

text \<open>The changed node of a path goes back to where its header pointer points.\<close>

definition set_root :: "node \<Rightarrow> inode \<Rightarrow> inode" where
  "set_root nd ip = ip\<lparr>i_db := take 12 nd, i_ib := drop 12 nd\<rparr>"

definition store_node :: "ext_env \<Rightarrow> ext4_extent_path \<Rightarrow> node \<Rightarrow> inode \<Rightarrow> ext2mount \<Rightarrow> (inode \<times> ext2mount) outcome" where
  "store_node env path nd ip ump =
     (case ep_header path of
        HNull \<Rightarrow> Fault NullDeref
      | HInode \<Rightarrow> Ret (set_root nd ip, ump)
      | HBuf \<Rightarrow>
          (case ep_bp path of
             None \<Rightarrow> Fault NullDeref
           | Some (a, old) \<Rightarrow>
               Ret (ip, if xe_cached env then ump\<lparr>um_devvp := buf_bdwrite (um_devvp ump) a (bytes_of_words nd)\<rparr> else ump)))"

definition ext4_ext_mark_dirty :: "inode \<Rightarrow> inode" where
  "ext4_ext_mark_dirty ip = ip\<lparr>i_flag := i_flag ip OR (IN_CHANGE OR IN_UPDATE)\<rparr>"

text \<open>\<^verbatim>\<open>btodb(fs->e2fs_bsize)\<close>, which is unsigned and of 32 bits.\<close>

definition bsize_db :: "m_ext2fs \<Rightarrow> u32" where
  "bsize_db fs = drop_bit 9 (e2fs_bsize fs)"

section \<open>\<^verbatim>\<open>ext4_ext_new_block\<close>\<close>

definition ext4_ext_new_block :: "ext_env \<Rightarrow> inode \<Rightarrow> ext2mount \<Rightarrow> (errno \<times> int \<times> inode \<times> ext2mount) outcome" where
  "ext4_ext_new_block env ip ump =
     (let fs = um_e2fs ump in
      bnd (EXT2_LOCK ump) (\<lambda>ump.
      bnd (xe_nocred env) (\<lambda>uid.
      bnd (ext2_alloc ip 0 0 (sint (e2fs_bsize fs)) uid ump) (\<lambda>(error, newb, ip, ump).
      bnd (EXT2_UNLOCK ump) (\<lambda>ump.
      if error \<noteq> 0 then Ret (error, newb, ip, ump)
      else if dev_nobuf (um_devvp ump) (fsbtodb fs newb) then
        bnd (ext2_blkfree newb ump) (\<lambda>ump. Ret (EIO, newb, ip, ump))
      else
        let (error, dev) = buf_bwrite (um_devvp ump) (fsbtodb fs newb) (replicate (unat (e2fs_bsize fs)) 0) in
        if error \<noteq> 0 then bnd (ext2_blkfree newb (ump\<lparr>um_devvp := dev\<rparr>)) (\<lambda>ump. Ret (error, newb, ip, ump))
        else Ret (0, newb, ip, ump\<lparr>um_devvp := dev\<rparr>))))))"

section \<open>\<^verbatim>\<open>ext4_ext_grow_depth0\<close>\<close>

text \<open>The first \<open>n\<close> entries of a node copied to the same places of another.\<close>

fun copy_entries :: "node \<Rightarrow> node \<Rightarrow> int \<Rightarrow> nat \<Rightarrow> node outcome" where
  "copy_entries src dst i 0 = Ret dst"
| "copy_entries src dst i (Suc n) =
     bnd (get_extent src i) (\<lambda>e. bnd (put_extent dst i e) (\<lambda>dst. copy_entries src dst (i + 1) n))"

definition empty_node :: "m_ext2fs \<Rightarrow> node" where
  "empty_node fs = replicate (unat (e2fs_bsize fs) div 4) 0"

text \<open>The two leaves and the root that points at them.\<close>

definition grow_leaves :: "m_ext2fs \<Rightarrow> node \<Rightarrow> ext4_extent \<Rightarrow> (node \<times> node) outcome" where
  "grow_leaves fs nd newext =
     bnd (get_header nd) (\<lambda>eh.
     let nblks = unat (eh_max eh) div 2;
         h = \<lparr>eh_magic = EXT4_EXT_MAGIC, eh_ecount = of_nat nblks, eh_max = eh_max eh, eh_depth = 0, eh_gen = 0\<rparr>
     in bnd (put_header (empty_node fs) h) (\<lambda>old.
        bnd (copy_entries nd old 0 nblks) (\<lambda>old.
        bnd (put_header (empty_node fs) (h\<lparr>eh_ecount := 1\<rparr>)) (\<lambda>new.
        bnd (put_extent new 0 newext) (\<lambda>new. Ret (old, new))))))"

definition grow_root :: "node \<Rightarrow> node \<Rightarrow> node \<Rightarrow> int \<Rightarrow> int \<Rightarrow> node outcome" where
  "grow_root root old new old_block new_block =
     bnd (get_header root) (\<lambda>eh.
     bnd (put_header root (eh\<lparr>eh_magic := EXT4_EXT_MAGIC, eh_max := 3, eh_ecount := 2, eh_depth := 1\<rparr>)) (\<lambda>root.
     bnd (get_extent old 0) (\<lambda>e0.
     bnd (put_index root 0 \<lparr>ei_blk = e_blk e0, ei_leaf_lo = word_of_int old_block, ei_leaf_hi = 0, ei_unused = 0\<rparr>) (\<lambda>root.
     bnd (get_extent new 0) (\<lambda>e1.
     put_index root 1 \<lparr>ei_blk = e_blk e1, ei_leaf_lo = word_of_int new_block, ei_leaf_hi = 0, ei_unused = 0\<rparr>)))))"

definition free_both :: "errno \<Rightarrow> int \<Rightarrow> int \<Rightarrow> inode \<Rightarrow> ext2mount \<Rightarrow> (errno \<times> inode \<times> ext2mount) outcome" where
  "free_both error old_block new_block ip ump =
     bnd (ext2_blkfree old_block ump) (\<lambda>ump. bnd (ext2_blkfree new_block ump) (\<lambda>ump. Ret (error, ip, ump)))"

definition ext4_ext_grow_depth0 :: "ext_env \<Rightarrow> inode \<Rightarrow> ext4_extent_path \<Rightarrow> ext4_extent \<Rightarrow> ext2mount \<Rightarrow>
    (errno \<times> inode \<times> ext2mount) outcome" where
  "ext4_ext_grow_depth0 env ip path newext ump =
     (let fs = um_e2fs ump in
      bnd (ext4_ext_new_block env ip ump) (\<lambda>(error, old_block, ip, ump).
      if error \<noteq> 0 then Ret (error, ip, ump)
      else
        bnd (ext4_ext_new_block env ip ump) (\<lambda>(error, new_block, ip, ump).
        if error \<noteq> 0 then bnd (ext2_blkfree old_block ump) (\<lambda>ump. Ret (error, ip, ump))
        else if dev_nobuf (um_devvp ump) (fsbtodb fs old_block) \<or> dev_nobuf (um_devvp ump) (fsbtodb fs new_block) then
          free_both EIO old_block new_block ip ump
        else
          bnd (path_node ip path) (\<lambda>nd.
          bnd (grow_leaves fs nd newext) (\<lambda>(old, new).
          bnd (grow_root (root_node ip) old new old_block new_block) (\<lambda>root.
          let ip = ext4_ext_mark_dirty ((set_root root ip)\<lparr>i_blocks := i_blocks ip + ucast (bsize_db fs * 2)\<rparr>);
              fail = (\<lambda>error ump. free_both error old_block new_block (ip\<lparr>i_blocks := i_blocks ip - ucast (bsize_db fs * 2)\<rparr>) ump);
              (error, dev) = buf_bwrite (um_devvp ump) (fsbtodb fs old_block) (bytes_of_words old);
              ump = ump\<lparr>um_devvp := dev\<rparr>
          in if error \<noteq> 0 then fail error ump
             else
               let (error, dev) = buf_bwrite (um_devvp ump) (fsbtodb fs new_block) (bytes_of_words new);
                   ump = ump\<lparr>um_devvp := dev\<rparr>
               in if error \<noteq> 0 then fail error ump else Ret (0, ip, ump)))))))"

section \<open>\<^verbatim>\<open>ext4_ext_split_leaf\<close>\<close>

text \<open>Entries \<open>i\<close> to \<open>i + n - 1\<close> go to the front of the other node.\<close>

fun move_entries :: "node \<Rightarrow> node \<Rightarrow> int \<Rightarrow> int \<Rightarrow> nat \<Rightarrow> node outcome" where
  "move_entries src dst i j 0 = Ret dst"
| "move_entries src dst i j (Suc n) =
     bnd (get_extent src i) (\<lambda>e. bnd (put_extent dst j e) (\<lambda>dst. move_entries src dst (i + 1) (j + 1) n))"

text \<open>\<^verbatim>\<open>for (i = n; i > 0; i--) l[b + i] = l[b + i - 1]\<close>.\<close>

fun shift_up :: "node \<Rightarrow> int \<Rightarrow> nat \<Rightarrow> node outcome" where
  "shift_up nd b 0 = Ret nd"
| "shift_up nd b (Suc i) =
     bnd (get_extent nd (b + int i)) (\<lambda>e. bnd (put_extent nd (b + int (Suc i)) e) (\<lambda>nd. shift_up nd b i))"

text \<open>The same while the entry before is greater; the result has the place that is free then.\<close>

fun shift_greater :: "node \<Rightarrow> u32 \<Rightarrow> nat \<Rightarrow> (node \<times> nat) outcome" where
  "shift_greater nd blk 0 = Ret (nd, 0)"
| "shift_greater nd blk (Suc i) =
     bnd (get_extent nd (int i)) (\<lambda>e.
     if e_blk e > blk then bnd (put_extent nd (int (Suc i)) e) (\<lambda>nd. shift_greater nd blk i) else Ret (nd, Suc i))"

definition split_entries :: "m_ext2fs \<Rightarrow> node \<Rightarrow> ext4_extent \<Rightarrow> (node \<times> node) outcome" where
  "split_entries fs l newext =
     bnd (get_header l) (\<lambda>eh.
     let nblks = unat (eh_max eh) div 2; moved = unat (eh_max eh) - nblks;
         nh = \<lparr>eh_magic = EXT4_EXT_MAGIC, eh_ecount = of_nat moved, eh_max = eh_max eh, eh_depth = eh_depth eh, eh_gen = 0\<rparr>;
         eh = eh\<lparr>eh_ecount := of_nat nblks\<rparr>
     in bnd (put_header (empty_node fs) nh) (\<lambda>r.
        bnd (move_entries l r (int nblks) 0 moved) (\<lambda>r.
        bnd (get_extent r 0) (\<lambda>r0.
        if e_blk newext < e_blk r0 then
          bnd (shift_up l 0 nblks) (\<lambda>l.
          bnd (put_extent l 0 newext) (\<lambda>l.
          bnd (put_header l (eh\<lparr>eh_ecount := eh_ecount eh + 1\<rparr>)) (\<lambda>l. Ret (l, r))))
        else
          bnd (put_header l eh) (\<lambda>l.
          bnd (shift_greater r (e_blk newext) moved) (\<lambda>(r, i).
          bnd (put_extent r (int i) newext) (\<lambda>r.
          bnd (put_header r (nh\<lparr>eh_ecount := eh_ecount nh + 1\<rparr>)) (\<lambda>r. Ret (l, r)))))))))"

definition ext4_ext_split_leaf :: "ext_env \<Rightarrow> inode \<Rightarrow> ext4_extent_path \<Rightarrow> ext4_extent \<Rightarrow> int \<Rightarrow> ext2mount \<Rightarrow>
    (errno \<times> inode \<times> ext2mount) outcome" where
  "ext4_ext_split_leaf env ip path newext new_block ump =
     (let fs = um_e2fs ump in
      if dev_nobuf (um_devvp ump) (fsbtodb fs new_block) then
        bnd (ext2_blkfree new_block ump) (\<lambda>ump. Ret (EIO, ip, ump))
      else
        bnd (path_node ip path) (\<lambda>l.
        bnd (split_entries fs l newext) (\<lambda>(l, r).
        bnd (store_node env path l ip ump) (\<lambda>(ip, ump).
        let ip = ext4_ext_mark_dirty (ip\<lparr>i_blocks := i_blocks ip + ucast (bsize_db fs)\<rparr>);
            (error, dev) = buf_bwrite (um_devvp ump) (fsbtodb fs new_block) (bytes_of_words r)
        in Ret (error, ip, ump\<lparr>um_devvp := dev\<rparr>)))))"

section \<open>\<^verbatim>\<open>ext4_ext_insert_extent\<close>\<close>

text \<open>
  The place is \<^verbatim>\<open>ep_ext\<close> itself, and the entries from there on are moved by a loop that runs from \<^verbatim>\<open>eh_ecount\<close> down but
  indexes from \<^verbatim>\<open>ep_ext\<close>.
\<close>

definition insert_here :: "node \<Rightarrow> int option \<Rightarrow> ext4_extent \<Rightarrow> node outcome" where
  "insert_here nd ex newext =
     bnd (get_header nd) (\<lambda>eh.
     case ex of
       None \<Rightarrow> Fault NullDeref
     | Some k \<Rightarrow>
         bnd (shift_up nd (k + k) (nat (int (unat (eh_ecount eh)) - k))) (\<lambda>nd.
         bnd (put_extent nd k newext) (\<lambda>nd.
         bnd (get_header nd) (\<lambda>eh. put_header nd (eh\<lparr>eh_ecount := eh_ecount eh + 1\<rparr>)))))"

definition ext4_ext_insert_extent :: "ext_env \<Rightarrow> inode \<Rightarrow> ext4_extent_path \<Rightarrow> ext4_extent \<Rightarrow> ext2mount \<Rightarrow>
    (errno \<times> inode \<times> ext2mount) outcome" where
  "ext4_ext_insert_extent env ip path newext ump =
     bnd (path_node ip path) (\<lambda>nd.
     bnd (get_header nd) (\<lambda>eh.
     if eh_ecount eh < eh_max eh then
       bnd (insert_here nd (ep_ext path) newext) (\<lambda>nd.
       bnd (store_node env path nd ip ump) (\<lambda>(ip, ump).
       Ret (0, ext4_ext_mark_dirty (ip\<lparr>i_blocks := i_blocks ip + ucast (bsize_db (um_e2fs ump))\<rparr>), ump)))
     else if eh_depth eh = 0 then ext4_ext_grow_depth0 env ip path newext ump
     else
       bnd (ext4_ext_new_block env ip ump) (\<lambda>(error, new_block, ip, ump).
       if error \<noteq> 0 then Ret (error, ip, ump)
       else ext4_ext_split_leaf env ip path (newext\<lparr>e_start_lo := word_of_int new_block\<rparr>) new_block ump)))"

section \<open>\<^verbatim>\<open>ext4_ext_rm_extent\<close>\<close>

fun free_blocks :: "u32 \<Rightarrow> nat \<Rightarrow> ext2mount \<Rightarrow> ext2mount outcome" where
  "free_blocks b 0 ump = Ret ump"
| "free_blocks b (Suc n) ump = bnd (ext2_blkfree (uint b) ump) (\<lambda>ump. free_blocks (b + 1) n ump)"

text \<open>\<^verbatim>\<open>for (i = 0; i < n; i++) ex[i] = ex[i + 1]\<close> from entry \<open>k\<close> on.\<close>

fun shift_down :: "node \<Rightarrow> int \<Rightarrow> nat \<Rightarrow> node outcome" where
  "shift_down nd k 0 = Ret nd"
| "shift_down nd k (Suc n) = bnd (get_extent nd (k + 1)) (\<lambda>e. bnd (put_extent nd k e) (\<lambda>nd. shift_down nd (k + 1) n))"

text \<open>The part of the extent that is freed, as its first block and its length.\<close>

definition rm_range :: "m_ext2fs \<Rightarrow> ext4_extent \<Rightarrow> int \<Rightarrow> u32 \<Rightarrow> u32 \<times> u32" where
  "rm_range fs ex lbn len =
     (let phys_start = e_start_lo ex; phys_len = ucast (e_len ex) in
      if lbn > uint (e_blk ex) * uint (e2fs_bsize fs) then
        let free_start = phys_start + word_of_int (lblkno fs lbn - uint (e_blk ex))
        in (free_start, min len (phys_len - (free_start - phys_start)))
      else (phys_start, min len phys_len))"

definition rm_entry :: "node \<Rightarrow> int \<Rightarrow> ext4_extent \<Rightarrow> u32 \<times> u32 \<Rightarrow> node outcome" where
  "rm_entry nd k ex r =
     (let phys_start = e_start_lo ex; phys_len = ucast (e_len ex); (free_start, free_len) = r in
      if free_start = phys_start \<and> free_len = phys_len then
        bnd (get_header nd) (\<lambda>eh.
        let n = nat (int (unat (eh_ecount eh)) - k - 1) in
        bnd (shift_down nd k n) (\<lambda>nd.
        bnd (put_extent nd (k + int n) \<lparr>e_blk = 0, e_len = 0, e_start_hi = 0, e_start_lo = 0\<rparr>) (\<lambda>nd.
        bnd (get_header nd) (\<lambda>eh. put_header nd (eh\<lparr>eh_ecount := eh_ecount eh - 1\<rparr>)))))
      else if free_start = phys_start then
        put_extent nd k (ex\<lparr>e_start_lo := e_start_lo ex + free_len, e_blk := e_blk ex + free_len, e_len := e_len ex - ucast free_len\<rparr>)
      else if free_start + free_len = phys_start + phys_len then put_extent nd k (ex\<lparr>e_len := e_len ex - ucast free_len\<rparr>)
      else put_extent nd k (ex\<lparr>e_len := ucast (free_start - phys_start)\<rparr>))"

definition ext4_ext_rm_extent :: "ext_env \<Rightarrow> inode \<Rightarrow> ext4_extent_path \<Rightarrow> int \<Rightarrow> u32 \<Rightarrow> ext2mount \<Rightarrow>
    (errno \<times> inode \<times> ext2mount) outcome" where
  "ext4_ext_rm_extent env ip path lbn len ump =
     (case ep_ext path of
        None \<Rightarrow> Ret (EIO, ip, ump)
      | Some k \<Rightarrow>
          if ep_depth path > 0 then Ret (EIO, ip, ump)
          else
            bnd (path_node ip path) (\<lambda>nd.
            bnd (get_extent nd k) (\<lambda>ex.
            let r = rm_range (um_e2fs ump) ex lbn len; free_len = snd r in
            bnd (free_blocks (fst r) (if 0 \<le> sint free_len then unat free_len else 0) ump) (\<lambda>ump.
            let ip = ip\<lparr>i_blocks := i_blocks ip - ucast (bsize_db (um_e2fs ump) * free_len), i_flag := i_flag ip OR (IN_CHANGE OR IN_UPDATE)\<rparr>
            in bnd (rm_entry nd k ex r) (\<lambda>nd.
               bnd (store_node env path nd ip ump) (\<lambda>(ip, ump). Ret (0, ip, ump)))))))"

end
