(* ===== verification/Ext2_Balloc.thy ===== *)
theory Ext2_Balloc
  imports Ext2_ExtEdit
begin

text \<open>
  \<^verbatim>\<open>ext2_balloc\<close> of \<^verbatim>\<open>kext/ext2_balloc.c\<close>: it finds the buffer of a block of a file and allocates the block
  and the indirect blocks above it where there are none. Buffers of the file's own vnode come from the
  buffer cache: \<open>be_getblk\<close> is what \<^verbatim>\<open>buf_getblk\<close> on that vnode returns, \<^const>\<open>file_bread\<close> what a read does.
  Indirect blocks are read and written on the device. \<open>be_cred\<close> is what
  \<^verbatim>\<open>kauth_cred_getuid\<close> gives for the credentials the caller passes.
\<close>

record balloc_env =
  be_cred :: "u32 outcome"
  be_clrbuf :: bool
  be_sync :: bool
  be_getblk :: "int \<Rightarrow> bytes option"
  be_ext :: ext_env

text \<open>The error number, the buffer stored through \<^verbatim>\<open>bpp\<close>, the inode and the mount.\<close>

type_synonym balloc_result = "errno \<times> bytes option \<times> inode \<times> ext2mount"

definition buf_clear :: "bytes \<Rightarrow> bytes" where
  "buf_clear bs = replicate (length bs) 0"

definition clear_if :: "bool \<Rightarrow> bytes \<Rightarrow> bytes" where
  "clear_if c bs = (if c then buf_clear bs else bs)"

definition balloc_alloc :: "balloc_env \<Rightarrow> inode \<Rightarrow> int \<Rightarrow> int \<Rightarrow> int \<Rightarrow> ext2mount \<Rightarrow> (errno \<times> int \<times> inode \<times> ext2mount) outcome" where
  "balloc_alloc env ip lbn pref sz ump = bnd (be_cred env) (\<lambda>uid. ext2_alloc ip lbn pref sz uid ump)"

definition block_pointers :: "inode \<Rightarrow> u32 list" where
  "block_pointers ip = i_db ip @ i_ib ip"

definition mark_changed :: "inode \<Rightarrow> inode" where
  "mark_changed ip = ip\<lparr>i_flag := i_flag ip OR (IN_CHANGE OR IN_UPDATE)\<rparr>"

text \<open>A read of block \<open>lbn\<close> of the file, as the result of the whole routine.\<close>

definition balloc_read :: "int \<Rightarrow> inode \<Rightarrow> ext2mount \<Rightarrow> balloc_result outcome" where
  "balloc_read lbn ip ump =
     bnd (file_bread ump ip lbn) (\<lambda>r.
     case r of Inl error \<Rightarrow> Ret (error, None, ip, ump) | Inr (a, bs) \<Rightarrow> Ret (0, Some bs, ip, ump))"

section \<open>\<^verbatim>\<open>ext2_ext_balloc\<close>\<close>

definition ext2_ext_balloc :: "balloc_env \<Rightarrow> int \<Rightarrow> int \<Rightarrow> inode \<Rightarrow> ext2mount \<Rightarrow> balloc_result outcome" where
  "ext2_ext_balloc env lbn sz ip ump =
     (let fs = um_e2fs ump;
          alloc = (\<lambda>path.
            bnd (EXT2_LOCK ump) (\<lambda>ump.
            bnd (balloc_alloc env ip lbn 0 sz ump) (\<lambda>(error, newb, ip, ump).
            bnd (EXT2_UNLOCK ump) (\<lambda>ump.
            if error \<noteq> 0 then bnd (ext4_ext_drop_refs [path]) (\<lambda>p. Ret (error, None, ip, ump))
            else
              bnd (ext4_ext_insert_extent (be_ext env) ip path \<lparr>e_blk = word_of_int lbn, e_len = 1, e_start_hi = 0, e_start_lo = word_of_int newb\<rparr> ump)
              (\<lambda>(error, ip, ump).
              if error \<noteq> 0 then
                bnd (ext2_blkfree newb ump) (\<lambda>ump. bnd (ext4_ext_drop_refs [path]) (\<lambda>p. Ret (error, None, ip, ump)))
              else
                (case be_getblk env lbn of
                   None \<Rightarrow> bnd (ext4_ext_drop_refs [path]) (\<lambda>p. Ret (EIO, None, ip, ump))
                 | Some bs \<Rightarrow>
                     bnd (ext4_ext_drop_refs [path]) (\<lambda>p.
                     Ret (0, Some (clear_if (be_clrbuf env) bs), mark_changed ip, ump))))))))
      in bnd (ext4_ext_find_extent fs (um_devvp ump) ip lbn zero_path) (\<lambda>(ok, path).
         case ep_ext path of
           None \<Rightarrow> alloc path
         | Some k \<Rightarrow>
             bnd (path_node ip path) (\<lambda>nd.
             bnd (get_extent nd k) (\<lambda>ep.
             let phys = e_start_lo ep + word_of_int (lbn - uint (e_blk ep)) in
             if lbn \<ge> uint (e_blk ep) \<and> lbn < uint (e_blk ep) + uint (e_len ep) \<and> phys \<noteq> 0 \<and>
                i_size ip \<ge> word_of_int ((lbn + 1) * uint (e2fs_bsize fs)) then
               bnd (balloc_read (lblkno fs (uint phys)) ip ump) (\<lambda>r. bnd (ext4_ext_drop_refs [path]) (\<lambda>p. Ret r))
             else alloc path))))"

section \<open>Direct blocks\<close>

definition balloc_direct :: "balloc_env \<Rightarrow> int \<Rightarrow> int \<Rightarrow> inode \<Rightarrow> ext2mount \<Rightarrow> balloc_result outcome" where
  "balloc_direct env lbn sz ip ump =
     (let fs = um_e2fs ump; fsize = word_of_int ((lbn + 1) * uint (e2fs_bsize fs)) in
      bnd (rd (i_db ip) lbn) (\<lambda>nb.
      if nb \<noteq> 0 \<and> i_size ip \<ge> fsize then balloc_read lbn ip ump
      else if nb \<noteq> 0 then
        bnd (fragroundup fs (blkoff fs (uint (i_size ip)))) (\<lambda>osize.
        bnd (fragroundup fs sz) (\<lambda>nsize.
        if s32 nsize \<le> s32 osize then
          bnd (balloc_read lbn ip ump) (\<lambda>(error, bp, ip, ump).
          if error \<noteq> 0 then Ret (error, bp, ip, ump) else Ret (0, bp, mark_changed ip, ump))
        else Fault (Panic ''ext2_balloc: Something is terribly wrong'')))
      else
        bnd (if i_size ip < fsize then fragroundup fs sz else Ret (uint (e2fs_bsize fs))) (\<lambda>nsize.
        bnd (EXT2_LOCK ump) (\<lambda>ump.
        bnd (ext2_blkpref ip lbn lbn (Some (block_pointers ip)) 0 fs) (\<lambda>pref.
        bnd (balloc_alloc env ip lbn pref (s32 nsize) ump) (\<lambda>(error, newb, ip, ump).
        if error \<noteq> 0 then Ret (error, None, ip, ump)
        else
          case be_getblk env lbn of
            None \<Rightarrow> bnd (ext2_blkfree newb ump) (\<lambda>ump. Ret (EIO, None, ip, ump))
          | Some bs \<Rightarrow>
              bnd (wr (i_db ip) lbn (word_of_int newb)) (\<lambda>db.
              Ret (0, Some (clear_if (be_clrbuf env) bs), mark_changed (ip\<lparr>i_db := db\<rparr>), ump))))))))"

section \<open>Indirect blocks\<close>

text \<open>
  A fresh indirect block: allocated, cleared and written before anything points to it. \<open>unlock\<close> is the
  release of the mount lock that the error paths below the first level make after \<^verbatim>\<open>ext2_alloc\<close> has
  released it already.
\<close>

definition new_indirect :: "balloc_env \<Rightarrow> int \<Rightarrow> int \<Rightarrow> bool \<Rightarrow> inode \<Rightarrow> ext2mount \<Rightarrow> (errno \<times> int \<times> inode \<times> ext2mount) outcome" where
  "new_indirect env lbn pref unlock ip ump =
     (let fs = um_e2fs ump; undo = (\<lambda>error newb ip ump.
            bnd (ext2_blkfree newb ump) (\<lambda>ump.
            bnd (if unlock then EXT2_UNLOCK ump else Ret ump) (\<lambda>ump. Ret (error, newb, ip, ump))))
      in bnd (balloc_alloc env ip lbn pref (sint (e2fs_bsize fs)) ump) (\<lambda>(error, newb, ip, ump).
         if error \<noteq> 0 then Ret (error, newb, ip, ump)
         else if dev_nobuf (um_devvp ump) (fsbtodb fs newb) then undo EIO newb ip ump
         else
           let (error, dev) = buf_bwrite (um_devvp ump) (fsbtodb fs newb) (replicate (unat (e2fs_bsize fs)) 0) in
           if error \<noteq> 0 then undo error newb ip (ump\<lparr>um_devvp := dev\<rparr>)
           else Ret (0, newb, ip, ump\<lparr>um_devvp := dev\<rparr>)))"

text \<open>The first indirect block, out of \<^verbatim>\<open>i_ib\<close>; the result has the block and the preference.\<close>

definition balloc_first :: "balloc_env \<Rightarrow> int \<Rightarrow> indir \<Rightarrow> inode \<Rightarrow> ext2mount \<Rightarrow> (errno \<times> u32 \<times> int \<times> inode \<times> ext2mount) outcome" where
  "balloc_first env lbn e ip ump =
     bnd (rd (i_ib ip) (in_off e)) (\<lambda>nb.
     if nb \<noteq> 0 then Ret (0, nb, 0, ip, ump)
     else
       bnd (EXT2_LOCK ump) (\<lambda>ump.
       bnd (ext2_blkpref ip lbn (in_off e + NDADDR) (Some (block_pointers ip)) 0 (um_e2fs ump)) (\<lambda>pref.
       bnd (new_indirect env lbn pref False ip ump) (\<lambda>(error, newb, ip, ump).
       if error \<noteq> 0 then Ret (error, 0, pref, ip, ump)
       else
         bnd (wr (i_ib ip) (in_off e) (word_of_int newb)) (\<lambda>ib.
         Ret (0, word_of_int newb, pref, mark_changed (ip\<lparr>i_ib := ib\<rparr>), ump))))))"

text \<open>The write of an indirect block that has a new pointer; its error is ignored.\<close>

definition write_pointers :: "balloc_env \<Rightarrow> int \<Rightarrow> bytes \<Rightarrow> ext2mount \<Rightarrow> ext2mount" where
  "write_pointers env a bap ump =
     ump\<lparr>um_devvp := (if be_sync env then snd (buf_bwrite (um_devvp ump) a bap) else buf_bdwrite (um_devvp ump) a bap)\<rparr>"

text \<open>
  The loop through the indirect blocks: \<open>indirb\<close> is the block at this level and the list is \<^verbatim>\<open>indirs[i]\<close> and
  on. The result is the error, then the last indirect block, its content, the pointer in it and the inode.
\<close>

fun balloc_walk :: "balloc_env \<Rightarrow> int \<Rightarrow> indir list \<Rightarrow> u32 \<Rightarrow> int \<Rightarrow> inode \<Rightarrow> ext2mount \<Rightarrow>
    (errno \<times> u32 \<times> bytes \<times> u32 \<times> indir \<times> inode \<times> ext2mount) outcome" where
  "balloc_walk env lbn [] indirb pref ip ump = Fault Oob"
| "balloc_walk env lbn (e # es) indirb pref ip ump =
     (case buf_meta_bread (um_devvp ump) (fsbtodb (um_e2fs ump) (uint indirb)) of
        Inl error \<Rightarrow> Ret (error, indirb, [], 0, e, ip, ump)
      | Inr bap \<Rightarrow>
          bnd (get_u32 bap (in_off e)) (\<lambda>nb.
          case es of
            [] \<Rightarrow> Ret (0, indirb, bap, nb, e, ip, ump)
          | e' # es' \<Rightarrow>
              if nb \<noteq> 0 then balloc_walk env lbn es nb pref ip ump
              else
                bnd (EXT2_LOCK ump) (\<lambda>ump.
                bnd (if pref = 0 then ext2_blkpref ip lbn (in_off e') (Some (words_of bap)) (word_of_int (in_lbn e')) (um_e2fs ump)
                     else Ret pref) (\<lambda>pref.
                bnd (new_indirect env lbn pref True ip ump) (\<lambda>(error, newb, ip, ump).
                if error \<noteq> 0 then Ret (error, indirb, bap, 0, e, ip, ump)
                else
                  bnd (st32 bap (4 * in_off e) (word_of_int newb)) (\<lambda>bap.
                  balloc_walk env lbn es (word_of_int newb) pref ip
                    (write_pointers env (fsbtodb (um_e2fs ump) (uint indirb)) bap ump)))))))"

text \<open>The data block, once its indirect block is at hand.\<close>

definition balloc_data :: "balloc_env \<Rightarrow> int \<Rightarrow> u32 \<Rightarrow> bytes \<Rightarrow> u32 \<Rightarrow> indir \<Rightarrow> inode \<Rightarrow> ext2mount \<Rightarrow> balloc_result outcome" where
  "balloc_data env lbn indirb bap nb e ip ump =
     (let fs = um_e2fs ump in
      if nb = 0 then
        bnd (EXT2_LOCK ump) (\<lambda>ump.
        bnd (ext2_blkpref ip lbn (in_off e) (Some (words_of bap)) (word_of_int (in_lbn e)) fs) (\<lambda>pref.
        bnd (balloc_alloc env ip lbn pref (sint (e2fs_bsize fs)) ump) (\<lambda>(error, newb, ip, ump).
        if error \<noteq> 0 then Ret (error, None, ip, ump)
        else
          bnd (st32 bap (4 * in_off e) (word_of_int newb)) (\<lambda>bap.
          case be_getblk env lbn of
            None \<Rightarrow> bnd (ext2_blkfree newb ump) (\<lambda>ump. Ret (EIO, None, ip, ump))
          | Some bs \<Rightarrow>
              Ret (0, Some (clear_if (be_clrbuf env) bs), ip, write_pointers env (fsbtodb fs (uint indirb)) bap ump)))))
      else if be_clrbuf env then balloc_read lbn ip ump
      else
        (case be_getblk env lbn of None \<Rightarrow> Ret (EIO, None, ip, ump) | Some bs \<Rightarrow> Ret (0, Some bs, ip, ump)))"

definition balloc_indirect :: "balloc_env \<Rightarrow> int \<Rightarrow> inode \<Rightarrow> ext2mount \<Rightarrow> balloc_result outcome" where
  "balloc_indirect env lbn ip ump =
     bnd (ext2_getlbns ump lbn) (\<lambda>p.
     case p of
       Inl error \<Rightarrow> Ret (error, None, ip, ump)
     | Inr [] \<Rightarrow> Fault Oob
     | Inr (e # es) \<Rightarrow>
         bnd (balloc_first env lbn e ip ump) (\<lambda>(error, nb, pref, ip, ump).
         if error \<noteq> 0 then Ret (error, None, ip, ump)
         else
           bnd (balloc_walk env lbn es nb pref ip ump) (\<lambda>(error, indirb, bap, nb, e, ip, ump).
           if error \<noteq> 0 then Ret (error, None, ip, ump)
           else balloc_data env lbn indirb bap nb e ip ump)))"

section \<open>\<^verbatim>\<open>ext2_balloc\<close>\<close>

definition ext2_balloc :: "balloc_env \<Rightarrow> int \<Rightarrow> int \<Rightarrow> inode \<Rightarrow> ext2mount \<Rightarrow> balloc_result outcome" where
  "ext2_balloc env lbn sz ip ump =
     (if lbn < 0 then Ret (EFBIG, None, ip, ump)
      else if i_flag ip AND IN_E4EXTENTS \<noteq> 0 then ext2_ext_balloc env lbn sz ip ump
      else
        let ip = (if lbn = uint (i_next_alloc_block ip + 1)
                  then ip\<lparr>i_next_alloc_block := i_next_alloc_block ip + 1, i_next_alloc_goal := i_next_alloc_goal ip + 1\<rparr>
                  else ip)
        in if lbn < NDADDR then balloc_direct env lbn sz ip ump else balloc_indirect env lbn ip ump)"

end
