(* ===== verification/Ext2_Blocks.thy ===== *)
theory Ext2_Blocks
  imports Ext2_Alloc
begin

text \<open>
  Correctness of the block allocator of theory \<open>Ext2_Alloc\<close>: taking and returning one block keeps
  the invariant, \<^verbatim>\<open>ext2_alloccg\<close> and \<^verbatim>\<open>ext2_blkfree\<close> do exactly that, and \<^verbatim>\<open>ext2_hashalloc\<close>
  gives up only after every group has failed.
\<close>

section \<open>One block taken or returned\<close>

text \<open>
  The in-memory superblock after block \<open>i\<close> of group \<open>cg\<close> has been taken (\<open>d = -1\<close>) or returned
  (\<open>d = 1\<close>), with new cluster tables, and the mount whose device holds the new bitmap.
\<close>

definition mark_fs :: "int \<Rightarrow> m_ext2fs \<Rightarrow> nat \<Rightarrow> csum list \<Rightarrow> int list \<Rightarrow> m_ext2fs" where
  "mark_fs d fs cg cs mc =
     fs\<lparr>e2fs := (e2fs fs)\<lparr>e2fs_fbcount := e2fs_fbcount (e2fs fs) + word_of_int d\<rparr>,
        e2fs_gd := (e2fs_gd fs)[cg := (e2fs_gd fs ! cg)\<lparr>ext2bgd_nbfree :=
           ext2bgd_nbfree (e2fs_gd fs ! cg) + word_of_int d\<rparr>],
        e2fs_fmod := 1, e2fs_clustersum := cs, e2fs_maxcluster := mc\<rparr>"

definition mark_ump :: "int \<Rightarrow> ext2mount \<Rightarrow> nat \<Rightarrow> bytes \<Rightarrow> csum list \<Rightarrow> int list \<Rightarrow> ext2mount" where
  "mark_ump d ump cg bm cs mc =
     ump\<lparr>um_lock := False, um_e2fs := mark_fs d (um_e2fs ump) cg cs mc,
         um_devvp := buf_bdwrite (um_devvp ump) (b_addr (um_e2fs ump) cg) bm\<rparr>"

lemma mark_fs_e2fs [simp]:
  "fpg_of (mark_fs d fs cg cs mc) = fpg_of fs" "first_of (mark_fs d fs cg cs mc) = first_of fs"
  "e2fs_bcount (e2fs (mark_fs d fs cg cs mc)) = e2fs_bcount (e2fs fs)"
  by (simp_all add: mark_fs_def fpg_of_def first_of_def)

lemma mark_fs_gd [simp]:
  "length (e2fs_gd (mark_fs d fs cg cs mc)) = length (e2fs_gd fs)"
  "map ext2bgd_b_bitmap (e2fs_gd (mark_fs d fs cg cs mc)) = map ext2bgd_b_bitmap (e2fs_gd fs)"
  "map ext2bgd_i_bitmap (e2fs_gd (mark_fs d fs cg cs mc)) = map ext2bgd_i_bitmap (e2fs_gd fs)"
proof -
  have id: "(map f (e2fs_gd fs))[cg := f (e2fs_gd fs ! cg)] = map f (e2fs_gd fs)" for f :: "ext2_gd \<Rightarrow> u32"
    by (cases "cg < length (e2fs_gd fs)") (simp_all add: list_update_same_conv list_update_beyond)
  show "length (e2fs_gd (mark_fs d fs cg cs mc)) = length (e2fs_gd fs)"
    "map ext2bgd_b_bitmap (e2fs_gd (mark_fs d fs cg cs mc)) = map ext2bgd_b_bitmap (e2fs_gd fs)"
    "map ext2bgd_i_bitmap (e2fs_gd (mark_fs d fs cg cs mc)) = map ext2bgd_i_bitmap (e2fs_gd fs)"
    using id by (simp_all add: mark_fs_def map_update)
qed

lemma mark_fs_addr [simp]: "k < length (e2fs_gd fs) \<Longrightarrow> b_addr (mark_fs d fs cg cs mc) k = b_addr fs k"
  by (cases "k = cg") (simp_all add: mark_fs_def b_addr_def fsbtodb_def)

lemma geom_ok_mark:
  assumes "geom_ok fs" "clus_ok (fs\<lparr>e2fs_clustersum := cs, e2fs_maxcluster := mc\<rparr>)"
  shows "geom_ok (mark_fs d fs cg cs mc)"
proof -
  have "clus_ok (mark_fs d fs cg cs mc)" using assms(2) by (simp add: clus_ok_def mark_fs_def)
  moreover have "m_e2fs_bpg (mark_fs d fs cg cs mc) = m_e2fs_bpg fs" "e2fs_gcount (mark_fs d fs cg cs mc) = e2fs_gcount fs"
    "e2fs_fpg (e2fs (mark_fs d fs cg cs mc)) = e2fs_fpg (e2fs fs)"
    by (simp_all add: mark_fs_def)
  ultimately show ?thesis using assms(1) unfolding geom_ok_def by (simp only: mark_fs_e2fs mark_fs_gd)
qed

lemma b_addr_inj:
  assumes "geom_ok fs" "cg < length (e2fs_gd fs)" "k < length (e2fs_gd fs)" "b_addr fs cg = b_addr fs k"
  shows "cg = k"
proof -
  have "uint (ext2bgd_b_bitmap (e2fs_gd fs ! cg)) = uint (ext2bgd_b_bitmap (e2fs_gd fs ! k))"
    using assms(4) by (simp add: b_addr_def fsbtodb_def push_bit_eq_mult)
  then have "map ext2bgd_b_bitmap (e2fs_gd fs) ! cg = map ext2bgd_b_bitmap (e2fs_gd fs) ! k"
    using assms(2,3) by (simp add: word_uint_eq_iff)
  moreover have "distinct (map ext2bgd_b_bitmap (e2fs_gd fs))" using assms(1) unfolding geom_ok_def by simp
  ultimately show ?thesis using assms(2,3) by (simp only: nth_eq_iff_index_eq length_map)
qed

lemma b_bitmap_mark:
  assumes "geom_ok (um_e2fs ump)" "cg < length (e2fs_gd (um_e2fs ump))" "k < length (e2fs_gd (um_e2fs ump))"
  shows "b_bitmap (mark_ump d ump cg bm cs mc) k = (if k = cg then bm else b_bitmap ump k)"
  using b_addr_inj [OF assms] assms(2,3) by (auto simp: b_bitmap_def mark_ump_def)

lemma unat_dec: "w \<noteq> 0 \<Longrightarrow> unat (w + word_of_int (- 1)) = unat w - 1" for w :: "'a::len word"
  by (simp add: unat_minus_one)

lemma unat_inc: "unat w < 2 ^ LENGTH('a) - 1 \<Longrightarrow> unat (w + word_of_int 1) = unat w + 1" for w :: "'a::len word"
  by (simp add: unat_word_ariths)

lemma sum_list_map_update:
  fixes f :: "'a \<Rightarrow> nat"
  assumes "k < length xs"
  shows "sum_list (map f (xs[k := y])) + f (xs ! k) = sum_list (map f xs) + f y"
  using assms
proof (induction xs arbitrary: k)
  case (Cons x xs)
  then show ?case by (cases k) auto
qed simp

lemma nbfree_le_sum:
  "k < length gs \<Longrightarrow> unat (ext2bgd_nbfree (gs ! k)) \<le> sum_list (map (\<lambda>g. unat (ext2bgd_nbfree g)) gs)"
  by (rule member_le_sum_list) auto

text \<open>A new bitmap whose counters have been adjusted keeps the invariant.\<close>

lemma blocks_ok_mark:
  fixes cs :: "csum list" and mc :: "int list"
  assumes ok: "blocks_ok ump" and cg: "cg < length (e2fs_gd (um_e2fs ump))"
    and len: "length bm = length (b_bitmap ump cg)"
    and tail: "\<And>i. i < fpg_of (um_e2fs ump) \<Longrightarrow>
      unat (e2fs_bcount (e2fs (um_e2fs ump))) \<le> cg * fpg_of (um_e2fs ump) + first_of (um_e2fs ump) + i \<Longrightarrow> used bm i"
    and zero: "first_of (um_e2fs ump) = 0 \<Longrightarrow> cg = 0 \<Longrightarrow> used bm 0"
    and nb: "unat (ext2bgd_nbfree (e2fs_gd (um_e2fs ump) ! cg) + word_of_int d) = nfree bm (fpg_of (um_e2fs ump))"
    and fb: "unat (e2fs_fbcount (e2fs (um_e2fs ump)) + word_of_int d) + unat (ext2bgd_nbfree (e2fs_gd (um_e2fs ump) ! cg)) =
      unat (e2fs_fbcount (e2fs (um_e2fs ump))) + nfree bm (fpg_of (um_e2fs ump))"
    and cl: "clus_ok ((um_e2fs ump)\<lparr>e2fs_clustersum := cs, e2fs_maxcluster := mc\<rparr>)"
  shows "blocks_ok (mark_ump d ump cg bm cs mc)"
proof -
  let ?fs = "um_e2fs ump" and ?u = "mark_ump d ump cg bm cs mc"
  let ?sum = "\<lambda>gs. sum_list (map (\<lambda>g. unat (ext2bgd_nbfree g)) gs)"
  have g: "geom_ok ?fs" and grp: "\<And>k. k < length (e2fs_gd ?fs) \<Longrightarrow> bgroup_ok ump k"
    and tot: "unat (e2fs_fbcount (e2fs ?fs)) = ?sum (e2fs_gd ?fs)"
    and z: "first_of ?fs = 0 \<longrightarrow> used (b_bitmap ump 0) 0"
    using ok by (auto simp: blocks_ok_def Let_def)
  have fs': "um_e2fs ?u = mark_fs d ?fs cg cs mc" by (simp add: mark_ump_def)
  have gd: "e2fs_gd (mark_fs d ?fs cg cs mc) =
      (e2fs_gd ?fs)[cg := (e2fs_gd ?fs ! cg)\<lparr>ext2bgd_nbfree := ext2bgd_nbfree (e2fs_gd ?fs ! cg) + word_of_int d\<rparr>]"
    by (simp add: mark_fs_def)
  have "bgroup_ok ?u k" if k: "k < length (e2fs_gd ?fs)" for k
    using grp [OF k] grp [OF cg] b_bitmap_mark [OF g cg k] k len tail nb
    by (cases "k = cg") (simp_all add: bgroup_ok_def Let_def fs' gd)
  moreover have "unat (e2fs_fbcount (e2fs (um_e2fs ?u))) = ?sum (e2fs_gd (um_e2fs ?u))"
  proof -
    have "?sum (e2fs_gd (um_e2fs ?u)) + unat (ext2bgd_nbfree (e2fs_gd ?fs ! cg)) =
        ?sum (e2fs_gd ?fs) + nfree bm (fpg_of ?fs)"
      using sum_list_map_update [OF cg, of "\<lambda>g. unat (ext2bgd_nbfree g)"] nb by (simp add: fs' gd)
    moreover have "unat (e2fs_fbcount (e2fs (um_e2fs ?u))) = unat (e2fs_fbcount (e2fs ?fs) + word_of_int d)"
      by (simp add: fs' mark_fs_def)
    ultimately show ?thesis using fb tot by linarith
  qed
  moreover have "used (b_bitmap ?u 0) 0" if "first_of ?fs = 0"
  proof -
    have "0 < length (e2fs_gd ?fs)" using cg by linarith
    from b_bitmap_mark [OF g cg this] z zero that show ?thesis by auto
  qed
  ultimately show ?thesis
    using geom_ok_mark [OF g cl, of d cg] by (simp add: blocks_ok_def Let_def fs')
qed

lemma blocks_ok_take:
  assumes ok: "blocks_ok ump" and cg: "cg < length (e2fs_gd (um_e2fs ump))"
    and i: "i < fpg_of (um_e2fs ump)" "\<not> used (b_bitmap ump cg) i"
    and bm: "setbit (b_bitmap ump cg) (int i) = Ret bm"
    and cl: "clus_ok ((um_e2fs ump)\<lparr>e2fs_clustersum := cs, e2fs_maxcluster := mc\<rparr>)"
  shows "blocks_ok (mark_ump (- 1) ump cg bm cs mc)"
proof -
  let ?fs = "um_e2fs ump"
  let ?nb = "ext2bgd_nbfree (e2fs_gd ?fs ! cg)" and ?fb = "e2fs_fbcount (e2fs ?fs)"
  have grp: "bgroup_ok ump cg" and tot: "unat ?fb = sum_list (map (\<lambda>g. unat (ext2bgd_nbfree g)) (e2fs_gd ?fs))"
    and z: "first_of ?fs = 0 \<longrightarrow> used (b_bitmap ump 0) 0"
    using ok cg by (auto simp: blocks_ok_def Let_def)
  have nb: "unat ?nb = Suc (nfree bm (fpg_of ?fs))"
    using nfree_setbit [OF bm] i grp by (simp add: bgroup_ok_def Let_def)
  have "unat ?nb \<le> unat ?fb" using nbfree_le_sum [OF cg] tot by metis
  with nb have nz: "?nb \<noteq> 0" "?fb \<noteq> 0" and fb: "1 \<le> unat ?fb" by auto
  show ?thesis
  proof (rule blocks_ok_mark [OF ok cg _ _ _ _ _ cl])
    show "length bm = length (b_bitmap ump cg)" using bm by (rule setbit_length)
    show "used bm j" if "j < fpg_of ?fs" "unat (e2fs_bcount (e2fs ?fs)) \<le> cg * fpg_of ?fs + first_of ?fs + j" for j
      using that grp bm by (simp add: setbit_used bgroup_ok_def Let_def)
    show "used bm 0" if "first_of ?fs = 0" "cg = 0" using that z bm by (simp add: setbit_used)
    show "unat (?nb + word_of_int (- 1)) = nfree bm (fpg_of ?fs)" using unat_dec [OF nz(1)] nb by simp
    show "unat (?fb + word_of_int (- 1)) + unat ?nb = unat ?fb + nfree bm (fpg_of ?fs)"
      using unat_dec [OF nz(2)] nb fb by simp
  qed
qed

text \<open>The free counts stay far from their bounds.\<close>

lemma free_total_bound:
  assumes "blocks_ok ump"
  shows "unat (e2fs_fbcount (e2fs (um_e2fs ump))) < 2 ^ 31 - 1"
proof -
  let ?fs = "um_e2fs ump"
  have "unat (ext2bgd_nbfree g) \<le> fpg_of ?fs" if g: "g \<in> set (e2fs_gd ?fs)" for g
  proof -
    obtain k where "k < length (e2fs_gd ?fs)" "e2fs_gd ?fs ! k = g" using g by (auto simp: in_set_conv_nth)
    with assms have "bgroup_ok ump k" "e2fs_gd ?fs ! k = g" by (auto simp: blocks_ok_def Let_def)
    then show ?thesis using nfree_le [of "b_bitmap ump k" "fpg_of ?fs"] by (auto simp: bgroup_ok_def Let_def)
  qed
  then have "sum_list (map (\<lambda>g. unat (ext2bgd_nbfree g)) (e2fs_gd ?fs)) \<le> sum_list (map (\<lambda>g. fpg_of ?fs) (e2fs_gd ?fs))"
    by (intro sum_list_mono) auto
  also have "\<dots> = length (e2fs_gd ?fs) * fpg_of ?fs" by (simp add: sum_list_triv)
  finally show ?thesis using assms by (simp add: blocks_ok_def geom_ok_def Let_def)
qed

lemma blocks_ok_free:
  assumes ok: "blocks_ok ump" and cg: "cg < length (e2fs_gd (um_e2fs ump))"
    and i: "i < fpg_of (um_e2fs ump)" "used (b_bitmap ump cg) i"
    and real: "0 < cg * fpg_of (um_e2fs ump) + first_of (um_e2fs ump) + i"
      "cg * fpg_of (um_e2fs ump) + first_of (um_e2fs ump) + i < unat (e2fs_bcount (e2fs (um_e2fs ump)))"
    and bm: "clrbit (b_bitmap ump cg) (int i) = Ret bm"
    and cl: "clus_ok ((um_e2fs ump)\<lparr>e2fs_clustersum := cs, e2fs_maxcluster := mc\<rparr>)"
  shows "blocks_ok (mark_ump 1 ump cg bm cs mc)"
proof -
  let ?fs = "um_e2fs ump"
  let ?nb = "ext2bgd_nbfree (e2fs_gd ?fs ! cg)" and ?fb = "e2fs_fbcount (e2fs ?fs)"
  have grp: "bgroup_ok ump cg" and z: "first_of ?fs = 0 \<longrightarrow> used (b_bitmap ump 0) 0" and g: "geom_ok ?fs"
    using ok cg by (auto simp: blocks_ok_def Let_def)
  have n: "nfree bm (fpg_of ?fs) = Suc (unat ?nb)"
    using nfree_clrbit [OF bm] i grp by (simp add: bgroup_ok_def Let_def)
  then have "unat ?nb < 2 ^ 16 - 1" using nfree_le [of bm "fpg_of ?fs"] g by (simp add: geom_ok_def)
  then have nb: "unat (?nb + word_of_int 1) = unat ?nb + 1" by (intro unat_inc) simp
  have fb: "unat (?fb + word_of_int 1) = unat ?fb + 1"
    using free_total_bound [OF ok] by (intro unat_inc) simp
  show ?thesis
  proof (rule blocks_ok_mark [OF ok cg _ _ _ _ _ cl])
    show "length bm = length (b_bitmap ump cg)" using bm by (rule clrbit_length)
    show "used bm j" if "j < fpg_of ?fs" "unat (e2fs_bcount (e2fs ?fs)) \<le> cg * fpg_of ?fs + first_of ?fs + j" for j
      using that grp bm real(2) by (auto simp: clrbit_used bgroup_ok_def Let_def)
    show "used bm 0" if "first_of ?fs = 0" "cg = 0" using that z bm real(1) by (simp add: clrbit_used)
    show "unat (?nb + word_of_int 1) = nfree bm (fpg_of ?fs)" using nb n by simp
    show "unat (?fb + word_of_int 1) + unat ?nb = unat ?fb + nfree bm (fpg_of ?fs)" using fb n by simp
  qed
qed

section \<open>\<^verbatim>\<open>ext2_alloccg\<close> and \<^verbatim>\<open>ext2_blkfree\<close> take and return one block\<close>

lemma EXT2_LOCK_free: "\<not> um_lock ump \<Longrightarrow> EXT2_LOCK ump = Ret (ump\<lparr>um_lock := True\<rparr>)"
  by (simp add: EXT2_LOCK_def)

lemma EXT2_UNLOCK_held: "um_lock ump \<Longrightarrow> EXT2_UNLOCK ump = Ret (ump\<lparr>um_lock := False\<rparr>)"
  by (simp add: EXT2_UNLOCK_def)

lemma EXT2_GD_in: "cg < length (e2fs_gd fs) \<Longrightarrow> EXT2_GD fs (int cg) = Ret (e2fs_gd fs ! cg)"
  by (simp add: EXT2_GD_def rd_in)

text \<open>Accounting for one bit of a group: the cluster tables, then the counters.\<close>

lemma acct_count:
  assumes "geom_ok fs" "cg < length (e2fs_gd fs)" "fpg_of fs \<le> 8 * length bm" "i < fpg_of fs"
  obtains cs mc fs1 fs2 where "ext2_clusteracct fs bm (int cg) (int i) d = Ret fs1"
    "count_block fs1 (int cg) d = Ret fs2" "e2fs fs2 = e2fs (mark_fs d fs cg cs mc)"
    "fs2\<lparr>e2fs_fmod := 1\<rparr> = mark_fs d fs cg cs mc" "clus_ok (fs\<lparr>e2fs_clustersum := cs, e2fs_maxcluster := mc\<rparr>)"
proof -
  have "clus_ok fs" using assms(1) by (simp add: geom_ok_def)
  from ext2_clusteracct_safe [OF this _ _ geom_ok_words(1) [OF assms(1)] assms(3), of "int cg" "int i" d]
  obtain fs1 where a: "ext2_clusteracct fs bm (int cg) (int i) d = Ret fs1" "clus_ok fs1"
    using assms(2,4) by auto
  from ext2_clusteracct_frame [OF a(1)] obtain cs mc where
    f: "fs1 = fs\<lparr>e2fs_clustersum := cs, e2fs_maxcluster := mc\<rparr>" by blast
  obtain fs2 where c: "count_block fs1 (int cg) d = Ret fs2"
    "e2fs fs2 = e2fs (mark_fs d fs cg cs mc)" "fs2\<lparr>e2fs_fmod := 1\<rparr> = mark_fs d fs cg cs mc"
    using assms(2) by (auto simp: count_block_def Let_def set_fbcount_def f mark_fs_def EXT2_GD_in put_GD_def wr_in)
  show ?thesis by (rule that [OF a(1) c]) (use a(2) f in simp)
qed

lemma alloccg_block_number:
  assumes "geom_ok fs" "cg < length (e2fs_gd fs)"
  shows "uint (word_of_int (int cg) * e2fs_fpg (e2fs fs) + e2fs_first_dblock (e2fs fs)) = int (cg * fpg_of fs + first_of fs)"
proof -
  have "Suc cg * fpg_of fs \<le> length (e2fs_gd fs) * fpg_of fs" using assms(2) by (intro mult_le_mono1) simp
  then have b: "cg * fpg_of fs + first_of fs < 2 ^ 31" using assms(1) by (simp add: geom_ok_def)
  have "word_of_int (int cg) * e2fs_fpg (e2fs fs) + e2fs_first_dblock (e2fs fs) =
      (word_of_nat (cg * fpg_of fs + first_of fs) :: u32)"
    by (simp add: fpg_of_def first_of_def)
  then have "unat (word_of_int (int cg) * e2fs_fpg (e2fs fs) + e2fs_first_dblock (e2fs fs)) = cg * fpg_of fs + first_of fs"
    using b by (simp add: unat_of_nat del: of_nat_add of_nat_mult)
  then show ?thesis by (metis uint_nat)
qed

lemma ext2_alloccg_full:
  assumes "um_lock ump" "cg < length (e2fs_gd (um_e2fs ump))"
    and "ext2bgd_nbfree (e2fs_gd (um_e2fs ump) ! cg) = 0 \<or> dev_rerr (um_devvp ump) (b_addr (um_e2fs ump) cg) \<noteq> 0"
  shows "ext2_alloccg (int cg) bpref sz ump = Ret (0, ump)"
  using assms
  by (auto simp: ext2_alloccg_def Let_def EXT2_GD_in EXT2_UNLOCK_held EXT2_LOCK_free buf_meta_bread_def b_addr_def)

lemma ext2_alloccg_takes:
  assumes ok: "blocks_ok ump" "um_lock ump" and cg: "cg < length (e2fs_gd (um_e2fs ump))" and "0 \<le> bpref"
    and nb: "ext2bgd_nbfree (e2fs_gd (um_e2fs ump) ! cg) \<noteq> 0"
    and rd: "dev_rerr (um_devvp ump) (b_addr (um_e2fs ump) cg) = 0"
  obtains i bm cs mc where "i < fpg_of (um_e2fs ump)" "\<not> used (b_bitmap ump cg) i"
    "setbit (b_bitmap ump cg) (int i) = Ret bm"
    "clus_ok ((um_e2fs ump)\<lparr>e2fs_clustersum := cs, e2fs_maxcluster := mc\<rparr>)"
    "ext2_alloccg (int cg) bpref sz ump =
       Ret (int (cg * fpg_of (um_e2fs ump) + first_of (um_e2fs ump) + i), mark_ump (- 1) ump cg bm cs mc)"
proof -
  let ?fs = "um_e2fs ump" and ?bm = "b_bitmap ump cg"
  have g: "geom_ok ?fs" and grp: "bgroup_ok ump cg" using ok cg by (auto simp: blocks_ok_def Let_def)
  then have len: "fpg_of ?fs \<le> 8 * length ?bm" and "unat (ext2bgd_nbfree (e2fs_gd ?fs ! cg)) = nfree ?bm (fpg_of ?fs)"
    by (auto simp: bgroup_ok_def Let_def)
  then have "nfree ?bm (fpg_of ?fs) \<noteq> 0" using nb by (metis unat_eq_zero)
  then obtain j where "j < fpg_of ?fs" "\<not> used ?bm j" by (auto simp: nfree_0_iff)
  from alloccg_search_finds [OF g assms(4) len this] obtain r where
    r: "alloccg_search ?fs ?bm (int cg) bpref = Ret r" "0 \<le> r" "r < int (fpg_of ?fs)" "\<not> used ?bm (nat r)" by blast
  define i where "i = nat r"
  have i: "r = int i" "i < fpg_of ?fs" "\<not> used ?bm i" using r by (auto simp: i_def)
  have read: "buf_meta_bread (um_devvp ump) (b_addr ?fs cg) = Inr ?bm"
    using rd by (simp add: buf_meta_bread_def b_bitmap_def)
  obtain bm where bm: "setbit ?bm (int i) = Ret bm" using i len by (simp add: setbit_Ret)
  then have len': "fpg_of ?fs \<le> 8 * length bm" using len setbit_length by metis
  obtain cs mc fs1 fs2 where
    a: "ext2_clusteracct ?fs bm (int cg) (int i) (- 1) = Ret fs1" "count_block fs1 (int cg) (- 1) = Ret fs2"
      "e2fs fs2 = e2fs (mark_fs (- 1) ?fs cg cs mc)" "fs2\<lparr>e2fs_fmod := 1\<rparr> = mark_fs (- 1) ?fs cg cs mc"
    and cl: "clus_ok (?fs\<lparr>e2fs_clustersum := cs, e2fs_maxcluster := mc\<rparr>)"
    by (rule acct_count [OF g cg len' i(2)])
  have "ext2_alloccg (int cg) bpref sz ump =
     Ret (uint (word_of_int (int cg) * e2fs_fpg (e2fs fs2) + e2fs_first_dblock (e2fs fs2)) + int i,
          mark_ump (- 1) ump cg bm cs mc)"
    unfolding ext2_alloccg_def Let_def
    by (simp add: EXT2_GD_in [OF cg] nb EXT2_UNLOCK_held [OF ok(2)] b_addr_def [symmetric] read r(1) [unfolded i(1)] bm
        EXT2_LOCK_free EXT2_UNLOCK_held a(1,2,4) mark_ump_def del: bnd_Ret_iff)
  also have "uint (word_of_int (int cg) * e2fs_fpg (e2fs fs2) + e2fs_first_dblock (e2fs fs2)) =
      int (cg * fpg_of ?fs + first_of ?fs)"
    using alloccg_block_number [OF g cg] a(3) by (simp add: mark_fs_def)
  finally show ?thesis using that [OF i(2,3) bm cl] by simp
qed

section \<open>The rehash reaches every group\<close>

text \<open>
  What \<^verbatim>\<open>ext2_hashalloc\<close> relies on of the allocator it is given (\<^verbatim>\<open>ext2_alloccg\<close> or
  \<^verbatim>\<open>ext2_nodealloccg\<close>): in a state satisfying \<open>inv\<close>, a group that cannot serve answers zero and
  changes nothing, one that can answers something else, related to the states by \<open>got\<close>.
  \<open>okpref\<close> are the preferences the allocator accepts; zero, no preference, is one.
\<close>

locale group_allocator =
  fixes al :: "int \<Rightarrow> int \<Rightarrow> int \<Rightarrow> 's \<Rightarrow> (int \<times> 's) outcome"
    and inv :: "'s \<Rightarrow> bool" and ngroups :: "'s \<Rightarrow> nat" and avail :: "'s \<Rightarrow> nat \<Rightarrow> bool"
    and okpref :: "'s \<Rightarrow> int \<Rightarrow> bool" and got :: "'s \<Rightarrow> nat \<Rightarrow> int \<Rightarrow> 's \<Rightarrow> bool"
  assumes no_pref: "inv s \<Longrightarrow> okpref s 0"
    and fails: "inv s \<Longrightarrow> k < ngroups s \<Longrightarrow> okpref s p \<Longrightarrow> \<not> avail s k \<Longrightarrow> al (int k) p sz s = Ret (0, s)"
    and serves: "inv s \<Longrightarrow> k < ngroups s \<Longrightarrow> okpref s p \<Longrightarrow> avail s k \<Longrightarrow>
      \<exists>r s'. al (int k) p sz s = Ret (r, s') \<and> r \<noteq> 0 \<and> got s k r s'"
begin

definition served :: "'s \<Rightarrow> int \<Rightarrow> 's \<Rightarrow> bool" where
  "served s r s' \<longleftrightarrow> r \<noteq> 0 \<and> (\<exists>k < ngroups s. avail s k \<and> got s k r s')"

lemma call:
  assumes "inv s" "k < ngroups s" "okpref s p"
  shows "al (int k) p sz s = Ret (0, s) \<and> \<not> avail s k \<or> (\<exists>r s'. al (int k) p sz s = Ret (r, s') \<and> served s r s')"
  using fails [OF assms] serves [OF assms, of sz] assms(2) by (cases "avail s k") (auto simp: served_def)

lemma quad:
  assumes "inv s" "1 \<le> i" "c < ngroups s"
  shows "hash_quad al (int (ngroups s)) sz i (int c) s = Ret (0, s) \<and>
       (i < int (ngroups s) \<longrightarrow> \<not> avail s ((c + nat i) mod ngroups s)) \<or>
     (\<exists>r s'. hash_quad al (int (ngroups s)) sz i (int c) s = Ret (r, s') \<and> served s r s')"
  using assms(2,3)
proof (induction "nat (int (ngroups s) - i)" arbitrary: i c rule: less_induct)
  case less
  show ?case
  proof (cases "i < int (ngroups s)")
    case True
    define d where "d = (c + nat i) mod ngroups s"
    have d: "d < ngroups s" using less.prems by (simp add: d_def)
    have e: "(if int c + i \<ge> int (ngroups s) then int c + i - int (ngroups s) else int c + i) = int d"
    proof (cases "int c + i \<ge> int (ngroups s)")
      case T: True
      then have "d = c + nat i - ngroups s"
        using True less.prems by (simp add: d_def mod_if [of "c + nat i"] mod_less)
      then show ?thesis using T less.prems by simp
    qed (use less.prems in \<open>simp add: d_def\<close>)
    have eq: "hash_quad al (int (ngroups s)) sz i (int c) s = bnd (al (int d) 0 sz s) (\<lambda>(result, st).
        if result \<noteq> 0 then Ret (result, st) else hash_quad al (int (ngroups s)) sz (i * 2) (int d) st)"
      using True less.prems(1) by (subst hash_quad.simps) (simp only: Let_def e; simp)
    show ?thesis
      using call [OF assms(1) d no_pref [OF assms(1)], of sz]
    proof (elim disjE conjE exE)
      assume z: "al (int d) 0 sz s = Ret (0, s)" "\<not> avail s d"
      have "nat (int (ngroups s) - i * 2) < nat (int (ngroups s) - i)" "1 \<le> i * 2" using True less.prems by auto
      from less.hyps [OF this d] show ?thesis using eq z unfolding d_def by auto
    next
      fix r s' assume "al (int d) 0 sz s = Ret (r, s')" "served s r s'"
      then show ?thesis using eq by (auto simp: served_def)
    qed
  next
    case False
    then show ?thesis by (subst (1) hash_quad.simps) simp
  qed
qed

lemma brute:
  assumes "inv s" "c < ngroups s"
  shows "hash_brute al (int (ngroups s)) sz i (int c) s = Ret (0, s) \<and>
       (\<forall>j. int j < int (ngroups s) - i \<longrightarrow> \<not> avail s ((c + j) mod ngroups s)) \<or>
     (\<exists>r s'. hash_brute al (int (ngroups s)) sz i (int c) s = Ret (r, s') \<and> served s r s')"
  using assms(2)
proof (induction "nat (int (ngroups s) - i)" arbitrary: i c)
  case 0
  then have "\<not> i < int (ngroups s)" by simp
  then show ?case by (subst (1) hash_brute.simps) auto
next
  case (Suc m)
  then have i: "i < int (ngroups s)" "m = nat (int (ngroups s) - (i + 1))" by auto
  define d where "d = Suc c mod ngroups s"
  have d: "d < ngroups s" using Suc.prems by (simp add: d_def)
  have e: "(if int c + 1 = int (ngroups s) then 0 else int c + 1) = int d"
    using Suc.prems by (cases "Suc c = ngroups s") (simp_all add: d_def)
  have eq: "hash_brute al (int (ngroups s)) sz i (int c) s = bnd (al (int c) 0 sz s) (\<lambda>(result, st).
      if result \<noteq> 0 then Ret (result, st) else hash_brute al (int (ngroups s)) sz (i + 1) (int d) st)"
    using i by (subst hash_brute.simps) (simp only: Let_def e; simp)
  show ?case
    using call [OF assms(1) Suc.prems no_pref [OF assms(1)], of sz]
  proof (elim disjE conjE exE)
    assume z: "al (int c) 0 sz s = Ret (0, s)" "\<not> avail s c"
    have step: "\<not> avail s ((c + j) mod ngroups s)"
      if rest: "\<forall>j. int j < int (ngroups s) - (i + 1) \<longrightarrow> \<not> avail s ((d + j) mod ngroups s)"
        and j: "int j < int (ngroups s) - i" for j
    proof (cases j)
      case 0
      then show ?thesis using z Suc.prems by simp
    next
      case (Suc j')
      then have "\<not> avail s ((d + j') mod ngroups s)" using rest j by simp
      then show ?thesis unfolding Suc d_def by (simp add: mod_add_left_eq)
    qed
    from Suc.hyps(1) [OF i(2) d] show ?thesis using eq z step by auto
  next
    fix r s' assume "al (int c) 0 sz s = Ret (r, s')" "served s r s'"
    then show ?thesis using eq by (auto simp: served_def)
  qed
qed

lemma quad_first:
  assumes "inv s" "c < ngroups s"
  shows "hash_quad al (int (ngroups s)) sz 1 (int c) s = Ret (0, s) \<and>
       (1 < ngroups s \<longrightarrow> \<not> avail s (Suc c mod ngroups s)) \<or>
     (\<exists>r s'. hash_quad al (int (ngroups s)) sz 1 (int c) s = Ret (r, s') \<and> served s r s')"
  using quad [OF assms(1) _ assms(2), of 1 sz] by simp

lemma all_groups:
  assumes "c < n" "\<not> P c" "1 < n \<longrightarrow> \<not> P (Suc c mod n)" "\<forall>j. int j < int n - 2 \<longrightarrow> \<not> P (((c + 2) mod n + j) mod n)"
  shows "\<forall>k<n. \<not> P (k::nat)"
proof (intro allI impI)
  fix k assume k: "k < n"
  define j where "j = (if c \<le> k then k - c else k + n - c)"
  have j: "j < n" "(c + j) mod n = k" using k assms(1) by (auto simp: j_def)
  consider "j = 0" | "j = 1" | j' where "j = j' + 2" by (metis One_nat_def add_2_eq_Suc' not0_implies_Suc)
  then show "\<not> P k"
  proof cases
    case 1
    then show ?thesis using j assms(1,2) by simp
  next
    case 2
    then show ?thesis using j assms(3) by auto
  next
    case 3
    then have "c + 2 + j' = c + j" by simp
    then have "((c + 2) mod n + j') mod n = k" using j(2) mod_add_left_eq [of "c + 2" n j'] by metis
    then show ?thesis using assms(4) [rule_format, of j'] 3 j(1) by auto
  qed
qed

text \<open>The answer is zero only when no group could serve, and then nothing has changed.\<close>

lemma hashalloc_complete:
  assumes "inv s" "c < ngroups s" "okpref s p"
  shows "hashalloc al (int (ngroups s)) (int c) p sz s = Ret (0, s) \<and> (\<forall>k < ngroups s. \<not> avail s k) \<or>
     (\<exists>r s'. hashalloc al (int (ngroups s)) (int c) p sz s = Ret (r, s') \<and> served s r s')"
  using call [OF assms, of sz]
proof (elim disjE conjE exE)
  assume z: "al (int c) p sz s = Ret (0, s)" "\<not> avail s c"
  define d where "d = (c + 2) mod ngroups s"
  have d: "(int c + 2) mod int (ngroups s) = int d" "d < ngroups s" "ngroups s \<noteq> 0"
    using assms(2) by (auto simp: d_def zmod_int ac_simps)
  show ?thesis
    using quad_first [OF assms(1,2), of sz]
  proof (elim disjE conjE exE)
    assume q: "hash_quad al (int (ngroups s)) sz 1 (int c) s = Ret (0, s)" "1 < ngroups s \<longrightarrow> \<not> avail s (Suc c mod ngroups s)"
    have eq: "hashalloc al (int (ngroups s)) (int c) p sz s = hash_brute al (int (ngroups s)) sz 2 (int d) s"
      using z q d by (simp add: hashalloc_def)
    show ?thesis
      using brute [OF assms(1) d(2), of sz 2] all_groups [OF assms(2) z(2) q(2), folded d_def] eq by metis
  next
    fix r s' assume "hash_quad al (int (ngroups s)) sz 1 (int c) s = Ret (r, s')" "served s r s'"
    then show ?thesis using z by (auto simp: hashalloc_def served_def)
  qed
next
  fix r s' assume "al (int c) p sz s = Ret (r, s')" "served s r s'"
  then show ?thesis by (auto simp: hashalloc_def served_def)
qed

end

section \<open>The allocator as a set of blocks\<close>

text \<open>
  The abstract view: block \<open>b\<close> of the volume is allocated when its bit is set. The set is what
  \<^verbatim>\<open>ext2_alloc\<close> and \<^verbatim>\<open>ext2_blkfree\<close> promise to insert into and delete from.
\<close>

definition allocated :: "ext2mount \<Rightarrow> nat \<Rightarrow> bool" where
  "allocated ump b \<longleftrightarrow> (let fs = um_e2fs ump; n = fpg_of fs
     in used (b_bitmap ump ((b - first_of fs) div n)) ((b - first_of fs) mod n))"

definition vol_blocks :: "m_ext2fs \<Rightarrow> nat set" where
  "vol_blocks fs = {first_of fs ..< first_of fs + length (e2fs_gd fs) * fpg_of fs}"

definition block_set :: "ext2mount \<Rightarrow> nat set" where
  "block_set ump = {b \<in> vol_blocks (um_e2fs ump). allocated ump b}"

lemma vol_blocks_group:
  assumes "b \<in> vol_blocks fs"
  shows "(b - first_of fs) div fpg_of fs < length (e2fs_gd fs)"
  using assms by (auto simp: vol_blocks_def less_mult_imp_div_less)

lemma block_coords:
  assumes "b \<in> vol_blocks fs" "i < fpg_of fs"
  shows "(b - first_of fs) div fpg_of fs = cg \<and> (b - first_of fs) mod fpg_of fs = i \<longleftrightarrow> b = cg * fpg_of fs + first_of fs + i"
proof
  assume "(b - first_of fs) div fpg_of fs = cg \<and> (b - first_of fs) mod fpg_of fs = i"
  then have "b - first_of fs = cg * fpg_of fs + i" by (metis div_mult_mod_eq)
  moreover have "first_of fs \<le> b" using assms(1) by (simp add: vol_blocks_def)
  ultimately show "b = cg * fpg_of fs + first_of fs + i" by linarith
next
  assume "b = cg * fpg_of fs + first_of fs + i"
  then have "b - first_of fs = cg * fpg_of fs + i" by simp
  then show "(b - first_of fs) div fpg_of fs = cg \<and> (b - first_of fs) mod fpg_of fs = i"
    using assms(2) by simp
qed

lemma in_vol_blocks: "cg < length (e2fs_gd fs) \<Longrightarrow> i < fpg_of fs \<Longrightarrow> cg * fpg_of fs + first_of fs + i \<in> vol_blocks fs"
proof -
  assume a: "cg < length (e2fs_gd fs)" "i < fpg_of fs"
  then have "Suc cg * fpg_of fs \<le> length (e2fs_gd fs) * fpg_of fs" by (intro mult_le_mono1) simp
  with a show ?thesis by (simp add: vol_blocks_def)
qed

lemma allocated_bit:
  assumes "i < fpg_of (um_e2fs ump)"
  shows "allocated ump (cg * fpg_of (um_e2fs ump) + first_of (um_e2fs ump) + i) = used (b_bitmap ump cg) i"
  using assms by (simp add: allocated_def Let_def)

lemma vol_blocks_mark [simp]: "vol_blocks (mark_fs d fs cg cs mc) = vol_blocks fs"
  by (simp add: vol_blocks_def)

lemma allocated_mark:
  assumes "geom_ok (um_e2fs ump)" "cg < length (e2fs_gd (um_e2fs ump))" "i < fpg_of (um_e2fs ump)"
    and "\<And>j. j \<noteq> i \<Longrightarrow> used bm j = used (b_bitmap ump cg) j" and "b \<in> vol_blocks (um_e2fs ump)"
  shows "allocated (mark_ump d ump cg bm cs mc) b =
     (if b = cg * fpg_of (um_e2fs ump) + first_of (um_e2fs ump) + i then used bm i else allocated ump b)"
proof -
  let ?n = "fpg_of (um_e2fs ump)" and ?f = "first_of (um_e2fs ump)"
  have fs': "um_e2fs (mark_ump d ump cg bm cs mc) = mark_fs d (um_e2fs ump) cg cs mc" by (simp add: mark_ump_def)
  have "allocated (mark_ump d ump cg bm cs mc) b =
     used (if (b - ?f) div ?n = cg then bm else b_bitmap ump ((b - ?f) div ?n)) ((b - ?f) mod ?n)"
    using b_bitmap_mark [OF assms(1,2) vol_blocks_group [OF assms(5)]] by (simp add: allocated_def Let_def fs')
  then show ?thesis
    using block_coords [OF assms(5,3), of cg] assms(4) by (auto simp: allocated_def Let_def)
qed

lemma block_set_take:
  assumes "geom_ok (um_e2fs ump)" "cg < length (e2fs_gd (um_e2fs ump))" "i < fpg_of (um_e2fs ump)"
    and "setbit (b_bitmap ump cg) (int i) = Ret bm"
  shows "block_set (mark_ump d ump cg bm cs mc) =
     insert (cg * fpg_of (um_e2fs ump) + first_of (um_e2fs ump) + i) (block_set ump)"
proof -
  have fs': "um_e2fs (mark_ump d ump cg bm cs mc) = mark_fs d (um_e2fs ump) cg cs mc" by (simp add: mark_ump_def)
  have "used bm j = used (b_bitmap ump cg) j" if "j \<noteq> i" for j using assms(4) that by (simp add: setbit_used)
  from allocated_mark [OF assms(1-3) this] show ?thesis
    using in_vol_blocks [OF assms(2,3)] assms(4) by (auto simp: block_set_def fs' setbit_used)
qed

lemma block_set_free:
  assumes "geom_ok (um_e2fs ump)" "cg < length (e2fs_gd (um_e2fs ump))" "i < fpg_of (um_e2fs ump)"
    and "clrbit (b_bitmap ump cg) (int i) = Ret bm"
  shows "block_set (mark_ump d ump cg bm cs mc) =
     block_set ump - {cg * fpg_of (um_e2fs ump) + first_of (um_e2fs ump) + i}"
proof -
  have fs': "um_e2fs (mark_ump d ump cg bm cs mc) = mark_fs d (um_e2fs ump) cg cs mc" by (simp add: mark_ump_def)
  have "used bm j = used (b_bitmap ump cg) j" if "j \<noteq> i" for j using assms(4) that by (simp add: clrbit_used)
  from allocated_mark [OF assms(1-3) this] show ?thesis
    using assms(4) by (auto simp: block_set_def fs' clrbit_used split: if_splits)
qed

lemma block_set_bcount:
  assumes "blocks_ok ump" "b \<in> vol_blocks (um_e2fs ump)" "b \<notin> block_set ump"
  shows "b < unat (e2fs_bcount (e2fs (um_e2fs ump)))" and "0 < b"
proof -
  let ?fs = "um_e2fs ump"
  let ?cg = "(b - first_of ?fs) div fpg_of ?fs" and ?i = "(b - first_of ?fs) mod fpg_of ?fs"
  have g: "geom_ok ?fs" using assms(1) by (simp add: blocks_ok_def Let_def)
  then have i: "?i < fpg_of ?fs" by (simp add: geom_ok_def)
  have c: "?cg < length (e2fs_gd ?fs)" using assms(2) by (rule vol_blocks_group)
  have b: "b = ?cg * fpg_of ?fs + first_of ?fs + ?i" using block_coords [OF assms(2) i] by blast
  have u: "\<not> used (b_bitmap ump ?cg) ?i" using assms(2,3) by (simp add: block_set_def allocated_def Let_def)
  have "bgroup_ok ump ?cg" using assms(1) c by (simp add: blocks_ok_def Let_def)
  then have "unat (e2fs_bcount (e2fs ?fs)) \<le> ?cg * fpg_of ?fs + first_of ?fs + ?i \<longrightarrow> used (b_bitmap ump ?cg) ?i"
    using i unfolding bgroup_ok_def Let_def by blast
  then show "b < unat (e2fs_bcount (e2fs ?fs))" using u b by (metis not_le)
  show "0 < b"
  proof (rule ccontr)
    assume "\<not> 0 < b"
    then have "b = 0" by simp
    then have "first_of ?fs = 0" using assms(2) by (simp add: vol_blocks_def)
    with assms(1) u \<open>b = 0\<close> show False by (simp add: blocks_ok_def Let_def)
  qed
qed

section \<open>\<^verbatim>\<open>ext2_alloccg\<close> as a group allocator\<close>

definition block_inv :: "ext2mount \<Rightarrow> bool" where
  "block_inv ump \<longleftrightarrow> blocks_ok ump \<and> um_lock ump"

definition block_avail :: "ext2mount \<Rightarrow> nat \<Rightarrow> bool" where
  "block_avail ump cg \<longleftrightarrow> ext2bgd_nbfree (e2fs_gd (um_e2fs ump) ! cg) \<noteq> 0 \<and>
     dev_rerr (um_devvp ump) (b_addr (um_e2fs ump) cg) = 0"

text \<open>
  What a call leaves alone: the errors of the device, every block but the block bitmaps, the length of
  every block, and of the in-memory superblock everything but the free counts and the cluster tables.
\<close>

definition static_fs :: "m_ext2fs \<Rightarrow> m_ext2fs" where
  "static_fs fs = fs\<lparr>e2fs := (e2fs fs)\<lparr>e2fs_fbcount := 0\<rparr>, e2fs_gd := map (\<lambda>g. g\<lparr>ext2bgd_nbfree := 0\<rparr>) (e2fs_gd fs),
     e2fs_fmod := 0, e2fs_clustersum := [], e2fs_maxcluster := []\<rparr>"

definition bitmap_addrs :: "m_ext2fs \<Rightarrow> int set" where
  "bitmap_addrs fs = b_addr fs ` {..<length (e2fs_gd fs)}"

definition same_vol :: "ext2mount \<Rightarrow> ext2mount \<Rightarrow> bool" where
  "same_vol u u' \<longleftrightarrow> dev_rerr (um_devvp u') = dev_rerr (um_devvp u) \<and>
     e2fs_bcount (e2fs (um_e2fs u')) = e2fs_bcount (e2fs (um_e2fs u)) \<and>
     dev_werr (um_devvp u') = dev_werr (um_devvp u) \<and> dev_nobuf (um_devvp u') = dev_nobuf (um_devvp u) \<and>
     (\<forall>a. length (dev_blk (um_devvp u') a) = length (dev_blk (um_devvp u) a)) \<and>
     (\<forall>a. a \<notin> bitmap_addrs (um_e2fs u) \<longrightarrow> dev_blk (um_devvp u') a = dev_blk (um_devvp u) a) \<and>
     static_fs (um_e2fs u') = static_fs (um_e2fs u) \<and>
     um_nindir u' = um_nindir u \<and> um_bptrtodb u' = um_bptrtodb u \<and> um_seqinc u' = um_seqinc u"

lemma static_fs_mark: "static_fs (mark_fs d fs cg cs mc) = static_fs fs"
proof -
  have "(map (\<lambda>g. g\<lparr>ext2bgd_nbfree := 0\<rparr>) (e2fs_gd fs))[cg := (e2fs_gd fs ! cg)\<lparr>ext2bgd_nbfree := 0\<rparr>] =
      map (\<lambda>g. g\<lparr>ext2bgd_nbfree := 0\<rparr>) (e2fs_gd fs)"
    by (cases "cg < length (e2fs_gd fs)") (simp_all add: list_update_same_conv list_update_beyond)
  then show ?thesis by (simp add: static_fs_def mark_fs_def map_update)
qed

lemma same_vol_mark:
  assumes "cg < length (e2fs_gd (um_e2fs ump))" "length bm = length (b_bitmap ump cg)"
  shows "same_vol ump (mark_ump d ump cg bm cs mc)"
  using assms static_fs_mark [of d "um_e2fs ump" cg cs mc]
  by (auto simp: same_vol_def mark_ump_def bitmap_addrs_def b_bitmap_def)

text \<open>One block \<open>r\<close>, free before, has been taken, the invariant holds and the lock is released.\<close>

definition took_block :: "ext2mount \<Rightarrow> int \<Rightarrow> ext2mount \<Rightarrow> bool" where
  "took_block ump r ump' \<longleftrightarrow> (\<exists>b. r = int b \<and> b \<in> vol_blocks (um_e2fs ump) \<and> b \<notin> block_set ump \<and>
     block_set ump' = insert b (block_set ump) \<and> vol_blocks (um_e2fs ump') = vol_blocks (um_e2fs ump) \<and>
     e2fs_fbcount (e2fs (um_e2fs ump')) = e2fs_fbcount (e2fs (um_e2fs ump)) - 1 \<and>
     blocks_ok ump' \<and> \<not> um_lock ump' \<and> same_vol ump ump')"

lemma took_block_mark:
  assumes ok: "blocks_ok ump" and cg: "cg < length (e2fs_gd (um_e2fs ump))"
    and i: "i < fpg_of (um_e2fs ump)" "\<not> used (b_bitmap ump cg) i"
    and bm: "setbit (b_bitmap ump cg) (int i) = Ret bm"
    and cl: "clus_ok ((um_e2fs ump)\<lparr>e2fs_clustersum := cs, e2fs_maxcluster := mc\<rparr>)"
  shows "took_block ump (int (cg * fpg_of (um_e2fs ump) + first_of (um_e2fs ump) + i)) (mark_ump (- 1) ump cg bm cs mc)"
proof -
  let ?b = "cg * fpg_of (um_e2fs ump) + first_of (um_e2fs ump) + i"
  have g: "geom_ok (um_e2fs ump)" using ok by (simp add: blocks_ok_def Let_def)
  have "?b \<notin> block_set ump" using i allocated_bit [OF i(1)] by (simp add: block_set_def)
  then show ?thesis
    unfolding took_block_def
    using block_set_take [OF g cg i(1) bm, of "- 1" cs mc] blocks_ok_take [OF ok cg i bm cl] in_vol_blocks [OF cg i(1)]
      same_vol_mark [OF cg setbit_length [OF bm], of "- 1" cs mc]
    by (intro exI [of _ ?b] conjI) (simp_all add: mark_ump_def, simp_all add: mark_fs_def)
qed

lemma vol_blocks_bound: "geom_ok fs \<Longrightarrow> b \<in> vol_blocks fs \<Longrightarrow> b < 2 ^ 31"
  by (simp add: geom_ok_def vol_blocks_def)

lemma took_block_range:
  assumes "blocks_ok ump" "took_block ump r ump'"
  shows "0 < r" "r < uint (e2fs_bcount (e2fs (um_e2fs ump)))" "r < 2 ^ 31"
proof -
  obtain b where b: "r = int b" "b \<in> vol_blocks (um_e2fs ump)" "b \<notin> block_set ump"
    using assms(2) by (auto simp: took_block_def)
  note bc = block_set_bcount [OF assms(1) b(2,3)]
  then show "0 < r" using b(1) by simp
  have "int b < int (unat (e2fs_bcount (e2fs (um_e2fs ump))))" using bc(1) by linarith
  then show "r < uint (e2fs_bcount (e2fs (um_e2fs ump)))" unfolding b(1) uint_nat .
  show "r < 2 ^ 31"
    using vol_blocks_bound [OF _ b(2)] assms(1) b(1) by (simp add: blocks_ok_def Let_def)
qed

interpretation alloccg: group_allocator ext2_alloccg block_inv "\<lambda>ump. length (e2fs_gd (um_e2fs ump))"
  block_avail "\<lambda>ump p. 0 \<le> p" "\<lambda>ump k. took_block ump"
proof (unfold_locales, goal_cases)
  case (2 ump k p sz)
  then show ?case by (intro ext2_alloccg_full) (auto simp: block_inv_def block_avail_def)
next
  case (3 ump k p sz)
  then have ok: "blocks_ok ump" "um_lock ump" and "ext2bgd_nbfree (e2fs_gd (um_e2fs ump) ! k) \<noteq> 0"
    "dev_rerr (um_devvp ump) (b_addr (um_e2fs ump) k) = 0" by (auto simp: block_inv_def block_avail_def)
  with 3 obtain i bm cs mc where i: "i < fpg_of (um_e2fs ump)" "\<not> used (b_bitmap ump k) i"
    "setbit (b_bitmap ump k) (int i) = Ret bm"
    "clus_ok ((um_e2fs ump)\<lparr>e2fs_clustersum := cs, e2fs_maxcluster := mc\<rparr>)"
    and eq: "ext2_alloccg (int k) p sz ump =
       Ret (int (k * fpg_of (um_e2fs ump) + first_of (um_e2fs ump) + i), mark_ump (- 1) ump k bm cs mc)"
    by (elim ext2_alloccg_takes) auto
  have t: "took_block ump (int (k * fpg_of (um_e2fs ump) + first_of (um_e2fs ump) + i)) (mark_ump (- 1) ump k bm cs mc)"
    by (rule took_block_mark [OF ok(1) 3(2) i])
  with eq took_block_range(1) [OF ok(1) t] show ?case by (metis less_irrefl)
qed simp

end
