(* ===== verification/Ext2_BlockProps.thy ===== *)
theory Ext2_BlockProps
  imports Ext2_Blocks
begin

text \<open>
  What the block allocator promises its callers: \<^verbatim>\<open>ext2_alloc\<close> inserts one block into the set of
  allocated blocks or reports that there is none, \<^verbatim>\<open>ext2_blkfree\<close> deletes one, the two undo each
  other, and in no sequence of calls is a block handed out twice. Also \<^verbatim>\<open>cg_has_sb\<close> against the
  sparse superblock rule.
\<close>

section \<open>\<^verbatim>\<open>ext2_alloc\<close>\<close>

definition no_space :: "ext2mount \<Rightarrow> u32 \<Rightarrow> int \<Rightarrow> bool" where
  "no_space ump uid sz \<longleftrightarrow> (let es = e2fs (um_e2fs ump) in
     sz = sint (e2fs_bsize (um_e2fs ump)) \<and> e2fs_fbcount es = 0 \<or> uid \<noteq> 0 \<and> e2fs_fbcount es < e2fs_rbcount es \<or>
     (\<forall>k < length (e2fs_gd (um_e2fs ump)). \<not> block_avail ump k))"

definition home_ok :: "m_ext2fs \<Rightarrow> u32 \<Rightarrow> bool" where
  "home_ok fs ino \<longleftrightarrow> m_e2fs_ipg fs \<noteq> 0 \<and> unat ((ino - 1) div m_e2fs_ipg fs) < length (e2fs_gd fs)"

lemma int_div_less: "a < n * b \<Longrightarrow> 0 < b \<Longrightarrow> a div b < n" for a b n :: int
proof (rule ccontr)
  assume a: "a < n * b" "0 < b" and "\<not> a div b < n"
  then have "n * b \<le> (a div b) * b" by (intro mult_right_mono) auto
  with a show False using div_mult_mod_eq [of a b] pos_mod_sign [of b a] by linarith
qed

lemma dtog_group:
  assumes g: "geom_ok fs" and b: "0 < bpref" "bpref < uint (e2fs_bcount (e2fs fs))"
  shows "0 \<le> dtog fs bpref \<and> dtog fs bpref < int (length (e2fs_gd fs))"
proof -
  have f: "int (first_of fs) \<le> bpref" using g b(1) by (auto simp: geom_ok_def)
  have "uint (e2fs_bcount (e2fs fs)) = int (unat (e2fs_bcount (e2fs fs)))" by (rule uint_nat)
  also have "\<dots> \<le> int (first_of fs + length (e2fs_gd fs) * fpg_of fs)"
    using g unfolding geom_ok_def zle_int by blast
  finally have "bpref - int (first_of fs) < int (length (e2fs_gd fs)) * int (fpg_of fs)" using b(2) by simp
  moreover have "0 < int (fpg_of fs)" using g by (simp add: geom_ok_def)
  ultimately have "(bpref - int (first_of fs)) div int (fpg_of fs) < int (length (e2fs_gd fs))"
    by (rule int_div_less)
  then show ?thesis
    using f geom_ok_words(4,5) [OF g] by (simp add: dtog_def geom_simps div_int_pos_iff)
qed

lemma group_count: "geom_ok fs \<Longrightarrow> length (e2fs_gd fs) < 2 ^ 31"
proof -
  assume g: "geom_ok fs"
  then have "length (e2fs_gd fs) * 1 \<le> length (e2fs_gd fs) * fpg_of fs"
    by (intro mult_le_mono2) (auto simp: geom_ok_def)
  then show ?thesis using g unfolding geom_ok_def by linarith
qed

text \<open>The group the search starts at: the preferred block's, else the inode's.\<close>

lemma start_group:
  assumes g: "geom_ok fs" and home: "home_ok fs ino" and "0 \<le> bpref"
  defines "p \<equiv> (if bpref \<ge> uint (e2fs_bcount (e2fs fs)) then 0 else bpref)"
  obtains c where "(if p = 0 then ino_to_cg fs ino else Ret (dtog fs p)) = Ret (int c)" "c < length (e2fs_gd fs)"
    "s32 (int c) = int c"
proof -
  have s32: "s32 (int c) = int c" if "c < length (e2fs_gd fs)" for c
    using that group_count [OF g] by (intro s32_small) auto
  show ?thesis
  proof (cases "p = 0")
    case True
    have h: "unat ((ino - 1) div m_e2fs_ipg fs) < length (e2fs_gd fs)" using home by (simp add: home_ok_def)
    show ?thesis
      by (rule that [OF _ h s32 [OF h]]) (use True home in \<open>simp add: home_ok_def ino_to_cg_def\<close>)
  next
    case False
    then have d: "0 \<le> dtog fs p" "dtog fs p < int (length (e2fs_gd fs))"
      using dtog_group [OF g, of p] assms(3) by (auto simp: p_def split: if_splits)
    then have h: "nat (dtog fs p) < length (e2fs_gd fs)" by linarith
    show ?thesis by (rule that [OF _ h s32 [OF h]]) (use False d in simp)
  qed
qed

lemma ext2_alloc_spec:
  assumes ok: "blocks_ok ump" and lock: "um_lock ump" and home: "home_ok (um_e2fs ump) (i_number ip)" and "0 \<le> bpref"
  shows "if no_space ump uid sz then ext2_alloc ip lbn bpref sz uid ump = Ret (ENOSPC, 0, ip, ump\<lparr>um_lock := False\<rparr>)
     else \<exists>b ip' ump'. ext2_alloc ip lbn bpref sz uid ump = Ret (0, b, ip', ump') \<and> took_block ump b ump' \<and>
       0 < b \<and> b < uint (e2fs_bcount (e2fs (um_e2fs ump))) \<and>
       i_blocks ip' = i_blocks ip + ucast (drop_bit 9 (e2fs_bsize (um_e2fs ump))) \<and>
       i_next_alloc_goal ip' = word_of_int b \<and> i_next_alloc_block ip' = word_of_int lbn"
proof -
  let ?fs = "um_e2fs ump"
  define p where "p = (if bpref \<ge> uint (e2fs_bcount (e2fs ?fs)) then 0 else bpref)"
  have g: "geom_ok ?fs" and inv: "block_inv ump" and p: "0 \<le> p"
    using ok lock assms(4) by (auto simp: blocks_ok_def Let_def block_inv_def p_def)
  obtain c where c: "(if p = 0 then ino_to_cg ?fs (i_number ip) else Ret (dtog ?fs p)) = Ret (int c)"
    "c < length (e2fs_gd ?fs)" "s32 (int c) = int c"
    unfolding p_def by (rule start_group [OF g home assms(4)])
  have un: "EXT2_UNLOCK ump = Ret (ump\<lparr>um_lock := False\<rparr>)" using lock by (rule EXT2_UNLOCK_held)
  show ?thesis
  proof (cases "sz = sint (e2fs_bsize ?fs) \<and> e2fs_fbcount (e2fs ?fs) = 0 \<or> uid \<noteq> 0 \<and> e2fs_fbcount (e2fs ?fs) < e2fs_rbcount (e2fs ?fs)")
    case True
    then show ?thesis using un by (auto simp: no_space_def Let_def ext2_alloc_def)
  next
    case False
    define ha where "ha = ext2_hashalloc ext2_alloccg (int c) p (sint (e2fs_bsize ?fs)) ump"
    have h: "ha = hashalloc ext2_alloccg (int (length (e2fs_gd ?fs))) (int c) p (sint (e2fs_bsize ?fs)) ump"
      by (simp add: ha_def ext2_hashalloc_def geom_ok_words(3) [OF g])
    have eq: "ext2_alloc ip lbn bpref sz uid ump = bnd ha (\<lambda>(r, ump).
           let bno = s32 r in
           if bno > 0 then
             Ret (0, bno,
               ip\<lparr>i_next_alloc_block := word_of_int lbn, i_next_alloc_goal := word_of_int bno,
                  i_blocks := i_blocks ip + ucast (drop_bit 9 (e2fs_bsize ?fs)),
                  i_flag := i_flag ip OR (IN_CHANGE OR IN_UPDATE)\<rparr>, ump)
           else bnd (EXT2_UNLOCK ump) (\<lambda>ump. Ret (ENOSPC, 0, ip, ump)))"
    proof -
      have "(sz = sint (e2fs_bsize ?fs) \<and> e2fs_fbcount (e2fs ?fs) = 0) = False"
        "(uid \<noteq> 0 \<and> e2fs_fbcount (e2fs ?fs) < e2fs_rbcount (e2fs ?fs)) = False" using False by blast+
      then show ?thesis
        unfolding ext2_alloc_def Let_def p_def [symmetric] c(1) bnd.simps c(3) ha_def [symmetric] by (simp only: if_False)
    qed
    show ?thesis
      using alloccg.hashalloc_complete [OF inv c(2) p, of "sint (e2fs_bsize ?fs)"]
    proof (elim disjE conjE exE)
      assume "hashalloc ext2_alloccg (int (length (e2fs_gd ?fs))) (int c) p (sint (e2fs_bsize ?fs)) ump = Ret (0, ump)"
        "\<forall>k < length (e2fs_gd ?fs). \<not> block_avail ump k"
      then show ?thesis using eq h un False by (simp add: no_space_def Let_def)
    next
      fix r u assume r: "hashalloc ext2_alloccg (int (length (e2fs_gd ?fs))) (int c) p (sint (e2fs_bsize ?fs)) ump = Ret (r, u)"
        and s: "alloccg.served ump r u"
      then have t: "took_block ump r u" and a: "\<exists>k < length (e2fs_gd ?fs). block_avail ump k"
        by (auto simp: alloccg.served_def)
      note rng = took_block_range [OF ok t]
      have "s32 r = r" using rng by simp
      then show ?thesis using eq h r t a rng False by (auto simp: no_space_def Let_def)
    qed
  qed
qed

text \<open>C1. \<^verbatim>\<open>ext2_alloc\<close> on a consistent volume, called with the mount lock held: it fails with
  \<^verbatim>\<open>ENOSPC\<close> exactly when the volume is full, the rest is reserved for the superuser, or no group with
  a readable bitmap has a free block, and then changes nothing; otherwise it returns a block of the
  volume that was free, marks that block and no other, charges the inode for it, and keeps every
  bitmap and counter consistent. The lock is released in every case.\<close>

theorem ext2_alloc_correct:
  assumes ok: "blocks_ok ump" and lock: "um_lock ump" and home: "home_ok (um_e2fs ump) (i_number ip)" and "0 \<le> bpref"
  shows "if no_space ump uid sz then ext2_alloc ip lbn bpref sz uid ump = Ret (ENOSPC, 0, ip, ump\<lparr>um_lock := False\<rparr>)
     else \<exists>b ip' ump'. ext2_alloc ip lbn bpref sz uid ump = Ret (0, b, ip', ump') \<and> took_block ump b ump' \<and>
       0 < b \<and> b < uint (e2fs_bcount (e2fs (um_e2fs ump))) \<and>
       i_blocks ip' = i_blocks ip + ucast (drop_bit 9 (e2fs_bsize (um_e2fs ump))) \<and>
       i_next_alloc_goal ip' = word_of_int b \<and> i_next_alloc_block ip' = word_of_int lbn"
  by (rule ext2_alloc_spec [OF assms])

text \<open>A volume of two groups of eight blocks of one kilobyte. The first four blocks of group 0 are
  in use, group 1 is full.\<close>

definition demo_mount :: ext2mount where
  "demo_mount = \<lparr>um_devvp = \<lparr>dev_blk = (\<lambda>a. if a = 6 then [0x0f] else if a = 8 then [0xff] else []),
       dev_rerr = (\<lambda>a. 0), dev_werr = (\<lambda>a. 0), dev_nobuf = (\<lambda>a. False)\<rparr>,
     um_e2fs = zero_fs\<lparr>e2fs := zero_sb\<lparr>e2fs_bcount := 17, e2fs_fpg := 8, e2fs_bpg := 8, e2fs_ipg := 8, e2fs_icount := 16,
         e2fs_first_dblock := 1, e2fs_fbcount := 4, e2fs_rbcount := 0\<rparr>,
       m_e2fs_bpg := 8, m_e2fs_ipg := 8, e2fs_bsize := 1024, e2fs_fsbtodb := 1, e2fs_gcount := 2, e2fs_contigsumsize := 4,
       e2fs_gd := [zero_gd\<lparr>ext2bgd_b_bitmap := 3, ext2bgd_i_bitmap := 5, ext2bgd_nbfree := 4\<rparr>,
                   zero_gd\<lparr>ext2bgd_b_bitmap := 4, ext2bgd_i_bitmap := 6, ext2bgd_nbfree := 0\<rparr>],
       e2fs_clustersum := replicate 2 \<lparr>cs_init = 0, cs_sum = replicate 5 0\<rparr>, e2fs_maxcluster := [4, 4]\<rparr>,
     um_nindir = 256, um_bptrtodb = 1, um_seqinc = 2, um_lock = True\<rparr>"

lemma demo_mount_simps:
  "fpg_of (um_e2fs demo_mount) = 8" "first_of (um_e2fs demo_mount) = 1" "length (e2fs_gd (um_e2fs demo_mount)) = 2"
  "b_bitmap demo_mount 0 = [0x0f]" "b_bitmap demo_mount (Suc 0) = [0xff]"
  "e2fs_bcount (e2fs (um_e2fs demo_mount)) = 17" "um_lock demo_mount"
  "ext2bgd_nbfree (e2fs_gd (um_e2fs demo_mount) ! 0) = 4" "ext2bgd_nbfree (e2fs_gd (um_e2fs demo_mount) ! Suc 0) = 0"
  by (simp_all add: demo_mount_def fpg_of_def first_of_def b_bitmap_def b_addr_def fsbtodb_def push_bit_eq_mult)

lemma demo_geom_ok: "geom_ok (um_e2fs demo_mount)"
  by (simp add: geom_ok_def clus_ok_def demo_mount_simps) (simp add: demo_mount_def zero_fs_def)

lemma demo_bgroup_ok: "bgroup_ok demo_mount 0" "bgroup_ok demo_mount (Suc 0)"
proof -
  have f: "nfree [0x0f] 8 = 4" "nfree [0xff] 8 = 0" by code_simp+
  then have "\<forall>i<8. used [0xff] i" by (simp add: nfree_0_iff)
  then show "bgroup_ok demo_mount 0" "bgroup_ok demo_mount (Suc 0)"
    by (simp_all add: bgroup_ok_def Let_def demo_mount_simps f)
qed

lemma demo_blocks_ok: "blocks_ok demo_mount"
  using demo_geom_ok demo_bgroup_ok
  by (auto simp: blocks_ok_def Let_def demo_mount_simps less_2_cases_iff) (simp add: demo_mount_def)

theorem ext2_alloc_correct_witness:
  "\<exists>b ip' ump'. ext2_alloc (zero_inode\<lparr>i_number := 2\<rparr>) 0 0 1024 0 demo_mount = Ret (0, b, ip', ump') \<and>
     took_block demo_mount b ump' \<and> 0 < b \<and> b < 17"
proof -
  have h: "home_ok (um_e2fs demo_mount) (i_number (zero_inode\<lparr>i_number := 2\<rparr>))"
    "\<not> no_space demo_mount 0 1024"
    by code_simp+
  show ?thesis
    using ext2_alloc_correct [OF demo_blocks_ok demo_mount_simps(7) h(1), of 0 0 1024 0] h(2) by (auto simp: demo_mount_simps)
qed

section \<open>\<^verbatim>\<open>ext2_blkfree\<close>\<close>

definition freed_block :: "ext2mount \<Rightarrow> nat \<Rightarrow> ext2mount \<Rightarrow> bool" where
  "freed_block ump b ump' \<longleftrightarrow> block_set ump' = block_set ump - {b} \<and>
     vol_blocks (um_e2fs ump') = vol_blocks (um_e2fs ump) \<and>
     e2fs_fbcount (e2fs (um_e2fs ump')) = e2fs_fbcount (e2fs (um_e2fs ump)) + 1 \<and> blocks_ok ump' \<and> \<not> um_lock ump' \<and>
     same_vol ump ump'"

lemma real_block:
  assumes g: "geom_ok fs" and b: "0 < b" "b < unat (e2fs_bcount (e2fs fs))"
  obtains cg i where "b = cg * fpg_of fs + first_of fs + i" "cg < length (e2fs_gd fs)" "i < fpg_of fs"
    "dtog fs (int b) = int cg" "dtogd fs (int b) = int i" "s32 (int cg) = int cg"
proof -
  define cg i where "cg = (b - first_of fs) div fpg_of fs" and "i = (b - first_of fs) mod fpg_of fs"
  have v: "b \<in> vol_blocks fs" using g b by (auto simp: vol_blocks_def geom_ok_def)
  have i: "i < fpg_of fs" using g by (simp add: i_def geom_ok_def)
  have c: "cg < length (e2fs_gd fs)" using vol_blocks_group [OF v] by (simp add: cg_def)
  have e: "b = cg * fpg_of fs + first_of fs + i" using block_coords [OF v i, of cg] by (simp add: cg_def i_def)
  then have "int b = blk_of fs (int cg) (int i)" by (simp add: blk_of_def geom_ok_words [OF g])
  then have "dtog fs (int b) = int cg" "dtogd fs (int b) = int i"
    using dtog_blk_of [of "int cg" "int i" fs] i by (simp_all add: geom_ok_words [OF g])
  moreover have "s32 (int cg) = int cg" using c group_count [OF g] by (intro s32_small) auto
  ultimately show ?thesis using that e c i by blast
qed

lemma unat_word_of_int_nat: "b < 2 ^ 31 \<Longrightarrow> unat (word_of_int (int b) :: u32) = b"
  by (subst unat_word_of_int_small) auto

lemma ext2_blkfree_real:
  assumes ok: "blocks_ok ump" and lock: "\<not> um_lock ump" and b: "0 < b" "b < unat (e2fs_bcount (e2fs (um_e2fs ump)))"
    and e: "b = cg * fpg_of (um_e2fs ump) + first_of (um_e2fs ump) + i" "cg < length (e2fs_gd (um_e2fs ump))"
      "i < fpg_of (um_e2fs ump)" "dtog (um_e2fs ump) (int b) = int cg" "dtogd (um_e2fs ump) (int b) = int i" "s32 (int cg) = int cg"
    and rd: "dev_rerr (um_devvp ump) (b_addr (um_e2fs ump) cg) = 0"
  shows "\<not> used (b_bitmap ump cg) i \<Longrightarrow> ext2_blkfree (int b) ump = Fault (Panic ''ext2_blkfree: freeing free block'')"
    and "used (b_bitmap ump cg) i \<Longrightarrow> \<exists>bm cs mc. clrbit (b_bitmap ump cg) (int i) = Ret bm \<and>
       clus_ok ((um_e2fs ump)\<lparr>e2fs_clustersum := cs, e2fs_maxcluster := mc\<rparr>) \<and>
       ext2_blkfree (int b) ump = Ret (mark_ump 1 ump cg bm cs mc)"
proof -
  let ?fs = "um_e2fs ump" and ?bm = "b_bitmap ump cg"
  have g: "geom_ok ?fs" and grp: "bgroup_ok ump cg" using ok e(2) by (auto simp: blocks_ok_def Let_def)
  have len: "fpg_of ?fs \<le> 8 * length ?bm" using grp by (simp add: bgroup_ok_def Let_def)
  have read: "buf_meta_bread (um_devvp ump) (b_addr ?fs cg) = Inr ?bm"
    using rd by (simp add: buf_meta_bread_def b_bitmap_def)
  have "b \<in> vol_blocks ?fs" using in_vol_blocks [OF e(2,3)] e(1) by simp
  then have "unat (word_of_int (int b) :: u32) = b" using vol_blocks_bound [OF g] by (intro unat_word_of_int_nat)
  then have bc: "((word_of_int (int b) :: u32) \<ge> e2fs_bcount (e2fs ?fs)) = False"
    using b(2) by (simp add: word_le_nat_alt)
  have clr: "isclr ?bm (int i) = Ret (\<not> used ?bm i)" using isclr_eq [of "int i" ?bm] len e(3) by simp
  note step = ext2_blkfree_def Let_def e(4-6) bc if_False EXT2_GD_in [OF e(2)] bnd.simps b_addr_def [symmetric] read sum.case clr
  show "ext2_blkfree (int b) ump = Fault (Panic ''ext2_blkfree: freeing free block'')" if "\<not> used ?bm i"
    using that unfolding step by simp
  assume u: "used ?bm i"
  obtain bm where bm: "clrbit ?bm (int i) = Ret bm" using e(3) len by (simp add: clrbit_Ret)
  then have len': "fpg_of ?fs \<le> 8 * length bm" using len clrbit_length by metis
  obtain cs mc fs1 fs2 where
    a: "ext2_clusteracct ?fs bm (int cg) (int i) 1 = Ret fs1" "count_block fs1 (int cg) 1 = Ret fs2"
      "e2fs fs2 = e2fs (mark_fs 1 ?fs cg cs mc)" "fs2\<lparr>e2fs_fmod := 1\<rparr> = mark_fs 1 ?fs cg cs mc"
    and cl: "clus_ok (?fs\<lparr>e2fs_clustersum := cs, e2fs_maxcluster := mc\<rparr>)"
    by (rule acct_count [OF g e(2) len' e(3)])
  have "ext2_blkfree (int b) ump = Ret (mark_ump 1 ump cg bm cs mc)"
    using u unfolding step
    by (simp add: bm lock EXT2_LOCK_free EXT2_UNLOCK_held a(1,2,4) mark_ump_def del: bnd_Ret_iff)
  with bm cl show "\<exists>bm cs mc. clrbit ?bm (int i) = Ret bm \<and>
      clus_ok (?fs\<lparr>e2fs_clustersum := cs, e2fs_maxcluster := mc\<rparr>) \<and>
      ext2_blkfree (int b) ump = Ret (mark_ump 1 ump cg bm cs mc)" by blast
qed

lemma ext2_blkfree_spec:
  assumes ok: "blocks_ok ump" and lock: "\<not> um_lock ump" and b: "0 < b" "b < unat (e2fs_bcount (e2fs (um_e2fs ump)))"
    and rd: "\<And>k. k < length (e2fs_gd (um_e2fs ump)) \<Longrightarrow> dev_rerr (um_devvp ump) (b_addr (um_e2fs ump) k) = 0"
  shows "if b \<in> block_set ump then \<exists>ump'. ext2_blkfree (int b) ump = Ret ump' \<and> freed_block ump b ump'
     else ext2_blkfree (int b) ump = Fault (Panic ''ext2_blkfree: freeing free block'')"
proof -
  have g: "geom_ok (um_e2fs ump)" using ok by (simp add: blocks_ok_def Let_def)
  obtain cg i where e: "b = cg * fpg_of (um_e2fs ump) + first_of (um_e2fs ump) + i" "cg < length (e2fs_gd (um_e2fs ump))"
    "i < fpg_of (um_e2fs ump)" "dtog (um_e2fs ump) (int b) = int cg" "dtogd (um_e2fs ump) (int b) = int i" "s32 (int cg) = int cg"
    by (rule real_block [OF g b])
  note r = ext2_blkfree_real [OF ok lock b e rd [OF e(2)]]
  have u: "b \<in> block_set ump \<longleftrightarrow> used (b_bitmap ump cg) i"
    using in_vol_blocks [OF e(2,3)] allocated_bit [OF e(3), of cg] e(1) by (simp add: block_set_def)
  show ?thesis
  proof (cases "b \<in> block_set ump")
    case True
    then obtain bm cs mc where m: "clrbit (b_bitmap ump cg) (int i) = Ret bm"
      "clus_ok ((um_e2fs ump)\<lparr>e2fs_clustersum := cs, e2fs_maxcluster := mc\<rparr>)"
      "ext2_blkfree (int b) ump = Ret (mark_ump 1 ump cg bm cs mc)" using r(2) u by blast
    have "blocks_ok (mark_ump 1 ump cg bm cs mc)"
      using blocks_ok_free [OF ok e(2,3) _ _ _ m(1,2)] True u b e(1) by simp
    then have "freed_block ump b (mark_ump 1 ump cg bm cs mc)"
      using block_set_free [OF g e(2,3) m(1), of 1 cs mc] e(1) same_vol_mark [OF e(2) clrbit_length [OF m(1)], of 1 cs mc]
      by (simp add: freed_block_def mark_ump_def) (simp add: mark_fs_def)
    with True m(3) show ?thesis by auto
  next
    case False
    with r(1) u show ?thesis by simp
  qed
qed

text \<open>C15. \<^verbatim>\<open>ext2_blkfree\<close> of a block of the volume whose bitmap can be read: it panics when the block
  is free, and otherwise frees that block and no other, with every counter and bitmap consistent and
  the lock released.\<close>

theorem ext2_blkfree_correct:
  assumes ok: "blocks_ok ump" and lock: "\<not> um_lock ump" and b: "0 < b" "b < unat (e2fs_bcount (e2fs (um_e2fs ump)))"
    and rd: "\<And>k. k < length (e2fs_gd (um_e2fs ump)) \<Longrightarrow> dev_rerr (um_devvp ump) (b_addr (um_e2fs ump) k) = 0"
  shows "if b \<in> block_set ump then \<exists>ump'. ext2_blkfree (int b) ump = Ret ump' \<and> freed_block ump b ump'
     else ext2_blkfree (int b) ump = Fault (Panic ''ext2_blkfree: freeing free block'')"
  by (rule ext2_blkfree_spec [OF assms])

definition demo_free :: ext2mount where
  "demo_free = demo_mount\<lparr>um_lock := False\<rparr>"

lemma demo_free_simps [simp]:
  "um_e2fs demo_free = um_e2fs demo_mount" "um_devvp demo_free = um_devvp demo_mount" "\<not> um_lock demo_free"
  "b_bitmap demo_free k = b_bitmap demo_mount k" "block_set demo_free = block_set demo_mount"
  by (simp_all add: demo_free_def b_bitmap_def block_set_def allocated_def Let_def)

lemma demo_free_ok: "blocks_ok demo_free"
  using demo_blocks_ok by (simp add: blocks_ok_def bgroup_ok_def Let_def)

lemma demo_block_set: "Suc 0 \<in> block_set demo_mount" "5 \<notin> block_set demo_mount"
  by (simp_all add: block_set_def vol_blocks_def allocated_def Let_def demo_mount_simps) code_simp+

theorem ext2_blkfree_correct_witness:
  "(\<exists>ump'. ext2_blkfree 1 demo_free = Ret ump' \<and> freed_block demo_free 1 ump') \<and>
   ext2_blkfree 5 demo_free = Fault (Panic ''ext2_blkfree: freeing free block'')"
proof -
  have rd: "dev_rerr (um_devvp demo_free) (b_addr (um_e2fs demo_free) k) = 0" for k
    by (simp add: demo_mount_def)
  show ?thesis
    using ext2_blkfree_correct [OF demo_free_ok demo_free_simps(3), of 1] ext2_blkfree_correct [OF demo_free_ok demo_free_simps(3), of 5]
      rd demo_block_set by (simp add: demo_mount_simps)
qed

section \<open>Allocating and freeing undo each other\<close>

lemma mark_back:
  assumes "geom_ok fs" "cg < length (e2fs_gd fs)"
  shows "e2fs (mark_fs 1 (mark_fs (- 1) fs cg cs mc) cg cs' mc') = e2fs fs"
    and "e2fs_gd (mark_fs 1 (mark_fs (- 1) fs cg cs mc) cg cs' mc') = e2fs_gd fs"
  using assms(2) by (simp_all add: mark_fs_def)

text \<open>Freeing the block that \<^verbatim>\<open>ext2_alloccg\<close> just returned restores the volume: every block of the
  device, the superblock and the group descriptors are what they were before the allocation.\<close>

theorem alloccg_blkfree_roundtrip:
  assumes ok: "blocks_ok ump" "um_lock ump" and cg: "cg < length (e2fs_gd (um_e2fs ump))" and "0 \<le> bpref"
    and "ext2_alloccg (int cg) bpref sz ump = Ret (b, ump')" "b \<noteq> 0"
  shows "\<exists>ump''. ext2_blkfree b ump' = Ret ump'' \<and> um_devvp ump'' = um_devvp ump \<and>
     e2fs (um_e2fs ump'') = e2fs (um_e2fs ump) \<and> e2fs_gd (um_e2fs ump'') = e2fs_gd (um_e2fs ump) \<and>
     blocks_ok ump'' \<and> block_set ump'' = block_set ump"
proof -
  let ?fs = "um_e2fs ump"
  have g: "geom_ok ?fs" and inv: "block_inv ump" using ok by (auto simp: blocks_ok_def Let_def block_inv_def)
  have av: "ext2bgd_nbfree (e2fs_gd ?fs ! cg) \<noteq> 0" "dev_rerr (um_devvp ump) (b_addr ?fs cg) = 0"
    using ext2_alloccg_full [OF ok(2) cg, of bpref sz] assms(5,6) by auto
  obtain i bm cs mc where i: "i < fpg_of ?fs" "\<not> used (b_bitmap ump cg) i"
    and bm: "setbit (b_bitmap ump cg) (int i) = Ret bm"
    and cl: "clus_ok (?fs\<lparr>e2fs_clustersum := cs, e2fs_maxcluster := mc\<rparr>)"
    and eq: "ext2_alloccg (int cg) bpref sz ump = Ret (int (cg * fpg_of ?fs + first_of ?fs + i), mark_ump (- 1) ump cg bm cs mc)"
    by (rule ext2_alloccg_takes [OF ok cg assms(4) av])
  define b' where "b' = cg * fpg_of ?fs + first_of ?fs + i"
  have b: "b = int b'" and u': "ump' = mark_ump (- 1) ump cg bm cs mc" using eq assms(5) by (auto simp: b'_def)
  have t: "took_block ump b ump'" using took_block_mark [OF ok(1) cg i bm cl] by (simp add: b b'_def u')
  have fs': "um_e2fs ump' = mark_fs (- 1) ?fs cg cs mc" by (simp add: u' mark_ump_def)
  have ok': "blocks_ok ump'" "\<not> um_lock ump'" using t by (auto simp: took_block_def)
  have bs': "0 < b'" "b' < unat (e2fs_bcount (e2fs (um_e2fs ump')))"
    using took_block_range(1,2) [OF ok(1) t] unfolding b fs' uint_nat mark_fs_e2fs by linarith+
  have g': "geom_ok (um_e2fs ump')" using ok'(1) by (simp add: blocks_ok_def Let_def)
  have blk: "int b' = blk_of (um_e2fs ump') (int cg) (int i)"
    using geom_ok_words [OF g'] by (simp add: blk_of_def b'_def fs')
  have e: "b' = cg * fpg_of (um_e2fs ump') + first_of (um_e2fs ump') + i" "cg < length (e2fs_gd (um_e2fs ump'))"
    "i < fpg_of (um_e2fs ump')" "dtog (um_e2fs ump') (int b') = int cg" "dtogd (um_e2fs ump') (int b') = int i"
    "s32 (int cg) = int cg"
    using cg i(1) dtog_blk_of [of "int cg" "int i" "um_e2fs ump'"] geom_ok_words [OF g'] group_count [OF g]
    unfolding blk by (simp_all add: fs' b'_def)
  have bit: "b_bitmap ump' cg = bm" using b_bitmap_mark [OF g cg cg] by (simp add: u')
  have used: "used (b_bitmap ump' cg) i" using bit setbit_used [OF bm] by simp
  have rd: "dev_rerr (um_devvp ump') (b_addr (um_e2fs ump') cg) = 0" using av(2) cg by (simp add: u' mark_ump_def)
  obtain bm2 cs' mc' where f: "clrbit bm (int i) = Ret bm2"
    "clus_ok ((um_e2fs ump')\<lparr>e2fs_clustersum := cs', e2fs_maxcluster := mc'\<rparr>)"
    "ext2_blkfree (int b') ump' = Ret (mark_ump 1 ump' cg bm2 cs' mc')"
    using ext2_blkfree_real(2) [OF ok' bs' e rd used] bit by auto
  let ?u = "mark_ump 1 ump' cg bm2 cs' mc'"
  have bm2: "bm2 = b_bitmap ump cg" using setbit_clrbit [OF bm] i(2) f(1) by simp
  have "um_devvp ?u = um_devvp ump"
    using cg by (simp add: mark_ump_def u' bm2 buf_bdwrite_def b_bitmap_def)
  moreover have "e2fs (um_e2fs ?u) = e2fs ?fs" "e2fs_gd (um_e2fs ?u) = e2fs_gd ?fs"
    using mark_back [OF g cg] by (simp_all add: mark_ump_def u')
  moreover have "blocks_ok ?u"
    using blocks_ok_free [OF ok'(1) e(2,3) used _ _ _ f(2), of bm2] bs' f(1) bit e(1) by simp
  moreover have "b' \<notin> block_set ump" "block_set ump' = insert b' (block_set ump)"
    using t b by (auto simp: took_block_def)
  then have "block_set ?u = block_set ump"
    using block_set_free [OF g' e(2,3), of bm2 1 cs' mc'] f(1) bit by (simp add: e(1) [symmetric])
  ultimately show ?thesis using f(3) b by blast
qed

theorem alloccg_blkfree_roundtrip_witness:
  "\<exists>b ump' ump''. ext2_alloccg 0 0 1024 demo_mount = Ret (b, ump') \<and> ext2_blkfree b ump' = Ret ump'' \<and>
     um_devvp ump'' = um_devvp demo_mount \<and> block_set ump'' = block_set demo_mount"
proof -
  have av: "ext2bgd_nbfree (e2fs_gd (um_e2fs demo_mount) ! 0) \<noteq> 0" "dev_rerr (um_devvp demo_mount) (b_addr (um_e2fs demo_mount) 0) = 0"
    by (simp_all add: demo_mount_simps) (simp add: demo_mount_def)
  have "block_inv demo_mount" "block_avail demo_mount 0"
    using demo_blocks_ok av by (simp_all add: block_inv_def block_avail_def demo_mount_simps)
  from alloccg.serves [OF this(1) _ _ this(2), of 0 1024] obtain b ump' where
    a: "ext2_alloccg (int 0) 0 1024 demo_mount = Ret (b, ump')" "b \<noteq> 0" by (auto simp: demo_mount_simps)
  show ?thesis
    using alloccg_blkfree_roundtrip [OF demo_blocks_ok demo_mount_simps(7) _ _ a] a(1) by (auto simp: demo_mount_simps)
qed

section \<open>Sequences of calls\<close>

text \<open>
  The callers of the allocator: each step takes the mount lock and calls \<^verbatim>\<open>ext2_alloc\<close> for some
  inode, or frees a block that an earlier call returned. \<open>owned\<close> is the set of blocks handed out and
  not yet returned.
\<close>

inductive vol_step :: "ext2mount \<times> nat set \<Rightarrow> ext2mount \<times> nat set \<Rightarrow> bool" where
  take: "EXT2_LOCK ump = Ret ump1 \<Longrightarrow> home_ok (um_e2fs ump) (i_number ip) \<Longrightarrow> 0 \<le> bpref \<Longrightarrow>
    ext2_alloc ip lbn bpref sz uid ump1 = Ret (0, b, ip', ump') \<Longrightarrow> vol_step (ump, owned) (ump', insert (nat b) owned)"
| full: "EXT2_LOCK ump = Ret ump1 \<Longrightarrow> home_ok (um_e2fs ump) (i_number ip) \<Longrightarrow> 0 \<le> bpref \<Longrightarrow>
    ext2_alloc ip lbn bpref sz uid ump1 = Ret (ENOSPC, b, ip', ump') \<Longrightarrow> vol_step (ump, owned) (ump', owned)"
| give: "b \<in> owned \<Longrightarrow> ext2_blkfree (int b) ump = Ret ump' \<Longrightarrow> vol_step (ump, owned) (ump', owned - {b})"

inductive_cases vol_stepE: "vol_step s s'"

definition vol_inv :: "ext2mount \<times> nat set \<Rightarrow> bool" where
  "vol_inv s \<longleftrightarrow> (case s of (ump, owned) \<Rightarrow> blocks_ok ump \<and> \<not> um_lock ump \<and> owned \<subseteq> block_set ump \<and>
     (\<forall>b \<in> owned. 0 < b \<and> b < unat (e2fs_bcount (e2fs (um_e2fs ump)))) \<and> (\<forall>a. dev_rerr (um_devvp ump) a = 0))"

lemma blocks_ok_lock [simp]: "blocks_ok (ump\<lparr>um_lock := l\<rparr>) = blocks_ok ump"
  by (simp add: blocks_ok_def bgroup_ok_def b_bitmap_def Let_def)

lemma block_set_lock [simp]: "block_set (ump\<lparr>um_lock := l\<rparr>) = block_set ump"
  by (simp add: block_set_def allocated_def b_bitmap_def Let_def)

lemma take_keeps:
  assumes inv: "vol_inv (ump, owned)" and "EXT2_LOCK ump = Ret ump1" "home_ok (um_e2fs ump) (i_number ip)" "0 \<le> bpref"
    and a: "ext2_alloc ip lbn bpref sz uid ump1 = Ret (e, b, ip', ump')"
  shows "if e = 0 then nat b \<notin> owned \<and> vol_inv (ump', insert (nat b) owned) else vol_inv (ump', owned)"
proof -
  have u1: "ump1 = ump\<lparr>um_lock := True\<rparr>" using assms(2) by simp
  then have fsu: "um_e2fs ump1 = um_e2fs ump" by simp
  have ok: "blocks_ok ump1" "um_lock ump1" "home_ok (um_e2fs ump1) (i_number ip)"
    using inv assms(3) u1 by (auto simp: vol_inv_def)
  show ?thesis
  proof (cases "no_space ump1 uid sz")
    case True
    then have "ump' = ump1\<lparr>um_lock := False\<rparr>" "e = ENOSPC"
      using ext2_alloc_spec [OF ok assms(4), of uid sz lbn] a by auto
    then show ?thesis using inv u1 by (auto simp: vol_inv_def ENOSPC_def)
  next
    case False
    then have t: "took_block ump1 b ump'" and e: "e = 0"
      using ext2_alloc_spec [OF ok assms(4), of uid sz lbn] a by auto
    note rng = took_block_range [OF ok(1) t]
    obtain n where n: "b = int n" "n \<notin> block_set ump" "block_set ump' = insert n (block_set ump)" "blocks_ok ump'" "\<not> um_lock ump'"
      "same_vol ump ump'"
      using t u1 by (auto simp: took_block_def same_vol_def)
    have "0 < n" "n < unat (e2fs_bcount (e2fs (um_e2fs ump)))"
      using rng(1,2) unfolding n(1) fsu uint_nat by linarith+
    then show ?thesis using inv n e by (auto simp: vol_inv_def same_vol_def)
  qed
qed

lemma give_keeps:
  assumes inv: "vol_inv (ump, owned)" and b: "b \<in> owned"
  shows "\<exists>ump'. ext2_blkfree (int b) ump = Ret ump' \<and> vol_inv (ump', owned - {b})"
proof -
  have "blocks_ok ump" "\<not> um_lock ump" "0 < b" "b < unat (e2fs_bcount (e2fs (um_e2fs ump)))" "b \<in> block_set ump"
    "\<And>a. dev_rerr (um_devvp ump) a = 0"
    using inv b by (auto simp: vol_inv_def)
  from ext2_blkfree_spec [OF this(1-4) this(6)] this(5) obtain ump' where
    f: "ext2_blkfree (int b) ump = Ret ump'" "freed_block ump b ump'" by auto
  then have "vol_inv (ump', owned - {b})"
    using inv by (auto simp: vol_inv_def freed_block_def same_vol_def)
  with f(1) show ?thesis by blast
qed

lemma vol_step_inv: "vol_step s s' \<Longrightarrow> vol_inv s \<Longrightarrow> vol_inv s'"
proof (induction rule: vol_step.induct)
  case (take ump ump1 ip bpref lbn sz uid b ip' ump' owned)
  then show ?case using take_keeps [OF take(5,1-4)] by simp
next
  case (full ump ump1 ip bpref lbn sz uid b ip' ump' owned)
  then show ?case using take_keeps [OF full(5,1-4)] by (simp add: ENOSPC_def)
next
  case (give b owned ump ump')
  then show ?case using give_keeps [OF give(3,1)] by auto
qed

text \<open>C2. In every sequence of allocations and frees from a consistent volume on a device without
  read errors: the volume stays consistent, a block that is handed out is not one that some file
  still owns, and freeing an owned block succeeds.\<close>

theorem no_block_handed_out_twice:
  assumes "vol_step\<^sup>*\<^sup>* (ump0, {}) (ump, owned)" and "blocks_ok ump0" "\<not> um_lock ump0" "\<forall>a. dev_rerr (um_devvp ump0) a = 0"
  shows "blocks_ok ump \<and> \<not> um_lock ump \<and> owned \<subseteq> block_set ump \<and>
    (\<forall>ip lbn bpref sz uid b ip' ump1 ump'. EXT2_LOCK ump = Ret ump1 \<and> home_ok (um_e2fs ump) (i_number ip) \<and> 0 \<le> bpref \<and>
       ext2_alloc ip lbn bpref sz uid ump1 = Ret (0, b, ip', ump') \<longrightarrow> nat b \<notin> owned) \<and>
    (\<forall>b \<in> owned. \<exists>ump'. ext2_blkfree (int b) ump = Ret ump')"
proof -
  have "vol_inv (ump0, {})" using assms by (simp add: vol_inv_def)
  with assms(1) have inv: "vol_inv (ump, owned)"
    by (induction rule: rtranclp_induct) (auto intro: vol_step_inv)
  have "nat b \<notin> owned" if "EXT2_LOCK ump = Ret ump1" "home_ok (um_e2fs ump) (i_number ip)" "0 \<le> bpref"
    "ext2_alloc ip lbn bpref sz uid ump1 = Ret (0, b, ip', ump')" for ip lbn bpref sz uid b ip' ump1 ump'
    using take_keeps [OF inv that] by simp
  moreover have "\<exists>ump'. ext2_blkfree (int b) ump = Ret ump'" if "b \<in> owned" for b
    using give_keeps [OF inv that] by blast
  ultimately show ?thesis using inv by (auto simp: vol_inv_def)
qed

theorem no_block_handed_out_twice_witness:
  "\<exists>ump b. vol_step (demo_free, {}) (ump, {b}) \<and> blocks_ok ump \<and> b \<in> block_set ump"
proof -
  have lk: "EXT2_LOCK demo_free = Ret demo_mount"
    by (simp add: demo_free_def demo_mount_def)
  have h: "home_ok (um_e2fs demo_mount) (i_number (zero_inode\<lparr>i_number := 2\<rparr>))" "\<not> no_space demo_mount 0 1024"
    by code_simp+
  obtain b ip' ump' where a: "ext2_alloc (zero_inode\<lparr>i_number := 2\<rparr>) 0 0 1024 0 demo_mount = Ret (0, b, ip', ump')"
    using ext2_alloc_spec [OF demo_blocks_ok demo_mount_simps(7) h(1), of 0 0 1024 0] h(2) by auto
  then have st: "vol_step (demo_free, {}) (ump', {nat b})"
    using vol_step.take [OF lk _ _ a, of "{}"] h(1) by simp
  have rd: "\<forall>a. dev_rerr (um_devvp demo_free) a = 0" by (simp add: demo_mount_def)
  show ?thesis
    using no_block_handed_out_twice [OF r_into_rtranclp [where r = vol_step, OF st] demo_free_ok demo_free_simps(3) rd] st by auto
qed

section \<open>\<^verbatim>\<open>cg_has_sb\<close>\<close>

definition sparse_group :: "int \<Rightarrow> nat \<Rightarrow> bool" where
  "sparse_group i k \<longleftrightarrow> (\<exists>j\<ge>k. i = 3 ^ j \<or> i = 5 ^ j \<or> i = 7 ^ j)"

lemma has_sb_loop_spec: "i < 3 ^ 11 \<Longrightarrow> has_sb_loop i k = Ret (sparse_group i k)"
proof (induction i k rule: has_sb_loop.induct)
  case (1 i k)
  have mono: "(3::int) ^ k \<le> 3 ^ j" "(3::int) ^ j \<le> 5 ^ j" "(3::int) ^ j \<le> 7 ^ j" if "k \<le> j" for j
    using that by (auto intro: power_increasing power_mono)
  show ?case
  proof (cases "(3::int) ^ k \<le> i")
    case False
    have "\<not> sparse_group i k"
    proof
      assume "sparse_group i k"
      then obtain j where "k \<le> j" "i = 3 ^ j \<or> i = 5 ^ j \<or> i = 7 ^ j" by (auto simp: sparse_group_def)
      with mono [of j] False show False by linarith
    qed
    moreover have "\<not> 3 ^ k \<le> i \<and> \<not> 5 ^ k \<le> i \<and> \<not> 7 ^ k \<le> i" using False mono(2,3) [of k] by linarith
    ultimately show ?thesis by (subst has_sb_loop.simps) (simp add: Let_def)
  next
    case True
    have k: "k < 11"
    proof (rule ccontr)
      assume "\<not> k < 11"
      then have "(3::int) ^ 11 \<le> 3 ^ k" by (intro power_increasing) auto
      with True 1 show False by simp
    qed
    show ?thesis
    proof (cases "i = 3 ^ k \<or> i = 5 ^ k \<or> i = 7 ^ k")
      case hit: True
      then have "sparse_group i k" by (auto simp: sparse_group_def)
      with hit True show ?thesis by (subst has_sb_loop.simps) (simp add: Let_def)
    next
      case miss: False
      have "(3::int) ^ Suc k \<le> 3 ^ 11" "(5::int) ^ Suc k \<le> 5 ^ 11" "(7::int) ^ Suc k \<le> 7 ^ 11"
        using k by (intro power_increasing; simp)+
      then have ovf: "\<not> ((3::int) ^ k * 3 \<ge> 2 ^ 31 \<or> (5::int) ^ k * 5 \<ge> 2 ^ 31 \<or> (7::int) ^ k * 7 \<ge> 2 ^ 31)" by simp
      have "has_sb_loop i (Suc k) = Ret (sparse_group i (Suc k))"
        by (rule 1(1) [OF refl refl refl]) (use True miss ovf 1(2) in auto)
      moreover have "sparse_group i (Suc k) = sparse_group i k"
        using miss by (auto simp: sparse_group_def) (metis Suc_leD | metis not_less_eq_eq le_antisym)+
      ultimately show ?thesis using True miss ovf by (subst has_sb_loop.simps) (simp add: Let_def)
    qed
  qed
qed

text \<open>\<^verbatim>\<open>cg_has_sb\<close> decides the sparse superblock rule for every group number below 177147
  (three to the eleventh): groups zero and one and the powers of three, five and seven.\<close>

theorem cg_has_sb_correct:
  assumes "0 \<le> i" "i < 177147"
  shows "cg_has_sb i = Ret (i = 0 \<or> i = 1 \<or> (\<exists>k\<ge>1. i = 3 ^ k \<or> i = 5 ^ k \<or> i = 7 ^ k))"
  using has_sb_loop_spec [of i 1] assms by (auto simp: cg_has_sb_def sparse_group_def)

theorem cg_has_sb_correct_witness: "cg_has_sb 49 = Ret True \<and> cg_has_sb 50 = Ret False"
proof -
  have odd: "odd x \<Longrightarrow> 50 \<noteq> x" for x :: int by auto
  have "(50::int) \<noteq> 3 ^ k" "(50::int) \<noteq> 5 ^ k" "(50::int) \<noteq> 7 ^ k" for k by (rule odd; simp)+
  then have "\<not> (\<exists>k\<ge>1. (50::int) = 3 ^ k \<or> (50::int) = 5 ^ k \<or> (50::int) = 7 ^ k)" by blast
  moreover have "(49::int) = 7 ^ 2" by simp
  ultimately show ?thesis
    using cg_has_sb_correct [of 49] cg_has_sb_correct [of 50] by (auto intro!: exI [of _ "2::nat"])
qed

text \<open>Past that bound the variables overflow \<^verbatim>\<open>int\<close> before the loop can end: for every group above
  three to the eleventh that is not a power reached before, the behaviour is undefined.\<close>

theorem cg_has_sb_overflow:
  assumes "177147 < i" "i < 2 ^ 31" "\<not> sparse_group i 1"
  shows "cg_has_sb i = Fault Undef"
proof -
  have miss: "\<not> (i = 3 ^ k \<or> i = 5 ^ k \<or> i = 7 ^ k)" if "1 \<le> k" for k
    using assms(3) that unfolding sparse_group_def by blast
  have "has_sb_loop i k = Fault Undef" if "1 \<le> k" "k \<le> 11" for k
    using that
  proof (induction "11 - k" arbitrary: k)
    case 0
    then have "k = 11" by simp
    then show ?case using assms(1) miss [of 11] by (subst has_sb_loop.simps) (simp add: Let_def)
  next
    case (Suc m)
    have "(3::int) ^ k \<le> 3 ^ 11" using Suc.prems by (intro power_increasing) auto
    then have "3 ^ k \<le> i" using assms(1) by simp
    moreover have "has_sb_loop i (Suc k) = Fault Undef" using Suc by simp
    ultimately show ?case using miss [OF Suc.prems(1)] by (subst has_sb_loop.simps) (simp add: Let_def)
  qed
  then show ?thesis using assms(1) by (simp add: cg_has_sb_def)
qed

theorem cg_has_sb_overflow_witness: "cg_has_sb 200000 = Fault Undef"
proof -
  have odd: "odd x \<Longrightarrow> 200000 \<noteq> x" for x :: int by auto
  have "(200000::int) \<noteq> 3 ^ k" "(200000::int) \<noteq> 5 ^ k" "(200000::int) \<noteq> 7 ^ k" for k by (rule odd; simp)+
  then have "\<not> sparse_group 200000 1" unfolding sparse_group_def by blast
  then show ?thesis using cg_has_sb_overflow [of 200000] by simp
qed

end
