(* ===== verification/Ext2_Tree.thy ===== *)
theory Ext2_Tree
  imports Ext2_BlockProps Ext2_Bmap Ext2_Bytes
begin

text \<open>
  The blocks a file owns. A pointer of the inode is the root of a tree of indirect blocks; this theory
  has the list of the blocks of such a tree, what of it lies below a position, and the invariant that
  ties the trees of a file to the block bitmaps: every block of a tree is marked as used, none occurs
  twice, and none is a bitmap or a block of the inode tables. \<^verbatim>\<open>ext2_balloc\<close> and \<^verbatim>\<open>ext2_truncate\<close> are
  specified over it.
\<close>

definition NINDIR :: "m_ext2fs \<Rightarrow> int" where
  "NINDIR fs = uint (e2fs_bsize fs) div 4"

section \<open>Blocks of a tree\<close>

definition blk_addr :: "ext2mount \<Rightarrow> nat \<Rightarrow> int" where
  "blk_addr ump b = push_bit (unat (um_bptrtodb ump)) (int b)"

fun tree_blocks :: "ext2mount \<Rightarrow> nat \<Rightarrow> u32 \<Rightarrow> nat list" where
  "tree_blocks ump 0 w = (if w = 0 then [] else [unat w])"
| "tree_blocks ump (Suc l) w =
     (if w = 0 then [] else unat w # concat (map (\<lambda>k. tree_blocks ump l (ptr_of ump w k)) [0..<nindir_of ump]))"

text \<open>The blocks below \<open>w\<close> that serve positions from \<open>m\<close> on only.\<close>

fun tree_cut :: "ext2mount \<Rightarrow> nat \<Rightarrow> u32 \<Rightarrow> nat \<Rightarrow> nat set" where
  "tree_cut ump 0 w m = {}"
| "tree_cut ump (Suc l) w m =
     (if w = 0 then {}
      else \<Union>k<nindir_of ump. if m \<le> k * nindir_of ump ^ l then set (tree_blocks ump l (ptr_of ump w k))
             else tree_cut ump l (ptr_of ump w k) (m - k * nindir_of ump ^ l))"

declare tree_get.simps(2) [simp del] tree_blocks.simps(2) [simp del] tree_cut.simps(2) [simp del]

lemma tree_0 [simp]: "tree_blocks ump l 0 = []" "tree_cut ump l 0 m = {}" "tree_get ump l 0 x = 0"
proof -
  show "tree_blocks ump l 0 = []" by (cases l) (simp_all add: tree_blocks.simps)
  show "tree_cut ump l 0 m = {}" by (cases l) (simp_all add: tree_cut.simps)
  show "tree_get ump l 0 x = 0" by (induction l arbitrary: x) (simp_all add: tree_get.simps)
qed

text \<open>A tree from its root: child \<open>k\<close> serves the \<open>k\<close>-th part of the positions.\<close>

lemma tree_get_top:
  assumes "0 < nindir_of ump" "w \<noteq> 0"
  shows "tree_get ump (Suc l) w x = tree_get ump l (ptr_of ump w (x div nindir_of ump ^ l mod nindir_of ump)) (x mod nindir_of ump ^ l)"
proof (induction l arbitrary: x)
  case 0
  then show ?case using assms(2) by (simp add: tree_get.simps Let_def)
next
  case (Suc l)
  let ?n = "nindir_of ump"
  have d: "x div ?n div ?n ^ l mod ?n = x div ?n ^ Suc l mod ?n" by (simp add: div_mult2_eq)
  have e: "x mod ?n ^ Suc l div ?n = x div ?n mod ?n ^ l" "x mod ?n ^ Suc l mod ?n = x mod ?n"
    by (simp_all add: mod_mult2_eq assms(1))
  show ?case
    unfolding tree_get.simps(2) [of ump "Suc l" w x] Suc.IH d tree_get.simps(2) [of ump l _ "x mod ?n ^ Suc l"] e ..
qed

lemma tree_get_child:
  assumes "w \<noteq> 0" "k < nindir_of ump" "y < nindir_of ump ^ l"
  shows "tree_get ump (Suc l) w (k * nindir_of ump ^ l + y) = tree_get ump l (ptr_of ump w k) y"
proof -
  have n: "0 < nindir_of ump" using assms(2) by simp
  then have "(k * nindir_of ump ^ l + y) div nindir_of ump ^ l = k" "(k * nindir_of ump ^ l + y) mod nindir_of ump ^ l = y"
    using assms(3) by simp_all
  then show ?thesis using tree_get_top [OF n assms(1), of l "k * nindir_of ump ^ l + y"] assms(2) by simp
qed

lemma position_split:
  assumes "x < n ^ Suc l" "0 < (n::nat)"
  obtains k y where "x = k * n ^ l + y" "k < n" "y < n ^ l"
proof (rule that)
  show "x = x div n ^ l * n ^ l + x mod n ^ l" by (simp only: div_mult_mod_eq)
  show "x mod n ^ l < n ^ l" using assms(2) by simp
  have "x < n * n ^ l" using assms(1) by simp
  then show "x div n ^ l < n" by (rule less_mult_imp_div_less)
qed

lemma set_tree_Suc:
  "w \<noteq> 0 \<Longrightarrow> set (tree_blocks ump (Suc l) w) = insert (unat w) (\<Union>k<nindir_of ump. set (tree_blocks ump l (ptr_of ump w k)))"
  by (auto simp: tree_blocks.simps)

lemma all_pairs_Suc:
  assumes "\<And>j k. Q j k = Q k j"
  shows "(\<forall>j<Suc n. \<forall>k<Suc n. j \<noteq> k \<longrightarrow> Q j k) \<longleftrightarrow> (\<forall>j<n. \<forall>k<n. j \<noteq> k \<longrightarrow> Q j k) \<and> (\<forall>k<n. Q k n)"
  using assms by (auto simp: less_Suc_eq)

lemma distinct_concat_iff:
  "distinct (concat (map f [0..<n])) \<longleftrightarrow>
     (\<forall>k<n. distinct (f k)) \<and> (\<forall>j<n. \<forall>k<n. j \<noteq> k \<longrightarrow> set (f j) \<inter> set (f k) = {})"
proof (induction n)
  case (Suc n)
  have "set (concat (map f [0..<n])) \<inter> set (f n) = {} \<longleftrightarrow> (\<forall>k<n. set (f k) \<inter> set (f n) = {})"
    unfolding set_concat set_map set_upt by fastforce
  then have "distinct (concat (map f [0..<Suc n])) \<longleftrightarrow>
      distinct (concat (map f [0..<n])) \<and> distinct (f n) \<and> (\<forall>k<n. set (f k) \<inter> set (f n) = {})"
    by simp
  also have "\<dots> \<longleftrightarrow> (\<forall>k<Suc n. distinct (f k)) \<and> (\<forall>j<Suc n. \<forall>k<Suc n. j \<noteq> k \<longrightarrow> set (f j) \<inter> set (f k) = {})"
  proof -
    have pairs: "(\<forall>j<Suc n. \<forall>k<Suc n. j \<noteq> k \<longrightarrow> set (f j) \<inter> set (f k) = {}) \<longleftrightarrow>
        (\<forall>j<n. \<forall>k<n. j \<noteq> k \<longrightarrow> set (f j) \<inter> set (f k) = {}) \<and> (\<forall>k<n. set (f k) \<inter> set (f n) = {})"
      by (rule all_pairs_Suc) (rule Int_commute [THEN arg_cong])
    show ?thesis
      unfolding Suc.IH pairs All_less_Suc [of n "\<lambda>k. distinct (f k)"]
      by (rule iffI; elim conjE; intro conjI; assumption)
  qed
  finally show ?case .
qed simp

lemma distinct_tree_Suc:
  assumes "w \<noteq> 0"
  shows "distinct (tree_blocks ump (Suc l) w) \<longleftrightarrow>
     (\<forall>k<nindir_of ump. distinct (tree_blocks ump l (ptr_of ump w k)) \<and> unat w \<notin> set (tree_blocks ump l (ptr_of ump w k))) \<and>
     (\<forall>j<nindir_of ump. \<forall>k<nindir_of ump. j \<noteq> k \<longrightarrow>
        set (tree_blocks ump l (ptr_of ump w j)) \<inter> set (tree_blocks ump l (ptr_of ump w k)) = {})"
  using assms by (auto simp: tree_blocks.simps distinct_concat_iff)

lemma tree_get_in: "tree_get ump l w x \<noteq> 0 \<Longrightarrow> x < nindir_of ump ^ l \<Longrightarrow> unat (tree_get ump l w x) \<in> set (tree_blocks ump l w)"
proof (induction l arbitrary: w x)
  case (Suc l)
  then have w: "w \<noteq> 0" and n: "0 < nindir_of ump" by (auto intro: ccontr)
  obtain k y where x: "x = k * nindir_of ump ^ l + y" "k < nindir_of ump" "y < nindir_of ump ^ l"
    by (rule position_split [OF Suc.prems(2) n])
  then show ?case using Suc.IH [of "ptr_of ump w k" y] Suc.prems(1) tree_get_child [OF w x(2,3)] by (auto simp: set_tree_Suc [OF w])
qed simp

text \<open>Nothing is cut off beyond the last position.\<close>

lemma tree_cut_full: "nindir_of ump ^ l \<le> m \<Longrightarrow> tree_cut ump l w m = {}"
proof (induction l arbitrary: w m)
  case (Suc l)
  let ?n = "nindir_of ump"
  have a: "\<not> m \<le> k * ?n ^ l" "?n ^ l \<le> m - k * ?n ^ l" if k: "k < ?n" for k
  proof -
    have "Suc k * ?n ^ l \<le> ?n * ?n ^ l" using k by (intro mult_le_mono1) simp
    then have "k * ?n ^ l + ?n ^ l \<le> m" using Suc.prems by simp
    moreover have "0 < ?n ^ l" using k by simp
    ultimately show "\<not> m \<le> k * ?n ^ l" "?n ^ l \<le> m - k * ?n ^ l" by linarith+
  qed
  then show ?case using Suc.IH by (auto simp: tree_cut.simps)
qed simp

lemma tree_cut_subset: "tree_cut ump l w m \<subseteq> set (tree_blocks ump l w)"
proof (induction l arbitrary: w m)
  case (Suc l)
  have "tree_cut ump l (ptr_of ump w k) j \<subseteq> (\<Union>i<nindir_of ump. set (tree_blocks ump l (ptr_of ump w i)))"
    if "k < nindir_of ump" for k j using Suc.IH [of "ptr_of ump w k" j] that by blast
  then show ?case
    by (cases "w = 0") (auto simp: tree_cut.simps set_tree_Suc split: if_splits)
qed simp

lemma tree_cut_root: "distinct (tree_blocks ump l w) \<Longrightarrow> unat w \<notin> tree_cut ump l w m"
proof (cases l)
  case (Suc l')
  assume d: "distinct (tree_blocks ump l w)"
  show ?thesis
  proof (cases "w = 0")
    case False
    then have "unat w \<notin> set (tree_blocks ump l' (ptr_of ump w k))" if "k < nindir_of ump" for k
      using d that unfolding Suc distinct_tree_Suc [OF False] by blast
    then show ?thesis using tree_cut_subset [of ump l'] by (auto simp: Suc tree_cut.simps split: if_splits)
  qed simp
qed simp

text \<open>Cutting everything leaves the root.\<close>

lemma tree_cut_all:
  assumes "w \<noteq> 0" "distinct (tree_blocks ump l w)"
  shows "insert (unat w) (tree_cut ump l w 0) = set (tree_blocks ump l w)"
  using assms(1) by (cases l) (auto simp: tree_cut.simps set_tree_Suc)

text \<open>The indirect blocks of a tree.\<close>

fun tree_inner :: "ext2mount \<Rightarrow> nat \<Rightarrow> u32 \<Rightarrow> nat set" where
  "tree_inner ump 0 w = {}"
| "tree_inner ump (Suc l) w = (if w = 0 then {} else insert (unat w) (\<Union>k<nindir_of ump. tree_inner ump l (ptr_of ump w k)))"

declare tree_inner.simps(2) [simp del]

lemma tree_inner_0 [simp]: "tree_inner ump l 0 = {}"
  by (cases l) (simp_all add: tree_inner.simps)

lemma tree_inner_subset: "tree_inner ump l w \<subseteq> set (tree_blocks ump l w)"
proof (induction l arbitrary: w)
  case (Suc l)
  show ?case
  proof (cases "w = 0")
    case False
    then show ?thesis using Suc.IH by (fastforce simp: tree_inner.simps set_tree_Suc)
  qed simp
qed simp

section \<open>Trees depend on the indirect blocks only\<close>

text \<open>The two mounts agree in geometry, and the blocks in \<open>B\<close> have the same content in both.\<close>

definition agree :: "ext2mount \<Rightarrow> ext2mount \<Rightarrow> nat set \<Rightarrow> bool" where
  "agree u u' B \<longleftrightarrow> um_nindir u' = um_nindir u \<and> um_bptrtodb u' = um_bptrtodb u \<and>
     (\<forall>b \<in> B. dev_blk (um_devvp u') (blk_addr u b) = dev_blk (um_devvp u) (blk_addr u b))"

lemma agree_mono: "agree u u' B \<Longrightarrow> A \<subseteq> B \<Longrightarrow> agree u u' A"
  by (auto simp: agree_def)

lemma agree_ptr: "agree u u' B \<Longrightarrow> unat w \<in> B \<Longrightarrow> ptr_of u' w k = ptr_of u w k"
  by (auto simp: agree_def ptr_of_def blk_addr_def)

lemma agree_nindir: "agree u u' B \<Longrightarrow> nindir_of u' = nindir_of u"
  by (simp add: agree_def nindir_of_def)

lemma agree_tree:
  assumes "agree u u' B" "set (tree_blocks u l w) \<subseteq> B"
  shows "tree_blocks u' l w = tree_blocks u l w" "tree_cut u' l w m = tree_cut u l w m"
  using assms(2)
proof (induction l arbitrary: w m)
  case (Suc l)
  note n = agree_nindir [OF assms(1)]
  {
    case 1
    then have "w \<noteq> 0 \<Longrightarrow> unat w \<in> B" by (simp add: set_tree_Suc)
    then have "w \<noteq> 0 \<Longrightarrow> ptr_of u' w k = ptr_of u w k" for k using agree_ptr [OF assms(1)] by blast
    moreover have "w \<noteq> 0 \<Longrightarrow> k < nindir_of u \<Longrightarrow> tree_blocks u' l (ptr_of u w k) = tree_blocks u l (ptr_of u w k)" for k
      using 1 by (intro Suc.IH(1)) (auto simp: set_tree_Suc)
    ultimately show ?case by (auto simp: tree_blocks.simps n intro!: arg_cong [where f = concat])
  next
    case 2
    then have "w \<noteq> 0 \<Longrightarrow> unat w \<in> B" by (simp add: set_tree_Suc)
    then have p: "w \<noteq> 0 \<Longrightarrow> ptr_of u' w k = ptr_of u w k" for k using agree_ptr [OF assms(1)] by blast
    have c: "tree_blocks u' l (ptr_of u w k) = tree_blocks u l (ptr_of u w k)"
      "tree_cut u' l (ptr_of u w k) j = tree_cut u l (ptr_of u w k) j" if "w \<noteq> 0" "k < nindir_of u" for k j
      using 2 that by (auto intro!: Suc.IH simp: set_tree_Suc)
    show ?case
    proof (cases "w = 0")
      case False
      then show ?thesis using c p [OF False] by (simp add: tree_cut.simps n)
    qed simp
  }
qed simp_all

lemma agree_inner:
  assumes "agree u u' B" "set (tree_blocks u l w) \<subseteq> B"
  shows "tree_inner u' l w = tree_inner u l w"
  using assms(2)
proof (induction l arbitrary: w)
  case (Suc l)
  show ?case
  proof (cases "w = 0")
    case False
    then have "unat w \<in> B" using Suc.prems by (simp add: set_tree_Suc)
    then have "ptr_of u' w k = ptr_of u w k" for k by (rule agree_ptr [OF assms(1)])
    moreover have "tree_inner u' l (ptr_of u w k) = tree_inner u l (ptr_of u w k)" if "k < nindir_of u" for k
      using Suc.prems that by (intro Suc.IH) (auto simp: set_tree_Suc [OF False])
    ultimately show ?thesis using False by (simp add: tree_inner.simps agree_nindir [OF assms(1)])
  qed simp
qed simp

lemma agree_get:
  assumes "agree u u' B" "set (tree_blocks u l w) \<subseteq> B" "x < nindir_of u ^ l"
  shows "tree_get u' l w x = tree_get u l w x"
  using assms(2,3)
proof (induction l arbitrary: w x)
  case (Suc l)
  note n = agree_nindir [OF assms(1)]
  show ?case
  proof (cases "w = 0")
    case False
    have pos: "0 < nindir_of u" using Suc.prems(2) by (auto intro: ccontr)
    obtain k y where x: "x = k * nindir_of u ^ l + y" "k < nindir_of u" "y < nindir_of u ^ l"
      by (rule position_split [OF Suc.prems(2) pos])
    have "unat w \<in> B" using Suc.prems(1) False by (simp add: set_tree_Suc)
    then have "ptr_of u' w k = ptr_of u w k" by (rule agree_ptr [OF assms(1)])
    moreover have "tree_get u' l (ptr_of u w k) y = tree_get u l (ptr_of u w k) y"
      using Suc.prems(1) x by (intro Suc.IH) (auto simp: set_tree_Suc [OF False])
    ultimately show ?thesis using tree_get_child [OF False x(2,3)] tree_get_child [of w k u' y l] False x n by simp
  qed simp
qed (simp add: tree_get.simps)

section \<open>The volume under a file\<close>

text \<open>Bitmaps and inode tables.\<close>

definition meta_blocks :: "m_ext2fs \<Rightarrow> nat set" where
  "meta_blocks fs = (\<Union>g \<in> set (e2fs_gd fs). {unat (ext2bgd_b_bitmap g), unat (ext2bgd_i_bitmap g)} \<union>
     {unat (ext2bgd_i_tables g) ..< unat (ext2bgd_i_tables g) + unat (e2fs_itpg fs)})"

text \<open>
  A consistent volume on a device without read errors, with the mount lock free, the parameters of the
  block map as \<^verbatim>\<open>ext2_mountfs\<close> sets them, and the metadata marked as used.
\<close>

definition vol_ok :: "ext2mount \<Rightarrow> bool" where
  "vol_ok ump \<longleftrightarrow> blocks_ok ump \<and> \<not> um_lock ump \<and> bmap_geom ump \<and>
     um_bptrtodb ump = ucast (e2fs_fsbtodb (um_e2fs ump)) \<and> unat (e2fs_bsize (um_e2fs ump)) = 4 * nindir_of ump \<and>
     (\<forall>a. dev_rerr (um_devvp ump) a = 0) \<and>
     (\<forall>a. length (dev_blk (um_devvp ump) a) = unat (e2fs_bsize (um_e2fs ump))) \<and>
     meta_blocks (um_e2fs ump) \<subseteq> block_set ump"

text \<open>The blocks that files can own.\<close>

definition data_blocks :: "ext2mount \<Rightarrow> nat set" where
  "data_blocks ump = {b \<in> block_set ump. 0 < b \<and> b < unat (e2fs_bcount (e2fs (um_e2fs ump)))} - meta_blocks (um_e2fs ump)"

text \<open>What an operation leaves alone when it may change the blocks \<open>W\<close>.\<close>

definition keeps :: "ext2mount \<Rightarrow> ext2mount \<Rightarrow> nat set \<Rightarrow> bool" where
  "keeps u u' W \<longleftrightarrow> vol_ok u' \<and> dev_werr (um_devvp u') = dev_werr (um_devvp u) \<and> dev_nobuf (um_devvp u') = dev_nobuf (um_devvp u) \<and>
     static_fs (um_e2fs u') = static_fs (um_e2fs u) \<and> um_nindir u' = um_nindir u \<and> um_bptrtodb u' = um_bptrtodb u \<and>
     (\<forall>b. b \<notin> W \<longrightarrow> b \<notin> meta_blocks (um_e2fs u) \<longrightarrow> dev_blk (um_devvp u') (blk_addr u b) = dev_blk (um_devvp u) (blk_addr u b))"

lemma static_fs_fields:
  assumes "static_fs fs' = static_fs fs"
  shows "e2fs_bsize fs' = e2fs_bsize fs" "e2fs_bshift fs' = e2fs_bshift fs" "e2fs_qbmask fs' = e2fs_qbmask fs"
    "e2fs_fsbtodb fs' = e2fs_fsbtodb fs" "e2fs_fsize fs' = e2fs_fsize fs" "e2fs_itpg fs' = e2fs_itpg fs"
    "e2fs_ipb fs' = e2fs_ipb fs" "m_e2fs_ipg fs' = m_e2fs_ipg fs" "e2fs_ronly fs' = e2fs_ronly fs" "e2fs_isize fs' = e2fs_isize fs"
    "e2fs_bcount (e2fs fs') = e2fs_bcount (e2fs fs)" "e2fs_ipg (e2fs fs') = e2fs_ipg (e2fs fs)"
    "length (e2fs_gd fs') = length (e2fs_gd fs)" "map ext2bgd_i_tables (e2fs_gd fs') = map ext2bgd_i_tables (e2fs_gd fs)"
    "meta_blocks fs' = meta_blocks fs"
proof -
  note a = assms [unfolded static_fs_def]
  show "e2fs_bsize fs' = e2fs_bsize fs" using arg_cong [OF a, of e2fs_bsize] by simp
  show "e2fs_bshift fs' = e2fs_bshift fs" using arg_cong [OF a, of e2fs_bshift] by simp
  show "e2fs_qbmask fs' = e2fs_qbmask fs" using arg_cong [OF a, of e2fs_qbmask] by simp
  show "e2fs_fsbtodb fs' = e2fs_fsbtodb fs" using arg_cong [OF a, of e2fs_fsbtodb] by simp
  show "e2fs_fsize fs' = e2fs_fsize fs" using arg_cong [OF a, of e2fs_fsize] by simp
  show itpg: "e2fs_itpg fs' = e2fs_itpg fs" using arg_cong [OF a, of e2fs_itpg] by simp
  show "e2fs_ipb fs' = e2fs_ipb fs" using arg_cong [OF a, of e2fs_ipb] by simp
  show "m_e2fs_ipg fs' = m_e2fs_ipg fs" using arg_cong [OF a, of m_e2fs_ipg] by simp
  show "e2fs_ronly fs' = e2fs_ronly fs" using arg_cong [OF a, of e2fs_ronly] by simp
  show "e2fs_isize fs' = e2fs_isize fs" using arg_cong [OF a, of e2fs_isize] by simp
  show "e2fs_bcount (e2fs fs') = e2fs_bcount (e2fs fs)" using arg_cong [OF a, of "\<lambda>f. e2fs_bcount (e2fs f)"] by simp
  show "e2fs_ipg (e2fs fs') = e2fs_ipg (e2fs fs)" using arg_cong [OF a, of "\<lambda>f. e2fs_ipg (e2fs f)"] by simp
  have g: "map (\<lambda>g. g\<lparr>ext2bgd_nbfree := 0\<rparr>) (e2fs_gd fs') = map (\<lambda>g. g\<lparr>ext2bgd_nbfree := 0\<rparr>) (e2fs_gd fs)"
    using arg_cong [OF a, of e2fs_gd] by simp
  have m: "map (\<lambda>g. f (g\<lparr>ext2bgd_nbfree := 0\<rparr>)) (e2fs_gd fs') = map (\<lambda>g. f (g\<lparr>ext2bgd_nbfree := 0\<rparr>)) (e2fs_gd fs)"
    for f :: "ext2_gd \<Rightarrow> 'b" using arg_cong [OF g, of "map f"] by (simp add: o_def)
  show "length (e2fs_gd fs') = length (e2fs_gd fs)" using map_eq_imp_length_eq [OF g] .
  show "map ext2bgd_i_tables (e2fs_gd fs') = map ext2bgd_i_tables (e2fs_gd fs)" using m [of ext2bgd_i_tables] by simp
  let ?f = "\<lambda>g. {unat (ext2bgd_b_bitmap g), unat (ext2bgd_i_bitmap g)} \<union>
     {unat (ext2bgd_i_tables g) ..< unat (ext2bgd_i_tables g) + unat (e2fs_itpg fs)}"
  have "set (map ?f (e2fs_gd fs')) = set (map ?f (e2fs_gd fs))" using m [of ?f] by simp
  then show "meta_blocks fs' = meta_blocks fs" unfolding meta_blocks_def itpg by simp
qed

lemma keeps_refl: "vol_ok u \<Longrightarrow> keeps u u W"
  by (simp add: keeps_def)

lemma keeps_mono: "keeps u u' V \<Longrightarrow> V \<subseteq> W \<Longrightarrow> keeps u u' W"
  by (auto simp: keeps_def)

lemma keeps_trans: "keeps u v V \<Longrightarrow> keeps v w W \<Longrightarrow> keeps u w (V \<union> W)"
  using static_fs_fields(15) [of "um_e2fs v" "um_e2fs u"] by (auto simp: keeps_def blk_addr_def)

lemma keeps_agree: "keeps u u' W \<Longrightarrow> B \<inter> W = {} \<Longrightarrow> B \<inter> meta_blocks (um_e2fs u) = {} \<Longrightarrow> agree u u' B"
  by (auto simp: keeps_def agree_def)

lemma keeps_vol: "keeps u u' W \<Longrightarrow> vol_ok u'"
  by (simp add: keeps_def)

lemma keeps_static: "keeps u u' W \<Longrightarrow> static_fs (um_e2fs u') = static_fs (um_e2fs u)"
  by (simp add: keeps_def)

lemma keeps_params:
  assumes "keeps u u' W"
  shows "nindir_of u' = nindir_of u" "blk_addr u' = blk_addr u" "dev_werr (um_devvp u') = dev_werr (um_devvp u)"
    "dev_nobuf (um_devvp u') = dev_nobuf (um_devvp u)"
  using assms by (auto simp: keeps_def nindir_of_def blk_addr_def)

lemma blk_addr_inj: "blk_addr u a = blk_addr u b \<longleftrightarrow> a = b"
  by (simp add: blk_addr_def push_bit_eq_mult)

lemma unat_ucast_32_64: "unat (ucast w :: u64) = unat w" for w :: u32
  by transfer (simp add: take_bit_nat_eq_self_iff nat_take_bit_eq)

lemma fsbtodb_blk: "vol_ok u \<Longrightarrow> fsbtodb (um_e2fs u) (int b) = blk_addr u b"
proof -
  assume v: "vol_ok u"
  have "unat (ucast (e2fs_fsbtodb (um_e2fs u)) :: u64) = unat (e2fs_fsbtodb (um_e2fs u))"
    by (rule unat_ucast_32_64)
  with v show ?thesis by (simp add: vol_ok_def fsbtodb_def blk_addr_def)
qed

lemma bitmap_addrs_meta:
  assumes "vol_ok u" "b \<notin> meta_blocks (um_e2fs u)"
  shows "blk_addr u b \<notin> bitmap_addrs (um_e2fs u)"
proof
  assume "blk_addr u b \<in> bitmap_addrs (um_e2fs u)"
  then obtain k where k: "k < length (e2fs_gd (um_e2fs u))" "blk_addr u b = b_addr (um_e2fs u) k" by (auto simp: bitmap_addrs_def)
  have "b_addr (um_e2fs u) k = blk_addr u (unat (ext2bgd_b_bitmap (e2fs_gd (um_e2fs u) ! k)))"
    unfolding b_addr_def uint_nat by (rule fsbtodb_blk [OF assms(1)])
  with k(2) have "b = unat (ext2bgd_b_bitmap (e2fs_gd (um_e2fs u) ! k))" by (simp add: blk_addr_inj)
  then have "b \<in> meta_blocks (um_e2fs u)" unfolding meta_blocks_def using nth_mem [OF k(1)] by blast
  with assms(2) show False ..
qed

text \<open>A change of the allocated blocks.\<close>

lemma keeps_same_vol:
  assumes v: "vol_ok u" and s: "same_vol u u'" "blocks_ok u'" "\<not> um_lock u'" and m: "meta_blocks (um_e2fs u) \<subseteq> block_set u'"
  shows "keeps u u' {}"
proof -
  have st: "static_fs (um_e2fs u') = static_fs (um_e2fs u)" using s(1) by (simp add: same_vol_def)
  note f = static_fs_fields [OF st]
  have p: "um_nindir u' = um_nindir u" "um_bptrtodb u' = um_bptrtodb u" "dev_rerr (um_devvp u') = dev_rerr (um_devvp u)"
    "\<forall>a. length (dev_blk (um_devvp u') a) = length (dev_blk (um_devvp u) a)" using s(1) by (simp_all add: same_vol_def)
  have "vol_ok u'"
    using v s(2,3) m unfolding vol_ok_def bmap_geom_def nindir_of_def p(1,2,3) p(4) [rule_format] f(1,4,15) by blast
  moreover have "dev_blk (um_devvp u') (blk_addr u b) = dev_blk (um_devvp u) (blk_addr u b)"
    if "b \<notin> meta_blocks (um_e2fs u)" for b using bitmap_addrs_meta [OF v that] s(1) by (simp add: same_vol_def)
  ultimately show ?thesis using s(1) st by (auto simp: keeps_def same_vol_def)
qed

lemma blkfree_keeps:
  assumes v: "vol_ok u" and b: "b \<in> data_blocks u"
  shows "\<exists>u'. ext2_blkfree (int b) u = Ret u' \<and> keeps u u' {} \<and> block_set u' = block_set u - {b}"
proof -
  have a: "blocks_ok u" "\<not> um_lock u" "0 < b" "b < unat (e2fs_bcount (e2fs (um_e2fs u)))" "b \<in> block_set u" "b \<notin> meta_blocks (um_e2fs u)"
    using assms by (auto simp: vol_ok_def data_blocks_def)
  obtain u' where u': "ext2_blkfree (int b) u = Ret u'" "freed_block u b u'"
    using ext2_blkfree_spec [OF a(1-4)] v a(5) by (auto simp: vol_ok_def)
  have "keeps u u' {}"
    by (rule keeps_same_vol [OF v]) (use u'(2) a(6) v in \<open>auto simp: freed_block_def vol_ok_def\<close>)
  with u' show ?thesis by (auto simp: freed_block_def)
qed

text \<open>A write to a block of a file.\<close>

lemma blk_write:
  assumes v: "vol_ok u" and b: "b \<notin> meta_blocks (um_e2fs u)" and len: "length bs = unat (e2fs_bsize (um_e2fs u))"
  defines "u' \<equiv> u\<lparr>um_devvp := buf_bdwrite (um_devvp u) (blk_addr u b) bs\<rparr>"
  shows "keeps u u' {b}" "block_set u' = block_set u"
proof -
  have bm: "b_bitmap u' k = b_bitmap u k" if "k < length (e2fs_gd (um_e2fs u))" for k
  proof -
    have "b_addr (um_e2fs u) k \<noteq> blk_addr u b"
      using bitmap_addrs_meta [OF v b] that by (metis bitmap_addrs_def imageI lessThan_iff)
    then show ?thesis by (simp add: u'_def b_bitmap_def)
  qed
  have bs: "allocated u' c = allocated u c" if "c \<in> vol_blocks (um_e2fs u)" for c
    using bm [OF vol_blocks_group [OF that]] by (simp add: allocated_def u'_def Let_def)
  then show set: "block_set u' = block_set u" by (auto simp: block_set_def u'_def)
  have bg: "bgroup_ok u' k" if "k < length (e2fs_gd (um_e2fs u))" for k
    using v that bm [OF that] by (auto simp: vol_ok_def blocks_ok_def bgroup_ok_def u'_def Let_def)
  have "0 < length (e2fs_gd (um_e2fs u))" using v by (simp add: vol_ok_def blocks_ok_def geom_ok_def Let_def)
  then have "blocks_ok u'" using v bg bm by (auto simp: vol_ok_def blocks_ok_def u'_def Let_def)
  then have "vol_ok u'" using v set len by (auto simp: vol_ok_def u'_def bmap_geom_def nindir_of_def)
  then show "keeps u u' {b}" using v by (auto simp: keeps_def u'_def blk_addr_inj)
qed

section \<open>Trees of used blocks\<close>

lemma data_blocks_less:
  assumes "keeps u u' W" "block_set u' = block_set u - D"
  shows "data_blocks u' = data_blocks u - D"
  using static_fs_fields(11,15) [OF keeps_static [OF assms(1)]] assms(2) by (auto simp: data_blocks_def)

lemma nindir_bsize: "vol_ok u \<Longrightarrow> NINDIR (um_e2fs u) = int (nindir_of u)"
  by (simp add: vol_ok_def NINDIR_def uint_nat)

lemma nindir_pos: "vol_ok u \<Longrightarrow> 0 < nindir_of u"
  by (simp add: vol_ok_def bmap_geom_def)

text \<open>A tree all of whose blocks are used, none twice.\<close>

definition tree_ok :: "ext2mount \<Rightarrow> nat \<Rightarrow> u32 \<Rightarrow> bool" where
  "tree_ok ump l w \<longleftrightarrow> distinct (tree_blocks ump l w) \<and> set (tree_blocks ump l w) \<subseteq> data_blocks ump"

lemma tree_ok_child:
  assumes "tree_ok ump (Suc l) w" "w \<noteq> 0" "k < nindir_of ump"
  shows "tree_ok ump l (ptr_of ump w k)" "set (tree_blocks ump l (ptr_of ump w k)) \<subseteq> set (tree_blocks ump (Suc l) w)"
    "unat w \<notin> set (tree_blocks ump l (ptr_of ump w k))"
  using assms by (auto simp: tree_ok_def distinct_tree_Suc set_tree_Suc)

lemma tree_ok_disjoint:
  assumes "tree_ok ump (Suc l) w" "w \<noteq> 0" "j < nindir_of ump" "k < nindir_of ump" "j \<noteq> k"
  shows "set (tree_blocks ump l (ptr_of ump w j)) \<inter> set (tree_blocks ump l (ptr_of ump w k)) = {}"
proof -
  have "distinct (tree_blocks ump (Suc l) w)" using assms(1) by (simp add: tree_ok_def)
  then show ?thesis using assms(3-5) unfolding distinct_tree_Suc [OF assms(2)] by blast
qed

text \<open>A tree away from the blocks that change is as before.\<close>

lemma tree_ok_keeps:
  assumes "keeps u u' W" "block_set u' = block_set u - D" "tree_ok u l w"
    and "set (tree_blocks u l w) \<inter> W = {}" "set (tree_blocks u l w) \<inter> D = {}"
  shows "tree_blocks u' l w = tree_blocks u l w" "tree_ok u' l w" "tree_cut u' l w m = tree_cut u l w m"
    "x < nindir_of u ^ l \<Longrightarrow> tree_get u' l w x = tree_get u l w x" "tree_inner u' l w = tree_inner u l w"
proof -
  have "agree u u' (set (tree_blocks u l w))"
    by (rule keeps_agree [OF assms(1,4)]) (use assms(3) in \<open>auto simp: tree_ok_def data_blocks_def\<close>)
  note t = agree_tree [OF this subset_refl] agree_get [OF this subset_refl] agree_inner [OF this subset_refl]
  show "tree_inner u' l w = tree_inner u l w" by (rule t)
  show "tree_blocks u' l w = tree_blocks u l w" "tree_cut u' l w m = tree_cut u l w m" by (rule t)+
  show "tree_ok u' l w"
    using assms(3,5) data_blocks_less [OF assms(1,2)] t(1) by (auto simp: tree_ok_def)
  show "tree_get u' l w x = tree_get u l w x" if "x < nindir_of u ^ l" by (rule t(3) [OF that])
qed

text \<open>The pointers of a block that has been read.\<close>

lemma take_4_drop:
  assumes "i + 4 \<le> length bs"
  shows "take 4 (drop i bs) = [bs ! i, bs ! (i + 1), bs ! (i + 2), bs ! (i + 3)]"
proof (rule nth_equalityI)
  fix j assume "j < length (take 4 (drop i bs))"
  then have "j = 0 \<or> j = 1 \<or> j = 2 \<or> j = 3" by auto
  then show "take 4 (drop i bs) ! j = [bs ! i, bs ! (i + 1), bs ! (i + 2), bs ! (i + 3)] ! j"
    using assms by auto
qed (use assms in simp)

lemma get_u32_ld32: "get_u32 bs i = ld32 bs (4 * i)"
proof (cases "0 \<le> i \<and> 4 * i + 4 \<le> int (length bs)")
  case True
  then obtain k where k: "i = int k" using nonneg_int_cases by blast
  have "4 * k + 4 \<le> length bs" using True k by simp
  then have t: "take 4 (drop (4 * k) bs) = [bs ! (4 * k), bs ! (4 * k + 1), bs ! (4 * k + 2), bs ! (4 * k + 3)]"
    by (rule take_4_drop)
  have "rd bs (int j) = Ret (bs ! j)" if "j < length bs" for j using that by simp
  then have r: "rd bs (4 * i) = Ret (bs ! (4 * k))" "rd bs (4 * i + 1) = Ret (bs ! (4 * k + 1))"
    "rd bs (4 * i + 2) = Ret (bs ! (4 * k + 2))" "rd bs (4 * i + 3) = Ret (bs ! (4 * k + 3))"
    using \<open>4 * k + 4 \<le> length bs\<close> unfolding k by (simp_all add: nat_add_distrib nat_mult_distrib)
  have "slice bs (int (4 * k)) 4 = Ret (take 4 (drop (4 * k) bs))" using True k by (intro slice_in) simp
  then have s: "slice bs (4 * i) 4 = Ret (take 4 (drop (4 * k) bs))" using k by (simp del: slice_Ret)
  show ?thesis unfolding get_u32_def ld32_def r s t by (simp del: slice_Ret)
next
  case False
  then consider "i < 0" | "0 \<le> i" "int (length bs) < 4 * i + 4" by linarith
  then show ?thesis
  proof cases
    case 2
    then show ?thesis by (auto simp: get_u32_def ld32_def slice_def rd_def)
  qed (simp add: get_u32_def ld32_def slice_def rd_def)
qed

lemma vol_readable: "vol_ok u \<Longrightarrow> readable u"
  by (simp add: vol_ok_def readable_def)

lemma ptr_of_read:
  assumes "vol_ok u" "k < nindir_of u"
  shows "get_u32 (dev_blk (um_devvp u) (blk_addr u (unat w))) (int k) = Ret (ptr_of u w k)"
  using get_ptr [OF vol_readable [OF assms(1)] assms(2), of w] by (simp add: blk_addr_def)

lemma words_of_nth: "4 * k + 4 \<le> length bs \<Longrightarrow> words_of bs ! k = le32 (take 4 (drop (4 * k) bs))"
proof (induction bs arbitrary: k rule: words_of.induct)
  case (1 a b c d r)
  then show ?case by (cases k) (simp_all add: numeral_eq_Suc)
qed auto

text \<open>The pointers of a block as its words.\<close>

lemma pointers_words:
  assumes "vol_ok u"
  shows "map (ptr_of u w) [0..<nindir_of u] = words_of (dev_blk (um_devvp u) (blk_addr u (unat w)))"
proof (rule nth_equalityI)
  let ?bs = "dev_blk (um_devvp u) (blk_addr u (unat w))"
  have len: "length ?bs = 4 * nindir_of u" using assms by (simp add: vol_ok_def)
  then show "length (map (ptr_of u w) [0..<nindir_of u]) = length (words_of ?bs)" by (simp add: length_words_of)
  fix k assume "k < length (map (ptr_of u w) [0..<nindir_of u])"
  then have k: "k < nindir_of u" by simp
  have "slice ?bs (int (4 * k)) 4 = Ret (take 4 (drop (4 * k) ?bs))" by (rule slice_in) (use k len in simp)
  then have "get_u32 ?bs (int k) = Ret (words_of ?bs ! k)"
    using words_of_nth [of k ?bs] k len by (simp add: get_u32_ld32 ld32_def del: slice_Ret)
  then show "map (ptr_of u w) [0..<nindir_of u] ! k = words_of ?bs ! k" using ptr_of_read [OF assms k, of w] k by simp
qed

lemma tree_blocks_words:
  assumes "vol_ok u" "w \<noteq> 0"
  shows "tree_blocks u (Suc l) w = unat w # concat (map (tree_blocks u l) (words_of (dev_blk (um_devvp u) (blk_addr u (unat w)))))"
  using assms(2) by (simp add: tree_blocks.simps(2) pointers_words [OF assms(1), symmetric] o_def)

section \<open>A volume\<close>

text \<open>
  One group of 32 blocks of 512 bytes: the bitmaps in blocks 2 and 3, the inode tables in 4 and 5. A
  file has block 15 as its first direct block, 12 as its indirect block with data in 13 and 14, and 16 as
  its double indirect block, which leads to 18 through 17.
\<close>

definition demo_words :: "u32 list \<Rightarrow> bytes" where
  "demo_words ws = bytes_of_words ws @ replicate (4 * (128 - length ws)) 0"

definition demo_tvol :: ext2mount where
  "demo_tvol = \<lparr>um_devvp = \<lparr>dev_blk = (\<lambda>a. if a = 2 then [0xff, 0xff, 0x03] @ replicate 509 0 else if a = 12 then demo_words [13, 14]
         else if a = 16 then demo_words [17] else if a = 17 then demo_words [18] else replicate 512 0),
       dev_rerr = (\<lambda>a. 0), dev_werr = (\<lambda>a. 0), dev_nobuf = (\<lambda>a. False)\<rparr>,
     um_e2fs = zero_fs\<lparr>e2fs := zero_sb\<lparr>e2fs_bcount := 33, e2fs_fpg := 32, e2fs_bpg := 32, e2fs_ipg := 8, e2fs_icount := 8,
         e2fs_first_dblock := 1, e2fs_fbcount := 14, e2fs_rbcount := 0\<rparr>,
       m_e2fs_bpg := 32, m_e2fs_ipg := 8, e2fs_bsize := 512, e2fs_bshift := 9, e2fs_qbmask := 511, e2fs_fsize := 512,
       e2fs_ipb := 4, e2fs_itpg := 2, e2fs_isize := 128, e2fs_gcount := 1, e2fs_contigsumsize := 4, e2fs_maxfilesize := 2 ^ 20,
       e2fs_gd := [zero_gd\<lparr>ext2bgd_b_bitmap := 2, ext2bgd_i_bitmap := 3, ext2bgd_i_tables := 4, ext2bgd_nbfree := 14\<rparr>],
       e2fs_clustersum := [\<lparr>cs_init = 0, cs_sum = replicate 5 0\<rparr>], e2fs_maxcluster := [4]\<rparr>,
     um_nindir = 128, um_bptrtodb = 0, um_seqinc = 1, um_lock = False\<rparr>"

lemma demo_tvol_simps:
  "fpg_of (um_e2fs demo_tvol) = 32" "first_of (um_e2fs demo_tvol) = 1" "length (e2fs_gd (um_e2fs demo_tvol)) = 1"
  "e2fs_gd (um_e2fs demo_tvol) ! 0 = zero_gd\<lparr>ext2bgd_b_bitmap := 2, ext2bgd_i_bitmap := 3, ext2bgd_i_tables := 4, ext2bgd_nbfree := 14\<rparr>"
  "b_bitmap demo_tvol 0 = [0xff, 0xff, 0x03] @ replicate 509 0"
  "e2fs_bcount (e2fs (um_e2fs demo_tvol)) = 33" "um_lock demo_tvol = False" "nindir_of demo_tvol = 128"
  "e2fs_bsize (um_e2fs demo_tvol) = 512" "dev_rerr (um_devvp demo_tvol) = (\<lambda>a. 0)" "dev_werr (um_devvp demo_tvol) = (\<lambda>a. 0)"
  "um_bptrtodb demo_tvol = 0" "e2fs_fsbtodb (um_e2fs demo_tvol) = 0" "blk_addr demo_tvol b = int b"
  by (simp_all add: demo_tvol_def fpg_of_def first_of_def b_bitmap_def b_addr_def fsbtodb_def nindir_of_def blk_addr_def zero_fs_def)

lemma demo_tvol_blocks_ok: "blocks_ok demo_tvol"
proof -
  have c: "clus_ok (um_e2fs demo_tvol)" by (simp add: clus_ok_def demo_tvol_def)
  have g: "geom_ok (um_e2fs demo_tvol)"
    using c by (simp add: geom_ok_def demo_tvol_simps) (simp add: demo_tvol_def zero_fs_def)
  have f: "nfree ([0xff, 0xff, 0x03] @ replicate 509 0) 32 = 14" by code_simp
  have "bgroup_ok demo_tvol 0" by (simp add: bgroup_ok_def Let_def demo_tvol_simps f [simplified])
  with g show ?thesis by (simp add: blocks_ok_def Let_def demo_tvol_simps) (simp add: demo_tvol_def)
qed

lemma demo_tvol_set: "block_set demo_tvol = {1..18}"
proof -
  have v: "vol_blocks (um_e2fs demo_tvol) = {1..32}" by (auto simp: vol_blocks_def demo_tvol_simps)
  have "\<forall>b \<in> set [1..<33]. allocated demo_tvol b = (b \<le> 18)" by code_simp
  then have "allocated demo_tvol b = (b \<le> 18)" if "1 \<le> b" "b \<le> 32" for b using that by auto
  then show ?thesis by (auto simp: block_set_def v)
qed

lemma demo_tvol_meta: "meta_blocks (um_e2fs demo_tvol) = {2..5}"
proof -
  have "e2fs_gd (um_e2fs demo_tvol) =
      [zero_gd\<lparr>ext2bgd_b_bitmap := 2, ext2bgd_i_bitmap := 3, ext2bgd_i_tables := 4, ext2bgd_nbfree := 14\<rparr>]"
    "unat (e2fs_itpg (um_e2fs demo_tvol)) = 2" by (simp_all add: demo_tvol_def)
  then have "meta_blocks (um_e2fs demo_tvol) = {2, 3} \<union> {4..<4 + 2}" unfolding meta_blocks_def by simp
  moreover have "x \<in> {2, 3} \<union> {4..<4 + 2} \<longleftrightarrow> x \<in> {2..5}" for x :: nat
    unfolding Un_iff insert_iff atLeastLessThan_iff atLeastAtMost_iff empty_iff by presburger
  ultimately show ?thesis by blast
qed

lemma demo_words_length: "length ws \<le> 128 \<Longrightarrow> length (demo_words ws) = 512"
  by (simp add: demo_words_def)

lemma demo_words_of: "words_of (demo_words ws) = ws @ replicate (128 - length ws) 0"
proof -
  have z: "words_of (replicate (4 * k) 0) = replicate k 0" for k
    by (induction k) (simp_all add: numeral_eq_Suc)
  have "words_of (bytes_of_words ws @ bs) = ws @ words_of bs" for bs
    by (induction ws) (simp_all add: bytes_of_words_def words_of_bytes_of)
  then show ?thesis by (simp only: demo_words_def z)
qed

lemma demo_tvol_ok: "vol_ok demo_tvol"
proof -
  have "bmap_geom demo_tvol" by (simp add: bmap_geom_def demo_tvol_simps)
  moreover have "length (dev_blk (um_devvp demo_tvol) a) = 512" for a by (simp add: demo_tvol_def demo_words_length)
  ultimately show ?thesis
    by (simp add: vol_ok_def demo_tvol_blocks_ok demo_tvol_simps demo_tvol_set demo_tvol_meta)
qed

lemma demo_data: "data_blocks demo_tvol = {1} \<union> {6..18}"
  by (auto simp: data_blocks_def demo_tvol_set demo_tvol_meta demo_tvol_simps)

lemma demo_trees:
  "tree_blocks demo_tvol (Suc 0) 12 = [12, 13, 14]" "tree_blocks demo_tvol (Suc (Suc 0)) 16 = [16, 17, 18]"
proof -
  have b: "dev_blk (um_devvp demo_tvol) 12 = demo_words [13, 14]" "dev_blk (um_devvp demo_tvol) 16 = demo_words [17]"
    "dev_blk (um_devvp demo_tvol) 17 = demo_words [18]" by (simp_all add: demo_tvol_def)
  have z: "concat (map (tree_blocks demo_tvol l) (replicate k 0)) = []" for l k by (induction k) simp_all
  note w = tree_blocks_words [OF demo_tvol_ok]
  show "tree_blocks demo_tvol (Suc 0) 12 = [12, 13, 14]"
    using w [of 12 0] by (simp add: demo_tvol_simps b demo_words_of z del: map_replicate)
  have "tree_blocks demo_tvol 1 17 = [17, 18]"
    using w [of 17 0] by (simp add: demo_tvol_simps b demo_words_of z del: map_replicate)
  then show "tree_blocks demo_tvol (Suc (Suc 0)) 16 = [16, 17, 18]"
    using w [of 16 1] by (simp add: demo_tvol_simps b demo_words_of z del: map_replicate)
qed

end
