(* ===== verification/Ext2_Indir.thy ===== *)
theory Ext2_Indir
  imports Ext2_Tree
begin

text \<open>
  \<^verbatim>\<open>ext2_indirtrunc\<close> of \<^verbatim>\<open>kext/ext2_inode.c\<close>: the blocks below an indirect block are given back from
  the last position down, after the pointers to them have been zeroed on disk. It is shown to free
  exactly what \<^const>\<open>tree_cut\<close> names, to keep the rest of the tree and to count what it freed.
\<close>

section \<open>The model\<close>

definition btodb :: "int \<Rightarrow> int" where
  "btodb bytes = drop_bit 9 bytes"

text \<open>
  \<open>te_async\<close> is \<^verbatim>\<open>DOINGASYNC(vp)\<close>. A buffer marked invalid is written and then dropped; whether its last
  content reaches the device is not documented, and \<open>te_stale\<close> says that it does not.
\<close>

record trunc_env =
  te_async :: bool
  te_stale :: bool

definition trunc_write :: "trunc_env \<Rightarrow> bool \<Rightarrow> int \<Rightarrow> bytes \<Rightarrow> device \<Rightarrow> errno \<times> device" where
  "trunc_write env invalid a bs dev =
     (let bs = (if invalid \<and> te_stale env then dev_blk dev a else bs)
      in if te_async env then (0, buf_bdwrite dev a bs) else buf_bwrite dev a bs)"

type_synonym indirtrunc = "int \<Rightarrow> int \<Rightarrow> int \<Rightarrow> ext2mount \<Rightarrow> (errno \<times> int \<times> ext2mount) outcome"

text \<open>
  The loop over the pointers that go entirely, from index \<open>i\<close> down to \<open>last'\<close>: \<open>sub\<close> is the recursive
  call, absent at the level \<^verbatim>\<open>SINGLE\<close>. The result is \<open>i\<close>, \<open>nlbn\<close>, the error, the count and the mount.
\<close>

function indir_loop :: "indirtrunc option \<Rightarrow> int \<Rightarrow> bytes \<Rightarrow> int \<Rightarrow> int \<Rightarrow> int \<Rightarrow> int \<Rightarrow> errno \<Rightarrow> int \<Rightarrow> ext2mount \<Rightarrow>
    (int \<times> int \<times> errno \<times> int \<times> ext2mount) outcome" where
  "indir_loop sub nblocks bap factor last' i nlbn allerror blocksreleased ump =
     (if i > last' then
        bnd (get_u32 bap i) (\<lambda>nb.
        bnd (if nb = 0 then Ret (allerror, blocksreleased, ump)
             else
               bnd (case sub of None \<Rightarrow> Ret (allerror, blocksreleased, ump)
                    | Some trunc \<Rightarrow>
                        bnd (trunc nlbn (fsbtodb (um_e2fs ump) (uint nb)) (- 1) ump) (\<lambda>(error, blkcount, ump).
                        Ret (if error \<noteq> 0 then error else allerror, blocksreleased + blkcount, ump)))
               (\<lambda>(allerror, blocksreleased, ump).
               bnd (ext2_blkfree (uint nb) ump) (\<lambda>ump. Ret (allerror, blocksreleased + nblocks, ump))))
        (\<lambda>(allerror, blocksreleased, ump).
        indir_loop sub nblocks bap factor last' (i - 1) (nlbn + factor) allerror blocksreleased ump))
      else Ret (i, nlbn, allerror, blocksreleased, ump))"
  by pat_completeness auto
termination
  by (relation "measure (\<lambda>(sub, nblocks, bap, factor, last', i, r). nat (i - last'))") auto

declare indir_loop.simps [simp del]

definition indirtrunc_body :: "trunc_env \<Rightarrow> indirtrunc option \<Rightarrow> nat \<Rightarrow> indirtrunc" where
  "indirtrunc_body env sub level lbn dbn lastbn ump =
     (let fs = um_e2fs ump; n = NINDIR fs; factor = n ^ level;
          last = (if lastbn > 0 then lastbn sdiv factor else lastbn);
          nblocks = btodb (uint (e2fs_bsize fs))
      in case buf_meta_bread (um_devvp ump) dbn of
           Inl error \<Rightarrow> Ret (error, 0, ump)
         | Inr copy \<Rightarrow>
             if n < last + 1 then Fault Oob
             else
               bnd (blit copy (4 * (last + 1)) (replicate (nat ((n - (last + 1)) * 4)) 0)) (\<lambda>bap.
               let (allerror, dev) = trunc_write env (last = - 1) dbn bap (um_devvp ump) in
               bnd (indir_loop sub nblocks copy factor last (n - 1) (lbn + 1 - (n - 1) * factor) allerror 0 (ump\<lparr>um_devvp := dev\<rparr>))
               (\<lambda>(i, nlbn, allerror, blocksreleased, ump).
               case sub of
                 None \<Rightarrow> Ret (allerror, blocksreleased, ump)
               | Some trunc \<Rightarrow>
                   if lastbn \<ge> 0 then
                     bnd (get_u32 copy i) (\<lambda>nb.
                     if nb = 0 then Ret (allerror, blocksreleased, ump)
                     else
                       bnd (trunc nlbn (fsbtodb (um_e2fs ump) (uint nb)) (lastbn smod factor) ump) (\<lambda>(error, blkcount, ump).
                       Ret (if error \<noteq> 0 then error else allerror, blocksreleased + blkcount, ump)))
                   else Ret (allerror, blocksreleased, ump))))"

fun ext2_indirtrunc :: "trunc_env \<Rightarrow> nat \<Rightarrow> indirtrunc" where
  "ext2_indirtrunc env 0 lbn dbn lastbn ump = indirtrunc_body env None 0 lbn dbn lastbn ump"
| "ext2_indirtrunc env (Suc level) lbn dbn lastbn ump =
     indirtrunc_body env (Some (ext2_indirtrunc env level)) (Suc level) lbn dbn lastbn ump"

section \<open>Pointers in a block\<close>

lemma le32_zero: "le32 (replicate 4 0) = 0"
  by (simp add: numeral_eq_Suc)

text \<open>The tail of a block of pointers zeroed from pointer \<open>k\<close> on.\<close>

lemma zero_tail:
  assumes "k \<le> n" "length bs = 4 * n"
  defines "bs' \<equiv> take (4 * k) bs @ replicate (4 * (n - k)) 0"
  shows "blit bs (4 * int k) (replicate (nat ((int n - int k) * 4)) 0) = Ret bs'" "length bs' = length bs"
    "j < k \<Longrightarrow> get_u32 bs' (int j) = get_u32 bs (int j)"
    "k \<le> j \<Longrightarrow> j < n \<Longrightarrow> get_u32 bs' (int j) = Ret 0"
proof -
  have "(int n - int k) * 4 = int (4 * (n - k))" using assms(1) by (simp add: of_nat_diff)
  then have e: "nat ((int n - int k) * 4) = 4 * (n - k)" by (simp only: nat_int)
  show b: "blit bs (4 * int k) (replicate (nat ((int n - int k) * 4)) 0) = Ret bs'"
  proof -
    have "drop (4 * k + 4 * (n - k)) bs = []" using assms(1,2) by simp
    then show ?thesis using blit_in [of "4 * k" "replicate (4 * (n - k)) 0" bs] assms(1,2) unfolding e bs'_def by (simp del: blit_Ret)
  qed
  show l: "length bs' = length bs" by (rule blit_length [OF b])
  show "get_u32 bs' (int j) = get_u32 bs (int j)" if "j < k"
    unfolding get_u32_ld32 ld32_def using slice_blit_before [OF b, of "4 * int j" 4] that by simp
  show "get_u32 bs' (int j) = Ret 0" if "k \<le> j" "j < n"
  proof -
    have "take 4 (drop (4 * j) bs') = replicate 4 0"
      using that assms(1,2) by (simp add: bs'_def min_def) 
    moreover have "slice bs' (int (4 * j)) 4 = Ret (take 4 (drop (4 * j) bs'))"
      using that assms(2) l by (intro slice_in) simp
    ultimately show ?thesis unfolding get_u32_ld32 ld32_def by (simp add: le32_zero [simplified] del: slice_Ret)
  qed
qed

section \<open>One child goes entirely\<close>

text \<open>What is shown of the routine at level \<open>l\<close>: \<open>lastbn\<close> is the last position that stays, or \<open>-1\<close>.\<close>

definition indir_spec :: "nat \<Rightarrow> indirtrunc \<Rightarrow> bool" where
  "indir_spec l trunc \<longleftrightarrow> (\<forall>ump w lbn lastbn. vol_ok ump \<longrightarrow> w \<noteq> 0 \<longrightarrow> tree_ok ump (Suc l) w \<longrightarrow> - 1 \<le> lastbn \<longrightarrow>
     lastbn < int (nindir_of ump ^ Suc l) \<longrightarrow>
     (\<exists>error ump'. trunc lbn (blk_addr ump (unat w)) lastbn ump =
          Ret (error, btodb (uint (e2fs_bsize (um_e2fs ump))) * int (card (tree_cut ump (Suc l) w (nat (lastbn + 1)))), ump') \<and>
        ((\<forall>a. dev_werr (um_devvp ump) a = 0) \<longrightarrow> error = 0) \<and>
        keeps ump ump' (tree_inner ump (Suc l) w) \<and>
        block_set ump' = block_set ump - tree_cut ump (Suc l) w (nat (lastbn + 1)) \<and>
        (0 \<le> lastbn \<longrightarrow> tree_ok ump' (Suc l) w \<and>
           set (tree_blocks ump' (Suc l) w) = set (tree_blocks ump (Suc l) w) - tree_cut ump (Suc l) w (nat (lastbn + 1)) \<and>
           (\<forall>x < nindir_of ump ^ Suc l. tree_get ump' (Suc l) w x = (if int x \<le> lastbn then tree_get ump (Suc l) w x else 0)))))"

text \<open>The recursive call of the routine at level \<open>l\<close>.\<close>

definition sub_spec :: "nat \<Rightarrow> indirtrunc option \<Rightarrow> bool" where
  "sub_spec l sub \<longleftrightarrow> (case sub of None \<Rightarrow> l = 0 | Some trunc \<Rightarrow> \<exists>l'. l = Suc l' \<and> indir_spec l' trunc)"

definition free_child :: "indirtrunc option \<Rightarrow> int \<Rightarrow> u32 \<Rightarrow> int \<Rightarrow> errno \<Rightarrow> int \<Rightarrow> ext2mount \<Rightarrow> (errno \<times> int \<times> ext2mount) outcome" where
  "free_child sub nblocks nb nlbn allerror blocksreleased ump =
     (if nb = 0 then Ret (allerror, blocksreleased, ump)
      else
        bnd (case sub of None \<Rightarrow> Ret (allerror, blocksreleased, ump)
             | Some trunc \<Rightarrow>
                 bnd (trunc nlbn (fsbtodb (um_e2fs ump) (uint nb)) (- 1) ump) (\<lambda>(error, blkcount, ump).
                 Ret (if error \<noteq> 0 then error else allerror, blocksreleased + blkcount, ump)))
        (\<lambda>(allerror, blocksreleased, ump).
        bnd (ext2_blkfree (uint nb) ump) (\<lambda>ump. Ret (allerror, blocksreleased + nblocks, ump))))"

lemma free_child_frees:
  assumes sub: "sub_spec l sub" and v: "vol_ok ump" and t: "tree_ok ump l c"
    and nb: "nblocks = btodb (uint (e2fs_bsize (um_e2fs ump)))"
  shows "\<exists>error' ump'. free_child sub nblocks c nlbn error rel ump =
       Ret (error', rel + nblocks * int (card (set (tree_blocks ump l c))), ump') \<and>
     ((\<forall>a. dev_werr (um_devvp ump) a = 0) \<longrightarrow> error' = error) \<and>
     keeps ump ump' (tree_inner ump l c) \<and> block_set ump' = block_set ump - set (tree_blocks ump l c)"
proof (cases "c = 0")
  case True
  then show ?thesis using keeps_refl [OF v] by (simp add: free_child_def)
next
  case False
  define cut where "cut = tree_cut ump l c 0"
  have root: "unat c \<notin> cut" "insert (unat c) cut = set (tree_blocks ump l c)"
    using tree_cut_root tree_cut_all [OF False] t by (auto simp: cut_def tree_ok_def)
  have c: "unat c \<in> data_blocks ump" using root(2) t by (auto simp: tree_ok_def)
  obtain e1 u1 where s: "(case sub of None \<Rightarrow> Ret (error, rel, ump)
       | Some trunc \<Rightarrow> bnd (trunc nlbn (fsbtodb (um_e2fs ump) (uint c)) (- 1) ump) (\<lambda>(e, blkcount, ump).
           Ret (if e \<noteq> 0 then e else error, rel + blkcount, ump))) = Ret (e1, rel + nblocks * int (card cut), u1)"
    "(\<forall>a. dev_werr (um_devvp ump) a = 0) \<longrightarrow> e1 = error" "keeps ump u1 (tree_inner ump l c)" "block_set u1 = block_set ump - cut"
  proof (cases sub)
    case None
    then have "l = 0" using sub by (simp add: sub_spec_def)
    with None show ?thesis using that [of error ump] keeps_refl [OF v] by (simp add: cut_def)
  next
    case (Some trunc)
    then obtain l' where l: "l = Suc l'" and f: "indir_spec l' trunc" using sub by (auto simp: sub_spec_def)
    have a: "fsbtodb (um_e2fs ump) (uint c) = blk_addr ump (unat c)" unfolding uint_nat by (rule fsbtodb_blk [OF v])
    have "- 1 < int (nindir_of ump ^ Suc l')" by (rule order_less_le_trans [of _ 0]) simp_all
    with f v False t obtain e u where r: "trunc nlbn (blk_addr ump (unat c)) (- 1) ump = Ret (e, nblocks * int (card cut), u)"
      "(\<forall>a. dev_werr (um_devvp ump) a = 0) \<longrightarrow> e = 0" "keeps ump u (tree_inner ump l c)" "block_set u = block_set ump - cut"
      unfolding indir_spec_def l nb cut_def by fastforce
    show ?thesis
      by (rule that [of "if e \<noteq> 0 then e else error" u]) (use r in \<open>simp_all add: Some a del: bnd_Ret_iff\<close>)
  qed
  have "unat c \<in> data_blocks u1" using c root(1) data_blocks_less [OF s(3,4)] by blast
  from blkfree_keeps [OF keeps_vol [OF s(3)] this] obtain u2 where
    u2: "ext2_blkfree (int (unat c)) u1 = Ret u2" "keeps u1 u2 {}" "block_set u2 = block_set u1 - {unat c}" by blast
  have cnt: "card (set (tree_blocks ump l c)) = Suc (card cut)"
  proof -
    have "finite cut" using root(2) by (metis List.finite_set finite_insert)
    then show ?thesis using root by (metis card_insert_disjoint)
  qed
  have "free_child sub nblocks c nlbn error rel ump = Ret (e1, rel + nblocks * int (card (set (tree_blocks ump l c))), u2)"
    using False u2(1) unfolding free_child_def s(1) by (simp add: cnt algebra_simps del: bnd_Ret_iff)
  moreover have "keeps ump u2 (tree_inner ump l c)" using keeps_trans [OF s(3) u2(2)] by simp
  moreover have "block_set u2 = block_set ump - set (tree_blocks ump l c)" using u2(3) s(4) root(2) by auto
  ultimately show ?thesis using s(2) by blast
qed

section \<open>The loop\<close>

lemma indir_loop_step:
  "last' < i \<Longrightarrow> indir_loop sub nblocks bap factor last' i nlbn error rel ump =
     bnd (get_u32 bap i) (\<lambda>nb. bnd (free_child sub nblocks nb nlbn error rel ump) (\<lambda>(error, rel, ump).
       indir_loop sub nblocks bap factor last' (i - 1) (nlbn + factor) error rel ump))"
  unfolding free_child_def by (subst indir_loop.simps) (rule if_P)

lemma indir_loop_end: "i \<le> last' \<Longrightarrow> indir_loop sub nblocks bap factor last' i nlbn error rel ump = Ret (i, nlbn, error, rel, ump)"
  by (subst indir_loop.simps) simp

lemma indir_loop_frees:
  assumes sub: "sub_spec l sub" and "lo \<le> j" and v: "vol_ok ump"
    and nb: "nblocks = btodb (uint (e2fs_bsize (um_e2fs ump)))"
    and get: "\<And>k. lo \<le> k \<Longrightarrow> k < j \<Longrightarrow> get_u32 bap (int k) = Ret (c k)"
    and ok: "\<And>k. lo \<le> k \<Longrightarrow> k < j \<Longrightarrow> tree_ok ump l (c k)"
    and dis: "\<And>i k. lo \<le> i \<Longrightarrow> i < k \<Longrightarrow> k < j \<Longrightarrow> set (tree_blocks ump l (c i)) \<inter> set (tree_blocks ump l (c k)) = {}"
  defines "D \<equiv> \<Union>k\<in>{lo..<j}. set (tree_blocks ump l (c k))" and "D' \<equiv> \<Union>k\<in>{lo..<j}. tree_inner ump l (c k)"
  shows "\<exists>nlbn' error' ump'. indir_loop sub nblocks bap factor (int lo - 1) (int j - 1) nlbn error rel ump =
       Ret (int lo - 1, nlbn', error', rel + nblocks * int (card D), ump') \<and>
     ((\<forall>a. dev_werr (um_devvp ump) a = 0) \<longrightarrow> error' = error) \<and> keeps ump ump' D' \<and> block_set ump' = block_set ump - D"
  using assms(2-7) unfolding D_def D'_def
proof (induction "j - lo" arbitrary: j nlbn error rel ump)
  case 0
  then show ?case using keeps_refl [OF 0(3)] by (simp add: indir_loop_end)
next
  case (Suc m)
  let ?T = "\<lambda>u k. set (tree_blocks u l (c k))" and ?I = "\<lambda>u k. tree_inner u l (c k)"
  define j' where "j' = j - 1"
  have j: "j = Suc j'" "lo \<le> j'" "m = j' - lo" using Suc.hyps(2) by (auto simp: j'_def)
  have i: "int lo - 1 < int j - 1" "int j - 1 = int j'" using j by auto
  from free_child_frees [OF sub Suc.prems(2) Suc.prems(5) [of j'] Suc.prems(3), of nlbn error rel] j
  obtain e1 u1 where s: "free_child sub nblocks (c j') nlbn error rel ump = Ret (e1, rel + nblocks * int (card (?T ump j')), u1)"
    "(\<forall>a. dev_werr (um_devvp ump) a = 0) \<longrightarrow> e1 = error" "keeps ump u1 (?I ump j')" "block_set u1 = block_set ump - ?T ump j'"
    by auto
  have d: "?T ump k \<inter> ?T ump j' = {}" if "lo \<le> k" "k < j'" for k using Suc.prems(6) [OF that] j by simp
  have d': "?T ump k \<inter> ?I ump j' = {}" if "lo \<le> k" "k < j'" for k using d [OF that] tree_inner_subset [of ump l "c j'"] by blast
  note kp = tree_ok_keeps [OF s(3,4) Suc.prems(5) d' d]
  have T: "?T u1 k = ?T ump k" "tree_ok u1 l (c k)" "?I u1 k = ?I ump k" if "lo \<le> k" "k < j'" for k
    using kp(1,2,5) that j by auto
  have "indir_loop sub nblocks bap factor (int lo - 1) (int j - 1) nlbn error rel ump =
      indir_loop sub nblocks bap factor (int lo - 1) (int j' - 1) (nlbn + factor) e1 (rel + nblocks * int (card (?T ump j'))) u1"
    using Suc.prems(4) [of j'] s(1) j unfolding indir_loop_step [OF i(1)] unfolding i(2) by (simp del: bnd_Ret_iff)
  moreover have "\<exists>nlbn' error' ump'. indir_loop sub nblocks bap factor (int lo - 1) (int j' - 1) (nlbn + factor) e1
        (rel + nblocks * int (card (?T ump j'))) u1 =
       Ret (int lo - 1, nlbn', error', rel + nblocks * int (card (?T ump j')) + nblocks * int (card (\<Union>k\<in>{lo..<j'}. ?T u1 k)), ump') \<and>
     ((\<forall>a. dev_werr (um_devvp u1) a = 0) \<longrightarrow> error' = e1) \<and> keeps u1 ump' (\<Union>k\<in>{lo..<j'}. ?I u1 k) \<and>
     block_set ump' = block_set u1 - (\<Union>k\<in>{lo..<j'}. ?T u1 k)"
  proof (rule Suc.hyps(1) [OF j(3,2) keeps_vol [OF s(3)]])
    show "nblocks = btodb (uint (e2fs_bsize (um_e2fs u1)))"
      using Suc.prems(3) static_fs_fields(1) [OF keeps_static [OF s(3)]] by simp
    show "get_u32 bap (int k) = Ret (c k)" if "lo \<le> k" "k < j'" for k using Suc.prems(4) that j by simp
    show "tree_ok u1 l (c k)" if "lo \<le> k" "k < j'" for k by (rule T(2) [OF that])
    show "?T u1 i \<inter> ?T u1 k = {}" if "lo \<le> i" "i < k" "k < j'" for i k
      using Suc.prems(6) [of i k] that j T(1) [of i] T(1) [of k] by simp
  qed
  moreover have UI: "(\<Union>k\<in>{lo..<j}. ?T ump k) = ?T ump j' \<union> (\<Union>k\<in>{lo..<j'}. ?T u1 k)"
    "(\<Union>k\<in>{lo..<j}. ?I ump k) = ?I ump j' \<union> (\<Union>k\<in>{lo..<j'}. ?I u1 k)"
  proof -
    have "{lo..<j} = insert j' {lo..<j'}" using j by auto
    then show "(\<Union>k\<in>{lo..<j}. ?T ump k) = ?T ump j' \<union> (\<Union>k\<in>{lo..<j'}. ?T u1 k)"
      "(\<Union>k\<in>{lo..<j}. ?I ump k) = ?I ump j' \<union> (\<Union>k\<in>{lo..<j'}. ?I u1 k)" using T(1,3) by auto
  qed
  moreover have "card (\<Union>k\<in>{lo..<j}. ?T ump k) = card (?T ump j') + card (\<Union>k\<in>{lo..<j'}. ?T u1 k)"
  proof -
    have "?T ump j' \<inter> ?T u1 k = {}" if "k \<in> {lo..<j'}" for k using d [of k] T(1) [of k] that by (simp add: Int_commute)
    then have "?T ump j' \<inter> (\<Union>k\<in>{lo..<j'}. ?T u1 k) = {}" by blast
    then show ?thesis unfolding UI by (intro card_Un_disjoint) auto
  qed
  ultimately obtain nlbn' error' u2 where r: "indir_loop sub nblocks bap factor (int lo - 1) (int j - 1) nlbn error rel ump =
       Ret (int lo - 1, nlbn', error', rel + nblocks * int (card (\<Union>k\<in>{lo..<j}. ?T ump k)), u2)"
    "(\<forall>a. dev_werr (um_devvp u1) a = 0) \<longrightarrow> error' = e1" "keeps u1 u2 (\<Union>k\<in>{lo..<j'}. ?I u1 k)"
    "block_set u2 = block_set u1 - (\<Union>k\<in>{lo..<j'}. ?T u1 k)"
    by (auto simp: algebra_simps)
  have "keeps ump u2 (\<Union>k\<in>{lo..<j}. ?I ump k)" unfolding UI by (rule keeps_trans [OF s(3) r(3)])
  moreover have "block_set u2 = block_set ump - (\<Union>k\<in>{lo..<j}. ?T ump k)" unfolding UI r(4) s(4) by auto
  ultimately show ?case using r(1,2) s(2) keeps_params(3) [OF s(3)] by auto
qed

section \<open>The child that goes in part\<close>

definition part_child :: "indirtrunc option \<Rightarrow> int \<Rightarrow> u32 \<Rightarrow> int \<Rightarrow> errno \<Rightarrow> int \<Rightarrow> ext2mount \<Rightarrow> (errno \<times> int \<times> ext2mount) outcome" where
  "part_child sub rem nb nlbn allerror blocksreleased ump =
     (case sub of None \<Rightarrow> Ret (allerror, blocksreleased, ump)
      | Some trunc \<Rightarrow>
          if nb = 0 then Ret (allerror, blocksreleased, ump)
          else
            bnd (trunc nlbn (fsbtodb (um_e2fs ump) (uint nb)) rem ump) (\<lambda>(error, blkcount, ump).
            Ret (if error \<noteq> 0 then error else allerror, blocksreleased + blkcount, ump)))"

lemma part_child_cuts:
  assumes sub: "sub_spec l sub" and v: "vol_ok ump" and t: "tree_ok ump l c" and r: "r < nindir_of ump ^ l"
    and nb: "nblocks = btodb (uint (e2fs_bsize (um_e2fs ump)))"
  shows "\<exists>error' ump'. part_child sub (int r) c nlbn error rel ump =
       Ret (error', rel + nblocks * int (card (tree_cut ump l c (Suc r))), ump') \<and>
     ((\<forall>a. dev_werr (um_devvp ump) a = 0) \<longrightarrow> error' = error) \<and>
     keeps ump ump' (tree_inner ump l c) \<and> block_set ump' = block_set ump - tree_cut ump l c (Suc r) \<and>
     tree_ok ump' l c \<and> set (tree_blocks ump' l c) = set (tree_blocks ump l c) - tree_cut ump l c (Suc r) \<and>
     (\<forall>y < nindir_of ump ^ l. tree_get ump' l c y = (if y \<le> r then tree_get ump l c y else 0))"
proof (cases sub)
  case None
  then have "l = 0" using sub by (simp add: sub_spec_def)
  with None t keeps_refl [OF v] show ?thesis by (intro exI [of _ error] exI [of _ ump]) (simp add: part_child_def)
next
  case (Some trunc)
  then obtain l' where l: "l = Suc l'" and f: "indir_spec l' trunc" using sub by (auto simp: sub_spec_def)
  show ?thesis
  proof (cases "c = 0")
    case True
    with Some t keeps_refl [OF v] show ?thesis by (intro exI [of _ error] exI [of _ ump]) (simp add: part_child_def)
  next
    case False
    have a: "fsbtodb (um_e2fs ump) (uint c) = blk_addr ump (unat c)" unfolding uint_nat by (rule fsbtodb_blk [OF v])
    have b: "- 1 \<le> int r" "int r < int (nindir_of ump ^ Suc l')" "nat (int r + 1) = Suc r" "0 \<le> int r"
      using r unfolding l of_nat_less_iff by simp_all
    from f [unfolded indir_spec_def, rule_format, OF v False t [unfolded l] b(1,2), of nlbn] b(3,4)
    obtain e u where r: "trunc nlbn (blk_addr ump (unat c)) (int r) ump = Ret (e, nblocks * int (card (tree_cut ump l c (Suc r))), u)"
      "(\<forall>a. dev_werr (um_devvp ump) a = 0) \<longrightarrow> e = 0" "keeps ump u (tree_inner ump l c)"
      "block_set u = block_set ump - tree_cut ump l c (Suc r)" "tree_ok u l c"
      "set (tree_blocks u l c) = set (tree_blocks ump l c) - tree_cut ump l c (Suc r)"
      "\<forall>y < nindir_of ump ^ l. tree_get u l c y = (if y \<le> r then tree_get ump l c y else 0)"
      unfolding l nb of_nat_le_iff by auto
    have "part_child sub (int r) c nlbn error rel ump =
        Ret (if e \<noteq> 0 then e else error, rel + nblocks * int (card (tree_cut ump l c (Suc r))), u)"
      using False r(1) by (simp add: part_child_def Some a del: bnd_Ret_iff)
    with r(2-7) show ?thesis by (intro exI [of _ "if e \<noteq> 0 then e else error"] exI [of _ u]) simp
  qed
qed

section \<open>One level\<close>

lemma cut_all: "w \<noteq> 0 \<Longrightarrow> tree_cut u (Suc l) w 0 = (\<Union>k\<in>{0..<nindir_of u}. set (tree_blocks u l (ptr_of u w k)))"
  by (auto simp: tree_cut.simps)

lemma cut_at:
  assumes "w \<noteq> 0" "q < nindir_of u" "r < nindir_of u ^ l"
  shows "tree_cut u (Suc l) w (Suc (q * nindir_of u ^ l + r)) =
     (\<Union>k\<in>{Suc q..<nindir_of u}. set (tree_blocks u l (ptr_of u w k))) \<union> tree_cut u l (ptr_of u w q) (Suc r)"
proof -
  let ?f = "nindir_of u ^ l"
  let ?m = "Suc (q * ?f + r)"
  have hi: "?m \<le> k * ?f" if "q < k" for k
  proof -
    have "Suc q * ?f \<le> k * ?f" using that by (intro mult_le_mono1) simp
    then show ?thesis using assms(3) by simp
  qed
  have lo: "\<not> ?m \<le> k * ?f" "?f \<le> ?m - k * ?f" if "k < q" for k
  proof -
    have "Suc k * ?f \<le> q * ?f" using that by (intro mult_le_mono1) simp
    then show "\<not> ?m \<le> k * ?f" "?f \<le> ?m - k * ?f" by auto
  qed
  let ?F = "\<lambda>k. if ?m \<le> k * ?f then set (tree_blocks u l (ptr_of u w k)) else tree_cut u l (ptr_of u w k) (?m - k * ?f)"
  have F: "?F k = (if q < k then set (tree_blocks u l (ptr_of u w k)) else if k = q then tree_cut u l (ptr_of u w q) (Suc r) else {})" for k
    using hi [of k] lo [of k] tree_cut_full [of u l] by (auto simp: not_less_iff_gr_or_eq)
  have "tree_cut u (Suc l) w ?m = (\<Union>k<nindir_of u. ?F k)" using assms(1) by (simp add: tree_cut.simps)
  also have "\<dots> = (\<Union>k\<in>{Suc q..<nindir_of u}. set (tree_blocks u l (ptr_of u w k))) \<union> tree_cut u l (ptr_of u w q) (Suc r)"
    unfolding F using assms(2) by (auto split: if_splits intro!: bexI)
  finally show ?thesis .
qed

text \<open>The write of the block with the tail zeroed.\<close>

lemma trunc_write_keeps:
  assumes v: "vol_ok u" and b: "b \<notin> meta_blocks (um_e2fs u)" and len: "length bs = unat (e2fs_bsize (um_e2fs u))"
    and tw: "trunc_write env ivd (blk_addr u b) bs (um_devvp u) = (e, dev)"
  shows "keeps u (u\<lparr>um_devvp := dev\<rparr>) {b}" "block_set (u\<lparr>um_devvp := dev\<rparr>) = block_set u"
    "\<not> ivd \<Longrightarrow> dev_blk dev (blk_addr u b) = bs" "(\<forall>a. dev_werr (um_devvp u) a = 0) \<Longrightarrow> e = 0"
proof -
  define bs' where "bs' = (if ivd \<and> te_stale env then dev_blk (um_devvp u) (blk_addr u b) else bs)"
  have dev: "dev = buf_bdwrite (um_devvp u) (blk_addr u b) bs'" "e = 0 \<or> e = dev_werr (um_devvp u) (blk_addr u b)"
    using tw by (auto simp: trunc_write_def bs'_def buf_bwrite_def buf_bdwrite_def Let_def split: if_splits)
  have l: "length bs' = unat (e2fs_bsize (um_e2fs u))" using len v by (simp add: bs'_def vol_ok_def)
  show "keeps u (u\<lparr>um_devvp := dev\<rparr>) {b}" "block_set (u\<lparr>um_devvp := dev\<rparr>) = block_set u"
    unfolding dev(1) by (rule blk_write [OF v b l])+
  show "\<not> ivd \<Longrightarrow> dev_blk dev (blk_addr u b) = bs" unfolding dev(1) by (simp add: bs'_def)
  show "(\<forall>a. dev_werr (um_devvp u) a = 0) \<Longrightarrow> e = 0" using dev(2) by auto
qed

text \<open>The first half: the write and the loop. \<open>lo\<close> is the number of children that stay, whole or in part.\<close>

definition kept_children :: "ext2mount \<Rightarrow> nat \<Rightarrow> int \<Rightarrow> nat" where
  "kept_children u l lastbn = (if lastbn < 0 then 0 else Suc (nat lastbn div nindir_of u ^ l))"

lemma kept_children_last:
  assumes "vol_ok u" "- 1 \<le> lastbn" "lastbn < int (nindir_of u ^ Suc l)"
  shows "(if lastbn > 0 then lastbn sdiv NINDIR (um_e2fs u) ^ l else lastbn) = int (kept_children u l lastbn) - 1"
    "kept_children u l lastbn \<le> nindir_of u"
proof -
  show "(if lastbn > 0 then lastbn sdiv NINDIR (um_e2fs u) ^ l else lastbn) = int (kept_children u l lastbn) - 1"
    using assms(2) by (auto simp: kept_children_def nindir_bsize [OF assms(1)] geom_simps zdiv_int not_less)
  show "kept_children u l lastbn \<le> nindir_of u"
  proof (cases "lastbn < 0")
    case False
    then have "int (nat lastbn) < int (nindir_of u ^ Suc l)" using assms(3) by simp
    then have "nat lastbn < nindir_of u ^ Suc l" by (simp only: of_nat_less_iff)
    then have "nat lastbn < nindir_of u * nindir_of u ^ l" by simp
    then have "nat lastbn div nindir_of u ^ l < nindir_of u" by (rule less_mult_imp_div_less)
    then show ?thesis using False by (simp add: kept_children_def)
  qed (simp add: kept_children_def)
qed

lemma indirtrunc_first_half:
  assumes sub: "sub_spec l sub" and v: "vol_ok u" and w: "w \<noteq> 0" and t: "tree_ok u (Suc l) w"
    and rng: "- 1 \<le> lastbn" "lastbn < int (nindir_of u ^ Suc l)"
  defines "lo \<equiv> kept_children u l lastbn" and "nblocks \<equiv> btodb (uint (e2fs_bsize (um_e2fs u)))"
    and "copy \<equiv> dev_blk (um_devvp u) (blk_addr u (unat w))"
  defines "D \<equiv> \<Union>k\<in>{lo..<nindir_of u}. set (tree_blocks u l (ptr_of u w k))"
    and "D' \<equiv> \<Union>k\<in>{lo..<nindir_of u}. tree_inner u l (ptr_of u w k)"
  obtains nlbn e u1 u2 where
    "indirtrunc_body env sub l lbn (blk_addr u (unat w)) lastbn u =
       (if sub = None \<or> lastbn < 0 then Ret (e, nblocks * int (card D), u2)
        else part_child sub (lastbn smod NINDIR (um_e2fs u) ^ l) (ptr_of u w (lo - 1)) nlbn e (nblocks * int (card D)) u2)"
    "(\<forall>a. dev_werr (um_devvp u) a = 0) \<longrightarrow> e = 0" "keeps u u1 {unat w}" "block_set u1 = block_set u"
    "keeps u1 u2 D'" "block_set u2 = block_set u1 - D"
    "0 < lo \<longrightarrow> (\<forall>k < nindir_of u. ptr_of u1 w k = (if k < lo then ptr_of u w k else 0))"
proof -
  let ?n = "nindir_of u" and ?b = "unat w" and ?c = "ptr_of u w"
  note kl = kept_children_last [OF v rng]
  have lo: "lo \<le> ?n" using kl(2) by (simp add: lo_def)
  have len: "length copy = 4 * ?n" using v by (simp add: copy_def vol_ok_def)
  have read: "buf_meta_bread (um_devvp u) (blk_addr u ?b) = Inr copy" using v by (simp add: buf_meta_bread_def copy_def vol_ok_def)
  define bap where "bap = take (4 * lo) copy @ replicate (4 * (?n - lo)) 0"
  note zt = zero_tail [OF lo len, folded bap_def]
  have b: "?b \<notin> meta_blocks (um_e2fs u)" using t w by (auto simp: tree_ok_def data_blocks_def set_tree_Suc)
  obtain e0 dev where tw: "trunc_write env (lo = 0) (blk_addr u ?b) bap (um_devvp u) = (e0, dev)" by (cases "trunc_write env (lo = 0) (blk_addr u ?b) bap (um_devvp u)")
  have blen: "length bap = unat (e2fs_bsize (um_e2fs u))" using zt(2) len v by (simp add: vol_ok_def)
  note kw = trunc_write_keeps [OF v b blen tw]
  define u1 where "u1 = u\<lparr>um_devvp := dev\<rparr>"
  have k1: "keeps u u1 {?b}" "block_set u1 = block_set u" "block_set u1 = block_set u - {}" using kw(1,2) by (simp_all add: u1_def)
  have child: "tree_ok u l (?c k)" "set (tree_blocks u l (?c k)) \<inter> {?b} = {}" if "k < ?n" for k
    using tree_ok_child [OF t w that] by auto
  have T: "tree_blocks u1 l (?c k) = tree_blocks u l (?c k)" "tree_ok u1 l (?c k)" "tree_inner u1 l (?c k) = tree_inner u l (?c k)" if "k < ?n" for k
    using tree_ok_keeps [OF k1(1,3) child(1) [OF that] child(2) [OF that]] by simp_all
  have nb1: "nblocks = btodb (uint (e2fs_bsize (um_e2fs u1)))"
    using static_fs_fields(1) [OF keeps_static [OF k1(1)]] by (simp add: nblocks_def)
  have get: "get_u32 copy (int k) = Ret (?c k)" if "k < ?n" for k
    unfolding copy_def by (rule ptr_of_read [OF v that])
  define nlbn0 where "nlbn0 = lbn + 1 - (NINDIR (um_e2fs u) - 1) * NINDIR (um_e2fs u) ^ l"
  have "\<exists>nlbn' error' u2. indir_loop sub nblocks copy (NINDIR (um_e2fs u) ^ l) (int lo - 1) (int ?n - 1) nlbn0 e0 0 u1 =
       Ret (int lo - 1, nlbn', error', 0 + nblocks * int (card (\<Union>k\<in>{lo..<?n}. set (tree_blocks u1 l (?c k)))), u2) \<and>
     ((\<forall>a. dev_werr (um_devvp u1) a = 0) \<longrightarrow> error' = e0) \<and> keeps u1 u2 (\<Union>k\<in>{lo..<?n}. tree_inner u1 l (?c k)) \<and>
     block_set u2 = block_set u1 - (\<Union>k\<in>{lo..<?n}. set (tree_blocks u1 l (?c k)))"
  proof (rule indir_loop_frees [OF sub lo keeps_vol [OF k1(1)] nb1])
    show "get_u32 copy (int k) = Ret (?c k)" if "lo \<le> k" "k < ?n" for k by (rule get [OF that(2)])
    show "tree_ok u1 l (?c k)" if "lo \<le> k" "k < ?n" for k by (rule T(2) [OF that(2)])
    show "set (tree_blocks u1 l (?c i)) \<inter> set (tree_blocks u1 l (?c k)) = {}" if "lo \<le> i" "i < k" "k < ?n" for i k
      using tree_ok_disjoint [OF t w, of i k] that T(1) [of i] T(1) [of k] by simp
  qed
  moreover have D: "(\<Union>k\<in>{lo..<?n}. set (tree_blocks u1 l (?c k))) = D" using T(1) by (simp add: D_def)
  moreover have "(\<Union>k\<in>{lo..<?n}. tree_inner u1 l (?c k)) = D'" using T(3) by (simp add: D'_def)
  ultimately obtain nlbn e u2 where lp: "indir_loop sub nblocks copy (NINDIR (um_e2fs u) ^ l) (int lo - 1) (int ?n - 1) nlbn0 e0 0 u1 =
       Ret (int lo - 1, nlbn, e, nblocks * int (card D), u2)"
    "(\<forall>a. dev_werr (um_devvp u1) a = 0) \<longrightarrow> e = e0" "keeps u1 u2 D'" "block_set u2 = block_set u1 - D"
    by auto
  have last1: "(int lo - 1 = - 1) = (lo = 0)" "int lo - 1 + 1 = int lo" by auto
  have nlo: "(int ?n < int lo) = False" using lo by simp
  have body: "indirtrunc_body env sub l lbn (blk_addr u ?b) lastbn u =
      (case sub of None \<Rightarrow> Ret (e, nblocks * int (card D), u2)
       | Some trunc \<Rightarrow>
           if lastbn \<ge> 0 then
             bnd (get_u32 copy (int lo - 1)) (\<lambda>nb.
             if nb = 0 then Ret (e, nblocks * int (card D), u2)
             else
               bnd (trunc nlbn (fsbtodb (um_e2fs u2) (uint nb)) (lastbn smod NINDIR (um_e2fs u) ^ l) u2) (\<lambda>(error, blkcount, ump).
               Ret (if error \<noteq> 0 then error else e, nblocks * int (card D) + blkcount, ump)))
           else Ret (e, nblocks * int (card D), u2))"
    unfolding indirtrunc_body_def Let_def kl(1) [folded lo_def, unfolded nindir_bsize [OF v]] read sum.case nindir_bsize [OF v] last1 nlo if_False zt(1) bnd.simps
      tw prod.case u1_def [symmetric] nblocks_def [symmetric] lp(1) [unfolded nindir_bsize [OF v] nlbn0_def] ..
  show ?thesis
  proof (rule that [of e u2 nlbn u1])
    show "indirtrunc_body env sub l lbn (blk_addr u ?b) lastbn u =
       (if sub = None \<or> lastbn < 0 then Ret (e, nblocks * int (card D), u2)
        else part_child sub (lastbn smod NINDIR (um_e2fs u) ^ l) (?c (lo - 1)) nlbn e (nblocks * int (card D)) u2)"
    proof (cases "sub = None \<or> lastbn < 0")
      case True
      then show ?thesis unfolding body by (cases sub) auto
    next
      case False
      then obtain trunc where s: "sub = Some trunc" "0 \<le> lastbn" by auto
      then have "0 < lo" by (simp add: lo_def kept_children_def)
      then have "get_u32 copy (int lo - 1) = Ret (?c (lo - 1))" using get [of "lo - 1"] lo by (simp add: of_nat_diff)
      then show ?thesis using s unfolding body by (simp add: part_child_def not_less [symmetric] del: bnd_Ret_iff)
    qed
    show "(\<forall>a. dev_werr (um_devvp u) a = 0) \<longrightarrow> e = 0" using lp(2) kw(4) keeps_params(3) [OF k1(1)] by simp
    show "0 < lo \<longrightarrow> (\<forall>k < ?n. ptr_of u1 w k = (if k < lo then ?c k else 0))"
    proof (intro impI allI)
      fix k assume k: "0 < lo" "k < ?n"
      have "dev_blk (um_devvp u1) (blk_addr u ?b) = bap" using kw(3) k(1) by (simp add: u1_def)
      then have p: "ptr_of u1 w k = (case get_u32 bap (int k) of Ret d \<Rightarrow> d | Fault f \<Rightarrow> 0)"
        using keeps_params(2) [OF k1(1)] by (simp add: ptr_of_def blk_addr_def u1_def)
      show "ptr_of u1 w k = (if k < lo then ?c k else 0)"
        using zt(3) [of k] zt(4) [of k] get [OF k(2)] k(2) unfolding p by (cases "k < lo") simp_all
    qed
  qed (fact k1 lp)+
qed

text \<open>A block whose pointers past child \<open>q\<close> are gone, and whose child \<open>q\<close> has lost what it was to lose.\<close>

lemma tree_after_cut:
  assumes t: "tree_ok u (Suc l) w" "w \<noteq> 0" and q: "q < nindir_of u" "r < nindir_of u ^ l"
    and n: "nindir_of u' = nindir_of u" and ptr: "\<And>k. k < nindir_of u \<Longrightarrow> ptr_of u' w k = (if k < Suc q then ptr_of u w k else 0)"
    and below: "\<And>k. k < q \<Longrightarrow> tree_blocks u' l (ptr_of u w k) = tree_blocks u l (ptr_of u w k)"
      "\<And>k y. k < q \<Longrightarrow> y < nindir_of u ^ l \<Longrightarrow> tree_get u' l (ptr_of u w k) y = tree_get u l (ptr_of u w k) y"
    and at: "tree_ok u' l (ptr_of u w q)"
      "set (tree_blocks u' l (ptr_of u w q)) = set (tree_blocks u l (ptr_of u w q)) - tree_cut u l (ptr_of u w q) (Suc r)"
      "\<And>y. y < nindir_of u ^ l \<Longrightarrow> tree_get u' l (ptr_of u w q) y = (if y \<le> r then tree_get u l (ptr_of u w q) y else 0)"
    and data: "data_blocks u' = data_blocks u - tree_cut u (Suc l) w (Suc (q * nindir_of u ^ l + r))"
  shows "tree_ok u' (Suc l) w"
    "set (tree_blocks u' (Suc l) w) = set (tree_blocks u (Suc l) w) - tree_cut u (Suc l) w (Suc (q * nindir_of u ^ l + r))"
    "x < nindir_of u ^ Suc l \<Longrightarrow> tree_get u' (Suc l) w x = (if x \<le> q * nindir_of u ^ l + r then tree_get u (Suc l) w x else 0)"
proof -
  let ?n = "nindir_of u" and ?c = "ptr_of u w" and ?T = "\<lambda>k. set (tree_blocks u l (ptr_of u w k))"
  let ?cut = "tree_cut u (Suc l) w (Suc (q * ?n ^ l + r))" and ?E = "tree_cut u l (ptr_of u w q) (Suc r)"
  have cut: "?cut = (\<Union>k\<in>{Suc q..<?n}. ?T k) \<union> ?E" by (rule cut_at [OF t(2) q])
  have E: "?E \<subseteq> ?T q" by (rule tree_cut_subset)
  have dis: "?T j \<inter> ?T k = {}" if "j < ?n" "k < ?n" "j \<noteq> k" for j k by (rule tree_ok_disjoint [OF t that])
  have w: "unat w \<notin> ?T k" "distinct (tree_blocks u l (?c k))" if "k < ?n" for k
    using tree_ok_child [OF t that] by (auto simp: tree_ok_def)
  have ch: "set (tree_blocks u' l (ptr_of u' w k)) = (if k < q then ?T k else if k = q then ?T q - ?E else {})" if "k < ?n" for k
    using ptr [OF that] below(1) at(2) by auto
  have dch: "distinct (tree_blocks u' l (ptr_of u' w k))" if "k < ?n" for k
    using ptr [OF that] below(1) [of k] at(1) w(2) [OF that] by (cases "k < q"; cases "k = q") (auto simp: tree_ok_def)
  have set': "set (tree_blocks u' (Suc l) w) = insert (unat w) ((\<Union>k\<in>{..<q}. ?T k) \<union> (?T q - ?E))"
  proof -
    have "{..<?n} = {..<q} \<union> {q} \<union> {Suc q..<?n}" using q(1) by auto
    then have "(\<Union>k<?n. set (tree_blocks u' l (ptr_of u' w k))) =
        (\<Union>k\<in>{..<q}. set (tree_blocks u' l (ptr_of u' w k))) \<union> set (tree_blocks u' l (ptr_of u' w q)) \<union>
        (\<Union>k\<in>{Suc q..<?n}. set (tree_blocks u' l (ptr_of u' w k)))" by (simp only: UN_Un UN_singleton) simp
    also have "\<dots> = (\<Union>k\<in>{..<q}. ?T k) \<union> (?T q - ?E)" using ch q(1) by simp
    finally show ?thesis unfolding set_tree_Suc [OF t(2)] n by simp
  qed
  have setu: "set (tree_blocks u (Suc l) w) = insert (unat w) ((\<Union>k\<in>{..<q}. ?T k) \<union> ?T q \<union> (\<Union>k\<in>{Suc q..<?n}. ?T k))"
  proof -
    have "{..<?n} = {..<q} \<union> {q} \<union> {Suc q..<?n}" using q(1) by auto
    then have "(\<Union>k<?n. ?T k) = (\<Union>k\<in>{..<q}. ?T k) \<union> ?T q \<union> (\<Union>k\<in>{Suc q..<?n}. ?T k)"
      by (simp only: UN_Un UN_singleton) simp
    then show ?thesis unfolding set_tree_Suc [OF t(2)] by simp
  qed
  have "unat w \<notin> ?cut" using tree_cut_root t(1) by (auto simp: tree_ok_def)
  moreover have "?T k \<inter> ?cut = {}" if "k < q" for k
  proof -
    have "?T k \<inter> ?T j = {}" if "j \<in> {Suc q..<?n}" for j using dis [of k j] that \<open>k < q\<close> by auto
    moreover have "?T k \<inter> ?T q = {}" using dis [of k q] that q(1) by auto
    ultimately show ?thesis using E unfolding cut by blast
  qed
  moreover have "?T q - ?cut = ?T q - ?E"
  proof -
    have "?T q \<inter> ?T j = {}" if "j \<in> {Suc q..<?n}" for j using dis [of q j] that by auto
    then show ?thesis unfolding cut by blast
  qed
  moreover have "(\<Union>k\<in>{Suc q..<?n}. ?T k) \<subseteq> ?cut" unfolding cut by blast
  ultimately show S: "set (tree_blocks u' (Suc l) w) = set (tree_blocks u (Suc l) w) - ?cut"
    unfolding set' setu by blast
  have "distinct (tree_blocks u' (Suc l) w)"
    unfolding distinct_tree_Suc [OF t(2)] n
  proof (intro conjI allI impI)
    fix k assume k: "k < ?n"
    show "distinct (tree_blocks u' l (ptr_of u' w k))" by (rule dch [OF k])
    show "unat w \<notin> set (tree_blocks u' l (ptr_of u' w k))" using w(1) k ch [OF k] by auto
  next
    fix j k assume jk: "j < ?n" "k < ?n" "j \<noteq> k"
    then show "set (tree_blocks u' l (ptr_of u' w j)) \<inter> set (tree_blocks u' l (ptr_of u' w k)) = {}"
      using dis [OF jk] ch [OF jk(1)] ch [OF jk(2)] by auto
  qed
  then show "tree_ok u' (Suc l) w" using S t(1) data by (auto simp: tree_ok_def)
  show "tree_get u' (Suc l) w x = (if x \<le> q * ?n ^ l + r then tree_get u (Suc l) w x else 0)" if x: "x < ?n ^ Suc l"
  proof -
    have pos: "0 < ?n" using q(1) by simp
    obtain k y where k: "x = k * ?n ^ l + y" "k < ?n" "y < ?n ^ l" by (rule position_split [OF x pos])
    have g: "tree_get u (Suc l) w x = tree_get u l (?c k) y" "tree_get u' (Suc l) w x = tree_get u' l (ptr_of u' w k) y"
      using tree_get_child [OF t(2) k(2,3)] tree_get_child [of w k u' y l] t(2) k n by simp_all
    consider "k < q" | "k = q" | "q < k" by linarith
    then show ?thesis
    proof cases
      case 1
      have "Suc k * ?n ^ l \<le> q * ?n ^ l" using 1 by (intro mult_le_mono1) simp
      then have "x \<le> q * ?n ^ l + r" using k by simp
      then show ?thesis using g ptr [OF k(2)] below(2) [OF 1 k(3)] 1 by simp
    next
      case 2
      then show ?thesis using g ptr [OF k(2)] at(3) [OF k(3)] k(1) by simp
    next
      case 3
      have "Suc q * ?n ^ l \<le> k * ?n ^ l" using 3 by (intro mult_le_mono1) simp
      then have "\<not> x \<le> q * ?n ^ l + r" using k(1) q(2) by simp
      then show ?thesis using g ptr [OF k(2)] 3 by simp
    qed
  qed
qed

lemma indirtrunc_body_spec:
  assumes sub: "sub_spec l sub"
  shows "indir_spec l (indirtrunc_body env sub l)"
  unfolding indir_spec_def
proof (intro allI impI)
  fix u w lbn lastbn
  assume v: "vol_ok u" and w: "w \<noteq> 0" and t: "tree_ok u (Suc l) w" and rng: "- 1 \<le> lastbn" "lastbn < int (nindir_of u ^ Suc l)"
  let ?n = "nindir_of u" and ?c = "ptr_of u w" and ?T = "\<lambda>k. set (tree_blocks u l (ptr_of u w k))"
  let ?cut = "tree_cut u (Suc l) w (nat (lastbn + 1))" and ?S = "set (tree_blocks u (Suc l) w)"
    and ?SI = "tree_inner u (Suc l) w"
  define lo where "lo = kept_children u l lastbn"
  define D where "D = (\<Union>k\<in>{lo..<?n}. ?T k)"
  define D' where "D' = (\<Union>k\<in>{lo..<?n}. tree_inner u l (?c k))"
  have DD: "D' \<subseteq> D" using tree_inner_subset [of u l] by (force simp: D_def D'_def)
  obtain nlbn e u1 u2 where run: "indirtrunc_body env sub l lbn (blk_addr u (unat w)) lastbn u =
       (if sub = None \<or> lastbn < 0 then Ret (e, btodb (uint (e2fs_bsize (um_e2fs u))) * int (card D), u2)
        else part_child sub (lastbn smod NINDIR (um_e2fs u) ^ l) (?c (lo - 1)) nlbn e (btodb (uint (e2fs_bsize (um_e2fs u))) * int (card D)) u2)"
    and err: "(\<forall>a. dev_werr (um_devvp u) a = 0) \<longrightarrow> e = 0" and k1: "keeps u u1 {unat w}" "block_set u1 = block_set u"
    and k2: "keeps u1 u2 D'" "block_set u2 = block_set u1 - D"
    and ptr: "0 < lo \<longrightarrow> (\<forall>k < ?n. ptr_of u1 w k = (if k < lo then ?c k else 0))"
    unfolding lo_def D_def D'_def by (rule indirtrunc_first_half [OF sub v w t rng])
  have k12: "keeps u u2 ({unat w} \<union> D')" "block_set u2 = block_set u - D" using keeps_trans [OF k1(1) k2(1)] k1(2) k2(2) by auto
  have S: "?S = insert (unat w) (\<Union>k<?n. ?T k)" by (rule set_tree_Suc [OF w])
  have DS: "D \<subseteq> (\<Union>k<?n. ?T k)" by (auto simp: D_def)
  have SI: "?SI = insert (unat w) (\<Union>k<?n. tree_inner u l (?c k))" using w by (simp add: tree_inner.simps)
  have DI: "D' \<subseteq> (\<Union>k<?n. tree_inner u l (?c k))" by (auto simp: D'_def)
  show "\<exists>error ump'. indirtrunc_body env sub l lbn (blk_addr u (unat w)) lastbn u =
          Ret (error, btodb (uint (e2fs_bsize (um_e2fs u))) * int (card ?cut), ump') \<and>
        ((\<forall>a. dev_werr (um_devvp u) a = 0) \<longrightarrow> error = 0) \<and> keeps u ump' ?SI \<and> block_set ump' = block_set u - ?cut \<and>
        (0 \<le> lastbn \<longrightarrow> tree_ok ump' (Suc l) w \<and> set (tree_blocks ump' (Suc l) w) = ?S - ?cut \<and>
           (\<forall>x < ?n ^ Suc l. tree_get ump' (Suc l) w x = (if int x \<le> lastbn then tree_get u (Suc l) w x else 0)))"
  proof (cases "lastbn < 0")
    case True
    then have "lo = 0" "nat (lastbn + 1) = 0" using rng(1) by (simp_all add: lo_def kept_children_def)
    then have D: "?cut = D" using cut_all [OF w, of u l] by (simp add: D_def)
    have "keeps u u2 ?SI" by (rule keeps_mono [OF k12(1)]) (use DI SI in blast)
    with True run err k12(2) show ?thesis unfolding D by auto
  next
    case False
    define q r where "q = nat lastbn div ?n ^ l" and "r = nat lastbn mod ?n ^ l"
    have lo: "lo = Suc q" "lo - 1 = q" using False by (simp_all add: lo_def kept_children_def q_def)
    have q: "q < ?n" using kept_children_last(2) [OF v rng] lo by (simp add: lo_def)
    have r: "r < ?n ^ l" using nindir_pos [OF v] by (simp add: r_def)
    have lb: "nat lastbn = q * ?n ^ l + r" by (simp only: q_def r_def div_mult_mod_eq)
    have nl: "nat (lastbn + 1) = Suc (q * ?n ^ l + r)" using False lb by (simp add: nat_add_distrib)
    have cut: "?cut = D \<union> tree_cut u l (?c q) (Suc r)" unfolding nl D_def lo(1) by (rule cut_at [OF w q r])
    have md: "lastbn smod NINDIR (um_e2fs u) ^ l = int r"
      using False by (simp add: nindir_bsize [OF v] geom_simps r_def zmod_int)
    have run': "indirtrunc_body env sub l lbn (blk_addr u (unat w)) lastbn u =
        part_child sub (int r) (?c q) nlbn e (btodb (uint (e2fs_bsize (um_e2fs u))) * int (card D)) u2"
      unfolding run lo(2) md using False by (auto simp: part_child_def)
    have dD: "?T k \<inter> D = {}" if "k \<le> q" for k
    proof -
      have "?T k \<inter> ?T j = {}" if "j \<in> {lo..<?n}" for j using tree_ok_disjoint [OF t w, of k j] that \<open>k \<le> q\<close> lo q by auto
      then show ?thesis unfolding D_def by blast
    qed
    have dW: "?T k \<inter> ({unat w} \<union> D') = {}" if "k \<le> q" for k using dD [OF that] DD tree_ok_child(3) [OF t w, of k] that q by auto
    have ok: "tree_ok u l (?c k)" if "k \<le> q" for k using tree_ok_child(1) [OF t w, of k] that q by simp
    note two = tree_ok_keeps [OF k12 ok dW dD]
    have n2: "nindir_of u2 = ?n" using keeps_params(1) [OF k12(1)] .
    have nb2: "btodb (uint (e2fs_bsize (um_e2fs u))) = btodb (uint (e2fs_bsize (um_e2fs u2)))"
      using static_fs_fields(1) [OF keeps_static [OF k12(1)]] by simp
    have q2: "tree_blocks u2 l (?c q) = tree_blocks u l (?c q)" "tree_ok u2 l (?c q)"
      "tree_cut u2 l (?c q) (Suc r) = tree_cut u l (?c q) (Suc r)" "\<And>y. y < ?n ^ l \<Longrightarrow> tree_get u2 l (?c q) y = tree_get u l (?c q) y"
      "tree_inner u2 l (?c q) = tree_inner u l (?c q)"
      using two [of q] by auto
    obtain e3 u3 where s: "indirtrunc_body env sub l lbn (blk_addr u (unat w)) lastbn u =
         Ret (e3, btodb (uint (e2fs_bsize (um_e2fs u))) * int (card D) +
           btodb (uint (e2fs_bsize (um_e2fs u))) * int (card (tree_cut u l (?c q) (Suc r))), u3)"
      "(\<forall>a. dev_werr (um_devvp u2) a = 0) \<longrightarrow> e3 = e" "keeps u2 u3 (tree_inner u l (?c q))" "block_set u3 = block_set u2 - tree_cut u l (?c q) (Suc r)"
      "tree_ok u3 l (?c q)" "set (tree_blocks u3 l (?c q)) = ?T q - tree_cut u l (?c q) (Suc r)"
      "\<forall>y < ?n ^ l. tree_get u3 l (?c q) y = (if y \<le> r then tree_get u2 l (?c q) y else 0)"
      using part_child_cuts [OF sub keeps_vol [OF k12(1)] q2(2) r [folded n2] nb2, of nlbn e
          "btodb (uint (e2fs_bsize (um_e2fs u))) * int (card D)"]
      unfolding run' q2(1,3,5) n2 by blast
    have k13: "keeps u u3 (({unat w} \<union> D') \<union> tree_inner u l (?c q))" by (rule keeps_trans [OF k12(1) s(3)])
    have b3: "block_set u3 = block_set u - ?cut" unfolding s(4) k12(2) cut by blast
    have "D \<inter> tree_cut u l (?c q) (Suc r) = {}" using dD [of q] tree_cut_subset [of u l "?c q" "Suc r"] by blast
    moreover have "finite D" "finite (tree_cut u l (?c q) (Suc r))"
      using finite_subset [OF tree_cut_subset [of u l "?c q" "Suc r"]] by (auto simp: D_def)
    ultimately have card: "card ?cut = card D + card (tree_cut u l (?c q) (Suc r))" unfolding cut by (intro card_Un_disjoint)
    have kS: "keeps u u3 ?SI" by (rule keeps_mono [OF k13]) (use DI SI q in blast)
    have Iq: "tree_inner u l (?c q) \<subseteq> ?T q" by (rule tree_inner_subset)
    have k23: "keeps u1 u3 (D \<union> ?T q)" by (rule keeps_mono [OF keeps_trans [OF k2(1) s(3)]]) (use DD Iq in blast)
    have "agree u1 u3 {unat w}"
      by (rule keeps_agree [OF k23])
        (use dW [of q] tree_ok_child(3) [OF t w] t S static_fs_fields(15) [OF keeps_static [OF k1(1)]] in
          \<open>auto simp: D_def tree_ok_def data_blocks_def\<close>)
    then have ptr3: "ptr_of u3 w k = (if k < Suc q then ?c k else 0)" if "k < ?n" for k
      using agree_ptr [of u1 u3 "{unat w}" w k] ptr that lo(1) by simp
    have below: "tree_blocks u3 l (?c k) = tree_blocks u l (?c k)" "y < ?n ^ l \<Longrightarrow> tree_get u3 l (?c k) y = tree_get u l (?c k) y"
      if "k < q" for k y
    proof -
      have d: "set (tree_blocks u2 l (?c k)) \<inter> ?T q = {}"
        using two(1) [of k] tree_ok_disjoint [OF t w, of k q] that q by simp
      then have d': "set (tree_blocks u2 l (?c k)) \<inter> tree_cut u l (?c q) (Suc r) = {}" using tree_cut_subset [of u l "?c q" "Suc r"] by blast
      have di: "set (tree_blocks u2 l (?c k)) \<inter> tree_inner u l (?c q) = {}" using d Iq by blast
      note kk = tree_ok_keeps [OF s(3,4) _ di d']
      show "tree_blocks u3 l (?c k) = tree_blocks u l (?c k)" using kk(1) two(1,2) [of k] that by simp
      show "y < ?n ^ l \<Longrightarrow> tree_get u3 l (?c k) y = tree_get u l (?c k) y" using kk(4) two(2,4) [of k] that n2 by simp
    qed
    have n3: "nindir_of u3 = ?n" using keeps_params(1) [OF k13] .
    have s7: "\<And>y. y < ?n ^ l \<Longrightarrow> tree_get u3 l (?c q) y = (if y \<le> r then tree_get u l (?c q) y else 0)" using s(7) q2(4) by simp
    have da: "data_blocks u3 = data_blocks u - ?cut" by (rule data_blocks_less [OF kS b3])
    note ac = tree_after_cut [OF t w q r n3 ptr3 below s(5,6) s7 da [unfolded nl]]
    have le: "x \<le> q * ?n ^ l + r \<longleftrightarrow> int x \<le> lastbn" for x using lb False by linarith
    have "(\<forall>a. dev_werr (um_devvp u) a = 0) \<longrightarrow> e3 = 0" using err s(2) keeps_params(3) [OF k12(1)] by simp
    with s(1) kS b3 ac [unfolded le, folded nl] show ?thesis
      unfolding card by (intro exI [of _ e3] exI [of _ u3]) (simp add: distrib_left)
  qed
qed

text \<open>The routine at every level.\<close>

lemma indirtrunc_spec: "indir_spec l (ext2_indirtrunc env l)"
proof (induction l)
  case 0
  have "sub_spec 0 None" by (simp add: sub_spec_def)
  moreover have "ext2_indirtrunc env 0 = indirtrunc_body env None 0" by (intro ext) simp
  ultimately show ?case using indirtrunc_body_spec by metis
next
  case (Suc l)
  then have "sub_spec (Suc l) (Some (ext2_indirtrunc env l))" by (simp add: sub_spec_def)
  moreover have "ext2_indirtrunc env (Suc l) = indirtrunc_body env (Some (ext2_indirtrunc env l)) (Suc l)" by (intro ext) simp
  ultimately show ?case using indirtrunc_body_spec by metis
qed

text \<open>C29. \<^verbatim>\<open>ext2_indirtrunc\<close> on a tree of used blocks, told to keep the positions up to \<open>lastbn\<close> (none for
  \<open>-1\<close>): it returns, having freed exactly the blocks below the indirect block that serve no position
  that stays, and counted each of them once; the positions that stay lead to the same blocks, the others
  nowhere; what is left is again a tree of used blocks. Only bitmaps and indirect blocks of this tree are written, so no data
  changes. The only error it reports is one of a write.\<close>

theorem indirtrunc_frees_beyond:
  assumes "vol_ok u" "w \<noteq> 0" "tree_ok u (Suc level) w" "- 1 \<le> lastbn" "lastbn < int (nindir_of u ^ Suc level)"
  shows "\<exists>error u' freed. ext2_indirtrunc env level lbn (fsbtodb (um_e2fs u) (uint w)) lastbn u =
       Ret (error, btodb (uint (e2fs_bsize (um_e2fs u))) * int (card freed), u') \<and>
     freed = tree_cut u (Suc level) w (nat (lastbn + 1)) \<and>
     ((\<forall>a. dev_werr (um_devvp u) a = 0) \<longrightarrow> error = 0) \<and> keeps u u' (tree_inner u (Suc level) w) \<and>
     block_set u' = block_set u - freed \<and>
     (lastbn = - 1 \<longrightarrow> insert (unat w) freed = set (tree_blocks u (Suc level) w) \<and> unat w \<notin> freed) \<and>
     (0 \<le> lastbn \<longrightarrow> tree_ok u' (Suc level) w \<and>
        set (tree_blocks u' (Suc level) w) = set (tree_blocks u (Suc level) w) - freed \<and>
        (\<forall>x < nindir_of u ^ Suc level.
           tree_get u' (Suc level) w x = (if int x \<le> lastbn then tree_get u (Suc level) w x else 0)))"
proof -
  let ?cut = "tree_cut u (Suc level) w (nat (lastbn + 1))"
  have a: "fsbtodb (um_e2fs u) (uint w) = blk_addr u (unat w)" unfolding uint_nat by (rule fsbtodb_blk [OF assms(1)])
  have d: "distinct (tree_blocks u (Suc level) w)" using assms(3) by (simp add: tree_ok_def)
  have r: "unat w \<notin> ?cut" by (rule tree_cut_root [OF d])
  have all: "lastbn = - 1 \<Longrightarrow> insert (unat w) ?cut = set (tree_blocks u (Suc level) w)"
    using tree_cut_all [OF assms(2) d] by simp
  obtain error u' where s: "ext2_indirtrunc env level lbn (blk_addr u (unat w)) lastbn u =
       Ret (error, btodb (uint (e2fs_bsize (um_e2fs u))) * int (card ?cut), u')"
    "(\<forall>a. dev_werr (um_devvp u) a = 0) \<longrightarrow> error = 0" "keeps u u' (tree_inner u (Suc level) w)" "block_set u' = block_set u - ?cut"
    "0 \<le> lastbn \<longrightarrow> tree_ok u' (Suc level) w \<and> set (tree_blocks u' (Suc level) w) = set (tree_blocks u (Suc level) w) - ?cut \<and>
       (\<forall>x < nindir_of u ^ Suc level. tree_get u' (Suc level) w x = (if int x \<le> lastbn then tree_get u (Suc level) w x else 0))"
    using indirtrunc_spec [of level env, unfolded indir_spec_def, rule_format, OF assms, of lbn] by blast
  show ?thesis
    unfolding a by (intro exI [of _ error] exI [of _ u'] exI [of _ ?cut] conjI refl s impI all r)
qed

text \<open>The double indirect block of the file in the volume of theory \<open>Ext2_Tree\<close>, of which nothing stays.\<close>

theorem indirtrunc_frees_beyond_witness:
  "\<exists>u'. ext2_indirtrunc \<lparr>te_async = False, te_stale = True\<rparr> 1 (- 141) 16 (- 1) demo_tvol = Ret (0, 2, u') \<and> block_set u' = {1..16}"
proof -
  let ?env = "\<lparr>te_async = False, te_stale = True\<rparr>"
  have t: "tree_ok demo_tvol (Suc 1) 16" unfolding tree_ok_def One_nat_def demo_trees(2) demo_data by simp
  have a: "fsbtodb (um_e2fs demo_tvol) (uint (16 :: u32)) = 16" by (simp add: fsbtodb_def demo_tvol_simps)
  have b: "btodb (uint (e2fs_bsize (um_e2fs demo_tvol))) = 1" by (simp add: btodb_def demo_tvol_simps)
  have lt: "(- 1 :: int) < int (nindir_of demo_tvol ^ Suc 1)" by (simp add: demo_tvol_simps)
  obtain error u' freed where r: "ext2_indirtrunc ?env 1 (- 141) 16 (- 1) demo_tvol = Ret (error, 1 * int (card freed), u')"
    "(\<forall>a. dev_werr (um_devvp demo_tvol) a = 0) \<longrightarrow> error = 0" "block_set u' = block_set demo_tvol - freed"
    "insert (unat (16 :: u32)) freed = set (tree_blocks demo_tvol (Suc 1) 16)" "unat (16 :: u32) \<notin> freed"
    using indirtrunc_frees_beyond [OF demo_tvol_ok _ t _ lt, of ?env "- 141"] unfolding a b by (auto simp del: ext2_indirtrunc.simps)
  have f: "insert 16 freed = {16, 17, 18}" "16 \<notin> freed" using r(4,5) demo_trees(2) by simp_all
  have "freed = insert 16 freed - {16}" using f(2) by blast
  also have "\<dots> = {17, 18}" unfolding f(1) by auto
  finally have "freed = {17, 18}" .
  moreover have "{1..18} - {17, 18} = {1..16 :: nat}" by auto
  ultimately show ?thesis using r(1-3) by (simp add: demo_tvol_simps demo_tvol_set del: ext2_indirtrunc.simps)
qed

end
