(* ===== verification/Ext2_InodeCnv.thy ===== *)
theory Ext2_InodeCnv
  imports Ext2_Geom Ext2_Bytes
begin

text \<open>
  Inodes between disk and memory, from \<^verbatim>\<open>kext/ext2_inode_cnv.c\<close>: the layout of \<^verbatim>\<open>struct ext2fs_dinode\<close> in a
  block of the inode table, and the conversions \<^verbatim>\<open>ext2_ei2i\<close> and \<^verbatim>\<open>ext2_i2ei\<close>.
\<close>

section \<open>Features and flags\<close>

definition EXT2F_ROCOMPAT_LARGEFILE :: u32 where "EXT2F_ROCOMPAT_LARGEFILE = 0x0002"
definition EXT2F_ROCOMPAT_HUGE_FILE :: u32 where "EXT2F_ROCOMPAT_HUGE_FILE = 0x0008"
definition EXT2F_ROCOMPAT_EXTRA_ISIZE :: u32 where "EXT2F_ROCOMPAT_EXTRA_ISIZE = 0x0040"

definition EXT2_HAS_RO_COMPAT_FEATURE :: "m_ext2fs \<Rightarrow> u32 \<Rightarrow> bool" where
  "EXT2_HAS_RO_COMPAT_FEATURE fs m \<longleftrightarrow> e2fs_features_rocompat (e2fs fs) AND m \<noteq> 0"

definition EXT2_HAS_INCOMPAT_FEATURE :: "m_ext2fs \<Rightarrow> u32 \<Rightarrow> bool" where
  "EXT2_HAS_INCOMPAT_FEATURE fs m \<longleftrightarrow> e2fs_features_incompat (e2fs fs) AND m \<noteq> 0"

definition E2DI_HAS_XTIME :: "m_ext2fs \<Rightarrow> bool" where
  "E2DI_HAS_XTIME fs = EXT2_HAS_RO_COMPAT_FEATURE fs EXT2F_ROCOMPAT_EXTRA_ISIZE"

definition E2DI_HAS_HUGE_FILE :: "m_ext2fs \<Rightarrow> bool" where
  "E2DI_HAS_HUGE_FILE fs = EXT2_HAS_RO_COMPAT_FEATURE fs EXT2F_ROCOMPAT_HUGE_FILE"

definition EXT2_IMMUTABLE :: u32 where "EXT2_IMMUTABLE = 0x10"
definition EXT2_APPEND :: u32 where "EXT2_APPEND = 0x20"
definition EXT2_NODUMP :: u32 where "EXT2_NODUMP = 0x40"
definition EXT4_INDEX :: u32 where "EXT4_INDEX = 0x1000"
definition EXT4_HUGE_FILE :: u32 where "EXT4_HUGE_FILE = 0x40000"
definition EXT4_EXTENTS :: u32 where "EXT4_EXTENTS = 0x80000"

text \<open>The file flags of \<^verbatim>\<open>sys/stat.h\<close>.\<close>

definition UF_NODUMP :: u32 where "UF_NODUMP = 0x1"
definition SF_IMMUTABLE :: u32 where "SF_IMMUTABLE = 0x20000"
definition SF_APPEND :: u32 where "SF_APPEND = 0x40000"

definition S_ISREG :: "u16 \<Rightarrow> bool" where "S_ISREG m \<longleftrightarrow> m AND IFMT = IFREG"
definition S_ISDIR :: "u16 \<Rightarrow> bool" where "S_ISDIR m \<longleftrightarrow> m AND IFMT = IFDIR"

definition EXT3_NSEC_MASK :: u32 where "EXT3_NSEC_MASK = NOT 3"

definition XTIME_TO_NSEC :: "u32 \<Rightarrow> u32" where
  "XTIME_TO_NSEC x = drop_bit 2 (x AND EXT3_NSEC_MASK)"

definition NSEC_TO_XTIME :: "u32 \<Rightarrow> u32" where
  "NSEC_TO_XTIME t = push_bit 2 t AND EXT3_NSEC_MASK"

text \<open>A flag of one word carried into another.\<close>

definition flag_if :: "u32 \<Rightarrow> u32 \<Rightarrow> u32 \<Rightarrow> u32" where
  "flag_if w m r = (if w AND m \<noteq> 0 then r else 0)"

section \<open>The layout on disk\<close>

text \<open>
  The first 128 bytes are common to all inodes; the 28 bytes after them are touched only when the volume
  has the extra timestamps.
\<close>

definition dinode_base :: "ext2fs_dinode \<Rightarrow> u32 list" where
  "dinode_base d = [join16 (e2di_mode d) (e2di_uid d), e2di_size d, e2di_atime d, e2di_ctime d, e2di_mtime d, e2di_dtime d,
     join16 (e2di_gid d) (e2di_nlink d), e2di_nblock d, e2di_flags d, e2di_version d] @ e2di_blocks d @
     [e2di_gen d, e2di_facl d, e2di_size_high d, e2di_faddr d, join16 (e2di_nblock_high d) (e2di_facl_high d),
      join16 (e2di_uid_high d) (e2di_gid_high d), join16 (e2di_chksum_lo d) (e2di_lx_reserved d)]"

definition dinode_extra :: "ext2fs_dinode \<Rightarrow> u32 list" where
  "dinode_extra d = [join16 (e2di_extra_isize d) (e2di_chksum_hi d), e2di_ctime_extra d, e2di_mtime_extra d, e2di_atime_extra d,
     e2di_crtime d, e2di_crtime_extra d, e2di_version_hi d]"

definition dinode_of :: "u32 list \<Rightarrow> u32 list \<Rightarrow> ext2fs_dinode" where
  "dinode_of w x = \<lparr>
    e2di_mode = lo16 (w ! 0), e2di_uid = hi16 (w ! 0), e2di_size = w ! 1, e2di_atime = w ! 2, e2di_ctime = w ! 3,
    e2di_mtime = w ! 4, e2di_dtime = w ! 5, e2di_gid = lo16 (w ! 6), e2di_nlink = hi16 (w ! 6), e2di_nblock = w ! 7,
    e2di_flags = w ! 8, e2di_version = w ! 9, e2di_blocks = take 15 (drop 10 w), e2di_gen = w ! 25, e2di_facl = w ! 26,
    e2di_size_high = w ! 27, e2di_faddr = w ! 28, e2di_nblock_high = lo16 (w ! 29), e2di_facl_high = hi16 (w ! 29),
    e2di_uid_high = lo16 (w ! 30), e2di_gid_high = hi16 (w ! 30), e2di_chksum_lo = lo16 (w ! 31), e2di_lx_reserved = hi16 (w ! 31),
    e2di_extra_isize = lo16 (x ! 0), e2di_chksum_hi = hi16 (x ! 0), e2di_ctime_extra = x ! 1, e2di_mtime_extra = x ! 2,
    e2di_atime_extra = x ! 3, e2di_crtime = x ! 4, e2di_crtime_extra = x ! 5, e2di_version_hi = x ! 6\<rparr>"

definition get_dinode :: "bool \<Rightarrow> bytes \<Rightarrow> int \<Rightarrow> ext2fs_dinode outcome" where
  "get_dinode xtime bs i =
     bnd (slice bs i 128) (\<lambda>b.
     bnd (if xtime then bnd (slice bs (i + 128) 28) (\<lambda>x. Ret (words_of x)) else Ret (replicate 7 0)) (\<lambda>x.
     Ret (dinode_of (words_of b) x)))"

definition put_dinode :: "bool \<Rightarrow> bytes \<Rightarrow> int \<Rightarrow> ext2fs_dinode \<Rightarrow> bytes outcome" where
  "put_dinode xtime bs i d =
     bnd (blit bs i (bytes_of_words (dinode_base d))) (\<lambda>bs.
     if xtime then blit bs (i + 128) (bytes_of_words (dinode_extra d)) else Ret bs)"

section \<open>\<^verbatim>\<open>ext2_ei2i\<close> and \<^verbatim>\<open>ext2_i2ei\<close>\<close>

definition ext2_ei2i :: "m_ext2fs \<Rightarrow> ext2fs_dinode \<Rightarrow> inode \<Rightarrow> inode" where
  "ext2_ei2i fs ei ip =
     (let mode = (if e2di_nlink ei \<noteq> 0 then e2di_mode ei else 0);
          size = (ucast (e2di_size ei) :: u64) OR (if S_ISREG mode then push_bit 32 (ucast (e2di_size_high ei)) else 0);
          ip = ip\<lparr>i_nlink := e2di_nlink ei, i_mode := mode, i_size := size, i_atime := e2di_atime ei,
                  i_mtime := e2di_mtime ei, i_ctime := e2di_ctime ei\<rparr>;
          ip = (if E2DI_HAS_XTIME fs then
                  ip\<lparr>i_atimensec := XTIME_TO_NSEC (e2di_atime_extra ei), i_mtimensec := XTIME_TO_NSEC (e2di_mtime_extra ei),
                     i_ctimensec := XTIME_TO_NSEC (e2di_ctime_extra ei), i_birthtime := e2di_crtime ei,
                     i_birthnsec := XTIME_TO_NSEC (e2di_crtime_extra ei)\<rparr>
                else ip);
          fl = e2di_flags ei;
          blocks = (ucast (e2di_nblock ei) :: u64);
          blocks = (if E2DI_HAS_HUGE_FILE fs then
                      let b = blocks OR push_bit 32 (ucast (e2di_nblock_high ei))
                      in if fl AND EXT4_HUGE_FILE \<noteq> 0 then word_of_int (fsbtodb fs (uint b)) else b
                    else blocks)
      in ip\<lparr>i_flags := flag_if fl EXT2_APPEND SF_APPEND OR flag_if fl EXT2_IMMUTABLE SF_IMMUTABLE OR flag_if fl EXT2_NODUMP UF_NODUMP,
            i_flag := i_flag ip OR flag_if fl EXT4_INDEX IN_E4INDEX OR flag_if fl EXT4_EXTENTS IN_E4EXTENTS,
            i_blocks := blocks, i_gen := e2di_gen ei, i_uid := ucast (e2di_uid ei), i_gid := ucast (e2di_gid ei),
            i_db := take 12 (e2di_blocks ei), i_ib := take 3 (drop 12 (e2di_blocks ei))\<rparr>)"

definition ext2_i2ei :: "m_ext2fs \<Rightarrow> inode \<Rightarrow> ext2fs_dinode \<Rightarrow> ext2fs_dinode" where
  "ext2_i2ei fs ip ei =
     (let ei = ei\<lparr>e2di_mode := i_mode ip, e2di_nlink := i_nlink ip, e2di_dtime := (if i_nlink ip \<noteq> 0 then 0 else i_mtime ip),
                  e2di_size := ucast (i_size ip)\<rparr>;
          ei = (if S_ISREG (i_mode ip) then ei\<lparr>e2di_size_high := ucast (drop_bit 32 (i_size ip))\<rparr> else ei);
          ei = ei\<lparr>e2di_atime := i_atime ip, e2di_mtime := i_mtime ip, e2di_ctime := i_ctime ip\<rparr>;
          ei = (if E2DI_HAS_XTIME fs then
                  ei\<lparr>e2di_ctime_extra := NSEC_TO_XTIME (i_ctimensec ip), e2di_mtime_extra := NSEC_TO_XTIME (i_mtimensec ip),
                     e2di_atime_extra := NSEC_TO_XTIME (i_atimensec ip), e2di_crtime := i_birthtime ip,
                     e2di_crtime_extra := NSEC_TO_XTIME (i_birthnsec ip)\<rparr>
                else ei)
      in ei\<lparr>e2di_flags := flag_if (i_flags ip) SF_APPEND EXT2_APPEND OR flag_if (i_flags ip) SF_IMMUTABLE EXT2_IMMUTABLE OR
              flag_if (i_flags ip) UF_NODUMP EXT2_NODUMP OR flag_if (i_flag ip) IN_E4INDEX EXT4_INDEX OR
              flag_if (i_flag ip) IN_E4EXTENTS EXT4_EXTENTS,
            e2di_nblock := ucast (i_blocks ip), e2di_nblock_high := ucast (drop_bit 32 (i_blocks ip)), e2di_gen := i_gen ip,
            e2di_uid := ucast (i_uid ip), e2di_gid := ucast (i_gid ip), e2di_blocks := i_db ip @ i_ib ip\<rparr>)"


section \<open>The layout is a round trip\<close>

lemma length_dinode_words [simp]:
  "length (e2di_blocks d) = 15 \<Longrightarrow> length (dinode_base d) = 32" "length (dinode_extra d) = 7"
  by (simp_all add: dinode_base_def dinode_extra_def)

lemma get_dinode_blocks: "get_dinode x bs i = Ret ei \<Longrightarrow> length (e2di_blocks ei) = 15"
  by (auto simp: get_dinode_def slice_def dinode_of_def length_words_of simp del: bnd_Ret_iff slice_Ret elim!: bnd_RetE split: if_split_asm)

lemma dinode_of_base:
  assumes "length (e2di_blocks d) = 15"
  shows "dinode_of (dinode_base d) (dinode_extra d) = d"
proof -
  have b: "dinode_base d ! 0 = join16 (e2di_mode d) (e2di_uid d)" "dinode_base d ! 1 = e2di_size d" "dinode_base d ! 2 = e2di_atime d"
    "dinode_base d ! 3 = e2di_ctime d" "dinode_base d ! 4 = e2di_mtime d" "dinode_base d ! 5 = e2di_dtime d"
    "dinode_base d ! 6 = join16 (e2di_gid d) (e2di_nlink d)" "dinode_base d ! 7 = e2di_nblock d" "dinode_base d ! 8 = e2di_flags d"
    "dinode_base d ! 9 = e2di_version d"
    by (simp_all add: dinode_base_def)
  have t: "dinode_base d ! (25 + k) = [e2di_gen d, e2di_facl d, e2di_size_high d, e2di_faddr d, join16 (e2di_nblock_high d) (e2di_facl_high d),
      join16 (e2di_uid_high d) (e2di_gid_high d), join16 (e2di_chksum_lo d) (e2di_lx_reserved d)] ! k" for k
    using assms by (simp add: dinode_base_def nth_append)
  have m: "take 15 (drop 10 (dinode_base d)) = e2di_blocks d" using assms by (simp add: dinode_base_def)
  have x: "dinode_extra d ! 0 = join16 (e2di_extra_isize d) (e2di_chksum_hi d)" "dinode_extra d ! 1 = e2di_ctime_extra d"
    "dinode_extra d ! 2 = e2di_mtime_extra d" "dinode_extra d ! 3 = e2di_atime_extra d" "dinode_extra d ! 4 = e2di_crtime d"
    "dinode_extra d ! 5 = e2di_crtime_extra d" "dinode_extra d ! 6 = e2di_version_hi d"
    by (simp_all add: dinode_extra_def)
  show ?thesis unfolding dinode_of_def m b x using t [of 0] t [of 1] t [of 2] t [of 3] t [of 4] t [of 5] t [of 6]
    by simp
qed

text \<open>What is written into a slot of the inode table is what is read back from it, and a slot that does
  not overlap it is not changed.\<close>

theorem put_get_dinode:
  assumes "put_dinode xtime bs i d = Ret bs'" "length (e2di_blocks d) = 15" "xtime \<or> dinode_extra d = replicate 7 0"
  shows "get_dinode xtime bs' i = Ret d \<and> length bs' = length bs \<and>
     (\<forall>j. j + 156 \<le> i \<or> i + (if xtime then 156 else 128) \<le> j \<longrightarrow> get_dinode xtime bs' j = get_dinode xtime bs j)"
proof -
  let ?b = "bytes_of_words (dinode_base d)" and ?x = "bytes_of_words (dinode_extra d)"
  have lb: "length ?b = 128" "length ?x = 28" using assms(2) by simp_all
  obtain b1 where b1: "blit bs i ?b = Ret b1" "(if xtime then blit b1 (i + 128) ?x else Ret b1) = Ret bs'"
    using assms(1) unfolding put_dinode_def bnd_Ret_iff by blast
  have s1: "slice b1 i 128 = Ret ?b" using slice_blit_same [OF b1(1)] unfolding lb .
  show ?thesis
  proof (cases xtime)
    case True
    then have x: "blit b1 (i + 128) ?x = Ret bs'" using b1(2) by simp
    have "slice bs' i 128 = Ret ?b" using slice_blit_before [OF x, of i 128] s1 by simp
    moreover have "slice bs' (i + 128) 28 = Ret ?x" using slice_blit_same [OF x] unfolding lb .
    ultimately have "get_dinode xtime bs' i = Ret d"
      unfolding get_dinode_def using True dinode_of_base [OF assms(2)] by (simp del: slice_Ret bnd_Ret_iff)
    moreover have "slice bs' k n = slice bs k n" if "k + int n \<le> i \<or> i + 156 \<le> k" for k n
      using that slice_blit_before [OF x, of k n] slice_blit_before [OF b1(1), of k n]
        slice_blit_after [OF x, of k n] slice_blit_after [OF b1(1), of k n] lb by auto
    ultimately show ?thesis using blit_length [OF x] blit_length [OF b1(1)] True
      by (auto simp: get_dinode_def simp del: slice_Ret bnd_Ret_iff)
  next
    case False
    then have "b1 = bs'" using b1(2) by simp
    then have "get_dinode xtime bs' i = Ret d"
      unfolding get_dinode_def using False s1 dinode_of_base [OF assms(2)] assms(3) by (simp del: slice_Ret bnd_Ret_iff)
    moreover have "slice bs' k 128 = slice bs k 128" if "k + 156 \<le> i \<or> i + 128 \<le> k" for k
      using that slice_blit_before [OF b1(1), of k 128] slice_blit_after [OF b1(1), of k 128] lb \<open>b1 = bs'\<close> by auto
    ultimately show ?thesis using blit_length [OF b1(1)] \<open>b1 = bs'\<close> False
      by (auto simp: get_dinode_def simp del: slice_Ret bnd_Ret_iff)
  qed
qed

lemma get_dinode_extra: "get_dinode False bs i = Ret d \<Longrightarrow> dinode_extra d = replicate 7 0"
proof -
  assume "get_dinode False bs i = Ret d"
  then obtain w where "d = dinode_of w (replicate 7 0)" unfolding get_dinode_def bnd_Ret_iff by auto
  moreover have "join16 (lo16 0) (hi16 0) = 0" by code_simp
  ultimately show ?thesis by (simp add: dinode_extra_def dinode_of_def numeral_eq_Suc)
qed

section \<open>The conversions are a round trip\<close>

lemma bit_nsec_mask: "bit EXT3_NSEC_MASK n \<longleftrightarrow> 2 \<le> n \<and> n < 32"
proof -
  have "EXT3_NSEC_MASK = NOT (mask 2)" by (simp add: EXT3_NSEC_MASK_def mask_eq_exp_minus_1)
  then show ?thesis unfolding \<open>EXT3_NSEC_MASK = _\<close> by (auto simp: bit_not_iff bit_mask_iff)
qed

lemma nsec_roundtrip:
  assumes "drop_bit 30 t = 0" shows "XTIME_TO_NSEC (NSEC_TO_XTIME t) = t"
proof (rule bit_word_eqI)
  fix n assume "n < LENGTH(32)"
  moreover have "\<not> bit t n" if "30 \<le> n" using drop_bit_0_bit [OF assms that] .
  ultimately show "bit (XTIME_TO_NSEC (NSEC_TO_XTIME t)) n = bit t n"
    by (cases "30 \<le> n") (auto simp: XTIME_TO_NSEC_def NSEC_TO_XTIME_def bit_drop_bit_eq bit_and_iff bit_push_bit_iff bit_nsec_mask)
qed

lemma xtime_roundtrip: "NSEC_TO_XTIME (XTIME_TO_NSEC x) = x AND EXT3_NSEC_MASK"
proof (rule bit_word_eqI)
  fix n assume n: "n < LENGTH(32)"
  show "bit (NSEC_TO_XTIME (XTIME_TO_NSEC x)) n = bit (x AND EXT3_NSEC_MASK) n"
  proof (cases "2 \<le> n")
    case True
    then obtain m where "n = 2 + m" using le_Suc_ex by blast
    with n show ?thesis
      by (auto simp: XTIME_TO_NSEC_def NSEC_TO_XTIME_def bit_drop_bit_eq bit_and_iff bit_push_bit_iff bit_nsec_mask)
  qed (simp add: NSEC_TO_XTIME_def bit_and_iff bit_nsec_mask)
qed

lemma join32:
  fixes w :: u64
  shows "(ucast (ucast w :: u32) :: u64) OR push_bit 32 (ucast (ucast (drop_bit 32 w) :: u32)) = w"
    and "drop_bit 32 w = 0 \<Longrightarrow> (ucast (ucast w :: u32) :: u64) = w"
    and "drop_bit 48 w = 0 \<Longrightarrow> (ucast (ucast w :: u32) :: u64) OR push_bit 32 (ucast (ucast (drop_bit 32 w) :: u16)) = w"
proof -
  note b = bit_ucast_wide bit_or_iff bit_push_bit_iff bit_drop_bit_eq
  show "(ucast (ucast w :: u32) :: u64) OR push_bit 32 (ucast (ucast (drop_bit 32 w) :: u32)) = w"
    by (rule bit_word_eqI) (auto simp: b)
  show "(ucast (ucast w :: u32) :: u64) = w" if "drop_bit 32 w = 0"
    by (rule bit_word_eqI) (auto simp: b dest: drop_bit_0_lt [OF that])
  show "(ucast (ucast w :: u32) :: u64) OR push_bit 32 (ucast (ucast (drop_bit 32 w) :: u16)) = w" if "drop_bit 48 w = 0"
    by (rule bit_word_eqI) (auto simp: b dest: drop_bit_0_lt [OF that])
qed

text \<open>
  The inodes a volume can hold: a link count, or no mode; sizes past 32 bits for regular files only; owner
  and group of 16 bits; no file flag but the three that have a counterpart; nanoseconds of 30 bits when
  they are stored; and a block count of 32 bits, or 48 with the huge-file feature.
\<close>

definition storable :: "m_ext2fs \<Rightarrow> inode \<Rightarrow> bool" where
  "storable fs ip \<longleftrightarrow> (i_nlink ip = 0 \<longrightarrow> i_mode ip = 0) \<and> (\<not> S_ISREG (i_mode ip) \<longrightarrow> drop_bit 32 (i_size ip) = 0) \<and>
     drop_bit 16 (i_uid ip) = 0 \<and> drop_bit 16 (i_gid ip) = 0 \<and>
     i_flags ip AND NOT (SF_APPEND OR SF_IMMUTABLE OR UF_NODUMP) = 0 \<and>
     (E2DI_HAS_XTIME fs \<longrightarrow> (\<forall>t \<in> {i_atimensec ip, i_mtimensec ip, i_ctimensec ip, i_birthnsec ip}. drop_bit 30 t = 0)) \<and>
     drop_bit (if E2DI_HAS_HUGE_FILE fs then 48 else 32) (i_blocks ip) = 0 \<and>
     length (i_db ip) = 12 \<and> length (i_ib ip) = 3"

lemma flag_bits:
  "SF_APPEND = 2 ^ 18" "SF_IMMUTABLE = 2 ^ 17" "UF_NODUMP = 2 ^ 0" "EXT2_APPEND = 2 ^ 5" "EXT2_IMMUTABLE = 2 ^ 4" "EXT2_NODUMP = 2 ^ 6"
  "EXT4_INDEX = 2 ^ 12" "EXT4_EXTENTS = 2 ^ 19" "EXT4_HUGE_FILE = 2 ^ 18" "IN_E4INDEX = 2 ^ 16" "IN_E4EXTENTS = 2 ^ 17"
  by (simp_all add: SF_APPEND_def SF_IMMUTABLE_def UF_NODUMP_def EXT2_APPEND_def EXT2_IMMUTABLE_def EXT2_NODUMP_def
      EXT4_INDEX_def EXT4_EXTENTS_def EXT4_HUGE_FILE_def IN_E4INDEX_def IN_E4EXTENTS_def)

lemma and_exp_32: "(w AND 2 ^ k = 0) = (\<not> bit w k)" for w :: u32
  using bit_iff_and_push_bit_not_eq_0 [of w k] by simp

lemma bit_flag_if: "j < 32 \<Longrightarrow> bit (flag_if w (2 ^ k) (2 ^ j)) n \<longleftrightarrow> bit w k \<and> n = j"
  by (auto simp: flag_if_def and_exp_32 bit_exp_iff)

lemma flags_back:
  assumes "fl AND NOT (SF_APPEND OR SF_IMMUTABLE OR UF_NODUMP) = 0"
    and w: "w = flag_if fl SF_APPEND EXT2_APPEND OR flag_if fl SF_IMMUTABLE EXT2_IMMUTABLE OR
              flag_if fl UF_NODUMP EXT2_NODUMP OR flag_if g IN_E4INDEX EXT4_INDEX OR flag_if g IN_E4EXTENTS EXT4_EXTENTS"
  shows "flag_if w EXT2_APPEND SF_APPEND OR flag_if w EXT2_IMMUTABLE SF_IMMUTABLE OR flag_if w EXT2_NODUMP UF_NODUMP = fl"
    and "flag_if w EXT4_INDEX IN_E4INDEX OR flag_if w EXT4_EXTENTS IN_E4EXTENTS = g AND (IN_E4INDEX OR IN_E4EXTENTS)"
    and "w AND EXT4_HUGE_FILE = 0"
proof -
  have b: "bit w n \<longleftrightarrow> bit fl 18 \<and> n = 5 \<or> bit fl 17 \<and> n = 4 \<or> bit fl 0 \<and> n = 6 \<or> bit g 16 \<and> n = 12 \<or> bit g 17 \<and> n = 19" for n
    unfolding w flag_bits bit_or_iff by (simp only: bit_flag_if)
  show "w AND EXT4_HUGE_FILE = 0" unfolding flag_bits and_exp_32 b by simp
  have B: "bit (flag_if w EXT4_INDEX IN_E4INDEX) n \<longleftrightarrow> bit g 16 \<and> n = 16" "bit (flag_if w EXT4_EXTENTS IN_E4EXTENTS) n \<longleftrightarrow> bit g 17 \<and> n = 17"
    "bit (flag_if w EXT2_APPEND SF_APPEND) n \<longleftrightarrow> bit fl 18 \<and> n = 18" "bit (flag_if w EXT2_IMMUTABLE SF_IMMUTABLE) n \<longleftrightarrow> bit fl 17 \<and> n = 17"
    "bit (flag_if w EXT2_NODUMP UF_NODUMP) n \<longleftrightarrow> bit fl 0 \<and> n = 0" for n
    unfolding flag_bits by (subst bit_flag_if; simp add: b)+
  have G: "bit (IN_E4INDEX OR IN_E4EXTENTS) n \<longleftrightarrow> n = 16 \<or> n = 17" for n
    unfolding flag_bits bit_or_iff bit_exp_iff by auto
  show "flag_if w EXT4_INDEX IN_E4INDEX OR flag_if w EXT4_EXTENTS IN_E4EXTENTS = g AND (IN_E4INDEX OR IN_E4EXTENTS)"
    by (rule bit_word_eqI) (auto simp: bit_or_iff [of "flag_if w EXT4_INDEX IN_E4INDEX"] bit_and_iff B G)
  show "flag_if w EXT2_APPEND SF_APPEND OR flag_if w EXT2_IMMUTABLE SF_IMMUTABLE OR flag_if w EXT2_NODUMP UF_NODUMP = fl"
  proof (rule bit_word_eqI)
    fix n assume n: "n < LENGTH(32)"
    have "\<not> bit (fl AND NOT (SF_APPEND OR SF_IMMUTABLE OR UF_NODUMP)) n" using assms(1) by simp
    then have "bit fl n \<Longrightarrow> n = 18 \<or> n = 17 \<or> n = 0"
      using n unfolding flag_bits bit_and_iff bit_not_iff bit_or_iff bit_exp_iff by auto
    then show "bit (flag_if w EXT2_APPEND SF_APPEND OR flag_if w EXT2_IMMUTABLE SF_IMMUTABLE OR flag_if w EXT2_NODUMP UF_NODUMP) n = bit fl n"
      by (auto simp: bit_or_iff B)
  qed
qed

lemma ids_back: "drop_bit 16 w = 0 \<Longrightarrow> ucast (ucast w :: u16) = w" for w :: u32
  by (rule bit_word_eqI) (auto simp: bit_ucast_wide dest: drop_bit_0_lt)

text \<open>The fields that the slot of \<open>ip\<close> gives to an in-core inode \<open>jp\<close>; the times below a second and the birth time come from a slot with room for them.\<close>

definition from_disk :: "m_ext2fs \<Rightarrow> inode \<Rightarrow> inode \<Rightarrow> inode" where
  "from_disk fs ip jp =
    (if E2DI_HAS_XTIME fs then
      jp\<lparr>i_nlink := i_nlink ip, i_mode := i_mode ip, i_size := i_size ip, i_atime := i_atime ip, i_mtime := i_mtime ip,
        i_ctime := i_ctime ip, i_atimensec := i_atimensec ip, i_mtimensec := i_mtimensec ip, i_ctimensec := i_ctimensec ip,
        i_birthtime := i_birthtime ip, i_birthnsec := i_birthnsec ip, i_flags := i_flags ip, i_flag := i_flag jp OR (i_flag ip AND (IN_E4INDEX OR IN_E4EXTENTS)),
        i_blocks := i_blocks ip, i_gen := i_gen ip, i_uid := i_uid ip, i_gid := i_gid ip, i_db := i_db ip, i_ib := i_ib ip\<rparr>
    else
      jp\<lparr>i_nlink := i_nlink ip, i_mode := i_mode ip, i_size := i_size ip, i_atime := i_atime ip, i_mtime := i_mtime ip,
        i_ctime := i_ctime ip, i_flags := i_flags ip, i_flag := i_flag jp OR (i_flag ip AND (IN_E4INDEX OR IN_E4EXTENTS)),
        i_blocks := i_blocks ip, i_gen := i_gen ip, i_uid := i_uid ip, i_gid := i_gid ip, i_db := i_db ip, i_ib := i_ib ip\<rparr>)"

lemma ei2i_i2ei:
  assumes "storable fs ip"
  shows "ext2_ei2i fs (ext2_i2ei fs ip ei) jp = from_disk fs ip jp"
proof -
  let ?w = "flag_if (i_flags ip) SF_APPEND EXT2_APPEND OR flag_if (i_flags ip) SF_IMMUTABLE EXT2_IMMUTABLE OR
    flag_if (i_flags ip) UF_NODUMP EXT2_NODUMP OR flag_if (i_flag ip) IN_E4INDEX EXT4_INDEX OR flag_if (i_flag ip) IN_E4EXTENTS EXT4_EXTENTS"
  have s: "i_nlink ip = 0 \<longrightarrow> i_mode ip = 0" "\<not> S_ISREG (i_mode ip) \<longrightarrow> drop_bit 32 (i_size ip) = 0"
    "ucast (ucast (i_uid ip) :: u16) = i_uid ip" "ucast (ucast (i_gid ip) :: u16) = i_gid ip"
    "i_flags ip AND NOT (SF_APPEND OR SF_IMMUTABLE OR UF_NODUMP) = 0"
    "drop_bit (if E2DI_HAS_HUGE_FILE fs then 48 else 32) (i_blocks ip) = 0" "length (i_db ip) = 12" "length (i_ib ip) = 3"
    using assms by (auto simp: storable_def ids_back)
  have n: "E2DI_HAS_XTIME fs \<Longrightarrow> XTIME_TO_NSEC (NSEC_TO_XTIME t) = t" if "t \<in> {i_atimensec ip, i_mtimensec ip, i_ctimensec ip, i_birthnsec ip}" for t
    using assms that nsec_roundtrip [of t] by (auto simp: storable_def)
  note f = flags_back [OF s(5) refl, of "i_flag ip"]
  define d where "d = ext2_i2ei fs ip ei"
  have d: "e2di_nlink d = i_nlink ip" "e2di_mode d = i_mode ip" "e2di_size d = ucast (i_size ip)" "e2di_flags d = ?w"
    "S_ISREG (i_mode ip) \<Longrightarrow> e2di_size_high d = ucast (drop_bit 32 (i_size ip))"
    "e2di_atime d = i_atime ip" "e2di_mtime d = i_mtime ip" "e2di_ctime d = i_ctime ip" "e2di_gen d = i_gen ip"
    "e2di_nblock d = ucast (i_blocks ip)" "e2di_nblock_high d = ucast (drop_bit 32 (i_blocks ip))"
    "e2di_uid d = ucast (i_uid ip)" "e2di_gid d = ucast (i_gid ip)" "e2di_blocks d = i_db ip @ i_ib ip"
    by (simp_all add: d_def ext2_i2ei_def Let_def)
  have x: "E2DI_HAS_XTIME fs \<Longrightarrow> XTIME_TO_NSEC (e2di_atime_extra d) = i_atimensec ip \<and> XTIME_TO_NSEC (e2di_mtime_extra d) = i_mtimensec ip \<and>
      XTIME_TO_NSEC (e2di_ctime_extra d) = i_ctimensec ip \<and> e2di_crtime d = i_birthtime ip \<and> XTIME_TO_NSEC (e2di_crtime_extra d) = i_birthnsec ip"
    using n by (simp add: d_def ext2_i2ei_def Let_def)
  have m: "(if i_nlink ip \<noteq> 0 then i_mode ip else 0) = i_mode ip" using s(1) by simp
  have z: "(ucast (ucast (i_size ip) :: u32) :: u64) OR (if S_ISREG (i_mode ip) then push_bit 32 (ucast (e2di_size_high d)) else 0) = i_size ip"
    using join32 [of "i_size ip"] s(2) d(5) by simp
  have b: "(if E2DI_HAS_HUGE_FILE fs then (ucast (ucast (i_blocks ip) :: u32) :: u64) OR push_bit 32 (ucast (ucast (drop_bit 32 (i_blocks ip)) :: u16))
      else ucast (ucast (i_blocks ip) :: u32)) = i_blocks ip"
    using join32 [of "i_blocks ip"] s(6) by (cases "E2DI_HAS_HUGE_FILE fs") simp_all
  have "ext2_ei2i fs d jp =
    (if E2DI_HAS_XTIME fs then
      jp\<lparr>i_nlink := i_nlink ip, i_mode := i_mode ip, i_size := i_size ip, i_atime := i_atime ip, i_mtime := i_mtime ip,
        i_ctime := i_ctime ip, i_atimensec := i_atimensec ip, i_mtimensec := i_mtimensec ip, i_ctimensec := i_ctimensec ip,
        i_birthtime := i_birthtime ip, i_birthnsec := i_birthnsec ip, i_flags := i_flags ip, i_flag := i_flag jp OR (i_flag ip AND (IN_E4INDEX OR IN_E4EXTENTS)),
        i_blocks := i_blocks ip, i_gen := i_gen ip, i_uid := i_uid ip, i_gid := i_gid ip, i_db := i_db ip, i_ib := i_ib ip\<rparr>
    else
      jp\<lparr>i_nlink := i_nlink ip, i_mode := i_mode ip, i_size := i_size ip, i_atime := i_atime ip, i_mtime := i_mtime ip,
        i_ctime := i_ctime ip, i_flags := i_flags ip, i_flag := i_flag jp OR (i_flag ip AND (IN_E4INDEX OR IN_E4EXTENTS)),
        i_blocks := i_blocks ip, i_gen := i_gen ip, i_uid := i_uid ip, i_gid := i_gid ip, i_db := i_db ip, i_ib := i_ib ip\<rparr>)"
    unfolding ext2_ei2i_def Let_def d m z f(3) using f(1,2) x b s(3,4,7,8)
    by (cases "E2DI_HAS_HUGE_FILE fs") simp_all
  then show ?thesis by (simp only: d_def from_disk_def)
qed


lemma halves:
  fixes a h :: u32 and k :: u16
  shows "(ucast ((ucast a :: u64) OR push_bit 32 (ucast h)) :: u32) = a" "(ucast (drop_bit 32 ((ucast a :: u64) OR push_bit 32 (ucast h))) :: u32) = h"
    "(ucast ((ucast a :: u64) OR push_bit 32 (ucast k)) :: u32) = a" "(ucast (drop_bit 32 ((ucast a :: u64) OR push_bit 32 (ucast k))) :: u16) = k"
    "(ucast (drop_bit 32 (push_bit 32 (ucast h :: u64))) :: u32) = h" "(ucast (drop_bit 32 (push_bit 32 (ucast k :: u64))) :: u16) = k"
    "(ucast (ucast a :: u64) :: u32) = a" "drop_bit 32 (ucast a :: u64) = 0"
  by (rule bit_word_eqI; auto simp: bit_ucast_wide bit_or_iff bit_push_bit_iff bit_drop_bit_eq dest: bit_imp_le_length)+

definition KEPT_FLAGS :: u32 where
  "KEPT_FLAGS = EXT2_APPEND OR EXT2_IMMUTABLE OR EXT2_NODUMP OR EXT4_INDEX OR EXT4_EXTENTS"

lemma flags_kept:
  assumes "\<not> bit g 16" "\<not> bit g 17"
    and v: "v = flag_if fl EXT2_APPEND SF_APPEND OR flag_if fl EXT2_IMMUTABLE SF_IMMUTABLE OR flag_if fl EXT2_NODUMP UF_NODUMP"
    and h: "h = g OR flag_if fl EXT4_INDEX IN_E4INDEX OR flag_if fl EXT4_EXTENTS IN_E4EXTENTS"
  shows "flag_if v SF_APPEND EXT2_APPEND OR flag_if v SF_IMMUTABLE EXT2_IMMUTABLE OR flag_if v UF_NODUMP EXT2_NODUMP OR
    flag_if h IN_E4INDEX EXT4_INDEX OR flag_if h IN_E4EXTENTS EXT4_EXTENTS = fl AND KEPT_FLAGS"
proof -
  have b: "bit v n \<longleftrightarrow> bit fl 5 \<and> n = 18 \<or> bit fl 4 \<and> n = 17 \<or> bit fl 6 \<and> n = 0"
    "bit h n \<longleftrightarrow> bit g n \<or> bit fl 12 \<and> n = 16 \<or> bit fl 19 \<and> n = 17" for n
    unfolding v h flag_bits bit_or_iff by (simp_all only: bit_flag_if)
  have B: "bit (flag_if v SF_APPEND EXT2_APPEND) n \<longleftrightarrow> bit fl 5 \<and> n = 5" "bit (flag_if v SF_IMMUTABLE EXT2_IMMUTABLE) n \<longleftrightarrow> bit fl 4 \<and> n = 4"
    "bit (flag_if v UF_NODUMP EXT2_NODUMP) n \<longleftrightarrow> bit fl 6 \<and> n = 6"
    "bit (flag_if h IN_E4INDEX EXT4_INDEX) n \<longleftrightarrow> bit fl 12 \<and> n = 12" "bit (flag_if h IN_E4EXTENTS EXT4_EXTENTS) n \<longleftrightarrow> bit fl 19 \<and> n = 19" for n
    unfolding flag_bits using assms(1,2) by (subst bit_flag_if; simp add: b)+
  have K: "bit KEPT_FLAGS n \<longleftrightarrow> n = 5 \<or> n = 4 \<or> n = 6 \<or> n = 12 \<or> n = 19" for n
    unfolding KEPT_FLAGS_def flag_bits bit_or_iff bit_exp_iff by auto
  show ?thesis by (rule bit_word_eqI) (auto simp: bit_or_iff bit_and_iff B K)
qed


text \<open>The high halves of owner and group are not read: an inode of user 65536 is in memory an inode of
  user 0.\<close>

theorem ei2i_ignores_high_ids:
  "ext2_ei2i fs (ei\<lparr>e2di_uid_high := a, e2di_gid_high := b\<rparr>) ip = ext2_ei2i fs ei ip"
  unfolding ext2_ei2i_def Let_def by simp

section \<open>Witnesses\<close>

definition demo_dinode :: ext2fs_dinode where
  "demo_dinode = zero_dinode\<lparr>e2di_mode := 0x81A4, e2di_nlink := 1, e2di_size := 5, e2di_uid := 501, e2di_flags := 0x30,
     e2di_blocks := replicate 15 7, e2di_uid_high := 1\<rparr>"

theorem put_get_dinode_witness:
  "\<exists>bs'. put_dinode False (replicate 256 0) 128 demo_dinode = Ret bs' \<and> get_dinode False bs' 128 = Ret demo_dinode"
proof -
  have e: "length (e2di_blocks demo_dinode) = 15" "dinode_extra demo_dinode = replicate 7 0" by code_simp+
  obtain bs' where "put_dinode False (replicate 256 0) 128 demo_dinode = Ret bs'"
    using e(1) by (simp add: put_dinode_def)
  then show ?thesis using put_get_dinode [of False "replicate 256 0" 128 demo_dinode bs'] e by blast
qed

definition demo_stored :: inode where
  "demo_stored = zero_inode\<lparr>i_mode := 0x81A4, i_nlink := 1, i_size := 5000000000, i_uid := 501, i_flags := SF_APPEND, i_flag := IN_E4EXTENTS OR IN_CHANGE,
     i_gen := 9, i_db := replicate 12 7, i_ib := replicate 3 0\<rparr>"



end
