(* ===== verification/Ext2_Ialloc.thy ===== *)
theory Ext2_Ialloc
  imports Ext2_Blocks
begin

text \<open>
  The inode allocator of \<^verbatim>\<open>kext/ext2_alloc.c\<close>: \<^verbatim>\<open>ext2_nodealloccg\<close>, \<^verbatim>\<open>ext2_vfree\<close>, \<^verbatim>\<open>ext2_dirpref\<close> and
  the part of \<^verbatim>\<open>ext2_valloc\<close> that chooses and takes an inode number.
\<close>

section \<open>\<^verbatim>\<open>ext2_nodealloccg\<close>\<close>

definition is_dir :: "int \<Rightarrow> bool" where
  "is_dir mode \<longleftrightarrow> (word_of_int mode :: u32) AND ucast IFMT = ucast IFDIR"

text \<open>The search of the inode bitmap, \<^verbatim>\<open>ipref\<close> already decremented.\<close>

definition nodealloc_search :: "u32 \<Rightarrow> bytes \<Rightarrow> int \<Rightarrow> int outcome" where
  "nodealloc_search ipg ibp ipref =
     (let scan = (\<lambda>ipref.
        let start = s32 (ipref sdiv NBBY); len = s32 ((uint ipg - ipref + 7) sdiv 8)
        in bnd (memcchr ibp start 0xff (size_t_of len)) (\<lambda>loc.
        case loc of Some l \<Rightarrow> clear_bit_at ibp l
        | None \<Rightarrow>
            bnd (memcchr ibp 0 0xff (size_t_of (start + 1))) (\<lambda>loc.
            case loc of Some l \<Rightarrow> clear_bit_at ibp l
            | None \<Rightarrow> Fault (Panic ''ext2fs_nodealloccg: map corrupted''))))
      in if ipref \<noteq> 0 then
           if ipg = 0 then Fault DivZero
           else (let ipref = ipref smod uint ipg
                 in bnd (isclr ibp ipref) (\<lambda>c. if c then Ret ipref else scan ipref))
         else scan ipref)"

text \<open>The counters of a group whose inode has been taken (\<open>d = -1\<close>) or returned (\<open>d = 1\<close>).\<close>

definition count_inode :: "m_ext2fs \<Rightarrow> int \<Rightarrow> int \<Rightarrow> int \<Rightarrow> m_ext2fs outcome" where
  "count_inode fs cg mode d =
     bnd (EXT2_GD fs cg) (\<lambda>g.
     bnd (put_GD fs cg (g\<lparr>ext2bgd_nifree := ext2bgd_nifree g + word_of_int d,
            ext2bgd_ndirs := (if is_dir mode then ext2bgd_ndirs g - word_of_int d else ext2bgd_ndirs g)\<rparr>)) (\<lambda>fs.
     Ret (fs\<lparr>e2fs := (e2fs fs)\<lparr>e2fs_ficount := e2fs_ficount (e2fs fs) + word_of_int d\<rparr>, e2fs_fmod := 1,
             e2fs_total_dir := (if is_dir mode then e2fs_total_dir fs - word_of_int d else e2fs_total_dir fs)\<rparr>)))"

definition ext2_nodealloccg :: "int \<Rightarrow> int \<Rightarrow> int \<Rightarrow> ext2mount \<Rightarrow> (int \<times> ext2mount) outcome" where
  "ext2_nodealloccg cg ipref mode ump =
     (let ipref = ipref - 1; ipref = (if ipref = - 1 then 0 else ipref); fs = um_e2fs ump in
      bnd (EXT2_GD fs cg) (\<lambda>g.
      if ext2bgd_nifree g = 0 then Ret (0, ump)
      else
        bnd (EXT2_UNLOCK ump) (\<lambda>ump.
        let a = fsbtodb fs (uint (ext2bgd_i_bitmap g)) in
        case buf_meta_bread (um_devvp ump) a of
          Inl error \<Rightarrow> bnd (EXT2_LOCK ump) (\<lambda>ump. Ret (0, ump))
        | Inr ibp \<Rightarrow>
            bnd (EXT2_GD (um_e2fs ump) cg) (\<lambda>g.
            if ext2bgd_nifree g = 0 then bnd (EXT2_LOCK ump) (\<lambda>ump. Ret (0, ump))
            else
              bnd (nodealloc_search (e2fs_ipg (e2fs fs)) ibp ipref) (\<lambda>ipref.
              bnd (setbit ibp ipref) (\<lambda>ibp.
              bnd (EXT2_LOCK ump) (\<lambda>ump.
              bnd (count_inode (um_e2fs ump) cg mode (- 1)) (\<lambda>fs.
              bnd (EXT2_UNLOCK (ump\<lparr>um_e2fs := fs\<rparr>)) (\<lambda>ump.
              Ret (uint (word_of_int cg * e2fs_ipg (e2fs fs)) + ipref + 1,
                   ump\<lparr>um_devvp := buf_bdwrite (um_devvp ump) a ibp\<rparr>)))))))))) "

section \<open>\<^verbatim>\<open>ext2_vfree\<close>\<close>

definition ext2_vfree :: "u32 \<Rightarrow> int \<Rightarrow> ext2mount \<Rightarrow> (errno \<times> ext2mount) outcome" where
  "ext2_vfree ino mode ump =
     (let fs = um_e2fs ump in
      if ino > m_e2fs_ipg fs * e2fs_gcount fs then Fault (Panic ''ext2_vfree: range'')
      else
        bnd (ino_to_cg fs ino) (\<lambda>c. let cg = s32 c in
        bnd (EXT2_GD fs cg) (\<lambda>g.
        let a = fsbtodb fs (uint (ext2bgd_i_bitmap g)) in
        case buf_meta_bread (um_devvp ump) a of
          Inl error \<Rightarrow> Ret (0, ump)
        | Inr ibp \<Rightarrow>
            if e2fs_ipg (e2fs fs) = 0 then Fault DivZero
            else
              let ino = uint ((ino - 1) mod e2fs_ipg (e2fs fs)) in
              bnd (isclr ibp ino) (\<lambda>c.
              if c \<and> e2fs_ronly fs = 0 then Fault (Panic ''ext2_vfree: freeing free inode'')
              else
                bnd (clrbit ibp ino) (\<lambda>ibp.
                bnd (EXT2_LOCK ump) (\<lambda>ump.
                bnd (count_inode (um_e2fs ump) cg mode 1) (\<lambda>fs.
                bnd (EXT2_UNLOCK (ump\<lparr>um_e2fs := fs\<rparr>)) (\<lambda>ump.
                Ret (0, ump\<lparr>um_devvp := buf_bdwrite (um_devvp ump) a ibp\<rparr>)))))))))"

section \<open>\<^verbatim>\<open>ext2_dirpref\<close>\<close>

text \<open>The first group from \<open>cg\<close> on, below \<open>e\<close>, that passes the test.\<close>

function first_cg :: "(int \<Rightarrow> bool outcome) \<Rightarrow> int \<Rightarrow> int \<Rightarrow> int option outcome" where
  "first_cg p cg e =
     (if cg < e then bnd (p cg) (\<lambda>ok. if ok then Ret (Some cg) else first_cg p (cg + 1) e) else Ret None)"
  by pat_completeness auto
termination
  by (relation "measure (\<lambda>(p, cg, e). nat (e - cg))") auto

text \<open>The root's loop: the group with the fewest directories among those that pass.\<close>

function fewest_dirs :: "m_ext2fs \<Rightarrow> u32 \<Rightarrow> u32 \<Rightarrow> int \<Rightarrow> int \<Rightarrow> int \<Rightarrow> u32 \<Rightarrow> (int \<times> u32) outcome" where
  "fewest_dirs fs avgifree avgbfree cg e mincg minndir =
     (if cg < e then
        bnd (EXT2_GD fs cg) (\<lambda>g.
        if ucast (ext2bgd_ndirs g) < minndir \<and> ucast (ext2bgd_nifree g) \<ge> avgifree \<and> ucast (ext2bgd_nbfree g) \<ge> avgbfree
        then fewest_dirs fs avgifree avgbfree (cg + 1) e cg (ucast (ext2bgd_ndirs g))
        else fewest_dirs fs avgifree avgbfree (cg + 1) e mincg minndir)
      else Ret (mincg, minndir))"
  by pat_completeness auto
termination
  by (relation "measure (\<lambda>(fs, ai, ab, cg, e, mc, mn). nat (e - cg))") auto

declare first_cg.simps [simp del] fewest_dirs.simps [simp del]

definition AFPDIR :: u32 where "AFPDIR = 64"
definition AVGDIRSIZE :: u32 where "AVGDIRSIZE = 1048576"

text \<open>The limits for a directory below the first level: \<open>maxndir\<close>, \<open>minifree\<close>, \<open>minbfree\<close>, \<open>maxcontigdirs\<close>.\<close>

definition dirpref_limits :: "m_ext2fs \<Rightarrow> u32 \<Rightarrow> u32 \<Rightarrow> u32 \<Rightarrow> u32 \<times> u32 \<times> u32 \<times> u32" where
  "dirpref_limits fs avgifree avgbfree avgndir =
     (let maxndir = min (avgndir + m_e2fs_ipg fs div 16) (m_e2fs_ipg fs);
          minifree = avgifree - avgifree div 4; minifree = (if minifree < 1 then 1 else minifree);
          minbfree = avgbfree - avgbfree div 4; minbfree = (if minbfree < 1 then 1 else minbfree);
          cgsize = e2fs_fsize fs * m_e2fs_fpg fs;
          curdirsize = (if avgndir \<noteq> 0 then (cgsize - avgbfree * e2fs_bsize fs) div avgndir else 0);
          dirsize = (if AVGDIRSIZE < curdirsize then curdirsize else AVGDIRSIZE);
          maxcontigdirs = min ((avgbfree * e2fs_bsize fs) div dirsize) 255;
          maxcontigdirs = min maxcontigdirs (m_e2fs_ipg fs div AFPDIR);
          maxcontigdirs = (if maxcontigdirs = 0 then 1 else maxcontigdirs)
      in (maxndir, minifree, minbfree, maxcontigdirs))"

text \<open>The tests of the two pairs of loops.\<close>

definition dirpref_fits :: "m_ext2fs \<Rightarrow> u32 \<times> u32 \<times> u32 \<times> u32 \<Rightarrow> int \<Rightarrow> bool outcome" where
  "dirpref_fits fs lims cg =
     (case lims of (maxndir, minifree, minbfree, maxcontigdirs) \<Rightarrow>
        bnd (EXT2_GD fs cg) (\<lambda>g.
        if ucast (ext2bgd_ndirs g) < maxndir \<and> ucast (ext2bgd_nifree g) \<ge> minifree \<and> ucast (ext2bgd_nbfree g) \<ge> minbfree
        then bnd (rd (e2fs_contigdirs fs) cg) (\<lambda>c. Ret (ucast c < maxcontigdirs))
        else Ret False))"

definition dirpref_backstop :: "m_ext2fs \<Rightarrow> u32 \<Rightarrow> int \<Rightarrow> bool outcome" where
  "dirpref_backstop fs avgifree cg = bnd (EXT2_GD fs cg) (\<lambda>g. Ret (ucast (ext2bgd_nifree g) \<ge> avgifree))"

text \<open>\<open>isroot\<close> is \<^verbatim>\<open>vnode_isvroot\<close> of the parent and \<open>r\<close> the word \<^verbatim>\<open>read_random\<close> delivers.\<close>

definition ext2_dirpref :: "bool \<Rightarrow> u32 \<Rightarrow> inode \<Rightarrow> m_ext2fs \<Rightarrow> int outcome" where
  "ext2_dirpref isroot r pip fs =
     (if e2fs_gcount fs = 0 then Fault DivZero
      else
        let avgifree = e2fs_ficount (e2fs fs) div e2fs_gcount fs;
            avgbfree = e2fs_fbcount (e2fs fs) div e2fs_gcount fs;
            avgndir = e2fs_total_dir fs div e2fs_gcount fs;
            gcount = sint (e2fs_gcount fs)
        in if isroot then
             (let prefcg = sint (r mod e2fs_gcount fs)
              in bnd (fewest_dirs fs avgifree avgbfree prefcg gcount prefcg (m_e2fs_ipg fs)) (\<lambda>(mincg, minndir).
                 bnd (fewest_dirs fs avgifree avgbfree 0 prefcg mincg minndir) (\<lambda>(mincg, minndir). Ret mincg)))
           else
             (let lims = dirpref_limits fs avgifree avgbfree avgndir
              in bnd (ino_to_cg fs (i_number pip)) (\<lambda>c. let prefcg = s32 c in
                 bnd (first_cg (dirpref_fits fs lims) prefcg gcount) (\<lambda>a. case a of Some cg \<Rightarrow> Ret cg | None \<Rightarrow>
                 bnd (first_cg (dirpref_fits fs lims) 0 prefcg) (\<lambda>a. case a of Some cg \<Rightarrow> Ret cg | None \<Rightarrow>
                 bnd (first_cg (dirpref_backstop fs avgifree) prefcg gcount) (\<lambda>a. case a of Some cg \<Rightarrow> Ret cg | None \<Rightarrow>
                 bnd (first_cg (dirpref_backstop fs avgifree) 0 prefcg) (\<lambda>a. case a of Some cg \<Rightarrow> Ret cg | None \<Rightarrow>
                 Ret (max 0 prefcg))))))))"

section \<open>\<^verbatim>\<open>ext2_valloc\<close>: the inode number\<close>

text \<open>
  \<^verbatim>\<open>ext2_valloc\<close> up to the inode number it passes to \<^verbatim>\<open>ext2_vget_typed\<close>. \<open>Inl\<close> is the error it
  returns.
\<close>

definition contig_dirs :: "m_ext2fs \<Rightarrow> int \<Rightarrow> bool \<Rightarrow> m_ext2fs outcome" where
  "contig_dirs fs cg dir =
     bnd (rd (e2fs_contigdirs fs) cg) (\<lambda>c.
     let c' = (if dir then if c < 255 then c + 1 else c else if c > 0 then c - 1 else c)
     in bnd (wr (e2fs_contigdirs fs) cg c') (\<lambda>l. Ret (fs\<lparr>e2fs_contigdirs := l\<rparr>)))"

definition valloc_ino :: "inode \<Rightarrow> bool \<Rightarrow> u32 \<Rightarrow> int \<Rightarrow> ext2mount \<Rightarrow> ((errno + u32) \<times> ext2mount) outcome" where
  "valloc_ino pip isroot r mode ump =
     (let noinodes = (\<lambda>ump. bnd (EXT2_UNLOCK ump) (\<lambda>ump. Ret (Inl ENOSPC, ump))) in
      bnd (EXT2_LOCK ump) (\<lambda>ump. let fs = um_e2fs ump in
      if e2fs_ficount (e2fs fs) = 0 then noinodes ump
      else
        bnd (if is_dir mode then ext2_dirpref isroot r pip fs else ino_to_cg fs (i_number pip)) (\<lambda>c.
        let cg = s32 c in
        bnd (contig_dirs fs cg (is_dir mode)) (\<lambda>fs.
        let ipref = word_of_int cg * e2fs_ipg (e2fs fs) + 1 in
        bnd (ext2_hashalloc ext2_nodealloccg cg (uint ipref) mode (ump\<lparr>um_e2fs := fs\<rparr>)) (\<lambda>(result, ump).
        let ino = word_of_int result in
        if ino = 0 then noinodes ump else Ret (Inr ino, ump))))))"

section \<open>Well-formed inode bitmaps\<close>

definition ipg_of :: "m_ext2fs \<Rightarrow> nat" where
  "ipg_of fs = unat (e2fs_ipg (e2fs fs))"

definition igeom_ok :: "m_ext2fs \<Rightarrow> bool" where
  "igeom_ok fs \<longleftrightarrow> 0 < ipg_of fs \<and> ipg_of fs mod 8 = 0 \<and> ipg_of fs < 2 ^ 16 \<and>
     m_e2fs_ipg fs = e2fs_ipg (e2fs fs) \<and>
     0 < length (e2fs_gd fs) \<and> unat (e2fs_gcount fs) = length (e2fs_gd fs) \<and>
     length (e2fs_gd fs) * ipg_of fs < 2 ^ 31 - 1 \<and>
     distinct (map ext2bgd_b_bitmap (e2fs_gd fs) @ map ext2bgd_i_bitmap (e2fs_gd fs))"

definition i_addr :: "m_ext2fs \<Rightarrow> nat \<Rightarrow> int" where
  "i_addr fs cg = fsbtodb fs (uint (ext2bgd_i_bitmap (e2fs_gd fs ! cg)))"

definition i_bitmap :: "ext2mount \<Rightarrow> nat \<Rightarrow> bytes" where
  "i_bitmap ump cg = dev_blk (um_devvp ump) (i_addr (um_e2fs ump) cg)"

definition igroup_ok :: "ext2mount \<Rightarrow> nat \<Rightarrow> bool" where
  "igroup_ok ump cg \<longleftrightarrow> ipg_of (um_e2fs ump) \<le> 8 * length (i_bitmap ump cg) \<and>
     unat (ext2bgd_nifree (e2fs_gd (um_e2fs ump) ! cg)) = nfree (i_bitmap ump cg) (ipg_of (um_e2fs ump))"

text \<open>The inode allocator's invariant: the free counts are the numbers of clear bits, and the
  volume's count is their sum.\<close>

definition inodes_ok :: "ext2mount \<Rightarrow> bool" where
  "inodes_ok ump \<longleftrightarrow> igeom_ok (um_e2fs ump) \<and> (\<forall>cg < length (e2fs_gd (um_e2fs ump)). igroup_ok ump cg) \<and>
     unat (e2fs_ficount (e2fs (um_e2fs ump))) = sum_list (map (\<lambda>g. unat (ext2bgd_nifree g)) (e2fs_gd (um_e2fs ump)))"

lemma nodealloc_search_finds:
  assumes ipg: "unat ipg = 8 * m" "0 < m" "m < 2 ^ 13" "m \<le> length bm" and "0 \<le> p" and free: "i < 8 * m" "\<not> used bm i"
  shows "\<exists>r. nodealloc_search ipg bm p = Ret r \<and> 0 \<le> r \<and> r < int (8 * m) \<and> \<not> used bm (nat r)"
proof -
  have u: "uint ipg = 8 * int m" using ipg(1) unfolding uint_nat by simp
  have scan: "\<exists>r. (let start = s32 (q sdiv NBBY); len = s32 ((uint ipg - q + 7) sdiv 8)
        in bnd (memcchr bm start 0xff (size_t_of len)) (\<lambda>loc.
        case loc of Some l \<Rightarrow> clear_bit_at bm l
        | None \<Rightarrow>
            bnd (memcchr bm 0 0xff (size_t_of (start + 1))) (\<lambda>loc.
            case loc of Some l \<Rightarrow> clear_bit_at bm l
            | None \<Rightarrow> Fault (Panic ''ext2fs_nodealloccg: map corrupted'')))) = Ret r \<and>
      0 \<le> r \<and> r < int (8 * m) \<and> \<not> used bm (nat r)" if q: "0 \<le> q" "q < 8 * int m" for q
  proof -
    have st: "0 \<le> q div 8" "q div 8 < int m" using q by auto
    have "8 * (q div 8) \<le> q" "q < 8 * (q div 8) + 8" using mult_div_mod_eq [of 8 q] pos_mod_bound [of 8 q] pos_mod_sign [of 8 q] by linarith+
    then have "uint ipg - q + 7 = 8 * (int m - q div 8) + (8 * (q div 8) + 7 - q)" "0 \<le> 8 * (q div 8) + 7 - q" "8 * (q div 8) + 7 - q < 8"
      unfolding u by (simp_all add: right_diff_distrib)
    then have "(uint ipg - q + 7) div 8 = int m - q div 8" by (simp add: div_mod_8)
    moreover have "0 \<le> uint ipg - q + 7" using u q by simp
    ultimately have len: "s32 ((uint ipg - q + 7) sdiv 8) = int m - q div 8"
      using st ipg(3) by (simp add: geom_simps)
    have start: "s32 (q sdiv NBBY) = q div 8" using st ipg(3) q by (simp add: geom_simps NBBY_def)
    have n: "size_t_of (int m - q div 8) = nat (int m - q div 8)" "size_t_of (q div 8 + 1) = nat (q div 8 + 1)"
      using st ipg(3) by (auto intro: size_t_of_id)
    show ?thesis
      using byte_search_finds [OF st ipg(4) free, of "Panic ''ext2fs_nodealloccg: map corrupted''"]
      unfolding byte_search_def Let_def len start n .
  qed
  show ?thesis
  proof (cases "p = 0")
    case True
    then show ?thesis using scan [of 0] ipg(2) by (simp add: nodealloc_search_def)
  next
    case False
    have z: "ipg \<noteq> 0" using ipg(1,2) by auto
    define q where "q = p smod uint ipg"
    have q: "0 \<le> q" "q < 8 * int m" using assms(5) ipg(2) by (simp_all add: q_def geom_simps u)
    have "isclr bm q = Ret (\<not> used bm (nat q))" using q ipg(4) by (intro isclr_eq) auto
    then show ?thesis
      using scan [OF q] q False z unfolding nodealloc_search_def q_def [symmetric] by (auto simp: Let_def)
  qed
qed

section \<open>One inode taken or returned\<close>

definition imark_fs :: "int \<Rightarrow> int \<Rightarrow> m_ext2fs \<Rightarrow> nat \<Rightarrow> m_ext2fs" where
  "imark_fs d mode fs cg =
     fs\<lparr>e2fs := (e2fs fs)\<lparr>e2fs_ficount := e2fs_ficount (e2fs fs) + word_of_int d\<rparr>,
        e2fs_gd := (e2fs_gd fs)[cg := (e2fs_gd fs ! cg)\<lparr>ext2bgd_nifree := ext2bgd_nifree (e2fs_gd fs ! cg) + word_of_int d,
          ext2bgd_ndirs := (if is_dir mode then ext2bgd_ndirs (e2fs_gd fs ! cg) - word_of_int d else ext2bgd_ndirs (e2fs_gd fs ! cg))\<rparr>],
        e2fs_fmod := 1, e2fs_total_dir := (if is_dir mode then e2fs_total_dir fs - word_of_int d else e2fs_total_dir fs)\<rparr>"

definition imark_ump :: "int \<Rightarrow> int \<Rightarrow> ext2mount \<Rightarrow> nat \<Rightarrow> bytes \<Rightarrow> ext2mount" where
  "imark_ump d mode ump cg bm =
     ump\<lparr>um_lock := False, um_e2fs := imark_fs d mode (um_e2fs ump) cg,
         um_devvp := buf_bdwrite (um_devvp ump) (i_addr (um_e2fs ump) cg) bm\<rparr>"

lemma count_inode_eq: "cg < length (e2fs_gd fs) \<Longrightarrow> count_inode fs (int cg) mode d = Ret (imark_fs d mode fs cg)"
  by (simp add: count_inode_def EXT2_GD_in put_GD_def wr_in imark_fs_def)

lemma imark_fs_e2fs [simp]:
  "ipg_of (imark_fs d mode fs cg) = ipg_of fs" "e2fs_ipg (e2fs (imark_fs d mode fs cg)) = e2fs_ipg (e2fs fs)"
  by (simp_all add: imark_fs_def ipg_of_def)

lemma imark_fs_gd [simp]:
  "length (e2fs_gd (imark_fs d mode fs cg)) = length (e2fs_gd fs)"
  "map ext2bgd_b_bitmap (e2fs_gd (imark_fs d mode fs cg)) = map ext2bgd_b_bitmap (e2fs_gd fs)"
  "map ext2bgd_i_bitmap (e2fs_gd (imark_fs d mode fs cg)) = map ext2bgd_i_bitmap (e2fs_gd fs)"
proof -
  have id: "(map f (e2fs_gd fs))[cg := f (e2fs_gd fs ! cg)] = map f (e2fs_gd fs)" for f :: "ext2_gd \<Rightarrow> u32"
    by (cases "cg < length (e2fs_gd fs)") (simp_all add: list_update_same_conv list_update_beyond)
  show "length (e2fs_gd (imark_fs d mode fs cg)) = length (e2fs_gd fs)"
    "map ext2bgd_b_bitmap (e2fs_gd (imark_fs d mode fs cg)) = map ext2bgd_b_bitmap (e2fs_gd fs)"
    "map ext2bgd_i_bitmap (e2fs_gd (imark_fs d mode fs cg)) = map ext2bgd_i_bitmap (e2fs_gd fs)"
    using id by (simp_all add: imark_fs_def map_update)
qed

lemma imark_fs_addr [simp]: "k < length (e2fs_gd fs) \<Longrightarrow> i_addr (imark_fs d mode fs cg) k = i_addr fs k"
  by (cases "k = cg") (simp_all add: imark_fs_def i_addr_def fsbtodb_def)

lemma igeom_ok_imark: "igeom_ok fs \<Longrightarrow> igeom_ok (imark_fs d mode fs cg)"
proof -
  have "m_e2fs_ipg (imark_fs d mode fs cg) = m_e2fs_ipg fs" "e2fs_gcount (imark_fs d mode fs cg) = e2fs_gcount fs"
    by (simp_all add: imark_fs_def)
  then show "igeom_ok fs \<Longrightarrow> igeom_ok (imark_fs d mode fs cg)"
    unfolding igeom_ok_def by (simp only: imark_fs_e2fs imark_fs_gd)
qed

lemma i_addr_inj:
  assumes "igeom_ok fs" "cg < length (e2fs_gd fs)" "k < length (e2fs_gd fs)" "i_addr fs cg = i_addr fs k"
  shows "cg = k"
proof -
  have "uint (ext2bgd_i_bitmap (e2fs_gd fs ! cg)) = uint (ext2bgd_i_bitmap (e2fs_gd fs ! k))"
    using assms(4) by (simp add: i_addr_def fsbtodb_def push_bit_eq_mult)
  then have "map ext2bgd_i_bitmap (e2fs_gd fs) ! cg = map ext2bgd_i_bitmap (e2fs_gd fs) ! k"
    using assms(2,3) by (simp add: word_uint_eq_iff)
  moreover have "distinct (map ext2bgd_i_bitmap (e2fs_gd fs))" using assms(1) unfolding igeom_ok_def by simp
  ultimately show ?thesis using assms(2,3) by (simp only: nth_eq_iff_index_eq length_map)
qed

lemma i_bitmap_imark:
  assumes "igeom_ok (um_e2fs ump)" "cg < length (e2fs_gd (um_e2fs ump))" "k < length (e2fs_gd (um_e2fs ump))"
  shows "i_bitmap (imark_ump d mode ump cg bm) k = (if k = cg then bm else i_bitmap ump k)"
  using i_addr_inj [OF assms] assms(2,3) by (auto simp: i_bitmap_def imark_ump_def)

lemma inodes_ok_imark:
  assumes ok: "inodes_ok ump" and cg: "cg < length (e2fs_gd (um_e2fs ump))"
    and len: "length bm = length (i_bitmap ump cg)"
    and nb: "unat (ext2bgd_nifree (e2fs_gd (um_e2fs ump) ! cg) + word_of_int d) = nfree bm (ipg_of (um_e2fs ump))"
    and fb: "unat (e2fs_ficount (e2fs (um_e2fs ump)) + word_of_int d) + unat (ext2bgd_nifree (e2fs_gd (um_e2fs ump) ! cg)) =
      unat (e2fs_ficount (e2fs (um_e2fs ump))) + nfree bm (ipg_of (um_e2fs ump))"
  shows "inodes_ok (imark_ump d mode ump cg bm)"
proof -
  let ?fs = "um_e2fs ump" and ?u = "imark_ump d mode ump cg bm"
  let ?sum = "\<lambda>gs. sum_list (map (\<lambda>g. unat (ext2bgd_nifree g)) gs)"
  have g: "igeom_ok ?fs" and grp: "\<And>k. k < length (e2fs_gd ?fs) \<Longrightarrow> igroup_ok ump k"
    and tot: "unat (e2fs_ficount (e2fs ?fs)) = ?sum (e2fs_gd ?fs)"
    using ok by (auto simp: inodes_ok_def)
  have fs': "um_e2fs ?u = imark_fs d mode ?fs cg" by (simp add: imark_ump_def)
  define y where "y = (e2fs_gd ?fs ! cg)\<lparr>ext2bgd_nifree := ext2bgd_nifree (e2fs_gd ?fs ! cg) + word_of_int d,
      ext2bgd_ndirs := (if is_dir mode then ext2bgd_ndirs (e2fs_gd ?fs ! cg) - word_of_int d else ext2bgd_ndirs (e2fs_gd ?fs ! cg))\<rparr>"
  have gd: "e2fs_gd (imark_fs d mode ?fs cg) = (e2fs_gd ?fs)[cg := y]"
    and y: "ext2bgd_nifree y = ext2bgd_nifree (e2fs_gd ?fs ! cg) + word_of_int d"
    by (simp_all add: imark_fs_def y_def)
  have "igroup_ok ?u k" if k: "k < length (e2fs_gd ?fs)" for k
    using grp [OF k] grp [OF cg] i_bitmap_imark [OF g cg k] k len nb
    by (cases "k = cg") (simp_all add: igroup_ok_def fs' gd y)
  moreover have "unat (e2fs_ficount (e2fs (um_e2fs ?u))) = ?sum (e2fs_gd (um_e2fs ?u))"
  proof -
    have "?sum (e2fs_gd (um_e2fs ?u)) + unat (ext2bgd_nifree (e2fs_gd ?fs ! cg)) =
        ?sum (e2fs_gd ?fs) + nfree bm (ipg_of ?fs)"
      using sum_list_map_update [OF cg, of "\<lambda>g. unat (ext2bgd_nifree g)" y] nb by (simp add: fs' gd y)
    moreover have "unat (e2fs_ficount (e2fs (um_e2fs ?u))) = unat (e2fs_ficount (e2fs ?fs) + word_of_int d)"
      by (simp add: fs' imark_fs_def)
    ultimately show ?thesis using fb tot by linarith
  qed
  ultimately show ?thesis
    using igeom_ok_imark [OF g, of d mode cg] by (simp add: inodes_ok_def fs')
qed

lemma nifree_le_sum:
  "k < length gs \<Longrightarrow> unat (ext2bgd_nifree (gs ! k)) \<le> sum_list (map (\<lambda>g. unat (ext2bgd_nifree g)) gs)"
  by (rule member_le_sum_list) auto

lemma inodes_ok_take:
  assumes ok: "inodes_ok ump" and cg: "cg < length (e2fs_gd (um_e2fs ump))"
    and i: "i < ipg_of (um_e2fs ump)" "\<not> used (i_bitmap ump cg) i"
    and bm: "setbit (i_bitmap ump cg) (int i) = Ret bm"
  shows "inodes_ok (imark_ump (- 1) mode ump cg bm)"
proof -
  let ?fs = "um_e2fs ump"
  let ?nb = "ext2bgd_nifree (e2fs_gd ?fs ! cg)" and ?fb = "e2fs_ficount (e2fs ?fs)"
  have grp: "igroup_ok ump cg" and tot: "unat ?fb = sum_list (map (\<lambda>g. unat (ext2bgd_nifree g)) (e2fs_gd ?fs))"
    using ok cg by (auto simp: inodes_ok_def)
  have nb: "unat ?nb = Suc (nfree bm (ipg_of ?fs))"
    using nfree_setbit [OF bm] i grp by (simp add: igroup_ok_def)
  have "unat ?nb \<le> unat ?fb" using nifree_le_sum [OF cg] tot by metis
  with nb have nz: "?nb \<noteq> 0" "?fb \<noteq> 0" and fb: "1 \<le> unat ?fb" by auto
  show ?thesis
  proof (rule inodes_ok_imark [OF ok cg])
    show "length bm = length (i_bitmap ump cg)" using bm by (rule setbit_length)
    show "unat (?nb + word_of_int (- 1)) = nfree bm (ipg_of ?fs)" using unat_dec [OF nz(1)] nb by simp
    show "unat (?fb + word_of_int (- 1)) + unat ?nb = unat ?fb + nfree bm (ipg_of ?fs)"
      using unat_dec [OF nz(2)] nb fb by simp
  qed
qed

lemma free_inodes_bound:
  assumes "inodes_ok ump"
  shows "unat (e2fs_ficount (e2fs (um_e2fs ump))) < 2 ^ 31 - 1"
proof -
  let ?fs = "um_e2fs ump"
  have "unat (ext2bgd_nifree g) \<le> ipg_of ?fs" if g: "g \<in> set (e2fs_gd ?fs)" for g
  proof -
    obtain k where "k < length (e2fs_gd ?fs)" "e2fs_gd ?fs ! k = g" using g by (auto simp: in_set_conv_nth)
    with assms have "igroup_ok ump k" "e2fs_gd ?fs ! k = g" by (auto simp: inodes_ok_def)
    then show ?thesis using nfree_le [of "i_bitmap ump k" "ipg_of ?fs"] by (auto simp: igroup_ok_def)
  qed
  then have "sum_list (map (\<lambda>g. unat (ext2bgd_nifree g)) (e2fs_gd ?fs)) \<le> sum_list (map (\<lambda>g. ipg_of ?fs) (e2fs_gd ?fs))"
    by (intro sum_list_mono) auto
  also have "\<dots> = length (e2fs_gd ?fs) * ipg_of ?fs" by (simp add: sum_list_triv)
  finally show ?thesis using assms by (simp add: inodes_ok_def igeom_ok_def)
qed

lemma inodes_ok_free:
  assumes ok: "inodes_ok ump" and cg: "cg < length (e2fs_gd (um_e2fs ump))"
    and i: "i < ipg_of (um_e2fs ump)" "used (i_bitmap ump cg) i"
    and bm: "clrbit (i_bitmap ump cg) (int i) = Ret bm"
  shows "inodes_ok (imark_ump 1 mode ump cg bm)"
proof -
  let ?fs = "um_e2fs ump"
  let ?nb = "ext2bgd_nifree (e2fs_gd ?fs ! cg)" and ?fb = "e2fs_ficount (e2fs ?fs)"
  have grp: "igroup_ok ump cg" and g: "igeom_ok ?fs" using ok cg by (auto simp: inodes_ok_def)
  have n: "nfree bm (ipg_of ?fs) = Suc (unat ?nb)"
    using nfree_clrbit [OF bm] i grp by (simp add: igroup_ok_def)
  then have "unat ?nb < 2 ^ 16 - 1" using nfree_le [of bm "ipg_of ?fs"] g by (simp add: igeom_ok_def)
  then have nb: "unat (?nb + word_of_int 1) = unat ?nb + 1" by (intro unat_inc) simp
  have fb: "unat (?fb + word_of_int 1) = unat ?fb + 1"
    using free_inodes_bound [OF ok] by (intro unat_inc) simp
  show ?thesis
  proof (rule inodes_ok_imark [OF ok cg])
    show "length bm = length (i_bitmap ump cg)" using bm by (rule clrbit_length)
    show "unat (?nb + word_of_int 1) = nfree bm (ipg_of ?fs)" using nb n by simp
    show "unat (?fb + word_of_int 1) + unat ?nb = unat ?fb + nfree bm (ipg_of ?fs)" using fb n by simp
  qed
qed

end
