(* ===== verification/Ext2_Ihash.thy ===== *)
theory Ext2_Ihash
  imports Ext2_Types
begin

text \<open>
  The table of the inodes in core, from \<^verbatim>\<open>kext/ext2_ihash.c\<close>, with the doubly linked chains of \<^verbatim>\<open>sys/queue.h\<close> as pointers in
  a heap, and the refinement of the table by one list of all hashed inodes.
\<close>

section \<open>The heap\<close>

text \<open>
  An address of an in-core inode is a number. \<^verbatim>\<open>le_prev\<close> is the address of the pointer that points to the entry: a head of the table or the
  \<^verbatim>\<open>le_next\<close> field of another inode.
\<close>

type_synonym ptr = nat

datatype slot = Head nat | Next ptr

record hnode =
  hn_ip :: inode
  hn_ump :: u64
  hn_vnode :: "ptr option"
  le_next :: "ptr option"
  le_prev :: "slot option"

text \<open>
  \<open>None\<close> for the null pointers \<^verbatim>\<open>ext2_ihashtbl\<close> and \<^verbatim>\<open>ext2_ihash_mtx\<close>; the mutex is there with whether it is held.
\<close>

record ihash =
  ih_tbl :: "ptr option list option"
  ih_mask :: u64
  ih_mtx :: "bool option"
  ih_nodes :: "ptr \<Rightarrow> hnode option"

definition ihash_lock :: "ihash \<Rightarrow> ihash outcome" where
  "ihash_lock ih = (case ih_mtx ih of None \<Rightarrow> Fault NullDeref | Some held \<Rightarrow> if held then Fault LockFault else Ret (ih\<lparr>ih_mtx := Some True\<rparr>))"

definition ihash_unlock :: "ihash \<Rightarrow> ihash outcome" where
  "ihash_unlock ih = (case ih_mtx ih of None \<Rightarrow> Fault NullDeref | Some held \<Rightarrow> if held then Ret (ih\<lparr>ih_mtx := Some False\<rparr>) else Fault LockFault)"

section \<open>\<^verbatim>\<open>ext2_ihashinit\<close> and \<^verbatim>\<open>ext2_ihashdestroy\<close>\<close>

text \<open>The loop that doubles the size; \<open>None\<close> when it does not end.\<close>

partial_function (option) size_loop :: "u64 \<Rightarrow> u64 \<Rightarrow> u64 option" where
  "size_loop nelem hashsize = (if hashsize \<le> nelem then size_loop nelem (push_bit 1 hashsize) else Some hashsize)"

declare size_loop.simps [code]

text \<open>\<open>desiredvnodes\<close> is a signed int; the last two arguments say whether the table and the mutex could be allocated.\<close>

definition ext2_ihashinit :: "u32 \<Rightarrow> bool \<Rightarrow> bool \<Rightarrow> ihash \<Rightarrow> (errno \<times> ihash) option" where
  "ext2_ihashinit desiredvnodes tblok mtxok ih =
     (if ih_tbl ih \<noteq> None then Some (0, ih)
      else
        let nelem = scast desiredvnodes :: u64; nelem = (if nelem < 64 then 64 else nelem) in
        map_option (\<lambda>hashsize.
          let hashsize = drop_bit 1 hashsize in
          if \<not> tblok then (ENOMEM, ih)
          else if \<not> mtxok then (ENOMEM, ih\<lparr>ih_mtx := None, ih_tbl := None\<rparr>)
          else (0, ih\<lparr>ih_tbl := Some (replicate (unat hashsize) None), ih_mtx := Some False, ih_mask := hashsize - 1\<rparr>))
          (size_loop nelem 1))"

definition ext2_ihashdestroy :: "ihash \<Rightarrow> ihash" where
  "ext2_ihashdestroy ih = ih\<lparr>ih_mtx := None, ih_tbl := None, ih_mask := 0\<rparr>"

section \<open>Lookup, insertion and removal\<close>

text \<open>\<^verbatim>\<open>EXT2_IHASH\<close>, and the chain heads and fields behind it.\<close>

definition EXT2_IHASH :: "u64 \<Rightarrow> u64 \<Rightarrow> u32 \<Rightarrow> nat" where
  "EXT2_IHASH m ump ino = unat ((drop_bit 8 ump XOR ucast ino) AND m)"

definition head_at :: "ihash \<Rightarrow> nat \<Rightarrow> ptr option outcome" where
  "head_at ih b = (case ih_tbl ih of None \<Rightarrow> Fault NullDeref | Some t \<Rightarrow> if b < length t then Ret (t ! b) else Fault Oob)"

definition node_at :: "ihash \<Rightarrow> ptr \<Rightarrow> hnode outcome" where
  "node_at ih p = (case ih_nodes ih p of None \<Rightarrow> Fault NullDeref | Some n \<Rightarrow> Ret n)"

definition put_node :: "ihash \<Rightarrow> ptr \<Rightarrow> hnode \<Rightarrow> ihash" where
  "put_node ih p n = ih\<lparr>ih_nodes := (ih_nodes ih)(p \<mapsto> n)\<rparr>"

text \<open>A store through the address of a pointer.\<close>

definition set_slot :: "ihash \<Rightarrow> slot \<Rightarrow> ptr option \<Rightarrow> ihash outcome" where
  "set_slot ih s v =
     (case s of
        Head b \<Rightarrow> (case ih_tbl ih of None \<Rightarrow> Fault NullDeref
                  | Some t \<Rightarrow> if b < length t then Ret (ih\<lparr>ih_tbl := Some (t[b := v])\<rparr>) else Fault Oob)
      | Next p \<Rightarrow> bnd (node_at ih p) (\<lambda>n. Ret (put_node ih p (n\<lparr>le_next := v\<rparr>))))"

text \<open>\<^verbatim>\<open>LIST_INSERT_HEAD\<close> and \<^verbatim>\<open>LIST_REMOVE\<close>.\<close>

definition LIST_INSERT_HEAD :: "nat \<Rightarrow> ptr \<Rightarrow> ihash \<Rightarrow> ihash outcome" where
  "LIST_INSERT_HEAD b p ih =
     bnd (head_at ih b) (\<lambda>first.
     bnd (node_at ih p) (\<lambda>n. let ih = put_node ih p (n\<lparr>le_next := first\<rparr>) in
     bnd (case first of None \<Rightarrow> Ret ih
          | Some q \<Rightarrow> bnd (node_at ih q) (\<lambda>m. Ret (put_node ih q (m\<lparr>le_prev := Some (Next p)\<rparr>)))) (\<lambda>ih.
     bnd (set_slot ih (Head b) (Some p)) (\<lambda>ih.
     bnd (node_at ih p) (\<lambda>n. Ret (put_node ih p (n\<lparr>le_prev := Some (Head b)\<rparr>)))))))"

definition LIST_REMOVE :: "ptr \<Rightarrow> ihash \<Rightarrow> ihash outcome" where
  "LIST_REMOVE p ih =
     bnd (node_at ih p) (\<lambda>n.
     bnd (case le_next n of None \<Rightarrow> Ret ih
          | Some q \<Rightarrow> bnd (node_at ih q) (\<lambda>m. Ret (put_node ih q (m\<lparr>le_prev := le_prev n\<rparr>)))) (\<lambda>ih.
     bnd (node_at ih p) (\<lambda>n.
     case le_prev n of None \<Rightarrow> Fault NullDeref | Some s \<Rightarrow> set_slot ih s (le_next n))))"

definition ext2_ihashins :: "ptr \<Rightarrow> ihash \<Rightarrow> ihash outcome" where
  "ext2_ihashins p ih =
     bnd (ihash_lock ih) (\<lambda>ih.
     bnd (node_at ih p) (\<lambda>n.
     bnd (LIST_INSERT_HEAD (EXT2_IHASH (ih_mask ih) (hn_ump n) (i_number (hn_ip n))) p ih) ihash_unlock))"

definition ext2_ihashrem :: "ptr \<Rightarrow> ihash \<Rightarrow> ihash outcome" where
  "ext2_ihashrem p ih =
     (if ih_tbl ih = None then Ret ih
      else
        bnd (ihash_lock ih) (\<lambda>ih.
        bnd (node_at ih p) (\<lambda>n.
        bnd (if le_prev n \<noteq> None
             then bnd (LIST_REMOVE p ih) (\<lambda>ih. bnd (node_at ih p) (\<lambda>n. Ret (put_node ih p (n\<lparr>le_prev := None, le_next := None\<rparr>))))
             else Ret ih) ihash_unlock)))"

text \<open>
  The walk along a chain: the first inode with the number and the mount that has a vnode. \<open>None\<close> when the chain does not end.
\<close>

definition hit :: "u64 \<Rightarrow> u32 \<Rightarrow> hnode \<Rightarrow> bool" where
  "hit ump ino n \<longleftrightarrow> \<not> (i_number (hn_ip n) \<noteq> ino \<or> hn_ump n \<noteq> ump) \<and> hn_vnode n \<noteq> None"

partial_function (option) chain_walk :: "ihash \<Rightarrow> u64 \<Rightarrow> u32 \<Rightarrow> ptr option \<Rightarrow> ptr option outcome option" where
  "chain_walk ih ump ino q =
     (if q = None then Some (Ret None)
      else case node_at ih (the q) of
             Fault f \<Rightarrow> Some (Fault f)
           | Ret n \<Rightarrow> if hit ump ino n then Some (Ret q) else chain_walk ih ump ino (le_next n))"

declare chain_walk.simps [code]

text \<open>One pass under the lock.\<close>

definition ihash_pass :: "ihash \<Rightarrow> u64 \<Rightarrow> u32 \<Rightarrow> ptr option outcome option" where
  "ihash_pass ih ump ino =
     (case bnd (ihash_lock ih) (\<lambda>ih. bnd (head_at ih (EXT2_IHASH (ih_mask ih) ump ino)) (\<lambda>q. Ret (ih, q))) of
        Fault f \<Rightarrow> Some (Fault f)
      | Ret (ih, q) \<Rightarrow> map_option (\<lambda>r. bnd r (\<lambda>p. bnd (ihash_unlock ih) (\<lambda>_. Ret p))) (chain_walk ih ump ino q))"

text \<open>
  The lock is not held while the reference is taken, so other threads may change the table before the walk starts again: \<open>views n\<close> is
  the table when the lock is taken for the \<open>n\<close>th time, and \<open>getwithvid n\<close> what \<^verbatim>\<open>vnode_getwithvid\<close> then returns for the vnode
  and the identity that were read. The result is the error and the inode whose vnode is referenced.
\<close>

partial_function (option) ihashget_loop :: "(nat \<Rightarrow> ihash) \<Rightarrow> (nat \<Rightarrow> ptr \<Rightarrow> u32 \<Rightarrow> errno) \<Rightarrow> u64 \<Rightarrow> u32 \<Rightarrow> nat \<Rightarrow> (errno \<times> ptr option) outcome option" where
  "ihashget_loop views getwithvid ump ino n =
     (case ihash_pass (views n) ump ino of
        None \<Rightarrow> None
      | Some (Fault f) \<Rightarrow> Some (Fault f)
      | Some (Ret q) \<Rightarrow>
          if q = None then Some (Ret (0, None))
          else case node_at (views n) (the q) of
                 Fault f \<Rightarrow> Some (Fault f)
               | Ret m \<Rightarrow>
                   if getwithvid n (the (hn_vnode m)) (i_vid (hn_ip m)) \<noteq> 0 then ihashget_loop views getwithvid ump ino (Suc n)
                   else Some (Ret (0, q)))"

declare ihashget_loop.simps [code]

definition ext2_ihashget :: "(nat \<Rightarrow> ihash) \<Rightarrow> (nat \<Rightarrow> ptr \<Rightarrow> u32 \<Rightarrow> errno) \<Rightarrow> u64 \<Rightarrow> u32 \<Rightarrow> (errno \<times> ptr option) outcome option" where
  "ext2_ihashget views getwithvid ump ino =
     (if ih_tbl (views 0) = None then Some (Ret (0, None)) else ihashget_loop views getwithvid ump ino 0)"


section \<open>The table represents a list\<close>

text \<open>The part of a chain from the pointer \<open>q\<close>, stored at \<open>s\<close>, to the pointer \<open>q'\<close>, stored at \<open>s'\<close>.\<close>

fun lseg :: "(ptr \<Rightarrow> hnode option) \<Rightarrow> ptr option \<Rightarrow> slot \<Rightarrow> ptr list \<Rightarrow> ptr option \<Rightarrow> slot \<Rightarrow> bool" where
  "lseg h q s [] q' s' \<longleftrightarrow> q = q' \<and> s = s'"
| "lseg h q s (p # ps) q' s' \<longleftrightarrow> q = Some p \<and> (\<exists>n. h p = Some n \<and> le_prev n = Some s \<and> lseg h (le_next n) (Next p) ps q' s')"

definition chain :: "(ptr \<Rightarrow> hnode option) \<Rightarrow> ptr option \<Rightarrow> nat \<Rightarrow> ptr list \<Rightarrow> bool" where
  "chain h q b ps \<longleftrightarrow> (\<exists>s'. lseg h q (Head b) ps None s')"

lemma lseg_append: "lseg h q s (xs @ ys) q' s' \<longleftrightarrow> (\<exists>r t. lseg h q s xs r t \<and> lseg h r t ys q' s')"
  by (induction xs arbitrary: q s) auto

lemma lseg_cong: "(\<And>p. p \<in> set ps \<Longrightarrow> h p = h' p) \<Longrightarrow> lseg h q s ps q' s' = lseg h' q s ps q' s'"
  by (induction ps arbitrary: q s) auto

lemma chain_cong: "(\<And>p. p \<in> set ps \<Longrightarrow> h p = h' p) \<Longrightarrow> chain h q b ps = chain h' q b ps"
  unfolding chain_def using lseg_cong [of ps h h'] by auto

text \<open>The key of an inode, and the list its chain holds of all hashed inodes.\<close>

definition bucket :: "ihash \<Rightarrow> ptr \<Rightarrow> nat" where
  "bucket ih p = (case ih_nodes ih p of None \<Rightarrow> 0 | Some n \<Rightarrow> EXT2_IHASH (ih_mask ih) (hn_ump n) (i_number (hn_ip n)))"

definition hashed :: "ihash \<Rightarrow> ptr list \<Rightarrow> bool" where
  "hashed ih L \<longleftrightarrow> ih_mtx ih = Some False \<and> distinct L \<and> (\<exists>t. ih_tbl ih = Some t \<and> length t = unat (ih_mask ih) + 1 \<and>
     (\<forall>b < length t. chain (ih_nodes ih) (t ! b) b (filter (\<lambda>p. bucket ih p = b) L))) \<and>
     (\<forall>p. p \<in> set L \<longleftrightarrow> (\<exists>n. ih_nodes ih p = Some n \<and> le_prev n \<noteq> None))"

text \<open>What does not change of an inode: everything but the links.\<close>

definition same_node :: "hnode \<Rightarrow> hnode \<Rightarrow> bool" where
  "same_node m n \<longleftrightarrow> hn_ip m = hn_ip n \<and> hn_ump m = hn_ump n \<and> hn_vnode m = hn_vnode n"

definition same_nodes :: "ihash \<Rightarrow> ihash \<Rightarrow> bool" where
  "same_nodes ih ih' \<longleftrightarrow> ih_mask ih' = ih_mask ih \<and> (\<forall>p. rel_option same_node (ih_nodes ih p) (ih_nodes ih' p))"

lemma same_nodes_bucket: "same_nodes ih ih' \<Longrightarrow> bucket ih' p = bucket ih p"
proof -
  assume s: "same_nodes ih ih'"
  then have "rel_option same_node (ih_nodes ih p) (ih_nodes ih' p)" by (simp add: same_nodes_def)
  then show ?thesis using s by (cases rule: option.rel_cases) (auto simp: same_nodes_def same_node_def bucket_def)
qed

lemma EXT2_IHASH_bound: "EXT2_IHASH m ump ino \<le> unat m"
proof -
  have "(drop_bit 8 ump XOR ucast ino) AND m \<le> m" by (rule word_and_le1)
  then show ?thesis unfolding EXT2_IHASH_def by (simp add: word_le_nat_alt)
qed

lemma hashed_head:
  assumes "hashed ih L"
  obtains t where "ih_tbl ih = Some t" "length t = unat (ih_mask ih) + 1" "EXT2_IHASH (ih_mask ih) ump ino < length t"
    "head_at ih (EXT2_IHASH (ih_mask ih) ump ino) = Ret (t ! EXT2_IHASH (ih_mask ih) ump ino)"
proof -
  obtain t where "ih_tbl ih = Some t" "length t = unat (ih_mask ih) + 1" using assms by (auto simp: hashed_def)
  then show ?thesis using EXT2_IHASH_bound [of "ih_mask ih" ump ino] that by (simp add: head_at_def)
qed

text \<open>Insertion puts the inode in front.\<close>

lemma ihashins_front:
  assumes h: "hashed ih L" and p: "ih_nodes ih p = Some n" "p \<notin> set L"
  shows "\<exists>ih'. ext2_ihashins p ih = Ret ih' \<and> hashed ih' (p # L) \<and> same_nodes ih ih'"
proof -
  let ?b = "EXT2_IHASH (ih_mask ih) (hn_ump n) (i_number (hn_ip n))"
  obtain t where t: "ih_tbl ih = Some t" "length t = unat (ih_mask ih) + 1" "?b < length t" by (rule hashed_head [OF h])
  have m: "ih_mtx ih = Some False" and d: "distinct L"
    and ch: "\<forall>b < length t. chain (ih_nodes ih) (t ! b) b (filter (\<lambda>p. bucket ih p = b) L)"
    and mem: "\<forall>x. x \<in> set L \<longleftrightarrow> (\<exists>n. ih_nodes ih x = Some n \<and> le_prev n \<noteq> None)" using h t(1) by (auto simp: hashed_def)
  have bp: "bucket ih p = ?b" using p(1) by (simp add: bucket_def)
  let ?F = "filter (\<lambda>p. bucket ih p = ?b) L"
  let ?n = "n\<lparr>le_next := t ! ?b, le_prev := Some (Head ?b)\<rparr>"
  obtain s0 where s0: "lseg (ih_nodes ih) (t ! ?b) (Head ?b) ?F None s0" using ch t(3) unfolding chain_def by blast
  obtain h' where h': "h' = (case t ! ?b of None \<Rightarrow> (ih_nodes ih)(p \<mapsto> ?n)
      | Some q \<Rightarrow> (ih_nodes ih)(q \<mapsto> (the (ih_nodes ih q))\<lparr>le_prev := Some (Next p)\<rparr>, p \<mapsto> ?n))" by blast
  let ?ih = "ih\<lparr>ih_tbl := Some (t[?b := Some p]), ih_nodes := h'\<rparr>"
  have q: "q \<in> set L \<and> q \<noteq> p \<and> (\<exists>m qs. ih_nodes ih q = Some m \<and> ?F = q # qs) \<and> bucket ih q = ?b" if tq: "t ! ?b = Some q" for q
  proof -
    obtain qs where qs: "?F = q # qs" using s0 tq by (cases ?F) auto
    then have "q \<in> set ?F" by simp
    then have "q \<in> set L" "bucket ih q = ?b" by simp_all
    moreover from this(1) have "\<exists>m. ih_nodes ih q = Some m" using mem by blast
    ultimately show ?thesis using p(2) qs by blast
  qed
  have run: "ext2_ihashins p ih = Ret ?ih"
  proof (cases "t ! ?b")
    case None
    then show ?thesis using m p(1) t h' by (simp add: ext2_ihashins_def ihash_lock_def ihash_unlock_def node_at_def LIST_INSERT_HEAD_def head_at_def
      put_node_def set_slot_def Let_def)
  next
    case (Some q)
    from q [OF this] obtain mq where mq: "ih_nodes ih q = Some mq" "q \<noteq> p" by blast
    have "(ih_nodes ih)(p \<mapsto> x, q \<mapsto> y, p \<mapsto> z) = (ih_nodes ih)(q \<mapsto> y, p \<mapsto> z)" for x y z using mq(2) by auto
    then show ?thesis using m p(1) t h' Some mq by (simp add: ext2_ihashins_def ihash_lock_def ihash_unlock_def node_at_def LIST_INSERT_HEAD_def head_at_def
      put_node_def set_slot_def Let_def)
  qed
  have same: "same_nodes ih ?ih"
  proof -
    have r: "rel_option same_node (ih_nodes ih x) (ih_nodes ih x)" for x by (cases "ih_nodes ih x") (simp_all add: same_node_def)
    show ?thesis
    proof (cases "t ! ?b")
      case None
      then show ?thesis using r p(1) h' by (simp add: same_nodes_def same_node_def)
    next
      case (Some q)
      from q [OF this] obtain mq where "ih_nodes ih q = Some mq" "q \<noteq> p" by blast
      then show ?thesis using Some r p(1) h' by (simp add: same_nodes_def same_node_def)
    qed
  qed
  have fr: "h' x = ih_nodes ih x" if "x \<noteq> p" "t ! ?b \<noteq> Some x" for x using that h' by (cases "t ! ?b") auto
  have here: "chain h' (Some p) ?b (p # ?F)"
  proof (cases "t ! ?b")
    case None
    then have "?F = []" using s0 by (cases ?F) auto
    then show ?thesis using None h' by (simp add: chain_def)
  next
    case (Some q)
    from q [OF Some] obtain mq qs where mq: "ih_nodes ih q = Some mq" "q \<noteq> p" "?F = q # qs" by blast
    have nq: "h' q = Some (mq\<lparr>le_prev := Some (Next p)\<rparr>)" "h' p = Some ?n" using h' Some mq(1,2) by simp_all
    have tl: "lseg (ih_nodes ih) (le_next mq) (Next q) qs None s0" using s0 Some mq by simp
    have dq: "x \<in> set qs \<Longrightarrow> h' x = ih_nodes ih x" for x
    proof -
      assume x: "x \<in> set qs"
      have "distinct ?F" using d by simp
      then have "x \<noteq> q" using mq(3) x by auto
      moreover have "x \<in> set ?F" using mq(3) x by simp
      then have "x \<noteq> p" using p(2) by auto
      ultimately show ?thesis using fr Some by simp
    qed
    have "lseg h' (le_next mq) (Next q) qs None s0" using tl lseg_cong [OF dq] by simp
    then show ?thesis unfolding mq(3) chain_def using nq Some by auto
  qed
  have other: "chain h' (t ! b) b (filter (\<lambda>p. bucket ih p = b) L)" if "b < length t" "b \<noteq> ?b" for b
  proof -
    have "x \<in> set (filter (\<lambda>p. bucket ih p = b) L) \<Longrightarrow> ih_nodes ih x = h' x" for x
    proof -
      assume "x \<in> set (filter (\<lambda>p. bucket ih p = b) L)"
      then have x: "x \<in> set L" "bucket ih x \<noteq> ?b" using that(2) by simp_all
      then have "x \<noteq> p" "t ! ?b \<noteq> Some x" using p(2) q [of x] by blast+
      then show ?thesis using fr by simp
    qed
    then show ?thesis using ch that(1) chain_cong by (metis (no_types, lifting))
  qed
  have mem': "x \<in> set (p # L) \<longleftrightarrow> (\<exists>n. h' x = Some n \<and> le_prev n \<noteq> None)" for x
  proof (cases "x = p \<or> t ! ?b = Some x")
    case True
    then show ?thesis
    proof
      assume "x = p" then show ?thesis using h' by (cases "t ! ?b") simp_all
    next
      assume x: "t ! ?b = Some x"
      then show ?thesis using q [OF x] h' by simp
    qed
  next
    case False
    then show ?thesis using fr [of x] mem by auto
  qed
  have "hashed ?ih (p # L)"
    unfolding hashed_def
  proof (intro conjI exI allI impI)
    show "ih_mtx ?ih = Some False" using m by simp
    show "distinct (p # L)" using d p(2) by simp
    show "ih_tbl ?ih = Some (t[?b := Some p])" by simp
    show "length (t[?b := Some p]) = unat (ih_mask ?ih) + 1" using t(2) by simp
    show "x \<in> set (p # L) \<longleftrightarrow> (\<exists>n. ih_nodes ?ih x = Some n \<and> le_prev n \<noteq> None)" for x using mem' [of x] by simp
    fix b assume b: "b < length (t[?b := Some p])"
    show "chain (ih_nodes ?ih) (t[?b := Some p] ! b) b (filter (\<lambda>p. bucket ?ih p = b) (p # L))"
      unfolding same_nodes_bucket [OF same] using here other b bp t(3) by (cases "b = ?b") simp_all
  qed
  then show ?thesis using run same by blast
qed


text \<open>A chain whose first entry is told that it is stored elsewhere, and one whose last entry is made to point elsewhere.\<close>

lemma lseg_restore:
  assumes "lseg h q s ps None s0" "distinct ps"
    and "\<And>x m. ps \<noteq> [] \<Longrightarrow> x = hd ps \<Longrightarrow> h x = Some m \<Longrightarrow> h' x = Some (m\<lparr>le_prev := Some s'\<rparr>)"
    and "\<And>x. x \<in> set (tl ps) \<Longrightarrow> h' x = h x"
  shows "\<exists>s1. lseg h' q s' ps None s1"
proof (cases ps)
  case (Cons p qs)
  then obtain n where n: "h p = Some n" "q = Some p" "lseg h (le_next n) (Next p) qs None s0" using assms(1) unfolding Cons by auto
  have "lseg h' (le_next n) (Next p) qs None s0" using n(3) lseg_cong [of qs h h'] assms(4) Cons by simp
  moreover have "h' p = Some (n\<lparr>le_prev := Some s'\<rparr>)" by (rule assms(3)) (simp_all add: Cons n(1))
  ultimately have "lseg h' q s' (p # qs) None s0" using n(2) by simp
  then show ?thesis unfolding Cons by (rule exI)
qed (use assms(1) in simp)

lemma lseg_redirect:
  assumes "lseg h q s (ps @ [r]) q' s'"
    and "\<And>m. h r = Some m \<Longrightarrow> h' r = Some (m\<lparr>le_next := q''\<rparr>)" "\<And>x. x \<in> set ps \<Longrightarrow> h' x = h x"
  shows "lseg h' q s (ps @ [r]) q'' (Next r) \<and> s' = Next r"
proof -
  obtain t u where t: "lseg h q s ps t u" "lseg h t u [r] q' s'" using assms(1) by (auto simp: lseg_append)
  then obtain m where m: "t = Some r" "h r = Some m" "le_prev m = Some u" "s' = Next r" by auto
  have "lseg h' q s ps t u" using t(1) lseg_cong [of ps h h'] assms(3) by simp
  moreover have "lseg h' t u [r] q'' (Next r)" using m assms(2) by simp
  ultimately show ?thesis using m(4) lseg_append by blast
qed

text \<open>Removal takes the inode out of the list; an inode that is not hashed stays out.\<close>

lemma ihashrem_out:
  assumes h: "hashed ih L" and p: "ih_nodes ih p = Some n"
  shows "\<exists>ih'. ext2_ihashrem p ih = Ret ih' \<and> hashed ih' (filter (\<lambda>x. x \<noteq> p) L) \<and> same_nodes ih ih'"
proof (cases "p \<in> set L")
  case False
  have "ih\<lparr>ih_mtx := Some False\<rparr> = ih" "ih_mtx ih = Some False" "ih_tbl ih \<noteq> None" "le_prev n = None" using h p False by (auto simp: hashed_def)
  moreover have "filter (\<lambda>x. x \<noteq> p) L = L" using False by (induction L) auto
  moreover have "rel_option same_node (ih_nodes ih x) (ih_nodes ih x)" for x by (cases "ih_nodes ih x") (simp_all add: same_node_def)
  ultimately have e: "ih\<lparr>ih_mtx := Some False\<rparr> = ih" and f: "filter (\<lambda>x. x \<noteq> p) L = L" and sn: "same_nodes ih ih"
    and r: "ext2_ihashrem p ih = Ret (ih\<lparr>ih_mtx := Some False\<rparr>)"
    using p by (simp_all add: ext2_ihashrem_def ihash_lock_def ihash_unlock_def node_at_def same_nodes_def)
  show ?thesis using h r sn unfolding e f by blast
next
  case True
  let ?b = "EXT2_IHASH (ih_mask ih) (hn_ump n) (i_number (hn_ip n))"
  obtain t where t: "ih_tbl ih = Some t" "length t = unat (ih_mask ih) + 1" "?b < length t" by (rule hashed_head [OF h])
  have m: "ih_mtx ih = Some False" and d: "distinct L"
    and ch: "\<forall>b < length t. chain (ih_nodes ih) (t ! b) b (filter (\<lambda>p. bucket ih p = b) L)"
    and mem: "\<forall>x. x \<in> set L \<longleftrightarrow> (\<exists>n. ih_nodes ih x = Some n \<and> le_prev n \<noteq> None)" using h t(1) by (auto simp: hashed_def)
  have bp: "bucket ih p = ?b" using p(1) by (simp add: bucket_def)
  let ?F = "filter (\<lambda>p. bucket ih p = ?b) L"
  have "p \<in> set ?F" using True bp by simp
  then obtain xs ys where F: "?F = xs @ p # ys" by (meson split_list)
  have dF: "distinct (xs @ p # ys)" using d F by (metis distinct_filter)
  obtain s0 where s0: "lseg (ih_nodes ih) (t ! ?b) (Head ?b) (xs @ p # ys) None s0" using ch t(3) F unfolding chain_def by metis
  then obtain s where s: "lseg (ih_nodes ih) (t ! ?b) (Head ?b) xs (Some p) s" "le_prev n = Some s"
    "lseg (ih_nodes ih) (le_next n) (Next p) ys None s0" using p by (auto simp: lseg_append)
  have nx: "le_next n = (if ys = [] then None else Some (hd ys))" using s(3) by (cases ys) auto
  have node: "\<exists>mx. ih_nodes ih x = Some mx" if "x \<in> set (xs @ ys)" for x
  proof -
    have "x \<in> set ?F" using F that by auto
    then have "x \<in> set L" by simp
    then show ?thesis using mem by blast
  qed
  define h1 where "h1 = (if ys = [] then ih_nodes ih else (ih_nodes ih)(hd ys \<mapsto> (the (ih_nodes ih (hd ys)))\<lparr>le_prev := Some s\<rparr>))"
  define h2 where "h2 = (if xs = [] then h1 else h1(last xs \<mapsto> (the (ih_nodes ih (last xs)))\<lparr>le_next := le_next n\<rparr>))"
  define h' where "h' = h2(p \<mapsto> n\<lparr>le_prev := None, le_next := None\<rparr>)"
  define t' where "t' = (if xs = [] then t[?b := le_next n] else t)"
  let ?ih = "ih\<lparr>ih_tbl := Some t', ih_nodes := h'\<rparr>"
  have ends: "xs \<noteq> [] \<Longrightarrow> last xs \<noteq> p \<and> (ys \<noteq> [] \<longrightarrow> last xs \<noteq> hd ys)" "ys \<noteq> [] \<Longrightarrow> hd ys \<noteq> p"
    using dF by (cases xs rule: rev_cases; cases ys; auto)+
  have rp: "h' p = Some (n\<lparr>le_prev := None, le_next := None\<rparr>)" by (simp add: h'_def)
  have fr: "h' x = ih_nodes ih x" if "x \<noteq> p" "xs \<noteq> [] \<longrightarrow> x \<noteq> last xs" "ys \<noteq> [] \<longrightarrow> x \<noteq> hd ys" for x
    using that by (simp add: h'_def h2_def h1_def)
  have at_q: "ys \<noteq> [] \<Longrightarrow> ih_nodes ih (hd ys) = Some mq \<Longrightarrow> h' (hd ys) = Some (mq\<lparr>le_prev := Some s\<rparr>)" for mq
    using ends by (auto simp: h'_def h2_def h1_def)
  have at_r: "xs \<noteq> [] \<Longrightarrow> ih_nodes ih (last xs) = Some mr \<Longrightarrow> h' (last xs) = Some (mr\<lparr>le_next := le_next n\<rparr>)" for mr
    using ends by (auto simp: h'_def h2_def h1_def)
  have sl: "if xs = [] then t ! ?b = Some p \<and> s = Head ?b else s = Next (last xs)"
  proof (cases xs rule: rev_cases)
    case (snoc zs r)
    then show ?thesis using s(1) by (auto simp: lseg_append)
  qed (use s(1) in simp)
  have new: "chain h' (t' ! ?b) ?b (xs @ ys)"
  proof -
    have "\<exists>s1. lseg h' (le_next n) s ys None s1"
    proof (rule lseg_restore [OF s(3)])
      show "distinct ys" using dF by simp
      show "h' x = Some (mq\<lparr>le_prev := Some s\<rparr>)" if "ys \<noteq> []" "x = hd ys" "ih_nodes ih x = Some mq" for x mq using at_q that by simp
      show "h' x = ih_nodes ih x" if "x \<in> set (tl ys)" for x
        using fr [of x] dF that by (cases ys; cases xs rule: rev_cases) auto
    qed
    moreover have "lseg h' (t' ! ?b) (Head ?b) xs (le_next n) s"
    proof (cases xs rule: rev_cases)
      case Nil
      then show ?thesis using sl t(3) by (simp add: t'_def)
    next
      case (snoc zs r)
      have "lseg h' (t ! ?b) (Head ?b) (zs @ [r]) (le_next n) (Next r) \<and> s = Next r"
      proof (rule lseg_redirect [OF s(1) [unfolded snoc]])
        show "h' r = Some (mr\<lparr>le_next := le_next n\<rparr>)" if "ih_nodes ih r = Some mr" for mr using at_r snoc that by simp
        show "h' x = ih_nodes ih x" if "x \<in> set zs" for x using fr [of x] dF that snoc by (cases ys) auto
      qed
      then show ?thesis using snoc by (simp add: t'_def)
    qed
    ultimately show ?thesis unfolding chain_def using lseg_append by blast
  qed
  have run: "ext2_ihashrem p ih = Ret ?ih"
  proof -
    let ?i1 = "ih\<lparr>ih_mtx := Some True, ih_nodes := h1\<rparr>"
    have 1: "(case le_next n of None \<Rightarrow> Ret (ih\<lparr>ih_mtx := Some True\<rparr>)
        | Some q \<Rightarrow> bnd (node_at (ih\<lparr>ih_mtx := Some True\<rparr>) q) (\<lambda>m. Ret (put_node (ih\<lparr>ih_mtx := Some True\<rparr>) q (m\<lparr>le_prev := le_prev n\<rparr>)))) = Ret ?i1"
      using nx node [of "hd ys"] s(2) by (auto simp: h1_def node_at_def put_node_def)
    have h1p: "h1 p = Some n" using p ends by (auto simp: h1_def)
    have h1r: "xs \<noteq> [] \<Longrightarrow> h1 (last xs) = ih_nodes ih (last xs)" using ends by (auto simp: h1_def)
    let ?i2 = "ih\<lparr>ih_mtx := Some True, ih_tbl := Some t', ih_nodes := h2\<rparr>"
    have 2: "set_slot ?i1 s (le_next n) = Ret ?i2"
      using sl t(1,3) h1r node [of "last xs"] by (auto simp: set_slot_def node_at_def put_node_def t'_def h2_def split: if_splits)
    have h2p: "h2 p = Some n" using h1p ends by (auto simp: h2_def)
    have "LIST_REMOVE p (ih\<lparr>ih_mtx := Some True\<rparr>) = Ret ?i2"
      unfolding LIST_REMOVE_def using 1 2 p h1p s(2) by (simp add: node_at_def del: bnd_Ret_iff)
    then show ?thesis unfolding ext2_ihashrem_def using t(1) m p s(2) h2p
      by (simp add: ihash_lock_def ihash_unlock_def node_at_def put_node_def h'_def del: bnd_Ret_iff)
  qed
  have same: "same_nodes ih ?ih"
  proof -
    have "rel_option same_node (ih_nodes ih x) (h' x)" for x
    proof -
      consider "x = p" | "x \<noteq> p" "ys \<noteq> []" "x = hd ys" | "x \<noteq> p" "xs \<noteq> []" "x = last xs"
        | "x \<noteq> p" "xs \<noteq> [] \<longrightarrow> x \<noteq> last xs" "ys \<noteq> [] \<longrightarrow> x \<noteq> hd ys" by blast
      then show ?thesis
      proof cases
        case 1
        then show ?thesis using rp p by (simp add: same_node_def)
      next
        case 2
        then show ?thesis using node [of x] at_q by (auto simp: same_node_def)
      next
        case 3
        then show ?thesis using node [of x] at_r by (auto simp: same_node_def)
      next
        case 4
        then show ?thesis using fr [of x] by (cases "ih_nodes ih x") (simp_all add: same_node_def)
      qed
    qed
    then show ?thesis by (simp add: same_nodes_def)
  qed
  let ?L = "filter (\<lambda>x. x \<noteq> p) L"
  have sub: "set xs \<subseteq> set ?F" "set ys \<subseteq> set ?F" using F by auto
  have here: "filter (\<lambda>x. bucket ih x = ?b) ?L = xs @ ys"
  proof -
    have "filter (\<lambda>x. bucket ih x = ?b) ?L = filter (\<lambda>x. x \<noteq> p) ?F" by (simp add: conj_commute)
    also have "\<dots> = xs @ ys"
    proof -
      have "filter (\<lambda>x. x \<noteq> p) xs = xs" "filter (\<lambda>x. x \<noteq> p) ys = ys" using dF by (auto intro!: filter_True)
      then show ?thesis unfolding F by simp
    qed
    finally show ?thesis .
  qed
  have other: "chain h' (t' ! b) b (filter (\<lambda>x. bucket ih x = b) ?L)" if b: "b < length t" "b \<noteq> ?b" for b
  proof -
    have e: "filter (\<lambda>x. bucket ih x = b) ?L = filter (\<lambda>x. bucket ih x = b) L"
      using b(2) bp by (auto intro!: filter_cong)
    have "chain (ih_nodes ih) (t ! b) b (filter (\<lambda>x. bucket ih x = b) L) = chain h' (t ! b) b (filter (\<lambda>x. bucket ih x = b) L)"
    proof (rule chain_cong)
      fix x assume "x \<in> set (filter (\<lambda>x. bucket ih x = b) L)"
      then have "x \<notin> set ?F" using b(2) by simp
      then have "x \<notin> set xs" "x \<noteq> p" "x \<notin> set ys" using F by auto
      then show "ih_nodes ih x = h' x" using fr [of x] by (metis last_in_set list.set_sel(1))
    qed
    then show ?thesis unfolding e using ch b by (simp add: t'_def)
  qed
  have mem': "x \<in> set ?L \<longleftrightarrow> (\<exists>n. h' x = Some n \<and> le_prev n \<noteq> None)" for x
  proof -
    consider "x = p" | "x \<noteq> p" "ys \<noteq> []" "x = hd ys" | "x \<noteq> p" "xs \<noteq> []" "x = last xs"
      | "x \<noteq> p" "xs \<noteq> [] \<longrightarrow> x \<noteq> last xs" "ys \<noteq> [] \<longrightarrow> x \<noteq> hd ys" by blast
    then show ?thesis
    proof cases
      case 1
      then show ?thesis using rp by simp
    next
      case 2
      then have "x \<in> set ys" by simp
      then have "x \<in> set L" using sub(2) by auto
      then show ?thesis using 2 node [of x] at_q by auto
    next
      case 3
      then have "x \<in> set xs" by simp
      then have xl: "x \<in> set L" using sub(1) by auto
      then obtain mx where "ih_nodes ih x = Some mx" "le_prev mx \<noteq> None" using mem by blast
      then show ?thesis using 3 xl at_r by auto
    next
      case 4
      then show ?thesis using fr [of x] mem by auto
    qed
  qed
  have "hashed ?ih ?L"
    unfolding hashed_def
  proof (intro conjI exI allI impI)
    show "ih_mtx ?ih = Some False" using m by simp
    show "distinct ?L" using d by simp
    show "ih_tbl ?ih = Some t'" by simp
    show "length t' = unat (ih_mask ?ih) + 1" using t(2) by (simp add: t'_def)
    show "x \<in> set ?L \<longleftrightarrow> (\<exists>n. ih_nodes ?ih x = Some n \<and> le_prev n \<noteq> None)" for x using mem' [of x] by simp
    fix b assume b: "b < length t'"
    show "chain (ih_nodes ?ih) (t' ! b) b (filter (\<lambda>p. bucket ?ih p = b) ?L)"
      unfolding same_nodes_bucket [OF same] using new here other b by (cases "b = ?b") (simp_all add: t'_def split: if_splits)
  qed
  then show ?thesis using run same by blast
qed


section \<open>The lookup searches the list\<close>

text \<open>The most recently hashed inode with the number and the mount that has a vnode.\<close>

definition cached :: "ihash \<Rightarrow> u64 \<Rightarrow> u32 \<Rightarrow> ptr list \<Rightarrow> ptr option" where
  "cached ih ump ino L = List.find (\<lambda>p. case ih_nodes ih p of None \<Rightarrow> False | Some n \<Rightarrow> hit ump ino n) L"

lemma chain_walk_find:
  "lseg (ih_nodes ih) q s ps None s' \<Longrightarrow> chain_walk ih ump ino q = Some (Ret (cached ih ump ino ps))"
proof (induction ps arbitrary: q s)
  case Nil
  then show ?case by (subst chain_walk.simps) (simp add: cached_def)
next
  case (Cons p ps)
  then obtain n where n: "q = Some p" "ih_nodes ih p = Some n" "lseg (ih_nodes ih) (le_next n) (Next p) ps None s'" by auto
  from Cons.IH [OF n(3)] n(1,2) show ?case by (subst chain_walk.simps) (simp add: node_at_def cached_def)
qed

lemma find_filter: "(\<And>x. x \<in> set xs \<Longrightarrow> P x \<Longrightarrow> Q x) \<Longrightarrow> List.find P (filter Q xs) = List.find P xs"
  by (induction xs) auto

lemma ihash_pass_cached:
  assumes h: "hashed ih L" shows "ihash_pass ih ump ino = Some (Ret (cached ih ump ino L))"
proof -
  let ?b = "EXT2_IHASH (ih_mask ih) ump ino"
  obtain t where t: "ih_tbl ih = Some t" "?b < length t" "head_at ih ?b = Ret (t ! ?b)" by (rule hashed_head [OF h])
  have m: "ih_mtx ih = Some False" and ch: "chain (ih_nodes ih) (t ! ?b) ?b (filter (\<lambda>p. bucket ih p = ?b) L)"
    using h t(1,2) by (auto simp: hashed_def)
  let ?ih = "ih\<lparr>ih_mtx := Some True\<rparr>"
  have hd: "head_at ?ih ?b = Ret (t ! ?b)" using t(1,2) by (simp add: head_at_def)
  have "chain (ih_nodes ?ih) (t ! ?b) ?b (filter (\<lambda>p. bucket ih p = ?b) L)" using ch by simp
  then have w: "chain_walk ?ih ump ino (t ! ?b) = Some (Ret (cached ?ih ump ino (filter (\<lambda>p. bucket ih p = ?b) L)))"
    using chain_walk_find unfolding chain_def by blast
  have c: "cached ?ih ump ino X = cached ih ump ino X" for X by (simp add: cached_def)
  have "cached ?ih ump ino (filter (\<lambda>p. bucket ih p = ?b) L) = cached ih ump ino L"
    unfolding c unfolding cached_def by (rule find_filter) (auto simp: bucket_def hit_def split: option.splits)
  then show ?thesis unfolding ihash_pass_def using m hd w by (simp add: ihash_lock_def ihash_unlock_def)
qed

lemma cached_node: "cached ih ump ino L = Some p \<Longrightarrow> \<exists>n. ih_nodes ih p = Some n \<and> hit ump ino n \<and> p \<in> set L"
  unfolding cached_def by (auto simp: find_Some_iff in_set_conv_nth split: option.splits)

text \<open>The \<open>n\<close>th pass settles the lookup when nothing is found or the reference is taken.\<close>

definition settles :: "(nat \<Rightarrow> ihash) \<Rightarrow> (nat \<Rightarrow> ptr \<Rightarrow> u32 \<Rightarrow> errno) \<Rightarrow> u64 \<Rightarrow> u32 \<Rightarrow> (nat \<Rightarrow> ptr list) \<Rightarrow> nat \<Rightarrow> bool" where
  "settles views getwithvid ump ino Ls n \<longleftrightarrow>
     (case cached (views n) ump ino (Ls n) of
        None \<Rightarrow> True
      | Some p \<Rightarrow> (\<exists>m. ih_nodes (views n) p = Some m \<and> getwithvid n (the (hn_vnode m)) (i_vid (hn_ip m)) = 0))"

lemma ihashget_from:
  assumes h: "\<And>n. hashed (views n) (Ls n)" and s: "settles views getwithvid ump ino Ls k"
  shows "n \<le> k \<Longrightarrow> (\<And>j. n \<le> j \<Longrightarrow> j < k \<Longrightarrow> \<not> settles views getwithvid ump ino Ls j) \<Longrightarrow>
    ihashget_loop views getwithvid ump ino n = Some (Ret (0, cached (views k) ump ino (Ls k)))"
proof (induction "k - n" arbitrary: n)
  case 0
  then have "n = k" by simp
  then show ?case using s ihash_pass_cached [OF h, of k ump ino]
    by (subst ihashget_loop.simps) (auto simp: settles_def node_at_def split: option.splits)
next
  case (Suc x)
  then have n: "\<not> settles views getwithvid ump ino Ls n" by simp
  then obtain p where p: "cached (views n) ump ino (Ls n) = Some p" by (auto simp: settles_def split: option.splits)
  then obtain m where m: "ih_nodes (views n) p = Some m" using cached_node by blast
  then have g: "getwithvid n (the (hn_vnode m)) (i_vid (hn_ip m)) \<noteq> 0" using n p by (simp add: settles_def)
  have "ihashget_loop views getwithvid ump ino (Suc n) = Some (Ret (0, cached (views k) ump ino (Ls k)))"
    using Suc by (intro Suc.hyps(1)) auto
  then show ?case using ihash_pass_cached [OF h, of n ump ino] p m g
    by (subst ihashget_loop.simps) (simp add: node_at_def)
qed

section \<open>The size of the table\<close>

lemma uint_pow64: "k \<le> 63 \<Longrightarrow> uint (2 ^ k :: u64) = 2 ^ k"
proof -
  assume "k \<le> 63"
  then have le: "(2 :: int) ^ k \<le> 2 ^ 63" by (intro power_increasing) simp_all
  have "0 \<le> x \<Longrightarrow> x \<le> 2 ^ 63 \<Longrightarrow> uint (word_of_int x :: u64) = x" for x by (simp add: unsigned_of_int take_bit_int_eq_self)
  from this [OF _ le] show ?thesis by simp
qed

lemma size_loop_from:
  assumes "nelem < 2 ^ 63"
  shows "k \<le> 63 \<Longrightarrow> (k = 0 \<or> (2 :: u64) ^ (k - 1) \<le> nelem) \<Longrightarrow> 1 \<le> nelem \<Longrightarrow>
    \<exists>j \<ge> 1. j \<le> 63 \<and> size_loop nelem (2 ^ k) = Some (2 ^ j) \<and> 2 ^ (j - 1) \<le> nelem \<and> nelem < 2 ^ j"
proof (induction "63 - k" arbitrary: k)
  case 0
  then have k: "k = 63" by simp
  then show ?case using 0 assms by (subst size_loop.simps) (auto simp: not_le [symmetric])
next
  case (Suc x)
  then have k: "k < 63" by simp
  show ?case
  proof (cases "2 ^ k \<le> nelem")
    case True
    have "push_bit 1 (2 ^ k) = (2 ^ Suc k :: u64)" by (simp add: push_bit_eq_mult mult.commute)
    then have "size_loop nelem (2 ^ k) = size_loop nelem (2 ^ Suc k)" using True by (subst size_loop.simps) (simp only: if_True)
    then show ?thesis using Suc.hyps(1) [of "Suc k"] Suc.hyps(2) k True Suc.prems(3) by simp
  next
    case False
    then have "size_loop nelem (2 ^ k) = Some (2 ^ k)" by (subst size_loop.simps) simp
    moreover have "k \<noteq> 0" using False Suc.prems(3) by (metis power_0)
    ultimately show ?thesis using False Suc.prems(2) k by (intro exI [of _ k]) (simp add: not_le)
  qed
qed

text \<open>From \<open>2 ^ 63\<close> on the size overflows to zero and the loop does not end.\<close>

lemma size_loop_hangs:
  assumes "2 ^ 63 \<le> nelem" shows "size_loop nelem 1 = None"
proof -
  have pw: "x \<le> 2 ^ 63" "push_bit 1 x = 0 \<or> push_bit 1 x \<in> (^) 2 ` {..63}" if x: "x = 0 \<or> x \<in> (^) 2 ` {..63}" for x :: u64
  proof -
    show "x \<le> 2 ^ 63"
    proof (cases "x = 0")
      case False
      then obtain k where k: "k \<le> 63" "x = 2 ^ k" using x by (auto simp: image_iff)
      have le: "(2 :: int) ^ k \<le> 2 ^ 63" using k(1) by (intro power_increasing) simp_all
      then show ?thesis using k(2) uint_pow64 [OF k(1)] by (simp add: word_le_def)
    qed simp
    show "push_bit 1 x = 0 \<or> push_bit 1 x \<in> (^) 2 ` {..63}"
    proof (cases "x = 0")
      case False
      then obtain k where k: "k \<le> 63" "x = 2 ^ k" using x by (auto simp: image_iff)
      then have e: "push_bit 1 x = 2 ^ Suc k" by (simp add: push_bit_eq_mult mult.commute)
      show ?thesis
      proof (cases "k = 63")
        case False
        then have "Suc k \<le> 63" using k(1) by simp
        then show ?thesis unfolding e by blast
      qed (use e in simp)
    qed simp
  qed
  have "size_loop n h = Some r \<longrightarrow> 2 ^ 63 \<le> n \<longrightarrow> (h = 0 \<or> h \<in> (^) 2 ` {..63}) \<longrightarrow> False" for n h r
  proof (rule impI, erule size_loop.raw_induct [rotated], intro impI)
    fix f :: "u64 \<Rightarrow> u64 \<Rightarrow> u64 option" and n h r :: u64
    assume IH: "\<And>n h r. f n h = Some r \<Longrightarrow> 2 ^ 63 \<le> n \<longrightarrow> (h = 0 \<or> h \<in> (^) 2 ` {..63}) \<longrightarrow> False"
      and e: "(if h \<le> n then f n (push_bit 1 h) else Some h) = Some r" and n: "2 ^ 63 \<le> n" and h: "h = 0 \<or> h \<in> (^) 2 ` {..63}"
    have "h \<le> n" using pw(1) [OF h] n by (rule order_trans)
    then have "f n (push_bit 1 h) = Some r" using e by (simp only: if_True)
    from IH [OF this] n pw(2) [OF h] show False by blast
  qed
  moreover have "(1 :: u64) \<in> (^) 2 ` {..63}" by (intro image_eqI [of _ _ 0]) simp_all
  ultimately show ?thesis using assms by (cases "size_loop nelem 1") blast+
qed


lemma ihashinit_size:
  fixes dv :: u32 assumes n: "nelem = (if (scast dv :: u64) < 64 then 64 else scast dv)" and s: "0 \<le> sint dv"
  shows "\<exists>j \<le> 62. size_loop nelem 1 = Some (2 ^ Suc j) \<and> 2 ^ j \<le> nelem \<and> nelem < 2 ^ Suc j"
proof -
  have "sint dv < 2 ^ 31" using sint_range_size [of dv] by (simp add: word_size)
  moreover have "0 \<le> x \<Longrightarrow> x < 2 ^ 31 \<Longrightarrow> uint (word_of_int x :: u64) < 2 ^ 31" for x by (simp add: unsigned_of_int take_bit_int_eq_self)
  ultimately have "uint (scast dv :: u64) < 2 ^ 31" using s unfolding scast_eq by blast
  then have b: "(scast dv :: u64) < 2 ^ 63" by (simp add: word_less_def)
  have lt: "nelem < 2 ^ 63" "1 \<le> nelem"
  proof -
    show "nelem < 2 ^ 63" unfolding n using b by simp
    have "64 \<le> nelem" unfolding n by (simp add: not_less)
    then show "1 \<le> nelem" by (rule order_trans [rotated]) simp
  qed
  from size_loop_from [OF lt(1), of 0] lt(2) obtain j where
    "1 \<le> j" "j \<le> 63" "size_loop nelem 1 = Some (2 ^ j)" "2 ^ (j - 1) \<le> nelem" "nelem < 2 ^ j" by auto
  then show ?thesis by (intro exI [of _ "j - 1"]) simp
qed

lemma drop_half: "j \<le> 62 \<Longrightarrow> drop_bit 1 (2 ^ Suc j :: u64) = 2 ^ j"
proof -
  assume j: "j \<le> 62"
  then have "uint (2 ^ Suc j :: u64) = 2 ^ Suc j" "uint (2 ^ j :: u64) = 2 ^ j" by (intro uint_pow64; simp)+
  moreover have "uint (drop_bit 1 w) = uint w div 2" for w :: u64
    using uint_bounded [of w] unfolding unsigned_drop_bit_eq by (simp add: drop_bit_eq_div take_bit_int_eq_self)
  ultimately have "uint (drop_bit 1 (2 ^ Suc j :: u64)) = uint (2 ^ j :: u64)" by (simp only: power_Suc)
  then show ?thesis by (rule word_uint_eqI)
qed


text \<open>A fresh table represents the empty list.\<close>

lemma ihashinit_empty:
  assumes "ih_tbl ih = None" "\<And>p n. ih_nodes ih p = Some n \<Longrightarrow> le_prev n = None" "0 \<le> sint dv"
  shows "\<exists>ih'. ext2_ihashinit dv True True ih = Some (0, ih') \<and> hashed ih' [] \<and>
    (\<exists>j. unat (ih_mask ih') = 2 ^ j - 1 \<and> int (2 ^ j) \<le> max 64 (sint dv) \<and> max 64 (sint dv) < 2 * int (2 ^ j))"
proof -
  define nelem :: u64 where "nelem = (if (scast dv :: u64) < 64 then 64 else scast dv)"
  obtain j where j: "j \<le> 62" "size_loop nelem 1 = Some (2 ^ Suc j)" "2 ^ j \<le> nelem" "nelem < 2 ^ Suc j"
    using ihashinit_size [OF nelem_def assms(3)] by blast
  let ?ih = "ih\<lparr>ih_tbl := Some (replicate (unat (2 ^ j :: u64)) None), ih_mtx := Some False, ih_mask := 2 ^ j - 1\<rparr>"
  have run: "ext2_ihashinit dv True True ih = Some (0, ?ih)"
    unfolding ext2_ihashinit_def Let_def nelem_def [symmetric] using assms(1) j(2) drop_half [OF j(1)] by simp
  have uj: "uint (2 ^ j :: u64) = 2 ^ j" "uint (2 ^ Suc j :: u64) = 2 ^ Suc j" using j(1) by (intro uint_pow64; simp)+
  then have nj: "unat (2 ^ j :: u64) = 2 ^ j" by (simp add: unat_eq_nat_uint nat_power_eq)
  have "(2 ^ j :: u64) \<noteq> 0"
  proof
    assume "(2 ^ j :: u64) = 0"
    then show False using uj(1) by (simp del: exp_eq_zero_iff)
  qed
  then have m: "unat (2 ^ j - 1 :: u64) = 2 ^ j - 1" using unat_minus_one [of "2 ^ j :: u64"] nj by simp
  have h: "hashed ?ih []" using assms(2) m nj by (force simp: hashed_def chain_def)
  have r: "sint dv < 2 ^ 31" using sint_range_size [of dv] by (simp add: word_size)
  have "0 \<le> x \<Longrightarrow> x < 2 ^ 31 \<Longrightarrow> uint (word_of_int x :: u64) = x" for x by (simp add: unsigned_of_int take_bit_int_eq_self)
  from this [OF assms(3) r] have sc: "uint (scast dv :: u64) = sint dv" unfolding scast_eq .
  have "uint nelem = max 64 (sint dv)" unfolding nelem_def using sc by (auto simp: word_less_def max_def)
  then have "int (2 ^ j) \<le> max 64 (sint dv) \<and> max 64 (sint dv) < 2 * int (2 ^ j)"
    using j(3,4) uj by (simp add: word_le_def word_less_def)
  then show ?thesis using run h m by (intro exI [of _ ?ih]) auto
qed

section \<open>The interface for the callers\<close>

text \<open>
  What \<^verbatim>\<open>ext2_vget_typed\<close> and \<^verbatim>\<open>ext2_reclaim\<close> need of the table: it represents a list of inodes, insertion puts an inode in front,
  removal takes one out, and the inodes themselves do not change.
\<close>

text \<open>No two of the inodes have the same number on the same mount.\<close>

definition same_key :: "hnode \<Rightarrow> hnode \<Rightarrow> bool" where
  "same_key m n \<longleftrightarrow> i_number (hn_ip m) = i_number (hn_ip n) \<and> hn_ump m = hn_ump n"

definition unique_keys :: "(ptr \<Rightarrow> hnode option) \<Rightarrow> ptr list \<Rightarrow> bool" where
  "unique_keys nodes L \<longleftrightarrow> (\<forall>p \<in> set L. \<forall>q \<in> set L. \<forall>m n. nodes p = Some m \<longrightarrow> nodes q = Some n \<longrightarrow> same_key m n \<longrightarrow> p = q)"

locale inode_table =
  fixes reps :: "'s \<Rightarrow> ptr list \<Rightarrow> bool" and nodes :: "'s \<Rightarrow> ptr \<Rightarrow> hnode option" and ins :: "ptr \<Rightarrow> 's \<Rightarrow> 's outcome" and rem :: "ptr \<Rightarrow> 's \<Rightarrow> 's outcome"
  assumes ins_front: "reps s L \<Longrightarrow> nodes s p = Some n \<Longrightarrow> p \<notin> set L \<Longrightarrow>
      \<exists>s'. ins p s = Ret s' \<and> reps s' (p # L) \<and> (\<forall>q. rel_option same_node (nodes s q) (nodes s' q))"
    and rem_out: "reps s L \<Longrightarrow> nodes s p = Some n \<Longrightarrow>
      \<exists>s'. rem p s = Ret s' \<and> reps s' (filter (\<lambda>x. x \<noteq> p) L) \<and> (\<forall>q. rel_option same_node (nodes s q) (nodes s' q))"
begin

lemma same_nodes_unique:
  assumes "\<forall>q. rel_option same_node (nodes s q) (nodes s' q)" "unique_keys (nodes s) L" shows "unique_keys (nodes s') L"
proof -
  have "\<exists>m'. nodes s p = Some m' \<and> same_node m' m" if "nodes s' p = Some m" for p m
  proof -
    have "rel_option same_node (nodes s p) (Some m)" using assms(1) that by metis
    then show ?thesis by (cases "nodes s p") simp_all
  qed
  then show ?thesis using assms(2) unfolding unique_keys_def same_key_def same_node_def by metis
qed

lemma ins_unique:
  assumes r: "reps s L" and u: "unique_keys (nodes s) L" and p: "nodes s p = Some n" "p \<notin> set L"
    and free: "\<And>q m. q \<in> set L \<Longrightarrow> nodes s q = Some m \<Longrightarrow> \<not> same_key m n"
  shows "\<exists>s'. ins p s = Ret s' \<and> reps s' (p # L) \<and> unique_keys (nodes s') (p # L) \<and> (\<forall>q. rel_option same_node (nodes s q) (nodes s' q))"
proof -
  obtain s' where s': "ins p s = Ret s'" "reps s' (p # L)" "\<forall>q. rel_option same_node (nodes s q) (nodes s' q)" using ins_front [OF r p] by blast
  have "same_key x y \<longleftrightarrow> same_key y x" for x y by (auto simp: same_key_def)
  then have "unique_keys (nodes s) (p # L)" using u p free unfolding unique_keys_def by (metis option.inject set_ConsD)
  then show ?thesis using s' same_nodes_unique by blast
qed

lemma rem_unique:
  assumes r: "reps s L" and u: "unique_keys (nodes s) L" and p: "nodes s p = Some n"
  shows "\<exists>s'. rem p s = Ret s' \<and> reps s' (filter (\<lambda>x. x \<noteq> p) L) \<and> unique_keys (nodes s') (filter (\<lambda>x. x \<noteq> p) L) \<and>
    (\<forall>q. rel_option same_node (nodes s q) (nodes s' q))"
proof -
  have "unique_keys (nodes s) (filter (\<lambda>x. x \<noteq> p) L)" using u by (auto simp: unique_keys_def)
  then show ?thesis using rem_out [OF r p] same_nodes_unique by blast
qed

end

interpretation itab: inode_table hashed ih_nodes ext2_ihashins ext2_ihashrem
proof unfold_locales
  fix ih L p n
  assume h: "hashed ih L" and p: "ih_nodes ih p = Some n"
  show "p \<notin> set L \<Longrightarrow> \<exists>ih'. ext2_ihashins p ih = Ret ih' \<and> hashed ih' (p # L) \<and> (\<forall>q. rel_option same_node (ih_nodes ih q) (ih_nodes ih' q))"
    using ihashins_front [OF h p] by (auto simp: same_nodes_def)
  show "\<exists>ih'. ext2_ihashrem p ih = Ret ih' \<and> hashed ih' (filter (\<lambda>x. x \<noteq> p) L) \<and> (\<forall>q. rel_option same_node (ih_nodes ih q) (ih_nodes ih' q))"
    using ihashrem_out [OF h p] by (auto simp: same_nodes_def)
qed

section \<open>All states of the table\<close>

text \<open>
  The table after its initialisation and any sequence of allocations, insertions, removals and releases of inodes that are not hashed,
  with the hashed inodes, the most recent one first.
\<close>

inductive table_reach :: "ihash \<Rightarrow> ptr list \<Rightarrow> bool" where
  init: "ih_tbl ih0 = None \<Longrightarrow> ih_nodes ih0 = (\<lambda>p. None) \<Longrightarrow> 0 \<le> sint dv \<Longrightarrow> ext2_ihashinit dv True True ih0 = Some (0, ih) \<Longrightarrow> table_reach ih []"
| alloc: "table_reach ih L \<Longrightarrow> ih_nodes ih p = None \<Longrightarrow> le_prev n = None \<Longrightarrow> table_reach (put_node ih p n) L"
| ins: "table_reach ih L \<Longrightarrow> p \<notin> set L \<Longrightarrow> ext2_ihashins p ih = Ret ih' \<Longrightarrow> table_reach ih' (p # L)"
| rem: "table_reach ih L \<Longrightarrow> ext2_ihashrem p ih = Ret ih' \<Longrightarrow> table_reach ih' (filter (\<lambda>x. x \<noteq> p) L)"
| free: "table_reach ih L \<Longrightarrow> p \<notin> set L \<Longrightarrow> table_reach (ih\<lparr>ih_nodes := (ih_nodes ih)(p := None)\<rparr>) L"

lemma hashed_change:
  assumes h: "hashed ih L" and p: "p \<notin> set L" and x: "\<And>n. x = Some n \<Longrightarrow> le_prev n = None"
  shows "hashed (ih\<lparr>ih_nodes := (ih_nodes ih)(p := x)\<rparr>) L"
proof -
  let ?ih = "ih\<lparr>ih_nodes := (ih_nodes ih)(p := x)\<rparr>"
  have b: "q \<in> set L \<Longrightarrow> bucket ?ih q = bucket ih q" for q using p by (auto simp: bucket_def split: option.split)
  have "chain ((ih_nodes ih)(p := x)) r b (filter (\<lambda>q. bucket ?ih q = b) L) = chain (ih_nodes ih) r b (filter (\<lambda>q. bucket ih q = b) L)" for r b
  proof -
    have "filter (\<lambda>q. bucket ?ih q = b) L = filter (\<lambda>q. bucket ih q = b) L" using b by (intro filter_cong) simp_all
    then show ?thesis using p by (auto intro!: chain_cong)
  qed
  then show ?thesis using h p x unfolding hashed_def by auto
qed

lemma table_reach_hashed: "table_reach ih L \<Longrightarrow> hashed ih L"
proof (induction rule: table_reach.induct)
  case (init ih0 dv ih)
  then show ?case using ihashinit_empty [of ih0 dv] by auto
next
  case (alloc ih L p n)
  then have "p \<notin> set L" by (auto simp: hashed_def)
  then show ?case using hashed_change [OF alloc.IH, of p "Some n"] alloc by (simp add: put_node_def)
next
  case (ins ih L p ih')
  then obtain n where "ih_nodes ih p = Some n"
    by (cases "ih_nodes ih p") (auto simp: ext2_ihashins_def node_at_def ihash_lock_def split: option.splits if_splits)
  from ihashins_front [OF ins.IH this ins.hyps(2)] ins.hyps(3) show ?case by auto
next
  case (rem ih L p ih')
  then obtain n where "ih_nodes ih p = Some n"
    by (cases "ih_nodes ih p") (auto simp: ext2_ihashrem_def node_at_def ihash_lock_def hashed_def split: option.splits if_splits)
  from ihashrem_out [OF rem.IH this] rem.hyps(2) show ?case by auto
next
  case (free ih L p)
  then show ?case using hashed_change [OF free.IH, of p None] by simp
qed

section \<open>The properties\<close>

text \<open>C38. After every sequence of operations the hash table, with its chains linked through pointers in both directions, represents one list of all
  hashed inodes: a pass of the lookup ends and finds what a search of that list finds, inserting an inode that is not hashed puts it in front, and removing an
  inode takes it out of the list, or changes nothing when it is not hashed; none of them faults.\<close>

theorem table_refines_list:
  assumes "table_reach ih L"
  shows "ihash_pass ih ump ino = Some (Ret (cached ih ump ino L)) \<and>
    (ih_nodes ih p = Some n \<longrightarrow> p \<notin> set L \<longrightarrow> (\<exists>ih'. ext2_ihashins p ih = Ret ih' \<and> table_reach ih' (p # L) \<and> same_nodes ih ih')) \<and>
    (ih_nodes ih p = Some n \<longrightarrow> (\<exists>ih'. ext2_ihashrem p ih = Ret ih' \<and> table_reach ih' (filter (\<lambda>x. x \<noteq> p) L) \<and> same_nodes ih ih'))"
proof -
  note h = table_reach_hashed [OF assms]
  show ?thesis
  proof (intro conjI impI)
    show "ihash_pass ih ump ino = Some (Ret (cached ih ump ino L))" by (rule ihash_pass_cached [OF h])
    assume p: "ih_nodes ih p = Some n"
    show "\<exists>ih'. ext2_ihashrem p ih = Ret ih' \<and> table_reach ih' (filter (\<lambda>x. x \<noteq> p) L) \<and> same_nodes ih ih'"
      using ihashrem_out [OF h p] table_reach.rem [OF assms] by blast
    assume "p \<notin> set L"
    then show "\<exists>ih'. ext2_ihashins p ih = Ret ih' \<and> table_reach ih' (p # L) \<and> same_nodes ih ih'"
      using ihashins_front [OF h p] table_reach.ins [OF assms] by blast
  qed
qed

definition no_table :: ihash where "no_table = \<lparr>ih_tbl = None, ih_mask = 0, ih_mtx = None, ih_nodes = (\<lambda>p. None)\<rparr>"

lemma fresh_table: "\<exists>ih. table_reach ih [] \<and> ext2_ihashinit 1000 True True no_table = Some (0, ih)"
proof -
  have "ih_tbl no_table = None" "ih_nodes no_table = (\<lambda>p. None)" "0 \<le> sint (1000 :: u32)" by (simp_all add: no_table_def)
  with ihashinit_empty [of no_table 1000] table_reach.init show ?thesis by (metis option.distinct(1))
qed

text \<open>A table that holds inode 12 of the mount at 0x1000, with a vnode.\<close>

lemma filled_table:
  "\<exists>ih n. table_reach ih [16] \<and> ih_nodes ih 16 = Some n \<and> hn_ump n = 0x1000 \<and> i_number (hn_ip n) = 12 \<and> hn_vnode n = Some 32"
proof -
  let ?n = "\<lparr>hn_ip = zero_inode\<lparr>i_number := 12\<rparr>, hn_ump = 0x1000, hn_vnode = Some 32, le_next = None, le_prev = None\<rparr>"
  obtain ih where r: "table_reach ih []" "ext2_ihashinit 1000 True True no_table = Some (0, ih)" using fresh_table by blast
  have "ih_nodes ih = ih_nodes no_table" using r(2) by (auto simp: ext2_ihashinit_def Let_def split: if_split_asm)
  then have t: "table_reach (put_node ih 16 ?n) []" using table_reach.alloc [OF r(1), of 16 ?n] by (simp add: no_table_def)
  have n: "ih_nodes (put_node ih 16 ?n) 16 = Some ?n" by (simp add: put_node_def)
  obtain ih' where i: "ext2_ihashins 16 (put_node ih 16 ?n) = Ret ih'" "same_nodes (put_node ih 16 ?n) ih'"
    using ihashins_front [OF table_reach_hashed [OF t] n] by auto
  have t': "table_reach ih' [16]" by (rule table_reach.ins [OF t _ i(1)]) simp
  have "rel_option same_node (ih_nodes (put_node ih 16 ?n) 16) (ih_nodes ih' 16)" using i(2) by (simp add: same_nodes_def)
  then have "rel_option same_node (Some ?n) (ih_nodes ih' 16)" unfolding n .
  then obtain m where "ih_nodes ih' 16 = Some m" "same_node ?n m" by (auto simp: option_rel_Some1)
  then have "ih_nodes ih' 16 = Some m" "hn_ump m = 0x1000" "hn_ip m = zero_inode\<lparr>i_number := 12\<rparr>" "hn_vnode m = Some 32"
    by (simp_all add: same_node_def)
  with t' show ?thesis by (intro exI [of _ ih'] exI [of _ m]) simp
qed

theorem table_refines_list_witness:
  "\<exists>ih. table_reach ih [16] \<and> ihash_pass ih 0x1000 12 = Some (Ret (Some 16)) \<and> ihash_pass ih 0x1000 13 = Some (Ret None) \<and>
     (\<exists>ih'. ext2_ihashrem 16 ih = Ret ih' \<and> ihash_pass ih' 0x1000 12 = Some (Ret None))"
proof -
  obtain ih n where r: "table_reach ih [16]" and n: "ih_nodes ih 16 = Some n" "hn_ump n = 0x1000" "i_number (hn_ip n) = 12" "hn_vnode n = Some 32"
    using filled_table by blast
  from table_refines_list [OF r, of "0x1000" 12 16 n] n(1) obtain ih' where ih': "ext2_ihashrem 16 ih = Ret ih'" "table_reach ih' []" by auto
  have "ihash_pass ih 0x1000 12 = Some (Ret (Some 16))" using conjunct1 [OF table_refines_list [OF r, of "0x1000" 12]] n
    by (simp add: cached_def hit_def)
  moreover have "ihash_pass ih 0x1000 13 = Some (Ret None)" using conjunct1 [OF table_refines_list [OF r, of "0x1000" 13]] n
    by (simp add: cached_def hit_def)
  moreover have "ihash_pass ih' 0x1000 12 = Some (Ret None)" using conjunct1 [OF table_refines_list [OF ih'(2), of "0x1000" 12]]
    by (simp add: cached_def)
  ultimately show ?thesis using r ih'(1) by blast
qed

text \<open>C39. A lookup ends, although it starts again whenever the vnode it found was recycled: whatever other threads do to the table between the passes,
  it returns with the first pass that finds nothing or gets its reference, without an error, and with what that pass found.\<close>

theorem ihashget_ends:
  assumes "\<And>n. hashed (views n) (Ls n)" "settles views getwithvid ump ino Ls k" "\<And>j. j < k \<Longrightarrow> \<not> settles views getwithvid ump ino Ls j"
  shows "ext2_ihashget views getwithvid ump ino = Some (Ret (0, cached (views k) ump ino (Ls k)))"
proof -
  have "ih_tbl (views 0) \<noteq> None" using assms(1) [of 0] by (auto simp: hashed_def)
  then show ?thesis unfolding ext2_ihashget_def if_not_P [OF \<open>ih_tbl (views 0) \<noteq> None\<close>]
    by (intro ihashget_from [OF assms(1,2)] assms(3)) simp_all
qed

text \<open>A lookup that fails to get its reference in the first two passes, and finds in the third that the inode is gone.\<close>

theorem ihashget_ends_witness:
  "\<exists>full empty. table_reach full [16] \<and> ihash_pass full 0x1000 12 = Some (Ret (Some 16)) \<and>
     ext2_ihashget (\<lambda>n. if n < 2 then full else empty) (\<lambda>n vp vid. 5) 0x1000 12 = Some (Ret (0, None))"
proof -
  obtain e where e: "table_reach e []" using fresh_table by blast
  obtain f n where f: "table_reach f [16]" and n: "ih_nodes f 16 = Some n" "hn_ump n = 0x1000" "i_number (hn_ip n) = 12" "hn_vnode n = Some 32"
    using filled_table by blast
  let ?v = "\<lambda>j :: nat. if j < 2 then f else e" and ?L = "\<lambda>j :: nat. if j < 2 then [16 :: nat] else []"
  have c: "cached f 0x1000 12 [16] = Some 16" "cached e 0x1000 12 [] = None" using n by (simp_all add: cached_def hit_def)
  have h: "hashed (?v j) (?L j)" for j using table_reach_hashed [OF e] table_reach_hashed [OF f] by simp
  have s: "settles ?v (\<lambda>n vp vid. 5) 0x1000 12 ?L 2" using c by (simp add: settles_def)
  have "\<not> settles ?v (\<lambda>n vp vid. 5) 0x1000 12 ?L j" if "j < 2" for j using c n(1) that by (simp add: settles_def)
  then have "ext2_ihashget ?v (\<lambda>n vp vid. 5) 0x1000 12 = Some (Ret (0, None))" using ihashget_ends [OF h s] c by simp
  then show ?thesis using f c(1) ihash_pass_cached [OF table_reach_hashed [OF f], of "0x1000" 12] by metis
qed

text \<open>C40. The loop of \<^verbatim>\<open>ext2_ihashinit\<close> ends for every \<^verbatim>\<open>desiredvnodes\<close> that is not negative, with the largest power of two that is not above it, or above 64
  when it is smaller, as the size of an empty table and one less as its mask; for a negative one the size overflows and the loop never ends.\<close>

theorem ihashinit_sizes_table:
  assumes "ih_tbl ih = None" "ih_nodes ih = (\<lambda>p. None)"
  shows "if 0 \<le> sint dv
    then \<exists>ih' j. ext2_ihashinit dv True True ih = Some (0, ih') \<and> hashed ih' [] \<and> unat (ih_mask ih') = 2 ^ j - 1 \<and>
      int (2 ^ j) \<le> max 64 (sint dv) \<and> max 64 (sint dv) < 2 * int (2 ^ j)
    else ext2_ihashinit dv True True ih = None"
proof (cases "0 \<le> sint dv")
  case True
  then show ?thesis using ihashinit_empty [OF assms(1), of dv] assms(2) by auto
next
  case False
  have s: "- (2 ^ 31) \<le> sint dv" using sint_range_size [of dv] by (simp add: word_size)
  have "uint (scast dv :: u64) = sint dv + 2 ^ 64"
  proof -
    have "- (2 ^ 31) \<le> x \<Longrightarrow> x < 0 \<Longrightarrow> uint (word_of_int x :: u64) = x + 2 ^ 64" for x
    proof -
      assume x: "- (2 ^ 31) \<le> x" "x < 0"
      have "uint (word_of_int x :: u64) = (x + 2 ^ 64) mod 2 ^ 64" by (simp add: uint_word_of_int)
      moreover have "(x + 2 ^ 64) mod 2 ^ 64 = x + 2 ^ 64" using x by (intro mod_pos_pos_trivial) simp_all
      ultimately show ?thesis by simp
    qed
    from this [OF s] False show ?thesis unfolding scast_eq by simp
  qed
  then have n: "2 ^ 63 \<le> (scast dv :: u64)" using s by (simp add: word_le_def)
  have "(64 :: u64) \<le> 2 ^ 63" by simp
  then have "\<not> (scast dv :: u64) < 64" using n by (meson leD order_trans)
  then have "ext2_ihashinit dv True True ih = None" unfolding ext2_ihashinit_def Let_def using assms(1) size_loop_hangs [OF n] by simp
  then show ?thesis using False by simp
qed

theorem ihashinit_sizes_table_witness:
  "ext2_ihashinit (- 1) True True no_table = None \<and> (\<exists>ih j. ext2_ihashinit 1000 True True no_table = Some (0, ih) \<and> unat (ih_mask ih) = 2 ^ j - 1)"
proof -
  have n: "ih_tbl no_table = None" "ih_nodes no_table = (\<lambda>p. None)" by (simp_all add: no_table_def)
  show ?thesis using ihashinit_sizes_table [OF n, of "- 1"] ihashinit_sizes_table [OF n, of 1000] by auto
qed

end
