(* ===== verification/Ext2_Inode.thy ===== *)
theory Ext2_Inode
  imports Ext2_Balloc Ext2_Indir Ext2_InodeCnv Ext2_ExtEdit Ext2_Ialloc Ext2_Ihash
begin

text \<open>
  The rest of \<^verbatim>\<open>kext/ext2_inode.c\<close>: \<^verbatim>\<open>ext2_update\<close> with \<^verbatim>\<open>ext2_itimes\<close> of \<^verbatim>\<open>kext/ext2_vnops.c\<close>, \<^verbatim>\<open>ext2_truncate\<close>,
  \<^verbatim>\<open>ext2_inactive\<close> and \<^verbatim>\<open>ext2_reclaim\<close>.
\<close>

text \<open>
  What the routines learn about the vnode and its mount: whether it is a device or a symbolic link, the mount flags
  \<^verbatim>\<open>MNT_RDONLY\<close> and (in \<open>ie_trunc\<close>) \<^verbatim>\<open>MNT_ASYNC\<close>, the time, which one call reads once, and the error of
  \<^verbatim>\<open>buf_invalidateblks\<close>. \<open>be_sync\<close> of \<open>ie_balloc\<close> is \<^verbatim>\<open>IO_SYNC\<close>.
\<close>

record inode_env =
  ie_trunc :: trunc_env
  ie_balloc :: balloc_env
  ie_special :: bool
  ie_symlink :: bool
  ie_rdonly :: bool
  ie_now :: "u32 \<times> u32"
  ie_inval :: errno

abbreviation doing_async :: "inode_env \<Rightarrow> bool" where
  "doing_async env \<equiv> te_async (ie_trunc env)"

section \<open>\<^verbatim>\<open>ext2_itimes\<close> and \<^verbatim>\<open>ext2_update\<close>\<close>

definition ext2_itimes_locked :: "inode_env \<Rightarrow> inode \<Rightarrow> inode" where
  "ext2_itimes_locked env ip =
     (if i_flag ip AND (IN_ACCESS OR IN_CHANGE OR IN_UPDATE) = 0 then ip
      else
        let ip = ip\<lparr>i_flag := i_flag ip OR (if ie_special env then IN_LAZYMOD else IN_MODIFIED)\<rparr>;
            (sec, nsec) = ie_now env;
            ip = (if ie_rdonly env then ip
                  else
                    let f = i_flag ip;
                        ip = (if f AND IN_ACCESS \<noteq> 0 then ip\<lparr>i_atime := sec, i_atimensec := nsec\<rparr> else ip);
                        ip = (if f AND IN_UPDATE \<noteq> 0 then ip\<lparr>i_mtime := sec, i_mtimensec := nsec, i_modrev := i_modrev ip + 1\<rparr> else ip)
                    in if f AND IN_CHANGE \<noteq> 0 then ip\<lparr>i_ctime := sec, i_ctimensec := nsec\<rparr> else ip)
        in ip\<lparr>i_flag := i_flag ip AND NOT (IN_ACCESS OR IN_CHANGE OR IN_UPDATE)\<rparr>)"

definition ext2_itimes :: "inode_env \<Rightarrow> inode \<Rightarrow> inode" where
  "ext2_itimes env ip = ext2_itimes_locked env ip"

definition ext2_update :: "inode_env \<Rightarrow> bool \<Rightarrow> inode \<Rightarrow> ext2mount \<Rightarrow> (errno \<times> inode \<times> ext2mount) outcome" where
  "ext2_update env waitfor ip ump =
     (let ip = ext2_itimes env ip; fs = um_e2fs ump in
      if i_flag ip AND IN_MODIFIED = 0 \<and> \<not> waitfor then Ret (0, ip, ump)
      else if e2fs_ronly fs \<noteq> 0 then Ret (0, ip, ump)
      else
        let ip = ip\<lparr>i_flag := i_flag ip AND NOT (IN_LAZYACCESS OR IN_LAZYMOD OR IN_MODIFIED)\<rparr> in
        bnd (ino_to_fsba fs (i_number ip)) (\<lambda>b.
        let a = fsbtodb fs (uint b) in
        case buf_meta_bread (um_devvp ump) a of
          Inl error \<Rightarrow> Ret (error, ip, ump)
        | Inr bs \<Rightarrow>
            bnd (ino_to_fsbo fs (i_number ip)) (\<lambda>k.
            let off = uint (e2fs_isize fs * k) in
            bnd (get_dinode (E2DI_HAS_XTIME fs) bs off) (\<lambda>ei.
            bnd (put_dinode (E2DI_HAS_XTIME fs) bs off (ext2_i2ei fs ip ei)) (\<lambda>bs.
            let (error, dev) = (if waitfor \<and> \<not> doing_async env then buf_bwrite (um_devvp ump) a bs
                                else (0, buf_bdwrite (um_devvp ump) a bs))
            in Ret (error, ip, ump\<lparr>um_devvp := dev\<rparr>))))))"

section \<open>Blocks of the file's own vnode\<close>

text \<open>
  The write of the buffer of block \<open>lbn\<close>, which \<^verbatim>\<open>ext2_blktooff\<close> and \<^verbatim>\<open>ext2_blockmap\<close> place on the device. \<open>delayed\<close>:
  \<^verbatim>\<open>buf_bdwrite\<close>; otherwise \<^verbatim>\<open>buf_bwrite\<close> or \<^verbatim>\<open>buf_bawrite\<close>, whose errors the callers here ignore.
\<close>

definition file_bwrite :: "bool \<Rightarrow> inode \<Rightarrow> int \<Rightarrow> bytes \<Rightarrow> ext2mount \<Rightarrow> ext2mount outcome" where
  "file_bwrite delayed ip lbn bs ump =
     (case ext2_blktooff (um_e2fs ump) lbn True of
        Inl e \<Rightarrow> Ret ump
      | Inr off \<Rightarrow>
          bnd (ext2_blockmap ump ip off (blksize (um_e2fs ump)) 0 True) (\<lambda>r.
          case r of
            Inl e \<Rightarrow> Ret ump
          | Inr (a, run) \<Rightarrow>
              if a = - 1 then Ret ump
              else Ret (ump\<lparr>um_devvp := (if delayed then buf_bdwrite (um_devvp ump) a bs else snd (buf_bwrite (um_devvp ump) a bs))\<rparr>)))"

definition write_file_block :: "inode_env \<Rightarrow> inode \<Rightarrow> int \<Rightarrow> bytes \<Rightarrow> ext2mount \<Rightarrow> ext2mount outcome" where
  "write_file_block env ip lbn bs ump = file_bwrite (\<not> be_sync (ie_balloc env) \<and> doing_async env) ip lbn bs ump"

section \<open>\<^verbatim>\<open>ext2_truncate\<close>\<close>

definition clrbuf_env :: "inode_env \<Rightarrow> balloc_env" where
  "clrbuf_env env = (ie_balloc env)\<lparr>be_clrbuf := True\<rparr>"

definition EXT2_MAXSYMLINKLEN :: u64 where "EXT2_MAXSYMLINKLEN = 60"

text \<open>A short symbolic link: its target is in the bytes of \<^verbatim>\<open>i_db\<close> and \<^verbatim>\<open>i_ib\<close>.\<close>

definition trunc_symlink :: "inode_env \<Rightarrow> inode \<Rightarrow> ext2mount \<Rightarrow> (errno \<times> inode \<times> ext2mount) outcome" where
  "trunc_symlink env ip ump =
     bnd (blit (bytes_of_words (i_db ip @ i_ib ip)) 0 (replicate (unat (i_size ip)) 0)) (\<lambda>bs.
     ext2_update env True (mark_changed ((set_root (words_of bs) ip)\<lparr>i_size := 0\<rparr>)) ump)"

text \<open>Growing: the last byte of the file is allocated.\<close>

definition trunc_grow :: "inode_env \<Rightarrow> int \<Rightarrow> inode \<Rightarrow> ext2mount \<Rightarrow> (errno \<times> inode \<times> ext2mount) outcome" where
  "trunc_grow env len ip ump =
     (let fs = um_e2fs ump in
      if len > e2fs_maxfilesize fs then Ret (EFBIG, ip, ump)
      else
        let offset = s32 (blkoff fs (len - 1)); lbn = s32 (lblkno fs (len - 1)) in
        bnd (ext2_balloc (clrbuf_env env) lbn (s32 (offset + 1)) ip ump) (\<lambda>(error, bp, ip, ump).
        if error \<noteq> 0 then Ret (error, ip, ump)
        else
          case bp of
            None \<Rightarrow> Fault NullDeref
          | Some bs \<Rightarrow>
              let ip = ip\<lparr>i_size := word_of_int len\<rparr> in
              bnd (write_file_block env ip lbn bs ump) (\<lambda>ump. ext2_update env (\<not> doing_async env) (mark_changed ip) ump)))"

text \<open>Shrinking, first: the block in which the file ends is zeroed from there on.\<close>

definition trunc_tail :: "inode_env \<Rightarrow> int \<Rightarrow> inode \<Rightarrow> ext2mount \<Rightarrow> (errno \<times> inode \<times> ext2mount) outcome" where
  "trunc_tail env len ip ump =
     (let fs = um_e2fs ump; offset = s32 (blkoff fs len) in
      if offset = 0 then Ret (0, ip\<lparr>i_size := word_of_int len\<rparr>, ump)
      else
        let lbn = s32 (lblkno fs len) in
        bnd (ext2_balloc (clrbuf_env env) lbn offset ip ump) (\<lambda>(error, bp, ip, ump).
        if error \<noteq> 0 then Ret (error, ip, ump)
        else
          case bp of
            None \<Rightarrow> Fault NullDeref
          | Some bs \<Rightarrow>
              let ip = ip\<lparr>i_size := word_of_int len\<rparr>; size = s32 (blksize fs) in
              bnd (blit bs offset (replicate (unat (word_of_int (size - offset) :: u32)) 0)) (\<lambda>bs.
              bnd (write_file_block env ip lbn bs ump) (\<lambda>ump. Ret (0, ip, ump)))))"

text \<open>The positions of the last block that stays: in the file and below each of the three indirect blocks.\<close>

definition last_block :: "m_ext2fs \<Rightarrow> int \<Rightarrow> int" where
  "last_block fs len = s32 (lblkno fs (len + uint (e2fs_bsize fs) - 1) - 1)"

definition last_iblock :: "m_ext2fs \<Rightarrow> int \<Rightarrow> nat \<Rightarrow> int" where
  "last_iblock fs lastblock level =
     (let single = s32 (lastblock - NDADDR); double = s32 (single - NINDIR fs); triple = s32 (double - NINDIR fs * NINDIR fs);
          l = (if level = 0 then single else if level = 1 then double else triple)
      in if l < 0 then - 1 else l)"

text \<open>The pointers that are written to disk before blocks are freed.\<close>

definition kept_db :: "int \<Rightarrow> u32 list \<Rightarrow> u32 list" where
  "kept_db lastblock db = map (\<lambda>i. if int i > lastblock then 0 else db ! i) [0..<length db]"

definition kept_ib :: "m_ext2fs \<Rightarrow> int \<Rightarrow> u32 list \<Rightarrow> u32 list" where
  "kept_ib fs lastblock ib = map (\<lambda>l. if last_iblock fs lastblock l < 0 then 0 else ib ! l) [0..<length ib]"

text \<open>The logical number of each indirect block.\<close>

definition indir_lbn :: "m_ext2fs \<Rightarrow> nat \<Rightarrow> int" where
  "indir_lbn fs level =
     (let single = - NDADDR; double = s32 (single - NINDIR fs - 1); triple = s32 (double - NINDIR fs * NINDIR fs - 1)
      in if level = 0 then single else if level = 1 then double else triple)"

text \<open>The blocks released, the error, whether the loop left by \<^verbatim>\<open>goto done\<close>, and the state.\<close>

fun trunc_levels :: "inode_env \<Rightarrow> int \<Rightarrow> nat \<Rightarrow> errno \<Rightarrow> int \<Rightarrow> inode \<Rightarrow> ext2mount \<Rightarrow>
    (bool \<times> errno \<times> int \<times> inode \<times> ext2mount) outcome" where
  "trunc_levels env lastblock 0 allerror blocksreleased ip ump = Ret (False, allerror, blocksreleased, ip, ump)"
| "trunc_levels env lastblock (Suc level) allerror blocksreleased ip ump =
     (let fs = um_e2fs ump; lasti = last_iblock fs lastblock level in
      bnd (rd (i_ib ip) (int level)) (\<lambda>w.
      let bn = sint w in
      bnd (if bn = 0 then Ret (allerror, blocksreleased, ip, ump)
           else
             bnd (ext2_indirtrunc (ie_trunc env) level (indir_lbn fs level) (fsbtodb fs bn) lasti ump) (\<lambda>(error, count, ump).
             let allerror = (if error \<noteq> 0 then error else allerror); blocksreleased = blocksreleased + count in
             if lasti < 0 then
               bnd (wr (i_ib ip) (int level) 0) (\<lambda>ib.
               bnd (ext2_blkfree bn ump) (\<lambda>ump.
               Ret (allerror, blocksreleased + btodb (uint (e2fs_bsize fs)), ip\<lparr>i_ib := ib\<rparr>, ump)))
             else Ret (allerror, blocksreleased, ip, ump)))
      (\<lambda>(allerror, blocksreleased, ip, ump).
      if lasti \<ge> 0 then Ret (True, allerror, blocksreleased, ip, ump)
      else trunc_levels env lastblock level allerror blocksreleased ip ump)))"

text \<open>The direct blocks from \<open>n - 1\<close> down to past \<open>lastblock\<close>.\<close>

fun trunc_direct :: "int \<Rightarrow> nat \<Rightarrow> int \<Rightarrow> inode \<Rightarrow> ext2mount \<Rightarrow> (int \<times> inode \<times> ext2mount) outcome" where
  "trunc_direct lastblock 0 blocksreleased ip ump = Ret (blocksreleased, ip, ump)"
| "trunc_direct lastblock (Suc i) blocksreleased ip ump =
     (if int i > lastblock then
        bnd (rd (i_db ip) (int i)) (\<lambda>w.
        let bn = sint w in
        if bn = 0 then trunc_direct lastblock i blocksreleased ip ump
        else
          bnd (wr (i_db ip) (int i) 0) (\<lambda>db.
          let ip = ip\<lparr>i_db := db\<rparr>; bsize = blksize (um_e2fs ump) in
          bnd (ext2_blkfree bn ump) (\<lambda>ump. trunc_direct lastblock i (blocksreleased + btodb bsize) ip ump)))
      else Ret (blocksreleased, ip, ump))"

text \<open>The check of the last direct block; without fragments the space before and after is that of a block.\<close>

definition trunc_last :: "int \<Rightarrow> int \<Rightarrow> int \<Rightarrow> inode \<Rightarrow> ext2mount \<Rightarrow> (int \<times> inode \<times> ext2mount) outcome" where
  "trunc_last lastblock len blocksreleased ip ump =
     bnd (rd (i_db ip) lastblock) (\<lambda>w.
     let bn = sint w in
     if bn = 0 then Ret (blocksreleased, ip, ump)
     else
       let fs = um_e2fs ump; oldspace = blksize fs; ip = ip\<lparr>i_size := word_of_int len\<rparr>; newspace = blksize fs in
       if newspace = 0 then Fault (Panic ''ext2_truncate: newspace'')
       else if oldspace - newspace > 0 then
         bnd (ext2_blkfree (s32 (bn + drop_bit (unat (e2fs_bshift fs)) newspace)) ump) (\<lambda>ump.
         Ret (blocksreleased + btodb (oldspace - newspace), ip, ump))
       else Ret (blocksreleased, ip, ump))"

definition trunc_blocks :: "inode_env \<Rightarrow> int \<Rightarrow> int \<Rightarrow> errno \<Rightarrow> inode \<Rightarrow> ext2mount \<Rightarrow> (errno \<times> int \<times> inode \<times> ext2mount) outcome" where
  "trunc_blocks env len lastblock allerror ip ump =
     bnd (trunc_levels env lastblock 3 allerror 0 ip ump) (\<lambda>(finished, allerror, blocksreleased, ip, ump).
     if finished then Ret (allerror, blocksreleased, ip, ump)
     else
       bnd (trunc_direct lastblock 12 blocksreleased ip ump) (\<lambda>(blocksreleased, ip, ump).
       if lastblock < 0 then Ret (allerror, blocksreleased, ip, ump)
       else bnd (trunc_last lastblock len blocksreleased ip ump) (\<lambda>(blocksreleased, ip, ump). Ret (allerror, blocksreleased, ip, ump))))"

definition sub_blocks :: "int \<Rightarrow> inode \<Rightarrow> inode" where
  "sub_blocks blocksreleased ip =
     ip\<lparr>i_blocks := (if i_blocks ip \<ge> word_of_int blocksreleased then i_blocks ip - word_of_int blocksreleased else 0)\<rparr>"

text \<open>Shrinking, second: the inode with its new pointers is written, then the blocks are freed.\<close>

definition trunc_shrink :: "inode_env \<Rightarrow> int \<Rightarrow> int \<Rightarrow> inode \<Rightarrow> ext2mount \<Rightarrow> (errno \<times> inode \<times> ext2mount) outcome" where
  "trunc_shrink env len osize ip ump =
     (let fs = um_e2fs ump; lastblock = last_block fs len; db = i_db ip; ib = i_ib ip in
      bnd (ext2_update env (\<not> doing_async env) (mark_changed (ip\<lparr>i_db := kept_db lastblock db, i_ib := kept_ib fs lastblock ib\<rparr>)) ump)
        (\<lambda>(allerror, ip, ump).
      let ip = ip\<lparr>i_db := db, i_ib := ib, i_size := word_of_int osize\<rparr>;
          allerror = (if ie_inval env \<noteq> 0 \<and> allerror = 0 then ie_inval env else allerror)
      in bnd (trunc_blocks env len lastblock allerror ip ump) (\<lambda>(allerror, blocksreleased, ip, ump).
         let ip = sub_blocks blocksreleased (ip\<lparr>i_size := word_of_int len\<rparr>)
         in Ret (allerror, ip\<lparr>i_flag := i_flag ip OR IN_CHANGE\<rparr>, ump))))"

text \<open>\<^verbatim>\<open>ext2_ext_truncate\<close>.\<close>

definition ext2_ext_truncate :: "inode_env \<Rightarrow> int \<Rightarrow> inode \<Rightarrow> ext2mount \<Rightarrow> (errno \<times> inode \<times> ext2mount) outcome" where
  "ext2_ext_truncate env len ip ump =
     (let fs = um_e2fs ump; ulen = word_of_int len in
      if ulen \<ge> i_size ip then
        ext2_update env False (if ulen > i_size ip then mark_changed (ip\<lparr>i_size := ulen\<rparr>) else ip) ump
      else
        let lbn = lblkno fs len;
            n = (word_of_int (drop_bit (unat (e2fs_bshift fs)) (blkoff fs len + uint (e2fs_bsize fs) - 1)) :: u32);
            n = (if n = 0 then 1 else n)
        in bnd (ext4_ext_find_extent fs (um_devvp ump) ip lbn zero_path) (\<lambda>(ok, path).
           case ep_ext path of
             None \<Rightarrow> bnd (ext4_ext_drop_refs [path]) (\<lambda>p. Ret (0, ip, ump))
           | Some k \<Rightarrow>
               bnd (ext4_ext_rm_extent (be_ext (ie_balloc env)) ip path lbn n ump) (\<lambda>(error, ip, ump).
               bnd (ext4_ext_drop_refs [path]) (\<lambda>p.
               if error \<noteq> 0 then Ret (error, ip, ump)
               else Ret (ie_inval env, mark_changed (ip\<lparr>i_size := ulen\<rparr>), ump)))))"

definition ext2_truncate :: "inode_env \<Rightarrow> int \<Rightarrow> inode \<Rightarrow> ext2mount \<Rightarrow> (errno \<times> inode \<times> ext2mount) outcome" where
  "ext2_truncate env len ip ump =
     (let osize = sint (i_size ip) in
      if len < 0 then Ret (EINVAL, ip, ump)
      else if i_flag ip AND IN_E4EXTENTS \<noteq> 0 then ext2_ext_truncate env len ip ump
      else if ie_symlink env \<and> i_size ip < EXT2_MAXSYMLINKLEN then trunc_symlink env ip ump
      else if i_size ip = word_of_int len then ext2_update env False (mark_changed ip) ump
      else if osize < len then trunc_grow env len ip ump
      else
        bnd (trunc_tail env len ip ump) (\<lambda>(error, ip, ump).
        if error \<noteq> 0 then Ret (error, ip, ump) else trunc_shrink env len osize ip ump))"

section \<open>\<^verbatim>\<open>ext2_inactive\<close> and \<^verbatim>\<open>ext2_reclaim\<close>\<close>

text \<open>The error, and whether \<^verbatim>\<open>vnode_recycle\<close> is called; \<^verbatim>\<open>i_rdev\<close> is \<^verbatim>\<open>i_db[0]\<close>.\<close>

definition ext2_inactive :: "inode_env \<Rightarrow> inode \<Rightarrow> ext2mount \<Rightarrow> (errno \<times> bool \<times> inode \<times> ext2mount) outcome" where
  "ext2_inactive env ip ump =
     (if i_mode ip = 0 then Ret (0, True, ip, ump)
      else
        bnd (if sint (i_nlink ip) \<le> 0 then
               bnd (ext2_truncate env 0 ip ump) (\<lambda>(error, ip, ump).
               bnd (wr (i_db ip) 0 0) (\<lambda>db.
               let mode = uint (i_mode ip); ip = mark_changed (ip\<lparr>i_db := db, i_mode := 0\<rparr>) in
               bnd (ext2_vfree (i_number ip) mode ump) (\<lambda>(e, ump). Ret (error, ip, ump))))
             else Ret (0, ip, ump)) (\<lambda>(error, ip, ump).
        bnd (if i_flag ip AND (IN_ACCESS OR IN_CHANGE OR IN_MODIFIED OR IN_UPDATE) \<noteq> 0
             then bnd (ext2_update env False ip ump) (\<lambda>(e, ip, ump). Ret (ip, ump)) else Ret (ip, ump)) (\<lambda>(ip, ump).
        Ret (error, i_mode ip = 0, ip, ump))))"

text \<open>\<open>p\<close> is the address of the inode; it is freed in the end. \<open>None\<close>: the vnode has no inode any more.\<close>

definition ext2_reclaim :: "inode_env \<Rightarrow> ptr option \<Rightarrow> ihash \<Rightarrow> ext2mount \<Rightarrow> (errno \<times> ihash \<times> ext2mount) outcome" where
  "ext2_reclaim env q ih ump =
     (case q of
        None \<Rightarrow> Ret (0, ih, ump)
      | Some p \<Rightarrow>
          bnd (node_at ih p) (\<lambda>n.
          let ip = hn_ip n in
          bnd (if i_flag ip AND IN_LAZYMOD \<noteq> 0
               then bnd (ext2_update env False (ip\<lparr>i_flag := i_flag ip OR IN_MODIFIED\<rparr>) ump) (\<lambda>(e, ip, ump).
                    Ret (put_node ih p (n\<lparr>hn_ip := ip\<rparr>), ump))
               else Ret (ih, ump)) (\<lambda>(ih, ump).
          bnd (ext2_ihashrem p ih) (\<lambda>ih. Ret (0, ih\<lparr>ih_nodes := (ih_nodes ih)(p := None)\<rparr>, ump)))))"

end
