(* ===== verification/Ext2_Super.thy ===== *)
theory Ext2_Super
  imports Ext2_InodeCnv Ext2_Blocks
begin

text \<open>
  The superblock and the mount, from \<^verbatim>\<open>kext/ext2_vfsops.c\<close>: \<^verbatim>\<open>ext2_check_sb_compat\<close>, \<^verbatim>\<open>compute_sb_data\<close>,
  \<^verbatim>\<open>ext2_sbupdate\<close>, \<^verbatim>\<open>ext2_cgupdate\<close>, \<^verbatim>\<open>ext2_journal_replay\<close>, \<^verbatim>\<open>ext2_mountfs\<close>, \<^verbatim>\<open>ext2_unmount\<close> and
  \<^verbatim>\<open>ext2_statfs_internal\<close>, with the layout of the superblock and
  the group descriptors on the device.
\<close>

section \<open>Constants\<close>

definition SBLOCK :: int where "SBLOCK = 2"
definition SBSIZE :: u32 where "SBSIZE = 1024"
definition E2FS_MAGIC :: u16 where "E2FS_MAGIC = 0xEF53"
definition E2FS_REV0 :: u32 where "E2FS_REV0 = 0"
definition E2FS_REV1 :: u32 where "E2FS_REV1 = 1"
definition E2FS_REV0_INODE_SIZE :: u32 where "E2FS_REV0_INODE_SIZE = 128"
definition E2FS_ISCLEAN :: u16 where "E2FS_ISCLEAN = 1"
definition E2FS_ERRORS :: u16 where "E2FS_ERRORS = 2"
definition EXT2_FIRSTINO :: u32 where "EXT2_FIRSTINO = 11"
definition EXT2_MIN_GD_SIZE :: u32 where "EXT2_MIN_GD_SIZE = 32"
definition EXT2_MIN_BLOCK_LOG_SIZE :: u32 where "EXT2_MIN_BLOCK_LOG_SIZE = 10"
definition EXT2_MIN_FRAG_SIZE :: u32 where "EXT2_MIN_FRAG_SIZE = 1024"
definition EXT2_MAXCONTIG :: int where "EXT2_MAXCONTIG = 32"
definition EXT2F_ROCOMPAT_SPARSESUPER :: u32 where "EXT2F_ROCOMPAT_SPARSESUPER = 0x0001"
definition EXT2F_INCOMPAT_FTYPE :: u32 where "EXT2F_INCOMPAT_FTYPE = 0x0002"
definition EXT2F_INCOMPAT_RECOVER :: u32 where "EXT2F_INCOMPAT_RECOVER = 0x0004"
definition EXT2F_INCOMPAT_META_BG :: u32 where "EXT2F_INCOMPAT_META_BG = 0x0010"
definition EXT2F_INCOMPAT_EXTENTS :: u32 where "EXT2F_INCOMPAT_EXTENTS = 0x0040"
definition EXT2F_INCOMPAT_64BIT :: u32 where "EXT2F_INCOMPAT_64BIT = 0x0080"
definition EXT2F_INCOMPAT_FLEX_BG :: u32 where "EXT2F_INCOMPAT_FLEX_BG = 0x0200"
definition EXT2F_INCOMPAT_CSUM_SEED :: u32 where "EXT2F_INCOMPAT_CSUM_SEED = 0x2000"

definition EXT2F_ROCOMPAT_SUPP :: u32 where
  "EXT2F_ROCOMPAT_SUPP = EXT2F_ROCOMPAT_SPARSESUPER OR EXT2F_ROCOMPAT_LARGEFILE OR EXT2F_ROCOMPAT_EXTRA_ISIZE"
definition EXT2F_INCOMPAT_SUPP :: u32 where
  "EXT2F_INCOMPAT_SUPP = EXT2F_INCOMPAT_FTYPE OR EXT2F_INCOMPAT_EXTENTS OR EXT2F_INCOMPAT_FLEX_BG OR EXT2F_INCOMPAT_META_BG"
definition EXT4F_RO_INCOMPAT_SUPP :: u32 where
  "EXT4F_RO_INCOMPAT_SUPP = EXT2F_INCOMPAT_RECOVER OR EXT2F_INCOMPAT_64BIT OR EXT2F_INCOMPAT_CSUM_SEED"

definition EPERM :: errno where "EPERM = 1"
definition ENOTSUP :: errno where "ENOTSUP = 45"

text \<open>\<^verbatim>\<open>MAXPHYS\<close> of XNU's \<^verbatim>\<open>sys/param.h\<close>.\<close>

definition MAXPHYS :: u32 where "MAXPHYS = 131072"

section \<open>Layout on the device\<close>

definition u64_of :: "u32 \<Rightarrow> u32 \<Rightarrow> u64" where "u64_of l h = ucast l OR push_bit 32 (ucast h)"
definition lo32 :: "u64 \<Rightarrow> u32" where "lo32 w = ucast w"
definition hi32 :: "u64 \<Rightarrow> u32" where "hi32 w = ucast (drop_bit 32 w)"

definition sb_of :: "bytes \<Rightarrow> ext2fs" where
  "sb_of bs =
     (let w = words_of bs in \<lparr>
    e2fs_icount = w ! 0, e2fs_bcount = w ! 1, e2fs_rbcount = w ! 2, e2fs_fbcount = w ! 3, e2fs_ficount = w ! 4,
    e2fs_first_dblock = w ! 5, e2fs_log_bsize = w ! 6, e2fs_log_fsize = w ! 7, e2fs_bpg = w ! 8, e2fs_fpg = w ! 9,
    e2fs_ipg = w ! 10, e2fs_mtime = w ! 11, e2fs_wtime = w ! 12, e2fs_mnt_count = lo16 (w ! 13), e2fs_max_mnt_count = hi16 (w ! 13),
    e2fs_magic = lo16 (w ! 14), e2fs_state = hi16 (w ! 14), e2fs_beh = lo16 (w ! 15), e2fs_minrev = hi16 (w ! 15),
    e2fs_lastfsck = w ! 16, e2fs_fsckintv = w ! 17, e2fs_creator = w ! 18, e2fs_rev = w ! 19, e2fs_ruid = lo16 (w ! 20),
    e2fs_rgid = hi16 (w ! 20), e2fs_first_ino = w ! 21, e2fs_inode_size = lo16 (w ! 22), e2fs_block_group_nr = hi16 (w ! 22),
    e2fs_features_compat = w ! 23, e2fs_features_incompat = w ! 24, e2fs_features_rocompat = w ! 25,
    e2fs_uuid = take 16 (drop 104 bs), e2fs_vname = take 16 (drop 120 bs), e2fs_fsmnt = take 64 (drop 136 bs), e2fs_algo = w ! 50,
    e2fs_prealloc = bs ! 204, e2fs_dir_prealloc = bs ! 205, e2fs_reserved_ngdb = hi16 (w ! 51),
    e3fs_journal_uuid = take 16 (drop 208 bs), e3fs_journal_inum = w ! 56, e3fs_journal_dev = w ! 57, e3fs_last_orphan = w ! 58,
    e3fs_hash_seed = take 4 (drop 59 w), e3fs_def_hash_version = bs ! 252, e3fs_jnl_backup_type = bs ! 253,
    e3fs_desc_size = hi16 (w ! 63), e3fs_default_mount_opts = w ! 64, e3fs_first_meta_bg = w ! 65, e3fs_mkfs_time = w ! 66,
    e3fs_jnl_blks = take 17 (drop 67 w), e4fs_bcount_hi = w ! 84, e4fs_rbcount_hi = w ! 85, e4fs_fbcount_hi = w ! 86,
    e4fs_min_extra_isize = lo16 (w ! 87), e4fs_want_extra_isize = hi16 (w ! 87), e4fs_flags = w ! 88, e4fs_raid_stride = lo16 (w ! 89),
    e4fs_mmpintv = hi16 (w ! 89), e4fs_mmpblk = u64_of (w ! 90) (w ! 91), e4fs_raid_stripe_wid = w ! 92, e4fs_log_gpf = bs ! 372,
    e4fs_char_pad2 = bs ! 373, e4fs_pad = hi16 (w ! 93), e4fs_kbytes_written = u64_of (w ! 94) (w ! 95), reserved2 = take 160 (drop 96 w)\<rparr>)"

definition sb_bytes :: "ext2fs \<Rightarrow> bytes" where
  "sb_bytes es =
     bytes_of_words [e2fs_icount es, e2fs_bcount es, e2fs_rbcount es, e2fs_fbcount es, e2fs_ficount es, e2fs_first_dblock es,
       e2fs_log_bsize es, e2fs_log_fsize es, e2fs_bpg es, e2fs_fpg es, e2fs_ipg es, e2fs_mtime es, e2fs_wtime es,
       join16 (e2fs_mnt_count es) (e2fs_max_mnt_count es), join16 (e2fs_magic es) (e2fs_state es), join16 (e2fs_beh es) (e2fs_minrev es),
       e2fs_lastfsck es, e2fs_fsckintv es, e2fs_creator es, e2fs_rev es, join16 (e2fs_ruid es) (e2fs_rgid es), e2fs_first_ino es,
       join16 (e2fs_inode_size es) (e2fs_block_group_nr es), e2fs_features_compat es, e2fs_features_incompat es, e2fs_features_rocompat es] @
     e2fs_uuid es @ e2fs_vname es @ e2fs_fsmnt es @ bytes_of (e2fs_algo es) @
     [e2fs_prealloc es, e2fs_dir_prealloc es] @ bytes16 (e2fs_reserved_ngdb es) @ e3fs_journal_uuid es @
     bytes_of_words ([e3fs_journal_inum es, e3fs_journal_dev es, e3fs_last_orphan es] @ e3fs_hash_seed es) @
     [e3fs_def_hash_version es, e3fs_jnl_backup_type es] @ bytes16 (e3fs_desc_size es) @
     bytes_of_words ([e3fs_default_mount_opts es, e3fs_first_meta_bg es, e3fs_mkfs_time es] @ e3fs_jnl_blks es @
       [e4fs_bcount_hi es, e4fs_rbcount_hi es, e4fs_fbcount_hi es, join16 (e4fs_min_extra_isize es) (e4fs_want_extra_isize es),
        e4fs_flags es, join16 (e4fs_raid_stride es) (e4fs_mmpintv es), lo32 (e4fs_mmpblk es), hi32 (e4fs_mmpblk es), e4fs_raid_stripe_wid es]) @
     [e4fs_log_gpf es, e4fs_char_pad2 es] @ bytes16 (e4fs_pad es) @
     bytes_of_words ([lo32 (e4fs_kbytes_written es), hi32 (e4fs_kbytes_written es)] @ reserved2 es)"

definition gd_of :: "bytes \<Rightarrow> ext2_gd" where
  "gd_of bs = (let w = words_of bs in \<lparr>
     ext2bgd_b_bitmap = w ! 0, ext2bgd_i_bitmap = w ! 1, ext2bgd_i_tables = w ! 2, ext2bgd_nbfree = lo16 (w ! 3), ext2bgd_nifree = hi16 (w ! 3),
     ext2bgd_ndirs = lo16 (w ! 4), ext4bgd_flags = hi16 (w ! 4), ext4bgd_x_bitmap = w ! 5, ext4bgd_b_bmap_csum = lo16 (w ! 6),
     ext4bgd_i_bmap_csum = hi16 (w ! 6), ext4bgd_i_unused = lo16 (w ! 7), ext4bgd_csum = hi16 (w ! 7)\<rparr>)"

definition gd_bytes :: "ext2_gd \<Rightarrow> bytes" where
  "gd_bytes g = bytes_of_words [ext2bgd_b_bitmap g, ext2bgd_i_bitmap g, ext2bgd_i_tables g, join16 (ext2bgd_nbfree g) (ext2bgd_nifree g),
     join16 (ext2bgd_ndirs g) (ext4bgd_flags g), ext4bgd_x_bitmap g, join16 (ext4bgd_b_bmap_csum g) (ext4bgd_i_bmap_csum g),
     join16 (ext4bgd_i_unused g) (ext4bgd_csum g)]"

text \<open>The descriptors of one block of the table, at the stride the superblock gives.\<close>

definition gds_of :: "nat \<Rightarrow> nat \<Rightarrow> bytes \<Rightarrow> ext2_gd list" where
  "gds_of n stride bs = map (\<lambda>k. gd_of (take 32 (drop (k * stride) bs))) [0..<n]"

text \<open>The block with the descriptors back in place; bytes of a wide descriptor past the structure and slots
  past the last group, which nothing changes in memory, are those of the device.\<close>

definition gds_bytes :: "nat \<Rightarrow> bytes \<Rightarrow> ext2_gd list \<Rightarrow> bytes" where
  "gds_bytes stride old gs =
     concat (map (\<lambda>(k, g). gd_bytes g @ take (stride - 32) (drop (k * stride + 32) old)) (enumerate 0 gs)) @ drop (length gs * stride) old"

section \<open>\<^verbatim>\<open>ext2_check_sb_compat\<close>\<close>

definition ext2_check_sb_compat :: "ext2fs \<Rightarrow> bool \<Rightarrow> int" where
  "ext2_check_sb_compat es ronly =
     (if e2fs_magic es \<noteq> E2FS_MAGIC then 1
      else if e2fs_log_bsize es > 2 then 1
      else if e2fs_bpg es = 0 then 1
      else if e2fs_rev es > E2FS_REV1 then 1
      else if e2fs_rev es = E2FS_REV0 then 0
      else if e2fs_first_ino es \<noteq> EXT2_FIRSTINO then 1
      else if e2fs_features_incompat es AND NOT (EXT2F_INCOMPAT_SUPP OR EXT4F_RO_INCOMPAT_SUPP) \<noteq> 0 then 3
      else if \<not> ronly \<and> e2fs_features_incompat es AND NOT EXT2F_INCOMPAT_SUPP \<noteq> 0 then 2
      else if \<not> ronly \<and> e2fs_features_rocompat es AND NOT EXT2F_ROCOMPAT_SUPP \<noteq> 0 then 2
      else 0)"


section \<open>\<^verbatim>\<open>compute_sb_data\<close>\<close>

text \<open>The places where the mount allocates memory; a call says at which of them there is none.\<close>

datatype alloc_site = AUmp | AFs | ASb | ALock | AGd | AContigdirs | AMaxcluster | AClustersum | ACsSum nat

text \<open>
  The parameters that come from the superblock alone. A shift by the width of its type or into its sign
  bit is undefined.
\<close>

definition sb_inode_size_ok :: "m_ext2fs \<Rightarrow> bool" where
  "sb_inode_size_ok fs \<longleftrightarrow> \<not> (e2fs_isize fs < E2FS_REV0_INODE_SIZE \<or> e2fs_isize fs > e2fs_bsize fs \<or>
     e2fs_isize fs AND (e2fs_isize fs - 1) \<noteq> 0)"

definition sb_gdsize :: "ext2fs \<Rightarrow> u32" where
  "sb_gdsize es =
     (if e2fs_rev es > E2FS_REV0 \<and> e2fs_features_incompat es AND EXT2F_INCOMPAT_64BIT \<noteq> 0 \<and> e3fs_desc_size es \<noteq> 0
      then ucast (e3fs_desc_size es) else EXT2_MIN_GD_SIZE)"

definition sb_geometry :: "ext2fs \<Rightarrow> m_ext2fs \<Rightarrow> (errno + m_ext2fs) outcome" where
  "sb_geometry es fs =
     (let bshift = EXT2_MIN_BLOCK_LOG_SIZE + e2fs_log_bsize es in
      if bshift \<ge> 32 \<or> e2fs_log_fsize es \<ge> 21 then Fault Undef
      else
        let bsize = push_bit (unat bshift) 1; fsize = push_bit (unat (e2fs_log_fsize es)) EXT2_MIN_FRAG_SIZE;
            fs = fs\<lparr>e2fs_bshift := bshift, e2fs_bsize := bsize, e2fs_fsbtodb := e2fs_log_bsize es + 1, e2fs_qbmask := uint (bsize - 1),
                    e2fs_fsize := fsize, e2fs_fpb := (if fsize \<noteq> 0 then bsize div fsize else e2fs_fpb fs),
                    m_e2fs_bpg := e2fs_bpg es, m_e2fs_fpg := e2fs_fpg es, m_e2fs_ipg := e2fs_ipg es,
                    e2fs_isize := (if e2fs_rev es = E2FS_REV0 then E2FS_REV0_INODE_SIZE else ucast (e2fs_inode_size es))\<rparr>
        in if e2fs_rev es \<noteq> E2FS_REV0 \<and> \<not> sb_inode_size_ok fs then Ret (Inl EIO)
           else if EXT2_HAS_RO_COMPAT_FEATURE fs EXT2F_ROCOMPAT_EXTRA_ISIZE \<and> e2fs_isize fs < 156 then Ret (Inl EINVAL)
           else
             let ipb = bsize div e2fs_isize fs in
             if ipb = 0 \<or> e2fs_bpg es = 0 then Fault DivZero
             else
               let fs = fs\<lparr>e2fs_ipb := ipb, e2fs_itpg := e2fs_ipg es div ipb,
                           e2fs_gcount := (e2fs_bcount es - e2fs_first_dblock es + e2fs_bpg es - 1) div e2fs_bpg es,
                           e2fs_gdsize := sb_gdsize es\<rparr>
               in if e2fs_gdsize fs < EXT2_MIN_GD_SIZE \<or> e2fs_gdsize fs AND (e2fs_gdsize fs - 1) \<noteq> 0 \<or> e2fs_gdsize fs > bsize
                  then Ret (Inl EINVAL) else Ret (Inr fs))"

text \<open>The loop that reads the descriptor blocks into a table of \<open>tsize\<close> bytes, \<open>n\<close> blocks from block \<open>i\<close> on.\<close>

fun load_gds :: "device \<Rightarrow> m_ext2fs \<Rightarrow> int \<Rightarrow> int \<Rightarrow> nat \<Rightarrow> nat \<Rightarrow> (errno + ext2_gd list) outcome" where
  "load_gds dev fs base tsize i 0 = Ret (Inr [])"
| "load_gds dev fs base tsize i (Suc n) =
     (case buf_meta_bread dev (fsbtodb fs (base + int i + 1)) of
        Inl error \<Rightarrow> Ret (Inl error)
      | Inr data \<Rightarrow>
          if (int i + 1) * uint (e2fs_bsize fs) > tsize then Fault Oob
          else bnd (slice data 0 (unat (e2fs_bsize fs))) (\<lambda>blk.
               bnd (load_gds dev fs base tsize (Suc i) n) (\<lambda>r.
               case r of Inl e \<Rightarrow> Ret (Inl e)
               | Inr gs \<Rightarrow> Ret (Inr (gds_of (unat (e2fs_bsize fs div e2fs_gdsize fs)) (unat (e2fs_gdsize fs)) blk @ gs)))))"

fun sum_dirs :: "m_ext2fs \<Rightarrow> nat \<Rightarrow> u32 outcome" where
  "sum_dirs fs 0 = Ret 0"
| "sum_dirs fs (Suc n) = bnd (sum_dirs fs n) (\<lambda>t. bnd (EXT2_GD fs (int n)) (\<lambda>g. Ret (t + ucast (ext2bgd_ndirs g))))"

definition max_file_size :: "ext2fs \<Rightarrow> m_ext2fs \<Rightarrow> int" where
  "max_file_size es fs =
     (if e2fs_rev es = E2FS_REV0 \<or> \<not> EXT2_HAS_RO_COMPAT_FEATURE fs EXT2F_ROCOMPAT_LARGEFILE then 0x7fffffff
      else
        let b = uint (e2fs_bsize fs div 4);
            physically = push_bit 9 (if EXT2_HAS_RO_COMPAT_FEATURE fs EXT2F_ROCOMPAT_HUGE_FILE then 2 ^ 48 - 1 else 2 ^ 32 - 1);
            logically = (12 + b + b * b + b * b * b) * uint (e2fs_bsize fs)
        in min logically physically)"

text \<open>
  The descriptors kept are those of the groups; the slots of the table past the last group stay as they
  were read and are left out. An error is returned with whether the descriptor table and \<^verbatim>\<open>e2fs_contigdirs\<close> have been freed while
  their pointers stay in the structure.
\<close>

definition sb_tables :: "(alloc_site \<Rightarrow> bool) \<Rightarrow> device \<Rightarrow> m_ext2fs \<Rightarrow> (errno \<times> bool + m_ext2fs) outcome" where
  "sb_tables nomem dev fs =
     bnd (load_gds dev fs (if e2fs_bsize fs > SBSIZE then 0 else 1) (if nomem AGd then 0 else uint (e2fs_gdbcount fs * e2fs_bsize fs)) 0
            (nat (sint (e2fs_gdbcount fs)))) (\<lambda>r.
     case r of
       Inl error \<Rightarrow> Ret (Inl (error, True))
     | Inr gs \<Rightarrow>
         let fs = fs\<lparr>e2fs_gd := take (unat (e2fs_gcount fs)) gs\<rparr>
         in bnd (sum_dirs fs (nat (sint (e2fs_gcount fs)))) (\<lambda>t.
            Ret (Inr (fs\<lparr>e2fs_total_dir := t, e2fs_maxfilesize := max_file_size (e2fs fs) fs\<rparr>))))"

definition compute_sb_data :: "(alloc_site \<Rightarrow> bool) \<Rightarrow> device \<Rightarrow> m_ext2fs \<Rightarrow> (errno \<times> bool + m_ext2fs) outcome" where
  "compute_sb_data nomem dev fs =
     bnd (sb_geometry (e2fs fs) fs) (\<lambda>r.
     case r of
       Inl error \<Rightarrow> Ret (Inl (error, False))
     | Inr fs \<Rightarrow>
         let descpb = e2fs_bsize fs div e2fs_gdsize fs
         in sb_tables nomem dev (fs\<lparr>e2fs_gdbcount := (e2fs_gcount fs + descpb - 1) div descpb,
              e2fs_contigdirs := (if nomem AContigdirs then [] else replicate (unat (e2fs_gcount fs)) 0)\<rparr>))"

section \<open>\<^verbatim>\<open>ext2_sbupdate\<close> and \<^verbatim>\<open>ext2_cgupdate\<close>\<close>

definition ext2_sbupdate :: "ext2mount \<Rightarrow> bool \<Rightarrow> errno \<times> ext2mount" where
  "ext2_sbupdate ump wait =
     (if dev_nobuf (um_devvp ump) SBLOCK then (EIO, ump)
      else
        let (e, d) = buf_bwrite (um_devvp ump) SBLOCK (sb_bytes (e2fs (um_e2fs ump)))
        in (if wait then e else 0, ump\<lparr>um_devvp := d\<rparr>))"

text \<open>The descriptor blocks from block \<open>i\<close> on, \<open>n\<close> of them; \<open>error\<close> is that of the last write, and the result
  carries whether a buffer was missing.\<close>

fun cg_loop :: "ext2mount \<Rightarrow> bool \<Rightarrow> nat \<Rightarrow> nat \<Rightarrow> errno \<Rightarrow> (bool \<times> errno \<times> ext2mount) outcome" where
  "cg_loop ump wait i 0 error = Ret (True, error, ump)"
| "cg_loop ump wait i (Suc n) error =
     (let fs = um_e2fs ump; a = fsbtodb fs (uint (e2fs_first_dblock (e2fs fs) + 1 + word_of_nat i));
          per = unat (e2fs_bsize fs div e2fs_gdsize fs)
      in if dev_nobuf (um_devvp ump) a then Ret (False, error, ump)
         else
           let (e, d) = buf_bwrite (um_devvp ump) a (gds_bytes (unat (e2fs_gdsize fs)) (dev_blk (um_devvp ump) a) (take per (drop (i * per) (e2fs_gd fs))))
           in cg_loop (ump\<lparr>um_devvp := d\<rparr>) wait (Suc i) n (if wait then e else error))"

definition ext2_cgupdate :: "ext2mount \<Rightarrow> bool \<Rightarrow> (errno \<times> ext2mount) outcome" where
  "ext2_cgupdate ump wait =
     (let (allerror, ump) = ext2_sbupdate ump wait
      in bnd (cg_loop ump wait 0 (nat (sint (e2fs_gdbcount (um_e2fs ump)))) 0) (\<lambda>(ok, error, ump).
         let allerror = (if ok then allerror else EIO)
         in Ret (if allerror = 0 \<and> error \<noteq> 0 then error else allerror, ump)))"

section \<open>\<^verbatim>\<open>ext2_journal_replay\<close>\<close>

definition JBD_MAGIC :: u32 where "JBD_MAGIC = 0xc03b3998"
definition JBD_DESCRIPTOR_BLOCK :: u32 where "JBD_DESCRIPTOR_BLOCK = 1"
definition JBD_COMMIT_BLOCK :: u32 where "JBD_COMMIT_BLOCK = 2"

text \<open>
  \<open>jbp\<close> is the array of buffers the journal blocks are read into. \<open>tag_loop\<close> is the loop over the tags of the
  descriptor block in \<open>jbp ! i0\<close>, whose bytes are \<open>hdr\<close>; \<open>t\<close> is the byte offset of \<^verbatim>\<open>tagp\<close>. Its condition takes
  the data pointer of \<open>jbp ! i\<close>, which is null when that buffer was never read and another buffer's once
  \<open>i\<close> has moved. The copy of a block that starts with the magic number begins twelve bytes into it and has
  the length of a block.
\<close>

definition tag_copy :: "m_ext2fs \<Rightarrow> device \<Rightarrow> bytes \<Rightarrow> u32 \<Rightarrow> device outcome" where
  "tag_copy fs dev jdata nr =
     bnd (ld32 jdata 0) (\<lambda>m.
     if dev_nobuf dev (uint nr) then Ret dev
     else
        bnd (slice jdata (if m = JBD_MAGIC then 12 else 0) (unat (e2fs_bsize fs))) (\<lambda>d.
        Ret (snd (buf_bwrite dev (uint nr) d))))"

function tag_loop :: "m_ext2fs \<Rightarrow> u32 \<Rightarrow> u32 \<Rightarrow> bytes option list \<Rightarrow> int \<Rightarrow> bytes \<Rightarrow> nat \<Rightarrow> int \<Rightarrow> device \<Rightarrow> (int \<times> device) outcome" where
  "tag_loop fs start nblocks jbp i0 hdr t i dev =
     bnd (rd jbp i) (\<lambda>b.
     case b of
       None \<Rightarrow> Fault NullDeref
     | Some _ \<Rightarrow>
         if i \<noteq> i0 then Fault Undef
         else if int t + 8 \<le> uint (e2fs_bsize fs) then
           bnd (ld32 hdr (int t)) (\<lambda>nr.
           if nr = 0 then Ret (i, dev)
           else
             let i = s32 (i + 1); i = (if start + word_of_int i \<ge> nblocks then sint (word_of_int i - nblocks) else i)
             in bnd (rd jbp i) (\<lambda>b.
                bnd (case b of None \<Rightarrow> Ret dev | Some jdata \<Rightarrow> tag_copy fs dev jdata nr) (\<lambda>dev.
                bnd (ld32 hdr (int t + 12)) (\<lambda>flags.
                if flags AND 8 \<noteq> 0 then Ret (i, dev)
                else tag_loop fs start nblocks jbp i0 hdr (t + 8) i dev))))
         else Ret (i, dev))"
  by pat_completeness auto
termination
  by (relation "measure (\<lambda>(fs, start, nblocks, jbp, i0, hdr, t, i, dev). nat (uint (e2fs_bsize fs) + 8 - int t))") auto

declare tag_loop.simps [simp del]

text \<open>The loop over the journal; \<open>None\<close> when it does not end. The result is the next sequence number and the
  device.\<close>

partial_function (option) journal_loop ::
  "m_ext2fs \<Rightarrow> u32 \<Rightarrow> u32 \<Rightarrow> bytes option list \<Rightarrow> int \<Rightarrow> u32 \<Rightarrow> device \<Rightarrow> (u32 \<times> device) outcome option" where
  "journal_loop fs start nblocks jbp i seq dev =
     (if \<not> i < sint nblocks then Some (Ret (seq, dev))
      else
        let dbn = start + word_of_int i; dbn = (if dbn \<ge> nblocks then dbn - nblocks else dbn)
        in case buf_meta_bread dev (uint dbn) of
             Inl error \<Rightarrow> Some (Ret (seq, dev))
           | Inr data \<Rightarrow>
               case bnd (wr jbp i (Some data)) (\<lambda>jbp. bnd (ld32 data 0) (\<lambda>m. bnd (ld32 data 4) (\<lambda>bt. bnd (ld32 data 8) (\<lambda>sq.
                    if m \<noteq> JBD_MAGIC \<or> sq \<noteq> seq then Ret (None, dev)
                    else if bt = JBD_COMMIT_BLOCK then Ret (Some (jbp, i, seq + 1), dev)
                    else if bt = JBD_DESCRIPTOR_BLOCK then
                      bnd (tag_loop fs start nblocks jbp i data 12 i dev) (\<lambda>(i, dev). Ret (Some (jbp, i, seq), dev))
                    else Ret (Some (jbp, i, seq), dev))))) of
                 Fault f \<Rightarrow> Some (Fault f)
               | Ret (None, dev) \<Rightarrow> Some (Ret (seq, dev))
               | Ret (Some (jbp, i, seq), dev) \<Rightarrow> journal_loop fs start nblocks jbp (s32 (i + 1)) seq dev)"

declare journal_loop.simps [code]

definition ext2_journal_replay :: "device \<Rightarrow> m_ext2fs \<Rightarrow> (device \<times> m_ext2fs) outcome option" where
  "ext2_journal_replay dev fs =
     (let es = e2fs fs; start = e3fs_jnl_blks es ! 0;
          sequence = (if e3fs_jnl_blks es ! 1 = 0 then 1 else e3fs_jnl_blks es ! 1);
          nblocks = e3fs_jnl_blks es ! 2
      in if start = 0 \<or> nblocks = 0 then Some (Ret (dev, fs))
         else case journal_loop fs start nblocks (replicate (unat nblocks) None) 0 sequence dev of
                None \<Rightarrow> None
              | Some (Fault f) \<Rightarrow> Some (Fault f)
              | Some (Ret (seq, dev)) \<Rightarrow>
                  Some (Ret (dev, fs\<lparr>e2fs := es\<lparr>e3fs_jnl_blks := (e3fs_jnl_blks es)[0 := 0, 1 := seq]\<rparr>, e2fs_fmod := 1\<rparr>)))"

section \<open>\<^verbatim>\<open>ext2_mountfs\<close>\<close>

text \<open>The loop that allocates the cluster summaries.\<close>

fun csum_loop :: "(alloc_site \<Rightarrow> bool) \<Rightarrow> int \<Rightarrow> nat \<Rightarrow> nat \<Rightarrow> csum list option" where
  "csum_loop nomem sumsize i 0 = Some []"
| "csum_loop nomem sumsize i (Suc n) =
     (if nomem (ACsSum i) then None
      else map_option ((#) \<lparr>cs_init = 0, cs_sum = replicate (nat (sumsize + 1)) 0\<rparr>) (csum_loop nomem sumsize (Suc i) n))"

definition mount_clusters :: "(alloc_site \<Rightarrow> bool) \<Rightarrow> m_ext2fs \<Rightarrow> (errno + m_ext2fs) outcome" where
  "mount_clusters nomem fs =
     (if e2fs_bsize fs = 0 then Fault DivZero
      else
        let sumsize = min (max 1 (sint (MAXPHYS div e2fs_bsize fs))) EXT2_MAXCONTIG; n = nat (sint (e2fs_gcount fs)) in
        let fs = fs\<lparr>e2fs_contigsumsize := sumsize\<rparr> in
        if nomem AMaxcluster \<or> nomem AClustersum then Ret (Inl ENOMEM)
        else case csum_loop nomem sumsize 0 n of
               None \<Rightarrow> Ret (Inl ENOMEM)
             | Some cs \<Rightarrow> Ret (Inr (fs\<lparr>e2fs_maxcluster := replicate n sumsize, e2fs_clustersum := cs\<rparr>)))"

text \<open>The error a mount returns for what \<^verbatim>\<open>ext2_check_sb_compat\<close> reports.\<close>

definition mount_check :: "ext2fs \<Rightarrow> bool \<Rightarrow> bool \<Rightarrow> errno" where
  "mount_check es ronly force =
     (let error = ext2_check_sb_compat es ronly in
      if error = 2 then EROFS else if error = 3 then ENOTSUP else if error \<noteq> 0 then EINVAL
      else if (e2fs_state es AND E2FS_ISCLEAN = 0 \<or> e2fs_state es AND E2FS_ERRORS \<noteq> 0) \<and> \<not> (ronly \<or> force) then EPERM
      else 0)"

text \<open>The end of a mount that succeeds.\<close>

definition mark_mounted :: "m_ext2fs \<Rightarrow> bool \<Rightarrow> m_ext2fs" where
  "mark_mounted fs ronly =
     (let fs = fs\<lparr>e2fs_wasvalid := (if e2fs_state (e2fs fs) AND E2FS_ISCLEAN \<noteq> 0 then 1 else 0)\<rparr>
      in if ronly then fs
         else fs\<lparr>e2fs_fmod := 1, e2fs := (e2fs fs)\<lparr>e2fs_state := e2fs_state (e2fs fs) AND NOT E2FS_ISCLEAN\<rparr>\<rparr>)"

definition mount_finish :: "device \<Rightarrow> m_ext2fs \<Rightarrow> bool \<Rightarrow> ext2mount" where
  "mount_finish dev fs ronly =
     (let fs = mark_mounted fs ronly;
          ump = \<lparr>um_devvp = dev, um_e2fs = fs, um_nindir = ucast (e2fs_bsize fs div 4), um_bptrtodb = ucast (e2fs_log_bsize (e2fs fs) + 1),
                 um_seqinc = ucast (e2fs_fpb fs), um_lock = False\<rparr>
      in if ronly then ump else snd (ext2_sbupdate ump True))"

text \<open>
  The error path frees what has been allocated; when \<^verbatim>\<open>compute_sb_data\<close> has freed the tables already it
  frees them a second time, which is undefined.
\<close>

definition ext2_mountfs :: "(alloc_site \<Rightarrow> bool) \<Rightarrow> device \<Rightarrow> bool \<Rightarrow> bool \<Rightarrow> (errno + ext2mount) outcome option" where
  "ext2_mountfs nomem dev ronly force =
     (case buf_meta_bread dev SBLOCK of
        Inl error \<Rightarrow> Some (Ret (Inl error))
      | Inr data \<Rightarrow>
          let es = sb_of data; error = mount_check es ronly force in
          if error \<noteq> 0 then Some (Ret (Inl error))
          else if nomem AUmp \<or> nomem AFs \<or> nomem ASb \<or> nomem ALock then Some (Ret (Inl ENOMEM))
          else
            case compute_sb_data nomem dev (zero_fs\<lparr>e2fs := es\<rparr>) of
              Fault f \<Rightarrow> Some (Fault f)
            | Ret (Inl (error, freed)) \<Rightarrow> Some (if freed then Fault Undef else Ret (Inl error))
            | Ret (Inr fs) \<Rightarrow>
                let fs = fs\<lparr>e2fs_ronly := (if ronly then 1 else 0)\<rparr> in
                case (if \<not> ronly \<and> e2fs_features_incompat (e2fs fs) AND EXT2F_INCOMPAT_RECOVER \<noteq> 0
                      then ext2_journal_replay dev fs else Some (Ret (dev, fs))) of
                  None \<Rightarrow> None
                | Some (Fault f) \<Rightarrow> Some (Fault f)
                | Some (Ret (dev, fs)) \<Rightarrow>
                    (case mount_clusters nomem fs of
                       Fault f \<Rightarrow> Some (Fault f)
                     | Ret (Inl error) \<Rightarrow> Some (Ret (Inl error))
                     | Ret (Inr fs) \<Rightarrow> Some (Ret (Inr (mount_finish dev fs ronly)))))"

section \<open>\<^verbatim>\<open>ext2_unmount\<close> and \<^verbatim>\<open>ext2_statfs_internal\<close>\<close>

text \<open>\<open>flush\<close> is what \<^verbatim>\<open>vflush\<close> returns. The result is the device when the volume has been unmounted.\<close>

definition ext2_unmount :: "errno \<Rightarrow> ext2mount \<Rightarrow> (errno + device) outcome" where
  "ext2_unmount flush ump =
     (if flush \<noteq> 0 then Ret (Inl flush)
      else if e2fs_ronly (um_e2fs ump) \<noteq> 0 then Ret (Inr (um_devvp ump))
      else
        bnd (ext2_cgupdate ump True) (\<lambda>(error, ump).
        if error \<noteq> 0 then Ret (Inr (um_devvp ump))
        else
          let fs = um_e2fs ump;
              fs = (if e2fs_wasvalid fs \<noteq> 0 then fs\<lparr>e2fs := (e2fs fs)\<lparr>e2fs_state := e2fs_state (e2fs fs) OR E2FS_ISCLEAN\<rparr>\<rparr> else fs)
          in Ret (Inr (um_devvp (snd (ext2_sbupdate (ump\<lparr>um_e2fs := fs\<rparr>) True))))))"

definition EXT2F_COMPAT_RESIZE :: u32 where "EXT2F_COMPAT_RESIZE = 0x0010"

record vfsstatfs =
  f_bsize :: u32
  f_iosize :: u32
  f_blocks :: u32
  f_bfree :: u32
  f_bavail :: u32
  f_files :: u32
  f_ffree :: u32

fun count_sb_groups :: "nat \<Rightarrow> u32 outcome" where
  "count_sb_groups 0 = Ret 0"
| "count_sb_groups (Suc n) = bnd (count_sb_groups n) (\<lambda>k. bnd (cg_has_sb (int n)) (\<lambda>b. Ret (if b then k + 1 else k)))"

definition ext2_statfs_internal :: "m_ext2fs \<Rightarrow> (errno + vfsstatfs) outcome" where
  "ext2_statfs_internal fs =
     (let es = e2fs fs in
      if e2fs_magic es \<noteq> E2FS_MAGIC then Ret (Inl EINVAL)
      else
        let overhead = e2fs_first_dblock es + e2fs_gcount fs * (1 + 1 + e2fs_itpg fs) in
        bnd (if e2fs_rev es > E2FS_REV0 \<and> e2fs_features_rocompat es AND EXT2F_ROCOMPAT_SPARSESUPER \<noteq> 0
             then count_sb_groups (nat (sint (e2fs_gcount fs))) else Ret (e2fs_gcount fs)) (\<lambda>ngroups.
        let ngdb = e2fs_gdbcount fs + (if e2fs_rev es > E2FS_REV0 \<and> e2fs_features_compat es AND EXT2F_COMPAT_RESIZE \<noteq> 0
                                       then ucast (e2fs_reserved_ngdb es) else 0);
            overhead = overhead + ngroups * (1 + ngdb)
        in Ret (Inr \<lparr>f_bsize = e2fs_fsize fs, f_iosize = e2fs_bsize fs, f_blocks = e2fs_bcount es - overhead, f_bfree = e2fs_fbcount es,
             f_bavail = (if e2fs_fbcount es > e2fs_rbcount es then e2fs_fbcount es - e2fs_rbcount es else 0),
             f_files = e2fs_icount es, f_ffree = e2fs_ficount es\<rparr>)))"

end
