(* ===== verification/Ext2_Dir.thy ===== *)
theory Ext2_Dir
  imports Ext2_Extents Ext2_Super
begin

text \<open>
  Directories, from \<^verbatim>\<open>kext/ext2_lookup.c\<close> and \<^verbatim>\<open>include/fs/ext2fs/ext2_dir.h\<close>: the search of a directory, entering,
  removing and rewriting an entry, the test for an empty directory, the walk to the root and \<^verbatim>\<open>ext2_readdir\<close>, on the
  bytes of the directory's blocks as \<^verbatim>\<open>ext2_blkatoff\<close> delivers them, with \<^verbatim>\<open>ext2_meta_read\<close> of \<^verbatim>\<open>kext/ext2_readwrite.c\<close>.
\<close>

section \<open>Constants and macros\<close>

definition EJUSTRETURN :: errno where "EJUSTRETURN = - 2"
definition EISDIR :: errno where "EISDIR = 21"
definition EXT2_ROOTINO :: u32 where "EXT2_ROOTINO = 2"
definition ISVTX :: u16 where "ISVTX = 0x0200"

definition EXT2_DIR_REC_LEN :: "int \<Rightarrow> int" where
  "EXT2_DIR_REC_LEN name_len = (name_len + 8 + 3) AND NOT 3"

definition roundup2 :: "int \<Rightarrow> int \<Rightarrow> int" where
  "roundup2 x y = (x + (y - 1)) AND NOT (y - 1)"

text \<open>\<^verbatim>\<open>roundup2\<close> of a 64-bit size, stored in a \<^verbatim>\<open>doff_t\<close>.\<close>

definition roundup_size :: "u64 \<Rightarrow> int \<Rightarrow> u64" where
  "roundup_size x y = (x + word_of_int (y - 1)) AND NOT (word_of_int (y - 1))"

definition to_doff :: "u64 \<Rightarrow> int" where
  "to_doff x = s32 (uint x)"

definition DIRBLKSIZ :: "ext2mount \<Rightarrow> int" where
  "DIRBLKSIZ ump = s32 (uint (e2fs_bsize (um_e2fs ump)))"

definition ext2_ft_to_dt :: "u8 list" where
  "ext2_ft_to_dt = [0, 8, 4, 2, 6, 1, 12, 10]"

definition dt_to_ext2_ft :: "u8 list" where
  "dt_to_ext2_ft = [0, 5, 3, 0, 2, 0, 4, 0, 1, 0, 7, 0, 6, 0, 0]"

definition FTTODT :: "u8 \<Rightarrow> u8" where
  "FTTODT ft = (if unat ft < length ext2_ft_to_dt then ext2_ft_to_dt ! unat ft else 0)"

definition DTTOFT :: "u16 \<Rightarrow> u8" where
  "DTTOFT dt = (if unat dt < length dt_to_ext2_ft then dt_to_ext2_ft ! unat dt else 0)"

definition IFTODT :: "u16 \<Rightarrow> u16" where
  "IFTODT mode = drop_bit 12 (mode AND 0xF000)"

section \<open>Entries in a block\<close>

text \<open>The fields of the \<^verbatim>\<open>struct ext2fs_direct_2\<close> at offset \<open>o'\<close> of a block.\<close>

definition e2d_ino :: "bytes \<Rightarrow> int \<Rightarrow> u32 outcome" where "e2d_ino bs o' = ld32 bs o'"
definition e2d_reclen :: "bytes \<Rightarrow> int \<Rightarrow> u16 outcome" where "e2d_reclen bs o' = ld16 bs (o' + 4)"
definition e2d_namlen :: "bytes \<Rightarrow> int \<Rightarrow> u8 outcome" where "e2d_namlen bs o' = rd bs (o' + 6)"
definition e2d_type :: "bytes \<Rightarrow> int \<Rightarrow> u8 outcome" where "e2d_type bs o' = rd bs (o' + 7)"
definition e2d_name :: "bytes \<Rightarrow> int \<Rightarrow> nat \<Rightarrow> bytes outcome" where "e2d_name bs o' n = slice bs (o' + 8) n"

definition set_reclen :: "bytes \<Rightarrow> int \<Rightarrow> u16 \<Rightarrow> bytes outcome" where "set_reclen bs o' w = st16 bs (o' + 4) w"

text \<open>\<^verbatim>\<open>ext2_dirbad\<close> panics unless the volume is read-only, where it only prints.\<close>

definition ext2_dirbad :: "bool \<Rightarrow> unit outcome" where
  "ext2_dirbad rdonly = (if rdonly then Ret () else Fault (Panic ''ext2_dirbad''))"

definition ext2_dirbadentry :: "ext2mount \<Rightarrow> bytes \<Rightarrow> int \<Rightarrow> bool outcome" where
  "ext2_dirbadentry ump bs entryoffsetinblock =
     bnd (e2d_reclen bs entryoffsetinblock) (\<lambda>reclen.
     if uint reclen < EXT2_DIR_REC_LEN 1 then Ret True
     else if uint reclen mod 4 \<noteq> 0 then Ret True
     else
       bnd (e2d_namlen bs entryoffsetinblock) (\<lambda>namlen.
       if uint reclen < EXT2_DIR_REC_LEN (uint namlen) then Ret True
       else if entryoffsetinblock + uint reclen > DIRBLKSIZ ump then Ret True
       else
         bnd (e2d_ino bs entryoffsetinblock) (\<lambda>ino.
         Ret (ino > e2fs_icount (e2fs (um_e2fs ump))))))"

section \<open>\<^verbatim>\<open>ext2_lookup_ino\<close>\<close>

datatype nameiop = LOOKUP | CREATE | DELETE | RENAME

text \<open>The component name: the operation, whether it is the last component, and the name.\<close>

record componentname =
  cn_nameiop :: nameiop
  cn_islast :: bool
  cn_name :: bytes

datatype slotstatus = NONE | COMPACT | FOUND

text \<open>The local variables of the search.\<close>

record scan =
  sc_offset :: int
  sc_eo :: int
  sc_bp :: "bytes option"
  sc_status :: slotstatus
  sc_slotoffset :: int
  sc_slotsize :: int
  sc_slotfree :: int
  sc_prevoff :: int
  sc_enduseful :: int

text \<open>The space an entry adds to the slot that is looked for; \<open>len\<close> is what the entry itself needs.\<close>

definition slot_step :: "int \<Rightarrow> u32 \<Rightarrow> int \<Rightarrow> int \<Rightarrow> scan \<Rightarrow> scan" where
  "slot_step slotneeded ino reclen len s =
     (if sc_status s = FOUND then s
      else
        let space = (if ino \<noteq> 0 then reclen - len else reclen) in
        if space > 0 then
          if space \<ge> slotneeded then s\<lparr>sc_status := FOUND, sc_slotoffset := sc_offset s, sc_slotsize := reclen\<rparr>
          else if sc_status s = NONE then
            let s = s\<lparr>sc_slotfree := sc_slotfree s + space\<rparr>;
                s = (if sc_slotoffset s = - 1 then s\<lparr>sc_slotoffset := sc_offset s\<rparr> else s)
            in if sc_slotfree s \<ge> slotneeded
               then s\<lparr>sc_status := COMPACT, sc_slotsize := sc_offset s + reclen - sc_slotoffset s\<rparr> else s
          else s
        else s)"

text \<open>The next block is read when the search reaches its first byte.\<close>

definition scan_block :: "ext2mount \<Rightarrow> inode \<Rightarrow> scan \<Rightarrow> (errno + scan) outcome" where
  "scan_block ump dp s =
     (let bmask = DIRBLKSIZ ump - 1 in
      bnd (if sc_offset s AND bmask = 0
           then bnd (ext2_blkatoff ump dp (sc_offset s)) (\<lambda>r.
                case r of Inl error \<Rightarrow> Ret (Inl error) | Inr (a, bs, res) \<Rightarrow> Ret (Inr (s\<lparr>sc_bp := Some bs, sc_eo := 0\<rparr>)))
           else Ret (Inr s)) (\<lambda>r.
      case r of
        Inl error \<Rightarrow> Ret (Inl error)
      | Inr s \<Rightarrow> Ret (Inr (if sc_status s = NONE \<and> sc_eo s AND bmask = 0
                          then s\<lparr>sc_slotoffset := - 1, sc_slotfree := 0\<rparr> else s))))"

text \<open>
  One entry: whether it is mangled, its inode number, the slot bookkeeping and the comparison with the name. The
  three results are a mangled entry, a match with its inode number, and an entry to step over.
\<close>

datatype visit = Mangled | Hit u32 | Step u32 int

definition visit_entry :: "bool \<Rightarrow> ext2mount \<Rightarrow> bytes \<Rightarrow> int \<Rightarrow> bytes \<Rightarrow> scan \<Rightarrow> (visit \<times> scan) outcome" where
  "visit_entry dirchk ump name slotneeded bs s =
     bnd (e2d_reclen bs (sc_eo s)) (\<lambda>reclen.
     bnd (if reclen = 0 then Ret True else if dirchk then ext2_dirbadentry ump bs (sc_eo s) else Ret False) (\<lambda>bad.
     if bad then Ret (Mangled, s)
     else
       bnd (e2d_ino bs (sc_eo s)) (\<lambda>ino.
       if ino = 0 then Ret (Step 0 (uint reclen), slot_step slotneeded 0 (uint reclen) 0 s)
       else
         bnd (e2d_namlen bs (sc_eo s)) (\<lambda>namlen.
         let s' = slot_step slotneeded ino (uint reclen) (EXT2_DIR_REC_LEN (uint namlen)) s in
         bnd (if uint namlen = int (length name) then bnd (e2d_name bs (sc_eo s) (unat namlen)) (\<lambda>x. Ret (x = name)) else Ret False) (\<lambda>hit.
         Ret (if hit then Hit ino else Step ino (uint reclen), s'))))))"

text \<open>
  \<^verbatim>\<open>searchloop\<close>. A mangled entry is skipped to the end of its block. Offsets past the range of \<^verbatim>\<open>int\<close> overflow, which
  is undefined.
\<close>

function search_loop :: "bool \<Rightarrow> bool \<Rightarrow> ext2mount \<Rightarrow> inode \<Rightarrow> bytes \<Rightarrow> int \<Rightarrow> int \<Rightarrow> scan \<Rightarrow> (errno + u32 option \<times> scan) outcome" where
  "search_loop dirchk rdonly ump dp name slotneeded endsearch s =
     (if \<not> sc_offset s < endsearch then Ret (Inr (None, s))
      else
        bnd (scan_block ump dp s) (\<lambda>r.
        case r of
          Inl error \<Rightarrow> Ret (Inl error)
        | Inr s' \<Rightarrow>
            (case sc_bp s' of
               None \<Rightarrow> Fault NullDeref
             | Some bs \<Rightarrow>
                 bnd (visit_entry dirchk ump name slotneeded bs s') (\<lambda>(v, s').
                 case v of
                   Hit ino \<Rightarrow> Ret (Inr (Some ino, s'))
                 | Mangled \<Rightarrow>
                     bnd (ext2_dirbad rdonly) (\<lambda>_.
                     let i = DIRBLKSIZ ump - (sc_eo s' AND (DIRBLKSIZ ump - 1)) in
                     if i \<le> 0 \<or> sc_offset s + i > 0x7fffffff then Fault Undef
                     else search_loop dirchk rdonly ump dp name slotneeded endsearch
                            (s'\<lparr>sc_offset := sc_offset s + i, sc_eo := sc_eo s' + i\<rparr>))
                 | Step ino reclen \<Rightarrow>
                     if reclen \<le> 0 \<or> sc_offset s + reclen > 0x7fffffff then Fault Undef
                     else
                       let next = sc_offset s + reclen in
                       search_loop dirchk rdonly ump dp name slotneeded endsearch
                         (s'\<lparr>sc_prevoff := sc_offset s, sc_offset := next, sc_eo := sc_eo s' + reclen,
                            sc_enduseful := (if ino \<noteq> 0 then next else sc_enduseful s')\<rparr>)))))"
  by pat_completeness auto
termination
  by (relation "measure (\<lambda>(dirchk, rdonly, ump, dp, name, slotneeded, endsearch, s). nat (endsearch - sc_offset s))")
     (auto simp: Let_def)

declare search_loop.simps [simp del]


text \<open>
  The whole search: the initial values, the cached offset a lookup starts from, and the second pass over the part before
  it. \<^verbatim>\<open>f_iosize\<close> of the mount is the block size, as \<^const>\<open>ext2_statfs_internal\<close> sets it. The result carries
  \<^verbatim>\<open>numdirpasses\<close> as the search leaves it.
\<close>

definition scan_creating :: "componentname \<Rightarrow> bool" where
  "scan_creating cn \<longleftrightarrow> (cn_nameiop cn = CREATE \<or> cn_nameiop cn = RENAME) \<and> cn_islast cn"

definition scan_start :: "componentname \<Rightarrow> scan" where
  "scan_start cn = \<lparr>sc_offset = 0, sc_eo = 0, sc_bp = None, sc_status = (if scan_creating cn then NONE else FOUND),
     sc_slotoffset = - 1, sc_slotsize = 0, sc_slotfree = 0, sc_prevoff = 0, sc_enduseful = 0\<rparr>"

definition slot_needed :: "componentname \<Rightarrow> int" where
  "slot_needed cn = (if scan_creating cn then EXT2_DIR_REC_LEN (int (length (cn_name cn))) else 0)"

definition dir_search :: "bool \<Rightarrow> bool \<Rightarrow> ext2mount \<Rightarrow> inode \<Rightarrow> componentname \<Rightarrow> (errno + u32 option \<times> int \<times> scan) outcome" where
  "dir_search dirchk rdonly ump dp cn =
     (let loop = search_loop dirchk rdonly ump dp (cn_name cn) (slot_needed cn);
          endsearch = to_doff (roundup_size (i_size dp) (DIRBLKSIZ ump));
          start = i_diroff dp
      in if cn_nameiop cn \<noteq> LOOKUP \<or> start = 0 \<or> (word_of_int start :: u64) > i_size dp then
           bnd (loop endsearch (scan_start cn)) (\<lambda>r.
           case r of Inl error \<Rightarrow> Ret (Inl error) | Inr (hit, s) \<Rightarrow> Ret (Inr (hit, 1, s)))
         else
           let eo = start AND (DIRBLKSIZ ump - 1) in
           bnd (if eo \<noteq> 0 then bnd (ext2_blkatoff ump dp start) (\<lambda>r.
                  case r of Inl error \<Rightarrow> Ret (Inl error) | Inr (a, bs, res) \<Rightarrow> Ret (Inr (Some bs)))
                else Ret (Inr None)) (\<lambda>r.
           case r of
             Inl error \<Rightarrow> Ret (Inl error)
           | Inr bp \<Rightarrow>
               bnd (loop endsearch ((scan_start cn)\<lparr>sc_offset := start, sc_eo := eo, sc_bp := bp, sc_prevoff := start\<rparr>)) (\<lambda>r.
               case r of
                 Inl error \<Rightarrow> Ret (Inl error)
               | Inr (Some ino, s) \<Rightarrow> Ret (Inr (Some ino, 2, s))
               | Inr (None, s) \<Rightarrow>
                   bnd (loop start (s\<lparr>sc_offset := 0\<rparr>)) (\<lambda>r.
                   case r of Inl error \<Rightarrow> Ret (Inl error) | Inr (hit, s) \<Rightarrow> Ret (Inr (hit, 1, s))))))"

text \<open>The end of a search that found nothing: where an entry may go, or \<^const>\<open>ENOENT\<close>.\<close>

definition lookup_notfound :: "ext2mount \<Rightarrow> inode \<Rightarrow> componentname \<Rightarrow> scan \<Rightarrow> errno \<times> inode" where
  "lookup_notfound ump dp cn s =
     (if scan_creating cn \<and> i_nlink dp \<noteq> 0 then
        let atend = to_doff (roundup_size (i_size dp) (DIRBLKSIZ ump)); slotend = sc_slotoffset s + sc_slotsize s;
            (off, count, enduseful) =
              (if sc_status s = NONE then (atend, 0, atend)
               else (sc_slotoffset s, sc_slotsize s, if sc_enduseful s < slotend then slotend else sc_enduseful s))
        in (EJUSTRETURN, dp\<lparr>i_offset := off, i_count := count, i_endoff := roundup2 enduseful (DIRBLKSIZ ump)\<rparr>)
      else (ENOENT, dp))"

text \<open>The repair of a size that is too small, and the offset kept for the next lookup.\<close>

definition lookup_found :: "bool \<Rightarrow> ext2mount \<Rightarrow> inode \<Rightarrow> componentname \<Rightarrow> int \<Rightarrow> scan \<Rightarrow> inode outcome" where
  "lookup_found rdonly ump dp cn numdirpasses s =
     (let len = sc_eo s + EXT2_DIR_REC_LEN (int (length (cn_name cn))) in
      bnd (if numdirpasses = 2 \<and> len > sint (i_size dp)
           then bnd (ext2_dirbad rdonly) (\<lambda>_. Ret (dp\<lparr>i_size := word_of_int len, i_flag := i_flag dp OR (IN_CHANGE OR IN_UPDATE)\<rparr>))
           else Ret dp) (\<lambda>dp.
      Ret (if cn_islast cn \<and> cn_nameiop cn = LOOKUP
           then dp\<lparr>i_diroff := sc_offset s AND NOT (DIRBLKSIZ ump - 1)\<rparr> else dp)))"

text \<open>
  A vnode is its inode. \<open>get\<close> is what \<^verbatim>\<open>vnode_get\<close> returns for the directory, \<open>vget\<close> is \<^verbatim>\<open>ext2_vget\<close> on the mount and
  \<open>uid\<close> the caller's user. \<^verbatim>\<open>dd_ino\<close> is null in the only call; entering the name into the kernel's name cache has no effect on the
  driver. The result is the error or the target, with the directory's inode.
\<close>

definition ext2_lookup_ino :: "bool \<Rightarrow> bool \<Rightarrow> u32 \<Rightarrow> errno \<Rightarrow> (u32 \<Rightarrow> errno + inode) \<Rightarrow> ext2mount \<Rightarrow> inode \<Rightarrow> componentname \<Rightarrow>
    ((errno + inode) \<times> inode) outcome" where
  "ext2_lookup_ino dirchk rdonly uid get vget ump dp cn =
     bnd (dir_search dirchk rdonly ump dp cn) (\<lambda>r.
     case r of
       Inl error \<Rightarrow> Ret (Inl error, dp)
     | Inr (None, passes, s) \<Rightarrow> (let (error, dp) = lookup_notfound ump dp cn s in Ret (Inl error, dp))
     | Inr (Some ino, passes, s) \<Rightarrow>
         bnd (lookup_found rdonly ump dp cn passes s) (\<lambda>dp.
         if cn_nameiop cn = DELETE \<and> cn_islast cn then
           let dp = dp\<lparr>i_offset := sc_offset s,
                       i_count := (if sc_offset s AND (DIRBLKSIZ ump - 1) = 0 then 0 else sc_offset s - sc_prevoff s)\<rparr>
           in if i_number dp = ino then Ret (Inr dp, dp)
              else (case vget ino of
                      Inl error \<Rightarrow> Ret (Inl error, dp)
                    | Inr tdp \<Rightarrow>
                        if i_mode dp AND ISVTX \<noteq> 0 \<and> uid \<noteq> 0 \<and> uid \<noteq> i_uid dp \<and> i_uid tdp \<noteq> uid
                        then Ret (Inl EPERM, dp) else Ret (Inr tdp, dp))
         else if cn_nameiop cn = RENAME \<and> cn_islast cn then
           let dp = dp\<lparr>i_offset := sc_offset s\<rparr>
           in if i_number dp = ino then Ret (Inl EISDIR, dp)
              else (case vget ino of Inl error \<Rightarrow> Ret (Inl error, dp) | Inr tdp \<Rightarrow> Ret (Inr tdp, dp))
         else if i_number dp = ino then Ret (if get \<noteq> 0 then Inl get else Inr dp, dp)
         else (case vget ino of Inl error \<Rightarrow> Ret (Inl error, dp) | Inr tdp \<Rightarrow> Ret (Inr tdp, dp))))"

section \<open>\<^verbatim>\<open>ext2_direnter\<close>, \<^verbatim>\<open>ext2_dirremove\<close> and \<^verbatim>\<open>ext2_dirrewrite\<close>\<close>

text \<open>
  The buffer \<^verbatim>\<open>ext2_blkatoff\<close> returned goes back to the address it was read from; the buffer of a hole has no address, and
  \<^verbatim>\<open>buf_strategy\<close> drops the write. With \<open>async\<close> the write is delayed and its error is not seen.
\<close>

definition put_block :: "bool \<Rightarrow> ext2mount \<Rightarrow> int \<Rightarrow> bytes \<Rightarrow> errno \<times> ext2mount" where
  "put_block async ump a bs =
     (if a = - 1 then (0, ump)
      else let (e, d) = buf_bwrite (um_devvp ump) a bs in (if async then 0 else e, ump\<lparr>um_devvp := d\<rparr>))"

definition ft_of :: "m_ext2fs \<Rightarrow> inode \<Rightarrow> u8" where
  "ft_of fs ip = (if EXT2_HAS_INCOMPAT_FEATURE fs EXT2F_INCOMPAT_FTYPE then DTTOFT (IFTODT (i_mode ip)) else 0)"

text \<open>
  The first \<^verbatim>\<open>newentrysize\<close> bytes of the new entry, which is built on the stack: after the name and its terminator come the
  bytes the stack held, \<open>junk\<close>.
\<close>

definition newdir_bytes :: "m_ext2fs \<Rightarrow> inode \<Rightarrow> bytes \<Rightarrow> bytes \<Rightarrow> u16 \<Rightarrow> bytes" where
  "newdir_bytes fs ip name junk reclen =
     take (nat (EXT2_DIR_REC_LEN (int (length name))))
       (bytes_of (i_number ip) @ bytes16 reclen @ [of_nat (length name), ft_of fs ip] @ name @ [0] @ junk)"

text \<open>
  The compaction: \<open>o'\<close> is the offset of \<^verbatim>\<open>dirbuf\<close> in the block, \<open>p\<close> that of \<^verbatim>\<open>ep\<close> from there. \<open>None\<close> when a record of length
  zero keeps it from ending.
\<close>

definition compact_step :: "int \<Rightarrow> bytes \<Rightarrow> int \<Rightarrow> int \<Rightarrow> int \<Rightarrow> int \<Rightarrow> (bytes \<times> int \<times> int \<times> int \<times> int) outcome" where
  "compact_step o' bs p dsize spacefree loc =
     bnd (e2d_ino bs (o' + p)) (\<lambda>ino.
     bnd (if ino \<noteq> 0 then bnd (set_reclen bs (o' + p) (word_of_int dsize)) (\<lambda>bs. Ret (bs, p + dsize, spacefree))
          else Ret (bs, p, spacefree + dsize)) (\<lambda>(bs, p, spacefree).
     bnd (e2d_namlen bs (o' + loc)) (\<lambda>namlen.
     bnd (e2d_reclen bs (o' + loc)) (\<lambda>reclen.
     let dsize = EXT2_DIR_REC_LEN (uint namlen) in
     bnd (slice bs (o' + loc) (nat dsize)) (\<lambda>x.
     bnd (blit bs (o' + p) x) (\<lambda>bs.
     Ret (bs, p, dsize, spacefree + uint reclen - dsize, loc + uint reclen)))))))"

partial_function (option) compact_loop ::
  "int \<Rightarrow> int \<Rightarrow> bytes \<Rightarrow> int \<Rightarrow> int \<Rightarrow> int \<Rightarrow> int \<Rightarrow> (bytes \<times> int \<times> int \<times> int) outcome option" where
  "compact_loop o' count bs p dsize spacefree loc =
     (if \<not> loc < count then Some (Ret (bs, p, dsize, spacefree))
      else case compact_step o' bs p dsize spacefree loc of
             Fault f \<Rightarrow> Some (Fault f)
           | Ret (bs, p, dsize, spacefree, loc) \<Rightarrow> compact_loop o' count bs p dsize spacefree loc)"

declare compact_loop.simps [code]

text \<open>The block with the new entry in the slot; \<open>new\<close> gives the bytes of the entry for its record length.\<close>

definition enter_last :: "int \<Rightarrow> (u16 \<Rightarrow> bytes) \<Rightarrow> int \<Rightarrow> bytes \<Rightarrow> int \<Rightarrow> int \<Rightarrow> int \<Rightarrow> bytes outcome" where
  "enter_last o' new newentrysize bs p dsize spacefree =
     bnd (e2d_ino bs (o' + p)) (\<lambda>ino.
     if ino = 0 then
       if spacefree + dsize < newentrysize then Fault (Panic ''compact1'')
       else blit bs (o' + p) (new (word_of_int (spacefree + dsize)))
     else
       if spacefree < newentrysize then Fault (Panic ''compact2'')
       else
         bnd (set_reclen bs (o' + p) (word_of_int dsize)) (\<lambda>bs.
         blit bs (o' + p + dsize) (new (word_of_int spacefree))))"

definition enter_slot :: "(u16 \<Rightarrow> bytes) \<Rightarrow> int \<Rightarrow> int \<Rightarrow> int \<Rightarrow> bytes \<Rightarrow> bytes outcome option" where
  "enter_slot new newentrysize o' count bs =
     (case bnd (e2d_namlen bs o') (\<lambda>namlen. bnd (e2d_reclen bs o') (\<lambda>reclen. Ret (EXT2_DIR_REC_LEN (uint namlen), uint reclen))) of
        Fault f \<Rightarrow> Some (Fault f)
      | Ret (dsize, reclen) \<Rightarrow>
          map_option (\<lambda>r. bnd r (\<lambda>(bs, p, dsize, spacefree). enter_last o' new newentrysize bs p dsize spacefree))
            (compact_loop o' count bs 0 dsize (reclen - dsize) reclen))"

text \<open>
  \<open>write\<close> is \<^verbatim>\<open>vn_rdwr\<close> writing to the directory and \<open>trunc\<close> is \<^verbatim>\<open>ext2_truncate\<close> of the directory; both return the error with the mount
  and the directory's inode. \<^verbatim>\<open>f_bsize\<close> of the mount is the fragment size, as \<^const>\<open>ext2_statfs_internal\<close> sets it.
\<close>

definition ext2_direnter :: "(ext2mount \<Rightarrow> inode \<Rightarrow> bytes \<Rightarrow> int \<Rightarrow> (errno \<times> ext2mount \<times> inode) outcome) \<Rightarrow>
    (ext2mount \<Rightarrow> inode \<Rightarrow> int \<Rightarrow> (errno \<times> ext2mount \<times> inode) outcome) \<Rightarrow> bool \<Rightarrow> bytes \<Rightarrow> ext2mount \<Rightarrow> inode \<Rightarrow> inode \<Rightarrow> bytes \<Rightarrow>
    (errno \<times> ext2mount \<times> inode) outcome option" where
  "ext2_direnter write trunc async junk ump ip dp name =
     (let fs = um_e2fs ump; new = newdir_bytes fs ip name junk; newentrysize = EXT2_DIR_REC_LEN (int (length name)) in
      if i_count dp = 0 then
        if i_offset dp AND (DIRBLKSIZ ump - 1) \<noteq> 0 then Some (Fault (Panic ''newblk''))
        else Some (
          bnd (write ump dp (new (word_of_int (DIRBLKSIZ ump))) (i_offset dp)) (\<lambda>(error, ump, dp).
          if uint (e2fs_bsize fs) > uint (e2fs_fsize fs) then Fault (Panic ''frag size'')
          else if error = 0
            then Ret (0, ump, dp\<lparr>i_size := roundup_size (i_size dp) (DIRBLKSIZ ump), i_flag := i_flag dp OR IN_CHANGE\<rparr>)
            else Ret (error, ump, dp)))
      else
        let slotend = i_offset dp + i_count dp;
            dp = (if (word_of_int slotend :: u64) > i_size dp then dp\<lparr>i_size := word_of_int slotend\<rparr> else dp)
        in case ext2_blkatoff ump dp (i_offset dp) of
             Fault f \<Rightarrow> Some (Fault f)
           | Ret (Inl error) \<Rightarrow> Some (Ret (error, ump, dp))
           | Ret (Inr (a, bs, o')) \<Rightarrow>
               map_option (\<lambda>r. bnd r (\<lambda>bs.
                 let (error, ump) = put_block async ump a bs; dp = dp\<lparr>i_flag := i_flag dp OR (IN_CHANGE OR IN_UPDATE)\<rparr>
                 in if error = 0 \<and> i_endoff dp \<noteq> 0 \<and> (word_of_int (i_endoff dp) :: u64) < i_size dp
                    then trunc ump dp (i_endoff dp) else Ret (error, ump, dp)))
                 (enter_slot new newentrysize o' (i_count dp) bs))"

definition dir_modified :: "inode \<Rightarrow> inode" where
  "dir_modified dp = dp\<lparr>i_flag := i_flag dp OR (IN_CHANGE OR IN_UPDATE)\<rparr>"

definition ext2_dirremove :: "bool \<Rightarrow> ext2mount \<Rightarrow> inode \<Rightarrow> (errno \<times> ext2mount \<times> inode) outcome" where
  "ext2_dirremove async ump dp =
     (if i_count dp = 0 then
        bnd (ext2_blkatoff ump dp (i_offset dp)) (\<lambda>r.
        case r of
          Inl error \<Rightarrow> Ret (error, ump, dp)
        | Inr (a, bs, o') \<Rightarrow>
            bnd (st32 bs o' 0) (\<lambda>bs. let (error, ump) = put_block False ump a bs in Ret (error, ump, dir_modified dp)))
      else
        bnd (ext2_blkatoff ump dp (i_offset dp - i_count dp)) (\<lambda>r.
        case r of
          Inl error \<Rightarrow> Ret (error, ump, dp)
        | Inr (a, bs, o') \<Rightarrow>
            bnd (e2d_reclen bs o') (\<lambda>eplen.
            bnd (e2d_reclen bs (o' + uint eplen)) (\<lambda>replen.
            bnd (set_reclen bs o' (eplen + replen)) (\<lambda>bs.
            let (error, ump) = put_block async ump a bs in Ret (error, ump, dir_modified dp))))))"

definition ext2_dirrewrite :: "ext2mount \<Rightarrow> inode \<Rightarrow> inode \<Rightarrow> (errno \<times> ext2mount \<times> inode) outcome" where
  "ext2_dirrewrite ump dp ip =
     bnd (ext2_blkatoff ump dp (i_offset dp)) (\<lambda>r.
     case r of
       Inl error \<Rightarrow> Ret (error, ump, dp)
     | Inr (a, bs, o') \<Rightarrow>
         bnd (st32 bs o' (i_number ip)) (\<lambda>bs.
         bnd (wr bs (o' + 7) (ft_of (um_e2fs ump) ip)) (\<lambda>bs.
         let (error, ump) = put_block False ump a bs in Ret (error, ump, dir_modified dp))))"

section \<open>\<^verbatim>\<open>ext2_meta_read\<close>, \<^verbatim>\<open>ext2_dirempty\<close> and \<^verbatim>\<open>ext2_checkpath\<close>\<close>

text \<open>The bytes moved to the caller for a request of \<open>resid\<close> bytes at \<open>off\<close>, with the error.\<close>

function ext2_meta_read :: "ext2mount \<Rightarrow> inode \<Rightarrow> int \<Rightarrow> nat \<Rightarrow> (errno \<times> bytes) outcome" where
  "ext2_meta_read ump ip off resid =
     (if resid = 0 \<or> (word_of_int off :: u64) \<ge> i_size ip then Ret (0, [])
      else
        bnd (ext2_blkatoff ump ip off) (\<lambda>r.
        case r of
          Inl error \<Rightarrow> Ret (error, [])
        | Inr (a, bs, res) \<Rightarrow>
            let n = min (int (length bs) - blkoff (um_e2fs ump) off) (int resid);
                n = (if (word_of_int (off + n) :: u64) > i_size ip then sint (i_size ip - word_of_int off) else n)
            in if n \<le> 0 then Ret (0, [])
               else
                 bnd (slice bs (blkoff (um_e2fs ump) off) (nat n)) (\<lambda>x.
                 bnd (ext2_meta_read ump ip (off + n) (resid - nat n)) (\<lambda>(error, y). Ret (error, x @ y)))))"
  by pat_completeness auto
termination
  by (relation "measure (\<lambda>(ump, ip, off, resid). resid)") (auto simp: Let_def)

declare ext2_meta_read.simps [simp del]

text \<open>
  The loop reads the first twelve bytes of an entry. An error or a short read gives 0, a directory that is not empty.
\<close>

definition MINDIRSIZ :: nat where "MINDIRSIZ = 12"

function dirempty_loop :: "ext2mount \<Rightarrow> inode \<Rightarrow> u32 \<Rightarrow> int \<Rightarrow> bool outcome" where
  "dirempty_loop ump ip parentino off =
     (if \<not> (word_of_int off :: u64) < i_size ip then Ret True
      else
        bnd (ext2_meta_read ump ip off MINDIRSIZ) (\<lambda>(error, d).
        if error \<noteq> 0 \<or> length d \<noteq> MINDIRSIZ then Ret False
        else
          bnd (e2d_reclen d 0) (\<lambda>reclen.
          if reclen = 0 then Ret False
          else
            bnd (e2d_ino d 0) (\<lambda>ino.
            bnd (e2d_namlen d 0) (\<lambda>namlen.
            bnd (e2d_name d 0 2) (\<lambda>name.
            if ino \<noteq> 0 \<and> namlen > 2 then Ret False
            else if ino \<noteq> 0 \<and> name ! 0 \<noteq> 0x2E then Ret False
            else if ino \<noteq> 0 \<and> namlen \<noteq> 1 \<and> \<not> (name ! 1 = 0x2E \<and> ino = parentino) then Ret False
            else if off + uint reclen > 0x7fffffffffffffff then Fault Undef
            else dirempty_loop ump ip parentino (off + uint reclen)))))))"
  by pat_completeness auto
termination
proof (relation "measure (\<lambda>(ump, ip, parentino, off). nat (0x8000000000000000 - off))", goal_cases)
  case (2 ump ip parentino off x xa y reclen)
  then have "uint reclen \<noteq> 0" by (simp add: uint_0_iff)
  then have "0 < uint reclen" using uint_ge_0 [of reclen] by linarith
  then show ?case using 2 by simp
qed simp

declare dirempty_loop.simps [simp del]

definition ext2_dirempty :: "ext2mount \<Rightarrow> inode \<Rightarrow> u32 \<Rightarrow> bool outcome" where
  "ext2_dirempty ump ip parentino = dirempty_loop ump ip parentino 0"

text \<open>
  The walk to the root. \<open>vget\<close> is \<^verbatim>\<open>ext2_vget\<close>; \<^verbatim>\<open>vn_rdwr\<close> without a residual count fails with \<^const>\<open>EIO\<close> on a short read. The template's second entry
  starts at byte 12; the source takes the type byte, at 19, for the length of its name. \<open>None\<close> when the walk does not end.
\<close>

partial_function (option) checkpath_loop :: "(u32 \<Rightarrow> errno + inode) \<Rightarrow> ext2mount \<Rightarrow> u32 \<Rightarrow> inode \<Rightarrow> errno outcome option" where
  "checkpath_loop vget ump source vp =
     (if i_mode vp AND IFMT \<noteq> IFDIR then Some (Ret ENOTDIR)
      else case ext2_meta_read ump vp 0 24 of
             Fault f \<Rightarrow> Some (Fault f)
           | Ret (error, d) \<Rightarrow>
               if error \<noteq> 0 then Some (Ret error)
               else if length d \<noteq> 24 then Some (Ret EIO)
               else if d ! 19 \<noteq> 2 \<or> d ! 20 \<noteq> 0x2E \<or> d ! 21 \<noteq> 0x2E then Some (Ret ENOTDIR)
               else
                 let dotdot_ino = le32 (take 4 (drop 12 d)) in
                 if dotdot_ino = source then Some (Ret EINVAL)
                 else if dotdot_ino = EXT2_ROOTINO then Some (Ret 0)
                 else (case vget dotdot_ino of
                         Inl error \<Rightarrow> Some (Ret error)
                       | Inr vp \<Rightarrow> checkpath_loop vget ump source vp))"

declare checkpath_loop.simps [code]

definition ext2_checkpath :: "(u32 \<Rightarrow> errno + inode) \<Rightarrow> ext2mount \<Rightarrow> inode \<Rightarrow> inode \<Rightarrow> errno outcome option" where
  "ext2_checkpath vget ump source target =
     (if i_number target = i_number source then Some (Ret EEXIST)
      else if i_number target = EXT2_ROOTINO then Some (Ret 0)
      else checkpath_loop vget ump (i_number source) target)"


section \<open>\<^verbatim>\<open>ext2_readdir\<close>\<close>

text \<open>
  What is handed to the caller, \<^verbatim>\<open>struct dirent\<close> of XNU's \<^verbatim>\<open>sys/dirent.h\<close>, without the padding of its name; its name starts at byte
  eight. The \<open>n\<close>th \<^verbatim>\<open>uiomove\<close> gives the error \<open>umove n\<close>.
\<close>

record dirent =
  d_ino :: u32
  d_reclen :: u16
  d_type :: u8
  d_namlen :: u8
  d_name :: bytes

definition EXT2_DIRENT_RECLEN :: "int \<Rightarrow> u16" where
  "EXT2_DIRENT_RECLEN namlen = word_of_int ((8 + namlen + 1 + 3) AND NOT 3)"

text \<open>The entries of one block from byte \<open>pos\<close> on; \<open>offset\<close> is the file offset of that byte, \<open>out\<close> what has been moved.\<close>

function readdir_block :: "(nat \<Rightarrow> errno) \<Rightarrow> bytes \<Rightarrow> int \<Rightarrow> int \<Rightarrow> int \<Rightarrow> int \<Rightarrow> int \<Rightarrow> int \<Rightarrow> dirent list \<Rightarrow>
    (errno \<times> int \<times> int \<times> dirent list) outcome" where
  "readdir_block umove bs readcnt startoffset startresid pos offset resid out =
     (if \<not> (resid > 0 \<and> pos < readcnt) then Ret (0, offset, resid, out)
      else
        bnd (e2d_reclen bs pos) (\<lambda>reclen.
        if uint reclen \<le> 6 \<or> pos + uint reclen > readcnt then Ret (EIO, offset, resid, out)
        else
          bnd (e2d_namlen bs pos) (\<lambda>namlen.
          bnd (e2d_type bs pos) (\<lambda>ty.
          if 6 + uint namlen > uint reclen then Ret (EIO, offset, resid, out)
          else
            bnd (e2d_ino bs pos) (\<lambda>ino.
            if offset < startoffset \<or> ino = 0 then
              readdir_block umove bs readcnt startoffset startresid (pos + uint reclen) (offset + uint reclen) resid out
            else
              bnd (e2d_name bs pos (unat namlen)) (\<lambda>name.
              let d = \<lparr>d_ino = ino, d_reclen = EXT2_DIRENT_RECLEN (uint namlen), d_type = FTTODT ty, d_namlen = namlen, d_name = name\<rparr> in
              if uint (d_reclen d) > resid
              then Ret (if resid = startresid then EINVAL else EJUSTRETURN, offset, resid, out)
              else if umove (length out) \<noteq> 0 then Ret (umove (length out), offset, resid, out)
              else readdir_block umove bs readcnt startoffset startresid (pos + uint reclen) (offset + uint reclen)
                     (resid - uint (d_reclen d)) (out @ [d])))))))"
  by pat_completeness auto
termination
  by (relation "measure (\<lambda>(umove, bs, readcnt, startoffset, startresid, pos, offset, resid, out). nat (readcnt - pos))")
     (auto simp: Let_def)

declare readdir_block.simps [simp del]

partial_function (option) readdir_loop ::
  "(nat \<Rightarrow> errno) \<Rightarrow> ext2mount \<Rightarrow> inode \<Rightarrow> int \<Rightarrow> int \<Rightarrow> int \<Rightarrow> int \<Rightarrow> dirent list \<Rightarrow> (errno \<times> int \<times> int \<times> dirent list) outcome option" where
  "readdir_loop umove ump ip startoffset startresid uoff resid out =
     (if \<not> (resid > 0 \<and> (word_of_int uoff :: u64) < i_size ip) then Some (Ret (0, uoff, resid, out))
      else case ext2_blkatoff ump ip uoff of
             Fault f \<Rightarrow> Some (Fault f)
           | Ret (Inl error) \<Rightarrow> Some (Ret (error, uoff, resid, out))
           | Ret (Inr (a, bs, res)) \<Rightarrow>
               let boff = lblkno (um_e2fs ump) uoff * DIRBLKSIZ ump; bcount = int (length bs);
                   readcnt = (if (word_of_int (boff + bcount) :: u64) > i_size ip then uint (i_size ip - word_of_int boff) else bcount);
                   skipcnt = (uoff - boff) AND NOT (DIRBLKSIZ ump - 1)
               in case readdir_block umove bs readcnt startoffset startresid skipcnt (boff + skipcnt) resid out of
                    Fault f \<Rightarrow> Some (Fault f)
                  | Ret (error, offset, resid, out) \<Rightarrow>
                      if error \<noteq> 0 then Some (Ret (error, offset, resid, out))
                      else readdir_loop umove ump ip startoffset startresid offset resid out)"

declare readdir_loop.simps [code]

text \<open>The error, the entries, the offset the directory is left at, and the end-of-file flag when there is no error.\<close>

definition ext2_readdir :: "(nat \<Rightarrow> errno) \<Rightarrow> bool \<Rightarrow> ext2mount \<Rightarrow> inode \<Rightarrow> int \<Rightarrow> int \<Rightarrow> (errno \<times> dirent list \<times> int \<times> bool) outcome option" where
  "ext2_readdir umove extended ump ip offset resid =
     (if extended \<or> offset < 0 then Some (Ret (EINVAL, [], offset, False))
      else
        map_option (\<lambda>r. bnd r (\<lambda>(error, offset, resid, out).
          let error = (if error = EJUSTRETURN then 0 else error)
          in Ret (error, out, offset, error = 0 \<and> i_size ip \<le> word_of_int offset)))
          (readdir_loop umove ump ip offset resid offset resid []))"

end
