(* ===== verification/Ext2_Write.thy ===== *)
theory Ext2_Write
  imports Ext2_Inode Ext2_Dir
begin

text \<open>
  The rest of \<^verbatim>\<open>kext/ext2_readwrite.c\<close>: \<^verbatim>\<open>ext2_read\<close>, \<^verbatim>\<open>ext2_write\<close> with \<^verbatim>\<open>ext2_meta_write\<close> and \<^verbatim>\<open>ext2_extend_alloc\<close>, and the
  routines of the pager. \<^verbatim>\<open>cluster_read\<close>, \<^verbatim>\<open>cluster_write\<close> and \<^verbatim>\<open>cluster_pageout\<close> belong to the kernel and are arguments.
\<close>

text \<open>
  What a call learns besides the inode: the kind of the vnode, whether the request comes from user space, the error of
  \<^verbatim>\<open>uiomove\<close> at an offset of the file, and what \<^verbatim>\<open>kauth_cred_getuid(NOCRED)\<close> gives. \<open>be_sync\<close> is \<^verbatim>\<open>IO_SYNC\<close>.
\<close>

record write_env =
  we_inode :: inode_env
  we_nocred :: "u32 outcome"
  we_isdir :: bool
  we_isreg :: bool
  we_user :: bool
  we_append :: bool
  we_move :: "int \<Rightarrow> errno"

abbreviation io_sync :: "write_env \<Rightarrow> bool" where
  "io_sync env \<equiv> be_sync (ie_balloc (we_inode env))"

section \<open>\<^verbatim>\<open>ext2_meta_write\<close>\<close>

text \<open>\<^verbatim>\<open>buf_bwrite\<close> of block \<open>lbn\<close> of the file, with its error.\<close>

definition file_bwrite_sync :: "inode \<Rightarrow> int \<Rightarrow> bytes \<Rightarrow> ext2mount \<Rightarrow> (errno \<times> ext2mount) outcome" where
  "file_bwrite_sync ip lbn bs ump =
     (case ext2_blktooff (um_e2fs ump) lbn True of
        Inl e \<Rightarrow> Ret (e, ump)
      | Inr off \<Rightarrow>
          bnd (ext2_blockmap ump ip off (blksize (um_e2fs ump)) 0 True) (\<lambda>r.
          case r of
            Inl e \<Rightarrow> Ret (e, ump)
          | Inr (a, run) \<Rightarrow>
              if a = - 1 then Ret (0, ump)
              else let (error, dev) = buf_bwrite (um_devvp ump) a bs in Ret (error, ump\<lparr>um_devvp := dev\<rparr>)))"

definition meta_buf_write :: "bool \<Rightarrow> inode \<Rightarrow> int \<Rightarrow> bytes \<Rightarrow> ext2mount \<Rightarrow> (errno \<times> ext2mount) outcome" where
  "meta_buf_write sync ip lbn bs ump =
     (if sync then file_bwrite_sync ip lbn bs ump else bnd (file_bwrite True ip lbn bs ump) (\<lambda>ump. Ret (0, ump)))"

text \<open>The allocation for a piece of \<open>xfersize\<close> bytes at \<open>blkoffset\<close>: without credentials, cleared unless the piece is the whole block.\<close>

definition meta_balloc_env :: "write_env \<Rightarrow> m_ext2fs \<Rightarrow> int \<Rightarrow> int \<Rightarrow> balloc_env" where
  "meta_balloc_env env fs xfersize blkoffset = (ie_balloc (we_inode env))\<lparr>be_cred := we_nocred env,
     be_clrbuf := \<not> (xfersize = sint (e2fs_bsize fs) \<and> blkoffset = 0)\<rparr>"

text \<open>
  One turn of the loop at offset \<open>off\<close>: the error, the bytes moved, and the state. A piece that is empty would be moved for ever.
\<close>

definition meta_piece :: "write_env \<Rightarrow> int \<Rightarrow> bytes \<Rightarrow> inode \<Rightarrow> ext2mount \<Rightarrow> (errno \<times> nat \<times> inode \<times> ext2mount) outcome" where
  "meta_piece env off bytes ip ump =
     (let fs = um_e2fs ump; lbn = lblkno fs off; blkoffset = s32 (blkoff fs off);
          xfersize = s32 (sint (e2fs_bsize fs) - blkoffset);
          xfersize = (if xfersize > int (length bytes) then int (length bytes) else xfersize)
      in if xfersize \<le> 0 then Fault Hang
         else
           bnd (ext2_balloc (meta_balloc_env env fs xfersize blkoffset) lbn (sint (e2fs_bsize fs)) ip ump) (\<lambda>(error, bp, ip, ump).
           if error \<noteq> 0 then Ret (error, 0, ip, ump)
           else
             case bp of
               None \<Rightarrow> Fault NullDeref
             | Some bs \<Rightarrow>
                 if we_move env off \<noteq> 0 then Ret (we_move env off, 0, ip, ump)
                 else
                   bnd (blit bs blkoffset (take (nat xfersize) bytes)) (\<lambda>bs.
                   let upto = word_of_int (off + xfersize); ip = (if upto > i_size ip then ip\<lparr>i_size := upto\<rparr> else ip)
                   in bnd (meta_buf_write (io_sync env) ip lbn bs ump) (\<lambda>(error, ump). Ret (error, nat xfersize, ip, ump)))))"

text \<open>The loop; the result has the bytes that were not moved, \<^verbatim>\<open>uio_resid\<close>.\<close>

function meta_write_loop :: "write_env \<Rightarrow> int \<Rightarrow> bytes \<Rightarrow> inode \<Rightarrow> ext2mount \<Rightarrow> (errno \<times> bytes \<times> inode \<times> ext2mount) outcome" where
  "meta_write_loop env off bytes ip ump =
     (if bytes = [] then Ret (0, [], ip, ump)
      else
        bnd (meta_piece env off bytes ip ump) (\<lambda>(error, n, ip, ump).
        if error \<noteq> 0 then Ret (error, drop n bytes, ip, ump)
        else if n = 0 then Fault Hang
        else meta_write_loop env (off + int n) (drop n bytes) ip ump))"
  by pat_completeness auto
termination
  by (relation "measure (\<lambda>(env, off, bytes, ip, ump). length bytes)") auto

declare meta_write_loop.simps [simp del]

definition ext2_meta_write :: "write_env \<Rightarrow> int \<Rightarrow> bytes \<Rightarrow> inode \<Rightarrow> ext2mount \<Rightarrow> (errno \<times> bytes \<times> inode \<times> ext2mount) outcome" where
  "ext2_meta_write env off bytes ip ump =
     bnd (meta_write_loop env off bytes ip ump) (\<lambda>(error, rest, ip, ump). Ret (error, rest, mark_changed ip, ump))"

section \<open>\<^verbatim>\<open>ext2_extend_alloc\<close> and \<^verbatim>\<open>ext2_write\<close>\<close>

fun extend_loop :: "balloc_env \<Rightarrow> int \<Rightarrow> nat \<Rightarrow> inode \<Rightarrow> ext2mount \<Rightarrow> (errno \<times> inode \<times> ext2mount) outcome" where
  "extend_loop env lbn 0 ip ump = Ret (0, ip, ump)"
| "extend_loop env lbn (Suc n) ip ump =
     bnd (ext2_balloc env lbn (s32 (blksize (um_e2fs ump))) ip ump) (\<lambda>(error, bp, ip, ump).
     if error \<noteq> 0 then Ret (error, ip, ump) else extend_loop env (lbn + 1) n ip ump)"

definition ext2_extend_alloc :: "balloc_env \<Rightarrow> int \<Rightarrow> int \<Rightarrow> inode \<Rightarrow> ext2mount \<Rightarrow> (errno \<times> inode \<times> ext2mount) outcome" where
  "ext2_extend_alloc env offset len ip ump =
     (if len \<le> 0 then Ret (0, ip, ump)
      else
        let fs = um_e2fs ump; lbn = lblkno fs offset; endlbn = lblkno fs (offset + len - 1)
        in extend_loop (env\<lparr>be_clrbuf := False\<rparr>) lbn (nat (endlbn - lbn + 1)) ip ump)"

text \<open>
  \<open>cluster\<close> is \<^verbatim>\<open>cluster_write\<close>, called with the old and the new end of the file and the edges of the write; it returns its error and
  the request's bytes that are left.
\<close>

definition write_regular :: "write_env \<Rightarrow> (inode \<Rightarrow> int \<Rightarrow> int \<Rightarrow> int \<Rightarrow> int \<Rightarrow> bytes \<Rightarrow> ext2mount \<Rightarrow> errno \<times> bytes \<times> ext2mount) \<Rightarrow>
    int \<Rightarrow> bytes \<Rightarrow> inode \<Rightarrow> ext2mount \<Rightarrow> (errno \<times> bytes \<times> inode \<times> ext2mount) outcome" where
  "write_regular env cluster offset bytes ip ump =
     (let fs = um_e2fs ump; offset = (if we_append env then sint (i_size ip) else offset); resid = int (length bytes) in
      if offset < 0 then Ret (EINVAL, bytes, ip, ump)
      else if bytes = [] then Ret (0, bytes, ip, ump)
      else if s64 (offset + resid) > e2fs_maxfilesize fs then Ret (EFBIG, bytes, ip, ump)
      else
        let oldEOF = sint (i_size ip); newEOF = max oldEOF (s64 (offset + resid)) in
        bnd (ext2_extend_alloc (ie_balloc (we_inode env)) offset resid ip ump) (\<lambda>(error, ip, ump).
        if error \<noteq> 0 then Ret (error, bytes, ip, ump)
        else
          let ip = (if newEOF > oldEOF then ip\<lparr>i_size := word_of_int newEOF\<rparr> else ip);
              headOff = offset AND NOT (e2fs_qbmask fs);
              tailOff = (offset + resid + (uint (e2fs_bsize fs) - 1)) AND NOT (uint (e2fs_bsize fs) - 1);
              (error, rest, ump) = cluster ip oldEOF newEOF headOff tailOff bytes ump
          in if error \<noteq> 0 then Ret (error, rest, (if newEOF > oldEOF then ip\<lparr>i_size := word_of_int oldEOF\<rparr> else ip), ump)
             else
               let ip = mark_changed ip in
               if io_sync env then bnd (ext2_update (we_inode env) True ip ump) (\<lambda>(error, ip, ump). Ret (error, rest, ip, ump))
               else Ret (0, rest, ip, ump)))"

definition ext2_write :: "write_env \<Rightarrow> (inode \<Rightarrow> int \<Rightarrow> int \<Rightarrow> int \<Rightarrow> int \<Rightarrow> bytes \<Rightarrow> ext2mount \<Rightarrow> errno \<times> bytes \<times> ext2mount) \<Rightarrow>
    int \<Rightarrow> bytes \<Rightarrow> inode \<Rightarrow> ext2mount \<Rightarrow> (errno \<times> bytes \<times> inode \<times> ext2mount) outcome" where
  "ext2_write env cluster offset bytes ip ump =
     (if we_isdir env \<and> we_user env then Ret (EISDIR, bytes, ip, ump)
      else if \<not> we_isreg env then
        (if offset < 0 then Ret (EINVAL, bytes, ip, ump) else ext2_meta_write env offset bytes ip ump)
      else write_regular env cluster offset bytes ip ump)"

text \<open>
  \<^verbatim>\<open>vn_rdwr\<close> writing from the kernel without a residual count, on a vnode that is not a regular file: a short write is an error.
\<close>

definition vn_write :: "write_env \<Rightarrow> ext2mount \<Rightarrow> inode \<Rightarrow> bytes \<Rightarrow> int \<Rightarrow> (errno \<times> ext2mount \<times> inode) outcome" where
  "vn_write env ump ip bytes offset =
     bnd (ext2_write (env\<lparr>we_isreg := False, we_user := False\<rparr>) (\<lambda>ip o1 n h t bs u. (0, [], u)) offset bytes ip ump) (\<lambda>(error, rest, ip, ump).
     Ret (if error = 0 \<and> rest \<noteq> [] then EIO else error, ump, ip))"

section \<open>\<^verbatim>\<open>ext2_read\<close> and the pager\<close>

text \<open>\<open>cluster\<close> is \<^verbatim>\<open>cluster_read\<close>, called with the size of the file.\<close>

definition ext2_read :: "write_env \<Rightarrow> (int \<Rightarrow> int \<Rightarrow> nat \<Rightarrow> errno \<times> bytes) \<Rightarrow> int \<Rightarrow> nat \<Rightarrow> inode \<Rightarrow> ext2mount \<Rightarrow> (errno \<times> bytes \<times> inode) outcome" where
  "ext2_read env cluster offset resid ip ump =
     (if we_isdir env \<and> we_user env then Ret (EISDIR, [], ip)
      else if offset < 0 then Ret (EINVAL, [], ip)
      else if \<not> we_isreg env then bnd (ext2_meta_read ump ip offset resid) (\<lambda>(error, bs). Ret (error, bs, ip))
      else if resid = 0 then Ret (0, [], ip)
      else
        let (error, bs) = cluster (sint (i_size ip)) offset resid
        in Ret (error, bs, if error = 0 then ip\<lparr>i_flag := i_flag ip OR IN_ACCESS\<rparr> else ip))"

definition ext2_pagein :: "(int \<Rightarrow> errno) \<Rightarrow> inode \<Rightarrow> errno" where
  "ext2_pagein cluster ip = cluster (sint (i_size ip))"

definition ext2_pageout :: "write_env \<Rightarrow> (int \<Rightarrow> errno) \<Rightarrow> inode \<Rightarrow> errno" where
  "ext2_pageout env cluster ip = (if ie_rdonly (we_inode env) then EROFS else cluster (sint (i_size ip)))"

end
