(* ===== verification/Ext2_Vget.thy ===== *)
theory Ext2_Vget
  imports Ext2_InodeCnv Ext2_Ihash Ext2_Ialloc Ext2_Dir
begin

text \<open>
  Bringing an inode into core: \<^verbatim>\<open>ext2_vget\<close>, \<^verbatim>\<open>ext2_vget_typed\<close>, \<^verbatim>\<open>ext2_root\<close> and the file handles of \<^verbatim>\<open>kext/ext2_vfsops.c\<close>, and the part
  of \<^verbatim>\<open>ext2_valloc\<close> (\<^verbatim>\<open>kext/ext2_alloc.c\<close>) after the inode number has been taken.
\<close>

section \<open>Reading an inode\<close>

definition ESTALE :: errno where "ESTALE = 70"
definition EOVERFLOW :: errno where "EOVERFLOW = 84"
definition EXT2_NDIR_BLOCKS :: int where "EXT2_NDIR_BLOCKS = 12"

text \<open>The loop that clears the pointers of unused blocks.\<close>

function zero_unused :: "int \<Rightarrow> u32 list \<Rightarrow> u32 list outcome" where
  "zero_unused i db = (if i < EXT2_NDIR_BLOCKS then bnd (wr db i 0) (\<lambda>db. zero_unused (i + 1) db) else Ret db)"
  by pat_completeness auto
termination by (relation "measure (\<lambda>(i, db). nat (EXT2_NDIR_BLOCKS - i))") auto

declare zero_unused.simps [simp del]

definition used_blocks :: "m_ext2fs \<Rightarrow> inode \<Rightarrow> int outcome" where
  "used_blocks fs ip = (if e2fs_bsize fs = 0 then Fault DivZero
     else Ret (s32 (uint ((i_size ip + ucast (e2fs_bsize fs) - 1) div ucast (e2fs_bsize fs)))))"

text \<open>The pointers are cleared for files and directories without extents.\<close>

definition has_pointers :: "inode \<Rightarrow> bool" where
  "has_pointers ip \<longleftrightarrow> i_flag ip AND IN_E4EXTENTS = 0 \<and> (i_mode ip AND IFMT = IFDIR \<or> i_mode ip AND IFMT = IFREG)"

text \<open>The in-core inode as it is before the vnode is made; \<open>gen\<close> is what \<^verbatim>\<open>read_random\<close> delivers, \<open>rdonly\<close> the flag of the mount.\<close>

definition vget_inode :: "bool \<Rightarrow> u32 \<Rightarrow> ext2mount \<Rightarrow> u32 \<Rightarrow> (errno + inode) outcome" where
  "vget_inode rdonly gen ump ino =
     (let fs = um_e2fs ump in
      bnd (ino_to_fsba fs ino) (\<lambda>a.
      case buf_meta_bread (um_devvp ump) (fsbtodb fs (uint a)) of
        Inl error \<Rightarrow> Ret (Inl error)
      | Inr bs \<Rightarrow>
          bnd (ino_to_fsbo fs ino) (\<lambda>k.
          bnd (get_dinode (E2DI_HAS_XTIME fs) bs (uint (e2fs_isize fs * k))) (\<lambda>ei.
          bnd (ino_to_cg fs ino) (\<lambda>cg.
          let ip = (ext2_ei2i fs ei (zero_inode\<lparr>i_number := ino\<rparr>))
                     \<lparr>i_block_group := word_of_int cg, i_next_alloc_block := 0, i_next_alloc_goal := 0\<rparr> in
          bnd (if has_pointers ip
               then bnd (used_blocks fs ip) (\<lambda>n. bnd (zero_unused n (i_db ip)) (\<lambda>db. Ret (ip\<lparr>i_db := db\<rparr>)))
               else Ret ip) (\<lambda>ip.
          Ret (Inr (if i_gen ip = 0
                    then ip\<lparr>i_gen := gen + 1, i_flag := (if rdonly then i_flag ip else i_flag ip OR IN_MODIFIED)\<rparr>
                    else ip))))))))"

section \<open>\<^verbatim>\<open>ext2_vget_typed\<close>\<close>

text \<open>What \<^verbatim>\<open>vnode_create\<close> is asked for: the file type bits, whether it is the root, the device of a device file and the size.\<close>

record vnode_fsparam =
  vnfs_vtype :: u16
  vnfs_markroot :: bool
  vnfs_rdev :: u32
  vnfs_filesize :: u64

text \<open>
  The services of the kernel: the address \<^verbatim>\<open>_MALLOC\<close> returns, whether the mutex of the inode can be allocated, the random number, and the
  error or the vnode of \<^verbatim>\<open>vnode_create\<close> with its identity.
\<close>

record vget_env =
  ve_ptr :: "ptr option"
  ve_lockok :: bool
  ve_rand :: u32
  ve_create :: "errno + ptr \<times> u32"

definition IFBLK :: u16 where "IFBLK = 0x6000"
definition IFCHR :: u16 where "IFCHR = 0x2000"

definition vget_param :: "u16 \<Rightarrow> inode \<Rightarrow> vnode_fsparam" where
  "vget_param vmode ip =
     (let ty = (if vmode \<noteq> 0 then vmode else i_mode ip) AND IFMT
      in \<lparr>vnfs_vtype = ty, vnfs_markroot = (i_number ip = EXT2_ROOTINO),
          vnfs_rdev = (if vmode = 0 \<and> (ty = IFBLK \<or> ty = IFCHR) then i_db ip ! 0 else 0),
          vnfs_filesize = (if vmode \<noteq> 0 then 0 else i_size ip)\<rparr>)"

text \<open>
  The part after the lookup missed, on the table as it is then; \<open>umpa\<close> is the address of the mount structure. The results are the error or the
  inode, and the request for the new vnode.
\<close>

definition vget_create :: "vget_env \<Rightarrow> u64 \<Rightarrow> ext2mount \<Rightarrow> bool \<Rightarrow> u32 \<Rightarrow> u16 \<Rightarrow> ihash \<Rightarrow>
    ((errno + ptr) \<times> vnode_fsparam option \<times> ihash) outcome" where
  "vget_create env umpa ump rdonly ino vmode ih =
     (case ve_ptr env of
        None \<Rightarrow> Ret (Inl ENOMEM, None, ih)
      | Some p \<Rightarrow>
          if \<not> ve_lockok env then Ret (Inl ENOMEM, None, ih)
          else
            bnd (vget_inode rdonly (ve_rand env) ump ino) (\<lambda>r.
            case r of
              Inl error \<Rightarrow> Ret (Inl error, None, ih)
            | Inr ip \<Rightarrow>
                let param = vget_param vmode ip in
                (case ve_create env of
                   Inl error \<Rightarrow> Ret (Inl error, Some param, ih)
                 | Inr (vp, vid) \<Rightarrow>
                     let n = \<lparr>hn_ip = ip\<lparr>i_vid := vid\<rparr>, hn_ump = umpa, hn_vnode = Some vp, le_next = None, le_prev = None\<rparr>
                     in bnd (ext2_ihashins p (put_node ih p n)) (\<lambda>ih. Ret (Inr p, Some param, ih)))))"

text \<open>\<open>views\<close> and \<open>getwithvid\<close> are those of \<^const>\<open>ext2_ihashget\<close>, \<open>ih\<close> is the table when the lookup is over.\<close>

definition ext2_vget_typed :: "(nat \<Rightarrow> ihash) \<Rightarrow> (nat \<Rightarrow> ptr \<Rightarrow> u32 \<Rightarrow> errno) \<Rightarrow> vget_env \<Rightarrow> u64 \<Rightarrow> ext2mount \<Rightarrow> bool \<Rightarrow> u32 \<Rightarrow> u16 \<Rightarrow> ihash \<Rightarrow>
    ((errno + ptr) \<times> vnode_fsparam option \<times> ihash) outcome option" where
  "ext2_vget_typed views getwithvid env umpa ump rdonly ino vmode ih =
     map_option (\<lambda>r. bnd r (\<lambda>(error, q).
       if error \<noteq> 0 then Ret (Inl error, None, ih)
       else case q of Some p \<Rightarrow> Ret (Inr p, None, ih) | None \<Rightarrow> vget_create env umpa ump rdonly ino vmode ih))
       (ext2_ihashget views getwithvid umpa ino)"

definition ext2_vget :: "(nat \<Rightarrow> ihash) \<Rightarrow> (nat \<Rightarrow> ptr \<Rightarrow> u32 \<Rightarrow> errno) \<Rightarrow> vget_env \<Rightarrow> u64 \<Rightarrow> ext2mount \<Rightarrow> bool \<Rightarrow> u32 \<Rightarrow> ihash \<Rightarrow>
    ((errno + ptr) \<times> vnode_fsparam option \<times> ihash) outcome option" where
  "ext2_vget views getwithvid env umpa ump rdonly ino ih = ext2_vget_typed views getwithvid env umpa ump rdonly ino 0 ih"

section \<open>File handles\<close>

record ext2fid =
  ext2fid_ino :: u32
  ext2fid_gen :: u32

definition fid_bytes :: "ext2fid \<Rightarrow> bytes" where
  "fid_bytes f = bytes_of (ext2fid_ino f) @ bytes_of (ext2fid_gen f)"

text \<open>The error, the length that is reported and the buffer. The source compares \<^verbatim>\<open>int\<close> lengths.\<close>

definition ext2_vptofh :: "inode \<Rightarrow> bytes \<Rightarrow> errno \<times> int \<times> bytes" where
  "ext2_vptofh ip fh =
     (if length fh < 8 then (EOVERFLOW, 8, fh)
      else (0, 8, fid_bytes \<lparr>ext2fid_ino = i_number ip, ext2fid_gen = i_gen ip\<rparr> @ drop 8 fh))"

text \<open>
  \<open>vget\<close> is \<^const>\<open>ext2_vget\<close>, which delivers the inode of the vnode. The bound on the number is computed with 32 bits; a link count is a
  signed 16-bit number.
\<close>

definition ext2_fhtovp :: "(u32 \<Rightarrow> errno + inode) \<Rightarrow> m_ext2fs \<Rightarrow> bytes \<Rightarrow> errno + inode" where
  "ext2_fhtovp vget fs fh =
     (if length fh < 8 then Inl EINVAL
      else
        let ino = le32 (take 4 fh); gen = le32 (take 4 (drop 4 fh)) in
        if ino < EXT2_ROOTINO \<or> ino > e2fs_gcount fs * e2fs_ipg (e2fs fs) then Inl ESTALE
        else case vget ino of
               Inl error \<Rightarrow> Inl error
             | Inr ip \<Rightarrow> if i_mode ip = 0 \<or> i_gen ip \<noteq> gen \<or> sint (i_nlink ip) \<le> 0 then Inl ESTALE else Inr ip)"

section \<open>\<^verbatim>\<open>ext2_valloc\<close>\<close>

text \<open>The inode as \<^verbatim>\<open>ext2_valloc\<close> hands it out; \<open>gen\<close> and the time are what \<^verbatim>\<open>read_random\<close> and \<^verbatim>\<open>nanotime\<close> deliver.\<close>

definition valloc_init :: "u32 \<Rightarrow> u32 \<times> u32 \<Rightarrow> inode \<Rightarrow> inode" where
  "valloc_init gen ts ip =
     (let g = (if i_gen ip = 0 then 0 else i_gen ip + 1)
      in ip\<lparr>i_size := 0, i_blocks := 0, i_mode := 0, i_flags := 0, i_db := replicate 12 0, i_ib := replicate 3 0,
            i_gen := (if g = 0 then drop_bit 1 gen + 1 else g), i_birthtime := fst ts, i_birthnsec := snd ts\<rparr>)"

text \<open>
  \<open>vget\<close> is \<^const>\<open>ext2_vget_typed\<close> on the mount with the number and the mode: the error or the inode; the inode that \<^verbatim>\<open>ext2_valloc\<close> initialises is the
  one in core.
\<close>

definition ext2_valloc :: "(ext2mount \<Rightarrow> u32 \<Rightarrow> u16 \<Rightarrow> errno + inode) \<Rightarrow> u32 \<Rightarrow> u32 \<times> u32 \<Rightarrow> inode \<Rightarrow> bool \<Rightarrow> u32 \<Rightarrow> int \<Rightarrow> ext2mount \<Rightarrow>
    ((errno + inode) \<times> ext2mount) outcome" where
  "ext2_valloc vget gen ts pip isroot r mode ump =
     bnd (valloc_ino pip isroot r mode ump) (\<lambda>(a, ump).
     case a of
       Inl error \<Rightarrow> Ret (Inl error, ump)
     | Inr ino \<Rightarrow>
         (case vget ump ino (word_of_int mode) of
            Inl error \<Rightarrow> bnd (ext2_vfree ino mode ump) (\<lambda>(_, ump). Ret (Inl error, ump))
          | Inr ip \<Rightarrow> Ret (Inr (valloc_init gen ts ip), ump)))"

end
