(* ===== verification/Ext2_Vnops.thy ===== *)
theory Ext2_Vnops
  imports Ext2_Write Ext2_Vget
begin

text \<open>
  \<^verbatim>\<open>kext/ext2_vnops.c\<close>: the operations on vnodes, as compositions of the operations of the other theories. Authorisation has
  happened before the kernel calls them; the name cache, the pages and the references on vnodes are the kernel's. Where an
  operation puts references back itself, which only \<^verbatim>\<open>ext2_rename\<close> does for vnodes it was given, the vnodes are listed in the result.
\<close>

section \<open>Constants\<close>

definition EMLINK :: errno where "EMLINK = 31"
definition EXDEV :: errno where "EXDEV = 18"
definition EOPNOTSUPP :: errno where "EOPNOTSUPP = 102"
definition ENOTTY :: errno where "ENOTTY = 25"
definition EXT2_LINK_MAX :: int where "EXT2_LINK_MAX = 32000"
definition ISUID :: u16 where "ISUID = 0x800"
definition ISGID :: u16 where "ISGID = 0x400"
definition ALLPERMS :: u16 where "ALLPERMS = 0xFFF"

text \<open>\<^verbatim>\<open>IMMUTABLE\<close> and \<^verbatim>\<open>APPEND\<close> of \<^verbatim>\<open>sys/stat.h\<close>: the flag of the owner and the one of the system.\<close>

definition IMMUTABLE :: u32 where "IMMUTABLE = 2 OR SF_IMMUTABLE"
definition APPEND :: u32 where "APPEND = 4 OR SF_APPEND"
definition FWRITE :: u32 where "FWRITE = 2"
definition O_APPEND :: u32 where "O_APPEND = 8"

abbreviation flagged :: "inode \<Rightarrow> u32 \<Rightarrow> bool" where
  "flagged ip f \<equiv> i_flags ip AND f \<noteq> 0"

text \<open>\<open>i_nlink\<close> as the signed number it is, and cast to \<^verbatim>\<open>nlink_t\<close>, which is unsigned.\<close>

abbreviation nlink :: "inode \<Rightarrow> int" where "nlink ip \<equiv> sint (i_nlink ip)"
abbreviation too_many_links :: "inode \<Rightarrow> bool" where "too_many_links ip \<equiv> EXT2_LINK_MAX \<le> uint (i_nlink ip)"

definition set_flag :: "u32 \<Rightarrow> inode \<Rightarrow> inode" where
  "set_flag f ip = ip\<lparr>i_flag := i_flag ip OR f\<rparr>"

definition change_nlink :: "(u16 \<Rightarrow> u16) \<Rightarrow> inode \<Rightarrow> inode" where
  "change_nlink f ip = set_flag IN_CHANGE (ip\<lparr>i_nlink := f (i_nlink ip)\<rparr>)"

abbreviation inc_nlink :: "inode \<Rightarrow> inode" where "inc_nlink \<equiv> change_nlink (\<lambda>n. n + 1)"
abbreviation dec_nlink :: "inode \<Rightarrow> inode" where "dec_nlink \<equiv> change_nlink (\<lambda>n. n - 1)"

text \<open>The flag \<^verbatim>\<open>IO_SYNC\<close> a call passes on.\<close>

definition with_sync :: "bool \<Rightarrow> inode_env \<Rightarrow> inode_env" where
  "with_sync s env = env\<lparr>ie_balloc := (ie_balloc env)\<lparr>be_sync := s\<rparr>\<rparr>"

text \<open>A loop that does not end keeps the thread in the kernel.\<close>

definition ends :: "'a outcome option \<Rightarrow> 'a outcome" where
  "ends r = (case r of None \<Rightarrow> Fault Hang | Some x \<Rightarrow> x)"

section \<open>Opening and closing, attributes\<close>

definition ext2_open :: "inode_env \<Rightarrow> u32 \<Rightarrow> inode \<Rightarrow> errno" where
  "ext2_open env mode ip =
     (if ie_special env then EOPNOTSUPP
      else if flagged ip APPEND \<and> mode AND (FWRITE OR O_APPEND) = FWRITE then EPERM
      else 0)"

definition ext2_close :: "inode_env \<Rightarrow> inode \<Rightarrow> errno \<times> inode" where
  "ext2_close env ip = (0, ext2_itimes_locked env ip)"

text \<open>
  What \<^verbatim>\<open>ext2_getattr\<close> reports. A type is given by its bits of the mode; a time is seconds and nanoseconds; \<open>None\<close> is an attribute
  that is not supported. \<open>fsid\<close> and \<open>iosize\<close> are those of the mount.
\<close>

record vattr =
  at_fsid :: u32
  at_fileid :: u64
  at_mode :: u16
  at_nlink :: u32
  at_uid :: u32
  at_gid :: u32
  at_rdev :: u32
  at_data_size :: u64
  at_total_size :: u64
  at_total_alloc :: u64
  at_flags :: u32
  at_gen :: u32
  at_type :: u16
  at_filerev :: u64
  at_iosize :: u32
  at_access_time :: "int \<times> int"
  at_modify_time :: "int \<times> int"
  at_change_time :: "int \<times> int"
  at_create_time :: "(int \<times> int) option"

definition time_of :: "bool \<Rightarrow> u32 \<Rightarrow> u32 \<Rightarrow> int \<times> int" where
  "time_of xtime sec nsec = (sint sec, if xtime then sint nsec else 0)"

definition ext2_getattr :: "inode_env \<Rightarrow> u32 \<Rightarrow> u32 \<Rightarrow> m_ext2fs \<Rightarrow> inode \<Rightarrow> (vattr \<times> inode) outcome" where
  "ext2_getattr env fsid iosize fs ip =
     (let ip = ext2_itimes env ip; x = E2DI_HAS_XTIME fs in
      bnd (rd (i_db ip) 0) (\<lambda>rdev.
      Ret (\<lparr>at_fsid = fsid, at_fileid = ucast (i_number ip), at_mode = i_mode ip AND NOT IFMT, at_nlink = scast (i_nlink ip),
            at_uid = i_uid ip, at_gid = i_gid ip, at_rdev = rdev, at_data_size = i_size ip, at_total_size = i_size ip,
            at_total_alloc = push_bit 9 (i_blocks ip), at_flags = i_flags ip, at_gen = i_gen ip, at_type = i_mode ip AND IFMT,
            at_filerev = i_modrev ip, at_iosize = iosize,
            at_access_time = time_of x (i_atime ip) (i_atimensec ip), at_modify_time = time_of x (i_mtime ip) (i_mtimensec ip),
            at_change_time = time_of x (i_ctime ip) (i_ctimensec ip),
            at_create_time = (if x then Some (sint (i_birthtime ip), sint (i_birthnsec ip)) else None)\<rparr>, ip)))"

text \<open>The attributes a caller wants changed: those that are active.\<close>

record vnode_attr =
  va_type :: u16
  va_mode :: "u16 option"
  va_uid :: "u32 option"
  va_gid :: "u32 option"
  va_flags :: "u32 option"
  va_data_size :: "u64 option"
  va_access_time :: "(int \<times> int) option"
  va_modify_time :: "(int \<times> int) option"
  va_create_time :: "(int \<times> int) option"
  va_rdev :: "u32 option"

datatype attr = A_flags | A_uid | A_gid | A_data_size | A_access_time | A_modify_time | A_create_time | A_mode | A_rdev

definition ext2_chmod :: "u16 \<Rightarrow> inode \<Rightarrow> inode" where
  "ext2_chmod mode ip = set_flag IN_CHANGE (ip\<lparr>i_mode := (i_mode ip AND NOT ALLPERMS) OR (mode AND ALLPERMS)\<rparr>)"

definition VNOVAL :: u32 where "VNOVAL = - 1"

definition ext2_chown :: "u32 \<Rightarrow> u32 \<Rightarrow> inode \<Rightarrow> inode" where
  "ext2_chown uid gid ip =
     (let uid = (if uid = VNOVAL then i_uid ip else uid); gid = (if gid = VNOVAL then i_gid ip else gid); ogid = i_gid ip; ouid = i_uid ip;
          ip = set_flag IN_CHANGE (ip\<lparr>i_gid := gid, i_uid := uid\<rparr>)
      in if i_mode ip AND (ISUID OR ISGID) \<noteq> 0 \<and> (ouid \<noteq> uid \<or> ogid \<noteq> gid)
         then ip\<lparr>i_mode := i_mode ip AND NOT (ISUID OR ISGID)\<rparr> else ip)"

text \<open>
  A part of \<^verbatim>\<open>ext2_setattr\<close> ends the call with an error number (\<open>Some\<close>, which may be 0) or goes on; it collects the attributes
  that are reported as supported.
\<close>

type_synonym setattr_state = "attr set \<times> inode \<times> ext2mount"
type_synonym setattr_step = "setattr_state \<Rightarrow> (errno option \<times> setattr_state) outcome"

definition then_step :: "setattr_step \<Rightarrow> setattr_step \<Rightarrow> setattr_step" where
  "then_step f g s = bnd (f s) (\<lambda>(e, s). case e of Some _ \<Rightarrow> Ret (e, s) | None \<Rightarrow> g s)"

definition set_flags :: "inode_env \<Rightarrow> vnode_attr \<Rightarrow> setattr_step" where
  "set_flags env vap = (\<lambda>(sup, ip, ump).
     case va_flags vap of
       None \<Rightarrow> Ret (if flagged ip (IMMUTABLE OR APPEND) then Some EPERM else None, sup, ip, ump)
     | Some f \<Rightarrow>
         if f AND NOT (SF_APPEND OR SF_IMMUTABLE OR UF_NODUMP) \<noteq> 0 then Ret (Some EOPNOTSUPP, sup, ip, ump)
         else if ie_rdonly env then Ret (Some EROFS, sup, ip, ump)
         else
           let ip = set_flag IN_CHANGE (ip\<lparr>i_flags := f\<rparr>); sup = insert A_flags sup
           in Ret (if flagged ip (IMMUTABLE OR APPEND) then Some 0 else None, sup, ip, ump))"

definition set_owner :: "inode_env \<Rightarrow> vnode_attr \<Rightarrow> setattr_step" where
  "set_owner env vap = (\<lambda>(sup, ip, ump).
     if va_uid vap = None \<and> va_gid vap = None then Ret (None, sup, ip, ump)
     else if ie_rdonly env then Ret (Some EROFS, sup, ip, ump)
     else
       let uid = (case va_uid vap of Some u \<Rightarrow> u | None \<Rightarrow> VNOVAL); gid = (case va_gid vap of Some g \<Rightarrow> g | None \<Rightarrow> VNOVAL)
       in Ret (None, sup \<union> {A_uid, A_gid}, ext2_chown uid gid ip, ump))"

text \<open>\<open>vtype\<close> is the type of the vnode, as its bits of a mode.\<close>

definition set_size :: "inode_env \<Rightarrow> u16 \<Rightarrow> vnode_attr \<Rightarrow> setattr_step" where
  "set_size env vtype vap = (\<lambda>(sup, ip, ump).
     case va_data_size vap of
       None \<Rightarrow> Ret (None, sup, ip, ump)
     | Some sz \<Rightarrow>
         if vtype = IFDIR then Ret (Some EISDIR, sup, ip, ump)
         else if (vtype = IFLNK \<or> vtype = IFREG) \<and> ie_rdonly env then Ret (Some EROFS, sup, ip, ump)
         else
           bnd (ext2_truncate (with_sync False env) (sint sz) ip ump) (\<lambda>(error, ip, ump).
           Ret (if error \<noteq> 0 then (Some error, sup, ip, ump) else (None, insert A_data_size sup, ip, ump))))"

definition set_times :: "inode_env \<Rightarrow> vnode_attr \<Rightarrow> setattr_step" where
  "set_times env vap = (\<lambda>(sup, ip, ump).
     let a = va_access_time vap; m = va_modify_time vap; c = va_create_time vap in
     if a = None \<and> m = None \<and> c = None then Ret (None, sup, ip, ump)
     else if ie_rdonly env then Ret (Some EROFS, sup, ip, ump)
     else
       let ip = (if a \<noteq> None then set_flag IN_ACCESS ip else ip);
           ip = (if m \<noteq> None then set_flag (IN_CHANGE OR IN_UPDATE) ip else ip);
           ip = ext2_itimes env ip;
           ip = (case a of None \<Rightarrow> ip | Some (s, n) \<Rightarrow> ip\<lparr>i_atime := word_of_int s, i_atimensec := word_of_int n\<rparr>);
           ip = (case m of None \<Rightarrow> ip | Some (s, n) \<Rightarrow> ip\<lparr>i_mtime := word_of_int s, i_mtimensec := word_of_int n\<rparr>);
           born = (if E2DI_HAS_XTIME (um_e2fs ump) then c else None);
           ip = (case born of None \<Rightarrow> ip | Some (s, n) \<Rightarrow> ip\<lparr>i_birthtime := word_of_int s, i_birthnsec := word_of_int n\<rparr>);
           sup = sup \<union> (if a \<noteq> None then {A_access_time} else {}) \<union> (if m \<noteq> None then {A_modify_time} else {})
                     \<union> (if born \<noteq> None then {A_create_time} else {})
       in bnd (ext2_update env False ip ump) (\<lambda>(error, ip, ump). Ret (if error \<noteq> 0 then Some error else None, sup, ip, ump)))"

definition set_mode :: "inode_env \<Rightarrow> vnode_attr \<Rightarrow> setattr_step" where
  "set_mode env vap = (\<lambda>(sup, ip, ump).
     case va_mode vap of
       None \<Rightarrow> Ret (None, sup, ip, ump)
     | Some mode \<Rightarrow>
         if ie_rdonly env then Ret (Some EROFS, sup, ip, ump) else Ret (None, insert A_mode sup, ext2_chmod mode ip, ump))"

definition ext2_setattr :: "inode_env \<Rightarrow> u16 \<Rightarrow> vnode_attr \<Rightarrow> inode \<Rightarrow> ext2mount \<Rightarrow> (errno \<times> attr set \<times> inode \<times> ext2mount) outcome" where
  "ext2_setattr env vtype vap ip ump =
     bnd (then_step (set_flags env vap) (then_step (set_owner env vap) (then_step (set_size env vtype vap)
            (then_step (set_times env vap) (set_mode env vap)))) ({}, ip, ump)) (\<lambda>(e, sup, ip, ump).
     Ret (case e of Some error \<Rightarrow> error | None \<Rightarrow> 0, sup, ip, ump))"

text \<open>\<^verbatim>\<open>ext2_fsync\<close>: a read already sees the buffers that \<^verbatim>\<open>buf_flushdirtyblks\<close> writes.\<close>

definition ext2_fsync :: "inode_env \<Rightarrow> inode \<Rightarrow> ext2mount \<Rightarrow> (errno \<times> inode \<times> ext2mount) outcome" where
  "ext2_fsync env ip ump = ext2_update env True ip ump"

section \<open>Making files\<close>

text \<open>
  What a call that enters a name learns: the environments of the directory and of the new file, where \<open>be_cred\<close> is the caller, the
  answer of \<^verbatim>\<open>kauth_cred_ismember_gid\<close>, the byte after the name, and the arguments of \<^const>\<open>ext2_valloc\<close>.
\<close>

record vnop_env =
  vn_dir :: write_env
  vn_file :: write_env
  vn_ismember :: "u32 \<Rightarrow> errno \<times> bool"
  vn_junk :: bytes
  vn_vget :: "ext2mount \<Rightarrow> u32 \<Rightarrow> u16 \<Rightarrow> errno + inode"
  vn_gen :: u32
  vn_isroot :: bool
  vn_rand :: u32

abbreviation dir_env :: "vnop_env \<Rightarrow> inode_env" where "dir_env env \<equiv> we_inode (vn_dir env)"
abbreviation file_env :: "vnop_env \<Rightarrow> inode_env" where "file_env env \<equiv> we_inode (vn_file env)"
abbreviation caller :: "vnop_env \<Rightarrow> u32 outcome" where "caller env \<equiv> be_cred (ie_balloc (file_env env))"

definition synced :: "bool \<Rightarrow> write_env \<Rightarrow> write_env" where
  "synced s env = env\<lparr>we_inode := with_sync s (we_inode env)\<rparr>"

text \<open>\<^const>\<open>ext2_direnter\<close> with the write and the truncation it calls.\<close>

definition dir_enter :: "write_env \<Rightarrow> bytes \<Rightarrow> inode \<Rightarrow> inode \<Rightarrow> bytes \<Rightarrow> ext2mount \<Rightarrow> (errno \<times> inode \<times> ext2mount) outcome" where
  "dir_enter env junk ip dp name ump =
     bnd (ends (ext2_direnter (\<lambda>ump dp bs off. vn_write (synced True env) ump dp bs off)
        (\<lambda>ump dp len. bnd (ext2_truncate (with_sync True (we_inode env)) len dp ump) (\<lambda>(error, dp, ump). Ret (error, ump, dp)))
        (doing_async (we_inode env)) junk ump ip dp name)) (\<lambda>(error, ump, dp). Ret (error, dp, ump))"

definition dir_remove :: "inode_env \<Rightarrow> inode \<Rightarrow> ext2mount \<Rightarrow> (errno \<times> inode \<times> ext2mount) outcome" where
  "dir_remove env dp ump = bnd (ext2_dirremove (doing_async env) ump dp) (\<lambda>(error, ump, dp). Ret (error, dp, ump))"

definition new_inode :: "vnop_env \<Rightarrow> inode \<Rightarrow> int \<Rightarrow> ext2mount \<Rightarrow> ((errno + inode) \<times> ext2mount) outcome" where
  "new_inode env dp mode ump =
     ext2_valloc (vn_vget env) (vn_gen env) (ie_now (file_env env)) dp (vn_isroot env) (vn_rand env) mode ump"

text \<open>The inode without a name that \<^verbatim>\<open>ext2_makeinode\<close> and \<^verbatim>\<open>ext2_mkdir\<close> leave when they fail; its last reference frees it.\<close>

definition abandoned :: "inode \<Rightarrow> inode" where
  "abandoned ip = set_flag IN_CHANGE (ip\<lparr>i_nlink := 0\<rparr>)"

definition drop_setgid :: "vnop_env \<Rightarrow> inode \<Rightarrow> inode" where
  "drop_setgid env ip =
     (if i_mode ip AND ISGID \<noteq> 0 \<and> (let (error, ismember) = vn_ismember env (i_gid ip) in error \<noteq> 0 \<or> \<not> ismember)
      then ip\<lparr>i_mode := i_mode ip AND NOT ISGID\<rparr> else ip)"

text \<open>The error, the new inode if there is one, the directory and the mount.\<close>

definition ext2_makeinode :: "vnop_env \<Rightarrow> u16 \<Rightarrow> bytes \<Rightarrow> inode \<Rightarrow> ext2mount \<Rightarrow> (errno \<times> inode option \<times> inode \<times> ext2mount) outcome" where
  "ext2_makeinode env mode name dp ump =
     (let mode = (if mode AND IFMT = 0 then mode OR IFREG else mode) in
      bnd (new_inode env dp (uint mode) ump) (\<lambda>(r, ump).
      case r of
        Inl error \<Rightarrow> Ret (error, None, dp, ump)
      | Inr ip \<Rightarrow>
          bnd (caller env) (\<lambda>uid.
          let ip = set_flag (IN_ACCESS OR IN_CHANGE OR IN_UPDATE) (ip\<lparr>i_gid := i_gid dp, i_uid := uid\<rparr>);
              ip = drop_setgid env (ip\<lparr>i_mode := mode, i_nlink := 1\<rparr>)
          in bnd (ext2_update (file_env env) (\<not> doing_async (file_env env)) ip ump) (\<lambda>(error, ip, ump).
             if error \<noteq> 0 then Ret (error, Some (abandoned ip), dp, ump)
             else
               bnd (dir_enter (vn_dir env) (vn_junk env) ip dp name ump) (\<lambda>(error, dp, ump).
               Ret (error, Some (if error \<noteq> 0 then abandoned ip else ip), dp, ump))))))"

text \<open>\<open>MAKEIMODE\<close>: the bits of the type and the mode of the request.\<close>

definition MAKEIMODE :: "vnode_attr \<Rightarrow> u16" where
  "MAKEIMODE vap = va_type vap OR (case va_mode vap of Some m \<Rightarrow> m | None \<Rightarrow> 0)"

definition ext2_create :: "vnop_env \<Rightarrow> vnode_attr \<Rightarrow> bytes \<Rightarrow> inode \<Rightarrow> ext2mount \<Rightarrow> (errno \<times> inode option \<times> inode \<times> ext2mount) outcome" where
  "ext2_create env vap name dp ump = ext2_makeinode env (MAKEIMODE vap) name dp ump"

text \<open>\<open>vget\<close> is \<^const>\<open>ext2_vget\<close>, which reads the inode again; the result has the inode it delivers.\<close>

definition ext2_mknod :: "vnop_env \<Rightarrow> (ext2mount \<Rightarrow> u32 \<Rightarrow> errno + inode) \<Rightarrow> vnode_attr \<Rightarrow> bytes \<Rightarrow> inode \<Rightarrow> ext2mount \<Rightarrow>
    (errno \<times> inode option \<times> inode \<times> ext2mount) outcome" where
  "ext2_mknod env vget vap name dp ump =
     bnd (ext2_makeinode env (MAKEIMODE vap) name dp ump) (\<lambda>(error, q, dp, ump).
     if error \<noteq> 0 then Ret (error, q, dp, ump)
     else
       case q of
         None \<Rightarrow> Fault NullDeref
       | Some ip \<Rightarrow>
           let ip = set_flag (IN_ACCESS OR IN_CHANGE OR IN_UPDATE) ip in
           bnd (case va_rdev vap of None \<Rightarrow> Ret ip | Some d \<Rightarrow> bnd (wr (i_db ip) 0 d) (\<lambda>db. Ret (ip\<lparr>i_db := db\<rparr>))) (\<lambda>ip.
           bnd (ext2_update (file_env env) True ip ump) (\<lambda>(error, ip, ump).
           if error \<noteq> 0 then Ret (error, None, dp, ump)
           else case vget ump (i_number ip) of Inl error \<Rightarrow> Ret (error, None, dp, ump) | Inr ip \<Rightarrow> Ret (0, Some ip, dp, ump))))"

section \<open>Links\<close>

definition ext2_remove :: "vnop_env \<Rightarrow> inode \<Rightarrow> inode \<Rightarrow> ext2mount \<Rightarrow> (errno \<times> inode \<times> inode \<times> ext2mount) outcome" where
  "ext2_remove env ip dp ump =
     (if flagged ip (IMMUTABLE OR APPEND) \<or> flagged dp APPEND then Ret (EPERM, ip, dp, ump)
      else bnd (dir_remove (dir_env env) dp ump) (\<lambda>(error, dp, ump). Ret (error, if error = 0 then dec_nlink ip else ip, dp, ump)))"

definition ext2_link :: "vnop_env \<Rightarrow> bytes \<Rightarrow> inode \<Rightarrow> inode \<Rightarrow> ext2mount \<Rightarrow> (errno \<times> inode \<times> inode \<times> ext2mount) outcome" where
  "ext2_link env name ip dp ump =
     (if too_many_links ip then Ret (EMLINK, ip, dp, ump)
      else if flagged ip (IMMUTABLE OR APPEND) then Ret (EPERM, ip, dp, ump)
      else
        bnd (ext2_update (file_env env) (\<not> doing_async (file_env env)) (inc_nlink ip) ump) (\<lambda>(error, ip, ump).
        bnd (if error = 0 then dir_enter (vn_dir env) (vn_junk env) ip dp name ump else Ret (error, dp, ump)) (\<lambda>(error, dp, ump).
        Ret (error, if error \<noteq> 0 then dec_nlink ip else ip, dp, ump))))"

section \<open>Directories\<close>

text \<open>The template of a new directory with its numbers filled in; the record of \<open>..\<close> takes the rest of the block.\<close>

definition dirtemplate :: "m_ext2fs \<Rightarrow> u32 \<Rightarrow> u32 \<Rightarrow> bytes" where
  "dirtemplate fs dot_ino dotdot_ino =
     (let ft = (if EXT2_HAS_INCOMPAT_FEATURE fs EXT2F_INCOMPAT_FTYPE then 2 else 0)
      in bytes_of dot_ino @ bytes16 12 @ [1, ft, 0x2E, 0, 0, 0] @
         bytes_of dotdot_ino @ bytes16 (ucast (e2fs_bsize fs - 12)) @ [2, ft, 0x2E, 0x2E, 0, 0])"

text \<open>
  The block of the new directory: allocated, filled and written. The buffer is on the vnode of the new directory.
\<close>

definition mkdir_block :: "inode_env \<Rightarrow> u32 \<Rightarrow> inode \<Rightarrow> ext2mount \<Rightarrow> (errno \<times> inode \<times> ext2mount) outcome" where
  "mkdir_block env parent ip ump =
     (let fs = um_e2fs ump; dirtemplate = dirtemplate fs (i_number ip) parent in
      if uint (e2fs_bsize fs) > uint (e2fs_fsize fs) then Fault (Panic ''ext2_mkdir: blksize'')
      else
        let ip = set_flag (IN_CHANGE OR IN_UPDATE) (ip\<lparr>i_size := ucast (e2fs_bsize fs)\<rparr>) in
        bnd (ext2_balloc ((ie_balloc env)\<lparr>be_clrbuf := True, be_sync := False\<rparr>) 0 (sint (e2fs_bsize fs)) ip ump) (\<lambda>(error, bp, ip, ump).
        if error \<noteq> 0 then Ret (error, ip, ump)
        else
          case bp of
            None \<Rightarrow> Fault NullDeref
          | Some bs \<Rightarrow>
              bnd (blit bs 0 dirtemplate) (\<lambda>bs.
              bnd (file_bwrite_sync ip 0 bs ump) (\<lambda>(error, ump). Ret (error, ip, ump)))))"

definition ext2_mkdir :: "vnop_env \<Rightarrow> vnode_attr \<Rightarrow> bytes \<Rightarrow> inode \<Rightarrow> ext2mount \<Rightarrow> (errno \<times> inode option \<times> inode \<times> ext2mount) outcome" where
  "ext2_mkdir env vap name dp ump =
     (if too_many_links dp then Ret (EMLINK, None, dp, ump)
      else
        let dmode = ((case va_mode vap of Some m \<Rightarrow> m | None \<Rightarrow> 0) AND 0x1FF) OR IFDIR in
        bnd (new_inode env dp (uint dmode) ump) (\<lambda>(r, ump).
        case r of
          Inl error \<Rightarrow> Ret (error, None, dp, ump)
        | Inr ip \<Rightarrow>
            bnd (caller env) (\<lambda>uid.
            let ip = set_flag (IN_ACCESS OR IN_CHANGE OR IN_UPDATE) (ip\<lparr>i_gid := i_gid dp, i_uid := uid\<rparr>) in
            bnd (ext2_update (file_env env) True (ip\<lparr>i_mode := dmode, i_nlink := 2\<rparr>) ump) (\<lambda>(_, ip, ump).
            bnd (ext2_update (dir_env env) (\<not> doing_async (dir_env env)) (inc_nlink dp) ump) (\<lambda>(error, dp, ump).
            if error \<noteq> 0 then Ret (error, Some (abandoned ip), dp, ump)
            else
              bnd (mkdir_block (file_env env) (i_number dp) ip ump) (\<lambda>(error, ip, ump).
              if error \<noteq> 0 then Ret (error, Some (abandoned ip), dec_nlink dp, ump)
              else
                bnd (dir_enter (vn_dir env) (vn_junk env) ip dp name ump) (\<lambda>(error, dp, ump).
                if error \<noteq> 0 then Ret (error, Some (abandoned ip), dec_nlink dp, ump)
                else Ret (0, Some ip, dp, ump))))))))"

definition ext2_rmdir :: "vnop_env \<Rightarrow> inode \<Rightarrow> inode \<Rightarrow> ext2mount \<Rightarrow> (errno \<times> inode \<times> inode \<times> ext2mount) outcome" where
  "ext2_rmdir env ip dp ump =
     bnd (if i_nlink ip \<noteq> 2 then Ret False else ext2_dirempty ump ip (i_number dp)) (\<lambda>empty.
     if \<not> empty then Ret (ENOTEMPTY, ip, dp, ump)
     else if flagged dp APPEND \<or> flagged ip (IMMUTABLE OR APPEND) then Ret (EPERM, ip, dp, ump)
     else
       bnd (dir_remove (dir_env env) dp ump) (\<lambda>(error, dp, ump).
       if error \<noteq> 0 then Ret (error, ip, dp, ump)
       else
         bnd (ext2_truncate (with_sync True (file_env env)) 0 (ip\<lparr>i_nlink := i_nlink ip - 2\<rparr>) ump) (\<lambda>(error, ip, ump).
         Ret (error, ip, dec_nlink dp, ump))))"

section \<open>Symbolic links\<close>

text \<open>\<open>target\<close> are the bytes before the NUL. A short target is stored over the block pointers.\<close>

definition store_shortlink :: "bytes \<Rightarrow> inode \<Rightarrow> inode outcome" where
  "store_shortlink target ip =
     bnd (blit (bytes_of_words (i_db ip @ i_ib ip)) 0 target) (\<lambda>bs.
     Ret (set_flag (IN_CHANGE OR IN_UPDATE) ((set_root (words_of bs) ip)\<lparr>i_size := word_of_int (int (length target))\<rparr>)))"

definition ext2_symlink :: "vnop_env \<Rightarrow> vnode_attr \<Rightarrow> bytes \<Rightarrow> bytes \<Rightarrow> inode \<Rightarrow> ext2mount \<Rightarrow>
    (errno \<times> inode option \<times> inode \<times> ext2mount) outcome" where
  "ext2_symlink env vap target name dp ump =
     bnd (ext2_makeinode env (IFLNK OR (case va_mode vap of Some m \<Rightarrow> m | None \<Rightarrow> 0)) name dp ump) (\<lambda>(error, q, dp, ump).
     if error \<noteq> 0 then Ret (error, q, dp, ump)
     else
       case q of
         None \<Rightarrow> Fault NullDeref
       | Some ip \<Rightarrow>
           if int (length target) < uint EXT2_MAXSYMLINKLEN then
             bnd (store_shortlink target ip) (\<lambda>ip. Ret (0, Some ip, dp, ump))
           else
             bnd (vn_write (synced False (vn_file env)) ump ip target 0) (\<lambda>(error, ump, ip). Ret (error, Some ip, dp, ump)))"

text \<open>\<^verbatim>\<open>vn_rdwr\<close> reading from the kernel without a residual count: a short read is an error.\<close>

definition vn_read :: "ext2mount \<Rightarrow> inode \<Rightarrow> nat \<Rightarrow> (errno \<times> bytes) outcome" where
  "vn_read ump ip n =
     bnd (ext2_meta_read ump ip 0 n) (\<lambda>(error, bs). Ret (if error = 0 \<and> length bs < n then EIO else error, bs))"

text \<open>
  The error, the bytes moved to the request (of \<open>resid\<close> bytes), and the bytes that are written to the address of its buffer as if it
  were one of the kernel, which leaves the request as it was.
\<close>

definition ext2_readlink :: "errno \<Rightarrow> nat \<Rightarrow> inode \<Rightarrow> ext2mount \<Rightarrow> (errno \<times> bytes \<times> bytes) outcome" where
  "ext2_readlink umove resid ip ump =
     (let isize = s32 (uint (i_size ip)) in
      if isize < uint EXT2_MAXSYMLINKLEN then
        (if umove \<noteq> 0 then Ret (umove, [], [])
         else bnd (slice (bytes_of_words (i_db ip @ i_ib ip)) 0 (min (nat isize) resid)) (\<lambda>bs. Ret (0, bs, [])))
      else bnd (vn_read ump ip (nat isize)) (\<lambda>(error, bs). Ret (error, [], bs)))"


section \<open>\<^verbatim>\<open>ext2_rename\<close>\<close>

text \<open>
  The directory of the source and that of the target may be one vnode, so \<^verbatim>\<open>VTOI\<close> of a vnode is a place in a store. \<open>rs_puts\<close> are the
  vnodes \<^verbatim>\<open>vnode_put\<close> was called on. All vnodes but those of \<open>xdev\<close> are on the mount.
\<close>

type_synonym vnode = nat

record rstate =
  rs_core :: "vnode \<Rightarrow> inode"
  rs_ump :: ext2mount
  rs_puts :: "vnode list"

record rename_args =
  ra_fdvp :: vnode
  ra_fvp :: vnode
  ra_tdvp :: vnode
  ra_tvp :: "vnode option"
  ra_fname :: bytes
  ra_tname :: bytes
  ra_dotdot :: bool
  ra_xdev :: bool

text \<open>
  The environment of each vnode, the caller, the byte after the name, and \<^const>\<open>ext2_vget\<close> for the walk to the root.
\<close>

record rename_env =
  re_vnode :: "vnode \<Rightarrow> write_env"
  re_cred :: "u32 outcome"
  re_junk :: bytes
  re_vget :: "u32 \<Rightarrow> errno + inode"

abbreviation re_inode :: "rename_env \<Rightarrow> vnode \<Rightarrow> inode_env" where "re_inode env v \<equiv> we_inode (re_vnode env v)"

definition put_vnodes :: "vnode list \<Rightarrow> rstate \<Rightarrow> rstate" where
  "put_vnodes vs s = s\<lparr>rs_puts := rs_puts s @ vs\<rparr>"

definition on_inode :: "vnode \<Rightarrow> (inode \<Rightarrow> inode) \<Rightarrow> rstate \<Rightarrow> rstate" where
  "on_inode v f s = s\<lparr>rs_core := (rs_core s)(v := f (rs_core s v))\<rparr>"

text \<open>An operation on the inode of a vnode and the mount.\<close>

definition run_on :: "vnode \<Rightarrow> (inode \<Rightarrow> ext2mount \<Rightarrow> (errno \<times> inode \<times> ext2mount) outcome) \<Rightarrow> rstate \<Rightarrow> (errno \<times> rstate) outcome" where
  "run_on v f s = bnd (f (rs_core s v) (rs_ump s)) (\<lambda>(error, ip, ump).
     Ret (error, s\<lparr>rs_core := (rs_core s)(v := ip), rs_ump := ump\<rparr>))"

definition update_on :: "rename_env \<Rightarrow> vnode \<Rightarrow> bool \<Rightarrow> rstate \<Rightarrow> (errno \<times> rstate) outcome" where
  "update_on env v waitfor = run_on v (ext2_update (re_inode env v) waitfor)"

text \<open>The checks before anything changes: the error of \<open>abortit\<close>, which may be 0.\<close>

definition rename_check :: "rename_args \<Rightarrow> rstate \<Rightarrow> errno option" where
  "rename_check a s =
     (let core = rs_core s; dp = core (ra_fdvp a); ip = core (ra_fvp a) in
      if ra_xdev a then Some EXDEV
      else if (case ra_tvp a of None \<Rightarrow> False | Some t \<Rightarrow> flagged (core t) (IMMUTABLE OR APPEND) \<or> flagged (core (ra_tdvp a)) APPEND)
        then Some EPERM
      else if ra_tvp a = Some (ra_fvp a) then Some 0
      else if nlink ip \<ge> EXT2_LINK_MAX then Some EMLINK
      else if flagged ip (IMMUTABLE OR APPEND) \<or> flagged dp APPEND then Some EPERM
      else if i_mode ip AND IFMT = IFDIR \<and>
              (ra_fname a = [0x2E] \<or> ra_fdvp a = ra_fvp a \<or> ra_dotdot a \<or> i_flag ip AND IN_RENAME \<noteq> 0) then Some EINVAL
      else None)"

text \<open>The ways out after the link count was raised.\<close>

definition rename_out :: "rename_args \<Rightarrow> errno \<Rightarrow> rstate \<Rightarrow> errno \<times> rstate" where
  "rename_out a error s =
     (error, put_vnodes [ra_fvp a] (on_inode (ra_fvp a) (\<lambda>ip. (dec_nlink ip)\<lparr>i_flag := i_flag (dec_nlink ip) AND NOT IN_RENAME\<rparr>) s))"

definition rename_bad :: "rename_args \<Rightarrow> errno \<Rightarrow> rstate \<Rightarrow> errno \<times> rstate" where
  "rename_bad a error s =
     rename_out a error (put_vnodes ((case ra_tvp a of None \<Rightarrow> [] | Some t \<Rightarrow> [t]) @ [ra_tdvp a]) s)"

text \<open>The target does not exist: \<open>moves\<close> says that a directory gets a new parent. A result other than 0 goes to \<open>bad\<close>.\<close>

definition rename_link :: "rename_env \<Rightarrow> rename_args \<Rightarrow> bool \<Rightarrow> rstate \<Rightarrow> (errno \<times> rstate) outcome" where
  "rename_link env a moves s =
     (let td = ra_tdvp a in
      bnd (if \<not> moves then Ret (0, s)
           else if too_many_links (rs_core s td) then Ret (EMLINK, s)
           else update_on env td (\<not> doing_async (re_inode env td)) (on_inode td inc_nlink s)) (\<lambda>(error, s).
      if error \<noteq> 0 then Ret (error, s)
      else
        bnd (run_on td (\<lambda>dp ump. dir_enter (re_vnode env td) (re_junk env) (rs_core s (ra_fvp a)) dp (ra_tname a) ump) s) (\<lambda>(error, s).
        if error = 0 then Ret (0, put_vnodes [td] s)
        else if moves then bnd (update_on env td True (on_inode td dec_nlink s)) (\<lambda>(_, s). Ret (error, s))
        else Ret (error, s))))"

text \<open>The sticky bit of the directory, and what may replace what.\<close>

definition over_check :: "rename_env \<Rightarrow> bool \<Rightarrow> inode \<Rightarrow> inode \<Rightarrow> inode \<Rightarrow> ext2mount \<Rightarrow> errno outcome" where
  "over_check env doingdirectory ip dp xp ump =
     (if i_number xp = i_number ip then Fault (Panic ''ext2_rename: same file'')
      else
        bnd (if i_mode dp AND ISVTX = 0 then Ret False else bnd (re_cred env) (\<lambda>uid. Ret (uid \<noteq> 0 \<and> uid \<noteq> i_uid dp \<and> i_uid xp \<noteq> uid))) (\<lambda>sticky.
        if sticky then Ret EPERM
        else if i_mode xp AND IFMT = IFDIR then
          bnd (ext2_dirempty ump xp (i_number dp)) (\<lambda>empty.
          Ret (if \<not> empty \<or> nlink xp > 2 then ENOTEMPTY else if \<not> doingdirectory then ENOTDIR else 0))
        else Ret (if doingdirectory then EISDIR else 0)))"

text \<open>The target exists: its entry is rewritten, and it loses a link, or as a directory both and its contents.\<close>

definition rename_over :: "rename_env \<Rightarrow> rename_args \<Rightarrow> vnode \<Rightarrow> bool \<Rightarrow> bool \<Rightarrow> rstate \<Rightarrow> (errno \<times> rstate) outcome" where
  "rename_over env a tvp doingdirectory moves s =
     (let td = ra_tdvp a in
      bnd (over_check env doingdirectory (rs_core s (ra_fvp a)) (rs_core s td) (rs_core s tvp) (rs_ump s)) (\<lambda>error.
      if error \<noteq> 0 then Ret (error, s)
      else
        bnd (run_on td (\<lambda>dp ump. bnd (ext2_dirrewrite ump dp (rs_core s (ra_fvp a))) (\<lambda>(error, ump, dp). Ret (error, dp, ump))) s) (\<lambda>(error, s).
        if error \<noteq> 0 then Ret (error, s)
        else
          let s = (if doingdirectory \<and> \<not> moves then on_inode td dec_nlink s else s);
              s = on_inode tvp (\<lambda>xp. xp\<lparr>i_nlink := i_nlink xp - 1\<rparr>) (put_vnodes [td] s)
          in bnd (if \<not> doingdirectory then Ret s
                  else
                    let s = on_inode tvp (\<lambda>xp. xp\<lparr>i_nlink := i_nlink xp - 1\<rparr>) s in
                    if i_nlink (rs_core s tvp) \<noteq> 0 then Fault (Panic ''ext2_rename: linked directory'')
                    else bnd (run_on tvp (ext2_truncate (with_sync True (re_inode env tvp)) 0) s) (\<lambda>(_, s). Ret s)) (\<lambda>s.
             Ret (0, put_vnodes [tvp] (on_inode tvp (set_flag IN_CHANGE) s))))))"

text \<open>The entry \<open>..\<close> of a directory that moved. The length of the name is taken from the type of the entry.\<close>

definition rename_dotdot :: "rename_env \<Rightarrow> rename_args \<Rightarrow> u32 \<Rightarrow> rstate \<Rightarrow> rstate outcome" where
  "rename_dotdot env a newparent s =
     (let f = ra_fvp a in
      bnd (vn_read (rs_ump s) (rs_core s f) 24) (\<lambda>(error, dirbuf).
      if error \<noteq> 0 then Ret s
      else if dirbuf ! 19 \<noteq> 2 \<or> dirbuf ! 20 \<noteq> 0x2E \<or> dirbuf ! 21 \<noteq> 0x2E then
        bnd (ext2_dirbad (ie_rdonly (re_inode env f))) (\<lambda>_. Ret s)
      else
        bnd (st32 dirbuf 12 newparent) (\<lambda>dirbuf.
        bnd (run_on f (\<lambda>ip ump. bnd (vn_write (synced True (re_vnode env f)) ump ip dirbuf 0) (\<lambda>(error, ump, ip). Ret (error, ip, ump))) s)
          (\<lambda>(_, s). Ret s))))"

definition rename_unlink :: "rename_env \<Rightarrow> rename_args \<Rightarrow> bool \<Rightarrow> u32 \<Rightarrow> rstate \<Rightarrow> (errno \<times> rstate) outcome" where
  "rename_unlink env a moves newparent s =
     (let f = ra_fvp a; fd = ra_fdvp a in
      bnd (if moves then rename_dotdot env a newparent (on_inode fd dec_nlink s) else Ret s) (\<lambda>s.
      bnd (run_on fd (dir_remove (re_inode env fd)) s) (\<lambda>(error, s).
      let s = (if error = 0 then on_inode f dec_nlink s else s);
          s = on_inode f (\<lambda>ip. ip\<lparr>i_flag := i_flag ip AND NOT IN_RENAME\<rparr>) s
      in Ret (error, put_vnodes [fd, f, f] s))))"

definition ext2_rename :: "rename_env \<Rightarrow> rename_args \<Rightarrow> rstate \<Rightarrow> (errno \<times> rstate) outcome" where
  "ext2_rename env a s =
     (let f = ra_fvp a; fd = ra_fdvp a; td = ra_tdvp a in
      case rename_check a s of
        Some error \<Rightarrow> Ret (error, put_vnodes (td # (case ra_tvp a of None \<Rightarrow> [] | Some t \<Rightarrow> [t]) @ [fd, f]) s)
      | None \<Rightarrow>
          let doingdirectory = (i_mode (rs_core s f) AND IFMT = IFDIR);
              oldparent = (if doingdirectory then s32 (uint (i_number (rs_core s fd))) else 0);
              s = (if doingdirectory then on_inode f (set_flag IN_RENAME) s else s);
              s = on_inode f inc_nlink (put_vnodes [fd] s)
          in bnd (update_on env f (\<not> doing_async (re_inode env f)) s) (\<lambda>(error, s).
             if error \<noteq> 0 then Ret (rename_bad a error s)
             else
               let number = i_number (rs_core s td);
                   newparent = (if oldparent \<noteq> s32 (uint number) then number else 0);
                   moves = (doingdirectory \<and> newparent \<noteq> 0)
               in bnd (if moves then ends (ext2_checkpath (re_vget env) (rs_ump s) (rs_core s f) (rs_core s td)) else Ret 0) (\<lambda>error.
                  if error \<noteq> 0 then Ret (rename_out a error s)
                  else
                    bnd (case ra_tvp a of None \<Rightarrow> rename_link env a moves s | Some t \<Rightarrow> rename_over env a t doingdirectory moves s) (\<lambda>(error, s).
                    if error \<noteq> 0 then Ret (rename_bad a error s) else rename_unlink env a moves newparent s))))"

section \<open>\<^verbatim>\<open>ext2_pathconf\<close>, \<^verbatim>\<open>ext2_ioctl\<close>\<close>

datatype pathconf = PC_LINK_MAX | PC_NAME_MAX | PC_PATH_MAX | PC_PIPE_BUF | PC_CHOWN_RESTRICTED | PC_NO_TRUNC | PC_MIN_HOLE_SIZE |
  PC_ASYNC_IO | PC_PRIO_IO | PC_SYNC_IO | PC_ALLOC_SIZE_MIN | PC_FILESIZEBITS | PC_REC_INCR_XFER_SIZE | PC_REC_MAX_XFER_SIZE |
  PC_REC_MIN_XFER_SIZE | PC_REC_XFER_ALIGN | PC_SYMLINK_MAX | PC_OTHER

text \<open>The limits of the system's headers, and the sizes of the mount.\<close>

record limits =
  lim_name_max :: int
  lim_path_max :: int
  lim_pipe_buf :: int
  lim_page_size :: int
  lim_maxpathlen :: int
  lim_iosize :: int
  lim_bsize :: int

definition ext2_pathconf :: "limits \<Rightarrow> pathconf \<Rightarrow> errno + int" where
  "ext2_pathconf l name =
     (case name of
        PC_LINK_MAX \<Rightarrow> Inr EXT2_LINK_MAX
      | PC_NAME_MAX \<Rightarrow> Inr (lim_name_max l)
      | PC_PATH_MAX \<Rightarrow> Inr (lim_path_max l)
      | PC_PIPE_BUF \<Rightarrow> Inr (lim_pipe_buf l)
      | PC_CHOWN_RESTRICTED \<Rightarrow> Inr 1
      | PC_NO_TRUNC \<Rightarrow> Inr 1
      | PC_MIN_HOLE_SIZE \<Rightarrow> Inr (lim_iosize l)
      | PC_ASYNC_IO \<Rightarrow> Inl EINVAL
      | PC_PRIO_IO \<Rightarrow> Inr 0
      | PC_SYNC_IO \<Rightarrow> Inr 0
      | PC_ALLOC_SIZE_MIN \<Rightarrow> Inr (lim_bsize l)
      | PC_FILESIZEBITS \<Rightarrow> Inr 64
      | PC_REC_INCR_XFER_SIZE \<Rightarrow> Inr (lim_iosize l)
      | PC_REC_MAX_XFER_SIZE \<Rightarrow> Inr (- 1)
      | PC_REC_MIN_XFER_SIZE \<Rightarrow> Inr (lim_iosize l)
      | PC_REC_XFER_ALIGN \<Rightarrow> Inr (lim_page_size l)
      | PC_SYMLINK_MAX \<Rightarrow> Inr (lim_maxpathlen l)
      | PC_OTHER \<Rightarrow> Inl EINVAL)"

definition ext2_ioctl :: errno where "ext2_ioctl = ENOTTY"


end
