(* ===== verification/Ext2_DirProps.thy ===== *)
theory Ext2_DirProps
  imports Ext2_Dir
begin

text \<open>
  What the directory operations do. The blocks of a well-formed directory are lists of entries that fill them; the search over
  the bytes is shown equal to a search over those lists, and entering, removing and rewriting an entry are shown to change the
  map from names to inode numbers as intended. \<open>dir_blocks\<close> is what the operations need of the file that holds the
  directory.
\<close>

section \<open>Alignment\<close>

lemma and_not_pow: "x AND NOT (2 ^ k - 1) = x div 2 ^ k * 2 ^ k" for x :: int
proof -
  have "x AND NOT (mask k) = push_bit k (drop_bit k x)"
  proof (rule bit_eqI)
    fix n
    show "bit (x AND NOT (mask k)) n \<longleftrightarrow> bit (push_bit k (drop_bit k x)) n"
      by (cases "k \<le> n") (simp_all add: bit_simps)
  qed
  then show ?thesis by (simp add: mask_eq_exp_minus_1 push_bit_eq_mult drop_bit_eq_div)
qed

lemma and_pow: "x AND (2 ^ k - 1) = x mod 2 ^ k" for x :: int
  by (simp add: take_bit_eq_mask mask_eq_exp_minus_1 flip: take_bit_eq_mod)

lemma ceil_blocks: "0 < b \<Longrightarrow> (n * b + b - 1) div b * b = n * b" for b :: int
  using div_mult_self3 [of b n "b - 1"] by (simp add: algebra_simps)

lemma rec_len: "EXT2_DIR_REC_LEN n = (n + 11) div 4 * 4"
proof -
  have "NOT 3 = NOT (2 ^ 2 - 1 :: int)" by simp
  then have "EXT2_DIR_REC_LEN n = (n + 8 + 3) AND NOT (2 ^ 2 - 1)" by (simp only: EXT2_DIR_REC_LEN_def)
  then show ?thesis by (simp only: and_not_pow) (simp add: algebra_simps)
qed

lemma rec_len_bounds: "n + 8 \<le> EXT2_DIR_REC_LEN n" "EXT2_DIR_REC_LEN n \<le> n + 11" "EXT2_DIR_REC_LEN n mod 4 = 0"
  unfolding rec_len by presburger+

lemma rec_len_small: "n < 256 \<Longrightarrow> EXT2_DIR_REC_LEN n < 65536"
  using rec_len_bounds(2) [of n] by linarith

section \<open>Entries\<close>

record dent =
  dn_ino :: u32
  dn_reclen :: u16
  dn_namlen :: u8
  dn_type :: u8
  dn_rest :: bytes

definition dent_bytes :: "dent \<Rightarrow> bytes" where
  "dent_bytes e = bytes_of (dn_ino e) @ bytes16 (dn_reclen e) @ [dn_namlen e, dn_type e] @ dn_rest e"

definition dent_name :: "dent \<Rightarrow> bytes" where "dent_name e = take (unat (dn_namlen e)) (dn_rest e)"
definition dent_need :: "dent \<Rightarrow> int" where "dent_need e = EXT2_DIR_REC_LEN (uint (dn_namlen e))"

definition dent_ok :: "dent \<Rightarrow> bool" where
  "dent_ok e \<longleftrightarrow> 8 + length (dn_rest e) = unat (dn_reclen e) \<and> unat (dn_reclen e) mod 4 = 0 \<and>
     dent_need e \<le> uint (dn_reclen e) \<and> 12 \<le> uint (dn_reclen e) \<and> (dn_ino e \<noteq> 0 \<longrightarrow> dn_namlen e \<noteq> 0)"

definition block_of :: "dent list \<Rightarrow> bytes" where "block_of es = concat (map dent_bytes es)"
definition dents_len :: "dent list \<Rightarrow> nat" where "dents_len es = (\<Sum>e\<leftarrow>es. unat (dn_reclen e))"

definition block_ok :: "nat \<Rightarrow> dent list \<Rightarrow> bool" where
  "block_ok bsize es \<longleftrightarrow> (\<forall>e\<in>set es. dent_ok e) \<and> dents_len es = bsize"

lemma dents_len_simps [simp]: "dents_len [] = 0" "dents_len (e # es) = unat (dn_reclen e) + dents_len es"
    "dents_len (es @ fs) = dents_len es + dents_len fs"
  by (simp_all add: dents_len_def)

lemma block_of_simps [simp]: "block_of [] = []" "block_of (e # es) = dent_bytes e @ block_of es" "block_of (es @ fs) = block_of es @ block_of fs"
  by (simp_all add: block_of_def)

lemma dent_bytes_length: "dent_ok e \<Longrightarrow> length (dent_bytes e) = unat (dn_reclen e)"
  by (simp add: dent_bytes_def dent_ok_def)

lemma block_of_length: "\<forall>e\<in>set es. dent_ok e \<Longrightarrow> length (block_of es) = dents_len es"
  by (induction es) (simp_all add: dent_bytes_length)

lemma dent_need_pos: "8 \<le> dent_need e"
  using rec_len_bounds(1) [of "uint (dn_namlen e)"] uint_ge_0 [of "dn_namlen e"] unfolding dent_need_def by linarith

lemma dent_need_small: "dent_need e < 65536"
  using uint_bounded [of "dn_namlen e"] unfolding dent_need_def by (intro rec_len_small) simp_all

lemma dent_ok_pos: assumes "dent_ok e" shows "8 \<le> uint (dn_reclen e)" "dn_reclen e \<noteq> 0" "8 + unat (dn_namlen e) \<le> unat (dn_reclen e)"
proof -
  show *: "8 \<le> uint (dn_reclen e)" using assms dent_need_pos [of e] unfolding dent_ok_def by linarith
  then show "dn_reclen e \<noteq> 0" by auto
  have "uint (dn_namlen e) + 8 \<le> uint (dn_reclen e)"
    using assms rec_len_bounds(1) [of "uint (dn_namlen e)"] unfolding dent_ok_def dent_need_def by linarith
  then have "int (8 + unat (dn_namlen e)) \<le> int (unat (dn_reclen e))" by simp
  then show "8 + unat (dn_namlen e) \<le> unat (dn_reclen e)" by (simp only: of_nat_le_iff)
qed

text \<open>The fields of an entry that follows \<open>P\<close> in a buffer.\<close>

lemma take_mid: "length x = n \<Longrightarrow> take n (drop (length P) (P @ x @ Q)) = x"
  by simp

lemma unat_mod_4: "uint w mod 4 = 0 \<longleftrightarrow> unat w mod 4 = 0" for w :: u16
proof -
  have "uint w mod 4 = int (unat w mod 4)" by (simp add: of_nat_mod)
  then show ?thesis by (simp only: of_nat_eq_0_iff)
qed

lemma e2d_fields:
  assumes "o' = int (length P)" "bs = P @ dent_bytes e @ Q"
  shows "e2d_ino bs o' = Ret (dn_ino e)" "e2d_reclen bs o' = Ret (dn_reclen e)" "e2d_namlen bs o' = Ret (dn_namlen e)" "e2d_type bs o' = Ret (dn_type e)"
    "n \<le> length (dn_rest e) \<Longrightarrow> e2d_name bs o' n = Ret (take n (dn_rest e))"
proof -
  let ?r = "bytes16 (dn_reclen e) @ [dn_namlen e, dn_type e] @ dn_rest e @ Q"
  have b1: "bs = P @ bytes_of (dn_ino e) @ ?r" using assms(2) by (simp add: dent_bytes_def)
  have b2: "bs = (P @ bytes_of (dn_ino e)) @ bytes16 (dn_reclen e) @ ([dn_namlen e, dn_type e] @ dn_rest e @ Q)"
    using b1 by simp
  have b3: "bs = (P @ bytes_of (dn_ino e) @ bytes16 (dn_reclen e)) @ [dn_namlen e, dn_type e] @ dn_rest e @ Q"
    using b1 by simp
  have b4: "bs = (P @ bytes_of (dn_ino e) @ bytes16 (dn_reclen e) @ [dn_namlen e, dn_type e]) @ dn_rest e @ Q"
    using b1 by simp
  show "e2d_ino bs o' = Ret (dn_ino e)"
    unfolding e2d_ino_def ld32_def assms(1) by (subst b1) (simp add: slice_def)
  show "e2d_reclen bs o' = Ret (dn_reclen e)"
    unfolding e2d_reclen_def ld16_def assms(1) by (subst b2) (simp add: slice_def nat_add_distrib)
  show "e2d_namlen bs o' = Ret (dn_namlen e)"
    unfolding e2d_namlen_def assms(1) by (subst b3) (simp add: rd_def nat_add_distrib nth_append)
  show "e2d_type bs o' = Ret (dn_type e)"
    unfolding e2d_type_def assms(1) by (subst b3) (simp add: rd_def nat_add_distrib nth_append)
  show "n \<le> length (dn_rest e) \<Longrightarrow> e2d_name bs o' n = Ret (take n (dn_rest e))"
    unfolding e2d_name_def assms(1) by (subst b4) (simp add: slice_def nat_add_distrib)
qed


section \<open>Geometry of a mounted volume\<close>

definition bsz :: "ext2mount \<Rightarrow> nat" where "bsz ump = unat (e2fs_bsize (um_e2fs ump))"

definition dir_geom :: "ext2mount \<Rightarrow> bool" where
  "dir_geom ump \<longleftrightarrow> (let fs = um_e2fs ump; s = unat (e2fs_bshift fs) in 10 \<le> s \<and> s \<le> 12 \<and> bsz ump = 2 ^ s \<and> e2fs_qbmask fs = 2 ^ s - 1)"

lemma dir_geomE:
  assumes "dir_geom ump"
  obtains s where "10 \<le> s" "s \<le> 12" "bsz ump = 2 ^ s" "unat (e2fs_bshift (um_e2fs ump)) = s" "e2fs_qbmask (um_e2fs ump) = 2 ^ s - 1"
  using assms unfolding dir_geom_def Let_def by blast

lemma bsz_bounds: assumes "dir_geom ump" shows "1024 \<le> bsz ump" "bsz ump \<le> 4096" "4 dvd bsz ump"
proof -
  obtain s where s: "10 \<le> s" "s \<le> 12" "bsz ump = 2 ^ s" by (rule dir_geomE [OF assms])
  then have "s = 10 \<or> s = 11 \<or> s = 12" by linarith
  then show "1024 \<le> bsz ump" "bsz ump \<le> 4096" "4 dvd bsz ump" using s(3) by auto
qed

lemma DIRBLKSIZ_bsz: assumes "dir_geom ump" shows "DIRBLKSIZ ump = int (bsz ump)"
proof -
  have "uint (e2fs_bsize (um_e2fs ump)) = int (bsz ump)" by (simp add: bsz_def)
  then show ?thesis using bsz_bounds [OF assms] by (simp add: DIRBLKSIZ_def)
qed

lemma dirblk_masks:
  assumes "dir_geom ump"
  shows "x AND (DIRBLKSIZ ump - 1) = x mod int (bsz ump)" "x AND NOT (DIRBLKSIZ ump - 1) = x div int (bsz ump) * int (bsz ump)"
    "blkoff (um_e2fs ump) x = x mod int (bsz ump)" "lblkno (um_e2fs ump) x = x div int (bsz ump)"
proof -
  obtain s where s: "bsz ump = 2 ^ s" "unat (e2fs_bshift (um_e2fs ump)) = s" "e2fs_qbmask (um_e2fs ump) = 2 ^ s - 1"
    by (rule dir_geomE [OF assms])
  have d: "DIRBLKSIZ ump = 2 ^ s" using DIRBLKSIZ_bsz [OF assms] s(1) by simp
  have q: "e2fs_qbmask (um_e2fs ump) = mask (unat (e2fs_bshift (um_e2fs ump)))" using s by (simp add: mask_eq_exp_minus_1)
  show "x AND (DIRBLKSIZ ump - 1) = x mod int (bsz ump)" "x AND NOT (DIRBLKSIZ ump - 1) = x div int (bsz ump) * int (bsz ump)"
    unfolding d s(1) by (simp_all only: and_pow and_not_pow of_nat_power of_nat_numeral)
  show "blkoff (um_e2fs ump) x = x mod int (bsz ump)" "lblkno (um_e2fs ump) x = x div int (bsz ump)"
    using blkoff_lblkno [OF q, of x] s by simp_all
qed

lemma uint_and_not_pow: "s < 64 \<Longrightarrow> uint (w AND NOT (word_of_int (2 ^ s - 1))) = uint w div 2 ^ s * 2 ^ s" for w :: u64
proof -
  assume s: "s < 64"
  have "uint (w AND NOT (mask s)) = uint w AND NOT (mask s)"
  proof (rule bit_eqI)
    fix n
    have "bit w n \<Longrightarrow> n < 64" using bit_imp_le_length [of w n] by simp
    then show "bit (uint (w AND NOT (mask s))) n \<longleftrightarrow> bit (uint w AND NOT (mask s)) n"
      by (auto simp: bit_simps)
  qed
  moreover have "word_of_int (2 ^ s - 1) = (mask s :: u64)" by (simp add: mask_eq_exp_minus_1)
  moreover have "(mask s :: int) = 2 ^ s - 1" by (simp add: mask_eq_exp_minus_1)
  ultimately show ?thesis using and_not_pow [of "uint w" s] by simp
qed

lemma roundup_blocks:
  assumes "dir_geom ump" "uint x = int (n * bsz ump)" "n * bsz ump < 2 ^ 31"
  shows "roundup_size x (DIRBLKSIZ ump) = x" "to_doff x = int (n * bsz ump)"
proof -
  obtain s where s: "10 \<le> s" "s \<le> 12" "bsz ump = 2 ^ s" by (rule dir_geomE [OF assms(1)])
  have d: "DIRBLKSIZ ump = 2 ^ s" using DIRBLKSIZ_bsz [OF assms(1)] s(3) by simp
  have "s = 10 \<or> s = 11 \<or> s = 12" using s(1,2) by linarith
  then have b: "2 ^ s \<le> (4096::int)" by auto
  have n: "uint x < 2 ^ 31" 
  proof -
    have "int (n * bsz ump) < int (2 ^ 31)" using assms(3) by (simp only: of_nat_less_iff)
    then show ?thesis using assms(2) by simp
  qed
  have "uint (word_of_int (2 ^ s - 1) :: u64) = 2 ^ s - 1" using \<open>s = 10 \<or> s = 11 \<or> s = 12\<close> by auto
  then have u: "uint (x + word_of_int (2 ^ s - 1)) = uint x + (2 ^ s - 1)"
    using n b uint_ge_0 [of x] by (simp add: uint_word_ariths)
  have "uint (roundup_size x (DIRBLKSIZ ump)) = (uint x + (2 ^ s - 1)) div 2 ^ s * 2 ^ s"
    unfolding roundup_size_def d using uint_and_not_pow [of s "x + word_of_int (2 ^ s - 1)"] s(2) by (simp only: u)
  also have "\<dots> = uint x" unfolding assms(2) s(3) by (simp add: div_add1_eq)
  finally show "roundup_size x (DIRBLKSIZ ump) = x" by (simp only: word_uint_eq_iff)
  show "to_doff x = int (n * bsz ump)" unfolding to_doff_def assms(2) using n assms(2) by (intro s32_small) simp_all
qed

lemma roundup2_blocks:
  assumes "dir_geom ump" shows "roundup2 x (DIRBLKSIZ ump) = (x + int (bsz ump) - 1) div int (bsz ump) * int (bsz ump)"
  unfolding roundup2_def dirblk_masks(2) [OF assms] by (simp add: DIRBLKSIZ_bsz [OF assms] algebra_simps)


section \<open>The search over lists of entries\<close>

text \<open>A reference definition of the search: the same bookkeeping, over the entries of one block and over the blocks.\<close>

definition ent_slot :: "int \<Rightarrow> dent \<Rightarrow> scan \<Rightarrow> scan" where
  "ent_slot needed e s = slot_step needed (dn_ino e) (uint (dn_reclen e)) (if dn_ino e = 0 then 0 else dent_need e) s"

definition ent_next :: "dent \<Rightarrow> scan \<Rightarrow> scan" where
  "ent_next e s = (let next = sc_offset s + uint (dn_reclen e) in
     s\<lparr>sc_prevoff := sc_offset s, sc_offset := next, sc_eo := sc_eo s + uint (dn_reclen e),
       sc_enduseful := (if dn_ino e \<noteq> 0 then next else sc_enduseful s)\<rparr>)"

definition ent_matches :: "bytes \<Rightarrow> dent \<Rightarrow> bool" where
  "ent_matches name e \<longleftrightarrow> dn_ino e \<noteq> 0 \<and> dent_name e = name"

fun block_scan :: "int \<Rightarrow> bytes \<Rightarrow> dent list \<Rightarrow> scan \<Rightarrow> u32 option \<times> scan" where
  "block_scan needed name [] s = (None, s)"
| "block_scan needed name (e # es) s =
     (if ent_matches name e then (Some (dn_ino e), ent_slot needed e s) else block_scan needed name es (ent_next e (ent_slot needed e s)))"

definition block_enter :: "bytes \<Rightarrow> scan \<Rightarrow> scan" where
  "block_enter bs s = (let s = s\<lparr>sc_bp := Some bs, sc_eo := 0\<rparr> in
     if sc_status s = NONE then s\<lparr>sc_slotoffset := - 1, sc_slotfree := 0\<rparr> else s)"

fun dir_scan :: "int \<Rightarrow> bytes \<Rightarrow> dent list list \<Rightarrow> scan \<Rightarrow> u32 option \<times> scan" where
  "dir_scan needed name [] s = (None, s)"
| "dir_scan needed name (es # ess) s =
     (case block_scan needed name es (block_enter (block_of es) s) of
        (Some ino, s) \<Rightarrow> (Some ino, s)
      | (None, s) \<Rightarrow> dir_scan needed name ess s)"

lemma slot_step_keeps [simp]:
  "sc_offset (slot_step n i r l s) = sc_offset s" "sc_eo (slot_step n i r l s) = sc_eo s" "sc_bp (slot_step n i r l s) = sc_bp s"
  "sc_prevoff (slot_step n i r l s) = sc_prevoff s" "sc_enduseful (slot_step n i r l s) = sc_enduseful s"
  by (simp_all add: slot_step_def Let_def)

lemma ent_slot_keeps [simp]:
  "sc_offset (ent_slot n e s) = sc_offset s" "sc_eo (ent_slot n e s) = sc_eo s" "sc_bp (ent_slot n e s) = sc_bp s"
  "sc_prevoff (ent_slot n e s) = sc_prevoff s" "sc_enduseful (ent_slot n e s) = sc_enduseful s"
  by (simp_all add: ent_slot_def)

lemma block_enter_simps [simp]:
  "sc_offset (block_enter b s) = sc_offset s" "sc_eo (block_enter b s) = 0" "sc_bp (block_enter b s) = Some b" "sc_prevoff (block_enter b s) = sc_prevoff s"
  "sc_status (block_enter b s) = sc_status s" "sc_enduseful (block_enter b s) = sc_enduseful s" "sc_slotsize (block_enter b s) = sc_slotsize s"
  by (simp_all add: block_enter_def Let_def)

lemma ent_next_simps [simp]:
  "sc_offset (ent_next e s) = sc_offset s + uint (dn_reclen e)" "sc_eo (ent_next e s) = sc_eo s + uint (dn_reclen e)"
  "sc_bp (ent_next e s) = sc_bp s" "sc_prevoff (ent_next e s) = sc_offset s" "sc_status (ent_next e s) = sc_status s"
  "sc_slotoffset (ent_next e s) = sc_slotoffset s" "sc_slotsize (ent_next e s) = sc_slotsize s" "sc_slotfree (ent_next e s) = sc_slotfree s"
  "sc_enduseful (ent_next e s) = (if dn_ino e \<noteq> 0 then sc_offset s + uint (dn_reclen e) else sc_enduseful s)"
  by (simp_all add: ent_next_def Let_def)

lemma block_scan_bp: "sc_bp (snd (block_scan needed name es s)) = sc_bp s"
  by (induction es arbitrary: s) simp_all

lemma block_scan_end: "fst (block_scan needed name es s) = None \<Longrightarrow>
    sc_offset (snd (block_scan needed name es s)) = sc_offset s + int (dents_len es) \<and>
    sc_eo (snd (block_scan needed name es s)) = sc_eo s + int (dents_len es)"
  by (induction es arbitrary: s) (auto split: if_splits)

section \<open>Directories in blocks\<close>

text \<open>
  \<open>dir_content\<close>: the blocks of the directory at the addresses \<open>a\<close> hold the entries \<open>ess\<close>, which fill them, and the size is that of
  the blocks. With \<open>dirchk\<close> on, no entry has an inode number past the volume.
\<close>

type_synonym backing = "ext2mount \<Rightarrow> inode \<Rightarrow> (nat \<Rightarrow> int) \<Rightarrow> nat \<Rightarrow> bool"

definition dir_content :: "backing \<Rightarrow> bool \<Rightarrow> ext2mount \<Rightarrow> inode \<Rightarrow> (nat \<Rightarrow> int) \<Rightarrow> dent list list \<Rightarrow> bool" where
  "dir_content backed dirchk ump dp a ess \<longleftrightarrow>
     backed ump dp a (length ess) \<and> uint (i_size dp) = int (length ess * bsz ump) \<and> length ess * bsz ump < 2 ^ 31 \<and>
     (\<forall>k < length ess. dev_blk (um_devvp ump) (a k) = block_of (ess ! k) \<and> block_ok (bsz ump) (ess ! k)) \<and>
     (dirchk \<longrightarrow> (\<forall>e \<in> set (concat ess). dn_ino e \<le> e2fs_icount (e2fs (um_e2fs ump))))"

definition same_file :: "inode \<Rightarrow> inode \<Rightarrow> bool" where
  "same_file ip jp \<longleftrightarrow> i_db ip = i_db jp \<and> i_ib ip = i_ib jp \<and> i_flag ip AND IN_E4EXTENTS = i_flag jp AND IN_E4EXTENTS \<and>
     i_ext_cache ip = i_ext_cache jp \<and> i_size ip = i_size jp"

text \<open>
  What the operations need of the file: every block can be read through \<^const>\<open>ext2_blkatoff\<close> from an address of its own, and neither writing
  one of the blocks nor a change of the other fields of the inode changes the addresses.
\<close>

locale dir_blocks =
  fixes backed :: "ext2mount \<Rightarrow> inode \<Rightarrow> (nat \<Rightarrow> int) \<Rightarrow> nat \<Rightarrow> bool"
  assumes backed_geom: "backed ump dp a n \<Longrightarrow> dir_geom ump"
    and backed_read: "backed ump dp a n \<Longrightarrow> k < n \<Longrightarrow> 0 \<le> r \<Longrightarrow> r < int (bsz ump) \<Longrightarrow>
      ext2_blkatoff ump dp (int k * int (bsz ump) + r) = Ret (Inr (a k, dev_blk (um_devvp ump) (a k), r))"
    and backed_addr: "backed ump dp a n \<Longrightarrow> k < n \<Longrightarrow> a k \<noteq> - 1 \<and> (\<forall>j < n. a j = a k \<longrightarrow> j = k)"
    and backed_write: "backed ump dp a n \<Longrightarrow> k < n \<Longrightarrow> backed (ump\<lparr>um_devvp := snd (buf_bwrite (um_devvp ump) (a k) bs)\<rparr>) dp a n"
    and backed_inode: "backed ump dp a n \<Longrightarrow> same_file dp dp' \<Longrightarrow> backed ump dp' a n"
begin

lemma content_geom: "dir_content backed dirchk ump dp a ess \<Longrightarrow> dir_geom ump"
  using backed_geom by (auto simp: dir_content_def)

lemma content_block: "dir_content backed dirchk ump dp a ess \<Longrightarrow> k < length ess \<Longrightarrow>
    dev_blk (um_devvp ump) (a k) = block_of (ess ! k) \<and> block_ok (bsz ump) (ess ! k)"
  by (simp add: dir_content_def)

lemma content_read: "dir_content backed dirchk ump dp a ess \<Longrightarrow> k < length ess \<Longrightarrow> 0 \<le> r \<Longrightarrow> r < int (bsz ump) \<Longrightarrow>
    ext2_blkatoff ump dp (int k * int (bsz ump) + r) = Ret (Inr (a k, block_of (ess ! k), r))"
  using backed_read [of ump dp a "length ess" k r] by (auto simp: dir_content_def)

text \<open>One entry of a block.\<close>

lemma visit_dent:
  assumes c: "dir_content backed dirchk ump dp a ess" and k: "k < length ess" "ess ! k = es1 @ e # es2" and s: "sc_eo s = int (dents_len es1)"
  shows "visit_entry dirchk ump name needed (block_of (ess ! k)) s =
     Ret (if ent_matches name e then Hit (dn_ino e) else Step (dn_ino e) (uint (dn_reclen e)), ent_slot needed e s)"
proof -
  have ok: "block_ok (bsz ump) (ess ! k)" using content_block [OF c k(1)] by simp
  then have e: "dent_ok e" and l1: "length (block_of es1) = dents_len es1" and fit: "dents_len es1 + unat (dn_reclen e) \<le> bsz ump"
    using k(2) by (auto simp: block_ok_def block_of_length)
  have o: "sc_eo s = int (length (block_of es1))" using s l1 by simp
  have b: "block_of (ess ! k) = block_of es1 @ dent_bytes e @ block_of es2" using k(2) by simp
  note f = e2d_fields [OF o b]
  note p = dent_ok_pos [OF e]
  have nm: "unat (dn_namlen e) \<le> length (dn_rest e)" using e p(3) by (simp add: dent_ok_def)
  have bad: "ext2_dirbadentry ump (block_of (ess ! k)) (sc_eo s) = Ret False" if dirchk
  proof -
    have r1: "EXT2_DIR_REC_LEN 1 = 12" by (simp add: rec_len)
    have m4: "uint (dn_reclen e) mod 4 = 0" using e unfolding dent_ok_def by (simp add: unat_mod_4)
    have fi: "sc_eo s + uint (dn_reclen e) \<le> int (bsz ump)"
      using fit s by (simp only: of_nat_le_iff [symmetric, where 'a = int] of_nat_add) simp
    have i: "\<not> dn_ino e > e2fs_icount (e2fs (um_e2fs ump))"
      using c k that by (auto simp: dir_content_def not_less) (metis Un_iff in_set_conv_decomp nth_mem)
    show ?thesis unfolding ext2_dirbadentry_def f(1-4) bnd.simps r1
      using e m4 fi i by (simp add: DIRBLKSIZ_bsz [OF content_geom [OF c]] dent_ok_def dent_need_def not_less)
  qed
  have nm2: "uint (dn_namlen e) = int (length name) \<and> dent_name e = name \<longleftrightarrow> dent_name e = name"
    using nm by (auto simp: dent_name_def)
  have bb: "(if dn_reclen e = 0 then Ret True else if dirchk then ext2_dirbadentry ump (block_of (ess ! k)) (sc_eo s) else Ret False) = Ret False"
    using p(2) bad by (cases dirchk) simp_all
  have hit: "(if uint (dn_namlen e) = int (length name) then Ret (take (unat (dn_namlen e)) (dn_rest e) = name) else Ret False) = Ret (dent_name e = name)"
    using nm2 by (auto simp: dent_name_def)
  show ?thesis
  proof (cases "dn_ino e = 0")
    case True
    then show ?thesis unfolding visit_entry_def f(1-4) bnd.simps bb by (simp add: ent_matches_def ent_slot_def del: bnd_Ret_iff)
  next
    case False
    then show ?thesis unfolding visit_entry_def f(1-4) f(5) [OF nm] bnd.simps bb Let_def hit
      by (simp add: ent_matches_def ent_slot_def dent_need_def)
  qed
qed

lemma enter_block:
  assumes c: "dir_content backed dirchk ump dp a ess" and k: "k < length ess" and s: "sc_offset s = int k * int (bsz ump)"
  shows "scan_block ump dp s = Ret (Inr (block_enter (block_of (ess ! k)) s))"
proof -
  note m = dirblk_masks(1) [OF content_geom [OF c]]
  have "0 < int (bsz ump)" using bsz_bounds(1) [OF content_geom [OF c]] by simp
  from content_read [OF c k order_refl this] have "ext2_blkatoff ump dp (sc_offset s) = Ret (Inr (a k, block_of (ess ! k), 0))" by (simp add: s)
  then show ?thesis unfolding scan_block_def Let_def m by (simp add: s block_enter_def)
qed

lemma stay_in_block:
  assumes c: "dir_content backed dirchk ump dp a ess" and s: "sc_offset s = int k * int (bsz ump) + sc_eo s" "0 < sc_eo s" "sc_eo s < int (bsz ump)"
  shows "scan_block ump dp s = Ret (Inr s)"
  unfolding scan_block_def Let_def dirblk_masks(1) [OF content_geom [OF c]] using s by simp

text \<open>The search over the rest \<open>es2\<close> of block \<open>k\<close>.\<close>

lemma search_rest:
  assumes c: "dir_content backed dirchk ump dp a ess" and k: "k < length ess" "int k * int (bsz ump) + int (bsz ump) \<le> endsearch"
    and e: "ess ! k = es1 @ es2" and o: "sc_offset s = int k * int (bsz ump) + int (dents_len es1)"
    and s1: "s1 = (if es1 = [] then block_enter (block_of (ess ! k)) s else s)"
    and b: "es1 \<noteq> [] \<Longrightarrow> sc_bp s = Some (block_of (ess ! k)) \<and> sc_eo s = int (dents_len es1)"
  shows "search_loop dirchk rdonly ump dp name needed endsearch s =
     (case block_scan needed name es2 s1 of
        (Some ino, s') \<Rightarrow> Ret (Inr (Some ino, s'))
      | (None, s') \<Rightarrow> search_loop dirchk rdonly ump dp name needed endsearch s')"
  using e o s1 b
proof (induction es2 arbitrary: es1 s s1)
  case Nil
  have "es1 \<noteq> []"
  proof
    assume "es1 = []"
    then have "bsz ump = 0" using Nil.prems(1) content_block [OF c k(1)] by (simp add: block_ok_def)
    then show False using bsz_bounds(1) [OF content_geom [OF c]] by simp
  qed
  then show ?case using Nil.prems(3) by simp
next
  case (Cons e es2)
  have ok: "block_ok (bsz ump) (ess ! k)" using content_block [OF c k(1)] by simp
  then have de: "dent_ok e" and tot: "dents_len es1 + unat (dn_reclen e) + dents_len es2 = bsz ump"
    using Cons.prems(1) by (auto simp: block_ok_def)
  note p = dent_ok_pos [OF de]
  have i: "int (dents_len es1) + uint (dn_reclen e) + int (dents_len es2) = int (bsz ump)"
    using tot by (simp only: of_nat_eq_iff [symmetric, where 'a = int] of_nat_add) simp
  have eo: "sc_eo s1 = int (dents_len es1)" "sc_bp s1 = Some (block_of (ess ! k))" "sc_offset s1 = sc_offset s"
    using Cons.prems(3,4) by (cases "es1 = []"; simp)+
  have sb: "scan_block ump dp s = Ret (Inr s1)"
  proof (cases "es1 = []")
    case True
    then show ?thesis using enter_block [OF c k(1)] Cons.prems(2,3) by simp
  next
    case False
    then obtain f fs where fs: "es1 = f # fs" by (cases es1) auto
    then have "dent_ok f" using ok Cons.prems(1) by (simp add: block_ok_def)
    from dent_ok_pos(1) [OF this] have "0 < int (dents_len es1)" using fs by simp
    moreover have "int (dents_len es1) < int (bsz ump)" using i p(1) by linarith
    ultimately show ?thesis
      using stay_in_block [OF c, of s k] Cons.prems(2,3,4) False by simp
  qed
  have off: "sc_offset s < endsearch" using Cons.prems(2) i p(1) k(2) by linarith
  have "int (Suc k) * int (bsz ump) \<le> int (length ess) * int (bsz ump)"
    using k(1) by (intro mult_right_mono) simp_all
  moreover have "int (length ess * bsz ump) < int (2 ^ 31)" using c unfolding dir_content_def by (simp only: of_nat_less_iff)
  ultimately have "int k * int (bsz ump) + int (bsz ump) < 2 ^ 31" by (simp add: algebra_simps)
  then have ov: "\<not> sc_offset s + uint (dn_reclen e) > 0x7fffffff" using Cons.prems(2) i by simp
  note v = visit_dent [OF c k(1) Cons.prems(1) eo(1), of name needed]
  let ?s2 = "ent_next e (ent_slot needed e s1)"
  have n2: "sc_bp ?s2 = Some (block_of (ess ! k)) \<and> sc_eo ?s2 = int (dents_len (es1 @ [e])) \<and>
      sc_offset ?s2 = int k * int (bsz ump) + int (dents_len (es1 @ [e]))"
    using eo Cons.prems(2) by simp
  have nx: "search_loop dirchk rdonly ump dp name needed endsearch s =
      (if ent_matches name e then Ret (Inr (Some (dn_ino e), ent_slot needed e s1))
       else search_loop dirchk rdonly ump dp name needed endsearch ?s2)"
    using off ov p(1) eo unfolding search_loop.simps [of dirchk rdonly ump dp name needed endsearch s] sb bnd.simps
    by (simp add: v ent_next_def Let_def)
  have "search_loop dirchk rdonly ump dp name needed endsearch ?s2 =
      (case block_scan needed name es2 ?s2 of
        (Some ino, s') \<Rightarrow> Ret (Inr (Some ino, s'))
      | (None, s') \<Rightarrow> search_loop dirchk rdonly ump dp name needed endsearch s')"
    using Cons.IH [of "es1 @ [e]" ?s2 ?s2] Cons.prems(1) n2 by simp
  then show ?case using nx by simp
qed

text \<open>The search over the blocks from \<open>k\<close> up to \<open>m\<close>.\<close>

lemma search_blocks:
  assumes c: "dir_content backed dirchk ump dp a ess" and m: "k \<le> m" "m \<le> length ess" and o: "sc_offset s = int k * int (bsz ump)"
  shows "search_loop dirchk rdonly ump dp name needed (int m * int (bsz ump)) s =
     Ret (Inr (dir_scan needed name (take (m - k) (drop k ess)) s))"
  using m(1) o
proof (induction "m - k" arbitrary: k s)
  case 0
  then show ?case by (simp add: search_loop.simps [of dirchk rdonly ump dp name needed _ s])
next
  case (Suc x)
  then have k: "k < m" "k < length ess" using m(2) by simp_all
  have "int (Suc k) * int (bsz ump) \<le> int m * int (bsz ump)" using k(1) by (intro mult_right_mono) simp_all
  then have es: "int k * int (bsz ump) + int (bsz ump) \<le> int m * int (bsz ump)" by (simp add: algebra_simps)
  have bl: "dents_len (ess ! k) = bsz ump" using content_block [OF c k(2)] by (simp add: block_ok_def)
  have t: "take (m - k) (drop k ess) = ess ! k # take (m - Suc k) (drop (Suc k) ess)"
    using k Suc.hyps(2) by (metis Cons_nth_drop_Suc Suc_diff_Suc take_Suc_Cons)
  note r = search_rest [OF c k(2) es, of "[]" "ess ! k" s "block_enter (block_of (ess ! k)) s" rdonly name needed, simplified, OF Suc.prems(2)]
  show ?case
  proof (cases "block_scan needed name (ess ! k) (block_enter (block_of (ess ! k)) s)")
    case (Pair i s')
    show ?thesis
    proof (cases i)
      case None
      have "sc_offset s' = int (Suc k) * int (bsz ump)"
        using block_scan_end [of needed name "ess ! k" "block_enter (block_of (ess ! k)) s"] Pair None Suc.prems(2) bl by (simp add: algebra_simps)
      from Suc.hyps(1) [OF _ _ this] Suc.hyps(2) k(1) show ?thesis using r Pair None t by simp
    qed (use r Pair t in simp)
  qed
qed

end

section \<open>The map of a directory\<close>

definition live :: "dent \<Rightarrow> bool" where "live e \<longleftrightarrow> dn_ino e \<noteq> 0"
definition dir_live :: "dent list list \<Rightarrow> (bytes \<times> u32) list" where
  "dir_live ess = map (\<lambda>e. (dent_name e, dn_ino e)) (filter live (concat ess))"
definition dir_map :: "dent list list \<Rightarrow> bytes \<Rightarrow> u32 option" where "dir_map ess = map_of (dir_live ess)"
definition dir_distinct :: "dent list list \<Rightarrow> bool" where "dir_distinct ess \<longleftrightarrow> distinct (map fst (dir_live ess))"

lemma dir_live_simps [simp]: "dir_live [] = []"
    "dir_live (es # ess) = map (\<lambda>e. (dent_name e, dn_ino e)) (filter live es) @ dir_live ess"
    "dir_live (ess @ fss) = dir_live ess @ dir_live fss"
  by (simp_all add: dir_live_def)

lemma block_scan_fst: "fst (block_scan needed name es s) = map_of (map (\<lambda>e. (dent_name e, dn_ino e)) (filter live es)) name"
  by (induction es arbitrary: s) (auto simp: ent_matches_def live_def)

lemma dir_scan_fst: "fst (dir_scan needed name ess s) = dir_map ess name"
proof (induction ess arbitrary: s)
  case (Cons es ess)
  obtain i s' where b: "block_scan needed name es (block_enter (block_of es) s) = (i, s')" by fastforce
  then have "i = map_of (map (\<lambda>e. (dent_name e, dn_ino e)) (filter live es)) name"
    using block_scan_fst [of needed name es "block_enter (block_of es) s"] by simp
  then show ?case using b Cons.IH by (auto simp: dir_map_def map_add_def split: option.split)
qed (simp add: dir_map_def)

text \<open>Where a match is: the position of the entry, and of the one before it in its block.\<close>

definition hit_at :: "bytes \<Rightarrow> dent list \<Rightarrow> int \<Rightarrow> int \<Rightarrow> u32 \<Rightarrow> scan \<Rightarrow> dent list \<Rightarrow> dent \<Rightarrow> dent list \<Rightarrow> bool" where
  "hit_at name es off eo ino s es1 e es2 \<longleftrightarrow> es = es1 @ e # es2 \<and> ent_matches name e \<and> ino = dn_ino e \<and>
     sc_offset s = off + int (dents_len es1) \<and> sc_eo s = eo + int (dents_len es1) \<and>
     (es1 \<noteq> [] \<longrightarrow> sc_prevoff s = off + int (dents_len (butlast es1)))"

lemma block_scan_hit:
  assumes "fst (block_scan needed name es s) = Some ino"
  shows "\<exists>es1 e es2. hit_at name es (sc_offset s) (sc_eo s) ino (snd (block_scan needed name es s)) es1 e es2"
  using assms
proof (induction es arbitrary: s)
  case (Cons e es)
  show ?case
  proof (cases "ent_matches name e")
    case True
    then have "hit_at name (e # es) (sc_offset s) (sc_eo s) ino (snd (block_scan needed name (e # es) s)) [] e es"
      using Cons.prems by (simp add: hit_at_def)
    then show ?thesis by blast
  next
    case False
    let ?s = "ent_next e (ent_slot needed e s)"
    have "fst (block_scan needed name es ?s) = Some ino" using Cons.prems False by simp
    from Cons.IH [OF this] obtain es1 f es2 where
      f: "hit_at name es (sc_offset ?s) (sc_eo ?s) ino (snd (block_scan needed name es ?s)) es1 f es2" by blast
    have pv: "sc_prevoff (snd (block_scan needed name es ?s)) = sc_offset s" if "es1 = []"
      using f that by (simp add: hit_at_def)
    have "hit_at name (e # es) (sc_offset s) (sc_eo s) ino (snd (block_scan needed name (e # es) s)) (e # es1) f es2"
      using f pv False by (auto simp: hit_at_def)
    then show ?thesis by blast
  qed
qed simp

lemma dir_scan_hit:
  assumes "fst (dir_scan needed name ess s) = Some ino" "sc_offset s = int k0 * int B" "\<forall>es \<in> set ess. dents_len es = B"
  shows "\<exists>k es1 e es2. k < length ess \<and> hit_at name (ess ! k) (int (k0 + k) * int B) 0 ino (snd (dir_scan needed name ess s)) es1 e es2"
  using assms
proof (induction ess arbitrary: s k0)
  case (Cons es ess)
  let ?s = "block_enter (block_of es) s"
  obtain i s' where b: "block_scan needed name es ?s = (i, s')" by fastforce
  show ?case
  proof (cases i)
    case (Some j)
    with b Cons.prems(1) have ino: "fst (block_scan needed name es ?s) = Some ino" and s': "snd (block_scan needed name es ?s) = s'"
      by simp_all
    have ds: "snd (dir_scan needed name (es # ess) s) = s'" using b Some by simp
    from block_scan_hit [OF ino] obtain es1 f es2 where "hit_at name es (sc_offset ?s) (sc_eo ?s) ino s' es1 f es2"
      unfolding s' by blast
    then have "0 < length (es # ess) \<and>
      hit_at name ((es # ess) ! 0) (int (k0 + 0) * int B) 0 ino (snd (dir_scan needed name (es # ess) s)) es1 f es2"
      unfolding ds using Cons.prems(2) by simp
    then show ?thesis by blast
  next
    case None
    then have o: "sc_offset s' = int (Suc k0) * int B"
      using block_scan_end [of needed name es ?s] b Cons.prems(2,3) by (simp add: algebra_simps)
    have r: "dir_scan needed name (es # ess) s = dir_scan needed name ess s'" using b None by simp
    have "fst (dir_scan needed name ess s') = Some ino" "\<forall>es \<in> set ess. dents_len es = B" using Cons.prems(1,3) r by simp_all
    from Cons.IH [OF this(1) o this(2)] obtain k es1 e es2 where
      f: "k < length ess" "hit_at name (ess ! k) (int (Suc k0 + k) * int B) 0 ino (snd (dir_scan needed name ess s')) es1 e es2" by blast
    have sk: "Suc k0 + k = k0 + Suc k" by simp
    from f have "Suc k < length (es # ess) \<and>
      hit_at name ((es # ess) ! Suc k) (int (k0 + Suc k) * int B) 0 ino (snd (dir_scan needed name (es # ess) s)) es1 e es2"
      unfolding r sk by simp
    then show ?thesis by blast
  qed
qed (simp)

section \<open>The slot for a new entry\<close>

definition slack :: "dent \<Rightarrow> int" where
  "slack e = uint (dn_reclen e) - (if dn_ino e = 0 then 0 else dent_need e)"
definition slacks :: "dent list \<Rightarrow> int" where "slacks es = (\<Sum>e\<leftarrow>es. slack e)"

lemma slacks_simps [simp]: "slacks [] = 0" "slacks (e # es) = slack e + slacks es" "slacks (es @ fs) = slacks es + slacks fs"
  by (simp_all add: slacks_def)

definition slot_at :: "nat \<Rightarrow> dent list list \<Rightarrow> int \<Rightarrow> int \<Rightarrow> int \<Rightarrow> bool" where
  "slot_at B ess needed off sz \<longleftrightarrow> (\<exists>k es1 run es2. k < length ess \<and> ess ! k = es1 @ run @ es2 \<and> run \<noteq> [] \<and>
     off = int k * int B + int (dents_len es1) \<and> sz = int (dents_len run) \<and> needed \<le> slacks run)"

definition slot_inv :: "nat \<Rightarrow> dent list list \<Rightarrow> int \<Rightarrow> nat \<Rightarrow> dent list \<Rightarrow> scan \<Rightarrow> bool" where
  "slot_inv B ess needed k d s \<longleftrightarrow>
     (if sc_status s = NONE then
        sc_slotoffset s = - 1 \<and> sc_slotfree s = 0 \<or>
        (\<exists>es1 run. d = es1 @ run \<and> run \<noteq> [] \<and> sc_slotoffset s = int k * int B + int (dents_len es1) \<and> sc_slotfree s = slacks run)
      else slot_at B ess needed (sc_slotoffset s) (sc_slotsize s))"

lemma slot_inv_step:
  assumes "slot_inv B ess needed k d s" "k < length ess" "ess ! k = d @ e # r" "sc_offset s = int k * int B + int (dents_len d)"
    and "dent_ok e"
  shows "slot_inv B ess needed k (d @ [e]) (ent_next e (ent_slot needed e s))"
proof -
  have sl: "0 \<le> slack e" using assms(5) by (simp add: slack_def dent_ok_def)
  have found: "slot_at B ess needed (sc_offset s) (uint (dn_reclen e))" if "needed \<le> slack e"
    unfolding slot_at_def using assms(2-4) that by (intro exI [of _ k] exI [of _ d] exI [of _ "[e]"] exI [of _ r]) simp
  have sle: "(if dn_ino e \<noteq> 0 then uint (dn_reclen e) - (if dn_ino e = 0 then 0 else dent_need e) else uint (dn_reclen e)) = slack e"
    by (simp add: slack_def)
  have es: "ent_slot needed e s = (if sc_status s = FOUND then s
      else if slack e > 0 then
          if slack e \<ge> needed then s\<lparr>sc_status := FOUND, sc_slotoffset := sc_offset s, sc_slotsize := uint (dn_reclen e)\<rparr>
          else if sc_status s = NONE then
            let s = s\<lparr>sc_slotfree := sc_slotfree s + slack e\<rparr>;
                s = (if sc_slotoffset s = - 1 then s\<lparr>sc_slotoffset := sc_offset s\<rparr> else s)
            in if sc_slotfree s \<ge> needed
               then s\<lparr>sc_status := COMPACT, sc_slotsize := sc_offset s + uint (dn_reclen e) - sc_slotoffset s\<rparr> else s
          else s
        else s)"
    unfolding ent_slot_def slot_step_def by (simp only: sle Let_def)
  show ?thesis
  proof (cases "sc_status s = NONE")
    case False
    then have "slot_at B ess needed (sc_slotoffset s) (sc_slotsize s)" using assms(1) by (simp add: slot_inv_def)
    then show ?thesis using False found
      by (cases "sc_status s") (auto simp: es slot_inv_def Let_def)
  next
    case none: True
    let ?off = "if sc_slotoffset s = - 1 then sc_offset s else sc_slotoffset s"
    obtain es1 run where run: "d @ [e] = es1 @ run" "run \<noteq> []" "0 < slack e \<Longrightarrow> ?off = int k * int B + int (dents_len es1)"
        "0 < slack e \<Longrightarrow> sc_slotfree s + slack e = slacks run"
        "\<not> 0 < slack e \<Longrightarrow> sc_slotoffset s \<noteq> - 1 \<Longrightarrow> sc_slotoffset s = int k * int B + int (dents_len es1) \<and> sc_slotfree s = slacks run"
        "sc_slotoffset s = - 1 \<Longrightarrow> sc_slotfree s = 0"
    proof (cases "sc_slotoffset s = - 1 \<and> sc_slotfree s = 0")
      case True
      show ?thesis by (rule that [of d "[e]"]) (use True assms(4) in auto)
    next
      case False
      then obtain es1 run where r: "d = es1 @ run" "run \<noteq> []" "sc_slotoffset s = int k * int B + int (dents_len es1)" "sc_slotfree s = slacks run"
        using assms(1) none unfolding slot_inv_def by auto
      have nn: "0 \<le> int k * int B + int (dents_len es1)" by (intro add_nonneg_nonneg mult_nonneg_nonneg) simp_all
      then have "sc_slotoffset s \<noteq> - 1" using r(3) by linarith
      then show ?thesis
        by (intro that [of es1 "run @ [e]"]) (use r sl in auto)
    qed
    have len: "sc_offset s + uint (dn_reclen e) - (int k * int B + int (dents_len es1)) = int (dents_len run)"
    proof -
      have "dents_len (d @ [e]) = dents_len (es1 @ run)" using run(1) by simp
      then have "int (dents_len d) + uint (dn_reclen e) = int (dents_len es1) + int (dents_len run)"
        by (simp add: of_nat_eq_iff [symmetric, where 'a = int] del: of_nat_eq_iff)
      then show ?thesis using assms(4) by linarith
    qed
    have blk: "ess ! k = es1 @ run @ r" using assms(3) run(1) by (metis append.assoc append_Cons append_Nil)
    have comp: "slot_at B ess needed ?off (sc_offset s + uint (dn_reclen e) - ?off)" if
        "needed \<le> sc_slotfree s + slack e" "0 < slack e"
      unfolding slot_at_def using assms(2) blk run(2,3,4) len that
      by (intro exI [of _ k] exI [of _ es1] exI [of _ run] exI [of _ r]) simp
    consider "\<not> 0 < slack e" | "0 < slack e" "needed \<le> slack e" | "0 < slack e" "\<not> needed \<le> slack e" "needed \<le> sc_slotfree s + slack e"
      | "0 < slack e" "\<not> needed \<le> slack e" "\<not> needed \<le> sc_slotfree s + slack e" by blast
    then show ?thesis
    proof cases
      case 1
      then have "ent_slot needed e s = s" unfolding es using none by simp
      then show ?thesis using none run(1,2) run(5) [OF 1] run(6) unfolding slot_inv_def by auto
    next
      case 2
      then show ?thesis using none found by (simp add: es slot_inv_def)
    next
      case 3
      then show ?thesis using none comp by (cases "sc_slotoffset s = - 1") (simp_all add: es slot_inv_def Let_def)
    next
      case 4
      then have "\<exists>es1' run'. d @ [e] = es1' @ run' \<and> run' \<noteq> [] \<and> ?off = int k * int B + int (dents_len es1') \<and>
          sc_slotfree s + slack e = slacks run'" using run(1-4) by blast
      then show ?thesis using none 4 by (cases "sc_slotoffset s = - 1") (simp_all add: es slot_inv_def Let_def)
    qed
  qed
qed

definition useful_inv :: "nat \<Rightarrow> dent list list \<Rightarrow> nat \<Rightarrow> dent list \<Rightarrow> scan \<Rightarrow> bool" where
  "useful_inv B ess k d s \<longleftrightarrow> 0 \<le> sc_enduseful s \<and> sc_enduseful s \<le> sc_offset s \<and>
     (\<forall>j < k. (\<exists>e \<in> set (ess ! j). live e) \<longrightarrow> int j * int B < sc_enduseful s) \<and> ((\<exists>e \<in> set d. live e) \<longrightarrow> int k * int B < sc_enduseful s)"

lemma useful_inv_step:
  assumes "useful_inv B ess k d s" "sc_offset s = int k * int B + int (dents_len d)" "dent_ok e"
  shows "useful_inv B ess k (d @ [e]) (ent_next e (ent_slot needed e s))"
proof -
  have p: "0 < uint (dn_reclen e)" using dent_ok_pos(1) [OF assms(3)] by linarith
  have q: "0 \<le> int k * int B" by simp
  show ?thesis
  proof (cases "live e")
    case True
    have "int j * int B < sc_offset s + uint (dn_reclen e)" if "j \<le> k" for j
    proof -
      have "int j * int B \<le> int k * int B" using that by (intro mult_right_mono) simp_all
      then show ?thesis using p assms(2) by linarith
    qed
    moreover have "0 \<le> sc_offset s + uint (dn_reclen e)" using p q assms(2) by linarith
    ultimately show ?thesis using True by (simp add: useful_inv_def live_def)
  next
    case False
    then show ?thesis using assms(1) p by (auto simp: useful_inv_def live_def)
  qed
qed

lemma block_scan_inv:
  assumes "slot_inv B ess needed k d s" "useful_inv B ess k d s" "k < length ess" "ess ! k = d @ r" "sc_offset s = int k * int B + int (dents_len d)"
    and "\<forall>e \<in> set r. dent_ok e" "fst (block_scan needed name r s) = None"
  shows "slot_inv B ess needed k (ess ! k) (snd (block_scan needed name r s)) \<and> useful_inv B ess k (ess ! k) (snd (block_scan needed name r s))"
  using assms(1,2,4-7)
proof (induction r arbitrary: d s)
  case (Cons e r)
  let ?s = "ent_next e (ent_slot needed e s)"
  have nm: "\<not> ent_matches name e" and r: "fst (block_scan needed name r ?s) = None" using Cons.prems(6) by (simp_all split: if_splits)
  have "slot_inv B ess needed k (d @ [e]) ?s" using Cons.prems(1,3,4,5) assms(3) by (intro slot_inv_step) auto
  moreover have "useful_inv B ess k (d @ [e]) ?s" using Cons.prems(2,4,5) by (intro useful_inv_step) auto
  ultimately show ?case using Cons.IH [of "d @ [e]" ?s] Cons.prems(3,4,5) nm r by simp
qed simp

text \<open>After the whole directory has been searched without a match.\<close>

lemma dir_scan_inv:
  assumes "sc_status s \<noteq> NONE \<Longrightarrow> slot_at B ess needed (sc_slotoffset s) (sc_slotsize s)"
    "0 \<le> sc_enduseful s \<and> sc_enduseful s \<le> sc_offset s \<and> (\<forall>j < k. (\<exists>e \<in> set (ess ! j). live e) \<longrightarrow> int j * int B < sc_enduseful s)"
    "k \<le> length ess" "sc_offset s = int k * int B" "\<forall>es \<in> set ess. block_ok B es" "fst (dir_scan needed name (drop k ess) s) = None"
  shows "(sc_status (snd (dir_scan needed name (drop k ess) s)) \<noteq> NONE \<longrightarrow>
      slot_at B ess needed (sc_slotoffset (snd (dir_scan needed name (drop k ess) s))) (sc_slotsize (snd (dir_scan needed name (drop k ess) s)))) \<and>
    0 \<le> sc_enduseful (snd (dir_scan needed name (drop k ess) s)) \<and>
    sc_enduseful (snd (dir_scan needed name (drop k ess) s)) \<le> int (length ess) * int B \<and>
    (\<forall>j < length ess. (\<exists>e \<in> set (ess ! j). live e) \<longrightarrow> int j * int B < sc_enduseful (snd (dir_scan needed name (drop k ess) s)))"
  using assms(1-4,6)
proof (induction "length ess - k" arbitrary: k s)
  case (Suc x)
  then have k: "k < length ess" and d: "drop k ess = ess ! k # drop (Suc k) ess" by (simp_all add: Cons_nth_drop_Suc)
  let ?s = "block_enter (block_of (ess ! k)) s"
  have ok: "block_ok B (ess ! k)" using assms(5) k by simp
  have e1: "slot_inv B ess needed k [] ?s"
    using Suc.prems(1) by (auto simp: slot_inv_def block_enter_def Let_def)
  have e2: "useful_inv B ess k [] ?s" using Suc.prems(2) by (simp add: useful_inv_def)
  obtain i s' where b: "block_scan needed name (ess ! k) ?s = (i, s')" by fastforce
  have i: "i = None" using Suc.prems(5) b d by (cases i) simp_all
  have inv: "slot_inv B ess needed k (ess ! k) s' \<and> useful_inv B ess k (ess ! k) s'"
    using block_scan_inv [OF e1 e2 k, of "ess ! k" name] ok b i Suc.prems(4) by (simp add: block_ok_def)
  have r: "dir_scan needed name (drop k ess) s = dir_scan needed name (drop (Suc k) ess) s'" using d b i by simp
  have u: "0 \<le> sc_enduseful s' \<and> sc_enduseful s' \<le> sc_offset s' \<and> (\<forall>j < Suc k. (\<exists>e \<in> set (ess ! j). live e) \<longrightarrow> int j * int B < sc_enduseful s')"
    using inv by (auto simp: useful_inv_def less_Suc_eq)
  have o: "sc_offset s' = int (Suc k) * int B"
    using block_scan_end [of needed name "ess ! k" ?s] b i ok Suc.prems(4) by (simp add: block_ok_def algebra_simps)
  have sl: "sc_status s' \<noteq> NONE \<Longrightarrow> slot_at B ess needed (sc_slotoffset s') (sc_slotsize s')" using inv by (simp add: slot_inv_def)
  have x: "x = length ess - Suc k" using Suc.hyps(2) by simp
  have f: "fst (dir_scan needed name (drop (Suc k) ess) s') = None" using Suc.prems(5) r by simp
  show ?case unfolding r by (rule Suc.hyps(1) [OF x sl u _ o f]) (use k in simp_all)
qed simp

text \<open>A search for a name to be created that is not there: the slot that is left in the inode of the directory.\<close>

definition slot_of :: "ext2mount \<Rightarrow> dent list list \<Rightarrow> int \<Rightarrow> inode \<Rightarrow> bool" where
  "slot_of ump ess needed dp \<longleftrightarrow>
     (if i_count dp = 0 then i_offset dp = int (length ess) * int (bsz ump)
      else slot_at (bsz ump) ess needed (i_offset dp) (i_count dp)) \<and>
     (\<exists>m \<le> length ess. i_endoff dp = int m * int (bsz ump) \<and> (\<forall>j < length ess. (\<exists>e \<in> set (ess ! j). live e) \<longrightarrow> j < m) \<and>
        i_offset dp + i_count dp \<le> i_endoff dp)"

context dir_blocks begin

text \<open>The search from the beginning, as creating, removing and renaming do it.\<close>

lemma search_all:
  assumes c: "dir_content backed dirchk ump dp a ess" and n: "cn_nameiop cn \<noteq> LOOKUP \<or> i_diroff dp = 0"
  shows "dir_search dirchk rdonly ump dp cn =
    Ret (Inr (dir_map ess (cn_name cn), 1, snd (dir_scan (slot_needed cn) (cn_name cn) ess (scan_start cn))))"
proof -
  have "uint (i_size dp) = int (length ess * bsz ump)" "length ess * bsz ump < 2 ^ 31" using c by (simp_all add: dir_content_def)
  note ru = roundup_blocks [OF content_geom [OF c] this]
  have es: "to_doff (roundup_size (i_size dp) (DIRBLKSIZ ump)) = int (length ess) * int (bsz ump)" using ru by simp
  have "sc_offset (scan_start cn) = int 0 * int (bsz ump)" by (simp add: scan_start_def)
  from search_blocks [OF c _ order_refl this, of rdonly "cn_name cn" "slot_needed cn"]
  have s: "search_loop dirchk rdonly ump dp (cn_name cn) (slot_needed cn) (int (length ess) * int (bsz ump)) (scan_start cn) =
    Ret (Inr (dir_scan (slot_needed cn) (cn_name cn) ess (scan_start cn)))" by simp
  have "cn_nameiop cn \<noteq> LOOKUP \<or> i_diroff dp = 0 \<or> (word_of_int (i_diroff dp) :: u64) > i_size dp" using n by blast
  then show ?thesis unfolding dir_search_def es Let_def
    using s dir_scan_fst [of "slot_needed cn" "cn_name cn" ess "scan_start cn"]
    by (cases "dir_scan (slot_needed cn) (cn_name cn) ess (scan_start cn)") (simp del: bnd_Ret_iff)
qed

lemma content_blocks_ok: "dir_content backed dirchk ump dp a ess \<Longrightarrow> \<forall>es \<in> set ess. block_ok (bsz ump) es"
  by (auto simp: dir_content_def in_set_conv_nth)

lemma creating_create:
  assumes c: "dir_content backed dirchk ump dp a ess" and cn: "scan_creating cn" "dir_map ess (cn_name cn) = None" "i_nlink dp \<noteq> 0"
  shows "\<exists>off count endoff. ext2_lookup_ino dirchk rdonly uid get vget ump dp cn =
     Ret (Inl EJUSTRETURN, dp\<lparr>i_offset := off, i_count := count, i_endoff := endoff\<rparr>) \<and>
     slot_of ump ess (slot_needed cn) (dp\<lparr>i_offset := off, i_count := count, i_endoff := endoff\<rparr>)"
proof -
  let ?B = "bsz ump" let ?s = "snd (dir_scan (slot_needed cn) (cn_name cn) ess (scan_start cn))"
  note geo = content_geom [OF c] note B = bsz_bounds(1) [OF geo]
  have "cn_nameiop cn \<noteq> LOOKUP" using cn(1) by (auto simp: scan_creating_def)
  then have ds: "dir_search dirchk rdonly ump dp cn = Ret (Inr (None, 1, ?s))" using search_all [OF c] cn(2) by simp
  have look: "ext2_lookup_ino dirchk rdonly uid get vget ump dp cn =
      Ret (case lookup_notfound ump dp cn ?s of (error, dp) \<Rightarrow> (Inl error, dp))"
    unfolding ext2_lookup_ino_def ds by (simp add: split: prod.split)
  have st: "sc_status (scan_start cn) = NONE" "0 \<le> sc_enduseful (scan_start cn) \<and> sc_enduseful (scan_start cn) \<le> sc_offset (scan_start cn)" "sc_offset (scan_start cn) = int 0 * int ?B"
    using cn(1) by (simp_all add: scan_start_def)
  have "fst (dir_scan (slot_needed cn) (cn_name cn) (drop 0 ess) (scan_start cn)) = None" using cn(2) by (simp add: dir_scan_fst)
  from dir_scan_inv [OF _ _ _ st(3) content_blocks_ok [OF c] this] st(1,2) have
    inv: "sc_status ?s \<noteq> NONE \<longrightarrow> slot_at ?B ess (slot_needed cn) (sc_slotoffset ?s) (sc_slotsize ?s)"
      "\<forall>j < length ess. (\<exists>e \<in> set (ess ! j). live e) \<longrightarrow> int j * int ?B < sc_enduseful ?s"
      "sc_enduseful ?s \<le> int (length ess) * int ?B" by simp_all
  have "uint (i_size dp) = int (length ess * ?B)" "length ess * ?B < 2 ^ 31" using c by (simp_all add: dir_content_def)
  note ru = roundup_blocks [OF geo this]
  have up: "x \<le> (x + int ?B - 1) div int ?B * int ?B" for x
    using B minus_mod_eq_div_mult [of "x + int ?B - 1" "int ?B"] pos_mod_bound [of "int ?B" "x + int ?B - 1"] by linarith
  show ?thesis
  proof (cases "sc_status ?s = NONE")
    case True
    have "roundup2 (int (length ess * ?B)) (DIRBLKSIZ ump) = int (length ess) * int ?B"
      unfolding roundup2_blocks [OF geo] using ceil_blocks [of "int ?B" "int (length ess)"] B by simp
    then have "ext2_lookup_ino dirchk rdonly uid get vget ump dp cn = Ret (Inl EJUSTRETURN,
        dp\<lparr>i_offset := int (length ess) * int ?B, i_count := 0, i_endoff := int (length ess) * int ?B\<rparr>)"
      unfolding look lookup_notfound_def Let_def using True cn(1,3) ru by simp
    moreover have "slot_of ump ess (slot_needed cn) (dp\<lparr>i_offset := int (length ess) * int ?B, i_count := 0, i_endoff := int (length ess) * int ?B\<rparr>)"
      unfolding slot_of_def by auto
    ultimately show ?thesis by blast
  next
    case False
    let ?e9 = "sc_slotoffset ?s + sc_slotsize ?s"
    define x where "x = (if sc_enduseful ?s < ?e9 then ?e9 else sc_enduseful ?s)"
    define m where "m = nat ((x + int ?B - 1) div int ?B)"
    have xe: "?e9 \<le> x" "sc_enduseful ?s \<le> x" by (simp_all add: x_def)
    have sa: "slot_at ?B ess (slot_needed cn) (sc_slotoffset ?s) (sc_slotsize ?s)" using inv(1) False by simp
    then obtain k es1 run es2 where r: "k < length ess" "ess ! k = es1 @ run @ es2" "run \<noteq> []"
      "sc_slotoffset ?s = int k * int ?B + int (dents_len es1)" "sc_slotsize ?s = int (dents_len run)" unfolding slot_at_def by blast
    obtain f fs where fs: "run = f # fs" using r(3) by (cases run) auto
    then have "dent_ok f" using r(2) content_block [OF c r(1)] by (simp add: block_ok_def)
    from dent_ok_pos(1) [OF this] have "sc_slotsize ?s \<noteq> 0" using r(5) fs by simp
    have "0 \<le> int k * int ?B + int (dents_len es1) + int (dents_len run)" by simp
    then have "0 \<le> ?e9" using r(4,5) by simp
    then have x0: "0 \<le> x" using xe(1) by linarith
    then have "0 \<le> (x + int ?B - 1) div int ?B" using B by (intro pos_imp_zdiv_nonneg_iff [THEN iffD2]) linarith+
    then have m: "roundup2 x (DIRBLKSIZ ump) = int m * int ?B" unfolding roundup2_blocks [OF geo] m_def by simp
    have xm: "x \<le> int m * int ?B" using up [of x] m unfolding roundup2_blocks [OF geo] by linarith
    have mn: "m \<le> length ess"
    proof -
      have "int (Suc k) * int ?B \<le> int (length ess) * int ?B" using r(1) by (intro mult_right_mono) simp_all
      moreover have "int (dents_len es1) + int (dents_len run) \<le> int ?B" using r(2) content_block [OF c r(1)] by (simp add: block_ok_def)
      ultimately have "x \<le> int (length ess) * int ?B" using inv(3) r(4,5) by (simp add: x_def algebra_simps)
      then have "(x + int ?B - 1) div int ?B \<le> (int (length ess) * int ?B + int ?B - 1) div int ?B" using B by (intro zdiv_mono1) simp_all
      also have "\<dots> = int (length ess)" using ceil_blocks [of "int ?B" "int (length ess)"] B by simp
      finally show ?thesis by (simp add: m_def)
    qed
    have "ext2_lookup_ino dirchk rdonly uid get vget ump dp cn = Ret (Inl EJUSTRETURN,
        dp\<lparr>i_offset := sc_slotoffset ?s, i_count := sc_slotsize ?s, i_endoff := int m * int ?B\<rparr>)"
      unfolding look lookup_notfound_def Let_def using False cn(1,3) by (simp add: x_def [symmetric] m)
    moreover have "j < m" if "j < length ess" "\<exists>e \<in> set (ess ! j). live e" for j
    proof -
      have "int j * int ?B < int m * int ?B" using inv(2) that xe(2) xm by fastforce
      then show ?thesis using B by (simp add: mult_less_cancel_right)
    qed
    moreover have "?e9 \<le> int m * int ?B" using xe(1) xm by linarith
    ultimately show ?thesis using sa mn \<open>sc_slotsize ?s \<noteq> 0\<close>
      by (intro exI [of _ "sc_slotoffset ?s"] exI [of _ "sc_slotsize ?s"] exI [of _ "int m * int ?B"]) (auto simp: slot_of_def)
  qed
qed

end

end
