(* ===== verification/Ext2_DirOps.thy ===== *)
theory Ext2_DirOps
  imports Ext2_DirProps
begin

text \<open>
  Changing a directory: the compaction of \<^verbatim>\<open>ext2_direnter\<close> on the entries of a slot, and what entering, removing and rewriting an entry do
  to the map of the directory. The interface \<^verbatim>\<open>dir_blocks\<close> is discharged for directories with direct blocks.
\<close>

section \<open>Writing into a buffer\<close>

lemma blit_mid: "length x \<le> length Y \<Longrightarrow> o' = int (length A) \<Longrightarrow> blit (A @ Y @ R) o' x = Ret (A @ x @ drop (length x) Y @ R)"
  by (simp add: blit_def)

lemma slice_mid: "o' = int (length A) \<Longrightarrow> n = length x \<Longrightarrow> slice (A @ x @ R) o' n = Ret x"
  by (simp add: slice_def)

lemma set_reclen_dent:
  assumes "o' = int (length P)" "bs = P @ dent_bytes e @ Q"
  shows "set_reclen bs o' w = Ret (P @ dent_bytes (e\<lparr>dn_reclen := w\<rparr>) @ Q)"
proof -
  have b: "bs = (P @ bytes_of (dn_ino e)) @ bytes16 (dn_reclen e) @ ([dn_namlen e, dn_type e] @ dn_rest e @ Q)"
    using assms(2) by (simp add: dent_bytes_def)
  show ?thesis unfolding set_reclen_def st16_def b
    by (subst blit_mid [where A = "P @ bytes_of (dn_ino e)"]) (simp_all add: assms(1) dent_bytes_def)
qed

section \<open>Compaction\<close>

text \<open>The part of an entry that is copied, and the entry as it is left when the next one moves up to it.\<close>

definition hd_part :: "dent \<Rightarrow> dent" where
  "hd_part e = e\<lparr>dn_rest := take (nat (dent_need e) - 8) (dn_rest e)\<rparr>"
definition trim :: "dent \<Rightarrow> dent" where
  "trim e = (hd_part e)\<lparr>dn_reclen := word_of_int (dent_need e)\<rparr>"

lemma hd_part_bytes:
  assumes "dent_ok e" shows "dent_bytes (hd_part e) = take (nat (dent_need e)) (dent_bytes e)" "length (dent_bytes (hd_part e)) = nat (dent_need e)"
proof -
  have n: "8 \<le> nat (dent_need e)" using dent_need_pos [of e] by linarith
  have "dent_need e \<le> int (unat (dn_reclen e))" using assms by (simp add: dent_ok_def)
  then have "nat (dent_need e) \<le> unat (dn_reclen e)" by (simp only: nat_le_iff)
  then have l: "nat (dent_need e) \<le> length (dent_bytes e)" using dent_bytes_length [OF assms] by simp
  show *: "dent_bytes (hd_part e) = take (nat (dent_need e)) (dent_bytes e)"
    using n by (simp add: dent_bytes_def hd_part_def take_Cons' diff_diff_left)
  show "length (dent_bytes (hd_part e)) = nat (dent_need e)" unfolding * using l by simp
qed

lemma need_word: "uint (word_of_int (dent_need e) :: u16) = dent_need e"
  using dent_need_pos [of e] dent_need_small [of e] by (simp add: uint_word_of_int)

lemma trim_simps [simp]:
  "dn_ino (trim e) = dn_ino e" "dn_namlen (trim e) = dn_namlen e" "dn_type (trim e) = dn_type e" "uint (dn_reclen (trim e)) = dent_need e"
  "dent_need (trim e) = dent_need e"
  by (simp_all add: trim_def need_word) (simp_all add: hd_part_def dent_need_def)

lemma need_unat: "int (nat (dent_need e)) = dent_need e" "unat (dn_namlen e) \<le> nat (dent_need e) - 8"
proof -
  show "int (nat (dent_need e)) = dent_need e" using dent_need_pos [of e] by simp
  have "uint (dn_namlen e) + 8 \<le> dent_need e" unfolding dent_need_def by (rule rec_len_bounds)
  then have "int (unat (dn_namlen e)) + 8 \<le> dent_need e" by simp
  then show "unat (dn_namlen e) \<le> nat (dent_need e) - 8" by linarith
qed

lemma trim_ok:
  assumes "dent_ok e" "live e" shows "dent_ok (trim e)" "dent_name (trim e) = dent_name e" "slack (trim e) = 0"
proof -
  have nl: "dn_namlen e \<noteq> 0" using assms by (simp add: dent_ok_def live_def)
  have p: "8 \<le> dent_need e" "dent_need e mod 4 = 0" using dent_need_pos rec_len_bounds(3) by (simp_all add: dent_need_def)
  have "0 < uint (dn_namlen e)" using nl uint_ge_0 [of "dn_namlen e"] by (simp add: uint_0_iff order_less_le)
  then have "9 \<le> dent_need e" using rec_len_bounds(1) [of "uint (dn_namlen e)"] unfolding dent_need_def by linarith
  then have n12: "12 \<le> dent_need e" using p(2) by presburger
  have u: "unat (dn_reclen (trim e)) = nat (dent_need e)" by (metis trim_simps(4) unat_eq_nat_uint)
  have "length (dent_bytes (hd_part e)) = nat (dent_need e)" by (rule hd_part_bytes [OF assms(1)])
  then have "8 + length (dn_rest (trim e)) = nat (dent_need e)" by (simp add: dent_bytes_def trim_def)
  moreover have "nat (dent_need e) mod 4 = 0" using nat_mod_distrib [of "dent_need e" 4] p by simp
  ultimately show "dent_ok (trim e)" using n12 nl by (simp add: dent_ok_def u)
  show "dent_name (trim e) = dent_name e" using need_unat(2) [of e] by (simp add: dent_name_def trim_def hd_part_def min_def)
  show "slack (trim e) = 0" using assms(2) by (simp add: slack_def live_def)
qed

text \<open>
  One round: \<open>D\<close> is what has been compacted, then comes the copied part of \<open>e\<close> and \<open>J\<close>, bytes no longer used, up to the entry \<open>f\<close>.
\<close>

lemma compact_step_dent:
  assumes e: "dent_ok e" and f: "dent_ok f" and o: "o' = int (length P)" and p: "p = int (length D)" and loc: "loc = p + dent_need e + int (length J)"
    and bs: "bs = P @ D @ (dent_bytes (hd_part e) @ J) @ dent_bytes f @ R"
  shows "\<exists>J'. compact_step o' bs p (dent_need e) (int (length J)) loc =
    Ret (P @ (D @ (if live e then dent_bytes (trim e) else [])) @ (dent_bytes (hd_part f) @ J') @ R,
         int (length (D @ (if live e then dent_bytes (trim e) else []))), dent_need f, int (length J'), loc + uint (dn_reclen f)) \<and>
    int (length (D @ (if live e then dent_bytes (trim e) else []))) + dent_need f + int (length J') = loc + uint (dn_reclen f)"
proof -
  let ?D = "D @ (if live e then dent_bytes (trim e) else [])" let ?Y = "(if live e then J else dent_bytes (hd_part e) @ J)"
  note he = hd_part_bytes [OF e] note hf = hd_part_bytes [OF f]
  have lt: "length (dent_bytes (trim e)) = nat (dent_need e)" using he(2) by (simp add: dent_bytes_def trim_def)
  have o1: "o' + p = int (length (P @ D))" using o p by simp
  have b1: "bs = (P @ D) @ dent_bytes (hd_part e) @ (J @ dent_bytes f @ R)" using bs by simp
  note f1 = e2d_fields [OF o1 b1]
  have i: "dn_ino (hd_part e) = dn_ino e" by (simp add: hd_part_def)
  let ?bs = "P @ ?D @ ?Y @ dent_bytes f @ R"
  have s1: "(if dn_ino e \<noteq> 0 then bnd (set_reclen bs (o' + p) (word_of_int (dent_need e))) (\<lambda>bs. Ret (bs, p + dent_need e, int (length J)))
      else Ret (bs, p, int (length J) + dent_need e)) = Ret (?bs, int (length ?D), int (length ?Y))"
  proof (cases "live e")
    case True
    then show ?thesis using set_reclen_dent [OF o1 b1, of "word_of_int (dent_need e)"] p lt need_unat(1) [of e]
      by (simp add: live_def trim_def)
  next
    case False
    then show ?thesis using bs p he(2) need_unat(1) [of e] by (simp add: live_def)
  qed
  have o2: "o' + loc = int (length (P @ ?D @ ?Y))"
    using o p loc lt he(2) need_unat(1) [of e] by simp
  have b2: "?bs = (P @ ?D @ ?Y) @ dent_bytes f @ R" by simp
  note f2 = e2d_fields [OF o2 b2]
  have df: "dent_bytes f = dent_bytes (hd_part f) @ drop (nat (dent_need f)) (dent_bytes f)" using hf(1) by simp
  have sl: "slice ?bs (o' + loc) (nat (dent_need f)) = Ret (dent_bytes (hd_part f))"
    using slice_mid [OF o2, of "nat (dent_need f)" "dent_bytes (hd_part f)" "drop (nat (dent_need f)) (dent_bytes f) @ R"] hf(2) df
    by (metis append.assoc)
  let ?J' = "drop (nat (dent_need f)) (?Y @ dent_bytes f)"
  have o3: "o' + int (length ?D) = int (length (P @ ?D))" using o by simp
  have le: "nat (dent_need f) \<le> length (dent_bytes f)" using hf by (metis length_take min.cobounded1 min.commute)
  have bl: "blit ?bs (o' + int (length ?D)) (dent_bytes (hd_part f)) = Ret (P @ ?D @ (dent_bytes (hd_part f) @ ?J') @ R)"
    using blit_mid [OF _ o3, of "dent_bytes (hd_part f)" "?Y @ dent_bytes f" R] hf(2) le by simp
  have lf: "int (length (dent_bytes f)) = uint (dn_reclen f)" using dent_bytes_length [OF f] by simp
  have jl: "int (length ?J') = int (length ?Y) + uint (dn_reclen f) - dent_need f"
  proof -
    have "length ?J' = length ?Y + length (dent_bytes f) - nat (dent_need f)" by (simp only: length_drop length_append)
    moreover have "nat (dent_need f) \<le> length ?Y + length (dent_bytes f)" using le by linarith
    ultimately have "int (length ?J') = int (length ?Y) + int (length (dent_bytes f)) - int (nat (dent_need f))"
      by (simp only: of_nat_diff of_nat_add)
    then show ?thesis by (simp only: lf need_unat(1))
  qed
  have tot: "int (length ?D) + int (length ?Y) = loc" using p loc lt he(2) need_unat(1) [of e] by simp
  have "compact_step o' bs p (dent_need e) (int (length J)) loc =
      Ret (P @ ?D @ (dent_bytes (hd_part f) @ ?J') @ R, int (length ?D), dent_need f, int (length ?J'), loc + uint (dn_reclen f))"
    unfolding compact_step_def f1(1) bnd.simps i s1 prod.case f2(2,3) Let_def dent_need_def [symmetric] sl bl jl ..
  moreover have "int (length ?D) + dent_need f + int (length ?J') = loc + uint (dn_reclen f)" using jl tot by simp
  ultimately show ?thesis by (intro exI [of _ ?J']) simp
qed

text \<open>The whole loop over the entries \<open>fs\<close> after \<open>e\<close>: the live ones but the last are trimmed and moved together.\<close>

definition compacted :: "dent list \<Rightarrow> dent list" where
  "compacted run = map trim (filter live run)"

lemma block_of_compacted: "block_of (compacted (e # run)) = (if live e then dent_bytes (trim e) else []) @ block_of (compacted run)"
  by (simp add: compacted_def)

lemma compact_run:
  assumes "\<forall>x \<in> set (e # fs). dent_ok x" "o' = int (length P)" "p = int (length D)" "loc = p + dent_need e + int (length J)"
    "bs = P @ D @ (dent_bytes (hd_part e) @ J) @ block_of fs @ R" "count = loc + int (dents_len fs)"
  shows "\<exists>J' D'. compact_loop o' count bs p (dent_need e) (int (length J)) loc =
      Some (Ret (P @ D' @ (dent_bytes (hd_part (last (e # fs))) @ J') @ R, int (length D'), dent_need (last (e # fs)), int (length J'))) \<and>
    D' = D @ block_of (compacted (butlast (e # fs))) \<and>
    int (length D') + dent_need (last (e # fs)) + int (length J') = count"
  using assms
proof (induction fs arbitrary: e D J bs p loc)
  case Nil
  then show ?case by (subst compact_loop.simps) (auto simp: compacted_def)
next
  case (Cons f fs)
  have ok: "dent_ok e" "dent_ok f" using Cons.prems(1) by simp_all
  have b: "bs = P @ D @ (dent_bytes (hd_part e) @ J) @ dent_bytes f @ (block_of fs @ R)" using Cons.prems(5) by simp
  let ?D = "D @ (if live e then dent_bytes (trim e) else [])"
  obtain J' where st: "compact_step o' bs p (dent_need e) (int (length J)) loc =
      Ret (P @ ?D @ (dent_bytes (hd_part f) @ J') @ block_of fs @ R, int (length ?D), dent_need f, int (length J'), loc + uint (dn_reclen f))"
    and le: "int (length ?D) + dent_need f + int (length J') = loc + uint (dn_reclen f)"
    using compact_step_dent [OF ok Cons.prems(2-4) b] by blast
  have "8 \<le> uint (dn_reclen f)" by (rule dent_ok_pos(1) [OF ok(2)])
  then have lt: "loc < count" using Cons.prems(6) by simp
  have c2: "count = (loc + uint (dn_reclen f)) + int (dents_len fs)" using Cons.prems(6) by simp
  have "\<exists>J'' D'. compact_loop o' count (P @ ?D @ (dent_bytes (hd_part f) @ J') @ block_of fs @ R) (int (length ?D)) (dent_need f) (int (length J'))
      (loc + uint (dn_reclen f)) =
      Some (Ret (P @ D' @ (dent_bytes (hd_part (last (f # fs))) @ J'') @ R, int (length D'), dent_need (last (f # fs)), int (length J''))) \<and>
    D' = ?D @ block_of (compacted (butlast (f # fs))) \<and>
    int (length D') + dent_need (last (f # fs)) + int (length J'') = count"
    by (rule Cons.IH) (use Cons.prems(1,2) le c2 in auto)
  then show ?case
    by (subst compact_loop.simps) (simp add: lt st block_of_compacted)
qed

section \<open>The new entry\<close>

definition new_need :: "bytes \<Rightarrow> int" where "new_need name = EXT2_DIR_REC_LEN (int (length name))"

lemma newdir_split:
  assumes "1 \<le> length name" "length name \<le> 255" "3 \<le> length junk"
  shows "newdir_bytes fs ip name junk w = bytes_of (i_number ip) @ bytes16 w @ [of_nat (length name), ft_of fs ip] @
      name @ take (nat (new_need name) - 8 - length name) (0 # junk)"
    and "length (newdir_bytes fs ip name junk w) = nat (new_need name)" "8 + length name \<le> nat (new_need name)"
proof -
  note b = rec_len_bounds [of "int (length name)"]
  show n: "8 + length name \<le> nat (new_need name)" using b(1) unfolding new_need_def by linarith
  have n2: "nat (new_need name) \<le> 11 + length name" using b(2) unfolding new_need_def by linarith
  show "newdir_bytes fs ip name junk w = bytes_of (i_number ip) @ bytes16 w @ [of_nat (length name), ft_of fs ip] @
      name @ take (nat (new_need name) - 8 - length name) (0 # junk)"
    unfolding newdir_bytes_def new_need_def [symmetric] using n by (simp add: take_Cons' diff_diff_left)
  then show "length (newdir_bytes fs ip name junk w) = nat (new_need name)" using n n2 assms(3) by simp
qed

text \<open>The entry that \<^const>\<open>newdir_bytes\<close> makes of \<open>X\<close>, the space it is written over.\<close>

definition new_dent :: "m_ext2fs \<Rightarrow> inode \<Rightarrow> bytes \<Rightarrow> bytes \<Rightarrow> bytes \<Rightarrow> dent" where
  "new_dent fs ip name junk X = \<lparr>dn_ino = i_number ip, dn_reclen = word_of_int (int (length X)), dn_namlen = of_nat (length name), dn_type = ft_of fs ip,
     dn_rest = name @ take (nat (new_need name) - 8 - length name) (0 # junk) @ drop (nat (new_need name)) X\<rparr>"

lemma new_dent_ok:
  assumes "1 \<le> length name" "length name \<le> 255" "3 \<le> length junk" "new_need name \<le> int (length X)" "length X < 65536" "length X mod 4 = 0"
  shows "dent_ok (new_dent fs ip name junk X)" "dent_name (new_dent fs ip name junk X) = name" "uint (dn_reclen (new_dent fs ip name junk X)) = int (length X)"
    "newdir_bytes fs ip name junk (word_of_int (int (length X))) @ drop (nat (new_need name)) X = dent_bytes (new_dent fs ip name junk X)"
proof -
  note s = newdir_split [OF assms(1-3)]
  have u: "unat (of_nat (length name) :: u8) = length name" using assms(2) by (simp add: unat_of_nat)
  then have ui: "uint (of_nat (length name) :: u8) = int (length name)" by (simp only: uint_nat u)
  have ur: "unat (of_nat (length X) :: u16) = length X" using assms(5) by (simp add: unat_of_nat)
  have "dn_reclen (new_dent fs ip name junk X) = of_nat (length X)" by (simp add: new_dent_def)
  then show rl: "uint (dn_reclen (new_dent fs ip name junk X)) = int (length X)" by (simp only: uint_nat ur)
  have r12: "12 \<le> new_need name"
  proof -
    have "9 \<le> new_need name" using rec_len_bounds(1) [of "int (length name)"] assms(1) unfolding new_need_def by linarith
    moreover have "new_need name mod 4 = 0" unfolding new_need_def by (rule rec_len_bounds(3))
    ultimately show ?thesis by presburger
  qed
  have "unat (dn_reclen (new_dent fs ip name junk X)) = length X" using rl by (metis nat_int unat_eq_nat_uint)
  moreover have "8 + length (dn_rest (new_dent fs ip name junk X)) = length X"
    using s(1) [of fs ip 0] s(2) [of fs ip 0] assms(4) by (simp add: new_dent_def)
  moreover have "dn_namlen (new_dent fs ip name junk X) \<noteq> 0" using u assms(1) by (auto simp: new_dent_def)
  ultimately show "dent_ok (new_dent fs ip name junk X)"
    using assms(4,6) r12 rl ui by (simp add: dent_ok_def dent_need_def new_need_def) (simp add: new_dent_def)
  show "dent_name (new_dent fs ip name junk X) = name" by (simp add: dent_name_def new_dent_def u)
  show "newdir_bytes fs ip name junk (word_of_int (int (length X))) @ drop (nat (new_need name)) X = dent_bytes (new_dent fs ip name junk X)"
    by (simp add: s(1) dent_bytes_def new_dent_def)
qed

lemma compacted_ok: "\<forall>x \<in> set run. dent_ok x \<Longrightarrow> \<forall>x \<in> set (compacted run). dent_ok x"
  by (auto simp: compacted_def trim_ok)

lemma compacted_len:
  assumes "\<forall>x \<in> set run. dent_ok x" shows "int (dents_len run) = slacks run + int (dents_len (compacted run))"
  using assms
proof (induction run)
  case (Cons e run)
  have "int (dents_len [e]) = slack e + int (dents_len (compacted [e]))"
    by (cases "live e") (simp_all add: compacted_def slack_def live_def)
  then show ?case using Cons by (simp add: compacted_def)
qed (simp add: compacted_def)

lemma dents_len_mod4: "\<forall>x \<in> set run. dent_ok x \<Longrightarrow> dents_len run mod 4 = 0"
  by (induction run) (auto simp: dent_ok_def)

lemma enter_slot_correct:
  assumes run: "run \<noteq> []" "\<forall>x \<in> set run. dent_ok x" and o: "o' = int (length P)" and c: "count = int (dents_len run)" "dents_len run < 65536"
    and nm: "1 \<le> length name" "length name \<le> 255" "3 \<le> length junk" and sl: "new_need name \<le> slacks run"
  shows "\<exists>X. int (length X) = slacks run \<and> length X < 65536 \<and> length X mod 4 = 0 \<and>
     enter_slot (newdir_bytes fs ip name junk) (new_need name) o' count (P @ block_of run @ R) =
       Some (Ret (P @ block_of (compacted run @ [new_dent fs ip name junk X]) @ R))"
proof -
  obtain e rest where r: "run = e # rest" using run(1) by (cases run) auto
  let ?l = "last run" let ?D' = "block_of (compacted (butlast run))"
  have e: "dent_ok e" using run(2) r by simp
  have l: "dent_ok ?l" using run by simp
  have b: "P @ block_of run @ R = P @ dent_bytes e @ (block_of rest @ R)" using r by simp
  note f = e2d_fields [OF o b]
  let ?J = "drop (nat (dent_need e)) (dent_bytes e)"
  have de: "dent_bytes e = dent_bytes (hd_part e) @ ?J" using hd_part_bytes [OF e] by simp
  have le: "int (length (dent_bytes e)) = uint (dn_reclen e)" using dent_bytes_length [OF e] by simp
  have jl: "int (length ?J) = uint (dn_reclen e) - dent_need e"
  proof -
    have "nat (dent_need e) \<le> length (dent_bytes e)" using hd_part_bytes [OF e] by (metis length_take min.cobounded1 min.commute)
    then have "int (length ?J) = int (length (dent_bytes e)) - int (nat (dent_need e))" by (simp only: length_drop of_nat_diff)
    then show ?thesis by (simp only: le need_unat(1))
  qed
  have "\<exists>J' D'. compact_loop o' count (P @ block_of run @ R) 0 (dent_need e) (int (length ?J)) (uint (dn_reclen e)) =
      Some (Ret (P @ D' @ (dent_bytes (hd_part (last (e # rest))) @ J') @ R, int (length D'), dent_need (last (e # rest)), int (length J'))) \<and>
    D' = [] @ block_of (compacted (butlast (e # rest))) \<and>
    int (length D') + dent_need (last (e # rest)) + int (length J') = count"
  proof (rule compact_run)
    show "P @ block_of run @ R = P @ [] @ (dent_bytes (hd_part e) @ ?J) @ block_of rest @ R" using r de by simp
    show "count = uint (dn_reclen e) + int (dents_len rest)" using c(1) r by simp
  qed (use run r o jl in simp_all)
  then obtain J' where cl: "compact_loop o' count (P @ block_of run @ R) 0 (dent_need e) (int (length ?J)) (uint (dn_reclen e)) =
      Some (Ret (P @ ?D' @ (dent_bytes (hd_part ?l) @ J') @ R, int (length ?D'), dent_need ?l, int (length J')))"
    and tot: "int (length ?D') + dent_need ?l + int (length J') = count" unfolding r by auto
  have es: "enter_slot (newdir_bytes fs ip name junk) (new_need name) o' count (P @ block_of run @ R) =
      Some (enter_last o' (newdir_bytes fs ip name junk) (new_need name) (P @ ?D' @ (dent_bytes (hd_part ?l) @ J') @ R) (int (length ?D')) (dent_need ?l) (int (length J')))"
    unfolding enter_slot_def f(2,3) bnd.simps outcome.case prod.case dent_need_def [symmetric] jl [symmetric] cl by simp
  have run_split: "run = butlast run @ [?l]" using run(1) by simp
  have cr: "compacted run = compacted (butlast run) @ (if live ?l then [trim ?l] else [])"
    by (subst run_split) (simp add: compacted_def)
  have cd: "length ?D' = dents_len (compacted (butlast run))" using compacted_ok [of "butlast run"] run(2)
    by (intro block_of_length) (auto dest: in_set_butlastD)
  define X where "X = (if live ?l then J' else dent_bytes (hd_part ?l) @ J')"
  have hl: "int (length (dent_bytes (hd_part ?l))) = dent_need ?l" using hd_part_bytes(2) [OF l] need_unat(1) [of ?l] by simp
  have xl: "int (length X) = slacks run"
    using compacted_len [OF run(2)] c(1) tot cr cd hl by (cases "live ?l") (simp_all add: X_def)
  have x4: "length X mod 4 = 0"
  proof -
    have "dents_len run = length X + dents_len (compacted run)" using compacted_len [OF run(2)] xl by linarith
    moreover have "dents_len run mod 4 = 0" "dents_len (compacted run) mod 4 = 0"
      using dents_len_mod4 run(2) compacted_ok by blast+
    ultimately show ?thesis by presburger
  qed
  have x6: "length X < 65536" using compacted_len [OF run(2)] xl c(2) by linarith
  have need: "new_need name \<le> int (length X)" using sl xl by simp
  note nd = new_dent_ok [OF nm need x6 x4, of fs ip]
  have nl: "length (newdir_bytes fs ip name junk w) = nat (new_need name)" for w by (rule newdir_split [OF nm])
  have nx: "nat (new_need name) \<le> length X" using need by linarith
  have o1: "o' + int (length ?D') = int (length (P @ ?D'))" using o by simp
  note f1 = e2d_fields [OF o1, of "P @ ?D' @ (dent_bytes (hd_part ?l) @ J') @ R" "hd_part ?l" "J' @ R", simplified]
  have i: "dn_ino (hd_part ?l) = dn_ino ?l" by (simp add: hd_part_def)
  have "enter_last o' (newdir_bytes fs ip name junk) (new_need name) (P @ ?D' @ (dent_bytes (hd_part ?l) @ J') @ R) (int (length ?D')) (dent_need ?l) (int (length J')) =
      Ret (P @ block_of (compacted run @ [new_dent fs ip name junk X]) @ R)"
  proof (cases "live ?l")
    case True
    then have X: "X = J'" by (simp add: X_def)
    have sr: "set_reclen (P @ ?D' @ (dent_bytes (hd_part ?l) @ J') @ R) (o' + int (length ?D')) (word_of_int (dent_need ?l)) =
        Ret (P @ ?D' @ dent_bytes (trim ?l) @ J' @ R)"
      using set_reclen_dent [OF o1, of "P @ ?D' @ (dent_bytes (hd_part ?l) @ J') @ R" "hd_part ?l" "J' @ R"] by (simp add: trim_def)
    have lt: "int (length (dent_bytes (trim ?l))) = dent_need ?l" using hl by (simp add: dent_bytes_def trim_def)
    have o2: "o' + int (length ?D') + dent_need ?l = int (length (P @ ?D' @ dent_bytes (trim ?l)))" using o lt by simp
    have bl: "blit (P @ ?D' @ dent_bytes (trim ?l) @ J' @ R) (o' + int (length ?D') + dent_need ?l) (newdir_bytes fs ip name junk (word_of_int (int (length J')))) =
        Ret (P @ ?D' @ dent_bytes (trim ?l) @ dent_bytes (new_dent fs ip name junk X) @ R)"
      using blit_mid [OF _ o2, of "newdir_bytes fs ip name junk (word_of_int (int (length J')))" J' R] nx nl nd(4) unfolding X
      by (metis append.assoc)
    show ?thesis unfolding enter_last_def
      using f1(1) i True need sr bl cr X by (simp add: live_def del: bnd_Ret_iff)
  next
    case False
    then have X: "X = dent_bytes (hd_part ?l) @ J'" by (simp add: X_def)
    have lx: "int (length J') + dent_need ?l = int (length X)" using hl X by simp
    have bl: "blit (P @ ?D' @ X @ R) (o' + int (length ?D')) (newdir_bytes fs ip name junk (word_of_int (int (length X)))) =
        Ret (P @ ?D' @ dent_bytes (new_dent fs ip name junk X) @ R)"
      using blit_mid [OF _ o1, of "newdir_bytes fs ip name junk (word_of_int (int (length X)))" X R] nx nl nd(4)
      by (metis append.assoc)
    show ?thesis unfolding enter_last_def lx
      using f1(1) i False need bl cr X by (simp add: live_def del: bnd_Ret_iff)
  qed
  then show ?thesis using xl x6 x4 es by (intro exI [of _ X]) simp
qed

section \<open>The map after a change of one block\<close>

definition lives :: "dent list \<Rightarrow> (bytes \<times> u32) list" where
  "lives es = map (\<lambda>e. (dent_name e, dn_ino e)) (filter live es)"

lemma lives_simps [simp]: "lives [] = []" "lives (e # es) = (if live e then [(dent_name e, dn_ino e)] else []) @ lives es" "lives (es @ fs) = lives es @ lives fs"
  by (simp_all add: lives_def)

lemma lives_compacted: "\<forall>x \<in> set run. dent_ok x \<Longrightarrow> lives (compacted run) = lives run"
proof (induction run)
  case (Cons e run)
  have "live e \<Longrightarrow> live (trim e)" by (simp add: live_def)
  then show ?case using Cons by (cases "live e") (simp_all add: compacted_def trim_ok)
qed (simp add: compacted_def)

lemma dir_live_update:
  assumes "k < length ess"
  shows "dir_live (ess[k := es]) = dir_live (take k ess) @ lives es @ dir_live (drop (Suc k) ess)"
    "dir_live ess = dir_live (take k ess) @ lives (ess ! k) @ dir_live (drop (Suc k) ess)"
  unfolding upd_conv_take_nth_drop [OF assms] by (simp add: lives_def) (subst id_take_nth_drop [OF assms], simp add: lives_def)

lemma map_of_insert: "n \<notin> fst ` set (xs @ ys) \<Longrightarrow> map_of (xs @ (n, v) # ys) = (map_of (xs @ ys))(n \<mapsto> v)"
  by (induction xs) (auto simp: fun_eq_iff)

lemma map_of_delete: "distinct (map fst (xs @ (n, v) # ys)) \<Longrightarrow> map_of (xs @ ys) = (map_of (xs @ (n, v) # ys))(n := None)"
  by (induction xs) (auto simp: fun_eq_iff map_of_eq_None_iff)

lemma map_of_replace: "distinct (map fst (xs @ (n, v) # ys)) \<Longrightarrow> map_of (xs @ (n, w) # ys) = (map_of (xs @ (n, v) # ys))(n \<mapsto> w)"
  by (induction xs) (auto simp: fun_eq_iff)

lemma dir_insert:
  assumes "k < length ess" "lives (ess ! k) = xs @ ys" "lives es = xs @ (n, v) # ys" "dir_map ess n = None" "dir_distinct ess"
  shows "dir_map (ess[k := es]) = (dir_map ess)(n \<mapsto> v)" "dir_distinct (ess[k := es])"
proof -
  let ?p = "dir_live (take k ess) @ xs" let ?q = "ys @ dir_live (drop (Suc k) ess)"
  have d: "dir_live ess = ?p @ ?q" "dir_live (ess[k := es]) = ?p @ (n, v) # ?q" using dir_live_update [OF assms(1)] assms(2,3) by simp_all
  have "map_of (?p @ ?q) n = None" using assms(4) by (simp only: dir_map_def d(1))
  then have n: "n \<notin> fst ` set (?p @ ?q)" unfolding map_of_eq_None_iff .
  show "dir_map (ess[k := es]) = (dir_map ess)(n \<mapsto> v)" unfolding dir_map_def d by (rule map_of_insert [OF n])
  show "dir_distinct (ess[k := es])" using assms(5) n unfolding dir_distinct_def d by (simp add: image_Un)
qed

lemma dir_delete:
  assumes "k < length ess" "lives (ess ! k) = xs @ (n, v) # ys" "lives es = xs @ ys" "dir_distinct ess"
  shows "dir_map (ess[k := es]) = (dir_map ess)(n := None)" "dir_distinct (ess[k := es])"
proof -
  let ?p = "dir_live (take k ess) @ xs" let ?q = "ys @ dir_live (drop (Suc k) ess)"
  have d: "dir_live (ess[k := es]) = ?p @ ?q" "dir_live ess = ?p @ (n, v) # ?q" using dir_live_update [OF assms(1)] assms(2,3) by simp_all
  have n: "distinct (map fst (?p @ (n, v) # ?q))" using assms(4) by (simp add: dir_distinct_def d(2))
  show "dir_map (ess[k := es]) = (dir_map ess)(n := None)" unfolding dir_map_def d by (rule map_of_delete [OF n])
  show "dir_distinct (ess[k := es])" using n unfolding dir_distinct_def d by simp
qed

lemma dir_replace:
  assumes "k < length ess" "lives (ess ! k) = xs @ (n, v) # ys" "lives es = xs @ (n, w) # ys" "dir_distinct ess"
  shows "dir_map (ess[k := es]) = (dir_map ess)(n \<mapsto> w)" "dir_distinct (ess[k := es])"
proof -
  let ?p = "dir_live (take k ess) @ xs" let ?q = "ys @ dir_live (drop (Suc k) ess)"
  have d: "dir_live (ess[k := es]) = ?p @ (n, w) # ?q" "dir_live ess = ?p @ (n, v) # ?q" using dir_live_update [OF assms(1)] assms(2,3) by simp_all
  have n: "distinct (map fst (?p @ (n, v) # ?q))" using assms(4) by (simp add: dir_distinct_def d(2))
  show "dir_map (ess[k := es]) = (dir_map ess)(n \<mapsto> w)" unfolding dir_map_def d by (rule map_of_replace [OF n])
  show "dir_distinct (ess[k := es])" using n unfolding dir_distinct_def d by simp
qed

section \<open>Entering, removing and rewriting\<close>

lemma u64_of_int: "0 \<le> x \<Longrightarrow> x < 2 ^ 63 \<Longrightarrow> uint (word_of_int x :: u64) = x"
  by (simp add: uint_word_of_int)

definition dir_sane :: "bool \<Rightarrow> ext2mount \<Rightarrow> u32 \<Rightarrow> bool" where
  "dir_sane dirchk ump ino \<longleftrightarrow> (dirchk \<longrightarrow> ino \<le> e2fs_icount (e2fs (um_e2fs ump)))"

definition put_err :: "bool \<Rightarrow> ext2mount \<Rightarrow> int \<Rightarrow> errno" where
  "put_err async ump a = (if async then 0 else dev_werr (um_devvp ump) a)"

definition put_dents :: "ext2mount \<Rightarrow> int \<Rightarrow> dent list \<Rightarrow> ext2mount" where
  "put_dents ump a es = ump\<lparr>um_devvp := snd (buf_bwrite (um_devvp ump) a (block_of es))\<rparr>"

lemma put_block_dents: "a \<noteq> - 1 \<Longrightarrow> put_block async ump a (block_of es) = (put_err async ump a, put_dents ump a es)"
  by (simp add: put_block_def put_err_def put_dents_def buf_bwrite_def)

lemma put_dents_simps [simp]:
  "um_e2fs (put_dents ump a es) = um_e2fs ump" "bsz (put_dents ump a es) = bsz ump" "dev_blk (um_devvp (put_dents ump a es)) a = block_of es"
  "b \<noteq> a \<Longrightarrow> dev_blk (um_devvp (put_dents ump a es)) b = dev_blk (um_devvp ump) b"
  by (simp_all add: put_dents_def bsz_def buf_bwrite_def)

lemma same_file_modified: "same_file dp (dir_modified dp)"
proof -
  have "(6 AND IN_E4EXTENTS) = 0" by (simp add: IN_E4EXTENTS_def)
  moreover have "IN_CHANGE OR IN_UPDATE = 6" by (simp add: IN_CHANGE_def IN_UPDATE_def)
  ultimately have "(w OR (IN_CHANGE OR IN_UPDATE)) AND IN_E4EXTENTS = w AND IN_E4EXTENTS" for w by (simp add: word_ao_dist)
  then show ?thesis by (simp add: same_file_def dir_modified_def)
qed

context dir_blocks begin

lemma content_update:
  assumes c: "dir_content backed dirchk ump dp a ess" and k: "k < length ess" and es: "block_ok (bsz ump) es"
    "\<forall>e \<in> set es. e \<in> set (ess ! k) \<or> dir_sane dirchk ump (dn_ino e)"
  shows "dir_content backed dirchk (put_dents ump (a k) es) (dir_modified dp) a (ess[k := es])"
proof -
  have b: "backed ump dp a (length ess)" using c by (simp add: dir_content_def)
  then have "backed (put_dents ump (a k) es) (dir_modified dp) a (length ess)"
    unfolding put_dents_def by (intro backed_inode [OF backed_write [OF b k]] same_file_modified)
  moreover have "i_size (dir_modified dp) = i_size dp" by (simp add: dir_modified_def)
  moreover have "dev_blk (um_devvp (put_dents ump (a k) es)) (a j) = block_of (ess[k := es] ! j) \<and> block_ok (bsz ump) (ess[k := es] ! j)"
    if "j < length ess" for j
  proof (cases "j = k")
    case False
    then have "a j \<noteq> a k" using backed_addr [OF b k] that by blast
    then show ?thesis using content_block [OF c that] False by simp
  qed (use es(1) k in simp)
  moreover have "dirchk \<Longrightarrow> e \<in> set (concat (ess[k := es])) \<Longrightarrow> dn_ino e \<le> e2fs_icount (e2fs (um_e2fs ump))" for e
  proof -
    assume d: dirchk and "e \<in> set (concat (ess[k := es]))"
    then obtain fs where "fs \<in> set (ess[k := es])" "e \<in> set fs" by auto
    then have "e \<in> set es \<or> e \<in> set (concat ess)" using set_update_subset_insert [of ess k es] by auto
    then have "e \<in> set (concat ess) \<or> dir_sane dirchk ump (dn_ino e)" using es(2) k by (auto simp: nth_mem)
    then show ?thesis using c d by (auto simp: dir_content_def dir_sane_def)
  qed
  ultimately show ?thesis using c by (simp add: dir_content_def)
qed

text \<open>Where a matching entry is, as removing and renaming leave it in the inode.\<close>

lemma found_at:
  assumes c: "dir_content backed dirchk ump dp a ess" and m: "dir_map ess (cn_name cn) = Some ino"
  shows "\<exists>k es1 e es2. k < length ess \<and> hit_at (cn_name cn) (ess ! k) (int k * int (bsz ump)) 0 ino
      (snd (dir_scan (slot_needed cn) (cn_name cn) ess (scan_start cn))) es1 e es2"
proof -
  have "fst (dir_scan (slot_needed cn) (cn_name cn) ess (scan_start cn)) = Some ino" using m by (simp add: dir_scan_fst)
  moreover have "sc_offset (scan_start cn) = int 0 * int (bsz ump)" by (simp add: scan_start_def)
  moreover have "\<forall>es \<in> set ess. dents_len es = bsz ump" using content_blocks_ok [OF c] by (simp add: block_ok_def)
  ultimately show ?thesis using dir_scan_hit [of "slot_needed cn" "cn_name cn" ess "scan_start cn" ino 0 "bsz ump"] by simp
qed

lemma block_addr:
  assumes c: "dir_content backed dirchk ump dp a ess" and k: "k < length ess" and i: "ess ! k = es1 @ es2" "es2 \<noteq> []"
    and o: "off = int k * int (bsz ump) + int (dents_len es1)"
  shows "ext2_blkatoff ump dp off = Ret (Inr (a k, block_of (ess ! k), int (length (block_of es1))))" "a k \<noteq> - 1"
proof -
  have ok: "block_ok (bsz ump) (ess ! k)" using content_block [OF c k] by simp
  obtain e r where e: "es2 = e # r" using i(2) by (cases es2) auto
  have "dent_ok e" using ok i(1) e by (simp add: block_ok_def)
  from dent_ok_pos(2) [OF this] have "0 < unat (dn_reclen e)" by (simp add: unat_gt_0)
  then have "dents_len es1 < bsz ump" using ok i(1) e by (simp add: block_ok_def)
  then have "int (dents_len es1) < int (bsz ump)" by simp
  from content_read [OF c k _ this] have "ext2_blkatoff ump dp off = Ret (Inr (a k, block_of (ess ! k), int (dents_len es1)))"
    unfolding o by simp
  moreover have "length (block_of es1) = dents_len es1" using ok i(1) by (intro block_of_length) (simp add: block_ok_def)
  ultimately show "ext2_blkatoff ump dp off = Ret (Inr (a k, block_of (ess ! k), int (length (block_of es1))))" by simp
  show "a k \<noteq> - 1" using backed_addr [of ump dp a "length ess" k] c k by (simp add: dir_content_def)
qed

text \<open>Entering a name into the slot its search found.\<close>

lemma direnter_slot:
  assumes c: "dir_content backed dirchk ump dp a ess" and s: "slot_of ump ess (new_need name) dp" "i_count dp \<noteq> 0"
    and nm: "1 \<le> length name" "length name \<le> 255" "3 \<le> length junk" and ino: "i_number ip \<noteq> 0" "dir_sane dirchk ump (i_number ip)"
    and d: "dir_map ess name = None" "dir_distinct ess"
  shows "\<exists>k es m. k < length ess \<and> i_endoff dp = int m * int (bsz ump) \<and>
    ext2_direnter write trunc async junk ump ip dp name = Some (
      let e = put_err async ump (a k); ump' = put_dents ump (a k) es; dp' = dir_modified dp in
      if e = 0 \<and> 0 < m \<and> m < length ess then trunc ump' dp' (i_endoff dp) else Ret (e, ump', dp')) \<and>
    dir_content backed dirchk (put_dents ump (a k) es) (dir_modified dp) a (ess[k := es]) \<and>
    dir_map (ess[k := es]) = (dir_map ess)(name \<mapsto> i_number ip) \<and> dir_distinct (ess[k := es]) \<and>
    (\<forall>j < length ess. m \<le> j \<longrightarrow> (\<forall>e \<in> set (ess[k := es] ! j). \<not> live e))"
proof -
  let ?B = "bsz ump"
  note geo = content_geom [OF c] note B = bsz_bounds [OF geo]
  obtain k es1 run es2 where k: "k < length ess" "ess ! k = es1 @ run @ es2" "run \<noteq> []"
      "i_offset dp = int k * int ?B + int (dents_len es1)" "i_count dp = int (dents_len run)" "new_need name \<le> slacks run"
    using s unfolding slot_of_def slot_at_def by auto
  obtain m where m: "m \<le> length ess" "i_endoff dp = int m * int ?B" "\<forall>j < length ess. (\<exists>e \<in> set (ess ! j). live e) \<longrightarrow> j < m" "i_offset dp + i_count dp \<le> i_endoff dp"
    using s unfolding slot_of_def by blast
  have ok: "block_ok ?B (ess ! k)" using content_block [OF c k(1)] by simp
  have dok: "\<forall>x \<in> set es1. dent_ok x" "\<forall>x \<in> set run. dent_ok x" "\<forall>x \<in> set es2. dent_ok x"
    and tot: "dents_len es1 + dents_len run + dents_len es2 = ?B" using ok k(2) by (auto simp: block_ok_def)
  have sz: "uint (i_size dp) = int (length ess * ?B)" "int (length ess * ?B) < int (2 ^ 31)"
    using c unfolding dir_content_def of_nat_less_iff by blast+
  have "int (Suc k) * int ?B \<le> int (length ess) * int ?B" using k(1) by (intro mult_right_mono) simp_all
  moreover have "int (dents_len es1) + int (dents_len run) \<le> int ?B" using tot by linarith
  ultimately have se: "i_offset dp + i_count dp \<le> int (length ess * ?B)" using k(4,5) by (simp add: algebra_simps)
  have s0: "0 \<le> i_offset dp + i_count dp" using k(4,5) by simp
  have "uint (word_of_int (i_offset dp + i_count dp) :: u64) = i_offset dp + i_count dp"
    by (rule u64_of_int) (use se s0 sz(2) in simp_all)
  then have nogrow: "\<not> (word_of_int (i_offset dp + i_count dp) :: u64) > i_size dp"
    using se sz(1) by (simp add: word_less_def)
  obtain X where X: "int (length X) = slacks run" "length X < 65536" "length X mod 4 = 0"
    and es: "enter_slot (newdir_bytes (um_e2fs ump) ip name junk) (new_need name) (int (length (block_of es1))) (i_count dp)
        (block_of es1 @ block_of run @ block_of es2) =
       Some (Ret (block_of es1 @ block_of (compacted run @ [new_dent (um_e2fs ump) ip name junk X]) @ block_of es2))"
    using enter_slot_correct [OF k(3) dok(2) refl k(5) _ nm k(6), where P = "block_of es1" and fs = "um_e2fs ump" and ip = ip and R = "block_of es2"] tot B(2) by auto
  let ?nd = "new_dent (um_e2fs ump) ip name junk X" let ?es = "es1 @ compacted run @ [?nd] @ es2"
  have need: "new_need name \<le> int (length X)" using k(6) X(1) by simp
  note nd = new_dent_ok [OF nm need X(2,3), of "um_e2fs ump" ip]
  have ndi: "dn_ino ?nd = i_number ip" by (simp add: new_dent_def)
  have blk: "block_of (ess ! k) = block_of es1 @ block_of run @ block_of es2" by (simp add: k(2))
  note at = block_addr [OF c k(1), of es1 "run @ es2" "i_offset dp"]
  have oke: "block_ok ?B ?es"
  proof -
    have "unat (dn_reclen ?nd) = length X" using nd(3) by (metis nat_int unat_eq_nat_uint)
    then have "dents_len (compacted run) + unat (dn_reclen ?nd) = dents_len run"
      using compacted_len [OF dok(2)] X(1) by linarith
    then show ?thesis using dok compacted_ok [OF dok(2)] nd(1) tot by (auto simp: block_ok_def)
  qed
  have ci: "e \<in> set ?es \<Longrightarrow> dir_sane dirchk ump (dn_ino e)" for e
  proof -
    assume e: "e \<in> set ?es"
    have "dir_sane dirchk ump (dn_ino x)" if "x \<in> set (ess ! k)" for x
      using c k(1) that unfolding dir_content_def dir_sane_def by (auto simp: nth_mem)
    then show ?thesis using e ino(2) ndi k(2) by (auto simp: compacted_def)
  qed
  have cont: "dir_content backed dirchk (put_dents ump (a k) ?es) (dir_modified dp) a (ess[k := ?es])"
    by (rule content_update [OF c k(1) oke]) (use ci in blast)
  have lv: "lives (ess ! k) = (lives es1 @ lives run) @ lives es2" "lives ?es = (lives es1 @ lives run) @ (name, i_number ip) # lives es2"
    using lives_compacted [OF dok(2)] nd(2) ndi ino(1) k(2) by (simp_all add: live_def)
  note mp = dir_insert [OF k(1) lv d]
  have km: "k < m"
  proof -
    have "0 < int (dents_len run)" using s(2) k(5) by simp
    then have "int k * int ?B < int m * int ?B" using m(2,4) k(4,5) by linarith
    then show ?thesis using B(1) by (simp add: mult_less_cancel_right)
  qed
  have dead: "\<forall>j < length ess. m \<le> j \<longrightarrow> (\<forall>e \<in> set (ess[k := ?es] ! j). \<not> live e)" using m(3) km by auto
  have mB: "int m * int ?B < int (length ess * ?B) \<longleftrightarrow> m < length ess"
    using B(1) by (simp add: mult_less_cancel_right)
  have lim: "(i_endoff dp \<noteq> 0 \<and> (word_of_int (i_endoff dp) :: u64) < i_size dp) = (0 < m \<and> m < length ess)"
  proof -
    have "int m * int ?B \<le> int (length ess) * int ?B" using m(1) by (intro mult_right_mono) simp_all
    then have "uint (word_of_int (i_endoff dp) :: u64) = i_endoff dp" using sz(2) m(2) by (intro u64_of_int) simp_all
    then show ?thesis using sz(1) mB m(2) B(1) by (auto simp: word_less_def)
  qed
  have bsp: "block_of es1 @ block_of (compacted run @ [?nd]) @ block_of es2 = block_of ?es" by simp
  have at1: "ext2_blkatoff ump dp (i_offset dp) = Ret (Inr (a k, block_of (ess ! k), int (length (block_of es1))))"
    by (rule at(1)) (use k in simp_all)
  have at2: "a k \<noteq> - 1" by (rule at(2)) (use k in simp_all)
  have ent: "ext2_direnter write trunc async junk ump ip dp name = Some (
      let e = put_err async ump (a k); ump' = put_dents ump (a k) ?es; dp' = dir_modified dp in
      if e = 0 \<and> 0 < m \<and> m < length ess then trunc ump' dp' (i_endoff dp) else Ret (e, ump', dp'))"
  proof -
    have "enter_slot (newdir_bytes (um_e2fs ump) ip name junk) (EXT2_DIR_REC_LEN (int (length name))) (int (length (block_of es1))) (i_count dp) (block_of (ess ! k)) =
        Some (Ret (block_of ?es))" using es unfolding bsp blk new_need_def .
    then show ?thesis
      unfolding ext2_direnter_def Let_def using s(2) nogrow at1 lim
      by (simp add: put_block_dents [OF at2] dir_modified_def del: bnd_Ret_iff block_of_simps append.simps)
  qed
  show ?thesis using k(1) m(2) ent cont mp dead by blast
qed

text \<open>Removing the entry its search found.\<close>

lemma dirremove_entry:
  assumes c: "dir_content backed dirchk ump dp a ess" and k: "k < length ess" "ess ! k = es1 @ e # es2" and l: "live e" and d: "dir_distinct ess"
    and o: "i_offset dp = int k * int (bsz ump) + int (dents_len es1)"
    and n: "i_count dp = (if es1 = [] then 0 else uint (dn_reclen (last es1)))"
  shows "\<exists>es. ext2_dirremove async ump dp = Ret (put_err (async \<and> es1 \<noteq> []) ump (a k), put_dents ump (a k) es, dir_modified dp) \<and>
    dir_content backed dirchk (put_dents ump (a k) es) (dir_modified dp) a (ess[k := es]) \<and>
    dir_map (ess[k := es]) = (dir_map ess)(dent_name e := None) \<and> dir_distinct (ess[k := es])"
proof -
  have ok: "block_ok (bsz ump) (ess ! k)" using content_block [OF c k(1)] by simp
  have sane: "dir_sane dirchk ump (dn_ino x)" if "x \<in> set (ess ! k)" for x
    using c k(1) that unfolding dir_content_def dir_sane_def by (auto simp: nth_mem)
  have lv: "lives (ess ! k) = lives es1 @ (dent_name e, dn_ino e) # lives es2" using k(2) l by simp
  have z: "dir_sane dirchk ump 0" by (simp add: dir_sane_def)
  show ?thesis
  proof (cases "es1 = []")
    case True
    let ?e = "e\<lparr>dn_ino := 0\<rparr>" let ?es = "?e # es2"
    note at = block_addr [OF c k(1), of "[]" "e # es2" "i_offset dp"]
    have at1: "ext2_blkatoff ump dp (i_offset dp) = Ret (Inr (a k, block_of (ess ! k), 0))" using at(1) k(2) True o by simp
    have at2: "a k \<noteq> - 1" by (rule at(2)) (use k(2) True o in simp_all)
    have ok2: "block_ok (bsz ump) ?es" using ok k(2) True by (simp add: block_ok_def dent_ok_def dent_need_def)
    have "block_of (ess ! k) = [] @ bytes_of (dn_ino e) @ drop 4 (dent_bytes e) @ block_of es2" using k(2) True by (simp add: dent_bytes_def)
    moreover have "block_of ?es = bytes_of 0 @ drop 4 (dent_bytes e) @ block_of es2" by (simp add: dent_bytes_def)
    ultimately have st: "st32 (block_of (ess ! k)) 0 0 = Ret (block_of ?es)"
      unfolding st32_def using blit_mid [of "bytes_of 0" "bytes_of (dn_ino e)" 0 "[]" "drop 4 (dent_bytes e) @ block_of es2"] by simp
    have r: "ext2_dirremove async ump dp = Ret (put_err (async \<and> es1 \<noteq> []) ump (a k), put_dents ump (a k) ?es, dir_modified dp)"
      unfolding ext2_dirremove_def using at1 st n True by (simp add: put_block_dents [OF at2] del: bnd_Ret_iff block_of_simps)
    have "\<forall>x \<in> set ?es. x \<in> set (ess ! k) \<or> dir_sane dirchk ump (dn_ino x)" using k(2) z by auto
    note cu = content_update [OF c k(1) ok2 this]
    have "lives ?es = lives es1 @ lives es2" using True by (simp add: live_def)
    note dd = dir_delete [OF k(1) lv this d]
    show ?thesis using r cu dd by blast
  next
    case False
    then obtain fs p where p: "es1 = fs @ [p]" by (metis append_butlast_last_id)
    let ?p = "p\<lparr>dn_reclen := dn_reclen p + dn_reclen e, dn_rest := dn_rest p @ dent_bytes e\<rparr>" let ?es = "fs @ ?p # es2"
    have dok: "dent_ok p" "dent_ok e" "\<forall>x \<in> set fs. dent_ok x" "\<forall>x \<in> set es2. dent_ok x"
      and tot: "dents_len fs + unat (dn_reclen p) + unat (dn_reclen e) + dents_len es2 = bsz ump"
      using ok k(2) p by (auto simp: block_ok_def)
    have b: "unat (dn_reclen p) + unat (dn_reclen e) \<le> 4096" using tot bsz_bounds(2) [OF content_geom [OF c]] by linarith
    then have up: "unat (dn_reclen p + dn_reclen e) = unat (dn_reclen p) + unat (dn_reclen e)" by (intro unat_add_lem [THEN iffD1]) simp
    then have uip: "uint (dn_reclen p + dn_reclen e) = uint (dn_reclen p) + uint (dn_reclen e)" by (simp only: uint_nat of_nat_add)
    have pm: "0 < uint (dn_reclen e)" using dent_ok_pos(1) [OF dok(2)] by linarith
    have okp: "dent_ok ?p" using dok(1,2) up uip pm dent_bytes_length [OF dok(2)]
      by (simp add: dent_ok_def dent_need_def) (simp add: mod_add_eq [symmetric])
    have nmp: "dent_name ?p = dent_name p" using dent_ok_pos(3) [OF dok(1)] dok(1) by (simp add: dent_name_def dent_ok_def)
    have sp: "ess ! k = fs @ (p # e # es2)" using k(2) p by simp
    have oc: "i_offset dp - i_count dp = int k * int (bsz ump) + int (dents_len fs)" using o n p by simp
    note at = block_addr [OF c k(1) sp _ oc]
    have at1: "ext2_blkatoff ump dp (i_offset dp - i_count dp) = Ret (Inr (a k, block_of (ess ! k), int (length (block_of fs))))" by (rule at(1)) simp
    have at2: "a k \<noteq> - 1" by (rule at(2)) simp
    have b1: "block_of (ess ! k) = block_of fs @ dent_bytes p @ (dent_bytes e @ block_of es2)" using sp by simp
    have b2: "block_of (ess ! k) = (block_of fs @ dent_bytes p) @ dent_bytes e @ block_of es2" using sp by simp
    have o2: "int (length (block_of fs)) + uint (dn_reclen p) = int (length (block_of fs @ dent_bytes p))" using dent_bytes_length [OF dok(1)] by simp
    have fin: "set_reclen (block_of (ess ! k)) (int (length (block_of fs))) (dn_reclen p + dn_reclen e) = Ret (block_of ?es)"
      using set_reclen_dent [OF refl b1, of "dn_reclen p + dn_reclen e"] by (simp add: dent_bytes_def)
    have cz: "i_count dp \<noteq> 0" using n p dent_ok_pos(1) [OF dok(1)] by auto
    have r: "ext2_dirremove async ump dp = Ret (put_err (async \<and> es1 \<noteq> []) ump (a k), put_dents ump (a k) ?es, dir_modified dp)"
      unfolding ext2_dirremove_def using cz at1 e2d_fields(2) [OF refl b1] e2d_fields(2) [OF o2 b2] fin False
      by (simp add: put_block_dents [OF at2] del: bnd_Ret_iff block_of_simps)
    have ok2: "block_ok (bsz ump) ?es" using okp dok(3,4) tot up by (auto simp: block_ok_def)
    have "dir_sane dirchk ump (dn_ino ?p)" using sane [of p] sp by simp
    then have "\<forall>x \<in> set ?es. x \<in> set (ess ! k) \<or> dir_sane dirchk ump (dn_ino x)" using sp by auto
    note cu = content_update [OF c k(1) ok2 this]
    have "lives ?es = lives es1 @ lives es2" using p nmp by (simp add: live_def)
    note dd = dir_delete [OF k(1) lv this d]
    show ?thesis using r cu dd by blast
  qed
qed

text \<open>Rewriting the entry its search found.\<close>

lemma dirrewrite_at:
  assumes c: "dir_content backed dirchk ump dp a ess" and k: "k < length ess" "ess ! k = es1 @ e # es2" and l: "live e" and d: "dir_distinct ess"
    and o: "i_offset dp = int k * int (bsz ump) + int (dents_len es1)" and ino: "i_number ip \<noteq> 0" "dir_sane dirchk ump (i_number ip)"
  shows "\<exists>e'. dent_name e' = dent_name e \<and> live e' \<and>
    ext2_dirrewrite ump dp ip = Ret (put_err False ump (a k), put_dents ump (a k) (es1 @ e' # es2), dir_modified dp) \<and>
    dir_content backed dirchk (put_dents ump (a k) (es1 @ e' # es2)) (dir_modified dp) a (ess[k := es1 @ e' # es2]) \<and>
    dir_map (ess[k := es1 @ e' # es2]) = (dir_map ess)(dent_name e \<mapsto> i_number ip) \<and> dir_distinct (ess[k := es1 @ e' # es2])"
proof -
  have ok: "block_ok (bsz ump) (ess ! k)" using content_block [OF c k(1)] by simp
  let ?e = "e\<lparr>dn_ino := i_number ip, dn_type := ft_of (um_e2fs ump) ip\<rparr>" let ?es = "es1 @ ?e # es2"
  let ?P = "block_of es1" let ?R = "drop 4 (dent_bytes e) @ block_of es2"
  note at = block_addr [OF c k(1,2) _ o]
  have at1: "ext2_blkatoff ump dp (i_offset dp) = Ret (Inr (a k, block_of (ess ! k), int (length ?P)))" by (rule at(1)) simp
  have at2: "a k \<noteq> - 1" by (rule at(2)) simp
  have "block_of (ess ! k) = ?P @ bytes_of (dn_ino e) @ ?R" using k(2) by (simp add: dent_bytes_def)
  then have st: "st32 (block_of (ess ! k)) (int (length ?P)) (i_number ip) = Ret (?P @ bytes_of (i_number ip) @ ?R)"
    unfolding st32_def using blit_mid [of "bytes_of (i_number ip)" "bytes_of (dn_ino e)" "int (length ?P)" ?P ?R] by simp
  have ty: "wr (?P @ bytes_of (i_number ip) @ ?R) (int (length ?P) + 7) (ft_of (um_e2fs ump) ip) = Ret (block_of ?es)"
    by (simp add: wr_def dent_bytes_def bytes16_def nat_add_distrib list_update_append)
  have r: "ext2_dirrewrite ump dp ip = Ret (put_err False ump (a k), put_dents ump (a k) ?es, dir_modified dp)"
    unfolding ext2_dirrewrite_def at1 bnd.simps sum.case prod.case st ty by (simp add: put_block_dents [OF at2] del: block_of_simps)
  have oke: "dent_ok e" using ok k(2) by (simp add: block_ok_def)
  then have "dent_ok ?e" using l by (simp add: dent_ok_def dent_need_def live_def)
  then have ok2: "block_ok (bsz ump) ?es" using ok k(2) by (simp add: block_ok_def)
  have "\<forall>x \<in> set ?es. x \<in> set (ess ! k) \<or> dir_sane dirchk ump (dn_ino x)" using k(2) ino by auto
  note cu = content_update [OF c k(1) ok2 this]
  have lv: "lives (ess ! k) = lives es1 @ (dent_name e, dn_ino e) # lives es2" using k(2) l by simp
  have nm: "dent_name ?e = dent_name e" by (simp add: dent_name_def)
  then have "lives ?es = lives es1 @ (dent_name e, i_number ip) # lives es2" using ino(1) by (simp add: live_def)
  note dd = dir_replace [OF k(1) lv this d]
  have "live ?e" using ino(1) by (simp add: live_def)
  then show ?thesis using nm r cu dd by blast
qed

lemma dirrewrite_entry:
  assumes c: "dir_content backed dirchk ump dp a ess" and k: "k < length ess" "ess ! k = es1 @ e # es2" and l: "live e" and d: "dir_distinct ess"
    and o: "i_offset dp = int k * int (bsz ump) + int (dents_len es1)" and ino: "i_number ip \<noteq> 0" "dir_sane dirchk ump (i_number ip)"
  shows "\<exists>es. ext2_dirrewrite ump dp ip = Ret (put_err False ump (a k), put_dents ump (a k) es, dir_modified dp) \<and>
    dir_content backed dirchk (put_dents ump (a k) es) (dir_modified dp) a (ess[k := es]) \<and>
    dir_map (ess[k := es]) = (dir_map ess)(dent_name e \<mapsto> i_number ip) \<and> dir_distinct (ess[k := es])"
  using dirrewrite_at [OF assms] by blast

text \<open>The search of a lookup, with the cached offset of an earlier one.\<close>

lemma search_lookup:
  assumes c: "dir_content backed dirchk ump dp a ess" and d: "dir_distinct ess" and op: "cn_nameiop cn = LOOKUP"
    and ch: "i_diroff dp = int j * int (bsz ump)" "j \<le> length ess"
  shows "\<exists>passes s. dir_search dirchk rdonly ump dp cn = Ret (Inr (dir_map ess (cn_name cn), passes, s)) \<and>
    (\<forall>ino. dir_map ess (cn_name cn) = Some ino \<longrightarrow> (\<exists>k es1 e es2. k < length ess \<and>
       hit_at (cn_name cn) (ess ! k) (int k * int (bsz ump)) 0 ino s es1 e es2))"
proof (cases "j = 0")
  case True
  then show ?thesis using search_all [OF c, of cn rdonly] ch found_at [OF c, of cn] by auto
next
  case False
  let ?B = "bsz ump" let ?nd = "slot_needed cn" let ?nm = "cn_name cn"
  note geo = content_geom [OF c] note B = bsz_bounds(1) [OF geo]
  have sz: "uint (i_size dp) = int (length ess * ?B)" "length ess * ?B < 2 ^ 31" using c by (simp_all add: dir_content_def)
  have es: "to_doff (roundup_size (i_size dp) (DIRBLKSIZ ump)) = int (length ess) * int ?B" using roundup_blocks [OF geo sz] by simp
  have le: "int j * int ?B \<le> int (length ess) * int ?B" using ch(2) by (intro mult_right_mono) simp_all
  have szi: "int (length ess * ?B) < int (2 ^ 31)" using sz(2) by (simp only: of_nat_less_iff)
  have "uint (word_of_int (i_diroff dp) :: u64) = i_diroff dp" using le szi ch(1) by (intro u64_of_int) simp_all
  then have ns: "\<not> (word_of_int (i_diroff dp) :: u64) > i_size dp" using sz(1) le ch(1) by (simp add: word_less_def)
  have nz: "i_diroff dp \<noteq> 0" using False B ch(1) by simp
  have eo: "i_diroff dp AND (DIRBLKSIZ ump - 1) = 0" unfolding dirblk_masks(1) [OF geo] ch(1) by simp
  let ?s0 = "(scan_start cn)\<lparr>sc_offset := i_diroff dp, sc_eo := 0, sc_bp := None, sc_prevoff := i_diroff dp\<rparr>"
  let ?r1 = "dir_scan ?nd ?nm (drop j ess) ?s0"
  have l1: "search_loop dirchk rdonly ump dp ?nm ?nd (int (length ess) * int ?B) ?s0 = Ret (Inr ?r1)"
    using search_blocks [OF c ch(2) order_refl, of ?s0] ch(1) by simp
  let ?s1 = "(snd ?r1)\<lparr>sc_offset := 0\<rparr>" let ?r2 = "dir_scan ?nd ?nm (take j ess) ?s1"
  have l2: "search_loop dirchk rdonly ump dp ?nm ?nd (int j * int ?B) ?s1 = Ret (Inr ?r2)"
    using search_blocks [OF c _ ch(2), of 0 ?s1] by simp
  have f1: "fst ?r1 = dir_map (drop j ess) ?nm" and f2: "fst ?r2 = dir_map (take j ess) ?nm" by (simp_all add: dir_scan_fst)
  have bl: "\<forall>es \<in> set ess. dents_len es = ?B" using content_blocks_ok [OF c] by (simp add: block_ok_def)
  have split: "dir_live ess = dir_live (take j ess) @ dir_live (drop j ess)" by (metis append_take_drop_id dir_live_simps(3))
  have mp: "dir_map ess ?nm = (case dir_map (drop j ess) ?nm of Some v \<Rightarrow> Some v | None \<Rightarrow> dir_map (take j ess) ?nm)"
  proof -
    have "fst ` set (dir_live (take j ess)) \<inter> fst ` set (dir_live (drop j ess)) = {}"
      using d unfolding dir_distinct_def split by simp
    then have "map_of (dir_live (take j ess)) ++ map_of (dir_live (drop j ess)) = map_of (dir_live (drop j ess)) ++ map_of (dir_live (take j ess))"
      by (intro map_add_comm) (simp add: dom_map_of_conv_image_fst)
    then have "dir_map ess ?nm = (map_of (dir_live (take j ess)) ++ map_of (dir_live (drop j ess))) ?nm"
      unfolding dir_map_def split by simp
    then show ?thesis by (simp only: map_add_def dir_map_def)
  qed
  show ?thesis
  proof (cases "fst ?r1")
    case None
    then have ds: "dir_search dirchk rdonly ump dp cn = Ret (Inr (fst ?r2, 1, snd ?r2))"
      unfolding dir_search_def Let_def es using op nz ns eo l1 l2 [unfolded ch(1) [symmetric]]
      by (cases ?r1; cases ?r2) (simp del: bnd_Ret_iff)
    have "fst ?r2 = dir_map ess ?nm" using mp f1 f2 None by simp
    moreover have "\<exists>k es1 e es2. k < length ess \<and> hit_at ?nm (ess ! k) (int k * int ?B) 0 ino (snd ?r2) es1 e es2" if "fst ?r2 = Some ino" for ino
    proof -
      have o: "sc_offset ?s1 = int 0 * int ?B" by simp
      have "\<forall>es \<in> set (take j ess). dents_len es = ?B" using bl set_take_subset by fastforce
      from dir_scan_hit [OF that o this] obtain k es1 e es2 where "k < length (take j ess)"
        "hit_at ?nm (take j ess ! k) (int (0 + k) * int ?B) 0 ino (snd ?r2) es1 e es2" by blast
      then have "k < length ess \<and> hit_at ?nm (ess ! k) (int k * int ?B) 0 ino (snd ?r2) es1 e es2" by simp
      then show ?thesis by blast
    qed
    ultimately show ?thesis using ds by (intro exI [of _ 1] exI [of _ "snd ?r2"]) simp
  next
    case (Some v)
    then have ds: "dir_search dirchk rdonly ump dp cn = Ret (Inr (fst ?r1, 2, snd ?r1))"
      unfolding dir_search_def Let_def es using op nz ns eo l1 by (cases ?r1) (simp del: bnd_Ret_iff)
    have "fst ?r1 = dir_map ess ?nm" unfolding mp f1 [symmetric] Some by simp
    moreover have "\<exists>k es1 e es2. k < length ess \<and> hit_at ?nm (ess ! k) (int k * int ?B) 0 ino (snd ?r1) es1 e es2" if "fst ?r1 = Some ino" for ino
    proof -
      have o: "sc_offset ?s0 = int j * int ?B" using ch(1) by simp
      have "\<forall>es \<in> set (drop j ess). dents_len es = ?B" using bl set_drop_subset by fastforce
      from dir_scan_hit [OF that o this] obtain k es1 e es2 where
        "k < length ess - j" "hit_at ?nm (ess ! (j + k)) (int (j + k) * int ?B) 0 ino (snd ?r1) es1 e es2" by auto
      then show ?thesis by (intro exI [of _ "j + k"]) auto
    qed
    ultimately show ?thesis using ds by (intro exI [of _ 2] exI [of _ "snd ?r1"]) simp
  qed
qed

lemma hit_fits:
  assumes c: "dir_content backed dirchk ump dp a ess" and k: "k < length ess" and h: "hit_at name (ess ! k) (int k * int (bsz ump)) 0 ino s es1 e es2"
  shows "\<not> sc_eo s + EXT2_DIR_REC_LEN (int (length name)) > sint (i_size dp)" "sc_offset s div int (bsz ump) = int k"
    "sc_offset s mod int (bsz ump) = int (dents_len es1)" "es1 \<noteq> [] \<Longrightarrow> 0 < dents_len es1"
proof -
  let ?B = "bsz ump"
  have ok: "block_ok ?B (ess ! k)" using content_block [OF c k] by simp
  have e: "ess ! k = es1 @ e # es2" "dent_name e = name" "sc_eo s = int (dents_len es1)" "sc_offset s = int k * int ?B + int (dents_len es1)"
    using h by (simp_all add: hit_at_def ent_matches_def)
  have de: "dent_ok e" and tot: "dents_len es1 + unat (dn_reclen e) \<le> ?B" using ok e(1) by (auto simp: block_ok_def)
  have ln: "int (length name) = uint (dn_namlen e)" using e(2) de dent_ok_pos(3) [OF de] by (auto simp: dent_name_def dent_ok_def)
  have "EXT2_DIR_REC_LEN (int (length name)) \<le> uint (dn_reclen e)" using de unfolding ln dent_ok_def dent_need_def by blast
  moreover have tot2: "int (dents_len es1) + uint (dn_reclen e) \<le> int ?B"
  proof -
    have "int (dents_len es1 + unat (dn_reclen e)) \<le> int ?B" using tot by (simp only: of_nat_le_iff)
    then show ?thesis by simp
  qed
  ultimately have 1: "sc_eo s + EXT2_DIR_REC_LEN (int (length name)) \<le> int ?B" using e(3) by linarith
  have sz: "uint (i_size dp) = int (length ess * ?B)" "int (length ess * ?B) < int (2 ^ 31)"
    using c unfolding dir_content_def of_nat_less_iff by blast+
  have "unat (i_size dp) < 2 ^ 63" using sz by (simp add: unat_eq_nat_uint nat_less_iff)
  then have "sint (i_size dp) = int (length ess * ?B)" using sint_unat_small64 [of "i_size dp"] sz(1) by simp
  moreover have "int 1 * int ?B \<le> int (length ess) * int ?B" using k by (intro mult_right_mono) simp_all
  ultimately show "\<not> sc_eo s + EXT2_DIR_REC_LEN (int (length name)) > sint (i_size dp)" using 1 by simp
  have lt: "int (dents_len es1) < int ?B" using tot2 dent_ok_pos(1) [OF de] by linarith
  show "sc_offset s div int ?B = int k" "sc_offset s mod int ?B = int (dents_len es1)" unfolding e(4) using lt by simp_all
  show "0 < dents_len es1" if "es1 \<noteq> []"
  proof -
    obtain f fs where "es1 = f # fs" using \<open>es1 \<noteq> []\<close> by (cases es1) auto
    moreover then have "dent_ok f" using ok e(1) by (simp add: block_ok_def)
    ultimately show ?thesis using dent_ok_pos(2) [of f] by (simp add: unat_gt_0)
  qed
qed

lemma lookup_name:
  assumes c: "dir_content backed dirchk ump dp a ess" and d: "dir_distinct ess" and op: "cn_nameiop cn = LOOKUP"
    and ch: "i_diroff dp = int j * int (bsz ump)" "j \<le> length ess"
  shows "\<exists>k \<le> length ess. ext2_lookup_ino dirchk rdonly uid get vget ump dp cn = Ret (
     case dir_map ess (cn_name cn) of
       None \<Rightarrow> (Inl ENOENT, dp)
     | Some ino \<Rightarrow> let dp' = (if cn_islast cn then dp\<lparr>i_diroff := int k * int (bsz ump)\<rparr> else dp)
                  in (if i_number dp = ino then if get \<noteq> 0 then Inl get else Inr dp' else vget ino, dp'))"
proof -
  obtain passes s where s: "dir_search dirchk rdonly ump dp cn = Ret (Inr (dir_map ess (cn_name cn), passes, s))"
    and h: "\<forall>ino. dir_map ess (cn_name cn) = Some ino \<longrightarrow> (\<exists>k es1 e es2. k < length ess \<and>
       hit_at (cn_name cn) (ess ! k) (int k * int (bsz ump)) 0 ino s es1 e es2)"
    using search_lookup [OF c d op ch] by blast
  show ?thesis
  proof (cases "dir_map ess (cn_name cn)")
    case None
    have "\<not> scan_creating cn" using op by (simp add: scan_creating_def)
    then show ?thesis unfolding ext2_lookup_ino_def s None by (intro exI [of _ 0]) (simp add: lookup_notfound_def)
  next
    case (Some ino)
    then obtain k es1 e es2 where k: "k < length ess" and ht: "hit_at (cn_name cn) (ess ! k) (int k * int (bsz ump)) 0 ino s es1 e es2"
      using h by blast
    note f = hit_fits [OF c k ht]
    let ?dp = "if cn_islast cn then dp\<lparr>i_diroff := int k * int (bsz ump)\<rparr> else dp"
    have lf: "lookup_found rdonly ump dp cn passes s = Ret ?dp"
      unfolding lookup_found_def Let_def dirblk_masks(2) [OF content_geom [OF c]] using f(1,2) op by (simp del: bnd_Ret_iff)
    have nn: "i_number ?dp = i_number dp" by simp
    show ?thesis unfolding ext2_lookup_ino_def s Some bnd.simps sum.case prod.case option.case lf
      using k op by (intro exI [of _ k]) (auto simp: Let_def nn split: sum.split)
  qed
qed

text \<open>A name to be removed, and one that is to be replaced.\<close>

lemma lookup_delete:
  assumes c: "dir_content backed dirchk ump dp a ess" and op: "cn_nameiop cn = DELETE" "cn_islast cn"
    and m: "dir_map ess (cn_name cn) = Some ino" "ino \<noteq> i_number dp" "vget ino = Inr tdp"
    and sticky: "\<not> (i_mode dp AND ISVTX \<noteq> 0 \<and> uid \<noteq> 0 \<and> uid \<noteq> i_uid dp \<and> i_uid tdp \<noteq> uid)"
  shows "\<exists>k es1 e es2 off count. k < length ess \<and> ess ! k = es1 @ e # es2 \<and> ent_matches (cn_name cn) e \<and>
     ext2_lookup_ino dirchk rdonly uid get vget ump dp cn = Ret (Inr tdp, dp\<lparr>i_offset := off, i_count := count\<rparr>) \<and>
     off = int k * int (bsz ump) + int (dents_len es1) \<and> count = (if es1 = [] then 0 else uint (dn_reclen (last es1)))"
proof -
  let ?s = "snd (dir_scan (slot_needed cn) (cn_name cn) ess (scan_start cn))"
  have s: "dir_search dirchk rdonly ump dp cn = Ret (Inr (Some ino, 1, ?s))" using search_all [OF c, of cn] op m(1) by simp
  obtain k es1 e es2 where k: "k < length ess" and h: "hit_at (cn_name cn) (ess ! k) (int k * int (bsz ump)) 0 ino ?s es1 e es2"
    using found_at [OF c m(1)] by blast
  note f = hit_fits [OF c k h]
  have lf: "lookup_found rdonly ump dp cn 1 ?s = Ret dp" unfolding lookup_found_def using op by simp
  have cnt: "(if sc_offset ?s AND (DIRBLKSIZ ump - 1) = 0 then 0 else sc_offset ?s - sc_prevoff ?s) =
      (if es1 = [] then 0 else uint (dn_reclen (last es1)))"
  proof (cases "es1 = []")
    case False
    then obtain fs p where "es1 = fs @ [p]" by (metis append_butlast_last_id)
    moreover have nz: "\<not> sc_offset ?s mod int (bsz ump) = 0" using f(3) f(4) [OF False] by simp
    ultimately show ?thesis unfolding dirblk_masks(1) [OF content_geom [OF c]] if_not_P [OF nz] using h by (simp add: hit_at_def)
  qed (use f(3) in \<open>simp add: dirblk_masks(1) [OF content_geom [OF c]]\<close>)
  have off: "sc_offset ?s = int k * int (bsz ump) + int (dents_len es1)" using h by (simp add: hit_at_def)
  have "ext2_lookup_ino dirchk rdonly uid get vget ump dp cn =
      Ret (Inr tdp, dp\<lparr>i_offset := int k * int (bsz ump) + int (dents_len es1), i_count := (if es1 = [] then 0 else uint (dn_reclen (last es1)))\<rparr>)"
    unfolding ext2_lookup_ino_def s bnd.simps sum.case prod.case option.case lf Let_def off cnt [unfolded off] using op m(2,3) sticky by (simp del: bnd_Ret_iff)
  then show ?thesis using k h by (intro exI [of _ k] exI [of _ es1] exI [of _ e] exI [of _ es2]) (simp add: hit_at_def)
qed

lemma lookup_rename:
  assumes c: "dir_content backed dirchk ump dp a ess" and op: "cn_nameiop cn = RENAME" "cn_islast cn"
    and m: "dir_map ess (cn_name cn) = Some ino" "ino \<noteq> i_number dp" "vget ino = Inr tdp"
  shows "\<exists>k es1 e es2 off. k < length ess \<and> ess ! k = es1 @ e # es2 \<and> ent_matches (cn_name cn) e \<and>
     ext2_lookup_ino dirchk rdonly uid get vget ump dp cn = Ret (Inr tdp, dp\<lparr>i_offset := off\<rparr>) \<and>
     off = int k * int (bsz ump) + int (dents_len es1)"
proof -
  let ?s = "snd (dir_scan (slot_needed cn) (cn_name cn) ess (scan_start cn))"
  have s: "dir_search dirchk rdonly ump dp cn = Ret (Inr (Some ino, 1, ?s))" using search_all [OF c, of cn] op m(1) by simp
  obtain k es1 e es2 where k: "k < length ess" and h: "hit_at (cn_name cn) (ess ! k) (int k * int (bsz ump)) 0 ino ?s es1 e es2"
    using found_at [OF c m(1)] by blast
  have lf: "lookup_found rdonly ump dp cn 1 ?s = Ret dp" unfolding lookup_found_def using op by simp
  have off: "sc_offset ?s = int k * int (bsz ump) + int (dents_len es1)" using h by (simp add: hit_at_def)
  have "ext2_lookup_ino dirchk rdonly uid get vget ump dp cn = Ret (Inr tdp, dp\<lparr>i_offset := int k * int (bsz ump) + int (dents_len es1)\<rparr>)"
    unfolding ext2_lookup_ino_def s bnd.simps sum.case prod.case option.case lf Let_def off using op m(2,3) by (simp del: bnd_Ret_iff)
  then show ?thesis using k h by (intro exI [of _ k] exI [of _ es1] exI [of _ e] exI [of _ es2]) (simp add: hit_at_def)
qed

end


section \<open>Directories with direct blocks\<close>

text \<open>
  A directory of at most twelve blocks that is not mapped by extents: the addresses are those of the pointers in the inode, and
  the blocks can be read.
\<close>

definition direct_dir :: "ext2mount \<Rightarrow> inode \<Rightarrow> (nat \<Rightarrow> int) \<Rightarrow> nat \<Rightarrow> bool" where
  "direct_dir ump dp a n \<longleftrightarrow> dir_geom ump \<and> um_bptrtodb ump < 31 \<and> i_flag dp AND IN_E4EXTENTS = 0 \<and> n \<le> 12 \<and> length (i_db dp) = 12 \<and>
     (\<forall>k < n. a k = push_bit (unat (um_bptrtodb ump)) (uint (i_db dp ! k)) \<and> 0 < a k \<and> a k < 2 ^ 32 \<and> dev_rerr (um_devvp ump) (a k) = 0 \<and>
        (\<forall>j < n. a j = a k \<longrightarrow> j = k))"

lemma direct_bmap:
  assumes d: "direct_dir ump dp a n" and k: "k < n"
  shows "\<exists>run. ext2_bmaparray ump dp (int k) (Some 0) False = Ret (Inr (a k, run, 0))"
proof -
  have ak: "a k = push_bit (unat (um_bptrtodb ump)) (uint (i_db dp ! k))" "0 < a k" "a k < 2 ^ 32" "n \<le> 12" "length (i_db dp) = 12" "um_bptrtodb ump < 31"
    using d k unfolding direct_dir_def by blast+
  have bs: "e2fs_bsize (um_e2fs ump) \<noteq> 0"
  proof
    assume "e2fs_bsize (um_e2fs ump) = 0"
    then have "bsz ump = 0" by (simp add: bsz_def)
    then show False using d bsz_bounds(1) [of ump] by (simp add: direct_dir_def)
  qed
  obtain rp where rp: "(case Some 0 of None \<Rightarrow> Ret None | Some m \<Rightarrow> bnd (max_run m (e2fs_bsize (um_e2fs ump))) (\<lambda>x. Ret (Some x))) = Ret rp"
    "\<forall>m. rp = Some m \<longrightarrow> 0 \<le> m" by (rule runp_total [OF bs])
  have sm: "um_bptrtodb ump < 32" using ak(6) by (simp add: word_less_nat_alt)
  have "uint (push_bit (unat (um_bptrtodb ump)) (i_db dp ! k)) = take_bit 32 (push_bit (unat (um_bptrtodb ump)) (uint (i_db dp ! k)))"
    by (simp add: unsigned_push_bit_eq)
  also have "\<dots> = a k" using ak(1-3) by (metis take_bit_int_eq_self less_imp_le)
  finally have u: "uint (push_bit (unat (um_bptrtodb ump)) (i_db dp ! k)) = a k" .
  then have nz: "push_bit (unat (um_bptrtodb ump)) (i_db dp ! k) \<noteq> 0" using ak(2) by auto
  have b32: "blkptrtodb32 ump (i_db dp ! k) = Ret (push_bit (unat (um_bptrtodb ump)) (i_db dp ! k))" by (simp add: blkptrtodb32_def sm)
  have k12: "k < 12" using k ak(4) by simp
  have rd: "rd (i_db dp) (int k) = Ret (i_db dp ! k)" using k12 ak(5) by simp
  obtain r where r: "runs_at ump (rd (i_db dp)) (int 12) rp False (int k) = Ret (r, 0)"
    using runs_at_fwd [of 12 "rd (i_db dp)" "(!) (i_db dp)" rp ump k, OF _ rp(2)] ak(5) by auto
  have "ext2_bmaparray ump dp (int k) (Some 0) False = Ret (Inr (a k, r, 0))"
    unfolding ext2_bmaparray_def rp(1) bnd.simps getlbns_direct [OF k12] sum.case list.case rd b32 if_not_P [OF nz] u
    using r by (simp add: NDADDR_def)
  then show ?thesis by blast
qed

lemma direct_read:
  assumes d: "direct_dir ump dp a n" and k: "k < n" and r: "0 \<le> r" "r < int (bsz ump)"
  shows "ext2_blkatoff ump dp (int k * int (bsz ump) + r) = Ret (Inr (a k, dev_blk (um_devvp ump) (a k), r))"
proof -
  let ?fs = "um_e2fs ump"
  have geo: "dir_geom ump" and ext: "i_flag dp AND IN_E4EXTENTS = 0" and ak: "0 < a k" "dev_rerr (um_devvp ump) (a k) = 0" and n: "n \<le> 12"
    using d k unfolding direct_dir_def by blast+
  note m = dirblk_masks(3,4) [OF geo] note B = bsz_bounds [OF geo]
  have lb: "lblkno ?fs (int k * int (bsz ump) + r) = int k" "blkoff ?fs (int k * int (bsz ump) + r) = r"
    "lblkno ?fs (int k * int (bsz ump)) = int k" "blkoff ?fs (int k * int (bsz ump)) = 0"
    unfolding m using r B(1) by simp_all
  have "int k * int (bsz ump) \<le> 12 * 4096" using k n B(2) by (intro mult_mono) simp_all
  moreover have "0 \<le> int k * int (bsz ump)" by simp
  moreover have "0 \<le> x \<Longrightarrow> x \<le> 12 * 4096 \<Longrightarrow> s64 x = x" for x by (intro s64_id) simp_all
  ultimately have s: "s64 (int k * int (bsz ump)) = int k * int (bsz ump)" by blast
  have off: "ext2_blktooff ?fs (int k) True = Inr (int k * int (bsz ump))" using s by (simp add: ext2_blktooff_def bsz_def)
  obtain run where bm: "ext2_bmaparray ump dp (int k) (Some 0) False = Ret (Inr (a k, run, 0))" using direct_bmap [OF d k] by blast
  obtain run' where bmap: "ext2_blockmap ump dp (int k * int (bsz ump)) (blksize ?fs) 0 True = Ret (Inr (a k, run'))"
    unfolding ext2_blockmap_def Let_def lb using ext bm ak(1) by (simp del: bnd_Ret_iff)
  have "buf_meta_bread (um_devvp ump) (a k) = Inr (dev_blk (um_devvp ump) (a k))" using ak(2) by (simp add: buf_meta_bread_def)
  then have "file_bread ump dp (int k) = Ret (Inr (a k, dev_blk (um_devvp ump) (a k)))"
    unfolding file_bread_def off sum.case bmap bnd.simps prod.case using ak(1) by simp
  then show ?thesis unfolding ext2_blkatoff_def Let_def lb using ext by (simp del: bnd_Ret_iff)
qed

interpretation direct: dir_blocks direct_dir
proof unfold_locales
  fix ump dp a n k r
  assume d: "direct_dir ump dp a n"
  show "dir_geom ump" using d by (simp add: direct_dir_def)
  show "k < n \<Longrightarrow> 0 \<le> r \<Longrightarrow> r < int (bsz ump) \<Longrightarrow>
      ext2_blkatoff ump dp (int k * int (bsz ump) + r) = Ret (Inr (a k, dev_blk (um_devvp ump) (a k), r))"
    by (rule direct_read [OF d])
  show "k < n \<Longrightarrow> a k \<noteq> - 1 \<and> (\<forall>j < n. a j = a k \<longrightarrow> j = k)" using d by (force simp: direct_dir_def)
  show "k < n \<Longrightarrow> direct_dir (ump\<lparr>um_devvp := snd (buf_bwrite (um_devvp ump) (a k) bs)\<rparr>) dp a n" for bs
  proof -
    let ?u = "ump\<lparr>um_devvp := snd (buf_bwrite (um_devvp ump) (a k) bs)\<rparr>"
    have e: "dir_geom ?u = dir_geom ump" "um_bptrtodb ?u = um_bptrtodb ump" "dev_rerr (um_devvp ?u) = dev_rerr (um_devvp ump)"
      by (simp_all add: dir_geom_def bsz_def buf_bwrite_def)
    show ?thesis using d unfolding direct_dir_def e .
  qed
  fix dp'
  assume "same_file dp dp'"
  then have e: "i_db dp' = i_db dp" "i_flag dp' AND IN_E4EXTENTS = i_flag dp AND IN_E4EXTENTS" by (simp_all add: same_file_def)
  show "direct_dir ump dp' a n" using d unfolding direct_dir_def e .
qed

end
