(* ===== verification/Ext2_DirWalk.thy ===== *)
theory Ext2_DirWalk
  imports Ext2_DirOps
begin

text \<open>
  Reading through a directory: the reads of \<^verbatim>\<open>ext2_meta_read\<close>, the test for an empty directory, the walk to the root and
  \<^verbatim>\<open>ext2_readdir\<close>, over the entries of the blocks.
\<close>

section \<open>Reading the entries\<close>

text \<open>The header of an entry with the first four bytes of its name.\<close>

definition dent_head :: "dent \<Rightarrow> dent" where "dent_head e = e\<lparr>dn_rest := take 4 (dn_rest e)\<rparr>"

lemma dent_head_simps [simp]:
  "dn_ino (dent_head e) = dn_ino e" "dn_reclen (dent_head e) = dn_reclen e" "dn_namlen (dent_head e) = dn_namlen e"
  "dn_type (dent_head e) = dn_type e" "dn_rest (dent_head e) = take 4 (dn_rest e)"
  by (simp_all add: dent_head_def)

lemma dent_ok_rest: "dent_ok e \<Longrightarrow> 4 \<le> length (dn_rest e)"
proof -
  assume "dent_ok e"
  then have "8 + length (dn_rest e) = unat (dn_reclen e)" "12 \<le> uint (dn_reclen e)" by (simp_all add: dent_ok_def)
  then have "int 12 \<le> int (8 + length (dn_rest e))" by simp
  then show ?thesis by linarith
qed

lemma dent_head_bytes: "dent_ok e \<Longrightarrow> take 12 (dent_bytes e @ R) = dent_bytes (dent_head e)"
  using dent_ok_rest [of e] by (simp add: dent_bytes_def bytes_of_def bytes16_def)

context dir_blocks
begin

lemma content_same: "dir_content backed dirchk ump dp a ess \<Longrightarrow> same_file dp dp' \<Longrightarrow> dir_content backed dirchk ump dp' a ess"
  using backed_inode [of ump dp a "length ess" dp'] by (simp add: dir_content_def same_file_def)

lemma content_size:
  assumes c: "dir_content backed dirchk ump dp a ess" and o: "0 \<le> off" "off \<le> int (length ess * bsz ump)"
  shows "uint (word_of_int off :: u64) = off" "(word_of_int off :: u64) < i_size dp \<longleftrightarrow> off < int (length ess * bsz ump)"
    "(word_of_int off :: u64) \<le> i_size dp"
proof -
  have sz: "uint (i_size dp) = int (length ess * bsz ump)" "int (length ess * bsz ump) < int (2 ^ 31)"
    using c unfolding dir_content_def of_nat_less_iff by blast+
  then show u: "uint (word_of_int off :: u64) = off" using o by (intro u64_of_int) simp_all
  show "(word_of_int off :: u64) < i_size dp \<longleftrightarrow> off < int (length ess * bsz ump)" using u sz(1) by (simp add: word_less_def)
  show "(word_of_int off :: u64) \<le> i_size dp" using u sz(1) o(2) by (simp add: word_le_def)
qed

lemma block_end: "k < length ess \<Longrightarrow> int k * int (bsz ump) + int (bsz ump) \<le> int (length ess * bsz ump)"
proof -
  assume "k < length ess"
  then have "int (Suc k) * int (bsz ump) \<le> int (length ess) * int (bsz ump)" by (intro mult_right_mono) simp_all
  then show ?thesis by (simp add: algebra_simps)
qed

lemma meta_read_block:
  assumes c: "dir_content backed dirchk ump dp a ess" and k: "k < length ess" and r: "0 \<le> r" "0 < n" "r + int n \<le> int (bsz ump)"
  shows "ext2_meta_read ump dp (int k * int (bsz ump) + r) n = Ret (0, take n (drop (nat r) (block_of (ess ! k))))"
proof -
  let ?off = "int k * int (bsz ump) + r"
  note geo = content_geom [OF c]
  have e: "?off + int n \<le> int (length ess * bsz ump)" using block_end [OF k, of ump] r(3) by linarith
  have o: "0 \<le> ?off" "?off < int (length ess * bsz ump)" using r e by simp_all
  have in_file: "\<not> (word_of_int ?off :: u64) \<ge> i_size dp"
    using content_size(2) [OF c o(1)] o(2) by (simp add: not_le)
  have no_cut: "\<not> (word_of_int (?off + int n) :: u64) > i_size dp"
    using content_size(3) [OF c _ e] o(1) by (simp add: not_less)
  have rb: "r < int (bsz ump)" using r by linarith
  have len: "length (block_of (ess ! k)) = bsz ump"
    using content_block [OF c k] block_of_length [of "ess ! k"] by (simp add: block_ok_def)
  have bo: "blkoff (um_e2fs ump) ?off = r" unfolding dirblk_masks(3) [OF geo] using r(1) rb by simp
  have mn: "min (int (length (block_of (ess ! k))) - r) (int n) = int n" unfolding len using r(3) by simp
  have sl: "slice (block_of (ess ! k)) r n = Ret (take n (drop (nat r) (block_of (ess ! k))))"
    unfolding slice_def using r(1,3) len by simp
  have "ext2_meta_read ump dp (?off + int n) 0 = Ret (0, [])" by (simp add: ext2_meta_read.simps)
  then show ?thesis
    using in_file no_cut r(2)
    by (subst ext2_meta_read.simps) (simp add: sl content_read [OF c k r(1) rb] mn bo Let_def del: bnd_Ret_iff)
qed

lemma read_head:
  assumes c: "dir_content backed dirchk ump dp a ess" and k: "k < length ess" "ess ! k = es1 @ e # es2"
  shows "ext2_meta_read ump dp (int k * int (bsz ump) + int (dents_len es1)) 12 = Ret (0, dent_bytes (dent_head e))"
proof -
  have ok: "block_ok (bsz ump) (ess ! k)" using content_block [OF c k(1)] by simp
  then have de: "dent_ok e" "\<forall>x \<in> set es1. dent_ok x" "dents_len es1 + unat (dn_reclen e) + dents_len es2 = bsz ump"
    using k(2) by (auto simp: block_ok_def)
  have "int 12 \<le> int (unat (dn_reclen e))" using de(1) by (simp add: dent_ok_def)
  then have "12 \<le> unat (dn_reclen e)" by (simp only: of_nat_le_iff)
  then have r: "int (dents_len es1) + int 12 \<le> int (bsz ump)" using de(3) by linarith
  have "take 12 (drop (dents_len es1) (block_of (ess ! k))) = dent_bytes (dent_head e)"
    using dent_head_bytes [OF de(1), of "block_of es2"] block_of_length [OF de(2)] k(2) by simp
  then show ?thesis using meta_read_block [OF c k(1) _ _ r] by simp
qed

end

section \<open>The test for an empty directory\<close>

text \<open>An entry that does not keep the directory from being removed.\<close>

definition removable :: "u32 \<Rightarrow> dent \<Rightarrow> bool" where
  "removable parentino e \<longleftrightarrow> \<not> live e \<or> dent_name e = [0x2E] \<or> dent_name e = [0x2E, 0x2E] \<and> dn_ino e = parentino"

lemma removable_test:
  assumes "dent_ok e"
  shows "removable parentino e \<longleftrightarrow>
    \<not> (dn_ino e \<noteq> 0 \<and> dn_namlen e > 2) \<and> \<not> (dn_ino e \<noteq> 0 \<and> take 2 (take 4 (dn_rest e)) ! 0 \<noteq> 0x2E) \<and>
    \<not> (dn_ino e \<noteq> 0 \<and> dn_namlen e \<noteq> 1 \<and> \<not> (take 2 (take 4 (dn_rest e)) ! 1 = 0x2E \<and> dn_ino e = parentino))"
proof (cases "dn_ino e = 0")
  case False
  then have n0: "dn_namlen e \<noteq> 0" using assms by (simp add: dent_ok_def)
  obtain x y z where r: "dn_rest e = x # y # z" using dent_ok_rest [OF assms] by (cases "dn_rest e"; cases "tl (dn_rest e)") auto
  have len: "length (dent_name e) = unat (dn_namlen e)"
    using dent_ok_pos(3) [OF assms] assms by (auto simp: dent_name_def dent_ok_def)
  have u: "unat (dn_namlen e) = 1 \<longleftrightarrow> dn_namlen e = 1" "unat (dn_namlen e) = 2 \<longleftrightarrow> dn_namlen e = 2"
    by (simp_all add: word_unat_eq_iff)
  consider "dn_namlen e = 1" | "dn_namlen e = 2" | "dn_namlen e > 2"
    using n0 u unat_gt_0 [of "dn_namlen e"] by (force simp: word_less_nat_alt)
  then show ?thesis
  proof cases
    case 1
    then have "dent_name e = [x]" using r by (simp add: dent_name_def)
    then show ?thesis using False 1 r by (simp add: removable_def live_def)
  next
    case 2
    then have "dent_name e = [x, y]" using r by (simp add: dent_name_def)
    then show ?thesis using False 2 r by (auto simp: removable_def live_def)
  next
    case 3
    then have "2 < length (dent_name e)" unfolding len by (simp add: word_less_nat_alt)
    then show ?thesis using False 3 by (auto simp: removable_def live_def)
  qed
qed (simp add: removable_def live_def)

context dir_blocks
begin

lemma dirempty_entry:
  assumes c: "dir_content backed dirchk ump dp a ess" and k: "k < length ess" "ess ! k = es1 @ e # es2"
    and o: "off = int k * int (bsz ump) + int (dents_len es1)"
  shows "dirempty_loop ump dp parentino off = (if removable parentino e then dirempty_loop ump dp parentino (off + uint (dn_reclen e)) else Ret False)"
proof -
  have ok: "block_ok (bsz ump) (ess ! k)" using content_block [OF c k(1)] by simp
  then have de: "dent_ok e" and tot: "dents_len es1 + unat (dn_reclen e) + dents_len es2 = bsz ump"
    using k(2) by (auto simp: block_ok_def)
  have "int (dents_len es1) + int (unat (dn_reclen e)) \<le> int (bsz ump)" using tot by linarith
  then have e: "off + uint (dn_reclen e) \<le> int (length ess * bsz ump)"
    using block_end [OF k(1), of ump] unfolding o by simp
  have pos: "0 < uint (dn_reclen e)" using dent_ok_pos(1) [OF de] by linarith
  have o0: "0 \<le> off" "off < int (length ess * bsz ump)" using o e pos by simp_all
  have lt: "(word_of_int off :: u64) < i_size dp" using content_size(2) [OF c o0(1)] o0(2) by simp
  have "int (length ess * bsz ump) < int (2 ^ 31)" using c unfolding dir_content_def of_nat_less_iff by blast
  then have ov: "\<not> off + uint (dn_reclen e) > 0x7fffffffffffffff" using e by simp
  note f = e2d_fields [of 0 "[]" "dent_bytes (dent_head e)" "dent_head e" "[]", simplified]
  have nm: "e2d_name (dent_bytes (dent_head e)) 0 2 = Ret (take 2 (take 4 (dn_rest e)))"
    using f(5) [of 2] dent_ok_rest [OF de] by simp
  have len: "length (dent_bytes (dent_head e)) = 12" using dent_ok_rest [OF de] by (simp add: dent_bytes_def)
  have rd: "ext2_meta_read ump dp off 12 = Ret (0, dent_bytes (dent_head e))"
    unfolding o by (rule read_head [OF c k])
  show ?thesis unfolding removable_test [OF de] using lt ov dent_ok_pos(2) [OF de]
    by (subst dirempty_loop.simps) (simp add: rd MINDIRSIZ_def len f nm del: bnd_Ret_iff)
qed

lemma dirempty_rest:
  assumes c: "dir_content backed dirchk ump dp a ess" and k: "k < length ess" "ess ! k = es1 @ es2"
    and o: "off = int k * int (bsz ump) + int (dents_len es1)"
  shows "dirempty_loop ump dp parentino off =
    (if \<forall>e \<in> set es2. removable parentino e then dirempty_loop ump dp parentino (int (Suc k) * int (bsz ump)) else Ret False)"
  using k(2) o
proof (induction es2 arbitrary: es1 off)
  case Nil
  then show ?case using content_block [OF c k(1)] by (simp add: block_ok_def algebra_simps)
next
  case (Cons e es2)
  from Cons.IH [of "es1 @ [e]" "off + uint (dn_reclen e)"] Cons.prems dirempty_entry [OF c k(1) Cons.prems] show ?case by simp
qed

lemma dirempty_blocks:
  assumes c: "dir_content backed dirchk ump dp a ess" and k: "k \<le> length ess"
  shows "dirempty_loop ump dp parentino (int k * int (bsz ump)) = Ret (\<forall>e \<in> set (concat (drop k ess)). removable parentino e)"
  using k
proof (induction "length ess - k" arbitrary: k)
  case 0
  then have "k = length ess" by simp
  then show ?case using content_size(2) [OF c, of "int k * int (bsz ump)"] by (subst dirempty_loop.simps) simp
next
  case (Suc x)
  then have k: "k < length ess" by simp
  then have "drop k ess = ess ! k # drop (Suc k) ess" by (simp add: Cons_nth_drop_Suc)
  then show ?case using dirempty_rest [OF c k, of "[]" "ess ! k" "int k * int (bsz ump)"] Suc.hyps(1) [of "Suc k"] Suc.hyps(2) k
    by (auto simp del: of_nat_Suc)
qed

end


section \<open>The walk to the root\<close>

text \<open>
  The first entry of a directory is twelve bytes long, and the second one is \<^verbatim>\<open>..\<close> with the file type of a directory.
\<close>

definition starts_with_dots :: "dent list list \<Rightarrow> u8 \<Rightarrow> u32 \<Rightarrow> bool" where
  "starts_with_dots ess ty p \<longleftrightarrow> (\<exists>e1 e2 es r. ess = (e1 # e2 # es) # r \<and> dn_reclen e1 = 12 \<and> dent_name e2 = [0x2E, 0x2E] \<and> dn_type e2 = ty \<and> dn_ino e2 = p)"

text \<open>The numbers of the directories above one, up to the root.\<close>

fun lineage :: "backing \<Rightarrow> bool \<Rightarrow> (u32 \<Rightarrow> errno + inode) \<Rightarrow> ext2mount \<Rightarrow> inode \<Rightarrow> u32 list \<Rightarrow> bool" where
  "lineage backed dirchk vget ump vp [] \<longleftrightarrow> False"
| "lineage backed dirchk vget ump vp (p # ps) \<longleftrightarrow>
     i_mode vp AND IFMT = IFDIR \<and> (\<exists>a ess. dir_content backed dirchk ump vp a ess \<and> starts_with_dots ess 2 p) \<and>
     (if p = EXT2_ROOTINO then ps = [] else \<exists>up. vget p = Inr up \<and> lineage backed dirchk vget ump up ps)"

lemma dots_name:
  assumes "dent_ok e" "dent_name e = [0x2E, 0x2E]" shows "take 2 (take 4 (dn_rest e)) = [0x2E, 0x2E]"
proof -
  obtain x y z where r: "dn_rest e = x # y # z" using dent_ok_rest [OF assms(1)] by (cases "dn_rest e"; cases "tl (dn_rest e)") auto
  have "length (dent_name e) = unat (dn_namlen e)"
    using dent_ok_pos(3) [OF assms(1)] assms(1) by (auto simp: dent_name_def dent_ok_def)
  then have "unat (dn_namlen e) = 2" using assms(2) by simp
  then show ?thesis using assms(2) r by (simp add: dent_name_def)
qed

lemma head_bytes_nth:
  assumes "dent_ok e" "take 2 (take 4 (dn_rest e)) = [x, y]" "length A = 12"
  shows "(A @ dent_bytes (dent_head e)) ! 19 = dn_type e" "(A @ dent_bytes (dent_head e)) ! 20 = x" "(A @ dent_bytes (dent_head e)) ! 21 = y"
    "take 4 (drop 12 (A @ dent_bytes (dent_head e))) = bytes_of (dn_ino e)"
proof -
  have n: "dn_rest e ! 0 = x" "dn_rest e ! 1 = y"
    using assms(2) dent_ok_rest [OF assms(1)] by (cases "dn_rest e"; cases "tl (dn_rest e)"; simp)+
  show "(A @ dent_bytes (dent_head e)) ! 19 = dn_type e" "(A @ dent_bytes (dent_head e)) ! 20 = x" "(A @ dent_bytes (dent_head e)) ! 21 = y"
    "take 4 (drop 12 (A @ dent_bytes (dent_head e))) = bytes_of (dn_ino e)"
    using n assms(3) dent_ok_rest [OF assms(1)] by (simp_all add: dent_bytes_def bytes_of_def bytes16_def nth_append)
qed

context dir_blocks
begin

lemma read_dots:
  assumes c: "dir_content backed dirchk ump dp a ess" and s: "starts_with_dots ess ty p"
  shows "\<exists>d. ext2_meta_read ump dp 0 24 = Ret (0, d) \<and> length d = 24 \<and> d ! 19 = ty \<and> d ! 20 = 0x2E \<and> d ! 21 = 0x2E \<and>
    le32 (take 4 (drop 12 d)) = p"
proof -
  obtain e1 e2 es r where e: "ess = (e1 # e2 # es) # r" "dn_reclen e1 = 12" "dent_name e2 = [0x2E, 0x2E]" "dn_type e2 = ty" "dn_ino e2 = p"
    using s unfolding starts_with_dots_def by blast
  have k: "0 < length ess" "ess ! 0 = e1 # e2 # es" using e(1) by simp_all
  have "block_ok (bsz ump) (ess ! 0)" using content_block [OF c k(1)] by simp
  then have de: "dent_ok e1" "dent_ok e2" using k(2) by (simp_all add: block_ok_def)
  have B: "0 + int 24 \<le> int (bsz ump)" using bsz_bounds(1) [OF content_geom [OF c]] by simp
  have l: "length (dent_bytes e1) = 12" using dent_bytes_length [OF de(1)] e(2) by simp
  let ?d = "dent_bytes e1 @ dent_bytes (dent_head e2)"
  have "take 24 (block_of (ess ! 0)) = ?d" using k(2) l dent_head_bytes [OF de(2), of "block_of es"] by simp
  then have "ext2_meta_read ump dp 0 24 = Ret (0, ?d)" using meta_read_block [OF c k(1) order_refl _ B] by simp
  moreover have "length ?d = 24" using l dent_ok_rest [OF de(2)] by (simp add: dent_bytes_def)
  moreover note head_bytes_nth [OF de(2) dots_name [OF de(2) e(3)] l, unfolded e(4,5)]
  moreover have "le32 (take 4 (drop 12 ?d)) = p" unfolding head_bytes_nth(4) [OF de(2) dots_name [OF de(2) e(3)] l] e(5) by simp
  ultimately show ?thesis by blast
qed

lemma checkpath_walk:
  "lineage backed dirchk vget ump vp ps \<Longrightarrow> checkpath_loop vget ump source vp = Some (Ret (if source \<in> set ps then EINVAL else 0))"
proof (induction ps arbitrary: vp)
  case (Cons p ps)
  then obtain a ess where d: "i_mode vp AND IFMT = IFDIR" "dir_content backed dirchk ump vp a ess" "starts_with_dots ess 2 p" by auto
  from read_dots [OF d(2,3)] obtain bs where r: "ext2_meta_read ump vp 0 24 = Ret (0, bs)" "length bs = 24" "bs ! 19 = 2" "bs ! 20 = 0x2E" "bs ! 21 = 0x2E"
    "le32 (take 4 (drop 12 bs)) = p" by blast
  show ?case
  proof (cases "p = source \<or> p = EXT2_ROOTINO")
    case True
    then show ?thesis using d(1) r Cons.prems by (subst checkpath_loop.simps) (auto simp: Let_def)
  next
    case False
    then obtain up where u: "vget p = Inr up" "lineage backed dirchk vget ump up ps" using Cons.prems by auto
    show ?thesis using d(1) r False Cons.IH [OF u(2)] u(1) by (subst checkpath_loop.simps) (auto simp: Let_def)
  qed
qed simp

lemma checkpath_untyped:
  assumes "i_mode vp AND IFMT = IFDIR" "dir_content backed dirchk ump vp a ess" "starts_with_dots ess ty p" "ty \<noteq> 2"
  shows "checkpath_loop vget ump source vp = Some (Ret ENOTDIR)"
proof -
  from read_dots [OF assms(2,3)] obtain bs where "ext2_meta_read ump vp 0 24 = Ret (0, bs)" "length bs = 24" "bs ! 19 = ty" by blast
  then show ?thesis using assms(1,4) by (subst checkpath_loop.simps) simp
qed

end


section \<open>\<^verbatim>\<open>ext2_readdir\<close>\<close>

text \<open>What the caller gets of an entry, and the reference for a request: entries are taken as long as there is room.\<close>

definition dirent_of :: "dent \<Rightarrow> dirent" where
  "dirent_of e = \<lparr>d_ino = dn_ino e, d_reclen = EXT2_DIRENT_RECLEN (uint (dn_namlen e)), d_type = FTTODT (dn_type e),
     d_namlen = dn_namlen e, d_name = dent_name e\<rparr>"

definition dirents :: "dent list \<Rightarrow> dirent list" where "dirents es = map dirent_of (filter live es)"

fun fill :: "int \<Rightarrow> int \<Rightarrow> dent list \<Rightarrow> errno \<times> dent list \<times> int" where
  "fill startresid resid [] = (0, [], resid)"
| "fill startresid resid (e # es) =
     (if resid \<le> 0 then (0, [], resid)
      else if live e \<and> uint (d_reclen (dirent_of e)) > resid then (if resid = startresid then EINVAL else EJUSTRETURN, [], resid)
      else let (error, t, resid) = fill startresid (if live e then resid - uint (d_reclen (dirent_of e)) else resid) es in (error, e # t, resid))"

lemma dirents_simps [simp]:
  "dirents [] = []" "dirents (e # es) = (if live e then [dirent_of e] else []) @ dirents es" "dirents (es @ fs) = dirents es @ dirents fs"
  by (simp_all add: dirents_def)

lemma fill_append:
  "fill sr resid (xs @ ys) = (let (error, t, r) = fill sr resid xs in
     if error \<noteq> 0 \<or> r \<le> 0 then (error, t, r) else let (error, t', r) = fill sr r ys in (error, t @ t', r))"
proof (induction xs arbitrary: resid)
  case Nil
  then show ?case by (cases ys) (auto simp: Let_def split: prod.split)
qed (auto simp: Let_def EINVAL_def EJUSTRETURN_def split: prod.splits)

text \<open>What is taken is a first part of the entries; all of them when there is no error and room is left.\<close>

lemma fill_prefix:
  "fill sr resid es = (error, t, r) \<Longrightarrow> \<exists>rs. es = t @ rs \<and> (error = 0 \<and> 0 < r \<longrightarrow> rs = []) \<and> error \<in> {0, EINVAL, EJUSTRETURN}"
proof (induction es arbitrary: resid error t r)
  case (Cons e es)
  let ?r = "if live e then resid - uint (d_reclen (dirent_of e)) else resid"
  obtain er t' r' where f: "fill sr ?r es = (er, t', r')" by (cases "fill sr ?r es") auto
  from Cons.IH [OF f] Cons.prems f show ?case by (auto simp: EINVAL_def EJUSTRETURN_def Let_def split: if_splits)
qed simp

lemma dirent_size: "uint (d_reclen (dirent_of e)) \<le> 268" "0 < uint (d_reclen (dirent_of e))"
proof -
  have n: "0 \<le> uint (dn_namlen e)" "uint (dn_namlen e) < 256" using uint_bounded [of "dn_namlen e"] by simp_all
  have "(8 + uint (dn_namlen e) + 1 + 3) AND NOT 3 = (uint (dn_namlen e) + 12) div 4 * 4"
    using and_not_pow [of "8 + uint (dn_namlen e) + 1 + 3" 2] by simp
  moreover have "0 < (uint (dn_namlen e) + 12) div 4 * 4 \<and> (uint (dn_namlen e) + 12) div 4 * 4 \<le> 268" using n by linarith
  moreover have "0 < x \<and> x \<le> 268 \<Longrightarrow> uint (word_of_int x :: u16) = x" for x
    by (simp add: unsigned_of_int take_bit_int_eq_self)
  ultimately have "uint (d_reclen (dirent_of e)) = (uint (dn_namlen e) + 12) div 4 * 4 \<and> 0 < uint (d_reclen (dirent_of e)) \<and> uint (d_reclen (dirent_of e)) \<le> 268"
    unfolding dirent_of_def EXT2_DIRENT_RECLEN_def dirent.simps by presburger
  then show "uint (d_reclen (dirent_of e)) \<le> 268" "0 < uint (d_reclen (dirent_of e))" by blast+
qed

text \<open>With room for the longest entry at the start there is progress and \<^const>\<open>EINVAL\<close> is not returned.\<close>

lemma fill_progress:
  assumes "268 \<le> sr" shows "fill sr resid es = (error, t, r) \<Longrightarrow> resid \<le> sr \<Longrightarrow> error \<noteq> EINVAL \<and> (resid = sr \<and> dirents es \<noteq> [] \<longrightarrow> dirents t \<noteq> [])"
proof (induction es arbitrary: resid error t r)
  case (Cons e es)
  let ?r = "if live e then resid - uint (d_reclen (dirent_of e)) else resid"
  obtain er t' r' where f: "fill sr ?r es = (er, t', r')" by (cases "fill sr ?r es") auto
  from Cons.IH [OF f] Cons.prems f assms dirent_size [of e] show ?case by (auto simp: EINVAL_def EJUSTRETURN_def Let_def split: if_splits)
qed (simp add: EINVAL_def)

context dir_blocks
begin

lemma readdir_entry:
  assumes c: "dir_content backed dirchk ump dp a ess" and k: "k < length ess" "ess ! k = es1 @ e # es2" and r: "0 < resid"
  shows "readdir_block (\<lambda>_. 0) (block_of (ess ! k)) (int (bsz ump)) start sr (int (dents_len es1)) off resid out =
    (if off < start \<or> \<not> live e
     then readdir_block (\<lambda>_. 0) (block_of (ess ! k)) (int (bsz ump)) start sr (int (dents_len (es1 @ [e]))) (off + uint (dn_reclen e)) resid out
     else if uint (d_reclen (dirent_of e)) > resid then Ret (if resid = sr then EINVAL else EJUSTRETURN, off, resid, out)
     else readdir_block (\<lambda>_. 0) (block_of (ess ! k)) (int (bsz ump)) start sr (int (dents_len (es1 @ [e]))) (off + uint (dn_reclen e))
       (resid - uint (d_reclen (dirent_of e))) (out @ [dirent_of e]))"
proof -
  have ok: "block_ok (bsz ump) (ess ! k)" using content_block [OF c k(1)] by simp
  then have de: "dent_ok e" "\<forall>x \<in> set es1. dent_ok x" and tot: "dents_len es1 + unat (dn_reclen e) + dents_len es2 = bsz ump"
    using k(2) by (auto simp: block_ok_def)
  have "int (dents_len es1) + int (unat (dn_reclen e)) \<le> int (bsz ump)" using tot by linarith
  then have fit: "int (dents_len es1) + uint (dn_reclen e) \<le> int (bsz ump)" by simp
  have p: "8 + uint (dn_namlen e) \<le> uint (dn_reclen e)"
  proof -
    have "int (8 + unat (dn_namlen e)) \<le> int (unat (dn_reclen e))" using dent_ok_pos(3) [OF de(1)] by (simp only: of_nat_le_iff)
    then show ?thesis by simp
  qed
  have n0: "0 \<le> uint (dn_namlen e)" by simp
  have pos: "int (dents_len es1) < int (bsz ump)" using fit p n0 by linarith
  have b1: "block_of (ess ! k) = block_of es1 @ dent_bytes e @ block_of es2" "int (dents_len es1) = int (length (block_of es1))"
    using k(2) block_of_length [OF de(2)] by simp_all
  note f = e2d_fields [OF b1(2,1)]
  have nl: "unat (dn_namlen e) \<le> length (dn_rest e)" using dent_ok_pos(3) [OF de(1)] de(1) by (simp add: dent_ok_def)
  have nm: "e2d_name (block_of (ess ! k)) (int (dents_len es1)) (unat (dn_namlen e)) = Ret (dent_name e)"
    using f(5) [OF nl] by (simp add: dent_name_def)
  have g: "\<not> uint (dn_reclen e) \<le> 6" "\<not> int (dents_len es1) + uint (dn_reclen e) > int (bsz ump)" "\<not> 6 + uint (dn_namlen e) > uint (dn_reclen e)"
    using p n0 fit by linarith+
  show ?thesis using r pos g
    by (subst readdir_block.simps) (simp add: f(1-4) nm live_def Let_def dirent_of_def del: bnd_Ret_iff)
qed

lemma readdir_skip:
  assumes c: "dir_content backed dirchk ump dp a ess" and k: "k < length ess" and r: "0 < resid" and st: "start = base + int (dents_len (es0 @ es1))"
  shows "ess ! k = es0 @ es1 @ es2 \<Longrightarrow>
    readdir_block (\<lambda>_. 0) (block_of (ess ! k)) (int (bsz ump)) start sr (int (dents_len es0)) (base + int (dents_len es0)) resid out =
    readdir_block (\<lambda>_. 0) (block_of (ess ! k)) (int (bsz ump)) start sr (int (dents_len (es0 @ es1))) start resid out"
  using st
proof (induction es1 arbitrary: es0)
  case (Cons e es1)
  have "dent_ok e" using content_block [OF c k] Cons.prems(1) by (simp add: block_ok_def)
  from dent_ok_pos(1) [OF this] have "base + int (dents_len es0) < start" using Cons.prems(2) by simp
  moreover from Cons.IH [of "es0 @ [e]"] Cons.prems
  have "readdir_block (\<lambda>_. 0) (block_of (ess ! k)) (int (bsz ump)) start sr (int (dents_len (es0 @ [e]))) (base + int (dents_len (es0 @ [e]))) resid out =
      readdir_block (\<lambda>_. 0) (block_of (ess ! k)) (int (bsz ump)) start sr (int (dents_len (es0 @ e # es1))) start resid out" by simp
  ultimately show ?case using readdir_entry [OF c k Cons.prems(1) [unfolded append_Cons] r, of start sr "base + int (dents_len es0)" out]
    by (simp add: algebra_simps)
qed simp

lemma readdir_fill:
  assumes c: "dir_content backed dirchk ump dp a ess" and k: "k < length ess"
  shows "ess ! k = es1 @ es2 \<Longrightarrow> start \<le> base + int (dents_len es1) \<Longrightarrow>
    readdir_block (\<lambda>_. 0) (block_of (ess ! k)) (int (bsz ump)) start sr (int (dents_len es1)) (base + int (dents_len es1)) resid out =
    (let (error, t, resid') = fill sr resid es2 in Ret (error, base + int (dents_len (es1 @ t)), resid', out @ dirents t))"
proof (induction es2 arbitrary: es1 resid out)
  case Nil
  then have "dents_len es1 = bsz ump" using content_block [OF c k] by (simp add: block_ok_def)
  then show ?case by (subst readdir_block.simps) simp
next
  case (Cons e es2)
  show ?case
  proof (cases "0 < resid")
    case True
    let ?r = "if live e then resid - uint (d_reclen (dirent_of e)) else resid"
    have le: "dents_len es1 \<le> dents_len (es1 @ [e])" by simp
    have s: "ess ! k = (es1 @ [e]) @ es2" using Cons.prems(1) by simp
    have s2: "start \<le> base + int (dents_len (es1 @ [e]))" using Cons.prems(2) le by linarith
    obtain er t r' where f: "fill sr ?r es2 = (er, t, r')" by (cases "fill sr ?r es2") auto
    have "readdir_block (\<lambda>_. 0) (block_of (ess ! k)) (int (bsz ump)) start sr (int (dents_len (es1 @ [e]))) (base + int (dents_len es1) + uint (dn_reclen e)) ?r
        (if live e then out @ [dirent_of e] else out) =
      Ret (er, base + int (dents_len (es1 @ e # t)), r', out @ dirents (e # t))"
      using Cons.IH [OF s s2, of ?r "if live e then out @ [dirent_of e] else out"] f by (simp add: algebra_simps)
    then show ?thesis using f True Cons.prems(2)
      by (subst readdir_entry [OF c k Cons.prems(1) True]) (auto simp: Let_def not_less split: if_splits)
  qed (subst readdir_block.simps, simp)
qed

text \<open>The whole request, from the entries \<open>es2\<close> of block \<open>k\<close> on.\<close>

lemma readdir_start:
  assumes c: "dir_content backed dirchk ump dp a ess" and k: "k < length ess" "ess ! k = es1 @ es2" and r: "0 < resid" "es2 \<noteq> []"
    and s: "uoff = int k * int (bsz ump) + int (dents_len es1)" "start \<le> uoff" "es1 \<noteq> [] \<Longrightarrow> start = uoff"
  shows "readdir_loop (\<lambda>_. 0) ump dp start sr uoff resid out =
    (let (error, t, resid') = fill sr resid es2; off = uoff + int (dents_len t) in
      if error \<noteq> 0 then Some (Ret (error, off, resid', out @ dirents t))
      else readdir_loop (\<lambda>_. 0) ump dp start sr off resid' (out @ dirents t))"
proof -
  let ?B = "int (bsz ump)"
  note geo = content_geom [OF c]
  have ok: "block_ok (bsz ump) (ess ! k)" using content_block [OF c k(1)] by simp
  obtain e es where e: "es2 = e # es" using r(2) by (cases es2) auto
  have "dent_ok e" using ok k(2) e by (simp add: block_ok_def)
  from dent_ok_pos(2) [OF this] have "0 < unat (dn_reclen e)" by (simp add: unat_gt_0)
  then have "dents_len es1 < bsz ump" using ok k(2) e by (simp add: block_ok_def)
  then have lt: "0 \<le> int (dents_len es1)" "int (dents_len es1) < ?B" by simp_all
  have be: "int k * ?B + ?B \<le> int (length ess * bsz ump)" by (rule block_end [OF k(1)])
  have u: "0 \<le> uoff" "uoff < int (length ess * bsz ump)" using s(1) lt be by simp_all
  have in_file: "(word_of_int uoff :: u64) < i_size dp" using content_size(2) [OF c u(1)] u(2) by simp
  have len: "int (length (block_of (ess ! k))) = ?B" using ok block_of_length [of "ess ! k"] by (simp add: block_ok_def)
  have lb: "lblkno (um_e2fs ump) uoff = int k" unfolding dirblk_masks(4) [OF geo] s(1) using lt by simp
  have sk: "(uoff - int k * ?B) AND NOT (?B - 1) = 0"
    using dirblk_masks(2) [OF geo, of "int (dents_len es1)"] lt unfolding DIRBLKSIZ_bsz [OF geo] s(1) by simp
  have cnt: "\<not> (word_of_int (int k * ?B + ?B) :: u64) > i_size dp" using content_size(3) [OF c _ be] by (simp add: not_less)
  have rd: "ext2_blkatoff ump dp uoff = Ret (Inr (a k, block_of (ess ! k), int (dents_len es1)))"
    unfolding s(1) by (rule content_read [OF c k(1) lt])
  have skip: "readdir_block (\<lambda>_. 0) (block_of (ess ! k)) ?B start sr 0 (int k * ?B) resid out =
      readdir_block (\<lambda>_. 0) (block_of (ess ! k)) ?B start sr (int (dents_len es1)) uoff resid out"
  proof (cases "es1 = []")
    case False
    have "start = int k * ?B + int (dents_len ([] @ es1))" using s(1) s(3) [OF False] by simp
    from readdir_skip [OF c k(1) r(1) this, of es2 sr out] k(2) s(3) [OF False] show ?thesis by simp
  qed (use s(1) in simp)
  have blk: "readdir_block (\<lambda>_. 0) (block_of (ess ! k)) ?B start sr 0 (int k * ?B) resid out =
     (let (error, t, resid') = fill sr resid es2 in Ret (error, uoff + int (dents_len t), resid', out @ dirents t))"
    unfolding skip using readdir_fill [OF c k, of start "int k * ?B" sr resid out] s(1,2) by (simp add: algebra_simps)
  obtain er t r' where f: "fill sr resid es2 = (er, t, r')" by (cases "fill sr resid es2") auto
  show ?thesis using r(1) in_file cnt blk f
    by (subst readdir_loop.simps) (simp add: rd lb sk len DIRBLKSIZ_bsz [OF geo] Let_def del: of_int_add of_int_mult)
qed

lemma fill_none: "r \<le> 0 \<Longrightarrow> fill sr r es = (0, [], r)"
  by (cases es) simp_all

lemma readdir_done: "resid \<le> 0 \<Longrightarrow> readdir_loop umove ump dp start sr off resid out = Some (Ret (0, off, resid, out))"
  by (subst readdir_loop.simps) simp

lemma readdir_blocks:
  assumes c: "dir_content backed dirchk ump dp a ess"
  shows "k \<le> length ess \<Longrightarrow> start \<le> int k * int (bsz ump) \<Longrightarrow>
    readdir_loop (\<lambda>_. 0) ump dp start sr (int k * int (bsz ump)) resid out =
    (let (error, t, r) = fill sr resid (concat (drop k ess)) in Some (Ret (error, int k * int (bsz ump) + int (dents_len t), r, out @ dirents t)))"
proof (induction "length ess - k" arbitrary: k resid out)
  case 0
  then have "k = length ess" by simp
  then show ?case using content_size(2) [OF c, of "int k * int (bsz ump)"] by (subst readdir_loop.simps) simp
next
  case (Suc x)
  then have k: "k < length ess" by simp
  then have d: "concat (drop k ess) = ess ! k @ concat (drop (Suc k) ess)" by (simp flip: Cons_nth_drop_Suc)
  have bl: "dents_len (ess ! k) = bsz ump" using content_block [OF c k] by (simp add: block_ok_def)
  then have ne: "ess ! k \<noteq> []" using bsz_bounds(1) [OF content_geom [OF c]] by auto
  have nx: "int (Suc k) * int (bsz ump) = int k * int (bsz ump) + int (dents_len (ess ! k))" unfolding bl by (simp add: algebra_simps)
  have st: "start \<le> int (Suc k) * int (bsz ump)" using Suc.prems(2) unfolding nx by linarith
  have sk: "Suc k \<le> length ess" using k by simp
  have x: "x = length ess - Suc k" using Suc.hyps(2) by simp
  show ?case
  proof (cases "0 < resid")
    case True
    obtain er t r where f: "fill sr resid (ess ! k) = (er, t, r)" by (cases "fill sr resid (ess ! k)") auto
    note s = readdir_start [OF c k _ True ne, of "[]" "int k * int (bsz ump)" start sr out, simplified, OF Suc.prems(2), unfolded f Let_def prod.case]
    show ?thesis
    proof (cases "er = 0 \<and> 0 < r")
      case True
      then have "t = ess ! k" using fill_prefix [OF f] by auto
      with s True Suc.hyps(1) [OF x sk st, of r "out @ dirents t"] f show ?thesis
        unfolding d fill_append nx by (auto split: prod.split)
    next
      case False
      then show ?thesis unfolding s d fill_append f by (auto simp: readdir_done)
    qed
  qed (simp add: fill_none readdir_done)
qed

lemma readdir_request:
  assumes c: "dir_content backed dirchk ump dp a ess" and k: "k < length ess" "ess ! k = es1 @ es2" "es2 \<noteq> []" and r: "0 < resid"
    and o: "off = int k * int (bsz ump) + int (dents_len es1)"
  shows "readdir_loop (\<lambda>_. 0) ump dp off sr off resid out =
    (let (error, t, r) = fill sr resid (es2 @ concat (drop (Suc k) ess)) in Some (Ret (error, off + int (dents_len t), r, out @ dirents t)))"
proof -
  obtain er t r where f: "fill sr resid es2 = (er, t, r)" by (cases "fill sr resid es2") auto
  note s = readdir_start [OF c k(1,2) r k(3) o order_refl refl, of sr out, unfolded f Let_def prod.case]
  show ?thesis
  proof (cases "er = 0 \<and> 0 < r")
    case True
    then have t: "t = es2" using fill_prefix [OF f] by auto
    have "dents_len es1 + dents_len es2 = bsz ump" using content_block [OF c k(1)] k(2) by (simp add: block_ok_def)
    then have "int (dents_len es1) + int (dents_len es2) = int (bsz ump)" by linarith
    then have e: "off + int (dents_len es2) = int (Suc k) * int (bsz ump)" unfolding o by (simp add: algebra_simps)
    have "off \<le> int (Suc k) * int (bsz ump)" "Suc k \<le> length ess" using e k(1) by linarith+
    from readdir_blocks [OF c this(2,1), of sr r "out @ dirents t"] s True f t show ?thesis
      unfolding fill_append e by (auto simp: e [symmetric] simp del: of_nat_Suc split: prod.split)
  next
    case False
    then show ?thesis unfolding s fill_append f by (auto simp: readdir_done)
  qed
qed

text \<open>The request with room for the longest entry.\<close>

lemma readdir_takes:
  assumes c: "dir_content backed dirchk ump dp a ess" and k: "k < length ess" "ess ! k = es1 @ es2" "es2 \<noteq> []" and r: "268 \<le> resid"
    and o: "off = int k * int (bsz ump) + int (dents_len es1)"
  shows "\<exists>t rs. es2 @ concat (drop (Suc k) ess) = t @ rs \<and>
    ext2_readdir (\<lambda>_. 0) False ump dp off resid = Some (Ret (0, dirents t, off + int (dents_len t), rs = [])) \<and>
    (dirents (es2 @ concat (drop (Suc k) ess)) \<noteq> [] \<longrightarrow> dirents t \<noteq> [])"
proof -
  let ?es = "es2 @ concat (drop (Suc k) ess)"
  obtain er t r' where f: "fill resid resid ?es = (er, t, r')" by (cases "fill resid resid ?es") auto
  obtain rs where p: "?es = t @ rs" "er \<in> {0, EINVAL, EJUSTRETURN}" using fill_prefix [OF f] by blast
  have g: "er \<noteq> EINVAL" "dirents ?es \<noteq> [] \<longrightarrow> dirents t \<noteq> []" using fill_progress [OF r f] by auto
  have "concat ess = concat (take k ess) @ es1 @ t @ rs"
    using id_take_nth_drop [OF k(1)] k(2) p(1) by (metis append.assoc concat.simps(2) concat_append)
  moreover have "dents_len (concat xs) = length xs * bsz ump" if "set xs \<subseteq> set ess" for xs
    using that content_blocks_ok [OF c] by (induction xs) (auto simp: block_ok_def)
  ultimately have tot: "length ess * bsz ump = k * bsz ump + dents_len es1 + dents_len t + dents_len rs"
    using k(1) by (metis (no_types, lifting) add.assoc dents_len_simps(3) dual_order.refl length_take less_imp_le min.absorb2 set_take_subset)
  have okr: "\<forall>x \<in> set rs. dent_ok x"
  proof -
    have "set rs \<subseteq> set (concat ess)" using \<open>concat ess = concat (take k ess) @ es1 @ t @ rs\<close> by auto
    then show ?thesis using content_blocks_ok [OF c] by (auto simp: block_ok_def)
  qed
  have rs0: "rs = [] \<longleftrightarrow> dents_len rs = 0"
    using okr by (cases rs) (auto dest: dent_ok_pos(2) simp: unat_gt_0 unat_eq_0)
  let ?off = "off + int (dents_len t)"
  have "int (length ess * bsz ump) = int k * int (bsz ump) + int (dents_len es1) + int (dents_len t) + int (dents_len rs)"
    unfolding tot by simp
  then have le: "0 \<le> ?off" "?off + int (dents_len rs) = int (length ess * bsz ump)" unfolding o by simp_all
  have le3: "?off \<le> int (length ess * bsz ump)" using le(2) by linarith
  have sz: "i_size dp \<le> word_of_int ?off \<longleftrightarrow> \<not> ?off < int (length ess * bsz ump)"
    unfolding content_size(2) [OF c le(1) le3, symmetric] not_less ..
  have eof: "i_size dp \<le> word_of_int ?off \<longleftrightarrow> rs = []" unfolding sz rs0 using le(2) by linarith
  have o0: "\<not> off < 0" unfolding o not_less by simp
  have rl: "readdir_loop (\<lambda>_. 0) ump dp off resid off resid [] = Some (Ret (er, ?off, r', dirents t))"
    using readdir_request [OF c k _ o, of resid resid "[]"] r f by simp
  have "er = EJUSTRETURN \<or> er = 0" using p(2) g(1) by blast
  then have "(if er = EJUSTRETURN then 0 else er) = 0" by auto
  then have "ext2_readdir (\<lambda>_. 0) False ump dp off resid = Some (Ret (0, dirents t, ?off, rs = []))"
    unfolding ext2_readdir_def rl using o0 eof by (simp add: Let_def)
  then show ?thesis using p(1) g(2) by blast
qed

end

end
