(* ===== verification/Ext2_DirSlot.thy ===== *)
theory Ext2_DirSlot
  imports Ext2_DirOps
begin

text \<open>
  Where a new name goes. The specification is on the lists of entries alone: the first entry with room enough; without one, the
  first block whose free space is enough, from its first entry with free space to the entry where the sum reaches what is needed; without
  such a block, the end of the directory. The search of a name to be created is shown to leave exactly that in the inode of the
  directory, and \<^const>\<open>ext2_direnter\<close> to build the block of a directory that has to grow.
\<close>

section \<open>First fit\<close>

text \<open>The entries before a place: those of the blocks before \<open>k\<close> and the entries \<open>d\<close> of block \<open>k\<close>.\<close>

definition small_before :: "dent list list \<Rightarrow> int \<Rightarrow> nat \<Rightarrow> dent list \<Rightarrow> bool" where
  "small_before ess needed k d \<longleftrightarrow> (\<forall>j < k. \<forall>f \<in> set (ess ! j). slack f < needed) \<and> (\<forall>f \<in> set d. slack f < needed)"

definition room_first :: "nat \<Rightarrow> dent list list \<Rightarrow> int \<Rightarrow> int \<Rightarrow> int \<Rightarrow> bool" where
  "room_first B ess needed off sz \<longleftrightarrow> (\<exists>k d e r. k < length ess \<and> ess ! k = d @ e # r \<and> small_before ess needed k d \<and> needed \<le> slack e \<and>
     off = int k * int B + int (dents_len d) \<and> sz = uint (dn_reclen e))"

definition run_first :: "nat \<Rightarrow> dent list list \<Rightarrow> int \<Rightarrow> int \<Rightarrow> int \<Rightarrow> bool" where
  "run_first B ess needed off sz \<longleftrightarrow> (\<exists>k d run r. k < length ess \<and> ess ! k = d @ run @ r \<and> run \<noteq> [] \<and> (\<forall>j < k. slacks (ess ! j) < needed) \<and>
     (\<forall>f \<in> set d. slack f = 0) \<and> 0 < slack (hd run) \<and> slacks (butlast run) < needed \<and> needed \<le> slacks run \<and>
     off = int k * int B + int (dents_len d) \<and> sz = int (dents_len run))"

text \<open>The end of the last entry in use.\<close>

definition useful_to :: "nat \<Rightarrow> dent list list \<Rightarrow> int \<Rightarrow> bool" where
  "useful_to B ess x \<longleftrightarrow> (if \<exists>e \<in> set (concat ess). live e
     then \<exists>k d e r. k < length ess \<and> ess ! k = d @ e # r \<and> live e \<and> (\<forall>f \<in> set r \<union> set (concat (drop (Suc k) ess)). \<not> live f) \<and>
       x = int k * int B + int (dents_len (d @ [e]))
     else x = 0)"

lemma slack_nonneg: "dent_ok e \<Longrightarrow> 0 \<le> slack e"
  by (simp add: slack_def dent_ok_def)

lemma slacks_nonneg: "\<forall>e \<in> set es. dent_ok e \<Longrightarrow> 0 \<le> slacks es"
  by (induction es) (simp_all add: slack_nonneg add_nonneg_nonneg)

lemma slack_le_slacks: "\<forall>e \<in> set es. dent_ok e \<Longrightarrow> f \<in> set es \<Longrightarrow> slack f \<le> slacks es"
proof (induction es)
  case (Cons e es)
  have "0 \<le> slacks es" "0 \<le> slack e" using Cons.prems(1) by (simp_all add: slack_nonneg slacks_nonneg)
  then show ?case using Cons by fastforce
qed simp

lemma slacks_zero: "\<forall>f \<in> set d. slack f = 0 \<Longrightarrow> slacks d = 0"
  by (induction d) simp_all

section \<open>The search keeps to it\<close>

text \<open>\<open>fit_inv\<close> after the blocks before \<open>k\<close> and the entries \<open>d\<close> of block \<open>k\<close>.\<close>

definition fit_inv :: "nat \<Rightarrow> dent list list \<Rightarrow> int \<Rightarrow> nat \<Rightarrow> dent list \<Rightarrow> scan \<Rightarrow> bool" where
  "fit_inv B ess needed k d s \<longleftrightarrow> (case sc_status s of
      FOUND \<Rightarrow> room_first B ess needed (sc_slotoffset s) (sc_slotsize s)
    | COMPACT \<Rightarrow> small_before ess needed k d \<and> run_first B ess needed (sc_slotoffset s) (sc_slotsize s)
    | NONE \<Rightarrow> (\<forall>j < k. slacks (ess ! j) < needed) \<and>
        (sc_slotoffset s = - 1 \<and> sc_slotfree s = 0 \<and> (\<forall>f \<in> set d. slack f = 0) \<or>
         (\<exists>es1 run. d = es1 @ run \<and> run \<noteq> [] \<and> (\<forall>f \<in> set es1. slack f = 0) \<and> 0 < slack (hd run) \<and> slacks run < needed \<and>
            sc_slotoffset s = int k * int B + int (dents_len es1) \<and> sc_slotfree s = slacks run)))"

lemma ent_slot_slack:
  "ent_slot needed e s = (if sc_status s = FOUND then s
      else if slack e > 0 then
          if slack e \<ge> needed then s\<lparr>sc_status := FOUND, sc_slotoffset := sc_offset s, sc_slotsize := uint (dn_reclen e)\<rparr>
          else if sc_status s = NONE then
            let s = s\<lparr>sc_slotfree := sc_slotfree s + slack e\<rparr>;
                s = (if sc_slotoffset s = - 1 then s\<lparr>sc_slotoffset := sc_offset s\<rparr> else s)
            in if sc_slotfree s \<ge> needed
               then s\<lparr>sc_status := COMPACT, sc_slotsize := sc_offset s + uint (dn_reclen e) - sc_slotoffset s\<rparr> else s
          else s
        else s)"
proof -
  have sle: "(if dn_ino e \<noteq> 0 then uint (dn_reclen e) - (if dn_ino e = 0 then 0 else dent_need e) else uint (dn_reclen e)) = slack e"
    by (simp add: slack_def)
  show ?thesis unfolding ent_slot_def slot_step_def by (simp only: sle Let_def)
qed

lemma fit_small:
  assumes "fit_inv B ess needed k d s" "sc_status s \<noteq> FOUND" "0 < needed" "\<forall>es \<in> set ess. \<forall>e \<in> set es. dent_ok e" "k < length ess" "set d \<subseteq> set (ess ! k)"
  shows "small_before ess needed k d"
proof (cases "sc_status s")
  case NONE
  note f = assms(1) [unfolded fit_inv_def NONE slotstatus.case]
  have b: "slack f < needed" if "j < k" "f \<in> set (ess ! j)" for j f
  proof -
    have "ess ! j \<in> set ess" using assms(5) that(1) by simp
    then have "\<forall>e \<in> set (ess ! j). dent_ok e" using assms(4) by blast
    from slack_le_slacks [OF this that(2)] show ?thesis using f that(1) by fastforce
  qed
  have dk: "\<forall>e \<in> set d. dent_ok e" using assms(4-6) by (meson nth_mem subset_iff)
  have "slack f < needed" if "f \<in> set d" for f
    using conjunct2 [OF f]
  proof (elim disjE exE conjE)
    assume "\<forall>f \<in> set d. slack f = 0" then show ?thesis using that assms(3) by simp
  next
    fix es1 run assume r: "d = es1 @ run" "\<forall>f \<in> set es1. slack f = 0" "slacks run < needed"
    show ?thesis
    proof (cases "f \<in> set es1")
      case False
      then have "slack f \<le> slacks run" using that r(1) dk by (intro slack_le_slacks) auto
      then show ?thesis using r(3) by simp
    qed (use r(2) assms(3) in simp)
  qed
  then show ?thesis using b by (simp add: small_before_def)
qed (use assms(1,2) in \<open>simp_all add: fit_inv_def\<close>)

lemma fit_inv_step:
  assumes inv: "fit_inv B ess needed k d s" and k: "k < length ess" "ess ! k = d @ e # r" and o: "sc_offset s = int k * int B + int (dents_len d)"
    and ok: "\<forall>es \<in> set ess. \<forall>e \<in> set es. dent_ok e" and n: "0 < needed"
  shows "fit_inv B ess needed k (d @ [e]) (ent_next e (ent_slot needed e s))"
proof -
  have m: "ess ! k \<in> set ess" using k(1) by simp
  have "dent_ok e" using ok m k(2) by fastforce
  then have sl: "0 \<le> slack e" by (rule slack_nonneg)
  show ?thesis
  proof (cases "sc_status s = FOUND")
    case True
    then show ?thesis using inv by (simp add: fit_inv_def ent_slot_slack)
  next
    case nf: False
    have sm: "small_before ess needed k d" by (rule fit_small [OF inv nf n ok k(1)]) (auto simp: k(2))
    show ?thesis
    proof (cases "needed \<le> slack e")
      case True
      then have "room_first B ess needed (sc_offset s) (uint (dn_reclen e))" unfolding room_first_def using k sm o by blast
      then show ?thesis using nf True n by (simp add: fit_inv_def ent_slot_slack)
    next
      case lt: False
      then have sm2: "small_before ess needed k (d @ [e])" using sm by (simp add: small_before_def)
      show ?thesis
      proof (cases "sc_status s")
        case COMPACT
        then show ?thesis using inv sm2 lt by (simp add: fit_inv_def ent_slot_slack)
      next
        case NONE
        note f = inv [unfolded fit_inv_def NONE slotstatus.case]
        show ?thesis
        proof (cases "slack e = 0")
          case True
          have ext: "\<exists>es1' run'. d @ [e] = es1' @ run' \<and> run' \<noteq> [] \<and> (\<forall>f \<in> set es1'. slack f = 0) \<and> 0 < slack (hd run') \<and> slacks run' < needed \<and>
              p = int k * int B + int (dents_len es1') \<and> q = slacks run'"
            if "d = es1 @ run" "run \<noteq> []" "\<forall>f \<in> set es1. slack f = 0" "0 < slack (hd run)" "slacks run < needed"
              "p = int k * int B + int (dents_len es1)" "q = slacks run" for es1 run p q
            by (rule exI [of _ es1], rule exI [of _ "run @ [e]"]) (use that True in simp)
          have "sc_slotoffset s = - 1 \<and> sc_slotfree s = 0 \<and> (\<forall>f \<in> set (d @ [e]). slack f = 0) \<or>
             (\<exists>es1 run. d @ [e] = es1 @ run \<and> run \<noteq> [] \<and> (\<forall>f \<in> set es1. slack f = 0) \<and> 0 < slack (hd run) \<and> slacks run < needed \<and>
                sc_slotoffset s = int k * int B + int (dents_len es1) \<and> sc_slotfree s = slacks run)"
            using conjunct2 [OF f]
          proof (elim disjE exE conjE)
            assume "sc_slotoffset s = - 1" "sc_slotfree s = 0" "\<forall>f \<in> set d. slack f = 0"
            then show ?thesis using True by simp
          next
            fix es1 run assume "d = es1 @ run" "run \<noteq> []" "\<forall>f \<in> set es1. slack f = 0" "0 < slack (hd run)" "slacks run < needed"
              "sc_slotoffset s = int k * int B + int (dents_len es1)" "sc_slotfree s = slacks run"
            from ext [OF this] show ?thesis by (rule disjI2)
          qed
          moreover have "ent_slot needed e s = s" using True by (simp add: ent_slot_slack)
          ultimately show ?thesis using conjunct1 [OF f] NONE by (simp only: fit_inv_def ent_next_simps slotstatus.case simp_thms)
        next
          case False
          then have p: "0 < slack e" using sl by simp
          let ?off = "if sc_slotoffset s = - 1 then sc_offset s else sc_slotoffset s"
          obtain es1 run where r: "d = es1 @ run" "\<forall>f \<in> set es1. slack f = 0" "0 < slack (hd (run @ [e]))" "slacks run < needed"
            "?off = int k * int B + int (dents_len es1)" "sc_slotfree s = slacks run"
            using conjunct2 [OF f]
          proof (elim disjE exE conjE)
            assume a: "sc_slotoffset s = - 1" "sc_slotfree s = 0" "\<forall>f \<in> set d. slack f = 0"
            show ?thesis by (rule that [of d "[]"]) (use a p o n in simp_all)
          next
            fix es1 run assume a: "d = es1 @ run" "run \<noteq> []" "\<forall>f \<in> set es1. slack f = 0" "0 < slack (hd run)" "slacks run < needed"
              "sc_slotoffset s = int k * int B + int (dents_len es1)" "sc_slotfree s = slacks run"
            have "0 \<le> int k * int B + int (dents_len es1)" by (intro add_nonneg_nonneg mult_nonneg_nonneg) simp_all
            then have "sc_slotoffset s \<noteq> - 1" using a(6) by linarith
            then show ?thesis by (intro that [of es1 run]) (use a in simp_all)
          qed
          show ?thesis
          proof (cases "needed \<le> sc_slotfree s + slack e")
            case True
            have "sc_offset s + uint (dn_reclen e) - ?off = int (dents_len (run @ [e]))" using r(1,5) o by simp
            then have "run_first B ess needed ?off (sc_offset s + uint (dn_reclen e) - ?off)"
              unfolding run_first_def using k f r True
              by (intro exI [of _ k] exI [of _ es1] exI [of _ "run @ [e]"] exI [of _ r]) auto
            then show ?thesis using sm2 True p lt NONE by (cases "sc_slotoffset s = - 1") (simp_all add: fit_inv_def ent_slot_slack Let_def)
          next
            case F: False
            have "\<exists>es1' run'. d @ [e] = es1' @ run' \<and> run' \<noteq> [] \<and> (\<forall>f \<in> set es1'. slack f = 0) \<and> 0 < slack (hd run') \<and> slacks run' < needed \<and>
              ?off = int k * int B + int (dents_len es1') \<and> sc_slotfree s + slack e = slacks run'"
              by (rule exI [of _ es1], rule exI [of _ "run @ [e]"]) (use r F in simp)
            then show ?thesis using f F p lt NONE by (cases "sc_slotoffset s = - 1") (simp_all add: fit_inv_def ent_slot_slack Let_def)
          qed
        qed
      qed (use nf in simp)
    qed
  qed
qed

text \<open>The end of the last entry in use, as far as the search has come.\<close>

lemma useful_to_Nil: "useful_to B ess x \<Longrightarrow> useful_to B (ess @ [[]]) x"
  unfolding useful_to_def
  by (auto split: if_splits simp: nth_append)

lemma useful_to_live: "live e \<Longrightarrow> useful_to B (ess @ [d @ [e]]) (int (length ess) * int B + int (dents_len (d @ [e])))"
proof -
  assume e: "live e"
  have "length ess < length (ess @ [d @ [e]]) \<and> (ess @ [d @ [e]]) ! length ess = d @ e # [] \<and> live e \<and>
      (\<forall>f \<in> set [] \<union> set (concat (drop (Suc (length ess)) (ess @ [d @ [e]]))). \<not> live f)" using e by simp
  moreover have "\<exists>f \<in> set (concat (ess @ [d @ [e]])). live f" using e by simp
  ultimately show ?thesis unfolding useful_to_def by (simp only: if_True) blast
qed

lemma useful_to_dead:
  assumes "useful_to B (ess @ [d]) x" "\<not> live e"
  shows "useful_to B (ess @ [d @ [e]]) x"
proof (cases "\<exists>f \<in> set (concat (ess @ [d])). live f")
  case False
  then show ?thesis using assms unfolding useful_to_def by simp
next
  case True
  then obtain k d' f r where k: "k < length (ess @ [d])" "(ess @ [d]) ! k = d' @ f # r" "live f"
    "\<forall>g \<in> set r \<union> set (concat (drop (Suc k) (ess @ [d]))). \<not> live g" "x = int k * int B + int (dents_len (d' @ [f]))"
    using assms(1) unfolding useful_to_def by (simp only: if_True) blast
  let ?r = "if k = length ess then r @ [e] else r"
  have "(ess @ [d @ [e]]) ! k = d' @ f # ?r" using k(1,2) by (auto simp: nth_append split: if_splits)
  moreover have "\<forall>g \<in> set ?r \<union> set (concat (drop (Suc k) (ess @ [d @ [e]]))). \<not> live g"
    using k(1,4) assms(2) by (auto split: if_splits)
  moreover have "\<exists>f \<in> set (concat (ess @ [d @ [e]])). live f" using True by auto
  moreover have "k < length (ess @ [d @ [e]])" using k(1) by simp
  ultimately show ?thesis unfolding useful_to_def using k(3,5) by (simp only: if_True) blast
qed

lemma fit_block:
  assumes inv: "fit_inv B ess needed k d s" "useful_to B (take k ess @ [d]) (sc_enduseful s)" and k: "k < length ess" "ess ! k = d @ r"
    and o: "sc_offset s = int k * int B + int (dents_len d)"
    and ok: "\<forall>es \<in> set ess. \<forall>e \<in> set es. dent_ok e" and n: "0 < needed" and none: "fst (block_scan needed name r s) = None"
  shows "fit_inv B ess needed k (ess ! k) (snd (block_scan needed name r s)) \<and>
    useful_to B (take k ess @ [ess ! k]) (sc_enduseful (snd (block_scan needed name r s)))"
  using inv k(2) o none
proof (induction r arbitrary: d s)
  case (Cons e r)
  let ?s = "ent_next e (ent_slot needed e s)"
  have nm: "\<not> ent_matches name e" and r: "fst (block_scan needed name r ?s) = None" using Cons.prems(5) by (simp_all split: if_splits)
  have f: "fit_inv B ess needed k (d @ [e]) ?s" by (rule fit_inv_step [OF Cons.prems(1) k(1) Cons.prems(3,4) ok n])
  have "useful_to B (take k ess @ [d @ [e]]) (sc_enduseful ?s)"
  proof (cases "live e")
    case True
    have "sc_enduseful ?s = int (length (take k ess)) * int B + int (dents_len (d @ [e]))"
      using True Cons.prems(4) k(1) by (simp add: live_def)
    then show ?thesis using useful_to_live [OF True] by metis
  next
    case False
    then show ?thesis using useful_to_dead [OF Cons.prems(2) False] by (simp add: live_def)
  qed
  from Cons.IH [OF f this _ _ r] Cons.prems(3,4) nm show ?case by simp
qed simp

lemma fit_enter: "fit_inv B ess needed k d s \<Longrightarrow> d = ess ! k \<Longrightarrow> k < length ess \<Longrightarrow> fit_inv B ess needed (Suc k) [] (block_enter b s)"
  if "0 < needed" "\<forall>es \<in> set ess. \<forall>e \<in> set es. dent_ok e"
proof -
  assume i: "fit_inv B ess needed k d s" "d = ess ! k" "k < length ess"
  have st: "sc_slotoffset (block_enter b s) = (if sc_status s = NONE then - 1 else sc_slotoffset s)"
    "sc_slotfree (block_enter b s) = (if sc_status s = NONE then 0 else sc_slotfree s)" by (simp_all add: block_enter_def Let_def)
  show ?thesis
  proof (cases "sc_status s")
    case NONE
    have "slacks d < needed" using i(1) that(1) unfolding fit_inv_def NONE
      by (auto simp: slacks_zero)
    then show ?thesis using i NONE st by (auto simp: fit_inv_def less_Suc_eq)
  next
    case COMPACT
    then show ?thesis using i st by (auto simp: fit_inv_def small_before_def less_Suc_eq)
  next
    case FOUND
    then show ?thesis using i st by (simp add: fit_inv_def)
  qed
qed

lemma fit_first: "sc_status s = NONE \<Longrightarrow> fit_inv B ess needed 0 [] (block_enter b s)"
  by (simp add: fit_inv_def block_enter_def Let_def)

text \<open>After the whole directory has been searched without a match.\<close>

definition fit_end :: "nat \<Rightarrow> dent list list \<Rightarrow> int \<Rightarrow> scan \<Rightarrow> bool" where
  "fit_end B ess needed s \<longleftrightarrow> useful_to B ess (sc_enduseful s) \<and> (case sc_status s of
      FOUND \<Rightarrow> room_first B ess needed (sc_slotoffset s) (sc_slotsize s)
    | COMPACT \<Rightarrow> (\<forall>f \<in> set (concat ess). slack f < needed) \<and> run_first B ess needed (sc_slotoffset s) (sc_slotsize s)
    | NONE \<Rightarrow> \<forall>es \<in> set ess. slacks es < needed)"

lemma dir_scan_fit:
  assumes inv: "fit_inv B ess needed k [] (block_enter b s)" "useful_to B (take k ess) (sc_enduseful s)"
    and k: "k < length ess" and o: "sc_offset s = int k * int B"
    and ok: "\<forall>es \<in> set ess. block_ok B es" and n: "0 < needed" and none: "fst (dir_scan needed name (drop k ess) s) = None"
  shows "fit_end B ess needed (snd (dir_scan needed name (drop k ess) s))"
  using inv k o none
proof (induction "length ess - k" arbitrary: k s b)
  case (Suc x)
  have oe: "\<forall>es \<in> set ess. \<forall>e \<in> set es. dent_ok e" using ok by (simp add: block_ok_def)
  have d: "drop k ess = ess ! k # drop (Suc k) ess" using Suc.prems(3) by (simp add: Cons_nth_drop_Suc)
  let ?s = "block_enter (block_of (ess ! k)) s"
  obtain i s' where b: "block_scan needed name (ess ! k) ?s = (i, s')" by fastforce
  have i: "i = None" using Suc.prems(5) b d by (cases i) simp_all
  have f: "fit_inv B ess needed k [] ?s" using Suc.prems(1)
    by (cases "sc_status s") (simp_all add: fit_inv_def block_enter_def Let_def)
  have u: "useful_to B (take k ess @ [[]]) (sc_enduseful ?s)" using useful_to_Nil [OF Suc.prems(2)] by simp
  have "fit_inv B ess needed k (ess ! k) s' \<and> useful_to B (take k ess @ [ess ! k]) (sc_enduseful s')"
    using fit_block [OF f u Suc.prems(3) _ _ oe n, of "ess ! k" name] b i Suc.prems(4) by simp
  then have f2: "fit_inv B ess needed k (ess ! k) s'" and u2: "useful_to B (take (Suc k) ess) (sc_enduseful s')"
    using Suc.prems(3) by (simp_all add: take_Suc_conv_app_nth)
  have r: "dir_scan needed name (drop k ess) s = dir_scan needed name (drop (Suc k) ess) s'" using d b i by simp
  have o: "sc_offset s' = int (Suc k) * int B"
    using block_scan_end [of needed name "ess ! k" ?s] b i ok Suc.prems(3,4) by (simp add: block_ok_def algebra_simps)
  show ?case
  proof (cases "Suc k < length ess")
    case True
    show ?thesis unfolding r
      by (rule Suc.hyps(1) [OF _ fit_enter [OF n oe f2 refl Suc.prems(3)] u2 True o]) (use Suc.hyps(2) Suc.prems(5) r in simp_all)
  next
    case False
    then have e: "Suc k = length ess" using Suc.prems(3) by simp
    have dn: "snd (dir_scan needed name (drop k ess) s) = s'" unfolding r using e by simp
    have sm: "small_before ess needed k (ess ! k) \<Longrightarrow> \<forall>f \<in> set (concat ess). slack f < needed"
      using e by (auto simp: small_before_def in_set_conv_nth less_Suc_eq) (metis less_antisym nth_mem)
    have nn: "slacks es < needed" if "sc_status s' = NONE" "es \<in> set ess" for es
    proof -
      have "slacks (ess ! k) < needed" using f2 n that(1) by (auto simp: fit_inv_def slacks_zero)
      moreover have "\<forall>j < k. slacks (ess ! j) < needed" using f2 that(1) by (simp add: fit_inv_def)
      moreover have "\<exists>j. (j < k \<or> j = k) \<and> es = ess ! j" using that(2) e by (metis in_set_conv_nth less_Suc_eq)
      ultimately show ?thesis by auto
    qed
    show ?thesis unfolding dn fit_end_def using f2 u2 e sm nn by (cases "sc_status s'") (simp_all add: fit_inv_def)
  qed
qed simp

lemma dir_scan_fit_all:
  assumes s: "sc_status s = NONE" "sc_offset s = 0" "sc_enduseful s = 0" and ok: "\<forall>es \<in> set ess. block_ok B es" and n: "0 < needed"
    and none: "fst (dir_scan needed name ess s) = None"
  shows "fit_end B ess needed (snd (dir_scan needed name ess s))"
proof (cases "ess = []")
  case True
  then show ?thesis using s by (simp add: fit_end_def useful_to_def)
next
  case False
  have "useful_to B (take 0 ess) (sc_enduseful s)" using s(3) by (simp add: useful_to_def)
  from dir_scan_fit [OF fit_first [OF s(1)] this, where name = name, OF _ _ ok n] show ?thesis using False s(2) none by simp
qed

text \<open>Where the search of a name to be created says the name goes: the offset, the bytes to compact and the end of the part in use.\<close>

definition first_fit :: "nat \<Rightarrow> dent list list \<Rightarrow> int \<Rightarrow> int \<Rightarrow> int \<Rightarrow> int \<Rightarrow> bool" where
  "first_fit B ess needed off count endoff \<longleftrightarrow>
     (if \<exists>e \<in> set (concat ess). needed \<le> slack e then room_first B ess needed off count
      else if \<exists>es \<in> set ess. needed \<le> slacks es then run_first B ess needed off count
      else off = int (length ess) * int B \<and> count = 0) \<and>
     (\<exists>x. useful_to B ess x \<and>
       endoff = (if \<exists>es \<in> set ess. needed \<le> slacks es then (max x (off + count) + int B - 1) div int B * int B else int (length ess) * int B))"

lemma room_first_room: "room_first B ess needed off sz \<Longrightarrow> \<exists>e \<in> set (concat ess). needed \<le> slack e"
  by (auto simp: room_first_def) (metis in_set_conv_decomp nth_mem)

lemma run_first_run:
  assumes "run_first B ess needed off sz" "\<forall>es \<in> set ess. block_ok B es"
  shows "\<exists>es \<in> set ess. needed \<le> slacks es"
proof -
  obtain k d run r where k: "k < length ess" "ess ! k = d @ run @ r" "needed \<le> slacks run" using assms(1) unfolding run_first_def by blast
  have m: "ess ! k \<in> set ess" using k(1) by simp
  then have "\<forall>e \<in> set (ess ! k). dent_ok e" using assms(2) by (simp add: block_ok_def)
  then have "0 \<le> slacks d" "0 \<le> slacks r" unfolding k(2) by (simp_all add: slacks_nonneg)
  then show ?thesis using m k(2,3) by (intro bexI [of _ "ess ! k"]) simp_all
qed

lemma room_is_run: "\<exists>e \<in> set (concat ess). needed \<le> slack e \<Longrightarrow> \<forall>es \<in> set ess. block_ok B es \<Longrightarrow> \<exists>es \<in> set ess. needed \<le> slacks es"
  by (auto simp: block_ok_def) (metis order_trans slack_le_slacks)

lemma first_fit_count:
  assumes f: "first_fit B ess needed off count endoff" and ok: "\<forall>es \<in> set ess. block_ok B es"
  shows "count \<noteq> 0 \<longleftrightarrow> (\<exists>es \<in> set ess. needed \<le> slacks es)"
proof -
  have r: "count \<noteq> 0" if a: "room_first B ess needed off count"
  proof -
    obtain k d e r where k: "k < length ess" "ess ! k = d @ e # r" "count = uint (dn_reclen e)" using a unfolding room_first_def by blast
    have "ess ! k \<in> set ess" using k(1) by simp
    then have "dent_ok e" using ok k(2) unfolding block_ok_def by fastforce
    then show ?thesis using dent_ok_pos(1) [of e] k(3) by simp
  qed
  have q: "count \<noteq> 0" if a: "run_first B ess needed off count"
  proof -
    obtain k d e run r where k: "k < length ess" "ess ! k = d @ (e # run) @ r" "count = int (dents_len (e # run))"
      using a unfolding run_first_def by (metis neq_Nil_conv)
    have "ess ! k \<in> set ess" using k(1) by simp
    then have "dent_ok e" using ok k(2) unfolding block_ok_def by fastforce
    then show ?thesis using dent_ok_pos(1) [of e] k(3) by simp
  qed
  show ?thesis
  proof (cases "\<exists>e \<in> set (concat ess). needed \<le> slack e")
    case True
    then show ?thesis using f r room_is_run [OF True ok] by (simp only: first_fit_def if_True simp_thms)
  next
    case False
    then show ?thesis using f q unfolding first_fit_def by (cases "\<exists>es \<in> set ess. needed \<le> slacks es") (simp_all only: if_True if_False simp_thms)
  qed
qed

context dir_blocks begin

lemma creating_fits:
  assumes c: "dir_content backed dirchk ump dp a ess" and cn: "scan_creating cn" "dir_map ess (cn_name cn) = None" "i_nlink dp \<noteq> 0"
  shows "\<exists>off count endoff. ext2_lookup_ino dirchk rdonly uid get vget ump dp cn =
     Ret (Inl EJUSTRETURN, dp\<lparr>i_offset := off, i_count := count, i_endoff := endoff\<rparr>) \<and>
     first_fit (bsz ump) ess (slot_needed cn) off count endoff"
proof -
  let ?B = "bsz ump" let ?n = "slot_needed cn" let ?s = "snd (dir_scan ?n (cn_name cn) ess (scan_start cn))"
  note geo = content_geom [OF c] note B = bsz_bounds(1) [OF geo]
  note ok = content_blocks_ok [OF c]
  have "cn_nameiop cn \<noteq> LOOKUP" using cn(1) by (auto simp: scan_creating_def)
  then have ds: "dir_search dirchk rdonly ump dp cn = Ret (Inr (None, 1, ?s))" using search_all [OF c] cn(2) by simp
  have look: "ext2_lookup_ino dirchk rdonly uid get vget ump dp cn =
      Ret (case lookup_notfound ump dp cn ?s of (error, dp) \<Rightarrow> (Inl error, dp))"
    unfolding ext2_lookup_ino_def ds by (simp add: split: prod.split)
  have n: "0 < ?n" using cn(1) rec_len_bounds(1) [of "int (length (cn_name cn))"] unfolding slot_needed_def by simp
  have st: "sc_status (scan_start cn) = NONE" "sc_offset (scan_start cn) = 0" "sc_enduseful (scan_start cn) = 0"
    using cn(1) by (simp_all add: scan_start_def)
  have "fst (dir_scan ?n (cn_name cn) ess (scan_start cn)) = None" using cn(2) by (simp add: dir_scan_fst)
  from dir_scan_fit_all [OF st ok n this] have f: "fit_end ?B ess ?n ?s" .
  then have x: "useful_to ?B ess (sc_enduseful ?s)" by (simp add: fit_end_def)
  have "uint (i_size dp) = int (length ess * ?B)" "length ess * ?B < 2 ^ 31" using c by (simp_all add: dir_content_def)
  note ru = roundup_blocks [OF geo this]
  have mx: "(if a < b then b else a) = max a b" for a b :: int by (simp add: max_def)
  note lk = look [unfolded lookup_notfound_def Let_def roundup2_blocks [OF geo] mx]
  show ?thesis
  proof (cases "\<exists>es \<in> set ess. ?n \<le> slacks es")
    case False
    then have r: "\<not> (\<exists>e \<in> set (concat ess). ?n \<le> slack e)" using room_is_run [OF _ ok] by blast
    have st: "sc_status ?s = NONE"
    proof (cases "sc_status ?s")
      case COMPACT
      then have "run_first ?B ess ?n (sc_slotoffset ?s) (sc_slotsize ?s)" using f by (simp add: fit_end_def)
      from run_first_run [OF this ok] False show ?thesis by blast
    next
      case FOUND
      then have "room_first ?B ess ?n (sc_slotoffset ?s) (sc_slotsize ?s)" using f by (simp add: fit_end_def)
      from room_first_room [OF this] r show ?thesis by blast
    qed simp
    have "(int (length ess * ?B) + int ?B - 1) div int ?B * int ?B = int (length ess) * int ?B"
      using ceil_blocks [of "int ?B" "int (length ess)"] B by simp
    then have "ext2_lookup_ino dirchk rdonly uid get vget ump dp cn = Ret (Inl EJUSTRETURN,
        dp\<lparr>i_offset := int (length ess) * int ?B, i_count := 0, i_endoff := int (length ess) * int ?B\<rparr>)"
      unfolding lk using st cn(1,3) ru by simp
    moreover have "first_fit ?B ess ?n (int (length ess) * int ?B) 0 (int (length ess) * int ?B)"
      unfolding first_fit_def using False r x by auto
    ultimately show ?thesis by blast
  next
    case True
    have st: "sc_status ?s \<noteq> NONE"
    proof
      assume "sc_status ?s = NONE"
      then have "\<forall>es \<in> set ess. slacks es < ?n" using f by (simp add: fit_end_def)
      with True show False by fastforce
    qed
    let ?eo = "(max (sc_enduseful ?s) (sc_slotoffset ?s + sc_slotsize ?s) + int ?B - 1) div int ?B * int ?B"
    have "ext2_lookup_ino dirchk rdonly uid get vget ump dp cn = Ret (Inl EJUSTRETURN,
        dp\<lparr>i_offset := sc_slotoffset ?s, i_count := sc_slotsize ?s, i_endoff := ?eo\<rparr>)"
      unfolding lk using st cn(1,3) by simp
    moreover have "if \<exists>e \<in> set (concat ess). ?n \<le> slack e then room_first ?B ess ?n (sc_slotoffset ?s) (sc_slotsize ?s)
        else run_first ?B ess ?n (sc_slotoffset ?s) (sc_slotsize ?s)"
    proof (cases "sc_status ?s")
      case COMPACT
      then have "\<forall>g \<in> set (concat ess). slack g < ?n" "run_first ?B ess ?n (sc_slotoffset ?s) (sc_slotsize ?s)" using f by (simp_all add: fit_end_def)
      moreover have "\<not> (\<exists>e \<in> set (concat ess). ?n \<le> slack e)" using calculation(1) by fastforce
      ultimately show ?thesis by (simp only: if_False)
    next
      case FOUND
      then have "room_first ?B ess ?n (sc_slotoffset ?s) (sc_slotsize ?s)" using f by (simp add: fit_end_def)
      with room_first_room [OF this] show ?thesis by (simp only: if_True)
    qed (use st in simp)
    then have "first_fit ?B ess ?n (sc_slotoffset ?s) (sc_slotsize ?s) ?eo"
      unfolding first_fit_def using True x by auto
    ultimately show ?thesis by blast
  qed
qed

end

section \<open>A directory that grows\<close>

text \<open>The inode after the write, with its size rounded up to whole blocks.\<close>

definition grown :: "ext2mount \<Rightarrow> inode \<Rightarrow> inode" where
  "grown ump dp = dp\<lparr>i_size := roundup_size (i_size dp) (DIRBLKSIZ ump), i_flag := i_flag dp OR IN_CHANGE\<rparr>"

text \<open>
  What \<^verbatim>\<open>vn_rdwr\<close> does when it succeeds: the bytes \<open>x\<close> are at the beginning of a new block of zeros after the \<open>n\<close> blocks of the directory, which
  are as before, and the size is the end of the bytes.
\<close>

definition wrote_new_block :: "backing \<Rightarrow> ext2mount \<Rightarrow> (nat \<Rightarrow> int) \<Rightarrow> nat \<Rightarrow> bytes \<Rightarrow> ext2mount \<Rightarrow> inode \<Rightarrow> (nat \<Rightarrow> int) \<Rightarrow> bool" where
  "wrote_new_block backed ump a n x ump' dp' a' \<longleftrightarrow>
     um_e2fs ump' = um_e2fs ump \<and> Suc n * bsz ump < 2 ^ 31 \<and> uint (i_size dp') = int n * int (bsz ump) + int (length x) \<and>
     backed ump' (grown ump' dp') a' (Suc n) \<and> (\<forall>k < n. dev_blk (um_devvp ump') (a' k) = dev_blk (um_devvp ump) (a k)) \<and>
     dev_blk (um_devvp ump') (a' n) = x @ replicate (bsz ump - length x) 0"

context dir_blocks begin

lemma roundup_next:
  assumes "dir_geom ump" "uint x = int n * int (bsz ump) + l" "0 < l" "l \<le> int (bsz ump)" "int (Suc n) * int (bsz ump) < 2 ^ 31"
  shows "uint (roundup_size x (DIRBLKSIZ ump)) = int (Suc n * bsz ump)"
proof -
  let ?B = "int (bsz ump)"
  obtain s where s: "10 \<le> s" "s \<le> 12" "bsz ump = 2 ^ s" by (rule dir_geomE [OF assms(1)])
  have d: "DIRBLKSIZ ump = 2 ^ s" using DIRBLKSIZ_bsz [OF assms(1)] s(3) by simp
  have sc: "s = 10 \<or> s = 11 \<or> s = 12" using s(1,2) by linarith
  then have b: "2 ^ s \<le> (4096::int)" by auto
  have "uint x < 2 ^ 31" using assms(2,4,5) by (simp add: algebra_simps)
  moreover have "uint (word_of_int (2 ^ s - 1) :: u64) = 2 ^ s - 1" using sc by auto
  ultimately have u: "uint (x + word_of_int (2 ^ s - 1)) = uint x + (2 ^ s - 1)"
    using b uint_ge_0 [of x] by (simp add: uint_word_ariths)
  have B: "?B = 2 ^ s" using s(3) by simp
  have "uint (roundup_size x (DIRBLKSIZ ump)) = (uint x + (2 ^ s - 1)) div 2 ^ s * 2 ^ s"
    unfolding roundup_size_def d using uint_and_not_pow [of s "x + word_of_int (2 ^ s - 1)"] s(2) by (simp only: u)
  also have "uint x + (2 ^ s - 1) = (l - 1) + int (Suc n) * 2 ^ s" unfolding assms(2) B by (simp add: algebra_simps)
  also have "((l - 1) + int (Suc n) * 2 ^ s) div 2 ^ s = int (Suc n)" using assms(3,4) unfolding B by (simp add: div_pos_pos_trivial)
  finally show ?thesis by (simp only: s(3) of_nat_mult of_nat_power of_nat_numeral)
qed

lemma grown_content:
  assumes c: "dir_content backed dirchk ump dp a ess" and w: "wrote_new_block backed ump a (length ess) x ump' dp' a'"
    and x: "0 < length x" "length x \<le> bsz ump" and e: "block_ok (bsz ump) [e]" "block_of [e] = x @ replicate (bsz ump - length x) 0"
    and i: "dir_sane dirchk ump (dn_ino e)"
  shows "dir_content backed dirchk ump' (grown ump' dp') a' (ess @ [[e]])"
proof -
  note w = w [unfolded wrote_new_block_def]
  have b: "bsz ump' = bsz ump" "DIRBLKSIZ ump' = DIRBLKSIZ ump" using w by (simp_all add: bsz_def DIRBLKSIZ_def)
  have lt: "int (Suc (length ess)) * int (bsz ump) < 2 ^ 31"
  proof -
    have "int (Suc (length ess) * bsz ump) < int (2 ^ 31)" using w by (simp only: of_nat_less_iff)
    then show ?thesis by (simp only: of_nat_mult of_nat_power of_nat_numeral)
  qed
  have "uint (roundup_size (i_size dp') (DIRBLKSIZ ump)) = int (Suc (length ess) * bsz ump)"
  proof (rule roundup_next [OF content_geom [OF c] _ _ _ lt])
    show "uint (i_size dp') = int (length ess) * int (bsz ump) + int (length x)" using w by blast
    show "0 < int (length x)" "int (length x) \<le> int (bsz ump)" using x by linarith+
  qed
  then have sz: "uint (i_size (grown ump' dp')) = int (length (ess @ [[e]]) * bsz ump')" by (simp add: grown_def b)
  have "dev_blk (um_devvp ump') (a' k) = block_of ((ess @ [[e]]) ! k) \<and> block_ok (bsz ump') ((ess @ [[e]]) ! k)" if "k < length (ess @ [[e]])" for k
  proof (cases "k < length ess")
    case True
    then have "(ess @ [[e]]) ! k = ess ! k" by (simp add: nth_append)
    then show ?thesis using content_block [OF c True] w True by (simp add: b)
  next
    case False
    then have "k = length ess" using that by simp
    then have "(ess @ [[e]]) ! k = [e]" "dev_blk (um_devvp ump') (a' k) = x @ replicate (bsz ump - length x) 0" using w by simp_all
    then show ?thesis using e by (simp add: b)
  qed
  moreover have "dirchk \<longrightarrow> (\<forall>f \<in> set (concat (ess @ [[e]])). dn_ino f \<le> e2fs_icount (e2fs (um_e2fs ump')))"
    using c i w by (auto simp: dir_content_def dir_sane_def)
  ultimately show ?thesis unfolding dir_content_def using sz w b by simp
qed

lemma direnter_grow:
  assumes c: "dir_content backed dirchk ump dp a ess" and s: "i_count dp = 0" "i_offset dp = int (length ess) * int (bsz ump)"
    and nm: "1 \<le> length name" "length name \<le> 255" "3 \<le> length junk" and ino: "i_number ip \<noteq> 0" "dir_sane dirchk ump (i_number ip)"
    and d: "dir_map ess name = None" "dir_distinct ess"
    and e: "e = new_dent (um_e2fs ump) ip name junk (replicate (bsz ump) 0)"
    and x: "x = newdir_bytes (um_e2fs ump) ip name junk (word_of_int (int (bsz ump)))"
  shows "block_ok (bsz ump) [e]" "block_of [e] = x @ replicate (bsz ump - length x) 0"
    "dir_map (ess @ [[e]]) = (dir_map ess)(name \<mapsto> i_number ip)" "dir_distinct (ess @ [[e]])"
    "ext2_direnter write trunc async junk ump ip dp name = Some (bnd (write ump dp x (i_offset dp)) (\<lambda>(error, ump', dp').
       if uint (e2fs_bsize (um_e2fs ump)) > uint (e2fs_fsize (um_e2fs ump)) then Fault (Panic ''frag size'')
       else if error = 0 then Ret (0, ump', grown ump' dp')
       else Ret (error, ump', dp')))"
    "dn_ino e = i_number ip" "dent_name e = name" "0 < length x" "length x \<le> bsz ump"
proof -
  let ?B = "bsz ump"
  note geo = content_geom [OF c] note B = bsz_bounds [OF geo]
  have need: "new_need name \<le> 266" using rec_len_bounds(2) [of "int (length name)"] nm(2) unfolding new_need_def by linarith
  have n0: "0 < new_need name" using rec_len_bounds(1) [of "int (length name)"] unfolding new_need_def by linarith
  have "new_need name \<le> int (length (replicate ?B (0 :: u8)))" "length (replicate ?B (0 :: u8)) < 65536" "length (replicate ?B (0 :: u8)) mod 4 = 0"
    using need B by (simp_all add: dvd_imp_mod_0)
  note nd = new_dent_ok [OF nm this, of "um_e2fs ump" ip, folded e]
  note sp = newdir_split(2) [OF nm, of "um_e2fs ump" ip "word_of_int (int ?B)", folded x]
  have rl: "unat (dn_reclen e) = ?B" using nd(3) by (metis length_replicate nat_int unat_eq_nat_uint)
  show "block_ok ?B [e]" using nd(1) rl by (simp add: block_ok_def)
  show "0 < length x" "length x \<le> ?B" using sp n0 need B(1) by simp_all
  show "block_of [e] = x @ replicate (?B - length x) 0" using nd(4) sp unfolding x by (simp add: block_of_def)
  show "dent_name e = name" by (rule nd(2))
  show ino': "dn_ino e = i_number ip" by (simp add: e new_dent_def)
  have lv: "dir_live (ess @ [[e]]) = dir_live ess @ [(name, i_number ip)]" using ino' nd(2) ino(1) by (simp add: live_def)
  have nn: "name \<notin> fst ` set (dir_live ess)" using d(1) by (simp add: dir_map_def map_of_eq_None_iff)
  then show "dir_distinct (ess @ [[e]])" using d(2) unfolding dir_distinct_def lv by simp
  have "map_of (dir_live ess @ [(name, i_number ip)]) = (map_of (dir_live ess))(name \<mapsto> i_number ip)"
    using d(1) by (auto simp: dir_map_def map_add_def fun_eq_iff split: option.split)
  then show "dir_map (ess @ [[e]]) = (dir_map ess)(name \<mapsto> i_number ip)" unfolding dir_map_def lv .
  have al: "i_offset dp AND (DIRBLKSIZ ump - 1) = 0" unfolding dirblk_masks(1) [OF geo] s(2) by simp
  show "ext2_direnter write trunc async junk ump ip dp name = Some (bnd (write ump dp x (i_offset dp)) (\<lambda>(error, ump', dp').
       if uint (e2fs_bsize (um_e2fs ump)) > uint (e2fs_fsize (um_e2fs ump)) then Fault (Panic ''frag size'')
       else if error = 0 then Ret (0, ump', grown ump' dp')
       else Ret (error, ump', dp')))"
    unfolding ext2_direnter_def Let_def grown_def using s(1) al by (simp add: x DIRBLKSIZ_bsz [OF geo])
qed

end

end
