(* ===== verification/Ext2_DirClaims.thy ===== *)
theory Ext2_DirClaims
  imports Ext2_DirWalk Ext2_DirSlot
begin

text \<open>
  The properties of the directory operations, for directories with direct blocks, and a small directory on which they are applied:
  one block with \<^verbatim>\<open>.\<close>, \<^verbatim>\<open>..\<close> and a file \<^verbatim>\<open>a\<close> with inode number 12.
\<close>

section \<open>A directory\<close>

definition typed_dents :: "u8 \<Rightarrow> dent list" where
  "typed_dents ty = [
     \<lparr>dn_ino = 2, dn_reclen = 12, dn_namlen = 1, dn_type = ty, dn_rest = [0x2E, 0, 0, 0]\<rparr>,
     \<lparr>dn_ino = 2, dn_reclen = 12, dn_namlen = 2, dn_type = ty, dn_rest = [0x2E, 0x2E, 0, 0]\<rparr>,
     \<lparr>dn_ino = 12, dn_reclen = 1000, dn_namlen = 1, dn_type = 1, dn_rest = 0x61 # replicate 991 0\<rparr>]"

definition typed_dmount :: "u8 \<Rightarrow> ext2mount" where
  "typed_dmount ty = \<lparr>um_devvp = \<lparr>dev_blk = (\<lambda>a. block_of (typed_dents ty)), dev_rerr = (\<lambda>a. 0), dev_werr = (\<lambda>a. 0), dev_nobuf = (\<lambda>a. False)\<rparr>,
     um_e2fs = zero_fs\<lparr>e2fs_bsize := 1024, e2fs_bshift := 10, e2fs_qbmask := 1023, e2fs_fsize := 1024, e2fs := zero_sb\<lparr>e2fs_icount := 100, e2fs_rev := 1\<rparr>\<rparr>,
     um_nindir = 256, um_bptrtodb = 1, um_seqinc = 1, um_lock = False\<rparr>"

definition demo_ddir :: inode where
  "demo_ddir = zero_inode\<lparr>i_number := 2, i_mode := 0x41ED, i_nlink := 2, i_size := 1024, i_db := 5 # replicate 11 0\<rparr>"

abbreviation demo_dents :: "dent list" where "demo_dents \<equiv> typed_dents 2"
abbreviation demo_dmount :: ext2mount where "demo_dmount \<equiv> typed_dmount 2"

lemma typed_bsz: "bsz (typed_dmount ty) = 1024"
  by (simp add: bsz_def typed_dmount_def)

lemma demo_content: "dir_content direct_dir True (typed_dmount ty) demo_ddir (\<lambda>k. 10) [typed_dents ty]"
proof -
  note b = typed_bsz [of ty]
  have g: "dir_geom (typed_dmount ty)" by (simp add: dir_geom_def Let_def b) (simp add: typed_dmount_def)
  have d: "direct_dir (typed_dmount ty) demo_ddir (\<lambda>k. 10) 1"
    unfolding direct_dir_def using g by (simp add: typed_dmount_def demo_ddir_def zero_inode_def push_bit_eq_mult)
  have n: "dent_need \<lparr>dn_ino = i, dn_reclen = r, dn_namlen = 1, dn_type = t, dn_rest = x\<rparr> = 12"
    "dent_need \<lparr>dn_ino = i, dn_reclen = r, dn_namlen = 2, dn_type = t, dn_rest = x\<rparr> = 12" for i r t x
    by (simp_all add: dent_need_def rec_len)
  have o: "block_ok 1024 (typed_dents ty)" by (simp add: block_ok_def typed_dents_def dent_ok_def n)
  show ?thesis unfolding dir_content_def using d o b
    by (simp add: demo_ddir_def) (simp add: typed_dmount_def typed_dents_def zero_sb_def)
qed

lemma demo_names:
  "dir_live [demo_dents] = [([0x2E], 2), ([0x2E, 0x2E], 2), ([0x61], 12)]"
  by (simp add: dir_live_def typed_dents_def live_def dent_name_def)

lemma demo_distinct: "dir_distinct [demo_dents]"
  unfolding dir_distinct_def demo_names by simp

section \<open>The properties\<close>

text \<open>C6. Looking up a name in a directory returns the inode the directory maps the name to, for every offset a former lookup left in
  \<^verbatim>\<open>i_diroff\<close>, and \<^verbatim>\<open>ENOENT\<close> for a name that is not there; the offset it leaves is again one of a block of the directory.\<close>

theorem lookup_finds_names:
  assumes "dir_content direct_dir dirchk ump dp a ess" "dir_distinct ess" "cn_nameiop cn = LOOKUP"
    and "i_diroff dp = int j * int (bsz ump)" "j \<le> length ess"
  shows "\<exists>k \<le> length ess. ext2_lookup_ino dirchk rdonly uid get vget ump dp cn = Ret (
     case dir_map ess (cn_name cn) of
       None \<Rightarrow> (Inl ENOENT, dp)
     | Some ino \<Rightarrow> let dp' = (if cn_islast cn then dp\<lparr>i_diroff := int k * int (bsz ump)\<rparr> else dp)
                  in (if i_number dp = ino then if get \<noteq> 0 then Inl get else Inr dp' else vget ino, dp'))"
  by (rule direct.lookup_name [OF assms])

theorem lookup_finds_names_witness:
  "\<exists>k \<le> 1::nat. ext2_lookup_ino True False 0 0 (\<lambda>n. Inr (zero_inode\<lparr>i_number := n\<rparr>)) demo_dmount demo_ddir
       \<lparr>cn_nameiop = LOOKUP, cn_islast = True, cn_name = [0x61]\<rparr> =
     Ret (Inr (zero_inode\<lparr>i_number := 12\<rparr>), demo_ddir\<lparr>i_diroff := int k * 1024\<rparr>)"
proof -
  note b = typed_bsz [of 2]
  have "dir_map [demo_dents] [0x61] = Some 12" unfolding dir_map_def demo_names by simp
  moreover have "i_diroff demo_ddir = int 0 * int (bsz demo_dmount)" "i_number demo_ddir = 2" by (simp_all add: demo_ddir_def zero_inode_def)
  ultimately show ?thesis
    using lookup_finds_names [OF demo_content demo_distinct, where cn = "\<lparr>cn_nameiop = LOOKUP, cn_islast = True, cn_name = [0x61]\<rparr>" and j = 0
      and rdonly = False and uid = 0 and get = 0 and vget = "\<lambda>n. Inr (zero_inode\<lparr>i_number := n\<rparr>)"]
    by (auto simp: b)
qed



text \<open>C5. Removing a name: the lookup for deletion finds the inode of the name and leaves the place of its entry in the inode of the
  directory; \<^verbatim>\<open>ext2_dirremove\<close> writes one block, after which the directory no longer maps the name and maps every other name as before.\<close>

theorem remove_deletes_name:
  assumes c: "dir_content direct_dir dirchk ump dp a ess" and d: "dir_distinct ess"
    and op: "cn_nameiop cn = DELETE" "cn_islast cn" and m: "dir_map ess (cn_name cn) = Some ino" "ino \<noteq> i_number dp" "vget ino = Inr tdp"
    and sticky: "\<not> (i_mode dp AND ISVTX \<noteq> 0 \<and> uid \<noteq> 0 \<and> uid \<noteq> i_uid dp \<and> i_uid tdp \<noteq> uid)"
  shows "\<exists>off count k es. let dp1 = dp\<lparr>i_offset := off, i_count := count\<rparr> in
    k < length ess \<and> ext2_lookup_ino dirchk rdonly uid get vget ump dp cn = Ret (Inr tdp, dp1) \<and>
    ext2_dirremove async ump dp1 = Ret (put_err (async \<and> count \<noteq> 0) ump (a k), put_dents ump (a k) es, dir_modified dp1) \<and>
    dir_content direct_dir dirchk (put_dents ump (a k) es) (dir_modified dp1) a (ess[k := es]) \<and>
    dir_map (ess[k := es]) = (dir_map ess)(cn_name cn := None) \<and> dir_distinct (ess[k := es])"
proof -
  obtain k es1 e es2 off count where k: "k < length ess" "ess ! k = es1 @ e # es2" and e: "ent_matches (cn_name cn) e"
    and l: "ext2_lookup_ino dirchk rdonly uid get vget ump dp cn = Ret (Inr tdp, dp\<lparr>i_offset := off, i_count := count\<rparr>)"
    and o: "off = int k * int (bsz ump) + int (dents_len es1)" and n: "count = (if es1 = [] then 0 else uint (dn_reclen (last es1)))"
    using direct.lookup_delete [where vget = vget and tdp = tdp, OF c op m sticky] by blast
  let ?dp = "dp\<lparr>i_offset := off, i_count := count\<rparr>"
  have c2: "dir_content direct_dir dirchk ump ?dp a ess" by (rule direct.content_same [OF c]) (simp add: same_file_def)
  have lv: "live e" "dent_name e = cn_name cn" using e by (simp_all add: ent_matches_def live_def)
  have ok: "\<forall>x \<in> set es1. dent_ok x" using direct.content_block [OF c k(1)] k(2) by (auto simp: block_ok_def)
  have cz: "(es1 \<noteq> []) = (count \<noteq> 0)"
  proof (cases "es1 = []")
    case False
    then have "0 < uint (dn_reclen (last es1))" using ok dent_ok_pos(1) [of "last es1"] by force
    then show ?thesis using False n by simp
  qed (simp add: n)
  have "i_offset ?dp = int k * int (bsz ump) + int (dents_len es1)" "i_count ?dp = (if es1 = [] then 0 else uint (dn_reclen (last es1)))"
    using o n by simp_all
  from direct.dirremove_entry [OF c2 k lv(1) d this, of async, unfolded cz lv(2)] l k(1)
  show ?thesis unfolding Let_def by blast
qed

theorem remove_deletes_name_witness:
  "\<exists>off count es. dir_map [es] = (dir_map [demo_dents])([0x61] := None) \<and>
     ext2_dirremove False demo_dmount (demo_ddir\<lparr>i_offset := off, i_count := count\<rparr>) =
       Ret (put_err False demo_dmount 10, put_dents demo_dmount 10 es, dir_modified (demo_ddir\<lparr>i_offset := off, i_count := count\<rparr>))"
proof -
  have m: "dir_map [demo_dents] [0x61] = Some 12" unfolding dir_map_def demo_names by simp
  have s: "i_mode demo_ddir AND ISVTX = 0" "i_number demo_ddir = 2" by (simp_all add: demo_ddir_def ISVTX_def)
  show ?thesis
    using remove_deletes_name [OF demo_content demo_distinct, where cn = "\<lparr>cn_nameiop = DELETE, cn_islast = True, cn_name = [0x61]\<rparr>"
      and ino = 12 and vget = "\<lambda>n. Inr (zero_inode\<lparr>i_number := n\<rparr>)" and tdp = "zero_inode\<lparr>i_number := 12\<rparr>" and async = False and uid = 0] m s
    unfolding Let_def by simp blast
qed

text \<open>C7. Renaming over a name: the lookup finds the inode of the name and the place of its entry, and \<^verbatim>\<open>ext2_dirrewrite\<close> writes one block,
  after which the directory maps the name to the inode that is passed and every other name as before.\<close>

theorem rename_rewrites_name:
  assumes c: "dir_content direct_dir dirchk ump dp a ess" and d: "dir_distinct ess"
    and op: "cn_nameiop cn = RENAME" "cn_islast cn" and m: "dir_map ess (cn_name cn) = Some ino" "ino \<noteq> i_number dp" "vget ino = Inr tdp"
    and ip: "i_number ip \<noteq> 0" "dir_sane dirchk ump (i_number ip)"
  shows "\<exists>off k es. let dp1 = dp\<lparr>i_offset := off\<rparr> in
    k < length ess \<and> ext2_lookup_ino dirchk rdonly uid get vget ump dp cn = Ret (Inr tdp, dp1) \<and>
    ext2_dirrewrite ump dp1 ip = Ret (put_err False ump (a k), put_dents ump (a k) es, dir_modified dp1) \<and>
    dir_content direct_dir dirchk (put_dents ump (a k) es) (dir_modified dp1) a (ess[k := es]) \<and>
    dir_map (ess[k := es]) = (dir_map ess)(cn_name cn \<mapsto> i_number ip) \<and> dir_distinct (ess[k := es])"
proof -
  obtain k es1 e es2 off where k: "k < length ess" "ess ! k = es1 @ e # es2" and e: "ent_matches (cn_name cn) e"
    and l: "ext2_lookup_ino dirchk rdonly uid get vget ump dp cn = Ret (Inr tdp, dp\<lparr>i_offset := off\<rparr>)"
    and o: "off = int k * int (bsz ump) + int (dents_len es1)"
    using direct.lookup_rename [where vget = vget and tdp = tdp, OF c op m] by blast
  let ?dp = "dp\<lparr>i_offset := off\<rparr>"
  have c2: "dir_content direct_dir dirchk ump ?dp a ess" by (rule direct.content_same [OF c]) (simp add: same_file_def)
  have lv: "live e" "dent_name e = cn_name cn" using e by (simp_all add: ent_matches_def live_def)
  have "i_offset ?dp = int k * int (bsz ump) + int (dents_len es1)" using o by simp
  from direct.dirrewrite_entry [OF c2 k lv(1) d this ip, unfolded lv(2)] l k(1)
  show ?thesis unfolding Let_def by blast
qed

theorem rename_rewrites_name_witness:
  "\<exists>off es. dir_map [es] = (dir_map [demo_dents])([0x61] \<mapsto> 13) \<and>
     ext2_dirrewrite demo_dmount (demo_ddir\<lparr>i_offset := off\<rparr>) (zero_inode\<lparr>i_number := 13\<rparr>) =
       Ret (put_err False demo_dmount 10, put_dents demo_dmount 10 es, dir_modified (demo_ddir\<lparr>i_offset := off\<rparr>))"
proof -
  have m: "dir_map [demo_dents] [0x61] = Some 12" unfolding dir_map_def demo_names by simp
  have s: "i_number demo_ddir = 2" "dir_sane True demo_dmount 13" by (simp_all add: demo_ddir_def dir_sane_def typed_dmount_def zero_sb_def)
  show ?thesis
    using rename_rewrites_name [OF demo_content demo_distinct, where cn = "\<lparr>cn_nameiop = RENAME, cn_islast = True, cn_name = [0x61]\<rparr>"
      and ino = 12 and vget = "\<lambda>n. Inr (zero_inode\<lparr>i_number := n\<rparr>)" and tdp = "zero_inode\<lparr>i_number := 12\<rparr>" and ip = "zero_inode\<lparr>i_number := 13\<rparr>"] m s
    unfolding Let_def by simp blast
qed

text \<open>C10. The place for a new name is the first fit: the search for a name to be created leaves the offset and the record length of the first entry
  of the directory with room enough; when no entry has room enough, the first block whose free space is enough in sum, from its first entry with
  free space up to the entry where the sum reaches what the name needs; when there is no such block, the end of the directory with nothing to
  compact. With a place it also leaves the end of the block in which the last entry in use, or the place itself, ends.\<close>

theorem creating_takes_first_fit:
  assumes "dir_content direct_dir dirchk ump dp a ess" "scan_creating cn" "dir_map ess (cn_name cn) = None" "i_nlink dp \<noteq> 0"
  shows "\<exists>off count endoff. ext2_lookup_ino dirchk rdonly uid get vget ump dp cn =
      Ret (Inl EJUSTRETURN, dp\<lparr>i_offset := off, i_count := count, i_endoff := endoff\<rparr>) \<and>
    first_fit (bsz ump) ess (EXT2_DIR_REC_LEN (int (length (cn_name cn)))) off count endoff"
proof -
  have "slot_needed cn = EXT2_DIR_REC_LEN (int (length (cn_name cn)))" using assms(2) by (simp add: slot_needed_def)
  then show ?thesis using direct.creating_fits [OF assms] by simp
qed

theorem creating_takes_first_fit_witness:
  "ext2_lookup_ino True False 0 0 (\<lambda>n. Inl ENOENT) demo_dmount demo_ddir \<lparr>cn_nameiop = CREATE, cn_islast = True, cn_name = [0x62]\<rparr> =
     Ret (Inl EJUSTRETURN, demo_ddir\<lparr>i_offset := 24, i_count := 1000, i_endoff := 1024\<rparr>)"
proof -
  let ?cn = "\<lparr>cn_nameiop = CREATE, cn_islast = True, cn_name = [0x62]\<rparr>"
  have m: "dir_map [demo_dents] [0x62] = None" unfolding dir_map_def demo_names by simp
  have h: "scan_creating ?cn" "i_nlink demo_ddir \<noteq> 0" by (simp_all add: scan_creating_def demo_ddir_def)
  obtain off count endoff where r: "ext2_lookup_ino True False 0 0 (\<lambda>n. Inl ENOENT) demo_dmount demo_ddir ?cn =
      Ret (Inl EJUSTRETURN, demo_ddir\<lparr>i_offset := off, i_count := count, i_endoff := endoff\<rparr>)" "first_fit 1024 [demo_dents] (EXT2_DIR_REC_LEN 1) off count endoff"
    using creating_takes_first_fit [OF demo_content [of 2] h(1) _ h(2), of False 0 0 "\<lambda>n. Inl ENOENT"] m by (auto simp: typed_bsz)
  have n: "EXT2_DIR_REC_LEN 1 = 12" "EXT2_DIR_REC_LEN 2 = 12" by (simp_all add: rec_len)
  have sl: "map slack demo_dents = [0, 0, 988]" by (simp add: typed_dents_def slack_def dent_need_def n)
  have rm: "\<exists>e \<in> set (concat [demo_dents]). 12 \<le> slack e" by (simp add: typed_dents_def slack_def dent_need_def n)
  then have rn: "\<exists>es \<in> set [demo_dents]. 12 \<le> slacks es" by (simp add: typed_dents_def slack_def dent_need_def n)
  have "room_first 1024 [demo_dents] 12 off count" using r(2) rm unfolding first_fit_def n by simp
  then obtain d e r' where p: "demo_dents = d @ e # r'" "\<forall>f \<in> set d. slack f < 12" "12 \<le> slack e" "off = int (dents_len d)" "count = uint (dn_reclen e)"
    unfolding room_first_def small_before_def by auto
  have "off = 24 \<and> count = 1000"
    using p unfolding typed_dents_def by (auto simp: Cons_eq_append_conv slack_def dent_need_def n)
  moreover have "endoff = 1024"
  proof -
    obtain x where x: "useful_to 1024 [demo_dents] x" "endoff = (max x (off + count) + 1024 - 1) div 1024 * 1024"
      using r(2) rn unfolding first_fit_def n by auto
    have "x \<le> 1024"
    proof -
      have "\<exists>e \<in> set (concat [demo_dents]). live e" by (simp add: typed_dents_def live_def)
      then obtain d e r' where "demo_dents = d @ e # r'" "x = int (dents_len (d @ [e]))" using x(1) unfolding useful_to_def by auto
      moreover have "dents_len demo_dents = 1024" by (simp add: typed_dents_def)
      ultimately have "dents_len (d @ [e]) \<le> 1024" "x = int (dents_len (d @ [e]))" by simp_all
      then show ?thesis by linarith
    qed
    then show ?thesis using x(2) \<open>off = 24 \<and> count = 1000\<close> by (simp add: max_def)
  qed
  ultimately show ?thesis using r(1) by simp
qed

text \<open>C12. \<^verbatim>\<open>ext2_dirempty\<close> ends and returns true exactly when every name of the directory is \<^verbatim>\<open>.\<close>, or \<^verbatim>\<open>..\<close> with the
  inode number of the parent that is passed.\<close>

theorem dirempty_decides:
  assumes c: "dir_content direct_dir dirchk ump ip a ess"
  shows "ext2_dirempty ump ip parentino =
    Ret (\<forall>(name, ino) \<in> set (dir_live ess). name = [0x2E] \<or> name = [0x2E, 0x2E] \<and> ino = parentino)"
proof -
  have "(\<forall>e \<in> set (concat ess). removable parentino e) = (\<forall>(name, ino) \<in> set (dir_live ess). name = [0x2E] \<or> name = [0x2E, 0x2E] \<and> ino = parentino)"
    by (auto simp: dir_live_def removable_def)
  then show ?thesis using direct.dirempty_blocks [OF c, of 0 parentino] by (simp add: ext2_dirempty_def)
qed

theorem dirempty_decides_witness: "ext2_dirempty demo_dmount demo_ddir 2 = Ret False"
  unfolding dirempty_decides [OF demo_content] demo_names by simp

text \<open>C13. The walk of \<^verbatim>\<open>ext2_checkpath\<close> ends: in a tree of directories whose \<^verbatim>\<open>..\<close> entries lead from the target up to the root, it returns
  \<^verbatim>\<open>EINVAL\<close> when the source is one of the directories above the target and 0 when it is not, so that a directory is not moved below itself.\<close>

theorem checkpath_reaches_root:
  assumes "lineage direct_dir dirchk vget ump target ps" "i_number target \<noteq> i_number source" "i_number target \<noteq> EXT2_ROOTINO"
  shows "ext2_checkpath vget ump source target = Some (Ret (if i_number source \<in> set ps then EINVAL else 0))"
  using direct.checkpath_walk [OF assms(1), of "i_number source"] assms(2,3) by (simp add: ext2_checkpath_def)

definition demo_sub :: inode where "demo_sub = demo_ddir\<lparr>i_number := 7\<rparr>"

lemma demo_sub_content: "dir_content direct_dir True (typed_dmount ty) demo_sub (\<lambda>k. 10) [typed_dents ty]"
  by (rule direct.content_same [OF demo_content]) (simp add: same_file_def demo_sub_def)

lemma demo_dots: "starts_with_dots [typed_dents ty] ty 2"
  by (simp add: starts_with_dots_def typed_dents_def dent_name_def)

lemma demo_sub_dir: "i_mode demo_sub AND IFMT = IFDIR" "i_number demo_sub = 7"
  by (simp_all add: demo_sub_def demo_ddir_def IFMT_def IFDIR_def)

theorem checkpath_reaches_root_witness:
  "ext2_checkpath (\<lambda>n. Inl ENOENT) demo_dmount (zero_inode\<lparr>i_number := 9\<rparr>) demo_sub = Some (Ret 0)"
proof -
  have "lineage direct_dir True (\<lambda>n. Inl ENOENT) demo_dmount demo_sub [2]"
    using demo_sub_content [of 2] demo_dots [of 2] demo_sub_dir by (auto simp: EXT2_ROOTINO_def)
  from checkpath_reaches_root [OF this, of "zero_inode\<lparr>i_number := 9\<rparr>"] show ?thesis
    by (simp add: demo_sub_dir EXT2_ROOTINO_def)
qed

text \<open>C14. On a volume without file types in its directories the type byte of \<^verbatim>\<open>..\<close> is not 2, and \<^verbatim>\<open>ext2_checkpath\<close> fails with
  \<^verbatim>\<open>ENOTDIR\<close> for every target other than the source and the root: the type byte is compared where the length of the name is meant.\<close>

theorem checkpath_needs_file_types:
  assumes "dir_content direct_dir dirchk ump target a ess" "starts_with_dots ess ty p" "ty \<noteq> 2" "i_mode target AND IFMT = IFDIR"
    "i_number target \<noteq> i_number source" "i_number target \<noteq> EXT2_ROOTINO"
  shows "ext2_checkpath vget ump source target = Some (Ret ENOTDIR)"
  using direct.checkpath_untyped [OF assms(4,1,2,3), of vget "i_number source"] assms(5,6) by (simp add: ext2_checkpath_def)

theorem checkpath_needs_file_types_witness:
  "ext2_checkpath (\<lambda>n. Inl ENOENT) (typed_dmount 0) (zero_inode\<lparr>i_number := 9\<rparr>) demo_sub = Some (Ret ENOTDIR)"
  by (rule checkpath_needs_file_types [OF demo_sub_content demo_dots]) (simp_all add: demo_sub_dir EXT2_ROOTINO_def)

text \<open>C11. A request of \<^verbatim>\<open>ext2_readdir\<close> that starts at the first byte of an entry, with room for the longest entry, ends without an error and hands
  out the live entries of a first part of the remaining entries, in order, with the offset of the first entry that was not taken, so that the
  next request goes on there; at least one entry is handed out when one is left, and the end-of-file flag is set exactly when none remain.\<close>

theorem readdir_hands_out_entries:
  assumes "dir_content direct_dir dirchk ump dp a ess" "k < length ess" "ess ! k = es1 @ es2" "es2 \<noteq> []" "268 \<le> resid"
  shows "\<exists>t rs. let off = int k * int (bsz ump) + int (dents_len es1); es = es2 @ concat (drop (Suc k) ess) in
    es = t @ rs \<and> ext2_readdir (\<lambda>_. 0) False ump dp off resid = Some (Ret (0, dirents t, off + int (dents_len t), rs = [])) \<and>
    (dirents es \<noteq> [] \<longrightarrow> dirents t \<noteq> [])"
  unfolding Let_def by (rule direct.readdir_takes [OF assms refl])

theorem readdir_hands_out_entries_witness:
  "\<exists>t rs. typed_dents 2 = t @ rs \<and> dirents t \<noteq> [] \<and>
     ext2_readdir (\<lambda>_. 0) False demo_dmount demo_ddir 0 268 = Some (Ret (0, dirents t, int (dents_len t), rs = []))"
proof -
  have n: "typed_dents 2 \<noteq> []" "dirents (typed_dents 2) \<noteq> []" by (simp_all add: typed_dents_def dirents_def live_def)
  from readdir_hands_out_entries [OF demo_content [of 2], of 0 "[]" "typed_dents 2" 268] n show ?thesis
    unfolding Let_def by simp blast
qed

end
