(* ===== verification/Ext2_BallocProps.thy ===== *)
theory Ext2_BallocProps
  imports Ext2_Balloc Ext2_Indir
begin

text \<open>
  What \<^verbatim>\<open>ext2_balloc\<close> does to a file without extents: the blocks it adds are fresh and belong to the file,
  every other block of the file stays where it was, and no data is written.
\<close>

declare tree_get.simps(2) [simp del]

section \<open>A block from the allocator\<close>

definition charged :: "inode \<Rightarrow> int \<Rightarrow> nat \<Rightarrow> u32 \<Rightarrow> inode" where
  "charged ip lbn b bsize = ip\<lparr>i_next_alloc_block := word_of_int lbn, i_next_alloc_goal := word_of_int (int b),
     i_blocks := i_blocks ip + ucast (drop_bit 9 bsize), i_flag := i_flag ip OR (IN_CHANGE OR IN_UPDATE)\<rparr>"

lemma alloc_inode:
  assumes "ext2_alloc ip lbn pref sz uid ump = Ret (0, int b, ip', ump')" "0 < b"
  shows "ip' = charged ip lbn b (e2fs_bsize (um_e2fs ump))"
  using assms unfolding ext2_alloc_def Let_def charged_def by (auto split: if_splits prod.splits simp: ENOSPC_def)

lemma took_block_lock: "took_block (u\<lparr>um_lock := l\<rparr>) r u' = took_block u r u'"
  by (simp add: took_block_def same_vol_def block_set_def allocated_def b_bitmap_def Let_def)

lemma blocks_ok_mutex: "blocks_ok (u\<lparr>um_lock := l\<rparr>) = blocks_ok u"
  by (simp add: blocks_ok_def bgroup_ok_def b_bitmap_def Let_def)

lemma alloc_keeps:
  assumes v: "vol_ok u" and home: "home_ok (um_e2fs u) (i_number ip)" and p: "0 \<le> pref"
  shows "ext2_alloc ip lbn pref sz uid (u\<lparr>um_lock := True\<rparr>) = Ret (ENOSPC, 0, ip, u) \<or>
     (\<exists>b u'. ext2_alloc ip lbn pref sz uid (u\<lparr>um_lock := True\<rparr>) = Ret (0, int b, charged ip lbn b (e2fs_bsize (um_e2fs u)), u') \<and>
        keeps u u' {} \<and> b \<notin> block_set u \<and> block_set u' = insert b (block_set u) \<and> b \<in> data_blocks u' \<and> b < 2 ^ 31)"
proof -
  let ?u = "u\<lparr>um_lock := True\<rparr>"
  have ok: "blocks_ok u" and lock: "\<not> um_lock u" and meta: "meta_blocks (um_e2fs u) \<subseteq> block_set u"
    using v by (simp_all add: vol_ok_def)
  note spec = ext2_alloc_spec [of ?u ip pref uid sz lbn, unfolded blocks_ok_mutex took_block_lock, OF ok _ _ p]
  show ?thesis
  proof (cases "no_space ?u uid sz")
    case True
    have "?u\<lparr>um_lock := False\<rparr> = u" using lock by (cases u) simp
    then show ?thesis using spec home True by simp
  next
    case False
    then obtain r ip' u' where r: "ext2_alloc ip lbn pref sz uid ?u = Ret (0, r, ip', u')" "took_block u r u'"
      "0 < r" "r < uint (e2fs_bcount (e2fs (um_e2fs u)))" using spec home by auto
    then obtain b where b: "r = int b" "b \<notin> block_set u" "block_set u' = insert b (block_set u)" "blocks_ok u'" "\<not> um_lock u'" "same_vol u u'"
      by (auto simp: took_block_def)
    have k: "keeps u u' {}" by (rule keeps_same_vol [OF v b(6,4,5)]) (use meta b(3) in auto)
    have "int b < int (unat (e2fs_bcount (e2fs (um_e2fs u))))" using r(4) unfolding b(1) uint_nat .
    then have "b < unat (e2fs_bcount (e2fs (um_e2fs u)))" by (simp only: of_nat_less_iff)
    then have "b \<in> data_blocks u'"
      using static_fs_fields(11,15) [OF keeps_static [OF k]] b meta r(3) by (auto simp: data_blocks_def)
    moreover have "b < 2 ^ 31" using took_block_range(3) [OF ok r(2)] b(1) by simp
    ultimately show ?thesis using r alloc_inode [of ip lbn pref sz uid ?u b ip' u'] b k by auto
  qed
qed

text \<open>A block can be allocated for position \<open>lbn\<close>: the caller has credentials, and the cache a buffer.\<close>

definition may_alloc :: "balloc_env \<Rightarrow> int \<Rightarrow> bool" where
  "may_alloc env lbn \<longleftrightarrow> be_getblk env lbn \<noteq> None \<and> is_ret (be_cred env)"

lemma may_alloc_cred: "may_alloc env lbn \<Longrightarrow> is_ret (be_cred env)"
  by (simp add: may_alloc_def)

lemma balloc_alloc_keeps:
  assumes "vol_ok u" "home_ok (um_e2fs u) (i_number ip)" "0 \<le> pref" "is_ret (be_cred env)"
  shows "balloc_alloc env ip lbn pref sz (u\<lparr>um_lock := True\<rparr>) = Ret (ENOSPC, 0, ip, u) \<or>
     (\<exists>b u'. balloc_alloc env ip lbn pref sz (u\<lparr>um_lock := True\<rparr>) = Ret (0, int b, charged ip lbn b (e2fs_bsize (um_e2fs u)), u') \<and>
        keeps u u' {} \<and> b \<notin> block_set u \<and> block_set u' = insert b (block_set u) \<and> b \<in> data_blocks u' \<and> b < 2 ^ 31)"
proof -
  obtain uid where uid: "be_cred env = Ret uid" using assms(4) unfolding is_ret_iff ..
  show ?thesis unfolding balloc_alloc_def uid bnd.simps by (rule alloc_keeps [OF assms(1-3)])
qed

section \<open>A subtree that grows\<close>

text \<open>A tree away from the blocks that change.\<close>

lemma tree_ok_away:
  assumes "keeps u u' W" "tree_ok u l w" "set (tree_blocks u l w) \<inter> W = {}" "set (tree_blocks u l w) \<subseteq> data_blocks u'"
  shows "tree_blocks u' l w = tree_blocks u l w" "tree_ok u' l w" "x < nindir_of u ^ l \<Longrightarrow> tree_get u' l w x = tree_get u l w x"
proof -
  have "agree u u' (set (tree_blocks u l w))"
    by (rule keeps_agree [OF assms(1,3)]) (use assms(2) in \<open>auto simp: tree_ok_def data_blocks_def\<close>)
  note t = agree_tree [OF this subset_refl] agree_get [OF this subset_refl]
  show "tree_blocks u' l w = tree_blocks u l w" by (rule t)
  then show "tree_ok u' l w" using assms(2,4) by (simp add: tree_ok_def)
  show "tree_get u' l w x = tree_get u l w x" if "x < nindir_of u ^ l" by (rule t(3) [OF that])
qed

lemma data_blocks_grow:
  assumes "keeps u u' W" "block_set u \<subseteq> block_set u'"
  shows "data_blocks u \<subseteq> data_blocks u'"
  using static_fs_fields(11,15) [OF keeps_static [OF assms(1)]] assms(2) by (auto simp: data_blocks_def)

text \<open>The data blocks of a tree.\<close>

definition tree_data :: "ext2mount \<Rightarrow> nat \<Rightarrow> u32 \<Rightarrow> nat set" where
  "tree_data u l w = (\<lambda>x. unat (tree_get u l w x)) ` {x. x < nindir_of u ^ l \<and> tree_get u l w x \<noteq> 0}"

lemma tree_data_subset: "tree_data u l w \<subseteq> set (tree_blocks u l w)"
  by (auto simp: tree_data_def tree_get_in)

lemma tree_data_0: "tree_data u 0 w = (if w = 0 then {} else {unat w})"
  by (auto simp: tree_data_def tree_get.simps)

lemma tree_data_hole [simp]: "tree_data u l 0 = {}"
  by (simp add: tree_data_def)

lemma tree_data_Suc:
  assumes "w \<noteq> 0"
  shows "tree_data u (Suc l) w = (\<Union>k<nindir_of u. tree_data u l (ptr_of u w k))"
proof (intro equalityI subsetI)
  fix b assume "b \<in> tree_data u (Suc l) w"
  then obtain x where x: "b = unat (tree_get u (Suc l) w x)" "x < nindir_of u ^ Suc l" "tree_get u (Suc l) w x \<noteq> 0"
    by (auto simp: tree_data_def)
  then have n: "0 < nindir_of u" by (auto intro: ccontr)
  obtain k y where y: "x = k * nindir_of u ^ l + y" "k < nindir_of u" "y < nindir_of u ^ l"
    by (rule position_split [OF x(2) n])
  then show "b \<in> (\<Union>k<nindir_of u. tree_data u l (ptr_of u w k))"
    using x tree_get_child [OF assms y(2,3)] by (auto simp: tree_data_def)
next
  fix b assume "b \<in> (\<Union>k<nindir_of u. tree_data u l (ptr_of u w k))"
  then obtain k y where y: "k < nindir_of u" "y < nindir_of u ^ l" "b = unat (tree_get u l (ptr_of u w k) y)" "tree_get u l (ptr_of u w k) y \<noteq> 0"
    by (auto simp: tree_data_def)
  have "Suc k * nindir_of u ^ l \<le> nindir_of u * nindir_of u ^ l" using y(1) by (intro mult_le_mono1) simp
  then have "k * nindir_of u ^ l + y < nindir_of u ^ Suc l" using y(2) by simp
  then show "b \<in> tree_data u (Suc l) w" unfolding tree_data_def using tree_get_child [OF assms y(1,2)] y(3,4) by force
qed

text \<open>
  \<open>grown u u' l w w' x N\<close>: position \<open>x\<close> of the tree below \<open>w\<close> may have got a block, and with it the tree, now below
  \<open>w'\<close>, the blocks \<open>N\<close>. No data block changes.
\<close>

definition grown :: "ext2mount \<Rightarrow> ext2mount \<Rightarrow> nat \<Rightarrow> u32 \<Rightarrow> u32 \<Rightarrow> nat \<Rightarrow> nat set \<Rightarrow> bool" where
  "grown u u' l w w' x N \<longleftrightarrow> finite N \<and> N \<inter> block_set u = {} \<and> block_set u' = block_set u \<union> N \<and>
     keeps u u' (set (tree_blocks u l w) - tree_data u l w \<union> N) \<and>
     tree_ok u' l w' \<and> set (tree_blocks u' l w') = set (tree_blocks u l w) \<union> N \<and>
     (\<forall>y < nindir_of u ^ l. y \<noteq> x \<or> tree_get u l w x \<noteq> 0 \<longrightarrow> tree_get u' l w' y = tree_get u l w y)"

lemma grown_refl: "vol_ok u \<Longrightarrow> tree_ok u l w \<Longrightarrow> grown u u l w w x {}"
  by (simp add: grown_def keeps_refl)

lemma grown_parent:
  assumes t: "tree_ok u (Suc l) w" "w \<noteq> 0" and k: "k < nindir_of u" "y < nindir_of u ^ l"
    and N: "finite N" "N \<inter> block_set u = {}" "block_set u' = block_set u \<union> N"
    and kp: "keeps u u' V" "V \<subseteq> insert (unat w) (set (tree_blocks u l (ptr_of u w k)) - tree_data u l (ptr_of u w k) \<union> N)"
    and ptr: "\<And>j. j < nindir_of u \<Longrightarrow> j \<noteq> k \<Longrightarrow> ptr_of u' w j = ptr_of u w j" "ptr_of u' w k = c"
    and c: "tree_ok u' l c" "set (tree_blocks u' l c) = set (tree_blocks u l (ptr_of u w k)) \<union> N"
    and get: "\<And>z. z < nindir_of u ^ l \<Longrightarrow> z \<noteq> y \<or> tree_get u l (ptr_of u w k) y \<noteq> 0 \<Longrightarrow> tree_get u' l c z = tree_get u l (ptr_of u w k) z"
  shows "grown u u' (Suc l) w w (k * nindir_of u ^ l + y) N"
proof -
  let ?n = "nindir_of u"
  let ?T = "\<lambda>j. set (tree_blocks u l (ptr_of u w j))" and ?T' = "\<lambda>j. set (tree_blocks u' l (ptr_of u' w j))"
  note n' = keeps_params(1) [OF kp(1)]
  have db: "set (tree_blocks u (Suc l) w) \<subseteq> data_blocks u" using t(1) by (simp add: tree_ok_def)
  have grow: "data_blocks u \<subseteq> data_blocks u'" by (rule data_blocks_grow [OF kp(1)]) (simp add: N(3))
  have dN: "data_blocks u \<inter> N = {}" using N(2) by (auto simp: data_blocks_def)
  have w: "unat w \<in> data_blocks u" "unat w \<notin> N" using db dN by (auto simp: set_tree_Suc [OF t(2)])
  have Tj: "?T j \<subseteq> data_blocks u" "unat w \<notin> ?T j" "tree_ok u l (ptr_of u w j)" if "j < ?n" for j
    using tree_ok_child [OF t that] db by blast+
  have dis: "?T i \<inter> ?T j = {}" if "i < ?n" "j < ?n" "i \<noteq> j" for i j by (rule tree_ok_disjoint [OF t that])
  have away: "?T j \<inter> V = {}" if "j < ?n" "j \<noteq> k" for j
    using kp(2) dis [OF that(1) k(1) that(2)] Tj(1,2) [OF that(1)] dN by blast
  have old: "tree_blocks u' l (ptr_of u' w j) = tree_blocks u l (ptr_of u w j)" "tree_ok u' l (ptr_of u' w j)"
    "x < ?n ^ l \<Longrightarrow> tree_get u' l (ptr_of u' w j) x = tree_get u l (ptr_of u w j) x" if "j < ?n" "j \<noteq> k" for j x
    using tree_ok_away [OF kp(1) Tj(3) [OF that(1)] away [OF that]] Tj(1) [OF that(1)] grow ptr(1) [OF that] by auto
  have ok': "tree_ok u' l (ptr_of u' w j)" if "j < ?n" for j using old(2) [OF that] c(1) ptr(2) by (cases "j = k") simp_all
  have T': "?T' j = (if j = k then ?T k \<union> N else ?T j)" if "j < ?n" for j
    using old(1) [OF that] c(2) ptr(2) by (cases "j = k") simp_all
  have set': "set (tree_blocks u' (Suc l) w) = set (tree_blocks u (Suc l) w) \<union> N"
    unfolding set_tree_Suc [OF t(2)] n' using T' k(1) by (auto split: if_splits)
  have "distinct (tree_blocks u' (Suc l) w)"
    unfolding distinct_tree_Suc [OF t(2)] n'
  proof (intro conjI allI impI)
    fix j assume j: "j < ?n"
    show "distinct (tree_blocks u' l (ptr_of u' w j))" using ok' [OF j] by (simp add: tree_ok_def)
    show "unat w \<notin> ?T' j" using T' [OF j] Tj(2) [OF j] w(2) k(1) Tj(2) [OF k(1)] by simp
  next
    fix i j assume ij: "i < ?n" "j < ?n" "i \<noteq> j"
    show "?T' i \<inter> ?T' j = {}"
      unfolding T' [OF ij(1)] T' [OF ij(2)] using dis [OF ij] Tj(1) [OF ij(1)] Tj(1) [OF ij(2)] dN ij(3) by auto
  qed
  moreover have "set (tree_blocks u' (Suc l) w) \<subseteq> data_blocks u'"
  proof -
    have "N \<subseteq> data_blocks u'" using c by (auto simp: tree_ok_def)
    then show ?thesis unfolding set' using db grow by blast
  qed
  ultimately have ok: "tree_ok u' (Suc l) w" by (simp add: tree_ok_def)
  have "V \<subseteq> set (tree_blocks u (Suc l) w) - tree_data u (Suc l) w \<union> N"
  proof -
    have d: "tree_data u (Suc l) w \<subseteq> tree_data u l (ptr_of u w k) \<union> (\<Union>j\<in>{j. j < ?n \<and> j \<noteq> k}. ?T j)"
      unfolding tree_data_Suc [OF t(2)] using tree_data_subset by blast
    have "unat w \<notin> tree_data u (Suc l) w" unfolding tree_data_Suc [OF t(2)] using Tj(2) tree_data_subset by blast
    moreover have "?T k - tree_data u l (ptr_of u w k) \<subseteq> - tree_data u (Suc l) w" using d dis [OF k(1)] by blast
    ultimately show ?thesis using kp(2) k(1) unfolding set_tree_Suc [OF t(2)] by blast
  qed
  then have keep: "keeps u u' (set (tree_blocks u (Suc l) w) - tree_data u (Suc l) w \<union> N)" by (rule keeps_mono [OF kp(1)])
  have "tree_get u' (Suc l) w z = tree_get u (Suc l) w z"
    if z: "z < ?n ^ Suc l" "z \<noteq> k * ?n ^ l + y \<or> tree_get u (Suc l) w (k * ?n ^ l + y) \<noteq> 0" for z
  proof -
    have n: "0 < ?n" using k(1) by simp
    obtain j v where j: "z = j * ?n ^ l + v" "j < ?n" "v < ?n ^ l" by (rule position_split [OF z(1) n])
    have "tree_get u' l (ptr_of u' w j) v = tree_get u l (ptr_of u w j) v"
    proof (cases "j = k")
      case True
      then show ?thesis using get [OF j(3)] z(2) j(1) tree_get_child [OF t(2) k] ptr(2) by auto
    next
      case False
      then show ?thesis by (rule old(3) [OF j(2) _ j(3)])
    qed
    then show ?thesis
      unfolding j(1) tree_get_child [OF t(2) j(2,3)] tree_get_child [OF t(2), of j u' v l, unfolded n', OF j(2,3)] .
  qed
  then show ?thesis unfolding grown_def using N keep ok set' by blast
qed

section \<open>Steps\<close>

text \<open>A device on which no write fails and every block has a buffer.\<close>

definition healthy :: "ext2mount \<Rightarrow> bool" where
  "healthy u \<longleftrightarrow> (\<forall>a. dev_werr (um_devvp u) a = 0) \<and> (\<forall>a. \<not> dev_nobuf (um_devvp u) a)"

lemma healthy_keeps: "keeps u u' W \<Longrightarrow> healthy u' = healthy u"
  by (simp add: healthy_def keeps_def)

lemma healthy_bwrite: "healthy u \<Longrightarrow> buf_bwrite (um_devvp u) a bs = (0, buf_bdwrite (um_devvp u) a bs)"
  by (simp add: healthy_def buf_bwrite_def buf_bdwrite_def)

lemma write_pointers_eq: "write_pointers env a bap u = u\<lparr>um_devvp := buf_bdwrite (um_devvp u) a bap\<rparr>"
  by (simp add: write_pointers_def buf_bwrite_def buf_bdwrite_def)

lemma vol_read: "vol_ok u \<Longrightarrow> buf_meta_bread (um_devvp u) a = Inr (dev_blk (um_devvp u) a)"
  by (simp add: vol_ok_def buf_meta_bread_def)

lemma digits_place:
  assumes "k < n" "y < n ^ l"
  shows "digits n (Suc l) (k * n ^ l + y) = k # digits n l y"
proof -
  have n: "0 < n" using assms(1) by simp
  have "(k * n ^ l + y) div n ^ j mod n = y div n ^ j mod n" if "j < l" for j
  proof -
    obtain d where d: "l = j + Suc d" using less_imp_Suc_add [OF \<open>j < l\<close>] by auto
    have "k * n ^ l + y = y + k * n ^ d * n * n ^ j" by (simp add: d power_add algebra_simps)
    moreover have "(y + k * n ^ d * n * n ^ j) div n ^ j = k * n ^ d * n + y div n ^ j" using n by (intro div_mult_self1) simp
    ultimately have "(k * n ^ l + y) div n ^ j = y div n ^ j + k * n ^ d * n" by (simp only: add.commute)
    then show ?thesis by simp
  qed
  then have "digits n l (k * n ^ l + y) = digits n l y" by (simp add: digits_def)
  then show ?thesis using assms n by (simp add: digits_Suc)
qed

text \<open>A pointer written into an indirect block.\<close>

lemma st32_pointer:
  assumes "k < n" "length bs = 4 * n"
  obtains bs' where "st32 bs (4 * int k) v = Ret bs'" "length bs' = length bs" "get_u32 bs' (int k) = Ret v"
    "\<And>j. j \<noteq> k \<Longrightarrow> get_u32 bs' (int j) = get_u32 bs (int j)"
proof -
  have "4 * k + length (bytes_of v) \<le> length bs" using assms by simp
  from blit_in [OF this] obtain bs' where b: "blit bs (4 * int k) (bytes_of v) = Ret bs'"
    by (auto simp del: blit_Ret)
  show ?thesis
  proof (rule that)
    show "st32 bs (4 * int k) v = Ret bs'" using b by (simp add: st32_def)
    show "length bs' = length bs" by (rule blit_length [OF b])
    show "get_u32 bs' (int k) = Ret v"
      unfolding get_u32_ld32 ld32_def using slice_blit_same [OF b] by (simp del: slice_Ret)
    fix j assume "j \<noteq> k"
    then consider "4 * int j + int 4 \<le> 4 * int k" | "4 * int k + int (length (bytes_of v)) \<le> 4 * int j" by fastforce
    then show "get_u32 bs' (int j) = get_u32 bs (int j)"
      unfolding get_u32_ld32 ld32_def by cases (simp_all only: slice_blit_before [OF b] slice_blit_after [OF b])
  qed
qed

lemma put_pointer:
  assumes v: "vol_ok u" and w: "unat w \<notin> meta_blocks (um_e2fs u)" and k: "k < nindir_of u"
    and st: "st32 (dev_blk (um_devvp u) (blk_addr u (unat w))) (4 * int k) c = Ret bs"
  defines "u' \<equiv> u\<lparr>um_devvp := buf_bdwrite (um_devvp u) (blk_addr u (unat w)) bs\<rparr>"
  shows "keeps u u' {unat w}" "block_set u' = block_set u" "ptr_of u' w k = c"
    "j < nindir_of u \<Longrightarrow> j \<noteq> k \<Longrightarrow> ptr_of u' w j = ptr_of u w j"
proof -
  let ?bs = "dev_blk (um_devvp u) (blk_addr u (unat w))"
  have len: "length ?bs = 4 * nindir_of u" "length ?bs = unat (e2fs_bsize (um_e2fs u))" using v by (simp_all add: vol_ok_def)
  obtain bs' where b: "st32 ?bs (4 * int k) c = Ret bs'" "length bs' = length ?bs" "get_u32 bs' (int k) = Ret c"
    "\<And>j. j \<noteq> k \<Longrightarrow> get_u32 bs' (int j) = get_u32 ?bs (int j)" by (rule st32_pointer [OF k len(1)]) blast
  then have e: "bs' = bs" using st by simp
  show "keeps u u' {unat w}" "block_set u' = block_set u"
    unfolding u'_def by (rule blk_write [OF v w], simp only: b(2) [unfolded e] len(2))+
  have p: "ptr_of u' w j = (case get_u32 bs (int j) of Ret d \<Rightarrow> d | Fault f \<Rightarrow> 0)" for j
    by (simp add: ptr_of_def u'_def blk_addr_def)
  show "ptr_of u' w k = c" using b(3) unfolding p e by simp
  show "ptr_of u' w j = ptr_of u w j" if "j < nindir_of u" "j \<noteq> k"
    using b(4) [OF that(2)] ptr_of_read [OF v that(1), of w] unfolding p e by simp
qed

definition block_charge :: "m_ext2fs \<Rightarrow> u64" where
  "block_charge fs = ucast (drop_bit 9 (e2fs_bsize fs))"

text \<open>What of an inode an allocation may not change.\<close>

definition bare :: "inode \<Rightarrow> inode" where
  "bare ip = ip\<lparr>i_next_alloc_block := 0, i_next_alloc_goal := 0, i_blocks := 0, i_flag := i_flag ip AND NOT (IN_CHANGE OR IN_UPDATE),
     i_db := [], i_ib := []\<rparr>"

definition inode_kept :: "m_ext2fs \<Rightarrow> nat \<Rightarrow> inode \<Rightarrow> inode \<Rightarrow> bool" where
  "inode_kept fs n ip ip' \<longleftrightarrow> bare ip' = bare ip \<and> i_blocks ip' = i_blocks ip + of_nat n * block_charge fs"

lemma inode_kept_refl [simp]: "inode_kept fs 0 ip ip"
  by (simp add: inode_kept_def)

lemma inode_kept_trans: "inode_kept fs m ip ip' \<Longrightarrow> inode_kept fs n ip' ip'' \<Longrightarrow> inode_kept fs (m + n) ip ip''"
  by (simp add: inode_kept_def algebra_simps)

lemma flag_masked: "(f OR IN_CHANGE OR IN_UPDATE) AND NOT IN_CHANGE AND NOT IN_UPDATE = f AND NOT IN_CHANGE AND NOT IN_UPDATE"
  by (rule bit_word_eqI) (auto simp: bit_simps)

lemma inode_kept_simps:
  "inode_kept fs n (ip\<lparr>i_db := db\<rparr>) ip' = inode_kept fs n ip ip'" "inode_kept fs n ip (ip'\<lparr>i_db := db\<rparr>) = inode_kept fs n ip ip'"
  "inode_kept fs n (ip\<lparr>i_ib := db\<rparr>) ip' = inode_kept fs n ip ip'" "inode_kept fs n ip (ip'\<lparr>i_ib := db\<rparr>) = inode_kept fs n ip ip'"
  "inode_kept fs n ip (mark_changed ip') = inode_kept fs n ip ip'"
  by (simp_all add: inode_kept_def bare_def mark_changed_def flag_masked)

lemma charged_kept:
  "inode_kept fs (Suc 0) ip (charged ip lbn b (e2fs_bsize fs))" "i_db (charged ip lbn b s) = i_db ip" "i_ib (charged ip lbn b s) = i_ib ip"
  by (simp_all add: inode_kept_def bare_def charged_def block_charge_def flag_masked)

lemma inode_kept_fields:
  assumes "inode_kept fs n ip ip'"
  shows "i_size ip' = i_size ip" "i_number ip' = i_number ip" "i_block_group ip' = i_block_group ip"
    "i_flag ip' AND IN_E4EXTENTS = i_flag ip AND IN_E4EXTENTS"
proof -
  have b: "bare ip' = bare ip" using assms by (simp add: inode_kept_def)
  show "i_size ip' = i_size ip" using arg_cong [OF b, of i_size] by (simp add: bare_def)
  show "i_number ip' = i_number ip" using arg_cong [OF b, of i_number] by (simp add: bare_def)
  show "i_block_group ip' = i_block_group ip" using arg_cong [OF b, of i_block_group] by (simp add: bare_def)
  have f: "f AND IN_E4EXTENTS = (f AND NOT (IN_CHANGE OR IN_UPDATE)) AND IN_E4EXTENTS" for f :: u32
  proof -
    have "NOT (IN_CHANGE OR IN_UPDATE) AND IN_E4EXTENTS = IN_E4EXTENTS" by (simp add: IN_CHANGE_def IN_UPDATE_def IN_E4EXTENTS_def)
    then show ?thesis by (simp only: and.assoc)
  qed
  have "i_flag ip' AND NOT (IN_CHANGE OR IN_UPDATE) = i_flag ip AND NOT (IN_CHANGE OR IN_UPDATE)"
    using arg_cong [OF b, of i_flag] by (simp add: bare_def)
  then show "i_flag ip' AND IN_E4EXTENTS = i_flag ip AND IN_E4EXTENTS" by (subst (1 2) f) simp
qed

text \<open>A fresh indirect block.\<close>

lemma new_indirect_ok:
  assumes v: "vol_ok u" and home: "home_ok (um_e2fs u) (i_number ip)" and p: "0 \<le> pref" and h: "healthy u" and cr: "is_ret (be_cred env)"
  shows "new_indirect env lbn pref unlock ip (u\<lparr>um_lock := True\<rparr>) = Ret (ENOSPC, 0, ip, u) \<or>
     (\<exists>b u'. new_indirect env lbn pref unlock ip (u\<lparr>um_lock := True\<rparr>) = Ret (0, int b, charged ip lbn b (e2fs_bsize (um_e2fs u)), u') \<and>
        keeps u u' {b} \<and> b \<notin> block_set u \<and> block_set u' = insert b (block_set u) \<and> b \<in> data_blocks u' \<and> b < 2 ^ 31 \<and>
        (\<forall>k < nindir_of u'. ptr_of u' (word_of_int (int b)) k = 0))"
  using balloc_alloc_keeps [OF v home p cr, of lbn "sint (e2fs_bsize (um_e2fs u))"]
proof (elim disjE exE conjE)
  assume "balloc_alloc env ip lbn pref (sint (e2fs_bsize (um_e2fs u))) (u\<lparr>um_lock := True\<rparr>) = Ret (ENOSPC, 0, ip, u)"
  then show ?thesis by (simp add: new_indirect_def ENOSPC_def del: bnd_Ret_iff)
next
  fix b u1
  assume a: "balloc_alloc env ip lbn pref (sint (e2fs_bsize (um_e2fs u))) (u\<lparr>um_lock := True\<rparr>) =
      Ret (0, int b, charged ip lbn b (e2fs_bsize (um_e2fs u)), u1)"
    and k1: "keeps u u1 {}" and b: "b \<notin> block_set u" "block_set u1 = insert b (block_set u)" "b \<in> data_blocks u1" "b < 2 ^ 31"
  define z where "z = replicate (unat (e2fs_bsize (um_e2fs u))) (0 :: u8)"
  define u2 where "u2 = u1\<lparr>um_devvp := buf_bdwrite (um_devvp u1) (blk_addr u1 b) z\<rparr>"
  have v1: "vol_ok u1" and h1: "healthy u1" using keeps_vol [OF k1] healthy_keeps [OF k1] h by simp_all
  have bs: "e2fs_bsize (um_e2fs u1) = e2fs_bsize (um_e2fs u)" by (rule static_fs_fields(1) [OF keeps_static [OF k1]])
  have meta: "b \<notin> meta_blocks (um_e2fs u1)" using b(3) by (simp add: data_blocks_def)
  have fa: "fsbtodb (um_e2fs u) (int b) = blk_addr u1 b" using fsbtodb_blk [OF v] keeps_params(2) [OF k1] by simp
  have "length z = unat (e2fs_bsize (um_e2fs u1))" by (simp add: z_def bs)
  note w = blk_write [OF v1 meta this, folded u2_def]
  have "new_indirect env lbn pref unlock ip (u\<lparr>um_lock := True\<rparr>) = Ret (0, int b, charged ip lbn b (e2fs_bsize (um_e2fs u)), u2)"
    using a h1 unfolding new_indirect_def Let_def
    by (simp add: fa healthy_bwrite [OF h1] u2_def z_def del: bnd_Ret_iff) (simp add: healthy_def)
  moreover have "keeps u u2 {b}" using keeps_trans [OF k1 w(1)] by simp
  moreover have "b \<in> data_blocks u2" using data_blocks_grow [OF w(1)] w(2) b(3) by auto
  moreover have "ptr_of u2 (word_of_int (int b)) k = 0" if "k < nindir_of u2" for k
  proof -
    have ub: "unat (word_of_int (int b) :: u32) = b" by (rule unat_word_of_int_nat [OF b(4)])
    have d: "dev_blk (um_devvp u2) (blk_addr u2 b) = z" by (simp add: u2_def blk_addr_def)
    have "4 * k + 4 \<le> length z" using that keeps_vol [OF w(1)] by (simp add: vol_ok_def z_def u2_def bs)
    then have "get_u32 z (int k) = Ret 0"
      unfolding get_u32_ld32 ld32_def using slice_in [of "4 * k" 4 z]
      by (simp add: z_def take_replicate le32_zero [simplified] min_def numeral_eq_Suc del: slice_Ret)
    then show ?thesis using ptr_of_read [OF keeps_vol [OF w(1)] that, of "word_of_int (int b)"] unfolding ub d by simp
  qed
  ultimately show ?thesis using b w(2) by auto
qed

section \<open>The walk through the indirect blocks\<close>

lemma grown_child:
  assumes t: "tree_ok u (Suc l) w" "w \<noteq> 0" and k: "k < nindir_of u" "y < nindir_of u ^ l"
    and g: "grown u u' l (ptr_of u w k) (ptr_of u w k) y N"
  shows "grown u u' (Suc l) w w (k * nindir_of u ^ l + y) N"
proof -
  let ?V = "set (tree_blocks u l (ptr_of u w k)) - tree_data u l (ptr_of u w k) \<union> N"
  have N: "finite N" "N \<inter> block_set u = {}" "block_set u' = block_set u \<union> N" and kp: "keeps u u' ?V"
    using g by (simp_all add: grown_def)
  have w: "unat w \<in> data_blocks u" using t by (auto simp: tree_ok_def set_tree_Suc)
  have "unat w \<notin> ?V" using tree_ok_child(3) [OF t k(1)] w N(2) by (auto simp: data_blocks_def)
  then have "agree u u' {unat w}" using w by (intro keeps_agree [OF kp]) (auto simp: data_blocks_def)
  then have p: "ptr_of u' w j = ptr_of u w j" for j by (rule agree_ptr) simp
  show ?thesis
    by (rule grown_parent [OF t k N kp _ _ p [of k]]) (use g p in \<open>auto simp: grown_def\<close>)
qed

lemma grown_trans:
  assumes g: "grown u v l w w x M" and h: "grown v u' l w w x N"
  shows "grown u u' l w w x (M \<union> N)"
proof -
  have kp: "keeps u v (set (tree_blocks u l w) - tree_data u l w \<union> M)" "keeps v u' (set (tree_blocks v l w) - tree_data v l w \<union> N)"
    using g h by (simp_all add: grown_def)
  note n = keeps_params(1) [OF kp(1)]
  have get: "tree_get v l w y = tree_get u l w y" if "y < nindir_of u ^ l" "y \<noteq> x \<or> tree_get u l w x \<noteq> 0" for y
    using g that by (simp add: grown_def)
  have get2: "tree_get u' l w y = tree_get v l w y" if "y < nindir_of u ^ l" "y \<noteq> x \<or> tree_get v l w x \<noteq> 0" for y
    using h that n by (simp add: grown_def)
  have d: "tree_data u l w \<subseteq> tree_data v l w"
  proof
    fix b assume "b \<in> tree_data u l w"
    then obtain y where y: "b = unat (tree_get u l w y)" "y < nindir_of u ^ l" "tree_get u l w y \<noteq> 0" by (auto simp: tree_data_def)
    then have "tree_get v l w y = tree_get u l w y" using get [OF y(2)] by blast
    then show "b \<in> tree_data v l w" unfolding tree_data_def using y n by force
  qed
  have set: "set (tree_blocks v l w) = set (tree_blocks u l w) \<union> M" using g by (simp add: grown_def)
  have "keeps u u' (set (tree_blocks u l w) - tree_data u l w \<union> (M \<union> N))"
    by (rule keeps_mono [OF keeps_trans [OF kp]]) (use d set in blast)
  moreover have "tree_get u' l w y = tree_get u l w y" if "y < nindir_of u ^ l" "y \<noteq> x \<or> tree_get u l w x \<noteq> 0" for y
  proof -
    have "y \<noteq> x \<or> tree_get v l w x \<noteq> 0" using that get [of x] by (cases "y = x") simp_all
    then show ?thesis using get2 [OF that(1)] get [OF that] by simp
  qed
  ultimately show ?thesis using g h set by (auto simp: grown_def)
qed

text \<open>A fresh block as a tree.\<close>

lemma zero_tree:
  assumes "c \<noteq> 0" "l = 0 \<or> (\<forall>k < nindir_of u. ptr_of u c k = 0)"
  shows "tree_blocks u l c = [unat c]" "l \<noteq> 0 \<Longrightarrow> x < nindir_of u ^ l \<Longrightarrow> tree_get u l c x = 0"
proof -
  have "tree_blocks u l c = [unat c] \<and> (l \<noteq> 0 \<longrightarrow> x < nindir_of u ^ l \<longrightarrow> tree_get u l c x = 0)"
  proof (cases l)
    case (Suc l')
    have z: "ptr_of u c k = 0" if "k < nindir_of u" for k using assms(2) that Suc by simp
    have "concat (map (\<lambda>k. tree_blocks u l' (ptr_of u c k)) [0..<nindir_of u]) = []" by (auto simp: z)
    moreover have "tree_get u l c x = 0" if x: "x < nindir_of u ^ l"
    proof -
      have "0 < nindir_of u" using x Suc by (auto intro: ccontr)
      then show ?thesis using tree_get_top [of u c l' x] assms(1) z unfolding Suc by simp
    qed
    ultimately show ?thesis using assms(1) by (simp add: Suc tree_blocks.simps)
  qed (use assms in simp)
  then show "tree_blocks u l c = [unat c]" "l \<noteq> 0 \<Longrightarrow> x < nindir_of u ^ l \<Longrightarrow> tree_get u l c x = 0" by simp_all
qed

text \<open>A fresh block becomes child \<open>k\<close> of an indirect block.\<close>

lemma hook:
  assumes v: "vol_ok u" and t: "tree_ok u (Suc l) w" "w \<noteq> 0" and k: "k < nindir_of u" "y < nindir_of u ^ l" and z: "ptr_of u w k = 0"
    and a: "keeps u u1 {b}" "b \<notin> block_set u" "block_set u1 = insert b (block_set u)" "b \<in> data_blocks u1" "b < 2 ^ 31"
    and empty: "l = 0 \<or> (\<forall>j < nindir_of u1. ptr_of u1 (word_of_int (int b)) j = 0)"
    and st: "st32 (dev_blk (um_devvp u) (blk_addr u (unat w))) (4 * int k) (word_of_int (int b)) = Ret bs"
  defines "u2 \<equiv> u1\<lparr>um_devvp := buf_bdwrite (um_devvp u1) (blk_addr u (unat w)) bs\<rparr>" and "c \<equiv> word_of_int (int b) :: u32"
  shows "grown u u2 (Suc l) w w (k * nindir_of u ^ l + y) {b}" "ptr_of u2 w k = c" "tree_ok u2 l c" "c \<noteq> 0"
    "l \<noteq> 0 \<Longrightarrow> tree_get u2 l c y = 0"
proof -
  have ub: "unat c = b" unfolding c_def by (rule unat_word_of_int_nat [OF a(5)])
  show nz: "c \<noteq> 0" using ub a(4) by (auto simp: data_blocks_def)
  have wd: "unat w \<in> data_blocks u" using t by (auto simp: tree_ok_def set_tree_Suc)
  then have wb: "unat w \<noteq> b" "unat w \<notin> meta_blocks (um_e2fs u)" using a(2) by (auto simp: data_blocks_def)
  note p1 = keeps_params [OF a(1)]
  have meta: "unat w \<notin> meta_blocks (um_e2fs u1)" using wb(2) static_fs_fields(15) [OF keeps_static [OF a(1)]] by simp
  have "dev_blk (um_devvp u1) (blk_addr u (unat w)) = dev_blk (um_devvp u) (blk_addr u (unat w))"
    using a(1) wb by (simp add: keeps_def)
  then have st1: "st32 (dev_blk (um_devvp u1) (blk_addr u1 (unat w))) (4 * int k) c = Ret bs" using st p1(2) by (simp add: c_def)
  have k1: "k < nindir_of u1" using k(1) p1(1) by simp
  note pp = put_pointer [OF keeps_vol [OF a(1)] meta k1 st1, unfolded p1(2), folded u2_def]
  show ptr: "ptr_of u2 w k = c" by (rule pp(3))
  have kp: "keeps u u2 {b, unat w}" by (rule keeps_mono [OF keeps_trans [OF a(1) pp(1)]]) auto
  have ag: "agree u1 u2 {b}" using wb a(4) by (intro keeps_agree [OF pp(1)]) (auto simp: data_blocks_def)
  have n2: "nindir_of u2 = nindir_of u" by (rule keeps_params(1) [OF kp])
  have "l = 0 \<or> (\<forall>j < nindir_of u2. ptr_of u2 c j = 0)"
    using empty agree_ptr [OF ag, of c] ub n2 p1(1) by (auto simp: c_def)
  note zt = zero_tree [OF nz this]
  have bd: "b \<in> data_blocks u2" using data_blocks_grow [OF pp(1)] pp(2) a(4) by auto
  then show ok: "tree_ok u2 l c" using zt(1) by (simp add: tree_ok_def ub)
  show "tree_get u2 l c y = 0" if "l \<noteq> 0" by (rule zt(2) [OF that]) (use k(2) n2 in simp)
  have T: "set (tree_blocks u2 l c) = set (tree_blocks u l (ptr_of u w k)) \<union> {b}" using zt(1) by (simp add: z ub)
  have ptrs: "ptr_of u2 w j = ptr_of u w j" if "j < nindir_of u" "j \<noteq> k" for j
  proof -
    have "agree u u1 {unat w}" using wb by (intro keeps_agree [OF a(1)]) auto
    then have "ptr_of u1 w j = ptr_of u w j" by (rule agree_ptr) simp
    then show ?thesis using pp(4) [of j] that p1(1) by simp
  qed
  have get: "tree_get u2 l c x = tree_get u l (ptr_of u w k) x" if "x < nindir_of u ^ l" "x \<noteq> y \<or> tree_get u l (ptr_of u w k) y \<noteq> 0" for x
  proof (cases "l = 0")
    case True
    then show ?thesis using that k(2) by (simp add: z)
  next
    case False
    then show ?thesis using zt(2) [OF False, of x] that(1) n2 by (simp add: z)
  qed
  have V: "{b, unat w} \<subseteq> insert (unat w) (set (tree_blocks u l (ptr_of u w k)) - tree_data u l (ptr_of u w k) \<union> {b})" by blast
  show "grown u u2 (Suc l) w w (k * nindir_of u ^ l + y) {b}"
    by (rule grown_parent [OF t k _ _ _ kp V ptrs ptr ok T get]) (use a(2,3) pp(2) in auto)
qed

section \<open>The walk and the data block together\<close>

lemma near_block_total: "k \<le> length ws \<Longrightarrow> \<exists>b. near_block ws k = Ret b"
  by (induction k) (auto simp: rd_in simp del: bnd_Ret_iff)

lemma blkpref_total:
  assumes "nat k \<le> length ws"
  obtains p where "ext2_blkpref ip lbn k (Some ws) bnr fs = Ret p" "0 \<le> p"
proof -
  obtain b where "near_block ws (nat k) = Ret b" using near_block_total [OF assms] by blast
  then have "\<exists>p. ext2_blkpref ip lbn k (Some ws) bnr fs = Ret p \<and> 0 \<le> p"
    by (simp add: ext2_blkpref_def del: bnd_Ret_iff)
  then show ?thesis using that by blast
qed

definition balloc_below :: "balloc_env \<Rightarrow> int \<Rightarrow> indir list \<Rightarrow> u32 \<Rightarrow> int \<Rightarrow> inode \<Rightarrow> ext2mount \<Rightarrow> balloc_result outcome" where
  "balloc_below env lbn es w pref ip ump =
     bnd (balloc_walk env lbn es w pref ip ump) (\<lambda>(error, indirb, bap, nb, e, ip, ump).
     if error \<noteq> 0 then Ret (error, None, ip, ump) else balloc_data env lbn indirb bap nb e ip ump)"

definition below_done :: "ext2mount \<Rightarrow> inode \<Rightarrow> nat \<Rightarrow> u32 \<Rightarrow> nat \<Rightarrow> nat set \<Rightarrow> errno \<Rightarrow> bytes option \<Rightarrow> inode \<Rightarrow> ext2mount \<Rightarrow> bool" where
  "below_done u ip l w x N error bp ip' u' \<longleftrightarrow> grown u u' l w w x N \<and> inode_kept (um_e2fs u) (card N) ip ip' \<and>
     i_db ip' = i_db ip \<and> i_ib ip' = i_ib ip \<and>
     (error = 0 \<and> bp \<noteq> None \<and> tree_get u' l w x \<noteq> 0 \<or> error = ENOSPC \<and> bp = None \<and> tree_get u' l w x = tree_get u l w x) \<and>
     (tree_get u l w x \<noteq> 0 \<longrightarrow> error = 0 \<and> u' = u \<and> ip' = ip)"

text \<open>What the buffer holds: \<open>rbs\<close>, as read, for a block that was mapped before, and for a new one what the cache had.\<close>

definition buf_holds :: "balloc_env \<Rightarrow> int \<Rightarrow> bytes \<Rightarrow> bool \<Rightarrow> errno \<Rightarrow> bytes option \<Rightarrow> bool" where
  "buf_holds env lbn rbs mapped error bp \<longleftrightarrow> error = 0 \<longrightarrow>
     (if mapped then be_clrbuf env \<longrightarrow> bp = Some rbs else bp = map_option (clear_if (be_clrbuf env)) (be_getblk env lbn))"

lemma buf_holds_error [simp]: "buf_holds env lbn rbs mapped ENOSPC bp"
  by (simp add: buf_holds_def ENOSPC_def)

text \<open>Reading entry \<open>k\<close> of the indirect block \<open>w\<close>.\<close>

lemma walk_read:
  assumes v: "vol_ok u" and k: "k < nindir_of u" and e: "in_off e = int k"
  shows "balloc_walk env lbn [e] w pref ip u =
      Ret (0, w, dev_blk (um_devvp u) (blk_addr u (unat w)), ptr_of u w k, e, ip, u)"
    and "balloc_walk env lbn (e # e' # es) w pref ip u =
      (let bap = dev_blk (um_devvp u) (blk_addr u (unat w)) in
       if ptr_of u w k \<noteq> 0 then balloc_walk env lbn (e' # es) (ptr_of u w k) pref ip u
       else
         bnd (EXT2_LOCK u) (\<lambda>ump.
         bnd (if pref = 0 then ext2_blkpref ip lbn (in_off e') (Some (words_of bap)) (word_of_int (in_lbn e')) (um_e2fs ump)
              else Ret pref) (\<lambda>pref.
         bnd (new_indirect env lbn pref True ip ump) (\<lambda>(error, newb, ip, ump).
         if error \<noteq> 0 then Ret (error, w, bap, 0, e, ip, ump)
         else
           bnd (st32 bap (4 * in_off e) (word_of_int newb)) (\<lambda>bap.
           balloc_walk env lbn (e' # es) (word_of_int newb) pref ip
             (write_pointers env (fsbtodb (um_e2fs ump) (uint w)) bap ump))))))"
proof -
  have a: "fsbtodb (um_e2fs u) (uint w) = blk_addr u (unat w)" unfolding uint_nat by (rule fsbtodb_blk [OF v])
  note r = vol_read [OF v] ptr_of_read [OF v k, of w]
  show "balloc_walk env lbn [e] w pref ip u =
      Ret (0, w, dev_blk (um_devvp u) (blk_addr u (unat w)), ptr_of u w k, e, ip, u)"
    by (simp add: a r e del: bnd_Ret_iff)
  show "balloc_walk env lbn (e # e' # es) w pref ip u =
      (let bap = dev_blk (um_devvp u) (blk_addr u (unat w)) in
       if ptr_of u w k \<noteq> 0 then balloc_walk env lbn (e' # es) (ptr_of u w k) pref ip u
       else
         bnd (EXT2_LOCK u) (\<lambda>ump.
         bnd (if pref = 0 then ext2_blkpref ip lbn (in_off e') (Some (words_of bap)) (word_of_int (in_lbn e')) (um_e2fs ump)
              else Ret pref) (\<lambda>pref.
         bnd (new_indirect env lbn pref True ip ump) (\<lambda>(error, newb, ip, ump).
         if error \<noteq> 0 then Ret (error, w, bap, 0, e, ip, ump)
         else
           bnd (st32 bap (4 * in_off e) (word_of_int newb)) (\<lambda>bap.
           balloc_walk env lbn (e' # es) (word_of_int newb) pref ip
             (write_pointers env (fsbtodb (um_e2fs ump) (uint w)) bap ump))))))"
    unfolding balloc_walk.simps(2) [of env lbn e "e' # es"] a r(1) sum.case e r(2) bnd.simps list.case Let_def ..
qed

lemma card_fresh: "finite N \<Longrightarrow> N \<inter> block_set u = {} \<Longrightarrow> b \<in> block_set u \<Longrightarrow> card (insert b N) = Suc 0 + card N"
  by (subst card_insert_disjoint) auto

text \<open>The data block.\<close>

lemma data_step:
  assumes v: "vol_ok u" and home: "home_ok (um_e2fs u) (i_number ip)" and gb: "may_alloc env lbn"
    and t: "tree_ok u (Suc 0) w" "w \<noteq> 0" and k: "k < nindir_of u" and e: "in_off e = int k"
    and rd: "ptr_of u w k \<noteq> 0 \<Longrightarrow> balloc_read lbn ip u = Ret (0, Some rbs, ip, u)"
  shows "\<exists>N error bp ip' u'. balloc_data env lbn w (dev_blk (um_devvp u) (blk_addr u (unat w))) (ptr_of u w k) e ip u = Ret (error, bp, ip', u') \<and>
     below_done u ip (Suc 0) w k N error bp ip' u' \<and> buf_holds env lbn rbs (tree_get u (Suc 0) w k \<noteq> 0) error bp"
proof (cases "ptr_of u w k = 0")
  case False
  have g: "tree_get u (Suc 0) w k \<noteq> 0" using tree_get_child [OF t(2) k, of 0 0] False by simp
  obtain bs where gb': "be_getblk env lbn = Some bs" using gb by (auto simp: may_alloc_def)
  have "\<exists>bp. balloc_data env lbn w (dev_blk (um_devvp u) (blk_addr u (unat w))) (ptr_of u w k) e ip u = Ret (0, Some bp, ip, u) \<and>
      (be_clrbuf env \<longrightarrow> bp = rbs)"
    using rd [OF False] False gb' by (auto simp: balloc_data_def simp del: bnd_Ret_iff)
  then show ?thesis using grown_refl [OF v t(1)] g by (fastforce simp: below_done_def buf_holds_def)
next
  case True
  let ?bap = "dev_blk (um_devvp u) (blk_addr u (unat w))" and ?bs = "e2fs_bsize (um_e2fs u)"
  have g0: "tree_get u (Suc 0) w k = 0" using tree_get_child [OF t(2) k, of 0 0] True by simp
  have lock: "EXT2_LOCK u = Ret (u\<lparr>um_lock := True\<rparr>)" using v by (simp add: vol_ok_def)
  have len: "length ?bap = 4 * nindir_of u" using v by (simp add: vol_ok_def)
  then have "nat (in_off e) \<le> length (words_of ?bap)" using k by (simp add: length_words_of e)
  then obtain p where p: "ext2_blkpref ip lbn (in_off e) (Some (words_of ?bap)) (word_of_int (in_lbn e)) (um_e2fs u) = Ret p" "0 \<le> p"
    by (rule blkpref_total)
  have a: "fsbtodb (um_e2fs u) (uint w) = blk_addr u (unat w)" unfolding uint_nat by (rule fsbtodb_blk [OF v])
  from balloc_alloc_keeps [OF v home p(2) may_alloc_cred [OF gb], of lbn "sint ?bs"] show ?thesis
  proof (elim disjE exE conjE)
    assume "balloc_alloc env ip lbn p (sint ?bs) (u\<lparr>um_lock := True\<rparr>) = Ret (ENOSPC, 0, ip, u)"
    then have "balloc_data env lbn w ?bap (ptr_of u w k) e ip u = Ret (ENOSPC, None, ip, u)"
      unfolding balloc_data_def Let_def if_P [OF True] lock bnd.simps p(1) by (simp add: ENOSPC_def del: bnd_Ret_iff)
    moreover have "below_done u ip (Suc 0) w k {} ENOSPC None ip u"
      using grown_refl [OF v t(1)] g0 by (simp add: below_done_def)
    ultimately show ?thesis using buf_holds_error by blast
  next
    fix b u1
    assume al: "balloc_alloc env ip lbn p (sint ?bs) (u\<lparr>um_lock := True\<rparr>) = Ret (0, int b, charged ip lbn b ?bs, u1)"
      and b: "keeps u u1 {}" "b \<notin> block_set u" "block_set u1 = insert b (block_set u)" "b \<in> data_blocks u1" "b < 2 ^ 31"
    obtain bap where st: "st32 ?bap (4 * int k) (word_of_int (int b)) = Ret bap" by (rule st32_pointer [OF k len]) blast
    obtain bs where gb': "be_getblk env lbn = Some bs" using gb by (auto simp: may_alloc_def)
    define u2 where "u2 = u1\<lparr>um_devvp := buf_bdwrite (um_devvp u1) (blk_addr u (unat w)) bap\<rparr>"
    have y: "0 < nindir_of u ^ 0" by simp
    have "keeps u u1 {b}" using keeps_mono [OF b(1)] by simp
    note h = hook [OF v t k y True this b(2-5) _ st, folded u2_def, simplified]
    have "balloc_data env lbn w ?bap (ptr_of u w k) e ip u = Ret (0, Some (clear_if (be_clrbuf env) bs), charged ip lbn b ?bs, u2)"
      using st gb' unfolding balloc_data_def Let_def if_P [OF True] lock bnd.simps p(1) al
      by (simp add: e write_pointers_eq a u2_def del: bnd_Ret_iff)
    moreover have "tree_get u2 (Suc 0) w k \<noteq> 0"
    proof -
      have n: "nindir_of u2 = nindir_of u" using h(1) keeps_params(1) by (auto simp: grown_def)
      have "tree_get u2 (Suc 0) w k = ptr_of u2 w k" using tree_get_child [OF t(2), of k u2 0 0] k n by simp
      then show ?thesis using h(2,4) by simp
    qed
    then have "below_done u ip (Suc 0) w k {b} 0 (Some (clear_if (be_clrbuf env) bs)) (charged ip lbn b ?bs) u2"
      using h(1) charged_kept g0 by (simp add: below_done_def)
    moreover have "buf_holds env lbn rbs (tree_get u (Suc 0) w k \<noteq> 0) 0 (Some (clear_if (be_clrbuf env) bs))"
      using g0 gb' by (simp add: buf_holds_def)
    ultimately show ?thesis by blast
  qed
qed

text \<open>A level below which a child grows.\<close>

lemma below_child:
  assumes t: "tree_ok u (Suc l) w" "w \<noteq> 0" and k: "k < nindir_of u" "y < nindir_of u ^ l" and c: "ptr_of u w k = c"
    and b: "below_done u ip l c y N error bp ip' u'"
  shows "below_done u ip (Suc l) w (k * nindir_of u ^ l + y) N error bp ip' u'"
proof -
  have "grown u u' l (ptr_of u w k) (ptr_of u w k) y N" using b by (simp add: below_done_def c)
  note g = grown_child [OF t k this]
  have kp: "nindir_of u' = nindir_of u" using g keeps_params(1) by (auto simp: grown_def)
  have old: "tree_get u (Suc l) w (k * nindir_of u ^ l + y) = tree_get u l c y" using tree_get_child [OF t(2) k] c by simp
  have "ptr_of u' w k = c \<or> u' = u"
  proof -
    let ?V = "set (tree_blocks u l c) - tree_data u l c \<union> N"
    have N: "N \<inter> block_set u = {}" "keeps u u' ?V" using b by (simp_all add: below_done_def grown_def)
    have w: "unat w \<in> data_blocks u" using t by (auto simp: tree_ok_def set_tree_Suc)
    have "unat w \<notin> ?V" using tree_ok_child(3) [OF t k(1)] w N(1) by (auto simp: data_blocks_def c)
    then have "agree u u' {unat w}" using w by (intro keeps_agree [OF N(2)]) (auto simp: data_blocks_def)
    then have "ptr_of u' w k = ptr_of u w k" by (rule agree_ptr) simp
    then show ?thesis using c by simp
  qed
  then have "tree_get u' (Suc l) w (k * nindir_of u ^ l + y) = tree_get u' l c y"
    using tree_get_child [OF t(2), of k u' y l] k kp c by auto
  with g old b show ?thesis by (simp add: below_done_def)
qed

lemma below_grows:
  assumes "vol_ok u" "healthy u" "home_ok (um_e2fs u) (i_number ip)" "may_alloc env lbn" "0 \<le> pref"
    and "tree_ok u (Suc l) w" "w \<noteq> 0" "x < nindir_of u ^ Suc l" "map in_off es = map int (digits (nindir_of u) (Suc l) x)"
    and "tree_get u (Suc l) w x \<noteq> 0 \<Longrightarrow> balloc_read lbn ip u = Ret (0, Some rbs, ip, u)"
  shows "\<exists>N error bp ip' u'. balloc_below env lbn es w pref ip u = Ret (error, bp, ip', u') \<and> below_done u ip (Suc l) w x N error bp ip' u' \<and>
     buf_holds env lbn rbs (tree_get u (Suc l) w x \<noteq> 0) error bp"
  using assms
proof (induction l arbitrary: u ip w x es pref)
  case 0
  then obtain e where es: "es = [e]" "in_off e = int x" by (auto simp: digits_def)
  have x: "x < nindir_of u" using 0 by simp
  have g: "tree_get u (Suc 0) w x = ptr_of u w x" using tree_get_child [OF "0.prems"(7) x, of 0 0] by simp
  show ?case
    using data_step [OF "0.prems"(1,3,4,6,7) x es(2), of rbs] "0.prems"(10) unfolding g es(1) balloc_below_def walk_read(1) [OF "0.prems"(1) x es(2)]
    by (simp del: bnd_Ret_iff)
next
  case (Suc l)
  let ?n = "nindir_of u"
  note v = Suc.prems(1) and t = Suc.prems(6,7)
  have n: "0 < ?n" by (rule nindir_pos [OF v])
  obtain k y where x: "x = k * ?n ^ Suc l + y" "k < ?n" "y < ?n ^ Suc l" by (rule position_split [OF Suc.prems(8) n])
  obtain e es' where es: "es = e # es'" "in_off e = int k" "map in_off es' = map int (digits ?n (Suc l) y)"
    using Suc.prems(9) unfolding x(1) digits_place [OF x(2,3)] by auto
  then obtain e' es'' where es': "es' = e' # es''" by (cases es') (auto simp: digits_Suc)
  define c where "c = ptr_of u w k"
  have old: "tree_get u (Suc (Suc l)) w x = tree_get u (Suc l) c y" unfolding x(1) c_def by (rule tree_get_child [OF t(2) x(2,3)])
  note rdw = walk_read(2) [OF v x(2) es(2), of env lbn e' es'' w, folded es' es(1) c_def]
  show ?case
  proof (cases "c = 0")
    case False
    have tc: "tree_ok u (Suc l) c" unfolding c_def by (rule tree_ok_child(1) [OF t x(2)])
    obtain N error bp ip' u' where r: "balloc_below env lbn es' c pref ip u = Ret (error, bp, ip', u')"
      "below_done u ip (Suc l) c y N error bp ip' u'" "buf_holds env lbn rbs (tree_get u (Suc l) c y \<noteq> 0) error bp"
      using Suc.IH [OF v Suc.prems(2-5) tc False x(3) es(3)] Suc.prems(10) old by auto
    have "balloc_below env lbn es w pref ip u = Ret (error, bp, ip', u')"
      using False r(1) rdw unfolding balloc_below_def by (simp add: Let_def)
    moreover have "below_done u ip (Suc (Suc l)) w x N error bp ip' u'"
      unfolding x(1) by (rule below_child [OF t x(2,3) _ r(2)]) (simp add: c_def)
    ultimately show ?thesis using r(3) old by auto
  next
    case True
    let ?bap = "dev_blk (um_devvp u) (blk_addr u (unat w))" and ?bs = "e2fs_bsize (um_e2fs u)"
    have lock: "EXT2_LOCK u = Ret (u\<lparr>um_lock := True\<rparr>)" using v by (simp add: vol_ok_def)
    have len: "length ?bap = 4 * ?n" using v by (simp add: vol_ok_def)
    have "in_off e' < int ?n"
    proof -
      have "in_off e' = int ((y div ?n ^ l) mod ?n)" using es(3) by (simp add: es' digits_Suc)
      then show ?thesis using n by simp
    qed
    then have "nat (in_off e') \<le> length (words_of ?bap)" by (simp add: length_words_of len)
    then obtain q where q: "ext2_blkpref ip lbn (in_off e') (Some (words_of ?bap)) (word_of_int (in_lbn e')) (um_e2fs u) = Ret q" "0 \<le> q"
      by (rule blkpref_total)
    define p where "p = (if pref = 0 then q else pref)"
    have p: "(if pref = 0 then ext2_blkpref ip lbn (in_off e') (Some (words_of ?bap)) (word_of_int (in_lbn e')) (um_e2fs (u\<lparr>um_lock := True\<rparr>))
        else Ret pref) = Ret p" "0 \<le> p" using q Suc.prems(5) by (simp_all add: p_def del: bnd_Ret_iff)
    have zero: "tree_get u (Suc (Suc l)) w x = 0" using old True by simp
    note step = balloc_below_def rdw [unfolded if_not_P [of "c \<noteq> 0", unfolded not_not, OF True] Let_def] lock bnd.simps p(1)
    from new_indirect_ok [OF v Suc.prems(3) p(2) Suc.prems(2) may_alloc_cred [OF Suc.prems(4)], of lbn True] show ?thesis
    proof (elim disjE exE conjE)
      assume r: "new_indirect env lbn p True ip (u\<lparr>um_lock := True\<rparr>) = Ret (ENOSPC, 0, ip, u)"
      have "balloc_below env lbn es w pref ip u = Ret (ENOSPC, None, ip, u)"
        unfolding step r by (simp add: ENOSPC_def del: bnd_Ret_iff)
      moreover have "below_done u ip (Suc (Suc l)) w x {} ENOSPC None ip u"
        using grown_refl [OF v t(1)] zero by (simp add: below_done_def)
      ultimately show ?thesis using buf_holds_error by blast
    next
      fix b u1
      assume r: "new_indirect env lbn p True ip (u\<lparr>um_lock := True\<rparr>) = Ret (0, int b, charged ip lbn b ?bs, u1)"
        and b: "keeps u u1 {b}" "b \<notin> block_set u" "block_set u1 = insert b (block_set u)" "b \<in> data_blocks u1" "b < 2 ^ 31"
        and z: "\<forall>j < nindir_of u1. ptr_of u1 (word_of_int (int b)) j = 0"
      obtain bap where st: "st32 ?bap (4 * int k) (word_of_int (int b)) = Ret bap" by (rule st32_pointer [OF x(2) len]) blast
      define d :: u32 where "d = word_of_int (int b)"
      define ip1 where "ip1 = charged ip lbn b ?bs"
      define u2 where "u2 = u1\<lparr>um_devvp := buf_bdwrite (um_devvp u1) (blk_addr u (unat w)) bap\<rparr>"
      note h = hook [OF v t x(2,3) True [unfolded c_def] b _ st, folded u2_def d_def, OF disjI2, OF z [folded d_def]]
      have kp: "keeps u u2 (set (tree_blocks u (Suc (Suc l)) w) - tree_data u (Suc (Suc l)) w \<union> {b})" and bset: "block_set u2 = block_set u \<union> {b}"
        using h(1) by (simp_all add: grown_def)
      note n2 = keeps_params(1) [OF kp]
      have v2: "vol_ok u2" and h2: "healthy u2" using keeps_vol [OF kp] healthy_keeps [OF kp] Suc.prems(2) by simp_all
      have home2: "home_ok (um_e2fs u2) (i_number ip1)"
        using Suc.prems(3) static_fs_fields(8,13) [OF keeps_static [OF kp]] by (simp add: home_ok_def ip1_def charged_def)
      have t2: "tree_ok u2 (Suc (Suc l)) w" using h(1) by (simp add: grown_def)
      have zero2: "tree_get u2 (Suc l) d y = 0" by (rule h(5)) simp
      obtain N error bp ip' u' where r2: "balloc_below env lbn es' d p ip1 u2 = Ret (error, bp, ip', u')"
        "below_done u2 ip1 (Suc l) d y N error bp ip' u'" "buf_holds env lbn rbs (tree_get u2 (Suc l) d y \<noteq> 0) error bp"
        using Suc.IH [OF v2 h2 home2 Suc.prems(4) p(2) h(3,4) _ _ , of y es'] x(3) es(3) zero2 n2 by auto
      note b2 = below_child [OF t2 t(2) _ _ h(2) r2(2), unfolded n2, OF x(2,3), folded x(1)]
      have a1: "fsbtodb (um_e2fs u1) (uint w) = blk_addr u (unat w)"
        unfolding uint_nat fsbtodb_blk [OF keeps_vol [OF b(1)]] keeps_params(2) [OF b(1)] ..
      have "balloc_below env lbn es w pref ip u = Ret (error, bp, ip', u')"
        using r2(1) st unfolding step r by (simp add: balloc_below_def es(2) write_pointers_eq a1 u2_def d_def ip1_def del: bnd_Ret_iff)
      moreover have "below_done u ip (Suc (Suc l)) w x ({b} \<union> N) error bp ip' u'"
      proof -
        have g2: "grown u2 u' (Suc (Suc l)) w w x N" using b2 by (simp add: below_done_def)
        have "grown u u' (Suc (Suc l)) w w x ({b} \<union> N)" by (rule grown_trans [OF _ g2]) (use h(1) x(1) in simp)
        moreover have "card ({b} \<union> N) = Suc 0 + card N"
          unfolding insert_is_Un [symmetric] by (rule card_fresh [of _ u2]) (use g2 bset in \<open>auto simp: grown_def\<close>)
        moreover have "inode_kept (um_e2fs u) (Suc 0) ip ip1" unfolding ip1_def by (rule charged_kept)
        moreover have "block_charge (um_e2fs u2) = block_charge (um_e2fs u)"
          using static_fs_fields(1) [OF keeps_static [OF kp]] by (simp add: block_charge_def)
        moreover have "tree_get u2 (Suc (Suc l)) w x = 0"
          using tree_get_child [OF t(2), of k u2 y "Suc l"] n2 x h(2) zero2 by simp
        ultimately show ?thesis
          using b2 zero charged_kept(2,3) [of ip lbn b ?bs] unfolding below_done_def ip1_def
          by (simp add: inode_kept_def algebra_simps)
      qed
      ultimately show ?thesis using r2(3) zero2 zero by auto
    qed
  qed
qed

section \<open>Files\<close>

text \<open>
  A file without extents has fifteen trees: twelve direct blocks, which are trees of level 0, and below \<^verbatim>\<open>i_ib\<close> the trees of
  levels 1 to 3.
\<close>

definition root_level :: "nat \<Rightarrow> nat" where
  "root_level k = k - 11"

definition root_blocks :: "ext2mount \<Rightarrow> inode \<Rightarrow> nat \<Rightarrow> nat set" where
  "root_blocks u ip k = set (tree_blocks u (root_level k) (block_pointers ip ! k))"

definition file_set :: "ext2mount \<Rightarrow> inode \<Rightarrow> nat set" where
  "file_set u ip = (\<Union>k<15. root_blocks u ip k)"

definition file_data :: "ext2mount \<Rightarrow> inode \<Rightarrow> nat set" where
  "file_data u ip = (\<Union>k<15. tree_data u (root_level k) (block_pointers ip ! k))"

definition file_ok :: "ext2mount \<Rightarrow> inode \<Rightarrow> bool" where
  "file_ok u ip \<longleftrightarrow> ptrs_ok ip \<and> (\<forall>k<15. tree_ok u (root_level k) (block_pointers ip ! k)) \<and>
     (\<forall>j<15. \<forall>k<15. j \<noteq> k \<longrightarrow> root_blocks u ip j \<inter> root_blocks u ip k = {})"

text \<open>The tree that has block \<open>b\<close> of the file, and its position there.\<close>

definition file_place :: "ext2mount \<Rightarrow> nat \<Rightarrow> (nat \<times> nat) option" where
  "file_place u b = (if b < 12 then Some (b, 0) else map_option (\<lambda>(l, x). (l + 11, x)) (lbn_place u b))"

lemma file_place_range:
  assumes "file_place u b = Some (k, x)"
  shows "k < 15" "x < nindir_of u ^ root_level k"
proof -
  have "k < 15 \<and> x < nindir_of u ^ root_level k"
    using assms unfolding file_place_def lbn_place_def Let_def root_level_def by (auto split: if_splits)
  then show "k < 15" "x < nindir_of u ^ root_level k" by blast+
qed

lemma file_place_inj:
  assumes "file_place u b = Some p" "file_place u c = Some p"
  shows "b = c"
  using assms unfolding file_place_def lbn_place_def Let_def by (auto split: if_splits)

lemma file_block_get:
  assumes "ptrs_ok ip"
  shows "file_block u ip b = map_option (\<lambda>(k, x). tree_get u (root_level k) (block_pointers ip ! k) x) (file_place u b)"
proof -
  have "block_pointers ip ! k = (if k < 12 then i_db ip ! k else i_ib ip ! (k - 12))" for k
    using assms by (simp add: block_pointers_def nth_append ptrs_ok_def)
  then show ?thesis
    unfolding file_block_def file_place_def lbn_place_def Let_def root_level_def
    by (simp add: numeral_2_eq_2 numeral_3_eq_3)
qed

lemma file_place_keeps: "keeps u u' W \<Longrightarrow> file_place u' b = file_place u b"
  using keeps_params(1) [of u u' W] by (simp add: file_place_def lbn_place_def)

text \<open>One tree of the file is replaced.\<close>

lemma file_replace:
  assumes f: "file_ok u ip" and k: "k < 15" and kp: "keeps u u' W"
    and away: "\<forall>j<15. j \<noteq> k \<longrightarrow> root_blocks u ip j \<inter> W = {} \<and> root_blocks u ip j \<subseteq> data_blocks u'"
    and ip': "ptrs_ok ip'" "block_pointers ip' = (block_pointers ip)[k := w']"
    and new: "tree_ok u' (root_level k) w'" "\<forall>j<15. j \<noteq> k \<longrightarrow> set (tree_blocks u' (root_level k) w') \<inter> root_blocks u ip j = {}"
  shows "file_ok u' ip'" "root_blocks u' ip' k = set (tree_blocks u' (root_level k) w')"
    "\<And>j. j < 15 \<Longrightarrow> j \<noteq> k \<Longrightarrow> root_blocks u' ip' j = root_blocks u ip j"
    "\<And>j x b. file_place u b = Some (j, x) \<Longrightarrow> file_block u' ip' b =
       Some (if j = k then tree_get u' (root_level k) w' x else tree_get u (root_level j) (block_pointers ip ! j) x)"
proof -
  have len: "length (block_pointers ip) = 15" using f by (simp add: file_ok_def ptrs_ok_def block_pointers_def)
  have bp: "block_pointers ip' ! j = (if j = k then w' else block_pointers ip ! j)" if "j < 15" for j
    using that len by (simp add: ip'(2) nth_list_update)
  have t: "tree_ok u (root_level j) (block_pointers ip ! j)" if "j < 15" for j using f that by (simp add: file_ok_def)
  have a: "set (tree_blocks u (root_level j) (block_pointers ip ! j)) \<inter> W = {}"
    "set (tree_blocks u (root_level j) (block_pointers ip ! j)) \<subseteq> data_blocks u'" if "j < 15" "j \<noteq> k" for j
    using away [rule_format, OF that] by (simp_all add: root_blocks_def)
  have old: "tree_blocks u' (root_level j) (block_pointers ip ! j) = tree_blocks u (root_level j) (block_pointers ip ! j)"
    "tree_ok u' (root_level j) (block_pointers ip ! j)"
    "x < nindir_of u ^ root_level j \<Longrightarrow> tree_get u' (root_level j) (block_pointers ip ! j) x = tree_get u (root_level j) (block_pointers ip ! j) x"
    if "j < 15" "j \<noteq> k" for j x
    by (rule tree_ok_away [OF kp t [OF that(1)] a [OF that]], assumption?)+
  show rk: "root_blocks u' ip' k = set (tree_blocks u' (root_level k) w')" using bp [OF k] by (simp add: root_blocks_def)
  show rj: "root_blocks u' ip' j = root_blocks u ip j" if "j < 15" "j \<noteq> k" for j
    using old(1) [OF that] bp [OF that(1)] that(2) by (simp add: root_blocks_def)
  show "file_ok u' ip'"
    unfolding file_ok_def
  proof (intro conjI allI impI)
    show "ptrs_ok ip'" by (rule ip')
    fix j :: nat assume j: "j < 15"
    show "tree_ok u' (root_level j) (block_pointers ip' ! j)" using old(2) [OF j] bp [OF j] new(1) by (cases "j = k") simp_all
  next
    fix i j :: nat assume ij: "i < 15" "j < 15" "i \<noteq> j"
    have "root_blocks u ip i \<inter> root_blocks u ip j = {}" using f ij by (simp add: file_ok_def)
    then show "root_blocks u' ip' i \<inter> root_blocks u' ip' j = {}"
      using rj [OF ij(1)] rj [OF ij(2)] rk new(2) [rule_format, OF ij(1)] new(2) [rule_format, OF ij(2)] ij(3) by (cases "i = k"; cases "j = k") (simp_all add: Int_commute)
  qed
  show "file_block u' ip' b = Some (if j = k then tree_get u' (root_level k) w' x else tree_get u (root_level j) (block_pointers ip ! j) x)"
    if p: "file_place u b = Some (j, x)" for j x b
  proof -
    note r = file_place_range [OF p]
    have "file_block u' ip' b = Some (tree_get u' (root_level j) (block_pointers ip' ! j) x)"
      unfolding file_block_get [OF ip'(1)] file_place_keeps [OF kp] p by simp
    then show ?thesis using bp [OF r(1)] old(3) [OF r(1) _ r(2)] by auto
  qed
qed

definition file_grown :: "ext2mount \<Rightarrow> inode \<Rightarrow> ext2mount \<Rightarrow> inode \<Rightarrow> nat \<Rightarrow> nat set \<Rightarrow> bool" where
  "file_grown u ip u' ip' b N \<longleftrightarrow> finite N \<and> N \<inter> block_set u = {} \<and> block_set u' = block_set u \<union> N \<and>
     keeps u u' (file_set u ip - file_data u ip \<union> N) \<and> file_ok u' ip' \<and> file_set u' ip' = file_set u ip \<union> N \<and>
     (\<forall>c. c \<noteq> b \<or> file_block u ip b \<noteq> Some 0 \<longrightarrow> file_block u' ip' c = file_block u ip c)"

lemma file_set_upd:
  assumes "k < 15" "root_blocks u' ip' k = A" "\<And>j. j < 15 \<Longrightarrow> j \<noteq> k \<Longrightarrow> root_blocks u' ip' j = root_blocks u ip j"
  shows "file_set u' ip' = A \<union> (\<Union>j\<in>{j. j < 15 \<and> j \<noteq> k}. root_blocks u ip j)"
  using assms unfolding file_set_def by fastforce

lemma file_grows:
  assumes f: "file_ok u ip" and p: "file_place u b = Some (k, x)" and g: "grown u u' (root_level k) (block_pointers ip ! k) w' x N"
    and ip': "ptrs_ok ip'" "block_pointers ip' = (block_pointers ip)[k := w']"
  shows "file_grown u ip u' ip' b N"
proof -
  note k = file_place_range [OF p]
  let ?V = "root_blocks u ip k - tree_data u (root_level k) (block_pointers ip ! k) \<union> N"
  have N: "finite N" "N \<inter> block_set u = {}" "block_set u' = block_set u \<union> N" and kp: "keeps u u' ?V"
    and new: "tree_ok u' (root_level k) w'" "set (tree_blocks u' (root_level k) w') = root_blocks u ip k \<union> N"
    using g by (simp_all add: grown_def root_blocks_def)
  have dis: "root_blocks u ip i \<inter> root_blocks u ip j = {}" if "i < 15" "j < 15" "i \<noteq> j" for i j using f that by (simp add: file_ok_def)
  have db: "root_blocks u ip j \<subseteq> data_blocks u" if "j < 15" for j using f that by (simp add: file_ok_def tree_ok_def root_blocks_def)
  have dN: "data_blocks u \<inter> N = {}" using N(2) by (auto simp: data_blocks_def)
  have grow: "data_blocks u \<subseteq> data_blocks u'" by (rule data_blocks_grow [OF kp]) (simp add: N(3))
  have away: "\<forall>j<15. j \<noteq> k \<longrightarrow> root_blocks u ip j \<inter> ?V = {} \<and> root_blocks u ip j \<subseteq> data_blocks u'"
  proof (intro allI impI)
    fix j :: nat assume j: "j < 15" "j \<noteq> k"
    show "root_blocks u ip j \<inter> ?V = {} \<and> root_blocks u ip j \<subseteq> data_blocks u'"
      using dis [OF j(1) k(1) j(2)] db [OF j(1)] dN grow by blast
  qed
  have new2: "\<forall>j<15. j \<noteq> k \<longrightarrow> set (tree_blocks u' (root_level k) w') \<inter> root_blocks u ip j = {}"
  proof (intro allI impI)
    fix j :: nat assume j: "j < 15" "j \<noteq> k"
    show "set (tree_blocks u' (root_level k) w') \<inter> root_blocks u ip j = {}"
      unfolding new(2) using dis [OF j(1) k(1) j(2)] db [OF j(1)] dN by blast
  qed
  note r = file_replace [OF f k(1) kp away ip' new(1) new2]
  have set: "file_set u' ip' = file_set u ip \<union> N"
    using file_set_upd [OF k(1) r(2) r(3)] k(1) unfolding new(2) by (auto simp: file_set_def)
  have fd: "file_data u ip \<subseteq> tree_data u (root_level k) (block_pointers ip ! k) \<union> (\<Union>j\<in>{j. j < 15 \<and> j \<noteq> k}. root_blocks u ip j)"
    unfolding file_data_def root_blocks_def using tree_data_subset by blast
  have "?V \<subseteq> file_set u ip - file_data u ip \<union> N"
  proof -
    have "root_blocks u ip k - tree_data u (root_level k) (block_pointers ip ! k) \<subseteq> - file_data u ip" using fd dis [OF k(1)] by blast
    then show ?thesis using k(1) unfolding file_set_def by blast
  qed
  then have keep: "keeps u u' (file_set u ip - file_data u ip \<union> N)" by (rule keeps_mono [OF kp])
  have ptrs: "ptrs_ok ip" using f by (simp add: file_ok_def)
  have "file_block u' ip' c = file_block u ip c" if c: "c \<noteq> b \<or> file_block u ip b \<noteq> Some 0" for c
  proof (cases "file_place u c")
    case None
    then show ?thesis by (simp add: file_block_get [OF ptrs] file_block_get [OF ip'(1)] file_place_keeps [OF kp])
  next
    case (Some q)
    obtain j y where q: "q = (j, y)" by (cases q)
    have "j = k \<Longrightarrow> y \<noteq> x \<or> tree_get u (root_level k) (block_pointers ip ! k) x \<noteq> 0"
      using file_place_inj [OF p] Some q c by (auto simp: file_block_get [OF ptrs] p)
    then have "j = k \<Longrightarrow> tree_get u' (root_level k) w' y = tree_get u (root_level k) (block_pointers ip ! k) y"
      using g file_place_range(2) [OF Some [unfolded q]] by (auto simp: grown_def)
    then show ?thesis using r(4) [OF Some [unfolded q]] by (simp add: file_block_get [OF ptrs] Some q)
  qed
  then show ?thesis unfolding file_grown_def using N keep r(1) set by blast
qed

section \<open>Reading a block of a file\<close>

text \<open>Shift and mask as \<^verbatim>\<open>ext2_mountfs\<close> sets them, for blocks of up to 64 KB.\<close>

definition shift_ok :: "m_ext2fs \<Rightarrow> bool" where
  "shift_ok fs \<longleftrightarrow> uint (e2fs_bsize fs) = 2 ^ unat (e2fs_bshift fs) \<and> unat (e2fs_bshift fs) \<le> 16 \<and>
     e2fs_qbmask fs = mask (unat (e2fs_bshift fs)) \<and> e2fs_fsize fs = e2fs_bsize fs"

lemma bmap_total:
  assumes v: "vol_ok u" and p: "ptrs_ok ip" and b: "file_block u ip b \<noteq> None" and bs: "e2fs_bsize (um_e2fs u) \<noteq> 0"
  shows "\<exists>a r. ext2_bmaparray u ip (int b) (Some 0) False = Ret (Inr (a, r, 0))"
proof (cases "b < 12")
  case True
  obtain rp where rp: "(case Some 0 of None \<Rightarrow> Ret None | Some m \<Rightarrow> bnd (max_run m (e2fs_bsize (um_e2fs u))) (\<lambda>x. Ret (Some x))) = Ret rp"
    "\<forall>m. rp = Some m \<longrightarrow> 0 \<le> m" by (rule runp_total [OF bs])
  have rd: "rd (i_db ip) (int b) = Ret (i_db ip ! b)" using True p by (simp add: ptrs_ok_def)
  have "um_bptrtodb u < 32" using v by (auto simp: vol_ok_def bmap_geom_def word_less_nat_alt)
  then obtain a where a: "blkptrtodb32 u (i_db ip ! b) = Ret a" by (simp add: blkptrtodb32_def)
  obtain r where r: "runs_at u (rd (i_db ip)) (int 12) rp False (int b) = Ret (r, 0)"
    using runs_at_fwd [of 12 "rd (i_db ip)" "(!) (i_db ip)" rp u b, OF _ rp(2)] p by (auto simp: ptrs_ok_def)
  have "ext2_bmaparray u ip (int b) (Some 0) False =
      (if a = 0 then Ret (Inr (- 1, 0, 0)) else bnd (runs_at u (rd (i_db ip)) NDADDR rp False (int b)) (\<lambda>r. Ret (Inr (uint a, r))))"
    unfolding ext2_bmaparray_def rp(1) bnd.simps getlbns_direct [OF True] sum.case list.case rd a ..
  then show ?thesis using r by (cases "a = 0") (simp_all add: NDADDR_def)
next
  case False
  have g: "bmap_geom u" using v by (simp add: vol_ok_def)
  from bmaparray_tree [OF g vol_readable [OF v] p bs, of b "Some 0"] False b show ?thesis by fastforce
qed

lemma file_block_small:
  assumes "file_block u ip b \<noteq> None" "nindir_of u \<le> 2 ^ 14"
  shows "b < 2 ^ 43"
proof -
  let ?n = "nindir_of u"
  have "?n ^ 2 \<le> (2 ^ 14) ^ 2" "?n ^ 3 \<le> (2 ^ 14) ^ 3" using assms(2) by (intro power_mono; simp)+
  then have "?n ^ 2 \<le> 2 ^ 28" "?n ^ 3 \<le> 2 ^ 42" by simp_all
  moreover have "b < 12 + ?n + ?n ^ 2 + ?n ^ 3"
    using assms(1) by (auto simp: file_block_def Let_def split: if_splits)
  ultimately show ?thesis using assms(2) by simp
qed

lemma file_bread_total:
  assumes v: "vol_ok u" and s: "shift_ok (um_e2fs u)" and p: "ptrs_ok ip" and b: "file_block u ip b \<noteq> None"
    and x: "i_flag ip AND IN_E4EXTENTS = 0"
  shows "\<exists>a bs. file_bread u ip (int b) = Ret (Inr (a, bs))"
proof -
  let ?fs = "um_e2fs u"
  let ?bs = "uint (e2fs_bsize ?fs)"
  have B: "?bs = 2 ^ unat (e2fs_bshift ?fs)" "e2fs_qbmask ?fs = mask (unat (e2fs_bshift ?fs))" "unat (e2fs_bshift ?fs) \<le> 16"
    using s by (simp_all add: shift_ok_def)
  have le: "?bs \<le> 2 ^ 16" unfolding B(1) using B(3) by (intro power_increasing) simp_all
  have pos: "0 < ?bs" unfolding B(1) by simp
  have "4 * int (nindir_of u) = ?bs" using v by (simp add: vol_ok_def uint_nat)
  then have "nindir_of u \<le> 2 ^ 14" using le by simp
  then have "int b < 2 ^ 43" using file_block_small [OF b] by simp
  then have "int b * ?bs \<le> 2 ^ 43 * 2 ^ 16" using le by (intro mult_mono) simp_all
  then have "int b * ?bs < 2 ^ 63" by (rule order_le_less_trans) simp
  moreover have "- (2 ^ 63) \<le> int b * ?bs" by (rule order_trans [of _ 0]) simp_all
  ultimately have "s64 (int b * ?bs) = int b * ?bs" by (intro s64_id)
  then have off: "ext2_blktooff ?fs (int b) True = Inr (int b * ?bs)" by (simp add: ext2_blktooff_def)
  have l: "lblkno ?fs (int b * ?bs) = int b" "blkoff ?fs (int b * ?bs) = 0"
    unfolding blkoff_lblkno(1,2) [OF B(2)] B(1) by simp_all
  have nz: "e2fs_bsize ?fs \<noteq> 0" using pos by (auto simp: uint_0_iff [symmetric])
  obtain a r where a: "ext2_bmaparray u ip (int b) (Some 0) False = Ret (Inr (a, r, 0))" using bmap_total [OF v p b nz] by blast
  obtain a' run where "ext2_blockmap u ip (int b * ?bs) (blksize ?fs) 0 True = Ret (Inr (a', run))"
    unfolding ext2_blockmap_def Let_def l using x a by (cases "a < 0") (simp_all del: bnd_Ret_iff)
  then show ?thesis
    unfolding file_bread_def off sum.case by (cases "a' = - 1") (simp_all add: vol_read [OF v] del: bnd_Ret_iff)
qed

lemma balloc_read_total:
  assumes "vol_ok u" "shift_ok (um_e2fs u)" "ptrs_ok ip" "file_block u ip b \<noteq> None" "i_flag ip AND IN_E4EXTENTS = 0"
  shows "\<exists>bs. balloc_read (int b) ip u = Ret (0, Some bs, ip, u)"
  using file_bread_total [OF assms] by (auto simp: balloc_read_def simp del: bnd_Ret_iff)

section \<open>\<^verbatim>\<open>ext2_balloc\<close>\<close>

lemma file_block_cong: "i_db ip' = i_db ip \<Longrightarrow> i_ib ip' = i_ib ip \<Longrightarrow> file_block u ip' c = file_block u ip c"
  unfolding file_block_def by (simp only:)

lemma file_block_direct: "b < 12 \<Longrightarrow> file_block u ip b = Some (i_db ip ! b)"
  by (simp add: file_block_def)

text \<open>A tree with a fresh root.\<close>

lemma grown_root:
  assumes t: "tree_ok u l 0"
    and a: "keeps u u1 {b}" "b \<notin> block_set u" "block_set u1 = insert b (block_set u)"
    and c: "tree_blocks u1 l c = [b]" "\<And>y. y < nindir_of u ^ l \<Longrightarrow> tree_get u1 l c y = 0"
    and g: "grown u1 u' l c c x N"
  shows "grown u u' l 0 c x (insert b N)"
proof -
  have kp: "keeps u1 u' (set (tree_blocks u1 l c) - tree_data u1 l c \<union> N)" and fin: "finite N" and N: "N \<inter> block_set u1 = {}" "block_set u' = block_set u1 \<union> N"
    and ok: "tree_ok u' l c" "set (tree_blocks u' l c) = set (tree_blocks u1 l c) \<union> N"
    using g by (simp_all add: grown_def)
  have "keeps u u' (set (tree_blocks u l 0) - tree_data u l 0 \<union> insert b N)"
    by (rule keeps_mono [OF keeps_trans [OF a(1) kp]]) (use c(1) in auto)
  moreover have "tree_get u' l c y = tree_get u l 0 y" if "y < nindir_of u ^ l" "y \<noteq> x \<or> tree_get u l 0 x \<noteq> 0" for y
  proof -
    have "tree_get u' l c y = tree_get u1 l c y" using g that keeps_params(1) [OF a(1)] by (simp add: grown_def)
    then show ?thesis using c(2) [OF that(1)] by simp
  qed
  ultimately show ?thesis using fin N ok a(2,3) c(1) by (auto simp: grown_def)
qed

text \<open>
  What a call for block \<open>b\<close> gives: the blocks \<open>N\<close> are new and the file's own, and the inode is charged for them; the block is
  mapped, or there is no space.
\<close>

definition balloc_done :: "ext2mount \<Rightarrow> inode \<Rightarrow> nat \<Rightarrow> nat set \<Rightarrow> errno \<Rightarrow> bytes option \<Rightarrow> inode \<Rightarrow> ext2mount \<Rightarrow> bool" where
  "balloc_done u ip b N error bp ip' u' \<longleftrightarrow> file_grown u ip u' ip' b N \<and> inode_kept (um_e2fs u) (card N) ip ip' \<and>
     (error = 0 \<and> bp \<noteq> None \<and> file_block u' ip' b \<noteq> Some 0 \<or>
      error = ENOSPC \<and> bp = None \<and> file_block u ip b = Some 0 \<and> file_block u' ip' b = Some 0) \<and>
     (file_block u ip b \<noteq> Some 0 \<longrightarrow> u' = u \<and> i_db ip' = i_db ip \<and> i_ib ip' = i_ib ip)"

lemma block_pointers_upd:
  assumes "ptrs_ok ip"
  shows "k < 12 \<Longrightarrow> block_pointers (ip\<lparr>i_db := (i_db ip)[k := w]\<rparr>) = (block_pointers ip)[k := w]"
    "k < 3 \<Longrightarrow> block_pointers (ip\<lparr>i_ib := (i_ib ip)[k := w]\<rparr>) = (block_pointers ip)[k + 12 := w]"
    "ptrs_ok (ip\<lparr>i_db := (i_db ip)[k := w]\<rparr>)" "ptrs_ok (ip\<lparr>i_ib := (i_ib ip)[k := w]\<rparr>)"
  using assms by (simp_all add: block_pointers_def ptrs_ok_def list_update_append)

lemma block_pointers_nth:
  assumes "ptrs_ok ip"
  shows "k < 12 \<Longrightarrow> block_pointers ip ! k = i_db ip ! k" "k < 3 \<Longrightarrow> block_pointers ip ! (k + 12) = i_ib ip ! k"
    "length (block_pointers ip) = 15"
  using assms by (simp_all add: block_pointers_def ptrs_ok_def nth_append)

text \<open>A direct block that is mapped must lie before the end of the file, or share the last block with it.\<close>

definition no_tail_panic :: "m_ext2fs \<Rightarrow> inode \<Rightarrow> int \<Rightarrow> int \<Rightarrow> bool" where
  "no_tail_panic fs ip lbn sz \<longleftrightarrow> word_of_int ((lbn + 1) * uint (e2fs_bsize fs)) \<le> i_size ip \<or>
     0 < blkoff fs (uint (i_size ip)) \<and> 0 < sz \<and> sz \<le> uint (e2fs_bsize fs)"

lemma fragroundup_one:
  assumes "shift_ok fs" "0 < sz" "sz \<le> uint (e2fs_bsize fs)"
  shows "fragroundup fs sz = Ret (uint (e2fs_bsize fs))"
proof -
  let ?b = "uint (e2fs_bsize fs)"
  have s: "e2fs_fsize fs = e2fs_bsize fs" "0 < ?b" using assms(2,3) by (auto simp: assms(1) [unfolded shift_ok_def])
  then have nz: "e2fs_fsize fs \<noteq> 0" by (auto simp: uint_0_iff [symmetric])
  have "(sz + (?b - 1)) div ?b = 1" using assms(2,3) s(2) by (simp add: div_pos_geq div_pos_pos_trivial)
  then show ?thesis unfolding fragroundup_def s(1) using assms(2) s nz by (simp add: sdiv_nonneg)
qed

lemma fragroundup_total: "shift_ok fs \<Longrightarrow> \<exists>r. fragroundup fs sz = Ret r"
proof -
  assume s: "shift_ok fs"
  then have "uint (e2fs_bsize fs) = 2 ^ unat (e2fs_bshift fs)" by (simp add: shift_ok_def)
  then have "uint (e2fs_bsize fs) \<noteq> 0" by simp
  then have "e2fs_fsize fs \<noteq> 0" using s by (auto simp: shift_ok_def)
  then show ?thesis by (simp add: fragroundup_def)
qed

lemma blkoff_range:
  assumes "shift_ok fs"
  shows "0 \<le> blkoff fs x" "blkoff fs x < uint (e2fs_bsize fs)"
  using assms unfolding shift_ok_def by (simp_all add: blkoff_lblkno(1))

lemma direct_spec:
  assumes v: "vol_ok u" and home: "home_ok (um_e2fs u) (i_number ip)" and s: "shift_ok (um_e2fs u)" and f: "file_ok u ip"
    and x: "i_flag ip AND IN_E4EXTENTS = 0" and gb: "may_alloc env (int b)" and b: "b < 12"
    and tail: "file_block u ip b \<noteq> Some 0 \<Longrightarrow> no_tail_panic (um_e2fs u) ip (int b) sz"
    and rd: "balloc_read (int b) ip u = Ret (0, Some bs, ip, u)"
  shows "\<exists>N error bp ip' u'. balloc_direct env (int b) sz ip u = Ret (error, bp, ip', u') \<and> balloc_done u ip b N error bp ip' u' \<and>
     buf_holds env (int b) bs (file_block u ip b \<noteq> Some 0) error bp"
proof -
  let ?fs = "um_e2fs u"
  have p: "ptrs_ok ip" using f by (simp add: file_ok_def)
  note fb = file_block_direct [OF b]
  have rdb: "rd (i_db ip) (int b) = Ret (i_db ip ! b)" using b p by (simp add: ptrs_ok_def)
  have refl: "file_grown u ip u ip' b {}" if "i_db ip' = i_db ip" "i_ib ip' = i_ib ip" for ip'
  proof -
    have "block_pointers ip' = block_pointers ip" by (simp add: block_pointers_def that)
    moreover have "file_block u ip' c = file_block u ip c" for c by (rule file_block_cong [OF that])
    ultimately show ?thesis
      using f p that keeps_refl [OF v] by (simp add: file_grown_def file_ok_def file_set_def root_blocks_def ptrs_ok_def)
  qed
  show ?thesis
  proof (cases "i_db ip ! b = 0")
    case False
    have bh: "buf_holds env (int b) bs (file_block u ip b \<noteq> Some 0) 0 (Some bs)" using False fb by (simp add: buf_holds_def)
    have t: "no_tail_panic ?fs ip (int b) sz" by (rule tail) (use fb False in simp)
    have d: "balloc_done u ip b {} 0 (Some bs) ip' u" if "ip' = ip \<or> ip' = mark_changed ip" for ip'
      using refl [of ip'] that False fb by (auto simp: balloc_done_def inode_kept_simps fb) (simp_all add: mark_changed_def)
    show ?thesis
    proof (cases "word_of_int ((int b + 1) * uint (e2fs_bsize ?fs)) \<le> i_size ip")
      case True
      then have "balloc_direct env (int b) sz ip u = Ret (0, Some bs, ip, u)"
        unfolding balloc_direct_def Let_def rdb bnd.simps rd using False by simp
      then show ?thesis using d bh by blast
    next
      case notle: False
      then have o': "0 < blkoff ?fs (uint (i_size ip))" "0 < sz" "sz \<le> uint (e2fs_bsize ?fs)"
        using t unfolding no_tail_panic_def by blast+
      have "blkoff ?fs (uint (i_size ip)) \<le> uint (e2fs_bsize ?fs)" using blkoff_range(2) [OF s, of "uint (i_size ip)"] by linarith
      note fr = fragroundup_one [OF s o'(1) this] fragroundup_one [OF s o'(2,3)]
      have "balloc_direct env (int b) sz ip u = Ret (0, Some bs, mark_changed ip, u)"
        unfolding balloc_direct_def Let_def rdb bnd.simps fr rd using False notle by simp
      then show ?thesis using d bh by blast
    qed
  next
    case True
    obtain nsize where ns: "(if i_size ip < word_of_int ((int b + 1) * uint (e2fs_bsize ?fs)) then fragroundup ?fs sz
        else Ret (uint (e2fs_bsize ?fs))) = Ret nsize"
      using fragroundup_total [OF s, of sz] by (cases "i_size ip < word_of_int ((int b + 1) * uint (e2fs_bsize ?fs))") (simp_all only: if_True if_False, blast+)
    have lock: "EXT2_LOCK u = Ret (u\<lparr>um_lock := True\<rparr>)" using v by (simp add: vol_ok_def)
    have "nat (int b) \<le> length (block_pointers ip)" using b block_pointers_nth(3) [OF p] by simp
    then obtain q where q: "ext2_blkpref ip (int b) (int b) (Some (block_pointers ip)) 0 ?fs = Ret q" "0 \<le> q"
      by (rule blkpref_total)
    obtain gs where gb': "be_getblk env (int b) = Some gs" using gb by (auto simp: may_alloc_def)
    have place: "file_place u b = Some (b, 0)" using b by (simp add: file_place_def)
    have lev: "root_level b = 0" using b by (simp add: root_level_def)
    note step = balloc_direct_def Let_def rdb bnd.simps True ns lock q(1)
    from balloc_alloc_keeps [OF v home q(2) may_alloc_cred [OF gb], of "int b" "s32 nsize"] show ?thesis
    proof (elim disjE exE conjE)
      assume r: "balloc_alloc env ip (int b) q (s32 nsize) (u\<lparr>um_lock := True\<rparr>) = Ret (ENOSPC, 0, ip, u)"
      have "balloc_direct env (int b) sz ip u = Ret (ENOSPC, None, ip, u)" unfolding step r by (simp add: ENOSPC_def)
      moreover have "balloc_done u ip b {} ENOSPC None ip u" using refl [of ip] fb True by (simp add: balloc_done_def)
      ultimately show ?thesis using buf_holds_error by blast
    next
      fix a u1
      assume r: "balloc_alloc env ip (int b) q (s32 nsize) (u\<lparr>um_lock := True\<rparr>) =
          Ret (0, int a, charged ip (int b) a (e2fs_bsize ?fs), u1)"
        and a: "keeps u u1 {}" "a \<notin> block_set u" "block_set u1 = insert a (block_set u)" "a \<in> data_blocks u1" "a < 2 ^ 31"
      define c :: u32 where "c = word_of_int (int a)"
      define ip' where "ip' = mark_changed ((charged ip (int b) a (e2fs_bsize ?fs))\<lparr>i_db := (i_db ip)[b := c]\<rparr>)"
      have uc: "unat c = a" unfolding c_def by (rule unat_word_of_int_nat [OF a(5)])
      then have nz: "c \<noteq> 0" using a(4) by (auto simp: data_blocks_def)
      have "balloc_direct env (int b) sz ip u = Ret (0, Some (clear_if (be_clrbuf env) gs), ip', u1)"
        unfolding step r using gb' b p by (simp add: charged_kept ip'_def c_def ptrs_ok_def)
      moreover have "grown u u1 0 (i_db ip ! b) c 0 {a}"
        using a uc nz True keeps_mono [OF a(1)] by (auto simp: grown_def tree_ok_def tree_data_0)
      then have "file_grown u ip u1 ip' b {a}"
      proof (intro file_grows [OF f place, of u1 c])
        show "ptrs_ok ip'" "block_pointers ip' = (block_pointers ip)[b := c]"
          using block_pointers_upd(1,3) [OF p] b p
          by (simp_all add: ip'_def ptrs_ok_def block_pointers_def mark_changed_def charged_def)
      qed (simp add: lev block_pointers_nth(1) [OF p b])
      then have "balloc_done u ip b {a} 0 (Some (clear_if (be_clrbuf env) gs)) ip' u1"
        using charged_kept(1) [of ?fs ip "int b" a] b p nz True
        by (simp add: balloc_done_def ip'_def inode_kept_simps fb ptrs_ok_def) (simp add: mark_changed_def)
      moreover have "buf_holds env (int b) bs (file_block u ip b \<noteq> Some 0) 0 (Some (clear_if (be_clrbuf env) gs))"
        using True fb gb' by (simp add: buf_holds_def)
      ultimately show ?thesis by blast
    qed
  qed
qed

text \<open>An indirect root whose tree has grown.\<close>

lemma indirect_done:
  assumes f: "file_ok u ip" and x: "lbn_place u b = Some (l, x)" and b: "12 \<le> b"
    and g: "grown u u' l (i_ib ip ! (l - 1)) c x N" and k: "inode_kept (um_e2fs u) (card N) ip ip'"
    and ptr: "i_db ip' = i_db ip" "i_ib ip' = (i_ib ip)[l - 1 := c]"
    and r: "error = 0 \<and> bp \<noteq> None \<and> tree_get u' l c x \<noteq> 0 \<or>
       error = ENOSPC \<and> bp = None \<and> tree_get u l (i_ib ip ! (l - 1)) x = 0 \<and> tree_get u' l c x = 0"
    and m: "tree_get u l (i_ib ip ! (l - 1)) x \<noteq> 0 \<Longrightarrow> u' = u \<and> c = i_ib ip ! (l - 1)"
  shows "balloc_done u ip b N error bp ip' u'"
proof -
  note lb = lbn_place_bounds [OF x]
  have p: "ptrs_ok ip" using f by (simp add: file_ok_def)
  have "1 \<le> l" "l \<le> 3" using lb by blast+
  then have l: "l - 1 < 3" "l - 1 + 12 = l + 11" "root_level (l + 11) = l" unfolding root_level_def by arith+
  have place: "file_place u b = Some (l + 11, x)" using x b by (simp add: file_place_def)
  have root: "block_pointers ip ! (l + 11) = i_ib ip ! (l - 1)" using block_pointers_nth(2) [OF p l(1)] unfolding l(2) .
  have bp: "ptrs_ok ip'" "block_pointers ip' = (block_pointers ip)[l + 11 := c]"
    using block_pointers_upd(2) [OF p l(1), of c, unfolded l(2)] p ptr by (simp_all add: ptrs_ok_def block_pointers_def)
  have fg: "file_grown u ip u' ip' b N"
    by (rule file_grows [OF f place _ bp]) (use g in \<open>simp add: root l(3)\<close>)
  have kp: "lbn_place u' b = lbn_place u b" using fg keeps_params(1) by (auto simp: file_grown_def lbn_place_def)
  have "file_block u ip b = Some (tree_get u l (i_ib ip ! (l - 1)) x)" using file_block_place [OF b] x by simp
  moreover have "file_block u' ip' b = Some (tree_get u' l c x)"
    using file_block_place [OF b, of u' ip'] x kp ptr l(1) p by (simp add: ptrs_ok_def)
  moreover have "u' = u \<and> i_db ip' = i_db ip \<and> i_ib ip' = i_ib ip" if "tree_get u l (i_ib ip ! (l - 1)) x \<noteq> 0"
    using m [OF that] ptr by simp
  ultimately show ?thesis using fg k r by (auto simp: balloc_done_def)
qed

lemma indirect_spec:
  assumes v: "vol_ok u" and h: "healthy u" and home: "home_ok (um_e2fs u) (i_number ip)" and s: "shift_ok (um_e2fs u)" and f: "file_ok u ip"
    and nx: "i_flag ip AND IN_E4EXTENTS = 0" and gb: "may_alloc env (int b)" and b: "12 \<le> b" and mapped: "file_block u ip b \<noteq> None"
    and rb: "balloc_read (int b) ip u = Ret (0, Some rb, ip, u)"
  shows "\<exists>N error bp ip' u'. balloc_indirect env (int b) ip u = Ret (error, bp, ip', u') \<and> balloc_done u ip b N error bp ip' u' \<and>
     buf_holds env (int b) rb (file_block u ip b \<noteq> Some 0) error bp"
proof -
  let ?fs = "um_e2fs u" and ?n = "nindir_of u"
  have p: "ptrs_ok ip" using f by (simp add: file_ok_def)
  obtain l x where lx: "lbn_place u b = Some (l, x)" using mapped file_block_place [OF b, of u ip] by (cases "lbn_place u b") auto
  note lb = lbn_place_bounds [OF lx]
  obtain l' where l': "l = Suc l'" using lb by (cases l) auto
  let ?w = "i_ib ip ! l'"
  have place: "file_place u b = Some (l + 11, x)" using lx b by (simp add: file_place_def)
  have k: "l + 11 < 15" "x < ?n ^ l" using file_place_range [OF place] lb by (simp_all add: root_level_def)
  have l3: "l' < 3" using k(1) l' by simp
  have root: "block_pointers ip ! (l + 11) = ?w" using block_pointers_nth(2) [OF p l3] l' by (simp add: add.commute)
  have t: "tree_ok u l ?w" using f k(1) root unfolding file_ok_def by (metis add_diff_cancel_right' root_level_def)
  have fb: "file_block u ip b = Some (tree_get u l ?w x)" using file_block_place [OF b] lx l' by simp
  obtain e es where ge: "ext2_getlbns u (int b) = Ret (Inr (e # es))" "in_off e = int l - 1"
    "map in_off es = map int (digits ?n l x)"
  proof -
    have geo: "bmap_geom u" using v by (simp add: vol_ok_def)
    show ?thesis by (rule getlbns_indirect [OF geo b lx]) (rule that)
  qed
  have off: "in_off e = int l'" using ge(2) l' by simp
  have rdw: "rd (i_ib ip) (int l') = Ret ?w" using l3 p by (simp add: ptrs_ok_def)
  have run: "balloc_indirect env (int b) ip u = bnd (balloc_first env (int b) e ip u) (\<lambda>(error, nb, pref, ip, ump).
      if error \<noteq> 0 then Ret (error, None, ip, ump) else balloc_below env (int b) es nb pref ip ump)"
    unfolding balloc_indirect_def ge(1) bnd.simps sum.case list.case balloc_below_def ..
  show ?thesis
  proof (cases "?w = 0")
    case False
    have "balloc_first env (int b) e ip u = Ret (0, ?w, 0, ip, u)" unfolding balloc_first_def off rdw using False by simp
    then have run': "balloc_indirect env (int b) ip u = balloc_below env (int b) es ?w 0 ip u" unfolding run by simp
    obtain N error bp ip' u' where r: "balloc_below env (int b) es ?w 0 ip u = Ret (error, bp, ip', u')" "below_done u ip l ?w x N error bp ip' u'"
      "buf_holds env (int b) rb (tree_get u l ?w x \<noteq> 0) error bp"
      using below_grows [OF v h home gb order_refl t [unfolded l'] False k(2) [unfolded l'] ge(3) [unfolded l']] rb unfolding l' by blast
    have "balloc_done u ip b N error bp ip' u'"
      by (rule indirect_done [OF f lx b, of u' ?w])
        (use r(2) l' in \<open>auto simp: below_done_def ENOSPC_def\<close>)
    then show ?thesis using r(1,3) run' fb by auto
  next
    case True
    have lock: "EXT2_LOCK u = Ret (u\<lparr>um_lock := True\<rparr>)" using v by (simp add: vol_ok_def)
    have "nat (in_off e + NDADDR) \<le> length (block_pointers ip)" using l3 block_pointers_nth(3) [OF p] by (simp add: off NDADDR_def)
    then obtain q where q: "ext2_blkpref ip (int b) (in_off e + NDADDR) (Some (block_pointers ip)) 0 ?fs = Ret q" "0 \<le> q"
      by (rule blkpref_total)
    have zero: "tree_get u l ?w x = 0" using True by simp
    have rd0: "rd (i_ib ip) (in_off e) = Ret 0" using rdw off True by simp
    have fs: "um_e2fs (u\<lparr>um_lock := True\<rparr>) = ?fs" by simp
    note step = balloc_first_def rd0 bnd.simps if_not_P [of "(0::u32) \<noteq> 0", unfolded not_not, OF refl] lock fs q(1)
    from new_indirect_ok [OF v home q(2) h may_alloc_cred [OF gb], of "int b" False] show ?thesis
    proof (elim disjE exE conjE)
      assume r: "new_indirect env (int b) q False ip (u\<lparr>um_lock := True\<rparr>) = Ret (ENOSPC, 0, ip, u)"
      have "balloc_indirect env (int b) ip u = Ret (ENOSPC, None, ip, u)" unfolding run step r by (simp add: ENOSPC_def)
      moreover have "balloc_done u ip b {} ENOSPC None ip u"
        by (rule indirect_done [OF f lx b grown_refl [OF v]]) (use t True zero l' list_update_id [of "i_ib ip" l'] in simp_all)
      ultimately show ?thesis using buf_holds_error by blast
    next
      fix a u1
      assume r: "new_indirect env (int b) q False ip (u\<lparr>um_lock := True\<rparr>) = Ret (0, int a, charged ip (int b) a (e2fs_bsize ?fs), u1)"
        and a: "keeps u u1 {a}" "a \<notin> block_set u" "block_set u1 = insert a (block_set u)" "a \<in> data_blocks u1" "a < 2 ^ 31"
        and z: "\<forall>k < nindir_of u1. ptr_of u1 (word_of_int (int a)) k = 0"
      define c :: u32 where "c = word_of_int (int a)"
      define ip1 where "ip1 = mark_changed ((charged ip (int b) a (e2fs_bsize ?fs))\<lparr>i_ib := (i_ib ip)[l' := c]\<rparr>)"
      have uc: "unat c = a" unfolding c_def by (rule unat_word_of_int_nat [OF a(5)])
      then have nz: "c \<noteq> 0" using a(4) by (auto simp: data_blocks_def)
      note n1 = keeps_params(1) [OF a(1)] and st1 = static_fs_fields [OF keeps_static [OF a(1)]]
      have zt: "tree_blocks u1 l c = [a]" "\<And>y. y < ?n ^ l \<Longrightarrow> tree_get u1 l c y = 0"
        using zero_tree [OF nz, of l u1] z n1 l' uc by (auto simp: c_def)
      have t1: "tree_ok u1 l c" using zt(1) a(4) by (simp add: tree_ok_def)
      have k1: "inode_kept ?fs (Suc 0) ip ip1" unfolding ip1_def inode_kept_simps by (rule charged_kept)
      have home1: "home_ok (um_e2fs u1) (i_number ip1)"
        using home st1(8,13) inode_kept_fields(2) [OF k1] by (simp add: home_ok_def)
      have h1: "healthy u1" using healthy_keeps [OF a(1)] h by simp
      have i1: "i_ib ip1 = (i_ib ip)[l' := c]" "i_db ip1 = i_db ip" by (simp_all add: ip1_def mark_changed_def charged_def)
      have run1: "balloc_indirect env (int b) ip u = balloc_below env (int b) es c q ip1 u1"
        unfolding run step r using l3 p by (simp add: charged_kept off ip1_def c_def ptrs_ok_def wr_in)
      obtain N error bp ip' u' where r1: "balloc_below env (int b) es c q ip1 u1 = Ret (error, bp, ip', u')"
        "below_done u1 ip1 l c x N error bp ip' u'" "buf_holds env (int b) rb (tree_get u1 l c x \<noteq> 0) error bp"
        using below_grows [OF keeps_vol [OF a(1)] h1 home1 gb q(2) t1 [unfolded l'] nz, of x es] k(2) ge(3) zt(2) unfolding l' n1 by blast
      have g: "grown u u' l 0 c x (insert a N)"
        by (rule grown_root [OF _ a(1-3) zt]) (use t True r1(2) in \<open>simp_all add: below_done_def\<close>)
      have card: "card (insert a N) = Suc 0 + card N"
        by (rule card_fresh [of _ u1]) (use r1(2) a(3) in \<open>auto simp: below_done_def grown_def\<close>)
      have bc: "block_charge (um_e2fs u1) = block_charge ?fs" using st1(1) by (simp add: block_charge_def)
      have "balloc_done u ip b (insert a N) error bp ip' u'"
      proof (rule indirect_done [OF f lx b])
        show "grown u u' l (i_ib ip ! (l - 1)) c x (insert a N)" using g True l' by simp
        have "inode_kept ?fs (card N) ip1 ip'" using r1(2) bc by (simp add: below_done_def inode_kept_def)
        then show "inode_kept ?fs (card (insert a N)) ip ip'" unfolding card by (rule inode_kept_trans [OF k1])
        show "i_db ip' = i_db ip" "i_ib ip' = (i_ib ip)[l - 1 := c]" using r1(2) i1 l' by (simp_all add: below_done_def)
        show "error = 0 \<and> bp \<noteq> None \<and> tree_get u' l c x \<noteq> 0 \<or>
            error = ENOSPC \<and> bp = None \<and> tree_get u l (i_ib ip ! (l - 1)) x = 0 \<and> tree_get u' l c x = 0"
          using r1(2) zero l' zt(2) [OF k(2)] by (auto simp: below_done_def)
      qed (use zero l' in simp)
      moreover have "buf_holds env (int b) rb (file_block u ip b \<noteq> Some 0) error bp" using r1(3) zt(2) [OF k(2)] fb zero by simp
      ultimately show ?thesis using r1(1) run1 by auto
    qed
  qed
qed

lemma bare_next: "bare (ip\<lparr>i_next_alloc_block := a, i_next_alloc_goal := g\<rparr>) = bare ip"
  by (simp add: bare_def)

text \<open>The preconditions, on a file whose last block is not in the way.\<close>

definition balloc_pre :: "balloc_env \<Rightarrow> ext2mount \<Rightarrow> inode \<Rightarrow> nat \<Rightarrow> int \<Rightarrow> bool" where
  "balloc_pre env u ip b sz \<longleftrightarrow> vol_ok u \<and> healthy u \<and> shift_ok (um_e2fs u) \<and> file_ok u ip \<and> home_ok (um_e2fs u) (i_number ip) \<and>
     i_flag ip AND IN_E4EXTENTS = 0 \<and> file_block u ip b \<noteq> None \<and> may_alloc env (int b) \<and>
     (b < 12 \<longrightarrow> file_block u ip b \<noteq> Some 0 \<longrightarrow> no_tail_panic (um_e2fs u) ip (int b) sz)"

lemma balloc_spec:
  assumes pre: "balloc_pre env u ip b sz"
  shows "\<exists>N error bp ip' u'. ext2_balloc env (int b) sz ip u = Ret (error, bp, ip', u') \<and> balloc_done u ip b N error bp ip' u' \<and>
     (\<exists>ip1 rb. i_db ip1 = i_db ip \<and> i_ib ip1 = i_ib ip \<and> i_flag ip1 = i_flag ip \<and> balloc_read (int b) ip1 u = Ret (0, Some rb, ip1, u) \<and>
        buf_holds env (int b) rb (file_block u ip b \<noteq> Some 0) error bp)"
proof -
  define ip1 where "ip1 = (if int b = uint (i_next_alloc_block ip + 1)
     then ip\<lparr>i_next_alloc_block := i_next_alloc_block ip + 1, i_next_alloc_goal := i_next_alloc_goal ip + 1\<rparr> else ip)"
  have same: "i_db ip1 = i_db ip" "i_ib ip1 = i_ib ip" "i_flag ip1 = i_flag ip" "i_size ip1 = i_size ip" "i_number ip1 = i_number ip"
    "i_blocks ip1 = i_blocks ip" "bare ip1 = bare ip" by (simp_all add: ip1_def bare_next)
  have bp: "block_pointers ip1 = block_pointers ip" by (simp add: block_pointers_def same)
  have fb: "file_block w ip1 c = file_block w ip c" for w c by (rule file_block_cong [OF same(1,2)])
  have fs: "file_ok w ip1 = file_ok w ip" "file_set w ip1 = file_set w ip" "file_data w ip1 = file_data w ip" for w
    by (simp_all add: file_ok_def file_set_def file_data_def root_blocks_def ptrs_ok_def bp same(1,2))
  have dn: "balloc_done u ip1 b N error bp ip' u' = balloc_done u ip b N error bp ip' u'" for N error bp ip' u'
    by (simp add: balloc_done_def file_grown_def inode_kept_def fb fs same(1,2,6,7))
  note p = pre [unfolded balloc_pre_def]
  have nx: "i_flag ip1 AND IN_E4EXTENTS = 0" and home: "home_ok (um_e2fs u) (i_number ip1)" and f: "file_ok u ip1"
    using p by (simp_all add: same fs)
  have eq: "ext2_balloc env (int b) sz ip u = (if int b < NDADDR then balloc_direct env (int b) sz ip1 u else balloc_indirect env (int b) ip1 u)"
    using p by (simp add: ext2_balloc_def ip1_def Let_def)
  obtain rb where rb: "balloc_read (int b) ip1 u = Ret (0, Some rb, ip1, u)"
    using balloc_read_total [of u ip1 b] p f nx unfolding fb by (auto simp: file_ok_def)
  have fin: ?thesis if "\<exists>N error bp ip' u'. ext2_balloc env (int b) sz ip u = Ret (error, bp, ip', u') \<and> balloc_done u ip b N error bp ip' u' \<and>
      buf_holds env (int b) rb (file_block u ip b \<noteq> Some 0) error bp" using that rb same(1-3) by blast
  show ?thesis
  proof (cases "b < 12")
    case True
    have "no_tail_panic (um_e2fs u) ip1 (int b) sz" if "file_block u ip1 b \<noteq> Some 0"
      using p that True by (simp add: no_tail_panic_def same(4) fb)
    then show ?thesis
      using direct_spec [OF _ home _ f nx _ True _ rb, of env sz] p eq True unfolding dn fb by (intro fin) (auto simp: NDADDR_def)
  next
    case False
    then show ?thesis
      using indirect_spec [OF _ _ home _ f nx _ _ _ rb, of env] p eq unfolding dn fb by (intro fin) (auto simp: NDADDR_def)
  qed
qed

text \<open>C25. \<^verbatim>\<open>ext2_balloc\<close> for block \<open>b\<close> of a file without extents, on a consistent volume whose writes succeed. It returns. The
  blocks it takes, for data and for indirect blocks, were free; they are marked, they belong to the file from then on and the
  inode is charged for each; the trees of the file stay disjoint and within the used blocks. All other blocks of the file stay
  where they were, and nothing on the device changes except bitmaps, the new blocks and the file's indirect blocks. Block \<open>b\<close>
  is mapped afterwards, to where it was if it had been mapped; or there is no space and it is a hole still.\<close>

theorem balloc_maps_block:
  assumes pre: "balloc_pre env u ip b sz"
  shows "\<exists>N error bp ip' u'. ext2_balloc env (int b) sz ip u = Ret (error, bp, ip', u') \<and>
     finite N \<and> N \<inter> block_set u = {} \<and> block_set u' = block_set u \<union> N \<and> file_ok u' ip' \<and> file_set u' ip' = file_set u ip \<union> N \<and>
     keeps u u' (file_set u ip - file_data u ip \<union> N) \<and> inode_kept (um_e2fs u) (card N) ip ip' \<and>
     (\<forall>c. c \<noteq> b \<or> file_block u ip b \<noteq> Some 0 \<longrightarrow> file_block u' ip' c = file_block u ip c) \<and>
     (error = 0 \<and> bp \<noteq> None \<and> file_block u' ip' b \<noteq> Some 0 \<or> error = ENOSPC \<and> bp = None \<and> file_block u' ip' b = Some 0)"
  using balloc_spec [OF pre] unfolding balloc_done_def file_grown_def by blast

text \<open>The file of \<^const>\<open>demo_tvol\<close>.\<close>

definition demo_tfile :: inode where
  "demo_tfile = zero_inode\<lparr>i_number := 2, i_size := 100, i_db := 15 # replicate 11 0, i_ib := [12, 16, 0], i_blocks := 7\<rparr>"

lemma demo_tfile_roots:
  assumes "k < 15"
  shows "tree_blocks demo_tvol (root_level k) (block_pointers demo_tfile ! k) =
    (if k = 0 then [15] else if k = 12 then [12, 13, 14] else if k = 13 then [16, 17, 18] else [])"
proof -
  have b: "block_pointers demo_tfile = [15, 0, 0, 0, 0, 0, 0, 0, 0, 0, 0, 0, 12, 16, 0]"
    by (simp add: block_pointers_def demo_tfile_def numeral_eq_Suc)
  have "k \<in> set [0..<15]" using assms by simp
  moreover have "[0..<15] = [0, 1, 2, 3, 4, 5, 6, 7, 8, 9, 10, 11, 12, 13, 14 :: nat]" by (simp add: upt_rec)
  ultimately have "k \<in> {0, 1, 2, 3, 4, 5, 6, 7, 8, 9, 10, 11, 12, 13, 14}" by simp
  then show ?thesis
    using demo_trees [folded numeral_2_eq_2] unfolding b by (auto simp: root_level_def nth_Cons')
qed

lemma demo_tfile_ok: "file_ok demo_tvol demo_tfile"
  unfolding file_ok_def root_blocks_def
proof (intro conjI allI impI)
  show "ptrs_ok demo_tfile" by (simp add: ptrs_ok_def demo_tfile_def)
  fix k :: nat assume "k < 15"
  then show "tree_ok demo_tvol (root_level k) (block_pointers demo_tfile ! k)" by (auto simp: tree_ok_def demo_tfile_roots demo_data)
next
  fix j k :: nat assume jk: "j < 15" "k < 15" "j \<noteq> k"
  show "set (tree_blocks demo_tvol (root_level j) (block_pointers demo_tfile ! j)) \<inter>
      set (tree_blocks demo_tvol (root_level k) (block_pointers demo_tfile ! k)) = {}"
    unfolding demo_tfile_roots [OF jk(1)] demo_tfile_roots [OF jk(2)] using jk(3) by (auto split: if_splits)
qed

lemma demo_tvol_healthy: "healthy demo_tvol" "shift_ok (um_e2fs demo_tvol)"
proof -
  show "healthy demo_tvol" by (simp add: healthy_def demo_tvol_def)
  have "e2fs_qbmask (um_e2fs demo_tvol) = mask 9" by (simp add: demo_tvol_def mask_eq_exp_minus_1)
  moreover have "e2fs_bshift (um_e2fs demo_tvol) = 9" "e2fs_fsize (um_e2fs demo_tvol) = 512" by (simp_all add: demo_tvol_def)
  ultimately show "shift_ok (um_e2fs demo_tvol)" by (simp add: shift_ok_def demo_tvol_simps)
qed

definition demo_benv :: balloc_env where
  "demo_benv = \<lparr>be_cred = Ret 0, be_clrbuf = True, be_sync = True, be_getblk = (\<lambda>lbn. Some (replicate 512 0)),
     be_ext = \<lparr>xe_nocred = Ret 0, xe_cached = True\<rparr>\<rparr>"

lemma demo_hole: "file_block demo_tvol demo_tfile 14 = Some 0"
proof -
  have "tree_get demo_tvol 1 12 2 = ptr_of demo_tvol 12 2"
    using tree_get_child [of 12 2 demo_tvol 0 0] by (simp add: demo_tvol_simps)
  also have "\<dots> = 0"
    using pointers_words [OF demo_tvol_ok, of 12] demo_words_of [of "[13, 14]"]
    by (simp add: demo_tvol_simps) (simp add: demo_tvol_def map_eq_append_conv upt_rec numeral_eq_Suc)
  finally show ?thesis by (simp add: file_block_def demo_tvol_simps) (simp add: demo_tfile_def)
qed

lemma demo_balloc_pre: "balloc_pre demo_benv demo_tvol demo_tfile 14 512"
proof -
  have "home_ok (um_e2fs demo_tvol) (i_number demo_tfile)" by (simp add: home_ok_def demo_tvol_def demo_tfile_def)
  moreover have "i_flag demo_tfile = 0" "may_alloc demo_benv b" for b by (simp_all add: demo_tfile_def zero_inode_def demo_benv_def may_alloc_def)
  ultimately show ?thesis by (simp add: balloc_pre_def demo_tvol_ok demo_tvol_healthy demo_tfile_ok demo_hole)
qed

theorem balloc_maps_block_witness:
  "\<exists>error bp ip' u'. ext2_balloc demo_benv 14 512 demo_tfile demo_tvol = Ret (error, bp, ip', u') \<and>
     file_ok u' ip' \<and> file_block u' ip' 0 = Some 15"
proof -
  have z: "file_block demo_tvol demo_tfile 0 = Some 15" by (simp add: file_block_def demo_tfile_def)
  obtain N error bp ip' u' where r: "ext2_balloc demo_benv (int 14) 512 demo_tfile demo_tvol = Ret (error, bp, ip', u')"
    "file_ok u' ip'" "\<forall>c. c \<noteq> 14 \<or> file_block demo_tvol demo_tfile 14 \<noteq> Some 0 \<longrightarrow> file_block u' ip' c = file_block demo_tvol demo_tfile c"
    using balloc_maps_block [OF demo_balloc_pre] by auto
  then show ?thesis using z by auto
qed

end
