(* ===== verification/Ext2_InodeProps.thy ===== *)
theory Ext2_InodeProps
  imports Ext2_Inode Ext2_BallocProps
begin

text \<open>
  What \<^verbatim>\<open>ext2_update\<close> does to the inode table, and what \<^verbatim>\<open>ext2_truncate\<close> does to a file without extents.
\<close>

declare tree_get.simps(2) [simp del]

section \<open>Writing the inode back\<close>

text \<open>The flags that \<^verbatim>\<open>ext2_update\<close> may change, and an inode without what it may change.\<close>

definition TIME_FLAGS :: u32 where
  "TIME_FLAGS = IN_ACCESS OR IN_CHANGE OR IN_UPDATE OR IN_MODIFIED OR IN_LAZYMOD OR IN_LAZYACCESS"

definition untimed :: "inode \<Rightarrow> inode" where
  "untimed ip = ip\<lparr>i_flag := i_flag ip AND NOT TIME_FLAGS, i_modrev := 0, i_atime := 0, i_atimensec := 0, i_mtime := 0, i_mtimensec := 0,
     i_ctime := 0, i_ctimensec := 0\<rparr>"

lemma time_flags_mask:
  assumes "x AND NOT TIME_FLAGS = 0"
  shows "(f OR x) AND NOT TIME_FLAGS = f AND NOT TIME_FLAGS" "(f AND NOT x) AND NOT TIME_FLAGS = f AND NOT TIME_FLAGS"
proof -
  have b: "bit x n \<Longrightarrow> bit TIME_FLAGS n" for n
    using arg_cong [OF assms, of "\<lambda>w. bit w n"] by (auto simp: bit_simps dest: bit_imp_le_length)
  show "(f OR x) AND NOT TIME_FLAGS = f AND NOT TIME_FLAGS" "(f AND NOT x) AND NOT TIME_FLAGS = f AND NOT TIME_FLAGS"
    by (rule bit_word_eqI; use b in \<open>auto simp: bit_simps\<close>)+
qed

lemmas flag_defs = TIME_FLAGS_def IN_ACCESS_def IN_CHANGE_def IN_UPDATE_def IN_MODIFIED_def IN_LAZYMOD_def IN_LAZYACCESS_def

lemma time_flags:
  "IN_LAZYMOD AND NOT TIME_FLAGS = 0" "IN_MODIFIED AND NOT TIME_FLAGS = 0" "(IN_ACCESS OR IN_CHANGE OR IN_UPDATE) AND NOT TIME_FLAGS = 0"
  "(IN_LAZYACCESS OR IN_LAZYMOD OR IN_MODIFIED) AND NOT TIME_FLAGS = 0" "(IN_CHANGE OR IN_UPDATE) AND NOT TIME_FLAGS = 0"
  "IN_CHANGE AND NOT TIME_FLAGS = 0" "IN_E4EXTENTS AND NOT TIME_FLAGS = IN_E4EXTENTS"
  by (simp_all add: flag_defs IN_E4EXTENTS_def)

lemma untimed_itimes [simp]: "untimed (ext2_itimes env ip) = untimed ip"
proof -
  define g where "g = i_flag ip OR (if ie_special env then IN_LAZYMOD else IN_MODIFIED)"
  have "g AND NOT TIME_FLAGS = i_flag ip AND NOT TIME_FLAGS"
    unfolding g_def by (rule time_flags_mask) (simp add: time_flags)
  moreover have "(g AND NOT (IN_ACCESS OR IN_CHANGE OR IN_UPDATE)) AND NOT TIME_FLAGS = g AND NOT TIME_FLAGS"
    by (rule time_flags_mask) (rule time_flags)
  ultimately show ?thesis
    unfolding ext2_itimes_def ext2_itimes_locked_def Let_def untimed_def g_def [symmetric]
    by (simp split: prod.split del: word_bw_assocs)
qed

lemma untimed_fields:
  assumes "untimed ip' = untimed ip"
  shows "i_db ip' = i_db ip" "i_ib ip' = i_ib ip" "i_size ip' = i_size ip" "i_blocks ip' = i_blocks ip" "i_number ip' = i_number ip"
    "i_mode ip' = i_mode ip" "i_nlink ip' = i_nlink ip" "i_next_alloc_block ip' = i_next_alloc_block ip"
    "i_flag ip' AND IN_E4EXTENTS = i_flag ip AND IN_E4EXTENTS"
proof -
  note f = arg_cong [OF assms, unfolded untimed_def]
  show "i_db ip' = i_db ip" using f [of i_db] by simp
  show "i_ib ip' = i_ib ip" using f [of i_ib] by simp
  show "i_size ip' = i_size ip" using f [of i_size] by simp
  show "i_blocks ip' = i_blocks ip" using f [of i_blocks] by simp
  show "i_number ip' = i_number ip" using f [of i_number] by simp
  show "i_mode ip' = i_mode ip" using f [of i_mode] by simp
  show "i_nlink ip' = i_nlink ip" using f [of i_nlink] by simp
  show "i_next_alloc_block ip' = i_next_alloc_block ip" using f [of i_next_alloc_block] by simp
  have e: "x AND IN_E4EXTENTS = (x AND NOT TIME_FLAGS) AND IN_E4EXTENTS" for x :: u32
    using time_flags(7) by (metis and.assoc and.commute)
  show "i_flag ip' AND IN_E4EXTENTS = i_flag ip AND IN_E4EXTENTS" using f [of i_flag] by (subst (1 2) e) simp
qed

text \<open>The place of an inode in the tables: within a block that is no bitmap of blocks.\<close>

definition dinode_len :: "m_ext2fs \<Rightarrow> nat" where
  "dinode_len fs = (if E2DI_HAS_XTIME fs then 156 else 128)"

definition slot_at :: "ext2mount \<Rightarrow> u32 \<Rightarrow> u32 \<Rightarrow> u32 \<Rightarrow> bool" where
  "slot_at u ino b k \<longleftrightarrow> ino_to_fsba (um_e2fs u) ino = Ret b \<and> ino_to_fsbo (um_e2fs u) ino = Ret k \<and>
     unat b \<in> meta_blocks (um_e2fs u) \<and> blk_addr u (unat b) \<notin> bitmap_addrs (um_e2fs u) \<and>
     unat (e2fs_isize (um_e2fs u) * k) + dinode_len (um_e2fs u) \<le> unat (e2fs_bsize (um_e2fs u))"

lemma meta_write:
  assumes v: "vol_ok u" and b: "b \<in> meta_blocks (um_e2fs u)" "blk_addr u b \<notin> bitmap_addrs (um_e2fs u)"
    and len: "length bs = unat (e2fs_bsize (um_e2fs u))"
  defines "u' \<equiv> u\<lparr>um_devvp := buf_bdwrite (um_devvp u) (blk_addr u b) bs\<rparr>"
  shows "keeps u u' {}" "block_set u' = block_set u"
proof -
  have bm: "b_bitmap u' k = b_bitmap u k" if "k < length (e2fs_gd (um_e2fs u))" for k
  proof -
    have "b_addr (um_e2fs u) k \<noteq> blk_addr u b" using b(2) that by (metis bitmap_addrs_def imageI lessThan_iff)
    then show ?thesis by (simp add: u'_def b_bitmap_def buf_bdwrite_def)
  qed
  have bs: "allocated u' c = allocated u c" if "c \<in> vol_blocks (um_e2fs u)" for c
    using bm [OF vol_blocks_group [OF that]] by (simp add: allocated_def u'_def Let_def)
  then show set: "block_set u' = block_set u" by (auto simp: block_set_def u'_def)
  have bg: "bgroup_ok u' k" if "k < length (e2fs_gd (um_e2fs u))" for k
    using v that bm [OF that] by (auto simp: vol_ok_def blocks_ok_def bgroup_ok_def u'_def Let_def)
  have "0 < length (e2fs_gd (um_e2fs u))" using v by (simp add: vol_ok_def blocks_ok_def geom_ok_def Let_def)
  then have "blocks_ok u'" using v bg bm by (auto simp: vol_ok_def blocks_ok_def u'_def Let_def)
  then have "vol_ok u'" using v set len by (auto simp: vol_ok_def u'_def bmap_geom_def nindir_of_def buf_bdwrite_def)
  then show "keeps u u' {}" using v b(1) by (auto simp: keeps_def u'_def blk_addr_inj buf_bdwrite_def)
qed

lemma put_dinode_total:
  assumes "length (e2di_blocks d) = 15" "i + (if x then 156 else 128) \<le> length bs"
  shows "\<exists>bs'. put_dinode x bs (int i) d = Ret bs'"
proof -
  have "length (bytes_of_words (dinode_base d)) = 128" "length (bytes_of_words (dinode_extra d)) = 28"
    using assms(1) by simp_all
  then show ?thesis using assms(2) by (auto simp: put_dinode_def blit_def min_def)
qed

lemma get_dinode_total:
  assumes "i + (if x then 156 else 128) \<le> length bs"
  shows "\<exists>d. get_dinode x bs (int i) = Ret d \<and> (x \<or> dinode_extra d = replicate 7 0)"
  using assms by (auto simp: get_dinode_def slice_def dinode_of_def dinode_extra_def join16_def lo16_def hi16_def numeral_eq_Suc)

text \<open>The slot of an inode after \<^verbatim>\<open>ext2_update\<close>.\<close>

definition stored :: "ext2mount \<Rightarrow> u32 \<Rightarrow> u32 \<Rightarrow> ext2fs_dinode outcome" where
  "stored u b k = get_dinode (E2DI_HAS_XTIME (um_e2fs u)) (dev_blk (um_devvp u) (blk_addr u (unat b))) (uint (e2fs_isize (um_e2fs u) * k))"

definition to_write :: "inode_env \<Rightarrow> bool \<Rightarrow> m_ext2fs \<Rightarrow> inode \<Rightarrow> bool" where
  "to_write env w fs ip \<longleftrightarrow> e2fs_ronly fs = 0 \<and> (w \<or> i_flag (ext2_itimes env ip) AND IN_MODIFIED \<noteq> 0)"

lemma update_spec:
  assumes v: "vol_ok u" and p: "ptrs_ok ip" and s: "slot_at u (i_number ip) b k"
  shows "\<exists>error ip' u'. ext2_update env w ip u = Ret (error, ip', u') \<and> untimed ip' = untimed ip \<and> (healthy u \<longrightarrow> error = 0) \<and>
     keeps u u' {} \<and> block_set u' = block_set u \<and>
     (to_write env w (um_e2fs u) ip \<longrightarrow> (\<exists>ei. length (e2di_blocks ei) = 15 \<and> stored u' b k = Ret (ext2_i2ei (um_e2fs u) ip' ei)))"
proof (cases "to_write env w (um_e2fs u) ip")
  case False
  then have "ext2_update env w ip u = Ret (0, ext2_itimes env ip, u)"
    by (auto simp: ext2_update_def to_write_def Let_def)
  then show ?thesis using False keeps_refl [OF v] by simp
next
  case True
  let ?fs = "um_e2fs u"
  define ip1 where "ip1 = (ext2_itimes env ip)\<lparr>i_flag := i_flag (ext2_itimes env ip) AND NOT (IN_LAZYACCESS OR IN_LAZYMOD OR IN_MODIFIED)\<rparr>"
  have unt: "untimed ip1 = untimed ip"
  proof -
    have "untimed ip1 = untimed (ext2_itimes env ip)"
      unfolding ip1_def untimed_def using time_flags_mask(2) [OF time_flags(4)] by simp
    then show ?thesis by simp
  qed
  note f = untimed_fields [OF unt]
  note g = untimed_fields [OF untimed_itimes [of env ip]]
  have sl: "ino_to_fsba ?fs (i_number ip) = Ret b" "ino_to_fsbo ?fs (i_number ip) = Ret k" "unat b \<in> meta_blocks ?fs"
    "blk_addr u (unat b) \<notin> bitmap_addrs ?fs" "unat (e2fs_isize ?fs * k) + dinode_len ?fs \<le> unat (e2fs_bsize ?fs)"
    using s by (simp_all add: slot_at_def)
  let ?a = "blk_addr u (unat b)" and ?x = "E2DI_HAS_XTIME ?fs" and ?off = "unat (e2fs_isize ?fs * k)"
  let ?bs = "dev_blk (um_devvp u) ?a"
  have a: "fsbtodb ?fs (uint b) = ?a" unfolding uint_nat by (rule fsbtodb_blk [OF v])
  have len: "length ?bs = unat (e2fs_bsize ?fs)" using v by (simp add: vol_ok_def)
  have fit: "?off + (if ?x then 156 else 128) \<le> length ?bs" using sl(5) by (simp add: len dinode_len_def)
  obtain ei where ei: "get_dinode ?x ?bs (int ?off) = Ret ei" "?x \<or> dinode_extra ei = replicate 7 0"
    using get_dinode_total [OF fit] by blast
  have l15: "length (e2di_blocks (ext2_i2ei ?fs ip1 ei)) = 15" using p f(1,2) by (simp add: ext2_i2ei_def Let_def ptrs_ok_def)
  have e15: "length (e2di_blocks ei) = 15" by (rule get_dinode_blocks [OF ei(1)])
  obtain bs' where bs': "put_dinode ?x ?bs (int ?off) (ext2_i2ei ?fs ip1 ei) = Ret bs'" using put_dinode_total [OF l15 fit] by blast
  have ex: "?x \<or> dinode_extra (ext2_i2ei ?fs ip1 ei) = replicate 7 0" using ei(2) by (auto simp: ext2_i2ei_def Let_def dinode_extra_def)
  note pg = put_get_dinode [OF bs' l15 ex]
  have len': "length bs' = unat (e2fs_bsize ?fs)" using pg len by simp
  define u' where "u' = u\<lparr>um_devvp := buf_bdwrite (um_devvp u) ?a bs'\<rparr>"
  have kp: "keeps u u' {}" "block_set u' = block_set u" unfolding u'_def by (rule meta_write [OF v sl(3,4) len'])+
  have eq: "(error, dev) = (if w \<and> \<not> doing_async env then buf_bwrite (um_devvp u) ?a bs' else (0, buf_bdwrite (um_devvp u) ?a bs')) \<Longrightarrow>
      u\<lparr>um_devvp := dev\<rparr> = u' \<and> (healthy u \<longrightarrow> error = 0)" for error dev
    by (auto simp: u'_def buf_bwrite_def buf_bdwrite_def healthy_def split: if_splits)
  obtain error dev where ed: "(error, dev) = (if w \<and> \<not> doing_async env then buf_bwrite (um_devvp u) ?a bs' else (0, buf_bdwrite (um_devvp u) ?a bs'))"
    by (metis surj_pair)
  have c: "\<not> (i_flag (ext2_itimes env ip) AND IN_MODIFIED = 0 \<and> \<not> w)" "\<not> e2fs_ronly ?fs \<noteq> 0" using True by (auto simp: to_write_def)
  have off: "uint (e2fs_isize ?fs * k) = int ?off" by (rule uint_nat)
  have "ext2_update env w ip u = Ret (error, ip1, u\<lparr>um_devvp := dev\<rparr>)"
    unfolding ext2_update_def Let_def if_not_P [OF c(1)] if_not_P [OF c(2)] ip1_def [symmetric] f(5) sl(1,2) bnd.simps a vol_read [OF v] sum.case
      off ei(1) bs' ed [symmetric] prod.case ..
  then have "ext2_update env w ip u = Ret (error, ip1, u')" using eq [OF ed] by simp
  moreover have "stored u' b k = Ret (ext2_i2ei ?fs ip1 ei)"
    unfolding stored_def u'_def using pg by (simp add: buf_bdwrite_def blk_addr_def off [symmetric])
  ultimately show ?thesis using unt kp eq [OF ed] e15 by blast
qed

section \<open>What a file gives back\<close>

text \<open>The first block of the file that tree \<open>k\<close> serves, how many of its positions stay, and its blocks that serve none of them.\<close>

definition root_base :: "ext2mount \<Rightarrow> nat \<Rightarrow> nat" where
  "root_base u k = (let n = nindir_of u in if k < 13 then k else if k = 13 then 12 + n else 12 + n + n ^ 2)"

definition root_keep :: "ext2mount \<Rightarrow> nat \<Rightarrow> nat \<Rightarrow> nat" where
  "root_keep u L k = L - root_base u k"

definition root_cut :: "ext2mount \<Rightarrow> inode \<Rightarrow> nat \<Rightarrow> nat \<Rightarrow> nat set" where
  "root_cut u ip L k = (if root_keep u L k = 0 then root_blocks u ip k
     else tree_cut u (root_level k) (block_pointers ip ! k) (root_keep u L k))"

text \<open>Its indirect blocks.\<close>

definition root_inner :: "ext2mount \<Rightarrow> inode \<Rightarrow> nat \<Rightarrow> nat set" where
  "root_inner u ip k = tree_inner u (root_level k) (block_pointers ip ! k)"

definition file_inner :: "ext2mount \<Rightarrow> inode \<Rightarrow> nat set" where
  "file_inner u ip = (\<Union>k<15. root_inner u ip k)"

lemma root_inner_subset: "root_inner u ip k \<subseteq> root_blocks u ip k"
  using tree_inner_subset by (simp add: root_inner_def root_blocks_def)

lemma root_inner_in: "k < 15 \<Longrightarrow> root_inner u ip k \<subseteq> file_inner u ip"
  by (auto simp: file_inner_def)

definition file_cut :: "ext2mount \<Rightarrow> inode \<Rightarrow> nat \<Rightarrow> nat set" where
  "file_cut u ip L = (\<Union>k<15. root_cut u ip L k)"

lemma place_base: "file_place u b = Some (k, x) \<Longrightarrow> b = root_base u k + x"
  unfolding file_place_def lbn_place_def root_base_def Let_def by (auto split: if_splits)

lemma root_cut_subset: "root_cut u ip L k \<subseteq> root_blocks u ip k"
  using tree_cut_subset [of u "root_level k" "block_pointers ip ! k"] by (simp add: root_cut_def root_blocks_def)

lemma root_keep_in: "file_place u b = Some (k, x) \<Longrightarrow> x < root_keep u L k \<longleftrightarrow> b < L"
  using place_base [of u b k x] by (auto simp: root_keep_def)

text \<open>A tree all of whose positions stay loses nothing.\<close>

lemma root_cut_kept: "nindir_of u ^ root_level k \<le> root_keep u L k \<Longrightarrow> 0 < nindir_of u \<Longrightarrow> root_cut u ip L k = {}"
proof -
  assume a: "nindir_of u ^ root_level k \<le> root_keep u L k" and n: "0 < nindir_of u"
  have "0 < nindir_of u ^ root_level k" using n by simp
  then have "root_keep u L k \<noteq> 0" using a by linarith
  then show ?thesis using tree_cut_full [OF a] by (simp add: root_cut_def)
qed

text \<open>The trees in \<open>K\<close> have been cut, the others are as they were.\<close>

definition cut_to :: "ext2mount \<Rightarrow> inode \<Rightarrow> nat \<Rightarrow> nat set \<Rightarrow> ext2mount \<Rightarrow> inode \<Rightarrow> bool" where
  "cut_to u ip L K u' ip' \<longleftrightarrow> keeps u u' (file_inner u ip) \<and> file_ok u' ip' \<and> block_set u' = block_set u - (\<Union>k\<in>K. root_cut u ip L k) \<and>
     (\<forall>k<15. root_blocks u' ip' k = root_blocks u ip k - (if k \<in> K then root_cut u ip L k else {})) \<and>
     (\<forall>k<15. k \<notin> K \<longrightarrow> block_pointers ip' ! k = block_pointers ip ! k \<and> root_cut u' ip' L k = root_cut u ip L k \<and>
        root_inner u' ip' k = root_inner u ip k) \<and>
     (\<forall>b k x. file_place u b = Some (k, x) \<longrightarrow> file_block u' ip' b = (if k \<in> K \<and> L \<le> b then Some 0 else file_block u ip b))"

lemma file_disjoint:
  assumes "file_ok u ip" "j < 15" "k < 15" "j \<noteq> k"
  shows "root_blocks u ip j \<inter> root_blocks u ip k = {}"
  using assms by (simp add: file_ok_def)

lemma file_root_ok: "file_ok u ip \<Longrightarrow> k < 15 \<Longrightarrow> tree_ok u (root_level k) (block_pointers ip ! k)"
  by (simp add: file_ok_def)

lemma root_in_file: "k < 15 \<Longrightarrow> root_blocks u ip k \<subseteq> file_set u ip"
  by (auto simp: file_set_def)

lemma cut_to_none: "vol_ok u \<Longrightarrow> file_ok u ip \<Longrightarrow> cut_to u ip L {} u ip"
  by (simp add: cut_to_def keeps_refl)

text \<open>A tree that keeps all its positions counts as cut.\<close>

lemma cut_to_kept:
  assumes c: "cut_to u ip L K u' ip'" and v: "vol_ok u" and full: "\<And>j. j \<in> J \<Longrightarrow> nindir_of u ^ root_level j \<le> root_keep u L j"
  shows "cut_to u ip L (K \<union> J) u' ip'"
proof -
  have e: "root_cut u ip L j = {}" if "j \<in> J" for j by (rule root_cut_kept [OF full [OF that] nindir_pos [OF v]])
  have "b < L" if "file_place u b = Some (k, x)" "k \<in> J" for b k x
    using root_keep_in [OF that(1), of L] file_place_range(2) [OF that(1)] full [OF that(2)] by simp
  then have "(k \<in> K \<union> J \<and> L \<le> b) = (k \<in> K \<and> L \<le> b)" if "file_place u b = Some (k, x)" for b k x
    using that by (meson UnE UnI1 not_less)
  moreover have "(\<Union>k\<in>K \<union> J. root_cut u ip L k) = (\<Union>k\<in>K. root_cut u ip L k)" using e by auto
  ultimately show ?thesis using c e unfolding cut_to_def by (auto split: if_splits)
qed

lemma cut_to_step:
  assumes c: "cut_to u ip L K u1 ip1" and f: "file_ok u ip" and k: "k < 15" "k \<notin> K"
    and kp: "keeps u1 u2 (root_inner u ip k)" "block_set u2 = block_set u1 - root_cut u ip L k"
    and ip2: "ptrs_ok ip2" "block_pointers ip2 = (block_pointers ip1)[k := w]"
    and new: "tree_ok u2 (root_level k) w" "set (tree_blocks u2 (root_level k) w) = root_blocks u ip k - root_cut u ip L k"
    and get: "\<And>x. x < nindir_of u ^ root_level k \<Longrightarrow> tree_get u2 (root_level k) w x =
      (if x < root_keep u L k then tree_get u1 (root_level k) (block_pointers ip1 ! k) x else 0)"
  shows "cut_to u ip L (insert k K) u2 ip2"
proof -
  have c1: "keeps u u1 (file_inner u ip)" "file_ok u1 ip1" "block_set u1 = block_set u - (\<Union>k\<in>K. root_cut u ip L k)"
    and rb: "\<And>j. j < 15 \<Longrightarrow> root_blocks u1 ip1 j = root_blocks u ip j - (if j \<in> K then root_cut u ip L j else {})"
    and bp: "\<And>j. j < 15 \<Longrightarrow> j \<notin> K \<Longrightarrow> block_pointers ip1 ! j = block_pointers ip ! j \<and> root_cut u1 ip1 L j = root_cut u ip L j \<and>
        root_inner u1 ip1 j = root_inner u ip j"
    and fb: "\<And>b j x. file_place u b = Some (j, x) \<Longrightarrow> file_block u1 ip1 b = (if j \<in> K \<and> L \<le> b then Some 0 else file_block u ip b)"
    using c by (auto simp: cut_to_def)
  have p1: "ptrs_ok ip1" using c1(2) by (simp add: file_ok_def)
  have rk: "root_blocks u1 ip1 k = root_blocks u ip k" using rb [OF k(1)] k(2) by simp
  have dis: "root_blocks u1 ip1 j \<inter> root_blocks u ip k = {}" if "j < 15" "j \<noteq> k" for j
    using file_disjoint [OF c1(2) that(1) k(1) that(2)] rk by simp
  have di: "root_blocks u1 ip1 j \<inter> root_inner u ip k = {}" if "j < 15" "j \<noteq> k" for j
    using dis [OF that] root_inner_subset [of u ip k] by blast
  have away: "\<forall>j<15. j \<noteq> k \<longrightarrow> root_blocks u1 ip1 j \<inter> root_inner u ip k = {} \<and> root_blocks u1 ip1 j \<subseteq> data_blocks u2"
  proof (intro allI impI conjI)
    fix j :: nat assume j: "j < 15" "j \<noteq> k"
    show "root_blocks u1 ip1 j \<inter> root_inner u ip k = {}" by (rule di [OF j])
    have "root_blocks u1 ip1 j \<subseteq> data_blocks u1" using file_root_ok [OF c1(2) j(1)] by (simp add: tree_ok_def root_blocks_def)
    then show "root_blocks u1 ip1 j \<subseteq> data_blocks u2"
      using data_blocks_less [OF kp] dis [OF j] root_cut_subset [of u ip L k] by blast
  qed
  have new2: "\<forall>j<15. j \<noteq> k \<longrightarrow> set (tree_blocks u2 (root_level k) w) \<inter> root_blocks u1 ip1 j = {}"
    unfolding new(2) using dis by blast
  note r = file_replace [OF c1(2) k(1) kp(1) away ip2 new(1) new2]
  have keep: "keeps u u2 (file_inner u ip)"
    by (rule keeps_mono [OF keeps_trans [OF c1(1) kp(1)]]) (use root_inner_in [OF k(1), of u ip] in blast)
  have "block_set u2 = block_set u - (\<Union>k\<in>insert k K. root_cut u ip L k)" unfolding kp(2) c1(3) by blast
  moreover have "root_blocks u2 ip2 j = root_blocks u ip j - (if j \<in> insert k K then root_cut u ip L j else {})" if "j < 15" for j
    using r(2) r(3) [OF that] rb [OF that] new(2) by (cases "j = k") auto
  moreover have "block_pointers ip2 ! j = block_pointers ip ! j \<and> root_cut u2 ip2 L j = root_cut u ip L j \<and>
      root_inner u2 ip2 j = root_inner u ip j" if j: "j < 15" "j \<notin> insert k K" for j
  proof -
    let ?t = "tree_blocks u1 (root_level j) (block_pointers ip1 ! j)"
    have b2: "block_pointers ip2 ! j = block_pointers ip1 ! j" using j by (simp add: ip2(2))
    have d: "set ?t \<inter> root_inner u ip k = {}" "set ?t \<inter> root_cut u ip L k = {}"
      using dis [OF j(1)] di [OF j(1)] j(2) root_cut_subset [of u ip L k] by (auto simp: root_blocks_def)
    note tk = tree_ok_keeps [OF kp file_root_ok [OF c1(2) j(1)] d]
    have "root_keep u2 L j = root_keep u1 L j" using keeps_params(1) [OF kp(1)] by (simp add: root_keep_def root_base_def Let_def)
    then have "root_cut u2 ip2 L j = root_cut u1 ip1 L j"
      using r(3) [OF j(1)] j(2) tk(3) b2 by (simp add: root_cut_def)
    moreover have "root_inner u2 ip2 j = root_inner u1 ip1 j" using tk(5) b2 by (simp add: root_inner_def)
    ultimately show ?thesis using bp [OF j(1)] j b2 by simp
  qed
  moreover have "file_block u2 ip2 b = (if j \<in> insert k K \<and> L \<le> b then Some 0 else file_block u ip b)"
    if p: "file_place u b = Some (j, x)" for b j x
  proof -
    have p': "file_place u1 b = Some (j, x)" using p file_place_keeps [OF c1(1)] by simp
    have old: "file_block u1 ip1 b = Some (tree_get u1 (root_level j) (block_pointers ip1 ! j) x)"
      unfolding file_block_get [OF p1] p' by simp
    note q = r(4) [OF p']
    show ?thesis
    proof (cases "j = k")
      case True
      then have "file_block u2 ip2 b = (if b < L then file_block u1 ip1 b else Some 0)"
        using q old get [of x] file_place_range(2) [OF p] root_keep_in [OF p, of L] by auto
      then show ?thesis using fb [OF p] True k(2) by auto
    next
      case False
      then show ?thesis using q old fb [OF p] by auto
    qed
  qed
  ultimately show ?thesis unfolding cut_to_def using keep r(1) by blast
qed

section \<open>The loops of \<^verbatim>\<open>ext2_truncate\<close>\<close>

lemma small_nindir: "vol_ok u \<Longrightarrow> shift_ok (um_e2fs u) \<Longrightarrow> nindir_of u \<le> 2 ^ 14"
proof -
  assume v: "vol_ok u" and s: "shift_ok (um_e2fs u)"
  have "uint (e2fs_bsize (um_e2fs u)) \<le> 2 ^ 16"
    using s power_increasing [of "unat (e2fs_bshift (um_e2fs u))" 16 "2 :: int"] by (simp add: shift_ok_def)
  moreover have "uint (e2fs_bsize (um_e2fs u)) = 4 * int (nindir_of u)" unfolding uint_nat using v by (simp add: vol_ok_def)
  ultimately show ?thesis by simp
qed

lemma last_iblock_keep:
  assumes v: "vol_ok u" and n: "nindir_of u \<le> 2 ^ 14" and L: "L < 2 ^ 31" and l: "l < 3"
  shows "last_iblock (um_e2fs u) (int L - 1) l = int (root_keep u L (12 + l)) - 1"
proof -
  let ?n = "nindir_of u"
  have sq: "?n * ?n \<le> 2 ^ 28" using mult_le_mono [OF n n] by simp
  define m where "m = ?n * ?n"
  have N: "NINDIR (um_e2fs u) = int ?n" "int ?n * int ?n = int m" using nindir_bsize [OF v] by (simp_all add: m_def)
  have b: "int L < 2 ^ 31" "int ?n \<le> 2 ^ 14" "int m \<le> 2 ^ 28"
    using L n sq unfolding m_def [symmetric] of_nat_less_numeral_power_cancel_iff of_nat_le_numeral_power_cancel_iff by simp_all
  have s: "s32 (int L - 1 - 12) = int L - 13" "s32 (int L - 13 - int ?n) = int L - 13 - int ?n"
    "s32 (int L - 13 - int ?n - int m) = int L - 13 - int ?n - int m"
    using b by (simp_all add: s32_id)
  have k: "root_keep u L (12 + l) = L - (12 + (if l = 0 then 0 else if l = 1 then ?n else ?n + m))"
    using l by (auto simp: root_keep_def root_base_def Let_def power2_eq_square m_def)
  have e: "(if x < 0 then - 1 else x) = int (nat (x + 1)) - 1" for x :: int by auto
  have "l = 0 \<or> l = 1 \<or> l = 2" using l by auto
  then show ?thesis
    unfolding last_iblock_def Let_def NDADDR_def N s e k by auto
qed

definition cut_level :: "inode_env \<Rightarrow> int \<Rightarrow> nat \<Rightarrow> u32 \<Rightarrow> errno \<Rightarrow> int \<Rightarrow> inode \<Rightarrow> ext2mount \<Rightarrow> (errno \<times> int \<times> inode \<times> ext2mount) outcome" where
  "cut_level env lasti level w allerror blocksreleased ip ump =
     (let fs = um_e2fs ump; bn = sint w in
      if bn = 0 then Ret (allerror, blocksreleased, ip, ump)
      else
        bnd (ext2_indirtrunc (ie_trunc env) level (indir_lbn fs level) (fsbtodb fs bn) lasti ump) (\<lambda>(error, count, ump).
        let allerror = (if error \<noteq> 0 then error else allerror); blocksreleased = blocksreleased + count in
        if lasti < 0 then
          bnd (wr (i_ib ip) (int level) 0) (\<lambda>ib.
          bnd (ext2_blkfree bn ump) (\<lambda>ump.
          Ret (allerror, blocksreleased + btodb (uint (e2fs_bsize fs)), ip\<lparr>i_ib := ib\<rparr>, ump)))
        else Ret (allerror, blocksreleased, ip, ump)))"

lemma trunc_levels_step:
  assumes "rd (i_ib ip) (int level) = Ret w"
  shows "trunc_levels env lastblock (Suc level) allerror blocksreleased ip ump =
     bnd (cut_level env (last_iblock (um_e2fs ump) lastblock level) level w allerror blocksreleased ip ump) (\<lambda>(allerror, blocksreleased, ip', ump').
       if last_iblock (um_e2fs ump) lastblock level \<ge> 0 then Ret (True, allerror, blocksreleased, ip', ump')
       else trunc_levels env lastblock level allerror blocksreleased ip' ump')"
  unfolding trunc_levels.simps(2) Let_def cut_level_def assms bnd.simps ..

text \<open>The pointers of a file fit in 31 bits.\<close>

lemma root_pointer:
  assumes v: "vol_ok u" and t: "tree_ok u l w"
  shows "sint w = int (unat w)"
proof (cases "w = 0")
  case False
  then have "unat w \<in> data_blocks u" using t by (cases l) (auto simp: tree_ok_def set_tree_Suc)
  then have "unat w < unat (e2fs_bcount (e2fs (um_e2fs u)))" by (simp add: data_blocks_def)
  moreover have "unat (e2fs_bcount (e2fs (um_e2fs u))) \<le> 2 ^ 31" using v by (simp add: vol_ok_def blocks_ok_def geom_ok_def Let_def)
  ultimately show ?thesis by (intro sint_unat_small) simp
qed simp


definition nblocks_of :: "m_ext2fs \<Rightarrow> int" where
  "nblocks_of fs = btodb (uint (e2fs_bsize fs))"

lemma cut_level_spec:
  assumes c: "cut_to u ip L K u1 ip1" and f: "file_ok u ip" and h: "healthy u" and l: "l < 3" "12 + l \<notin> K"
    and b: "root_keep u L (12 + l) \<le> nindir_of u ^ Suc l"
  shows "\<exists>ib u2. cut_level env (int (root_keep u L (12 + l)) - 1) l (i_ib ip1 ! l) err rel ip1 u1 =
       Ret (err, rel + nblocks_of (um_e2fs u) * int (card (root_cut u ip L (12 + l))), ip1\<lparr>i_ib := ib\<rparr>, u2) \<and>
     cut_to u ip L (insert (12 + l) K) u2 (ip1\<lparr>i_ib := ib\<rparr>)"
proof -
  let ?k = "12 + l" and ?w = "i_ib ip1 ! l" and ?keep = "root_keep u L (12 + l)"
  have k15: "?k < 15" using l(1) by simp
  have c1: "keeps u u1 (file_inner u ip)" "file_ok u1 ip1" using c by (simp_all add: cut_to_def)
  note v1 = keeps_vol [OF c1(1)]
  have same: "root_blocks u1 ip1 ?k = root_blocks u ip ?k" "root_cut u1 ip1 L ?k = root_cut u ip L ?k" "root_inner u1 ip1 ?k = root_inner u ip ?k"
    using c k15 l(2) by (simp_all add: cut_to_def)
  have p1: "ptrs_ok ip1" using c1(2) by (simp add: file_ok_def)
  have rl: "root_level ?k = Suc l" by (simp add: root_level_def)
  have w: "block_pointers ip1 ! ?k = ?w" using block_pointers_nth(2) [OF p1 l(1)] by (simp add: add.commute)
  have t: "tree_ok u1 (Suc l) ?w" using file_root_ok [OF c1(2) k15] by (simp add: rl w)
  have kp1: "root_keep u1 L ?k = ?keep" using keeps_params(1) [OF c1(1)] by (simp add: root_keep_def root_base_def Let_def)
  have n1: "nindir_of u1 = nindir_of u" by (rule keeps_params(1) [OF c1(1)])
  have nb: "btodb (uint (e2fs_bsize (um_e2fs u1))) = nblocks_of (um_e2fs u)"
    using static_fs_fields(1) [OF keeps_static [OF c1(1)]] by (simp add: nblocks_of_def)
  have h1: "\<forall>a. dev_werr (um_devvp u1) a = 0" using h healthy_keeps [OF c1(1)] by (simp add: healthy_def)
  have ibl: "length (i_ib ip1) = 3" using p1 by (simp add: ptrs_ok_def)
  show ?thesis
  proof (cases "?w = 0")
    case True
    have e: "root_cut u ip L ?k = {}" "root_blocks u ip ?k = {}"
      using True w same(1) root_cut_subset [of u ip L ?k] by (auto simp: root_blocks_def rl)
    have "cut_to u ip L (insert ?k K) u1 ip1"
    proof (rule cut_to_step [OF c f k15 l(2), of u1 ip1 0])
      show "keeps u1 u1 (root_inner u ip ?k)" by (rule keeps_refl [OF v1])
      show "block_pointers ip1 = (block_pointers ip1)[?k := 0]" using w True list_update_id [of "block_pointers ip1" ?k] by simp
    qed (use e p1 w True t in \<open>simp_all add: rl\<close>)
    then show ?thesis using True e by (intro exI [of _ "i_ib ip1"] exI [of _ u1]) (simp add: cut_level_def)
  next
    case False
    define cut where "cut = tree_cut u1 (Suc l) ?w ?keep"
    have sw: "sint ?w = int (unat ?w)" by (rule root_pointer [OF v1 t])
    have a: "fsbtodb (um_e2fs u1) (sint ?w) = blk_addr u1 (unat ?w)" unfolding sw by (rule fsbtodb_blk [OF v1])
    have nz: "sint ?w \<noteq> 0" using False unfolding sw by (simp add: uint_0_iff)
    have lt: "int ?keep - 1 < int (nindir_of u1 ^ Suc l)"
    proof -
      have "int ?keep \<le> int (nindir_of u ^ Suc l)" using b by (simp only: of_nat_le_iff)
      then show ?thesis unfolding n1 by linarith
    qed
    have nat1: "nat (int ?keep - 1 + 1) = ?keep" by simp
    obtain u2 where s: "ext2_indirtrunc (ie_trunc env) l (indir_lbn (um_e2fs u1) l) (blk_addr u1 (unat ?w)) (int ?keep - 1) u1 =
         Ret (0, nblocks_of (um_e2fs u) * int (card cut), u2)"
      "keeps u1 u2 (tree_inner u1 (Suc l) ?w)" "block_set u2 = block_set u1 - cut"
      "0 < ?keep \<longrightarrow> tree_ok u2 (Suc l) ?w \<and> set (tree_blocks u2 (Suc l) ?w) = set (tree_blocks u1 (Suc l) ?w) - cut \<and>
         (\<forall>x < nindir_of u1 ^ Suc l. tree_get u2 (Suc l) ?w x = (if x < ?keep then tree_get u1 (Suc l) ?w x else 0))"
    proof -
      have le: "int x \<le> int ?keep - 1 \<longleftrightarrow> x < ?keep" "0 \<le> int ?keep - 1 \<longleftrightarrow> 0 < ?keep" for x by linarith+
      show ?thesis
        using indirtrunc_spec [of l "ie_trunc env", unfolded indir_spec_def, rule_format, OF v1 False t _ lt, of "indir_lbn (um_e2fs u1) l"] h1 that
        unfolding nat1 nb le cut_def by force
    qed
    have inner: "tree_inner u1 (Suc l) ?w = root_inner u ip ?k" using same(3) by (simp add: root_inner_def rl w)
    have rb: "set (tree_blocks u1 (Suc l) ?w) = root_blocks u ip ?k" using same(1) by (simp add: root_blocks_def rl w)
    show ?thesis
    proof (cases "?keep = 0")
      case z: False
      then have rc: "root_cut u ip L ?k = cut" using same(2) kp1 by (simp add: root_cut_def cut_def rl w)
      have "cut_to u ip L (insert ?k K) u2 ip1"
      proof (rule cut_to_step [OF c f k15 l(2), of u2 ip1 ?w])
        show "keeps u1 u2 (root_inner u ip ?k)" using s(2) inner by simp
        show "block_pointers ip1 = (block_pointers ip1)[?k := ?w]" using w list_update_id [of "block_pointers ip1" ?k] by simp
      qed (use s(3,4) z rc rb p1 n1 w in \<open>simp_all add: rl\<close>)
      then show ?thesis
        using s(1) a nz z rc by (intro exI [of _ "i_ib ip1"] exI [of _ u2]) (simp add: cut_level_def del: bnd_Ret_iff)
    next
      case z: True
      have root: "unat ?w \<notin> cut" "insert (unat ?w) cut = root_blocks u ip ?k"
        using tree_cut_root tree_cut_all [OF False] t z rb by (auto simp: cut_def tree_ok_def)
      have rc: "root_cut u ip L ?k = root_blocks u ip ?k" using z by (simp add: root_cut_def)
      have "unat ?w \<in> data_blocks u1" using t False by (auto simp: tree_ok_def set_tree_Suc)
      then have "unat ?w \<in> data_blocks u2" using root(1) data_blocks_less [OF s(2,3)] by blast
      from blkfree_keeps [OF keeps_vol [OF s(2)] this] obtain u3 where
        u3: "ext2_blkfree (int (unat ?w)) u2 = Ret u3" "keeps u2 u3 {}" "block_set u3 = block_set u2 - {unat ?w}" by blast
      define ip2 where "ip2 = ip1\<lparr>i_ib := (i_ib ip1)[l := 0]\<rparr>"
      have k13: "keeps u1 u3 (root_inner u ip ?k)" using keeps_trans [OF s(2) u3(2)] inner by simp
      have b13: "block_set u3 = block_set u1 - root_cut u ip L ?k" unfolding rc root(2) [symmetric] u3(3) s(3) by blast
      have ct: "cut_to u ip L (insert ?k K) u3 ip2"
      proof (rule cut_to_step [OF c f k15 l(2) k13 b13, of ip2 0])
        show "ptrs_ok ip2" "block_pointers ip2 = (block_pointers ip1)[?k := 0]"
          using block_pointers_upd(2,4) [OF p1] l(1) by (simp_all add: ip2_def add.commute)
        show "tree_ok u3 (root_level ?k) 0" by (simp add: tree_ok_def)
      qed (use rc z in simp_all)
      have "finite cut" using root(2) by (metis List.finite_set finite_insert root_blocks_def)
      then have card: "card (root_cut u ip L ?k) = Suc (card cut)" using root rc by (metis card_insert_disjoint)
      have wr: "wr (i_ib ip1) (int l) 0 = Ret ((i_ib ip1)[l := 0])" using ibl l(1) by (simp add: wr_in)
      have fr: "ext2_blkfree (sint ?w) u2 = Ret u3" unfolding sw by (rule u3(1))
      have neg: "int ?keep - 1 < 0" using z by simp
      have "cut_level env (int ?keep - 1) l ?w err rel ip1 u1 =
          Ret (err, rel + nblocks_of (um_e2fs u) * int (card cut) + nblocks_of (um_e2fs u), ip2, u3)"
        unfolding cut_level_def Let_def if_not_P [OF nz] a s(1) bnd.simps prod.case if_P [OF neg] wr fr nb ip2_def by simp
      moreover have "nblocks_of (um_e2fs u) * int (card (root_cut u ip L ?k)) = nblocks_of (um_e2fs u) * int (card cut) + nblocks_of (um_e2fs u)"
        unfolding card by (simp add: distrib_left)
      ultimately show ?thesis
        using ct by (intro exI [of _ "(i_ib ip1)[l := 0]"] exI [of _ u3]) (simp add: ip2_def)
    qed
  qed
qed


text \<open>The number of blocks of a file that are reached without the indirect blocks from level \<open>m\<close> on.\<close>

fun cap :: "ext2mount \<Rightarrow> nat \<Rightarrow> nat" where
  "cap u 0 = 12"
| "cap u (Suc m) = cap u m + nindir_of u ^ Suc m"

lemma cap_base: "l < 3 \<Longrightarrow> root_base u (12 + l) = cap u l"
proof -
  assume "l < 3"
  then have "l = 0 \<or> l = 1 \<or> l = 2" by auto
  then show ?thesis by (auto simp: root_base_def Let_def numeral_2_eq_2)
qed

lemma cap_mono: "j \<le> l \<Longrightarrow> cap u j \<le> cap u l"
  by (rule lift_Suc_mono_le) simp

lemma keep_cap:
  assumes "l < 3"
  shows "L \<le> cap u (Suc l) \<Longrightarrow> root_keep u L (12 + l) \<le> nindir_of u ^ Suc l" "root_keep u L (12 + l) = 0 \<longleftrightarrow> L \<le> cap u l"
  by (auto simp: root_keep_def cap_base [OF assms])

lemma keep_full:
  assumes "j < l" "l < 3" "cap u l < L"
  shows "nindir_of u ^ root_level (12 + j) \<le> root_keep u L (12 + j)"
proof -
  have j: "j < 3" using assms(1,2) by simp
  have "cap u (Suc j) \<le> cap u l" using cap_mono [of "Suc j" l u] assms(1) by simp
  then have "cap u j + nindir_of u ^ Suc j \<le> L" using assms(3) by simp
  then show ?thesis unfolding root_keep_def cap_base [OF j] by (simp add: root_level_def)
qed

lemma levels_spec:
  assumes c: "cut_to u ip L {12 + m..<15} u1 ip1" and f: "file_ok u ip" and h: "healthy u" and v: "vol_ok u"
    and sh: "nindir_of u \<le> 2 ^ 14" and L: "L < 2 ^ 31" "L \<le> cap u m" and m: "m \<le> 3"
  shows "\<exists>fin ib u2. trunc_levels env (int L - 1) m err rel ip1 u1 =
       Ret (fin, err, rel + nblocks_of (um_e2fs u) * int (\<Sum>k\<in>{12..<12 + m}. card (root_cut u ip L k)), ip1\<lparr>i_ib := ib\<rparr>, u2) \<and>
     cut_to u ip L {12..<15} u2 (ip1\<lparr>i_ib := ib\<rparr>) \<and> fin = (12 < L)"
  using c L(2) m
proof (induction m arbitrary: rel ip1 u1)
  case 0
  then show ?case by (intro exI [of _ False] exI [of _ "i_ib ip1"] exI [of _ u1]) simp
next
  case (Suc l)
  let ?r = "rel + nblocks_of (um_e2fs u) * int (card (root_cut u ip L (12 + l)))"
  have l: "l < 3" "12 + l \<notin> {12 + Suc l..<15}" using Suc.prems(3) by auto
  have kp: "keeps u u1 (file_inner u ip)" and ok1: "file_ok u1 ip1" using Suc.prems(1) by (simp_all add: cut_to_def)
  have p1: "ptrs_ok ip1" using ok1 by (simp add: file_ok_def)
  obtain ib u2 where s: "cut_level env (int (root_keep u L (12 + l)) - 1) l (i_ib ip1 ! l) err rel ip1 u1 = Ret (err, ?r, ip1\<lparr>i_ib := ib\<rparr>, u2)"
    "cut_to u ip L (insert (12 + l) {12 + Suc l..<15}) u2 (ip1\<lparr>i_ib := ib\<rparr>)"
    using cut_level_spec [OF Suc.prems(1) f h l keep_cap(1) [OF l(1) Suc.prems(2)], of env err rel] by blast
  have K: "insert (12 + l) {12 + Suc l..<15} = {12 + l..<15}" using l(1) by auto
  have rd: "rd (i_ib ip1) (int l) = Ret (i_ib ip1 ! l)" using p1 l(1) by (simp add: ptrs_ok_def)
  have li: "last_iblock (um_e2fs u1) (int L - 1) l = int (root_keep u L (12 + l)) - 1"
  proof -
    have n1: "nindir_of u1 = nindir_of u" by (rule keeps_params(1) [OF kp])
    have "root_keep u1 L (12 + l) = root_keep u L (12 + l)" by (simp add: root_keep_def root_base_def n1)
    then show ?thesis using last_iblock_keep [OF keeps_vol [OF kp] _ L(1) l(1)] sh n1 by simp
  qed
  have run: "trunc_levels env (int L - 1) (Suc l) err rel ip1 u1 =
      (if int (root_keep u L (12 + l)) - 1 \<ge> 0 then Ret (True, err, ?r, ip1\<lparr>i_ib := ib\<rparr>, u2)
       else trunc_levels env (int L - 1) l err ?r (ip1\<lparr>i_ib := ib\<rparr>) u2)"
    unfolding trunc_levels_step [OF rd] li s(1) by simp
  have sum: "(\<Sum>k\<in>{12..<12 + Suc l}. card (root_cut u ip L k)) = card (root_cut u ip L (12 + l)) + (\<Sum>k\<in>{12..<12 + l}. card (root_cut u ip L k))"
    unfolding add_Suc_right by (simp only: sum.atLeastLessThan_Suc le_add1 add.commute)
  show ?case
  proof (cases "L \<le> cap u l")
    case True
    then have "root_keep u L (12 + l) = 0" using keep_cap(2) [OF l(1)] by simp
    then have run': "trunc_levels env (int L - 1) (Suc l) err rel ip1 u1 = trunc_levels env (int L - 1) l err ?r (ip1\<lparr>i_ib := ib\<rparr>) u2"
      unfolding run by simp
    from Suc.IH [OF s(2) [unfolded K] True, of ?r] l(1) show ?thesis
      unfolding run' sum by (simp add: algebra_simps)
  next
    case False
    then have g: "int (root_keep u L (12 + l)) - 1 \<ge> 0" using keep_cap(2) [OF l(1), of u L] by simp
    have full: "nindir_of u ^ root_level k \<le> root_keep u L k" if "k \<in> {12..<12 + l}" for k
      using keep_full [of "k - 12" l u L] that l(1) False by auto
    have "cut_to u ip L ({12 + l..<15} \<union> {12..<12 + l}) u2 (ip1\<lparr>i_ib := ib\<rparr>)" by (rule cut_to_kept [OF s(2) [unfolded K] v full])
    moreover have "{12 + l..<15} \<union> {12..<12 + l} = {12..<15 :: nat}" using l(1) by auto
    moreover have "(\<Sum>k\<in>{12..<12 + Suc l}. card (root_cut u ip L k)) = card (root_cut u ip L (12 + l))"
      unfolding sum using root_cut_kept [OF full nindir_pos [OF v]] by simp
    moreover have "12 < L" using False cap_mono [of 0 l u] by simp
    ultimately show ?thesis using g unfolding run by auto
  qed
qed

text \<open>One direct block.\<close>

lemma cut_direct:
  assumes c: "cut_to u ip L K u1 ip1" and f: "file_ok u ip" and i: "i < 12" "i \<notin> K" "L \<le> i"
  shows "i_db ip1 ! i = 0 \<Longrightarrow> cut_to u ip L (insert i K) u1 ip1 \<and> root_cut u ip L i = {}"
    "i_db ip1 ! i \<noteq> 0 \<Longrightarrow> \<exists>u2. ext2_blkfree (sint (i_db ip1 ! i)) u1 = Ret u2 \<and>
       cut_to u ip L (insert i K) u2 (ip1\<lparr>i_db := (i_db ip1)[i := 0]\<rparr>) \<and> card (root_cut u ip L i) = 1"
proof -
  let ?w = "i_db ip1 ! i"
  have i15: "i < 15" using i(1) by simp
  have c1: "keeps u u1 (file_inner u ip)" "file_ok u1 ip1" using c by (simp_all add: cut_to_def)
  note v1 = keeps_vol [OF c1(1)]
  have p1: "ptrs_ok ip1" using c1(2) by (simp add: file_ok_def)
  have rl: "root_level i = 0" using i(1) by (simp add: root_level_def)
  have keep: "root_keep u L i = 0" using i by (simp add: root_keep_def root_base_def Let_def)
  have w: "block_pointers ip1 ! i = ?w" using block_pointers_nth(1) [OF p1 i(1)] .
  have rb: "root_cut u ip L i = root_blocks u ip i" "root_blocks u ip i = root_blocks u1 ip1 i"
    using c i15 i(2) keep by (simp_all add: root_cut_def cut_to_def)
  have rc: "root_cut u ip L i = (if ?w = 0 then {} else {unat ?w})" unfolding rb by (simp add: root_blocks_def rl w)
  have t: "tree_ok u1 0 ?w" using file_root_ok [OF c1(2) i15] by (simp add: rl w)
  show "cut_to u ip L (insert i K) u1 ip1 \<and> root_cut u ip L i = {}" if z: "?w = 0"
  proof
    show "cut_to u ip L (insert i K) u1 ip1"
    proof (rule cut_to_step [OF c f i15 i(2), of u1 ip1 0])
      show "keeps u1 u1 (root_inner u ip i)" by (rule keeps_refl [OF v1])
      show "block_pointers ip1 = (block_pointers ip1)[i := 0]" using w z list_update_id [of "block_pointers ip1" i] by simp
    qed (use rc rb z p1 t keep in \<open>simp_all add: rl\<close>)
    show "root_cut u ip L i = {}" using rc z by simp
  qed
  show "\<exists>u2. ext2_blkfree (sint ?w) u1 = Ret u2 \<and> cut_to u ip L (insert i K) u2 (ip1\<lparr>i_db := (i_db ip1)[i := 0]\<rparr>) \<and>
      card (root_cut u ip L i) = 1" if z: "?w \<noteq> 0"
  proof -
    have "unat ?w \<in> data_blocks u1" using t z by (simp add: tree_ok_def)
    from blkfree_keeps [OF v1 this] obtain u2 where
      u2: "ext2_blkfree (int (unat ?w)) u1 = Ret u2" "keeps u1 u2 {}" "block_set u2 = block_set u1 - {unat ?w}" by blast
    have "cut_to u ip L (insert i K) u2 (ip1\<lparr>i_db := (i_db ip1)[i := 0]\<rparr>)"
    proof (rule cut_to_step [OF c f i15 i(2), of u2 "ip1\<lparr>i_db := (i_db ip1)[i := 0]\<rparr>" 0])
      show "keeps u1 u2 (root_inner u ip i)" by (rule keeps_mono [OF u2(2)]) simp
      show "block_set u2 = block_set u1 - root_cut u ip L i" using u2(3) rc z by simp
      show "ptrs_ok (ip1\<lparr>i_db := (i_db ip1)[i := 0]\<rparr>)" "block_pointers (ip1\<lparr>i_db := (i_db ip1)[i := 0]\<rparr>) = (block_pointers ip1)[i := 0]"
        using block_pointers_upd(1,3) [OF p1] i(1) by simp_all
    qed (use rb keep in \<open>simp_all add: rl tree_ok_def\<close>)
    moreover have "ext2_blkfree (sint ?w) u1 = Ret u2" unfolding root_pointer [OF v1 t] by (rule u2(1))
    ultimately show ?thesis using rc z by simp
  qed
qed

lemma directs_spec:
  assumes c: "cut_to u ip L {n..<15} u1 ip1" and f: "file_ok u ip" and v: "vol_ok u" and sh: "shift_ok (um_e2fs u)" and n: "n \<le> 12"
  shows "\<exists>db u2. trunc_direct (int L - 1) n rel ip1 u1 =
       Ret (rel + nblocks_of (um_e2fs u) * int (\<Sum>k<n. card (root_cut u ip L k)), ip1\<lparr>i_db := db\<rparr>, u2) \<and>
     cut_to u ip L {..<15} u2 (ip1\<lparr>i_db := db\<rparr>)"
  using c n
proof (induction n arbitrary: rel ip1 u1)
  case 0
  have "{0..<15} = {..<15 :: nat}" by auto
  with 0 show ?case by (intro exI [of _ "i_db ip1"] exI [of _ u1]) simp
next
  case (Suc i)
  have p1: "ptrs_ok ip1" and kp: "keeps u u1 (file_inner u ip)" using Suc.prems(1) by (simp_all add: cut_to_def file_ok_def)
  have i: "i < 12" "i \<notin> {Suc i..<15}" using Suc.prems(2) by auto
  have K: "insert i {Suc i..<15} = {i..<15}" using i by auto
  show ?case
  proof (cases "L \<le> i")
    case False
    have full: "nindir_of u ^ root_level k \<le> root_keep u L k" if "k \<in> {..<Suc i}" for k
      using that False i(1) by (auto simp: root_keep_def root_base_def root_level_def Let_def)
    have "cut_to u ip L ({Suc i..<15} \<union> {..<Suc i}) u1 ip1" by (rule cut_to_kept [OF Suc.prems(1) v full])
    moreover have "{Suc i..<15} \<union> {..<Suc i} = {..<15}" using i(1) by auto
    moreover have "root_cut u ip L k = {}" if "k \<in> {..<Suc i}" for k by (rule root_cut_kept [OF full [OF that] nindir_pos [OF v]])
    then have "(\<Sum>k<Suc i. card (root_cut u ip L k)) = 0" by simp
    ultimately show ?thesis using False by (intro exI [of _ "i_db ip1"] exI [of _ u1]) simp
  next
    case True
    have g: "int i > int L - 1" using True by simp
    have rd: "rd (i_db ip1) (int i) = Ret (i_db ip1 ! i)" and wr: "wr (i_db ip1) (int i) 0 = Ret ((i_db ip1)[i := 0])"
      using p1 i(1) by (simp_all add: ptrs_ok_def wr_in)
    have bs: "btodb (blksize (um_e2fs u1)) = nblocks_of (um_e2fs u)"
      using sh static_fs_fields(1,5) [OF keeps_static [OF kp]] by (simp add: blksize_def nblocks_of_def shift_ok_def)
    note cd = cut_direct [OF Suc.prems(1) f i True, unfolded K]
    show ?thesis
    proof (cases "i_db ip1 ! i = 0")
      case z: True
      then have "trunc_direct (int L - 1) (Suc i) rel ip1 u1 = trunc_direct (int L - 1) i rel ip1 u1"
        using g by (simp add: rd)
      then show ?thesis using Suc.IH [of u1 ip1 rel] cd(1) z i(1) by simp
    next
      case z: False
      obtain u2 where u2: "ext2_blkfree (sint (i_db ip1 ! i)) u1 = Ret u2" "cut_to u ip L {i..<15} u2 (ip1\<lparr>i_db := (i_db ip1)[i := 0]\<rparr>)"
        "card (root_cut u ip L i) = 1" using cd(2) z by blast
      have nz: "sint (i_db ip1 ! i) \<noteq> 0" using z by (simp add: signed_eq_0_iff)
      have "trunc_direct (int L - 1) (Suc i) rel ip1 u1 =
          trunc_direct (int L - 1) i (rel + nblocks_of (um_e2fs u)) (ip1\<lparr>i_db := (i_db ip1)[i := 0]\<rparr>) u2"
        unfolding trunc_direct.simps(2) if_P [OF g] rd bnd.simps Let_def if_not_P [OF nz] wr u2(1) bs ..
      moreover have "(\<Sum>k<Suc i. card (root_cut u ip L k)) = 1 + (\<Sum>k<i. card (root_cut u ip L k))" using u2(3) by simp
      ultimately show ?thesis using Suc.IH [OF u2(2), of "rel + nblocks_of (um_e2fs u)"] i(1) by (simp add: algebra_simps)
    qed
  qed
qed

section \<open>The content of a file\<close>

text \<open>Sector addresses fit in 32 bits.\<close>

definition under_2tb :: "ext2mount \<Rightarrow> bool" where
  "under_2tb u \<longleftrightarrow> unat (e2fs_bcount (e2fs (um_e2fs u))) * 2 ^ unat (um_bptrtodb u) \<le> 2 ^ 32"

text \<open>What a read of block \<open>b\<close> delivers; a hole is zeros.\<close>

definition file_content :: "ext2mount \<Rightarrow> inode \<Rightarrow> nat \<Rightarrow> bytes" where
  "file_content u ip b = (case file_block u ip b of None \<Rightarrow> []
     | Some w \<Rightarrow> if w = 0 then replicate (unat (e2fs_bsize (um_e2fs u))) 0 else dev_blk (um_devvp u) (blk_addr u (unat w)))"

lemma file_block_data:
  assumes "file_ok u ip" "file_block u ip b = Some w" "w \<noteq> 0"
  shows "unat w \<in> file_data u ip" "unat w \<in> data_blocks u" "unat w \<in> file_set u ip"
proof -
  have p: "ptrs_ok ip" using assms(1) by (simp add: file_ok_def)
  obtain k x where kx: "file_place u b = Some (k, x)" "w = tree_get u (root_level k) (block_pointers ip ! k) x"
    using assms(2) unfolding file_block_get [OF p] by auto
  note r = file_place_range [OF kx(1)]
  have "unat w \<in> tree_data u (root_level k) (block_pointers ip ! k)" using kx(2) r(2) assms(3) by (auto simp: tree_data_def)
  then show "unat w \<in> file_data u ip" using r(1) by (auto simp: file_data_def)
  have "unat w \<in> root_blocks u ip k" using tree_get_in [of u "root_level k" "block_pointers ip ! k" x] kx(2) assms(3) r(2) by (simp add: root_blocks_def)
  then show "unat w \<in> data_blocks u" "unat w \<in> file_set u ip"
    using file_root_ok [OF assms(1) r(1)] r(1) by (auto simp: tree_ok_def root_blocks_def file_set_def)
qed

lemma file_content_length: "vol_ok u \<Longrightarrow> file_block u ip b \<noteq> None \<Longrightarrow> length (file_content u ip b) = unat (e2fs_bsize (um_e2fs u))"
  by (auto simp: file_content_def vol_ok_def)

lemma dev_addr_blk: "w \<noteq> 0 \<Longrightarrow> dev_addr u w = blk_addr u (unat w)"
  by (simp add: dev_addr_def blk_addr_def)

lemma dev_addr_nonneg: "w \<noteq> 0 \<Longrightarrow> 0 \<le> dev_addr u w"
  by (simp add: dev_addr_def push_bit_eq_mult)

lemma blockmap_place:
  assumes v: "vol_ok u" and s: "shift_ok (um_e2fs u)" and f: "file_ok u ip" and t: "under_2tb u"
    and x: "i_flag ip AND IN_E4EXTENTS = 0" and b: "file_block u ip b = Some w"
  shows "ext2_blktooff (um_e2fs u) (int b) True = Inr (int b * uint (e2fs_bsize (um_e2fs u)))"
    "\<exists>run. ext2_blockmap u ip (int b * uint (e2fs_bsize (um_e2fs u))) (blksize (um_e2fs u)) 0 True = Ret (Inr (dev_addr u w, run))"
proof -
  let ?fs = "um_e2fs u"
  let ?bs = "uint (e2fs_bsize ?fs)"
  have B: "?bs = 2 ^ unat (e2fs_bshift ?fs)" "e2fs_qbmask ?fs = mask (unat (e2fs_bshift ?fs))" "unat (e2fs_bshift ?fs) \<le> 16"
    using s by (simp_all add: shift_ok_def)
  have le: "?bs \<le> 2 ^ 16" unfolding B(1) using B(3) by (intro power_increasing) simp_all
  have pos: "0 < ?bs" unfolding B(1) by simp
  have p: "ptrs_ok ip" using f by (simp add: file_ok_def)
  have "file_block u ip b \<noteq> None" using b by simp
  then have "int b < 2 ^ 43" using file_block_small small_nindir [OF v s] by fastforce
  then have "int b * ?bs \<le> 2 ^ 43 * 2 ^ 16" using le by (intro mult_mono) simp_all
  then have "int b * ?bs < 2 ^ 63" by (rule order_le_less_trans) simp
  moreover have "- (2 ^ 63) \<le> int b * ?bs" by (rule order_trans [of _ 0]) simp_all
  ultimately have "s64 (int b * ?bs) = int b * ?bs" by (intro s64_id)
  then show "ext2_blktooff ?fs (int b) True = Inr (int b * ?bs)" by (simp add: ext2_blktooff_def)
  have l: "lblkno ?fs (int b * ?bs) = int b" "blkoff ?fs (int b * ?bs) = 0"
    unfolding blkoff_lblkno(1,2) [OF B(2)] B(1) by simp_all
  have nz: "e2fs_bsize ?fs \<noteq> 0" using pos by (auto simp: uint_0_iff [symmetric])
  have fits: "uint w * 2 ^ unat (um_bptrtodb u) < 2 ^ 32"
  proof (cases "w = 0")
    case False
    have "unat w < unat (e2fs_bcount (e2fs ?fs))" using file_block_data(2) [OF f b False] by (simp add: data_blocks_def)
    then have "unat w * 2 ^ unat (um_bptrtodb u) < unat (e2fs_bcount (e2fs ?fs)) * 2 ^ unat (um_bptrtodb u)" by simp
    then have "unat w * 2 ^ unat (um_bptrtodb u) < 2 ^ 32" using t unfolding under_2tb_def by linarith
    then have "int (unat w * 2 ^ unat (um_bptrtodb u)) < 2 ^ 32" by (simp only: of_nat_less_numeral_power_cancel_iff)
    then show ?thesis unfolding uint_nat by simp
  qed simp
  obtain run where a: "ext2_bmaparray u ip (int b) (Some 0) False = Ret (Inr (dev_addr u w, run, 0))"
    using bmaparray_tree [OF _ vol_readable [OF v] p nz, of b "Some 0"] fits v b by (auto simp: vol_ok_def)
  have m: "dev_addr u w < 0 \<longleftrightarrow> dev_addr u w = - 1"
  proof (cases "w = 0")
    case False
    have "0 \<le> dev_addr u w" by (rule dev_addr_nonneg [OF False])
    then show ?thesis by linarith
  qed (simp add: dev_addr_def)
  show "\<exists>run. ext2_blockmap u ip (int b * ?bs) (blksize ?fs) 0 True = Ret (Inr (dev_addr u w, run))"
    unfolding ext2_blockmap_def Let_def l using x a m by (cases "dev_addr u w < 0") (simp_all del: bnd_Ret_iff)
qed

lemma file_bread_content:
  assumes v: "vol_ok u" and s: "shift_ok (um_e2fs u)" and f: "file_ok u ip" and t: "under_2tb u"
    and x: "i_flag ip AND IN_E4EXTENTS = 0" and b: "file_block u ip b = Some w"
  shows "file_bread u ip (int b) = Ret (Inr (dev_addr u w, file_content u ip b))"
proof -
  obtain run where r: "ext2_blockmap u ip (int b * uint (e2fs_bsize (um_e2fs u))) (blksize (um_e2fs u)) 0 True = Ret (Inr (dev_addr u w, run))"
    using blockmap_place(2) [OF assms] by blast
  have "e2fs_fsize (um_e2fs u) = e2fs_bsize (um_e2fs u)" using s by (simp add: shift_ok_def)
  then have "blksize (um_e2fs u) = int (unat (e2fs_bsize (um_e2fs u)))" unfolding blksize_def by (simp only: uint_nat)
  then have bs: "nat (blksize (um_e2fs u)) = unat (e2fs_bsize (um_e2fs u))" by simp
  show ?thesis
    unfolding file_bread_def blockmap_place(1) [OF assms] sum.case r bnd.simps prod.case
    using dev_addr_nonneg [of w u] by (cases "w = 0") (simp_all add: file_content_def b bs vol_read [OF v] dev_addr_blk, simp_all add: dev_addr_def)
qed

text \<open>The write of a mapped block.\<close>

lemma file_bwrite_content:
  assumes v: "vol_ok u" and s: "shift_ok (um_e2fs u)" and f: "file_ok u ip" and t: "under_2tb u"
    and x: "i_flag ip AND IN_E4EXTENTS = 0" and b: "file_block u ip b = Some w" and w: "w \<noteq> 0"
  shows "file_bwrite delayed ip (int b) bs u = Ret (u\<lparr>um_devvp := buf_bdwrite (um_devvp u) (blk_addr u (unat w)) bs\<rparr>)"
proof -
  obtain run where r: "ext2_blockmap u ip (int b * uint (e2fs_bsize (um_e2fs u))) (blksize (um_e2fs u)) 0 True = Ret (Inr (dev_addr u w, run))"
    using blockmap_place(2) [OF assms(1-6)] by blast
  have "dev_addr u w \<noteq> - 1" using dev_addr_nonneg [OF w, of u] by linarith
  then show ?thesis
    unfolding file_bwrite_def blockmap_place(1) [OF assms(1-6)] sum.case r bnd.simps prod.case
    by (simp add: dev_addr_blk [OF w] buf_bwrite_def buf_bdwrite_def)
qed

text \<open>Trees depend on their indirect blocks only.\<close>

lemma inner_agree:
  assumes "agree u u' B" "tree_inner u l w \<subseteq> B"
  shows "tree_blocks u' l w = tree_blocks u l w \<and> tree_inner u' l w = tree_inner u l w \<and> (\<forall>m. tree_cut u' l w m = tree_cut u l w m) \<and>
     (\<forall>x < nindir_of u ^ l. tree_get u' l w x = tree_get u l w x)"
  using assms(2)
proof (induction l arbitrary: w)
  case 0
  then show ?case by (simp add: tree_get.simps)
next
  case (Suc l)
  note n = agree_nindir [OF assms(1)]
  show ?case
  proof (cases "w = 0")
    case False
    then have "unat w \<in> B" using Suc.prems by (simp add: tree_inner.simps)
    then have p: "ptr_of u' w k = ptr_of u w k" for k by (rule agree_ptr [OF assms(1)])
    have ih: "tree_blocks u' l (ptr_of u w k) = tree_blocks u l (ptr_of u w k)" "tree_inner u' l (ptr_of u w k) = tree_inner u l (ptr_of u w k)"
      "tree_cut u' l (ptr_of u w k) m = tree_cut u l (ptr_of u w k) m"
      "y < nindir_of u ^ l \<Longrightarrow> tree_get u' l (ptr_of u w k) y = tree_get u l (ptr_of u w k) y" if "k < nindir_of u" for k m y
      using Suc.IH [of "ptr_of u w k"] Suc.prems that False by (auto simp: tree_inner.simps)
    have "tree_get u' (Suc l) w x = tree_get u (Suc l) w x" if x: "x < nindir_of u ^ Suc l" for x
    proof -
      have pos: "0 < nindir_of u" using x by (auto intro: ccontr)
      obtain k y where k: "x = k * nindir_of u ^ l + y" "k < nindir_of u" "y < nindir_of u ^ l" by (rule position_split [OF x pos])
      then show ?thesis using tree_get_child [OF False k(2,3)] tree_get_child [of w k u' y l] False n p ih(4) by simp
    qed
    moreover have "tree_blocks u' (Suc l) w = tree_blocks u (Suc l) w"
      using ih(1) by (auto simp: tree_blocks.simps n p intro!: arg_cong [where f = concat])
    moreover have "tree_cut u' (Suc l) w m = tree_cut u (Suc l) w m" for m
      unfolding tree_cut.simps(2) n by (intro if_cong refl SUP_cong) (simp_all add: p ih(1,3))
    ultimately show ?thesis using False ih(2) by (simp add: tree_inner.simps n p)
  qed simp
qed

text \<open>A file whose indirect blocks have not been written, and whose blocks are still its own.\<close>

lemma file_same:
  assumes kp: "keeps u u' W" and bs: "block_set u' = block_set u" and W: "W \<inter> file_inner u ip = {}" and f: "file_ok u ip"
    and ip': "i_db ip' = i_db ip" "i_ib ip' = i_ib ip"
  shows "file_ok u' ip'" "\<And>k. k < 15 \<Longrightarrow> root_blocks u' ip' k = root_blocks u ip k" "\<And>k. k < 15 \<Longrightarrow> root_cut u' ip' L k = root_cut u ip L k"
    "\<And>k. k < 15 \<Longrightarrow> root_inner u' ip' k = root_inner u ip k" "\<And>b. file_block u' ip' b = file_block u ip b"
    "file_set u' ip' = file_set u ip" "file_inner u' ip' = file_inner u ip"
proof -
  have bp: "block_pointers ip' = block_pointers ip" by (simp add: block_pointers_def ip')
  have p: "ptrs_ok ip" "ptrs_ok ip'" using f ip' by (simp_all add: file_ok_def ptrs_ok_def)
  have a: "tree_blocks u' (root_level k) (block_pointers ip ! k) = tree_blocks u (root_level k) (block_pointers ip ! k) \<and>
      tree_inner u' (root_level k) (block_pointers ip ! k) = tree_inner u (root_level k) (block_pointers ip ! k) \<and>
      (\<forall>m. tree_cut u' (root_level k) (block_pointers ip ! k) m = tree_cut u (root_level k) (block_pointers ip ! k) m) \<and>
      (\<forall>x < nindir_of u ^ root_level k. tree_get u' (root_level k) (block_pointers ip ! k) x = tree_get u (root_level k) (block_pointers ip ! k) x)"
    if k: "k < 15" for k
  proof (rule inner_agree [OF keeps_agree [OF kp] subset_refl])
    show "tree_inner u (root_level k) (block_pointers ip ! k) \<inter> W = {}" using W root_inner_in [OF k, of u ip] by (auto simp: root_inner_def)
    show "tree_inner u (root_level k) (block_pointers ip ! k) \<inter> meta_blocks (um_e2fs u) = {}"
      using tree_inner_subset [of u "root_level k" "block_pointers ip ! k"] file_root_ok [OF f k] by (auto simp: tree_ok_def data_blocks_def)
  qed
  have d: "data_blocks u' = data_blocks u" using data_blocks_less [OF kp, of "{}"] bs by simp
  show rb: "root_blocks u' ip' k = root_blocks u ip k" if "k < 15" for k using a [OF that] by (simp add: root_blocks_def bp)
  have "root_keep u' L k = root_keep u L k" for k using keeps_params(1) [OF kp] by (simp add: root_keep_def root_base_def)
  then show "root_cut u' ip' L k = root_cut u ip L k" if "k < 15" for k using a [OF that] rb [OF that] by (simp add: root_cut_def bp)
  show ri: "root_inner u' ip' k = root_inner u ip k" if "k < 15" for k using a [OF that] by (simp add: root_inner_def bp)
  show "file_ok u' ip'"
    using f a p rb d unfolding file_ok_def tree_ok_def bp by simp
  show "file_block u' ip' b = file_block u ip b" for b
  proof (cases "file_place u b")
    case None
    then show ?thesis by (simp add: file_block_get [OF p(1)] file_block_get [OF p(2)] file_place_keeps [OF kp])
  next
    case (Some q)
    obtain k x where "q = (k, x)" by (cases q)
    then show ?thesis using Some a file_place_range [of u b k x]
      by (simp add: file_block_get [OF p(1)] file_block_get [OF p(2)] file_place_keeps [OF kp] bp)
  qed
  show "file_set u' ip' = file_set u ip" using rb by (simp add: file_set_def)
  show "file_inner u' ip' = file_inner u ip" using ri by (simp add: file_inner_def)
qed

lemma cut_to_start:
  assumes "keeps u u' {}" "block_set u' = block_set u" "file_ok u ip" "i_db ip' = i_db ip" "i_ib ip' = i_ib ip"
  shows "cut_to u ip L {} u' ip'"
proof -
  note s = file_same [OF assms(1,2) _ assms(3-5), simplified]
  have "block_pointers ip' = block_pointers ip" by (simp add: block_pointers_def assms(4,5))
  then show ?thesis using s assms(2) keeps_mono [OF assms(1)] by (simp add: cut_to_def)
qed

text \<open>No indirect block is a data block.\<close>

lemma tree_inner_data:
  assumes "tree_ok u l w"
  shows "tree_inner u l w \<inter> tree_data u l w = {}"
  using assms
proof (induction l arbitrary: w)
  case (Suc l)
  show ?case
  proof (cases "w = 0")
    case False
    have "unat w \<notin> tree_data u l (ptr_of u w k)" if "k < nindir_of u" for k
      using tree_ok_child(3) [OF Suc.prems False that] tree_data_subset [of u l] by blast
    moreover have "tree_inner u l (ptr_of u w j) \<inter> tree_data u l (ptr_of u w k) = {}" if "j < nindir_of u" "k < nindir_of u" for j k
    proof (cases "j = k")
      case True
      then show ?thesis using Suc.IH [OF tree_ok_child(1) [OF Suc.prems False that(1)]] by simp
    next
      case ne: False
      then show ?thesis
        using tree_ok_disjoint [OF Suc.prems False that ne] tree_inner_subset [of u l "ptr_of u w j"] tree_data_subset [of u l "ptr_of u w k"] by blast
    qed
    ultimately show ?thesis using False by (fastforce simp: tree_inner.simps tree_data_Suc)
  qed simp
qed simp

lemma file_inner_data:
  assumes "file_ok u ip"
  shows "file_inner u ip \<inter> file_data u ip = {}" "file_inner u ip \<subseteq> file_set u ip"
proof -
  have "root_inner u ip j \<inter> tree_data u (root_level k) (block_pointers ip ! k) = {}" if "j < 15" "k < 15" for j k
  proof (cases "j = k")
    case True
    then show ?thesis using tree_inner_data [OF file_root_ok [OF assms that(1)]] by (simp add: root_inner_def)
  next
    case False
    then show ?thesis using file_disjoint [OF assms that False] root_inner_subset [of u ip j]
        tree_data_subset [of u "root_level k" "block_pointers ip ! k"] by (auto simp: root_blocks_def)
  qed
  then show "file_inner u ip \<inter> file_data u ip = {}" by (fastforce simp: file_inner_def file_data_def)
  show "file_inner u ip \<subseteq> file_set u ip" using root_inner_subset by (fastforce simp: file_inner_def file_set_def)
qed

text \<open>A block that is mapped as before, and whose data was not written.\<close>

lemma file_content_same:
  assumes kp: "keeps u u' W" and f: "file_ok u ip" and b: "file_block u' ip' c = file_block u ip c"
    and W: "\<And>w. file_block u ip c = Some w \<Longrightarrow> w \<noteq> 0 \<Longrightarrow> unat w \<notin> W"
  shows "file_content u' ip' c = file_content u ip c"
proof (cases "file_block u ip c")
  case None
  then show ?thesis using b by (simp add: file_content_def)
next
  case (Some w)
  have "dev_blk (um_devvp u') (blk_addr u (unat w)) = dev_blk (um_devvp u) (blk_addr u (unat w))" if "w \<noteq> 0"
    using kp W [OF Some that] file_block_data(2) [OF f Some that] by (auto simp: keeps_def data_blocks_def)
  then show ?thesis
    using Some b keeps_params(2) [OF kp] static_fs_fields(1) [OF keeps_static [OF kp]] by (simp add: file_content_def)
qed

section \<open>The blocks that go\<close>

lemma cut_to_cong: "i_db ip'' = i_db ip' \<Longrightarrow> i_ib ip'' = i_ib ip' \<Longrightarrow> cut_to u ip L K u' ip'' = cut_to u ip L K u' ip'"
proof -
  assume e: "i_db ip'' = i_db ip'" "i_ib ip'' = i_ib ip'"
  have b: "block_pointers ip'' = block_pointers ip'" by (simp add: block_pointers_def e)
  have "file_ok u' ip'' = file_ok u' ip'" "root_blocks u' ip'' = root_blocks u' ip'" "root_cut u' ip'' = root_cut u' ip'" "root_inner u' ip'' = root_inner u' ip'"
    by (auto simp: file_ok_def ptrs_ok_def e root_blocks_def root_cut_def root_inner_def b intro!: ext)
  then show ?thesis by (simp add: cut_to_def b file_block_cong [OF e])
qed

lemma card_file_cut: "file_ok u ip \<Longrightarrow> card (file_cut u ip L) = (\<Sum>k<15. card (root_cut u ip L k))"
proof -
  assume f: "file_ok u ip"
  have "finite (root_cut u ip L k)" for k using finite_subset [OF root_cut_subset [of u ip L k]] by (simp add: root_blocks_def)
  moreover have "root_cut u ip L j \<inter> root_cut u ip L k = {}" if "j < 15" "k < 15" "j \<noteq> k" for j k
    using file_disjoint [OF f that] root_cut_subset [of u ip L j] root_cut_subset [of u ip L k] by blast
  ultimately show ?thesis unfolding file_cut_def by (intro card_UN_disjoint) auto
qed

lemma trunc_last_spec:
  assumes "ptrs_ok ip" "0 < L" "L \<le> 12" "shift_ok (um_e2fs u)"
  shows "\<exists>sz. trunc_last (int L - 1) len rel ip u = Ret (rel, ip\<lparr>i_size := sz\<rparr>, u)"
proof -
  have e: "int L - 1 = int (L - 1)" using assms(2) by simp
  have rd: "rd (i_db ip) (int L - 1) = Ret (i_db ip ! (L - 1))" unfolding e by (rule rd_in [of "int (L - 1)" "i_db ip", unfolded nat_int]) (use assms in \<open>auto simp: ptrs_ok_def\<close>)
  have "0 < uint (e2fs_bsize (um_e2fs u))" using assms(4) by (simp add: shift_ok_def)
  then have nz: "blksize (um_e2fs u) \<noteq> 0" using assms(4) by (simp add: shift_ok_def blksize_def)
  show ?thesis
  proof (cases "sint (i_db ip ! (L - 1)) = 0")
    case True
    then show ?thesis unfolding trunc_last_def rd bnd.simps Let_def by (intro exI [of _ "i_size ip"]) simp
  next
    case False
    have z: "\<not> 0 < blksize (um_e2fs u) - blksize (um_e2fs u)" by simp
    show ?thesis
      unfolding trunc_last_def rd bnd.simps Let_def if_not_P [OF False] if_not_P [OF nz] if_not_P [OF z] by blast
  qed
qed

lemma blocks_spec:
  assumes c: "cut_to u ip L {} u1 ip1" and f: "file_ok u ip" and h: "healthy u" and v: "vol_ok u"
    and s: "shift_ok (um_e2fs u)" and L: "L < 2 ^ 31" "L \<le> cap u 3"
  shows "\<exists>db ib sz u2. trunc_blocks env len (int L - 1) err ip1 u1 =
       Ret (err, nblocks_of (um_e2fs u) * int (card (file_cut u ip L)), ip1\<lparr>i_db := db, i_ib := ib, i_size := sz\<rparr>, u2) \<and>
     cut_to u ip L {..<15} u2 (ip1\<lparr>i_db := db, i_ib := ib, i_size := sz\<rparr>)"
proof -
  let ?c = "\<lambda>k. card (root_cut u ip L k)"
  have "cut_to u ip L {12 + 3..<15} u1 ip1" using c by simp
  from levels_spec [OF this f h v small_nindir [OF v s] L order_refl, of env err 0]
  obtain ib u2 where lv: "trunc_levels env (int L - 1) 3 err 0 ip1 u1 =
      Ret (12 < L, err, nblocks_of (um_e2fs u) * int (\<Sum>k\<in>{12..<15}. ?c k), ip1\<lparr>i_ib := ib\<rparr>, u2)"
    "cut_to u ip L {12..<15} u2 (ip1\<lparr>i_ib := ib\<rparr>)" by auto
  have sum: "card (file_cut u ip L) = (\<Sum>k\<in>{12..<15}. ?c k) + (\<Sum>k<12. ?c k)"
  proof -
    have u: "{..<15} = {12..<15} \<union> {..<12 :: nat}" by auto
    have d: "{12..<15} \<inter> {..<12 :: nat} = {}" by auto
    show ?thesis unfolding card_file_cut [OF f] u by (rule sum.union_disjoint [OF finite_atLeastLessThan finite_lessThan d])
  qed
  show ?thesis
  proof (cases "12 < L")
    case True
    have full: "nindir_of u ^ root_level k \<le> root_keep u L k" if "k \<in> {..<12}" for k
      using that True by (simp add: root_keep_def root_base_def root_level_def Let_def)
    have "cut_to u ip L ({12..<15} \<union> {..<12}) u2 (ip1\<lparr>i_ib := ib\<rparr>)" by (rule cut_to_kept [OF lv(2) v full])
    moreover have "{12..<15} \<union> {..<12} = {..<15 :: nat}" by auto
    moreover have "(\<Sum>k<12. ?c k) = 0" using root_cut_kept [OF full nindir_pos [OF v]] by simp
    moreover have "trunc_blocks env len (int L - 1) err ip1 u1 = Ret (err, nblocks_of (um_e2fs u) * int (\<Sum>k\<in>{12..<15}. ?c k), ip1\<lparr>i_ib := ib\<rparr>, u2)"
      unfolding trunc_blocks_def lv(1) using True by simp
    ultimately show ?thesis
      using sum by (intro exI [of _ "i_db ip1"] exI [of _ ib] exI [of _ "i_size ip1"] exI [of _ u2]) simp
  next
    case False
    have s2: "shift_ok (um_e2fs u)" by (rule s)
    from directs_spec [OF lv(2) f v s order_refl, of "nblocks_of (um_e2fs u) * int (\<Sum>k\<in>{12..<15}. ?c k)"]
    obtain db u3 where d: "trunc_direct (int L - 1) 12 (nblocks_of (um_e2fs u) * int (\<Sum>k\<in>{12..<15}. ?c k)) (ip1\<lparr>i_ib := ib\<rparr>) u2 =
        Ret (nblocks_of (um_e2fs u) * int (\<Sum>k\<in>{12..<15}. ?c k) + nblocks_of (um_e2fs u) * int (\<Sum>k<12. ?c k), ip1\<lparr>i_ib := ib, i_db := db\<rparr>, u3)"
      "cut_to u ip L {..<15} u3 (ip1\<lparr>i_ib := ib, i_db := db\<rparr>)" by blast
    have cnt: "nblocks_of (um_e2fs u) * int (\<Sum>k\<in>{12..<15}. ?c k) + nblocks_of (um_e2fs u) * int (\<Sum>k<12. ?c k) =
        nblocks_of (um_e2fs u) * int (card (file_cut u ip L))"
      unfolding sum by (simp only: of_nat_add distrib_left)
    let ?ip = "ip1\<lparr>i_ib := ib, i_db := db\<rparr>"
    have k3: "keeps u u3 (file_inner u ip)" "file_ok u3 ?ip" using d(2) by (simp_all add: cut_to_def)
    have p3: "ptrs_ok ?ip" using k3(2) by (simp add: file_ok_def)
    have s3: "shift_ok (um_e2fs u3)" using s static_fs_fields(1,2,3,5) [OF keeps_static [OF k3(1)]] by (simp add: shift_ok_def)
    have run: "trunc_blocks env len (int L - 1) err ip1 u1 =
        (if int L - 1 < 0 then Ret (err, nblocks_of (um_e2fs u) * int (card (file_cut u ip L)), ?ip, u3)
         else bnd (trunc_last (int L - 1) len (nblocks_of (um_e2fs u) * int (card (file_cut u ip L))) ?ip u3)
           (\<lambda>(rel, ip, ump). Ret (err, rel, ip, ump)))"
      unfolding trunc_blocks_def lv(1) bnd.simps prod.case d(1) cnt using False by simp
    have "\<exists>sz. trunc_blocks env len (int L - 1) err ip1 u1 =
        Ret (err, nblocks_of (um_e2fs u) * int (card (file_cut u ip L)), ?ip\<lparr>i_size := sz\<rparr>, u3)"
    proof (cases "L = 0")
      case True
      then have "int L - 1 < 0" by simp
      then show ?thesis unfolding run by (intro exI [of _ "i_size ip1"]) simp
    next
      case nz: False
      then have g: "0 < L" "L \<le> 12" "\<not> int L - 1 < 0" using False by auto
      obtain sz where "trunc_last (int L - 1) len (nblocks_of (um_e2fs u) * int (card (file_cut u ip L))) ?ip u3 =
          Ret (nblocks_of (um_e2fs u) * int (card (file_cut u ip L)), ?ip\<lparr>i_size := sz\<rparr>, u3)"
        using trunc_last_spec [OF p3 g(1,2) s3] by blast
      then show ?thesis unfolding run if_not_P [OF g(3)] by (intro exI [of _ sz]) simp
    qed
    then obtain sz where sz: "trunc_blocks env len (int L - 1) err ip1 u1 =
        Ret (err, nblocks_of (um_e2fs u) * int (card (file_cut u ip L)), ?ip\<lparr>i_size := sz\<rparr>, u3)" by blast
    have ct: "cut_to u ip L {..<15} u3 (?ip\<lparr>i_size := sz\<rparr>)" using d(2) cut_to_cong [of "?ip\<lparr>i_size := sz\<rparr>" ?ip] by simp
    have "?ip\<lparr>i_size := sz\<rparr> = ip1\<lparr>i_db := db, i_ib := ib, i_size := sz\<rparr>" by simp
    with sz ct show ?thesis by metis
  qed
qed

text \<open>What of an inode a truncation keeps.\<close>

definition steady :: "inode \<Rightarrow> inode" where
  "steady ip = (untimed ip)\<lparr>i_db := [], i_ib := [], i_size := 0, i_blocks := 0, i_next_alloc_block := 0, i_next_alloc_goal := 0\<rparr>"

lemma untimed_flag: "x AND NOT TIME_FLAGS = 0 \<Longrightarrow> untimed (ip\<lparr>i_flag := i_flag ip OR x\<rparr>) = untimed ip"
  using time_flags_mask(1) [of x "i_flag ip"] by (simp add: untimed_def)

lemma steady_flag [simp]: "steady (mark_changed ip) = steady ip" "steady (ip\<lparr>i_flag := i_flag ip OR IN_CHANGE\<rparr>) = steady ip"
  using untimed_flag [OF time_flags(5), of ip] untimed_flag [OF time_flags(6), of ip] by (simp_all add: steady_def mark_changed_def)

lemma steady_upd [simp]: "steady (ip\<lparr>i_db := db\<rparr>) = steady ip" "steady (ip\<lparr>i_ib := ib\<rparr>) = steady ip" "steady (ip\<lparr>i_size := sz\<rparr>) = steady ip"
  "steady (ip\<lparr>i_blocks := n\<rparr>) = steady ip"
  by (simp_all add: steady_def untimed_def)

lemma steady_untimed: "untimed ip' = untimed ip \<Longrightarrow> steady ip' = steady ip"
  by (simp add: steady_def)

lemma drop_bit_word: "(word_of_int (drop_bit 9 (uint (w :: u32))) :: u64) = ucast (drop_bit 9 w)"
  by (rule bit_word_eqI) (simp add: bit_simps bit_uint_iff)

lemma charge_words: "word_of_int (nblocks_of fs * int c) = of_nat c * block_charge fs"
proof -
  have "word_of_int (nblocks_of fs) = block_charge fs"
    unfolding nblocks_of_def btodb_def block_charge_def by (rule drop_bit_word)
  then show ?thesis by (simp add: mult.commute)
qed

lemma sub_blocks_charge:
  "sub_blocks (nblocks_of fs * int c) ip =
     ip\<lparr>i_blocks := (if of_nat c * block_charge fs \<le> i_blocks ip then i_blocks ip - of_nat c * block_charge fs else 0)\<rparr>"
  unfolding sub_blocks_def charge_words ..

lemma shrink_spec:
  assumes v: "vol_ok u" and h: "healthy u" and s: "shift_ok (um_e2fs u)" and f: "file_ok u ip" and sl: "slot_at u (i_number ip) b k"
    and lb: "last_block (um_e2fs u) len = int L - 1" and L: "L < 2 ^ 31" "L \<le> cap u 3"
  shows "\<exists>ip' u'. trunc_shrink env len osize ip u = Ret (ie_inval env, ip', u') \<and> cut_to u ip L {..<15} u' ip' \<and>
     i_size ip' = word_of_int len \<and> steady ip' = steady ip \<and>
     i_blocks ip' = (let r = of_nat (card (file_cut u ip L)) * block_charge (um_e2fs u) in if r \<le> i_blocks ip then i_blocks ip - r else 0)"
proof -
  let ?fs = "um_e2fs u"
  define ipk where "ipk = mark_changed (ip\<lparr>i_db := kept_db (int L - 1) (i_db ip), i_ib := kept_ib ?fs (int L - 1) (i_ib ip)\<rparr>)"
  have pk: "ptrs_ok ipk" using f by (simp add: ipk_def mark_changed_def file_ok_def ptrs_ok_def kept_db_def kept_ib_def)
  have "i_number ipk = i_number ip" by (simp add: ipk_def mark_changed_def)
  then have slk: "slot_at u (i_number ipk) b k" using sl by simp
  obtain ip1 u1 where up: "ext2_update env (\<not> doing_async env) ipk u = Ret (0, ip1, u1)" "untimed ip1 = untimed ipk" "keeps u u1 {}" "block_set u1 = block_set u"
    using update_spec [OF v pk slk, of env "\<not> doing_async env"] h by auto
  define ip2 where "ip2 = ip1\<lparr>i_db := i_db ip, i_ib := i_ib ip, i_size := word_of_int osize\<rparr>"
  have ct: "cut_to u ip L {} u1 ip2" by (rule cut_to_start [OF up(3,4) f]) (simp_all add: ip2_def)
  obtain db ib sz u2 where r: "trunc_blocks env len (int L - 1) (ie_inval env) ip2 u1 =
       Ret (ie_inval env, nblocks_of ?fs * int (card (file_cut u ip L)), ip2\<lparr>i_db := db, i_ib := ib, i_size := sz\<rparr>, u2)"
    "cut_to u ip L {..<15} u2 (ip2\<lparr>i_db := db, i_ib := ib, i_size := sz\<rparr>)"
    using blocks_spec [OF ct f h v s L, of env len "ie_inval env"] by blast
  define ip3 where "ip3 = sub_blocks (nblocks_of ?fs * int (card (file_cut u ip L))) (ip2\<lparr>i_db := db, i_ib := ib, i_size := word_of_int len\<rparr>)"
  have inval: "(if ie_inval env \<noteq> 0 \<and> (0::errno) = 0 then ie_inval env else 0) = ie_inval env" by simp
  have run: "trunc_shrink env len osize ip u = Ret (ie_inval env, ip3\<lparr>i_flag := i_flag ip3 OR IN_CHANGE\<rparr>, u2)"
    unfolding trunc_shrink_def Let_def lb ipk_def [symmetric] up(1) bnd.simps prod.case ip2_def [symmetric] inval r(1) ip3_def by simp
  have "steady ip1 = steady ip" using steady_untimed [OF up(2)] by (simp add: ipk_def)
  then have "steady ip2 = steady ip" unfolding ip2_def by (simp only: steady_upd)
  then have "steady ip3 = steady ip" unfolding ip3_def sub_blocks_def by (simp only: steady_upd)
  then have st: "steady (ip3\<lparr>i_flag := i_flag ip3 OR IN_CHANGE\<rparr>) = steady ip" by (simp only: steady_flag)
  have "i_blocks ip1 = i_blocks ip" using untimed_fields(4) [OF up(2)] by (simp add: ipk_def mark_changed_def)
  then have bl: "i_blocks ip3 = (let r = of_nat (card (file_cut u ip L)) * block_charge ?fs in if r \<le> i_blocks ip then i_blocks ip - r else 0)"
    unfolding ip3_def sub_blocks_charge by (simp add: ip2_def Let_def)
  have "cut_to u ip L {..<15} u2 (ip3\<lparr>i_flag := i_flag ip3 OR IN_CHANGE\<rparr>)"
    using r(2) cut_to_cong [of "ip3\<lparr>i_flag := i_flag ip3 OR IN_CHANGE\<rparr>" "ip2\<lparr>i_db := db, i_ib := ib, i_size := sz\<rparr>"]
    by (simp add: ip3_def sub_blocks_def)
  moreover have "i_size ip3 = word_of_int len" by (simp add: ip3_def sub_blocks_def)
  ultimately show ?thesis using run st bl by (intro exI [of _ "ip3\<lparr>i_flag := i_flag ip3 OR IN_CHANGE\<rparr>"] exI [of _ u2]) simp
qed

end
