(* ===== verification/Ext2_VnopProps.thy ===== *)
theory Ext2_VnopProps
  imports Ext2_Vnops Ext2_DirClaims Ext2_InodeProps
begin

text \<open>
  What \<^verbatim>\<open>ext2_rename\<close> of a file over a file does to directories, within one and between two.
\<close>

section \<open>Where the entry of a name is\<close>

lemma entry_in_map:
  assumes k: "k < length ess" "ess ! k = es1 @ e # es2" "ent_matches name e" and d: "dir_distinct ess"
  shows "dir_map ess name = Some (dn_ino e)" "dn_ino e \<noteq> 0"
proof -
  have l: "live e" "dent_name e = name" using k(3) by (simp_all add: ent_matches_def live_def)
  let ?p = "dir_live (take k ess) @ lives es1" let ?q = "lives es2 @ dir_live (drop (Suc k) ess)"
  have s: "dir_live ess = ?p @ (name, dn_ino e) # ?q" using dir_live_update(2) [OF k(1)] k(2) l by simp
  then have "name \<notin> fst ` set ?p" using d by (auto simp: dir_distinct_def)
  then have "map_of ?p name = None" by (simp only: map_of_eq_None_iff not_False_eq_True)
  moreover have "map_of (?p @ R) name = (case map_of ?p name of None \<Rightarrow> map_of R name | Some x \<Rightarrow> Some x)" for R
    by (simp only: map_of_append [of ?p R] map_add_def)
  ultimately show "dir_map ess name = Some (dn_ino e)" unfolding dir_map_def s by (simp del: map_of_append)
  show "dn_ino e \<noteq> 0" using l(1) by (simp add: live_def)
qed

lemma entry_once:
  assumes k: "k < length ess" "ess ! k = es1 @ e # es2" "ent_matches name e" and j: "j < length ess" "ess ! j = fs1 @ f # fs2" "ent_matches name f"
    and d: "dir_distinct ess"
  shows "j = k \<and> fs1 = es1 \<and> f = e \<and> fs2 = es2"
proof -
  have at: "name \<in> fst ` set (lives (ess ! i))" if "i < length ess" "ess ! i = gs1 @ g # gs2" "ent_matches name g" for i gs1 g gs2
    using that by (auto simp: lives_def ent_matches_def live_def)
  have once: "name \<notin> fst ` set (dir_live (take i ess))" "name \<notin> fst ` set (dir_live (drop (Suc i) ess))"
      "name \<notin> fst ` set (lives gs1)" "name \<notin> fst ` set (lives gs2)"
    if i: "i < length ess" "ess ! i = gs1 @ g # gs2" "ent_matches name g" for i gs1 g gs2
  proof -
    have l: "live g" "dent_name g = name" using i(3) by (simp_all add: ent_matches_def live_def)
    have s: "dir_live ess = dir_live (take i ess) @ (lives gs1 @ (name, dn_ino g) # lives gs2) @ dir_live (drop (Suc i) ess)"
      using dir_live_update(2) [OF i(1)] i(2) l by simp
    show "name \<notin> fst ` set (dir_live (take i ess))" "name \<notin> fst ` set (dir_live (drop (Suc i) ess))"
      "name \<notin> fst ` set (lives gs1)" "name \<notin> fst ` set (lives gs2)" using d unfolding dir_distinct_def s by auto
  qed
  have part: "set (lives (ess ! i)) \<subseteq> set (dir_live (take n ess))" if "i < n" "n \<le> length ess" for i n
  proof -
    have "ess ! i \<in> set (take n ess)" using that by (metis in_set_conv_nth length_take min.absorb2 nth_take)
    then show ?thesis by (auto simp: dir_live_def lives_def)
  qed
  have "j = k"
  proof (rule ccontr)
    assume "j \<noteq> k"
    then consider "j < k" | "k < j" by linarith
    then show False
    proof cases
      case 1
      then show False using at [OF j] part [OF 1] k(1) once(1) [OF k] by auto
    next
      case 2
      then show False using at [OF k] part [OF 2] j(1) once(1) [OF j] by auto
    qed
  qed
  then have eq: "fs1 @ f # fs2 = es1 @ e # es2" using k(2) j(2) by simp
  have "length fs1 = length es1"
  proof (rule ccontr)
    have nf: "name \<in> fst ` set (lives xs)" if "g \<in> set xs" "ent_matches name g" for g xs
      using that by (auto simp: lives_def ent_matches_def live_def image_image)
    assume "length fs1 \<noteq> length es1"
    then consider "length fs1 < length es1" | "length es1 < length fs1" by linarith
    then show False
    proof cases
      case 1
      have "f = (es1 @ e # es2) ! length fs1" by (metis eq nth_append_length)
      then have "f \<in> set es1" using 1 by (simp add: nth_append)
      then show False using nf [OF _ j(3)] once(3) [OF k] by blast
    next
      case 2
      have "e = (fs1 @ f # fs2) ! length es1" by (metis eq nth_append_length)
      then have "e \<in> set fs1" using 2 by (simp add: nth_append)
      then show False using nf [OF _ k(3)] once(3) [OF j] by blast
    qed
  qed
  then show ?thesis using \<open>j = k\<close> eq by auto
qed

section \<open>What the update of an inode leaves alone\<close>

text \<open>The volume changes in one block at most, the inode in its times and flags.\<close>

definition updated :: "inode \<Rightarrow> inode \<Rightarrow> bool" where
  "updated ip ip' \<longleftrightarrow> i_number ip' = i_number ip \<and> i_mode ip' = i_mode ip \<and> i_nlink ip' = i_nlink ip \<and> i_uid ip' = i_uid ip \<and>
     i_gid ip' = i_gid ip \<and> i_flags ip' = i_flags ip \<and> i_size ip' = i_size ip \<and> i_db ip' = i_db ip \<and> i_ib ip' = i_ib ip"

lemma updated_refl: "updated ip ip" "updated ip (ip\<lparr>i_flag := f\<rparr>)"
  by (simp_all add: updated_def)

lemma itimes_updated: "updated ip (ext2_itimes env ip)"
  by (simp add: updated_def ext2_itimes_def ext2_itimes_locked_def Let_def split: prod.split)

definition one_write :: "ext2mount \<Rightarrow> ext2mount \<Rightarrow> int \<Rightarrow> bool" where
  "one_write u u' x \<longleftrightarrow> (\<exists>d. u' = u\<lparr>um_devvp := d\<rparr> \<and> dev_rerr d = dev_rerr (um_devvp u) \<and> dev_werr d = dev_werr (um_devvp u) \<and>
     (\<forall>y. y \<noteq> x \<longrightarrow> dev_blk d y = dev_blk (um_devvp u) y))"

lemma one_write_refl: "one_write u u x"
  unfolding one_write_def by (intro exI [of _ "um_devvp u"]) simp

lemma update_one_write:
  assumes u: "ext2_update env w ip u = Ret (e, ip', u')" and b: "ino_to_fsba (um_e2fs u) (i_number ip) = Ret b"
  shows "one_write u u' (fsbtodb (um_e2fs u) (uint b)) \<and> updated ip ip'"
proof -
  let ?i = "ext2_itimes env ip" and ?a = "fsbtodb (um_e2fs u) (uint b)"
  let ?j = "?i\<lparr>i_flag := i_flag ?i AND NOT (IN_LAZYACCESS OR IN_LAZYMOD OR IN_MODIFIED)\<rparr>"
  have i: "updated ip ?i" by (rule itimes_updated)
  then have n: "i_number ?i = i_number ip" and j: "updated ip ?j" by (simp_all add: updated_def)
  consider (same) "ip' = ?i" "u' = u" | (fail) "ip' = ?j" "u' = u"
    | (wr) bs where "ip' = ?j" "u' = u\<lparr>um_devvp := snd (buf_bwrite (um_devvp u) ?a bs)\<rparr> \<or> u' = u\<lparr>um_devvp := buf_bdwrite (um_devvp u) ?a bs\<rparr>"
    using u unfolding ext2_update_def Let_def by (auto simp: n b buf_bwrite_def split: if_splits sum.splits)
  then show ?thesis
  proof cases
    case wr
    have "one_write u u' ?a" using wr(2)
      by (auto simp: one_write_def buf_bwrite_def buf_bdwrite_def intro!: exI [of _ "um_devvp u'"])
    then show ?thesis using wr(1) j by simp
  qed (use i j one_write_refl in simp_all)
qed

lemma content_one_write:
  assumes c: "dir_content direct_dir dirchk u dp a ess" and w: "one_write u u' x" and x: "\<forall>k < length ess. a k \<noteq> x"
  shows "dir_content direct_dir dirchk u' dp a ess" "bsz u' = bsz u" "um_e2fs u' = um_e2fs u" "dev_werr (um_devvp u') = dev_werr (um_devvp u)"
proof -
  obtain d where d: "u' = u\<lparr>um_devvp := d\<rparr>" "dev_rerr d = dev_rerr (um_devvp u)" "dev_werr d = dev_werr (um_devvp u)"
      "\<And>y. y \<noteq> x \<Longrightarrow> dev_blk d y = dev_blk (um_devvp u) y" using w unfolding one_write_def by blast
  have g: "dir_geom u' = dir_geom u" by (simp add: d(1) dir_geom_def bsz_def)
  have "direct_dir u' dp a n = direct_dir u dp a n" for n unfolding direct_dir_def g by (simp add: d)
  then show "dir_content direct_dir dirchk u' dp a ess" using c x d(4) by (simp add: dir_content_def d(1) bsz_def)
  show "bsz u' = bsz u" "um_e2fs u' = um_e2fs u" "dev_werr (um_devvp u') = dev_werr (um_devvp u)" by (simp_all add: d(1,3) bsz_def)
qed

section \<open>\<^verbatim>\<open>ext2_rename\<close> of a file over a file\<close>

text \<open>The steps when every one succeeds; the two directories may be one.\<close>

lemma rename_over_steps:
  fixes env a s
  defines "f \<equiv> ra_fvp a" and "fd \<equiv> ra_fdvp a" and "td \<equiv> ra_tdvp a" and "core \<equiv> rs_core s"
  assumes t: "ra_tvp a = Some t" and chk: "rename_check a s = None"
    and d: "f \<noteq> fd" "f \<noteq> td" "t \<noteq> f" "t \<noteq> fd" "t \<noteq> td" and nd: "i_mode (core f) AND IFMT \<noteq> IFDIR"
    and up: "ext2_update (re_inode env f) (\<not> doing_async (re_inode env f)) (inc_nlink (core f)) (rs_ump s) = Ret (0, ip1, u1)"
    and oc: "over_check env False ip1 (core td) (core t) u1 = Ret 0"
    and rw: "ext2_dirrewrite u1 (core td) ip1 = Ret (0, u2, tdp)"
    and rm: "ext2_dirremove (doing_async (re_inode env fd)) u2 (if fd = td then tdp else core fd) = Ret (0, u3, fdp)"
  shows "\<exists>s'. ext2_rename env a s = Ret (0, s') \<and> rs_ump s' = u3 \<and> rs_core s' fd = fdp \<and> (fd \<noteq> td \<longrightarrow> rs_core s' td = tdp) \<and>
     i_nlink (rs_core s' f) = i_nlink ip1 - 1 \<and> i_nlink (rs_core s' t) = i_nlink (core t) - 1"
proof -
  note d = d [unfolded f_def fd_def td_def] note nd = nd [unfolded f_def core_def]
  define s1 where "s1 = put_vnodes [fd] s\<lparr>rs_core := core(f := ip1), rs_ump := u1\<rparr>"
  have up1: "update_on env (ra_fvp a) (\<not> doing_async (re_inode env (ra_fvp a))) (on_inode (ra_fvp a) inc_nlink (put_vnodes [ra_fdvp a] s)) = Ret (0, s1)"
    using up by (simp add: update_on_def run_on_def on_inode_def put_vnodes_def s1_def core_def f_def fd_def)
  have c1: "rs_core s1 (ra_fvp a) = ip1" "rs_core s1 (ra_tdvp a) = core (ra_tdvp a)" "rs_core s1 t = core t" "rs_ump s1 = u1"
    using d by (simp_all add: s1_def f_def put_vnodes_def)
  define s2 where "s2 = put_vnodes [t] (on_inode t (set_flag IN_CHANGE)
    (on_inode t (\<lambda>xp. xp\<lparr>i_nlink := i_nlink xp - 1\<rparr>) (put_vnodes [td] (s1\<lparr>rs_core := (rs_core s1)(td := tdp), rs_ump := u2\<rparr>))))"
  have ov: "rename_over env a t False False s1 = Ret (0, s2)"
    unfolding rename_over_def Let_def c1 using oc rw
    by (simp add: td_def run_on_def c1 core_def s2_def fun_upd_def)
  have c2: "rs_core s2 (ra_fdvp a) = (if fd = td then tdp else core fd)" "rs_core s2 (ra_fvp a) = ip1" "rs_ump s2 = u2"
    "rs_core s2 t = set_flag IN_CHANGE ((core t)\<lparr>i_nlink := i_nlink (core t) - 1\<rparr>)" "rs_core s2 td = tdp"
    using d by (auto simp: s2_def s1_def put_vnodes_def on_inode_def f_def fd_def td_def)
  define s3 where "s3 = s2\<lparr>rs_core := (rs_core s2)(fd := fdp), rs_ump := u3\<rparr>"
  have dr: "run_on (ra_fdvp a) (dir_remove (re_inode env (ra_fdvp a))) s2 = Ret (0, s3)"
    unfolding run_on_def dir_remove_def c2(1,3) using rm unfolding fd_def by (simp add: s3_def fd_def del: bnd_Ret_iff)
  have step3: "rename_unlink env a False np s2 = Ret (0, put_vnodes [fd, f, f]
      (on_inode (ra_fvp a) (\<lambda>ip. ip\<lparr>i_flag := i_flag ip AND NOT IN_RENAME\<rparr>) (on_inode (ra_fvp a) dec_nlink s3)))" for np
    unfolding rename_unlink_def Let_def by (simp add: dr fd_def f_def)
  have "ext2_rename env a s = rename_unlink env a False
     (if (0 :: int) \<noteq> s32 (uint (i_number (rs_core s1 (ra_tdvp a)))) then i_number (rs_core s1 (ra_tdvp a)) else 0) s2"
    unfolding ext2_rename_def Let_def chk option.case using nd t up1 ov by simp
  then have "ext2_rename env a s = Ret (0, put_vnodes [fd, f, f]
      (on_inode (ra_fvp a) (\<lambda>ip. ip\<lparr>i_flag := i_flag ip AND NOT IN_RENAME\<rparr>) (on_inode (ra_fvp a) dec_nlink s3)))" unfolding step3 .
  then show ?thesis using d c2 by (auto simp: s3_def put_vnodes_def on_inode_def f_def fd_def td_def change_nlink_def set_flag_def)
qed

lemma rename_over_args:
  assumes r: "r = \<lparr>ra_fdvp = fd, ra_fvp = f, ra_tdvp = td, ra_tvp = Some t, ra_fname = n1, ra_tname = n2, ra_dotdot = dd, ra_xdev = xd\<rparr>"
    and "rename_check r s = None" "f \<noteq> fd" "f \<noteq> td" "t \<noteq> f" "t \<noteq> fd" "t \<noteq> td" "i_mode (rs_core s f) AND IFMT \<noteq> IFDIR"
    and "ext2_update (re_inode env f) (\<not> doing_async (re_inode env f)) (inc_nlink (rs_core s f)) (rs_ump s) = Ret (0, ip1, u1)"
    and "over_check env False ip1 (rs_core s td) (rs_core s t) u1 = Ret 0"
    and "ext2_dirrewrite u1 (rs_core s td) ip1 = Ret (0, u2, tdp)"
    and "ext2_dirremove (doing_async (re_inode env fd)) u2 (if fd = td then tdp else rs_core s fd) = Ret (0, u3, fdp)"
  shows "\<exists>s'. ext2_rename env r s = Ret (0, s') \<and> rs_ump s' = u3 \<and> rs_core s' fd = fdp \<and> (fd \<noteq> td \<longrightarrow> rs_core s' td = tdp) \<and>
     i_nlink (rs_core s' f) = i_nlink ip1 - 1 \<and> i_nlink (rs_core s' t) = i_nlink (rs_core s t) - 1"
proof -
  have a: "ra_fdvp r = fd" "ra_fvp r = f" "ra_tdvp r = td" "ra_tvp r = Some t" by (simp_all add: r)
  show ?thesis by (rule rename_over_steps [of r t s env, unfolded a, OF refl assms(2-)])
qed

lemma over_check_plain:
  "i_number xp \<noteq> i_number ip \<Longrightarrow> i_mode dp AND ISVTX = 0 \<Longrightarrow> i_mode xp AND IFMT \<noteq> IFDIR \<Longrightarrow> over_check env False ip dp xp u = Ret 0"
  by (simp add: over_check_def)

lemma content_sane:
  assumes c: "dir_content direct_dir dirchk u dp a ess" and k: "k < length ess" "ess ! k = es1 @ e # es2"
  shows "dir_sane dirchk u (dn_ino e)"
proof -
  have "e \<in> set (ess ! k)" "ess ! k \<in> set ess" using k(2) nth_mem [OF k(1)] by simp_all
  then have "e \<in> set (concat ess)" by auto
  then show ?thesis using c by (auto simp: dir_content_def dir_sane_def)
qed

lemma put_err_dents: "put_err async (put_dents u x es) y = put_err async u y"
  by (simp add: put_err_def put_dents_def buf_bwrite_def)

abbreviation want :: "nameiop \<Rightarrow> bytes \<Rightarrow> componentname" where
  "want op n \<equiv> \<lparr>cn_nameiop = op, cn_islast = True, cn_name = n\<rparr>"

text \<open>
  A file goes over a file; the checks pass, the blocks \<open>A\<close> can be written, and the inode of the source is updated, in a block that is
  not one of \<open>A\<close>.
\<close>

definition plain_rename :: "rename_env \<Rightarrow> rename_args \<Rightarrow> vnode \<Rightarrow> rstate \<Rightarrow> int set \<Rightarrow> bool" where
  "plain_rename env r t s A \<longleftrightarrow> rename_check r s = None \<and> i_mode (rs_core s (ra_fvp r)) AND IFMT \<noteq> IFDIR \<and>
     i_mode (rs_core s t) AND IFMT \<noteq> IFDIR \<and>
     (\<forall>x \<in> A. dev_werr (um_devvp (rs_ump s)) x = 0) \<and>
     (let f = ra_fvp r in
      case (ext2_update (re_inode env f) (\<not> doing_async (re_inode env f)) (inc_nlink (rs_core s f)) (rs_ump s),
            ino_to_fsba (um_e2fs (rs_ump s)) (i_number (rs_core s f))) of
        (Ret (e, x), Ret b) \<Rightarrow> e = 0 \<and> fsbtodb (um_e2fs (rs_ump s)) (uint b) \<notin> A
      | _ \<Rightarrow> False)"

lemma plain_update:
  assumes "plain_rename env r t s A"
  obtains ip1 u1 x where "ext2_update (re_inode env (ra_fvp r)) (\<not> doing_async (re_inode env (ra_fvp r))) (inc_nlink (rs_core s (ra_fvp r))) (rs_ump s) = Ret (0, ip1, u1)"
    "one_write (rs_ump s) u1 x" "x \<notin> A" "i_number ip1 = i_number (rs_core s (ra_fvp r))" "i_nlink ip1 = i_nlink (rs_core s (ra_fvp r)) + 1"
proof -
  let ?ip = "inc_nlink (rs_core s (ra_fvp r))"
  have n: "i_number ?ip = i_number (rs_core s (ra_fvp r))" "i_nlink ?ip = i_nlink (rs_core s (ra_fvp r)) + 1" by (simp_all add: change_nlink_def set_flag_def)
  obtain ip1 u1 b where u: "ext2_update (re_inode env (ra_fvp r)) (\<not> doing_async (re_inode env (ra_fvp r))) ?ip (rs_ump s) = Ret (0, ip1, u1)"
    "ino_to_fsba (um_e2fs (rs_ump s)) (i_number (rs_core s (ra_fvp r))) = Ret b" "fsbtodb (um_e2fs (rs_ump s)) (uint b) \<notin> A"
    using assms unfolding plain_rename_def Let_def by (auto split: outcome.splits prod.splits)
  have "one_write (rs_ump s) u1 (fsbtodb (um_e2fs (rs_ump s)) (uint b)) \<and> updated ?ip ip1"
    by (rule update_one_write [OF u(1)]) (simp add: n u(2))
  then show ?thesis using that [OF u(1) _ u(3)] n by (simp add: updated_def)
qed

text \<open>What the lookups leave in the inode of a directory, with the entry they found.\<close>

definition entry_at :: "ext2mount \<Rightarrow> dent list list \<Rightarrow> bytes \<Rightarrow> nat \<Rightarrow> dent list \<Rightarrow> dent \<Rightarrow> dent list \<Rightarrow> int \<Rightarrow> bool" where
  "entry_at u ess name k es e fs off \<longleftrightarrow> k < length ess \<and> ess ! k = es @ e # fs \<and> ent_matches name e \<and>
     off = int k * int (bsz u) + int (dents_len es)"

definition before_len :: "dent list \<Rightarrow> int" where
  "before_len es = (if es = [] then 0 else uint (dn_reclen (last es)))"

lemma deleted_at:
  assumes c: "dir_content direct_dir dirchk u dp a ess" and l: "ext2_lookup_ino dirchk rdonly uid get vget u dp (want DELETE n) = Ret (Inr ip, dp1)"
    and m: "dir_map ess n = Some (i_number ip)" "i_number ip \<noteq> i_number dp" "vget (i_number ip) = Inr ip" "i_mode dp AND ISVTX = 0"
  obtains k es e fs off where "entry_at u ess n k es e fs off" "dp1 = dp\<lparr>i_offset := off, i_count := before_len es\<rparr>"
    "dir_content direct_dir dirchk u dp1 a ess"
proof -
  obtain k es e fs off where k: "entry_at u ess n k es e fs off" and d: "dp1 = dp\<lparr>i_offset := off, i_count := before_len es\<rparr>"
    using l direct.lookup_delete [OF c, of "want DELETE n" "i_number ip" vget ip uid rdonly get] m by (auto simp: entry_at_def before_len_def)
  have "dir_content direct_dir dirchk u dp1 a ess" by (rule direct.content_same [OF c]) (simp add: d same_file_def)
  then show ?thesis using that k d by blast
qed

lemma renamed_at:
  assumes c: "dir_content direct_dir dirchk u dp a ess" and l: "ext2_lookup_ino dirchk rdonly uid get vget u dp (want RENAME n) = Ret (Inr xp, dp1)"
    and m: "dir_map ess n = Some (i_number xp)" "i_number xp \<noteq> i_number dp" "vget (i_number xp) = Inr xp"
  obtains k es e fs off where "entry_at u ess n k es e fs off" "dp1 = dp\<lparr>i_offset := off\<rparr>" "dir_content direct_dir dirchk u dp1 a ess"
proof -
  obtain k es e fs off where k: "entry_at u ess n k es e fs off" and d: "dp1 = dp\<lparr>i_offset := off\<rparr>"
    using l direct.lookup_rename [OF c, of "want RENAME n" "i_number xp" vget xp rdonly uid get] m by (auto simp: entry_at_def)
  have "dir_content direct_dir dirchk u dp1 a ess" by (rule direct.content_same [OF c]) (simp add: d same_file_def)
  then show ?thesis using that k d by blast
qed

lemma entry_number:
  assumes k: "entry_at u ess n k es e fs off" and d: "dir_distinct ess" "dir_map ess n = Some i" and c: "dir_content direct_dir dirchk u dp a ess"
  shows "i \<noteq> 0" "dir_sane dirchk u i"
proof -
  have k': "k < length ess" "ess ! k = es @ e # fs" "ent_matches n e" using k by (simp_all add: entry_at_def)
  note m = entry_in_map [OF k' d(1)]
  have i: "i = dn_ino e" using m(1) d(2) by simp
  show "i \<noteq> 0" unfolding i by (rule m(2))
  show "dir_sane dirchk u i" unfolding i by (rule content_sane [OF c k'(1,2)])
qed

lemma dents_one_write: "one_write u (put_dents u x es) x"
  unfolding one_write_def put_dents_def by (intro exI [of _ "snd (buf_bwrite (um_devvp u) x (block_of es))"]) (simp add: buf_bwrite_def)

text \<open>The lookups as equations, for the entry the name has.\<close>

lemma lookup_deletes:
  assumes c: "dir_content direct_dir dirchk u dp a ess" "dir_distinct ess" and k: "entry_at u ess n k es e fs off"
    and m: "dn_ino e = i_number ip" "i_number ip \<noteq> i_number dp" "vget (i_number ip) = Inr ip" "i_mode dp AND ISVTX = 0"
  shows "ext2_lookup_ino dirchk rdonly uid get vget u dp (want DELETE n) = Ret (Inr ip, dp\<lparr>i_offset := off, i_count := before_len es\<rparr>)"
proof -
  have k': "k < length ess" "ess ! k = es @ e # fs" "ent_matches n e" using k by (simp_all add: entry_at_def)
  have i: "dir_map ess n = Some (i_number ip)" using entry_in_map(1) [OF k' c(2)] m(1) by simp
  obtain k2 es2 e2 fs2 o2 where k2: "entry_at u ess n k2 es2 e2 fs2 o2"
    and l: "ext2_lookup_ino dirchk rdonly uid get vget u dp (want DELETE n) = Ret (Inr ip, dp\<lparr>i_offset := o2, i_count := before_len es2\<rparr>)"
    using direct.lookup_delete [OF c(1), of "want DELETE n" "i_number ip" vget ip uid rdonly get] i m by (auto simp: entry_at_def before_len_def)
  have "k2 < length ess" "ess ! k2 = es2 @ e2 # fs2" "ent_matches n e2" using k2 by (simp_all add: entry_at_def)
  from entry_once [OF k' this c(2)] show ?thesis using l k k2 by (simp add: entry_at_def)
qed

lemma lookup_renames:
  assumes c: "dir_content direct_dir dirchk u dp a ess" "dir_distinct ess" and k: "entry_at u ess n k es e fs off"
    and m: "dn_ino e = i_number xp" "i_number xp \<noteq> i_number dp" "vget (i_number xp) = Inr xp"
  shows "ext2_lookup_ino dirchk rdonly uid get vget u dp (want RENAME n) = Ret (Inr xp, dp\<lparr>i_offset := off\<rparr>)"
proof -
  have k': "k < length ess" "ess ! k = es @ e # fs" "ent_matches n e" using k by (simp_all add: entry_at_def)
  have i: "dir_map ess n = Some (i_number xp)" using entry_in_map(1) [OF k' c(2)] m(1) by simp
  obtain k2 es2 e2 fs2 o2 where k2: "entry_at u ess n k2 es2 e2 fs2 o2"
    and l: "ext2_lookup_ino dirchk rdonly uid get vget u dp (want RENAME n) = Ret (Inr xp, dp\<lparr>i_offset := o2\<rparr>)"
    using direct.lookup_rename [OF c(1), of "want RENAME n" "i_number xp" vget xp rdonly uid get] i m by (auto simp: entry_at_def)
  have "k2 < length ess" "ess ! k2 = es2 @ e2 # fs2" "ent_matches n e2" using k2 by (simp_all add: entry_at_def)
  from entry_once [OF k' this c(2)] show ?thesis using l k k2 by (simp add: entry_at_def)
qed

text \<open>The update of an inode whose slot is within a block that can be read and written.\<close>

lemma update_succeeds:
  assumes b: "ino_to_fsba (um_e2fs u) (i_number ip) = Ret b" "ino_to_fsbo (um_e2fs u) (i_number ip) = Ret k"
    and d: "dev_rerr (um_devvp u) = (\<lambda>x. 0)" "dev_werr (um_devvp u) = (\<lambda>x. 0)" "dev_nobuf (um_devvp u) = (\<lambda>x. False)"
    and f: "uint (e2fs_isize (um_e2fs u) * k) = int off" "off + (if E2DI_HAS_XTIME (um_e2fs u) then 156 else 128) \<le>
      length (dev_blk (um_devvp u) (fsbtodb (um_e2fs u) (uint b)))" and p: "length (i_db ip) = 12" "length (i_ib ip) = 3"
  shows "\<exists>ip' u'. ext2_update env w ip u = Ret (0, ip', u')"
proof -
  let ?i = "ext2_itimes env ip" and ?fs = "um_e2fs u"
  define j where "j = ?i\<lparr>i_flag := i_flag ?i AND NOT (IN_LAZYACCESS OR IN_LAZYMOD OR IN_MODIFIED)\<rparr>"
  let ?x = "E2DI_HAS_XTIME ?fs" and ?bs = "dev_blk (um_devvp u) (fsbtodb ?fs (uint b))"
  have i: "updated ip ?i" by (rule itimes_updated)
  then have n: "i_number j = i_number ip" by (simp add: updated_def j_def)
  have r: "buf_meta_bread (um_devvp u) a = Inr (dev_blk (um_devvp u) a)" for a by (simp add: buf_meta_bread_def d)
  obtain ei where ei: "get_dinode ?x ?bs (int off) = Ret ei" using get_dinode_total [OF f(2)] by blast
  have "length (e2di_blocks (ext2_i2ei ?fs j ei)) = 15" using i p by (simp add: ext2_i2ei_def Let_def updated_def j_def)
  then obtain bs where bs: "put_dinode ?x ?bs (int off) (ext2_i2ei ?fs j ei) = Ret bs" using put_dinode_total f(2) by blast
  show ?thesis unfolding ext2_update_def Let_def j_def [symmetric]
    by (simp add: n b r f(1) ei bs buf_bwrite_def d del: bnd_Ret_iff)
qed

text \<open>The target's entry rewritten, after the inode of the source was updated somewhere else.\<close>

lemma target_rewritten:
  assumes c: "dir_content direct_dir dirchk u dp a ess" "dir_distinct ess" and k: "entry_at u ess n k es e fs (i_offset dp)"
    and ow: "one_write u u1 x" "x \<notin> a ` {..<length ess}" and w: "\<forall>y \<in> a ` {..<length ess}. dev_werr (um_devvp u) y = 0"
    and ino: "i_number ip \<noteq> 0" "dir_sane dirchk u (i_number ip)"
  shows "\<exists>e'. dent_name e' = n \<and> live e' \<and> ext2_dirrewrite u1 dp ip = Ret (0, put_dents u1 (a k) (es @ e' # fs), dir_modified dp) \<and>
    dir_content direct_dir dirchk (put_dents u1 (a k) (es @ e' # fs)) (dir_modified dp) a (ess[k := es @ e' # fs]) \<and>
    dir_map (ess[k := es @ e' # fs]) = (dir_map ess)(n \<mapsto> i_number ip) \<and> dir_distinct (ess[k := es @ e' # fs])"
proof -
  have x: "\<forall>k < length ess. a k \<noteq> x" using ow(2) by auto
  note cu = content_one_write [OF c(1) ow(1) x]
  have k': "k < length ess" "ess ! k = es @ e # fs" "i_offset dp = int k * int (bsz u1) + int (dents_len es)" and lv: "live e" "dent_name e = n"
    using k cu(2) by (simp_all add: entry_at_def ent_matches_def live_def)
  have "dir_sane dirchk u1 (i_number ip)" using ino(2) cu(3) by (simp add: dir_sane_def)
  from direct.dirrewrite_at [OF cu(1) k'(1,2) lv(1) c(2) k'(3) ino(1) this]
  show ?thesis using w k'(1) cu(4) lv(2) by (simp add: put_err_def)
qed

text \<open>C9. Renaming a file over another file of the same directory. The lookup of the source leaves the place of its entry in the inode of the
  directory, the lookup of the target replaces its offset; nothing looks the source up again. Where the entries before the two have
  the same length, \<^verbatim>\<open>ext2_rename\<close> reports success and removes the name of the target it has just rewritten: the old file has lost its
  link, and the source keeps its old name only.\<close>

theorem rename_in_directory_loses_target:
  assumes c: "dir_content direct_dir dirchk (rs_ump s) dp a ess" "dir_distinct ess"
    and m: "dir_map ess n1 = Some (i_number ip)" "dir_map ess n2 = Some (i_number xp)"
      "i_number xp \<noteq> i_number ip" "i_number ip \<noteq> i_number dp" "i_number xp \<noteq> i_number dp" "vget (i_number ip) = Inr ip" "vget (i_number xp) = Inr xp"
      "i_mode dp AND ISVTX = 0"
    and l: "ext2_lookup_ino dirchk rdonly uid get vget (rs_ump s) dp (want DELETE n1) = Ret (Inr ip, dp1)"
      "ext2_lookup_ino dirchk rdonly uid get vget (rs_ump s) dp1 (want RENAME n2) = Ret (Inr xp, dp2)"
    and same: "ext2_lookup_ino dirchk rdonly uid get vget (rs_ump s) dp (want DELETE n2) = Ret (Inr xp, dpx)" "i_count dpx = i_count dp1"
    and r: "r = \<lparr>ra_fdvp = d, ra_fvp = f, ra_tdvp = d, ra_tvp = Some t, ra_fname = n1, ra_tname = n2, ra_dotdot = dd, ra_xdev = False\<rparr>"
      "distinct [d, f, t]" "rs_core s d = dp2" "rs_core s f = ip" "rs_core s t = xp"
    and p: "plain_rename env r t s (a ` {..<length ess})"
  shows "\<exists>s' ess'. ext2_rename env r s = Ret (0, s') \<and> dir_content direct_dir dirchk (rs_ump s') (rs_core s' d) a ess' \<and>
     dir_map ess' = (dir_map ess)(n2 := None) \<and> i_nlink (rs_core s' t) = i_nlink xp - 1 \<and> i_nlink (rs_core s' f) = i_nlink ip"
proof -
  let ?u = "rs_ump s" and ?q = "doing_async (re_inode env d)"
  obtain ip1 u1 x where up: "ext2_update (re_inode env f) (\<not> doing_async (re_inode env f)) (inc_nlink ip) ?u = Ret (0, ip1, u1)"
    and ow: "one_write ?u u1 x" "x \<notin> a ` {..<length ess}" and i1: "i_number ip1 = i_number ip" "i_nlink ip1 = i_nlink ip + 1"
    using plain_update [OF p] r by auto
  obtain k1 es1 e1 fs1 o1 where k1: "entry_at ?u ess n1 k1 es1 e1 fs1 o1" and d1: "dp1 = dp\<lparr>i_offset := o1, i_count := before_len es1\<rparr>"
    and c1: "dir_content direct_dir dirchk ?u dp1 a ess" by (rule deleted_at [OF c(1) l(1) m(1,4,6,8)])
  have "i_number dp1 = i_number dp" by (simp add: d1)
  then obtain k es e fs o2 where k: "entry_at ?u ess n2 k es e fs o2" and d2: "dp2 = dp1\<lparr>i_offset := o2\<rparr>"
    and c2: "dir_content direct_dir dirchk ?u dp2 a ess" using renamed_at [OF c1 l(2) m(2) _ m(7)] m(5) by metis
  obtain k3 es3 e3 fs3 o3 where k3: "entry_at ?u ess n2 k3 es3 e3 fs3 o3" and d3: "dpx = dp\<lparr>i_offset := o3, i_count := before_len es3\<rparr>"
    by (rule deleted_at [OF c(1) same(1) m(2,5,7,8)])
  have "es3 = es" using k k3 entry_once [OF _ _ _ _ _ _ c(2)] unfolding entry_at_def by blast
  then have cnt: "i_count dp2 = before_len es" "i_offset dp2 = o2" using same(2) d1 d2 d3 by simp_all
  note ino = entry_number [OF k1 c(2) m(1) c(1), folded i1(1)]
  have w: "\<forall>y \<in> a ` {..<length ess}. dev_werr (um_devvp ?u) y = 0" using p by (simp add: plain_rename_def)
  obtain e' where e': "dent_name e' = n2" "live e'" and rw: "ext2_dirrewrite u1 dp2 ip1 = Ret (0, put_dents u1 (a k) (es @ e' # fs), dir_modified dp2)"
    and cw: "dir_content direct_dir dirchk (put_dents u1 (a k) (es @ e' # fs)) (dir_modified dp2) a (ess[k := es @ e' # fs])"
    and mw: "dir_map (ess[k := es @ e' # fs]) = (dir_map ess)(n2 \<mapsto> i_number ip1)" "dir_distinct (ess[k := es @ e' # fs])"
    using target_rewritten [OF c2 c(2) _ ow w ino] k cnt(2) by blast
  let ?u2 = "put_dents u1 (a k) (es @ e' # fs)" and ?ess = "ess[k := es @ e' # fs]"
  have kl: "k < length ess" using k by (simp add: entry_at_def)
  then have kk: "k < length ?ess" "?ess ! k = es @ e' # fs" by simp_all
  have "dev_werr (um_devvp u1) = dev_werr (um_devvp ?u)" using ow(1) by (auto simp: one_write_def)
  then have z: "put_err q ?u2 (a k) = 0" for q using w kl by (simp add: put_err_dents) (simp add: put_err_def)
  have "bsz ?u2 = bsz ?u" using ow(1) by (auto simp: one_write_def bsz_def)
  then have at: "i_offset (dir_modified dp2) = int k * int (bsz ?u2) + int (dents_len es)"
    "i_count (dir_modified dp2) = (if es = [] then 0 else uint (dn_reclen (last es)))"
    using cnt k by (simp_all add: dir_modified_def entry_at_def before_len_def)
  obtain es' where rm: "ext2_dirremove ?q ?u2 (dir_modified dp2) = Ret (0, put_dents ?u2 (a k) es', dir_modified (dir_modified dp2))"
    and cr: "dir_content direct_dir dirchk (put_dents ?u2 (a k) es') (dir_modified (dir_modified dp2)) a (?ess[k := es'])"
    and mr: "dir_map (?ess[k := es']) = (dir_map ?ess)(n2 := None)"
    using direct.dirremove_entry [OF cw kk e'(2) mw(2) at, of ?q] e'(1) unfolding z by blast
  have oc: "over_check env False ip1 dp2 xp u1 = Ret 0"
    by (rule over_check_plain) (use m p r i1 in \<open>simp_all add: d2 d1 plain_rename_def\<close>)
  have pr: "rename_check r s = None" "i_mode (rs_core s f) AND IFMT \<noteq> IFDIR" using p r by (simp_all add: plain_rename_def)
  have v: "f \<noteq> d" "t \<noteq> f" "t \<noteq> d" using r(2) by auto
  have rm': "ext2_dirremove ?q ?u2 (if d = d then dir_modified dp2 else dp2) = Ret (0, put_dents ?u2 (a k) es', dir_modified (dir_modified dp2))"
    using rm by simp
  obtain s' where s': "ext2_rename env r s = Ret (0, s')" "rs_ump s' = put_dents ?u2 (a k) es'" "rs_core s' d = dir_modified (dir_modified dp2)"
    "i_nlink (rs_core s' f) = i_nlink ip1 - 1" "i_nlink (rs_core s' t) = i_nlink xp - 1"
    using rename_over_args [OF r(1) pr(1) v(1,1,2,3,3) pr(2), unfolded r(3-5), OF up oc rw rm'] by blast
  have "dir_map (?ess[k := es']) = (dir_map ess)(n2 := None)" unfolding mr mw(1) by simp
  then show ?thesis using s' cr i1(2) by auto
qed

text \<open>C8. Renaming a file over another file of a different directory, after the lookups of both. The target's directory maps the name
  to the file that was renamed, the source's directory has lost its name, both keep all other names; the file that was replaced has
  lost a link and the one that was renamed has as many as before.\<close>

theorem rename_between_directories:
  assumes c: "dir_content direct_dir dirchk (rs_ump s) dp a ess" "dir_distinct ess" "dir_content direct_dir dirchk (rs_ump s) dq b fss" "dir_distinct fss"
      "a ` {..<length ess} \<inter> b ` {..<length fss} = {}"
    and m: "dir_map ess n1 = Some (i_number ip)" "i_number ip \<noteq> i_number dp" "vget (i_number ip) = Inr ip" "i_mode dp AND ISVTX = 0"
      "dir_map fss n2 = Some (i_number xp)" "i_number xp \<noteq> i_number dq" "vget (i_number xp) = Inr xp" "i_mode dq AND ISVTX = 0"
      "i_number xp \<noteq> i_number ip"
    and l: "ext2_lookup_ino dirchk rdonly uid get vget (rs_ump s) dp (want DELETE n1) = Ret (Inr ip, dp1)"
      "ext2_lookup_ino dirchk rdonly uid get vget (rs_ump s) dq (want RENAME n2) = Ret (Inr xp, dq1)"
    and r: "r = \<lparr>ra_fdvp = d, ra_fvp = f, ra_tdvp = td, ra_tvp = Some t, ra_fname = n1, ra_tname = n2, ra_dotdot = dd, ra_xdev = False\<rparr>"
      "distinct [d, f, td, t]" "rs_core s d = dp1" "rs_core s f = ip" "rs_core s td = dq1" "rs_core s t = xp"
    and p: "plain_rename env r t s (a ` {..<length ess} \<union> b ` {..<length fss})"
  shows "\<exists>s' ess' fss'. ext2_rename env r s = Ret (0, s') \<and>
     dir_content direct_dir dirchk (rs_ump s') (rs_core s' td) b fss' \<and> dir_map fss' = (dir_map fss)(n2 \<mapsto> i_number ip) \<and>
     dir_content direct_dir dirchk (rs_ump s') (rs_core s' d) a ess' \<and> dir_map ess' = (dir_map ess)(n1 := None) \<and>
     i_nlink (rs_core s' t) = i_nlink xp - 1 \<and> i_nlink (rs_core s' f) = i_nlink ip"
proof -
  let ?u = "rs_ump s" and ?q = "doing_async (re_inode env d)"
  obtain ip1 u1 x where up: "ext2_update (re_inode env f) (\<not> doing_async (re_inode env f)) (inc_nlink ip) ?u = Ret (0, ip1, u1)"
    and ow: "one_write ?u u1 x" "x \<notin> a ` {..<length ess} \<union> b ` {..<length fss}" and i1: "i_number ip1 = i_number ip" "i_nlink ip1 = i_nlink ip + 1"
    using plain_update [OF p] r by auto
  have xa: "x \<notin> a ` {..<length ess}" and xb: "x \<notin> b ` {..<length fss}" using ow(2) by simp_all
  obtain j gs g hs o1 where j: "entry_at ?u ess n1 j gs g hs o1" and d1: "dp1 = dp\<lparr>i_offset := o1, i_count := before_len gs\<rparr>"
    and c1: "dir_content direct_dir dirchk ?u dp1 a ess" by (rule deleted_at [OF c(1) l(1) m(1-4)])
  obtain k es e fs o2 where k: "entry_at ?u fss n2 k es e fs o2" and d2: "dq1 = dq\<lparr>i_offset := o2\<rparr>"
    and c2: "dir_content direct_dir dirchk ?u dq1 b fss" by (rule renamed_at [OF c(3) l(2) m(5-7)])
  note ino = entry_number [OF j c(2) m(1) c(1), folded i1(1)]
  have w: "\<forall>y \<in> a ` {..<length ess}. dev_werr (um_devvp ?u) y = 0" "\<forall>y \<in> b ` {..<length fss}. dev_werr (um_devvp ?u) y = 0"
    using p by (simp_all add: plain_rename_def)
  have kq: "entry_at ?u fss n2 k es e fs (i_offset dq1)" using k d2 by simp
  have ks: "k < length fss" "b k \<in> b ` {..<length fss}" using k by (simp_all add: entry_at_def)
  have js: "j < length ess" "ess ! j = gs @ g # hs" "a j \<in> a ` {..<length ess}" and lv: "live g" "dent_name g = n1"
    using j by (simp_all add: entry_at_def ent_matches_def live_def)
  obtain e' where rw: "ext2_dirrewrite u1 dq1 ip1 = Ret (0, put_dents u1 (b k) (es @ e' # fs), dir_modified dq1)"
    and cw: "dir_content direct_dir dirchk (put_dents u1 (b k) (es @ e' # fs)) (dir_modified dq1) b (fss[k := es @ e' # fs])"
    and mw: "dir_map (fss[k := es @ e' # fs]) = (dir_map fss)(n2 \<mapsto> i_number ip1)"
    using target_rewritten [OF c2 c(4) kq ow(1) xb w(2) ino] by blast
  let ?u2 = "put_dents u1 (b k) (es @ e' # fs)"
  have "\<forall>i < length ess. a i \<noteq> x" "\<forall>i < length ess. a i \<noteq> b k" using xa ks(2) c(5) by auto
  note cu1 = content_one_write [OF c1 ow(1) this(1)] and cu2 = content_one_write [OF _ dents_one_write this(2)]
  note cu = cu2(1) [OF cu1(1)] cu2(2) [OF cu1(1), unfolded cu1(2)]
  have at: "i_offset dp1 = int j * int (bsz ?u2) + int (dents_len gs)" "i_count dp1 = (if gs = [] then 0 else uint (dn_reclen (last gs)))"
    using j d1 cu1(2) by (simp_all add: entry_at_def before_len_def)
  have "dev_werr (um_devvp ?u) (a j) = 0" by (rule bspec [OF w(1) js(3)])
  then have z: "put_err q ?u2 (a j) = 0" for q using cu1(4) by (simp add: put_err_dents) (simp add: put_err_def)
  obtain gs' where rm: "ext2_dirremove ?q ?u2 dp1 = Ret (0, put_dents ?u2 (a j) gs', dir_modified dp1)"
    and cr: "dir_content direct_dir dirchk (put_dents ?u2 (a j) gs') (dir_modified dp1) a (ess[j := gs'])"
    and mr: "dir_map (ess[j := gs']) = (dir_map ess)(n1 := None)"
    using direct.dirremove_entry [OF cu(1) js(1,2) lv(1) c(2) at, of ?q] lv(2) unfolding z by blast
  have "b i \<noteq> a j" if "i < length fss" for i using js(3) c(5) that by (metis IntI emptyE imageI lessThan_iff)
  then have "\<forall>i < length (fss[k := es @ e' # fs]). b i \<noteq> a j" by simp
  note ct = content_one_write(1) [OF cw dents_one_write this]
  have oc: "over_check env False ip1 dq1 xp u1 = Ret 0"
    by (rule over_check_plain) (use m p r i1 in \<open>simp_all add: d2 plain_rename_def\<close>)
  have pr: "rename_check r s = None" "i_mode (rs_core s f) AND IFMT \<noteq> IFDIR" using p r by (simp_all add: plain_rename_def)
  have v: "f \<noteq> d" "f \<noteq> td" "t \<noteq> f" "t \<noteq> d" "t \<noteq> td" "d \<noteq> td" using r(2) by auto
  have rm': "ext2_dirremove ?q ?u2 (if d = td then dir_modified dq1 else dp1) = Ret (0, put_dents ?u2 (a j) gs', dir_modified dp1)"
    using rm v(6) by simp
  obtain s' where s': "ext2_rename env r s = Ret (0, s')" "rs_ump s' = put_dents ?u2 (a j) gs'" "rs_core s' d = dir_modified dp1"
    "rs_core s' td = dir_modified dq1" "i_nlink (rs_core s' f) = i_nlink ip1 - 1" "i_nlink (rs_core s' t) = i_nlink xp - 1"
    using rename_over_args [OF r(1) pr(1) v(1-5) pr(2), unfolded r(3-6), OF up oc rw rm'] v(6) by blast
  then show ?thesis using ct cr mw mr i1 by auto
qed

section \<open>Two directories\<close>

text \<open>In block 5 a directory with the files \<^verbatim>\<open>a\<close> and \<^verbatim>\<open>b\<close>, inodes 13 and 14; in block 6 the one with \<^verbatim>\<open>a\<close>, inode 12.\<close>

definition pair_dents :: "dent list" where
  "pair_dents = [
     \<lparr>dn_ino = 2, dn_reclen = 12, dn_namlen = 1, dn_type = 2, dn_rest = [0x2E, 0, 0, 0]\<rparr>,
     \<lparr>dn_ino = 2, dn_reclen = 12, dn_namlen = 2, dn_type = 2, dn_rest = [0x2E, 0x2E, 0, 0]\<rparr>,
     \<lparr>dn_ino = 13, dn_reclen = 12, dn_namlen = 1, dn_type = 1, dn_rest = [0x61, 0, 0, 0]\<rparr>,
     \<lparr>dn_ino = 14, dn_reclen = 988, dn_namlen = 1, dn_type = 1, dn_rest = 0x62 # replicate 979 0\<rparr>]"

definition pair_mount :: ext2mount where
  "pair_mount = \<lparr>um_devvp = \<lparr>dev_blk = (\<lambda>a. if a = 10 then block_of pair_dents else if a = 12 then block_of (typed_dents 2) else replicate 1024 0),
       dev_rerr = (\<lambda>a. 0), dev_werr = (\<lambda>a. 0), dev_nobuf = (\<lambda>a. False)\<rparr>,
     um_e2fs = zero_fs\<lparr>e2fs_bsize := 1024, e2fs_bshift := 10, e2fs_qbmask := 1023, e2fs_fsize := 1024, e2fs_fsbtodb := 1, e2fs_ipb := 8,
       e2fs_isize := 128, e2fs_gcount := 1, m_e2fs_ipg := 100, e2fs_gd := [zero_gd\<lparr>ext2bgd_i_tables := 20\<rparr>],
       e2fs := zero_sb\<lparr>e2fs_icount := 100, e2fs_rev := 1, e2fs_ipg := 100\<rparr>\<rparr>,
     um_nindir = 256, um_bptrtodb = 1, um_seqinc = 1, um_lock = False\<rparr>"

definition pair_dir :: "u32 \<Rightarrow> u32 \<Rightarrow> inode" where
  "pair_dir ino blk = zero_inode\<lparr>i_number := ino, i_mode := 0x41ED, i_nlink := 2, i_size := 1024, i_db := blk # replicate 11 0\<rparr>"

definition pair_file :: "u32 \<Rightarrow> inode" where
  "pair_file ino = zero_inode\<lparr>i_number := ino, i_mode := 0x81ED, i_nlink := 1, i_db := replicate 12 0, i_ib := replicate 3 0\<rparr>"

lemma pair_bsz: "bsz pair_mount = 1024"
  by (simp add: bsz_def pair_mount_def)

lemma pair_direct:
  assumes "p = 5 \<or> p = 6"
  shows "direct_dir pair_mount (pair_dir n p) (\<lambda>k. 2 * uint p) 1"
proof -
  have "dir_geom pair_mount" by (simp add: dir_geom_def Let_def pair_bsz) (simp add: pair_mount_def)
  then show ?thesis
    unfolding direct_dir_def using assms by (auto simp: pair_mount_def pair_dir_def zero_inode_def push_bit_eq_mult)
qed

lemma dent_needs:
  "dent_need \<lparr>dn_ino = i, dn_reclen = r, dn_namlen = 1, dn_type = t, dn_rest = x\<rparr> = 12"
  "dent_need \<lparr>dn_ino = i, dn_reclen = r, dn_namlen = 2, dn_type = t, dn_rest = x\<rparr> = 12"
  by (simp_all add: dent_need_def rec_len)

lemma pair_content:
  "dir_content direct_dir True pair_mount (pair_dir n 5) (\<lambda>k. 10) [pair_dents]"
  "dir_content direct_dir True pair_mount (pair_dir n 6) (\<lambda>k. 12) [typed_dents 2]"
proof -
  note d = pair_direct [of 5 n, simplified] pair_direct [of 6 n, simplified]
  have o: "block_ok 1024 pair_dents" "block_ok 1024 (typed_dents 2)"
    by (simp_all add: block_ok_def pair_dents_def typed_dents_def dent_ok_def dent_needs)
  show "dir_content direct_dir True pair_mount (pair_dir n 5) (\<lambda>k. 10) [pair_dents]"
    unfolding dir_content_def using d o by (simp add: pair_bsz pair_dir_def) (simp add: pair_mount_def pair_dents_def zero_sb_def)
  show "dir_content direct_dir True pair_mount (pair_dir n 6) (\<lambda>k. 12) [typed_dents 2]"
    unfolding dir_content_def using d o by (simp add: pair_bsz pair_dir_def) (simp add: pair_mount_def typed_dents_def zero_sb_def)
qed

lemma pair_names:
  "dir_live [pair_dents] = [([0x2E], 2), ([0x2E, 0x2E], 2), ([0x61], 13), ([0x62], 14)]"
  "dir_distinct [pair_dents]" "dir_map [pair_dents] [0x61] = Some 13" "dir_map [pair_dents] [0x62] = Some 14"
  "dir_distinct [typed_dents 2]" "dir_map [typed_dents 2] [0x61] = Some 12"
proof -
  show l: "dir_live [pair_dents] = [([0x2E], 2), ([0x2E, 0x2E], 2), ([0x61], 13), ([0x62], 14)]"
    by (simp add: dir_live_def pair_dents_def live_def dent_name_def)
  show "dir_distinct [pair_dents]" unfolding dir_distinct_def l by simp
  show "dir_map [pair_dents] [0x61] = Some 13" "dir_map [pair_dents] [0x62] = Some 14" unfolding dir_map_def l by simp_all
  show "dir_distinct [typed_dents 2]" by (rule demo_distinct)
  show "dir_map [typed_dents 2] [0x61] = Some 12" unfolding dir_map_def demo_names by simp
qed

lemma pair_entries:
  "entry_at pair_mount [pair_dents] [0x61] 0 (take 2 pair_dents) (pair_dents ! 2) (drop 3 pair_dents) 24"
  "entry_at pair_mount [pair_dents] [0x62] 0 (take 3 pair_dents) (pair_dents ! 3) [] 36"
  "entry_at pair_mount [typed_dents 2] [0x61] 0 (take 2 (typed_dents 2)) (typed_dents 2 ! 2) [] 24"
  by (simp_all add: entry_at_def pair_dents_def typed_dents_def ent_matches_def dent_name_def dents_len_def)

definition pair_ienv :: inode_env where
  "pair_ienv = \<lparr>ie_trunc = \<lparr>te_async = False, te_stale = False\<rparr>,
     ie_balloc = \<lparr>be_cred = Ret 0, be_clrbuf = True, be_sync = True, be_getblk = (\<lambda>lbn. None), be_ext = \<lparr>xe_nocred = Ret 0, xe_cached = True\<rparr>\<rparr>,
     ie_special = False, ie_symlink = False, ie_rdonly = False, ie_now = (0, 0), ie_inval = 0\<rparr>"

definition pair_env :: "vnode \<Rightarrow> write_env" where
  "pair_env v = \<lparr>we_inode = pair_ienv, we_nocred = Ret 0, we_isdir = False, we_isreg = True, we_user = False, we_append = False, we_move = (\<lambda>off. 0)\<rparr>"

definition pair_renv :: rename_env where
  "pair_renv = \<lparr>re_vnode = pair_env, re_cred = Ret 0, re_junk = [0, 0, 0], re_vget = (\<lambda>n. Inr (pair_file n))\<rparr>"

definition pair_args :: "vnode \<Rightarrow> bytes \<Rightarrow> rename_args" where
  "pair_args td n = \<lparr>ra_fdvp = 0, ra_fvp = 1, ra_tdvp = td, ra_tvp = Some 3, ra_fname = [0x61], ra_tname = n, ra_dotdot = False, ra_xdev = False\<rparr>"

definition pair_state :: "(vnode \<Rightarrow> inode) \<Rightarrow> rstate" where
  "pair_state core = \<lparr>rs_core = core, rs_ump = pair_mount, rs_puts = []\<rparr>"

lemma pair_plain:
  assumes "r = pair_args td n" "core 1 = pair_file 13" "core 3 = pair_file t" "i_flags (core 0) = 0" "i_flags (core td) = 0" "A \<subseteq> {10, 12}"
  shows "plain_rename pair_renv r 3 (pair_state core) A"
proof -
  have a: "ino_to_fsba (um_e2fs pair_mount) 13 = Ret 21" "ino_to_fsbo (um_e2fs pair_mount) 13 = Ret 4" by code_simp+
  have x: "\<not> E2DI_HAS_XTIME (um_e2fs pair_mount)" "fsbtodb (um_e2fs pair_mount) 21 = 42" by code_simp+
  have i: "i_number (inc_nlink (pair_file 13)) = 13" "length (i_db (inc_nlink (pair_file 13))) = 12" "length (i_ib (inc_nlink (pair_file 13))) = 3"
    by (simp_all add: change_nlink_def set_flag_def pair_file_def)
  have "\<exists>ip' u'. ext2_update env w (inc_nlink (pair_file 13)) pair_mount = Ret (0, ip', u')" for env w
    by (rule update_succeeds [of pair_mount _ 21 4 512]) (simp_all add: i a x, simp_all add: pair_mount_def)
  then obtain ip' u' where u: "ext2_update (re_inode pair_renv 1) (\<not> doing_async (re_inode pair_renv 1)) (inc_nlink (pair_file 13)) pair_mount = Ret (0, ip', u')" by blast
  have c: "rename_check r (pair_state core) = None"
    using assms by (simp add: rename_check_def pair_args_def pair_state_def pair_file_def zero_inode_def Let_def EXT2_LINK_MAX_def)
  have w: "dev_werr (um_devvp pair_mount) = (\<lambda>a. 0)" by (simp add: pair_mount_def)
  have "rs_core (pair_state core) = core" "rs_ump (pair_state core) = pair_mount" "ra_fvp r = 1" using assms(1) by (simp_all add: pair_state_def pair_args_def)
  then show ?thesis unfolding plain_rename_def Let_def using assms u c w
    by (simp add: a x pair_file_def IFMT_def IFDIR_def) auto
qed


lemma pair_lookups:
  fixes dirchk rdonly uid get
  defines "look \<equiv> ext2_lookup_ino True False 0 0 (\<lambda>n. Inr (pair_file n)) pair_mount"
  shows "look (pair_dir 2 5) (want DELETE [0x61]) = Ret (Inr (pair_file 13), (pair_dir 2 5)\<lparr>i_offset := 24, i_count := 12\<rparr>)"
    "look (pair_dir 2 5) (want DELETE [0x62]) = Ret (Inr (pair_file 14), (pair_dir 2 5)\<lparr>i_offset := 36, i_count := 12\<rparr>)"
    "look ((pair_dir 2 5)\<lparr>i_offset := 24, i_count := 12\<rparr>) (want RENAME [0x62]) =
       Ret (Inr (pair_file 14), (pair_dir 2 5)\<lparr>i_offset := 36, i_count := 12\<rparr>)"
    "look (pair_dir 7 6) (want RENAME [0x61]) = Ret (Inr (pair_file 12), (pair_dir 7 6)\<lparr>i_offset := 24\<rparr>)"
proof -
  have b: "before_len (take 2 pair_dents) = 12" "before_len (take 3 pair_dents) = 12" by (simp_all add: before_len_def pair_dents_def)
  have i: "dn_ino (pair_dents ! 2) = i_number (pair_file 13)" "dn_ino (pair_dents ! 3) = i_number (pair_file 14)"
    "dn_ino (typed_dents 2 ! 2) = i_number (pair_file 12)" by (simp_all add: pair_dents_def typed_dents_def pair_file_def)
  have n: "i_number (pair_file 13) \<noteq> i_number (pair_dir 2 5)" "i_number (pair_file 14) \<noteq> i_number (pair_dir 2 5)"
    "i_number (pair_file 12) \<noteq> i_number (pair_dir 7 6)" "i_mode (pair_dir 2 5) AND ISVTX = 0" "i_number (pair_file k) = k" for k
    by (simp_all add: pair_file_def pair_dir_def ISVTX_def)
  note c = pair_content(1) [of 2] pair_names(2)
  have c1: "dir_content direct_dir True pair_mount ((pair_dir 2 5)\<lparr>i_offset := 24, i_count := 12\<rparr>) (\<lambda>k. 10) [pair_dents]"
    by (rule direct.content_same [OF c(1)]) (simp add: same_file_def)
  show "look (pair_dir 2 5) (want DELETE [0x61]) = Ret (Inr (pair_file 13), (pair_dir 2 5)\<lparr>i_offset := 24, i_count := 12\<rparr>)"
    unfolding look_def b(1) [symmetric] by (rule lookup_deletes [OF c pair_entries(1) i(1) n(1) _ n(4)]) (simp add: n(5))
  show "look (pair_dir 2 5) (want DELETE [0x62]) = Ret (Inr (pair_file 14), (pair_dir 2 5)\<lparr>i_offset := 36, i_count := 12\<rparr>)"
    unfolding look_def b(2) [symmetric] by (rule lookup_deletes [OF c pair_entries(2) i(2) n(2) _ n(4)]) (simp add: n(5))
  have "look ((pair_dir 2 5)\<lparr>i_offset := 24, i_count := 12\<rparr>) (want RENAME [0x62]) =
       Ret (Inr (pair_file 14), (pair_dir 2 5)\<lparr>i_offset := 24, i_count := 12\<rparr>\<lparr>i_offset := 36\<rparr>)"
    unfolding look_def by (rule lookup_renames [OF c1 c(2) pair_entries(2) i(2)]) (simp_all add: n pair_dir_def)
  then show "look ((pair_dir 2 5)\<lparr>i_offset := 24, i_count := 12\<rparr>) (want RENAME [0x62]) =
       Ret (Inr (pair_file 14), (pair_dir 2 5)\<lparr>i_offset := 36, i_count := 12\<rparr>)" by simp
  show "look (pair_dir 7 6) (want RENAME [0x61]) = Ret (Inr (pair_file 12), (pair_dir 7 6)\<lparr>i_offset := 24\<rparr>)"
    unfolding look_def by (rule lookup_renames [OF pair_content(2) pair_names(5) pair_entries(3) i(3) n(3)]) (simp add: n(5))
qed

text \<open>The inodes of the vnodes: the directory of the source, the source, the directory of the target, the target.\<close>

definition pair_core :: "inode \<Rightarrow> inode \<Rightarrow> inode \<Rightarrow> vnode \<Rightarrow> inode" where
  "pair_core d e t v = (if v = 0 then d else if v = 1 then pair_file 13 else if v = 2 then e else t)"

theorem rename_in_directory_loses_target_witness:
  "\<exists>s' ess'. ext2_rename pair_renv (pair_args 0 [0x62])
       (pair_state (pair_core ((pair_dir 2 5)\<lparr>i_offset := 36, i_count := 12\<rparr>) zero_inode (pair_file 14))) = Ret (0, s') \<and>
     dir_content direct_dir True (rs_ump s') (rs_core s' 0) (\<lambda>k. 10) ess' \<and> dir_map ess' [0x61] = Some 13 \<and> dir_map ess' [0x62] = None \<and>
     i_nlink (rs_core s' 3) = 0"
proof -
  let ?core = "pair_core ((pair_dir 2 5)\<lparr>i_offset := 36, i_count := 12\<rparr>) zero_inode (pair_file 14)"
  have k: "?core 0 = (pair_dir 2 5)\<lparr>i_offset := 36, i_count := 12\<rparr>" "?core 1 = pair_file 13" "?core 3 = pair_file 14" by (simp_all add: pair_core_def)
  have f: "i_flags (?core 0) = 0" by (simp add: pair_core_def pair_dir_def zero_inode_def)
  have u: "rs_ump (pair_state core) = pair_mount" "rs_core (pair_state core) = core" for core by (simp_all add: pair_state_def)
  have n: "i_number (pair_file 13) \<noteq> i_number (pair_dir 2 5)" "i_number (pair_file 14) \<noteq> i_number (pair_dir 2 5)"
    "i_mode (pair_dir 2 5) AND ISVTX = 0" "i_number (pair_file k) = k" "i_nlink (pair_file k) = 1" for k
    by (simp_all add: pair_file_def pair_dir_def ISVTX_def)
  have p: "plain_rename pair_renv (pair_args 0 [0x62]) 3 (pair_state ?core) ((\<lambda>k. 10) ` {..<length [pair_dents]})"
    by (rule pair_plain [OF refl k(2,3) f f]) auto
  note c = pair_content(1) [of 2, folded u(1) [of ?core]]
  note th = rename_in_directory_loses_target [OF c pair_names(2) _ _ _ n(1) n(2) _ _ n(3), where vget = "\<lambda>n. Inr (pair_file n)",
    OF _ _ _ _ _ pair_lookups(1,3,2) [folded u(1) [of ?core]] _ pair_args_def [of 0 "[0x62]"] _ _ _ _ p]
  obtain s' ess' where "ext2_rename pair_renv (pair_args 0 [0x62]) (pair_state ?core) = Ret (0, s')"
    "dir_content direct_dir True (rs_ump s') (rs_core s' 0) (\<lambda>k. 10) ess'" "dir_map ess' = (dir_map [pair_dents])([0x62] := None)"
    "i_nlink (rs_core s' 3) = 0" using th by (simp add: n pair_names u k k(2) [simplified] del: fun_upd_apply) blast
  then show ?thesis using pair_names(3) by (intro exI [of _ s'] exI [of _ ess']) simp
qed

theorem rename_between_directories_witness:
  "\<exists>s' ess' fss'. ext2_rename pair_renv (pair_args 2 [0x61])
       (pair_state (pair_core ((pair_dir 2 5)\<lparr>i_offset := 24, i_count := 12\<rparr>) ((pair_dir 7 6)\<lparr>i_offset := 24\<rparr>) (pair_file 12))) = Ret (0, s') \<and>
     dir_content direct_dir True (rs_ump s') (rs_core s' 2) (\<lambda>k. 12) fss' \<and> dir_map fss' [0x61] = Some 13 \<and>
     dir_content direct_dir True (rs_ump s') (rs_core s' 0) (\<lambda>k. 10) ess' \<and> dir_map ess' [0x61] = None \<and> dir_map ess' [0x62] = Some 14"
proof -
  let ?core = "pair_core ((pair_dir 2 5)\<lparr>i_offset := 24, i_count := 12\<rparr>) ((pair_dir 7 6)\<lparr>i_offset := 24\<rparr>) (pair_file 12)"
  have k: "?core 0 = (pair_dir 2 5)\<lparr>i_offset := 24, i_count := 12\<rparr>" "?core 1 = pair_file 13" "?core 2 = (pair_dir 7 6)\<lparr>i_offset := 24\<rparr>"
    "?core 3 = pair_file 12" by (simp_all add: pair_core_def)
  have f: "i_flags (?core 0) = 0" "i_flags (?core 2) = 0" by (simp_all add: pair_core_def pair_dir_def zero_inode_def)
  have u: "rs_ump (pair_state core) = pair_mount" "rs_core (pair_state core) = core" for core by (simp_all add: pair_state_def)
  have n: "i_number (pair_file 13) \<noteq> i_number (pair_dir 2 5)" "i_number (pair_file 12) \<noteq> i_number (pair_dir 7 6)"
    "i_mode (pair_dir a b) AND ISVTX = 0" "i_number (pair_file k) = k" for k a b
    by (simp_all add: pair_file_def pair_dir_def ISVTX_def)
  have p: "plain_rename pair_renv (pair_args 2 [0x61]) 3 (pair_state ?core) ((\<lambda>k. 10) ` {..<length [pair_dents]} \<union> (\<lambda>k. 12) ` {..<length [typed_dents 2]})"
    by (rule pair_plain [OF refl k(2,4) f]) auto
  note c = pair_content(1) [of 2, folded u(1) [of ?core]] pair_content(2) [of 7, folded u(1) [of ?core]]
  have dj: "(\<lambda>k. 10 :: int) ` {..<length [pair_dents]} \<inter> (\<lambda>k. 12) ` {..<length [typed_dents 2]} = {}" by auto
  note th = rename_between_directories [OF c(1) pair_names(2) c(2) pair_names(5) dj _ n(1) _ n(3) _ n(2) _ n(3), where vget = "\<lambda>n. Inr (pair_file n)",
    OF _ _ _ _ _ pair_lookups(1,4) [folded u(1) [of ?core]] pair_args_def [of 2 "[0x61]"] _ _ _ _ _ p]
  obtain s' ess' fss' where "ext2_rename pair_renv (pair_args 2 [0x61]) (pair_state ?core) = Ret (0, s')"
    "dir_content direct_dir True (rs_ump s') (rs_core s' 2) (\<lambda>k. 12) fss'" "dir_map fss' = (dir_map [typed_dents 2])([0x61] \<mapsto> 13)"
    "dir_content direct_dir True (rs_ump s') (rs_core s' 0) (\<lambda>k. 10) ess'" "dir_map ess' = (dir_map [pair_dents])([0x61] := None)"
    using th by (simp add: n pair_names u k k(2) [simplified] del: fun_upd_apply) blast
  then show ?thesis using pair_names(4) by (intro exI [of _ s'] exI [of _ ess'] exI [of _ fss']) simp
qed
end
