(* ===== verification/Ext2_InodeSet.thy ===== *)
theory Ext2_InodeSet
  imports Ext2_Ialloc Ext2_BlockProps
begin

text \<open>
  Correctness of the inode allocator: \<^verbatim>\<open>ext2_nodealloccg\<close> is a group allocator in the sense of the
  block allocator's locale, so \<^verbatim>\<open>ext2_hashalloc\<close> gives up only when no group has a free inode;
  \<^verbatim>\<open>ext2_valloc\<close>'s choice and \<^verbatim>\<open>ext2_vfree\<close> insert into and delete from the set of allocated inode
  numbers, and both leave the block allocator's invariant alone. \<^verbatim>\<open>ext2_dirpref\<close> always names a group
  of the volume.
\<close>

section \<open>The set of allocated inodes\<close>

definition n_inodes :: "m_ext2fs \<Rightarrow> nat" where
  "n_inodes fs = length (e2fs_gd fs) * ipg_of fs"

definition ino_set :: "ext2mount \<Rightarrow> nat set" where
  "ino_set ump = {n. 1 \<le> n \<and> n \<le> n_inodes (um_e2fs ump) \<and>
     used (i_bitmap ump ((n - 1) div ipg_of (um_e2fs ump))) ((n - 1) mod ipg_of (um_e2fs ump))}"

lemma n_inodes_imark [simp]: "n_inodes (imark_fs d mode fs cg) = n_inodes fs"
  by (simp add: n_inodes_def)

lemma ino_group: "1 \<le> n \<Longrightarrow> n \<le> n_inodes fs \<Longrightarrow> (n - 1) div ipg_of fs < length (e2fs_gd fs)"
  by (simp add: n_inodes_def less_mult_imp_div_less)

lemma ino_coords:
  assumes "1 \<le> n" "i < ipg_of fs"
  shows "(n - 1) div ipg_of fs = cg \<and> (n - 1) mod ipg_of fs = i \<longleftrightarrow> n = cg * ipg_of fs + i + 1"
proof
  assume "(n - 1) div ipg_of fs = cg \<and> (n - 1) mod ipg_of fs = i"
  then have "n - 1 = cg * ipg_of fs + i" by (metis div_mult_mod_eq)
  then show "n = cg * ipg_of fs + i + 1" using assms(1) by linarith
next
  assume "n = cg * ipg_of fs + i + 1"
  then show "(n - 1) div ipg_of fs = cg \<and> (n - 1) mod ipg_of fs = i" using assms(2) by simp
qed

lemma ino_in_range: "cg < length (e2fs_gd fs) \<Longrightarrow> i < ipg_of fs \<Longrightarrow> cg * ipg_of fs + i + 1 \<le> n_inodes fs"
proof -
  assume a: "cg < length (e2fs_gd fs)" "i < ipg_of fs"
  then have "Suc cg * ipg_of fs \<le> length (e2fs_gd fs) * ipg_of fs" by (intro mult_le_mono1) simp
  with a show ?thesis by (simp add: n_inodes_def)
qed

lemma ino_set_bit:
  assumes "cg < length (e2fs_gd (um_e2fs ump))" "i < ipg_of (um_e2fs ump)"
  shows "cg * ipg_of (um_e2fs ump) + i + 1 \<in> ino_set ump \<longleftrightarrow> used (i_bitmap ump cg) i"
  using ino_in_range [OF assms] assms(2) by (simp add: ino_set_def)

lemma ino_set_imark:
  assumes "igeom_ok (um_e2fs ump)" "cg < length (e2fs_gd (um_e2fs ump))" "i < ipg_of (um_e2fs ump)"
    and "\<And>j. j \<noteq> i \<Longrightarrow> used bm j = used (i_bitmap ump cg) j"
  shows "n \<in> ino_set (imark_ump d mode ump cg bm) \<longleftrightarrow>
     (if n = cg * ipg_of (um_e2fs ump) + i + 1 then used bm i else n \<in> ino_set ump)"
proof (cases "1 \<le> n \<and> n \<le> n_inodes (um_e2fs ump)")
  case True
  let ?n = "ipg_of (um_e2fs ump)"
  have fs': "um_e2fs (imark_ump d mode ump cg bm) = imark_fs d mode (um_e2fs ump) cg" by (simp add: imark_ump_def)
  have "n \<in> ino_set (imark_ump d mode ump cg bm) \<longleftrightarrow>
     used (if (n - 1) div ?n = cg then bm else i_bitmap ump ((n - 1) div ?n)) ((n - 1) mod ?n)"
    using i_bitmap_imark [OF assms(1,2) ino_group] True by (simp add: ino_set_def fs')
  then show ?thesis
    using ino_coords [OF _ assms(3), of n cg] True assms(4) by (auto simp: ino_set_def)
next
  case False
  moreover have "um_e2fs (imark_ump d mode ump cg bm) = imark_fs d mode (um_e2fs ump) cg" by (simp add: imark_ump_def)
  ultimately show ?thesis using ino_in_range [OF assms(2,3)] by (auto simp: ino_set_def)
qed

lemma blocks_ok_imark:
  assumes ok: "blocks_ok ump" and cg: "cg < length (e2fs_gd (um_e2fs ump))"
  shows "blocks_ok (imark_ump d mode ump cg bm)" and "block_set (imark_ump d mode ump cg bm) = block_set ump"
proof -
  let ?fs = "um_e2fs ump" and ?u = "imark_ump d mode ump cg bm"
  have fs': "um_e2fs ?u = imark_fs d mode ?fs cg" by (simp add: imark_ump_def)
  have g: "geom_ok ?fs" using ok by (simp add: blocks_ok_def Let_def)
  have same: "fpg_of (imark_fs d mode ?fs cg) = fpg_of ?fs" "first_of (imark_fs d mode ?fs cg) = first_of ?fs"
    "e2fs_bcount (e2fs (imark_fs d mode ?fs cg)) = e2fs_bcount (e2fs ?fs)"
    "e2fs_fbcount (e2fs (imark_fs d mode ?fs cg)) = e2fs_fbcount (e2fs ?fs)"
    by (simp_all add: imark_fs_def fpg_of_def first_of_def)
  have g': "geom_ok (imark_fs d mode ?fs cg)"
  proof -
    have "clus_ok (imark_fs d mode ?fs cg) = clus_ok ?fs" "m_e2fs_bpg (imark_fs d mode ?fs cg) = m_e2fs_bpg ?fs"
      "e2fs_gcount (imark_fs d mode ?fs cg) = e2fs_gcount ?fs" "e2fs_fpg (e2fs (imark_fs d mode ?fs cg)) = e2fs_fpg (e2fs ?fs)"
      by (simp_all add: clus_ok_def imark_fs_def)
    then show ?thesis using g unfolding geom_ok_def by (simp only: same imark_fs_gd)
  qed
  have ne: "b_addr ?fs k \<noteq> i_addr ?fs cg" if k: "k < length (e2fs_gd ?fs)" for k
  proof
    assume "b_addr ?fs k = i_addr ?fs cg"
    then have "ext2bgd_b_bitmap (e2fs_gd ?fs ! k) = ext2bgd_i_bitmap (e2fs_gd ?fs ! cg)"
      by (simp add: b_addr_def i_addr_def fsbtodb_def push_bit_eq_mult word_uint_eq_iff)
    moreover have "set (map ext2bgd_b_bitmap (e2fs_gd ?fs)) \<inter> set (map ext2bgd_i_bitmap (e2fs_gd ?fs)) = {}"
      using g unfolding geom_ok_def distinct_append by blast
    ultimately show False using nth_mem [OF k] nth_mem [OF cg] by (metis disjoint_iff imageI list.set_map)
  qed
  have addr: "b_addr (imark_fs d mode ?fs cg) k = b_addr ?fs k" if "k < length (e2fs_gd ?fs)" for k
    using that by (cases "k = cg") (simp_all add: imark_fs_def b_addr_def fsbtodb_def)
  have bm: "b_bitmap ?u k = b_bitmap ump k" if "k < length (e2fs_gd ?fs)" for k
    using that ne addr by (simp add: b_bitmap_def imark_ump_def)
  have nb: "ext2bgd_nbfree (e2fs_gd (imark_fs d mode ?fs cg) ! k) = ext2bgd_nbfree (e2fs_gd ?fs ! k)"
    if "k < length (e2fs_gd ?fs)" for k
    using that by (cases "k = cg") (simp_all add: imark_fs_def)
  then have sum: "map (\<lambda>g. unat (ext2bgd_nbfree g)) (e2fs_gd (imark_fs d mode ?fs cg)) = map (\<lambda>g. unat (ext2bgd_nbfree g)) (e2fs_gd ?fs)"
    by (intro nth_equalityI) auto
  have "0 < length (e2fs_gd ?fs)" using cg by linarith
  then show "blocks_ok ?u"
    using ok g' bm nb bm [of 0] by (simp add: blocks_ok_def bgroup_ok_def Let_def fs' same sum)
  have "vol_blocks (imark_fs d mode ?fs cg) = vol_blocks ?fs" by (simp add: vol_blocks_def same)
  then show "block_set ?u = block_set ump"
    using bm vol_blocks_group by (auto simp: block_set_def allocated_def Let_def fs' same)
qed

section \<open>\<^verbatim>\<open>ext2_nodealloccg\<close> as a group allocator\<close>

definition inode_inv :: "ext2mount \<Rightarrow> bool" where
  "inode_inv ump \<longleftrightarrow> inodes_ok ump \<and> um_lock ump"

definition inode_avail :: "ext2mount \<Rightarrow> nat \<Rightarrow> bool" where
  "inode_avail ump cg \<longleftrightarrow> ext2bgd_nifree (e2fs_gd (um_e2fs ump) ! cg) \<noteq> 0 \<and>
     dev_rerr (um_devvp ump) (i_addr (um_e2fs ump) cg) = 0"

text \<open>What taking an inode leaves alone: all blocks but the bitmaps of inodes, and all of the mount but the counters.\<close>

definition ibitmap_addrs :: "m_ext2fs \<Rightarrow> int set" where
  "ibitmap_addrs fs = i_addr fs ` {..<length (e2fs_gd fs)}"

definition istatic_fs :: "m_ext2fs \<Rightarrow> m_ext2fs" where
  "istatic_fs fs = fs\<lparr>e2fs := (e2fs fs)\<lparr>e2fs_ficount := 0\<rparr>, e2fs_gd := map (\<lambda>g. g\<lparr>ext2bgd_nifree := 0, ext2bgd_ndirs := 0\<rparr>) (e2fs_gd fs),
     e2fs_fmod := 0, e2fs_total_dir := 0, e2fs_contigdirs := []\<rparr>"

definition isame_vol :: "ext2mount \<Rightarrow> ext2mount \<Rightarrow> bool" where
  "isame_vol u u' \<longleftrightarrow> dev_rerr (um_devvp u') = dev_rerr (um_devvp u) \<and> dev_werr (um_devvp u') = dev_werr (um_devvp u) \<and>
     dev_nobuf (um_devvp u') = dev_nobuf (um_devvp u) \<and>
     (\<forall>a. a \<notin> ibitmap_addrs (um_e2fs u) \<longrightarrow> dev_blk (um_devvp u') a = dev_blk (um_devvp u) a) \<and>
     istatic_fs (um_e2fs u') = istatic_fs (um_e2fs u) \<and> um_nindir u' = um_nindir u \<and> um_bptrtodb u' = um_bptrtodb u \<and> um_seqinc u' = um_seqinc u"

lemma isame_imark:
  assumes "cg < length (e2fs_gd (um_e2fs ump))"
  shows "isame_vol ump (imark_ump d mode ump cg bm)"
proof -
  let ?z = "\<lambda>g. g\<lparr>ext2bgd_nifree := 0, ext2bgd_ndirs := 0\<rparr>"
  have "(map ?z (e2fs_gd (um_e2fs ump)))[cg := ?z (e2fs_gd (um_e2fs ump) ! cg)] = map ?z (e2fs_gd (um_e2fs ump))"
    using assms by (simp add: list_update_same_conv)
  then have "istatic_fs (imark_fs d mode (um_e2fs ump) cg) = istatic_fs (um_e2fs ump)"
    by (simp add: istatic_fs_def imark_fs_def map_update)
  moreover have "i_addr (um_e2fs ump) cg \<in> ibitmap_addrs (um_e2fs ump)" using assms by (simp add: ibitmap_addrs_def)
  ultimately show ?thesis by (auto simp: isame_vol_def imark_ump_def buf_bdwrite_def)
qed

text \<open>One inode \<open>r\<close>, free before, has been taken; blocks are as they were; the lock is released.\<close>

definition took_inode :: "ext2mount \<Rightarrow> int \<Rightarrow> ext2mount \<Rightarrow> bool" where
  "took_inode ump r ump' \<longleftrightarrow> (\<exists>n. r = int n \<and> 1 \<le> n \<and> n \<le> n_inodes (um_e2fs ump) \<and> n \<notin> ino_set ump \<and>
     ino_set ump' = insert n (ino_set ump) \<and> n_inodes (um_e2fs ump') = n_inodes (um_e2fs ump) \<and>
     e2fs_ficount (e2fs (um_e2fs ump')) = e2fs_ficount (e2fs (um_e2fs ump)) - 1 \<and>
     inodes_ok ump' \<and> \<not> um_lock ump' \<and> isame_vol ump ump' \<and> (blocks_ok ump \<longrightarrow> blocks_ok ump' \<and> block_set ump' = block_set ump))"

lemma took_inode_imark:
  assumes ok: "inodes_ok ump" and cg: "cg < length (e2fs_gd (um_e2fs ump))"
    and i: "i < ipg_of (um_e2fs ump)" "\<not> used (i_bitmap ump cg) i"
    and bm: "setbit (i_bitmap ump cg) (int i) = Ret bm"
  shows "took_inode ump (int (cg * ipg_of (um_e2fs ump) + i + 1)) (imark_ump (- 1) mode ump cg bm)"
proof -
  let ?n = "cg * ipg_of (um_e2fs ump) + i + 1" and ?u = "imark_ump (- 1) mode ump cg bm"
  have g: "igeom_ok (um_e2fs ump)" using ok by (simp add: inodes_ok_def)
  have "used bm j = used (i_bitmap ump cg) j" if "j \<noteq> i" for j using bm that by (simp add: setbit_used)
  note m = ino_set_imark [OF g cg i(1) this]
  have "used bm i" using bm by (simp add: setbit_used)
  then have "n \<in> ino_set ?u \<longleftrightarrow> n = ?n \<or> n \<in> ino_set ump" for n
    using m [where n = n and d = "- 1" and mode = mode] by simp
  then have "ino_set ?u = insert ?n (ino_set ump)" by blast
  moreover have "?n \<notin> ino_set ump" using ino_set_bit [OF cg i(1)] i(2) by simp
  ultimately show ?thesis
    unfolding took_inode_def
    using inodes_ok_take [OF ok cg i bm, of mode] isame_imark [OF cg] ino_in_range [OF cg i(1)] blocks_ok_imark [OF _ cg, of "- 1" mode bm]
    by (intro exI [of _ ?n] conjI impI) (simp_all add: imark_ump_def, simp_all add: imark_fs_def)
qed

lemma ext2_nodealloccg_full:
  assumes "um_lock ump" "cg < length (e2fs_gd (um_e2fs ump))"
    and "ext2bgd_nifree (e2fs_gd (um_e2fs ump) ! cg) = 0 \<or> dev_rerr (um_devvp ump) (i_addr (um_e2fs ump) cg) \<noteq> 0"
  shows "ext2_nodealloccg (int cg) ipref mode ump = Ret (0, ump)"
  using assms
  by (auto simp: ext2_nodealloccg_def Let_def EXT2_GD_in EXT2_UNLOCK_held EXT2_LOCK_free buf_meta_bread_def i_addr_def)

lemma nodealloccg_number:
  assumes "igeom_ok fs" "cg < length (e2fs_gd fs)"
  shows "uint (word_of_int (int cg) * e2fs_ipg (e2fs fs)) = int (cg * ipg_of fs)"
proof -
  have "Suc cg * ipg_of fs \<le> length (e2fs_gd fs) * ipg_of fs" using assms(2) by (intro mult_le_mono1) simp
  then have b: "cg * ipg_of fs < 2 ^ 31" using assms(1) by (simp add: igeom_ok_def)
  have "word_of_int (int cg) * e2fs_ipg (e2fs fs) = (word_of_nat (cg * ipg_of fs) :: u32)" by (simp add: ipg_of_def)
  then have "unat (word_of_int (int cg) * e2fs_ipg (e2fs fs)) = cg * ipg_of fs"
    using b by (simp add: unat_of_nat del: of_nat_mult)
  then show ?thesis by (metis uint_nat)
qed

lemma ext2_nodealloccg_takes:
  assumes ok: "inodes_ok ump" "um_lock ump" and cg: "cg < length (e2fs_gd (um_e2fs ump))" and "0 \<le> ipref"
    and nb: "ext2bgd_nifree (e2fs_gd (um_e2fs ump) ! cg) \<noteq> 0"
    and rd: "dev_rerr (um_devvp ump) (i_addr (um_e2fs ump) cg) = 0"
  obtains i bm where "i < ipg_of (um_e2fs ump)" "\<not> used (i_bitmap ump cg) i"
    "setbit (i_bitmap ump cg) (int i) = Ret bm"
    "ext2_nodealloccg (int cg) ipref mode ump =
       Ret (int (cg * ipg_of (um_e2fs ump) + i + 1), imark_ump (- 1) mode ump cg bm)"
proof -
  let ?fs = "um_e2fs ump" and ?bm = "i_bitmap ump cg"
  define p where "p = (if ipref - 1 = - 1 then 0 else ipref - 1)"
  have g: "igeom_ok ?fs" and grp: "igroup_ok ump cg" using ok cg by (auto simp: inodes_ok_def)
  then have len: "ipg_of ?fs \<le> 8 * length ?bm" and eq: "unat (ext2bgd_nifree (e2fs_gd ?fs ! cg)) = nfree ?bm (ipg_of ?fs)"
    by (auto simp: igroup_ok_def)
  then have "nfree ?bm (ipg_of ?fs) \<noteq> 0" using nb by (metis unat_eq_zero)
  then obtain j where j: "j < ipg_of ?fs" "\<not> used ?bm j" by (auto simp: nfree_0_iff)
  define m where "m = ipg_of ?fs div 8"
  have m: "ipg_of ?fs = 8 * m" "0 < m" "m < 2 ^ 13" "m \<le> length ?bm" using g len by (auto simp: m_def igeom_ok_def)
  have "0 \<le> p" using assms(4) by (simp add: p_def)
  from nodealloc_search_finds [OF m(1) [unfolded ipg_of_def] m(2-4) this j(1) [unfolded m(1)] j(2)] obtain r where
    r: "nodealloc_search (e2fs_ipg (e2fs ?fs)) ?bm p = Ret r" "0 \<le> r" "r < int (ipg_of ?fs)" "\<not> used ?bm (nat r)"
    unfolding m(1) by blast
  define i where "i = nat r"
  have i: "r = int i" "i < ipg_of ?fs" "\<not> used ?bm i" using r by (auto simp: i_def)
  have read: "buf_meta_bread (um_devvp ump) (i_addr ?fs cg) = Inr ?bm"
    using rd by (simp add: buf_meta_bread_def i_bitmap_def)
  obtain bm where bm: "setbit ?bm (int i) = Ret bm" using i len by (simp add: setbit_Ret)
  have "ext2_nodealloccg (int cg) ipref mode ump =
     Ret (uint (word_of_int (int cg) * e2fs_ipg (e2fs ?fs)) + int i + 1, imark_ump (- 1) mode ump cg bm)"
    unfolding ext2_nodealloccg_def Let_def p_def [symmetric]
    by (simp add: EXT2_GD_in [OF cg] nb EXT2_UNLOCK_held [OF ok(2)] i_addr_def [symmetric] read r(1) [unfolded i(1)] bm
        EXT2_LOCK_free EXT2_UNLOCK_held count_inode_eq [OF cg] imark_ump_def del: bnd_Ret_iff)
  then show ?thesis using that [OF i(2,3) bm] nodealloccg_number [OF g cg] by simp
qed

interpretation nodealloccg: group_allocator ext2_nodealloccg inode_inv "\<lambda>ump. length (e2fs_gd (um_e2fs ump))"
  inode_avail "\<lambda>ump p. 0 \<le> p" "\<lambda>ump k. took_inode ump"
proof (unfold_locales, goal_cases)
  case (2 ump k p sz)
  then show ?case by (intro ext2_nodealloccg_full) (auto simp: inode_inv_def inode_avail_def)
next
  case (3 ump k p sz)
  then have ok: "inodes_ok ump" "um_lock ump" and "ext2bgd_nifree (e2fs_gd (um_e2fs ump) ! k) \<noteq> 0"
    "dev_rerr (um_devvp ump) (i_addr (um_e2fs ump) k) = 0" by (auto simp: inode_inv_def inode_avail_def)
  with 3 obtain i bm where i: "i < ipg_of (um_e2fs ump)" "\<not> used (i_bitmap ump k) i"
    "setbit (i_bitmap ump k) (int i) = Ret bm"
    and eq: "ext2_nodealloccg (int k) p sz ump = Ret (int (k * ipg_of (um_e2fs ump) + i + 1), imark_ump (- 1) sz ump k bm)"
    by (elim ext2_nodealloccg_takes) auto
  have "int (k * ipg_of (um_e2fs ump) + i + 1) \<noteq> 0" unfolding of_nat_eq_0_iff by simp
  with eq took_inode_imark [OF ok(1) 3(2) i, of sz] show ?case by blast
qed simp

section \<open>\<^verbatim>\<open>ext2_dirpref\<close> names a group of the volume\<close>

lemma first_cg_range:
  assumes "\<And>k. cg \<le> k \<Longrightarrow> k < e \<Longrightarrow> \<exists>b. p k = Ret b"
  shows "\<exists>a. first_cg p cg e = Ret a \<and> (\<forall>k. a = Some k \<longrightarrow> cg \<le> k \<and> k < e \<and> p k = Ret True) \<and>
     (a = None \<longrightarrow> (\<forall>k. cg \<le> k \<and> k < e \<longrightarrow> p k = Ret False))"
  using assms
proof (induction p cg e rule: first_cg.induct)
  case (1 p cg e)
  show ?case
  proof (cases "cg < e")
    case True
    then obtain b where b: "p cg = Ret b" using 1(2) [of cg] by auto
    show ?thesis
    proof (cases b)
      case t: True
      then show ?thesis using b True by (subst first_cg.simps) auto
    next
      case f: False
      obtain a where a: "first_cg p (cg + 1) e = Ret a" "\<forall>k. a = Some k \<longrightarrow> cg + 1 \<le> k \<and> k < e \<and> p k = Ret True"
        "a = None \<longrightarrow> (\<forall>k. cg + 1 \<le> k \<and> k < e \<longrightarrow> p k = Ret False)"
        using 1(1) [OF True b f] 1(2) by fastforce
      have "p k = Ret False" if "a = None" "cg \<le> k" "k < e" for k
        using a(3) that b f by (cases "k = cg") auto
      then show ?thesis using a b f True by (subst first_cg.simps) fastforce
    qed
  next
    case False
    then show ?thesis by (subst first_cg.simps) auto
  qed
qed

text \<open>The root's choice: a group passes with the average of free inodes and of free blocks, and it is a candidate when it has fewer directories than inodes.\<close>

definition group_dirs :: "m_ext2fs \<Rightarrow> nat \<Rightarrow> u32" where
  "group_dirs fs k = ucast (ext2bgd_ndirs (e2fs_gd fs ! k))"

definition group_passes :: "m_ext2fs \<Rightarrow> u32 \<Rightarrow> u32 \<Rightarrow> nat \<Rightarrow> bool" where
  "group_passes fs ai ab k \<longleftrightarrow> ai \<le> ucast (ext2bgd_nifree (e2fs_gd fs ! k)) \<and> ab \<le> ucast (ext2bgd_nbfree (e2fs_gd fs ! k))"

definition root_candidate :: "m_ext2fs \<Rightarrow> nat \<Rightarrow> bool" where
  "root_candidate fs k \<longleftrightarrow> k < length (e2fs_gd fs) \<and> group_dirs fs k < m_e2fs_ipg fs \<and>
     group_passes fs (e2fs_ficount (e2fs fs) div e2fs_gcount fs) (e2fs_fbcount (e2fs fs) div e2fs_gcount fs) k"

lemma fewest_dirs_least:
  assumes "0 \<le> cg" "e \<le> int (length (e2fs_gd fs))" "0 \<le> mincg" "mincg < int (length (e2fs_gd fs))"
  shows "\<exists>m n. fewest_dirs fs ai ab cg e mincg minndir = Ret (m, n) \<and> 0 \<le> m \<and> m < int (length (e2fs_gd fs)) \<and> n \<le> minndir \<and>
     (\<forall>k. cg \<le> int k \<and> int k < e \<and> group_passes fs ai ab k \<longrightarrow> n \<le> group_dirs fs k) \<and>
     (m = mincg \<and> n = minndir \<or> group_passes fs ai ab (nat m) \<and> group_dirs fs (nat m) = n \<and> n < minndir)"
  using assms
proof (induction fs ai ab cg e mincg minndir rule: fewest_dirs.induct)
  case (1 fs ai ab cg e mincg minndir)
  show ?case
  proof (cases "cg < e")
    case True
    let ?g = "e2fs_gd fs ! nat cg"
    have gd: "EXT2_GD fs cg = Ret ?g" using True 1(3,4) by (simp add: EXT2_GD_def rd_in)
    let ?better = "ucast (ext2bgd_ndirs ?g) < minndir \<and> ucast (ext2bgd_nifree ?g) \<ge> ai \<and> ucast (ext2bgd_nbfree ?g) \<ge> ab"
    have split: "cg \<le> int k \<longleftrightarrow> k = nat cg \<or> cg + 1 \<le> int k" for k using 1(3) by linarith
    have nx: "0 \<le> cg + 1" "cg < int (length (e2fs_gd fs))" using True 1(3,4) by simp_all
    show ?thesis
    proof (cases ?better)
      case b: True
      have gb: "group_dirs fs (nat cg) < minndir" "group_passes fs ai ab (nat cg)" using b by (simp_all add: group_dirs_def group_passes_def)
      obtain m n where r: "fewest_dirs fs ai ab (cg + 1) e cg (group_dirs fs (nat cg)) = Ret (m, n)" "0 \<le> m" "m < int (length (e2fs_gd fs))"
        "n \<le> group_dirs fs (nat cg)" "\<forall>k. cg + 1 \<le> int k \<and> int k < e \<and> group_passes fs ai ab k \<longrightarrow> n \<le> group_dirs fs k"
        "m = cg \<and> n = group_dirs fs (nat cg) \<or> group_passes fs ai ab (nat m) \<and> group_dirs fs (nat m) = n \<and> n < group_dirs fs (nat cg)"
        using 1(1) [OF True gd b nx(1) 1(4) 1(3) nx(2)] unfolding group_dirs_def by blast
      have "fewest_dirs fs ai ab cg e mincg minndir = Ret (m, n)"
        using True gd b r(1) by (subst fewest_dirs.simps) (simp add: group_dirs_def del: EXT2_GD_Ret)
      moreover have "n \<le> minndir" "m = cg \<longrightarrow> n < minndir" "n < group_dirs fs (nat cg) \<longrightarrow> n < minndir" using r(4) gb(1) by auto
      ultimately show ?thesis using r gb split by (intro exI [of _ m] exI [of _ n]) auto
    next
      case b: False
      obtain m n where r: "fewest_dirs fs ai ab (cg + 1) e mincg minndir = Ret (m, n)" "0 \<le> m" "m < int (length (e2fs_gd fs))"
        "n \<le> minndir" "\<forall>k. cg + 1 \<le> int k \<and> int k < e \<and> group_passes fs ai ab k \<longrightarrow> n \<le> group_dirs fs k"
        "m = mincg \<and> n = minndir \<or> group_passes fs ai ab (nat m) \<and> group_dirs fs (nat m) = n \<and> n < minndir"
        using 1(2) [OF True gd b nx(1) 1(4) 1(5,6)] by blast
      have "fewest_dirs fs ai ab cg e mincg minndir = Ret (m, n)"
        by (subst fewest_dirs.simps) (simp only: True gd if_not_P [OF b] bnd.simps if_True r(1))
      moreover have "group_passes fs ai ab (nat cg) \<longrightarrow> n \<le> group_dirs fs (nat cg)"
        using b r(4) by (auto simp: group_passes_def group_dirs_def not_less)
      ultimately show ?thesis using r split by (intro exI [of _ m] exI [of _ n]) auto
    qed
  next
    case False
    then show ?thesis using 1(5,6) by (subst fewest_dirs.simps) auto
  qed
qed

lemma dirpref_fits_total:
  assumes "length (e2fs_contigdirs fs) = length (e2fs_gd fs)" "0 \<le> k" "k < int (length (e2fs_gd fs))"
  shows "\<exists>b. dirpref_fits fs lims k = Ret b" and "\<exists>b. dirpref_backstop fs a k = Ret b"
  using assms by (auto simp: dirpref_fits_def dirpref_backstop_def EXT2_GD_def rd_in split: prod.splits)

lemma igeom_gcount:
  assumes "igeom_ok fs"
  shows "e2fs_gcount fs \<noteq> 0" "sint (e2fs_gcount fs) = int (length (e2fs_gd fs))" "length (e2fs_gd fs) < 2 ^ 31"
proof -
  have "length (e2fs_gd fs) * 1 \<le> length (e2fs_gd fs) * ipg_of fs"
    using assms by (intro mult_le_mono2) (auto simp: igeom_ok_def)
  then show l: "length (e2fs_gd fs) < 2 ^ 31" using assms unfolding igeom_ok_def by linarith
  show "e2fs_gcount fs \<noteq> 0" using assms by (auto simp: igeom_ok_def)
  have "unat (e2fs_gcount fs) = length (e2fs_gd fs)" using assms by (simp add: igeom_ok_def)
  then show "sint (e2fs_gcount fs) = int (length (e2fs_gd fs))" using l sint_unat_small [of "e2fs_gcount fs"] by simp
qed

text \<open>The group found by the four loops in turn, from the parent's group \<open>c\<close> around the volume.\<close>

lemma dirpref_loops:
  assumes c: "c < n" and f: "\<And>k. 0 \<le> k \<Longrightarrow> k < int n \<Longrightarrow> \<exists>b. f k = Ret b" and g: "\<And>k. 0 \<le> k \<Longrightarrow> k < int n \<Longrightarrow> \<exists>b. g k = Ret b"
  shows "\<exists>k. bnd (first_cg f (int c) (int n)) (\<lambda>a. case a of Some cg \<Rightarrow> Ret cg | None \<Rightarrow>
       bnd (first_cg f 0 (int c)) (\<lambda>a. case a of Some cg \<Rightarrow> Ret cg | None \<Rightarrow>
       bnd (first_cg g (int c) (int n)) (\<lambda>a. case a of Some cg \<Rightarrow> Ret cg | None \<Rightarrow>
       bnd (first_cg g 0 (int c)) (\<lambda>a. case a of Some cg \<Rightarrow> Ret cg | None \<Rightarrow> Ret (max 0 (int c)))))) = Ret k \<and>
     0 \<le> k \<and> k < int n \<and> (f k = Ret True \<or> g k = Ret True \<or> (\<forall>j. 0 \<le> j \<and> j < int n \<longrightarrow> g j = Ret False))"
proof -
  obtain a1 where a1: "first_cg f (int c) (int n) = Ret a1"
    "\<forall>k. a1 = Some k \<longrightarrow> int c \<le> k \<and> k < int n \<and> f k = Ret True"
    using first_cg_range [of "int c" "int n" f] f by auto
  obtain a2 where a2: "first_cg f 0 (int c) = Ret a2" "\<forall>k. a2 = Some k \<longrightarrow> 0 \<le> k \<and> k < int c \<and> f k = Ret True"
    using first_cg_range [of 0 "int c" f] f c by auto
  obtain a3 where a3: "first_cg g (int c) (int n) = Ret a3"
    "\<forall>k. a3 = Some k \<longrightarrow> int c \<le> k \<and> k < int n \<and> g k = Ret True" "a3 = None \<longrightarrow> (\<forall>k. int c \<le> k \<and> k < int n \<longrightarrow> g k = Ret False)"
    using first_cg_range [of "int c" "int n" g] g by auto
  obtain a4 where a4: "first_cg g 0 (int c) = Ret a4" "\<forall>k. a4 = Some k \<longrightarrow> 0 \<le> k \<and> k < int c \<and> g k = Ret True"
    "a4 = None \<longrightarrow> (\<forall>k. 0 \<le> k \<and> k < int c \<longrightarrow> g k = Ret False)"
    using first_cg_range [of 0 "int c" g] g c by auto
  have "\<forall>j. 0 \<le> j \<and> j < int n \<longrightarrow> g j = Ret False" if "a3 = None" "a4 = None"
    using a3(3) a4(3) that by (metis not_le)
  then show ?thesis using a1 a2 a3(1,2) a4(1,2) c by (cases a1; cases a2; cases a3; cases a4) auto
qed

lemma minifree_pos: "dirpref_limits fs ai ab an = (a, mi, b, c) \<Longrightarrow> 1 \<le> mi"
proof -
  assume "dirpref_limits fs ai ab an = (a, mi, b, c)"
  then have "mi = (if ai - ai div 4 < 1 then 1 else ai - ai div 4)"
    unfolding dirpref_limits_def Let_def by (simp only: prod.inject)
  then show ?thesis by (cases "ai - ai div 4 < 1") (simp_all only: if_True if_False not_less order_refl)
qed

lemma unat_ucast_16_32 [simp]: "unat (ucast w :: u32) = unat w" for w :: u16
  by transfer (simp add: take_bit_nat_eq_self_iff nat_take_bit_eq)

text \<open>Some group has at least the average number of free inodes.\<close>

lemma average_reached:
  assumes "inodes_ok ump"
  shows "\<exists>k < length (e2fs_gd (um_e2fs ump)). e2fs_ficount (e2fs (um_e2fs ump)) div e2fs_gcount (um_e2fs ump) \<le>
     (ucast (ext2bgd_nifree (e2fs_gd (um_e2fs ump) ! k)) :: u32)"
proof (rule ccontr)
  let ?fs = "um_e2fs ump"
  let ?avg = "e2fs_ficount (e2fs ?fs) div e2fs_gcount ?fs"
  assume neg: "\<not> ?thesis"
  have g: "igeom_ok ?fs" and tot: "unat (e2fs_ficount (e2fs ?fs)) = sum_list (map (\<lambda>g. unat (ext2bgd_nifree g)) (e2fs_gd ?fs))"
    using assms by (auto simp: inodes_ok_def)
  have lt: "unat (ext2bgd_nifree x) < unat ?avg" if x: "x \<in> set (e2fs_gd ?fs)" for x
  proof -
    obtain k where "k < length (e2fs_gd ?fs)" "x = e2fs_gd ?fs ! k" using x by (auto simp: in_set_conv_nth)
    then have "(ucast (ext2bgd_nifree x) :: u32) < ?avg" using neg by (auto simp: not_le)
    then show ?thesis by (simp add: word_less_nat_alt)
  qed
  have "0 < length (e2fs_gd ?fs)" "unat (e2fs_gcount ?fs) = length (e2fs_gd ?fs)" using g by (auto simp: igeom_ok_def)
  moreover have "sum_list (map (\<lambda>g. unat (ext2bgd_nifree g)) gs) < length gs * unat ?avg"
    if "gs \<noteq> []" "\<And>x. x \<in> set gs \<Longrightarrow> unat (ext2bgd_nifree x) < unat ?avg" for gs
    using that
  proof (induction gs)
    case (Cons x gs)
    then show ?case by (cases "gs = []") (auto intro: add_less_mono)
  qed simp
  ultimately have "unat (e2fs_ficount (e2fs ?fs)) < unat (e2fs_gcount ?fs) * unat ?avg" using lt tot by auto
  then show False unfolding unat_div using times_div_less_eq_dividend by (metis not_le)
qed

lemma dirpref_spec:
  assumes ok: "inodes_ok ump" and len: "length (e2fs_contigdirs (um_e2fs ump)) = length (e2fs_gd (um_e2fs ump))"
    and home: "isroot \<or> home_ok (um_e2fs ump) (i_number pip)"
  shows "\<exists>cg < length (e2fs_gd (um_e2fs ump)). ext2_dirpref isroot r pip (um_e2fs ump) = Ret (int cg) \<and>
     (isroot \<longrightarrow> (if \<exists>k. root_candidate (um_e2fs ump) k
        then root_candidate (um_e2fs ump) cg \<and> (\<forall>k. root_candidate (um_e2fs ump) k \<longrightarrow> group_dirs (um_e2fs ump) cg \<le> group_dirs (um_e2fs ump) k)
        else cg = unat (r mod e2fs_gcount (um_e2fs ump)))) \<and>
     (e2fs_gcount (um_e2fs ump) \<le> e2fs_ficount (e2fs (um_e2fs ump)) \<and> (isroot \<longrightarrow> (\<exists>k. root_candidate (um_e2fs ump) k)) \<longrightarrow>
        ext2bgd_nifree (e2fs_gd (um_e2fs ump) ! cg) \<noteq> 0)"
proof -
  let ?fs = "um_e2fs ump" and ?n = "length (e2fs_gd (um_e2fs ump))"
  define ai ab an where "ai = e2fs_ficount (e2fs ?fs) div e2fs_gcount ?fs"
    and "ab = e2fs_fbcount (e2fs ?fs) div e2fs_gcount ?fs" and "an = e2fs_total_dir ?fs div e2fs_gcount ?fs"
  have g: "igeom_ok ?fs" using ok by (simp add: inodes_ok_def)
  note gc = igeom_gcount [OF g]
  have ug: "unat (e2fs_gcount ?fs) = ?n" using g by (simp add: igeom_ok_def)
  have ai1: "\<not> ai \<le> 0" if le: "e2fs_gcount ?fs \<le> e2fs_ficount (e2fs ?fs)"
  proof -
    have "1 \<le> unat ai" using le gc(1) g
      by (simp add: ai_def unat_div word_le_nat_alt ug igeom_ok_def div_greater_zero_iff Suc_le_eq)
    then show ?thesis by (auto simp: word_le_nat_alt)
  qed
  show ?thesis
  proof (cases isroot)
    case True
    have q: "unat (r mod e2fs_gcount ?fs) < ?n" using g ug by (simp add: unat_mod igeom_ok_def)
    then have p: "sint (r mod e2fs_gcount ?fs) = int (unat (r mod e2fs_gcount ?fs))"
      using gc(3) by (intro sint_unat_small) linarith
    define c where "c = int (unat (r mod e2fs_gcount ?fs))"
    have c: "0 \<le> c" "c < int ?n" "sint (r mod e2fs_gcount ?fs) = c" unfolding c_def using p q by linarith+
    obtain m nd where f1: "fewest_dirs ?fs ai ab c (int ?n) c (m_e2fs_ipg ?fs) = Ret (m, nd)" "0 \<le> m" "m < int ?n"
      "nd \<le> m_e2fs_ipg ?fs" "\<And>k. c \<le> int k \<Longrightarrow> int k < int ?n \<Longrightarrow> group_passes ?fs ai ab k \<Longrightarrow> nd \<le> group_dirs ?fs k"
      "m = c \<and> nd = m_e2fs_ipg ?fs \<or> group_passes ?fs ai ab (nat m) \<and> group_dirs ?fs (nat m) = nd \<and> nd < m_e2fs_ipg ?fs"
      using fewest_dirs_least [of c "int ?n" ?fs c ai ab "m_e2fs_ipg ?fs"] c by blast
    obtain m' nd' where f2: "fewest_dirs ?fs ai ab 0 c m nd = Ret (m', nd')" "0 \<le> m'" "m' < int ?n"
      "nd' \<le> nd" "\<And>k. int k < c \<Longrightarrow> group_passes ?fs ai ab k \<Longrightarrow> nd' \<le> group_dirs ?fs k"
      "m' = m \<and> nd' = nd \<or> group_passes ?fs ai ab (nat m') \<and> group_dirs ?fs (nat m') = nd' \<and> nd' < nd"
      using fewest_dirs_least [of 0 c ?fs m ai ab nd] c(1,2) f1(2,3) by fastforce
    have eq: "ext2_dirpref isroot r pip ?fs = Ret m'"
      using True f1(1) f2(1) gc c(3) by (simp add: ext2_dirpref_def Let_def ai_def ab_def)
    have cand: "root_candidate ?fs k \<longleftrightarrow> k < ?n \<and> group_dirs ?fs k < m_e2fs_ipg ?fs \<and> group_passes ?fs ai ab k" for k
      by (simp add: root_candidate_def ai_def ab_def)
    have least: "nd' \<le> group_dirs ?fs k" if "k < ?n" "group_passes ?fs ai ab k" for k
      using f1(5) [of k] f2(4) f2(5) [of k] that by (cases "int k < c") auto
    have res: "m' = c \<and> nd' = m_e2fs_ipg ?fs \<or> root_candidate ?fs (nat m') \<and> group_dirs ?fs (nat m') = nd'"
      using f1(2,3,4,6) f2(2,3,4,6) by (auto simp: cand nat_less_iff)
    have rt: "if \<exists>k. root_candidate ?fs k then root_candidate ?fs (nat m') \<and> (\<forall>k. root_candidate ?fs k \<longrightarrow> group_dirs ?fs (nat m') \<le> group_dirs ?fs k)
        else nat m' = unat (r mod e2fs_gcount ?fs)"
    proof (cases "\<exists>k. root_candidate ?fs k")
      case True
      then obtain k where "k < ?n" "group_passes ?fs ai ab k" "group_dirs ?fs k < m_e2fs_ipg ?fs" by (auto simp: cand)
      then have "nd' \<noteq> m_e2fs_ipg ?fs" using least [of k] by auto
      then show ?thesis using True res least by (auto simp: cand)
    next
      case False
      then have "m' = c" using res by blast
      then show ?thesis unfolding if_not_P [OF False] by (simp add: c_def)
    qed
    moreover have "ext2bgd_nifree (e2fs_gd ?fs ! nat m') \<noteq> 0" if "e2fs_gcount ?fs \<le> e2fs_ficount (e2fs ?fs)" "\<exists>k. root_candidate ?fs k"
      using rt ai1 [OF that(1)] that(2) by (auto simp: cand group_passes_def)
    ultimately show ?thesis using eq f2(2,3) True by (intro exI [of _ "nat m'"]) (simp add: nat_less_iff)
  next
    case False
    then have h: "m_e2fs_ipg ?fs \<noteq> 0" "unat ((i_number pip - 1) div m_e2fs_ipg ?fs) < ?n"
      using home by (auto simp: home_ok_def)
    define c where "c = unat ((i_number pip - 1) div m_e2fs_ipg ?fs)"
    have c: "ino_to_cg ?fs (i_number pip) = Ret (int c)" "c < ?n" using h by (simp_all add: ino_to_cg_def c_def)
    have s32: "s32 (int c) = int c" using c(2) gc(3) by (intro s32_small) auto
    let ?f = "dirpref_fits ?fs (dirpref_limits ?fs ai ab an)" and ?g = "dirpref_backstop ?fs ai"
    obtain k where k: "bnd (first_cg ?f (int c) (int ?n)) (\<lambda>a. case a of Some cg \<Rightarrow> Ret cg | None \<Rightarrow>
       bnd (first_cg ?f 0 (int c)) (\<lambda>a. case a of Some cg \<Rightarrow> Ret cg | None \<Rightarrow>
       bnd (first_cg ?g (int c) (int ?n)) (\<lambda>a. case a of Some cg \<Rightarrow> Ret cg | None \<Rightarrow>
       bnd (first_cg ?g 0 (int c)) (\<lambda>a. case a of Some cg \<Rightarrow> Ret cg | None \<Rightarrow> Ret (max 0 (int c)))))) = Ret k"
      and r: "0 \<le> k" "k < int ?n" and
      w: "?f k = Ret True \<or> ?g k = Ret True \<or> (\<forall>j. 0 \<le> j \<and> j < int ?n \<longrightarrow> ?g j = Ret False)"
      using dirpref_loops [OF c(2), of ?f ?g] dirpref_fits_total [OF len] by blast
    have eq: "ext2_dirpref isroot r pip ?fs = Ret k"
      unfolding ext2_dirpref_def ai_def [symmetric] ab_def [symmetric] an_def [symmetric] Let_def
      by (simp only: gc(1,2) False c(1) s32 if_False bnd.simps k)
    have gd: "EXT2_GD ?fs k = Ret (e2fs_gd ?fs ! nat k)" using r by (simp add: EXT2_GD_def rd_in)
    have "\<not> (\<forall>j. 0 \<le> j \<and> j < int ?n \<longrightarrow> ?g j = Ret False)"
    proof -
      obtain j where j: "j < ?n" "ai \<le> ucast (ext2bgd_nifree (e2fs_gd ?fs ! j))"
        using average_reached [OF ok] by (auto simp: ai_def)
      then have "?g (int j) = Ret True" by (simp add: dirpref_backstop_def EXT2_GD_in)
      then show ?thesis using j(1) by force
    qed
    then have w': "?f k = Ret True \<or> ?g k = Ret True" using w by blast
    have "ext2bgd_nifree (e2fs_gd ?fs ! nat k) \<noteq> 0" if le: "e2fs_gcount ?fs \<le> e2fs_ficount (e2fs ?fs)"
    proof
      assume z: "ext2bgd_nifree (e2fs_gd ?fs ! nat k) = 0"
      have "\<not> ai \<le> 0" by (rule ai1 [OF le])
      then have "?g k \<noteq> Ret True" using z gd by (simp add: dirpref_backstop_def del: EXT2_GD_Ret)
      moreover obtain a mi b m where l: "dirpref_limits ?fs ai ab an = (a, mi, b, m)" by (cases "dirpref_limits ?fs ai ab an")
      have "\<not> mi \<le> 0" using minifree_pos [OF l] by (auto simp: word_le_nat_alt)
      then have "?f k \<noteq> Ret True" using z gd l by (simp add: dirpref_fits_def del: EXT2_GD_Ret)
      ultimately show False using w' by blast
    qed
    then show ?thesis using eq r False by (intro exI [of _ "nat k"]) auto
  qed
qed

text \<open>C23. \<^verbatim>\<open>ext2_dirpref\<close> always returns a group of the volume. For a directory in the root it is the group with the fewest directories among those with fewer
  directories than inodes and at least the average of free inodes and free blocks, and when there is no such group the group drawn at random. Below the root, and in
  the root when there is such a group, the group has a free inode whenever the volume has at least as many free inodes as groups.\<close>

theorem dirpref_chooses_group:
  assumes ok: "inodes_ok ump" and len: "length (e2fs_contigdirs (um_e2fs ump)) = length (e2fs_gd (um_e2fs ump))"
    and home: "isroot \<or> home_ok (um_e2fs ump) (i_number pip)"
  shows "\<exists>cg < length (e2fs_gd (um_e2fs ump)). ext2_dirpref isroot r pip (um_e2fs ump) = Ret (int cg) \<and>
     (isroot \<longrightarrow> (if \<exists>k. root_candidate (um_e2fs ump) k
        then root_candidate (um_e2fs ump) cg \<and> (\<forall>k. root_candidate (um_e2fs ump) k \<longrightarrow> group_dirs (um_e2fs ump) cg \<le> group_dirs (um_e2fs ump) k)
        else cg = unat (r mod e2fs_gcount (um_e2fs ump)))) \<and>
     (e2fs_gcount (um_e2fs ump) \<le> e2fs_ficount (e2fs (um_e2fs ump)) \<and> (isroot \<longrightarrow> (\<exists>k. root_candidate (um_e2fs ump) k)) \<longrightarrow>
        ext2bgd_nifree (e2fs_gd (um_e2fs ump) ! cg) \<noteq> 0)"
  by (rule dirpref_spec [OF assms])

section \<open>\<^verbatim>\<open>ext2_valloc\<close>\<close>

lemma inodes_ok_cong:
  assumes "e2fs (um_e2fs u') = e2fs (um_e2fs u)" "e2fs_gd (um_e2fs u') = e2fs_gd (um_e2fs u)"
    "m_e2fs_ipg (um_e2fs u') = m_e2fs_ipg (um_e2fs u)" "e2fs_gcount (um_e2fs u') = e2fs_gcount (um_e2fs u)"
    "e2fs_fsbtodb (um_e2fs u') = e2fs_fsbtodb (um_e2fs u)" "um_devvp u' = um_devvp u"
  shows "inodes_ok u' = inodes_ok u" "ino_set u' = ino_set u" "n_inodes (um_e2fs u') = n_inodes (um_e2fs u)"
    "inode_avail u' k = inode_avail u k"
  using assms
  by (simp_all add: inodes_ok_def igeom_ok_def igroup_ok_def i_bitmap_def i_addr_def fsbtodb_def ipg_of_def ino_set_def
      n_inodes_def inode_avail_def)

lemma blocks_ok_contig [simp]:
  "blocks_ok (ump\<lparr>um_lock := k, um_e2fs := (um_e2fs ump)\<lparr>e2fs_contigdirs := l\<rparr>\<rparr>) = blocks_ok ump"
  "block_set (ump\<lparr>um_lock := k, um_e2fs := (um_e2fs ump)\<lparr>e2fs_contigdirs := l\<rparr>\<rparr>) = block_set ump"
  by (simp_all add: blocks_ok_def bgroup_ok_def geom_ok_def clus_ok_def b_bitmap_def b_addr_def fsbtodb_def fpg_of_def first_of_def
      Let_def block_set_def vol_blocks_def allocated_def)

lemma no_free_inodes:
  assumes "inodes_ok ump" "e2fs_ficount (e2fs (um_e2fs ump)) = 0" "k < length (e2fs_gd (um_e2fs ump))"
  shows "\<not> inode_avail ump k"
proof -
  have "sum_list (map (\<lambda>g. unat (ext2bgd_nifree g)) (e2fs_gd (um_e2fs ump))) = 0"
    using assms(1,2) unfolding inodes_ok_def by (metis unat_0)
  then have "unat (ext2bgd_nifree (e2fs_gd (um_e2fs ump) ! k)) \<le> 0" using nifree_le_sum [OF assms(3)] by metis
  then show ?thesis by (simp add: inode_avail_def unat_eq_zero)
qed

lemma contig_dirs_ok:
  assumes "length (e2fs_contigdirs fs) = length (e2fs_gd fs)" "cg < length (e2fs_gd fs)"
  obtains l where "contig_dirs fs (int cg) d = Ret (fs\<lparr>e2fs_contigdirs := l\<rparr>)"
  using assms by (auto simp: contig_dirs_def rd_in wr_in Let_def)

text \<open>\<^verbatim>\<open>ext2_valloc\<close>'s choice of an inode on a consistent volume: \<^verbatim>\<open>ENOSPC\<close> exactly when no group
  with a readable bitmap has a free inode, leaving the device and the set of inodes as they were;
  otherwise a number that was free is taken, the counters and bitmaps stay consistent and no block
  changes hands. The lock is free in every case.\<close>

theorem valloc_ino_correct:
  assumes ok: "inodes_ok ump" and lock: "\<not> um_lock ump" and home: "home_ok (um_e2fs ump) (i_number pip)"
    and len: "length (e2fs_contigdirs (um_e2fs ump)) = length (e2fs_gd (um_e2fs ump))"
  shows "if \<forall>k < length (e2fs_gd (um_e2fs ump)). \<not> inode_avail ump k
     then \<exists>ump'. valloc_ino pip isroot r mode ump = Ret (Inl ENOSPC, ump') \<and> \<not> um_lock ump' \<and>
       um_devvp ump' = um_devvp ump \<and> ino_set ump' = ino_set ump
     else \<exists>ino ump'. valloc_ino pip isroot r mode ump = Ret (Inr ino, ump') \<and> took_inode ump (uint ino) ump'"
proof (cases "e2fs_ficount (e2fs (um_e2fs ump)) = 0")
  case True
  have "valloc_ino pip isroot r mode ump = Ret (Inl ENOSPC, ump\<lparr>um_lock := False\<rparr>)"
    using True lock by (simp add: valloc_ino_def EXT2_LOCK_free EXT2_UNLOCK_held Let_def del: bnd_Ret_iff)
  moreover have "ino_set (ump\<lparr>um_lock := False\<rparr>) = ino_set ump" by (rule inodes_ok_cong) simp_all
  ultimately show ?thesis using no_free_inodes [OF ok True] by auto
next
  case False
  let ?fs = "um_e2fs ump" and ?n = "length (e2fs_gd (um_e2fs ump))"
  have g: "igeom_ok ?fs" using ok by (simp add: inodes_ok_def)
  note gc = igeom_gcount [OF g]
  obtain cg where cg: "cg < ?n" "(if is_dir mode then ext2_dirpref isroot r pip ?fs else ino_to_cg ?fs (i_number pip)) = Ret (int cg)"
  proof (cases "is_dir mode")
    case True
    then show ?thesis using dirpref_spec [OF ok len, of isroot pip r] home that by auto
  next
    case False
    then show ?thesis using home that [of "unat ((i_number pip - 1) div m_e2fs_ipg ?fs)"] by (simp add: home_ok_def ino_to_cg_def)
  qed
  have s32: "s32 (int cg) = int cg" using cg(1) gc(3) by (intro s32_small) auto
  obtain l where l: "contig_dirs ?fs (int cg) (is_dir mode) = Ret (?fs\<lparr>e2fs_contigdirs := l\<rparr>)"
    using contig_dirs_ok [OF len cg(1)] by blast
  define u where "u = ump\<lparr>um_lock := True, um_e2fs := ?fs\<lparr>e2fs_contigdirs := l\<rparr>\<rparr>"
  note same = inodes_ok_cong [of u ump]
  have ok': "inode_inv u" and n': "length (e2fs_gd (um_e2fs u)) = ?n" and av: "\<And>k. inode_avail u k = inode_avail ump k"
    using same(1,4) ok by (simp_all add: inode_inv_def u_def)
  define ipref where "ipref = uint (word_of_int (int cg) * e2fs_ipg (e2fs ?fs) + 1)"
  define h where "h = hashalloc ext2_nodealloccg (int ?n) (int cg) ipref mode u"
  have eq: "valloc_ino pip isroot r mode ump = bnd h (\<lambda>(result, ump).
        let ino = word_of_int result in
        if ino = 0 then bnd (EXT2_UNLOCK ump) (\<lambda>ump. Ret (Inl ENOSPC, ump)) else Ret (Inr ino, ump))"
  proof -
    have u1: "um_e2fs (ump\<lparr>um_lock := True\<rparr>) = ?fs" by simp
    show ?thesis
      unfolding valloc_ino_def Let_def EXT2_LOCK_free [OF lock] bnd.simps u1 cg(2) s32 l
      using False by (simp add: h_def ipref_def u_def ext2_hashalloc_def gc(2))
  qed
  have "h = Ret (0, u) \<and> (\<forall>k < ?n. \<not> inode_avail u k) \<or> (\<exists>r s'. h = Ret (r, s') \<and> nodealloccg.served u r s')"
    using nodealloccg.hashalloc_complete [OF ok', of cg ipref mode] cg(1) unfolding n' h_def by (simp add: ipref_def)
  then show ?thesis
  proof (elim disjE conjE exE)
    assume "h = Ret (0, u)" "\<forall>k < ?n. \<not> inode_avail u k"
    moreover have "EXT2_UNLOCK u = Ret (u\<lparr>um_lock := False\<rparr>)" by (simp add: u_def EXT2_UNLOCK_held)
    moreover have "ino_set (u\<lparr>um_lock := False\<rparr>) = ino_set ump" by (rule inodes_ok_cong) (simp_all add: u_def)
    ultimately show ?thesis using eq av by (auto simp: u_def)
  next
    fix ino u' assume i: "h = Ret (ino, u')" "nodealloccg.served u ino u'"
    then have t: "took_inode u ino u'" and a: "\<exists>k < ?n. inode_avail ump k" using av n' by (auto simp: nodealloccg.served_def)
    then obtain n where n: "ino = int n" "1 \<le> n" "n \<le> n_inodes (um_e2fs u)" by (auto simp: took_inode_def)
    have "n < 2 ^ 31" using n(3) g by (simp add: n_inodes_def igeom_ok_def u_def ipg_of_def)
    then have un: "unat (word_of_int ino :: u32) = n" unfolding n(1) by (rule unat_word_of_int_nat)
    then have z: "(word_of_int ino :: u32) \<noteq> 0" "uint (word_of_int ino :: u32) = ino" using n(1,2) by (auto simp: uint_nat)
    have "isame_vol ump v = isame_vol u v" for v
      by (simp add: u_def isame_vol_def istatic_fs_def ibitmap_addrs_def i_addr_def fsbtodb_def)
    then have "took_inode ump ino u'" using t same(2,3) by (simp add: took_inode_def u_def)
    then show ?thesis using eq i z a by auto
  qed
qed

text \<open>A volume of two groups of eight inodes: three in use in group 0, group 1 full.\<close>

definition demo_imount :: ext2mount where
  "demo_imount = demo_mount\<lparr>um_lock := False,
     um_devvp := (um_devvp demo_mount)\<lparr>dev_blk := (\<lambda>a. if a = 10 then [0x07] else if a = 12 then [0xff] else [])\<rparr>,
     um_e2fs := (um_e2fs demo_mount)\<lparr>e2fs := (e2fs (um_e2fs demo_mount))\<lparr>e2fs_ficount := 5\<rparr>,
       e2fs_contigdirs := [0, 0],
       e2fs_gd := [zero_gd\<lparr>ext2bgd_b_bitmap := 3, ext2bgd_i_bitmap := 5, ext2bgd_nifree := 5, ext2bgd_nbfree := 4\<rparr>,
                   zero_gd\<lparr>ext2bgd_b_bitmap := 4, ext2bgd_i_bitmap := 6, ext2bgd_nifree := 0\<rparr>]\<rparr>\<rparr>"

lemma demo_imount_simps:
  "ipg_of (um_e2fs demo_imount) = 8" "length (e2fs_gd (um_e2fs demo_imount)) = 2" "\<not> um_lock demo_imount"
  "length (e2fs_contigdirs (um_e2fs demo_imount)) = 2"
  "i_bitmap demo_imount 0 = [0x07]" "i_bitmap demo_imount (Suc 0) = [0xff]"
  "dev_rerr (um_devvp demo_imount) a = 0" "e2fs_ronly (um_e2fs demo_imount) = 0"
  "ext2bgd_nifree (e2fs_gd (um_e2fs demo_imount) ! 0) = 5" "ext2bgd_nifree (e2fs_gd (um_e2fs demo_imount) ! Suc 0) = 0"
  "e2fs_gcount (um_e2fs demo_imount) = 2" "e2fs_ficount (e2fs (um_e2fs demo_imount)) = 5"
  by (simp_all add: demo_imount_def demo_mount_def zero_fs_def ipg_of_def i_bitmap_def i_addr_def fsbtodb_def push_bit_eq_mult)

lemma demo_inodes_ok: "inodes_ok demo_imount"
proof -
  have f: "nfree [0x07] 8 = 5" "nfree [0xff] 8 = 0" by code_simp+
  have "igeom_ok (um_e2fs demo_imount)"
    by (simp add: igeom_ok_def demo_imount_simps) (simp add: demo_imount_def demo_mount_def zero_fs_def)
  moreover have "igroup_ok demo_imount 0" "igroup_ok demo_imount (Suc 0)"
    by (simp_all add: igroup_ok_def demo_imount_simps f)
  ultimately show ?thesis
    by (auto simp: inodes_ok_def demo_imount_simps less_2_cases_iff) (simp add: demo_imount_def)
qed

lemma demo_home: "home_ok (um_e2fs demo_imount) 2"
  by (simp add: home_ok_def demo_imount_simps) (simp add: demo_imount_def demo_mount_def)

theorem dirpref_chooses_group_witness:
  "(\<exists>cg < 2. ext2_dirpref False 7 (zero_inode\<lparr>i_number := 2\<rparr>) (um_e2fs demo_imount) = Ret (int cg) \<and>
     ext2bgd_nifree (e2fs_gd (um_e2fs demo_imount) ! cg) \<noteq> 0) \<and>
   (\<exists>cg < 2. ext2_dirpref True 7 (zero_inode\<lparr>i_number := 2\<rparr>) (um_e2fs demo_imount) = Ret (int cg) \<and> root_candidate (um_e2fs demo_imount) cg)"
proof -
  have "\<exists>k. root_candidate (um_e2fs demo_imount) k"
    by (rule exI [of _ 0], simp add: root_candidate_def group_passes_def group_dirs_def demo_imount_simps) (simp add: demo_imount_def demo_mount_def zero_fs_def zero_gd_def)
  then show ?thesis
    using dirpref_chooses_group [OF demo_inodes_ok, of False "zero_inode\<lparr>i_number := 2\<rparr>" 7]
      dirpref_chooses_group [OF demo_inodes_ok, of True "zero_inode\<lparr>i_number := 2\<rparr>" 7] demo_home
    by (simp add: demo_imount_simps) blast
qed

theorem valloc_ino_correct_witness:
  "\<exists>ino ump'. valloc_ino (zero_inode\<lparr>i_number := 2\<rparr>) False 7 0x41ed demo_imount = Ret (Inr ino, ump') \<and>
     took_inode demo_imount (uint ino) ump'"
proof -
  have "inode_avail demo_imount 0" by (simp add: inode_avail_def demo_imount_simps)
  then have "\<not> (\<forall>k < length (e2fs_gd (um_e2fs demo_imount)). \<not> inode_avail demo_imount k)"
    by (auto simp: demo_imount_simps intro!: exI [of _ 0])
  then show ?thesis
    using valloc_ino_correct [OF demo_inodes_ok demo_imount_simps(3), of "zero_inode\<lparr>i_number := 2\<rparr>" False 7 "0x41ed"] demo_home
    by (simp add: demo_imount_simps)
qed

section \<open>\<^verbatim>\<open>ext2_vfree\<close>\<close>

definition freed_inode :: "ext2mount \<Rightarrow> nat \<Rightarrow> ext2mount \<Rightarrow> bool" where
  "freed_inode ump n ump' \<longleftrightarrow> ino_set ump' = ino_set ump - {n} \<and> n_inodes (um_e2fs ump') = n_inodes (um_e2fs ump) \<and>
     e2fs_ficount (e2fs (um_e2fs ump')) = e2fs_ficount (e2fs (um_e2fs ump)) + 1 \<and> inodes_ok ump' \<and> \<not> um_lock ump' \<and>
     (blocks_ok ump \<longrightarrow> blocks_ok ump' \<and> block_set ump' = block_set ump)"

lemma ino_words:
  assumes g: "igeom_ok fs" and n: "1 \<le> n" "n \<le> n_inodes fs"
  shows "unat (word_of_nat n :: u32) = n" "unat ((word_of_nat n - 1 :: u32)) = n - 1"
    "unat (m_e2fs_ipg fs * e2fs_gcount fs) = n_inodes fs"
proof -
  have b: "n_inodes fs < 2 ^ 31" using g by (simp add: n_inodes_def igeom_ok_def)
  then show u: "unat (word_of_nat n :: u32) = n" using n by (simp add: unat_of_nat)
  have "(word_of_nat n :: u32) \<noteq> 0" using u n(1) by auto
  then show "unat ((word_of_nat n - 1 :: u32)) = n - 1" using u by (simp add: unat_minus_one)
  have "m_e2fs_ipg fs * e2fs_gcount fs = word_of_nat (unat (m_e2fs_ipg fs)) * word_of_nat (unat (e2fs_gcount fs))" by simp
  also have "\<dots> = (word_of_nat (ipg_of fs * length (e2fs_gd fs)) :: u32)"
    using g unfolding igeom_ok_def ipg_of_def of_nat_mult by simp
  finally have "m_e2fs_ipg fs * e2fs_gcount fs = (word_of_nat (ipg_of fs * length (e2fs_gd fs)) :: u32)" .
  then show "unat (m_e2fs_ipg fs * e2fs_gcount fs) = n_inodes fs"
    using b by (simp add: unat_of_nat n_inodes_def mult.commute del: of_nat_mult)
qed

lemma vfree_spec:
  assumes ok: "inodes_ok ump" and lock: "\<not> um_lock ump" and n: "1 \<le> n" "n \<le> n_inodes (um_e2fs ump)"
    and rw: "e2fs_ronly (um_e2fs ump) = 0"
    and rd: "\<And>k. k < length (e2fs_gd (um_e2fs ump)) \<Longrightarrow> dev_rerr (um_devvp ump) (i_addr (um_e2fs ump) k) = 0"
  shows "(if n \<in> ino_set ump then \<exists>ump'. ext2_vfree (word_of_nat n) mode ump = Ret (0, ump') \<and> freed_inode ump n ump'
      else ext2_vfree (word_of_nat n) mode ump = Fault (Panic ''ext2_vfree: freeing free inode'')) \<and>
     (\<forall>ino. n_inodes (um_e2fs ump) < unat ino \<longrightarrow> ext2_vfree ino mode ump = Fault (Panic ''ext2_vfree: range''))"
proof (intro conjI allI impI)
  let ?fs = "um_e2fs ump"
  have g: "igeom_ok ?fs" using ok by (simp add: inodes_ok_def)
  note w = ino_words [OF g n]
  show "ext2_vfree ino mode ump = Fault (Panic ''ext2_vfree: range'')" if "n_inodes ?fs < unat ino" for ino
    using that w(3) by (simp add: ext2_vfree_def Let_def word_less_nat_alt)
  define cg i where "cg = (n - 1) div ipg_of ?fs" and "i = (n - 1) mod ipg_of ?fs"
  have i: "i < ipg_of ?fs" using g by (simp add: i_def igeom_ok_def)
  have cg: "cg < length (e2fs_gd ?fs)" using ino_group [OF n] by (simp add: cg_def)
  have e: "n = cg * ipg_of ?fs + i + 1" using ino_coords [OF n(1) i, of cg] by (simp add: cg_def i_def)
  let ?bm = "i_bitmap ump cg"
  have len: "ipg_of ?fs \<le> 8 * length ?bm" using ok cg by (simp add: inodes_ok_def igroup_ok_def)
  have ipg: "e2fs_ipg (e2fs ?fs) \<noteq> 0" "m_e2fs_ipg ?fs = e2fs_ipg (e2fs ?fs)" using g by (auto simp: igeom_ok_def ipg_of_def)
  have rng: "((word_of_nat n :: u32) > m_e2fs_ipg ?fs * e2fs_gcount ?fs) = False"
    using w(1,3) n(2) by (simp add: word_less_nat_alt)
  have "uint ((word_of_nat n - 1) div e2fs_ipg (e2fs ?fs)) = int cg"
    using w(2) unfolding uint_nat unat_div by (simp add: cg_def ipg_of_def)
  then have icg: "ino_to_cg ?fs (word_of_nat n) = Ret (int cg)" using ipg by (simp add: ino_to_cg_def)
  have s32: "s32 (int cg) = int cg" using cg igeom_gcount(3) [OF g] by (intro s32_small) auto
  have ii: "uint ((word_of_nat n - 1) mod e2fs_ipg (e2fs ?fs)) = int i"
    using w(2) unfolding uint_nat unat_mod by (simp add: i_def ipg_of_def)
  have read: "buf_meta_bread (um_devvp ump) (i_addr ?fs cg) = Inr ?bm"
    using rd [OF cg] by (simp add: buf_meta_bread_def i_bitmap_def)
  have clr: "isclr ?bm (int i) = Ret (\<not> used ?bm i)" using isclr_eq [of "int i" ?bm] len i by simp
  have u: "n \<in> ino_set ump \<longleftrightarrow> used ?bm i" using ino_set_bit [OF cg i] e by simp
  note step = ext2_vfree_def Let_def rng if_False icg s32 bnd.simps EXT2_GD_in [OF cg] i_addr_def [symmetric] read sum.case ii clr
  show "if n \<in> ino_set ump then \<exists>ump'. ext2_vfree (word_of_nat n) mode ump = Ret (0, ump') \<and> freed_inode ump n ump'
      else ext2_vfree (word_of_nat n) mode ump = Fault (Panic ''ext2_vfree: freeing free inode'')"
  proof (cases "used ?bm i")
    case True
    obtain bm where bm: "clrbit ?bm (int i) = Ret bm" using i len by (simp add: clrbit_Ret)
    let ?u = "imark_ump 1 mode ump cg bm"
    have "ext2_vfree (word_of_nat n) mode ump = Ret (0, ?u)"
      using True ipg(1) unfolding step
      by (simp add: bm lock EXT2_LOCK_free EXT2_UNLOCK_held count_inode_eq [OF cg] imark_ump_def del: bnd_Ret_iff)
    moreover have "ino_set ?u = ino_set ump - {n}"
    proof -
      have "used bm j = used ?bm j" if "j \<noteq> i" for j using bm that by (simp add: clrbit_used)
      note m = ino_set_imark [OF g cg i this]
      have "\<not> used bm i" using bm by (simp add: clrbit_used)
      then have "k \<in> ino_set ?u \<longleftrightarrow> k \<noteq> n \<and> k \<in> ino_set ump" for k
        using m [where n = k and d = 1 and mode = mode] e by simp
      then show ?thesis by blast
    qed
    then have "freed_inode ump n ?u"
      using inodes_ok_free [OF ok cg i True bm, of mode] blocks_ok_imark [OF _ cg, of 1 mode bm]
      unfolding freed_inode_def by (intro conjI impI) (simp_all add: imark_ump_def, simp_all add: imark_fs_def)
    ultimately show ?thesis using u True by auto
  next
    case False
    then show ?thesis using u rw ipg(1) unfolding step by simp
  qed
qed

text \<open>C22. \<^verbatim>\<open>ext2_vfree\<close> of an inode number of a consistent, writable volume whose bitmaps can be read: it
  panics when the inode is free, and otherwise removes that number and no other from the set of
  allocated inodes, with the counters consistent, no block changed and the lock released. A number
  past the end of the volume is a panic.\<close>

theorem ext2_vfree_correct:
  assumes ok: "inodes_ok ump" and lock: "\<not> um_lock ump" and n: "1 \<le> n" "n \<le> n_inodes (um_e2fs ump)"
    and rw: "e2fs_ronly (um_e2fs ump) = 0"
    and rd: "\<And>k. k < length (e2fs_gd (um_e2fs ump)) \<Longrightarrow> dev_rerr (um_devvp ump) (i_addr (um_e2fs ump) k) = 0"
  shows "(if n \<in> ino_set ump then \<exists>ump'. ext2_vfree (word_of_nat n) mode ump = Ret (0, ump') \<and> freed_inode ump n ump'
      else ext2_vfree (word_of_nat n) mode ump = Fault (Panic ''ext2_vfree: freeing free inode'')) \<and>
     (\<forall>ino. n_inodes (um_e2fs ump) < unat ino \<longrightarrow> ext2_vfree ino mode ump = Fault (Panic ''ext2_vfree: range''))"
  by (rule vfree_spec [OF assms])

theorem ext2_vfree_correct_witness:
  "(\<exists>ump'. ext2_vfree 2 0 demo_imount = Ret (0, ump') \<and> freed_inode demo_imount 2 ump') \<and>
   ext2_vfree 4 0 demo_imount = Fault (Panic ''ext2_vfree: freeing free inode'')"
proof -
  have n: "n_inodes (um_e2fs demo_imount) = 16" by (simp add: n_inodes_def demo_imount_simps)
  have u: "used [7] (Suc 0)" "\<not> used [7] 3" by code_simp+
  have "2 \<in> ino_set demo_imount" "4 \<notin> ino_set demo_imount"
    using u ino_set_bit [of 0 demo_imount 1] ino_set_bit [of 0 demo_imount 3]
    by (simp_all add: demo_imount_simps numeral_2_eq_2)
  then show ?thesis
    using ext2_vfree_correct [OF demo_inodes_ok demo_imount_simps(3) _ _ demo_imount_simps(8), of 2 0]
      ext2_vfree_correct [OF demo_inodes_ok demo_imount_simps(3) _ _ demo_imount_simps(8), of 4 0]
    by (simp add: n demo_imount_simps)
qed

end
