(* ===== verification/Ext2_VgetProps.thy ===== *)
theory Ext2_VgetProps
  imports Ext2_Vget Ext2_InodeSet
begin

text \<open>
  Properties of \<^verbatim>\<open>ext2_vget_typed\<close> on the table of inodes, the race of two creations, inodes whose size does not fit, file handles and the whole of
  \<^verbatim>\<open>ext2_valloc\<close>.
\<close>

section \<open>The inode that is read\<close>

lemma zero_unused_ok:
  "0 \<le> i \<Longrightarrow> length db = 12 \<Longrightarrow> zero_unused i db = Ret (take (nat i) db @ replicate (12 - nat i) 0)"
proof (induction i db rule: zero_unused.induct)
  case (1 i db)
  show ?case
  proof (cases "i < 12")
    case True
    have "zero_unused i db = zero_unused (i + 1) (db[nat i := 0])"
      using True "1.prems" by (subst zero_unused.simps) (simp add: EXT2_NDIR_BLOCKS_def wr_def)
    also have "\<dots> = Ret (take (nat (i + 1)) (db[nat i := 0]) @ replicate (12 - nat (i + 1)) 0)"
      using "1.IH" [of "db[nat i := 0]"] True "1.prems" by (simp add: EXT2_NDIR_BLOCKS_def wr_def)
    also have "take (nat (i + 1)) (db[nat i := 0]) = take (nat i) db @ [0]"
      using True "1.prems" by (simp add: take_Suc_conv_app_nth nat_add_distrib)
    also have "(take (nat i) db @ [0]) @ replicate (12 - nat (i + 1)) 0 = take (nat i) db @ replicate (12 - nat i) 0"
    proof -
      have "12 - nat i = Suc (12 - nat (i + 1))" using True "1.prems"(1) by linarith
      then show ?thesis by simp
    qed
    finally show ?thesis .
  next
    case False
    then show ?thesis using "1.prems" by (subst zero_unused.simps) (simp add: EXT2_NDIR_BLOCKS_def)
  qed
qed

lemma zero_unused_below: "i < 0 \<Longrightarrow> zero_unused i db = Fault Oob"
  by (subst zero_unused.simps) (simp add: EXT2_NDIR_BLOCKS_def wr_def)

lemma ei2i_number [simp]: "i_number (ext2_ei2i fs ei ip) = i_number ip"
  by (simp add: ext2_ei2i_def Let_def)

lemma vget_inode_number: "vget_inode rdonly gen ump ino = Ret (Inr ip) \<Longrightarrow> i_number ip = ino"
  by (auto simp: vget_inode_def Let_def simp del: bnd_Ret_iff elim!: bnd_RetE split: sum.split_asm if_split_asm)

section \<open>The table after \<^verbatim>\<open>ext2_vget_typed\<close>\<close>

text \<open>The table represents a list of inodes with vnodes and with different keys.\<close>

definition cache_ok :: "ihash \<Rightarrow> ptr list \<Rightarrow> bool" where
  "cache_ok ih L \<longleftrightarrow> hashed ih L \<and> unique_keys (ih_nodes ih) L \<and> (\<forall>p \<in> set L. \<exists>n. ih_nodes ih p = Some n \<and> hn_vnode n \<noteq> None)"

lemma cached_Some: "cached ih ump ino L = Some p \<Longrightarrow> p \<in> set L \<and> (\<exists>n. ih_nodes ih p = Some n \<and> i_number (hn_ip n) = ino \<and> hn_ump n = ump)"
  using cached_node [of ih ump ino L p] by (auto simp: hit_def)

lemma cached_None: "cache_ok ih L \<Longrightarrow> cached ih ump ino L = None \<longleftrightarrow> (\<forall>p \<in> set L. \<forall>n. ih_nodes ih p = Some n \<longrightarrow> \<not> (i_number (hn_ip n) = ino \<and> hn_ump n = ump))"
  unfolding cached_def find_None_iff cache_ok_def by (fastforce simp: hit_def split: option.splits)

lemma cached_unique:
  assumes "cache_ok ih L" "p \<in> set L" "ih_nodes ih p = Some n" "i_number (hn_ip n) = ino" "hn_ump n = ump"
  shows "cached ih ump ino L = Some p"
proof (cases "cached ih ump ino L")
  case None
  then show ?thesis using cached_None [OF assms(1)] assms(2-5) by blast
next
  case (Some q)
  from cached_Some [OF this] obtain m where "q \<in> set L" "ih_nodes ih q = Some m" "i_number (hn_ip m) = ino" "hn_ump m = ump" by blast
  then have "p = q" using assms unfolding cache_ok_def unique_keys_def same_key_def by metis
  then show ?thesis using Some by simp
qed

text \<open>A single thread finds what is cached.\<close>

lemma ihashget_alone:
  assumes "hashed ih L" shows "ext2_ihashget (\<lambda>_. ih) (\<lambda>_ _ _. 0) umpa ino = Some (Ret (0, cached ih umpa ino L))"
proof -
  have "settles (\<lambda>_. ih) (\<lambda>_ _ _. 0) umpa ino (\<lambda>_. L) 0"
    using cached_node [of ih umpa ino L] by (cases "cached ih umpa ino L") (auto simp: settles_def)
  then have "ihashget_loop (\<lambda>_. ih) (\<lambda>_ _ _. 0) umpa ino 0 = Some (Ret (0, cached ih umpa ino L))"
    using ihashget_from [of "\<lambda>_. ih" "\<lambda>_. L" "\<lambda>_ _ _. 0" umpa ino 0 0] assms by simp
  moreover have nt: "ih_tbl ih \<noteq> None" using assms by (auto simp: hashed_def)
  ultimately show ?thesis unfolding ext2_ihashget_def if_not_P [OF nt] by simp
qed

text \<open>The part after the miss puts one inode in front.\<close>

lemma vget_create_front:
  assumes h: "hashed ih L" and f: "\<And>p. ve_ptr env = Some p \<Longrightarrow> ih_nodes ih p = None"
    and r: "vget_create env umpa ump rdonly ino vmode ih = Ret (Inr p, param, ih')"
  shows "ve_ptr env = Some p \<and> p \<notin> set L \<and> hashed ih' (p # L) \<and>
    (\<exists>n. ih_nodes ih' p = Some n \<and> i_number (hn_ip n) = ino \<and> hn_ump n = umpa \<and> hn_vnode n \<noteq> None) \<and>
    (\<forall>q. q \<noteq> p \<longrightarrow> rel_option same_node (ih_nodes ih q) (ih_nodes ih' q))"
proof -
  obtain p0 ip vp vid where e: "ve_ptr env = Some p0" "ve_lockok env" "vget_inode rdonly (ve_rand env) ump ino = Ret (Inr ip)" "ve_create env = Inr (vp, vid)"
    and i: "ext2_ihashins p0 (put_node ih p0 \<lparr>hn_ip = ip\<lparr>i_vid := vid\<rparr>, hn_ump = umpa, hn_vnode = Some vp, le_next = None, le_prev = None\<rparr>) = Ret ih'"
    and p0: "p0 = p"
    using r unfolding vget_create_def by (auto simp: Let_def simp del: bnd_Ret_iff elim!: bnd_RetE split: option.split_asm if_split_asm sum.split_asm prod.split_asm)
  let ?n = "\<lparr>hn_ip = ip\<lparr>i_vid := vid\<rparr>, hn_ump = umpa, hn_vnode = Some vp, le_next = None, le_prev = None\<rparr>"
  have fr: "ih_nodes ih p = None" using f e(1) p0 by simp
  then have pL: "p \<notin> set L" using h by (auto simp: hashed_def)
  have h2: "hashed (put_node ih p ?n) L" using hashed_change [OF h pL, of "Some ?n"] by (simp add: put_node_def)
  have np: "ih_nodes (put_node ih p ?n) p = Some ?n" by (simp add: put_node_def)
  obtain ih2 where i2: "ext2_ihashins p (put_node ih p ?n) = Ret ih2" "hashed ih2 (p # L)" "same_nodes (put_node ih p ?n) ih2"
    using ihashins_front [OF h2 np pL] by blast
  then have ih2: "ih2 = ih'" using i p0 by simp
  have s: "rel_option same_node (ih_nodes (put_node ih p ?n) q) (ih_nodes ih' q)" for q using i2(3) ih2 by (simp add: same_nodes_def)
  have "rel_option same_node (Some ?n) (ih_nodes ih' p)" using s [of p] np by simp
  then obtain n where n: "ih_nodes ih' p = Some n" "same_node ?n n" by (cases "ih_nodes ih' p") auto
  then have "hn_ip n = ip\<lparr>i_vid := vid\<rparr>" "hn_ump n = umpa" "hn_vnode n = Some vp" by (auto simp: same_node_def)
  moreover have "i_number ip = ino" by (rule vget_inode_number [OF e(3)])
  ultimately have "\<exists>n. ih_nodes ih' p = Some n \<and> i_number (hn_ip n) = ino \<and> hn_ump n = umpa \<and> hn_vnode n \<noteq> None" using n(1) by simp
  moreover have "q \<noteq> p \<Longrightarrow> rel_option same_node (ih_nodes ih q) (ih_nodes ih' q)" for q using s [of q] by (simp add: put_node_def)
  ultimately show ?thesis using e(1) p0 pL i2(2) ih2 by blast
qed

text \<open>C18. \<^verbatim>\<open>ext2_vget_typed\<close> keeps the table of inodes free of duplicates when it runs alone: it returns the inode in core when there is one,
  otherwise it makes one in front of the table, and every later call for the number returns the same one without changing anything.\<close>

theorem vget_one_inode:
  assumes c: "cache_ok ih L" and f: "\<And>p. ve_ptr env = Some p \<Longrightarrow> ih_nodes ih p = None"
    and r: "ext2_vget_typed (\<lambda>_. ih) (\<lambda>_ _ _. 0) env umpa ump rdonly ino vmode ih = Some (Ret (Inr p, param, ih'))"
  shows "\<exists>L'. cache_ok ih' L' \<and> L' = (case cached ih umpa ino L of None \<Rightarrow> p # L | Some _ \<Rightarrow> L) \<and> cached ih' umpa ino L' = Some p \<and>
    ext2_vget_typed (\<lambda>_. ih') (\<lambda>_ _ _. 0) env' umpa ump rdonly ino vmode' ih' = Some (Ret (Inr p, None, ih'))"
proof -
  have h: "hashed ih L" using c by (simp add: cache_ok_def)
  have later: "ext2_vget_typed (\<lambda>_. j) (\<lambda>_ _ _. 0) env' umpa ump rdonly ino vmode' j = Some (Ret (Inr p, None, j))"
    if "hashed j M" "cached j umpa ino M = Some p" for j M
    using ihashget_alone [OF that(1), of umpa ino] that(2) by (simp add: ext2_vget_typed_def)
  show ?thesis
  proof (cases "cached ih umpa ino L")
    case (Some q)
    then have "q = p" "ih' = ih" using r ihashget_alone [OF h, of umpa ino] by (auto simp: ext2_vget_typed_def)
    then show ?thesis using later [OF h] c Some by simp
  next
    case None
    then have v: "vget_create env umpa ump rdonly ino vmode ih = Ret (Inr p, param, ih')"
      using r ihashget_alone [OF h, of umpa ino] by (simp add: ext2_vget_typed_def)
    from vget_create_front [OF h f v] obtain n where n: "ve_ptr env = Some p" "p \<notin> set L" "hashed ih' (p # L)" "ih_nodes ih' p = Some n"
      "i_number (hn_ip n) = ino" "hn_ump n = umpa" "hn_vnode n \<noteq> None" "\<And>q. q \<noteq> p \<Longrightarrow> rel_option same_node (ih_nodes ih q) (ih_nodes ih' q)" by blast
    have old: "\<exists>m. ih_nodes ih q = Some m \<and> same_node m m'" if "q \<in> set L" "ih_nodes ih' q = Some m'" for q m'
      using n(8) [of q] that n(2) by (cases "ih_nodes ih q") auto
    have nk: "\<not> (i_number (hn_ip m') = ino \<and> hn_ump m' = umpa)" if "q \<in> set L" "ih_nodes ih' q = Some m'" for q m'
      using old [OF that] None cached_None [OF c] that(1) unfolding same_node_def by metis
    have uL: "unique_keys (ih_nodes ih') L"
      unfolding unique_keys_def
    proof (intro ballI allI impI)
      fix q1 q2 m1 m2
      assume q: "q1 \<in> set L" "q2 \<in> set L" "ih_nodes ih' q1 = Some m1" "ih_nodes ih' q2 = Some m2" "same_key m1 m2"
      obtain k1 k2 where "ih_nodes ih q1 = Some k1" "same_node k1 m1" "ih_nodes ih q2 = Some k2" "same_node k2 m2"
        using old [OF q(1,3)] old [OF q(2,4)] by blast
      then show "q1 = q2" using c q(1,2,5) unfolding cache_ok_def unique_keys_def same_key_def same_node_def by metis
    qed
    have "unique_keys (ih_nodes ih') (p # L)"
      unfolding unique_keys_def
    proof (intro ballI allI impI)
      fix q1 q2 m1 m2
      assume q: "q1 \<in> set (p # L)" "q2 \<in> set (p # L)" "ih_nodes ih' q1 = Some m1" "ih_nodes ih' q2 = Some m2" "same_key m1 m2"
      show "q1 = q2"
      proof (cases "q1 = p \<or> q2 = p")
        case True
        then show ?thesis using q n(4-6) nk unfolding same_key_def by (metis option.inject set_ConsD)
      next
        case False
        then show ?thesis using q uL unfolding unique_keys_def by (metis set_ConsD)
      qed
    qed
    moreover have "\<forall>q \<in> set (p # L). \<exists>m. ih_nodes ih' q = Some m \<and> hn_vnode m \<noteq> None"
    proof
      fix q assume q: "q \<in> set (p # L)"
      show "\<exists>m. ih_nodes ih' q = Some m \<and> hn_vnode m \<noteq> None"
      proof (cases "q = p")
        case False
        then obtain m where "ih_nodes ih q = Some m" "hn_vnode m \<noteq> None" using q c by (auto simp: cache_ok_def)
        then show ?thesis using n(8) [OF False] by (cases "ih_nodes ih' q") (auto simp: same_node_def)
      qed (use n(4,7) in simp)
    qed
    ultimately have c': "cache_ok ih' (p # L)" using n(3) by (simp add: cache_ok_def)
    have "cached ih' umpa ino (p # L) = Some p" by (rule cached_unique [OF c' _ n(4-6)]) simp
    then show ?thesis using later [OF n(3)] c' None by simp
  qed
qed

text \<open>C19. Nothing serialises the creation of inodes, although the lookup relies on it: when two threads ask for the same number and both look before
  either has inserted, both miss and both make an inode, and the table holds two inodes of one number.\<close>

theorem vget_race_two_inodes:
  assumes c: "cache_ok ih L" and miss: "cached ih umpa ino L = None"
    and ptrs: "ve_ptr env1 = Some p" "ve_ptr env2 = Some q" "p \<noteq> q" "ih_nodes ih p = None" "ih_nodes ih q = None"
    and first: "vget_create env1 umpa ump rdonly ino vmode1 ih = Ret (Inr p, param1, ih1)"
    and second: "vget_create env2 umpa ump rdonly ino vmode2 ih1 = Ret (Inr q, param2, ih2)"
  shows "ext2_vget_typed (\<lambda>_. ih) (\<lambda>_ _ _. 0) env1 umpa ump rdonly ino vmode1 ih = Some (Ret (Inr p, param1, ih1)) \<and>
    ext2_vget_typed (\<lambda>_. ih) (\<lambda>_ _ _. 0) env2 umpa ump rdonly ino vmode2 ih1 = Some (Ret (Inr q, param2, ih2)) \<and>
    hashed ih2 (q # p # L) \<and> \<not> unique_keys (ih_nodes ih2) (q # p # L)"
proof -
  have h: "hashed ih L" using c by (simp add: cache_ok_def)
  note g = ihashget_alone [OF h, of umpa ino, unfolded miss]
  from vget_create_front [OF h _ first] ptrs(1,4) obtain n1 where n1: "hashed ih1 (p # L)" "ih_nodes ih1 p = Some n1"
    "i_number (hn_ip n1) = ino" "hn_ump n1 = umpa" "\<And>x. x \<noteq> p \<Longrightarrow> rel_option same_node (ih_nodes ih x) (ih_nodes ih1 x)" by auto
  have "ih_nodes ih1 q = None" using n1(5) [of q] ptrs(3,5) by (cases "ih_nodes ih1 q") auto
  with vget_create_front [OF n1(1) _ second] ptrs(2) obtain n2 where n2: "hashed ih2 (q # p # L)" "ih_nodes ih2 q = Some n2"
    "i_number (hn_ip n2) = ino" "hn_ump n2 = umpa" "\<And>x. x \<noteq> q \<Longrightarrow> rel_option same_node (ih_nodes ih1 x) (ih_nodes ih2 x)" by auto
  obtain m where m: "ih_nodes ih2 p = Some m" "same_node n1 m" using n2(5) [of p] n1(2) ptrs(3) by (cases "ih_nodes ih2 p") auto
  have "same_key n2 m" using n1(3,4) n2(3,4) m(2) by (simp add: same_key_def same_node_def)
  then have "\<not> unique_keys (ih_nodes ih2) (q # p # L)" using n2(2) m(1) ptrs(3) unfolding unique_keys_def by (metis list.set_intros(1,2))
  then show ?thesis using n2(1) g first second by (simp add: ext2_vget_typed_def)
qed


section \<open>A volume with an inode table\<close>

text \<open>One block of eight inodes, all of them regular files of the given size with one link.\<close>

definition demo_dinode :: "u32 \<Rightarrow> u32 \<Rightarrow> ext2fs_dinode" where
  "demo_dinode lo hi = zero_dinode\<lparr>e2di_mode := 0x81A4, e2di_nlink := 1, e2di_size := lo, e2di_size_high := hi, e2di_gen := 9, e2di_blocks := replicate 15 7\<rparr>"

definition demo_vmount :: "u32 \<Rightarrow> u32 \<Rightarrow> ext2mount" where
  "demo_vmount lo hi = demo_mount\<lparr>um_devvp := (um_devvp demo_mount)\<lparr>dev_blk := (\<lambda>a. concat (replicate 8 (bytes_of_words (dinode_base (demo_dinode lo hi)))))\<rparr>,
     um_e2fs := zero_fs\<lparr>e2fs := zero_sb\<lparr>e2fs_ipg := 8\<rparr>, e2fs_bsize := 1024, m_e2fs_ipg := 8, e2fs_ipb := 8, e2fs_isize := 128, e2fs_gcount := 1,
       e2fs_gd := [zero_gd\<lparr>ext2bgd_i_tables := 5\<rparr>]\<rparr>\<rparr>"

lemma demo_dinode_read: "get_dinode False (concat (replicate 8 (bytes_of_words (dinode_base (demo_dinode lo hi))))) 256 = Ret (demo_dinode lo hi)"
proof -
  let ?d = "demo_dinode lo hi" let ?x = "bytes_of_words (dinode_base ?d)"
  have l: "length ?x = 128" by (simp add: demo_dinode_def)
  have "concat (replicate 8 ?x) = (?x @ ?x) @ ?x @ concat (replicate 5 ?x)" by (simp add: eval_nat_numeral)
  then have "slice (concat (replicate 8 ?x)) 256 128 = Ret ?x" using l by (simp add: slice_def)
  moreover have "words_of ?x = dinode_base ?d" by simp
  moreover have "dinode_of (dinode_base ?d) (replicate 7 0) = ?d"
    using dinode_of_base [of ?d] by (simp add: demo_dinode_def zero_dinode_def dinode_extra_def join16_def eval_nat_numeral)
  ultimately show ?thesis unfolding get_dinode_def by (simp del: slice_Ret bnd_Ret_iff)
qed

lemma demo_vmount_simps:
  "ino_to_fsba (um_e2fs (demo_vmount lo hi)) 3 = Ret 5" "ino_to_fsbo (um_e2fs (demo_vmount lo hi)) 3 = Ret 2"
  "ino_to_cg (um_e2fs (demo_vmount lo hi)) 3 = Ret 0" "e2fs_isize (um_e2fs (demo_vmount lo hi)) = 128" "e2fs_bsize (um_e2fs (demo_vmount lo hi)) = 1024"
  "\<not> E2DI_HAS_XTIME (um_e2fs (demo_vmount lo hi))" "\<not> E2DI_HAS_HUGE_FILE (um_e2fs (demo_vmount lo hi))"
  "buf_meta_bread (um_devvp (demo_vmount lo hi)) a = Inr (concat (replicate 8 (bytes_of_words (dinode_base (demo_dinode lo hi)))))"
  by (simp_all add: ino_to_fsba_def ino_to_fsbo_def ino_to_cg_def EXT2_GD_def rd_def demo_vmount_def zero_fs_def zero_sb_def zero_gd_def buf_meta_bread_def demo_mount_def
    E2DI_HAS_XTIME_def E2DI_HAS_HUGE_FILE_def EXT2_HAS_RO_COMPAT_FEATURE_def)


lemma vget_pointers:
  assumes "ino_to_fsba (um_e2fs ump) ino = Ret a" "buf_meta_bread (um_devvp ump) (fsbtodb (um_e2fs ump) (uint a)) = Inr bs"
    and "ino_to_fsbo (um_e2fs ump) ino = Ret k" "get_dinode (E2DI_HAS_XTIME (um_e2fs ump)) bs (uint (e2fs_isize (um_e2fs ump) * k)) = Ret ei"
    and "ino_to_cg (um_e2fs ump) ino = Ret cg"
    and ip: "ip = ext2_ei2i (um_e2fs ump) ei (zero_inode\<lparr>i_number := ino\<rparr>)" and n: "used_blocks (um_e2fs ump) ip = Ret n"
  shows "if has_pointers ip \<and> n < 0 then vget_inode rdonly gen ump ino = Fault Oob
     else \<exists>jp. vget_inode rdonly gen ump ino = Ret (Inr jp) \<and>
       i_db jp = (if has_pointers ip then take (nat n) (i_db ip) @ replicate (12 - nat n) 0 else i_db ip) \<and>
       i_size jp = i_size ip \<and> i_mode jp = i_mode ip \<and> i_ib jp = i_ib ip"
proof -
  have len: "length (i_db ip) = 12" using get_dinode_blocks [OF assms(4)] by (simp add: ip ext2_ei2i_def Let_def)
  let ?jp = "ip\<lparr>i_block_group := word_of_int cg, i_next_alloc_block := 0, i_next_alloc_goal := 0\<rparr>"
  have jp: "has_pointers ?jp = has_pointers ip" "used_blocks (um_e2fs ump) ?jp = Ret n"
    using n by (simp_all add: has_pointers_def used_blocks_def split: if_split_asm)
  have run: "vget_inode rdonly gen ump ino = bnd (if has_pointers ip then bnd (zero_unused n (i_db ip)) (\<lambda>db. Ret (?jp\<lparr>i_db := db\<rparr>)) else Ret ?jp) (\<lambda>ip.
      Ret (Inr (if i_gen ip = 0 then ip\<lparr>i_gen := gen + 1, i_flag := (if rdonly then i_flag ip else i_flag ip OR IN_MODIFIED)\<rparr> else ip)))"
    unfolding vget_inode_def Let_def assms(1-5) sum.case bnd.simps ip [symmetric] jp by simp
  show ?thesis
  proof (cases "has_pointers ip \<and> n < 0")
    case True
    then show ?thesis unfolding run zero_unused_below [OF conjunct2 [OF True]] by simp
  next
    case False
    then show ?thesis using zero_unused_ok [OF _ len, of n] unfolding run by (cases "has_pointers ip") simp_all
  qed
qed

lemma s32_negative: "s32 x < 0 \<longleftrightarrow> 2147483648 \<le> x mod 4294967296"
proof -
  have "s32 x < 0 \<longleftrightarrow> odd (x div 2147483648)" by (simp add: s32_def bit_iff_odd)
  also have "\<dots> \<longleftrightarrow> 2147483648 \<le> x mod (2147483648 * 2)"
    using zmod_zmult2_eq [of 2 x 2147483648] pos_mod_bound [of 2147483648 x] by (cases "odd (x div 2147483648)") (simp_all add: odd_iff_mod_2_eq_one even_iff_mod_2_eq_zero)
  finally show ?thesis by simp
qed

text \<open>C20. An inode comes into core as it is on disk, except that the pointers past the end of a file or directory without extents are cleared, as \<^verbatim>\<open>ext2_balloc\<close>
  needs it. The number \<open>n\<close> of blocks is cut to a signed 32-bit \<^verbatim>\<open>int\<close>. It is negative exactly when bit 31 of the number of blocks of the size on disk is set; then the loop
  that clears the pointers starts below the array and writes outside of it. A size of a multiple of \<open>2 ^ 32\<close> blocks gives \<open>n = 0\<close>, and all the pointers are
  cleared.\<close>

theorem vget_clears_pointers:
  assumes "ino_to_fsba (um_e2fs ump) ino = Ret a" "buf_meta_bread (um_devvp ump) (fsbtodb (um_e2fs ump) (uint a)) = Inr bs"
    and "ino_to_fsbo (um_e2fs ump) ino = Ret k" "get_dinode (E2DI_HAS_XTIME (um_e2fs ump)) bs (uint (e2fs_isize (um_e2fs ump) * k)) = Ret ei"
    and "ino_to_cg (um_e2fs ump) ino = Ret cg"
    and ip: "ip = ext2_ei2i (um_e2fs ump) ei (zero_inode\<lparr>i_number := ino\<rparr>)" and n: "used_blocks (um_e2fs ump) ip = Ret n"
  shows "(if has_pointers ip \<and> n < 0 then vget_inode rdonly gen ump ino = Fault Oob
     else \<exists>jp. vget_inode rdonly gen ump ino = Ret (Inr jp) \<and>
       i_db jp = (if has_pointers ip then take (nat n) (i_db ip) @ replicate (12 - nat n) 0 else i_db ip) \<and>
       i_size jp = i_size ip \<and> i_mode jp = i_mode ip \<and> i_ib jp = i_ib ip) \<and>
     (n < 0 \<longleftrightarrow> 2 ^ 31 \<le> uint ((i_size ip + ucast (e2fs_bsize (um_e2fs ump)) - 1) div ucast (e2fs_bsize (um_e2fs ump))) mod 2 ^ 32)"
proof -
  have "n = s32 (uint ((i_size ip + ucast (e2fs_bsize (um_e2fs ump)) - 1) div ucast (e2fs_bsize (um_e2fs ump))))"
    using n by (simp add: used_blocks_def split: if_splits)
  then show ?thesis using vget_pointers [OF assms] s32_negative by simp
qed

theorem vget_clears_pointers_witness:
  "vget_inode False 0 (demo_vmount 0 512) 3 = Fault Oob \<and> (\<exists>ip. vget_inode False 0 (demo_vmount 1000 0) 3 = Ret (Inr ip) \<and> i_db ip = 7 # replicate 11 0) \<and>
   (\<exists>ip. vget_inode False 0 (demo_vmount 0 1024) 3 = Ret (Inr ip) \<and> i_db ip = replicate 12 0)"
proof -
  have r: "get_dinode (E2DI_HAS_XTIME (um_e2fs (demo_vmount lo hi))) (concat (replicate 8 (bytes_of_words (dinode_base (demo_dinode lo hi)))))
     (uint (e2fs_isize (um_e2fs (demo_vmount lo hi)) * 2)) = Ret (demo_dinode lo hi)" for lo hi
    using demo_dinode_read [of lo hi] by (simp add: demo_vmount_simps)
  define ip where "ip lo hi = ext2_ei2i (um_e2fs (demo_vmount lo hi)) (demo_dinode lo hi) (zero_inode\<lparr>i_number := 3\<rparr>)" for lo hi
  have e: "has_pointers (ip lo hi)" "i_db (ip lo hi) = replicate 12 7" "i_size (ip lo hi) = ucast lo OR push_bit 32 (ucast hi)" for lo hi
    by (simp_all add: ip_def has_pointers_def ext2_ei2i_def Let_def demo_vmount_simps demo_dinode_def zero_dinode_def zero_inode_def S_ISREG_def flag_if_def IFMT_def IFREG_def)
  have "s32 (uint (((ucast (0 :: u32) OR push_bit 32 (ucast (512 :: u32))) + ucast (1024 :: u32) - 1 :: u64) div ucast (1024 :: u32))) = - 2147483648" by code_simp
  then have n1: "used_blocks (um_e2fs (demo_vmount 0 512)) (ip 0 512) = Ret (- 2147483648)" unfolding used_blocks_def e demo_vmount_simps by simp
  have "s32 (uint (((ucast (1000 :: u32) OR push_bit 32 (ucast (0 :: u32))) + ucast (1024 :: u32) - 1 :: u64) div ucast (1024 :: u32))) = 1" by code_simp
  then have n2: "used_blocks (um_e2fs (demo_vmount 1000 0)) (ip 1000 0) = Ret 1" unfolding used_blocks_def e demo_vmount_simps by simp
  have "s32 (uint (((ucast (0 :: u32) OR push_bit 32 (ucast (1024 :: u32))) + ucast (1024 :: u32) - 1 :: u64) div ucast (1024 :: u32))) = 0" by code_simp
  then have n3: "used_blocks (um_e2fs (demo_vmount 0 1024)) (ip 0 1024) = Ret 0" unfolding used_blocks_def e demo_vmount_simps by simp
  note v = vget_clears_pointers [OF demo_vmount_simps(1) demo_vmount_simps(8) demo_vmount_simps(2) r demo_vmount_simps(3) ip_def, of _ _ _ False 0]
  show ?thesis using v [OF n1] v [OF n2] v [OF n3] e by (auto simp: eval_nat_numeral)
qed

section \<open>File handles\<close>

text \<open>C21. A file handle made by \<^verbatim>\<open>ext2_vptofh\<close> leads \<^verbatim>\<open>ext2_fhtovp\<close> back to the inode as long as it is the same generation of a live inode of the volume, and to
  \<^verbatim>\<open>ESTALE\<close> when the generation has changed, the inode has no links or mode, or the number is not one of the volume.\<close>

theorem handle_roundtrip:
  assumes "8 \<le> length fh" and in_vol: "EXT2_ROOTINO \<le> i_number ip" "vget (i_number ip) = Inr jp"
  shows "\<exists>fh'. ext2_vptofh ip fh = (0, 8, fh') \<and> length fh' = length fh \<and>
    ext2_fhtovp vget fs fh' = (if i_number ip \<le> e2fs_gcount fs * e2fs_ipg (e2fs fs) \<and> i_mode jp \<noteq> 0 \<and> i_gen jp = i_gen ip \<and> 0 < sint (i_nlink jp)
      then Inr jp else Inl ESTALE)"
proof -
  have l: "\<not> length fh < 8" using assms(1) by simp
  have i: "\<not> i_number ip < EXT2_ROOTINO" using in_vol(1) by simp
  show ?thesis unfolding ext2_vptofh_def if_not_P [OF l]
    using assms(1) i in_vol(2) by (auto simp: ext2_fhtovp_def fid_bytes_def Let_def not_less not_le)
qed

theorem handle_roundtrip_witness:
  "\<exists>fh'. ext2_fhtovp (\<lambda>n. Inr (zero_inode\<lparr>i_number := 12, i_mode := 0x81A4, i_nlink := 1, i_gen := 9\<rparr>)) (zero_fs\<lparr>e2fs_gcount := 1, e2fs := zero_sb\<lparr>e2fs_ipg := 16\<rparr>\<rparr>) fh' =
     Inr (zero_inode\<lparr>i_number := 12, i_mode := 0x81A4, i_nlink := 1, i_gen := 9\<rparr>)"
  using handle_roundtrip [of "replicate 8 0" "zero_inode\<lparr>i_number := 12, i_gen := 9\<rparr>"
      "\<lambda>n. Inr (zero_inode\<lparr>i_number := 12, i_mode := 0x81A4, i_nlink := 1, i_gen := 9\<rparr>)"
      "zero_inode\<lparr>i_number := 12, i_mode := 0x81A4, i_nlink := 1, i_gen := 9\<rparr>" "zero_fs\<lparr>e2fs_gcount := 1, e2fs := zero_sb\<lparr>e2fs_ipg := 16\<rparr>\<rparr>"]
  by (auto simp: EXT2_ROOTINO_def)

section \<open>\<^verbatim>\<open>ext2_valloc\<close>\<close>

text \<open>C17. \<^verbatim>\<open>ext2_valloc\<close> as a whole: \<^verbatim>\<open>ENOSPC\<close> exactly when no group with a readable bitmap has a free inode; otherwise one free inode number is taken and the inode of
  that number is handed out with no size, no blocks and no pointers and with a generation that is not zero. When it cannot be brought into core the error is returned and, on a
  volume that is mounted read-write and whose inode bitmaps can be read, the number is given back.\<close>

theorem valloc_correct:
  assumes ok: "inodes_ok ump" and lock: "\<not> um_lock ump" and home: "home_ok (um_e2fs ump) (i_number pip)"
    and len: "length (e2fs_contigdirs (um_e2fs ump)) = length (e2fs_gd (um_e2fs ump))"
  shows "if \<forall>k < length (e2fs_gd (um_e2fs ump)). \<not> inode_avail ump k
     then \<exists>ump'. ext2_valloc vget gen ts pip isroot r mode ump = Ret (Inl ENOSPC, ump') \<and> ino_set ump' = ino_set ump \<and> \<not> um_lock ump'
     else \<exists>ino ump1. took_inode ump (uint ino) ump1 \<and>
       (case vget ump1 ino (word_of_int mode) of
          Inr jp \<Rightarrow> ext2_valloc vget gen ts pip isroot r mode ump = Ret (Inr (valloc_init gen ts jp), ump1) \<and>
            i_size (valloc_init gen ts jp) = 0 \<and> i_blocks (valloc_init gen ts jp) = 0 \<and> i_gen (valloc_init gen ts jp) \<noteq> 0 \<and>
            i_db (valloc_init gen ts jp) @ i_ib (valloc_init gen ts jp) = replicate 15 0
        | Inl error \<Rightarrow> e2fs_ronly (um_e2fs ump1) = 0 \<and> (\<forall>k < length (e2fs_gd (um_e2fs ump1)). dev_rerr (um_devvp ump1) (i_addr (um_e2fs ump1) k) = 0) \<longrightarrow>
            (\<exists>ump'. ext2_valloc vget gen ts pip isroot r mode ump = Ret (Inl error, ump') \<and> ino_set ump' = ino_set ump \<and> \<not> um_lock ump'))"
proof -
  note v = valloc_ino_correct [OF ok lock home len, of isroot r mode]
  show ?thesis
  proof (cases "\<forall>k < length (e2fs_gd (um_e2fs ump)). \<not> inode_avail ump k")
    case True
    then show ?thesis using v by (auto simp: ext2_valloc_def)
  next
    case False
    have v2: "\<exists>ino ump'. valloc_ino pip isroot r mode ump = Ret (Inr ino, ump') \<and> took_inode ump (uint ino) ump'"
      using v unfolding if_not_P [OF False] .
    then obtain ino ump1 where a: "valloc_ino pip isroot r mode ump = Ret (Inr ino, ump1)" and t: "took_inode ump (uint ino) ump1" by blast
    obtain n where n: "uint ino = int n" "1 \<le> n" "n \<le> n_inodes (um_e2fs ump)" "n \<notin> ino_set ump" "ino_set ump1 = insert n (ino_set ump)"
      "n_inodes (um_e2fs ump1) = n_inodes (um_e2fs ump)" "inodes_ok ump1" "\<not> um_lock ump1" using t unfolding took_inode_def by blast
    have ino: "ino = word_of_nat n" using n(1) by (metis of_int_of_nat_eq word_of_int_uint)
    show ?thesis
    proof (cases "vget ump1 ino (word_of_int mode)")
      case (Inr jp)
      have half: "drop_bit 1 gen + 1 \<noteq> (0 :: u32)"
      proof
        assume "drop_bit 1 gen + 1 = (0 :: u32)"
        then have "drop_bit 1 gen = (- 1 :: u32)" by (simp add: eq_neg_iff_add_eq_0)
        then have "bit (drop_bit 1 gen) 31 = bit (- 1 :: u32) 31" by simp
        then show False by (auto simp: bit_drop_bit_eq dest: bit_imp_le_length)
      qed
      then have "i_gen (valloc_init gen ts jp) \<noteq> 0" by (simp add: valloc_init_def Let_def)
      moreover have "i_db (valloc_init gen ts jp) @ i_ib (valloc_init gen ts jp) = replicate 15 0"
        by (simp add: valloc_init_def Let_def eval_nat_numeral)
      ultimately show ?thesis using False t a Inr by (intro if_not_P [THEN iffD2] exI [of _ ino] exI [of _ ump1]) (simp_all add: ext2_valloc_def valloc_init_def Let_def)
    next
      case (Inl error)
      have "\<exists>ump'. ext2_valloc vget gen ts pip isroot r mode ump = Ret (Inl error, ump') \<and> ino_set ump' = ino_set ump \<and> \<not> um_lock ump'"
        if rw: "e2fs_ronly (um_e2fs ump1) = 0" and rd: "\<forall>k < length (e2fs_gd (um_e2fs ump1)). dev_rerr (um_devvp ump1) (i_addr (um_e2fs ump1) k) = 0"
      proof -
        obtain ump' where f: "ext2_vfree ino mode ump1 = Ret (0, ump')" "freed_inode ump1 n ump'"
          using vfree_spec [OF n(7,8,2) _ rw, of mode] rd n(3,5,6) ino by auto
        then have "ino_set ump' = ino_set ump" "\<not> um_lock ump'" using n(4,5) by (auto simp: freed_inode_def)
        then show ?thesis using a Inl f(1) by (simp add: ext2_valloc_def)
      qed
      then show ?thesis unfolding if_not_P [OF False] using t Inl by (intro exI [of _ ino] exI [of _ ump1]) simp
    qed
  qed
qed

theorem valloc_correct_witness:
  "\<exists>ino ump1. took_inode demo_imount (uint ino) ump1 \<and>
     ext2_valloc (\<lambda>u n m. Inr (zero_inode\<lparr>i_number := n\<rparr>)) 5 (0, 0) (zero_inode\<lparr>i_number := 2\<rparr>) False 7 0x41ed demo_imount =
       Ret (Inr (valloc_init 5 (0, 0) (zero_inode\<lparr>i_number := ino\<rparr>)), ump1)"
proof -
  have "inode_avail demo_imount 0" by (simp add: inode_avail_def demo_imount_simps)
  then have nav: "\<not> (\<forall>k < length (e2fs_gd (um_e2fs demo_imount)). \<not> inode_avail demo_imount k)"
    by (auto simp: demo_imount_simps intro!: exI [of _ 0])
  have h: "home_ok (um_e2fs demo_imount) (i_number (zero_inode\<lparr>i_number := 2\<rparr>))" using demo_home by simp
  have l: "length (e2fs_contigdirs (um_e2fs demo_imount)) = length (e2fs_gd (um_e2fs demo_imount))" by (simp add: demo_imount_simps)
  from valloc_correct [OF demo_inodes_ok demo_imount_simps(3) h l, where vget = "\<lambda>u n m. Inr (zero_inode\<lparr>i_number := n\<rparr>)",
    unfolded if_not_P [OF nav] sum.case] show ?thesis by blast
qed

section \<open>Two threads\<close>

lemma demo_vget: "\<exists>ip. vget_inode False 0 (demo_vmount 1000 0) 3 = Ret (Inr ip)"
proof -
  have r: "get_dinode (E2DI_HAS_XTIME (um_e2fs (demo_vmount lo hi))) (concat (replicate 8 (bytes_of_words (dinode_base (demo_dinode lo hi)))))
     (uint (e2fs_isize (um_e2fs (demo_vmount lo hi)) * 2)) = Ret (demo_dinode lo hi)" for lo hi
    using demo_dinode_read [of lo hi] by (simp add: demo_vmount_simps)
  define ip where "ip = ext2_ei2i (um_e2fs (demo_vmount 1000 0)) (demo_dinode 1000 0) (zero_inode\<lparr>i_number := 3\<rparr>)"
  have e: "i_size ip = ucast (1000 :: u32) OR push_bit 32 (ucast (0 :: u32))"
    by (simp add: ip_def ext2_ei2i_def Let_def demo_vmount_simps demo_dinode_def zero_dinode_def zero_inode_def S_ISREG_def IFMT_def IFREG_def)
  have "s32 (uint (((ucast (1000 :: u32) OR push_bit 32 (ucast (0 :: u32))) + ucast (1024 :: u32) - 1 :: u64) div ucast (1024 :: u32))) = 1" by code_simp
  then have n: "used_blocks (um_e2fs (demo_vmount 1000 0)) ip = Ret 1" unfolding used_blocks_def e demo_vmount_simps by simp
  from vget_pointers [OF demo_vmount_simps(1) demo_vmount_simps(8) demo_vmount_simps(2) r demo_vmount_simps(3) ip_def n, of False 0]
  show ?thesis by (auto split: if_split_asm)
qed

definition demo_env :: "ptr \<Rightarrow> vget_env" where
  "demo_env p = \<lparr>ve_ptr = Some p, ve_lockok = True, ve_rand = 0, ve_create = Inr (100 + p, 1)\<rparr>"

lemma fresh_cache: "\<exists>ih. cache_ok ih [] \<and> (\<forall>p. ih_nodes ih p = None)"
proof -
  obtain ih where ih: "table_reach ih []" "ext2_ihashinit 1000 True True no_table = Some (0, ih)" using fresh_table by blast
  have "ih_nodes ih = ih_nodes no_table" using ih(2) by (auto simp: ext2_ihashinit_def Let_def split: if_split_asm)
  then have "\<forall>p. ih_nodes ih p = None" by (simp add: no_table_def)
  moreover have "cache_ok ih []" using table_reach_hashed [OF ih(1)] by (simp add: cache_ok_def unique_keys_def)
  ultimately show ?thesis by blast
qed

lemma demo_create:
  assumes h: "hashed ih L" and p: "ih_nodes ih p = None"
  shows "\<exists>param ih'. vget_create (demo_env p) 0x1000 (demo_vmount 1000 0) False 3 vmode ih = Ret (Inr p, param, ih')"
proof -
  obtain ip where ip: "vget_inode False 0 (demo_vmount 1000 0) 3 = Ret (Inr ip)" using demo_vget by blast
  let ?n = "\<lparr>hn_ip = ip\<lparr>i_vid := 1\<rparr>, hn_ump = 0x1000, hn_vnode = Some (100 + p), le_next = None, le_prev = None\<rparr>"
  have pL: "p \<notin> set L" using h p by (auto simp: hashed_def)
  have "hashed (put_node ih p ?n) L" using hashed_change [OF h pL, of "Some ?n"] by (simp add: put_node_def)
  from ihashins_front [OF this _ pL, of ?n] obtain ih' where "ext2_ihashins p (put_node ih p ?n) = Ret ih'" by (auto simp: put_node_def)
  then show ?thesis using ip by (simp add: vget_create_def demo_env_def Let_def)
qed

theorem vget_one_inode_witness:
  "\<exists>ih ih' param. ext2_vget_typed (\<lambda>_. ih) (\<lambda>_ _ _. 0) (demo_env 1) 0x1000 (demo_vmount 1000 0) False 3 0 ih = Some (Ret (Inr 1, param, ih')) \<and>
     ext2_vget_typed (\<lambda>_. ih') (\<lambda>_ _ _. 0) (demo_env 2) 0x1000 (demo_vmount 1000 0) False 3 0 ih' = Some (Ret (Inr 1, None, ih'))"
proof -
  obtain ih where c: "cache_ok ih []" and f: "\<forall>p. ih_nodes ih p = None" using fresh_cache by blast
  then have h: "hashed ih []" by (simp add: cache_ok_def)
  obtain param ih' where v: "vget_create (demo_env 1) 0x1000 (demo_vmount 1000 0) False 3 0 ih = Ret (Inr 1, param, ih')"
    using demo_create [OF h] f by blast
  have r: "ext2_vget_typed (\<lambda>_. ih) (\<lambda>_ _ _. 0) (demo_env 1) 0x1000 (demo_vmount 1000 0) False 3 0 ih = Some (Ret (Inr 1, param, ih'))"
    using ihashget_alone [OF h, of "0x1000" 3] v by (simp add: ext2_vget_typed_def cached_def)
  from vget_one_inode [OF c _ r, of "demo_env 2" 0] f r show ?thesis by blast
qed

theorem vget_race_two_inodes_witness: "\<exists>ih2. hashed ih2 [2, 1] \<and> \<not> unique_keys (ih_nodes ih2) [2, 1]"
proof -
  obtain ih where c: "cache_ok ih []" and f: "\<forall>p. ih_nodes ih p = None" using fresh_cache by blast
  then have h: "hashed ih []" by (simp add: cache_ok_def)
  obtain param1 ih1 where v1: "vget_create (demo_env 1) 0x1000 (demo_vmount 1000 0) False 3 0 ih = Ret (Inr 1, param1, ih1)"
    using demo_create [OF h] f by blast
  from vget_create_front [OF h _ v1] f have h1: "hashed ih1 [1]" and s1: "\<And>q. q \<noteq> 1 \<Longrightarrow> rel_option same_node (ih_nodes ih q) (ih_nodes ih1 q)" by auto
  have "ih_nodes ih1 2 = None" using s1 [of 2] f by (cases "ih_nodes ih1 2") auto
  then obtain param2 ih2 where v2: "vget_create (demo_env 2) 0x1000 (demo_vmount 1000 0) False 3 0 ih1 = Ret (Inr 2, param2, ih2)"
    using demo_create [OF h1] by blast
  have e: "ve_ptr (demo_env 1) = Some 1" "ve_ptr (demo_env 2) = Some 2" "(1 :: ptr) \<noteq> 2" "cached ih 0x1000 3 [] = None" by (simp_all add: demo_env_def cached_def)
  from vget_race_two_inodes [OF c e(4,1-3) spec [OF f] spec [OF f] v1 v2] show ?thesis by blast
qed

end
