(* ===== verification/Ext2_CreateProps.thy ===== *)
theory Ext2_CreateProps
  imports Ext2_VnopProps Ext2_VgetProps
begin

text \<open>
  What \<^verbatim>\<open>ext2_create\<close> does as a whole: an inode taken from the bitmaps, written to its table, and entered in the directory.
\<close>

section \<open>What taking an inode leaves alone\<close>

lemma istatic_fields:
  assumes "istatic_fs fs' = istatic_fs fs"
  shows "e2fs_bsize fs' = e2fs_bsize fs" "e2fs_bshift fs' = e2fs_bshift fs" "e2fs_qbmask fs' = e2fs_qbmask fs" "fsbtodb fs' = fsbtodb fs"
    "e2fs_isize fs' = e2fs_isize fs" "E2DI_HAS_XTIME fs' = E2DI_HAS_XTIME fs" "ino_to_fsba fs' = ino_to_fsba fs" "ino_to_fsbo fs' = ino_to_fsbo fs"
    "ibitmap_addrs fs' = ibitmap_addrs fs" "n_inodes fs' = n_inodes fs" "ipg_of fs' = ipg_of fs" "e2fs_icount (e2fs fs') = e2fs_icount (e2fs fs)"
proof -
  note f = arg_cong [OF assms, unfolded istatic_fs_def]
  note g = f [of e2fs_gd, simplified]
  have fd: "e2fs_fsbtodb fs' = e2fs_fsbtodb fs" "e2fs_ipb fs' = e2fs_ipb fs" "m_e2fs_ipg fs' = m_e2fs_ipg fs"
    using f [of e2fs_fsbtodb] f [of e2fs_ipb] f [of m_e2fs_ipg] by simp_all
  have ip: "e2fs_ipg (e2fs fs') = e2fs_ipg (e2fs fs)" "e2fs_features_rocompat (e2fs fs') = e2fs_features_rocompat (e2fs fs)"
    using f [of "\<lambda>fs. e2fs_ipg (e2fs fs)"] f [of "\<lambda>fs. e2fs_features_rocompat (e2fs fs)"] by simp_all
  have l: "length (e2fs_gd fs') = length (e2fs_gd fs)" using arg_cong [OF g, of length] by simp
  have gd: "ext2bgd_i_tables (e2fs_gd fs' ! k) = ext2bgd_i_tables (e2fs_gd fs ! k)" "ext2bgd_i_bitmap (e2fs_gd fs' ! k) = ext2bgd_i_bitmap (e2fs_gd fs ! k)"
    if "k < length (e2fs_gd fs)" for k
    using arg_cong [OF g, of "\<lambda>xs. ext2bgd_i_tables (xs ! k)"] arg_cong [OF g, of "\<lambda>xs. ext2bgd_i_bitmap (xs ! k)"] that l by simp_all
  show "e2fs_bsize fs' = e2fs_bsize fs" "e2fs_bshift fs' = e2fs_bshift fs" "e2fs_qbmask fs' = e2fs_qbmask fs" "e2fs_isize fs' = e2fs_isize fs"
    using f [of e2fs_bsize] f [of e2fs_bshift] f [of e2fs_qbmask] f [of e2fs_isize] by simp_all
  show "e2fs_icount (e2fs fs') = e2fs_icount (e2fs fs)" using f [of "\<lambda>fs. e2fs_icount (e2fs fs)"] by simp
  show fb: "fsbtodb fs' = fsbtodb fs" by (rule ext) (simp add: fsbtodb_def fd)
  show "E2DI_HAS_XTIME fs' = E2DI_HAS_XTIME fs" by (simp add: E2DI_HAS_XTIME_def EXT2_HAS_RO_COMPAT_FEATURE_def ip)
  show "ino_to_fsbo fs' = ino_to_fsbo fs" by (rule ext) (simp add: ino_to_fsbo_def fd)
  show pg: "ipg_of fs' = ipg_of fs" by (simp add: ipg_of_def ip)
  then show "n_inodes fs' = n_inodes fs" by (simp add: n_inodes_def l)
  show "ibitmap_addrs fs' = ibitmap_addrs fs" by (auto simp: ibitmap_addrs_def i_addr_def fb l gd)
  have lt: "unat w < n \<longleftrightarrow> uint w < int n" for w :: u32 and n by (metis uint_nat of_nat_less_iff)
  show "ino_to_fsba fs' = ino_to_fsba fs"
  proof
    fix x
    show "ino_to_fsba fs' x = ino_to_fsba fs x"
      by (cases "unat ((x - 1) div m_e2fs_ipg fs) < length (e2fs_gd fs)")
        (simp_all add: ino_to_fsba_def ino_to_cg_def EXT2_GD_def rd_def fd ip l gd lt)
  qed
qed

lemma content_isame:
  assumes c: "dir_content direct_dir False u dp a ess" and s: "isame_vol u u'" and d: "a ` {..<length ess} \<inter> ibitmap_addrs (um_e2fs u) = {}"
  shows "dir_content direct_dir False u' dp a ess" "bsz u' = bsz u"
proof -
  have v: "dev_rerr (um_devvp u') = dev_rerr (um_devvp u)" "um_bptrtodb u' = um_bptrtodb u"
    and b: "\<And>x. x \<notin> ibitmap_addrs (um_e2fs u) \<Longrightarrow> dev_blk (um_devvp u') x = dev_blk (um_devvp u) x"
    and fs: "istatic_fs (um_e2fs u') = istatic_fs (um_e2fs u)" using s unfolding isame_vol_def by blast+
  note f = istatic_fields [OF fs]
  show z: "bsz u' = bsz u" by (simp add: bsz_def f)
  have "dir_geom u' = dir_geom u" by (simp add: dir_geom_def Let_def z f)
  then have "direct_dir u' dp a n = direct_dir u dp a n" for n by (simp add: direct_dir_def v)
  moreover have "dev_blk (um_devvp u') (a k) = dev_blk (um_devvp u) (a k)" if "k < length ess" for k
    using b d that by blast
  ultimately show "dir_content direct_dir False u' dp a ess" using c by (simp add: dir_content_def z)
qed

lemma ino_set_one_write:
  assumes "one_write u u' x" "x \<notin> ibitmap_addrs (um_e2fs u)"
  shows "ino_set u' = ino_set u" "ibitmap_addrs (um_e2fs u') = ibitmap_addrs (um_e2fs u)"
proof -
  obtain d where d: "u' = u\<lparr>um_devvp := d\<rparr>" "\<And>y. y \<noteq> x \<Longrightarrow> dev_blk d y = dev_blk (um_devvp u) y" using assms(1) unfolding one_write_def by blast
  have "i_bitmap u' k = i_bitmap u k" if "k < length (e2fs_gd (um_e2fs u))" for k
  proof -
    have "i_addr (um_e2fs u) k \<noteq> x" using assms(2) that by (auto simp: ibitmap_addrs_def)
    then show ?thesis by (simp add: i_bitmap_def d)
  qed
  then show "ino_set u' = ino_set u" using ino_group by (auto simp: ino_set_def d(1))
  show "ibitmap_addrs (um_e2fs u') = ibitmap_addrs (um_e2fs u)" by (simp add: d(1))
qed

text \<open>A device without failures, on which the slot of every inode lies within a block of the tables; none of these is in \<open>A\<close>.\<close>

definition table_ok :: "ext2mount \<Rightarrow> int set \<Rightarrow> bool" where
  "table_ok u A \<longleftrightarrow> dev_rerr (um_devvp u) = (\<lambda>x. 0) \<and> dev_werr (um_devvp u) = (\<lambda>x. 0) \<and> dev_nobuf (um_devvp u) = (\<lambda>x. False) \<and>
     (\<forall>ino :: u32. 1 \<le> unat ino \<and> unat ino \<le> n_inodes (um_e2fs u) \<longrightarrow>
        (\<exists>b k off. ino_to_fsba (um_e2fs u) ino = Ret b \<and> ino_to_fsbo (um_e2fs u) ino = Ret k \<and> fsbtodb (um_e2fs u) (uint b) \<notin> A \<and>
           uint (e2fs_isize (um_e2fs u) * k) = int off \<and>
           off + (if E2DI_HAS_XTIME (um_e2fs u) then 156 else 128) \<le> length (dev_blk (um_devvp u) (fsbtodb (um_e2fs u) (uint b)))))"

lemma table_update:
  assumes t: "table_ok u A" and s: "isame_vol u u1" and A: "ibitmap_addrs (um_e2fs u) \<subseteq> A"
    and n: "1 \<le> unat (i_number ip)" "unat (i_number ip) \<le> n_inodes (um_e2fs u)" and p: "length (i_db ip) = 12" "length (i_ib ip) = 3"
  obtains ip' u2 x where "ext2_update env w ip u1 = Ret (0, ip', u2)" "one_write u1 u2 x" "x \<notin> A" "updated ip ip'"
proof -
  have v: "dev_rerr (um_devvp u1) = (\<lambda>x. 0)" "dev_werr (um_devvp u1) = (\<lambda>x. 0)" "dev_nobuf (um_devvp u1) = (\<lambda>x. False)"
    using s t unfolding isame_vol_def table_ok_def by auto
  have b: "\<And>x. x \<notin> ibitmap_addrs (um_e2fs u) \<Longrightarrow> dev_blk (um_devvp u1) x = dev_blk (um_devvp u) x"
    and fs: "istatic_fs (um_e2fs u1) = istatic_fs (um_e2fs u)" using s unfolding isame_vol_def by blast+
  note f = istatic_fields [OF fs]
  obtain b k off where k: "ino_to_fsba (um_e2fs u1) (i_number ip) = Ret b" "ino_to_fsbo (um_e2fs u1) (i_number ip) = Ret k"
      "uint (e2fs_isize (um_e2fs u1) * k) = int off" "fsbtodb (um_e2fs u1) (uint b) \<notin> A"
      "off + (if E2DI_HAS_XTIME (um_e2fs u1) then 156 else 128) \<le> length (dev_blk (um_devvp u) (fsbtodb (um_e2fs u1) (uint b)))"
    using t n unfolding table_ok_def f by blast
  have "dev_blk (um_devvp u1) (fsbtodb (um_e2fs u1) (uint b)) = dev_blk (um_devvp u) (fsbtodb (um_e2fs u1) (uint b))" using b A k(4) by blast
  then obtain ip' u2 where u2: "ext2_update env w ip u1 = Ret (0, ip', u2)"
    using update_succeeds [OF k(1,2) v k(3) _ p] k(5) by metis
  from update_one_write [OF this k(1)] that [OF this] k(4) show ?thesis by blast
qed


section \<open>\<^verbatim>\<open>ext2_create\<close>\<close>

lemma drop_setgid_kept:
  "i_number (drop_setgid env ip) = i_number ip" "i_nlink (drop_setgid env ip) = i_nlink ip" "i_size (drop_setgid env ip) = i_size ip"
  "i_uid (drop_setgid env ip) = i_uid ip" "i_gid (drop_setgid env ip) = i_gid ip" "i_db (drop_setgid env ip) = i_db ip" "i_ib (drop_setgid env ip) = i_ib ip"
  by (simp_all add: drop_setgid_def)

text \<open>Entering a name, when the last block of the directory is in use, so that none is cut off.\<close>

lemma enter_in_slot:
  assumes c: "dir_content direct_dir False u dp a ess" "dir_distinct ess" and s: "slot_of u ess (new_need name) dp" "i_count dp \<noteq> 0"
    and l: "ess \<noteq> [] \<longrightarrow> (\<exists>e \<in> set (last ess). live e)" and n: "1 \<le> length name" "length name \<le> 255" "3 \<le> length junk" "dir_map ess name = None"
    and ino: "i_number ip \<noteq> 0" and w: "dev_werr (um_devvp u) = (\<lambda>x. 0)"
  obtains k es where "k < length ess" "dir_enter env junk ip dp name u = Ret (0, dir_modified dp, put_dents u (a k) es)"
    "dir_content direct_dir False (put_dents u (a k) es) (dir_modified dp) a (ess[k := es])"
    "dir_map (ess[k := es]) = (dir_map ess)(name \<mapsto> i_number ip)" "dir_distinct (ess[k := es])"
proof -
  have sane: "dir_sane False u (i_number ip)" by (simp add: dir_sane_def)
  let ?async = "doing_async (we_inode env)" and ?wr = "\<lambda>ump dp bs off. vn_write (synced True env) ump dp bs off"
  let ?trunc = "\<lambda>ump dp len. bnd (ext2_truncate (with_sync True (we_inode env)) len dp ump) (\<lambda>(error, dp, ump). Ret (error, ump, dp))"
  obtain k es m where k: "k < length ess" and m: "i_endoff dp = int m * int (bsz u)"
    and e: "ext2_direnter ?wr ?trunc ?async junk u ip dp name = Some (
      let e = put_err ?async u (a k); ump' = put_dents u (a k) es; dp' = dir_modified dp in
      if e = 0 \<and> 0 < m \<and> m < length ess then ?trunc ump' dp' (i_endoff dp) else Ret (e, ump', dp'))"
    and r: "dir_content direct_dir False (put_dents u (a k) es) (dir_modified dp) a (ess[k := es])"
      "dir_map (ess[k := es]) = (dir_map ess)(name \<mapsto> i_number ip)" "dir_distinct (ess[k := es])"
    using direct.direnter_slot [OF c(1) s n(1-3) ino sane n(4) c(2), of ?wr ?trunc ?async] by blast
  obtain m' where m': "i_endoff dp = int m' * int (bsz u)" "\<And>j. j < length ess \<Longrightarrow> \<exists>e \<in> set (ess ! j). live e \<Longrightarrow> j < m'"
    using s(1) unfolding slot_of_def by blast
  have "0 < bsz u" using bsz_bounds(1) [OF direct.content_geom [OF c(1)]] by simp
  then have "m = m'" using m m'(1) by simp
  moreover have "length ess - 1 < m'" using l k by (intro m'(2)) (auto simp: last_conv_nth)
  ultimately have "\<not> m < length ess" by simp
  then have "dir_enter env junk ip dp name u = Ret (0, dir_modified dp, put_dents u (a k) es)"
    unfolding dir_enter_def e by (simp add: ends_def put_err_def w)
  then show ?thesis using that k r by blast
qed

text \<open>C3. Creating a file, after the lookup of a name that is not there has found room for it in the directory. With no inode left the call
  fails with \<^verbatim>\<open>ENOSPC\<close> and takes none. Otherwise one inode that was free is in use afterwards and is handed out with one link,
  no bytes, and the owner and group of the caller and the directory; the directory maps the name to it and every other name as before.\<close>

theorem create_makes_file:
  assumes c: "dir_content direct_dir False u dp a ess" "dir_distinct ess" "ess \<noteq> [] \<longrightarrow> (\<exists>e \<in> set (last ess). live e)" "i_nlink dp \<noteq> 0"
    and n: "scan_creating cn" "dir_map ess (cn_name cn) = None" "1 \<le> length (cn_name cn)" "length (cn_name cn) \<le> 255"
    and l: "ext2_lookup_ino False rdonly cuid get vget u dp cn = Ret (Inl EJUSTRETURN, dp1)" "i_count dp1 \<noteq> 0"
    and v: "inodes_ok u" "\<not> um_lock u" "home_ok (um_e2fs u) (i_number dp)" "length (e2fs_contigdirs (um_e2fs u)) = length (e2fs_gd (um_e2fs u))"
    and t: "table_ok u (a ` {..<length ess} \<union> ibitmap_addrs (um_e2fs u))" "a ` {..<length ess} \<inter> ibitmap_addrs (um_e2fs u) = {}"
    and e: "caller env = Ret uid" "3 \<le> length (vn_junk env)" "\<And>u i m. \<exists>jp. vn_vget env u i m = Inr jp \<and> i_number jp = i"
  shows "if \<forall>k < length (e2fs_gd (um_e2fs u)). \<not> inode_avail u k
    then \<exists>u'. ext2_create env vap (cn_name cn) dp1 u = Ret (ENOSPC, None, dp1, u') \<and> ino_set u' = ino_set u
    else \<exists>ip dp' u' ess'. ext2_create env vap (cn_name cn) dp1 u = Ret (0, Some ip, dp', u') \<and>
      unat (i_number ip) \<in> {1..n_inodes (um_e2fs u)} - ino_set u \<and> ino_set u' = insert (unat (i_number ip)) (ino_set u) \<and>
      i_nlink ip = 1 \<and> i_size ip = 0 \<and> i_uid ip = uid \<and> i_gid ip = i_gid dp \<and>
      dir_content direct_dir False u' dp' a ess' \<and> dir_map ess' = (dir_map ess)(cn_name cn \<mapsto> i_number ip) \<and> dir_distinct ess'"
proof -
  obtain off count endoff where d1: "dp1 = dp\<lparr>i_offset := off, i_count := count, i_endoff := endoff\<rparr>" and s: "slot_of u ess (slot_needed cn) dp1"
    using direct.creating_create [OF c(1) n(1,2) c(4), of rdonly cuid get vget] l(1) by auto
  have nd: "slot_needed cn = new_need (cn_name cn)" using n(1) by (simp add: slot_needed_def new_need_def)
  have c1: "dir_content direct_dir False u dp1 a ess" by (rule direct.content_same [OF c(1)]) (simp add: d1 same_file_def)
  have dn: "i_number dp1 = i_number dp" "i_gid dp1 = i_gid dp" by (simp_all add: d1)
  define mode where "mode = (if MAKEIMODE vap AND IFMT = 0 then MAKEIMODE vap OR IFREG else MAKEIMODE vap)"
  note va = valloc_ino_correct [OF v(1,2) v(3) [folded dn(1)] v(4), of "vn_isroot env" "vn_rand env" "uint mode"]
  show ?thesis
  proof (cases "\<forall>k < length (e2fs_gd (um_e2fs u)). \<not> inode_avail u k")
    case True
    then obtain u' where "valloc_ino dp1 (vn_isroot env) (vn_rand env) (uint mode) u = Ret (Inl ENOSPC, u')" "ino_set u' = ino_set u"
      using va by auto
    then have "ext2_create env vap (cn_name cn) dp1 u = Ret (ENOSPC, None, dp1, u')"
      by (simp add: ext2_create_def ext2_makeinode_def Let_def mode_def [symmetric] new_inode_def ext2_valloc_def del: bnd_Ret_iff)
    then show ?thesis using True \<open>ino_set u' = ino_set u\<close> by auto
  next
    case False
    then obtain ino u1 where a1: "valloc_ino dp1 (vn_isroot env) (vn_rand env) (uint mode) u = Ret (Inr ino, u1)" and tk: "took_inode u (uint ino) u1"
      using va unfolding if_not_P [OF False] by blast
    obtain m where m: "uint ino = int m" "1 \<le> m" "m \<le> n_inodes (um_e2fs u)" "m \<notin> ino_set u" "ino_set u1 = insert m (ino_set u)" "isame_vol u u1"
      using tk unfolding took_inode_def by blast
    have un: "unat ino = m" by (metis m(1) uint_nat of_nat_eq_iff)
    obtain jp where jp: "vn_vget env u1 ino (word_of_int (uint mode)) = Inr jp" "i_number jp = ino" using e(3) by blast
    define ip0 where "ip0 = set_flag (IN_ACCESS OR IN_CHANGE OR IN_UPDATE) ((valloc_init (vn_gen env) (ie_now (file_env env)) jp)\<lparr>i_gid := i_gid dp1, i_uid := uid\<rparr>)"
    define ip where "ip = drop_setgid env (ip0\<lparr>i_mode := mode, i_nlink := 1\<rparr>)"
    have p: "i_number ip = ino" "i_nlink ip = 1" "i_size ip = 0" "i_uid ip = uid" "i_gid ip = i_gid dp" "length (i_db ip) = 12" "length (i_ib ip) = 3"
      by (simp_all add: ip_def drop_setgid_kept ip0_def set_flag_def valloc_init_def Let_def jp(2) dn(2))
    let ?w = "\<not> doing_async (file_env env)"
    obtain ip' u2 x where up: "ext2_update (file_env env) ?w ip u1 = Ret (0, ip', u2)" "one_write u1 u2 x"
      "x \<notin> a ` {..<length ess} \<union> ibitmap_addrs (um_e2fs u)" and ipu: "updated ip ip'"
      by (rule table_update [OF t(1) m(6), of ip "file_env env" ?w]) (use p m(2,3) un in auto)
    have p': "i_number ip' = ino" "i_nlink ip' = 1" "i_size ip' = 0" "i_uid ip' = uid" "i_gid ip' = i_gid dp"
      using ipu p by (simp_all add: updated_def)
    note k1 = content_isame [OF c1 m(6) t(2)]
    have "\<forall>k < length ess. a k \<noteq> x" using up(3) by auto
    note k2 = content_one_write [OF k1(1) up(2) this]
    have ib: "ibitmap_addrs (um_e2fs u1) = ibitmap_addrs (um_e2fs u)"
      by (rule istatic_fields(9)) (use m(6) in \<open>simp add: isame_vol_def\<close>)
    have i2: "ino_set u2 = ino_set u1" "ibitmap_addrs (um_e2fs u2) = ibitmap_addrs (um_e2fs u)"
      using ino_set_one_write [OF up(2)] up(3) ib by simp_all
    have "slot_of u2 ess (new_need (cn_name cn)) dp1" using s nd by (simp add: slot_of_def k1(2) k2(2))
    moreover have "dev_werr (um_devvp u2) = (\<lambda>x. 0)" using k2(4) m(6) t(1) by (simp add: isame_vol_def table_ok_def)
    moreover have "i_number ip' \<noteq> 0" using un m(2) by (auto simp: p'(1))
    ultimately obtain k es where k: "k < length ess" and
      en: "dir_enter (vn_dir env) (vn_junk env) ip' dp1 (cn_name cn) u2 = Ret (0, dir_modified dp1, put_dents u2 (a k) es)"
      and r: "dir_content direct_dir False (put_dents u2 (a k) es) (dir_modified dp1) a (ess[k := es])"
        "dir_map (ess[k := es]) = (dir_map ess)(cn_name cn \<mapsto> i_number ip')" "dir_distinct (ess[k := es])"
      using enter_in_slot [OF k2(1) c(2) _ l(2) c(3) n(3,4) e(2) n(2)] by metis
    have "a k \<notin> ibitmap_addrs (um_e2fs u2)" using k t(2) i2(2) by blast
    then have "ino_set (put_dents u2 (a k) es) = insert m (ino_set u)" using ino_set_one_write(1) [OF dents_one_write] i2(1) m(5) by simp
    moreover have "ext2_create env vap (cn_name cn) dp1 u = Ret (0, Some ip', dir_modified dp1, put_dents u2 (a k) es)"
      unfolding ext2_create_def ext2_makeinode_def Let_def mode_def [symmetric] new_inode_def ext2_valloc_def a1 bnd.simps prod.case sum.case jp(1) e(1)
        ip0_def [symmetric] ip_def [symmetric] up(1) en by simp
    ultimately show ?thesis unfolding if_not_P [OF False] using p' un m(2-4) r
      by (intro exI [of _ ip'] exI [of _ "dir_modified dp1"] exI [of _ "put_dents u2 (a k) es"] exI [of _ "ess[k := es]"]) simp
  qed
qed
section \<open>A volume of sixteen inodes\<close>

text \<open>The last inode is free; the directory in block 6 has the file \<^verbatim>\<open>a\<close>.\<close>

definition make_mount :: ext2mount where
  "make_mount = pair_mount\<lparr>
     um_devvp := (um_devvp pair_mount)\<lparr>dev_blk := (\<lambda>a. if a = 8 then 0xff # 0x7f # replicate 1022 0 else dev_blk (um_devvp pair_mount) a)\<rparr>,
     um_e2fs := (um_e2fs pair_mount)\<lparr>m_e2fs_ipg := 16, e2fs_contigdirs := [0],
       e2fs_gd := [zero_gd\<lparr>ext2bgd_b_bitmap := 3, ext2bgd_i_bitmap := 4, ext2bgd_i_tables := 20, ext2bgd_nifree := 1\<rparr>],
       e2fs := zero_sb\<lparr>e2fs_icount := 16, e2fs_ficount := 1, e2fs_rev := 1, e2fs_ipg := 16\<rparr>\<rparr>\<rparr>"

abbreviation make_cn :: componentname where
  "make_cn \<equiv> \<lparr>cn_nameiop = CREATE, cn_islast = True, cn_name = [0x62]\<rparr>"

definition make_env :: vnop_env where
  "make_env = \<lparr>vn_dir = pair_env 0, vn_file = pair_env 1, vn_ismember = (\<lambda>g. (0, True)), vn_junk = [0, 0, 0],
     vn_vget = (\<lambda>u n m. Inr (zero_inode\<lparr>i_number := n\<rparr>)), vn_gen = 5, vn_isroot = False, vn_rand = 7\<rparr>"

definition make_attr :: vnode_attr where
  "make_attr = \<lparr>va_type = IFREG, va_mode = Some 0x1A4, va_uid = None, va_gid = None, va_flags = None, va_data_size = None, va_access_time = None,
     va_modify_time = None, va_create_time = None, va_rdev = None\<rparr>"

lemma make_simps:
  "ipg_of (um_e2fs make_mount) = 16" "length (e2fs_gd (um_e2fs make_mount)) = 1" "\<not> um_lock make_mount" "length (e2fs_contigdirs (um_e2fs make_mount)) = 1"
  "i_bitmap make_mount 0 = 0xff # 0x7f # replicate 1022 0" "ibitmap_addrs (um_e2fs make_mount) = {8}" "n_inodes (um_e2fs make_mount) = 16"
  "ext2bgd_nifree (e2fs_gd (um_e2fs make_mount) ! 0) = 1" "dev_rerr (um_devvp make_mount) = (\<lambda>a. 0)" "dev_werr (um_devvp make_mount) = (\<lambda>a. 0)"
  "dev_nobuf (um_devvp make_mount) = (\<lambda>a. False)"
  by (simp_all add: make_mount_def pair_mount_def ipg_of_def i_bitmap_def i_addr_def fsbtodb_def push_bit_eq_mult ibitmap_addrs_def n_inodes_def lessThan_Suc)

lemma make_inodes_ok: "inodes_ok make_mount"
proof -
  have f: "nfree (0xff # 0x7f # replicate 1022 0) 16 = 1" by code_simp
  have "igroup_ok make_mount 0" by (simp add: igroup_ok_def make_simps f)
  moreover have "igeom_ok (um_e2fs make_mount)" by (simp add: igeom_ok_def make_simps) (simp add: make_mount_def pair_mount_def)
  ultimately show ?thesis by (simp add: inodes_ok_def make_simps) (simp add: make_mount_def)
qed

lemma make_content: "dir_content direct_dir False make_mount (pair_dir 7 6) (\<lambda>k. 12) [typed_dents 2]"
proof -
  have b: "bsz make_mount = 1024" by (simp add: bsz_def make_mount_def pair_mount_def)
  have "dir_geom make_mount" by (simp add: dir_geom_def Let_def b) (simp add: make_mount_def pair_mount_def)
  then have d: "direct_dir make_mount (pair_dir 7 6) (\<lambda>k. 12) 1"
    unfolding direct_dir_def by (simp add: make_mount_def pair_mount_def pair_dir_def zero_inode_def push_bit_eq_mult)
  have o: "block_ok 1024 (typed_dents 2)" by (simp add: block_ok_def typed_dents_def dent_ok_def dent_needs)
  show ?thesis unfolding dir_content_def using d o by (simp add: b pair_dir_def) (simp add: make_mount_def pair_mount_def)
qed

lemma make_table: "table_ok make_mount {12, 8}"
proof -
  have "\<exists>b k off. ino_to_fsba (um_e2fs make_mount) ino = Ret b \<and> ino_to_fsbo (um_e2fs make_mount) ino = Ret k \<and>
      fsbtodb (um_e2fs make_mount) (uint b) \<notin> {12, 8} \<and> uint (e2fs_isize (um_e2fs make_mount) * k) = int off \<and>
      off + (if E2DI_HAS_XTIME (um_e2fs make_mount) then 156 else 128) \<le> length (dev_blk (um_devvp make_mount) (fsbtodb (um_e2fs make_mount) (uint b)))"
    if i: "1 \<le> unat ino" "unat ino \<le> 16" for ino :: u32
  proof -
    have "unat ino \<in> set [1..<17]" using i by simp
    moreover have "ino = word_of_nat (unat ino)" by simp
    ultimately have "ino \<in> word_of_nat ` set [1..<17]" by (rule rev_image_eqI)
    moreover have "[1..<17] = [1, 2, 3, 4, 5, 6, 7, 8, 9, 10, 11, 12, 13, 14, 15, 16 :: nat]" by (simp add: upt_rec)
    ultimately have "ino \<in> word_of_nat ` set [1, 2, 3, 4, 5, 6, 7, 8, 9, 10, 11, 12, 13, 14, 15, 16 :: nat]" by (simp only:)
    then have c: "ino \<in> {1, 2, 3, 4, 5, 6, 7, 8, 9, 10, 11, 12, 13, 14, 15, 16}" by simp
    define b where "b = 20 + ((ino - 1) mod 16) div 8"
    define k where "k = (ino - 1) mod 8"
    have "(ino - 1) div 16 = 0" "b \<in> {20, 21}" "k \<in> {0, 1, 2, 3, 4, 5, 6, 7}" using c by (auto simp: b_def k_def)
    then have a: "ino_to_fsba (um_e2fs make_mount) ino = Ret b" "ino_to_fsbo (um_e2fs make_mount) ino = Ret k"
      by (simp_all add: ino_to_fsba_def ino_to_fsbo_def ino_to_cg_def EXT2_GD_def rd_def b_def k_def make_mount_def pair_mount_def)
    have x: "E2DI_HAS_XTIME (um_e2fs make_mount) = False" "e2fs_isize (um_e2fs make_mount) = 128"
      by (simp_all add: E2DI_HAS_XTIME_def EXT2_HAS_RO_COMPAT_FEATURE_def make_mount_def pair_mount_def zero_sb_def)
    have k: "unat (128 * k) + 128 \<le> 1024" using \<open>k \<in> _\<close> by auto
    have d: "fsbtodb (um_e2fs make_mount) (uint b) \<in> {40, 42}"
      using \<open>b \<in> _\<close> by (auto simp: fsbtodb_def make_mount_def pair_mount_def push_bit_eq_mult)
    have "length (dev_blk (um_devvp make_mount) x) = 1024" if "x \<in> {40, 42}" for x
      using that by (auto simp: make_mount_def pair_mount_def)
    note len = this [OF d]
    have nd: "fsbtodb (um_e2fs make_mount) (uint b) \<notin> {12, 8}" using d by auto
    have off: "uint (e2fs_isize (um_e2fs make_mount) * k) = int (unat (128 * k))" unfolding x by (rule uint_nat)
    have fit: "unat (128 * k) + (if E2DI_HAS_XTIME (um_e2fs make_mount) then 156 else 128) \<le>
        length (dev_blk (um_devvp make_mount) (fsbtodb (um_e2fs make_mount) (uint b)))" unfolding x len using k by simp
    show ?thesis using a nd off fit by blast
  qed
  then show ?thesis by (simp add: table_ok_def make_simps)
qed

lemma make_lookup:
  "\<exists>dp1. ext2_lookup_ino False False 0 0 (\<lambda>n. Inl ENOENT) make_mount (pair_dir 7 6) make_cn = Ret (Inl EJUSTRETURN, dp1) \<and> i_count dp1 = 1000"
proof -
  have m: "dir_map [typed_dents 2] [0x62] = None" unfolding dir_map_def demo_names by simp
  have cr: "scan_creating make_cn" by (simp add: scan_creating_def)
  let ?s = "snd (dir_scan (slot_needed make_cn) [0x62] [typed_dents 2] (scan_start make_cn))"
  have ds: "dir_search False False make_mount (pair_dir 7 6) make_cn = Ret (Inr (None, 1, ?s))"
    using direct.search_all [OF make_content, of make_cn False] m by simp
  have st: "sc_status ?s \<noteq> NONE \<and> sc_slotsize ?s = 1000"
    by (simp add: typed_dents_def slot_needed_def scan_start_def cr block_enter_def ent_matches_def dent_name_def ent_slot_def ent_next_def slot_step_def
        dent_needs rec_len Let_def)
  show ?thesis unfolding ext2_lookup_ino_def ds using st
    by (simp add: lookup_notfound_def Let_def cr pair_dir_def)
qed

theorem create_makes_file_witness:
  "\<exists>ip dp dp' u' ess'. ext2_create make_env make_attr [0x62] dp make_mount = Ret (0, Some ip, dp', u') \<and> i_number ip = 16 \<and> i_nlink ip = 1 \<and>
     16 \<notin> ino_set make_mount \<and> 16 \<in> ino_set u' \<and> dir_content direct_dir False u' dp' (\<lambda>k. 12) ess' \<and> dir_map ess' [0x61] = Some 12 \<and> dir_map ess' [0x62] = Some 16"
proof -
  obtain dp1 where dp1: "ext2_lookup_ino False False 0 0 (\<lambda>n. Inl ENOENT) make_mount (pair_dir 7 6) make_cn = Ret (Inl EJUSTRETURN, dp1)" "i_count dp1 \<noteq> 0"
    using make_lookup by auto
  have m: "dir_map [typed_dents 2] [0x62] = None" unfolding dir_map_def demo_names by simp
  have lv: "[typed_dents 2] \<noteq> [] \<longrightarrow> (\<exists>e \<in> set (last [typed_dents 2]). live e)" by (simp add: typed_dents_def live_def)
  have av: "inode_avail make_mount 0" by (simp add: inode_avail_def make_simps)
  have s: "ino_set make_mount = {1..15}"
  proof -
    have "used (0xff # 0x7f # replicate 1022 0) i = (i \<noteq> 15)" if "i \<in> set [0..<16]" for i
    proof -
      have "\<forall>i \<in> set [0..<16]. used (0xff # 0x7f # replicate 1022 0) i = (i \<noteq> 15)" by code_simp
      then show ?thesis using that by blast
    qed
    then have "used (0xff # 0x7f # replicate 1022 0) i = (i \<noteq> 15)" if "i < 16" for i using that by simp
    then show ?thesis by (auto simp: ino_set_def make_simps)
  qed
  have h: "home_ok (um_e2fs make_mount) (i_number (pair_dir 7 6))"
    by (simp add: home_ok_def make_simps) (simp add: make_mount_def pair_dir_def)
  have e: "caller make_env = Ret 0" "3 \<le> length (vn_junk make_env)" "\<exists>jp. vn_vget make_env u i m = Inr jp \<and> i_number jp = i" for u i m
    by (simp_all add: make_env_def pair_env_def pair_ienv_def)
  have t: "table_ok make_mount ((\<lambda>k. 12) ` {..<length [typed_dents 2]} \<union> ibitmap_addrs (um_e2fs make_mount))"
    using make_table by (simp add: make_simps lessThan_Suc insert_commute)
  have f: "i_nlink (pair_dir 7 6) \<noteq> 0" "scan_creating make_cn" "dir_map [typed_dents 2] (cn_name make_cn) = None" "1 \<le> length (cn_name make_cn)"
    "length (cn_name make_cn) \<le> 255" "length (e2fs_contigdirs (um_e2fs make_mount)) = length (e2fs_gd (um_e2fs make_mount))"
    "(\<lambda>k. 12) ` {..<length [typed_dents 2]} \<inter> ibitmap_addrs (um_e2fs make_mount) = {}"
    using m by (simp_all add: make_simps scan_creating_def pair_dir_def lessThan_Suc)
  have nav: "\<not> (\<forall>k < length (e2fs_gd (um_e2fs make_mount)). \<not> inode_avail make_mount k)" using av by (auto simp: make_simps)
  obtain ip dp' u' ess' where r: "ext2_create make_env make_attr (cn_name make_cn) dp1 make_mount = Ret (0, Some ip, dp', u')"
      "unat (i_number ip) \<in> {1..n_inodes (um_e2fs make_mount)} - ino_set make_mount" "ino_set u' = insert (unat (i_number ip)) (ino_set make_mount)"
      "i_nlink ip = 1" "dir_content direct_dir False u' dp' (\<lambda>k. 12) ess'"
      "dir_map ess' = (dir_map [typed_dents 2])(cn_name make_cn \<mapsto> i_number ip)"
    using create_makes_file [OF make_content demo_distinct lv f(1-5) dp1 make_inodes_ok make_simps(3) h f(6) t f(7) e, of make_attr,
      unfolded if_not_P [OF nav]] by blast
  have u16: "unat (i_number ip) = 16" using r(2) unfolding make_simps s by auto
  have "i_number ip = word_of_nat (unat (i_number ip))" by simp
  then have n: "i_number ip = 16" unfolding u16 by simp
  have "dir_map [typed_dents 2] [0x61] = Some 12" by (rule pair_names)
  then show ?thesis using r n s u16 by (intro exI [of _ ip] exI [of _ dp1] exI [of _ dp'] exI [of _ u'] exI [of _ ess']) simp
qed
end
