(* ===== verification/Ext2_SuperProps.thy ===== *)
theory Ext2_SuperProps
  imports Ext2_Super Ext2_Bmap
begin

text \<open>
  What a mount guarantees: the geometry in memory, the superblock on the device between mount
  and unmount, and the volumes that are refused; and where the error path frees twice.
\<close>

section \<open>The superblock on the device\<close>

definition sb_shape :: "ext2fs \<Rightarrow> bool" where
  "sb_shape es \<longleftrightarrow> length (e2fs_uuid es) = 16 \<and> length (e2fs_vname es) = 16 \<and> length (e2fs_fsmnt es) = 64 \<and>
     length (e3fs_journal_uuid es) = 16 \<and> length (e3fs_hash_seed es) = 4 \<and> length (e3fs_jnl_blks es) = 17 \<and> length (reserved2 es) = 160"

lemma words_of_append: "4 dvd length xs \<Longrightarrow> words_of (xs @ ys) = words_of xs @ words_of ys"
proof (induction xs rule: words_of.induct)
  case (1 a b c d r)
  then have "4 dvd length r + 4" by (simp add: numeral_eq_Suc)
  then have "4 dvd length r" by presburger
  then show ?case using 1 by simp
qed (auto dest: dvd_imp_le)

lemma u64_of_halves [simp]: "u64_of (lo32 w) (hi32 w) = w"
  unfolding u64_of_def lo32_def hi32_def by (rule join32)

lemma hi16_packed: "words_of ([a, b] @ bytes16 w) = [join16 (le16 [a, b]) w]"
proof -
  obtain c d where cd: "bytes16 w = [c, d]" by (simp add: bytes16_def)
  then have "le16 [c, d] = w" using le16_bytes16 [of w] by simp
  moreover have "le32 [a, b, c, d] = join16 (le16 [a, b]) (le16 [c, d])"
    by (rule bit_word_eqI) (auto simp: join16_def bit_ucast_wide bit_or_iff bit_push_bit_iff dest: bit_imp_le_length)
  ultimately show ?thesis using cd by (simp del: le32.simps le16.simps)
qed

lemma sb_roundtrip:
  assumes "sb_shape es"
  shows "sb_of (sb_bytes es) = es" "length (sb_bytes es) = 1024"
proof -
  note L = assms [unfolded sb_shape_def]
  define W1 where "W1 = [e2fs_icount es, e2fs_bcount es, e2fs_rbcount es, e2fs_fbcount es, e2fs_ficount es, e2fs_first_dblock es,
       e2fs_log_bsize es, e2fs_log_fsize es, e2fs_bpg es, e2fs_fpg es, e2fs_ipg es, e2fs_mtime es, e2fs_wtime es,
       join16 (e2fs_mnt_count es) (e2fs_max_mnt_count es), join16 (e2fs_magic es) (e2fs_state es), join16 (e2fs_beh es) (e2fs_minrev es),
       e2fs_lastfsck es, e2fs_fsckintv es, e2fs_creator es, e2fs_rev es, join16 (e2fs_ruid es) (e2fs_rgid es), e2fs_first_ino es,
       join16 (e2fs_inode_size es) (e2fs_block_group_nr es), e2fs_features_compat es, e2fs_features_incompat es, e2fs_features_rocompat es]"
  define P1 where "P1 = [e2fs_prealloc es, e2fs_dir_prealloc es] @ bytes16 (e2fs_reserved_ngdb es)"
  define W2 where "W2 = [e3fs_journal_inum es, e3fs_journal_dev es, e3fs_last_orphan es]"
  define P2 where "P2 = [e3fs_def_hash_version es, e3fs_jnl_backup_type es] @ bytes16 (e3fs_desc_size es)"
  define W3 where "W3 = [e3fs_default_mount_opts es, e3fs_first_meta_bg es, e3fs_mkfs_time es]"
  define W4 where "W4 = [e4fs_bcount_hi es, e4fs_rbcount_hi es, e4fs_fbcount_hi es, join16 (e4fs_min_extra_isize es) (e4fs_want_extra_isize es),
        e4fs_flags es, join16 (e4fs_raid_stride es) (e4fs_mmpintv es), lo32 (e4fs_mmpblk es), hi32 (e4fs_mmpblk es), e4fs_raid_stripe_wid es]"
  define P3 where "P3 = [e4fs_log_gpf es, e4fs_char_pad2 es] @ bytes16 (e4fs_pad es)"
  define W5 where "W5 = [lo32 (e4fs_kbytes_written es), hi32 (e4fs_kbytes_written es)]"
  define S where "S = sb_bytes es"
  have S: "S = bytes_of_words W1 @ e2fs_uuid es @ e2fs_vname es @ e2fs_fsmnt es @ bytes_of_words [e2fs_algo es] @ P1 @ e3fs_journal_uuid es @
      bytes_of_words (W2 @ e3fs_hash_seed es) @ P2 @ bytes_of_words (W3 @ e3fs_jnl_blks es @ W4) @ P3 @ bytes_of_words (W5 @ reserved2 es)"
    by (simp add: S_def sb_bytes_def W1_def P1_def W2_def P2_def W3_def W4_def P3_def W5_def bytes_of_words_def)
  have l: "length W1 = 26" "length W2 = 3" "length W3 = 3" "length W4 = 9" "length W5 = 2" "length P1 = 4" "length P2 = 4" "length P3 = 4"
    by (simp_all add: W1_def P1_def W2_def P2_def W3_def W4_def P3_def W5_def)
  have p: "words_of P1 = [join16 (le16 [e2fs_prealloc es, e2fs_dir_prealloc es]) (e2fs_reserved_ngdb es)]"
    "words_of P2 = [join16 (le16 [e3fs_def_hash_version es, e3fs_jnl_backup_type es]) (e3fs_desc_size es)]"
    "words_of P3 = [join16 (le16 [e4fs_log_gpf es, e4fs_char_pad2 es]) (e4fs_pad es)]"
    unfolding P1_def P2_def P3_def by (rule hi16_packed)+
  have W: "words_of S = W1 @ words_of (e2fs_uuid es) @ words_of (e2fs_vname es) @ words_of (e2fs_fsmnt es) @ [e2fs_algo es] @ words_of P1 @
      words_of (e3fs_journal_uuid es) @ (W2 @ e3fs_hash_seed es) @ words_of P2 @ (W3 @ e3fs_jnl_blks es @ W4) @ words_of P3 @ (W5 @ reserved2 es)"
    unfolding S using L l by (simp add: words_of_append del: append.simps)
  have wl: "length (words_of (e2fs_uuid es)) = 4" "length (words_of (e2fs_vname es)) = 4" "length (words_of (e2fs_fsmnt es)) = 16"
    "length (words_of (e3fs_journal_uuid es)) = 4" "length (words_of P1) = 1" "length (words_of P2) = 1" "length (words_of P3) = 1"
    using L l by (simp_all add: length_words_of)
  show "length (sb_bytes es) = 1024" using L l unfolding S_def [symmetric] S by simp
  have n1: "k < 26 \<Longrightarrow> words_of S ! k = W1 ! k" for k unfolding W using l by (simp add: nth_append)
  have n2: "words_of S ! 50 = e2fs_algo es" "words_of S ! 51 = words_of P1 ! 0" "words_of S ! 63 = words_of P2 ! 0"
    "words_of S ! 93 = words_of P3 ! 0" "take 4 (drop 59 (words_of S)) = e3fs_hash_seed es" "take 17 (drop 67 (words_of S)) = e3fs_jnl_blks es"
    "take 160 (drop 96 (words_of S)) = reserved2 es"
    unfolding W using l wl L by (simp_all add: nth_append)
  have n3: "k < 3 \<Longrightarrow> words_of S ! (56 + k) = W2 ! k" "k < 3 \<Longrightarrow> words_of S ! (64 + k) = W3 ! k"
    "k < 9 \<Longrightarrow> words_of S ! (84 + k) = W4 ! k" "k < 2 \<Longrightarrow> words_of S ! (94 + k) = W5 ! k" for k
    unfolding W using l wl L by (simp_all add: nth_append)
  have b: "take 16 (drop 104 S) = e2fs_uuid es" "take 16 (drop 120 S) = e2fs_vname es" "take 64 (drop 136 S) = e2fs_fsmnt es"
    "take 16 (drop 208 S) = e3fs_journal_uuid es" "S ! 204 = P1 ! 0" "S ! 205 = P1 ! 1" "S ! 252 = P2 ! 0" "S ! 253 = P2 ! 1"
    "S ! 372 = P3 ! 0" "S ! 373 = P3 ! 1"
    unfolding S using l L by (simp_all add: nth_append)
  have w1: "words_of S ! 0 = e2fs_icount es" "words_of S ! 1 = e2fs_bcount es" "words_of S ! 2 = e2fs_rbcount es" "words_of S ! 3 = e2fs_fbcount es"
    "words_of S ! 4 = e2fs_ficount es" "words_of S ! 5 = e2fs_first_dblock es" "words_of S ! 6 = e2fs_log_bsize es" "words_of S ! 7 = e2fs_log_fsize es"
    "words_of S ! 8 = e2fs_bpg es" "words_of S ! 9 = e2fs_fpg es" "words_of S ! 10 = e2fs_ipg es" "words_of S ! 11 = e2fs_mtime es"
    "words_of S ! 12 = e2fs_wtime es" "words_of S ! 13 = join16 (e2fs_mnt_count es) (e2fs_max_mnt_count es)"
    "words_of S ! 14 = join16 (e2fs_magic es) (e2fs_state es)" "words_of S ! 15 = join16 (e2fs_beh es) (e2fs_minrev es)"
    "words_of S ! 16 = e2fs_lastfsck es" "words_of S ! 17 = e2fs_fsckintv es" "words_of S ! 18 = e2fs_creator es" "words_of S ! 19 = e2fs_rev es"
    "words_of S ! 20 = join16 (e2fs_ruid es) (e2fs_rgid es)" "words_of S ! 21 = e2fs_first_ino es"
    "words_of S ! 22 = join16 (e2fs_inode_size es) (e2fs_block_group_nr es)" "words_of S ! 23 = e2fs_features_compat es"
    "words_of S ! 24 = e2fs_features_incompat es" "words_of S ! 25 = e2fs_features_rocompat es"
    by (simp_all add: n1 W1_def)
  have w2: "words_of S ! 56 = e3fs_journal_inum es" "words_of S ! 57 = e3fs_journal_dev es" "words_of S ! 58 = e3fs_last_orphan es"
    "words_of S ! 64 = e3fs_default_mount_opts es" "words_of S ! 65 = e3fs_first_meta_bg es" "words_of S ! 66 = e3fs_mkfs_time es"
    using n3(1,2) [of 0] n3(1,2) [of 1] n3(1,2) [of 2] by (simp_all add: W2_def W3_def)
  have w3: "words_of S ! 84 = e4fs_bcount_hi es" "words_of S ! 85 = e4fs_rbcount_hi es" "words_of S ! 86 = e4fs_fbcount_hi es"
    "words_of S ! 87 = join16 (e4fs_min_extra_isize es) (e4fs_want_extra_isize es)" "words_of S ! 88 = e4fs_flags es"
    "words_of S ! 89 = join16 (e4fs_raid_stride es) (e4fs_mmpintv es)" "words_of S ! 90 = lo32 (e4fs_mmpblk es)"
    "words_of S ! 91 = hi32 (e4fs_mmpblk es)" "words_of S ! 92 = e4fs_raid_stripe_wid es"
    "words_of S ! 94 = lo32 (e4fs_kbytes_written es)" "words_of S ! 95 = hi32 (e4fs_kbytes_written es)"
    using n3(3) [of 0] n3(3) [of 1] n3(3) [of 2] n3(3) [of 3] n3(3) [of 4] n3(3) [of 5] n3(3) [of 6] n3(3) [of 7] n3(3) [of 8]
      n3(4) [of 0] n3(4) [of 1] by (simp_all add: W4_def W5_def)
  have "sb_of S = es"
    unfolding sb_of_def Let_def w1 w2 w3 b n2 p by (simp add: P1_def P2_def P3_def)
  then show "sb_of (sb_bytes es) = es" by (simp add: S_def)
qed


lemma sb_of_shape: "1024 \<le> length bs \<Longrightarrow> sb_shape (sb_of bs)"
  by (simp add: sb_shape_def sb_of_def Let_def length_words_of)

section \<open>The steps of a mount\<close>

lemma journal_replay_keeps:
  assumes "ext2_journal_replay dev fs = Some (Ret (dev', fs'))"
  shows "\<exists>j m. fs' = fs\<lparr>e2fs := (e2fs fs)\<lparr>e3fs_jnl_blks := j\<rparr>, e2fs_fmod := m\<rparr> \<and> length j = length (e3fs_jnl_blks (e2fs fs))"
proof -
  have "fs' = fs \<or> (\<exists>q. fs' = fs\<lparr>e2fs := (e2fs fs)\<lparr>e3fs_jnl_blks := (e3fs_jnl_blks (e2fs fs))[0 := 0, 1 := q]\<rparr>, e2fs_fmod := 1\<rparr>)"
    using assms unfolding ext2_journal_replay_def Let_def by (auto split: if_splits option.splits outcome.splits prod.splits)
  then show ?thesis
  proof
    assume "fs' = fs"
    then show ?thesis by (intro exI [of _ "e3fs_jnl_blks (e2fs fs)"] exI [of _ "e2fs_fmod fs"]) simp
  next
    assume "\<exists>q. fs' = fs\<lparr>e2fs := (e2fs fs)\<lparr>e3fs_jnl_blks := (e3fs_jnl_blks (e2fs fs))[0 := 0, 1 := q]\<rparr>, e2fs_fmod := 1\<rparr>"
    then obtain q where "fs' = fs\<lparr>e2fs := (e2fs fs)\<lparr>e3fs_jnl_blks := (e3fs_jnl_blks (e2fs fs))[0 := 0, 1 := q]\<rparr>, e2fs_fmod := 1\<rparr>" ..
    then show ?thesis by (intro exI [of _ "(e3fs_jnl_blks (e2fs fs))[0 := 0, 1 := q]"] exI [of _ 1]) simp
  qed
qed

lemma mountfs_steps:
  assumes "ext2_mountfs nomem dev ronly force = Some (Ret (Inr ump))"
  obtains fs1 dev2 fs2 fs3 where "dev_rerr dev SBLOCK = 0" "mount_check (sb_of (dev_blk dev SBLOCK)) ronly force = 0"
    "compute_sb_data nomem dev (zero_fs\<lparr>e2fs := sb_of (dev_blk dev SBLOCK)\<rparr>) = Ret (Inr fs1)"
    "\<exists>j m. fs2 = fs1\<lparr>e2fs_ronly := (if ronly then 1 else 0), e2fs := (e2fs fs1)\<lparr>e3fs_jnl_blks := j\<rparr>, e2fs_fmod := m\<rparr> \<and>
       length j = length (e3fs_jnl_blks (e2fs fs1)) \<and> (e2fs_features_incompat (e2fs fs1) AND EXT2F_INCOMPAT_RECOVER = 0 \<longrightarrow> j = e3fs_jnl_blks (e2fs fs1))"
    "mount_clusters nomem fs2 = Ret (Inr fs3)" "ump = mount_finish dev2 fs3 ronly"
proof -
  let ?es = "sb_of (dev_blk dev SBLOCK)"
  let ?c = "compute_sb_data nomem dev (zero_fs\<lparr>e2fs := ?es\<rparr>)"
  have r: "dev_rerr dev SBLOCK = 0"
  proof (rule ccontr)
    assume "dev_rerr dev SBLOCK \<noteq> 0"
    then have "ext2_mountfs nomem dev ronly force = Some (Ret (Inl (dev_rerr dev SBLOCK)))"
      unfolding ext2_mountfs_def by (simp add: buf_meta_bread_def)
    then show False using assms by simp
  qed
  have m: "ext2_mountfs nomem dev ronly force =
     (if mount_check ?es ronly force \<noteq> 0 then Some (Ret (Inl (mount_check ?es ronly force)))
          else if nomem AUmp \<or> nomem AFs \<or> nomem ASb \<or> nomem ALock then Some (Ret (Inl ENOMEM))
          else
            case ?c of
              Fault f \<Rightarrow> Some (Fault f)
            | Ret (Inl (error, freed)) \<Rightarrow> Some (if freed then Fault Undef else Ret (Inl error))
            | Ret (Inr fs) \<Rightarrow>
                let fs = fs\<lparr>e2fs_ronly := (if ronly then 1 else 0)\<rparr> in
                case (if \<not> ronly \<and> e2fs_features_incompat (e2fs fs) AND EXT2F_INCOMPAT_RECOVER \<noteq> 0
                      then ext2_journal_replay dev fs else Some (Ret (dev, fs))) of
                  None \<Rightarrow> None
                | Some (Fault f) \<Rightarrow> Some (Fault f)
                | Some (Ret (dev, fs)) \<Rightarrow>
                    (case mount_clusters nomem fs of
                       Fault f \<Rightarrow> Some (Fault f)
                     | Ret (Inl error) \<Rightarrow> Some (Ret (Inl error))
                     | Ret (Inr fs) \<Rightarrow> Some (Ret (Inr (mount_finish dev fs ronly)))))"
    unfolding ext2_mountfs_def by (simp add: buf_meta_bread_def r Let_def)
  have c: "mount_check ?es ronly force = 0" "\<not> (nomem AUmp \<or> nomem AFs \<or> nomem ASb \<or> nomem ALock)"
    using assms unfolding m by (auto split: if_splits)
  obtain fs1 where fs1: "?c = Ret (Inr fs1)"
    using assms c unfolding m by (cases ?c) (auto split: if_splits sum.splits)
  let ?f = "fs1\<lparr>e2fs_ronly := (if ronly then 1 else 0)\<rparr>"
  let ?j = "if \<not> ronly \<and> e2fs_features_incompat (e2fs ?f) AND EXT2F_INCOMPAT_RECOVER \<noteq> 0
                      then ext2_journal_replay dev ?f else Some (Ret (dev, ?f))"
  obtain dev2 fs2 where j: "?j = Some (Ret (dev2, fs2))"
    using assms c fs1 unfolding m Let_def by (cases ?j) (auto split: outcome.splits)
  have "\<exists>j m. fs2 = fs1\<lparr>e2fs_ronly := (if ronly then 1 else 0), e2fs := (e2fs fs1)\<lparr>e3fs_jnl_blks := j\<rparr>, e2fs_fmod := m\<rparr> \<and>
       length j = length (e3fs_jnl_blks (e2fs fs1)) \<and> (e2fs_features_incompat (e2fs fs1) AND EXT2F_INCOMPAT_RECOVER = 0 \<longrightarrow> j = e3fs_jnl_blks (e2fs fs1))"
  proof (cases "\<not> ronly \<and> e2fs_features_incompat (e2fs ?f) AND EXT2F_INCOMPAT_RECOVER \<noteq> 0")
    case True
    then have "ext2_journal_replay dev ?f = Some (Ret (dev2, fs2))" using j by simp
    from journal_replay_keeps [OF this] show ?thesis using True by auto
  next
    case False
    then have "fs2 = ?f" using j by (simp split: if_splits)
    then show ?thesis by (intro exI [of _ "e3fs_jnl_blks (e2fs fs1)"] exI [of _ "e2fs_fmod fs1"]) simp
  qed
  moreover obtain fs3 where "mount_clusters nomem fs2 = Ret (Inr fs3)" "ump = mount_finish dev2 fs3 ronly"
    using assms c fs1 j unfolding m Let_def by (auto split: outcome.splits sum.splits)
  ultimately show ?thesis using that r c(1) fs1 by blast
qed


section \<open>What is refused\<close>

lemma recover_not_supported: "f AND EXT2F_INCOMPAT_RECOVER \<noteq> 0 \<Longrightarrow> f AND NOT EXT2F_INCOMPAT_SUPP \<noteq> 0" for f :: u32
proof -
  assume "f AND EXT2F_INCOMPAT_RECOVER \<noteq> 0"
  moreover have "EXT2F_INCOMPAT_RECOVER = 2 ^ 2" by (simp add: EXT2F_INCOMPAT_RECOVER_def)
  ultimately have "bit f 2" using and_exp_32 [of f 2] by simp
  moreover have "\<not> bit EXT2F_INCOMPAT_SUPP 2" by code_simp
  ultimately have "bit (f AND NOT EXT2F_INCOMPAT_SUPP) 2" by (simp add: bit_and_iff bit_not_iff)
  then show ?thesis by auto
qed

text \<open>C36. A volume of revision 1 whose journal has to be replayed is never mounted for writing: with the
  recovery flag a read-write mount ends with an error before anything is written, so the replay that
  \<^verbatim>\<open>ext2_mountfs\<close> calls for such volumes is out of reach. A volume of revision 0 is not refused for the flag: its features are not looked at.\<close>

theorem dirty_journal_refused:
  assumes "dev_rerr dev SBLOCK = 0" "es = sb_of (dev_blk dev SBLOCK)" "e2fs_features_incompat es AND EXT2F_INCOMPAT_RECOVER \<noteq> 0"
  shows "if e2fs_rev es \<noteq> E2FS_REV0 then \<exists>e \<in> {EROFS, ENOTSUP, EINVAL}. ext2_mountfs nomem dev False force = Some (Ret (Inl e))
     else ext2_check_sb_compat es False = (if e2fs_magic es \<noteq> E2FS_MAGIC \<or> e2fs_log_bsize es > 2 \<or> e2fs_bpg es = 0 then 1 else 0)"
proof (cases "e2fs_rev es = E2FS_REV0")
  case True
  then show ?thesis by (simp add: ext2_check_sb_compat_def E2FS_REV0_def E2FS_REV1_def)
next
  case False
  have "ext2_check_sb_compat es False \<in> {1, 2, 3}"
    using False recover_not_supported [OF assms(3)] by (simp add: ext2_check_sb_compat_def)
  then have "mount_check es False force \<in> {EROFS, ENOTSUP, EINVAL}" "mount_check es False force \<noteq> 0"
    by (auto simp: mount_check_def Let_def errno_defs ENOTSUP_def)
  moreover from this(2) have "ext2_mountfs nomem dev False force = Some (Ret (Inl (mount_check es False force)))"
    unfolding ext2_mountfs_def assms(2) by (simp add: buf_meta_bread_def assms(1) Let_def)
  ultimately show ?thesis using False by (simp only: simp_thms if_True) blast
qed

section \<open>The state on the device\<close>

text \<open>What a successful \<^verbatim>\<open>sb_geometry\<close> has computed.\<close>

definition derived :: "ext2fs \<Rightarrow> m_ext2fs \<Rightarrow> bool" where
  "derived es fs \<longleftrightarrow> e2fs_bshift fs = EXT2_MIN_BLOCK_LOG_SIZE + e2fs_log_bsize es \<and> e2fs_bshift fs < 32 \<and>
     e2fs_bsize fs = push_bit (unat (e2fs_bshift fs)) 1 \<and> e2fs_fsbtodb fs = e2fs_log_bsize es + 1 \<and> e2fs_qbmask fs = uint (e2fs_bsize fs - 1) \<and>
     m_e2fs_bpg fs = e2fs_bpg es \<and> m_e2fs_fpg fs = e2fs_fpg es \<and> m_e2fs_ipg fs = e2fs_ipg es \<and> e2fs_bpg es \<noteq> 0 \<and>
     e2fs_ipb fs = e2fs_bsize fs div e2fs_isize fs \<and> e2fs_ipb fs \<noteq> 0 \<and>
     e2fs_gcount fs = (e2fs_bcount es - e2fs_first_dblock es + e2fs_bpg es - 1) div e2fs_bpg es \<and>
     32 \<le> e2fs_gdsize fs \<and> e2fs_gdsize fs \<le> e2fs_bsize fs \<and>
     128 \<le> e2fs_isize fs \<and> e2fs_isize fs \<le> e2fs_bsize fs \<and> e2fs_isize fs AND (e2fs_isize fs - 1) = 0 \<and>
     e2fs_itpg fs = e2fs_ipg es div e2fs_ipb fs"

lemma div_word_nonzero: "(a :: u32) div b \<noteq> 0 \<Longrightarrow> b \<le> a"
proof -
  assume "a div b \<noteq> 0"
  then have "unat a div unat b \<noteq> 0" by (metis unat_div unat_eq_zero)
  then show ?thesis by (simp add: word_le_nat_alt div_eq_0_iff)
qed

lemma sb_geometry_derived:
  assumes "sb_geometry es fs = Ret (Inr fg)"
  shows "derived es fg" "e2fs fg = e2fs fs"
  using assms unfolding sb_geometry_def Let_def derived_def
  by (auto split: if_splits simp: EXT2_MIN_GD_SIZE_def sb_inode_size_ok_def E2FS_REV0_INODE_SIZE_def not_less dest: div_word_nonzero)

lemma compute_sb_data_result:
  assumes "compute_sb_data nomem dev fs = Ret (Inr fs')"
  obtains fg gs where "derived (e2fs fs) fg" "e2fs fg = e2fs fs"
    "load_gds dev fg (if e2fs_bsize fg > SBSIZE then 0 else 1) (if nomem AGd then 0 else uint (e2fs_gdbcount fg * e2fs_bsize fg)) 0
       (nat (sint (e2fs_gdbcount fg))) = Ret (Inr gs)"
    "e2fs_gdbcount fg = (e2fs_gcount fg + e2fs_bsize fg div e2fs_gdsize fg - 1) div (e2fs_bsize fg div e2fs_gdsize fg)"
    "\<exists>t m. fs' = fg\<lparr>e2fs_gd := take (unat (e2fs_gcount fg)) gs, e2fs_total_dir := t, e2fs_maxfilesize := m\<rparr>"
    "e2fs_contigdirs fg = (if nomem AContigdirs then [] else replicate (unat (e2fs_gcount fg)) 0)"
proof -
  obtain g where g: "sb_geometry (e2fs fs) fs = Ret (Inr g)"
  proof -
    obtain r where r: "sb_geometry (e2fs fs) fs = Ret r"
      using assms unfolding compute_sb_data_def Let_def bnd_Ret_iff by blast
    then show ?thesis using assms that unfolding compute_sb_data_def Let_def by (cases r) (simp_all del: bnd_Ret_iff)
  qed
  let ?p = "e2fs_bsize g div e2fs_gdsize g"
  let ?d = "(e2fs_gcount g + ?p - 1) div ?p"
  define fg where "fg = g\<lparr>e2fs_gdbcount := ?d, e2fs_contigdirs := (if nomem AContigdirs then [] else replicate (unat (e2fs_gcount g)) 0)\<rparr>"
  have c: "compute_sb_data nomem dev fs = sb_tables nomem dev fg"
    unfolding compute_sb_data_def g bnd.simps sum.case Let_def fg_def ..
  obtain gs where gs: "load_gds dev fg (if e2fs_bsize fg > SBSIZE then 0 else 1) (if nomem AGd then 0 else uint (e2fs_gdbcount fg * e2fs_bsize fg)) 0
       (nat (sint (e2fs_gdbcount fg))) = Ret (Inr gs)"
    "\<exists>t m. fs' = fg\<lparr>e2fs_gd := take (unat (e2fs_gcount fg)) gs, e2fs_total_dir := t, e2fs_maxfilesize := m\<rparr>"
  proof -
    obtain r where r: "load_gds dev fg (if e2fs_bsize fg > SBSIZE then 0 else 1) (if nomem AGd then 0 else uint (e2fs_gdbcount fg * e2fs_bsize fg)) 0
       (nat (sint (e2fs_gdbcount fg))) = Ret r"
      using assms unfolding c sb_tables_def bnd_Ret_iff by blast
    show ?thesis using assms that r unfolding c sb_tables_def r bnd.simps Let_def by (cases r) auto
  qed
  have "derived (e2fs fs) fg" "e2fs fg = e2fs fs"
  proof -
    have "derived (e2fs fs) fg = derived (e2fs fs) g" by (simp add: derived_def fg_def)
    then show "derived (e2fs fs) fg" using sb_geometry_derived(1) [OF g] by simp
    show "e2fs fg = e2fs fs" using sb_geometry_derived(2) [OF g] by (simp add: fg_def)
  qed
  moreover have "e2fs_gdbcount fg = (e2fs_gcount fg + e2fs_bsize fg div e2fs_gdsize fg - 1) div (e2fs_bsize fg div e2fs_gdsize fg)"
    by (simp add: fg_def)
  moreover have "e2fs_contigdirs fg = (if nomem AContigdirs then [] else replicate (unat (e2fs_gcount fg)) 0)" by (simp add: fg_def)
  ultimately show ?thesis using that [of fg gs] gs by blast
qed

lemma mount_clusters_result:
  assumes "mount_clusters nomem fs = Ret (Inr fs')"
  obtains m cs where "fs' = fs\<lparr>e2fs_contigsumsize := min (max 1 (sint (MAXPHYS div e2fs_bsize fs))) EXT2_MAXCONTIG,
      e2fs_maxcluster := m, e2fs_clustersum := cs\<rparr>" "length m = nat (sint (e2fs_gcount fs))" "length cs = nat (sint (e2fs_gcount fs))"
      "\<forall>c \<in> set cs. length (cs_sum c) = Suc (nat (e2fs_contigsumsize fs'))"
proof -
  let ?k = "min (max 1 (sint (MAXPHYS div e2fs_bsize fs))) EXT2_MAXCONTIG" and ?n = "nat (sint (e2fs_gcount fs))"
  have k: "1 \<le> ?k" by (simp add: EXT2_MAXCONTIG_def)
  obtain cs where cs: "csum_loop nomem ?k 0 ?n = Some cs" "fs' = fs\<lparr>e2fs_contigsumsize := ?k, e2fs_maxcluster := replicate ?n ?k, e2fs_clustersum := cs\<rparr>"
    using assms unfolding mount_clusters_def Let_def by (auto split: if_splits option.splits)
  have "csum_loop nomem j i n = Some cs \<Longrightarrow> length cs = n \<and> (\<forall>c \<in> set cs. length (cs_sum c) = nat (j + 1))" for j i n cs
    by (induction n arbitrary: i cs) (auto split: if_splits)
  from this [OF cs(1)] k show ?thesis
    by (intro that [OF cs(2)]) (auto simp: cs(2) nat_add_distrib)
qed

lemma sbupdate_keeps:
  "um_e2fs (snd (ext2_sbupdate ump w)) = um_e2fs ump" "um_nindir (snd (ext2_sbupdate ump w)) = um_nindir ump"
  "um_bptrtodb (snd (ext2_sbupdate ump w)) = um_bptrtodb ump" "um_lock (snd (ext2_sbupdate ump w)) = um_lock ump"
  "\<not> dev_nobuf (um_devvp ump) SBLOCK \<Longrightarrow> dev_blk (um_devvp (snd (ext2_sbupdate ump w))) SBLOCK = sb_bytes (e2fs (um_e2fs ump))"
  by (simp_all add: ext2_sbupdate_def buf_bwrite_def)

lemma finish_fields:
  "um_e2fs (mount_finish dev fs ronly) = mark_mounted fs ronly" "um_nindir (mount_finish dev fs ronly) = ucast (e2fs_bsize fs div 4)"
  "um_bptrtodb (mount_finish dev fs ronly) = ucast (e2fs_log_bsize (e2fs fs) + 1)" "um_lock (mount_finish dev fs ronly) = False"
  by (simp_all add: mount_finish_def Let_def sbupdate_keeps mark_mounted_def)

lemma finish_sb:
  "e2fs_state (e2fs (mark_mounted fs False)) AND E2FS_ISCLEAN = 0"
  "\<not> dev_nobuf dev SBLOCK \<Longrightarrow> dev_blk (um_devvp (mount_finish dev fs False)) SBLOCK = sb_bytes (e2fs (mark_mounted fs False))"
  "sb_shape (e2fs fs) \<Longrightarrow> sb_shape (e2fs (mark_mounted fs False))"
proof -
  have a: "(w AND NOT x) AND x = 0" for w x :: u16 by (rule bit_word_eqI) (simp add: bit_and_iff bit_not_iff)
  show "e2fs_state (e2fs (mark_mounted fs False)) AND E2FS_ISCLEAN = 0" by (simp add: mark_mounted_def a)
  show "dev_blk (um_devvp (mount_finish dev fs False)) SBLOCK = sb_bytes (e2fs (mark_mounted fs False))" if "\<not> dev_nobuf dev SBLOCK"
    using that by (simp add: mount_finish_def Let_def sbupdate_keeps)
  show "sb_shape (e2fs (mark_mounted fs False))" if "sb_shape (e2fs fs)" using that by (simp add: mark_mounted_def sb_shape_def)
qed

text \<open>The geometry fields survive the rest of the mount.\<close>

lemma mount_fields:
  assumes "ext2_mountfs nomem dev ronly force = Some (Ret (Inr ump))"
  obtains fg gs fs dev2 j where "derived (sb_of (dev_blk dev SBLOCK)) fg" "e2fs fg = sb_of (dev_blk dev SBLOCK)"
    "load_gds dev fg (if e2fs_bsize fg > SBSIZE then 0 else 1) (if nomem AGd then 0 else uint (e2fs_gdbcount fg * e2fs_bsize fg)) 0
       (nat (sint (e2fs_gdbcount fg))) = Ret (Inr gs)"
    "e2fs_gdbcount fg = (e2fs_gcount fg + e2fs_bsize fg div e2fs_gdsize fg - 1) div (e2fs_bsize fg div e2fs_gdsize fg)"
    "ump = mount_finish dev2 fs ronly" "e2fs_bsize fs = e2fs_bsize fg" "e2fs_bshift fs = e2fs_bshift fg" "e2fs_fsbtodb fs = e2fs_fsbtodb fg"
    "e2fs_qbmask fs = e2fs_qbmask fg" "m_e2fs_bpg fs = m_e2fs_bpg fg" "e2fs_gcount fs = e2fs_gcount fg" "e2fs_gd fs = take (unat (e2fs_gcount fg)) gs"
    "1 \<le> e2fs_contigsumsize fs" "length (e2fs_maxcluster fs) = nat (sint (e2fs_gcount fg))" "length (e2fs_clustersum fs) = nat (sint (e2fs_gcount fg))"
    "\<forall>c \<in> set (e2fs_clustersum fs). length (cs_sum c) = Suc (nat (e2fs_contigsumsize fs))" "e2fs fs = (e2fs fg)\<lparr>e3fs_jnl_blks := j\<rparr>"
    "m_e2fs_ipg fs = m_e2fs_ipg fg" "e2fs_ipb fs = e2fs_ipb fg" "e2fs_isize fs = e2fs_isize fg" "e2fs_itpg fs = e2fs_itpg fg"
    "e2fs_contigdirs fs = (if nomem AContigdirs then [] else replicate (unat (e2fs_gcount fg)) 0)" "e2fs_ronly fs = (if ronly then 1 else 0)"
    "length j = length (e3fs_jnl_blks (e2fs fg))" "e2fs_features_incompat (e2fs fg) AND EXT2F_INCOMPAT_RECOVER = 0 \<longrightarrow> j = e3fs_jnl_blks (e2fs fg)"
proof -
  obtain fs1 dev2 fs2 fs3 where m: "compute_sb_data nomem dev (zero_fs\<lparr>e2fs := sb_of (dev_blk dev SBLOCK)\<rparr>) = Ret (Inr fs1)"
    "\<exists>j m. fs2 = fs1\<lparr>e2fs_ronly := (if ronly then 1 else 0), e2fs := (e2fs fs1)\<lparr>e3fs_jnl_blks := j\<rparr>, e2fs_fmod := m\<rparr> \<and>
       length j = length (e3fs_jnl_blks (e2fs fs1)) \<and> (e2fs_features_incompat (e2fs fs1) AND EXT2F_INCOMPAT_RECOVER = 0 \<longrightarrow> j = e3fs_jnl_blks (e2fs fs1))"
    "mount_clusters nomem fs2 = Ret (Inr fs3)" "ump = mount_finish dev2 fs3 ronly"
    by (rule mountfs_steps [OF assms])
  obtain fg gs where g: "derived (e2fs (zero_fs\<lparr>e2fs := sb_of (dev_blk dev SBLOCK)\<rparr>)) fg" "e2fs fg = e2fs (zero_fs\<lparr>e2fs := sb_of (dev_blk dev SBLOCK)\<rparr>)"
    "load_gds dev fg (if e2fs_bsize fg > SBSIZE then 0 else 1) (if nomem AGd then 0 else uint (e2fs_gdbcount fg * e2fs_bsize fg)) 0
       (nat (sint (e2fs_gdbcount fg))) = Ret (Inr gs)"
    "e2fs_gdbcount fg = (e2fs_gcount fg + e2fs_bsize fg div e2fs_gdsize fg - 1) div (e2fs_bsize fg div e2fs_gdsize fg)"
    "\<exists>t m. fs1 = fg\<lparr>e2fs_gd := take (unat (e2fs_gcount fg)) gs, e2fs_total_dir := t, e2fs_maxfilesize := m\<rparr>"
    "e2fs_contigdirs fg = (if nomem AContigdirs then [] else replicate (unat (e2fs_gcount fg)) 0)"
    by (rule compute_sb_data_result [OF m(1)])
  obtain mc cs where c: "fs3 = fs2\<lparr>e2fs_contigsumsize := min (max 1 (sint (MAXPHYS div e2fs_bsize fs2))) EXT2_MAXCONTIG,
      e2fs_maxcluster := mc, e2fs_clustersum := cs\<rparr>" "length mc = nat (sint (e2fs_gcount fs2))" "length cs = nat (sint (e2fs_gcount fs2))"
      "\<forall>c \<in> set cs. length (cs_sum c) = Suc (nat (e2fs_contigsumsize fs3))"
    by (rule mount_clusters_result [OF m(3)])
  obtain t mx where fs1: "fs1 = fg\<lparr>e2fs_gd := take (unat (e2fs_gcount fg)) gs, e2fs_total_dir := t, e2fs_maxfilesize := mx\<rparr>" using g(5) by blast
  obtain j mf where fs2: "fs2 = fs1\<lparr>e2fs_ronly := (if ronly then 1 else 0), e2fs := (e2fs fs1)\<lparr>e3fs_jnl_blks := j\<rparr>, e2fs_fmod := mf\<rparr>"
    "length j = length (e3fs_jnl_blks (e2fs fs1))" "e2fs_features_incompat (e2fs fs1) AND EXT2F_INCOMPAT_RECOVER = 0 \<longrightarrow> j = e3fs_jnl_blks (e2fs fs1)"
    using m(2) by blast
  have e: "e2fs fs3 = (e2fs fg)\<lparr>e3fs_jnl_blks := j\<rparr>" by (simp add: c(1) fs2(1) fs1)
  have k: "1 \<le> e2fs_contigsumsize fs3" by (simp add: c(1) EXT2_MAXCONTIG_def)
  have gc: "e2fs_gcount fs2 = e2fs_gcount fg" by (simp add: fs2(1) fs1)
  have cl: "e2fs_maxcluster fs3 = mc" "e2fs_clustersum fs3 = cs" by (simp_all add: c(1))
  have cd: "e2fs_contigdirs fs3 = e2fs_contigdirs fg" by (simp add: c(1) fs2(1) fs1)
  have fld: "e2fs_bsize fs3 = e2fs_bsize fg" "e2fs_bshift fs3 = e2fs_bshift fg" "e2fs_fsbtodb fs3 = e2fs_fsbtodb fg" "e2fs_qbmask fs3 = e2fs_qbmask fg"
    "m_e2fs_bpg fs3 = m_e2fs_bpg fg" "m_e2fs_ipg fs3 = m_e2fs_ipg fg" "e2fs_ipb fs3 = e2fs_ipb fg" "e2fs_isize fs3 = e2fs_isize fg"
    "e2fs_gcount fs3 = e2fs_gcount fg" "e2fs_gd fs3 = take (unat (e2fs_gcount fg)) gs" "e2fs_itpg fs3 = e2fs_itpg fg" "e2fs_ronly fs3 = (if ronly then 1 else 0)"
    by (simp_all add: c(1) fs2(1) fs1)
  have j: "length j = length (e3fs_jnl_blks (e2fs fg))" "e2fs_features_incompat (e2fs fg) AND EXT2F_INCOMPAT_RECOVER = 0 \<longrightarrow> j = e3fs_jnl_blks (e2fs fg)"
    using fs2(2,3) by (simp_all add: fs1)
  show ?thesis
    by (rule that [OF g(1) [simplified] g(2) [simplified] g(3,4) m(4) fld(1-5,9,10) k c(2,3) [unfolded gc, folded cl] c(4) [folded cl] e fld(6,7,8,11)
        cd [unfolded g(6)] fld(12) j])
qed


lemma cg_loop_clean:
  assumes "\<forall>a. dev_werr (um_devvp ump) a = 0 \<and> \<not> dev_nobuf (um_devvp ump) a" "error = 0"
  shows "\<exists>ump'. cg_loop ump w i n error = Ret (True, 0, ump') \<and> um_e2fs ump' = um_e2fs ump \<and>
     dev_werr (um_devvp ump') = dev_werr (um_devvp ump) \<and> dev_nobuf (um_devvp ump') = dev_nobuf (um_devvp ump)"
  using assms
proof (induction n arbitrary: i ump error)
  case (Suc n)
  define a where "a = fsbtodb (um_e2fs ump) (uint (e2fs_first_dblock (e2fs (um_e2fs ump)) + 1 + word_of_nat i))"
  define per where "per = unat (e2fs_bsize (um_e2fs ump) div e2fs_gdsize (um_e2fs ump))"
  define d where "d = (um_devvp ump)\<lparr>dev_blk := (dev_blk (um_devvp ump))(a := gds_bytes (unat (e2fs_gdsize (um_e2fs ump))) (dev_blk (um_devvp ump) a)
    (take per (drop (i * per) (e2fs_gd (um_e2fs ump)))))\<rparr>"
  have "cg_loop ump w i (Suc n) error = cg_loop (ump\<lparr>um_devvp := d\<rparr>) w (Suc i) n 0"
    using Suc.prems by (simp add: Let_def buf_bwrite_def d_def a_def per_def)
  moreover have "\<forall>a. dev_werr (um_devvp (ump\<lparr>um_devvp := d\<rparr>)) a = 0 \<and> \<not> dev_nobuf (um_devvp (ump\<lparr>um_devvp := d\<rparr>)) a"
    using Suc.prems by (simp add: d_def)
  ultimately show ?case using Suc.IH [of "ump\<lparr>um_devvp := d\<rparr>" 0 "Suc i"] by (simp add: d_def)
qed simp

lemma clean_bit: "(w AND NOT E2FS_ISCLEAN) OR E2FS_ISCLEAN = w" if "w AND E2FS_ISCLEAN \<noteq> 0" for w :: u16
proof -
  have w: "bit w 0" using that bit_iff_and_push_bit_not_eq_0 [of w 0] by (simp add: E2FS_ISCLEAN_def)
  have "bit ((w AND NOT 1) OR 1) n = bit w n" if "n < 16" for n
    using w that by (cases "n = 0") (auto simp: bit_or_iff bit_and_iff bit_not_iff bit_1_iff)
  then show ?thesis unfolding E2FS_ISCLEAN_def by (intro bit_word_eqI) simp
qed

lemma unclean_bit: "w AND NOT E2FS_ISCLEAN = w" if "w AND E2FS_ISCLEAN = 0" for w :: u16
proof -
  have w: "\<not> bit w 0" using that bit_iff_and_push_bit_not_eq_0 [of w 0] by (simp add: E2FS_ISCLEAN_def)
  have "bit (w AND NOT 1) n = bit w n" if "n < 16" for n
    using w that by (cases "n = 0") (auto simp: bit_and_iff bit_not_iff bit_1_iff)
  then show ?thesis unfolding E2FS_ISCLEAN_def by (intro bit_word_eqI) simp
qed

text \<open>C35. The state word of the volume. A read-write mount writes the superblock it read with the clean flag cleared and nothing else changed (on a volume with the
  recovery flag also the journal fields, which the replay updates), and keeps it in memory. Unmounting a later state of that mount, with the same mount flags and
  state word, writes the superblock in memory with the state word the volume had before the mount, clean or not, when no write fails.\<close>

theorem mount_unmount_state:
  assumes "ext2_mountfs nomem dev False force = Some (Ret (Inr ump))" "1024 \<le> length (dev_blk dev SBLOCK)" "\<not> dev_nobuf (um_devvp ump) SBLOCK"
    and es: "es = sb_of (dev_blk dev SBLOCK)"
    and u: "e2fs_ronly (um_e2fs ump') = e2fs_ronly (um_e2fs ump)" "e2fs_wasvalid (um_e2fs ump') = e2fs_wasvalid (um_e2fs ump)"
      "e2fs_state (e2fs (um_e2fs ump')) = e2fs_state (e2fs (um_e2fs ump))" "sb_shape (e2fs (um_e2fs ump'))"
      "\<forall>a. dev_werr (um_devvp ump') a = 0 \<and> \<not> dev_nobuf (um_devvp ump') a"
  shows "(\<exists>j. e2fs (um_e2fs ump) = es\<lparr>e2fs_state := e2fs_state es AND NOT E2FS_ISCLEAN, e3fs_jnl_blks := j\<rparr> \<and>
       (e2fs_features_incompat es AND EXT2F_INCOMPAT_RECOVER = 0 \<longrightarrow> j = e3fs_jnl_blks es)) \<and>
     sb_of (dev_blk (um_devvp ump) SBLOCK) = e2fs (um_e2fs ump) \<and>
     (\<exists>dev'. ext2_unmount 0 ump' = Ret (Inr dev') \<and> sb_of (dev_blk dev' SBLOCK) = (e2fs (um_e2fs ump'))\<lparr>e2fs_state := e2fs_state es\<rparr>)"
proof -
  obtain fg :: m_ext2fs and fs dev2 j where f0: "ump = mount_finish dev2 fs False" "e2fs fg = es" "e2fs fs = (e2fs fg)\<lparr>e3fs_jnl_blks := j\<rparr>"
    "length j = length (e3fs_jnl_blks (e2fs fg))" "e2fs_features_incompat (e2fs fg) AND EXT2F_INCOMPAT_RECOVER = 0 \<longrightarrow> j = e3fs_jnl_blks (e2fs fg)"
    "e2fs_ronly fs = (if False then 1 else 0)"
  proof (rule mount_fields [OF assms(1), folded es], goal_cases)
    case (1 fg gs fs dev2 j)
    show ?case by (rule that [OF 1(6,3,18,25,26,24)])
  qed
  note f = f0(1) f0(3-5) [unfolded f0(2)] f0(6) [unfolded if_False]
  have "dev_nobuf (um_devvp (snd (ext2_sbupdate v w))) = dev_nobuf (um_devvp v)" for v w by (simp add: ext2_sbupdate_def buf_bwrite_def)
  then have n: "\<not> dev_nobuf dev2 SBLOCK" using assms(3) by (simp add: f(1) mount_finish_def Let_def)
  have m: "um_e2fs ump = mark_mounted fs False" by (simp add: f(1) finish_fields)
  have sb: "e2fs (um_e2fs ump) = es\<lparr>e2fs_state := e2fs_state es AND NOT E2FS_ISCLEAN, e3fs_jnl_blks := j\<rparr>"
    unfolding m by (simp add: mark_mounted_def f(2))
  have "sb_shape (e2fs fs)" using sb_of_shape [OF assms(2)] f(2,3) by (simp add: sb_shape_def es)
  then have 1: "sb_of (dev_blk (um_devvp ump) SBLOCK) = e2fs (um_e2fs ump)"
    using sb_roundtrip(1) [OF finish_sb(3)] finish_sb(2) n by (simp add: f(1) finish_fields)
  have st: "e2fs_ronly (um_e2fs ump') = 0" "e2fs_wasvalid (um_e2fs ump') \<noteq> 0 \<longleftrightarrow> e2fs_state es AND E2FS_ISCLEAN \<noteq> 0"
    "e2fs_state (e2fs (um_e2fs ump')) = e2fs_state es AND NOT E2FS_ISCLEAN"
    unfolding u(1-3) sb unfolding m by (simp_all add: mark_mounted_def Let_def f(2,5))
  let ?v = "snd (ext2_sbupdate ump' True)"
  have v: "fst (ext2_sbupdate ump' True) = 0" "um_e2fs ?v = um_e2fs ump'" "\<forall>a. dev_werr (um_devvp ?v) a = 0 \<and> \<not> dev_nobuf (um_devvp ?v) a"
    using u(5) by (simp_all add: ext2_sbupdate_def buf_bwrite_def)
  obtain w where w: "cg_loop ?v True 0 (nat (sint (e2fs_gdbcount (um_e2fs ?v)))) 0 = Ret (True, 0, w)" "um_e2fs w = um_e2fs ?v"
    "dev_nobuf (um_devvp w) = dev_nobuf (um_devvp ?v)"
    using cg_loop_clean [OF v(3) refl] by blast
  have cg: "ext2_cgupdate ump' True = Ret (0, w)"
    using w(1) v(1) unfolding ext2_cgupdate_def Let_def by (simp add: case_prod_unfold del: bnd_Ret_iff)
  let ?es = "(e2fs (um_e2fs ump'))\<lparr>e2fs_state := e2fs_state es\<rparr>"
  have fin: "(if e2fs_wasvalid (um_e2fs w) \<noteq> 0 then (um_e2fs w)\<lparr>e2fs := (e2fs (um_e2fs w))\<lparr>e2fs_state := e2fs_state (e2fs (um_e2fs w)) OR E2FS_ISCLEAN\<rparr>\<rparr> else um_e2fs w) =
     (um_e2fs ump')\<lparr>e2fs := ?es\<rparr>"
  proof (cases "e2fs_state es AND E2FS_ISCLEAN = 0")
    case True
    have "e2fs_state (e2fs (um_e2fs ump')) = e2fs_state es" using st(3) unclean_bit [OF True] by simp
    moreover have "\<not> e2fs_wasvalid (um_e2fs w) \<noteq> 0" using True st(2) unfolding w(2) v(2) by blast
    ultimately show ?thesis unfolding w(2) v(2) by (simp flip: \<open>e2fs_state (e2fs (um_e2fs ump')) = e2fs_state es\<close>)
  next
    case False
    have "e2fs_state (e2fs (um_e2fs ump')) OR E2FS_ISCLEAN = e2fs_state es" using st(3) clean_bit [OF False] by simp
    moreover have "e2fs_wasvalid (um_e2fs w) \<noteq> 0" using False st(2) unfolding w(2) v(2) by blast
    ultimately show ?thesis unfolding w(2) v(2) by simp
  qed
  have "ext2_unmount 0 ump' = Ret (Inr (um_devvp (snd (ext2_sbupdate (w\<lparr>um_e2fs := (um_e2fs ump')\<lparr>e2fs := ?es\<rparr>\<rparr>) True))))"
    using st(1) unfolding ext2_unmount_def cg by (simp add: Let_def fin)
  moreover have "dev_blk (um_devvp (snd (ext2_sbupdate (w\<lparr>um_e2fs := (um_e2fs ump')\<lparr>e2fs := ?es\<rparr>\<rparr>) True))) SBLOCK = sb_bytes ?es"
    using sbupdate_keeps(5) [of "w\<lparr>um_e2fs := (um_e2fs ump')\<lparr>e2fs := ?es\<rparr>\<rparr>"] w(3) v(3) by simp
  moreover have "sb_of (sb_bytes ?es) = ?es" using u(4) by (intro sb_roundtrip(1)) (simp add: sb_shape_def)
  ultimately show ?thesis using 1 sb f(4) by auto
qed

section \<open>The geometry of a mounted volume\<close>

lemma load_gds_length:
  "load_gds dev fs base tsize i n = Ret (Inr gs) \<Longrightarrow> length gs = n * unat (e2fs_bsize fs div e2fs_gdsize fs)"
proof (induction n arbitrary: i gs)
  case (Suc n)
  show ?case
  proof (cases "load_gds dev fs base tsize (Suc i) n")
    case (Ret r)
    then show ?thesis using Suc.prems Suc.IH [of "Suc i"] by (cases r) (auto simp: gds_of_def split: sum.splits if_splits)
  next
    case (Fault f)
    then show ?thesis using Suc.prems by (auto split: sum.splits if_splits)
  qed
qed simp

lemma mount_check_bsize: "mount_check es ronly force = 0 \<Longrightarrow> unat (e2fs_log_bsize es) \<le> 2"
  by (auto simp: mount_check_def ext2_check_sb_compat_def Let_def errno_defs ENOTSUP_def word_le_nat_alt not_less split: if_splits)

lemma ceil_div: "0 < b \<Longrightarrow> a \<le> ((a + b - 1) div b) * b" for a b :: nat
proof -
  assume b: "0 < b"
  have "a + b - 1 = (a + b - 1) div b * b + (a + b - 1) mod b" by simp
  moreover have "(a + b - 1) mod b \<le> b - 1" using b by (simp add: less_Suc_eq_le [symmetric])
  ultimately show ?thesis using b by linarith
qed

lemma group_count_word:
  fixes b f p :: u32
  assumes "f \<le> b" "unat b + unat p \<le> 2 ^ 32" "8 \<le> unat p"
  shows "unat ((b - f + p - 1) div p) = (unat b - unat f + unat p - 1) div unat p" "unat ((b - f + p - 1) div p) < 2 ^ 29"
proof -
  have "1 \<le> p" using assms(3) by (simp add: word_le_nat_alt)
  then have p: "unat (p - 1) = unat p - 1" by (simp add: unat_sub)
  have s: "unat (b - f) = unat b - unat f" using assms(1) by (rule unat_sub)
  have "b - f + p - 1 = (b - f) + (p - 1)" by simp
  also have "unat \<dots> = unat b - unat f + (unat p - 1)"
    using assms s p by (subst unat_add_lem [THEN iffD1]) auto
  finally have e: "unat (b - f + p - 1) = unat b - unat f + unat p - 1" using assms(3) by simp
  show "unat ((b - f + p - 1) div p) = (unat b - unat f + unat p - 1) div unat p" by (simp only: unat_div e)
  moreover have "(unat b - unat f + unat p - 1) div unat p \<le> (unat b - unat f + unat p - 1) div 8"
    using assms(3) by (intro div_le_mono2) auto
  moreover have "(unat b - unat f + unat p - 1) div 8 < 2 ^ 29" using assms(2,3) by (simp add: less_mult_imp_div_less)
  ultimately show "unat ((b - f + p - 1) div p) < 2 ^ 29" by linarith
qed

lemma derived_sizes:
  assumes "derived es fs" "unat (e2fs_log_bsize es) \<le> 2"
  shows "unat (e2fs_bsize fs) = 2 ^ unat (e2fs_bshift fs)" "e2fs_qbmask fs = mask (unat (e2fs_bshift fs))"
    "fsbtodb fs b * 512 = b * uint (e2fs_bsize fs)" "1024 \<le> unat (e2fs_bsize fs)" "unat (e2fs_bsize fs) \<le> 4096" "unat (e2fs_fsbtodb fs) \<le> 3"
proof -
  have "unat (e2fs_log_bsize es) = 0 \<or> unat (e2fs_log_bsize es) = 1 \<or> unat (e2fs_log_bsize es) = 2" using assms(2) by linarith
  then have "e2fs_log_bsize es = 0 \<or> e2fs_log_bsize es = 1 \<or> e2fs_log_bsize es = 2" by (simp add: word_unat_eq_iff)
  then show "unat (e2fs_bsize fs) = 2 ^ unat (e2fs_bshift fs)" "e2fs_qbmask fs = mask (unat (e2fs_bshift fs))"
    "fsbtodb fs b * 512 = b * uint (e2fs_bsize fs)" "1024 \<le> unat (e2fs_bsize fs)" "unat (e2fs_bsize fs) \<le> 4096" "unat (e2fs_fsbtodb fs) \<le> 3"
    using assms(1) by (auto simp: derived_def EXT2_MIN_BLOCK_LOG_SIZE_def fsbtodb_def push_bit_eq_mult mask_eq_exp_minus_1)
qed

lemma descr_count:
  fixes g p :: u32
  assumes "unat g < 2 ^ 29" "1 \<le> unat p" "unat p \<le> 128"
  shows "unat g \<le> unat ((g + p - 1) div p) * unat p" "unat ((g + p - 1) div p) < 2 ^ 31"
proof -
  have "1 \<le> p" using assms(2) by (simp add: word_le_nat_alt)
  then have q: "unat (p - 1) = unat p - 1" by (simp add: unat_sub)
  have "g + p - 1 = g + (p - 1)" by simp
  also have "unat \<dots> = unat g + (unat p - 1)" using assms q by (subst unat_add_lem [THEN iffD1]) auto
  finally have e: "unat ((g + p - 1) div p) = (unat g + unat p - 1) div unat p" using assms(2) by (simp add: unat_div)
  show "unat g \<le> unat ((g + p - 1) div p) * unat p" unfolding e using assms(2) by (intro ceil_div) simp
  have "(unat g + unat p - 1) div unat p \<le> unat g + unat p - 1" by (rule div_le_dividend)
  moreover have "unat g + unat p - 1 < 2 ^ 31" using assms by simp
  ultimately show "unat ((g + p - 1) div p) < 2 ^ 31" unfolding e by (rule le_less_trans)
qed

text \<open>C34. A mount leaves a consistent geometry: block size, shift, mask and device shift agree; the inode size is a power of two between 128 and the block
  size, and the inodes per block and the blocks of a table are computed from it; the block map's
  parameters are in range; the mount lock is free; there is a descriptor, a cluster summary and, when there was memory for them, a directory counter of zero for
  every group and the groups cover the volume; and when the superblock describes groups of whole
  bytes of bitmap with distinct bitmaps the volume meets the allocator's geometry condition. It holds for superblocks within bounds that the mount does not
  check: the first data block is not past the volume, a group has at least eight blocks, and the volume with one group more still fits 32 bits.\<close>

theorem mount_geometry:
  assumes m: "ext2_mountfs nomem dev ronly force = Some (Ret (Inr ump))"
    and es: "es = sb_of (dev_blk dev SBLOCK)" "e2fs_first_dblock es \<le> e2fs_bcount es"
      "unat (e2fs_bcount es) + unat (e2fs_bpg es) \<le> 2 ^ 32" "8 \<le> unat (e2fs_bpg es)"
  shows "let fs = um_e2fs ump in
    unat (e2fs_bsize fs) = 2 ^ unat (e2fs_bshift fs) \<and> e2fs_qbmask fs = mask (unat (e2fs_bshift fs)) \<and>
    (\<forall>b. fsbtodb fs b * 512 = b * uint (e2fs_bsize fs)) \<and> bmap_geom ump \<and> \<not> um_lock ump \<and> clus_ok fs \<and>
    128 \<le> e2fs_isize fs \<and> e2fs_isize fs \<le> e2fs_bsize fs \<and> e2fs_isize fs AND (e2fs_isize fs - 1) = 0 \<and>
    e2fs_ipb fs = e2fs_bsize fs div e2fs_isize fs \<and> m_e2fs_ipg fs = e2fs_ipg es \<and> e2fs_itpg fs = e2fs_ipg es div e2fs_ipb fs \<and>
    (\<not> nomem AContigdirs \<longrightarrow> e2fs_contigdirs fs = replicate (unat (e2fs_gcount fs)) 0) \<and>
    length (e2fs_gd fs) = unat (e2fs_gcount fs) \<and>
    unat (e2fs_bcount es) \<le> unat (e2fs_first_dblock es) + length (e2fs_gd fs) * unat (e2fs_bpg es) \<and>
    (e2fs_fpg es = e2fs_bpg es \<and> unat (e2fs_bpg es) mod 8 = 0 \<and> unat (e2fs_bpg es) < 2 ^ 16 \<and> e2fs_first_dblock es \<le> 1 \<and>
       e2fs_first_dblock es < e2fs_bcount es \<and> length (e2fs_gd fs) * unat (e2fs_bpg es) < 2 ^ 31 - 1 \<and>
       distinct (map ext2bgd_b_bitmap (e2fs_gd fs) @ map ext2bgd_i_bitmap (e2fs_gd fs)) \<longrightarrow> geom_ok fs)"
proof -
  obtain fg gs fs dev2 j where d: "derived es fg" "e2fs fg = es"
    "load_gds dev fg (if e2fs_bsize fg > SBSIZE then 0 else 1) (if nomem AGd then 0 else uint (e2fs_gdbcount fg * e2fs_bsize fg)) 0
       (nat (sint (e2fs_gdbcount fg))) = Ret (Inr gs)"
    "e2fs_gdbcount fg = (e2fs_gcount fg + e2fs_bsize fg div e2fs_gdsize fg - 1) div (e2fs_bsize fg div e2fs_gdsize fg)"
    and f: "ump = mount_finish dev2 fs ronly" "e2fs_bsize fs = e2fs_bsize fg" "e2fs_bshift fs = e2fs_bshift fg" "e2fs_fsbtodb fs = e2fs_fsbtodb fg"
       "e2fs_qbmask fs = e2fs_qbmask fg" "m_e2fs_bpg fs = m_e2fs_bpg fg" "e2fs_gcount fs = e2fs_gcount fg" "e2fs_gd fs = take (unat (e2fs_gcount fg)) gs"
       "1 \<le> e2fs_contigsumsize fs" "length (e2fs_maxcluster fs) = nat (sint (e2fs_gcount fg))" "length (e2fs_clustersum fs) = nat (sint (e2fs_gcount fg))"
       "\<forall>c \<in> set (e2fs_clustersum fs). length (cs_sum c) = Suc (nat (e2fs_contigsumsize fs))" "e2fs fs = es\<lparr>e3fs_jnl_blks := j\<rparr>"
       "m_e2fs_ipg fs = m_e2fs_ipg fg" "e2fs_ipb fs = e2fs_ipb fg" "e2fs_isize fs = e2fs_isize fg" "e2fs_itpg fs = e2fs_itpg fg"
       "e2fs_contigdirs fs = (if nomem AContigdirs then [] else replicate (unat (e2fs_gcount fg)) 0)"
  proof (rule mount_fields [OF m, folded es(1)], goal_cases)
    case (1 fg gs fs dev2 j)
    show ?case by (rule that [OF 1(2-17) 1(18) [unfolded 1(3)] 1(19-23)])
  qed
  have "mount_check es ronly force = 0" using mountfs_steps [OF m] unfolding es(1) by metis
  then have lb: "unat (e2fs_log_bsize es) \<le> 2" by (rule mount_check_bsize)
  note sz = derived_sizes [OF d(1) lb]
  let ?g = "e2fs_gcount fg" and ?p = "e2fs_bsize fg div e2fs_gdsize fg"
  have g: "unat ?g = (unat (e2fs_bcount es) - unat (e2fs_first_dblock es) + unat (e2fs_bpg es) - 1) div unat (e2fs_bpg es)" "unat ?g < 2 ^ 29"
    using group_count_word [OF es(2-4)] d(1) by (simp_all add: derived_def)
  have gd: "32 \<le> unat (e2fs_gdsize fg)" "unat (e2fs_gdsize fg) \<le> unat (e2fs_bsize fg)" 
  proof -
    have "32 \<le> e2fs_gdsize fg" "e2fs_gdsize fg \<le> e2fs_bsize fg" using d(1) unfolding derived_def by blast+
    then show "32 \<le> unat (e2fs_gdsize fg)" "unat (e2fs_gdsize fg) \<le> unat (e2fs_bsize fg)" by (simp_all add: word_le_nat_alt)
  qed
  have p: "1 \<le> unat ?p" "unat ?p \<le> 128"
  proof -
    have "unat (e2fs_bsize fg) div unat (e2fs_gdsize fg) \<le> unat (e2fs_bsize fg) div 32" using gd(1) by (intro div_le_mono2) auto
    also have "\<dots> \<le> 128" using sz(5) by simp
    finally show "unat ?p \<le> 128" by (simp add: unat_div)
    have "0 < unat (e2fs_bsize fg) div unat (e2fs_gdsize fg)" using gd by (simp add: div_greater_zero_iff)
    then show "1 \<le> unat ?p" unfolding unat_div by linarith
  qed
  note dc = descr_count [OF g(2) p]
  have "nat (sint (e2fs_gdbcount fg)) = unat (e2fs_gdbcount fg)" using dc(2) unfolding d(4) by (simp add: sint_unat_small)
  then have "unat ?g \<le> length gs" using load_gds_length [OF d(3)] dc(1) unfolding d(4) by simp
  then have l: "length (e2fs_gd fs) = unat ?g" by (simp add: f(8))
  have "unat ?g < 2 ^ 31" using g(2) by simp
  then have s: "nat (sint ?g) = unat ?g" by (simp add: sint_unat_small)
  have cov: "unat (e2fs_bcount es) \<le> unat (e2fs_first_dblock es) + unat ?g * unat (e2fs_bpg es)"
    using ceil_div [of "unat (e2fs_bpg es)" "unat (e2fs_bcount es) - unat (e2fs_first_dblock es)"] es(4) unfolding g(1) by linarith
  have clus: "clus_ok fs" using f(9-12) l s by (simp add: clus_ok_def)
  let ?F = "mark_mounted fs ronly"
  have F: "e2fs_bsize ?F = e2fs_bsize fg" "e2fs_bshift ?F = e2fs_bshift fg" "e2fs_fsbtodb ?F = e2fs_fsbtodb fg" "e2fs_qbmask ?F = e2fs_qbmask fg"
    "e2fs_gd ?F = e2fs_gd fs" "e2fs_gcount ?F = ?g" "clus_ok ?F = clus_ok fs" "m_e2fs_bpg ?F = e2fs_bpg es"
    "e2fs_fpg (e2fs ?F) = e2fs_fpg es" "e2fs_first_dblock (e2fs ?F) = e2fs_first_dblock es" "e2fs_bcount (e2fs ?F) = e2fs_bcount es"
    using f(2-8,13) d(1) by (simp_all add: mark_mounted_def Let_def clus_ok_def derived_def)
  have bm: "bmap_geom ump"
  proof -
    have u: "unat (ucast w :: u64) = unat w" for w :: u32 by (simp only: unat_eq_nat_uint) (simp add: uint_up_ucast is_up)
    have "e2fs_log_bsize (e2fs fs) + 1 = e2fs_fsbtodb fg" using d(1) by (simp add: f(13) derived_def)
    then have "unat (um_bptrtodb ump) \<le> 3" using sz(6) by (simp add: f(1) finish_fields u)
    moreover have "nindir_of ump = unat (e2fs_bsize fg) div 4" by (simp add: nindir_of_def f(1,2) finish_fields u unat_div)
    moreover have "256 \<le> unat (e2fs_bsize fg) div 4" "unat (e2fs_bsize fg) div 4 \<le> 1024"
      using div_le_mono [OF sz(4), of 4] div_le_mono [OF sz(5), of 4] by simp_all
    ultimately show ?thesis by (simp add: bmap_geom_def word_less_nat_alt)
  qed
  have geo: "geom_ok ?F" if "e2fs_fpg es = e2fs_bpg es" "unat (e2fs_bpg es) mod 8 = 0" "unat (e2fs_bpg es) < 2 ^ 16" "e2fs_first_dblock es \<le> 1"
       "e2fs_first_dblock es < e2fs_bcount es" "length (e2fs_gd ?F) * unat (e2fs_bpg es) < 2 ^ 31 - 1"
       "distinct (map ext2bgd_b_bitmap (e2fs_gd ?F) @ map ext2bgd_i_bitmap (e2fs_gd ?F))"
  proof -
    have "0 < unat ?g" unfolding g(1) using that(5) es(4) by (simp add: div_greater_zero_iff word_less_nat_alt)
    then show ?thesis using that es(4) cov l clus unfolding geom_ok_def fpg_of_def first_of_def F by (simp add: word_le_nat_alt)
  qed
  have inodes: "128 \<le> e2fs_isize ?F" "e2fs_isize ?F \<le> e2fs_bsize fg" "e2fs_isize ?F AND (e2fs_isize ?F - 1) = 0"
    "e2fs_ipb ?F = e2fs_bsize fg div e2fs_isize ?F" "m_e2fs_ipg ?F = e2fs_ipg es" "e2fs_itpg ?F = e2fs_ipg es div e2fs_ipb ?F"
  proof -
    have "128 \<le> e2fs_isize fg" "e2fs_isize fg \<le> e2fs_bsize fg" "e2fs_isize fg AND (e2fs_isize fg - 1) = 0"
      "e2fs_ipb fg = e2fs_bsize fg div e2fs_isize fg" "m_e2fs_ipg fg = e2fs_ipg es" "e2fs_itpg fg = e2fs_ipg es div e2fs_ipb fg"
      using d(1) unfolding derived_def by blast+
    moreover have "e2fs_isize ?F = e2fs_isize fg" "e2fs_ipb ?F = e2fs_ipb fg" "m_e2fs_ipg ?F = m_e2fs_ipg fg" "e2fs_itpg ?F = e2fs_itpg fg"
      by (simp_all add: mark_mounted_def Let_def f(14-17))
    ultimately show "128 \<le> e2fs_isize ?F" "e2fs_isize ?F \<le> e2fs_bsize fg" "e2fs_isize ?F AND (e2fs_isize ?F - 1) = 0"
      "e2fs_ipb ?F = e2fs_bsize fg div e2fs_isize ?F" "m_e2fs_ipg ?F = e2fs_ipg es" "e2fs_itpg ?F = e2fs_ipg es div e2fs_ipb ?F" by simp_all
  qed
  have cdirs: "\<not> nomem AContigdirs \<longrightarrow> e2fs_contigdirs ?F = replicate (unat (e2fs_gcount ?F)) 0" unfolding F(6) by (simp add: mark_mounted_def Let_def f(18))
  have "fsbtodb ?F b = fsbtodb fg b" for b by (simp add: fsbtodb_def F(3))
  then show ?thesis unfolding Let_def f(1) finish_fields
    using sz bm cov l clus geo F inodes cdirs by (auto simp: f(1) finish_fields)
qed

section \<open>An unreadable descriptor block\<close>

lemma load_gds_error:
  "dev_rerr dev (fsbtodb fs (base + int i + 1)) \<noteq> 0 \<Longrightarrow>
     load_gds dev fs base t i (Suc n) = Ret (Inl (dev_rerr dev (fsbtodb fs (base + int i + 1))))"
  by (simp add: buf_meta_bread_def)

lemma sb_tables_error:
  assumes "nat (sint (e2fs_gdbcount fs)) = Suc n" "dev_rerr dev (fsbtodb fs ((if e2fs_bsize fs > SBSIZE then 0 else 1) + int 0 + 1)) \<noteq> 0"
  shows "\<exists>e. sb_tables nomem dev fs = Ret (Inl (e, True))"
  unfolding sb_tables_def assms(1) load_gds_error [OF assms(2)] bnd.simps sum.case by blast

text \<open>C37. When a block of group descriptors cannot be read, the mount does not fail with the read error but frees
  the descriptor table and the directory counters a second time.\<close>

theorem unreadable_descriptors_double_free:
  assumes sb: "dev_rerr dev SBLOCK = 0" "es = sb_of (dev_blk dev SBLOCK)" "mount_check es ronly force = 0"
      "\<forall>s. \<not> nomem s" "sb_geometry es (zero_fs\<lparr>e2fs := es\<rparr>) = Ret (Inr fs)"
    and db: "0 < sint ((e2fs_gcount fs + e2fs_bsize fs div e2fs_gdsize fs - 1) div (e2fs_bsize fs div e2fs_gdsize fs))"
      "dev_rerr dev (fsbtodb fs (if e2fs_bsize fs > SBSIZE then 1 else 2)) \<noteq> 0"
  shows "ext2_mountfs nomem dev ronly force = Some (Fault Undef)"
proof -
  let ?d = "(e2fs_gcount fs + e2fs_bsize fs div e2fs_gdsize fs - 1) div (e2fs_bsize fs div e2fs_gdsize fs)"
  define fg where "fg = fs\<lparr>e2fs_gdbcount := ?d, e2fs_contigdirs := replicate (unat (e2fs_gcount fs)) 0\<rparr>"
  obtain n where n: "nat (sint (e2fs_gdbcount fg)) = Suc n" using db(1) by (cases "nat (sint ?d)") (auto simp: fg_def)
  have "fsbtodb fg ((if e2fs_bsize fg > SBSIZE then 0 else 1) + int 0 + 1) = fsbtodb fs (if e2fs_bsize fs > SBSIZE then 1 else 2)"
    by (simp add: fsbtodb_def fg_def)
  then have e: "\<exists>e. sb_tables nomem dev fg = Ret (Inl (e, True))" using sb_tables_error [OF n] db(2) by simp
  have "compute_sb_data nomem dev (zero_fs\<lparr>e2fs := es\<rparr>) = sb_tables nomem dev fg"
    using sb(4,5) unfolding compute_sb_data_def fg_def by (simp add: Let_def del: bnd_Ret_iff)
  with e have "\<exists>e. compute_sb_data nomem dev (zero_fs\<lparr>e2fs := es\<rparr>) = Ret (Inl (e, True))" by simp
  then show ?thesis unfolding ext2_mountfs_def using sb(1-4) by (auto simp: buf_meta_bread_def Let_def)
qed

section \<open>Witnesses\<close>

text \<open>A volume of one group of 64 blocks of 1024 bytes, whose descriptor block is at device address 4.\<close>

definition demo_sb :: ext2fs where
  "demo_sb = zero_sb\<lparr>e2fs_bcount := 65, e2fs_icount := 16, e2fs_first_dblock := 1, e2fs_bpg := 64, e2fs_fpg := 64, e2fs_ipg := 16,
     e2fs_magic := E2FS_MAGIC, e2fs_state := E2FS_ISCLEAN, e2fs_uuid := replicate 16 0, e2fs_vname := replicate 16 0, e2fs_fsmnt := replicate 64 0,
     e3fs_journal_uuid := replicate 16 0, e3fs_hash_seed := replicate 4 0, e3fs_jnl_blks := replicate 17 0, reserved2 := replicate 160 0\<rparr>"

definition demo_dev :: "ext2fs \<Rightarrow> errno \<Rightarrow> device" where
  "demo_dev es e = \<lparr>dev_blk = (\<lambda>a. if a = SBLOCK then sb_bytes es else replicate 1024 0),
     dev_rerr = (\<lambda>a. if a = 4 then e else 0), dev_werr = (\<lambda>a. 0), dev_nobuf = (\<lambda>a. False)\<rparr>"

lemma demo_sb_shape: "sb_shape demo_sb" "sb_of (dev_blk (demo_dev demo_sb e) SBLOCK) = demo_sb" "length (dev_blk (demo_dev demo_sb e) SBLOCK) = 1024"
proof -
  show s: "sb_shape demo_sb" by (simp add: sb_shape_def demo_sb_def)
  show "sb_of (dev_blk (demo_dev demo_sb e) SBLOCK) = demo_sb" "length (dev_blk (demo_dev demo_sb e) SBLOCK) = 1024"
    using sb_roundtrip [OF s] by (simp_all add: demo_dev_def)
qed

theorem dirty_journal_refused_witness:
  "\<exists>e \<in> {EROFS, ENOTSUP, EINVAL}. ext2_mountfs (\<lambda>s. False)
     (demo_dev (demo_sb\<lparr>e2fs_rev := 1, e2fs_first_ino := 11, e2fs_features_incompat := 4\<rparr>) 0) False True = Some (Ret (Inl e))"
proof -
  let ?es = "demo_sb\<lparr>e2fs_rev := 1, e2fs_first_ino := 11, e2fs_features_incompat := 4\<rparr>"
  have "sb_shape ?es" using demo_sb_shape(1) by (simp add: sb_shape_def)
  then have "sb_of (dev_blk (demo_dev ?es 0) SBLOCK) = ?es" using sb_roundtrip(1) by (simp add: demo_dev_def)
  then show ?thesis
    using dirty_journal_refused [of "demo_dev ?es 0" ?es "\<lambda>s. False" True]
    by (simp add: demo_dev_def E2FS_REV0_def EXT2F_INCOMPAT_RECOVER_def)
qed


definition demo_geo :: m_ext2fs where
  "demo_geo = zero_fs\<lparr>e2fs := demo_sb, e2fs_bshift := 10, e2fs_bsize := 1024, e2fs_fsbtodb := 1, e2fs_qbmask := 1023, e2fs_fsize := 1024,
     e2fs_fpb := 1, m_e2fs_bpg := 64, m_e2fs_fpg := 64, m_e2fs_ipg := 16, e2fs_isize := 128, e2fs_ipb := 8, e2fs_itpg := 2,
     e2fs_gcount := 1, e2fs_gdsize := 32\<rparr>"

lemma demo_geometry: "sb_geometry demo_sb (zero_fs\<lparr>e2fs := demo_sb\<rparr>) = Ret (Inr demo_geo)" "mount_check demo_sb ronly force = 0"
proof -
  show "mount_check demo_sb ronly force = 0" by (cases ronly; cases force) (simp_all add: mount_check_def ext2_check_sb_compat_def demo_sb_def
      E2FS_REV1_def E2FS_REV0_def zero_sb_def E2FS_ISCLEAN_def E2FS_ERRORS_def)
  show "sb_geometry demo_sb (zero_fs\<lparr>e2fs := demo_sb\<rparr>) = Ret (Inr demo_geo)"
    by (simp add: sb_geometry_def Let_def demo_geo_def demo_sb_def zero_sb_def zero_fs_def EXT2_MIN_BLOCK_LOG_SIZE_def EXT2_MIN_FRAG_SIZE_def
      E2FS_REV0_def E2FS_REV0_INODE_SIZE_def EXT2_HAS_RO_COMPAT_FEATURE_def sb_gdsize_def EXT2_MIN_GD_SIZE_def)
qed

theorem unreadable_descriptors_double_free_witness:
  "ext2_mountfs (\<lambda>s. False) (demo_dev demo_sb EIO) True False = Some (Fault Undef)"
  by (rule unreadable_descriptors_double_free [of _ demo_sb _ _ _ demo_geo])
    (simp_all add: demo_sb_shape demo_geometry, simp_all add: demo_dev_def demo_geo_def SBLOCK_def SBSIZE_def fsbtodb_def push_bit_eq_mult EIO_def)


lemma demo_mounts: "\<exists>ump. ext2_mountfs (\<lambda>s. False) (demo_dev demo_sb 0) False False = Some (Ret (Inr ump)) \<and>
    (\<forall>a. dev_werr (um_devvp ump) a = 0 \<and> \<not> dev_nobuf (um_devvp ump) a) \<and> sb_shape (e2fs (um_e2fs ump))"
proof -
  define fg where "fg = demo_geo\<lparr>e2fs_gdbcount := 1, e2fs_contigdirs := replicate 1 0\<rparr>"
  have v: "e2fs_bsize fg = 1024" "e2fs_gdsize fg = 32" "e2fs_gdbcount fg = 1" "e2fs_gcount fg = 1" "e2fs_fsbtodb fg = 1"
    by (simp_all add: fg_def demo_geo_def)
  have n: "nat (sint (1 :: u32)) = Suc 0" by simp
  obtain gs where l: "load_gds (demo_dev demo_sb 0) fg 1 1024 0 (Suc 0) = Ret (Inr gs)" "length gs = 32"
    using v by (simp add: buf_meta_bread_def demo_dev_def fsbtodb_def push_bit_eq_mult SBLOCK_def gds_of_def)
  let ?fs = "fg\<lparr>e2fs_gd := take 1 gs\<rparr>"
  obtain g gs' where gs: "gs = g # gs'" using l(2) by (cases gs) auto
  have "sum_dirs ?fs (Suc 0) = Ret (ucast (ext2bgd_ndirs g))" by (simp add: gs)
  then obtain t where t: "sum_dirs ?fs (Suc 0) = Ret t" ..
  define f1 where "f1 = ?fs\<lparr>e2fs_total_dir := t, e2fs_maxfilesize := max_file_size (e2fs ?fs) ?fs\<rparr>"
  have "sb_tables (\<lambda>s. False) (demo_dev demo_sb 0) fg = Ret (Inr f1)"
    unfolding sb_tables_def v n f1_def using l(1) t by (simp add: SBSIZE_def Let_def v del: bnd_Ret_iff sum_dirs.simps load_gds.simps)
  moreover have "compute_sb_data (\<lambda>s. False) (demo_dev demo_sb 0) (zero_fs\<lparr>e2fs := demo_sb\<rparr>) = sb_tables (\<lambda>s. False) (demo_dev demo_sb 0) fg"
    unfolding compute_sb_data_def using demo_geometry(1) by (simp add: Let_def demo_geo_def fg_def del: bnd_Ret_iff)
  ultimately have c: "compute_sb_data (\<lambda>s. False) (demo_dev demo_sb 0) (zero_fs\<lparr>e2fs := demo_sb\<rparr>) = Ret (Inr f1)" by simp
  have f1: "e2fs_bsize f1 = 1024" "e2fs_gcount f1 = 1" "e2fs_features_incompat (e2fs f1) = 0"
    using v by (simp_all add: f1_def fg_def demo_geo_def demo_sb_def zero_sb_def)
  obtain f3 where f3: "mount_clusters (\<lambda>s. False) (f1\<lparr>e2fs_ronly := 0\<rparr>) = Ret (Inr f3)"
    using f1 n by (simp add: mount_clusters_def Let_def)
  have "ext2_mountfs (\<lambda>s. False) (demo_dev demo_sb 0) False False = Some (Ret (Inr (mount_finish (demo_dev demo_sb 0) f3 False)))"
    unfolding ext2_mountfs_def using c f3 f1 by (simp add: buf_meta_bread_def demo_sb_shape demo_geometry Let_def) (simp add: demo_dev_def SBLOCK_def)
  moreover have "\<forall>a. dev_werr (um_devvp (mount_finish (demo_dev demo_sb 0) f3 False)) a = 0 \<and> \<not> dev_nobuf (um_devvp (mount_finish (demo_dev demo_sb 0) f3 False)) a"
    by (simp add: mount_finish_def Let_def ext2_sbupdate_def buf_bwrite_def demo_dev_def)
  moreover have "e2fs f3 = e2fs f1" using f3 by (auto simp: mount_clusters_def Let_def split: if_splits option.splits)
  then have "sb_shape (e2fs f3)" using demo_sb_shape(1) by (simp add: f1_def fg_def demo_geo_def)
  then have "sb_shape (e2fs (um_e2fs (mount_finish (demo_dev demo_sb 0) f3 False)))" unfolding finish_fields by (rule finish_sb(3))
  ultimately show ?thesis by blast
qed

theorem mount_unmount_state_witness:
  "\<exists>ump dev'. ext2_mountfs (\<lambda>s. False) (demo_dev demo_sb 0) False False = Some (Ret (Inr ump)) \<and>
     sb_of (dev_blk (um_devvp ump) SBLOCK) = demo_sb\<lparr>e2fs_state := 0\<rparr> \<and>
     ext2_unmount 0 (ump\<lparr>um_e2fs := (um_e2fs ump)\<lparr>e2fs := (e2fs (um_e2fs ump))\<lparr>e2fs_fbcount := 7\<rparr>\<rparr>\<rparr>) = Ret (Inr dev') \<and>
     sb_of (dev_blk dev' SBLOCK) = demo_sb\<lparr>e2fs_fbcount := 7\<rparr>"
proof -
  obtain ump where u: "ext2_mountfs (\<lambda>s. False) (demo_dev demo_sb 0) False False = Some (Ret (Inr ump))"
    "\<forall>a. dev_werr (um_devvp ump) a = 0 \<and> \<not> dev_nobuf (um_devvp ump) a" "sb_shape (e2fs (um_e2fs ump))"
    using demo_mounts by blast
  let ?v = "ump\<lparr>um_e2fs := (um_e2fs ump)\<lparr>e2fs := (e2fs (um_e2fs ump))\<lparr>e2fs_fbcount := 7\<rparr>\<rparr>\<rparr>"
  have v: "e2fs_ronly (um_e2fs ?v) = e2fs_ronly (um_e2fs ump)" "e2fs_wasvalid (um_e2fs ?v) = e2fs_wasvalid (um_e2fs ump)"
      "e2fs_state (e2fs (um_e2fs ?v)) = e2fs_state (e2fs (um_e2fs ump))" "sb_shape (e2fs (um_e2fs ?v))"
      "\<forall>a. dev_werr (um_devvp ?v) a = 0 \<and> \<not> dev_nobuf (um_devvp ?v) a"
    using u(2,3) by (simp_all add: sb_shape_def)
  have l: "1024 \<le> length (dev_blk (demo_dev demo_sb 0) SBLOCK)" "\<not> dev_nobuf (um_devvp ump) SBLOCK" using demo_sb_shape(3) [of 0] u(2) by simp_all
  have d: "e2fs_features_incompat demo_sb AND EXT2F_INCOMPAT_RECOVER = 0" "e2fs_state demo_sb = E2FS_ISCLEAN" "E2FS_ISCLEAN AND NOT E2FS_ISCLEAN = 0"
    by code_simp+
  note t = mount_unmount_state [OF u(1) l demo_sb_shape(2) [symmetric] v]
  have e: "e2fs (um_e2fs ump) = demo_sb\<lparr>e2fs_state := 0\<rparr>" using t d by auto
  have "e2fs (um_e2fs ?v) = demo_sb\<lparr>e2fs_fbcount := 7, e2fs_state := 0\<rparr>" by (simp add: e)
  moreover obtain dev' where "ext2_unmount 0 ?v = Ret (Inr dev')" "sb_of (dev_blk dev' SBLOCK) = (e2fs (um_e2fs ?v))\<lparr>e2fs_state := e2fs_state demo_sb\<rparr>"
    using t by blast
  moreover have "(demo_sb\<lparr>e2fs_fbcount := 7, e2fs_state := 0\<rparr>)\<lparr>e2fs_state := e2fs_state demo_sb\<rparr> = demo_sb\<lparr>e2fs_fbcount := 7\<rparr>" by simp
  moreover have "sb_of (dev_blk (um_devvp ump) SBLOCK) = demo_sb\<lparr>e2fs_state := 0\<rparr>" using t e by (metis (no_types, lifting))
  ultimately show ?thesis using u(1) by metis
qed

theorem mount_geometry_witness:
  "\<exists>ump. ext2_mountfs (\<lambda>s. False) (demo_dev demo_sb 0) False False = Some (Ret (Inr ump)) \<and> bmap_geom ump \<and>
     length (e2fs_gd (um_e2fs ump)) = unat (e2fs_gcount (um_e2fs ump))"
proof -
  obtain ump where u: "ext2_mountfs (\<lambda>s. False) (demo_dev demo_sb 0) False False = Some (Ret (Inr ump))"
    using demo_mounts by blast
  show ?thesis using mount_geometry [OF u demo_sb_shape(2) [symmetric]] u by (auto simp: demo_sb_def Let_def)
qed

end
