(* ===== verification/Ext2_Truncate.thy ===== *)
theory Ext2_Truncate
  imports Ext2_InodeProps
begin

text \<open>
  \<^verbatim>\<open>ext2_truncate\<close> of a file without extents to a smaller length: the zeroing of the last block, the blocks freed, and the
  content that is left.
\<close>

declare tree_get.simps(2) [simp del]

section \<open>No block is in a file twice\<close>

lemma tree_get_distinct:
  assumes "tree_ok u l w" "x < nindir_of u ^ l" "y < nindir_of u ^ l" "tree_get u l w x \<noteq> 0" "tree_get u l w x = tree_get u l w y"
  shows "x = y"
  using assms
proof (induction l arbitrary: w x y)
  case (Suc l)
  have w: "w \<noteq> 0" and n: "0 < nindir_of u" using Suc.prems(2,4) by (auto intro: ccontr simp: tree_get.simps)
  obtain i a where x: "x = i * nindir_of u ^ l + a" "i < nindir_of u" "a < nindir_of u ^ l" by (rule position_split [OF Suc.prems(2) n])
  obtain j b where y: "y = j * nindir_of u ^ l + b" "j < nindir_of u" "b < nindir_of u ^ l" by (rule position_split [OF Suc.prems(3) n])
  have gx: "tree_get u (Suc l) w x = tree_get u l (ptr_of u w i) a" unfolding x(1) by (rule tree_get_child [OF w x(2,3)])
  have gy: "tree_get u (Suc l) w y = tree_get u l (ptr_of u w j) b" unfolding y(1) by (rule tree_get_child [OF w y(2,3)])
  have nz: "tree_get u l (ptr_of u w i) a \<noteq> 0" "tree_get u l (ptr_of u w j) b \<noteq> 0" using Suc.prems(4,5) gx gy by simp_all
  have "i = j"
  proof (rule ccontr)
    assume "i \<noteq> j"
    from tree_ok_disjoint [OF Suc.prems(1) w x(2) y(2) this] tree_get_in [OF nz(1) x(3)] tree_get_in [OF nz(2) y(3)]
    show False using Suc.prems(5) gx gy by auto
  qed
  moreover have "a = b"
    using Suc.IH [OF tree_ok_child(1) [OF Suc.prems(1) w x(2)] x(3) y(3) nz(1)] Suc.prems(5) gx gy calculation by simp
  ultimately show ?case using x(1) y(1) by simp
qed simp

lemma file_block_distinct:
  assumes f: "file_ok u ip" and b: "file_block u ip b = Some w" "file_block u ip c = Some w" "w \<noteq> 0"
  shows "b = c"
proof -
  have p: "ptrs_ok ip" using f by (simp add: file_ok_def)
  obtain k x where k: "file_place u b = Some (k, x)" "w = tree_get u (root_level k) (block_pointers ip ! k) x"
    using b(1) unfolding file_block_get [OF p] by auto
  obtain j y where j: "file_place u c = Some (j, y)" "w = tree_get u (root_level j) (block_pointers ip ! j) y"
    using b(2) unfolding file_block_get [OF p] by auto
  note r = file_place_range [OF k(1)] and s = file_place_range [OF j(1)]
  have "j = k"
  proof (rule ccontr)
    assume ne: "j \<noteq> k"
    have "unat w \<in> root_blocks u ip k" "unat w \<in> root_blocks u ip j"
      using tree_get_in [of u "root_level k" "block_pointers ip ! k" x] tree_get_in [of u "root_level j" "block_pointers ip ! j" y] k(2) j(2) b(3) r(2) s(2)
      by (simp_all add: root_blocks_def)
    then show False using file_disjoint [OF f s(1) r(1) ne] by blast
  qed
  note jk = this
  have "x = y"
  proof (rule tree_get_distinct [OF file_root_ok [OF f r(1)] r(2)])
    show "y < nindir_of u ^ root_level k" using s(2) jk by simp
    show "tree_get u (root_level k) (block_pointers ip ! k) x \<noteq> 0" using b(3) k(2) by simp
    show "tree_get u (root_level k) (block_pointers ip ! k) x = tree_get u (root_level k) (block_pointers ip ! k) y"
      using k(2) j(2) jk by simp
  qed
  with jk k(1) j(1) show ?thesis using file_place_inj by blast
qed

section \<open>The slot of the inode\<close>

lemma slot_keeps:
  assumes kp: "keeps u u' W" and s: "slot_at u ino b k"
  shows "slot_at u' ino b k"
proof -
  note st = keeps_static [OF kp]
  note f = static_fs_fields [OF st]
  have a: "static_fs (um_e2fs u') = static_fs (um_e2fs u)" by (rule st)
  have g: "map ext2bgd_b_bitmap (e2fs_gd (um_e2fs u')) = map ext2bgd_b_bitmap (e2fs_gd (um_e2fs u))"
  proof -
    have "map (\<lambda>g. g\<lparr>ext2bgd_nbfree := 0\<rparr>) (e2fs_gd (um_e2fs u')) = map (\<lambda>g. g\<lparr>ext2bgd_nbfree := 0\<rparr>) (e2fs_gd (um_e2fs u))"
      using arg_cong [OF a [unfolded static_fs_def], of e2fs_gd] by simp
    from arg_cong [OF this, of "map ext2bgd_b_bitmap"] show ?thesis by (simp add: o_def)
  qed
  have "b_addr (um_e2fs u') i = b_addr (um_e2fs u) i" if "i < length (e2fs_gd (um_e2fs u))" for i
    using arg_cong [OF g, of "\<lambda>l. l ! i"] that f(4,13) by (simp add: b_addr_def fsbtodb_def)
  then have ba: "bitmap_addrs (um_e2fs u') = bitmap_addrs (um_e2fs u)" using f(13) by (simp add: bitmap_addrs_def)
  have x: "E2DI_HAS_XTIME (um_e2fs u') = E2DI_HAS_XTIME (um_e2fs u)"
    using arg_cong [OF a [unfolded static_fs_def], of "\<lambda>f. e2fs_features_rocompat (e2fs f)"]
      arg_cong [OF a [unfolded static_fs_def], of "\<lambda>f. e2fs_rev (e2fs f)"]
    by (simp add: E2DI_HAS_XTIME_def EXT2_HAS_RO_COMPAT_FEATURE_def)
  have t: "ext2bgd_i_tables (e2fs_gd (um_e2fs u') ! i) = ext2bgd_i_tables (e2fs_gd (um_e2fs u) ! i)" if "i < length (e2fs_gd (um_e2fs u))" for i
    using arg_cong [OF f(14), of "\<lambda>l. l ! i"] that f(13) by simp
  have "ino_to_fsbo (um_e2fs u') ino = ino_to_fsbo (um_e2fs u) ino" by (simp add: ino_to_fsbo_def f(7))
  then have a: "ino_to_fsbo (um_e2fs u') ino = Ret k" using s by (simp add: slot_at_def)
  have t': "ext2bgd_i_tables (e2fs_gd (um_e2fs u') ! unat x) = ext2bgd_i_tables (e2fs_gd (um_e2fs u) ! unat x)"
    if "uint x < int (length (e2fs_gd (um_e2fs u)))" for x :: u32
    using that by (intro t) (simp only: uint_nat of_nat_less_iff)
  have "ino_to_fsba (um_e2fs u') ino = Ret b"
    using s t' f by (auto simp: slot_at_def ino_to_fsba_def ino_to_cg_def EXT2_GD_def rd_def split: if_splits)
  then show ?thesis using s a ba x f keeps_params(2) [OF kp] by (simp add: slot_at_def dinode_len_def)
qed

section \<open>Sizes and blocks\<close>

text \<open>The number of blocks of a file of \<open>len\<close> bytes.\<close>

definition blocks_upto :: "m_ext2fs \<Rightarrow> int \<Rightarrow> nat" where
  "blocks_upto fs len = nat ((len + uint (e2fs_bsize fs) - 1) div uint (e2fs_bsize fs))"

lemma cut_numbers:
  assumes s: "shift_ok fs" and len: "0 \<le> len"
  defines "B \<equiv> uint (e2fs_bsize fs)"
  shows "0 < B" "B \<le> 2 ^ 16" "lblkno fs len = int (nat (len div B))" "blkoff fs len = len mod B"
    "int c * B < len \<longleftrightarrow> c < blocks_upto fs len"
    "blocks_upto fs len = (if len mod B = 0 then nat (len div B) else Suc (nat (len div B)))"
    "blocks_upto fs len < 2 ^ 31 \<Longrightarrow> last_block fs len = int (blocks_upto fs len) - 1"
proof -
  have B: "B = 2 ^ unat (e2fs_bshift fs)" "e2fs_qbmask fs = mask (unat (e2fs_bshift fs))" "unat (e2fs_bshift fs) \<le> 16"
    using s by (simp_all add: shift_ok_def B_def)
  show pos: "0 < B" unfolding B(1) by simp
  show "B \<le> 2 ^ 16" unfolding B(1) using B(3) by (intro power_increasing) simp_all
  have d: "0 \<le> len div B" using len pos by (simp add: pos_imp_zdiv_nonneg_iff)
  show "lblkno fs len = int (nat (len div B))" using d by (simp add: blkoff_lblkno(2) [OF B(2)] B(1))
  show "blkoff fs len = len mod B" by (simp add: blkoff_lblkno(1) [OF B(2)] B(1))
  define q where "q = (len + B - 1) div B"
  define r where "r = (len + B - 1) mod B"
  have qr: "len + B - 1 = q * B + r" "0 \<le> r" "r < B" using pos by (simp_all add: q_def r_def)
  have q0: "0 \<le> q" using len pos by (simp add: q_def pos_imp_zdiv_nonneg_iff)
  have L: "blocks_upto fs len = nat q" by (simp add: blocks_upto_def q_def B_def)
  have "int c * B < len \<longleftrightarrow> int c < q"
  proof
    assume "int c * B < len"
    show "int c < q"
    proof (rule ccontr)
      assume "\<not> int c < q"
      then have "q * B \<le> int c * B" using pos by (intro mult_right_mono) simp_all
      with \<open>int c * B < len\<close> qr show False by linarith
    qed
  next
    assume "int c < q"
    then have "(int c + 1) * B \<le> q * B" using pos by (intro mult_right_mono) simp_all
    then show "int c * B < len" using qr by (simp add: distrib_right)
  qed
  then show "int c * B < len \<longleftrightarrow> c < blocks_upto fs len" unfolding L using q0 by linarith
  have lm: "len = len div B * B + len mod B" "0 \<le> len mod B" "len mod B < B" using pos by simp_all
  have "q = (if len mod B = 0 then len div B else len div B + 1)"
  proof (cases "len mod B = 0")
    case True
    then have "len + B - 1 = (B - 1) + len div B * B" using lm by linarith
    then have "q = len div B + (B - 1) div B" unfolding q_def using pos by (metis add.commute div_mult_self1 less_irrefl)
    then show ?thesis using True pos by (simp add: div_pos_pos_trivial)
  next
    case False
    then have "len + B - 1 = (len mod B - 1) + (len div B + 1) * B" using lm by (simp add: distrib_right)
    then have "q = (len div B + 1) + (len mod B - 1) div B" unfolding q_def using pos by (metis add.commute div_mult_self1 less_irrefl)
    then show ?thesis using False lm by (simp add: div_pos_pos_trivial)
  qed
  then show "blocks_upto fs len = (if len mod B = 0 then nat (len div B) else Suc (nat (len div B)))"
    unfolding L using d by (simp add: nat_add_distrib)
  assume small: "blocks_upto fs len < 2 ^ 31"
  have "lblkno fs (len + B - 1) = q" by (simp add: blkoff_lblkno(2) [OF B(2)] q_def B(1))
  then show "last_block fs len = int (blocks_upto fs len) - 1"
    unfolding last_block_def L using small q0 by (subst s32_id) (simp_all add: L B_def)
qed

lemma mapped_below: "b < cap u 3 \<Longrightarrow> file_block u ip b \<noteq> None"
  unfolding numeral_3_eq_3 by (auto simp: file_block_def Let_def numeral_2_eq_2 numeral_3_eq_3)

text \<open>A block with zeros from byte \<open>n\<close> on.\<close>

definition zero_from :: "int \<Rightarrow> bytes \<Rightarrow> bytes" where
  "zero_from n bs = take (nat n) bs @ replicate (length bs - nat n) 0"

lemma zero_from_all: "int (length bs) \<le> n \<Longrightarrow> zero_from n bs = bs"
  by (simp add: zero_from_def)

lemma zero_from_none: "n \<le> 0 \<Longrightarrow> zero_from n bs = replicate (length bs) 0"
  by (simp add: zero_from_def)

lemma zero_from_zeros: "zero_from n (replicate m 0) = replicate m 0"
  unfolding zero_from_def by (rule nth_equalityI) (auto simp: nth_append)

lemma zero_from_length [simp]: "length (zero_from n bs) = length bs"
  by (simp add: zero_from_def)

lemma zero_from_blit:
  assumes "0 \<le> n" "n < int (length bs)" "length bs \<le> 2 ^ 16"
  shows "blit bs n (replicate (unat (word_of_int (int (length bs) - n) :: u32)) 0) = Ret (zero_from n bs)"
proof -
  have "unat (word_of_int (int (length bs) - n) :: u32) = nat (int (length bs) - n)"
  proof -
    have "take_bit 32 (int (length bs) - n) = int (length bs) - n" using assms by (intro take_bit_int_eq_self) simp_all
    then have "uint (word_of_int (int (length bs) - n) :: u32) = int (length bs) - n" by (subst uint_word_of_int_eq) simp
    then show ?thesis unfolding unat_eq_nat_uint by (rule arg_cong)
  qed
  then show ?thesis using assms by (simp add: zero_from_def nat_diff_distrib)
qed

section \<open>The last block\<close>

definition trunc_pre :: "inode_env \<Rightarrow> ext2mount \<Rightarrow> inode \<Rightarrow> int \<Rightarrow> u32 \<Rightarrow> u32 \<Rightarrow> bool" where
  "trunc_pre env u ip len a k \<longleftrightarrow> vol_ok u \<and> healthy u \<and> shift_ok (um_e2fs u) \<and> under_2tb u \<and> file_ok u ip \<and>
     home_ok (um_e2fs u) (i_number ip) \<and> slot_at u (i_number ip) a k \<and> i_flag ip AND IN_E4EXTENTS = 0 \<and>
     \<not> (ie_symlink env \<and> i_size ip < EXT2_MAXSYMLINKLEN) \<and> 0 \<le> len \<and> len < sint (i_size ip) \<and>
     blocks_upto (um_e2fs u) len < 2 ^ 31 \<and> blocks_upto (um_e2fs u) len \<le> cap u 3 \<and>
     is_ret (be_cred (ie_balloc env)) \<and>
     (\<exists>bs. be_getblk (ie_balloc env) (lblkno (um_e2fs u) len) = Some bs \<and> length bs = unat (e2fs_bsize (um_e2fs u)))"

lemma size_upd [simp]:
  "file_ok u (ip\<lparr>i_size := s\<rparr>) = file_ok u ip" "file_set u (ip\<lparr>i_size := s\<rparr>) = file_set u ip"
  "file_block u (ip\<lparr>i_size := s\<rparr>) c = file_block u ip c" "file_content u (ip\<lparr>i_size := s\<rparr>) c = file_content u ip c"
proof -
  show fb: "file_block u (ip\<lparr>i_size := s\<rparr>) c = file_block u ip c" by (rule file_block_cong) simp_all
  show "file_content u (ip\<lparr>i_size := s\<rparr>) c = file_content u ip c" unfolding file_content_def fb ..
qed (simp_all add: file_ok_def ptrs_ok_def file_set_def root_blocks_def block_pointers_def)

lemma sint_nonneg: "0 \<le> sint (w :: u64) \<Longrightarrow> uint w = sint w"
proof -
  assume "0 \<le> sint w"
  moreover have "sint w < 2 ^ 64" using sint_less [of w] by simp
  ultimately show ?thesis unfolding uint_sint [of w] by (intro take_bit_int_eq_self) simp_all
qed

lemma size_before_tail:
  assumes s: "shift_ok fs" and len: "0 \<le> len" "len < sint (i_size ip)" and o: "0 < sz" "sz \<le> uint (e2fs_bsize fs)"
    and b: "b = nat (len div uint (e2fs_bsize fs))"
  shows "no_tail_panic fs ip (int b) sz"
proof -
  let ?B = "uint (e2fs_bsize fs)" and ?S = "uint (i_size ip)"
  have pos: "0 < ?B" by (rule cut_numbers(1) [OF s len(1)])
  have S: "?S = sint (i_size ip)" using len by (intro sint_nonneg) simp
  show ?thesis
  proof (cases "blkoff fs ?S = 0")
    case False
    then show ?thesis using o blkoff_range(1) [OF s, of ?S] by (simp add: no_tail_panic_def)
  next
    case True
    have "0 \<le> ?S" by simp
    from cut_numbers(4) [OF s this] True have m: "?S = ?S div ?B * ?B" by (metis add.right_neutral div_mult_mod_eq)
    have bi: "int b = len div ?B" using b len(1) pos by (simp add: pos_imp_zdiv_nonneg_iff)
    have "len div ?B \<le> ?S div ?B" using len S pos by (intro zdiv_mono1) simp_all
    moreover have "len div ?B \<noteq> ?S div ?B"
    proof
      assume e: "len div ?B = ?S div ?B"
      have "len div ?B * ?B + len mod ?B = len" by (rule div_mult_mod_eq)
      then show False using m [folded e] pos_mod_sign [OF pos, of len] len S by linarith
    qed
    ultimately have "int b + 1 \<le> ?S div ?B" unfolding bi by simp
    then have le: "(int b + 1) * ?B \<le> ?S" using m pos by (metis mult_right_mono order_less_imp_le)
    have ge: "0 \<le> (int b + 1) * ?B" using pos by simp
    have "?S < 2 ^ 64" using uint_lt2p [of "i_size ip"] by simp
    then have "take_bit 64 ((int b + 1) * ?B) = (int b + 1) * ?B" using le ge by (intro take_bit_int_eq_self) simp_all
    then have "uint (word_of_int ((int b + 1) * ?B) :: u64) = (int b + 1) * ?B" by (subst uint_word_of_int_eq) simp
    then have "(word_of_int ((int b + 1) * ?B) :: u64) \<le> i_size ip" using le by (simp add: word_le_def)
    then show ?thesis by (simp add: no_tail_panic_def)
  qed
qed

lemma tail_balloc:
  assumes pre: "trunc_pre env u ip len a k" and off: "len mod uint (e2fs_bsize (um_e2fs u)) \<noteq> 0"
    and b: "b = nat (len div uint (e2fs_bsize (um_e2fs u)))"
  shows "\<exists>N error bp ip1 u1. ext2_balloc (clrbuf_env env) (int b) (len mod uint (e2fs_bsize (um_e2fs u))) ip u = Ret (error, bp, ip1, u1) \<and>
     balloc_done u ip b N error bp ip1 u1 \<and> (error = 0 \<longrightarrow> bp = Some (file_content u ip b)) \<and>
     (\<forall>c. c \<noteq> b \<or> error \<noteq> 0 \<longrightarrow> file_content u1 ip1 c = file_content u ip c)"
proof -
  note p = pre [unfolded trunc_pre_def]
  have g: "vol_ok u" "shift_ok (um_e2fs u)" "file_ok u ip" "under_2tb u" "i_flag ip AND IN_E4EXTENTS = 0" "0 \<le> len" "len < sint (i_size ip)"
    using p by simp_all
  note num = cut_numbers [OF g(2,6)]
  have L: "blocks_upto (um_e2fs u) len = Suc b" using num(6) off b by simp
  have mapped: "file_block u ip b \<noteq> None" using p L by (intro mapped_below) simp
  have o: "0 < len mod uint (e2fs_bsize (um_e2fs u))" "len mod uint (e2fs_bsize (um_e2fs u)) \<le> uint (e2fs_bsize (um_e2fs u))"
    using off pos_mod_bound [OF num(1), of len] pos_mod_sign [OF num(1), of len] by linarith+
  obtain gb where gb: "be_getblk (ie_balloc env) (int b) = Some gb" "length gb = unat (e2fs_bsize (um_e2fs u))"
    using p num(3) b by auto
  have bpre: "balloc_pre (clrbuf_env env) u ip b (len mod uint (e2fs_bsize (um_e2fs u)))"
    using p mapped size_before_tail [OF g(2,6,7) o b] gb(1) by (simp add: balloc_pre_def may_alloc_def clrbuf_env_def)
  obtain N error bp ip1 u1 ip2 rb where r: "ext2_balloc (clrbuf_env env) (int b) (len mod uint (e2fs_bsize (um_e2fs u))) ip u = Ret (error, bp, ip1, u1)"
      "balloc_done u ip b N error bp ip1 u1" "i_db ip2 = i_db ip" "i_ib ip2 = i_ib ip" "i_flag ip2 = i_flag ip"
      "balloc_read (int b) ip2 u = Ret (0, Some rb, ip2, u)"
      "buf_holds (clrbuf_env env) (int b) rb (file_block u ip b \<noteq> Some 0) error bp"
    using balloc_spec [OF bpre] by blast
  obtain w where w: "file_block u ip b = Some w" using mapped by auto
  have fb2: "file_block u ip2 c = file_block u ip c" for c by (rule file_block_cong [OF r(3,4)])
  have ok2: "file_ok u ip2" using g(3) r(3,4) by (simp add: file_ok_def ptrs_ok_def root_blocks_def block_pointers_def)
  have "file_bread u ip2 (int b) = Ret (Inr (dev_addr u w, file_content u ip2 b))"
    using file_bread_content [OF g(1,2) ok2 g(4)] g(5) r(5) w fb2 by simp
  then have rb: "rb = file_content u ip b" using r(6) by (simp add: balloc_read_def file_content_def fb2)
  have hole: "file_block u ip b = Some 0 \<Longrightarrow> file_content u ip b = replicate (unat (e2fs_bsize (um_e2fs u))) 0"
    by (simp add: file_content_def)
  have bp: "error = 0 \<longrightarrow> bp = Some (file_content u ip b)"
    using r(7) rb hole gb by (simp add: buf_holds_def clrbuf_env_def clear_if_def buf_clear_def split: if_splits)
  have fg: "keeps u u1 (file_set u ip - file_data u ip \<union> N)" "N \<inter> block_set u = {}"
    "\<And>c. c \<noteq> b \<or> file_block u ip b \<noteq> Some 0 \<Longrightarrow> file_block u1 ip1 c = file_block u ip c"
    using r(2) by (auto simp: balloc_done_def file_grown_def)
  have W: "unat v \<notin> file_set u ip - file_data u ip \<union> N" if "file_block u ip c = Some v" "v \<noteq> 0" for c v
    using file_block_data [OF g(3) that] fg(2) by (auto simp: data_blocks_def)
  have "file_content u1 ip1 c = file_content u ip c" if c: "c \<noteq> b \<or> error \<noteq> 0" for c
  proof -
    have "file_block u1 ip1 c = file_block u ip c"
      using c fg(3) r(2) by (cases "c = b") (auto simp: balloc_done_def)
    then show ?thesis using file_content_same [OF fg(1) g(3)] W by blast
  qed
  then show ?thesis using r(1,2) bp by blast
qed

lemma keeps_shift: "keeps u u' W \<Longrightarrow> shift_ok (um_e2fs u') = shift_ok (um_e2fs u)"
  using static_fs_fields(1,2,3,5) [OF keeps_static] by (simp add: shift_ok_def)

lemma keeps_2tb:
  assumes "keeps u u' W"
  shows "under_2tb u' = under_2tb u"
  using static_fs_fields(11) [OF keeps_static [OF assms]] assms by (simp add: under_2tb_def keeps_def)

text \<open>The write of one mapped data block: no other block of the file changes.\<close>

lemma file_write_one:
  assumes v: "vol_ok u" and s: "shift_ok (um_e2fs u)" and f: "file_ok u ip" and t: "under_2tb u"
    and x: "i_flag ip AND IN_E4EXTENTS = 0" and b: "file_block u ip b = Some w" "w \<noteq> 0"
    and len: "length bs = unat (e2fs_bsize (um_e2fs u))"
  shows "\<exists>u'. file_bwrite delayed ip (int b) bs u = Ret u' \<and> keeps u u' {unat w} \<and> block_set u' = block_set u \<and> file_ok u' ip \<and>
     file_set u' ip = file_set u ip \<and> (\<forall>c. file_block u' ip c = file_block u ip c) \<and>
     (\<forall>c. file_content u' ip c = (if c = b then bs else file_content u ip c))"
proof -
  define u' where "u' = u\<lparr>um_devvp := buf_bdwrite (um_devvp u) (blk_addr u (unat w)) bs\<rparr>"
  note fd = file_block_data [OF f b]
  have m: "unat w \<notin> meta_blocks (um_e2fs u)" using fd(2) by (simp add: data_blocks_def)
  note kw = blk_write [OF v m len, folded u'_def]
  have W: "{unat w} \<inter> file_inner u ip = {}" using file_inner_data(1) [OF f] fd(1) by blast
  note fs = file_same [OF kw W f refl refl]
  have "file_content u' ip c = (if c = b then bs else file_content u ip c)" for c
  proof (cases "c = b")
    case True
    then show ?thesis using b fs(5) [of b] keeps_params(2) [OF kw(1)] by (simp add: file_content_def u'_def buf_bdwrite_def)
  next
    case False
    have "unat v \<notin> {unat w}" if "file_block u ip c = Some v" "v \<noteq> 0" for v
      using file_block_distinct [OF f that(1) _ that(2), of b] b(1) False by (auto dest: unsigned_word_eqI)
    then show ?thesis using file_content_same [OF kw(1) f fs(5)] False by simp
  qed
  then show ?thesis
    using file_bwrite_content [OF v s f t x b, of delayed bs] kw fs(1,5,6) unfolding u'_def [symmetric] by blast
qed

lemma file_data_in_set: "file_data u ip \<subseteq> file_set u ip"
  using tree_data_subset by (fastforce simp: file_data_def file_set_def root_blocks_def)

definition tail_done :: "ext2mount \<Rightarrow> inode \<Rightarrow> int \<Rightarrow> nat set \<Rightarrow> errno \<Rightarrow> inode \<Rightarrow> ext2mount \<Rightarrow> bool" where
  "tail_done u ip len N error ip' u' \<longleftrightarrow> keeps u u' (file_set u ip \<union> N) \<and> finite N \<and> N \<inter> block_set u = {} \<and> block_set u' = block_set u \<union> N \<and>
     file_ok u' ip' \<and> file_set u' ip' = file_set u ip \<union> N \<and> inode_kept (um_e2fs u) (card N) (ip\<lparr>i_size := i_size ip'\<rparr>) ip' \<and>
     (\<forall>c. file_block u ip c \<noteq> Some 0 \<or> blocks_upto (um_e2fs u) len \<noteq> Suc c \<longrightarrow> file_block u' ip' c = file_block u ip c) \<and>
     (error = 0 \<and> i_size ip' = word_of_int len \<and>
        (\<forall>c. c < blocks_upto (um_e2fs u) len \<longrightarrow>
           file_content u' ip' c = zero_from (len - int c * uint (e2fs_bsize (um_e2fs u))) (file_content u ip c))
      \<or> error = ENOSPC \<and> file_block u ip (blocks_upto (um_e2fs u) len - 1) = Some 0 \<and> i_size ip' = i_size ip \<and>
        (\<forall>c. file_content u' ip' c = file_content u ip c \<and> file_block u' ip' c = file_block u ip c))"

lemma content_whole:
  assumes "vol_ok u" "file_block u ip c \<noteq> None" "int c * uint (e2fs_bsize (um_e2fs u)) + uint (e2fs_bsize (um_e2fs u)) \<le> len"
  shows "zero_from (len - int c * uint (e2fs_bsize (um_e2fs u))) (file_content u ip c) = file_content u ip c"
proof (rule zero_from_all)
  have "int (length (file_content u ip c)) = uint (e2fs_bsize (um_e2fs u))" using file_content_length [OF assms(1,2)] by simp
  then show "int (length (file_content u ip c)) \<le> len - int c * uint (e2fs_bsize (um_e2fs u))" using assms(3) by linarith
qed

lemma kept_size: "inode_kept fs n ip ip' \<Longrightarrow> inode_kept fs n (ip\<lparr>i_size := s\<rparr>) (ip'\<lparr>i_size := s\<rparr>)"
proof -
  assume k: "inode_kept fs n ip ip'"
  then have "bare ip' = bare ip" by (simp add: inode_kept_def)
  moreover have "bare (i\<lparr>i_size := s\<rparr>) = (bare i)\<lparr>i_size := s\<rparr>" for i by (simp add: bare_def)
  ultimately show ?thesis using k by (simp add: inode_kept_def)
qed

lemma tail_spec:
  assumes pre: "trunc_pre env u ip len a k"
  shows "\<exists>N error ip' u'. trunc_tail env len ip u = Ret (error, ip', u') \<and> tail_done u ip len N error ip' u'"
proof -
  let ?fs = "um_e2fs u" and ?B = "uint (e2fs_bsize (um_e2fs u))"
  define b where "b = nat (len div ?B)"
  note p = pre [unfolded trunc_pre_def]
  have g: "vol_ok u" "shift_ok ?fs" "file_ok u ip" "under_2tb u" "i_flag ip AND IN_E4EXTENTS = 0" "0 \<le> len"
    "blocks_upto ?fs len < 2 ^ 31" "blocks_upto ?fs len \<le> cap u 3" using p by simp_all
  note num = cut_numbers [OF g(2,6), folded b_def]
  have o: "0 \<le> len mod ?B" "len mod ?B < ?B" using num(1) by simp_all
  have "int b = len div ?B" using g(6) num(1) by (simp add: b_def pos_imp_zdiv_nonneg_iff)
  then have bB: "int b * ?B + len mod ?B = len" by (simp only: div_mult_mod_eq)
  have so: "s32 (blkoff ?fs len) = len mod ?B" unfolding num(4) using o num(2) by (intro s32_id) simp_all
  have whole: "zero_from (len - int c * ?B) (file_content u ip c) = file_content u ip c" if "c < blocks_upto ?fs len" "c \<noteq> b \<or> len mod ?B = 0" for c
  proof (rule content_whole [OF g(1)])
    show "file_block u ip c \<noteq> None" using mapped_below that(1) g(8) by (meson order_less_le_trans)
    have "c < b" using that num(6) by (auto split: if_splits)
    then have "(int c + 1) * ?B \<le> int b * ?B" using num(1) by (intro mult_right_mono) simp_all
    moreover have "int b * ?B \<le> len" using bB o by linarith
    ultimately show "int c * ?B + ?B \<le> len" by (simp add: distrib_right)
  qed
  show ?thesis
  proof (cases "len mod ?B = 0")
    case True
    have "trunc_tail env len ip u = Ret (0, ip\<lparr>i_size := word_of_int len\<rparr>, u)" unfolding trunc_tail_def Let_def so by (simp add: True)
    moreover have "tail_done u ip len {} 0 (ip\<lparr>i_size := word_of_int len\<rparr>) u"
      unfolding tail_done_def using keeps_refl [OF g(1)] g(3) whole True by auto
    ultimately show ?thesis by blast
  next
    case False
    have L: "blocks_upto ?fs len = Suc b" using num(6) False by simp
    have sl: "s32 (lblkno ?fs len) = int b" unfolding num(3) using g(7) L by (intro s32_id) simp_all
    obtain N error bp ip1 u1 where r: "ext2_balloc (clrbuf_env env) (int b) (len mod ?B) ip u = Ret (error, bp, ip1, u1)"
      "balloc_done u ip b N error bp ip1 u1" "error = 0 \<Longrightarrow> bp = Some (file_content u ip b)"
      "\<And>c. c \<noteq> b \<or> error \<noteq> 0 \<Longrightarrow> file_content u1 ip1 c = file_content u ip c"
      using tail_balloc [OF pre False b_def] by blast
    have d: "finite N" "N \<inter> block_set u = {}" "block_set u1 = block_set u \<union> N" "file_ok u1 ip1" "file_set u1 ip1 = file_set u ip \<union> N"
      "keeps u u1 (file_set u ip - file_data u ip \<union> N)" "inode_kept ?fs (card N) ip ip1"
      "\<And>c. c \<noteq> b \<or> file_block u ip b \<noteq> Some 0 \<Longrightarrow> file_block u1 ip1 c = file_block u ip c"
      using r(2) by (auto simp: balloc_done_def file_grown_def)
    have run: "trunc_tail env len ip u = (if error \<noteq> 0 then Ret (error, ip1, u1) else
        case bp of None \<Rightarrow> Fault NullDeref
        | Some bs \<Rightarrow> bnd (blit bs (len mod ?B) (replicate (unat (word_of_int (s32 (blksize ?fs) - len mod ?B) :: u32)) 0)) (\<lambda>bs.
             bnd (write_file_block env (ip1\<lparr>i_size := word_of_int len\<rparr>) (int b) bs u1) (\<lambda>ump. Ret (0, ip1\<lparr>i_size := word_of_int len\<rparr>, ump))))"
      unfolding trunc_tail_def Let_def so sl r(1) bnd.simps prod.case using False by simp
    show ?thesis
    proof (cases "error = 0")
      case e: False
      then have en: "error = ENOSPC" "file_block u ip b = Some 0" "file_block u1 ip1 b = Some 0" using r(2) by (auto simp: balloc_done_def)
      have "\<forall>c. file_block u1 ip1 c = file_block u ip c" using d(8) en by metis
      moreover have "i_size ip1 = i_size ip" "ip\<lparr>i_size := i_size ip\<rparr> = ip" using inode_kept_fields(1) [OF d(7)] by simp_all
      moreover have "keeps u u1 (file_set u ip \<union> N)" by (rule keeps_mono [OF d(6)]) blast
      ultimately have "tail_done u ip len N error ip1 u1" unfolding tail_done_def using d(1-5,7) e en r(4) L by auto
      then show ?thesis using run e by auto
    next
      case e: True
      let ?ip = "ip1\<lparr>i_size := word_of_int len\<rparr>" and ?bs = "zero_from (len mod ?B) (file_content u ip b)"
      have lb: "length (file_content u ip b) = unat (e2fs_bsize ?fs)"
        by (rule file_content_length [OF g(1)]) (use mapped_below g(8) L in simp)
      have ilb: "int (length (file_content u ip b)) = ?B" unfolding lb by simp
      have "blksize ?fs = ?B" using g(2) by (simp add: blksize_def shift_ok_def)
      then have sz: "s32 (blksize ?fs) = int (length (file_content u ip b))" unfolding ilb using num(1,2) by (simp add: s32_id)
      have "int (length (file_content u ip b)) \<le> 2 ^ 16" using num(2) unfolding ilb .
      then have lb2: "length (file_content u ip b) \<le> 2 ^ 16" by simp
      have bl: "blit (file_content u ip b) (len mod ?B) (replicate (unat (word_of_int (s32 (blksize ?fs) - len mod ?B) :: u32)) 0) = Ret ?bs"
        unfolding sz by (rule zero_from_blit) (use o ilb lb2 in simp_all)
      have v1: "vol_ok u1" "shift_ok (um_e2fs u1)" "under_2tb u1" "i_flag ?ip AND IN_E4EXTENTS = 0" "e2fs_bsize (um_e2fs u1) = e2fs_bsize ?fs"
        using keeps_vol [OF d(6)] keeps_shift [OF d(6)] keeps_2tb [OF d(6)] inode_kept_fields(4) [OF d(7)] g
          static_fs_fields(1) [OF keeps_static [OF d(6)]] by simp_all
      have "file_block u1 ip1 b \<noteq> None" 
        using mapped_below [of b u1 ip1] g(8) L keeps_params(1) [OF d(6)] by (simp add: numeral_3_eq_3)
      then obtain w where w: "file_block u1 ?ip b = Some w" "w \<noteq> 0" using r(2) e by (auto simp: balloc_done_def ENOSPC_def)
      have f1: "file_ok u1 ?ip" using d(4) by simp
      have lz: "length ?bs = unat (e2fs_bsize (um_e2fs u1))" using lb v1(5) by simp
      obtain u2 where u2: "write_file_block env ?ip (int b) ?bs u1 = Ret u2" "keeps u1 u2 {unat w}" "block_set u2 = block_set u1" "file_ok u2 ?ip"
        "file_set u2 ?ip = file_set u1 ?ip" "\<And>c. file_block u2 ?ip c = file_block u1 ?ip c"
        "\<And>c. file_content u2 ?ip c = (if c = b then ?bs else file_content u1 ?ip c)"
        using file_write_one [OF v1(1,2) f1 v1(3,4) w lz, of "\<not> be_sync (ie_balloc env) \<and> doing_async env"] unfolding write_file_block_def by blast
      have res: "trunc_tail env len ip u = Ret (0, ?ip, u2)" unfolding run using e r(3) bl u2(1) by simp
      have "unat w \<in> file_set u1 ?ip" using file_block_data(1) [OF f1 w] file_data_in_set by blast
      then have "keeps u u2 (file_set u ip \<union> N)" using d(5) by (intro keeps_mono [OF keeps_trans [OF d(6) u2(2)]]) auto
      moreover have "file_content u2 ?ip c = zero_from (len - int c * ?B) (file_content u ip c)" if c: "c < blocks_upto ?fs len" for c
      proof (cases "c = b")
        case True
        have "len - int b * ?B = len mod ?B" using bB by linarith
        then show ?thesis using u2(7) True by simp
      next
        case False
        then show ?thesis using u2(7) [of c] r(4) [of c] whole [OF c] by simp
      qed
      moreover have "\<forall>c. file_block u ip c \<noteq> Some 0 \<or> blocks_upto ?fs len \<noteq> Suc c \<longrightarrow> file_block u2 ?ip c = file_block u ip c"
      proof (intro allI impI)
        fix c assume "file_block u ip c \<noteq> Some 0 \<or> blocks_upto ?fs len \<noteq> Suc c"
        then have "c \<noteq> b \<or> file_block u ip b \<noteq> Some 0" unfolding L by auto
        from d(8) [OF this] show "file_block u2 ?ip c = file_block u ip c" using u2(6) [of c] by simp
      qed
      moreover have "inode_kept ?fs (card N) (ip\<lparr>i_size := word_of_int len\<rparr>) ?ip" by (rule kept_size [OF d(7)])
      ultimately have "tail_done u ip len N 0 ?ip u2" unfolding tail_done_def using d(1-3,5) u2(3,4,5) by simp
      then show ?thesis using res by blast
    qed
  qed
qed

section \<open>The blocks that go, and their count\<close>

lemma tree_cut_get:
  assumes "0 < m" "m \<le> x" "x < nindir_of u ^ l" "tree_get u l w x \<noteq> 0"
  shows "unat (tree_get u l w x) \<in> tree_cut u l w m"
  using assms
proof (induction l arbitrary: w m x)
  case (Suc l)
  have w: "w \<noteq> 0" and n: "0 < nindir_of u" using Suc.prems(3,4) by (auto intro: ccontr simp: tree_get.simps)
  obtain k y where x: "x = k * nindir_of u ^ l + y" "k < nindir_of u" "y < nindir_of u ^ l" by (rule position_split [OF Suc.prems(3) n])
  have g: "tree_get u (Suc l) w x = tree_get u l (ptr_of u w k) y" unfolding x(1) by (rule tree_get_child [OF w x(2,3)])
  have "unat (tree_get u l (ptr_of u w k) y) \<in> (if m \<le> k * nindir_of u ^ l then set (tree_blocks u l (ptr_of u w k))
      else tree_cut u l (ptr_of u w k) (m - k * nindir_of u ^ l))"
    using tree_get_in [of u l "ptr_of u w k" y] Suc.IH [of "m - k * nindir_of u ^ l" y "ptr_of u w k"] Suc.prems g x by auto
  then show ?case unfolding g tree_cut.simps(2) if_not_P [OF w] by (rule UN_I [rotated]) (simp add: x(2))
qed simp

lemma file_cut_get:
  assumes f: "file_ok u ip" and b: "file_block u ip c = Some w" "w \<noteq> 0" "L \<le> c"
  shows "unat w \<in> file_cut u ip L"
proof -
  have p: "ptrs_ok ip" using f by (simp add: file_ok_def)
  obtain k x where k: "file_place u c = Some (k, x)" "w = tree_get u (root_level k) (block_pointers ip ! k) x"
    using b(1) unfolding file_block_get [OF p] by auto
  note r = file_place_range [OF k(1)]
  have "root_keep u L k \<le> x" using root_keep_in [OF k(1), of L] b(3) by simp
  then have "unat w \<in> root_cut u ip L k"
    using tree_cut_get [of "root_keep u L k" x u "root_level k" "block_pointers ip ! k"] tree_get_in [of u "root_level k" "block_pointers ip ! k" x]
      k(2) b(2) r(2) by (auto simp: root_cut_def root_blocks_def)
  then show ?thesis using r(1) by (auto simp: file_cut_def)
qed

lemma cut_sets:
  assumes c: "cut_to u ip L {..<15} u' ip'" and f: "file_ok u ip"
  shows "file_cut u ip L \<subseteq> file_set u ip" "file_set u' ip' = file_set u ip - file_cut u ip L" "block_set u' = block_set u - file_cut u ip L"
proof -
  show "file_cut u ip L \<subseteq> file_set u ip" using root_cut_subset by (fastforce simp: file_cut_def file_set_def)
  show "block_set u' = block_set u - file_cut u ip L" using c by (simp add: cut_to_def file_cut_def)
  have rb: "root_blocks u' ip' k = root_blocks u ip k - root_cut u ip L k" if "k < 15" for k using c that by (simp add: cut_to_def)
  have "root_blocks u ip j \<inter> root_cut u ip L k = {}" if "j < 15" "k < 15" "j \<noteq> k" for j k
    using file_disjoint [OF f that] root_cut_subset [of u ip L k] by blast
  then have "root_blocks u ip k - root_cut u ip L k = root_blocks u ip k - file_cut u ip L" if "k < 15" for k
    using that by (auto simp: file_cut_def)
  then show "file_set u' ip' = file_set u ip - file_cut u ip L" using rb by (auto simp: file_set_def)
qed

lemma file_set_used: "file_ok u ip \<Longrightarrow> file_set u ip \<subseteq> block_set u" "file_ok u ip \<Longrightarrow> file_set u ip \<subseteq> {..<unat (e2fs_bcount (e2fs (um_e2fs u)))}"
  by (auto simp: file_ok_def tree_ok_def file_set_def root_blocks_def data_blocks_def)

lemma cut_content:
  assumes c: "cut_to u ip L {..<15} u' ip'" and f: "file_ok u ip" and m: "file_block u ip b \<noteq> None"
  shows "file_block u' ip' b = (if L \<le> b then Some 0 else file_block u ip b)"
    "file_content u' ip' b = (if L \<le> b then replicate (unat (e2fs_bsize (um_e2fs u))) 0 else file_content u ip b)"
proof -
  have p: "ptrs_ok ip" using f by (simp add: file_ok_def)
  obtain k x where k: "file_place u b = Some (k, x)" using m unfolding file_block_get [OF p] by auto
  show fb: "file_block u' ip' b = (if L \<le> b then Some 0 else file_block u ip b)"
    using c k file_place_range(1) [OF k] by (auto simp: cut_to_def)
  have kp: "keeps u u' (file_inner u ip)" using c by (simp add: cut_to_def)
  show "file_content u' ip' b = (if L \<le> b then replicate (unat (e2fs_bsize (um_e2fs u))) 0 else file_content u ip b)"
  proof (cases "L \<le> b")
    case True
    then show ?thesis using fb static_fs_fields(1) [OF keeps_static [OF kp]] by (simp add: file_content_def)
  next
    case False
    have "unat w \<notin> file_inner u ip" if "file_block u ip b = Some w" "w \<noteq> 0" for w
      using file_block_data(1) [OF f that] file_inner_data(1) [OF f] by blast
    then show ?thesis using file_content_same [OF kp f, of ip' b] fb False by simp
  qed
qed

text \<open>\<^verbatim>\<open>i_blocks\<close> counts the blocks of the file.\<close>

definition counted :: "ext2mount \<Rightarrow> inode \<Rightarrow> bool" where
  "counted u ip \<longleftrightarrow> i_blocks ip = of_nat (card (file_set u ip)) * block_charge (um_e2fs u)"

lemma unat_times: "n * unat (c :: u64) < 2 ^ 64 \<Longrightarrow> unat (of_nat n * c) = n * unat c"
proof -
  assume a: "n * unat c < 2 ^ 64"
  have "unat (of_nat k :: u64) = k" if "k < 2 ^ 64" for k using that by (simp add: unat_of_nat)
  from this [OF a] show ?thesis by simp
qed

lemma counted_cut:
  assumes c: "cut_to u ip L {..<15} u' ip'" and f: "file_ok u ip" and s: "shift_ok (um_e2fs u)" and n: "counted u ip"
    and b: "i_blocks ip' = (let r = of_nat (card (file_cut u ip L)) * block_charge (um_e2fs u) in if r \<le> i_blocks ip then i_blocks ip - r else 0)"
  shows "counted u' ip'"
proof -
  let ?c = "block_charge (um_e2fs u)" and ?m = "card (file_cut u ip L)" and ?n = "card (file_set u ip)"
  note cs = cut_sets [OF c f]
  have fin: "finite (file_set u ip)" using file_set_used(2) [OF f] finite_subset by blast
  have mn: "?m \<le> ?n" by (rule card_mono [OF fin cs(1)])
  have "?n \<le> unat (e2fs_bcount (e2fs (um_e2fs u)))" using card_mono [OF _ file_set_used(2) [OF f]] by simp
  then have n32: "?n \<le> 2 ^ 32" using unsigned_less [of "e2fs_bcount (e2fs (um_e2fs u))", where ?'a = nat] by simp
  have "uint (e2fs_bsize (um_e2fs u)) \<le> 2 ^ 16" by (rule cut_numbers(2) [OF s order_refl])
  then have "unat (e2fs_bsize (um_e2fs u)) \<le> nat (2 ^ 16)" unfolding unat_eq_nat_uint by (rule nat_mono)
  moreover have "unat ?c \<le> unat (e2fs_bsize (um_e2fs u))"
    by (simp add: block_charge_def unat_ucast_32_64 unat_drop_bit_eq drop_bit_eq_div unat_div)
  ultimately have c16: "unat ?c \<le> 2 ^ 16" by simp
  have big: "k * unat ?c < 2 ^ 64" if "k \<le> 2 ^ 32" for k
    using mult_le_mono [OF that c16] by simp
  have "of_nat ?m * ?c \<le> of_nat ?n * ?c"
    unfolding word_le_nat_alt unat_times [OF big [OF n32]] unat_times [OF big [OF order_trans [OF mn n32]]] using mn by simp
  then have "i_blocks ip' = of_nat ?n * ?c - of_nat ?m * ?c" using b n by (simp add: counted_def)
  also have "\<dots> = of_nat (?n - ?m) * ?c" using mn by (simp add: of_nat_diff left_diff_distrib)
  also have "?n - ?m = card (file_set u' ip')" unfolding cs(2) using card_Diff_subset [OF finite_subset [OF cs(1) fin] cs(1)] by simp
  finally have r: "i_blocks ip' = of_nat (card (file_set u' ip')) * ?c" .
  have "keeps u u' (file_inner u ip)" using c by (simp add: cut_to_def)
  then have "block_charge (um_e2fs u') = ?c" using static_fs_fields(1) [OF keeps_static] by (simp add: block_charge_def)
  then show ?thesis using r by (simp add: counted_def)
qed

section \<open>\<^verbatim>\<open>ext2_truncate\<close>\<close>

lemma steady_kept: "inode_kept fs n (ip\<lparr>i_size := s\<rparr>) ip' \<Longrightarrow> steady ip' = steady ip"
proof -
  assume "inode_kept fs n (ip\<lparr>i_size := s\<rparr>) ip'"
  then have "bare ip' = bare (ip\<lparr>i_size := s\<rparr>)" by (simp add: inode_kept_def)
  then have e: "steady (bare ip') = steady (bare (ip\<lparr>i_size := s\<rparr>))" by (rule arg_cong)
  have b: "steady (bare i) = steady i" for i
    using time_flags_mask(2) [OF time_flags(5), of "i_flag i"] by (simp add: steady_def untimed_def bare_def del: word_bw_assocs)
  show ?thesis using e unfolding b by simp
qed

text \<open>What is left of the file \<open>ip\<close> of \<open>u\<close>, cut to \<open>len\<close> bytes.\<close>

definition cut_file :: "ext2mount \<Rightarrow> inode \<Rightarrow> int \<Rightarrow> ext2mount \<Rightarrow> inode \<Rightarrow> bool" where
  "cut_file u ip len u' ip' \<longleftrightarrow> i_size ip' = word_of_int len \<and>
     (\<forall>c. file_block u ip c \<noteq> None \<longrightarrow>
        file_content u' ip' c = zero_from (len - int c * uint (e2fs_bsize (um_e2fs u))) (file_content u ip c)) \<and>
     (\<forall>c. file_block u ip c \<noteq> None \<longrightarrow> len \<le> int c * uint (e2fs_bsize (um_e2fs u)) \<longrightarrow>
        file_block u' ip' c = Some 0 \<and> (\<forall>w. file_block u ip c = Some w \<longrightarrow> w \<noteq> 0 \<longrightarrow> unat w \<notin> block_set u')) \<and>
     (\<forall>c. file_block u ip c \<notin> {None, Some 0} \<longrightarrow> int c * uint (e2fs_bsize (um_e2fs u)) < len \<longrightarrow> file_block u' ip' c = file_block u ip c)"

text \<open>A file all of whose blocks are in use, and none of which has been written.\<close>

lemma other_file:
  assumes kp: "keeps u u' W" and f: "file_ok u jp" and W: "file_set u jp \<inter> W = {}" and used: "file_set u jp \<subseteq> block_set u'"
  shows "file_ok u' jp" "file_block u' jp b = file_block u jp b" "file_content u' jp b = file_content u jp b"
proof -
  have p: "ptrs_ok jp" using f by (simp add: file_ok_def)
  have rs: "set (tree_blocks u (root_level k) (block_pointers jp ! k)) \<subseteq> file_set u jp" if "k < 15" for k
    using that by (auto simp: file_set_def root_blocks_def)
  have a: "tree_blocks u' (root_level k) (block_pointers jp ! k) = tree_blocks u (root_level k) (block_pointers jp ! k) \<and>
      (\<forall>x < nindir_of u ^ root_level k. tree_get u' (root_level k) (block_pointers jp ! k) x = tree_get u (root_level k) (block_pointers jp ! k) x)"
    if k: "k < 15" for k
  proof -
    have i: "tree_inner u (root_level k) (block_pointers jp ! k) \<inter> W = {}"
      using W rs [OF k] tree_inner_subset [of u "root_level k" "block_pointers jp ! k"] by blast
    have m: "tree_inner u (root_level k) (block_pointers jp ! k) \<inter> meta_blocks (um_e2fs u) = {}"
      using tree_inner_subset [of u "root_level k" "block_pointers jp ! k"] file_root_ok [OF f k] by (auto simp: tree_ok_def data_blocks_def)
    show ?thesis using inner_agree [OF keeps_agree [OF kp i m] subset_refl] by blast
  qed
  have st: "e2fs_bcount (e2fs (um_e2fs u')) = e2fs_bcount (e2fs (um_e2fs u))" "meta_blocks (um_e2fs u') = meta_blocks (um_e2fs u)"
    using static_fs_fields(11,15) [OF keeps_static [OF kp]] by simp_all
  have "set (tree_blocks u (root_level k) (block_pointers jp ! k)) \<subseteq> data_blocks u'" if k: "k < 15" for k
    using file_root_ok [OF f k] rs [OF k] used unfolding tree_ok_def data_blocks_def st by blast
  then show "file_ok u' jp" using f a unfolding file_ok_def tree_ok_def root_blocks_def by simp
  show fb: "file_block u' jp b = file_block u jp b" for b
  proof (cases "file_place u b")
    case None
    then show ?thesis by (simp add: file_block_get [OF p] file_place_keeps [OF kp])
  next
    case (Some q)
    obtain k x where "q = (k, x)" by (cases q)
    then show ?thesis using Some a file_place_range [of u b k x] by (simp add: file_block_get [OF p] file_place_keeps [OF kp])
  qed
  show "file_content u' jp b = file_content u jp b"
    by (rule file_content_same [OF kp f fb]) (use file_block_data(1) [OF f] file_data_in_set W in blast)
qed

text \<open>The files that share no block with \<open>ip\<close>: they are well formed, mapped as before and their contents are the same.\<close>

definition other_files_same :: "ext2mount \<Rightarrow> inode \<Rightarrow> ext2mount \<Rightarrow> bool" where
  "other_files_same u ip u' \<longleftrightarrow> (\<forall>jp. file_ok u jp \<and> file_set u jp \<inter> file_set u ip = {} \<longrightarrow>
     file_ok u' jp \<and> (\<forall>c. file_block u' jp c = file_block u jp c \<and> file_content u' jp c = file_content u jp c))"

lemma other_files_keeps:
  assumes kp: "keeps u u' (file_set u ip \<union> N)" and N: "N \<inter> block_set u = {}" and bs: "block_set u - file_set u ip \<subseteq> block_set u'"
  shows "other_files_same u ip u'"
  unfolding other_files_same_def
proof (intro allI impI)
  fix jp assume j: "file_ok u jp \<and> file_set u jp \<inter> file_set u ip = {}"
  have s: "file_set u jp \<subseteq> block_set u" using j file_set_used(1) by blast
  note o = other_file [OF kp conjunct1 [OF j]]
  have "file_set u jp \<inter> (file_set u ip \<union> N) = {}" "file_set u jp \<subseteq> block_set u'" using j s N bs by blast+
  from o [OF this] show "file_ok u' jp \<and> (\<forall>c. file_block u' jp c = file_block u jp c \<and> file_content u' jp c = file_content u jp c)" by blast
qed

text \<open>The blocks of all others stay as they are, and the inode counts its own.\<close>

definition others_kept :: "ext2mount \<Rightarrow> inode \<Rightarrow> ext2mount \<Rightarrow> inode \<Rightarrow> bool" where
  "others_kept u ip u' ip' \<longleftrightarrow> vol_ok u' \<and> file_ok u' ip' \<and> block_set u' - file_set u' ip' = block_set u - file_set u ip \<and>
     (counted u ip \<longrightarrow> counted u' ip') \<and> steady ip' = steady ip \<and> other_files_same u ip u'"

lemma tail_others:
  assumes t: "tail_done u ip len N error ip' u'" and f: "file_ok u ip"
  shows "others_kept u ip u' ip'"
proof -
  have d: "keeps u u' (file_set u ip \<union> N)" "finite N" "N \<inter> block_set u = {}" "block_set u' = block_set u \<union> N" "file_ok u' ip'" "file_set u' ip' = file_set u ip \<union> N"
    "inode_kept (um_e2fs u) (card N) (ip\<lparr>i_size := i_size ip'\<rparr>) ip'" using t by (simp_all add: tail_done_def)
  have fin: "finite (file_set u ip)" using file_set_used(2) [OF f] finite_subset by blast
  have "N \<inter> file_set u ip = {}" using d(3) file_set_used(1) [OF f] by blast
  then have card: "card (file_set u' ip') = card (file_set u ip) + card N" unfolding d(6) using fin d(2) by (intro card_Un_disjoint) blast+
  note kp = d(1)
  have ch: "block_charge (um_e2fs u') = block_charge (um_e2fs u)"
    using static_fs_fields(1) [OF keeps_static [OF kp]] by (simp add: block_charge_def)
  have "i_blocks ip' = i_blocks ip + of_nat (card N) * block_charge (um_e2fs u)" using d(7) by (simp add: inode_kept_def)
  then have "counted u ip \<longrightarrow> counted u' ip'" unfolding counted_def card ch by (simp add: distrib_right)
  moreover have "block_set u' - file_set u' ip' = block_set u - file_set u ip" unfolding d(4,6) using d(3) by blast
  moreover have "other_files_same u ip u'" by (rule other_files_keeps [OF kp d(3)]) (use d(4) in blast)
  ultimately show ?thesis unfolding others_kept_def using keeps_vol [OF kp] d(5) steady_kept [OF d(7)] by blast
qed

lemma truncate_spec:
  assumes pre: "trunc_pre env u ip len a k"
  shows "\<exists>error ip' u'. ext2_truncate env len ip u = Ret (error, ip', u') \<and> others_kept u ip u' ip' \<and>
     (error = ie_inval env \<and> cut_file u ip len u' ip' \<or>
      error = ENOSPC \<and> file_block u ip (blocks_upto (um_e2fs u) len - 1) = Some 0 \<and> i_size ip' = i_size ip \<and>
        (\<forall>c. file_block u' ip' c = file_block u ip c \<and> file_content u' ip' c = file_content u ip c))"
proof -
  let ?fs = "um_e2fs u" and ?B = "uint (e2fs_bsize (um_e2fs u))" and ?L = "blocks_upto (um_e2fs u) len"
  note p = pre [unfolded trunc_pre_def]
  have g: "vol_ok u" "shift_ok ?fs" "file_ok u ip" "healthy u" "slot_at u (i_number ip) a k" "0 \<le> len" "len < sint (i_size ip)" "?L < 2 ^ 31" "?L \<le> cap u 3"
    using p by simp_all
  note num = cut_numbers [OF g(2,6)]
  have pos: "0 \<le> sint (i_size ip)" using g(6,7) by simp
  have "uint (word_of_int len :: u64) = len"
    using g(6,7) sint_less [of "i_size ip"] by (subst uint_word_of_int_eq) (intro take_bit_int_eq_self, simp_all)
  then have ne: "i_size ip \<noteq> word_of_int len" using sint_nonneg [OF pos] g(7) by auto
  obtain N error ip1 u1 where t: "trunc_tail env len ip u = Ret (error, ip1, u1)" "tail_done u ip len N error ip1 u1"
    using tail_spec [OF pre] by blast
  have run: "ext2_truncate env len ip u = (if error \<noteq> 0 then Ret (error, ip1, u1) else trunc_shrink env len (sint (i_size ip)) ip1 u1)"
  proof -
    have "\<not> len < 0" "\<not> i_flag ip AND IN_E4EXTENTS \<noteq> 0" "\<not> (ie_symlink env \<and> i_size ip < EXT2_MAXSYMLINKLEN)" "\<not> sint (i_size ip) < len"
      using p by auto
    note c = this [THEN if_not_P] ne [THEN if_not_P]
    show ?thesis unfolding ext2_truncate_def Let_def c t(1) bnd.simps prod.case ..
  qed
  note oth = tail_others [OF t(2) g(3)]
  show ?thesis
  proof (cases "error = 0")
    case False
    then have "error = ENOSPC" "file_block u ip (?L - 1) = Some 0" "i_size ip1 = i_size ip" "\<forall>c. file_content u1 ip1 c = file_content u ip c \<and> file_block u1 ip1 c = file_block u ip c"
      using t(2) by (simp_all add: tail_done_def)
    then show ?thesis unfolding run using oth False by auto
  next
    case e: True
    have kp: "keeps u u1 (file_set u ip \<union> N)" and N: "N \<inter> block_set u = {}" "block_set u1 = block_set u \<union> N" "file_set u1 ip1 = file_set u ip \<union> N"
      using t(2) by (simp_all add: tail_done_def)
    have d: "file_ok u1 ip1" "\<And>c. file_block u ip c \<noteq> Some 0 \<or> ?L \<noteq> Suc c \<Longrightarrow> file_block u1 ip1 c = file_block u ip c"
      "\<And>c. c < ?L \<Longrightarrow> file_content u1 ip1 c = zero_from (len - int c * ?B) (file_content u ip c)"
      using t(2) e by (auto simp: tail_done_def ENOSPC_def)
    have "steady ip1 = steady ip" using oth by (simp add: others_kept_def)
    from arg_cong [OF this, of i_number] have i1: "i_number ip1 = i_number ip" by (simp add: steady_def untimed_def)
    have fs1: "e2fs_bsize (um_e2fs u1) = e2fs_bsize ?fs" "e2fs_bshift (um_e2fs u1) = e2fs_bshift ?fs"
      using static_fs_fields(1,2) [OF keeps_static [OF kp]] by simp_all
    have v1: "vol_ok u1" "healthy u1" "shift_ok (um_e2fs u1)" "slot_at u1 (i_number ip1) a k" "cap u1 3 = cap u 3"
      using keeps_vol [OF kp] healthy_keeps [OF kp] keeps_shift [OF kp] slot_keeps [OF kp g(5)] g i1 keeps_params(1) [OF kp]
      by (simp_all add: numeral_3_eq_3)
    have lb: "last_block (um_e2fs u1) len = int ?L - 1" using num(7) [OF g(8)] fs1 by (simp add: last_block_def lblkno_def)
    obtain ip2 u2 where s: "trunc_shrink env len (sint (i_size ip)) ip1 u1 = Ret (ie_inval env, ip2, u2)" "cut_to u1 ip1 ?L {..<15} u2 ip2"
      "i_size ip2 = word_of_int len" "steady ip2 = steady ip1"
      "i_blocks ip2 = (let r = of_nat (card (file_cut u1 ip1 ?L)) * block_charge (um_e2fs u1) in if r \<le> i_blocks ip1 then i_blocks ip1 - r else 0)"
      using shrink_spec [OF v1(1-3) d(1) v1(4) lb g(8)] g(9) v1(5) by metis
    note cs = cut_sets [OF s(2) d(1)] and cc = cut_content [OF s(2) d(1)]
    have "vol_ok u2" "file_ok u2 ip2" using s(2) by (simp_all add: cut_to_def keeps_def)
    moreover have "block_set u2 - file_set u2 ip2 = block_set u1 - file_set u1 ip1" using cs by blast
    moreover have "counted u1 ip1 \<longrightarrow> counted u2 ip2" using counted_cut [OF s(2) d(1) v1(3) _ s(5)] by blast
    moreover have "other_files_same u ip u2"
    proof (rule other_files_keeps [OF _ N(1)])
      have "keeps u1 u2 (file_inner u1 ip1)" using s(2) by (simp add: cut_to_def)
      from keeps_trans [OF kp this] show "keeps u u2 (file_set u ip \<union> N)"
        by (rule keeps_mono) (use file_inner_data(2) [OF d(1)] N(3) in blast)
      show "block_set u - file_set u ip \<subseteq> block_set u2" using cs N by blast
    qed
    ultimately have oth2: "others_kept u ip u2 ip2" using oth s(4) by (simp add: others_kept_def)
    have "cut_file u ip len u2 ip2"
      unfolding cut_file_def
    proof (intro conjI allI impI)
      fix c assume m: "file_block u ip c \<noteq> None"
      then have m1: "file_block u1 ip1 c \<noteq> None"
        using d(2) [of c] mapped_below [of c u1 ip1] v1(5) g(9) by (cases "?L = Suc c") auto
      show "file_content u2 ip2 c = zero_from (len - int c * ?B) (file_content u ip c)"
      proof (cases "?L \<le> c")
        case True
        then have "len - int c * ?B \<le> 0" using num(5) [of c] by simp
        then show ?thesis using cc(2) [OF m1] True zero_from_none file_content_length [OF g(1) m] fs1(1) by simp
      next
        case False
        then show ?thesis using cc(2) [OF m1] d(3) [of c] by simp
      qed
      assume "len \<le> int c * ?B"
      then have L: "?L \<le> c" using num(5) [of c] by simp
      then show "file_block u2 ip2 c = Some 0" using cc(1) [OF m1] by simp
      fix w assume w: "file_block u ip c = Some w" "w \<noteq> 0"
      then have "file_block u1 ip1 c = Some w" using d(2) [of c] by simp
      then show "unat w \<notin> block_set u2" using file_cut_get [OF d(1) _ w(2) L] cs(3) by blast
    next
      fix c assume m: "file_block u ip c \<notin> {None, Some 0}" and l: "int c * ?B < len"
      then have "file_block u1 ip1 c = file_block u ip c" using d(2) [of c] by simp
      then show "file_block u2 ip2 c = file_block u ip c" using cc(1) [of c] m l num(5) [of c] by auto
    qed (rule s(3))
    then show ?thesis unfolding run using e s(1) oth2 by auto
  qed
qed

text \<open>C26. \<^verbatim>\<open>ext2_truncate\<close> of a file without extents, not a symbolic link kept in the inode, to a smaller length the block map reaches, on a consistent volume of
  at most 2 TB whose reads and writes succeed. It returns.
  Of the file the first \<open>len\<close> bytes are left as they were and all that is read after them is zeros, in the block the cut goes
  through too; the blocks beyond are holes and what they held is free; the ones before stay where they were. Every other file, one that shares no
  block with this one, is mapped as before and has the contents it had; all blocks that
  others use stay used, none is lost to the volume, and \<^verbatim>\<open>i_blocks\<close> counts the blocks of the file again. It fails with
  \<^verbatim>\<open>ENOSPC\<close> only if the last block that stays is a hole, which it fills first; then nothing is freed and the file is as it was.\<close>

theorem truncate_cuts_file:
  assumes "trunc_pre env u ip len a k"
  shows "\<exists>error ip' u'. ext2_truncate env len ip u = Ret (error, ip', u') \<and> vol_ok u' \<and> file_ok u' ip' \<and>
     block_set u' - file_set u' ip' = block_set u - file_set u ip \<and> (counted u ip \<longrightarrow> counted u' ip') \<and> steady ip' = steady ip \<and>
     (\<forall>jp. file_ok u jp \<and> file_set u jp \<inter> file_set u ip = {} \<longrightarrow>
        file_ok u' jp \<and> (\<forall>c. file_block u' jp c = file_block u jp c \<and> file_content u' jp c = file_content u jp c)) \<and>
     (error = ie_inval env \<and> cut_file u ip len u' ip' \<or>
      error = ENOSPC \<and> file_block u ip (blocks_upto (um_e2fs u) len - 1) = Some 0 \<and> i_size ip' = i_size ip \<and>
        (\<forall>c. file_block u' ip' c = file_block u ip c \<and> file_content u' ip' c = file_content u ip c))"
  using truncate_spec [OF assms] unfolding others_kept_def other_files_same_def by blast

definition demo_ienv :: inode_env where
  "demo_ienv = \<lparr>ie_trunc = \<lparr>te_async = False, te_stale = False\<rparr>, ie_balloc = demo_benv, ie_special = False, ie_symlink = False,
     ie_rdonly = False, ie_now = (0, 0), ie_inval = 0\<rparr>"

lemma demo_slot: "slot_at demo_tvol 2 4 1"
proof -
  have "ino_to_fsba (um_e2fs demo_tvol) 2 = Ret 4" "ino_to_fsbo (um_e2fs demo_tvol) 2 = Ret 1" by code_simp+
  moreover have "bitmap_addrs (um_e2fs demo_tvol) = {2}"
    by (simp add: bitmap_addrs_def demo_tvol_simps b_addr_def fsbtodb_def lessThan_Suc)
  moreover have "unat (e2fs_isize (um_e2fs demo_tvol)) = 128" "dinode_len (um_e2fs demo_tvol) = 128" by code_simp+
  ultimately show ?thesis by (simp add: slot_at_def demo_tvol_meta demo_tvol_simps)
qed

lemma demo_trunc_pre: "trunc_pre demo_ienv demo_tvol demo_tfile 50 4 1"
proof -
  have "home_ok (um_e2fs demo_tvol) (i_number demo_tfile)" by (simp add: home_ok_def demo_tvol_def demo_tfile_def)
  moreover have "i_number demo_tfile = 2" "i_flag demo_tfile = 0" "i_size demo_tfile = 100" by (simp_all add: demo_tfile_def zero_inode_def)
  moreover have "under_2tb demo_tvol" by (simp add: under_2tb_def demo_tvol_simps)
  moreover have "blocks_upto (um_e2fs demo_tvol) 50 = 1" by (simp add: blocks_upto_def demo_tvol_simps)
  moreover have "1 \<le> cap demo_tvol 3" by (simp add: numeral_3_eq_3)
  ultimately show ?thesis
    by (simp add: trunc_pre_def demo_tvol_ok demo_tvol_healthy demo_tfile_ok demo_slot demo_ienv_def demo_benv_def demo_tvol_simps)
qed

lemma demo_ind: "file_block demo_tvol demo_tfile 12 = Some 13"
proof -
  have "tree_get demo_tvol 1 12 0 = ptr_of demo_tvol 12 0"
    using tree_get_child [of 12 0 demo_tvol 0 0] by (simp add: demo_tvol_simps)
  also have "\<dots> = 13"
    using pointers_words [OF demo_tvol_ok, of 12] demo_words_of [of "[13, 14]"]
    by (simp add: demo_tvol_simps) (simp add: demo_tvol_def map_eq_append_conv upt_rec numeral_eq_Suc)
  finally show ?thesis by (simp add: file_block_def demo_tvol_simps) (simp add: demo_tfile_def)
qed

theorem truncate_cuts_file_witness:
  "\<exists>ip' u'. ext2_truncate demo_ienv 50 demo_tfile demo_tvol = Ret (0, ip', u') \<and> i_size ip' = 50 \<and> counted u' ip' \<and>
     file_block u' ip' 0 = Some 15 \<and> file_block u' ip' 12 = Some 0 \<and> 13 \<notin> block_set u'"
proof -
  have z: "file_block demo_tvol demo_tfile 0 = Some 15" by (simp add: file_block_def demo_tfile_def)
  have "blocks_upto (um_e2fs demo_tvol) 50 = 1" by (simp add: blocks_upto_def demo_tvol_simps)
  then have nh: "file_block demo_tvol demo_tfile (blocks_upto (um_e2fs demo_tvol) 50 - 1) \<noteq> Some 0" using z by simp
  have "[0..<15] = [0, 1, 2, 3, 4, 5, 6, 7, 8, 9, 10, 11, 12, 13, 14 :: nat]" by (simp add: upt_rec)
  then have "{..<15} = {0, 1, 2, 3, 4, 5, 6, 7, 8, 9, 10, 11, 12, 13, 14 :: nat}" by (simp flip: atLeast0LessThan set_upt)
  then have "file_set demo_tvol demo_tfile = {12, 13, 14, 15, 16, 17, 18}"
    by (auto simp: file_set_def root_blocks_def demo_tfile_roots)
  then have c: "counted demo_tvol demo_tfile" by (simp add: counted_def block_charge_def demo_tvol_simps) (simp add: demo_tfile_def)
  obtain error ip' u' where r: "ext2_truncate demo_ienv 50 demo_tfile demo_tvol = Ret (error, ip', u')" "counted u' ip'"
    "error = ie_inval demo_ienv" "cut_file demo_tvol demo_tfile 50 u' ip'"
    using truncate_cuts_file [OF demo_trunc_pre] nh c by blast
  have "i_size ip' = 50" "file_block u' ip' 0 = Some 15" "file_block u' ip' 12 = Some 0" "13 \<notin> block_set u'"
    using r(4) z demo_ind by (auto simp: cut_file_def demo_tvol_simps)
  then show ?thesis using r(1-3) by (simp add: demo_ienv_def)
qed

end
