(* ===== verification/Ext2_WriteProps.thy ===== *)
theory Ext2_WriteProps
  imports Ext2_Write Ext2_Truncate Ext2_DirWalk
begin

text \<open>
  What \<^verbatim>\<open>ext2_extend_alloc\<close> does to a file, and \<^verbatim>\<open>ext2_meta_write\<close> against \<^verbatim>\<open>ext2_meta_read\<close>; and two ways in which a write
  brings the kernel down.
\<close>

declare tree_get.simps(2) [simp del] extend_loop.simps(2) [simp del]

section \<open>A range of blocks\<close>

text \<open>The blocks \<open>R\<close> of the file may have been filled with the blocks \<open>N\<close> of the volume; what the file held it still holds.\<close>

definition filled :: "ext2mount \<Rightarrow> inode \<Rightarrow> ext2mount \<Rightarrow> inode \<Rightarrow> nat set \<Rightarrow> nat set \<Rightarrow> bool" where
  "filled u ip u' ip' R N \<longleftrightarrow> finite N \<and> N \<inter> block_set u = {} \<and> block_set u' = block_set u \<union> N \<and> file_ok u' ip' \<and>
     file_set u' ip' = file_set u ip \<union> N \<and> keeps u u' (file_set u' ip') \<and> inode_kept (um_e2fs u) (card N) ip ip' \<and>
     (\<forall>c. c \<notin> R \<or> file_block u ip c \<noteq> Some 0 \<longrightarrow> file_block u' ip' c = file_block u ip c) \<and>
     (\<forall>c. file_block u ip c \<noteq> Some 0 \<longrightarrow> file_content u' ip' c = file_content u ip c)"

lemma filled_none: "vol_ok u \<Longrightarrow> file_ok u ip \<Longrightarrow> filled u ip u ip {} {}"
  by (simp add: filled_def keeps_refl)

lemma filled_trans:
  assumes a: "filled u ip u1 ip1 R N" and b: "filled u1 ip1 u2 ip2 S M" and f: "file_ok u ip"
  shows "filled u ip u2 ip2 (R \<union> S) (N \<union> M)"
proof -
  have fs: "e2fs_bsize (um_e2fs u1) = e2fs_bsize (um_e2fs u)"
    using a static_fs_fields(1) [OF keeps_static] by (auto simp: filled_def)
  have d: "N \<inter> M = {}" using a b by (auto simp: filled_def)
  have card: "card (N \<union> M) = card N + card M" using a b d by (intro card_Un_disjoint) (auto simp: filled_def)
  have "block_charge (um_e2fs u1) = block_charge (um_e2fs u)" by (simp add: block_charge_def fs)
  then have i: "inode_kept (um_e2fs u1) n i j = inode_kept (um_e2fs u) n i j" for n i j by (simp add: inode_kept_def)
  have k: "inode_kept (um_e2fs u) (card (N \<union> M)) ip ip2"
    unfolding card using a b inode_kept_trans by (auto simp: filled_def i)
  have kp: "keeps u u2 (file_set u2 ip2)"
    by (rule keeps_mono [OF keeps_trans [of u u1 "file_set u1 ip1" u2 "file_set u2 ip2"]]) (use a b in \<open>auto simp: filled_def\<close>)
  have fb: "file_block u1 ip1 c = file_block u ip c" "file_content u1 ip1 c = file_content u ip c" if "file_block u ip c \<noteq> Some 0" for c
    using a that by (simp_all add: filled_def)
  have "file_block u2 ip2 c = file_block u ip c" if "c \<notin> R \<union> S \<or> file_block u ip c \<noteq> Some 0" for c
  proof (cases "file_block u ip c = Some 0")
    case True
    then have "c \<notin> R" "c \<notin> S" using that by auto
    then show ?thesis using a b by (simp add: filled_def)
  next
    case False
    then show ?thesis using fb(1) b by (simp add: filled_def)
  qed
  moreover have "file_content u2 ip2 c = file_content u ip c" if "file_block u ip c \<noteq> Some 0" for c
    using fb [OF that] b that by (simp add: filled_def)
  ultimately show ?thesis unfolding filled_def using a b k kp by (auto simp: filled_def)
qed

lemma balloc_fills:
  assumes pre: "balloc_pre env u ip b sz"
  shows "\<exists>N error bp ip' u'. ext2_balloc env (int b) sz ip u = Ret (error, bp, ip', u') \<and> filled u ip u' ip' {b} N \<and>
     (error = 0 \<and> file_block u' ip' b \<noteq> Some 0 \<or> error = ENOSPC \<and> file_block u ip b = Some 0)"
proof -
  have f: "file_ok u ip" using pre by (simp add: balloc_pre_def)
  obtain N error bp ip' u' where r: "ext2_balloc env (int b) sz ip u = Ret (error, bp, ip', u')" "balloc_done u ip b N error bp ip' u'"
    using balloc_spec [OF pre] by blast
  have g: "finite N" "N \<inter> block_set u = {}" "block_set u' = block_set u \<union> N" "keeps u u' (file_set u ip - file_data u ip \<union> N)" "file_ok u' ip'"
      "file_set u' ip' = file_set u ip \<union> N" "inode_kept (um_e2fs u) (card N) ip ip'"
      "\<And>c. c \<noteq> b \<or> file_block u ip b \<noteq> Some 0 \<Longrightarrow> file_block u' ip' c = file_block u ip c"
    using r(2) by (auto simp: balloc_done_def file_grown_def)
  have fb: "file_block u' ip' c = file_block u ip c" if "c \<notin> {b} \<or> file_block u ip c \<noteq> Some 0" for c
    using g(8) [of c] that by (cases "c = b") auto
  have "file_content u' ip' c = file_content u ip c" if c: "file_block u ip c \<noteq> Some 0" for c
  proof (rule file_content_same [OF g(4) f])
    show "file_block u' ip' c = file_block u ip c" using fb c by blast
    fix w assume "file_block u ip c = Some w" "w \<noteq> 0"
    then show "unat w \<notin> file_set u ip - file_data u ip \<union> N" using file_block_data [OF f] g(2) by (auto simp: data_blocks_def)
  qed
  moreover have "keeps u u' (file_set u' ip')" by (rule keeps_mono [OF g(4)]) (auto simp: g(6))
  ultimately have "filled u ip u' ip' {b} N" unfolding filled_def using g fb by simp
  then show ?thesis using r by (auto simp: balloc_done_def)
qed

lemma home_keeps: "keeps u u' W \<Longrightarrow> home_ok (um_e2fs u') i = home_ok (um_e2fs u) i"
  using static_fs_fields(8,13) [OF keeps_static] by (simp add: home_ok_def)

text \<open>Direct blocks of the range that are mapped lie before the end of the file, or share its last block.\<close>

definition extend_pre :: "balloc_env \<Rightarrow> ext2mount \<Rightarrow> inode \<Rightarrow> nat \<Rightarrow> nat \<Rightarrow> bool" where
  "extend_pre env u ip b n \<longleftrightarrow> vol_ok u \<and> healthy u \<and> shift_ok (um_e2fs u) \<and> file_ok u ip \<and> home_ok (um_e2fs u) (i_number ip) \<and>
     i_flag ip AND IN_E4EXTENTS = 0 \<and> (\<forall>c \<in> {b..<b + n}. file_block u ip c \<noteq> None \<and> may_alloc env (int c) \<and>
       (c < 12 \<longrightarrow> file_block u ip c \<noteq> Some 0 \<longrightarrow> no_tail_panic (um_e2fs u) ip (int c) (uint (e2fs_bsize (um_e2fs u)))))"

lemma extend_spec:
  assumes "extend_pre env u ip b n"
  shows "\<exists>N error ip' u'. extend_loop env (int b) n ip u = Ret (error, ip', u') \<and> filled u ip u' ip' {b..<b + n} N \<and>
     (error = 0 \<and> (\<forall>c \<in> {b..<b + n}. file_block u' ip' c \<noteq> Some 0) \<or> error = ENOSPC \<and> (\<exists>c \<in> {b..<b + n}. file_block u ip c = Some 0))"
  using assms
proof (induction n arbitrary: b u ip)
  case 0
  then show ?case using filled_none by (auto simp: extend_pre_def)
next
  case (Suc n)
  note p = Suc.prems [unfolded extend_pre_def]
  have f: "file_ok u ip" and s: "shift_ok (um_e2fs u)" using p by simp_all
  have "blksize (um_e2fs u) = uint (e2fs_bsize (um_e2fs u))" using s by (simp add: blksize_def shift_ok_def)
  then have sz: "s32 (blksize (um_e2fs u)) = uint (e2fs_bsize (um_e2fs u))"
    using cut_numbers(1,2) [OF s order_refl] by (simp add: s32_id)
  have "balloc_pre env u ip b (uint (e2fs_bsize (um_e2fs u)))" using p by (simp add: balloc_pre_def)
  from balloc_fills [OF this] obtain N error bp ip1 u1 where
    r: "ext2_balloc env (int b) (uint (e2fs_bsize (um_e2fs u))) ip u = Ret (error, bp, ip1, u1)" "filled u ip u1 ip1 {b} N"
    "error = 0 \<and> file_block u1 ip1 b \<noteq> Some 0 \<or> error = ENOSPC \<and> file_block u ip b = Some 0" by blast
  have step: "extend_loop env (int b) (Suc n) ip u = (if error \<noteq> 0 then Ret (error, ip1, u1) else extend_loop env (int (Suc b)) n ip1 u1)"
    unfolding extend_loop.simps sz r(1) bnd.simps prod.case by (simp add: add.commute)
  show ?case
  proof (cases "error = 0")
    case False
    have "filled u ip u1 ip1 {b..<b + Suc n} N" using r(2) unfolding filled_def by auto
    moreover have "error = ENOSPC" "\<exists>c \<in> {b..<b + Suc n}. file_block u ip c = Some 0" using False r(3) by auto
    ultimately show ?thesis unfolding step using False by auto
  next
    case True
    have k: "keeps u u1 (file_set u1 ip1)" and ik: "inode_kept (um_e2fs u) (card N) ip ip1" and f1: "file_ok u1 ip1"
      and same: "\<And>c. c \<noteq> b \<Longrightarrow> file_block u1 ip1 c = file_block u ip c"
      using r(2) by (auto simp: filled_def)
    note st = static_fs_fields [OF keeps_static [OF k]]
    have "no_tail_panic (um_e2fs u1) ip1 c z = no_tail_panic (um_e2fs u) ip c z" for c z
      using st inode_kept_fields(1) [OF ik] by (simp add: no_tail_panic_def blkoff_def)
    moreover have "home_ok (um_e2fs u1) (i_number ip1)" using p inode_kept_fields(2) [OF ik] home_keeps [OF k] by simp
    ultimately have "extend_pre env u1 ip1 (Suc b) n"
      using p f1 same st(1) keeps_vol [OF k] healthy_keeps [OF k] keeps_shift [OF k] inode_kept_fields(4) [OF ik] by (auto simp: extend_pre_def)
    from Suc.IH [OF this] obtain M e ip2 u2 where
      q: "extend_loop env (int (Suc b)) n ip1 u1 = Ret (e, ip2, u2)" "filled u1 ip1 u2 ip2 {Suc b..<Suc b + n} M"
      "e = 0 \<and> (\<forall>c \<in> {Suc b..<Suc b + n}. file_block u2 ip2 c \<noteq> Some 0) \<or> e = ENOSPC \<and> (\<exists>c \<in> {Suc b..<Suc b + n}. file_block u1 ip1 c = Some 0)" by blast
    have R: "{b} \<union> {Suc b..<Suc b + n} = {b..<b + Suc n}" by auto
    have "filled u ip u2 ip2 {b..<b + Suc n} (N \<union> M)" using filled_trans [OF r(2) q(2) f] unfolding R .
    moreover have "file_block u2 ip2 b \<noteq> Some 0" using r(3) True q(2) by (auto simp: filled_def ENOSPC_def)
    moreover have "(\<forall>c \<in> {b..<b + Suc n}. P c) \<longleftrightarrow> P b \<and> (\<forall>c \<in> {Suc b..<Suc b + n}. P c)" for P unfolding R [symmetric] by blast
    moreover have "(\<exists>c \<in> {Suc b..<Suc b + n}. file_block u1 ip1 c = Some 0) \<Longrightarrow> \<exists>c \<in> {b..<b + Suc n}. file_block u ip c = Some 0"
      using same by fastforce
    ultimately show ?thesis unfolding step using True q(1,3) by auto
  qed
qed

text \<open>The blocks of the file that a range of bytes touches.\<close>

definition touched :: "m_ext2fs \<Rightarrow> int \<Rightarrow> int \<Rightarrow> nat set" where
  "touched fs offset len = {nat (offset div uint (e2fs_bsize fs))..nat ((offset + len - 1) div uint (e2fs_bsize fs))}"

lemma touched_range:
  assumes s: "shift_ok fs" and r: "0 \<le> offset" "0 < len"
  defines "b \<equiv> nat (offset div uint (e2fs_bsize fs))"
  defines "n \<equiv> Suc (nat ((offset + len - 1) div uint (e2fs_bsize fs)) - b)"
  shows "lblkno fs offset = int b" "nat (lblkno fs (offset + len - 1) - lblkno fs offset + 1) = n" "touched fs offset len = {b..<b + n}"
proof -
  let ?e = "nat ((offset + len - 1) div uint (e2fs_bsize fs))"
  have e: "0 \<le> offset + len - 1" using r by simp
  note l = cut_numbers(1,3) [OF s r(1)] and le = cut_numbers(3) [OF s e]
  have "offset div uint (e2fs_bsize fs) \<le> (offset + len - 1) div uint (e2fs_bsize fs)" using r l(1) by (intro zdiv_mono1) simp_all
  then have be: "b \<le> ?e" unfolding b_def by (rule nat_mono)
  show "lblkno fs offset = int b" using l(2) by (simp add: b_def)
  then show "nat (lblkno fs (offset + len - 1) - lblkno fs offset + 1) = n" 
    unfolding le n_def using be by arith
  show "touched fs offset len = {b..<b + n}" using be by (auto simp: touched_def n_def b_def)
qed

definition extend_ok :: "balloc_env \<Rightarrow> ext2mount \<Rightarrow> inode \<Rightarrow> int \<Rightarrow> int \<Rightarrow> bool" where
  "extend_ok env u ip offset len \<longleftrightarrow> 0 \<le> offset \<and> 0 < len \<and>
     (let b = nat (offset div uint (e2fs_bsize (um_e2fs u))) in extend_pre env u ip b (Suc (nat ((offset + len - 1) div uint (e2fs_bsize (um_e2fs u))) - b)))"

lemma extend_pre_clr: "extend_pre (env\<lparr>be_clrbuf := c\<rparr>) u ip b n = extend_pre env u ip b n"
  by (simp add: extend_pre_def may_alloc_def)

lemma extend_alloc_spec:
  assumes pre: "extend_ok env u ip offset len"
  shows "\<exists>N error ip' u'. ext2_extend_alloc env offset len ip u = Ret (error, ip', u') \<and> filled u ip u' ip' (touched (um_e2fs u) offset len) N \<and>
     (error = 0 \<and> (\<forall>c \<in> touched (um_e2fs u) offset len. file_block u' ip' c \<noteq> Some 0) \<or>
      error = ENOSPC \<and> (\<exists>c \<in> touched (um_e2fs u) offset len. file_block u ip c = Some 0))"
proof -
  define b where "b = nat (offset div uint (e2fs_bsize (um_e2fs u)))"
  define n where "n = Suc (nat ((offset + len - 1) div uint (e2fs_bsize (um_e2fs u))) - b)"
  have r: "0 \<le> offset" "0 < len" and p: "extend_pre (env\<lparr>be_clrbuf := False\<rparr>) u ip b n"
    using pre by (simp_all add: extend_ok_def Let_def b_def n_def extend_pre_clr)
  have s: "shift_ok (um_e2fs u)" using p by (simp add: extend_pre_def)
  note t = touched_range [OF s r, folded b_def, folded n_def]
  have "\<not> len \<le> 0" using r by simp
  then have "ext2_extend_alloc env offset len ip u = extend_loop (env\<lparr>be_clrbuf := False\<rparr>) (int b) n ip u"
    unfolding ext2_extend_alloc_def Let_def t(2) unfolding t(1) by simp
  then show ?thesis using extend_spec [OF p] unfolding t(3) by simp
qed

text \<open>C27. \<^verbatim>\<open>ext2_extend_alloc\<close> for the bytes from \<open>offset\<close> on, for a file without extents on a consistent volume whose writes succeed, when the block map reaches the range,
  there are buffers for its blocks and a credential to charge, and no direct block
  of the range that is mapped already is one for which \<^verbatim>\<open>ext2_balloc\<close> panics (\<^const>\<open>no_tail_panic\<close>; C28 shows the panic). It returns. The blocks it takes
  were free and belong to the file and its \<^verbatim>\<open>i_blocks\<close> from then on; the file stays well-formed and all it held it still holds, in
  the same places; nothing changes outside the blocks of the file and the bitmaps. Then every byte of the range has a block, or
  there was a hole in the range and no space is left.\<close>

theorem extend_alloc_maps_range:
  assumes "extend_ok env u ip offset len"
  shows "\<exists>N error ip' u'. ext2_extend_alloc env offset len ip u = Ret (error, ip', u') \<and>
     finite N \<and> N \<inter> block_set u = {} \<and> block_set u' = block_set u \<union> N \<and> file_ok u' ip' \<and> file_set u' ip' = file_set u ip \<union> N \<and>
     keeps u u' (file_set u' ip') \<and> inode_kept (um_e2fs u) (card N) ip ip' \<and>
     (\<forall>c. file_block u ip c \<noteq> Some 0 \<longrightarrow> file_block u' ip' c = file_block u ip c \<and> file_content u' ip' c = file_content u ip c) \<and>
     (\<forall>c. c \<notin> touched (um_e2fs u) offset len \<longrightarrow> file_block u' ip' c = file_block u ip c) \<and>
     (error = 0 \<and> (\<forall>c \<in> touched (um_e2fs u) offset len. file_block u' ip' c \<noteq> Some 0) \<or>
      error = ENOSPC \<and> (\<exists>c \<in> touched (um_e2fs u) offset len. file_block u ip c = Some 0))"
  using extend_alloc_spec [OF assms] unfolding filled_def by blast

text \<open>A file with nothing in it, on \<^const>\<open>demo_tvol\<close>.\<close>

definition demo_empty :: inode where
  "demo_empty = zero_inode\<lparr>i_number := 2, i_mode := 0x8000, i_db := replicate 12 0, i_ib := replicate 3 0\<rparr>"

lemma demo_empty_block: "b < 12 \<Longrightarrow> file_block u demo_empty b = Some 0"
  by (simp add: file_block_def demo_empty_def)

lemma demo_empty_ok: "file_ok u demo_empty"
proof -
  have b: "block_pointers demo_empty = replicate 15 0" by (simp add: block_pointers_def demo_empty_def replicate_add [symmetric] zero_inode_def)
  have t: "tree_blocks u n 0 = []" for n by (cases n) simp_all
  have "tree_ok u n 0" for n by (cases n) (simp_all add: tree_ok_def)
  moreover have "ptrs_ok demo_empty" by (simp add: ptrs_ok_def demo_empty_def)
  moreover have "root_blocks u demo_empty k = {}" if "k < 15" for k unfolding root_blocks_def b using that by (simp add: t)
  ultimately show ?thesis by (simp add: file_ok_def b)
qed

lemma demo_extend_ok: "extend_ok demo_benv demo_tvol demo_empty 0 100"
proof -
  have "home_ok (um_e2fs demo_tvol) (i_number demo_empty)" by (simp add: home_ok_def demo_tvol_def demo_empty_def)
  moreover have "i_flag demo_empty = 0" "may_alloc demo_benv b" for b by (simp_all add: demo_empty_def zero_inode_def demo_benv_def may_alloc_def)
  ultimately show ?thesis
    by (simp add: extend_ok_def extend_pre_def demo_tvol_ok demo_tvol_healthy demo_empty_ok demo_empty_block demo_tvol_simps)
qed

lemma demo_extend: "case ext2_extend_alloc demo_benv 0 100 demo_empty demo_tvol of Ret (e, ip, u) \<Rightarrow> e = 0 | Fault _ \<Rightarrow> False"
  by code_simp

theorem extend_alloc_maps_range_witness:
  "\<exists>ip' u'. ext2_extend_alloc demo_benv 0 100 demo_empty demo_tvol = Ret (0, ip', u') \<and> file_ok u' ip' \<and> file_block u' ip' 0 \<noteq> Some 0"
proof -
  obtain N error ip' u' where r: "ext2_extend_alloc demo_benv 0 100 demo_empty demo_tvol = Ret (error, ip', u')" "file_ok u' ip'"
    "error = 0 \<and> (\<forall>c \<in> touched (um_e2fs demo_tvol) 0 100. file_block u' ip' c \<noteq> Some 0) \<or> error = ENOSPC"
    using extend_alloc_maps_range [OF demo_extend_ok] by blast
  have "error = 0" using demo_extend unfolding r(1) by simp
  moreover have "0 \<in> touched (um_e2fs demo_tvol) 0 100" by (simp add: touched_def)
  ultimately show ?thesis using r by (auto simp: ENOSPC_def)
qed

section \<open>A write that is tried again\<close>

lemma balloc_past_end:
  assumes s: "shift_ok (um_e2fs u)" and p: "ptrs_ok ip" and x: "i_flag ip AND IN_E4EXTENTS = 0" and b: "b < 12" "i_db ip ! b \<noteq> 0"
    and past: "i_size ip < word_of_int ((int b + 1) * uint (e2fs_bsize (um_e2fs u)))" "blkoff (um_e2fs u) (uint (i_size ip)) = 0"
  shows "ext2_balloc env (int b) (uint (e2fs_bsize (um_e2fs u))) ip u = Fault (Panic ''ext2_balloc: Something is terribly wrong'')"
proof -
  let ?fs = "um_e2fs u" and ?B = "uint (e2fs_bsize (um_e2fs u))"
  define ip1 where "ip1 = (if int b = uint (i_next_alloc_block ip + 1)
     then ip\<lparr>i_next_alloc_block := i_next_alloc_block ip + 1, i_next_alloc_goal := i_next_alloc_goal ip + 1\<rparr> else ip)"
  have i: "i_db ip1 = i_db ip" "i_size ip1 = i_size ip" by (simp_all add: ip1_def)
  have B: "0 < ?B" "?B \<le> 2 ^ 16" by (rule cut_numbers(1,2) [OF s order_refl])+
  have eq: "ext2_balloc env (int b) ?B ip u = balloc_direct env (int b) ?B ip1 u"
    unfolding ext2_balloc_def ip1_def [symmetric] Let_def using b x by (simp add: NDADDR_def)
  have rd: "rd (i_db ip) (int b) = Ret (i_db ip ! b)" using b(1) p by (simp add: ptrs_ok_def)
  have c: "\<not> (i_db ip ! b \<noteq> 0 \<and> word_of_int ((int b + 1) * ?B) \<le> i_size ip)" using past(1) by (simp add: not_le)
  have fz: "e2fs_fsize ?fs = e2fs_bsize ?fs" "e2fs_fsize ?fs \<noteq> 0" using s B(1) by (auto simp: shift_ok_def)
  have "(?B - 1) div ?B = 0" using B(1) by (simp add: div_pos_pos_trivial)
  then have f0: "fragroundup ?fs 0 = Ret 0" unfolding fragroundup_def using fz(2) B(1) by (simp add: fz(1) sdiv_nonneg)
  have f1: "fragroundup ?fs ?B = Ret ?B" by (rule fragroundup_one [OF s B(1) order_refl])
  have le: "\<not> s32 ?B \<le> s32 0" using B by (simp add: s32_id)
  show ?thesis
    unfolding eq balloc_direct_def Let_def rd bnd.simps i past(2) f0 f1 if_not_P [OF c] if_not_P [OF le] using b(2) by simp
qed

lemma extend_zero:
  assumes s: "shift_ok (um_e2fs u)" and p: "ptrs_ok ip" and x: "i_flag ip AND IN_E4EXTENTS = 0" and z: "i_size ip = 0" "i_db ip ! 0 \<noteq> 0" and len: "0 < len"
  shows "ext2_extend_alloc env 0 len ip u = Fault (Panic ''ext2_balloc: Something is terribly wrong'')"
proof -
  let ?fs = "um_e2fs u"
  note t = touched_range [OF s order_refl len] and B = cut_numbers(1,2) [OF s order_refl]
  have "blksize ?fs = uint (e2fs_bsize ?fs)" using s by (simp add: blksize_def shift_ok_def)
  then have sz: "s32 (blksize ?fs) = uint (e2fs_bsize ?fs)" using B by (simp add: s32_id)
  have "blkoff ?fs 0 = 0" using cut_numbers(4) [OF s order_refl] by simp
  moreover have "(0 :: u64) < word_of_int (uint (e2fs_bsize ?fs))"
  proof -
    have "uint (word_of_int (uint (e2fs_bsize ?fs)) :: u64) = uint (e2fs_bsize ?fs)" using B by (intro u64_of_int) simp_all
    then show ?thesis using B by (simp add: word_less_def)
  qed
  ultimately have pan: "ext2_balloc env' 0 (uint (e2fs_bsize ?fs)) ip u = Fault (Panic ''ext2_balloc: Something is terribly wrong'')" for env'
    using balloc_past_end [OF s p x, of 0 env'] z by simp
  have "\<not> len \<le> 0" using len by simp
  then show ?thesis
    unfolding ext2_extend_alloc_def Let_def t(2) unfolding t(1) by (simp add: extend_loop.simps(2) sz pan)
qed

lemma write_empty:
  assumes z: "i_size ip = 0" and ne: "bytes \<noteq> []" and fit: "int (length bytes) \<le> e2fs_maxfilesize (um_e2fs u)" "int (length bytes) < 2 ^ 63"
    and reg: "we_isreg env" "\<not> we_isdir env" "\<not> io_sync env"
  shows "\<exists>tail. ext2_write env cluster 0 bytes ip u = bnd (ext2_extend_alloc (ie_balloc (we_inode env)) 0 (int (length bytes)) ip u) (\<lambda>(error, ip, u).
      if error \<noteq> 0 then Ret (error, bytes, ip, u)
      else case cluster (ip\<lparr>i_size := word_of_int (int (length bytes))\<rparr>) 0 (int (length bytes)) 0 tail bytes u of (error, rest, u) \<Rightarrow>
        if error \<noteq> 0 then Ret (error, rest, ip\<lparr>i_size := 0\<rparr>, u) else Ret (0, rest, mark_changed (ip\<lparr>i_size := word_of_int (int (length bytes))\<rparr>), u))"
proof -
  have s64: "s64 (int (length bytes)) = int (length bytes)" using fit(2) by (simp add: s64_id)
  have pos: "0 < int (length bytes)" "max 0 (int (length bytes)) = int (length bytes)" using ne by simp_all
  have sum: "0 + int (length bytes) = int (length bytes)" "sint (0 :: u64) = 0" "(if we_append env then 0 else 0) = (0 :: int)" by simp_all
  have le: "\<not> e2fs_maxfilesize (um_e2fs u) < int (length bytes)" using fit(1) by simp
  show ?thesis
    unfolding ext2_write_def write_regular_def Let_def z sum s64 pos(2)
    by (intro exI [of _ "(int (length bytes) + (uint (e2fs_bsize (um_e2fs u)) - 1)) AND NOT (uint (e2fs_bsize (um_e2fs u)) - 1)"])
      (use reg ne le pos(1) in \<open>simp cong: if_cong\<close>)
qed

text \<open>What a first write to an empty file leaves when it fails.\<close>

lemma write_fails:
  assumes pre: "extend_ok (ie_balloc (we_inode env)) u ip 0 (int (length bytes))" and z: "i_size ip = 0"
    and reg: "we_isreg env" "\<not> we_isdir env" "\<not> io_sync env" and fit: "int (length bytes) \<le> e2fs_maxfilesize (um_e2fs u)" "int (length bytes) < 2 ^ 63"
    and cl: "\<And>ip o1 n h t bs v. snd (snd (cluster ip o1 n h t bs v)) = v"
    and w: "ext2_write env cluster 0 bytes ip u = Ret (error, rest, ip', u')" and e: "error \<noteq> 0" "error \<noteq> ENOSPC \<or> file_block u' ip' 0 \<noteq> Some 0"
  shows "file_ok u' ip'" "keeps u u' (file_set u' ip')" "i_flag ip' AND IN_E4EXTENTS = 0" "i_size ip' = 0" "i_db ip' ! 0 \<noteq> 0"
    "file_set u ip \<subseteq> file_set u' ip'"
proof -
  let ?fs = "um_e2fs u" and ?len = "int (length bytes)"
  have ne: "bytes \<noteq> []" and s: "shift_ok ?fs" and nx: "i_flag ip AND IN_E4EXTENTS = 0" using pre by (auto simp: extend_ok_def extend_pre_def Let_def)
  obtain N er ip1 u1 where r: "ext2_extend_alloc (ie_balloc (we_inode env)) 0 ?len ip u = Ret (er, ip1, u1)" "filled u ip u1 ip1 (touched ?fs 0 ?len) N"
    "er = 0 \<and> (\<forall>c \<in> touched ?fs 0 ?len. file_block u1 ip1 c \<noteq> Some 0) \<or> er = ENOSPC" using extend_alloc_spec [OF pre] by blast
  have ik: "inode_kept ?fs (card N) ip ip1" and f1: "file_ok u1 ip1" and k1: "keeps u u1 (file_set u1 ip1)" and sub: "file_set u ip \<subseteq> file_set u1 ip1"
    using r(2) by (auto simp: filled_def)
  have i1: "i_size ip1 = 0" "i_flag ip1 AND IN_E4EXTENTS = 0" using inode_kept_fields(1,4) [OF ik] z nx by simp_all
  obtain tail where eq: "ext2_write env cluster 0 bytes ip u = bnd (ext2_extend_alloc (ie_balloc (we_inode env)) 0 ?len ip u) (\<lambda>(error, ip, u).
      if error \<noteq> 0 then Ret (error, bytes, ip, u)
      else case cluster (ip\<lparr>i_size := word_of_int ?len\<rparr>) 0 ?len 0 tail bytes u of (error, rest, u) \<Rightarrow>
        if error \<noteq> 0 then Ret (error, rest, ip\<lparr>i_size := 0\<rparr>, u) else Ret (0, rest, mark_changed (ip\<lparr>i_size := word_of_int ?len\<rparr>), u))"
    using write_empty [OF z ne fit reg] by blast
  have pos: "0 < ?len" using ne by simp
  have b0: "file_block v ip2 0 = Some (i_db ip2 ! 0)" for v ip2 by (simp add: file_block_def)
  have "0 \<in> touched ?fs 0 ?len" by (simp add: touched_def)
  obtain ip2 sz where ip2: "ip' = ip2" "u' = u1" "ip2 = ip1\<lparr>i_size := sz\<rparr>" "sz = 0" "i_db ip1 ! 0 \<noteq> 0"
  proof (cases "er = 0")
    case False
    have "(error, rest, ip', u') = (er, bytes, ip1, u1)"
      using w [unfolded eq r(1)] False by simp
    then have q: "ip' = ip1" "u' = u1" "error = er" by simp_all
    have "er = ENOSPC" using False r(3) by blast
    then have "i_db ip1 ! 0 \<noteq> 0" using e(2) q b0 by auto
    moreover have "ip1 = ip1\<lparr>i_size := 0\<rparr>" using i1(1) by (cases ip1) simp
    ultimately show ?thesis using that q by metis
  next
    case True
    then have m: "i_db ip1 ! 0 \<noteq> 0" using r(3) \<open>0 \<in> _\<close> b0 by (fastforce simp: ENOSPC_def)
    obtain ce cr cu where c: "cluster (ip1\<lparr>i_size := word_of_int ?len\<rparr>) 0 ?len 0 tail bytes u1 = (ce, cr, cu)" by (metis prod_cases3)
    have "cu = u1" using cl [of "ip1\<lparr>i_size := word_of_int ?len\<rparr>" 0 ?len 0 tail bytes u1] c by simp
    then have "(error, rest, ip', u') = (if ce \<noteq> 0 then (ce, cr, ip1\<lparr>i_size := 0\<rparr>, u1) else (0, cr, mark_changed (ip1\<lparr>i_size := word_of_int ?len\<rparr>), u1))"
      using w [unfolded eq r(1)] True c by (simp split: if_splits)
    then have "ip' = ip1\<lparr>i_size := 0\<rparr>" "u' = u1" using e(1) by (auto split: if_splits)
    then show ?thesis using that m by metis
  qed
  show "file_ok u' ip'" "keeps u u' (file_set u' ip')" "i_flag ip' AND IN_E4EXTENTS = 0" "i_size ip' = 0" "i_db ip' ! 0 \<noteq> 0" "file_set u ip \<subseteq> file_set u' ip'"
    using ip2 f1 k1 i1 sub by simp_all
qed

text \<open>C28. A write to an empty file that fails after it has got a block for its beginning leaves that block in the inode and the size at zero,
  as \<^verbatim>\<open>ext2_write\<close> means to; when the caller tries the same write again, \<^verbatim>\<open>ext2_balloc\<close> finds a mapped block past the end of
  the file and the kernel panics.\<close>

theorem write_retry_panics:
  assumes pre: "extend_ok (ie_balloc (we_inode env)) u ip 0 (int (length bytes))" and z: "i_size ip = 0"
    and reg: "we_isreg env" "\<not> we_isdir env" "\<not> io_sync env" and fit: "int (length bytes) \<le> e2fs_maxfilesize (um_e2fs u)" "int (length bytes) < 2 ^ 63"
    and cl: "\<And>ip o1 n h t bs v. snd (snd (cluster ip o1 n h t bs v)) = v"
    and w: "ext2_write env cluster 0 bytes ip u = Ret (error, rest, ip', u')" and e: "error \<noteq> 0" "error \<noteq> ENOSPC \<or> file_block u' ip' 0 \<noteq> Some 0"
  shows "i_size ip' = 0 \<and> file_set u ip \<subseteq> file_set u' ip' \<and>
     ext2_write env cluster' 0 bytes ip' u' = Fault (Panic ''ext2_balloc: Something is terribly wrong'')"
proof -
  note r = write_fails [OF assms]
  have ne: "0 < int (length bytes)" and s: "shift_ok (um_e2fs u)" using pre by (auto simp: extend_ok_def extend_pre_def Let_def)
  have s': "shift_ok (um_e2fs u')" using s keeps_shift [OF r(2)] by simp
  have p: "ptrs_ok ip'" using r(1) by (simp add: file_ok_def)
  have "e2fs_maxfilesize (um_e2fs u') = e2fs_maxfilesize (um_e2fs u)"
    using arg_cong [OF keeps_static [OF r(2)], of e2fs_maxfilesize] by (simp add: static_fs_def)
  then have fit': "int (length bytes) \<le> e2fs_maxfilesize (um_e2fs u')" using fit(1) by simp
  have "bytes \<noteq> []" using ne by auto
  from write_empty [OF r(4) this fit' fit(2) reg, of cluster']
  have "ext2_write env cluster' 0 bytes ip' u' = Fault (Panic ''ext2_balloc: Something is terribly wrong'')"
    unfolding extend_zero [OF s' p r(3,4,5) ne] bnd.simps by blast
  then show ?thesis using r(4,6) by blast
qed

text \<open>The cluster layer reports an I/O error.\<close>

definition demo_wenv :: write_env where
  "demo_wenv = \<lparr>we_inode = demo_ienv\<lparr>ie_balloc := demo_benv\<lparr>be_sync := False\<rparr>\<rparr>, we_nocred = Ret 0, we_isdir = False, we_isreg = True,
     we_user = True, we_append = False, we_move = (\<lambda>off. 0)\<rparr>"

theorem write_retry_panics_witness:
  "\<exists>rest ip' u'. ext2_write demo_wenv (\<lambda>ip o1 n h t bs v. (EIO, bs, v)) 0 (replicate 100 7) demo_empty demo_tvol = Ret (EIO, rest, ip', u') \<and>
     ext2_write demo_wenv (\<lambda>ip o1 n h t bs v. (0, [], v)) 0 (replicate 100 7) ip' u' = Fault (Panic ''ext2_balloc: Something is terribly wrong'')"
proof -
  let ?c = "\<lambda>ip (o1 :: int) (n :: int) (h :: int) (t :: int) (bs :: bytes) (v :: ext2mount). (EIO :: errno, bs, v)"
  have env: "demo_benv\<lparr>be_sync := False, be_clrbuf := c\<rparr> = demo_benv\<lparr>be_sync := False\<rparr>\<lparr>be_clrbuf := c\<rparr>" for c by simp
  have ok: "extend_ok (ie_balloc (we_inode demo_wenv)) demo_tvol demo_empty 0 (int (length (replicate 100 (7 :: u8))))"
    using demo_extend_ok by (simp add: extend_ok_def extend_pre_def may_alloc_def demo_wenv_def)
  obtain e ip u where x: "ext2_extend_alloc (ie_balloc (we_inode demo_wenv)) 0 (int (length (replicate 100 (7 :: u8)))) demo_empty demo_tvol = Ret (e, ip, u)"
    using extend_alloc_spec [OF ok] by blast
  have "case ext2_extend_alloc (ie_balloc (we_inode demo_wenv)) 0 (int (length (replicate 100 (7 :: u8)))) demo_empty demo_tvol of
      Ret (e, ip, u) \<Rightarrow> e = 0 | Fault _ \<Rightarrow> False" by code_simp
  then have e: "e = 0" unfolding x by simp
  have z: "i_size demo_empty = 0" by (simp add: demo_empty_def zero_inode_def)
  have f: "int (length (replicate 100 (7 :: u8))) \<le> e2fs_maxfilesize (um_e2fs demo_tvol)" "int (length (replicate 100 (7 :: u8))) < 2 ^ 63"
    by (simp_all add: demo_tvol_def)
  have reg: "we_isreg demo_wenv" "\<not> we_isdir demo_wenv" "\<not> io_sync demo_wenv" by (simp_all add: demo_wenv_def)
  have ne: "replicate 100 (7 :: u8) \<noteq> []" by simp
  have w: "ext2_write demo_wenv ?c 0 (replicate 100 7) demo_empty demo_tvol = Ret (EIO, replicate 100 7, ip\<lparr>i_size := 0\<rparr>, u)"
    using write_empty [OF z ne f reg, of ?c] unfolding x e by (simp add: EIO_def)
  have "EIO \<noteq> 0" "EIO \<noteq> ENOSPC \<or> P" for P by (simp_all add: EIO_def ENOSPC_def)
  from write_retry_panics [OF ok z reg f _ w this, of "\<lambda>ip o1 n h t bs v. (0, [], v)"] show ?thesis using w by auto
qed

end
