(* ===== verification/Spec2Isabelle.thy ===== *)
theory Spec2Isabelle
  imports Ext2_CreateProps Ext2_SuperProps Ext2_WriteProps
begin

text \<open>
  A verification development for the ext2 file system of this repository: a kernel extension under \<^verbatim>\<open>src/kext\<close>
  (with its structures under \<^verbatim>\<open>src/include/fs/ext2fs\<close>) that the kernel calls through the VFS interface, and command line
  tools under \<^verbatim>\<open>src/fs\<close> and \<^verbatim>\<open>src/tools\<close>. The kernel extension is modelled; the section on what is not modelled lists the
  rest.

  \<^bold>\<open>The parts of the driver and how they meet.\<close> A mount (\<^verbatim>\<open>struct ext2mount\<close>) has the superblock and the group
  descriptors in memory (\<^verbatim>\<open>struct m_ext2fs\<close>), the device vnode with its buffers, the hash of the inodes in core and one
  mutex. \<^verbatim>\<open>ext2_mountfs\<close> fills it, \<^verbatim>\<open>ext2_sbupdate\<close> and \<^verbatim>\<open>ext2_cgupdate\<close> write it back. The allocator changes bitmaps on
  the device and counters in memory. \<^verbatim>\<open>ext2_vget\<close> brings an inode into core through the inode hash and \<^verbatim>\<open>ext2_ei2i\<close>. The
  block maps (indirect blocks or extents) lead from a block of a file to one of the device; \<^verbatim>\<open>ext2_balloc\<close> and
  \<^verbatim>\<open>ext2_truncate\<close> change them through the allocator. Directories are files whose blocks hold entries.

  \<^bold>\<open>Conventions.\<close> \<^verbatim>\<open>Ext2_Prelude\<close> has the types: C's unsigned fields are words of their width, signed values are
  \<^typ>\<open>int\<close> with every narrowing written out (\<^const>\<open>s32\<close>, \<^const>\<open>s16\<close>, \<^const>\<open>word_of_int\<close>). A routine of the driver
  returns an \<^typ>\<open>'a outcome\<close>: \<^const>\<open>Ret\<close> with its results, error numbers among them, or \<^const>\<open>Fault\<close> for what C does not
  define or a kernel does not survive (a panic, an access outside an array, a null pointer, a division by zero, a mutex taken
  twice or released when free, a loop for ever). So a theorem that gives a \<^const>\<open>Ret\<close> also says that none of these
  happens. Results that C returns through pointers are components of the result, and what a routine changes (the mount with
  its device, the inode) is passed in and returned. The device is a map from addresses to blocks with read errors, write errors
  and failing buffer requests as functions of the address (\<^verbatim>\<open>Ext2_Types\<close>).

  \<^bold>\<open>Theories.\<close>
  \<^item> \<^verbatim>\<open>Ext2_Types\<close>: the structures of \<^verbatim>\<open>ext2fs.h\<close>, \<^verbatim>\<open>ext2_dinode.h\<close>, \<^verbatim>\<open>inode.h\<close>, \<^verbatim>\<open>ext2_extents.h\<close>, \<^verbatim>\<open>ext2_mount.h\<close> as records, field by
    field. \<^verbatim>\<open>Ext2_Geom\<close>: the macros of \<^verbatim>\<open>fs.h\<close>. \<^verbatim>\<open>Ext2_Bytes\<close>: ranges of buffers and little-endian fields.
  \<^item> \<^verbatim>\<open>Ext2_Bitmap\<close>, \<^verbatim>\<open>Ext2_Cluster\<close>, \<^verbatim>\<open>Ext2_Alloc\<close>: \<^verbatim>\<open>ext2_alloc.c\<close> for blocks and \<^verbatim>\<open>ext2_clusteracct\<close> of \<^verbatim>\<open>ext2_subr.c\<close>, with the
    searches of the bitmap proved to find a free block, or a run of eight, exactly when there is one. \<^verbatim>\<open>Ext2_Blocks\<close>: the
    bitmaps as one set of blocks (\<^verbatim>\<open>block_set\<close>), the invariant \<^verbatim>\<open>blocks_ok\<close> (counters equal the clear bits, cluster summaries within
    bounds, bitmaps where no other group has them) and the locale \<^verbatim>\<open>group_allocator\<close>, the contract of a routine that allocates in
    one group, from which \<^verbatim>\<open>ext2_hashalloc\<close> is proved to reach every group. \<^verbatim>\<open>Ext2_BlockProps\<close>: the theorems about
    \<^verbatim>\<open>ext2_alloc\<close> and \<^verbatim>\<open>ext2_blkfree\<close>, and all sequences of them.
  \<^item> \<^verbatim>\<open>Ext2_Ialloc\<close>, \<^verbatim>\<open>Ext2_InodeSet\<close>: \<^verbatim>\<open>ext2_alloc.c\<close> for inodes; \<^verbatim>\<open>ext2_nodealloccg\<close> is the second interpretation of
    \<^verbatim>\<open>group_allocator\<close>.
  \<^item> \<^verbatim>\<open>Ext2_Bmap\<close>: \<^verbatim>\<open>ext2_bmap.c\<close> without extents; the map of a file is a tree (\<^verbatim>\<open>tree_get\<close>) and \<^verbatim>\<open>ext2_bmaparray\<close> is proved to
    implement it. \<^verbatim>\<open>Ext2_Extents\<close>: reading extent trees of any depth, from \<^verbatim>\<open>ext2_extents.c\<close>, \<^verbatim>\<open>ext2_bmap.c\<close> and \<^verbatim>\<open>ext2_subr.c\<close>.
  \<^item> \<^verbatim>\<open>Ext2_Tree\<close>: the blocks a file owns, the invariant that ties them to the bitmaps, and what an operation on a volume
    leaves alone (\<^verbatim>\<open>keeps\<close>). \<^verbatim>\<open>Ext2_Indir\<close>: \<^verbatim>\<open>ext2_indirtrunc\<close> of \<^verbatim>\<open>ext2_inode.c\<close>. \<^verbatim>\<open>Ext2_Balloc\<close>: \<^verbatim>\<open>ext2_balloc.c\<close>.
    \<^verbatim>\<open>Ext2_BallocProps\<close>: what it does to a file whose blocks its trees own.
  \<^item> \<^verbatim>\<open>Ext2_ExtEdit\<close>: the part of \<^verbatim>\<open>ext2_extents.c\<close> that changes a tree. \<^verbatim>\<open>Ext2_Inode\<close>: the rest of \<^verbatim>\<open>ext2_inode.c\<close>.
    \<^verbatim>\<open>Ext2_InodeProps\<close>, \<^verbatim>\<open>Ext2_Truncate\<close>: writing an inode back, and cutting a file without extents.
  \<^item> \<^verbatim>\<open>Ext2_InodeCnv\<close>: \<^verbatim>\<open>ext2_inode_cnv.c\<close> and the layout of inodes on disk.
  \<^item> \<^verbatim>\<open>Ext2_Super\<close>, \<^verbatim>\<open>Ext2_SuperProps\<close>: \<^verbatim>\<open>ext2_vfsops.c\<close> for mount, unmount, the superblock, the descriptors and the journal replay.
  \<^item> \<^verbatim>\<open>Ext2_Ihash\<close>: \<^verbatim>\<open>ext2_ihash.c\<close> with its chains as pointers in a heap; the locale \<^verbatim>\<open>inode_table\<close> is what callers see of it.
    \<^verbatim>\<open>Ext2_Vget\<close>, \<^verbatim>\<open>Ext2_VgetProps\<close>: \<^verbatim>\<open>ext2_vget\<close>, file handles, and \<^verbatim>\<open>ext2_valloc\<close> as a whole.
  \<^item> \<^verbatim>\<open>Ext2_Dir\<close>: \<^verbatim>\<open>ext2_lookup.c\<close> and \<^verbatim>\<open>ext2_meta_read\<close> of \<^verbatim>\<open>ext2_readwrite.c\<close>, on the bytes of the blocks. \<^verbatim>\<open>Ext2_DirProps\<close>: a block as
    a list of entries, a directory as a map from names to inodes, the locale \<^verbatim>\<open>dir_blocks\<close> (what a directory relies on from the
    block map) and the search. \<^verbatim>\<open>Ext2_DirOps\<close>: entering, removing, rewriting. \<^verbatim>\<open>Ext2_DirSlot\<close>: the place of a new name, specified as
    the first fit over the lists of entries, and the block a directory grows by. \<^verbatim>\<open>Ext2_DirWalk\<close>: the reading operations.
    \<^verbatim>\<open>Ext2_DirClaims\<close>: the properties, for directories with direct blocks.
  \<^item> \<^verbatim>\<open>Ext2_Write\<close>, \<^verbatim>\<open>Ext2_WriteProps\<close>: the rest of \<^verbatim>\<open>ext2_readwrite.c\<close>, and what extending a file does to it.
  \<^item> \<^verbatim>\<open>Ext2_Vnops\<close>: \<^verbatim>\<open>ext2_vnops.c\<close>, each operation composed of those of the other theories; the vnodes of \<^verbatim>\<open>ext2_rename\<close> are
    places in a store, because two of them may be one. \<^verbatim>\<open>Ext2_VnopProps\<close>: renaming over a file, within a directory and between two.
    \<^verbatim>\<open>Ext2_CreateProps\<close>: \<^verbatim>\<open>ext2_create\<close> from the bitmap to the directory.

  \<^bold>\<open>What the lemmas show.\<close> For blocks and inodes: nothing is handed out twice, counters and bitmaps agree after every
  operation, and allocation fails only when there is nothing to give. For files: both block maps are the maps their trees stand
  for; releasing an indirect block frees exactly the blocks past the position given, each once; \<^verbatim>\<open>ext2_balloc\<close> maps
  exactly the block asked for, to a block that was free or to the one it had, and leaves every other block alone; \<^verbatim>\<open>ext2_truncate\<close>
  frees exactly the blocks past the new end and zeroes the rest of the last one.
  For directories:
  every operation acts on the map from names to inodes as it should, whatever the layout of the entries in the
  blocks. For inodes: an inode written to its slot is read back with all its fields, and what reading and writing back drops is stated exactly; the hash is one list, and has
  one inode for a number as long as calls do not interleave. For the mount: what it accepts, within bounds of the superblock
  that it does not check and the theorem names, has the geometry all other theorems
  assume, and mounting and unmounting keep the state word of the volume. For the operations of the VFS layer: creating a file and
  renaming over one are followed through all of these structures at once. Where the code deviates from what it means to do, some
  theorems, each with a witness, show that it does.

  \<^bold>\<open>Loops and bounds.\<close> Loops are recursive functions with a termination measure, or \<^theory_text>\<open>partial_function\<close> where they need
  not end: the walk of \<^verbatim>\<open>ext2_checkpath\<close> to the root, the repeated lookup of \<^verbatim>\<open>ext2_ihashget\<close> and the table size of
  \<^verbatim>\<open>ext2_ihashinit\<close>. For these the theorems say when they end. Recursion over the levels of indirect blocks follows the level,
  which is at most three.

  \<^bold>\<open>Not modelled.\<close>
  \<^item> Concurrency beyond the interleavings named: the mutex of the mount is part of the state, so wrong locking is a fault,
    but one thread runs at a time; the inode hash and \<^verbatim>\<open>ext2_vget\<close> are the exception.
  \<^item> The buffer cache: a read sees the last write, delayed or not. A buffer of a file's own vnode is an argument of
    \<^verbatim>\<open>ext2_balloc\<close>. The kernel's own services (vnodes, the name cache, \<^verbatim>\<open>ubc\<close>, random numbers, clocks) are arguments or left out
    where nothing in the model depends on them. A synchronous write that fails still changes the block in the model, since what
    is read later is the buffer; a real cache may drop it.
  \<^item> Some widths. The cluster counters (\<^verbatim>\<open>int32_t\<close>) are integers without a bound, since the number of blocks of a group bounds
    them; shifts of the time words that C does not define on signed values are those of machine words, and so is the shift by a
    negative amount in \<^verbatim>\<open>ext2_clusteracct\<close> for block 0; inode numbers are 32 bits wide also where an \<^verbatim>\<open>ino_t\<close> is passed.
  \<^item> Changing extent trees is modelled but has no correctness theorem; it deviates from what it means to do in many places.
  \<^item> \<^verbatim>\<open>ext2_strategy\<close>, which hands a buffer to the device; the tables of operations, registration and start of the extension
    (\<^verbatim>\<open>ext2fs.c\<close>); the programs under \<^verbatim>\<open>src/fs\<close> and \<^verbatim>\<open>src/tools\<close>.
\<close>

end
